(* ===== verification/Prelude.thy ===== *)
theory Prelude
  imports Main "HOL-Library.Word"
begin

text \<open>
  Shared vocabulary of the development. \<open>outcome\<close> is the result of a computation that
  may fail with an error of its own or run out of the fuel it was given; \<open>bindo\<close> sequences
  such computations and \<open>sbind\<close> sequences computations whose result is a sum (an error on the
  left). The splitting lemmas below are what the component proofs use to walk through a
  sequence of steps. The named collections gather the facts a group of proofs shares.
\<close>

unbundle bit_operations_syntax

named_theorems bind_simps \<open>inversion of a sequenced computation into its steps\<close>
named_theorems float_simps \<open>evaluation of the binary64 operations\<close>
named_theorems nanbox_simps \<open>constants of the NaN-boxed layout\<close>
named_theorems heap_simps \<open>reading and writing the object heap\<close>

subsection \<open>Outcomes\<close>

datatype ('e, 'a) outcome = Ok 'a | Error 'e | Timeout

fun bindo :: "('e, 'a) outcome \<Rightarrow> ('a \<Rightarrow> ('e, 'b) outcome) \<Rightarrow> ('e, 'b) outcome" where
  "bindo (Ok x) f = f x"
| "bindo (Error e) f = Error e"
| "bindo Timeout f = Timeout"

lemma bindo_eq_Ok [bind_simps]: "bindo m f = Ok y \<longleftrightarrow> (\<exists>x. m = Ok x \<and> f x = Ok y)"
  by (cases m) auto

lemma bindo_eq_Error [bind_simps]:
  "bindo m f = Error e \<longleftrightarrow> m = Error e \<or> (\<exists>x. m = Ok x \<and> f x = Error e)"
  by (cases m) auto

lemma bindo_eq_Timeout [bind_simps]:
  "bindo m f = Timeout \<longleftrightarrow> m = Timeout \<or> (\<exists>x. m = Ok x \<and> f x = Timeout)"
  by (cases m) auto

lemma bindo_cong [fundef_cong]:
  "m = m' \<Longrightarrow> (\<And>x. m' = Ok x \<Longrightarrow> f x = f' x) \<Longrightarrow> bindo m f = bindo m' f'"
  by (cases m') auto

subsection \<open>Sums as error results\<close>

fun sbind :: "'e + 'a \<Rightarrow> ('a \<Rightarrow> 'e + 'b) \<Rightarrow> 'e + 'b" where
  "sbind (Inl e) f = Inl e"
| "sbind (Inr x) f = f x"

lemma sbind_eq_Inr [bind_simps]: "sbind m f = Inr y \<longleftrightarrow> (\<exists>x. m = Inr x \<and> f x = Inr y)"
  by (cases m) auto

lemma sbind_eq_Inl [bind_simps]:
  "sbind m f = Inl e \<longleftrightarrow> m = Inl e \<or> (\<exists>x. m = Inr x \<and> f x = Inl e)"
  by (cases m) auto

lemma sbind_cong [fundef_cong]:
  "m = m' \<Longrightarrow> (\<And>x. m' = Inr x \<Longrightarrow> f x = f' x) \<Longrightarrow> sbind m f = sbind m' f'"
  by (cases m') auto

subsection \<open>Decimal digits of a number\<close>

text \<open>\<open>std::to_string\<close> of an integer: a sign and decimal digits without leading zeros.\<close>

definition digit_char :: "nat \<Rightarrow> char" where
  "digit_char d = char_of (48 + d)"

fun nat_digits :: "nat \<Rightarrow> string" where
  "nat_digits n =
     (if n < 10 then [digit_char n] else nat_digits (n div 10) @ [digit_char (n mod 10)])"

declare nat_digits.simps [simp del]

definition int_digits :: "int \<Rightarrow> string" where
  "int_digits i = (if i < 0 then CHR ''-'' # nat_digits (nat (- i)) else nat_digits (nat i))"

text \<open>The value of a string of decimal digits, and the two directions of the round trip.\<close>

definition digit_value :: "char \<Rightarrow> nat" where
  "digit_value c = of_char c - 48"

definition digits_value :: "string \<Rightarrow> nat" where
  "digits_value cs = foldl (\<lambda>n c. 10 * n + digit_value c) 0 cs"

lemma digit_value_digit_char [simp]: "d < 10 \<Longrightarrow> digit_value (digit_char d) = d"
  by (simp add: digit_value_def digit_char_def)

lemma digits_value_append_one [simp]:
  "digits_value (cs @ [c]) = 10 * digits_value cs + digit_value c"
  by (simp add: digits_value_def)

lemma digits_value_nat_digits: "digits_value (nat_digits n) = n"
proof (induction n rule: nat_digits.induct)
  case (1 n)
  show ?case
  proof (cases "n < 10")
    case True
    then show ?thesis by (simp add: nat_digits.simps [of n] digits_value_def)
  next
    case False
    with "1.IH" show ?thesis by (simp add: nat_digits.simps [of n])
  qed
qed

lemma nat_digits_inject: "nat_digits m = nat_digits n \<longleftrightarrow> m = n"
  by (metis digits_value_nat_digits)

end
