(* ===== verification/Float64.thy ===== *)
theory Float64
  imports Prelude "HOL-Library.Char_ord"
begin

text \<open>
  The C++ \<open>double\<close> of the program: IEEE 754 binary64 with round to nearest, ties to even, as a
  64-bit word. Every finite double is an integer multiple of \<open>2 ^ -1074\<close>, so the exact result of an
  operation is an integer or a ratio of integers in that unit, and one function, \<open>round_pos\<close>,
  rounds it. The decimal conversions \<open>strtod\<close> (plain digits with one point) and
  \<open>printf "%.*g"\<close> are defined with the same exact arithmetic. A NaN result is the quiet NaN with an
  empty payload: which NaN the hardware produces is not observable in the program, because boxing,
  printing and equality treat all NaNs alike.
\<close>

type_synonym double = "64 word"

subsection \<open>Fields and classes of a double\<close>

definition f_sign :: "double \<Rightarrow> bool" where
  "f_sign x = bit x 63"

definition f_exp :: "double \<Rightarrow> int" where
  "f_exp x = uint (drop_bit 52 x AND 0x7FF)"

definition f_man :: "double \<Rightarrow> int" where
  "f_man x = uint (x AND 0xFFFFFFFFFFFFF)"

definition isnan :: "double \<Rightarrow> bool" where
  "isnan x \<longleftrightarrow> f_exp x = 2047 \<and> f_man x \<noteq> 0"

definition isinf :: "double \<Rightarrow> bool" where
  "isinf x \<longleftrightarrow> f_exp x = 2047 \<and> f_man x = 0"

text \<open>
  The magnitude in units of \<open>2 ^ -1074\<close>. An infinity gets the next value after the largest finite
  double, which is what ordering and overflow need.
\<close>

definition f_mag :: "double \<Rightarrow> int" where
  "f_mag x = (if f_exp x = 0 then f_man x else (2 ^ 52 + f_man x) * 2 ^ nat (f_exp x - 1))"

definition f_val :: "double \<Rightarrow> int" where
  "f_val x = (if f_sign x then - f_mag x else f_mag x)"

definition f_nan :: double where "f_nan = 0x7FF8000000000000"

definition mk_double :: "bool \<Rightarrow> int \<Rightarrow> double" where
  "mk_double s bits = (if s then 0x8000000000000000 else 0) OR of_int bits"

subsection \<open>Rounding\<close>

fun bit_length :: "int \<Rightarrow> nat" where
  "bit_length n = (if n \<le> 0 then 0 else Suc (bit_length (n div 2)))"

declare bit_length.simps [simp del]

text \<open>
  \<open>round_pos p q\<close> rounds \<open>p / q\<close> units to a double and returns its low 63 bits. With \<open>2 ^ e\<close> the
  spacing of doubles around the value and \<open>m\<close> the rounded multiple of it, the bit pattern is
  \<open>e * 2 ^ 52 + m\<close>: for \<open>e = 0\<close> this covers the subnormal numbers, and a carry out of the mantissa
  moves to the next exponent by itself. Everything past the largest finite double is the infinity.
\<close>

definition round_half_even :: "int \<Rightarrow> int \<Rightarrow> int" where
  "round_half_even p d =
     (let m = p div d; r = p mod d
      in if 2 * r < d then m else if d < 2 * r then m + 1 else if even m then m else m + 1)"

definition spacing :: "int \<Rightarrow> int \<Rightarrow> nat" where
  "spacing p q = bit_length (p div q) - 53"

definition inf_bits :: int where "inf_bits = 2047 * 2 ^ 52"

definition round_pos :: "int \<Rightarrow> int \<Rightarrow> int" where
  "round_pos p q =
     (let e = spacing p q in min inf_bits (int e * 2 ^ 52 + round_half_even p (q * 2 ^ e)))"

subsection \<open>Arithmetic\<close>

definition fneg :: "double \<Rightarrow> double" where
  "fneg x = x XOR 0x8000000000000000"

definition f_of_val :: "bool \<Rightarrow> int \<Rightarrow> double" where
  "f_of_val zs v = mk_double (if v = 0 then zs else v < 0) (round_pos \<bar>v\<bar> 1)"

definition fadd :: "double \<Rightarrow> double \<Rightarrow> double" where
  "fadd x y =
     (if isnan x \<or> isnan y then f_nan
      else if isinf x then (if isinf y \<and> f_sign x \<noteq> f_sign y then f_nan else x)
      else if isinf y then y
      else f_of_val (f_sign x \<and> f_sign y) (f_val x + f_val y))"

definition fsub :: "double \<Rightarrow> double \<Rightarrow> double" where
  "fsub x y = (if isnan y then f_nan else fadd x (fneg y))"

definition f_iszero :: "double \<Rightarrow> bool" where
  "f_iszero x \<longleftrightarrow> f_mag x = 0"

definition fmul :: "double \<Rightarrow> double \<Rightarrow> double" where
  "fmul x y =
     (let s = (f_sign x \<noteq> f_sign y)
      in if isnan x \<or> isnan y then f_nan
         else if isinf x \<or> isinf y
           then (if f_iszero x \<or> f_iszero y then f_nan else mk_double s inf_bits)
         else mk_double s (round_pos (f_mag x * f_mag y) (2 ^ 1074)))"

definition fdiv :: "double \<Rightarrow> double \<Rightarrow> double" where
  "fdiv x y =
     (let s = (f_sign x \<noteq> f_sign y)
      in if isnan x \<or> isnan y then f_nan
         else if isinf x then (if isinf y then f_nan else mk_double s inf_bits)
         else if isinf y then mk_double s 0
         else if f_iszero y then (if f_iszero x then f_nan else mk_double s inf_bits)
         else mk_double s (round_pos (f_mag x * 2 ^ 1074) (f_mag y)))"

definition feq :: "double \<Rightarrow> double \<Rightarrow> bool" where
  "feq x y \<longleftrightarrow> \<not> isnan x \<and> \<not> isnan y \<and> f_val x = f_val y"

definition flt :: "double \<Rightarrow> double \<Rightarrow> bool" where
  "flt x y \<longleftrightarrow> \<not> isnan x \<and> \<not> isnan y \<and> f_val x < f_val y"

definition fle :: "double \<Rightarrow> double \<Rightarrow> bool" where
  "fle x y \<longleftrightarrow> \<not> isnan x \<and> \<not> isnan y \<and> f_val x \<le> f_val y"

text \<open>\<open>static_cast<double>\<close> of an \<open>int32_t\<close>.\<close>

definition f_of_int32 :: "32 word \<Rightarrow> double" where
  "f_of_int32 w = f_of_val False (sint w * 2 ^ 1074)"

subsection \<open>Facts about the encoding\<close>

lemma and_0x7FF: "(x::64 word) AND 0x7FF = take_bit 11 x"
  by (simp add: take_bit_eq_mask mask_eq_exp_minus_1)

lemma and_man: "(x::64 word) AND 0xFFFFFFFFFFFFF = take_bit 52 x"
  by (simp add: take_bit_eq_mask mask_eq_exp_minus_1)

lemma f_exp_eq: "f_exp x = uint x div 2 ^ 52 mod 2 ^ 11"
proof -
  have u: "take_bit 64 (uint x) = uint x"
    using uint_lt2p [of x] by (simp add: take_bit_int_eq_self_iff)
  have "f_exp x = take_bit 11 (drop_bit 52 (uint x))"
    unfolding f_exp_def and_0x7FF by (simp add: unsigned_take_bit_eq unsigned_drop_bit_eq u)
  then show ?thesis by (simp only: take_bit_eq_mod drop_bit_eq_div)
qed

lemma f_man_eq: "f_man x = uint x mod 2 ^ 52"
proof -
  have "f_man x = take_bit 52 (uint x)"
    unfolding f_man_def and_man by (simp only: unsigned_take_bit_eq)
  then show ?thesis by (simp only: take_bit_eq_mod)
qed

lemma f_sign_eq: "f_sign x \<longleftrightarrow> 2 ^ 63 \<le> uint x"
proof -
  have "bit x 63 = bit (uint x) 63" by (simp add: bit_uint_iff)
  then have "bit x 63 = odd (uint x div 2 ^ 63)" by (simp only: bit_iff_odd)
  then have b: "f_sign x \<longleftrightarrow> odd (uint x div 9223372036854775808)" by (simp add: f_sign_def)
  have "uint x < 18446744073709551616" "0 \<le> uint x" using uint_lt2p [of x] by simp_all
  then have "uint x div 9223372036854775808 = (if 9223372036854775808 \<le> uint x then 1 else 0)"
    by (auto simp: div_pos_pos_trivial) 
  with b show ?thesis by simp
qed

lemma uint_mk_double:
  assumes "0 \<le> b" "b < 2 ^ 63"
  shows "uint (mk_double s b) = (if s then 2 ^ 63 else 0) + b"
proof -
  have u: "uint (word_of_int b :: double) = b"
    using assms by (simp add: unsigned_of_int take_bit_int_eq_self)
  show ?thesis
  proof (cases s)
    case True
    have c: "(0x8000000000000000 :: 64 word) = 2 ^ 63" by simp
    have "uint ((2 ^ 63 :: 64 word) OR word_of_int b) = (2 ^ 63 :: int) OR b"
      using u by (simp add: unsigned_or_eq)
    also have "\<dots> = 2 ^ 63 + b"
    proof (rule disjunctive_add [symmetric])
      fix n
      have "take_bit 63 b = b" using assms by (simp add: take_bit_int_eq_self)
      then have "\<not> bit b n" if "63 \<le> n"
        using that by (metis bit_take_bit_iff not_less)
      moreover have "bit (2 ^ 63 :: int) n \<longleftrightarrow> n = 63" by (simp only: bit_exp_iff) simp
      ultimately show "\<not> bit (2 ^ 63 :: int) n \<or> \<not> bit b n" by auto
    qed
    finally show ?thesis using True by (simp only: mk_double_def c if_True)
  next
    case False
    then show ?thesis using u by (simp add: mk_double_def)
  qed
qed

lemma mk_double_fields:
  assumes "0 \<le> b" "b < 2 ^ 63"
  shows "f_sign (mk_double s b) = s"
    and "f_exp (mk_double s b) = b div 2 ^ 52"
    and "f_man (mk_double s b) = b mod 2 ^ 52"
proof -
  show "f_sign (mk_double s b) = s"
    unfolding f_sign_eq uint_mk_double [OF assms] using assms by (cases s) auto
  have "(2 ^ 63 + b) div 2 ^ 52 = 2 ^ 11 + b div (2 ^ 52 :: int)" by simp
  moreover have "0 \<le> b div 2 ^ 52" "b div 2 ^ 52 < 2 ^ 11" using assms by auto
  ultimately show "f_exp (mk_double s b) = b div 2 ^ 52"
    unfolding f_exp_eq uint_mk_double [OF assms] by (cases s) (auto simp: mod_pos_pos_trivial)
  show "f_man (mk_double s b) = b mod 2 ^ 52"
    unfolding f_man_eq uint_mk_double [OF assms]
    using mod_mult_self1 [of b "2 ^ 11" "2 ^ 52"] by (cases s) (simp_all add: add.commute)
qed

lemma bit_length_bounds: "0 < n \<Longrightarrow> 2 ^ (bit_length n - 1) \<le> n \<and> n < 2 ^ bit_length n"
proof (induction n rule: bit_length.induct)
  case (1 n)
  show ?case
  proof (cases "n = 1")
    case True
    then show ?thesis by (simp add: bit_length.simps)
  next
    case False
    with "1.prems" have h: "0 < n div 2" by simp
    with "1.IH" "1.prems" have ih: "2 ^ (bit_length (n div 2) - 1) \<le> n div 2" "n div 2 < 2 ^ bit_length (n div 2)"
      by auto
    obtain k where k: "bit_length (n div 2) = Suc k"
      using h by (metis bit_length.simps not_le)
    have "bit_length n = Suc (Suc k)" using "1.prems" k by (simp add: bit_length.simps [of n])
    with ih k show ?thesis by auto
  qed
qed

lemma bit_length_le: "n < 2 ^ k \<Longrightarrow> bit_length n \<le> k"
proof (rule ccontr)
  assume n: "n < 2 ^ k" and "\<not> bit_length n \<le> k"
  then have k: "k \<le> bit_length n - 1" and "0 < n" 
    by (auto simp: bit_length.simps [of n] split: if_splits)
  have "(2::int) ^ k \<le> 2 ^ (bit_length n - 1)" using k by (simp add: power_increasing)
  also have "\<dots> \<le> n" using bit_length_bounds [OF \<open>0 < n\<close>] by blast
  finally show False using n by simp
qed

lemma bit_length_0 [simp]: "bit_length 0 = 0"
  by (simp add: bit_length.simps [of 0])

lemma round_half_even_exact: "0 < d \<Longrightarrow> d dvd p \<Longrightarrow> round_half_even p d = p div d"
  by (simp add: round_half_even_def)

text \<open>An integer that needs at most 53 significant bits is represented exactly.\<close>

lemma round_pos_exact:
  assumes n: "0 \<le> n" "n < 2 ^ 2098" and dv: "2 ^ (bit_length n - 53) dvd n"
  defines "e \<equiv> bit_length n - 53"
  shows "round_pos n 1 = int e * 2 ^ 52 + n div 2 ^ e"
    and "round_pos n 1 < inf_bits"
    and "f_mag (mk_double s (round_pos n 1)) = n"
proof -
  have e: "e \<le> 2045" using bit_length_le [OF n(2)] by (simp add: e_def)
  obtain q where nq: "n = 2 ^ e * q" using dv unfolding e_def by (rule dvdE)
  have nd: "n div 2 ^ e = q" unfolding nq by (rule nonzero_mult_div_cancel_left) simp
  have q0: "0 \<le> q" using n(1) unfolding nq by (simp add: zero_le_mult_iff)
  have lt: "q < 2 ^ 53"
  proof (cases "n = 0")
    case True
    then show ?thesis unfolding nq by simp
  next
    case False
    then have "n < 2 ^ bit_length n" using bit_length_bounds [of n] n by auto
    also have "\<dots> \<le> 2 ^ (e + 53)" by (rule power_increasing) (simp_all add: e_def)
    also have "\<dots> = 2 ^ e * 2 ^ 53" by (rule power_add)
    finally have "2 ^ e * q < 2 ^ e * 2 ^ 53" unfolding nq .
    then show ?thesis by (rule mult_left_less_imp_less) simp
  qed
  have ge: "2 ^ 52 \<le> q" if "e \<noteq> 0"
  proof -
    have "n \<noteq> 0" using that by (auto simp: e_def)
    then have "2 ^ (bit_length n - 1) \<le> n" using bit_length_bounds [of n] n by auto
    moreover have "bit_length n - 1 = e + 52" using that by (simp add: e_def)
    ultimately have "2 ^ e * 2 ^ 52 \<le> 2 ^ e * q" unfolding nq [symmetric] by (simp only: power_add)
    then show ?thesis by (rule mult_left_le_imp_le) simp
  qed
  have b: "int e * 2 ^ 52 + q < inf_bits" using lt e by (simp add: inf_bits_def)
  have h: "round_half_even n (2 ^ e) = q"
    using round_half_even_exact [of "2 ^ e" n] dv nd by (simp add: e_def)
  have r: "round_pos n 1 = int e * 2 ^ 52 + q"
    using b h by (simp add: round_pos_def spacing_def Let_def e_def)
  then show "round_pos n 1 = int e * 2 ^ 52 + n div 2 ^ e" by (simp only: nd)
  show "round_pos n 1 < inf_bits" using b by (simp only: r)
  have rng: "0 \<le> int e * 2 ^ 52 + q" "int e * 2 ^ 52 + q < 2 ^ 63"
    using q0 b by (simp_all add: inf_bits_def)
  note fl = mk_double_fields [OF rng]
  show "f_mag (mk_double s (round_pos n 1)) = n"
  proof (cases "int e * 2 ^ 52 + q < 2 ^ 52")
    case True
    then have "e = 0" using q0 by auto
    with True q0 fl show ?thesis unfolding r
      by (simp add: f_mag_def div_pos_pos_trivial nq)
  next
    case False
    then have q: "2 ^ 52 \<le> q" "q < 2 ^ 53" using ge lt by (cases "e = 0"; simp)+
    then have d: "q div 2 ^ 52 = 1" and m: "q mod 2 ^ 52 = q - 2 ^ 52"
      using int_div_pos_eq [of q "2 ^ 52" 1 "q - 2 ^ 52"] int_mod_pos_eq [of q "2 ^ 52" 1 "q - 2 ^ 52"]
      by simp_all
    have "(int e * 2 ^ 52 + q) div 2 ^ 52 = int e + 1" using d by simp
    moreover have "(int e * 2 ^ 52 + q) mod 2 ^ 52 = q - 2 ^ 52" using m by simp
    ultimately show ?thesis unfolding r f_mag_def fl by (simp add: nq)
  qed
qed

lemma f_exp_range: "0 \<le> f_exp x" "f_exp x \<le> 2047"
  by (simp_all add: f_exp_eq)

lemma f_man_range: "0 \<le> f_man x" "f_man x < 2 ^ 52"
  by (simp_all add: f_man_eq)

lemma f_mag_nonneg [simp]: "0 \<le> f_mag x"
  using f_man_range [of x] by (simp add: f_mag_def)

lemma inf_bits_range: "0 \<le> inf_bits" "inf_bits < 2 ^ 63"
  by (simp_all add: inf_bits_def)

text \<open>A rounded result below the infinity is a finite number.\<close>

lemma finite_mk_double:
  assumes "0 \<le> b" "b < inf_bits"
  shows "\<not> isnan (mk_double s b)" "\<not> isinf (mk_double s b)"
proof -
  have b: "b < 2 ^ 63" using assms inf_bits_range by simp
  have "b div 2 ^ 52 < 2047" using assms by (simp add: inf_bits_def)
  then show "\<not> isnan (mk_double s b)" "\<not> isinf (mk_double s b)"
    using mk_double_fields(2) [OF assms(1) b] by (auto simp: isnan_def isinf_def)
qed

lemma round_pos_nonneg: "0 \<le> p \<Longrightarrow> 0 < q \<Longrightarrow> 0 \<le> round_pos p q"
  using inf_bits_range
  by (simp add: round_pos_def Let_def round_half_even_def pos_imp_zdiv_nonneg_iff)

lemma f_of_val_exact:
  assumes v: "\<bar>v\<bar> < 2 ^ 2098" "2 ^ (bit_length \<bar>v\<bar> - 53) dvd v"
  shows "f_val (f_of_val zs v) = v" "\<not> isnan (f_of_val zs v)" "\<not> isinf (f_of_val zs v)"
proof -
  define s where "s = (if v = 0 then zs else v < 0)"
  have d: "2 ^ (bit_length \<bar>v\<bar> - 53) dvd \<bar>v\<bar>" using v(2) by simp
  note r = round_pos_exact [OF abs_ge_zero v(1) d]
  have f: "f_of_val zs v = mk_double s (round_pos \<bar>v\<bar> 1)" by (simp add: f_of_val_def s_def)
  have n: "0 \<le> round_pos \<bar>v\<bar> 1" by (simp add: round_pos_nonneg)
  show "\<not> isnan (f_of_val zs v)" "\<not> isinf (f_of_val zs v)"
    unfolding f using finite_mk_double [OF n r(2)] by blast+
  have "f_sign (mk_double s (round_pos \<bar>v\<bar> 1)) = s"
    using mk_double_fields(1) [OF n] r(2) inf_bits_range by simp
  then show "f_val (f_of_val zs v) = v"
    unfolding f f_val_def r(3) by (auto simp: s_def)
qed

text \<open>Every 32-bit integer converts to a double exactly.\<close>

lemma f_of_int32_exact:
  "f_val (f_of_int32 w) = sint w * 2 ^ 1074" "\<not> isnan (f_of_int32 w)" "\<not> isinf (f_of_int32 w)"
proof -
  have w: "\<bar>sint w\<bar> < 2 ^ 32" using sint_range_size [of w] by (auto simp: word_size abs_less_iff)
  have b: "\<bar>sint w * 2 ^ 1074\<bar> < 2 ^ 1106"
  proof -
    have "\<bar>sint w * 2 ^ 1074\<bar> = \<bar>sint w\<bar> * 2 ^ 1074" by (simp only: abs_mult) simp
    also have "\<dots> < 2 ^ 32 * 2 ^ 1074" by (rule mult_strict_right_mono [OF w]) simp
    finally show ?thesis by simp
  qed
  then have "bit_length \<bar>sint w * 2 ^ 1074\<bar> - 53 \<le> 1074" using bit_length_le [OF b] by simp
  then have d: "2 ^ (bit_length \<bar>sint w * 2 ^ 1074\<bar> - 53) dvd sint w * 2 ^ 1074"
    by (intro dvd_mult le_imp_power_dvd)
  have b': "\<bar>sint w * 2 ^ 1074\<bar> < 2 ^ 2098" using b by simp
  show "f_val (f_of_int32 w) = sint w * 2 ^ 1074" "\<not> isnan (f_of_int32 w)" "\<not> isinf (f_of_int32 w)"
    unfolding f_of_int32_def using f_of_val_exact [OF b' d] by blast+
qed


subsection \<open>Decimal to binary: strtod\<close>

text \<open>
  \<open>strtod\<close> on the texts the program gives it: an optional minus sign, digits, an optional point
  with digits, and an optional exponent. The value is the decimal's, rounded once.
  \<open>strtod_erange\<close> says when \<open>errno\<close> becomes \<open>ERANGE\<close>: on overflow, and on an inexact result
  below the smallest normal number.
\<close>

definition isdigit :: "char \<Rightarrow> bool" where
  "isdigit c \<longleftrightarrow> CHR ''0'' \<le> c \<and> c \<le> CHR ''9''"

definition read_exponent :: "string \<Rightarrow> int" where
  "read_exponent s =
     (case s of
        c # CHR ''-'' # ds \<Rightarrow> if c = CHR ''e'' then - int (digits_value (takeWhile isdigit ds)) else 0
      | c # CHR ''+'' # ds \<Rightarrow> if c = CHR ''e'' then int (digits_value (takeWhile isdigit ds)) else 0
      | _ \<Rightarrow> 0)"

record decimal =
  dec_neg :: bool
  dec_digits :: int
  dec_exp :: int

definition read_decimal :: "string \<Rightarrow> decimal" where
  "read_decimal s =
     (let neg = (s \<noteq> [] \<and> hd s = CHR ''-''); u = (if neg then tl s else s);
          ip = takeWhile isdigit u; r = dropWhile isdigit u;
          point = (r \<noteq> [] \<and> hd r = CHR ''.'');
          fp = (if point then takeWhile isdigit (tl r) else []);
          r' = (if point then dropWhile isdigit (tl r) else r)
      in \<lparr>dec_neg = neg, dec_digits = int (digits_value (ip @ fp)),
          dec_exp = read_exponent r' - int (length fp)\<rparr>)"

text \<open>How many characters the sign, the digits, the point and the fraction take.\<close>

definition strtod_end :: "string \<Rightarrow> nat" where
  "strtod_end s =
     (let neg = (s \<noteq> [] \<and> hd s = CHR ''-''); u = (if neg then tl s else s);
          r = dropWhile isdigit u;
          r' = (if r \<noteq> [] \<and> hd r = CHR ''.'' then dropWhile isdigit (tl r) else r)
      in length s - length r')"

definition decimal_bits :: "int \<Rightarrow> int \<Rightarrow> int" where
  "decimal_bits n k =
     (if 0 \<le> k then round_pos (n * 10 ^ nat k * 2 ^ 1074) 1
      else round_pos (n * 2 ^ 1074) (10 ^ nat (- k)))"

definition strtod :: "string \<Rightarrow> double" where
  "strtod s = (let d = read_decimal s in mk_double (dec_neg d) (decimal_bits (dec_digits d) (dec_exp d)))"

definition strtod_erange :: "string \<Rightarrow> bool" where
  "strtod_erange s =
     (let d = read_decimal s; n = dec_digits d; k = dec_exp d; b = decimal_bits n k
      in b = inf_bits \<or>
         (b < 2 ^ 52 \<and>
          (if 0 \<le> k then b \<noteq> n * 10 ^ nat k * 2 ^ 1074 else b * 10 ^ nat (- k) \<noteq> n * 2 ^ 1074)))"

subsection \<open>Binary to decimal: printf with a precision\<close>

text \<open>
  \<open>snprintf("%.*g", p, x)\<close> for a finite \<open>x\<close>. \<open>dec_exponent\<close> is the decimal exponent of the leading
  digit, found on the value scaled by \<open>10 ^ 400\<close>, which is at least one for every positive double;
  \<open>dec_round\<close> rounds to \<open>p\<close> significant digits, ties to even, and carries into the next power of ten.
\<close>

definition dec_exponent :: "int \<Rightarrow> int" where
  "dec_exponent mag = int (length (nat_digits (nat (mag * 10 ^ 400 div 2 ^ 1074)))) - 401"

definition dec_round :: "nat \<Rightarrow> int \<Rightarrow> int \<times> int" where
  "dec_round p mag =
     (if mag = 0 then (0, 0)
      else
        let e = dec_exponent mag; k = int p - 1 - e;
            d = (if 0 \<le> k then round_half_even (mag * 10 ^ nat k) (2 ^ 1074)
                 else round_half_even mag (2 ^ 1074 * 10 ^ nat (- k)))
        in if d = 10 ^ p then (10 ^ (p - 1), e + 1) else (d, e))"

definition strip_zeros :: "string \<Rightarrow> string" where
  "strip_zeros s = rev (dropWhile (\<lambda>c. c = CHR ''0'') (rev s))"

definition with_fraction :: "string \<Rightarrow> string \<Rightarrow> string" where
  "with_fraction ip fp = (let f = strip_zeros fp in if f = [] then ip else ip @ CHR ''.'' # f)"

definition exponent_text :: "int \<Rightarrow> string" where
  "exponent_text e =
     (let ds = nat_digits (nat \<bar>e\<bar>)
      in CHR ''e'' # (if e < 0 then CHR ''-'' else CHR ''+'') #
         (if length ds < 2 then CHR ''0'' # ds else ds))"

definition printf_g :: "nat \<Rightarrow> double \<Rightarrow> string" where
  "printf_g p x =
     (let (d, e) = dec_round p (f_mag x);
          ds = nat_digits (nat d);
          body =
            (if d = 0 then ''0''
             else if - 4 \<le> e \<and> e < int p
             then (if 0 \<le> e
                   then with_fraction (take (nat e + 1) ds) (drop (nat e + 1) ds)
                   else with_fraction ''0'' (replicate (nat (- e - 1)) (CHR ''0'') @ ds))
             else with_fraction (take 1 ds) (drop 1 ds) @ exponent_text e)
      in if f_sign x then CHR ''-'' # body else body)"

end
