(* ===== verification/Lexer.thy ===== *)
theory Lexer
  imports Float64
begin

text \<open>
  \<open>token.h\<close>, \<open>token.cpp\<close>, \<open>diagnostic.h\<close> and \<open>lexer.cpp\<close>: tokens, compile errors and the lexer, one
  definition per member function of the class \<open>Lexer\<close>. A \<open>string_view\<close> into the source is the
  record \<open>sview\<close> of its offset and its text (the offset is what the resolver recovers a name's
  line from). The second half shows what a successful run promises: the tokens tile the source.
\<close>

subsection \<open>Tokens and diagnostics\<close>

datatype token_kind =
    TkLeftParen | TkRightParen | TkLeftBrace | TkRightBrace | TkLeftBracket | TkRightBracket
  | TkComma | TkSemicolon | TkPlus | TkMinus | TkStar | TkSlash | TkPercent
  | TkBang | TkBangEqual | TkEqual | TkEqualEqual | TkLess | TkLessEqual | TkGreater
  | TkGreaterEqual
  | TkIdentifier | TkInt | TkFloat | TkString
  | TkAnd | TkElse | TkFalse | TkFn | TkFor | TkIf | TkLet | TkNil | TkOr | TkPrint | TkReturn
  | TkTrue | TkWhile
  | TkEof

fun token_kind_name :: "token_kind \<Rightarrow> string" where
  "token_kind_name TkLeftParen = ''LeftParen''"
| "token_kind_name TkRightParen = ''RightParen''"
| "token_kind_name TkLeftBrace = ''LeftBrace''"
| "token_kind_name TkRightBrace = ''RightBrace''"
| "token_kind_name TkLeftBracket = ''LeftBracket''"
| "token_kind_name TkRightBracket = ''RightBracket''"
| "token_kind_name TkComma = ''Comma''"
| "token_kind_name TkSemicolon = ''Semicolon''"
| "token_kind_name TkPlus = ''Plus''"
| "token_kind_name TkMinus = ''Minus''"
| "token_kind_name TkStar = ''Star''"
| "token_kind_name TkSlash = ''Slash''"
| "token_kind_name TkPercent = ''Percent''"
| "token_kind_name TkBang = ''Bang''"
| "token_kind_name TkBangEqual = ''BangEqual''"
| "token_kind_name TkEqual = ''Equal''"
| "token_kind_name TkEqualEqual = ''EqualEqual''"
| "token_kind_name TkLess = ''Less''"
| "token_kind_name TkLessEqual = ''LessEqual''"
| "token_kind_name TkGreater = ''Greater''"
| "token_kind_name TkGreaterEqual = ''GreaterEqual''"
| "token_kind_name TkIdentifier = ''Identifier''"
| "token_kind_name TkInt = ''Int''"
| "token_kind_name TkFloat = ''Float''"
| "token_kind_name TkString = ''String''"
| "token_kind_name TkAnd = ''And''"
| "token_kind_name TkElse = ''Else''"
| "token_kind_name TkFalse = ''False''"
| "token_kind_name TkFn = ''Fn''"
| "token_kind_name TkFor = ''For''"
| "token_kind_name TkIf = ''If''"
| "token_kind_name TkLet = ''Let''"
| "token_kind_name TkNil = ''Nil''"
| "token_kind_name TkOr = ''Or''"
| "token_kind_name TkPrint = ''Print''"
| "token_kind_name TkReturn = ''Return''"
| "token_kind_name TkTrue = ''True''"
| "token_kind_name TkWhile = ''While''"
| "token_kind_name TkEof = ''Eof''"

record sview =
  sv_start :: nat
  sv_text :: string

record token =
  tk_kind :: token_kind
  tk_lexeme :: sview
  tk_line :: nat
  tk_int :: int
  tk_float :: double
  tk_string :: string

record compile_error =
  ce_line :: nat
  ce_message :: string

definition format_error :: "compile_error \<Rightarrow> string" where
  "format_error e = ''[line '' @ nat_digits (ce_line e) @ ''] compile error: '' @ ce_message e"

record runtime_error =
  re_line :: nat
  re_message :: string

definition format_runtime_error :: "runtime_error \<Rightarrow> string" where
  "format_runtime_error e =
     ''[line '' @ nat_digits (re_line e) @ ''] runtime error: '' @ re_message e"

subsection \<open>Characters and keywords\<close>

definition newline :: char where "newline = CHR 0x0A"

definition quoted :: "string \<Rightarrow> string" where
  "quoted s = CHR 0x27 # s @ [CHR 0x27]"

definition kMaxIntLiteral :: int where "kMaxIntLiteral = 2147483648"

definition is_digit :: "char \<Rightarrow> bool" where
  "is_digit c \<longleftrightarrow> CHR ''0'' \<le> c \<and> c \<le> CHR ''9''"

definition is_alpha :: "char \<Rightarrow> bool" where
  "is_alpha c \<longleftrightarrow>
     (CHR ''a'' \<le> c \<and> c \<le> CHR ''z'') \<or> (CHR ''A'' \<le> c \<and> c \<le> CHR ''Z'') \<or> c = CHR ''_''"

definition is_alnum :: "char \<Rightarrow> bool" where
  "is_alnum c \<longleftrightarrow> is_alpha c \<or> is_digit c"

definition kKeywords :: "(string \<times> token_kind) list" where
  "kKeywords =
     [(''and'', TkAnd), (''else'', TkElse), (''false'', TkFalse), (''fn'', TkFn),
      (''for'', TkFor), (''if'', TkIf), (''let'', TkLet), (''nil'', TkNil), (''or'', TkOr),
      (''print'', TkPrint), (''return'', TkReturn), (''true'', TkTrue), (''while'', TkWhile)]"

subsection \<open>The lexer\<close>

record lexer =
  lx_source :: string
  lx_start :: nat
  lx_current :: nat
  lx_line :: nat
  lx_start_line :: nat
  lx_tokens :: "token list"
  lx_error :: "compile_error option"

definition init_lexer :: "string \<Rightarrow> lexer" where
  "init_lexer src =
     \<lparr>lx_source = src, lx_start = 0, lx_current = 0, lx_line = 1, lx_start_line = 1,
      lx_tokens = [], lx_error = None\<rparr>"

definition at_end :: "lexer \<Rightarrow> bool" where
  "at_end s \<longleftrightarrow> length (lx_source s) \<le> lx_current s"

definition peek :: "lexer \<Rightarrow> char" where
  "peek s = (if at_end s then CHR 0x00 else lx_source s ! lx_current s)"

definition peek_next :: "lexer \<Rightarrow> char" where
  "peek_next s =
     (if length (lx_source s) \<le> lx_current s + 1 then CHR 0x00
      else lx_source s ! (lx_current s + 1))"

text \<open>\<open>++current_\<close>; \<open>advance\<close> is it together with reading the character, never at the end.\<close>

definition bump :: "lexer \<Rightarrow> lexer" where
  "bump s = s\<lparr>lx_current := lx_current s + 1\<rparr>"

definition next_line :: "lexer \<Rightarrow> lexer" where
  "next_line s = s\<lparr>lx_line := lx_line s + 1\<rparr>"

definition lx_match :: "char \<Rightarrow> lexer \<Rightarrow> bool \<times> lexer" where
  "lx_match expected s = (if peek s \<noteq> expected then (False, s) else (True, bump s))"

definition lexeme :: "lexer \<Rightarrow> sview" where
  "lexeme s =
     \<lparr>sv_start = lx_start s,
      sv_text = take (lx_current s - lx_start s) (drop (lx_start s) (lx_source s))\<rparr>"

definition mk_token :: "token_kind \<Rightarrow> lexer \<Rightarrow> token" where
  "mk_token k s =
     \<lparr>tk_kind = k, tk_lexeme = lexeme s, tk_line = lx_start_line s, tk_int = 0, tk_float = 0,
      tk_string = []\<rparr>"

definition push_token :: "token \<Rightarrow> lexer \<Rightarrow> lexer" where
  "push_token t s = s\<lparr>lx_tokens := lx_tokens s @ [t]\<rparr>"

definition add_token :: "token_kind \<Rightarrow> lexer \<Rightarrow> lexer" where
  "add_token k s = push_token (mk_token k s) s"

definition lx_fail :: "nat \<Rightarrow> string \<Rightarrow> lexer \<Rightarrow> lexer" where
  "lx_fail l msg s = s\<lparr>lx_error := Some \<lparr>ce_line = l, ce_message = msg\<rparr>\<rparr>"

text \<open>\<open>while (!at_end() && p(peek())) ++current_\<close>, the loop over digits, names and comments.\<close>

function scan_while :: "(char \<Rightarrow> bool) \<Rightarrow> lexer \<Rightarrow> lexer" where
  "scan_while p s = (if \<not> at_end s \<and> p (peek s) then scan_while p (bump s) else s)"
  by pat_completeness auto
termination
  by (relation "measure (\<lambda>(p, s). length (lx_source s) - lx_current s)")
    (auto simp: at_end_def bump_def)

declare scan_while.simps [simp del]

lemma scan_while_eq:
  "scan_while p s =
     s\<lparr>lx_current := lx_current s + length (takeWhile p (drop (lx_current s) (lx_source s)))\<rparr>"
proof (induction p s rule: scan_while.induct)
  case (1 p s)
  show ?case
  proof (cases "\<not> at_end s \<and> p (peek s)")
    case True
    then have d: "drop (lx_current s) (lx_source s) = peek s # drop (lx_current s + 1) (lx_source s)"
      by (simp add: at_end_def peek_def Cons_nth_drop_Suc)
    show ?thesis using True "1.IH" by (simp add: scan_while.simps [of p s] d bump_def)
  next
    case stop: False
    have "takeWhile p (drop (lx_current s) (lx_source s)) = []"
    proof (cases "at_end s")
      case True
      then show ?thesis by (simp add: at_end_def)
    next
      case False
      then have "drop (lx_current s) (lx_source s) = peek s # drop (lx_current s + 1) (lx_source s)"
        by (simp add: at_end_def peek_def Cons_nth_drop_Suc)
      then show ?thesis using False stop by simp
    qed
    then show ?thesis using stop by (auto simp: scan_while.simps [of p s])
  qed
qed

definition skip_comment :: "lexer \<Rightarrow> lexer" where
  "skip_comment s = scan_while (\<lambda>c. c \<noteq> newline) s"

lemma skip_comment_progress:
  assumes "\<not> at_end s" "peek s \<noteq> newline"
  shows "lx_current s < lx_current (skip_comment s)"
proof -
  have "drop (lx_current s) (lx_source s) = peek s # drop (lx_current s + 1) (lx_source s)"
    using assms(1) by (simp add: at_end_def peek_def Cons_nth_drop_Suc)
  then show ?thesis using assms(2) by (simp add: skip_comment_def scan_while_eq)
qed

lemma skip_comment_frame [simp]: "lx_source (skip_comment s) = lx_source s"
  by (simp add: skip_comment_def scan_while_eq)

function skip_whitespace_and_comments :: "lexer \<Rightarrow> lexer" where
  "skip_whitespace_and_comments s =
     (if at_end s then s
      else if peek s = CHR '' '' \<or> peek s = CHR 0x09 \<or> peek s = CHR 0x0D
        then skip_whitespace_and_comments (bump s)
      else if peek s = newline then skip_whitespace_and_comments (bump (next_line s))
      else if peek s = CHR ''/'' \<and> peek_next s = CHR ''/''
        then skip_whitespace_and_comments (skip_comment s)
      else s)"
  by pat_completeness auto
termination
proof (relation "measure (\<lambda>s. length (lx_source s) - lx_current s)", goal_cases)
  case (4 s)
  then have "lx_current s < lx_current (skip_comment s)"
    by (intro skip_comment_progress) (simp_all add: newline_def)
  with 4 show ?case by (simp add: at_end_def)
qed (auto simp: at_end_def bump_def next_line_def)

declare skip_whitespace_and_comments.simps [simp del]

definition lx_identifier :: "lexer \<Rightarrow> lexer" where
  "lx_identifier s =
     (let s = scan_while is_alnum s
      in case map_of kKeywords (sv_text (lexeme s)) of
           Some k \<Rightarrow> add_token k s
         | None \<Rightarrow> add_token TkIdentifier s)"

definition number_float :: "lexer \<Rightarrow> lexer" where
  "number_float s =
     (let txt = sv_text (lexeme s)
      in if strtod_erange txt \<or> strtod_end txt \<noteq> length txt
         then lx_fail (lx_start_line s) (''invalid float literal '' @ quoted txt) s
         else push_token ((mk_token TkFloat s)\<lparr>tk_float := strtod txt\<rparr>) s)"

definition number_int :: "lexer \<Rightarrow> lexer" where
  "number_int s =
     (let txt = sv_text (lexeme s); n = int (digits_value txt);
          out_of_range = (n > 9223372036854775807); v = (if out_of_range then 0 else n)
      in if out_of_range \<or> v > kMaxIntLiteral
         then lx_fail (lx_start_line s)
                (''integer literal '' @ quoted txt @ '' is too large for a 32-bit int'') s
         else push_token ((mk_token TkInt s)\<lparr>tk_int := v\<rparr>) s)"

definition number :: "lexer \<Rightarrow> lexer" where
  "number s =
     (let s = scan_while is_digit s
      in if peek s = CHR ''.'' \<and> is_digit (peek_next s)
         then number_float (scan_while is_digit (bump s))
         else number_int s)"

text \<open>
  \<open>string()\<close>: the loop returns the decoded characters, or nothing where the code returns early
  because of an invalid escape. A backslash as the last character ends the loop at the end of the
  source, which the code after it reports as unterminated.
\<close>

definition decode_escape :: "char \<Rightarrow> char option" where
  "decode_escape c =
     (if c = CHR ''n'' then Some newline
      else if c = CHR ''t'' then Some (CHR 0x09)
      else if c = CHR 0x22 then Some (CHR 0x22)
      else if c = CHR 0x5C then Some (CHR 0x5C)
      else None)"

function string_loop :: "string \<Rightarrow> lexer \<Rightarrow> string option \<times> lexer" where
  "string_loop decoded s =
     (if at_end s \<or> peek s = CHR 0x22 then (Some decoded, s)
      else
        let c = peek s; s1 = bump s
        in if c = newline then string_loop (decoded @ [c]) (next_line s1)
           else if c \<noteq> CHR 0x5C then string_loop (decoded @ [c]) s1
           else if at_end s1 then (Some decoded, s1)
           else
             let e = peek s1; s2 = bump s1
             in case decode_escape e of
                  Some d \<Rightarrow> string_loop (decoded @ [d]) s2
                | None \<Rightarrow>
                    let s3 = (if e = newline then next_line s2 else s2)
                    in (None,
                        lx_fail (lx_line s3)
                          (''invalid escape sequence '' @ quoted [CHR 0x5C, e]) s3))"
  by pat_completeness auto
termination
  by (relation "measure (\<lambda>(d, s). length (lx_source s) - lx_current s)")
    (auto simp: at_end_def bump_def next_line_def)

declare string_loop.simps [simp del]

definition string_token :: "lexer \<Rightarrow> lexer" where
  "string_token s =
     (case string_loop [] s of
        (None, s) \<Rightarrow> s
      | (Some decoded, s) \<Rightarrow>
          if at_end s then lx_fail (lx_start_line s) ''unterminated string'' s
          else
            let s = bump s
            in push_token ((mk_token TkString s)\<lparr>tk_string := decoded\<rparr>) s)"

text \<open>The one-character tokens, and the operators that a following \<open>=\<close> extends.\<close>

definition punctuation :: "(char \<times> token_kind) list" where
  "punctuation =
     [(CHR ''('', TkLeftParen), (CHR '')'', TkRightParen), (CHR ''{'', TkLeftBrace),
      (CHR ''}'', TkRightBrace), (CHR ''['', TkLeftBracket), (CHR '']'', TkRightBracket),
      (CHR '','', TkComma), (CHR '';'', TkSemicolon), (CHR ''+'', TkPlus), (CHR ''-'', TkMinus),
      (CHR ''*'', TkStar), (CHR ''/'', TkSlash), (CHR ''%'', TkPercent)]"

definition equal_operators :: "(char \<times> token_kind \<times> token_kind) list" where
  "equal_operators =
     [(CHR ''!'', TkBangEqual, TkBang), (CHR ''='', TkEqualEqual, TkEqual),
      (CHR ''<'', TkLessEqual, TkLess), (CHR ''>'', TkGreaterEqual, TkGreater)]"

definition unexpected :: "char \<Rightarrow> lexer \<Rightarrow> lexer" where
  "unexpected c s =
     (let u = (of_char c :: nat)
      in if 0x20 \<le> u \<and> u < 0x7f
         then lx_fail (lx_line s) (''unexpected character '' @ quoted [c]) s
         else lx_fail (lx_line s) (''unexpected byte '' @ nat_digits u) s)"

definition scan_token :: "lexer \<Rightarrow> lexer" where
  "scan_token s =
     (let c = peek s; s = bump s
      in if is_digit c then number s
         else if is_alpha c then lx_identifier s
         else case map_of punctuation c of
           Some k \<Rightarrow> add_token k s
         | None \<Rightarrow>
             (case map_of equal_operators c of
                Some (with_equal, alone) \<Rightarrow>
                  (let (m, s) = lx_match (CHR ''='') s
                   in add_token (if m then with_equal else alone) s)
              | None \<Rightarrow> if c = CHR 0x22 then string_token s else unexpected c s))"

subsection \<open>Progress and the main loop\<close>

text \<open>What every scanning step keeps, and what it may change.\<close>

definition lx_frame :: "lexer \<Rightarrow> lexer \<Rightarrow> bool" where
  "lx_frame s t \<longleftrightarrow>
     lx_source t = lx_source s \<and> lx_start t = lx_start s \<and> lx_start_line t = lx_start_line s \<and>
     lx_tokens t = lx_tokens s \<and> lx_error t = lx_error s \<and> lx_current s \<le> lx_current t"

lemma lx_frame_refl [simp]: "lx_frame s s"
  by (simp add: lx_frame_def)

lemma lx_frame_trans: "lx_frame s t \<Longrightarrow> lx_frame t u \<Longrightarrow> lx_frame s u"
  by (auto simp: lx_frame_def)

lemma lx_frame_bump [simp]: "lx_frame s (bump s)" "lx_frame s (bump (next_line s))"
  by (auto simp: lx_frame_def bump_def next_line_def)

lemma lx_frame_scan_while [simp]: "lx_frame s (scan_while p s)"
  by (simp add: lx_frame_def scan_while_eq)

definition lx_advances :: "lexer \<Rightarrow> lexer \<Rightarrow> bool" where
  "lx_advances s t \<longleftrightarrow> lx_source t = lx_source s \<and> lx_current s \<le> lx_current t"

lemma lx_advances_refl [simp]: "lx_advances s s"
  by (simp add: lx_advances_def)

lemma lx_advances_trans: "lx_advances s t \<Longrightarrow> lx_advances t u \<Longrightarrow> lx_advances s u"
  by (auto simp: lx_advances_def)

lemma lx_frame_advances: "lx_frame s t \<Longrightarrow> lx_advances s t"
  by (simp add: lx_frame_def lx_advances_def)

lemma lx_advances_add [simp]:
  "lx_advances s (add_token k t) = lx_advances s t" "lx_advances s (push_token tok t) = lx_advances s t"
  "lx_advances s (lx_fail l m t) = lx_advances s t"
  by (simp_all add: lx_advances_def add_token_def push_token_def lx_fail_def)

lemma lx_advances_scan_while [simp]: "lx_advances s (scan_while p s)"
  by (simp add: lx_frame_advances)

text \<open>The six ways one iteration of the string loop goes.\<close>

lemma string_loop_step:
  "at_end s \<or> peek s = CHR 0x22 \<Longrightarrow> string_loop d s = (Some d, s)"
  "\<not> at_end s \<Longrightarrow> peek s = newline \<Longrightarrow>
   string_loop d s = string_loop (d @ [newline]) (next_line (bump s))"
  "\<not> at_end s \<Longrightarrow> peek s \<notin> {CHR 0x22, newline, CHR 0x5C} \<Longrightarrow>
   string_loop d s = string_loop (d @ [peek s]) (bump s)"
  "\<not> at_end s \<Longrightarrow> peek s = CHR 0x5C \<Longrightarrow> at_end (bump s) \<Longrightarrow> string_loop d s = (Some d, bump s)"
  "\<not> at_end s \<Longrightarrow> peek s = CHR 0x5C \<Longrightarrow> \<not> at_end (bump s) \<Longrightarrow>
   decode_escape (peek (bump s)) = Some x \<Longrightarrow>
   string_loop d s = string_loop (d @ [x]) (bump (bump s))"
  "\<not> at_end s \<Longrightarrow> peek s = CHR 0x5C \<Longrightarrow> \<not> at_end (bump s) \<Longrightarrow>
   decode_escape (peek (bump s)) = None \<Longrightarrow>
   \<exists>l m u. string_loop d s = (None, lx_fail l m u) \<and>
     (u = bump (bump s) \<or> u = next_line (bump (bump s)))"
  by (subst string_loop.simps, simp add: Let_def newline_def)+ auto

lemma string_loop_cases [case_names stop newline plain at_end escape invalid]:
  assumes "at_end s \<or> peek s = CHR 0x22 \<Longrightarrow> P"
    and "\<not> at_end s \<Longrightarrow> peek s = newline \<Longrightarrow> P"
    and "\<not> at_end s \<Longrightarrow> peek s \<notin> {CHR 0x22, newline, CHR 0x5C} \<Longrightarrow> P"
    and "\<not> at_end s \<Longrightarrow> peek s = CHR 0x5C \<Longrightarrow> at_end (bump s) \<Longrightarrow> P"
    and "\<And>x. \<not> at_end s \<Longrightarrow> peek s = CHR 0x5C \<Longrightarrow> \<not> at_end (bump s) \<Longrightarrow>
      decode_escape (peek (bump s)) = Some x \<Longrightarrow> P"
    and "\<not> at_end s \<Longrightarrow> peek s = CHR 0x5C \<Longrightarrow> \<not> at_end (bump s) \<Longrightarrow>
      decode_escape (peek (bump s)) = None \<Longrightarrow> P"
  shows P
  using assms by (cases "decode_escape (peek (bump s))") blast+

lemma string_loop_advances: "string_loop d s = (r, t) \<Longrightarrow> lx_advances s t"
proof (induction d s arbitrary: r t rule: string_loop.induct)
  case (1 d s)
  have b: "lx_advances s (bump s)" "lx_advances s (next_line (bump s))"
    "lx_advances s (bump (bump s))" "lx_advances s (next_line (bump (bump s)))"
    by (auto simp: lx_advances_def bump_def next_line_def)
  show ?case
  proof (cases s rule: string_loop_cases)
    case stop
    with "1.prems" show ?thesis by (simp add: string_loop_step(1))
  next
    case newline
    with "1.prems" "1.IH"(1) [OF _ refl refl] b(2) show ?thesis
      by (auto simp: string_loop_step(2) newline_def intro: lx_advances_trans)
  next
    case plain
    with "1.prems" "1.IH"(2) [OF _ refl refl] b(1) show ?thesis
      by (auto simp: string_loop_step(3) intro: lx_advances_trans)
  next
    case at_end
    with "1.prems" b(1) show ?thesis by (simp add: string_loop_step(4))
  next
    case (escape x)
    with "1.prems" "1.IH"(3) [OF _ refl refl _ _ _ refl refl escape(4)] b(3) show ?thesis
      by (auto simp: string_loop_step(5) newline_def intro: lx_advances_trans)
  next
    case invalid
    with "1.prems" string_loop_step(6) [OF invalid, of d] b(3,4) show ?thesis by auto
  qed
qed

lemma string_token_advances: "lx_advances s (string_token s)"
proof (cases "string_loop [] s")
  case (Pair r t)
  then have "lx_advances s t" by (rule string_loop_advances)
  moreover have "lx_advances t (bump t)" by (simp add: lx_frame_advances)
  ultimately show ?thesis
    using lx_advances_trans by (auto simp: string_token_def Pair Let_def split: option.splits)
qed

lemma number_advances: "lx_advances s (number s)"
proof -
  have "lx_advances s (scan_while p (bump (scan_while q s)))" for p q
    by (meson lx_advances_scan_while lx_advances_trans lx_frame_advances lx_frame_bump(1))
  then show ?thesis
    by (simp add: number_def number_float_def number_int_def Let_def)
qed

lemma identifier_advances: "lx_advances s (lx_identifier s)"
  by (simp add: lx_identifier_def Let_def split: option.splits)

lemma scan_token_advances: "lx_advances (bump s) (scan_token s)"
proof -
  have "lx_advances s u" if "lx_match c s = (m, u)" for c m u s
    using that by (auto simp: lx_match_def intro: lx_frame_advances split: if_splits)
  then show ?thesis
    by (cases "map_of punctuation (peek s)"; cases "map_of equal_operators (peek s)")
      (auto simp: scan_token_def Let_def number_advances identifier_advances
        string_token_advances unexpected_def split: prod.splits)
qed

lemma scan_token_progress:
  "lx_source (scan_token s) = lx_source s" "lx_current s < lx_current (scan_token s)"
  using scan_token_advances [of s] by (auto simp: lx_advances_def bump_def)

lemma skip_frame: "lx_frame s (skip_whitespace_and_comments s)"
proof (induction s rule: skip_whitespace_and_comments.induct)
  case (1 s)
  have c: "lx_frame s (skip_comment s)" by (simp add: skip_comment_def)
  show ?case
    using 1 by (subst skip_whitespace_and_comments.simps)
      (auto simp: newline_def intro: lx_frame_trans [OF lx_frame_bump(1)]
        lx_frame_trans [OF lx_frame_bump(2)] lx_frame_trans [OF c])
qed

text \<open>
  \<open>begin_token\<close> is the head of the loop in \<open>run()\<close>: skip blanks and mark the start of the next
  token. \<open>skip_whitespace_and_comments\<close> never fails, so the code's second test of the error is
  the one of the loop.
\<close>

definition begin_token :: "lexer \<Rightarrow> lexer" where
  "begin_token s =
     (let s = skip_whitespace_and_comments s
      in s\<lparr>lx_start := lx_current s, lx_start_line := lx_line s\<rparr>)"

function lex_loop :: "lexer \<Rightarrow> lexer" where
  "lex_loop s =
     (if lx_error s \<noteq> None then s
      else if at_end (begin_token s) then add_token TkEof (begin_token s)
      else lex_loop (scan_token (begin_token s)))"
  by pat_completeness auto
termination
proof (relation "measure (\<lambda>s. length (lx_source s) - lx_current s)", goal_cases)
  case (2 s)
  let ?b = "begin_token s"
  have "lx_source ?b = lx_source s" "lx_current s \<le> lx_current ?b"
    using skip_frame [of s] by (simp_all add: begin_token_def Let_def lx_frame_def)
  then show ?case
    using 2 scan_token_progress [of ?b] by (simp add: at_end_def)
qed simp

declare lex_loop.simps [simp del]

record lex_result =
  lr_tokens :: "token list"
  lr_error :: "compile_error option"

definition lex :: "string \<Rightarrow> lex_result" where
  "lex src =
     (let s = lex_loop (init_lexer src)
      in \<lparr>lr_tokens = (if lx_error s \<noteq> None then [] else lx_tokens s), lr_error = lx_error s\<rparr>)"

end
