(* ===== verification/Lexer_Spec.thy ===== *)
theory Lexer_Spec
  imports Lexer
begin

text \<open>
  What the lexer promises, stated on the source text alone. \<open>skip_str\<close> drops leading blanks and
  comments; \<open>token_ok\<close> says that a token's lexeme stands at its offset, that its line is one more
  than the number of newlines before it, and that its kind and decoded value are those of its
  text (keywords and operators by their spelling, names, numbers and strings by their shape and
  maximal munch); \<open>tiles\<close> says that a token list covers the source from an offset on with nothing
  but blanks and comments between the tokens, up to one end-of-file token.
\<close>

subsection \<open>The specification\<close>

function skip_str :: "string \<Rightarrow> string" where
  "skip_str s =
     (case s of
        [] \<Rightarrow> []
      | c # cs \<Rightarrow>
          if c \<in> {CHR '' '', CHR 0x09, CHR 0x0D, newline} then skip_str cs
          else if c = CHR ''/'' \<and> cs \<noteq> [] \<and> hd cs = CHR ''/''
            then skip_str (dropWhile (\<lambda>c. c \<noteq> newline) cs)
          else s)"
  by pat_completeness auto
termination
  by (relation "measure length") (auto simp: less_Suc_eq_le length_dropWhile_le)

declare skip_str.simps [simp del]

lemma skip_str_Cons:
  "skip_str (c # cs) =
     (if c \<in> {CHR '' '', CHR 0x09, CHR 0x0D, newline} then skip_str cs
      else if c = CHR ''/'' \<and> cs \<noteq> [] \<and> hd cs = CHR ''/''
        then skip_str (dropWhile (\<lambda>c. c \<noteq> newline) cs)
      else c # cs)"
  by (simp add: skip_str.simps [of "c # cs"])

lemma skip_str_Nil [simp]: "skip_str [] = []"
  by (simp add: skip_str.simps [of "[]"])

definition stops :: "(char \<Rightarrow> bool) \<Rightarrow> string \<Rightarrow> bool" where
  "stops p r \<longleftrightarrow> (case r of [] \<Rightarrow> True | c # _ \<Rightarrow> \<not> p c)"

text \<open>The characters a string literal's body stands for; none for a body no literal can have.\<close>

fun unescape :: "string \<Rightarrow> string option" where
  "unescape [] = Some []"
| "unescape (c # cs) =
     (if c = CHR 0x22 then None
      else if c = CHR 0x5C
        then (case cs of
                [] \<Rightarrow> None
              | e # es \<Rightarrow>
                  (case decode_escape e of
                     None \<Rightarrow> None
                   | Some d \<Rightarrow> map_option ((#) d) (unescape es)))
      else map_option ((#) c) (unescape cs))"

text \<open>The spelling of the tokens that have only one, by kind.\<close>

definition spelling :: "(token_kind \<times> string) list" where
  "spelling =
     map (\<lambda>(w, k). (k, w)) kKeywords @ map (\<lambda>(c, k). (k, [c])) punctuation @
     concat (map (\<lambda>(c, we, al). [(we, [c, CHR ''='']), (al, [c])]) equal_operators)"

definition kind_ok :: "token \<Rightarrow> string \<Rightarrow> bool" where
  "kind_ok t r =
     (let k = tk_kind t; x = sv_text (tk_lexeme t)
      in if k = TkIdentifier then
           x \<noteq> [] \<and> is_alpha (hd x) \<and> list_all is_alnum (tl x) \<and> stops is_alnum r \<and>
           map_of kKeywords x = None
         else if k = TkInt then
           x \<noteq> [] \<and> list_all is_digit x \<and> stops is_digit r \<and>
           tk_int t = int (digits_value x) \<and> tk_int t \<le> 2147483648
         else if k = TkFloat then
           (\<exists>a b. x = a @ CHR ''.'' # b \<and> a \<noteq> [] \<and> b \<noteq> [] \<and> list_all is_digit (a @ b)) \<and>
           stops is_digit r \<and> tk_float t = strtod x \<and> \<not> strtod_erange x
         else if k = TkString then
           (\<exists>body. x = CHR 0x22 # body @ [CHR 0x22] \<and> unescape body = Some (tk_string t))
         else if k = TkEof then x = [] \<and> r = []
         else
           (k, x) \<in> set spelling \<and> (k \<in> snd ` set kKeywords \<longrightarrow> stops is_alnum r) \<and>
           (k \<in> {TkBang, TkEqual, TkLess, TkGreater} \<longrightarrow> stops (\<lambda>c. c = CHR ''='') r))"

definition newlines :: "string \<Rightarrow> nat" where
  "newlines s = count_list s newline"

definition token_ok :: "string \<Rightarrow> token \<Rightarrow> bool" where
  "token_ok src t =
     (let p = sv_start (tk_lexeme t); x = sv_text (tk_lexeme t); r = drop (p + length x) src
      in p \<le> length src \<and> drop p src = x @ r \<and> tk_line t = Suc (newlines (take p src)) \<and>
         kind_ok t r)"

fun tiles :: "string \<Rightarrow> nat \<Rightarrow> token list \<Rightarrow> bool" where
  "tiles src p [] = False"
| "tiles src p (t # ts) \<longleftrightarrow>
     token_ok src t \<and> p \<le> sv_start (tk_lexeme t) \<and>
     drop (sv_start (tk_lexeme t)) src = skip_str (drop p src) \<and>
     (if ts = [] then tk_kind t = TkEof
      else tk_kind t \<noteq> TkEof \<and>
        tiles src (sv_start (tk_lexeme t) + length (sv_text (tk_lexeme t))) ts)"

subsection \<open>The unread part of the source\<close>

definition rest :: "lexer \<Rightarrow> string" where
  "rest s = drop (lx_current s) (lx_source s)"

definition lx_ok :: "lexer \<Rightarrow> bool" where
  "lx_ok s \<longleftrightarrow>
     lx_current s \<le> length (lx_source s) \<and>
     lx_line s = Suc (newlines (take (lx_current s) (lx_source s)))"

lemma at_end_rest: "at_end s \<longleftrightarrow> rest s = []"
  by (simp add: at_end_def rest_def)

lemma rest_bump: "\<not> at_end s \<Longrightarrow> rest s = peek s # rest (bump s)"
  by (simp add: at_end_def rest_def peek_def bump_def Cons_nth_drop_Suc)

lemma rest_next_line [simp]: "rest (next_line s) = rest s"
  by (simp add: rest_def next_line_def)

lemma peek_next_eq: "peek_next s = (case rest (bump s) of [] \<Rightarrow> CHR 0x00 | c # _ \<Rightarrow> c)"
proof (cases "length (lx_source s) \<le> lx_current s + 1")
  case True
  then show ?thesis by (simp add: peek_next_def rest_def bump_def)
next
  case False
  then have "rest (bump s) = lx_source s ! (lx_current s + 1) # drop (lx_current s + 2) (lx_source s)"
    by (simp add: rest_def bump_def Cons_nth_drop_Suc)
  then show ?thesis using False by (simp add: peek_next_def)
qed

lemma peek_eq: "peek s = (case rest s of [] \<Rightarrow> CHR 0x00 | c # _ \<Rightarrow> c)"
  using rest_bump [of s] by (cases "at_end s") (auto simp: peek_def at_end_rest)

lemma rest_scan_while: "rest (scan_while p s) = dropWhile p (rest s)"
  by (simp add: rest_def scan_while_eq dropWhile_eq_drop add.commute)

lemma newlines_append: "newlines (xs @ ys) = newlines xs + newlines ys"
  by (simp add: newlines_def)

lemma newlines_none: "newline \<notin> set xs \<Longrightarrow> newlines xs = 0"
  by (simp add: newlines_def count_notin)

lemma take_current_extend:
  assumes "lx_frame s u" "rest s = x @ rest u" "lx_current s \<le> length (lx_source s)"
    "lx_current u \<le> length (lx_source u)"
  shows "lx_current u = lx_current s + length x"
    and "take (lx_current u) (lx_source s) = take (lx_current s) (lx_source s) @ x"
proof -
  have src: "lx_source u = lx_source s" using assms(1) by (simp add: lx_frame_def)
  have "length (rest s) = length x + length (rest u)" using assms(2) by simp
  then show c: "lx_current u = lx_current s + length x"
    using assms(3,4) unfolding rest_def length_drop src by linarith
  have "take (length x) (rest s) = x" using assms(2) by simp
  then show "take (lx_current u) (lx_source s) = take (lx_current s) (lx_source s) @ x"
    by (simp add: c take_add rest_def)
qed

lemma lx_ok_extend:
  assumes "lx_frame s u" "rest s = x @ rest u" "lx_ok s" "lx_current u \<le> length (lx_source u)"
    "lx_line u = lx_line s + newlines x"
  shows "lx_ok u"
proof -
  have "lx_source u = lx_source s" using assms(1) by (simp add: lx_frame_def)
  moreover have "take (lx_current u) (lx_source s) = take (lx_current s) (lx_source s) @ x"
    using assms by (intro take_current_extend) (simp_all add: lx_ok_def)
  ultimately show ?thesis using assms(3-5) by (simp add: lx_ok_def newlines_append)
qed

lemma lx_ok_bump:
  assumes "lx_ok s" "\<not> at_end s"
  shows "peek s \<noteq> newline \<Longrightarrow> lx_ok (bump s)" "peek s = newline \<Longrightarrow> lx_ok (bump (next_line s))"
proof -
  have r: "rest s = [peek s] @ rest (bump s)" using rest_bump [OF assms(2)] by simp
  have c: "lx_current s + 1 \<le> length (lx_source s)" using assms(2) by (simp add: at_end_def)
  show "lx_ok (bump s)" if "peek s \<noteq> newline"
    using that c by (intro lx_ok_extend [OF lx_frame_bump(1) r assms(1)]) (simp_all add: bump_def newlines_none)
  have r': "rest s = [peek s] @ rest (bump (next_line s))"
    using r by (simp add: rest_def bump_def next_line_def)
  show "lx_ok (bump (next_line s))" if "peek s = newline"
    using that c by (intro lx_ok_extend [OF lx_frame_bump(2) r' assms(1)])
      (simp_all add: bump_def next_line_def newlines_def)
qed

lemma lx_ok_scan_while:
  assumes "lx_ok s" "\<not> p newline"
  shows "lx_ok (scan_while p s)"
proof (rule lx_ok_extend [OF lx_frame_scan_while _ assms(1)])
  show "rest s = takeWhile p (rest s) @ rest (scan_while p s)" by (simp add: rest_scan_while)
  have "length (takeWhile p (rest s)) \<le> length (rest s)" by (rule length_takeWhile_le)
  then show "lx_current (scan_while p s) \<le> length (lx_source (scan_while p s))"
    using assms(1) by (simp add: scan_while_eq lx_ok_def rest_def) linarith
  have "newline \<notin> set (takeWhile p (rest s))" using assms(2) set_takeWhileD by metis
  then show "lx_line (scan_while p s) = lx_line s + newlines (takeWhile p (rest s))"
    by (simp add: scan_while_eq newlines_none)
qed

subsection \<open>Blanks\<close>

lemma skip_ok: "lx_ok s \<Longrightarrow> lx_ok (skip_whitespace_and_comments s)"
proof (induction s rule: skip_whitespace_and_comments.induct)
  case (1 s)
  have c: "lx_ok (skip_comment s)" using "1.prems" by (simp add: skip_comment_def lx_ok_scan_while)
  show ?case using 1 c lx_ok_bump [OF "1.prems"]
    by (subst skip_whitespace_and_comments.simps) (auto simp: newline_def)
qed

lemma skip_rest: "rest (skip_whitespace_and_comments s) = skip_str (rest s)"
proof (induction s rule: skip_whitespace_and_comments.induct)
  case (1 s)
  show ?case
  proof (cases "at_end s")
    case True
    then show ?thesis
      by (simp add: skip_whitespace_and_comments.simps [of s] at_end_rest)
  next
    case False
    note r = rest_bump [OF False]
    have n: "rest (bump (next_line s)) = rest (bump s)" by (simp add: rest_def bump_def next_line_def)
    have k: "rest (skip_comment s) = dropWhile (\<lambda>c. c \<noteq> newline) (rest (bump s))"
      if "peek s \<noteq> newline"
      using that by (simp add: skip_comment_def rest_scan_while r)
    show ?thesis
    proof (cases "peek s \<in> {CHR '' '', CHR 0x09, CHR 0x0D, newline}")
      case True
      then show ?thesis using False "1.IH"(1,2) n
        by (auto simp: skip_whitespace_and_comments.simps [of s] skip_str_Cons r newline_def)
    next
      case other: False
      then show ?thesis using False "1.IH"(3) k
        by (auto simp: skip_whitespace_and_comments.simps [of s] skip_str_Cons r
            peek_next_eq newline_def split: list.splits)
    qed
  qed
qed

subsection \<open>One token\<close>

text \<open>
  \<open>starts s\<close> is the state in which \<open>run()\<close> calls \<open>scan_token()\<close>. A step \<open>emits\<close> a good token when it
  appends exactly one, which spells what was read and leaves a consistent state.
\<close>

definition starts :: "lexer \<Rightarrow> bool" where
  "starts s \<longleftrightarrow>
     lx_ok s \<and> lx_start s = lx_current s \<and> lx_start_line s = lx_line s \<and> lx_error s = None"

definition emits :: "lexer \<Rightarrow> lexer \<Rightarrow> bool" where
  "emits s u \<longleftrightarrow>
     lx_source u = lx_source s \<and>
     (lx_error u \<noteq> None \<or>
      (\<exists>t. lx_error u = None \<and> lx_ok u \<and> lx_tokens u = lx_tokens s @ [t] \<and>
           token_ok (lx_source s) t \<and> tk_kind t \<noteq> TkEof \<and>
           sv_start (tk_lexeme t) = lx_current s \<and>
           sv_start (tk_lexeme t) + length (sv_text (tk_lexeme t)) = lx_current u))"

lemma lexeme_read:
  assumes "starts s" "lx_frame s u" "rest s = x @ rest u" "lx_ok u"
  shows "lexeme u = \<lparr>sv_start = lx_current s, sv_text = x\<rparr>"
    and "lx_current u = lx_current s + length x"
proof -
  show c: "lx_current u = lx_current s + length x"
    using assms by (intro take_current_extend) (simp_all add: starts_def lx_ok_def)
  have "take (length x) (drop (lx_current s) (lx_source s)) = x"
    using assms(3) by (simp add: rest_def)
  then show "lexeme u = \<lparr>sv_start = lx_current s, sv_text = x\<rparr>"
    using assms(1,2) c by (simp add: lexeme_def starts_def lx_frame_def)
qed

lemma emits_push:
  assumes "starts s" "lx_frame s u" "rest s = x @ rest u" "lx_ok u"
    and "tk_lexeme t = lexeme u" "tk_line t = lx_start_line u" "tk_kind t \<noteq> TkEof"
    and "kind_ok t (rest u)"
  shows "emits s (push_token t u)"
proof -
  note l = lexeme_read [OF assms(1-4)]
  have "lx_ok (push_token t u)" using assms(4) by (simp add: lx_ok_def push_token_def)
  moreover have "drop (lx_current s + length x) (lx_source s) = rest u"
    using l(2) assms(2) by (simp add: rest_def lx_frame_def)
  moreover have "rest s = drop (lx_current s) (lx_source s)" by (simp add: rest_def)
  ultimately show ?thesis
    using assms l by (simp add: emits_def push_token_def token_ok_def Let_def starts_def lx_ok_def lx_frame_def)
qed

lemma emits_fail: "lx_source u = lx_source s \<Longrightarrow> emits s (lx_fail l m u)"
  by (simp add: emits_def lx_fail_def)

lemma emits_if: "emits s u \<Longrightarrow> emits s v \<Longrightarrow> emits s (if c then u else v)"
  by simp

lemma starts_bump:
  assumes "starts s" "\<not> at_end s" "peek s \<noteq> newline"
  shows "lx_frame s (bump s)" "rest s = peek s # rest (bump s)" "lx_ok (bump s)"
  using assms lx_ok_bump(1) rest_bump by (auto simp: starts_def)

lemma stops_dropWhile: "stops p (dropWhile p r)"
proof (cases "dropWhile p r")
  case (Cons c cs)
  then have "\<not> p c" using hd_dropWhile [of p r] by force
  then show ?thesis using Cons by (simp add: stops_def)
next
  case Nil
  show ?thesis unfolding stops_def Nil by simp
qed

lemma scan_while_bump:
  assumes "starts s" "\<not> at_end s" "peek s \<noteq> newline" "\<not> p newline"
  defines "u \<equiv> scan_while p (bump s)"
  shows "lx_frame s u" "rest s = (peek s # takeWhile p (rest (bump s))) @ rest u" "lx_ok u"
    "stops p (rest u)"
proof -
  note b = starts_bump [OF assms(1-3)]
  show "lx_frame s u" using b(1) lx_frame_scan_while lx_frame_trans by (metis u_def)
  show "rest s = (peek s # takeWhile p (rest (bump s))) @ rest u"
    using b(2) by (simp add: u_def rest_scan_while)
  show "lx_ok u" using b(3) assms(4) by (simp add: u_def lx_ok_scan_while)
  show "stops p (rest u)" by (simp add: u_def rest_scan_while stops_dropWhile)
qed

lemma char_classes [simp]:
  "\<not> is_alnum newline" "\<not> is_digit newline" "\<not> is_alpha newline" "\<not> is_digit (CHR 0x22)"
  "\<not> is_alpha (CHR 0x22)" "\<not> is_digit (CHR ''.'')" "\<not> is_digit (CHR 0x00)"
  by (simp_all add: is_alnum_def is_alpha_def is_digit_def newline_def less_eq_char_def)

lemma keyword_spelling: "map_of kKeywords x = Some k \<Longrightarrow> (k, x) \<in> set spelling \<and> k \<in> snd ` set kKeywords"
  by (force simp: spelling_def dest: map_of_SomeD)

lemma keyword_kinds:
  "k \<in> snd ` set kKeywords \<Longrightarrow>
   k \<notin> {TkIdentifier, TkInt, TkFloat, TkString, TkEof, TkBang, TkEqual, TkLess, TkGreater}"
  by (auto simp: kKeywords_def)

lemma emits_identifier:
  assumes "starts s" "\<not> at_end s" "is_alpha (peek s)"
  shows "emits s (lx_identifier (bump s))"
proof -
  have n: "peek s \<noteq> newline" using assms(3) by auto
  define u where "u = scan_while is_alnum (bump s)"
  define x where "x = peek s # takeWhile is_alnum (rest (bump s))"
  note f = scan_while_bump [OF assms(1,2) n, of is_alnum, simplified, folded u_def]
  have r: "rest s = x @ rest u" using f(2) by (simp add: x_def)
  note l = lexeme_read [OF assms(1) f(1) r f(3)]
  have all: "list_all is_alnum (takeWhile is_alnum (rest (bump s)))"
    by (metis list_all_iff set_takeWhileD)
  show ?thesis
  proof (cases "map_of kKeywords x")
    case None
    then have "kind_ok (mk_token TkIdentifier u) (rest u)"
      using all f(4) assms(3) by (simp add: kind_ok_def mk_token_def l) (simp add: x_def)
    then have "emits s (push_token (mk_token TkIdentifier u) u)"
      by (intro emits_push [OF assms(1) f(1) r f(3)]) (simp_all add: mk_token_def)
    then show ?thesis using None l by (simp add: lx_identifier_def Let_def u_def [symmetric] add_token_def)
  next
    case (Some k)
    from keyword_spelling [OF Some] have sp: "(k, x) \<in> set spelling" and k: "k \<in> snd ` set kKeywords"
      by auto
    have "kind_ok (mk_token k u) (rest u)"
      using keyword_kinds [OF k] k sp f(4)
      by (simp add: kind_ok_def mk_token_def l)
    then have "emits s (push_token (mk_token k u) u)"
      using keyword_kinds [OF k] by (intro emits_push [OF assms(1) f(1) r f(3)]) (simp_all add: mk_token_def)
    then show ?thesis using Some l by (simp add: lx_identifier_def Let_def u_def [symmetric] add_token_def)
  qed
qed

lemma strtod_end_plain:
  assumes "list_all is_digit a" "list_all is_digit b" "a \<noteq> []"
  shows "strtod_end (a @ CHR ''.'' # b) = length (a @ CHR ''.'' # b)"
proof -
  have d: "isdigit c = is_digit c" for c by (simp add: isdigit_def is_digit_def)
  have "\<not> is_digit (CHR ''-'')" by (simp add: is_digit_def less_eq_char_def)
  then have h: "hd a \<noteq> CHR ''-''" using assms(1,3) by (cases a) auto
  let ?t = "a @ CHR ''.'' # b"
  have t: "(?t \<noteq> [] \<and> hd ?t = CHR ''-'') = False" using h assms(3) by simp
  have a: "dropWhile isdigit ?t = CHR ''.'' # b"
    using assms(1) by (subst dropWhile_append2) (auto simp: d list_all_iff)
  have b: "dropWhile isdigit b = []" using assms(2) by (simp add: d list_all_iff)
  have "strtod_end ?t = length ?t - length ([] :: string)"
    by (simp only: strtod_end_def Let_def t if_False a b list.sel list.simps simp_thms if_True)
  then show ?thesis by simp
qed

lemma emits_number:
  assumes "starts s" "\<not> at_end s" "is_digit (peek s)"
  shows "emits s (number (bump s))"
proof -
  have n: "peek s \<noteq> newline" using assms(3) by auto
  define u where "u = scan_while is_digit (bump s)"
  define x where "x = peek s # takeWhile is_digit (rest (bump s))"
  note f = scan_while_bump [OF assms(1,2) n, of is_digit, simplified, folded u_def]
  have r: "rest s = x @ rest u" using f(2) by (simp add: x_def)
  note l = lexeme_read [OF assms(1) f(1) r f(3)]
  have x: "x \<noteq> []" "list_all is_digit x"
    using assms(3) by (auto simp: x_def list_all_iff dest: set_takeWhileD)
  show ?thesis
  proof (cases "peek u = CHR ''.'' \<and> is_digit (peek_next u)")
    case False
    have "emits s (number_int u)"
    proof (cases "int (digits_value x) \<le> 2147483648")
      case True
      then have "kind_ok ((mk_token TkInt u)\<lparr>tk_int := int (digits_value x)\<rparr>) (rest u)"
        using x f(4) by (simp add: kind_ok_def mk_token_def l)
      then have "emits s (push_token ((mk_token TkInt u)\<lparr>tk_int := int (digits_value x)\<rparr>) u)"
        by (intro emits_push [OF assms(1) f(1) r f(3)]) (simp_all add: mk_token_def)
      then show ?thesis using True by (simp add: number_int_def Let_def l kMaxIntLiteral_def)
    next
      case False
      then show ?thesis using f(1)
        by (auto simp: number_int_def Let_def l kMaxIntLiteral_def lx_frame_def intro: emits_fail)
    qed
    then show ?thesis using False by (auto simp: number_def Let_def u_def [symmetric])
  next
    case True
    have ne: "\<not> at_end u" using True by (auto simp: peek_def)
    define v where "v = scan_while is_digit (bump u)"
    define b where "b = takeWhile is_digit (rest (bump u))"
    have ru: "rest u = (CHR ''.'' # b) @ rest v"
      using rest_bump [OF ne] True by (simp add: v_def b_def rest_scan_while)
    have fv: "lx_frame s v"
      using f(1) lx_frame_bump(1) lx_frame_scan_while lx_frame_trans by (metis v_def)
    have "lx_ok (bump u)" using f(3) ne True by (intro lx_ok_bump) (auto simp: newline_def)
    then have okv: "lx_ok v" by (simp add: v_def lx_ok_scan_while)
    define y where "y = x @ CHR ''.'' # b"
    have ry: "rest s = y @ rest v" using r ru by (simp add: y_def)
    note ly = lexeme_read [OF assms(1) fv ry okv]
    have b: "list_all is_digit b" by (auto simp: b_def list_all_iff dest: set_takeWhileD)
    have "b \<noteq> []" using True by (auto simp: b_def peek_next_eq split: list.splits)
    moreover have "stops is_digit (rest v)" by (simp add: v_def rest_scan_while stops_dropWhile)
    ultimately have k: "kind_ok ((mk_token TkFloat v)\<lparr>tk_float := strtod y\<rparr>) (rest v)"
      if "\<not> strtod_erange y"
      using that x b by (auto simp: kind_ok_def mk_token_def ly y_def)
    have "emits s (number_float v)"
    proof (cases "strtod_erange y")
      case False
      then have "emits s (push_token ((mk_token TkFloat v)\<lparr>tk_float := strtod y\<rparr>) v)"
        using k by (intro emits_push [OF assms(1) fv ry okv]) (simp_all add: mk_token_def)
      then show ?thesis using False strtod_end_plain [OF x(2) b x(1)]
        by (simp add: number_float_def Let_def ly y_def)
    next
      case True
      then show ?thesis using fv
        by (auto simp: number_float_def Let_def ly lx_frame_def intro: emits_fail)
    qed
    then show ?thesis using True by (simp add: number_def Let_def u_def [symmetric] v_def)
  qed
qed

text \<open>
  \<open>reads_string d s r u\<close>: what the string loop has done when it stops in \<open>u\<close> with result \<open>r\<close>.
\<close>

definition reads_string :: "string \<Rightarrow> lexer \<Rightarrow> string option \<Rightarrow> lexer \<Rightarrow> bool" where
  "reads_string d s r u \<longleftrightarrow>
     (case r of
        None \<Rightarrow> lx_source u = lx_source s \<and> lx_error u \<noteq> None
      | Some d' \<Rightarrow>
          lx_ok u \<and> lx_frame s u \<and>
          (at_end u \<or>
           (peek u = CHR 0x22 \<and>
            (\<exists>body y. rest s = body @ rest u \<and> unescape body = Some y \<and> d' = d @ y))))"

lemma reads_string_step:
  assumes "reads_string (d @ [c]) v r u" "lx_frame s v" "rest s = pre @ rest v"
    and "\<And>body y. unescape body = Some y \<Longrightarrow> unescape (pre @ body) = Some (c # y)"
  shows "reads_string d s r u"
proof (cases r)
  case None
  then show ?thesis using assms(1,2) by (simp add: reads_string_def lx_frame_def)
next
  case (Some d')
  then have u: "lx_ok u" "lx_frame s u" using assms(1,2) lx_frame_trans by (auto simp: reads_string_def)
  show ?thesis
  proof (cases "at_end u")
    case True
    then show ?thesis using u Some by (simp add: reads_string_def)
  next
    case False
    then obtain body y where b: "peek u = CHR 0x22" "rest v = body @ rest u" "unescape body = Some y"
      "d' = (d @ [c]) @ y"
      using assms(1) Some by (auto simp: reads_string_def)
    then have "rest s = (pre @ body) @ rest u" "unescape (pre @ body) = Some (c # y)"
      "d' = d @ (c # y)"
      using assms(3,4) by auto
    then show ?thesis using u b(1) Some by (auto simp: reads_string_def)
  qed
qed

lemma decode_escape_newline: "decode_escape newline = None"
  by (simp add: decode_escape_def newline_def)

lemma string_loop_reads: "string_loop d s = (r, u) \<Longrightarrow> lx_ok s \<Longrightarrow> reads_string d s r u"
proof (induction d s arbitrary: r u rule: string_loop.induct)
  case (1 d s)
  note ok = lx_ok_bump [OF "1.prems"(2)] and r = rest_bump [of s]
  show ?case
  proof (cases s rule: string_loop_cases)
    case stop
    then have "r = Some d" "u = s" using "1.prems"(1) by (simp_all add: string_loop_step(1))
    then show ?thesis using stop "1.prems"(2) by (auto simp: reads_string_def)
  next
    case newline
    have eq: "next_line (bump s) = bump (next_line s)" by (simp add: next_line_def bump_def)
    have "reads_string (d @ [newline]) (bump (next_line s)) r u"
      using "1.prems"(1) newline "1.IH"(1) [OF _ refl refl] ok(2)
      by (simp add: string_loop_step(2) newline_def eq)
    then show ?thesis
    proof (rule reads_string_step)
      show "rest s = [newline] @ rest (bump (next_line s))"
        using r newline by (simp add: rest_def bump_def next_line_def)
    qed (simp_all add: newline_def)
  next
    case plain
    have "reads_string (d @ [peek s]) (bump s) r u"
      using "1.prems"(1) plain "1.IH"(2) [OF _ refl refl] ok(1) by (simp add: string_loop_step(3))
    then show ?thesis
      using r plain by (rule_tac reads_string_step [where pre = "[peek s]"]) simp_all
  next
    case at_end
    then have "r = Some d" "u = bump s" using "1.prems"(1) by (simp_all add: string_loop_step(4))
    then show ?thesis using at_end ok(1) by (simp add: reads_string_def newline_def)
  next
    case (escape x)
    have ok1: "lx_ok (bump s)" using ok(1) escape by (simp add: newline_def)
    have "peek (bump s) \<noteq> newline" using escape(4) decode_escape_newline by auto
    then have ok2: "lx_ok (bump (bump s))" using lx_ok_bump(1) [OF ok1] escape(3) by simp
    have "reads_string (d @ [x]) (bump (bump s)) r u"
      using "1.prems"(1) escape "1.IH"(3) [OF _ refl refl _ _ _ refl refl escape(4)] ok2
      by (simp add: string_loop_step(5) newline_def)
    then show ?thesis
    proof (rule reads_string_step)
      show "rest s = [CHR 0x5C, peek (bump s)] @ rest (bump (bump s))"
        using r rest_bump [OF escape(3)] escape by simp
      show "lx_frame s (bump (bump s))" using lx_frame_bump(1) lx_frame_trans by blast
    qed (simp add: escape(4))
  next
    case invalid
    from string_loop_step(6) [OF invalid, of d] "1.prems"(1)
    show ?thesis
      by (auto simp: reads_string_def lx_fail_def bump_def next_line_def)
  qed
qed

lemma emits_string:
  assumes "starts s" "\<not> at_end s" "peek s = CHR 0x22"
  shows "emits s (string_token (bump s))"
proof -
  have n: "peek s \<noteq> newline" using assms(3) by (simp add: newline_def)
  note b = starts_bump [OF assms(1,2) n]
  obtain r u where lp: "string_loop [] (bump s) = (r, u)" by (metis surj_pair)
  note rd = string_loop_reads [OF lp b(3)]
  show ?thesis
  proof (cases r)
    case None
    then show ?thesis using rd b(1) lp
      by (simp add: string_token_def reads_string_def emits_def lx_frame_def)
  next
    case (Some d)
    then have "lx_frame (bump s) u" using rd by (simp add: reads_string_def)
    with b(1) have fu: "lx_frame s u" by (rule lx_frame_trans)
    show ?thesis
    proof (cases "at_end u")
      case True
      then show ?thesis using Some lp fu
        by (simp add: string_token_def emits_fail lx_frame_def)
    next
      case False
      then obtain body where u: "lx_ok u" "peek u = CHR 0x22" "rest (bump s) = body @ rest u"
        "unescape body = Some d"
        using rd Some by (auto simp: reads_string_def)
      define x where "x = CHR 0x22 # body @ [CHR 0x22]"
      have x: "rest s = x @ rest (bump u)"
        using b(2) assms(3) u rest_bump [OF False] by (simp add: x_def)
      have fb: "lx_frame s (bump u)" using fu lx_frame_bump(1) lx_frame_trans by blast
      have okb: "lx_ok (bump u)" using lx_ok_bump(1) [OF u(1) False] u(2) by (simp add: newline_def)
      note l = lexeme_read [OF assms(1) fb x okb]
      have "kind_ok ((mk_token TkString (bump u))\<lparr>tk_string := d\<rparr>) (rest (bump u))"
        using u(4) by (simp add: kind_ok_def mk_token_def l x_def)
      then have "emits s (push_token ((mk_token TkString (bump u))\<lparr>tk_string := d\<rparr>) (bump u))"
        by (intro emits_push [OF assms(1) fb x okb]) (simp_all add: mk_token_def)
      then show ?thesis using Some False lp by (simp add: string_token_def Let_def)
    qed
  qed
qed

text \<open>Punctuation and operators are all in the tables; none of their characters is a newline.\<close>

lemma punctuation_kind:
  "map_of punctuation c = Some k \<Longrightarrow>
   c \<noteq> newline \<and> (k, [c]) \<in> set spelling \<and> k \<notin> snd ` set kKeywords \<and>
   k \<notin> {TkIdentifier, TkInt, TkFloat, TkString, TkEof, TkBang, TkEqual, TkLess, TkGreater}"
  by (drule map_of_SomeD)
    (auto simp: spelling_def punctuation_def kKeywords_def newline_def)

lemma operator_kind:
  "map_of equal_operators c = Some (we, al) \<Longrightarrow>
   c \<noteq> newline \<and> (we, [c, CHR ''='']) \<in> set spelling \<and> (al, [c]) \<in> set spelling \<and>
   we \<notin> snd ` set kKeywords \<and> al \<notin> snd ` set kKeywords \<and>
   we \<notin> {TkIdentifier, TkInt, TkFloat, TkString, TkEof, TkBang, TkEqual, TkLess, TkGreater} \<and>
   al \<notin> {TkIdentifier, TkInt, TkFloat, TkString, TkEof}"
  by (drule map_of_SomeD)
    (auto simp: spelling_def equal_operators_def kKeywords_def newline_def)

lemma emits_punctuation:
  assumes "starts s" "\<not> at_end s" "map_of punctuation (peek s) = Some k"
  shows "emits s (add_token k (bump s))"
proof -
  note k = punctuation_kind [OF assms(3)]
  then have n: "peek s \<noteq> newline" by simp
  note b = starts_bump [OF assms(1,2) n]
  have r: "rest s = [peek s] @ rest (bump s)" using b(2) by simp
  have "kind_ok (mk_token k (bump s)) (rest (bump s))"
    using k by (simp add: kind_ok_def mk_token_def lexeme_read [OF assms(1) b(1) r b(3)])
  then show ?thesis
    unfolding add_token_def using k
    by (intro emits_push [OF assms(1) b(1) r b(3)]) (simp_all add: mk_token_def)
qed

lemma emits_operator:
  assumes "starts s" "\<not> at_end s" "map_of equal_operators (peek s) = Some (we, al)"
    "lx_match (CHR ''='') (bump s) = (m, u)"
  shows "emits s (add_token (if m then we else al) u)"
proof -
  note k = operator_kind [OF assms(3)]
  then have n: "peek s \<noteq> newline" by simp
  note b = starts_bump [OF assms(1,2) n]
  show ?thesis
  proof (cases "peek (bump s) = CHR ''=''")
    case True
    then have m: "m" "u = bump (bump s)" using assms(4) by (auto simp: lx_match_def)
    have ne: "\<not> at_end (bump s)" using True by (auto simp: peek_def)
    have r: "rest s = [peek s, CHR ''=''] @ rest u" using b(2) rest_bump [OF ne] True m by simp
    have f: "lx_frame s u" using b(1) lx_frame_bump(1) lx_frame_trans m by blast
    have ok: "lx_ok u" using lx_ok_bump(1) [OF b(3) ne] True m by (simp add: newline_def)
    have "kind_ok (mk_token we u) (rest u)"
      using k by (simp add: kind_ok_def mk_token_def lexeme_read [OF assms(1) f r ok])
    then have "emits s (push_token (mk_token we u) u)"
      using k by (intro emits_push [OF assms(1) f r ok]) (auto simp: mk_token_def)
    then show ?thesis using m(1) by (simp add: add_token_def)
  next
    case False
    then have m: "\<not> m" "u = bump s" using assms(4) by (auto simp: lx_match_def)
    have r: "rest s = [peek s] @ rest u" using b(2) m by simp
    have st: "stops (\<lambda>c. c = CHR ''='') (rest u)"
      using False m by (auto simp: peek_eq stops_def split: list.splits)
    have f: "lx_frame s u" and ok: "lx_ok u" using b m by simp_all
    have "kind_ok (mk_token al u) (rest u)"
      using k st by (simp add: kind_ok_def mk_token_def lexeme_read [OF assms(1) f r ok])
    then have "emits s (push_token (mk_token al u) u)"
      using k by (intro emits_push [OF assms(1) f r ok]) (auto simp: mk_token_def)
    then show ?thesis using m(1) by (simp add: add_token_def)
  qed
qed

lemma scan_token_emits:
  assumes "starts s" "\<not> at_end s"
  shows "emits s (scan_token s)"
proof -
  have b: "lx_source (bump s) = lx_source s" by (simp add: bump_def)
  have u: "emits s (unexpected (peek s) (bump s))"
    unfolding unexpected_def Let_def by (intro emits_if emits_fail b)
  obtain m v where m: "lx_match (CHR ''='') (bump s) = (m, v)" by fastforce
  consider "is_digit (peek s)" | "\<not> is_digit (peek s)" "is_alpha (peek s)"
    | k where "\<not> is_digit (peek s)" "\<not> is_alpha (peek s)" "map_of punctuation (peek s) = Some k"
    | we al where "\<not> is_digit (peek s)" "\<not> is_alpha (peek s)" "map_of punctuation (peek s) = None"
        "map_of equal_operators (peek s) = Some (we, al)"
    | "\<not> is_digit (peek s)" "\<not> is_alpha (peek s)" "map_of punctuation (peek s) = None"
        "map_of equal_operators (peek s) = None"
    by (cases "map_of punctuation (peek s)"; cases "map_of equal_operators (peek s)") auto
  then show ?thesis
  proof cases
    case 4
    then show ?thesis
      using emits_operator [OF assms 4(4) m] by (simp add: scan_token_def Let_def m)
  qed (use assms u emits_number emits_identifier emits_punctuation emits_string in
      \<open>simp_all add: scan_token_def Let_def\<close>)
qed

subsection \<open>The whole run\<close>

lemma starts_line:
  assumes "starts s"
  shows "lx_current s \<le> length (lx_source s) \<and>
    lx_start_line s = Suc (newlines (take (lx_current s) (lx_source s)))"
  using assms by (simp add: starts_def lx_ok_def)

lemma begin_token_starts:
  assumes "lx_ok s" "lx_error s = None"
  defines "b \<equiv> begin_token s"
  shows "starts b" "rest b = skip_str (rest s)" "lx_tokens b = lx_tokens s"
    "lx_source b = lx_source s" "lx_current s \<le> lx_current b"
proof -
  note f = skip_frame [of s]
  show "starts b" "lx_tokens b = lx_tokens s" "lx_source b = lx_source s"
    "lx_current s \<le> lx_current b"
    using skip_ok [OF assms(1)] f assms(2)
    by (simp_all add: starts_def b_def begin_token_def Let_def lx_ok_def lx_frame_def)
  show "rest b = skip_str (rest s)"
    using skip_rest [of s] by (simp add: b_def begin_token_def Let_def rest_def)
qed

lemma lex_loop_tiles:
  "lx_ok s \<Longrightarrow> lx_error (lex_loop s) = None \<Longrightarrow>
   \<exists>ts. lx_tokens (lex_loop s) = lx_tokens s @ ts \<and> tiles (lx_source s) (lx_current s) ts"
proof (induction s rule: lex_loop.induct)
  case (1 s)
  show ?case
  proof (cases "lx_error s = None")
    case False
    then show ?thesis using "1.prems" by (simp add: lex_loop.simps [of s])
  next
    case none: True
    define b where "b = begin_token s"
    note b = begin_token_starts [OF "1.prems"(1) none, folded b_def]
    have d: "drop (lx_current b) (lx_source s) = skip_str (drop (lx_current s) (lx_source s))"
      using b(2,4) by (simp add: rest_def)
    show ?thesis
    proof (cases "at_end b")
      case True
      have r: "rest b = [] @ rest b" by simp
      have okb: "lx_ok b" using b(1) by (simp add: starts_def)
      note l = lexeme_read(1) [OF b(1) lx_frame_refl r okb]
      have "kind_ok (mk_token TkEof b) (rest b)"
        using True by (simp add: kind_ok_def mk_token_def l at_end_rest)
      then have "token_ok (lx_source s) (mk_token TkEof b)"
        using b(4) l starts_line [OF b(1)]
        by (simp add: token_ok_def mk_token_def Let_def rest_def)
      then have "tiles (lx_source s) (lx_current s) [mk_token TkEof b]"
        using b(5) d l by (simp add: mk_token_def)
      moreover have "lex_loop s = add_token TkEof b"
        using none True by (simp add: lex_loop.simps [of s] b_def)
      ultimately show ?thesis using b(3) by (auto simp: add_token_def push_token_def)
    next
      case False
      define u where "u = scan_token b"
      have step: "lex_loop s = lex_loop u"
        using none False by (simp add: lex_loop.simps [of s] b_def u_def)
      have e: "emits b u" unfolding u_def using b(1) False by (rule scan_token_emits)
      have "lx_error u = None"
      proof (rule ccontr)
        assume "lx_error u \<noteq> None"
        then have "lex_loop u = u" by (simp add: lex_loop.simps [of u])
        with \<open>lx_error u \<noteq> None\<close> "1.prems"(2) step show False by simp
      qed
      then obtain t where t: "lx_ok u" "lx_tokens u = lx_tokens b @ [t]" "token_ok (lx_source b) t"
        "tk_kind t \<noteq> TkEof" "sv_start (tk_lexeme t) = lx_current b"
        "sv_start (tk_lexeme t) + length (sv_text (tk_lexeme t)) = lx_current u"
        "lx_source u = lx_source b"
        using e by (auto simp: emits_def)
      obtain ts where ts: "lx_tokens (lex_loop u) = lx_tokens u @ ts"
        "tiles (lx_source u) (lx_current u) ts"
        using "1.IH" none False t(1) "1.prems"(2) step by (auto simp: b_def u_def)
      have "ts \<noteq> []" using ts(2) by auto
      then have "tiles (lx_source s) (lx_current s) (t # ts)"
        using t ts(2) b(4,5) d by simp
      then show ?thesis using ts(1) t(2) b(3) step by auto
    qed
  qed
qed

lemma lx_ok_init: "lx_ok (init_lexer src)"
  by (simp add: lx_ok_def init_lexer_def newlines_def)

text \<open>C1. A successful run of the lexer tiles the source: its tokens stand at their offsets and
  lines, are the longest of their kind, decode to their values, and cover everything but blanks
  and comments up to a single end-of-file token.\<close>

theorem lex_tiles: "lr_error (lex src) = None \<Longrightarrow> tiles src 0 (lr_tokens (lex src))"
  using lex_loop_tiles [OF lx_ok_init, of src]
  by (auto simp: lex_def Let_def init_lexer_def)

theorem lex_tiles_witness: "tiles ''a=1;'' 0 (lr_tokens (lex ''a=1;''))"
  by (rule lex_tiles) code_simp

end
