(* ===== verification/Value.thy ===== *)
theory Value
  imports Float64
begin

text \<open>
  \<open>runtime/value.h\<close>: the interface of a Value and its two implementations, the tagged struct and
  the NaN-boxed word. The interface is the locale \<open>value_repr\<close>: the constructors, tests and
  projections as parameters, and as laws what every engine relies on. \<open>fits\<close> is
  \<open>pointer_fits_in_value\<close> and \<open>canon\<close> is what boxing may do to a double (fold a NaN). Both
  implementations are interpretations of it, so the engines may work on the datatype \<open>value\<close>
  below, which every representation that satisfies the laws refines (\<open>view\<close>).
\<close>

type_synonym int32 = "32 word"
type_synonym addr = nat

subsection \<open>The values of the language\<close>

datatype 'o gvalue = VNil | VBool bool | VInt int32 | VFloat double | VObj 'o

type_synonym "value" = "addr gvalue"

subsection \<open>The interface\<close>

locale value_repr =
  fixes make_nil :: 'v
    and make_bool :: "bool \<Rightarrow> 'v"
    and make_int :: "int32 \<Rightarrow> 'v"
    and make_float :: "double \<Rightarrow> 'v"
    and make_obj :: "64 word \<Rightarrow> 'v"
    and is_nil :: "'v \<Rightarrow> bool"
    and is_bool :: "'v \<Rightarrow> bool"
    and is_int :: "'v \<Rightarrow> bool"
    and is_float :: "'v \<Rightarrow> bool"
    and is_obj :: "'v \<Rightarrow> bool"
    and as_bool :: "'v \<Rightarrow> bool"
    and as_int :: "'v \<Rightarrow> int32"
    and as_float :: "'v \<Rightarrow> double"
    and as_obj :: "'v \<Rightarrow> 64 word"
    and fits :: "64 word \<Rightarrow> bool"
    and canon :: "double \<Rightarrow> double"
  assumes nil_kind: "is_nil make_nil" "\<not> is_bool make_nil" "\<not> is_int make_nil"
      "\<not> is_float make_nil" "\<not> is_obj make_nil"
    and bool_kind: "\<not> is_nil (make_bool b)" "is_bool (make_bool b)" "\<not> is_int (make_bool b)"
      "\<not> is_float (make_bool b)" "\<not> is_obj (make_bool b)"
    and int_kind: "\<not> is_nil (make_int i)" "\<not> is_bool (make_int i)" "is_int (make_int i)"
      "\<not> is_float (make_int i)" "\<not> is_obj (make_int i)"
    and float_kind: "\<not> is_nil (make_float d)" "\<not> is_bool (make_float d)" "\<not> is_int (make_float d)"
      "is_float (make_float d)" "\<not> is_obj (make_float d)"
    and obj_kind: "fits p \<Longrightarrow> \<not> is_nil (make_obj p)" "fits p \<Longrightarrow> \<not> is_bool (make_obj p)"
      "fits p \<Longrightarrow> \<not> is_int (make_obj p)" "fits p \<Longrightarrow> \<not> is_float (make_obj p)"
      "fits p \<Longrightarrow> is_obj (make_obj p)"
    and as_bool_make: "as_bool (make_bool b) = b"
    and as_int_make: "as_int (make_int i) = i"
    and as_float_make: "as_float (make_float d) = canon d"
    and as_obj_make: "fits p \<Longrightarrow> as_obj (make_obj p) = p"
    and canon_number: "\<not> isnan d \<Longrightarrow> canon d = d"
    and canon_nan: "isnan d \<Longrightarrow> isnan (canon d)"
begin

text \<open>What a value of the representation stands for, and how a value of the language is made.\<close>

definition view :: "'v \<Rightarrow> 64 word gvalue" where
  "view v =
     (if is_nil v then VNil else if is_bool v then VBool (as_bool v)
      else if is_int v then VInt (as_int v) else if is_float v then VFloat (as_float v)
      else VObj (as_obj v))"

definition make :: "64 word gvalue \<Rightarrow> 'v" where
  "make x =
     (case x of VNil \<Rightarrow> make_nil | VBool b \<Rightarrow> make_bool b | VInt i \<Rightarrow> make_int i
      | VFloat d \<Rightarrow> make_float d | VObj p \<Rightarrow> make_obj p)"

definition canon_value :: "64 word gvalue \<Rightarrow> 64 word gvalue" where
  "canon_value x = (case x of VFloat d \<Rightarrow> VFloat (canon d) | _ \<Rightarrow> x)"

definition fits_value :: "64 word gvalue \<Rightarrow> bool" where
  "fits_value x = (case x of VObj p \<Rightarrow> fits p | _ \<Rightarrow> True)"

lemma view_make: "fits_value x \<Longrightarrow> view (make x) = canon_value x"
  by (cases x)
    (auto simp: view_def make_def canon_value_def fits_value_def nil_kind bool_kind int_kind
      float_kind obj_kind as_bool_make as_int_make as_float_make as_obj_make)

text \<open>Exactly one of the five tests holds for every value the constructors make.\<close>

lemma one_kind:
  "fits_value x \<Longrightarrow>
   [is_nil (make x), is_bool (make x), is_int (make x), is_float (make x), is_obj (make x)] =
   (case x of VNil \<Rightarrow> [True, False, False, False, False]
    | VBool _ \<Rightarrow> [False, True, False, False, False]
    | VInt _ \<Rightarrow> [False, False, True, False, False]
    | VFloat _ \<Rightarrow> [False, False, False, True, False]
    | VObj _ \<Rightarrow> [False, False, False, False, True])"
  by (cases x)
    (auto simp: make_def fits_value_def nil_kind bool_kind int_kind float_kind obj_kind)

end

text \<open>Boxing changes nothing a comparison can see: numbers are kept and a NaN stays a NaN.\<close>

context value_repr
begin

lemma canon_feq: "feq (canon x) (canon y) = feq x y"
  using canon_number canon_nan by (cases "isnan x"; cases "isnan y") (auto simp: feq_def)

lemma canon_flt: "flt (canon x) (canon y) = flt x y"
  using canon_number canon_nan by (cases "isnan x"; cases "isnan y") (auto simp: flt_def)

lemma make_inject:
  assumes "fits_value x" "fits_value y" "make x = make y"
  shows "canon_value x = canon_value y"
  using view_make [OF assms(1)] view_make [OF assms(2)] assms(3) by simp

end

subsection \<open>The tagged struct\<close>

text \<open>
  A one-byte type and an eight-byte union. \<open>make_nil\<close> initialises the union, and each constructor
  writes its member over the low bytes of it, so the payload is the member extended by zeros.
\<close>

datatype value_type = TyNil | TyBool | TyInt | TyFloat | TyObj

record tagged =
  vtype :: value_type
  payload :: "64 word"

definition t_make_nil :: tagged where "t_make_nil = \<lparr>vtype = TyNil, payload = 0\<rparr>"
definition t_make_bool :: "bool \<Rightarrow> tagged" where
  "t_make_bool b = t_make_nil\<lparr>vtype := TyBool, payload := of_bool b\<rparr>"
definition t_make_int :: "int32 \<Rightarrow> tagged" where
  "t_make_int i = t_make_nil\<lparr>vtype := TyInt, payload := ucast i\<rparr>"
definition t_make_float :: "double \<Rightarrow> tagged" where
  "t_make_float d = t_make_nil\<lparr>vtype := TyFloat, payload := d\<rparr>"
definition t_make_obj :: "64 word \<Rightarrow> tagged" where
  "t_make_obj p = t_make_nil\<lparr>vtype := TyObj, payload := p\<rparr>"

definition t_is_nil :: "tagged \<Rightarrow> bool" where "t_is_nil v \<longleftrightarrow> vtype v = TyNil"
definition t_is_bool :: "tagged \<Rightarrow> bool" where "t_is_bool v \<longleftrightarrow> vtype v = TyBool"
definition t_is_int :: "tagged \<Rightarrow> bool" where "t_is_int v \<longleftrightarrow> vtype v = TyInt"
definition t_is_float :: "tagged \<Rightarrow> bool" where "t_is_float v \<longleftrightarrow> vtype v = TyFloat"
definition t_is_obj :: "tagged \<Rightarrow> bool" where "t_is_obj v \<longleftrightarrow> vtype v = TyObj"

definition t_as_bool :: "tagged \<Rightarrow> bool" where "t_as_bool v \<longleftrightarrow> bit (payload v) 0"
definition t_as_int :: "tagged \<Rightarrow> int32" where "t_as_int v = ucast (payload v)"
definition t_as_float :: "tagged \<Rightarrow> double" where "t_as_float v = payload v"
definition t_as_obj :: "tagged \<Rightarrow> 64 word" where "t_as_obj v = payload v"
definition t_pointer_fits :: "64 word \<Rightarrow> bool" where "t_pointer_fits p \<longleftrightarrow> True"

lemmas tagged_defs =
  t_make_nil_def t_make_bool_def t_make_int_def t_make_float_def t_make_obj_def
  t_is_nil_def t_is_bool_def t_is_int_def t_is_float_def t_is_obj_def
  t_as_bool_def t_as_int_def t_as_float_def t_as_obj_def t_pointer_fits_def

interpretation tg: value_repr t_make_nil t_make_bool t_make_int t_make_float t_make_obj
  t_is_nil t_is_bool t_is_int t_is_float t_is_obj t_as_bool t_as_int t_as_float t_as_obj
  t_pointer_fits "\<lambda>d. d"
  by unfold_locales (simp_all add: tagged_defs bit_0 unsigned_ucast_eq take_bit_word_eq_self)

subsection \<open>The NaN-boxed word\<close>

text \<open>
  \<open>namespace nanbox\<close> and the functions of the second implementation, on the raw 64 bits.
  \<close>

type_synonym nanbox = "64 word"

definition kQnan :: nanbox where "kQnan = 0x7FFC000000000000"
definition kSign :: nanbox where "kSign = 0x8000000000000000"
definition kCanonicalNan :: nanbox where "kCanonicalNan = 0x7FF8000000000000"
definition kTagMask :: nanbox where "kTagMask = 0xFFFF000000000000"
definition kIntTag :: nanbox where "kIntTag = kQnan OR 0x0001000000000000"
definition kNil :: nanbox where "kNil = kQnan OR 0x0002000000000000"
definition kFalse :: nanbox where "kFalse = kQnan OR 0x0003000000000000"
definition kTrue :: nanbox where "kTrue = kFalse OR 1"
definition kObjTag :: nanbox where "kObjTag = kSign OR kQnan"
definition kPointerMask :: nanbox where "kPointerMask = 0x0000FFFFFFFFFFFF"
definition kIntMask :: nanbox where "kIntMask = 0xFFFFFFFF00000000"

lemma nanbox_numerals [nanbox_simps]:
  "kQnan = 0x7FFC000000000000" "kIntTag = 0x7FFD000000000000" "kNil = 0x7FFE000000000000"
  "kFalse = 0x7FFF000000000000" "kTrue = 0x7FFF000000000001" "kObjTag = 0xFFFC000000000000"
  "kCanonicalNan = 0x7FF8000000000000" "kTagMask = 0xFFFF000000000000"
  "kPointerMask = 0x0000FFFFFFFFFFFF" "kIntMask = 0xFFFFFFFF00000000"
  by (simp_all add: kQnan_def kSign_def kIntTag_def kNil_def kFalse_def kTrue_def kObjTag_def
      kCanonicalNan_def kTagMask_def kPointerMask_def kIntMask_def)

definition n_make_nil :: nanbox where "n_make_nil = kNil"
definition n_make_bool :: "bool \<Rightarrow> nanbox" where "n_make_bool b = (if b then kTrue else kFalse)"
definition n_make_int :: "int32 \<Rightarrow> nanbox" where "n_make_int i = kIntTag OR ucast i"
definition n_make_float :: "double \<Rightarrow> nanbox" where
  "n_make_float d = (if isnan d then kCanonicalNan else d)"
definition n_make_obj :: "64 word \<Rightarrow> nanbox" where
  "n_make_obj p = kObjTag OR (p AND kPointerMask)"

definition n_is_nil :: "nanbox \<Rightarrow> bool" where "n_is_nil v \<longleftrightarrow> v = kNil"
definition n_is_bool :: "nanbox \<Rightarrow> bool" where "n_is_bool v \<longleftrightarrow> v OR 1 = kTrue"
definition n_is_int :: "nanbox \<Rightarrow> bool" where "n_is_int v \<longleftrightarrow> v AND kIntMask = kIntTag"
definition n_is_float :: "nanbox \<Rightarrow> bool" where "n_is_float v \<longleftrightarrow> v AND kQnan \<noteq> kQnan"
definition n_is_obj :: "nanbox \<Rightarrow> bool" where "n_is_obj v \<longleftrightarrow> v AND kTagMask = kObjTag"

definition n_as_bool :: "nanbox \<Rightarrow> bool" where "n_as_bool v \<longleftrightarrow> v = kTrue"
definition n_as_int :: "nanbox \<Rightarrow> int32" where "n_as_int v = ucast v"
definition n_as_float :: "nanbox \<Rightarrow> double" where "n_as_float v = v"
definition n_as_obj :: "nanbox \<Rightarrow> 64 word" where "n_as_obj v = v AND kPointerMask"
definition n_pointer_fits :: "64 word \<Rightarrow> bool" where
  "n_pointer_fits p \<longleftrightarrow> p AND NOT kPointerMask = 0"
definition n_canon :: "double \<Rightarrow> double" where
  "n_canon d = (if isnan d then kCanonicalNan else d)"

text \<open>Every tagged word has the reserved bits set, and no number has them.\<close>

lemma n_is_nil_tag: "n_is_nil v \<Longrightarrow> v AND kQnan = kQnan"
  by (simp add: n_is_nil_def nanbox_simps)

lemma n_is_bool_tag: "n_is_bool v \<Longrightarrow> v AND kQnan = kQnan"
proof -
  assume "n_is_bool v"
  then have "(v OR 1) AND kQnan = kTrue AND kQnan" by (simp add: n_is_bool_def)
  then have "v AND kQnan OR (1 AND kQnan) = kTrue AND kQnan" by (simp only: bit.conj_disj_distrib2)
  then show ?thesis by (simp add: nanbox_simps)
qed

lemma n_is_int_tag: "n_is_int v \<Longrightarrow> v AND kQnan = kQnan"
proof -
  assume "n_is_int v"
  then have "(v AND kIntMask) AND kQnan = kIntTag AND kQnan" by (simp add: n_is_int_def)
  then have "v AND (kIntMask AND kQnan) = kIntTag AND kQnan" by (simp only: and.assoc)
  then show ?thesis by (simp add: nanbox_simps)
qed

lemma n_is_obj_tag: "n_is_obj v \<Longrightarrow> v AND kQnan = kQnan"
proof -
  assume "n_is_obj v"
  then have "(v AND kTagMask) AND kQnan = kObjTag AND kQnan" by (simp add: n_is_obj_def)
  then have "v AND (kTagMask AND kQnan) = kObjTag AND kQnan" by (simp only: and.assoc)
  then show ?thesis by (simp add: nanbox_simps)
qed

lemma kQnan_shift: "kQnan = push_bit 50 (mask 13)"
  by (simp add: nanbox_simps mask_eq_exp_minus_1)

lemma tag_is_nan:
  assumes "v AND kQnan = kQnan"
  shows "isnan v"
proof -
  have b: "bit v n" if "50 \<le> n" "n < 63" for n
  proof -
    have "bit kQnan n" using that by (simp add: kQnan_shift bit_push_bit_iff bit_mask_iff) arith
    then have "bit (v AND kQnan) n" using assms by simp
    then show ?thesis by (simp add: bit_and_iff)
  qed
  have "drop_bit 52 v AND 0x7FF = (mask 11 :: double)"
    unfolding and_0x7FF by (rule bit_word_eqI) (auto simp: bit_take_bit_iff bit_drop_bit_eq bit_mask_iff b)
  then have "f_exp v = 2047" by (simp add: f_exp_def mask_eq_exp_minus_1)
  moreover have "f_man v \<noteq> 0"
  proof
    assume "f_man v = 0"
    then have "take_bit 52 v = 0" unfolding f_man_def and_man by (simp only: uint_0_iff)
    then have "\<not> bit (take_bit 52 v) 51" by simp
    then show False using b [of 51] by (simp add: bit_take_bit_iff)
  qed
  ultimately show ?thesis by (simp add: isnan_def)
qed

lemma n_make_float_is_float: "n_is_float (n_make_float d)"
proof (cases "isnan d")
  case True
  then show ?thesis by (simp add: n_make_float_def n_is_float_def nanbox_simps)
next
  case False
  then show ?thesis using tag_is_nan [of d] by (auto simp: n_make_float_def n_is_float_def)
qed

lemma n_float_not_tagged:
  "n_is_float v \<Longrightarrow> \<not> n_is_nil v \<and> \<not> n_is_bool v \<and> \<not> n_is_int v \<and> \<not> n_is_obj v"
  using n_is_nil_tag n_is_bool_tag n_is_int_tag n_is_obj_tag by (auto simp: n_is_float_def)

lemma int_mask_not: "kIntMask = NOT (mask 32)" "kPointerMask = mask 48"
  by (simp_all add: nanbox_simps mask_eq_exp_minus_1)

lemma ucast_int_masked: "(ucast (i::int32) :: nanbox) AND kIntMask = 0"
  unfolding int_mask_not
  by (rule bit_word_eqI) (auto simp: bit_and_iff bit_not_iff bit_mask_iff bit_ucast_iff dest: bit_imp_le_length)

lemma n_make_int_masked: "n_make_int i AND kIntMask = kIntTag"
proof -
  have "n_make_int i AND kIntMask = kIntTag AND kIntMask OR (ucast i AND kIntMask)"
    unfolding n_make_int_def by (rule bit.conj_disj_distrib2)
  then show ?thesis by (simp add: ucast_int_masked) (simp add: nanbox_simps)
qed

lemma n_int_only:
  assumes "n_is_int v"
  shows "\<not> n_is_nil v" "\<not> n_is_bool v" "\<not> n_is_obj v" "\<not> n_is_float v"
proof -
  have m: "v AND kIntMask = kIntTag" using assms by (simp add: n_is_int_def)
  show "\<not> n_is_float v" using n_is_int_tag [OF assms] by (simp add: n_is_float_def)
  show "\<not> n_is_nil v" using m by (auto simp: n_is_nil_def) (simp add: nanbox_simps)
  show "\<not> n_is_bool v"
  proof
    assume "n_is_bool v"
    then have "(v OR 1) AND kIntMask = kTrue AND kIntMask" by (simp add: n_is_bool_def)
    then have "v AND kIntMask OR (1 AND kIntMask) = kTrue AND kIntMask"
      by (simp only: bit.conj_disj_distrib2)
    then show False unfolding m by (simp add: nanbox_simps)
  qed
  show "\<not> n_is_obj v"
  proof
    assume "n_is_obj v"
    then have "v AND kTagMask = kObjTag" by (simp add: n_is_obj_def)
    then have "(v AND kTagMask) AND kIntMask = kObjTag AND kIntMask" by simp
    then have "(v AND kIntMask) AND kTagMask = kObjTag AND kIntMask"
      by (simp only: and.assoc and.commute [of kTagMask kIntMask])
    then show False unfolding m by (simp add: nanbox_simps)
  qed
qed

lemma n_obj_only:
  assumes "n_is_obj v"
  shows "\<not> n_is_nil v" "\<not> n_is_bool v" "\<not> n_is_int v" "\<not> n_is_float v"
proof -
  have m: "v AND kTagMask = kObjTag" using assms by (simp add: n_is_obj_def)
  show "\<not> n_is_float v" using n_is_obj_tag [OF assms] by (simp add: n_is_float_def)
  show "\<not> n_is_nil v" using m by (auto simp: n_is_nil_def) (simp add: nanbox_simps)
  show "\<not> n_is_bool v"
  proof
    assume "n_is_bool v"
    then have "(v OR 1) AND kTagMask = kTrue AND kTagMask" by (simp add: n_is_bool_def)
    then have "v AND kTagMask OR (1 AND kTagMask) = kTrue AND kTagMask"
      by (simp only: bit.conj_disj_distrib2)
    then show False unfolding m by (simp add: nanbox_simps)
  qed
  show "\<not> n_is_int v" using n_int_only(3) assms by blast
qed

lemma n_nil_not_bool: "n_is_nil v \<Longrightarrow> \<not> n_is_bool v"
  by (auto simp: n_is_nil_def n_is_bool_def) (simp add: nanbox_simps)

text \<open>At most one test holds of any 64-bit word, whether or not a constructor made it.\<close>

definition n_kinds :: "nanbox \<Rightarrow> bool list" where
  "n_kinds v = [n_is_nil v, n_is_bool v, n_is_int v, n_is_float v, n_is_obj v]"

lemma n_kinds_exclusive: "count_list (n_kinds v) True \<le> 1"
proof -
  have float: "\<not> (n_is_float v \<and> (n_is_nil v \<or> n_is_bool v \<or> n_is_int v \<or> n_is_obj v))"
    using n_float_not_tagged by blast
  have others: "\<not> (n_is_int v \<and> (n_is_nil v \<or> n_is_bool v \<or> n_is_obj v))"
    "\<not> (n_is_obj v \<and> (n_is_nil v \<or> n_is_bool v))" "\<not> (n_is_nil v \<and> n_is_bool v)"
    using n_int_only n_obj_only n_nil_not_bool by blast+
  show ?thesis
    using float others
    by (cases "n_is_float v"; cases "n_is_int v"; cases "n_is_obj v"; cases "n_is_nil v")
      (simp_all add: n_kinds_def)
qed

lemma n_make_obj_masked: "n_make_obj p AND kTagMask = kObjTag"
proof -
  have "(p AND kPointerMask) AND kTagMask = 0" by (simp add: nanbox_simps and.assoc)
  moreover have "kObjTag AND kTagMask = kObjTag" by (simp add: nanbox_simps)
  ultimately show ?thesis unfolding n_make_obj_def by (simp add: bit.conj_disj_distrib2)
qed

lemma n_make_int_is_int: "n_is_int (n_make_int i)"
  by (simp add: n_is_int_def n_make_int_masked)

lemma n_make_obj_is_obj: "n_is_obj (n_make_obj p)"
  by (simp add: n_is_obj_def n_make_obj_masked)

lemma n_as_obj_make: "n_pointer_fits p \<Longrightarrow> n_as_obj (n_make_obj p) = p"
proof -
  assume "n_pointer_fits p"
  then have "p AND NOT kPointerMask = 0" by (simp add: n_pointer_fits_def)
  then have p: "p AND kPointerMask = p"
    by (metis and.right_neutral bit.conj_disj_distrib bit.disj_cancel_right or.right_neutral)
  have "kObjTag AND kPointerMask = 0" by (simp add: nanbox_simps)
  then show ?thesis by (simp add: n_as_obj_def n_make_obj_def bit.conj_disj_distrib2 p)
qed

lemma n_as_int_make: "n_as_int (n_make_int i) = i"
proof -
  have "ucast kIntTag = (0 :: int32)" by (simp add: nanbox_simps)
  then have "n_as_int (n_make_int i) = ucast (ucast i :: nanbox)"
    by (simp add: n_as_int_def n_make_int_def unsigned_or_eq)
  then show ?thesis by (simp add: unsigned_ucast_eq take_bit_word_eq_self)
qed

interpretation nb: value_repr n_make_nil n_make_bool n_make_int n_make_float n_make_obj
  n_is_nil n_is_bool n_is_int n_is_float n_is_obj n_as_bool n_as_int n_as_float n_as_obj
  n_pointer_fits n_canon
proof unfold_locales
  fix b :: bool and i :: int32 and d :: double and p :: "64 word"
  show "n_is_nil n_make_nil" "\<not> n_is_bool n_make_nil" "\<not> n_is_int n_make_nil"
    "\<not> n_is_float n_make_nil" "\<not> n_is_obj n_make_nil"
    by (simp_all add: n_make_nil_def n_is_nil_def n_is_bool_def n_is_int_def n_is_float_def
        n_is_obj_def nanbox_simps)
  show "\<not> n_is_nil (n_make_bool b)" "n_is_bool (n_make_bool b)" "\<not> n_is_int (n_make_bool b)"
    "\<not> n_is_float (n_make_bool b)" "\<not> n_is_obj (n_make_bool b)" "n_as_bool (n_make_bool b) = b"
    by (simp_all add: n_make_bool_def n_is_nil_def n_is_bool_def n_is_int_def n_is_float_def
        n_is_obj_def n_as_bool_def nanbox_simps)
  show "\<not> n_is_nil (n_make_float d)" "\<not> n_is_bool (n_make_float d)" "\<not> n_is_int (n_make_float d)"
    "n_is_float (n_make_float d)" "\<not> n_is_obj (n_make_float d)"
    using n_float_not_tagged [OF n_make_float_is_float] n_make_float_is_float by blast+
  show "n_as_float (n_make_float d) = n_canon d"
    by (simp add: n_as_float_def n_make_float_def n_canon_def)
  show "\<not> isnan d \<Longrightarrow> n_canon d = d" by (simp add: n_canon_def)
  show "isnan d \<Longrightarrow> isnan (n_canon d)"
    by (simp add: n_canon_def isnan_def f_exp_def f_man_def nanbox_simps)
qed (simp_all add: n_make_int_is_int n_int_only n_make_obj_is_obj n_obj_only n_as_int_make n_as_obj_make)

subsection \<open>The two representations agree\<close>

text \<open>Reading and making a value of the language in each representation.\<close>

definition t_box :: "64 word gvalue \<Rightarrow> tagged" where
  "t_box x =
     (case x of VNil \<Rightarrow> t_make_nil | VBool b \<Rightarrow> t_make_bool b | VInt i \<Rightarrow> t_make_int i
      | VFloat d \<Rightarrow> t_make_float d | VObj p \<Rightarrow> t_make_obj p)"

definition t_unbox :: "tagged \<Rightarrow> 64 word gvalue" where
  "t_unbox v =
     (if t_is_nil v then VNil else if t_is_bool v then VBool (t_as_bool v)
      else if t_is_int v then VInt (t_as_int v) else if t_is_float v then VFloat (t_as_float v)
      else VObj (t_as_obj v))"

definition n_box :: "64 word gvalue \<Rightarrow> nanbox" where
  "n_box x =
     (case x of VNil \<Rightarrow> n_make_nil | VBool b \<Rightarrow> n_make_bool b | VInt i \<Rightarrow> n_make_int i
      | VFloat d \<Rightarrow> n_make_float d | VObj p \<Rightarrow> n_make_obj p)"

definition n_unbox :: "nanbox \<Rightarrow> 64 word gvalue" where
  "n_unbox v =
     (if n_is_nil v then VNil else if n_is_bool v then VBool (n_as_bool v)
      else if n_is_int v then VInt (n_as_int v) else if n_is_float v then VFloat (n_as_float v)
      else VObj (n_as_obj v))"

definition fold_nan :: "64 word gvalue \<Rightarrow> 64 word gvalue" where
  "fold_nan x = (case x of VFloat d \<Rightarrow> VFloat (n_canon d) | _ \<Rightarrow> x)"

lemma t_unbox_box: "t_unbox (t_box x) = x"
  using tg.view_make [of x]
  by (cases x) (simp_all add: tg.view_def tg.make_def tg.fits_value_def tg.canon_value_def
      t_unbox_def t_box_def t_pointer_fits_def)

lemma n_unbox_box: "(case x of VObj p \<Rightarrow> n_pointer_fits p | _ \<Rightarrow> True) \<Longrightarrow> n_unbox (n_box x) = fold_nan x"
  using nb.view_make [of x]
  by (cases x) (simp_all add: nb.view_def nb.make_def nb.fits_value_def nb.canon_value_def
      n_unbox_def n_box_def fold_nan_def)

text \<open>C9. The NaN-boxed word and the tagged struct hold the same values: what is read back from
  the word is what is read back from the struct, up to folding a NaN into the canonical one.\<close>

theorem nanbox_agrees_with_tagged:
  assumes "case x of VObj p \<Rightarrow> n_pointer_fits p | _ \<Rightarrow> True"
  shows "n_unbox (n_box x) = fold_nan (t_unbox (t_box x))"
  using n_unbox_box [OF assms] by (simp add: t_unbox_box)

theorem nanbox_agrees_with_tagged_witness:
  "n_unbox (n_box (VObj 0x00007F0012345670)) = VObj 0x00007F0012345670"
  using nanbox_agrees_with_tagged [of "VObj 0x00007F0012345670"]
  by (simp add: n_pointer_fits_def nanbox_simps fold_nan_def t_unbox_box)


end
