(* ===== verification/Ast.thy ===== *)
theory Ast
  imports Lexer Value
begin

text \<open>
  \<open>ast.h\<close>: the syntax tree. One constructor per node struct, with the struct's fields in order;
  a \<open>unique_ptr\<close> that may be null is an option, the \<open>std::variant\<close> of a literal is \<open>literal\<close>, and
  a \<open>Block\<close> held by value (a function's body) is its statements and its line. After the data the
  measures the limits of the language speak about: the height of an expression (its chain length)
  and the syntactic nesting that the tree still shows.
\<close>

subsection \<open>The nodes\<close>

datatype binding = Unresolved | GlobalBinding | LocalBinding nat

datatype literal = LitNil | LitBool bool | LitInt int32 | LitFloat double | LitString string

datatype unary_op = UNegate | UNot

datatype binary_op = BAdd | BSub | BMul | BDiv | BMod | BEq | BNe | BLt | BLe | BGt | BGe

datatype logical_op = LAnd | LOr

datatype expr =
    ELiteral literal nat
  | EVariable sview binding nat
  | EAssign sview expr binding nat
  | EUnary unary_op expr nat
  | EBinary binary_op expr expr nat
  | ELogical logical_op expr expr nat
  | ECall expr "expr list" nat
  | EArrayLiteral "expr list" nat
  | EIndex expr expr nat
  | EIndexAssign expr expr expr nat

datatype stmt =
    SPrint expr nat
  | SExpr expr nat
  | SLet sview "expr option" nat
  | SBlock "stmt list" nat
  | SIf expr stmt "stmt option" nat
  | SWhile expr stmt nat
  | SFunction sview "sview list" "stmt list" nat nat
  | SReturn "expr option" nat

record program =
  pr_source :: string
  pr_tokens :: "token list"
  pr_statements :: "stmt list"

fun expr_line :: "expr \<Rightarrow> nat" where
  "expr_line (ELiteral v l) = l"
| "expr_line (EVariable x b l) = l"
| "expr_line (EAssign x e b l) = l"
| "expr_line (EUnary op e l) = l"
| "expr_line (EBinary op a b l) = l"
| "expr_line (ELogical op a b l) = l"
| "expr_line (ECall f as l) = l"
| "expr_line (EArrayLiteral es l) = l"
| "expr_line (EIndex a i l) = l"
| "expr_line (EIndexAssign a i v l) = l"

subsection \<open>Height, nesting and bindings\<close>

text \<open>The chain length of an expression: the operations on its longest path to a leaf.\<close>

fun eheight :: "expr \<Rightarrow> nat" and eheights :: "expr list \<Rightarrow> nat" where
  "eheight (ELiteral v l) = 0"
| "eheight (EVariable x b l) = 0"
| "eheight (EAssign x e b l) = Suc (eheight e)"
| "eheight (EUnary op e l) = Suc (eheight e)"
| "eheight (EBinary op a b l) = Suc (max (eheight a) (eheight b))"
| "eheight (ELogical op a b l) = Suc (max (eheight a) (eheight b))"
| "eheight (ECall f as l) = Suc (max (eheight f) (eheights as))"
| "eheight (EArrayLiteral es l) = Suc (eheights es)"
| "eheight (EIndex a i l) = Suc (max (eheight a) (eheight i))"
| "eheight (EIndexAssign a i v l) = Suc (max (max (eheight a) (eheight i)) (eheight v))"
| "eheights [] = 0"
| "eheights (e # es) = max (eheight e) (eheights es)"

lemma eheights_append [simp]: "eheights (es @ fs) = max (eheights es) (eheights fs)"
  by (induction es) auto

text \<open>
  The levels of nesting the tree shows: the operand of a unary operator, the arguments of a call,
  an index, the elements of an array literal and the right side of \<open>=\<close> are one level down.
  (Parentheses leave no node, so the source may nest deeper than this.)
\<close>

fun enest :: "expr \<Rightarrow> nat" and enests :: "expr list \<Rightarrow> nat" where
  "enest (ELiteral v l) = 0"
| "enest (EVariable x b l) = 0"
| "enest (EAssign x e b l) = Suc (enest e)"
| "enest (EUnary op e l) = Suc (enest e)"
| "enest (EBinary op a b l) = max (enest a) (enest b)"
| "enest (ELogical op a b l) = max (enest a) (enest b)"
| "enest (ECall f as l) = max (enest f) (Suc (enests as))"
| "enest (EArrayLiteral es l) = Suc (enests es)"
| "enest (EIndex a i l) = max (enest a) (Suc (enest i))"
| "enest (EIndexAssign a i v l) = max (max (enest a) (Suc (enest i))) (Suc (enest v))"
| "enests [] = 0"
| "enests (e # es) = max (enest e) (enests es)"

lemma enests_append [simp]: "enests (es @ fs) = max (enests es) (enests fs)"
  by (induction es) auto

definition enest_opt :: "expr option \<Rightarrow> nat" where
  "enest_opt eo = (case eo of None \<Rightarrow> 0 | Some e \<Rightarrow> enest e)"

fun snest :: "stmt \<Rightarrow> nat" and snests :: "stmt list \<Rightarrow> nat" where
  "snest (SPrint e l) = enest e"
| "snest (SExpr e l) = enest e"
| "snest (SLet x eo l) = enest_opt eo"
| "snest (SBlock ss l) = Suc (snests ss)"
| "snest (SIf c t None l) = max (enest c) (Suc (snest t))"
| "snest (SIf c t (Some e) l) = max (enest c) (Suc (max (snest t) (snest e)))"
| "snest (SWhile c b l) = max (enest c) (Suc (snest b))"
| "snest (SFunction f ps body bl l) = Suc (snests body)"
| "snest (SReturn eo l) = enest_opt eo"
| "snests [] = 0"
| "snests (s # ss) = max (snest s) (snests ss)"

lemma snests_append [simp]: "snests (ss @ ts) = max (snests ss) (snests ts)"
  by (induction ss) auto

text \<open>The bindings in a tree, in the order of its fields.\<close>

fun ebindings :: "expr \<Rightarrow> binding list" and ebindingss :: "expr list \<Rightarrow> binding list" where
  "ebindings (ELiteral v l) = []"
| "ebindings (EVariable x b l) = [b]"
| "ebindings (EAssign x e b l) = ebindings e @ [b]"
| "ebindings (EUnary op e l) = ebindings e"
| "ebindings (EBinary op a b l) = ebindings a @ ebindings b"
| "ebindings (ELogical op a b l) = ebindings a @ ebindings b"
| "ebindings (ECall f as l) = ebindings f @ ebindingss as"
| "ebindings (EArrayLiteral es l) = ebindingss es"
| "ebindings (EIndex a i l) = ebindings a @ ebindings i"
| "ebindings (EIndexAssign a i v l) = ebindings a @ ebindings i @ ebindings v"
| "ebindingss [] = []"
| "ebindingss (e # es) = ebindings e @ ebindingss es"

lemma ebindingss_append [simp]: "ebindingss (es @ fs) = ebindingss es @ ebindingss fs"
  by (induction es) auto

definition ebindings_opt :: "expr option \<Rightarrow> binding list" where
  "ebindings_opt eo = (case eo of None \<Rightarrow> [] | Some e \<Rightarrow> ebindings e)"

fun sbindings :: "stmt \<Rightarrow> binding list" and sbindingss :: "stmt list \<Rightarrow> binding list" where
  "sbindings (SPrint e l) = ebindings e"
| "sbindings (SExpr e l) = ebindings e"
| "sbindings (SLet x eo l) = ebindings_opt eo"
| "sbindings (SBlock ss l) = sbindingss ss"
| "sbindings (SIf c t None l) = ebindings c @ sbindings t"
| "sbindings (SIf c t (Some e) l) = ebindings c @ sbindings t @ sbindings e"
| "sbindings (SWhile c b l) = ebindings c @ sbindings b"
| "sbindings (SFunction f ps body bl l) = sbindingss body"
| "sbindings (SReturn eo l) = ebindings_opt eo"
| "sbindingss [] = []"
| "sbindingss (s # ss) = sbindings s @ sbindingss ss"

lemma sbindingss_append [simp]: "sbindingss (ss @ ts) = sbindingss ss @ sbindingss ts"
  by (induction ss) auto

text \<open>The expressions a statement holds, for the limits that speak about each of them.\<close>

definition opt_list :: "'a option \<Rightarrow> 'a list" where
  "opt_list x = (case x of None \<Rightarrow> [] | Some y \<Rightarrow> [y])"

fun sexprs :: "stmt \<Rightarrow> expr list" and sexprss :: "stmt list \<Rightarrow> expr list" where
  "sexprs (SPrint e l) = [e]"
| "sexprs (SExpr e l) = [e]"
| "sexprs (SLet x eo l) = opt_list eo"
| "sexprs (SBlock ss l) = sexprss ss"
| "sexprs (SIf c t None l) = c # sexprs t"
| "sexprs (SIf c t (Some e) l) = c # sexprs t @ sexprs e"
| "sexprs (SWhile c b l) = c # sexprs b"
| "sexprs (SFunction f ps body bl l) = sexprss body"
| "sexprs (SReturn eo l) = opt_list eo"
| "sexprss [] = []"
| "sexprss (s # ss) = sexprs s @ sexprss ss"

lemma sexprss_append [simp]: "sexprss (ss @ ts) = sexprss ss @ sexprss ts"
  by (induction ss) auto

end
