(* ===== verification/Parser.thy ===== *)
theory Parser
  imports Ast
begin

text \<open>
  \<open>parser.cpp\<close>: the recursive descent with precedence climbing, one definition per member function
  of the class \<open>Parser\<close>, on the state the class keeps (\<open>pstate\<close>: the tokens, the position, the
  nesting depth and the height of the expression parsed last). A thrown \<open>ParseAbort\<close> is \<open>Error\<close>.
  The member functions call each other through tokens they have consumed, so they take fuel;
  \<open>Parser_Spec\<close> shows that the fuel \<open>parse\<close> gives them never runs out.
\<close>

subsection \<open>The parser's state and its primitives\<close>

definition kIntMinMagnitude :: int where "kIntMinMagnitude = 2147483648"
definition kMaxNesting :: nat where "kMaxNesting = 200"
definition kMaxChain :: nat where "kMaxChain = 1000"

record pstate =
  ps_tokens :: "token list"
  ps_pos :: nat
  ps_depth :: nat
  ps_height :: nat

type_synonym 'a parser = "pstate \<Rightarrow> (compile_error, 'a \<times> pstate) outcome"

definition preturn :: "'a \<Rightarrow> 'a parser" where
  "preturn x s = Ok (x, s)"

definition pbind :: "'a parser \<Rightarrow> ('a \<Rightarrow> 'b parser) \<Rightarrow> 'b parser" where
  "pbind m f s = bindo (m s) (\<lambda>(x, t). f x t)"

definition pget :: "(pstate \<Rightarrow> 'a) \<Rightarrow> 'a parser" where
  "pget f s = Ok (f s, s)"

definition set_height :: "nat \<Rightarrow> unit parser" where
  "set_height h s = Ok ((), s\<lparr>ps_height := h\<rparr>)"

definition p_timeout :: "'a parser" where
  "p_timeout s = Timeout"

definition p_abort :: "nat \<Rightarrow> string \<Rightarrow> 'a parser" where
  "p_abort l msg s = Error \<lparr>ce_line = l, ce_message = msg\<rparr>"

definition p_peek :: "pstate \<Rightarrow> token" where
  "p_peek s = ps_tokens s ! ps_pos s"

definition p_previous :: "pstate \<Rightarrow> token" where
  "p_previous s = ps_tokens s ! (ps_pos s - 1)"

definition check :: "token_kind \<Rightarrow> pstate \<Rightarrow> bool" where
  "check k s \<longleftrightarrow> tk_kind (p_peek s) = k"

definition p_step :: "pstate \<Rightarrow> pstate" where
  "p_step s = s\<lparr>ps_pos := ps_pos s + 1\<rparr>"

definition p_advance :: "token parser" where
  "p_advance s = (let s = (if \<not> check TkEof s then p_step s else s) in Ok (p_previous s, s))"

definition p_match :: "token_kind \<Rightarrow> bool parser" where
  "p_match k s = (if \<not> check k s then Ok (False, s) else pbind p_advance (\<lambda>_. preturn True) s)"

definition p_fail :: "string \<Rightarrow> 'a parser" where
  "p_fail msg s = p_abort (tk_line (p_peek s)) msg s"

definition consume :: "token_kind \<Rightarrow> string \<Rightarrow> token parser" where
  "consume k msg s = (if \<not> check k s then p_fail msg s else p_advance s)"

text \<open>\<open>Nest\<close>: its constructor counts a level and checks the limit, its destructor gives it back.\<close>

definition nest :: "'a parser \<Rightarrow> 'a parser" where
  "nest m s =
     (let s = s\<lparr>ps_depth := ps_depth s + 1\<rparr>
      in if kMaxNesting < ps_depth s then p_fail ''nesting too deep'' s
         else bindo (m s) (\<lambda>(x, t). Ok (x, t\<lparr>ps_depth := ps_depth t - 1\<rparr>)))"

definition link :: "nat \<Rightarrow> nat \<Rightarrow> nat parser" where
  "link child l =
     (let height = child + 1
      in if kMaxChain < height then p_abort l ''expression chain too long'' else preturn height)"

record binary_details =
  bi_precedence :: nat
  bi_op :: "logical_op + binary_op"

text \<open>\<open>binary_info\<close>: the operator is the one of \<open>logic\<close> and \<open>binary\<close> that \<open>logical\<close> selects.\<close>

fun binary_info :: "token_kind \<Rightarrow> binary_details option" where
  "binary_info TkOr = Some \<lparr>bi_precedence = 1, bi_op = Inl LOr\<rparr>"
| "binary_info TkAnd = Some \<lparr>bi_precedence = 2, bi_op = Inl LAnd\<rparr>"
| "binary_info TkEqualEqual = Some \<lparr>bi_precedence = 3, bi_op = Inr BEq\<rparr>"
| "binary_info TkBangEqual = Some \<lparr>bi_precedence = 3, bi_op = Inr BNe\<rparr>"
| "binary_info TkLess = Some \<lparr>bi_precedence = 4, bi_op = Inr BLt\<rparr>"
| "binary_info TkLessEqual = Some \<lparr>bi_precedence = 4, bi_op = Inr BLe\<rparr>"
| "binary_info TkGreater = Some \<lparr>bi_precedence = 4, bi_op = Inr BGt\<rparr>"
| "binary_info TkGreaterEqual = Some \<lparr>bi_precedence = 4, bi_op = Inr BGe\<rparr>"
| "binary_info TkPlus = Some \<lparr>bi_precedence = 5, bi_op = Inr BAdd\<rparr>"
| "binary_info TkMinus = Some \<lparr>bi_precedence = 5, bi_op = Inr BSub\<rparr>"
| "binary_info TkStar = Some \<lparr>bi_precedence = 6, bi_op = Inr BMul\<rparr>"
| "binary_info TkSlash = Some \<lparr>bi_precedence = 6, bi_op = Inr BDiv\<rparr>"
| "binary_info TkPercent = Some \<lparr>bi_precedence = 6, bi_op = Inr BMod\<rparr>"
| "binary_info _ = None"

definition mk_binary :: "logical_op + binary_op \<Rightarrow> expr \<Rightarrow> expr \<Rightarrow> nat \<Rightarrow> expr" where
  "mk_binary op l r line =
     (case op of Inl logic \<Rightarrow> ELogical logic l r line | Inr b \<Rightarrow> EBinary b l r line)"

subsection \<open>Expressions\<close>

text \<open>
  \<open>expr_list\<close> is the \<open>do ... while (match(Comma))\<close> loop over a call's arguments and an array
  literal's elements: the expressions so far and the greatest height among them.
\<close>

definition p_literal :: "literal \<Rightarrow> expr parser" where
  "p_literal v = pbind (pget p_peek) (\<lambda>token.
     pbind p_advance (\<lambda>_. preturn (ELiteral v (tk_line token))))"

definition int_literal :: "token \<Rightarrow> expr parser" where
  "int_literal token =
     (if kIntMinMagnitude \<le> tk_int token
      then p_fail (''integer literal '' @ quoted (int_digits (tk_int token)) @
             '' is too large for a 32-bit int'')
      else p_literal (LitInt (of_int (tk_int token))))"

fun assignment :: "nat \<Rightarrow> expr parser" and
    assignment_rhs :: "nat \<Rightarrow> expr parser" and
    binary :: "nat \<Rightarrow> nat \<Rightarrow> expr parser" and
    binary_loop :: "nat \<Rightarrow> nat \<Rightarrow> expr \<Rightarrow> nat \<Rightarrow> expr parser" and
    unary :: "nat \<Rightarrow> expr parser" and
    postfix :: "nat \<Rightarrow> expr parser" and
    postfix_loop :: "nat \<Rightarrow> expr \<Rightarrow> nat \<Rightarrow> expr parser" and
    expr_list :: "nat \<Rightarrow> expr list \<Rightarrow> nat \<Rightarrow> (expr list \<times> nat) parser" and
    primary :: "nat \<Rightarrow> expr parser" where
  "assignment 0 = p_timeout"
| "assignment (Suc n) =
     pbind (binary n 1) (\<lambda>left.
     pbind (pget (check TkEqual)) (\<lambda>eq.
     if \<not> eq then preturn left
     else
       pbind (pget (\<lambda>s. tk_line (p_peek s))) (\<lambda>equals_line.
       pbind (pget ps_height) (\<lambda>left_height.
       pbind p_advance (\<lambda>_.
       case left of
         EVariable name b line \<Rightarrow>
           pbind (assignment_rhs n) (\<lambda>v.
           pbind (pget ps_height) (\<lambda>h.
           pbind (link h equals_line) (\<lambda>h.
           pbind (set_height h) (\<lambda>_.
           preturn (EAssign name v Unresolved line)))))
       | EIndex obj idx line \<Rightarrow>
           pbind (assignment_rhs n) (\<lambda>v.
           pbind (pget ps_height) (\<lambda>h.
           pbind (link h equals_line) (\<lambda>h.
           pbind (set_height (max left_height h)) (\<lambda>_.
           preturn (EIndexAssign obj idx v line)))))
       | _ \<Rightarrow> p_abort equals_line ''invalid assignment target'')))))"
| "assignment_rhs 0 = p_timeout"
| "assignment_rhs (Suc n) = nest (assignment n)"
| "binary 0 min_precedence = p_timeout"
| "binary (Suc n) min_precedence =
     pbind (unary n) (\<lambda>left.
     pbind (pget ps_height) (\<lambda>height.
     binary_loop n min_precedence left height))"
| "binary_loop 0 min_precedence left height = p_timeout"
| "binary_loop (Suc n) min_precedence left height =
     pbind (pget (\<lambda>s. binary_info (tk_kind (p_peek s)))) (\<lambda>info.
     case info of
       Some i \<Rightarrow>
         if min_precedence \<le> bi_precedence i then
           pbind p_advance (\<lambda>op.
           pbind (binary n (bi_precedence i + 1)) (\<lambda>right.
           pbind (pget ps_height) (\<lambda>h.
           pbind (link (max height h) (tk_line op)) (\<lambda>height.
           binary_loop n min_precedence (mk_binary (bi_op i) left right (tk_line op)) height))))
         else pbind (set_height height) (\<lambda>_. preturn left)
     | None \<Rightarrow> pbind (set_height height) (\<lambda>_. preturn left))"
| "unary 0 = p_timeout"
| "unary (Suc n) =
     pbind (pget (\<lambda>s. check TkBang s \<or> check TkMinus s)) (\<lambda>prefix_op.
     if prefix_op then
       pbind p_advance (\<lambda>op.
       let line = tk_line op; kind = (if tk_kind op = TkBang then UNot else UNegate)
       in pbind (pget (\<lambda>s. kind = UNegate \<and> check TkInt s \<and> tk_int (p_peek s) = kIntMinMagnitude \<and>
              tk_kind (ps_tokens s ! (ps_pos s + 1)) \<notin> {TkLeftParen, TkLeftBracket})) (\<lambda>int_min.
          if int_min then
            pbind p_advance (\<lambda>_.
            pbind (set_height 0) (\<lambda>_.
            preturn (ELiteral (LitInt (of_int (- 2147483648))) line)))
          else
            nest (
              pbind (unary n) (\<lambda>operand.
              pbind (pget ps_height) (\<lambda>h.
              pbind (link h line) (\<lambda>h.
              pbind (set_height h) (\<lambda>_.
              preturn (EUnary kind operand line))))))))
     else postfix n)"
| "postfix 0 = p_timeout"
| "postfix (Suc n) =
     pbind (primary n) (\<lambda>e. pbind (pget ps_height) (\<lambda>height. postfix_loop n e height))"
| "postfix_loop 0 e height = p_timeout"
| "postfix_loop (Suc n) e height =
     pbind (p_match TkLeftParen) (\<lambda>call.
     if call then
       pbind (pget (\<lambda>s. tk_line (p_previous s))) (\<lambda>line.
       pbind (nest (
         pbind (pget (check TkRightParen)) (\<lambda>close.
         if \<not> close then expr_list n [] 0 else preturn ([], 0)))) (\<lambda>(args, args_height).
       pbind (consume TkRightParen (''expected '' @ quoted '')'' @ '' after arguments'')) (\<lambda>_.
       pbind (link (max height args_height) line) (\<lambda>height.
       postfix_loop n (ECall e args line) height))))
     else
       pbind (p_match TkLeftBracket) (\<lambda>index.
       if index then
         pbind (pget (\<lambda>s. tk_line (p_previous s))) (\<lambda>line.
         pbind (nest (assignment n)) (\<lambda>i.
         pbind (consume TkRightBracket (''expected '' @ quoted '']'' @ '' after index'')) (\<lambda>_.
         pbind (pget ps_height) (\<lambda>h.
         pbind (link (max height h) line) (\<lambda>height.
         postfix_loop n (EIndex e i line) height)))))
       else pbind (set_height height) (\<lambda>_. preturn e)))"
| "expr_list 0 es h = p_timeout"
| "expr_list (Suc n) es h =
     pbind (assignment n) (\<lambda>e.
     pbind (pget ps_height) (\<lambda>eh.
     pbind (p_match TkComma) (\<lambda>more.
     if more then expr_list n (es @ [e]) (max h eh) else preturn (es @ [e], max h eh))))"
| "primary 0 = p_timeout"
| "primary (Suc n) =
     pbind (pget p_peek) (\<lambda>token.
     pbind (set_height 0) (\<lambda>_.
     case tk_kind token of
       TkInt \<Rightarrow> int_literal token
     | TkFloat \<Rightarrow> p_literal (LitFloat (tk_float token))
     | TkString \<Rightarrow> p_literal (LitString (tk_string token))
     | TkTrue \<Rightarrow> p_literal (LitBool True)
     | TkFalse \<Rightarrow> p_literal (LitBool False)
     | TkNil \<Rightarrow> p_literal LitNil
     | TkIdentifier \<Rightarrow>
         pbind p_advance (\<lambda>_. preturn (EVariable (tk_lexeme token) Unresolved (tk_line token)))
     | TkLeftParen \<Rightarrow>
         pbind p_advance (\<lambda>_.
         nest (
           pbind (assignment n) (\<lambda>inner.
           pbind (consume TkRightParen (''expected '' @ quoted '')'' @ '' after expression'')) (\<lambda>_.
           preturn inner))))
     | TkLeftBracket \<Rightarrow>
         pbind p_advance (\<lambda>_.
         nest (
           pbind (pget (check TkRightBracket)) (\<lambda>close.
           pbind (if \<not> close then expr_list n [] 0 else preturn ([], 0)) (\<lambda>(elements, h).
           pbind (consume TkRightBracket (''expected '' @ quoted '']'' @ '' after array elements'')) (\<lambda>_.
           pbind (link h (tk_line token)) (\<lambda>h.
           pbind (set_height h) (\<lambda>_.
           preturn (EArrayLiteral elements (tk_line token))))))))) 
     | _ \<Rightarrow> p_fail ''expected expression''))"

definition expression :: "nat \<Rightarrow> expr parser" where
  "expression n = assignment n"

subsection \<open>Statements\<close>

text \<open>
  \<open>name_list\<close> is the loop over a function's parameters. A block's loop collects the statements
  up to the closing brace; \<open>for\<close> is desugared into a \<open>while\<close> inside two blocks.
\<close>

fun name_list :: "nat \<Rightarrow> sview list \<Rightarrow> sview list parser" where
  "name_list 0 names = p_timeout"
| "name_list (Suc n) names =
     pbind (consume TkIdentifier ''expected parameter name'') (\<lambda>t.
     pbind (p_match TkComma) (\<lambda>more.
     if more then name_list n (names @ [tk_lexeme t]) else preturn (names @ [tk_lexeme t])))"

definition previous_line :: "pstate \<Rightarrow> nat" where
  "previous_line s = tk_line (p_previous s)"

definition let_declaration :: "nat \<Rightarrow> stmt parser" where
  "let_declaration n =
     pbind (pget previous_line) (\<lambda>line.
     pbind (consume TkIdentifier (''expected variable name after '' @ quoted ''let'')) (\<lambda>name.
     pbind (p_match TkEqual) (\<lambda>eq.
     pbind (if eq then pbind (expression n) (\<lambda>e. preturn (Some e)) else preturn None) (\<lambda>init.
     pbind (consume TkSemicolon (''expected '' @ quoted '';'' @ '' after variable declaration'')) (\<lambda>_.
     preturn (SLet (tk_lexeme name) init line))))))"

definition p_print_statement :: "nat \<Rightarrow> stmt parser" where
  "p_print_statement n =
     pbind (pget previous_line) (\<lambda>line.
     pbind (expression n) (\<lambda>v.
     pbind (consume TkSemicolon (''expected '' @ quoted '';'' @ '' after value'')) (\<lambda>_.
     preturn (SPrint v line))))"

definition expression_statement :: "nat \<Rightarrow> stmt parser" where
  "expression_statement n =
     pbind (pget (\<lambda>s. tk_line (p_peek s))) (\<lambda>line.
     pbind (expression n) (\<lambda>e.
     pbind (consume TkSemicolon (''expected '' @ quoted '';'' @ '' after expression'')) (\<lambda>_.
     preturn (SExpr e line))))"

text \<open>An optional expression before the closing token \<open>k\<close>: absent when \<open>k\<close> comes first.\<close>

definition unless_check :: "token_kind \<Rightarrow> nat \<Rightarrow> expr option parser" where
  "unless_check k n =
     pbind (pget (check k)) (\<lambda>close.
     if \<not> close then pbind (expression n) (\<lambda>e. preturn (Some e)) else preturn None)"

definition return_statement :: "nat \<Rightarrow> stmt parser" where
  "return_statement n =
     pbind (pget previous_line) (\<lambda>line.
     pbind (unless_check TkSemicolon n) (\<lambda>v.
     pbind (consume TkSemicolon (''expected '' @ quoted '';'' @ '' after return value'')) (\<lambda>_.
     preturn (SReturn v line))))"

definition paren_condition :: "nat \<Rightarrow> string \<Rightarrow> expr parser" where
  "paren_condition n keyword =
     pbind (consume TkLeftParen (''expected '' @ quoted ''('' @ '' after '' @ quoted keyword)) (\<lambda>_.
     pbind (expression n) (\<lambda>condition.
     pbind (consume TkRightParen (''expected '' @ quoted '')'' @ '' after condition'')) (\<lambda>_.
     preturn condition)))"

definition for_initializer :: "nat \<Rightarrow> stmt option parser" where
  "for_initializer n =
     pbind (p_match TkSemicolon) (\<lambda>none.
     if none then preturn None
     else
       pbind (p_match TkLet) (\<lambda>is_let.
       pbind (if is_let then let_declaration n else expression_statement n) (\<lambda>init.
       preturn (Some init))))"

definition for_desugared :: "stmt option \<Rightarrow> expr option \<Rightarrow> expr option \<Rightarrow> nat \<Rightarrow> stmt \<Rightarrow> nat \<Rightarrow> stmt"
  where
  "for_desugared init condition increment increment_line body line =
     (let inner = [body] @ (case increment of Some e \<Rightarrow> [SExpr e increment_line] | None \<Rightarrow> []);
          cond = (case condition of Some c \<Rightarrow> c | None \<Rightarrow> ELiteral (LitBool True) line);
          outer = (case init of Some i \<Rightarrow> [i] | None \<Rightarrow> []) @
            [SWhile cond (SBlock inner line) line]
      in SBlock outer line)"

fun p_declaration :: "nat \<Rightarrow> stmt parser" and
    function_declaration :: "nat \<Rightarrow> stmt parser" and
    block_rest :: "nat \<Rightarrow> stmt list parser" and
    block_loop :: "nat \<Rightarrow> stmt list \<Rightarrow> stmt list parser" and
    nested_statement :: "nat \<Rightarrow> stmt parser" and
    statement :: "nat \<Rightarrow> stmt parser" and
    if_statement :: "nat \<Rightarrow> stmt parser" and
    while_statement :: "nat \<Rightarrow> stmt parser" and
    for_statement :: "nat \<Rightarrow> stmt parser" where
  "p_declaration 0 = p_timeout"
| "p_declaration (Suc n) =
     pbind (p_match TkFn) (\<lambda>is_fn. if is_fn then function_declaration n else
     pbind (p_match TkLet) (\<lambda>is_let. if is_let then let_declaration n else
     statement n))"
| "function_declaration 0 = p_timeout"
| "function_declaration (Suc n) =
     pbind (pget previous_line) (\<lambda>line.
     pbind (consume TkIdentifier (''expected function name after '' @ quoted ''fn'')) (\<lambda>name.
     pbind (consume TkLeftParen (''expected '' @ quoted ''('' @ '' after function name'')) (\<lambda>_.
     pbind (pget (check TkRightParen)) (\<lambda>close.
     pbind (if \<not> close then name_list n [] else preturn []) (\<lambda>params.
     pbind (consume TkRightParen (''expected '' @ quoted '')'' @ '' after parameters'')) (\<lambda>_.
     pbind (consume TkLeftBrace (''expected '' @ quoted ''{'' @ '' before function body'')) (\<lambda>_.
     pbind (pget previous_line) (\<lambda>body_line.
     pbind (block_rest n) (\<lambda>body.
     preturn (SFunction (tk_lexeme name) params body body_line line))))))))))"
| "block_rest 0 = p_timeout"
| "block_rest (Suc n) =
     nest (
       pbind (block_loop n []) (\<lambda>statements.
       pbind (consume TkRightBrace (''expected '' @ quoted ''}'' @ '' after block'')) (\<lambda>_.
       preturn statements)))"
| "block_loop 0 statements = p_timeout"
| "block_loop (Suc n) statements =
     pbind (pget (\<lambda>s. \<not> check TkRightBrace s \<and> \<not> check TkEof s)) (\<lambda>more.
     if more then pbind (p_declaration n) (\<lambda>s. block_loop n (statements @ [s]))
     else preturn statements)"
| "nested_statement 0 = p_timeout"
| "nested_statement (Suc n) = nest (statement n)"
| "statement 0 = p_timeout"
| "statement (Suc n) =
     pbind (p_match TkPrint) (\<lambda>m. if m then p_print_statement n else
     pbind (p_match TkIf) (\<lambda>m. if m then if_statement n else
     pbind (p_match TkWhile) (\<lambda>m. if m then while_statement n else
     pbind (p_match TkFor) (\<lambda>m. if m then for_statement n else
     pbind (p_match TkReturn) (\<lambda>m. if m then return_statement n else
     pbind (p_match TkLeftBrace) (\<lambda>m. if m then
       pbind (pget previous_line) (\<lambda>line.
       pbind (block_rest n) (\<lambda>body. preturn (SBlock body line)))
     else expression_statement n))))))"
| "if_statement 0 = p_timeout"
| "if_statement (Suc n) =
     pbind (pget previous_line) (\<lambda>line.
     pbind (paren_condition n ''if'') (\<lambda>condition.
     pbind (nested_statement n) (\<lambda>then_branch.
     pbind (p_match TkElse) (\<lambda>has_else.
     pbind (if has_else then pbind (nested_statement n) (\<lambda>s. preturn (Some s)) else preturn None)
       (\<lambda>else_branch.
     preturn (SIf condition then_branch else_branch line))))))"
| "while_statement 0 = p_timeout"
| "while_statement (Suc n) =
     pbind (pget previous_line) (\<lambda>line.
     pbind (paren_condition n ''while'') (\<lambda>condition.
     pbind (nested_statement n) (\<lambda>body.
     preturn (SWhile condition body line))))"
| "for_statement 0 = p_timeout"
| "for_statement (Suc n) =
     pbind (pget previous_line) (\<lambda>line.
     pbind (consume TkLeftParen (''expected '' @ quoted ''('' @ '' after '' @ quoted ''for'')) (\<lambda>_.
     pbind (for_initializer n) (\<lambda>init.
     pbind (unless_check TkSemicolon n) (\<lambda>condition.
     pbind (consume TkSemicolon (''expected '' @ quoted '';'' @ '' after loop condition'')) (\<lambda>_.
     pbind (pget (\<lambda>s. tk_line (p_peek s))) (\<lambda>increment_line.
     pbind (unless_check TkRightParen n) (\<lambda>increment.
     pbind (consume TkRightParen (''expected '' @ quoted '')'' @ '' after for clauses'')) (\<lambda>_.
     pbind (nested_statement n) (\<lambda>body.
     preturn (for_desugared init condition increment increment_line body line))))))))))"

text \<open>\<open>parse_program\<close>'s loop, and \<open>parse\<close>: lex, then parse what the lexer made.\<close>

fun parse_program :: "nat \<Rightarrow> stmt list \<Rightarrow> stmt list parser" where
  "parse_program 0 statements = p_timeout"
| "parse_program (Suc n) statements =
     pbind (pget (check TkEof)) (\<lambda>eof.
     if \<not> eof then pbind (p_declaration n) (\<lambda>s. parse_program n (statements @ [s]))
     else preturn statements)"

definition init_pstate :: "token list \<Rightarrow> pstate" where
  "init_pstate tokens = \<lparr>ps_tokens = tokens, ps_pos = 0, ps_depth = 0, ps_height = 0\<rparr>"

definition parse_fuel :: "token list \<Rightarrow> nat" where
  "parse_fuel tokens = 16 * length tokens + 16"

definition parse :: "string \<Rightarrow> (compile_error, program) outcome" where
  "parse src =
     (let lexed = lex src
      in case lr_error lexed of
           Some e \<Rightarrow> Error e
         | None \<Rightarrow>
             bindo (parse_program (parse_fuel (lr_tokens lexed)) [] (init_pstate (lr_tokens lexed)))
               (\<lambda>(statements, _).
                 Ok \<lparr>pr_source = src, pr_tokens = lr_tokens lexed, pr_statements = statements\<rparr>))"

end
