(* ===== verification/Parser_Spec.thy ===== *)
theory Parser_Spec
  imports Parser Lexer_Spec
begin

text \<open>
  What the parser promises. The grammar of the language is a family of inductive relations between
  a list of tokens and a tree: one level per precedence, left-associative, with no ambiguity. A
  successful parse derives its tree from exactly the tokens it consumed, keeps the nesting and
  chain limits, leaves every binding unresolved and returns the height of the tree; a failed one
  reports the line of a token; and the fuel never runs out. All of it is one invariant, proved by
  a weakest-precondition calculus for the parser's state functions.
\<close>

subsection \<open>The grammar of expressions\<close>

fun token_literal :: "token \<Rightarrow> literal option" where
  "token_literal t =
     (case tk_kind t of
        TkInt \<Rightarrow> if tk_int t < 2147483648 then Some (LitInt (of_int (tk_int t))) else None
      | TkFloat \<Rightarrow> Some (LitFloat (tk_float t))
      | TkString \<Rightarrow> Some (LitString (tk_string t))
      | TkTrue \<Rightarrow> Some (LitBool True)
      | TkFalse \<Rightarrow> Some (LitBool False)
      | TkNil \<Rightarrow> Some LitNil
      | _ \<Rightarrow> None)"

inductive g_assign :: "token list \<Rightarrow> expr \<Rightarrow> bool" and
    g_bin :: "nat \<Rightarrow> token list \<Rightarrow> expr \<Rightarrow> bool" and
    g_un :: "token list \<Rightarrow> expr \<Rightarrow> bool" and
    g_post :: "token list \<Rightarrow> expr \<Rightarrow> bool" and
    g_prim :: "token list \<Rightarrow> expr \<Rightarrow> bool" and
    g_list :: "token list \<Rightarrow> expr list \<Rightarrow> bool" where
  ga_bin: "g_bin 1 ts e \<Longrightarrow> g_assign ts e"
| ga_var: "g_bin 1 ts (EVariable x b l) \<Longrightarrow> tk_kind eq = TkEqual \<Longrightarrow> g_assign us v \<Longrightarrow>
    g_assign (ts @ eq # us) (EAssign x v Unresolved l)"
| ga_index: "g_bin 1 ts (EIndex a i l) \<Longrightarrow> tk_kind eq = TkEqual \<Longrightarrow> g_assign us v \<Longrightarrow>
    g_assign (ts @ eq # us) (EIndexAssign a i v l)"
| gb_un: "g_un ts e \<Longrightarrow> g_bin p ts e"
| gb_op: "g_bin q ts l \<Longrightarrow> binary_info (tk_kind op) = Some i \<Longrightarrow> bi_precedence i = q \<Longrightarrow> p \<le> q \<Longrightarrow>
    g_bin (Suc q) us r \<Longrightarrow> g_bin p (ts @ op # us) (mk_binary (bi_op i) l r (tk_line op))"
| gu_post: "g_post ts e \<Longrightarrow> g_un ts e"
| gu_not: "tk_kind op = TkBang \<Longrightarrow> g_un ts e \<Longrightarrow> g_un (op # ts) (EUnary UNot e (tk_line op))"
| gu_neg: "tk_kind op = TkMinus \<Longrightarrow> g_un ts e \<Longrightarrow> g_un (op # ts) (EUnary UNegate e (tk_line op))"
| gu_min: "tk_kind op = TkMinus \<Longrightarrow> tk_kind t = TkInt \<Longrightarrow> tk_int t = 2147483648 \<Longrightarrow>
    g_un [op, t] (ELiteral (LitInt (of_int (- 2147483648))) (tk_line op))"
| gp_prim: "g_prim ts e \<Longrightarrow> g_post ts e"
| gp_call: "g_post ts f \<Longrightarrow> tk_kind lp = TkLeftParen \<Longrightarrow> g_list us as \<Longrightarrow> tk_kind rp = TkRightParen \<Longrightarrow>
    g_post (ts @ lp # us @ [rp]) (ECall f as (tk_line lp))"
| gp_index: "g_post ts a \<Longrightarrow> tk_kind lb = TkLeftBracket \<Longrightarrow> g_assign us i \<Longrightarrow>
    tk_kind rb = TkRightBracket \<Longrightarrow> g_post (ts @ lb # us @ [rb]) (EIndex a i (tk_line lb))"
| gr_literal: "token_literal t = Some v \<Longrightarrow> g_prim [t] (ELiteral v (tk_line t))"
| gr_variable: "tk_kind t = TkIdentifier \<Longrightarrow> g_prim [t] (EVariable (tk_lexeme t) Unresolved (tk_line t))"
| gr_paren: "tk_kind lp = TkLeftParen \<Longrightarrow> g_assign ts e \<Longrightarrow> tk_kind rp = TkRightParen \<Longrightarrow>
    g_prim (lp # ts @ [rp]) e"
| gr_array: "tk_kind lb = TkLeftBracket \<Longrightarrow> g_list ts es \<Longrightarrow> tk_kind rb = TkRightBracket \<Longrightarrow>
    g_prim (lb # ts @ [rb]) (EArrayLiteral es (tk_line lb))"
| gl_none: "g_list [] []"
| gl_one: "g_assign ts e \<Longrightarrow> g_list ts [e]"
| gl_more: "g_list ts es \<Longrightarrow> es \<noteq> [] \<Longrightarrow> tk_kind comma = TkComma \<Longrightarrow> g_assign us e \<Longrightarrow>
    g_list (ts @ comma # us) (es @ [e])"

inductive_cases g_bin_E: "g_bin p ts e"

lemma g_bin_lower:
  assumes "g_bin k ts e" "p \<le> k"
  shows "g_bin p ts e"
proof (rule g_bin_E [OF assms(1)])
  assume "g_un ts e"
  then show ?thesis by (rule gb_un)
next
  fix us l op i vs r
  assume "ts = us @ op # vs" "e = mk_binary (bi_op i) l r (tk_line op)"
    "g_bin (bi_precedence i) us l" "binary_info (tk_kind op) = Some i" "k \<le> bi_precedence i"
    "g_bin (Suc (bi_precedence i)) vs r"
  then show ?thesis using assms(2) by (simp add: gb_op)
qed

subsection \<open>Weakest preconditions\<close>

definition pwp :: "(nat \<Rightarrow> bool) \<Rightarrow> 'a parser \<Rightarrow> ('a \<Rightarrow> pstate \<Rightarrow> bool) \<Rightarrow> pstate \<Rightarrow> bool" where
  "pwp E m Q s =
     (case m s of Ok (x, t) \<Rightarrow> Q x t | Error e \<Rightarrow> E (ce_line e) | Timeout \<Rightarrow> False)"

lemma pwp_bind: "pwp E (pbind m f) Q s = pwp E m (\<lambda>x t. pwp E (f x) Q t) s"
  by (cases "m s") (auto simp: pwp_def pbind_def)

lemma pwp_return: "pwp E (preturn x) Q s = Q x s"
  by (simp add: pwp_def preturn_def)

lemma pwp_get: "pwp E (pget f) Q s = Q (f s) s"
  by (simp add: pwp_def pget_def)

lemma pwp_set_height: "pwp E (set_height h) Q s = Q () (s\<lparr>ps_height := h\<rparr>)"
  by (simp add: pwp_def set_height_def)

lemma pwp_abort: "pwp E (p_abort l msg) Q s = E l"
  by (simp add: pwp_def p_abort_def)

lemma pwp_fail: "pwp E (p_fail msg) Q s = E (tk_line (p_peek s))"
  by (simp add: pwp_def p_abort_def p_fail_def)

lemma previous_step [simp]: "p_previous (p_step s) = p_peek s"
  by (simp add: p_previous_def p_step_def p_peek_def)

lemma pwp_advance: "\<not> check TkEof s \<Longrightarrow> pwp E p_advance Q s = Q (p_peek s) (p_step s)"
  by (simp add: pwp_def p_advance_def Let_def)

lemma pwp_match:
  "k \<noteq> TkEof \<Longrightarrow> pwp E (p_match k) Q s = (if check k s then Q True (p_step s) else Q False s)"
  by (auto simp: pwp_def p_match_def pbind_def preturn_def p_advance_def check_def)

lemma pwp_consume:
  "k \<noteq> TkEof \<Longrightarrow> pwp E (consume k msg) Q s =
     (if check k s then Q (p_peek s) (p_step s) else E (tk_line (p_peek s)))"
  by (auto simp: pwp_def consume_def p_advance_def p_fail_def p_abort_def check_def)

lemma pwp_nest:
  "pwp E (nest m) Q s =
     (if kMaxNesting < ps_depth s + 1 then E (tk_line (p_peek s))
      else pwp E m (\<lambda>x t. Q x (t\<lparr>ps_depth := ps_depth t - 1\<rparr>)) (s\<lparr>ps_depth := ps_depth s + 1\<rparr>))"
  by (cases "m (s\<lparr>ps_depth := ps_depth s + 1\<rparr>)")
    (auto simp: pwp_def nest_def Let_def p_fail_def p_abort_def p_peek_def)

lemma pwp_link:
  "pwp E (link c l) Q s = (if kMaxChain < c + 1 then E l else Q (c + 1) s)"
  by (simp add: pwp_def link_def Let_def p_abort_def preturn_def)

lemmas pwp_simps = pwp_bind pwp_return pwp_get pwp_set_height pwp_abort pwp_fail pwp_match
  pwp_consume pwp_nest pwp_link

lemma pwp_mono: "pwp E m Q s \<Longrightarrow> (\<And>x t. Q x t \<Longrightarrow> R x t) \<Longrightarrow> pwp E m R s"
  by (auto simp: pwp_def split: outcome.splits)

subsection \<open>Token streams and slices\<close>

definition stream_ok :: "token list \<Rightarrow> bool" where
  "stream_ok toks \<longleftrightarrow> toks \<noteq> [] \<and> tk_kind (last toks) = TkEof"

definition seg :: "'a list \<Rightarrow> nat \<Rightarrow> nat \<Rightarrow> 'a list" where
  "seg xs i j = take (j - i) (drop i xs)"

lemma seg_self [simp]: "seg xs i i = []"
  by (simp add: seg_def)

lemma seg_append: "i \<le> j \<Longrightarrow> j \<le> k \<Longrightarrow> seg xs i k = seg xs i j @ seg xs j k"
  unfolding seg_def
  by (metis diff_add_assoc2 drop_drop le_add_diff_inverse le_add_diff_inverse2 take_add)

lemma seg_Cons: "i < j \<Longrightarrow> i < length xs \<Longrightarrow> seg xs i j = xs ! i # seg xs (Suc i) j"
  by (simp add: seg_def Cons_nth_drop_Suc [symmetric] Suc_diff_Suc [symmetric])

lemma seg_split:
  "i \<le> j \<Longrightarrow> j < k \<Longrightarrow> j < length xs \<Longrightarrow> seg xs i k = seg xs i j @ xs ! j # seg xs (Suc j) k"
  using seg_append [of i j k xs] seg_Cons [of j k xs] by simp

lemma seg_snoc: "i \<le> j \<Longrightarrow> j < length xs \<Longrightarrow> seg xs i (Suc j) = seg xs i j @ [xs ! j]"
  using seg_split [of i j "Suc j" xs] by simp

definition at_token :: "token list \<Rightarrow> nat \<Rightarrow> bool" where
  "at_token toks l \<longleftrightarrow> l \<in> tk_line ` set toks"

definition pok :: "token list \<Rightarrow> pstate \<Rightarrow> bool" where
  "pok toks s \<longleftrightarrow> stream_ok toks \<and> ps_tokens s = toks \<and> ps_pos s < length toks \<and> ps_depth s \<le> kMaxNesting"

lemma pok_height [simp]: "pok toks (s\<lparr>ps_height := h\<rparr>) = pok toks s"
  by (simp add: pok_def)

lemma pok_at_token [simp]: "pok toks s \<Longrightarrow> at_token toks (tk_line (p_peek s))"
  by (auto simp: pok_def at_token_def p_peek_def)

lemma pok_step:
  assumes "pok toks s" "check k s" "k \<noteq> TkEof"
  shows "pok toks (p_step s)"
proof -
  have "Suc (ps_pos s) \<noteq> length toks"
  proof
    assume l: "Suc (ps_pos s) = length toks"
    then have "toks ! ps_pos s = last toks"
      using assms(1) by (simp add: pok_def stream_ok_def last_conv_nth flip: l)
    then show False using assms by (simp add: pok_def stream_ok_def check_def p_peek_def)
  qed
  then show ?thesis using assms(1) by (simp add: pok_def p_step_def)
qed

subsection \<open>What each expression function does\<close>

text \<open>
  \<open>adv\<close>: the state moved on, in bounds, at the same depth. \<open>good\<close>: a tree within the limits when
  it stands at nesting depth \<open>d\<close>. \<open>stop\<close>: the next token is no operator of a precedence above \<open>k\<close>.
\<close>

definition adv :: "token list \<Rightarrow> pstate \<Rightarrow> pstate \<Rightarrow> bool" where
  "adv toks s t \<longleftrightarrow> pok toks t \<and> ps_pos s \<le> ps_pos t \<and> ps_depth t = ps_depth s"

definition good :: "nat \<Rightarrow> expr \<Rightarrow> bool" where
  "good d e \<longleftrightarrow> eheight e \<le> kMaxChain \<and> enest e + d \<le> kMaxNesting \<and> set (ebindings e) \<subseteq> {Unresolved}"

definition goods :: "nat \<Rightarrow> expr list \<Rightarrow> bool" where
  "goods d es \<longleftrightarrow>
     eheights es \<le> kMaxChain \<and> enests es + d \<le> kMaxNesting \<and> set (ebindingss es) \<subseteq> {Unresolved}"

definition stop :: "nat \<Rightarrow> pstate \<Rightarrow> bool" where
  "stop k s \<longleftrightarrow> (\<forall>i. binary_info (tk_kind (p_peek s)) = Some i \<longrightarrow> bi_precedence i \<le> k)"

text \<open>An expression parsed from \<open>s\<close> to \<open>t\<close>, and one continued at \<open>s\<close> that began at \<open>i\<close>.\<close>

definition parsed :: "token list \<Rightarrow> (token list \<Rightarrow> expr \<Rightarrow> bool) \<Rightarrow> pstate \<Rightarrow> expr \<Rightarrow> pstate \<Rightarrow> bool"
  where
  "parsed toks G s e t \<longleftrightarrow>
     adv toks s t \<and> ps_pos s < ps_pos t \<and> ps_height t = eheight e \<and> good (ps_depth s) e \<and>
     G (seg toks (ps_pos s) (ps_pos t)) e"

definition continued :: "token list \<Rightarrow> (token list \<Rightarrow> expr \<Rightarrow> bool) \<Rightarrow> nat \<Rightarrow> pstate \<Rightarrow> expr \<Rightarrow> pstate \<Rightarrow> bool"
  where
  "continued toks G i s e t \<longleftrightarrow>
     adv toks s t \<and> ps_height t = eheight e \<and> good (ps_depth s) e \<and> G (seg toks i (ps_pos t)) e"

text \<open>The fuel a function of rank \<open>r\<close> needs at \<open>s\<close>.\<close>

definition fuel_ok :: "token list \<Rightarrow> nat \<Rightarrow> nat \<Rightarrow> pstate \<Rightarrow> bool" where
  "fuel_ok toks r n s \<longleftrightarrow> 16 * (length toks - ps_pos s) + r \<le> n"

definition ok_assign :: "token list \<Rightarrow> nat \<Rightarrow> bool" where
  "ok_assign toks n \<longleftrightarrow> (\<forall>s. pok toks s \<longrightarrow> fuel_ok toks 7 n s \<longrightarrow>
     pwp (at_token toks) (assignment n) (parsed toks g_assign s) s)"

definition ok_rhs :: "token list \<Rightarrow> nat \<Rightarrow> bool" where
  "ok_rhs toks n \<longleftrightarrow> (\<forall>s. pok toks s \<longrightarrow> fuel_ok toks 8 n s \<longrightarrow>
     pwp (at_token toks) (assignment_rhs n)
       (\<lambda>e t. parsed toks g_assign s e t \<and> good (Suc (ps_depth s)) e) s)"

definition ok_bin :: "token list \<Rightarrow> nat \<Rightarrow> bool" where
  "ok_bin toks n \<longleftrightarrow> (\<forall>s p. pok toks s \<longrightarrow> fuel_ok toks 6 n s \<longrightarrow> 0 < p \<longrightarrow>
     pwp (at_token toks) (binary n p) (\<lambda>e t. parsed toks (g_bin p) s e t \<and> stop (p - 1) t) s)"

definition ok_bin_loop :: "token list \<Rightarrow> nat \<Rightarrow> bool" where
  "ok_bin_loop toks n \<longleftrightarrow> (\<forall>s p i k left. pok toks s \<longrightarrow> fuel_ok toks 1 n s \<longrightarrow> 0 < p \<longrightarrow> p \<le> k \<longrightarrow>
     i < ps_pos s \<longrightarrow> good (ps_depth s) left \<longrightarrow> g_bin k (seg toks i (ps_pos s)) left \<longrightarrow> stop k s \<longrightarrow>
     pwp (at_token toks) (binary_loop n p left (eheight left))
       (\<lambda>e t. continued toks (g_bin p) i s e t \<and> stop (p - 1) t) s)"

definition ok_un :: "token list \<Rightarrow> nat \<Rightarrow> bool" where
  "ok_un toks n \<longleftrightarrow> (\<forall>s. pok toks s \<longrightarrow> fuel_ok toks 4 n s \<longrightarrow>
     pwp (at_token toks) (unary n) (parsed toks g_un s) s)"

definition ok_post :: "token list \<Rightarrow> nat \<Rightarrow> bool" where
  "ok_post toks n \<longleftrightarrow> (\<forall>s. pok toks s \<longrightarrow> fuel_ok toks 3 n s \<longrightarrow>
     pwp (at_token toks) (postfix n) (parsed toks g_post s) s)"

definition ok_post_loop :: "token list \<Rightarrow> nat \<Rightarrow> bool" where
  "ok_post_loop toks n \<longleftrightarrow> (\<forall>s i e. pok toks s \<longrightarrow> fuel_ok toks 1 n s \<longrightarrow> i < ps_pos s \<longrightarrow>
     good (ps_depth s) e \<longrightarrow> g_post (seg toks i (ps_pos s)) e \<longrightarrow>
     pwp (at_token toks) (postfix_loop n e (eheight e)) (continued toks g_post i s) s)"

definition ok_list :: "token list \<Rightarrow> nat \<Rightarrow> bool" where
  "ok_list toks n \<longleftrightarrow> (\<forall>s i es. pok toks s \<longrightarrow> fuel_ok toks 8 n s \<longrightarrow> i \<le> ps_pos s \<longrightarrow>
     goods (ps_depth s) es \<longrightarrow>
     (if es = [] then i = ps_pos s
      else i < ps_pos s \<and> g_list (seg toks i (ps_pos s - 1)) es \<and>
        tk_kind (toks ! (ps_pos s - 1)) = TkComma) \<longrightarrow>
     pwp (at_token toks) (expr_list n es (eheights es))
       (\<lambda>(fs, h) t. adv toks s t \<and> h = eheights fs \<and> goods (ps_depth s) fs \<and>
         g_list (seg toks i (ps_pos t)) fs) s)"

definition ok_prim :: "token list \<Rightarrow> nat \<Rightarrow> bool" where
  "ok_prim toks n \<longleftrightarrow> (\<forall>s. pok toks s \<longrightarrow> fuel_ok toks 1 n s \<longrightarrow>
     pwp (at_token toks) (primary n) (parsed toks g_prim s) s)"

definition ok_exprs :: "token list \<Rightarrow> nat \<Rightarrow> bool" where
  "ok_exprs toks n \<longleftrightarrow> ok_assign toks n \<and> ok_rhs toks n \<and> ok_bin toks n \<and> ok_bin_loop toks n \<and>
     ok_un toks n \<and> ok_post toks n \<and> ok_post_loop toks n \<and> ok_list toks n \<and> ok_prim toks n"

lemma fuel_zero: "pok toks s \<Longrightarrow> \<not> fuel_ok toks r 0 s"
  by (simp add: fuel_ok_def pok_def)

lemma fuel_step:
  "fuel_ok toks r (Suc n) s \<Longrightarrow> ps_pos s \<le> ps_pos t \<Longrightarrow> r' < r \<Longrightarrow> fuel_ok toks r' n t"
  unfolding fuel_ok_def by linarith

lemma fuel_consumed:
  assumes "fuel_ok toks r (Suc n) s" "pok toks s" "ps_pos s < ps_pos t" "r' < 16"
  shows "fuel_ok toks r' n t"
proof -
  have "ps_pos s < length toks" using assms(2) by (simp add: pok_def)
  then have "length toks - ps_pos t < length toks - ps_pos s" using assms(3) by linarith
  then show ?thesis using assms(1,4) unfolding fuel_ok_def by linarith
qed

lemma exprs_zero: "ok_exprs toks 0"
  by (simp add: ok_exprs_def ok_assign_def ok_rhs_def ok_bin_def ok_bin_loop_def ok_un_def ok_post_def
      ok_post_loop_def ok_list_def ok_prim_def fuel_zero)

end
