(* ===== verification/Parser_Expr.thy ===== *)
theory Parser_Expr
  imports Parser_Spec
begin

text \<open>
  The expression functions of the parser keep their contract (\<open>ok_exprs\<close>, one clause per function):
  one lemma per function for a unit of fuel more, and the induction on the fuel at the end. The
  \<open>use_\<close> lemmas apply a clause inside a weakest precondition.
\<close>

lemma parsed_height: "parsed toks G s e t \<Longrightarrow> ps_height t = eheight e"
  by (simp add: parsed_def)

lemma use_assign:
  assumes "ok_assign toks n" "pok toks s" "fuel_ok toks 7 n s"
    and Q: "\<And>e t. parsed toks g_assign s e t \<Longrightarrow> ps_height t = eheight e \<Longrightarrow> Q e t"
  shows "pwp (at_token toks) (assignment n) Q s"
proof (rule pwp_mono)
  show "pwp (at_token toks) (assignment n) (parsed toks g_assign s) s"
    using assms(1-3) by (simp add: ok_assign_def)
qed (use Q parsed_height in \<open>blast\<close>)

lemma use_rhs:
  assumes "ok_rhs toks n" "pok toks s" "fuel_ok toks 8 n s"
    and Q: "\<And>e t. parsed toks g_assign s e t \<Longrightarrow> good (Suc (ps_depth s)) e \<Longrightarrow> ps_height t = eheight e \<Longrightarrow> Q e t"
  shows "pwp (at_token toks) (assignment_rhs n) Q s"
proof (rule pwp_mono)
  show "pwp (at_token toks) (assignment_rhs n) (\<lambda>e t. parsed toks g_assign s e t \<and> good (Suc (ps_depth s)) e) s"
    using assms(1-3) by (simp add: ok_rhs_def)
qed (use Q parsed_height in \<open>blast\<close>)

lemma use_bin:
  assumes "ok_bin toks n" "pok toks s" "fuel_ok toks 6 n s" "0 < p"
    and Q: "\<And>e t. parsed toks (g_bin p) s e t \<Longrightarrow> stop (p - 1) t \<Longrightarrow> ps_height t = eheight e \<Longrightarrow> Q e t"
  shows "pwp (at_token toks) (binary n p) Q s"
proof (rule pwp_mono)
  show "pwp (at_token toks) (binary n p) (\<lambda>e t. parsed toks (g_bin p) s e t \<and> stop (p - 1) t) s"
    using assms(1-4) by (simp add: ok_bin_def)
qed (use Q parsed_height in \<open>blast\<close>)

lemma use_bin_loop:
  assumes "ok_bin_loop toks n" "pok toks s" "fuel_ok toks 1 n s" "0 < p" "p \<le> k"
    "i < ps_pos s" "good (ps_depth s) left" "g_bin k (seg toks i (ps_pos s)) left" "stop k s"
    "h = eheight left"
    and Q: "\<And>e t. continued toks (g_bin p) i s e t \<Longrightarrow> stop (p - 1) t \<Longrightarrow> Q e t"
  shows "pwp (at_token toks) (binary_loop n p left h) Q s"
proof (rule pwp_mono)
  show "pwp (at_token toks) (binary_loop n p left h) (\<lambda>e t. continued toks (g_bin p) i s e t \<and> stop (p - 1) t) s"
    using assms(1-10) by (simp add: ok_bin_loop_def)
qed (use Q parsed_height in \<open>blast\<close>)

lemma use_un:
  assumes "ok_un toks n" "pok toks s" "fuel_ok toks 4 n s"
    and Q: "\<And>e t. parsed toks g_un s e t \<Longrightarrow> ps_height t = eheight e \<Longrightarrow> Q e t"
  shows "pwp (at_token toks) (unary n) Q s"
proof (rule pwp_mono)
  show "pwp (at_token toks) (unary n) (parsed toks g_un s) s"
    using assms(1-3) by (simp add: ok_un_def)
qed (use Q parsed_height in \<open>blast\<close>)

lemma use_post:
  assumes "ok_post toks n" "pok toks s" "fuel_ok toks 3 n s"
    and Q: "\<And>e t. parsed toks g_post s e t \<Longrightarrow> Q e t"
  shows "pwp (at_token toks) (postfix n) Q s"
proof (rule pwp_mono)
  show "pwp (at_token toks) (postfix n) (parsed toks g_post s) s"
    using assms(1-3) by (simp add: ok_post_def)
qed (use Q parsed_height in \<open>blast\<close>)

lemma use_post_loop:
  assumes "ok_post_loop toks n" "pok toks s" "fuel_ok toks 1 n s" "i < ps_pos s"
    "good (ps_depth s) l" "g_post (seg toks i (ps_pos s)) l" "h = eheight l"
    and Q: "\<And>e t. continued toks g_post i s e t \<Longrightarrow> Q e t"
  shows "pwp (at_token toks) (postfix_loop n l h) Q s"
proof (rule pwp_mono)
  show "pwp (at_token toks) (postfix_loop n l h) (continued toks g_post i s) s"
    using assms(1-7) by (simp add: ok_post_loop_def)
qed (use Q parsed_height in \<open>blast\<close>)

lemma use_list:
  assumes "ok_list toks n" "pok toks s" "fuel_ok toks 8 n s"
    and Q: "\<And>fs t. adv toks s t \<Longrightarrow> goods (ps_depth s) fs \<Longrightarrow>
      g_list (seg toks (ps_pos s) (ps_pos t)) fs \<Longrightarrow> Q (fs, eheights fs) t"
  shows "pwp (at_token toks) (expr_list n [] 0) Q s"
proof (rule pwp_mono)
  have "goods (ps_depth s) []" using assms(2) by (simp add: goods_def pok_def)
  then show "pwp (at_token toks) (expr_list n [] 0) (\<lambda>(fs, h) t. adv toks s t \<and> h = eheights fs \<and>
      goods (ps_depth s) fs \<and> g_list (seg toks (ps_pos s) (ps_pos t)) fs) s"
    using assms(1-3) unfolding ok_list_def
    by (metis (no_types, lifting) eheights.simps(1) order_refl)
qed (use Q in auto)

lemma use_list_more:
  assumes "ok_list toks n" "pok toks s" "fuel_ok toks 8 n s" "i < ps_pos s" "es \<noteq> []"
    "goods (ps_depth s) es" "g_list (seg toks i (ps_pos s - 1)) es"
    "tk_kind (toks ! (ps_pos s - 1)) = TkComma" "h = eheights es"
    and Q: "\<And>fs t. adv toks s t \<Longrightarrow> goods (ps_depth s) fs \<Longrightarrow>
      g_list (seg toks i (ps_pos t)) fs \<Longrightarrow> Q (fs, eheights fs) t"
  shows "pwp (at_token toks) (expr_list n es h) Q s"
proof (rule pwp_mono)
  show "pwp (at_token toks) (expr_list n es h) (\<lambda>(fs, h) t. adv toks s t \<and> h = eheights fs \<and>
      goods (ps_depth s) fs \<and> g_list (seg toks i (ps_pos t)) fs) s"
    using assms(1-9) unfolding ok_list_def by simp
qed (use Q in auto)

lemma use_prim:
  assumes "ok_prim toks n" "pok toks s" "fuel_ok toks 1 n s"
    and Q: "\<And>e t. parsed toks g_prim s e t \<Longrightarrow> Q e t"
  shows "pwp (at_token toks) (primary n) Q s"
proof (rule pwp_mono)
  show "pwp (at_token toks) (primary n) (parsed toks g_prim s) s"
    using assms(1-3) by (simp add: ok_prim_def)
qed (use Q parsed_height in \<open>blast\<close>)

lemma pok_adv: "adv toks s t \<Longrightarrow> pok toks t"
  by (simp add: adv_def)

lemma parsed_pok: "parsed toks G s e t \<Longrightarrow> pok toks t"
  by (simp add: parsed_def adv_def)

lemma pok_nest:
  "pok toks s \<Longrightarrow> \<not> kMaxNesting < ps_depth s + 1 \<Longrightarrow> pok toks (s\<lparr>ps_depth := ps_depth s + 1\<rparr>)"
  by (simp add: pok_def)

lemma good_mono: "good d e \<Longrightarrow> d' \<le> d \<Longrightarrow> good d' e"
  by (auto simp: good_def)

lemma fuel_depth [simp]:
  "fuel_ok toks r n (s\<lparr>ps_depth := d\<rparr>) = fuel_ok toks r n s"
  "fuel_ok toks r n (s\<lparr>ps_height := h\<rparr>) = fuel_ok toks r n s"
  by (simp_all add: fuel_ok_def)

lemma parsed_unnest:
  assumes "parsed toks G (s\<lparr>ps_depth := ps_depth s + 1\<rparr>) e t"
  shows "parsed toks G s e (t\<lparr>ps_depth := ps_depth t - 1\<rparr>) \<and> good (Suc (ps_depth s)) e"
proof -
  from assms have "pok toks (t\<lparr>ps_depth := ps_depth t - 1\<rparr>)"
    by (auto simp: parsed_def adv_def pok_def)
  then show ?thesis using assms by (auto simp: parsed_def adv_def intro: good_mono)
qed

lemma rhs_ok: "ok_exprs toks n \<Longrightarrow> ok_rhs toks (Suc n)"
  unfolding ok_rhs_def
proof (intro allI impI)
  fix s
  assume ih: "ok_exprs toks n" and s: "pok toks s" "fuel_ok toks 8 (Suc n) s"
  show "pwp (at_token toks) (assignment_rhs (Suc n))
     (\<lambda>e t. parsed toks g_assign s e t \<and> good (Suc (ps_depth s)) e) s"
  proof (cases "kMaxNesting < ps_depth s + 1")
    case True
    then show ?thesis using s by (simp add: pwp_nest)
  next
    case False
    have f: "fuel_ok toks 7 n s" using s(2) by (rule fuel_step) simp_all
    have "ok_assign toks n" using ih by (simp add: ok_exprs_def)
    then have "pwp (at_token toks) (assignment n) (\<lambda>e t. parsed toks g_assign s e (t\<lparr>ps_depth := ps_depth t - 1\<rparr>) \<and> good (Suc (ps_depth s)) e)
     (s\<lparr>ps_depth := ps_depth s + 1\<rparr>)"
      by (rule use_assign) (use s f False pok_nest parsed_unnest in auto)
    then show ?thesis using False by (simp add: pwp_nest)
  qed
qed

lemma advance_after:
  assumes "parsed toks G s e t" "check k t" "k \<noteq> TkEof"
  shows "pok toks (p_step t)" "ps_pos s < ps_pos (p_step t)" "ps_depth (p_step t) = ps_depth s"
    "\<not> check TkEof t" "tk_kind (p_peek t) = k" "at_token toks (tk_line (p_peek t))"
    "seg toks (ps_pos s) (ps_pos (p_step t)) = seg toks (ps_pos s) (ps_pos t) @ [p_peek t]"
proof -
  have t: "pok toks t" using assms(1) by (rule parsed_pok)
  then show "pok toks (p_step t)" "at_token toks (tk_line (p_peek t))"
    using assms pok_step by auto
  show "ps_pos s < ps_pos (p_step t)" "ps_depth (p_step t) = ps_depth s"
    using assms(1) by (simp_all add: parsed_def adv_def p_step_def)
  show "\<not> check TkEof t" "tk_kind (p_peek t) = k" using assms(2,3) by (auto simp: check_def)
  show "seg toks (ps_pos s) (ps_pos (p_step t)) = seg toks (ps_pos s) (ps_pos t) @ [p_peek t]"
    using assms(1) t by (simp add: seg_snoc parsed_def adv_def pok_def p_step_def p_peek_def)
qed

text \<open>Two parsed parts around one token.\<close>

lemma parsed_infix:
  assumes "parsed toks G s l t" "check k t" "k \<noteq> TkEof" "parsed toks H (p_step t) r u"
  shows "adv toks s u" "ps_pos s < ps_pos u" "G (seg toks (ps_pos s) (ps_pos t)) l"
    "seg toks (ps_pos s) (ps_pos u) =
     seg toks (ps_pos s) (ps_pos t) @ p_peek t # seg toks (ps_pos (p_step t)) (ps_pos u)"
    "H (seg toks (ps_pos (p_step t)) (ps_pos u)) r"
proof -
  note a = advance_after [OF assms(1-3)]
  have p: "ps_pos (p_step t) < ps_pos u" "ps_pos u < length toks" using assms(4)
    by (auto simp: parsed_def adv_def pok_def)
  show "adv toks s u" "ps_pos s < ps_pos u"
    using a assms(4) by (auto simp: parsed_def adv_def)
  show "G (seg toks (ps_pos s) (ps_pos t)) l" "H (seg toks (ps_pos (p_step t)) (ps_pos u)) r"
    using assms(1,4) by (auto simp: parsed_def)
  show "seg toks (ps_pos s) (ps_pos u) =
     seg toks (ps_pos s) (ps_pos t) @ p_peek t # seg toks (ps_pos (p_step t)) (ps_pos u)"
    using a(2,7) p seg_append [of "ps_pos s" "ps_pos (p_step t)" "ps_pos u" toks] by simp
qed


lemma parsed_set_height: "adv toks s (t\<lparr>ps_height := h\<rparr>) = adv toks s t"
  by (simp add: adv_def)

lemma good_assign:
  "good (Suc d) v \<Longrightarrow> \<not> kMaxChain < Suc (eheight v) \<Longrightarrow> good d (EAssign x v Unresolved l)"
  "good (Suc d) v \<Longrightarrow> good d (EIndex a i l) \<Longrightarrow> \<not> kMaxChain < eheight v + 1 \<Longrightarrow>
   good d (EIndexAssign a i v l')"
  by (auto simp: good_def)

lemma assign_rest:
  assumes "parsed toks (g_bin 1) s left t" "check TkEqual t"
    and r: "parsed toks g_assign (p_step t) v u" "good (Suc (ps_depth (p_step t))) v"
    and e: "left = EVariable x b l \<and> e = EAssign x v Unresolved l \<or>
        left = EIndex a i l \<and> e = EIndexAssign a i v l"
    and h: "\<not> kMaxChain < Suc (eheight v)" "h = eheight e"
  shows "parsed toks g_assign s e (u\<lparr>ps_height := h\<rparr>)"
proof -
  note p = parsed_infix [OF assms(1,2) _ r(1), simplified]
  have k: "tk_kind (p_peek t) = TkEqual" using assms(2) by (simp add: check_def)
  have "g_assign (seg toks (ps_pos s) (ps_pos u)) e"
    unfolding p(4) using e p(3,5) k by (auto intro: ga_var ga_index)
  moreover have "good (ps_depth s) e"
    using e assms(1) r(2) advance_after(3) [OF assms(1,2)] h good_assign
    by (auto simp: parsed_def)
  ultimately show ?thesis using p(1,2) h(2) by (simp add: parsed_def parsed_set_height)
qed

lemma assign_ok: "ok_exprs toks n \<Longrightarrow> ok_assign toks (Suc n)"
  unfolding ok_assign_def
proof (intro allI impI)
  fix s
  assume ih: "ok_exprs toks n" and s: "pok toks s" "fuel_ok toks 7 (Suc n) s"
  have f: "fuel_ok toks 6 n s" using s(2) by (rule fuel_step) simp_all
  have b: "ok_bin toks n" "ok_rhs toks n" using ih by (simp_all add: ok_exprs_def)
  show "pwp (at_token toks) (assignment (Suc n)) (parsed toks g_assign s) s"
    unfolding assignment.simps pwp_bind
    apply (rule use_bin [OF b(1) s(1) f])
     apply simp
    subgoal premises l for left t
    proof -
      note a = advance_after [OF l(1), of TkEqual, simplified]
      note rhs = use_rhs [OF b(2) a(1) fuel_consumed [OF s(2,1) a(2)]]
      show ?thesis
      proof (cases "check TkEqual t")
        case False
        then show ?thesis using l(1) by (auto simp: pwp_simps parsed_def intro: ga_bin)
      next
        case True
        note r = assign_rest [OF l(1) True]
        show ?thesis
        proof (cases left)
          case (EVariable x b line)
          then show ?thesis using True a(4-6)
            by (auto simp: pwp_simps pwp_advance intro!: rhs r)
        next
          case (EIndex o i line)
          then show ?thesis using True a(4-6) l(3)
            by (auto simp: pwp_simps pwp_advance intro!: rhs r)
        qed (use True a(4-6) in \<open>auto simp: pwp_simps pwp_advance\<close>)
      qed
    qed
    done
qed


lemma binary_info_not_eof: "binary_info (tk_kind (p_peek s)) = Some i \<Longrightarrow> \<not> check TkEof s"
  by (auto simp: check_def)

lemma stop_none: "binary_info (tk_kind (p_peek s)) = None \<Longrightarrow> stop k s"
  by (simp add: stop_def)

lemma stop_ex: "\<exists>k\<ge>p. stop k s"
  by (rule exI [of _ "p + (case binary_info (tk_kind (p_peek s)) of None \<Rightarrow> 0 | Some i \<Rightarrow> bi_precedence i)"])
    (auto simp: stop_def)

lemma continued_parsed:
  "parsed toks G' s l t \<Longrightarrow> continued toks G (ps_pos s) t e u \<Longrightarrow> parsed toks G s e u"
  by (auto simp: parsed_def continued_def adv_def)

lemma binary_ok: "ok_exprs toks n \<Longrightarrow> ok_bin toks (Suc n)"
  unfolding ok_bin_def
proof (intro allI impI)
  fix s and p :: nat
  assume ih: "ok_exprs toks n" and s: "pok toks s" "fuel_ok toks 6 (Suc n) s" and p: "0 < p"
  have f: "fuel_ok toks 4 n s" using s(2) by (rule fuel_step) simp_all
  have b: "ok_un toks n" "ok_bin_loop toks n" using ih by (simp_all add: ok_exprs_def)
  show "pwp (at_token toks) (binary (Suc n) p) (\<lambda>e t. parsed toks (g_bin p) s e t \<and> stop (p - 1) t) s"
    unfolding binary.simps pwp_bind pwp_get
    apply (rule use_un [OF b(1) s(1) f])
    subgoal premises l for left t
    proof -
      obtain k where k: "p \<le> k" "stop k t" using stop_ex by blast
      have g: "good (ps_depth t) left" "ps_pos s < ps_pos t" "pok toks t"
        "g_bin k (seg toks (ps_pos s) (ps_pos t)) left"
        using l(1) by (auto simp: parsed_def adv_def intro: gb_un)
      have f: "fuel_ok toks 1 n t" using s(2) by (rule fuel_step) (use g in auto)
      show ?thesis
        by (rule use_bin_loop [OF b(2) g(3) f p k(1) g(2,1,4) k(2) l(2)])
          (use continued_parsed [OF l(1)] in auto)
    qed
    done
qed

lemma good_binary:
  "good d l \<Longrightarrow> good d r \<Longrightarrow> \<not> kMaxChain < Suc (max (eheight l) (eheight r)) \<Longrightarrow>
   good d (mk_binary op l r line) \<and> eheight (mk_binary op l r line) = Suc (max (eheight l) (eheight r))"
  by (auto simp: good_def mk_binary_def split: sum.splits)

lemma step_facts:
  assumes "pok toks s" "\<not> check TkEof s"
  shows "pok toks (p_step s)" "ps_pos (p_step s) = Suc (ps_pos s)" "ps_depth (p_step s) = ps_depth s"
    "i \<le> ps_pos s \<Longrightarrow> seg toks i (Suc (ps_pos s)) = seg toks i (ps_pos s) @ [p_peek s]"
proof -
  show "pok toks (p_step s)" using assms pok_step [of toks s "tk_kind (p_peek s)"] by (auto simp: check_def)
  show "ps_pos (p_step s) = Suc (ps_pos s)" "ps_depth (p_step s) = ps_depth s" by (simp_all add: p_step_def)
  show "i \<le> ps_pos s \<Longrightarrow> seg toks i (Suc (ps_pos s)) = seg toks i (ps_pos s) @ [p_peek s]"
    using assms by (simp add: seg_snoc pok_def p_peek_def)
qed

lemma step_parsed:
  assumes "pok toks s" "\<not> check TkEof s" "parsed toks G (p_step s) r u"
  shows "adv toks s u" "ps_pos s < ps_pos u" "good (ps_depth s) r" "G (seg toks (Suc (ps_pos s)) (ps_pos u)) r"
    "i \<le> ps_pos s \<Longrightarrow>
     seg toks i (ps_pos u) = seg toks i (ps_pos s) @ p_peek s # seg toks (Suc (ps_pos s)) (ps_pos u)"
proof -
  note f = step_facts [OF assms(1,2)]
  show "adv toks s u" "ps_pos s < ps_pos u" "good (ps_depth s) r" "G (seg toks (Suc (ps_pos s)) (ps_pos u)) r"
    using assms(3) f by (auto simp: parsed_def adv_def)
  assume i: "i \<le> ps_pos s"
  show "seg toks i (ps_pos u) = seg toks i (ps_pos s) @ p_peek s # seg toks (Suc (ps_pos s)) (ps_pos u)"
    using seg_split [of i "ps_pos s" "ps_pos u" toks] i assms(1,3) f
    by (simp add: parsed_def adv_def pok_def p_peek_def)
qed

lemma binary_loop_ok: "ok_exprs toks n \<Longrightarrow> ok_bin_loop toks (Suc n)"
  unfolding ok_bin_loop_def
proof (intro allI impI)
  fix s and p i k :: nat and left
  assume ih: "ok_exprs toks n" and s: "pok toks s" "fuel_ok toks 1 (Suc n) s" and p: "0 < p" "p \<le> k"
    and i: "i < ps_pos s" "good (ps_depth s) left" "g_bin k (seg toks i (ps_pos s)) left" "stop k s"
  have b: "ok_bin toks n" "ok_bin_loop toks n" using ih by (simp_all add: ok_exprs_def)
  let ?Q = "\<lambda>e t. continued toks (g_bin p) i s e t \<and> stop (p - 1) t"
  have fin: "continued toks (g_bin p) i s left (s\<lparr>ps_height := eheight left\<rparr>)"
    using i s(1) p g_bin_lower by (auto simp: continued_def adv_def)
  have stop_h: "stop j (s\<lparr>ps_height := h\<rparr>) = stop j s" for j h by (simp add: stop_def p_peek_def)
  show "pwp (at_token toks) (binary_loop (Suc n) p left (eheight left)) ?Q s"
  proof (cases "binary_info (tk_kind (p_peek s))")
    case None
    then show ?thesis using fin by (auto simp: pwp_simps stop_h stop_none)
  next
    case (Some d)
    show ?thesis
    proof (cases "p \<le> bi_precedence d")
      case False
      then have "stop (p - 1) s" using Some by (simp add: stop_def)
      then show ?thesis using fin Some False by (simp add: pwp_simps stop_h)
    next
      case True
      let ?q = "bi_precedence d"
      have ne: "\<not> check TkEof s" using Some by (rule binary_info_not_eof)
      note f = step_facts [OF s(1) ne]
      have q: "?q \<le> k" using i(4) Some by (simp add: stop_def)
      have l: "g_bin ?q (seg toks i (ps_pos s)) left" using i(3) q by (rule g_bin_lower)
      have fb: "fuel_ok toks 6 n (p_step s)" using s(2,1) by (rule fuel_consumed) (use f in auto)
      have "pwp (at_token toks) (binary n (Suc ?q))
          (\<lambda>r t. pwp (at_token toks) (link (max (eheight left) (ps_height t)) (tk_line (p_peek s)))
            (\<lambda>h. pwp (at_token toks) (binary_loop n p (mk_binary (bi_op d) left r (tk_line (p_peek s))) h) ?Q) t)
          (p_step s)"
        apply (rule use_bin [OF b(1) f(1) fb])
         apply simp
        subgoal premises r for r t
        proof -
          note g = step_parsed [OF s(1) ne r(1)]
          let ?e = "mk_binary (bi_op d) left r (tk_line (p_peek s))"
          have ge: "g_bin ?q (seg toks i (ps_pos t)) ?e"
            using g(4,5) i(1) Some l by (simp add: gb_op)
          have t: "pok toks t" "i < ps_pos t" "ps_depth t = ps_depth s" "stop ?q t"
            using g(1,2) i(1) r(2) by (auto simp: adv_def)
          have ft: "fuel_ok toks 1 n t" using s(2,1) g(2) by (rule fuel_consumed) simp
          have "pwp (at_token toks) (binary_loop n p ?e (Suc (max (eheight left) (eheight r)))) ?Q t"
            if h: "\<not> kMaxChain < Suc (max (eheight left) (eheight r))"
            apply (rule use_bin_loop [OF b(2) t(1) ft p(1) True t(2) _ ge t(4)])
            using good_binary [OF i(2) g(3) h] t(3) apply simp
            using good_binary [OF i(2) g(3) h] apply simp
            using g(1) t(3) by (auto simp: continued_def adv_def)
          then show ?thesis using r(3) s(1) by (simp add: pwp_link)
        qed
        done
      then show ?thesis using Some True ne by (simp add: pwp_bind pwp_get pwp_advance)
    qed
  qed
qed


text \<open>Unary operators.\<close>

lemma good_unary:
  "good (Suc d) e \<Longrightarrow> \<not> kMaxChain < Suc (eheight e) \<Longrightarrow> good d (EUnary op e l)"
  by (auto simp: good_def)

lemma parsed_here: "parsed toks G s e t \<Longrightarrow> parsed toks G s e (t\<lparr>ps_height := eheight e\<rparr>)"
  by (simp add: parsed_def parsed_set_height)

lemma unary_rest:
  assumes "pok toks s" "check (if b then TkBang else TkMinus) s"
    "parsed toks g_un ((p_step s)\<lparr>ps_depth := Suc (ps_depth s)\<rparr>) e t"
    "\<not> kMaxChain < Suc (eheight e)"
  shows "parsed toks g_un s (EUnary (if b then UNot else UNegate) e (tk_line (p_peek s)))
    (t\<lparr>ps_height := Suc (eheight e), ps_depth := ps_depth s\<rparr>)"
proof -
  have ne: "\<not> check TkEof s" using assms(2) by (auto simp: check_def split: if_splits)
  note f = step_facts [OF assms(1) ne]
  have n: "parsed toks g_un (p_step s) e (t\<lparr>ps_depth := ps_depth t - 1\<rparr>)" "good (Suc (ps_depth (p_step s))) e"
    using parsed_unnest [of toks g_un "p_step s" e t] assms(3) f by auto
  note g = step_parsed [OF assms(1) ne n(1)]
  have d: "ps_depth t - 1 = ps_depth s" using g(1) by (simp add: adv_def)
  have "g_un (seg toks (ps_pos s) (ps_pos t)) (EUnary (if b then UNot else UNegate) e (tk_line (p_peek s)))"
    using g(4) g(5) [of "ps_pos s"] assms(2) by (auto simp: check_def intro: gu_not gu_neg split: if_splits)
  then show ?thesis using g(1,2) n(2) f assms(4) d good_unary by (auto simp: parsed_def adv_def pok_def)
qed

lemma unary_ok: "ok_exprs toks n \<Longrightarrow> ok_un toks (Suc n)"
  unfolding ok_un_def
proof (intro allI impI)
  fix s
  assume ih: "ok_exprs toks n" and s: "pok toks s" "fuel_ok toks 4 (Suc n) s"
  have b: "ok_un toks n" "ok_post toks n" using ih by (simp_all add: ok_exprs_def)
  show "pwp (at_token toks) (unary (Suc n)) (parsed toks g_un s) s"
  proof (cases "check TkBang s \<or> check TkMinus s")
    case False
    have "fuel_ok toks 3 n s" using s(2) by (rule fuel_step) simp_all
    then have "pwp (at_token toks) (postfix n) (parsed toks g_un s) s"
      by (rule use_post [OF b(2) s(1)]) (auto simp: parsed_def intro: gu_post)
    then show ?thesis using False by (simp add: pwp_simps)
  next
    case True
    then obtain bang where k: "check (if bang then TkBang else TkMinus) s" by (metis (full_types))
    then have ne: "\<not> check TkEof s" by (auto simp: check_def split: if_splits)
    note f = step_facts [OF s(1) ne]
    have kind: "(tk_kind (p_peek s) = TkBang) = bang" using k by (auto simp: check_def split: if_splits)
    let ?u = "p_step s" and ?line = "tk_line (p_peek s)"
    let ?op = "if bang then UNot else UNegate"
    have nested: "pwp (at_token toks)
      (nest (pbind (unary n) (\<lambda>operand. pbind (pget ps_height) (\<lambda>h. pbind (link h ?line) (\<lambda>h.
         pbind (set_height h) (\<lambda>_. preturn (EUnary ?op operand ?line))))))) (parsed toks g_un s) ?u"
    proof (cases "kMaxNesting < ps_depth s + 1")
      case True
      then show ?thesis using f by (simp add: pwp_nest)
    next
      case nest: False
      have fu: "fuel_ok toks 4 n (?u\<lparr>ps_depth := Suc (ps_depth s)\<rparr>)"
        using s(2,1) by (rule fuel_consumed) (simp_all add: f)
      have pu: "pok toks (?u\<lparr>ps_depth := Suc (ps_depth s)\<rparr>)" using f(1) nest by (simp add: pok_def)
      have "pwp (at_token toks) (unary n) (\<lambda>e t. pwp (at_token toks) (link (ps_height t) ?line)
          (\<lambda>h t. parsed toks g_un s (EUnary ?op e ?line) (t\<lparr>ps_height := h, ps_depth := ps_depth t - 1\<rparr>)) t)
          (?u\<lparr>ps_depth := Suc (ps_depth s)\<rparr>)"
        apply (rule use_un [OF b(1) pu fu])
        subgoal premises r for e t
          using unary_rest [OF s(1) k r(1)] r s(1) by (simp add: pwp_link parsed_def adv_def f)
        done
      then show ?thesis using nest f by (simp add: pwp_simps)
    qed
    show ?thesis
    proof (cases "\<not> bang \<and> check TkInt ?u \<and> tk_int (p_peek ?u) = kIntMinMagnitude \<and>
        tk_kind (ps_tokens ?u ! (ps_pos ?u + 1)) \<notin> {TkLeftParen, TkLeftBracket}")
      case False
      then show ?thesis using True ne nested kind by (auto simp: pwp_bind pwp_get pwp_advance Let_def)
    next
      case min: True
      then have ne': "\<not> check TkEof ?u" by (simp add: check_def)
      note f' = step_facts [OF f(1) ne']
      have sg: "seg toks (ps_pos s) (ps_pos (p_step ?u)) = [p_peek s, p_peek ?u]"
        using f(4) [of "ps_pos s"] f'(2) f'(4) [of "ps_pos s"] f(2) by simp
      have "g_un [p_peek s, p_peek ?u] (ELiteral (LitInt (of_int (- 2147483648))) ?line)"
        using min k by (intro gu_min) (simp_all add: check_def kIntMinMagnitude_def)
      then have "parsed toks g_un s (ELiteral (LitInt (of_int (- 2147483648))) ?line) ((p_step ?u)\<lparr>ps_height := 0\<rparr>)"
        using f f' sg s(1) by (simp add: parsed_def adv_def good_def pok_def)
      then show ?thesis using True ne min ne' kind by (simp add: pwp_simps pwp_advance Let_def)
    qed
  qed
qed


text \<open>Lists of expressions.\<close>

lemma goods_snoc: "goods d es \<Longrightarrow> good d e \<Longrightarrow> goods d (es @ [e])"
  by (auto simp: goods_def good_def)

lemma adv_trans: "adv toks s t \<Longrightarrow> adv toks t u \<Longrightarrow> adv toks s u"
  by (auto simp: adv_def)

lemma list_item:
  assumes "pok toks s" "parsed toks g_assign s e t"
    and "if es = [] then i = ps_pos s
      else i < ps_pos s \<and> g_list (seg toks i (ps_pos s - 1)) es \<and> tk_kind (toks ! (ps_pos s - 1)) = TkComma"
  shows "g_list (seg toks i (ps_pos t)) (es @ [e])"
proof (cases "es = []")
  case True
  then show ?thesis using assms by (simp add: parsed_def gl_one)
next
  case False
  then have i: "i < ps_pos s" "g_list (seg toks i (ps_pos s - 1)) es" "tk_kind (toks ! (ps_pos s - 1)) = TkComma"
    using assms(3) by auto
  have "i \<le> ps_pos s - 1" "ps_pos s - 1 < ps_pos t" "ps_pos s - 1 < length toks"
    using i(1) assms(1,2) by (auto simp: parsed_def pok_def adv_def)
  then have "seg toks i (ps_pos t) =
      seg toks i (ps_pos s - 1) @ toks ! (ps_pos s - 1) # seg toks (Suc (ps_pos s - 1)) (ps_pos t)"
    by (rule seg_split)
  then have "seg toks i (ps_pos t) =
      seg toks i (ps_pos s - 1) @ toks ! (ps_pos s - 1) # seg toks (ps_pos s) (ps_pos t)"
    using i(1) by simp
  then show ?thesis using i(2,3) False assms(2) by (simp add: parsed_def gl_more)
qed

lemma list_ok: "ok_exprs toks n \<Longrightarrow> ok_list toks (Suc n)"
  unfolding ok_list_def
proof (intro allI impI)
  fix s i es
  assume ih: "ok_exprs toks n" and s: "pok toks s" "fuel_ok toks 8 (Suc n) s"
    and i: "i \<le> ps_pos s" "goods (ps_depth s) es"
      "if es = [] then i = ps_pos s
       else i < ps_pos s \<and> g_list (seg toks i (ps_pos s - 1)) es \<and> tk_kind (toks ! (ps_pos s - 1)) = TkComma"
  have b: "ok_assign toks n" "ok_list toks n" using ih by (simp_all add: ok_exprs_def)
  have f: "fuel_ok toks 7 n s" using s(2) by (rule fuel_step) simp_all
  show "pwp (at_token toks) (expr_list (Suc n) es (eheights es))
       (\<lambda>(fs, h) t. adv toks s t \<and> h = eheights fs \<and> goods (ps_depth s) fs \<and>
         g_list (seg toks i (ps_pos t)) fs) s"
    unfolding expr_list.simps pwp_bind
    apply (rule use_assign [OF b(1) s(1) f])
    subgoal premises e for e t
    proof -
      have l: "g_list (seg toks i (ps_pos t)) (es @ [e])" using s(1) e(1) i(3) by (rule list_item)
      have g: "adv toks s t" "goods (ps_depth s) (es @ [e])" "pok toks t" "ps_pos s < ps_pos t"
        "ps_depth t = ps_depth s"
        using e(1) i(2) by (auto simp: parsed_def adv_def goods_snoc)
      show ?thesis
      proof (cases "check TkComma t")
        case False
        then show ?thesis using l g e(2) by (simp add: pwp_simps)
      next
        case True
        then have ne: "\<not> check TkEof t" by (simp add: check_def)
        note a = step_facts [OF g(3) ne]
        have ft: "fuel_ok toks 8 n (p_step t)" using s(2,1) by (rule fuel_consumed) (use a g in auto)
        have c: "tk_kind (toks ! ps_pos t) = TkComma"
          using True g(3) by (simp add: check_def p_peek_def pok_def)
        have "pwp (at_token toks) (expr_list n (es @ [e]) (max (eheights es) (ps_height t)))
          (\<lambda>(fs, h) u. adv toks s u \<and> h = eheights fs \<and> goods (ps_depth s) fs \<and>
            g_list (seg toks i (ps_pos u)) fs) (p_step t)"
          by (rule use_list_more [where i = i, OF b(2) a(1) ft])
            (use a g l c i e(2) in \<open>auto simp: adv_def\<close>)
        then show ?thesis using True by (simp add: pwp_simps)
      qed
    qed
    done
qed

lemma use_args:
  assumes "ok_list toks n" "pok toks s" "fuel_ok toks 8 n s"
    and Q: "\<And>fs t. adv toks s t \<Longrightarrow> goods (ps_depth s) fs \<Longrightarrow>
      g_list (seg toks (ps_pos s) (ps_pos t)) fs \<Longrightarrow> Q (fs, eheights fs) t"
  shows "pwp (at_token toks) (if \<not> check k s then expr_list n [] 0 else preturn ([], 0)) Q s"
proof (cases "check k s")
  case True
  have "adv toks s s" "goods (ps_depth s) []" using assms(2) by (auto simp: adv_def goods_def pok_def)
  then show ?thesis using True Q [of s "[]"] by (simp add: pwp_return gl_none)
next
  case False
  have "pwp (at_token toks) (expr_list n [] 0) Q s"
    by (rule use_list [OF assms(1-3)]) (rule Q)
  then show ?thesis using False by simp
qed

text \<open>A part between brackets: entered at \<open>p_step s\<close> one level down, closed at \<open>u\<close>.\<close>

lemma enter_ok:
  assumes "pok toks s" "\<not> check TkEof s" "\<not> kMaxNesting < ps_depth s + 1"
  defines "u \<equiv> (p_step s)\<lparr>ps_depth := ps_depth s + 1\<rparr>"
  shows "pok toks u" "ps_pos u = Suc (ps_pos s)" "ps_depth u = Suc (ps_depth s)"
  using step_facts [OF assms(1,2)] assms(3) by (auto simp: u_def pok_def)

lemma bracket:
  assumes "pok toks s" "\<not> check TkEof s" "\<not> kMaxNesting < ps_depth s + 1"
    and "adv toks ((p_step s)\<lparr>ps_depth := ps_depth s + 1\<rparr>) t" "check k t" "k \<noteq> TkEof"
    and "ps_pos u = Suc (ps_pos t)" "ps_depth u = ps_depth s" "ps_tokens u = ps_tokens t"
  shows "adv toks s u" "ps_pos s < ps_pos u" "tk_kind (p_peek t) = k"
    "i \<le> ps_pos s \<Longrightarrow> seg toks i (ps_pos u) =
       seg toks i (ps_pos s) @ p_peek s # seg toks (Suc (ps_pos s)) (ps_pos t) @ [p_peek t]"
proof -
  note e = enter_ok [OF assms(1-3)]
  have t: "pok toks t" "Suc (ps_pos s) \<le> ps_pos t" using assms(4) e by (auto simp: adv_def)
  have ne: "\<not> check TkEof t" using assms(5,6) by (auto simp: check_def)
  note f = step_facts [OF t(1) ne]
  have u: "pok toks u" using f(1,2) assms(1,7-9) by (auto simp: pok_def p_step_def)
  then show "adv toks s u" "ps_pos s < ps_pos u" using t assms(7,8) by (auto simp: adv_def)
  show "tk_kind (p_peek t) = k" using assms(5) by (simp add: check_def)
  assume i: "i \<le> ps_pos s"
  have "seg toks i (ps_pos u) = seg toks i (ps_pos t) @ [p_peek t]"
    using f(4) [of i] i t(2) assms(7) by simp
  also have "seg toks i (ps_pos t) = seg toks i (ps_pos s) @ p_peek s # seg toks (Suc (ps_pos s)) (ps_pos t)"
    using seg_split [of i "ps_pos s" "ps_pos t" toks] i t assms(1) by (simp add: pok_def p_peek_def)
  finally show "seg toks i (ps_pos u) =
       seg toks i (ps_pos s) @ p_peek s # seg toks (Suc (ps_pos s)) (ps_pos t) @ [p_peek t]" by simp
qed


lemma good_call:
  "good d f \<Longrightarrow> goods (Suc d) as \<Longrightarrow> \<not> kMaxChain < Suc (max (eheight f) (eheights as)) \<Longrightarrow>
   good d (ECall f as l)"
  "good d f \<Longrightarrow> good (Suc d) i \<Longrightarrow> \<not> kMaxChain < Suc (max (eheight f) (eheight i)) \<Longrightarrow>
   good d (EIndex f i l)"
  "goods (Suc d) as \<Longrightarrow> \<not> kMaxChain < Suc (eheights as) \<Longrightarrow> good d (EArrayLiteral as l)"
  by (auto simp: good_def goods_def)

lemma postfix_ok: "ok_exprs toks n \<Longrightarrow> ok_post toks (Suc n)"
  unfolding ok_post_def
proof (intro allI impI)
  fix s
  assume ih: "ok_exprs toks n" and s: "pok toks s" "fuel_ok toks 3 (Suc n) s"
  have b: "ok_prim toks n" "ok_post_loop toks n" using ih by (simp_all add: ok_exprs_def)
  have f: "fuel_ok toks 1 n s" using s(2) by (rule fuel_step) simp_all
  show "pwp (at_token toks) (postfix (Suc n)) (parsed toks g_post s) s"
    unfolding postfix.simps pwp_bind pwp_get
    apply (rule use_prim [OF b(1) s(1) f])
    subgoal premises p for e t
    proof -
      have g: "pok toks t" "ps_pos s < ps_pos t" "good (ps_depth t) e" "ps_height t = eheight e"
        "g_post (seg toks (ps_pos s) (ps_pos t)) e"
        using p by (auto simp: parsed_def adv_def intro: gp_prim)
      have ft: "fuel_ok toks 1 n t" using s(2) by (rule fuel_step) (use g(2) in auto)
      show ?thesis
        by (rule use_post_loop [OF b(2) g(1) ft g(2,3,5,4)]) (rule continued_parsed [OF p])
    qed
    done
qed


lemma depth_frame [simp]:
  "check k (s\<lparr>ps_depth := d\<rparr>) = check k s" "p_peek (s\<lparr>ps_depth := d\<rparr>) = p_peek s"
  "check k (s\<lparr>ps_height := h\<rparr>) = check k s" "p_peek (s\<lparr>ps_height := h\<rparr>) = p_peek s"
  by (simp_all add: check_def p_peek_def)

lemma adv_at_token [simp]: "adv toks s t \<Longrightarrow> at_token toks (tk_line (p_peek t))"
  by (simp add: adv_def)

lemma post_loop_ok: "ok_exprs toks n \<Longrightarrow> ok_post_loop toks (Suc n)"
  unfolding ok_post_loop_def
proof (intro allI impI)
  fix s i e
  assume ih: "ok_exprs toks n" and s: "pok toks s" "fuel_ok toks 1 (Suc n) s" and i: "i < ps_pos s"
    and e: "good (ps_depth s) e" "g_post (seg toks i (ps_pos s)) e"
  let ?Q = "continued toks g_post i s" and ?E = "at_token toks" and ?line = "tk_line (p_peek s)"
  let ?u = "(p_step s)\<lparr>ps_depth := ps_depth s + 1\<rparr>"
  have b: "ok_list toks n" "ok_assign toks n" "ok_post_loop toks n" using ih by (simp_all add: ok_exprs_def)
  have again: "pwp ?E (postfix_loop n e' (eheight e')) ?Q w"
    if w: "adv toks s w" "ps_pos s < ps_pos w" "good (ps_depth s) e'" "g_post (seg toks i (ps_pos w)) e'" for e' w
  proof -
    have f: "fuel_ok toks 1 n w" using s(2,1) w(2) by (rule fuel_consumed) simp
    have w': "pok toks w" "i < ps_pos w" "good (ps_depth w) e'" using w i by (auto simp: adv_def)
    show ?thesis
      by (rule use_post_loop [OF b(3) w'(1) f w'(2,3) w(4) refl]) (use w(1) in \<open>auto simp: continued_def adv_def\<close>)
  qed
  consider "check TkLeftParen s" | "check TkLeftBracket s" | "\<not> check TkLeftParen s" "\<not> check TkLeftBracket s" by blast
  then show "pwp ?E (postfix_loop (Suc n) e (eheight e)) ?Q s"
  proof cases
    case 3
    then show ?thesis using s(1) i e by (auto simp: pwp_simps continued_def adv_def)
  next
    case 1
    then have ne: "\<not> check TkEof s" and k: "tk_kind (p_peek s) = TkLeftParen" by (simp_all add: check_def)
    note f = step_facts [OF s(1) ne]
    show ?thesis
    proof (cases "kMaxNesting < ps_depth s + 1")
      case True
      then show ?thesis using 1 f s(1) by (simp add: pwp_simps)
    next
      case nest: False
      note u = enter_ok [OF s(1) ne nest]
      have fu: "fuel_ok toks 8 n ?u" using s(2,1) by (rule fuel_consumed) (simp_all add: f)
      show ?thesis
        apply (simp only: postfix_loop.simps pwp_bind pwp_match token_kind.simps 1 if_True if_False pwp_get
            pwp_nest f(3) nest previous_step not_False_eq_True)
        apply (rule use_args [OF b(1) u(1) fu])
        subgoal premises a for as t
        proof -
          have "pwp ?E (postfix_loop n (ECall e as ?line) (Suc (max (eheight e) (eheights as)))) ?Q
              (p_step (t\<lparr>ps_depth := ps_depth t - 1\<rparr>))"
            if c: "check TkRightParen t" and h: "\<not> kMaxChain < Suc (max (eheight e) (eheights as))"
          proof -
            let ?w = "p_step (t\<lparr>ps_depth := ps_depth t - 1\<rparr>)"
            have d: "ps_depth t = Suc (ps_depth s)" using a(1) u by (simp add: adv_def)
            note w = bracket [OF s(1) ne nest a(1) c, of ?w]
            have w': "adv toks s ?w" "ps_pos s < ps_pos ?w"
              "g_post (seg toks i (ps_pos ?w)) (ECall e as ?line)"
              using w(1-3) w(4) [of i] d i e(2) a(3) k u by (auto simp: p_step_def intro: gp_call)
            have "good (ps_depth s) (ECall e as ?line)" using e(1) a(2) u h good_call(1) by simp
            then show ?thesis using again [OF w'(1,2) _ w'(3)] by simp
          qed
          then show ?thesis using a(1) s(1) by (simp add: pwp_simps)
        qed
        done
    qed
  next
    case 2
    then have ne: "\<not> check TkEof s" and k: "tk_kind (p_peek s) = TkLeftBracket" "\<not> check TkLeftParen s"
      by (simp_all add: check_def)
    note f = step_facts [OF s(1) ne]
    show ?thesis
    proof (cases "kMaxNesting < ps_depth s + 1")
      case True
      then show ?thesis using 2 f s(1) k by (simp add: pwp_simps)
    next
      case nest: False
      note u = enter_ok [OF s(1) ne nest]
      have fu: "fuel_ok toks 7 n ?u" using s(2,1) by (rule fuel_consumed) (simp_all add: f)
      show ?thesis
        apply (simp only: postfix_loop.simps pwp_bind pwp_match token_kind.simps 2 k if_True if_False pwp_get
            pwp_nest f(3) nest previous_step not_False_eq_True)
        apply (rule use_assign [OF b(2) u(1) fu])
        subgoal premises a for j t
        proof -
          have a': "adv toks ?u t" "good (Suc (ps_depth s)) j" "g_assign (seg toks (ps_pos ?u) (ps_pos t)) j"
            using a(1) u by (simp_all add: parsed_def)
          have "pwp ?E (postfix_loop n (EIndex e j ?line) (Suc (max (eheight e) (eheight j)))) ?Q
              (p_step (t\<lparr>ps_depth := ps_depth t - 1\<rparr>))"
            if c: "check TkRightBracket t" and h: "\<not> kMaxChain < Suc (max (eheight e) (eheight j))"
          proof -
            let ?w = "p_step (t\<lparr>ps_depth := ps_depth t - 1\<rparr>)"
            have d: "ps_depth t = Suc (ps_depth s)" using a'(1) u by (simp add: adv_def)
            note w = bracket [OF s(1) ne nest a'(1) c, of ?w]
            have w': "adv toks s ?w" "ps_pos s < ps_pos ?w"
              "g_post (seg toks i (ps_pos ?w)) (EIndex e j ?line)"
              using w(1-3) w(4) [of i] d i e(2) a'(3) k u by (auto simp: p_step_def intro: gp_index)
            have "good (ps_depth s) (EIndex e j ?line)" using e(1) a'(2) h good_call(2) by simp
            then show ?thesis using again [OF w'(1,2) _ w'(3)] by simp
          qed
          then show ?thesis using a'(1) s(1) a(2) by (simp add: pwp_simps) (simp add: p_step_def)
        qed
        done
    qed
  qed
qed


lemma literal_ok:
  assumes "pok toks s" "\<not> check TkEof s" "ps_height s = 0" "token_literal (p_peek s) = Some v"
  shows "pwp (at_token toks) (p_literal v) (parsed toks g_prim s) s"
proof -
  note f = step_facts [OF assms(1,2)]
  have "g_prim [p_peek s] (ELiteral v (tk_line (p_peek s)))" using assms(4) by (rule gr_literal)
  then have "parsed toks g_prim s (ELiteral v (tk_line (p_peek s))) (p_step s)"
    using f(1,2) f(4) [of "ps_pos s"] assms(1,3) by (simp add: parsed_def adv_def good_def pok_def p_step_def)
  then show ?thesis using assms(2) by (simp add: p_literal_def pwp_simps pwp_advance)
qed

lemma variable_ok:
  assumes "pok toks s" "ps_height s = 0" "tk_kind (p_peek s) = TkIdentifier"
  shows "parsed toks g_prim s (EVariable (tk_lexeme (p_peek s)) Unresolved (tk_line (p_peek s))) (p_step s)"
proof -
  have "\<not> check TkEof s" using assms(3) by (simp add: check_def)
  note f = step_facts [OF assms(1) this]
  have "g_prim [p_peek s] (EVariable (tk_lexeme (p_peek s)) Unresolved (tk_line (p_peek s)))"
    using assms(3) by (rule gr_variable)
  then show ?thesis
    using f(1,2) f(4) [of "ps_pos s"] assms(1,2) by (simp add: parsed_def adv_def good_def pok_def p_step_def)
qed

lemma int_ok:
  assumes "pok toks s" "ps_height s = 0" "tk_kind (p_peek s) = TkInt"
  shows "pwp (at_token toks) (int_literal (p_peek s)) (parsed toks g_prim s) s"
proof (cases "kIntMinMagnitude \<le> tk_int (p_peek s)")
  case True
  then show ?thesis using assms(1) by (simp add: int_literal_def pwp_fail)
next
  case False
  then have "token_literal (p_peek s) = Some (LitInt (of_int (tk_int (p_peek s))))"
    using assms(3) by (simp add: kIntMinMagnitude_def)
  moreover have "\<not> check TkEof s" using assms(3) by (simp add: check_def)
  ultimately show ?thesis using False assms(1,2) literal_ok by (simp add: int_literal_def)
qed

lemma paren_ok:
  assumes ih: "ok_assign toks n" and s: "pok toks s" "fuel_ok toks 1 (Suc n) s"
    and k: "tk_kind (p_peek s) = TkLeftParen"
  shows "pwp (at_token toks) (nest (pbind (assignment n) (\<lambda>inner.
           pbind (consume TkRightParen msg) (\<lambda>_. preturn inner)))) (parsed toks g_prim s) (p_step s)"
proof (cases "kMaxNesting < ps_depth s + 1")
  case True
  have ne: "\<not> check TkEof s" using k by (simp add: check_def)
  then show ?thesis using step_facts [OF s(1) ne] True by (simp add: pwp_nest)
next
  case nest: False
  have ne: "\<not> check TkEof s" using k by (simp add: check_def)
  note f = step_facts [OF s(1) ne] and u = enter_ok [OF s(1) ne nest]
  let ?u = "(p_step s)\<lparr>ps_depth := ps_depth s + 1\<rparr>"
  have fu: "fuel_ok toks 7 n ?u" using s(2,1) by (rule fuel_consumed) (simp_all add: f)
  show ?thesis
    apply (simp only: pwp_bind pwp_nest f(3) nest if_False)
    apply (rule use_assign [OF ih u(1) fu])
    subgoal premises a for e t
    proof -
      have a': "adv toks ?u t" "good (ps_depth s) e" "g_assign (seg toks (ps_pos ?u) (ps_pos t)) e"
        using a(1) u good_mono [of "Suc (ps_depth s)" e "ps_depth s"] by (auto simp: parsed_def)
      have "parsed toks g_prim s e ((p_step t)\<lparr>ps_depth := ps_depth (p_step t) - 1\<rparr>)"
        if c: "check TkRightParen t"
      proof -
        let ?w = "(p_step t)\<lparr>ps_depth := ps_depth (p_step t) - 1\<rparr>"
        have d: "ps_depth t = Suc (ps_depth s)" using a'(1) u by (simp add: adv_def)
        have p: "ps_pos ?w = Suc (ps_pos t)" "ps_depth ?w = ps_depth s" "ps_tokens ?w = ps_tokens t"
          using d by (simp_all add: p_step_def)
        note w = bracket [OF s(1) ne nest a'(1) c _ p, simplified token_kind.simps not_False_eq_True]
        have h: "ps_height ?w = eheight e" using a(2) by (simp add: p_step_def)
        have "g_prim (seg toks (ps_pos s) (ps_pos ?w)) e"
          using w(3) w(4) [of "ps_pos s"] a'(3) k u by (simp add: gr_paren)
        then show ?thesis using w(1,2) h a'(2) unfolding parsed_def by blast
      qed
      then show ?thesis using a'(1) s(1) by (simp add: pwp_simps)
    qed
    done
qed

lemma array_ok:
  assumes ih: "ok_list toks n" and s: "pok toks s" "fuel_ok toks 1 (Suc n) s"
    and k: "tk_kind (p_peek s) = TkLeftBracket"
  shows "pwp (at_token toks) (nest (
           pbind (pget (check TkRightBracket)) (\<lambda>close.
           pbind (if \<not> close then expr_list n [] 0 else preturn ([], 0)) (\<lambda>(elements, h).
           pbind (consume TkRightBracket msg) (\<lambda>_.
           pbind (link h (tk_line (p_peek s))) (\<lambda>h.
           pbind (set_height h) (\<lambda>_.
           preturn (EArrayLiteral elements (tk_line (p_peek s))))))))))
         (parsed toks g_prim s) (p_step s)"
proof (cases "kMaxNesting < ps_depth s + 1")
  case True
  have ne: "\<not> check TkEof s" using k by (simp add: check_def)
  then show ?thesis using step_facts [OF s(1) ne] True by (simp add: pwp_nest)
next
  case nest: False
  have ne: "\<not> check TkEof s" using k by (simp add: check_def)
  note f = step_facts [OF s(1) ne] and u = enter_ok [OF s(1) ne nest]
  let ?u = "(p_step s)\<lparr>ps_depth := ps_depth s + 1\<rparr>" and ?line = "tk_line (p_peek s)"
  have fu: "fuel_ok toks 8 n ?u" using s(2,1) by (rule fuel_consumed) (simp_all add: f)
  show ?thesis
    apply (simp only: pwp_bind pwp_nest f(3) nest if_False pwp_get)
    apply (rule use_args [OF ih u(1) fu])
    subgoal premises a for es t
    proof -
      have "parsed toks g_prim s (EArrayLiteral es ?line)
          ((p_step t)\<lparr>ps_height := Suc (eheights es), ps_depth := ps_depth (p_step t) - 1\<rparr>)"
        if c: "check TkRightBracket t" and h: "\<not> kMaxChain < Suc (eheights es)"
      proof -
        let ?w = "(p_step t)\<lparr>ps_height := Suc (eheights es), ps_depth := ps_depth (p_step t) - 1\<rparr>"
        have d: "ps_depth t = Suc (ps_depth s)" using a(1) u by (simp add: adv_def)
        have p: "ps_pos ?w = Suc (ps_pos t)" "ps_depth ?w = ps_depth s" "ps_tokens ?w = ps_tokens t"
          using d by (simp_all add: p_step_def)
        note w = bracket [OF s(1) ne nest a(1) c _ p, simplified token_kind.simps not_False_eq_True]
        have "g_prim (seg toks (ps_pos s) (ps_pos ?w)) (EArrayLiteral es ?line)"
          using w(3) w(4) [of "ps_pos s"] a(3) k u by (simp add: gr_array)
        moreover have "good (ps_depth s) (EArrayLiteral es ?line)" using a(2) u h good_call(3) by simp
        ultimately show ?thesis using w(1,2) unfolding parsed_def by simp
      qed
      then show ?thesis using a(1) s(1) by (simp add: pwp_simps)
    qed
    done
qed

lemma parsed_from_height: "parsed toks G (s\<lparr>ps_height := h\<rparr>) = parsed toks G s"
  by (intro ext) (simp add: parsed_def adv_def)

lemma primary_ok: "ok_exprs toks n \<Longrightarrow> ok_prim toks (Suc n)"
  unfolding ok_prim_def
proof (intro allI impI)
  fix s
  assume ih: "ok_exprs toks n" and s: "pok toks s" "fuel_ok toks 1 (Suc n) s"
  have b: "ok_assign toks n" "ok_list toks n" using ih by (simp_all add: ok_exprs_def)
  define s0 where "s0 = s\<lparr>ps_height := 0\<rparr>"
  have z: "pok toks s0" "fuel_ok toks 1 (Suc n) s0" "ps_height s0 = 0" "p_peek s0 = p_peek s"
    using s by (simp_all add: s0_def)
  have G: "parsed toks g_prim s = parsed toks g_prim s0" by (simp add: s0_def parsed_from_height)
  note facts = z literal_ok [OF z(1) _ z(3)] int_ok [OF z(1,3)] variable_ok [OF z(1,3)]
    pok_at_token [OF s(1)] paren_ok [OF b(1) z(1,2)] array_ok [OF b(2) z(1,2)]
  show "pwp (at_token toks) (primary (Suc n)) (parsed toks g_prim s) s"
    unfolding G primary.simps pwp_bind pwp_get pwp_set_height s0_def [symmetric] z(4) [symmetric]
    using facts
    by (cases "tk_kind (p_peek s0)")
      (simp_all add: pwp_fail pwp_bind pwp_advance pwp_return check_def del: One_nat_def)
qed

lemma exprs_ok: "ok_exprs toks n"
proof (induction n)
  case 0
  show ?case by (rule exprs_zero)
next
  case (Suc n)
  then show ?case
    using assign_ok rhs_ok binary_ok binary_loop_ok unary_ok postfix_ok post_loop_ok list_ok primary_ok
    unfolding ok_exprs_def [of toks "Suc n"] by blast
qed

end
