(* ===== verification/Parser_Total.thy ===== *)
theory Parser_Total
  imports Parser_Expr
begin

text \<open>
  The grammar of statements, the contract of the statement functions and what they give together:
  parsing is total, and a program it accepts derives from its tokens. \<open>g_stmt c\<close> is the grammar of
  a statement that is closed (\<open>c\<close>: an \<open>else\<close> after it cannot belong to it) or ends in an \<open>if\<close>
  without \<open>else\<close>, which makes the nearest \<open>if\<close> take every \<open>else\<close>.
\<close>

subsection \<open>The grammar of statements\<close>

inductive g_opt :: "token list \<Rightarrow> expr option \<Rightarrow> bool" where
  "g_opt [] None"
| "g_assign ts e \<Longrightarrow> g_opt ts (Some e)"

inductive g_names :: "token list \<Rightarrow> sview list \<Rightarrow> bool" where
  "tk_kind t = TkIdentifier \<Longrightarrow> g_names [t] [tk_lexeme t]"
| "g_names ts xs \<Longrightarrow> tk_kind comma = TkComma \<Longrightarrow> tk_kind t = TkIdentifier \<Longrightarrow>
   g_names (ts @ [comma, t]) (xs @ [tk_lexeme t])"

inductive g_let :: "token list \<Rightarrow> stmt \<Rightarrow> bool" where
  gl_init: "tk_kind kw = TkLet \<Longrightarrow> tk_kind x = TkIdentifier \<Longrightarrow> tk_kind eq = TkEqual \<Longrightarrow> g_assign ts e \<Longrightarrow>
   tk_kind semi = TkSemicolon \<Longrightarrow>
   g_let (kw # x # eq # ts @ [semi]) (SLet (tk_lexeme x) (Some e) (tk_line kw))"
| gl_nil: "tk_kind kw = TkLet \<Longrightarrow> tk_kind x = TkIdentifier \<Longrightarrow> tk_kind semi = TkSemicolon \<Longrightarrow>
   g_let [kw, x, semi] (SLet (tk_lexeme x) None (tk_line kw))"

inductive g_expr_stmt :: "token list \<Rightarrow> stmt \<Rightarrow> bool" where
  ge_stmt: "g_assign ts e \<Longrightarrow> tk_kind semi = TkSemicolon \<Longrightarrow>
    g_expr_stmt (ts @ [semi]) (SExpr e (tk_line (hd (ts @ [semi]))))"

inductive g_for_init :: "token list \<Rightarrow> stmt option \<Rightarrow> bool" where
  gf_none: "tk_kind semi = TkSemicolon \<Longrightarrow> g_for_init [semi] None"
| gf_let: "g_let ts s \<Longrightarrow> g_for_init ts (Some s)"
| gf_expr: "g_expr_stmt ts s \<Longrightarrow> g_for_init ts (Some s)"

inductive g_stmt :: "bool \<Rightarrow> token list \<Rightarrow> stmt \<Rightarrow> bool" and
    g_decl :: "token list \<Rightarrow> stmt \<Rightarrow> bool" and
    g_decls :: "token list \<Rightarrow> stmt list \<Rightarrow> bool" where
  gs_print: "tk_kind kw = TkPrint \<Longrightarrow> g_assign ts e \<Longrightarrow> tk_kind semi = TkSemicolon \<Longrightarrow>
    g_stmt True (kw # ts @ [semi]) (SPrint e (tk_line kw))"
| gs_return: "tk_kind kw = TkReturn \<Longrightarrow> g_opt ts eo \<Longrightarrow> tk_kind semi = TkSemicolon \<Longrightarrow>
    g_stmt True (kw # ts @ [semi]) (SReturn eo (tk_line kw))"
| gs_expr: "g_expr_stmt ts s \<Longrightarrow> g_stmt True ts s"
| gs_block: "tk_kind lb = TkLeftBrace \<Longrightarrow> g_decls ts ss \<Longrightarrow> tk_kind rb = TkRightBrace \<Longrightarrow>
    g_stmt True (lb # ts @ [rb]) (SBlock ss (tk_line lb))"
| gs_if: "tk_kind kw = TkIf \<Longrightarrow> tk_kind lp = TkLeftParen \<Longrightarrow> g_assign cs e \<Longrightarrow> tk_kind rp = TkRightParen \<Longrightarrow>
    g_stmt c ts s \<Longrightarrow> g_stmt False (kw # lp # cs @ rp # ts) (SIf e s None (tk_line kw))"
| gs_if_else: "tk_kind kw = TkIf \<Longrightarrow> tk_kind lp = TkLeftParen \<Longrightarrow> g_assign cs e \<Longrightarrow>
    tk_kind rp = TkRightParen \<Longrightarrow> g_stmt True ts s \<Longrightarrow> tk_kind el = TkElse \<Longrightarrow> g_stmt c us r \<Longrightarrow>
    g_stmt c (kw # lp # cs @ rp # ts @ el # us) (SIf e s (Some r) (tk_line kw))"
| gs_while: "tk_kind kw = TkWhile \<Longrightarrow> tk_kind lp = TkLeftParen \<Longrightarrow> g_assign cs e \<Longrightarrow>
    tk_kind rp = TkRightParen \<Longrightarrow> g_stmt c ts s \<Longrightarrow>
    g_stmt c (kw # lp # cs @ rp # ts) (SWhile e s (tk_line kw))"
| gs_for: "tk_kind kw = TkFor \<Longrightarrow> tk_kind lp = TkLeftParen \<Longrightarrow> g_for_init is i \<Longrightarrow> g_opt cs co \<Longrightarrow>
    tk_kind semi = TkSemicolon \<Longrightarrow> g_opt ns no \<Longrightarrow> tk_kind rp = TkRightParen \<Longrightarrow> g_stmt c ts s \<Longrightarrow>
    g_stmt c (kw # lp # is @ cs @ semi # ns @ rp # ts)
      (for_desugared i co no (tk_line (hd (ns @ [rp]))) s (tk_line kw))"
| gd_let: "g_let ts s \<Longrightarrow> g_decl ts s"
| gd_stmt: "g_stmt c ts s \<Longrightarrow> g_decl ts s"
| gd_fn: "tk_kind kw = TkFn \<Longrightarrow> tk_kind f = TkIdentifier \<Longrightarrow> tk_kind lp = TkLeftParen \<Longrightarrow>
    (if ps = [] then us = [] else g_names us ps) \<Longrightarrow> tk_kind rp = TkRightParen \<Longrightarrow>
    tk_kind lb = TkLeftBrace \<Longrightarrow> g_decls ts body \<Longrightarrow> tk_kind rb = TkRightBrace \<Longrightarrow>
    g_decl (kw # f # lp # us @ rp # lb # ts @ [rb])
      (SFunction (tk_lexeme f) ps body (tk_line lb) (tk_line kw))"
| gds_nil: "g_decls [] []"
| gds_snoc: "g_decls ts ss \<Longrightarrow> g_decl us s \<Longrightarrow> g_decls (ts @ us) (ss @ [s])"

subsection \<open>Moves through the tokens\<close>

definition moves :: "token list \<Rightarrow> pstate \<Rightarrow> token list \<Rightarrow> pstate \<Rightarrow> bool" where
  "moves toks s ts t \<longleftrightarrow> pok toks s \<and> adv toks s t \<and> seg toks (ps_pos s) (ps_pos t) = ts"

lemma moves_trans: "moves toks s ts t \<Longrightarrow> moves toks t us u \<Longrightarrow> moves toks s (ts @ us) u"
  using seg_append [of "ps_pos s" "ps_pos t" "ps_pos u" toks] by (auto simp: moves_def adv_def)

lemma moves_pok: "moves toks s ts t \<Longrightarrow> pok toks t \<and> ps_depth t = ps_depth s \<and> ps_pos s \<le> ps_pos t"
  by (simp add: moves_def adv_def)

lemma moves_less: "moves toks s ts t \<Longrightarrow> ts \<noteq> [] \<Longrightarrow> ps_pos s < ps_pos t"
  by (cases "ps_pos s = ps_pos t") (auto simp: moves_def adv_def)

lemma moves_length: "moves toks s ts t \<Longrightarrow> ps_pos t = ps_pos s + length ts"
  by (auto simp: moves_def adv_def seg_def pok_def)

lemma moves_refl: "pok toks s \<Longrightarrow> moves toks s [] s"
  by (simp add: moves_def adv_def)

lemma moves_hd: "moves toks s ts t \<Longrightarrow> ts \<noteq> [] \<Longrightarrow> hd ts = p_peek s"
  using moves_less [of toks s ts t] seg_Cons [of "ps_pos s" "ps_pos t" toks]
  by (auto simp: moves_def p_peek_def pok_def)

lemma moves_step: "pok toks s \<Longrightarrow> \<not> check TkEof s \<Longrightarrow> moves toks s [p_peek s] (p_step s)"
  using step_facts [of toks s] step_facts(4) [of toks s "ps_pos s"] by (simp add: moves_def adv_def)

definition sgood :: "nat \<Rightarrow> stmt \<Rightarrow> bool" where
  "sgood d s \<longleftrightarrow> snest s + 3 * d \<le> 3 * kMaxNesting + 1 \<and>
     (\<forall>e\<in>set (sexprs s). eheight e \<le> kMaxChain \<and> enest e \<le> kMaxNesting) \<and> set (sbindings s) \<subseteq> {Unresolved}"

definition slack :: "nat \<Rightarrow> stmt \<Rightarrow> bool" where
  "slack d s \<longleftrightarrow> Suc (snest s) + 3 * d \<le> 3 * kMaxNesting + 1"

definition sgoods :: "nat \<Rightarrow> stmt list \<Rightarrow> bool" where
  "sgoods d ss \<longleftrightarrow> snests ss + 3 * d \<le> 3 * kMaxNesting + 1 \<and>
     (\<forall>e\<in>set (sexprss ss). eheight e \<le> kMaxChain \<and> enest e \<le> kMaxNesting) \<and> set (sbindingss ss) \<subseteq> {Unresolved}"

text \<open>
  The rules below step through a function whose run began at \<open>s0\<close> and has moved over the tokens \<open>ts\<close>.
\<close>

lemma fuel_moves: "fuel_ok toks r n s \<Longrightarrow> moves toks s ts t \<Longrightarrow> r' \<le> r \<Longrightarrow> fuel_ok toks r' n t"
  using moves_pok [of toks s ts t] unfolding fuel_ok_def by linarith

lemma fuel_moves_step: "fuel_ok toks r (Suc n) s \<Longrightarrow> moves toks s ts t \<Longrightarrow> r' < r \<Longrightarrow> fuel_ok toks r' n t"
  using moves_pok [of toks s ts t] unfolding fuel_ok_def by linarith

lemma fuel_moves_consumed:
  "fuel_ok toks r (Suc n) s \<Longrightarrow> moves toks s ts t \<Longrightarrow> ts \<noteq> [] \<Longrightarrow> r' < 16 \<Longrightarrow> fuel_ok toks r' n t"
  using moves_less [of toks s ts t] by (auto simp: moves_def intro: fuel_consumed)

lemma vc_consume:
  assumes "moves toks s0 ts s" "k \<noteq> TkEof"
    and "\<And>tk t. moves toks s0 (ts @ [tk]) t \<Longrightarrow> tk_kind tk = k \<Longrightarrow> p_previous t = tk \<Longrightarrow> tk = p_peek s \<Longrightarrow>
      Q tk t"
  shows "pwp (at_token toks) (consume k msg) Q s"
  using assms moves_step [of toks s] moves_trans [OF assms(1)] moves_pok [OF assms(1)]
  by (auto simp: pwp_consume check_def)

lemma vc_match:
  assumes "moves toks s0 ts s" "k \<noteq> TkEof"
    and "\<And>tk t. moves toks s0 (ts @ [tk]) t \<Longrightarrow> tk_kind tk = k \<Longrightarrow> p_previous t = tk \<Longrightarrow> check k s \<Longrightarrow>
      Q True t"
    and "\<not> check k s \<Longrightarrow> Q False s"
  shows "pwp (at_token toks) (p_match k) Q s"
proof (cases "check k s")
  case True
  have k: "tk_kind (p_peek s) = k" using True by (simp add: check_def)
  have "moves toks s [p_peek s] (p_step s)"
    using k assms(2) moves_pok [OF assms(1)] by (intro moves_step) (auto simp: check_def)
  then have "Q True (p_step s)" using k True by (intro assms(3) moves_trans [OF assms(1)]) simp_all
  then show ?thesis using assms(2) True by (simp add: pwp_match)
qed (use assms in \<open>simp add: pwp_match\<close>)

lemma vc_expression:
  assumes "fuel_ok toks r n s0" "7 \<le> r" "moves toks s0 ts s"
    and Q: "\<And>us e t. moves toks s0 (ts @ us) t \<Longrightarrow> us \<noteq> [] \<Longrightarrow> hd us = p_peek s \<Longrightarrow> g_assign us e \<Longrightarrow>
      good (ps_depth s0) e \<Longrightarrow> Q e t"
  shows "pwp (at_token toks) (expression n) Q s"
  unfolding expression_def
proof (rule use_assign [of toks n])
  note s = moves_pok [OF assms(3)]
  show "ok_assign toks n" using exprs_ok [of toks n] by (simp add: ok_exprs_def)
  show "pok toks s" using s by blast
  show "fuel_ok toks 7 n s" using assms(1,3,2) by (rule fuel_moves)
  fix e t
  assume p: "parsed toks g_assign s e t"
  let ?us = "seg toks (ps_pos s) (ps_pos t)"
  have m: "moves toks s ?us t" using p s by (simp add: moves_def parsed_def)
  moreover have ne: "?us \<noteq> []"
    using p s seg_Cons [of "ps_pos s" "ps_pos t" toks] by (simp add: parsed_def pok_def)
  ultimately show "Q e t"
    using Q [of ?us t e] p s moves_trans [OF assms(3) m] moves_hd [OF m ne] by (simp add: parsed_def)
qed

lemma sgood_expr:
  "good d e \<Longrightarrow> sgood d (SExpr e l)" "good d e \<Longrightarrow> sgood d (SPrint e l)"
  "good d e \<Longrightarrow> sgood d (SLet x (Some e) l)" "good d e \<Longrightarrow> sgood d (SReturn (Some e) l)"
  "d \<le> kMaxNesting \<Longrightarrow> sgood d (SLet x None l)" "d \<le> kMaxNesting \<Longrightarrow> sgood d (SReturn None l)"
  by (auto simp: good_def sgood_def opt_list_def enest_opt_def ebindings_opt_def kMaxNesting_def)

lemma slack_expr:
  "good d e \<Longrightarrow> slack d (SExpr e l)" "good d e \<Longrightarrow> slack d (SLet x (Some e) l)"
  "d \<le> kMaxNesting \<Longrightarrow> slack d (SLet x None l)"
  by (auto simp: good_def slack_def enest_opt_def kMaxNesting_def)

lemma pok_depth: "pok toks s \<Longrightarrow> ps_depth s \<le> kMaxNesting"
  by (simp add: pok_def)

lemma let_ok:
  assumes s: "pok toks s" "fuel_ok toks 7 n s" and kw: "p_previous s = kw" "tk_kind kw = TkLet"
  shows "pwp (at_token toks) (let_declaration n)
    (\<lambda>x t. \<exists>ts. moves toks s ts t \<and> g_let (kw # ts) x \<and> sgood (ps_depth s) x \<and>
      slack (ps_depth s) x) s"
  unfolding let_declaration_def pwp_bind pwp_get pwp_return previous_line_def
  apply (rule vc_consume [OF moves_refl [OF s(1)]], simp)
  apply (rule vc_match, assumption, simp)
   apply (simp only: if_True pwp_bind pwp_return)
   apply (rule vc_expression [OF s(2)], simp, assumption)
   apply (rule vc_consume, assumption, simp)
   apply (auto simp: kw sgood_expr slack_expr intro!: exI intro: gl_init)[1]
  apply (simp only: if_False pwp_return)
  apply (rule vc_consume, assumption, simp)
  apply (auto simp: kw sgood_expr slack_expr pok_depth [OF s(1)] intro!: exI intro: gl_nil)
  done

lemma print_ok:
  assumes s: "pok toks s" "fuel_ok toks 7 n s" and kw: "p_previous s = kw" "tk_kind kw = TkPrint"
  shows "pwp (at_token toks) (p_print_statement n)
    (\<lambda>x t. \<exists>ts. moves toks s ts t \<and> g_stmt True (kw # ts) x \<and> sgood (ps_depth s) x) s"
  unfolding p_print_statement_def pwp_bind pwp_get pwp_return previous_line_def
  apply (rule vc_expression [OF s(2) _ moves_refl [OF s(1)]], simp)
  apply (rule vc_consume, assumption, simp)
  apply (auto simp: kw sgood_expr intro!: exI intro: gs_print)
  done

lemma expr_stmt_ok:
  assumes s: "pok toks s" "fuel_ok toks 7 n s"
  shows "pwp (at_token toks) (expression_statement n)
    (\<lambda>x t. \<exists>ts. moves toks s ts t \<and> ts \<noteq> [] \<and> g_expr_stmt ts x \<and> sgood (ps_depth s) x \<and>
      slack (ps_depth s) x) s"
  unfolding expression_statement_def pwp_bind pwp_get pwp_return
  apply (rule vc_expression [OF s(2) _ moves_refl [OF s(1)]], simp)
  apply (rule vc_consume, assumption, simp)
  subgoal premises p for us e t semi u
    using p ge_stmt [OF p(4) p(7)] by (auto simp: sgood_expr slack_expr intro!: exI [of _ "us @ [semi]"])
  done

lemma vc_unless_check:
  assumes "fuel_ok toks r n s0" "7 \<le> r" "moves toks s0 ts s"
    and Q: "\<And>us eo t. moves toks s0 (ts @ us) t \<Longrightarrow> g_opt us eo \<Longrightarrow>
      (\<forall>e. eo = Some e \<longrightarrow> good (ps_depth s0) e \<and> hd us = p_peek s \<and> us \<noteq> []) \<Longrightarrow> (eo = None \<longrightarrow> us = [] \<and> t = s) \<Longrightarrow>
      Q eo t"
  shows "pwp (at_token toks) (unless_check k n) Q s"
proof (cases "check k s")
  case True
  then show ?thesis using Q [of "[]" s None] assms(3)
    by (simp add: unless_check_def pwp_bind pwp_get pwp_return g_opt.intros)
next
  case False
  have "pwp (at_token toks) (expression n) (\<lambda>e. Q (Some e)) s"
    by (rule vc_expression [OF assms(1-3)]) (rule Q, auto intro: g_opt.intros)
  then show ?thesis using False by (simp add: unless_check_def pwp_bind pwp_get pwp_return)
qed

lemma return_ok:
  assumes s: "pok toks s" "fuel_ok toks 7 n s" and kw: "p_previous s = kw" "tk_kind kw = TkReturn"
  shows "pwp (at_token toks) (return_statement n)
    (\<lambda>x t. \<exists>ts. moves toks s ts t \<and> g_stmt True (kw # ts) x \<and> sgood (ps_depth s) x) s"
  unfolding return_statement_def pwp_bind pwp_get pwp_return previous_line_def
  apply (rule vc_unless_check [OF s(2) _ moves_refl [OF s(1)]], simp)
  apply (rule vc_consume, assumption, simp)
  subgoal premises p for us eo t semi u
    using p kw gs_return [OF kw(2) p(2) p(6)] pok_depth [OF s(1)]
    by (cases eo) (auto simp: sgood_expr intro!: exI [of _ "us @ [semi]"])
  done

lemma vc_paren_condition:
  assumes "fuel_ok toks r n s0" "7 \<le> r" "moves toks s0 ts s"
    and Q: "\<And>lp us e rp t. moves toks s0 (ts @ lp # us @ [rp]) t \<Longrightarrow> tk_kind lp = TkLeftParen \<Longrightarrow>
      g_assign us e \<Longrightarrow> tk_kind rp = TkRightParen \<Longrightarrow> good (ps_depth s0) e \<Longrightarrow> Q e t"
  shows "pwp (at_token toks) (paren_condition n keyword) Q s"
  unfolding paren_condition_def pwp_bind pwp_return
  apply (rule vc_consume [OF assms(3)], simp)
  apply (rule vc_expression [OF assms(1,2)], assumption)
  apply (rule vc_consume, assumption, simp)
  subgoal premises p for lp t1 us e t2 rp t
    using p by (intro Q [of lp us rp]) simp_all
  done

lemma vc_for_initializer:
  assumes "fuel_ok toks r n s0" "7 \<le> r" "moves toks s0 ts s"
    and Q: "\<And>us i t. moves toks s0 (ts @ us) t \<Longrightarrow> g_for_init us i \<Longrightarrow>
      (\<forall>x. i = Some x \<longrightarrow> sgood (ps_depth s0) x \<and> slack (ps_depth s0) x) \<Longrightarrow> Q i t"
  shows "pwp (at_token toks) (for_initializer n) Q s"
proof -
  note s = moves_pok [OF assms(3)]
  have f: "fuel_ok toks 7 n t" if "moves toks s0 us t" for us t
    using assms(1) that assms(2) by (rule fuel_moves)
  have e: "pwp (at_token toks) (expression_statement n) (\<lambda>i. Q (Some i)) s"
  proof (rule pwp_mono)
    show "pwp (at_token toks) (expression_statement n) (\<lambda>x t. \<exists>ts. moves toks s ts t \<and> ts \<noteq> [] \<and>
      g_expr_stmt ts x \<and> sgood (ps_depth s) x \<and> slack (ps_depth s) x) s"
      using s f [OF assms(3)] by (intro expr_stmt_ok) auto
  qed (use s moves_trans [OF assms(3)] in \<open>auto intro!: Q gf_expr\<close>)
  show ?thesis
    unfolding for_initializer_def pwp_bind
    apply (rule vc_match [OF assms(3)], simp)
     apply (simp only: if_True pwp_return)
     apply (rule Q, assumption, simp add: gf_none, simp)
    apply (simp only: if_False pwp_bind pwp_return)
    apply (rule vc_match [OF assms(3)], simp)
     apply (simp only: if_True)
    subgoal premises p for kw t
    proof (rule pwp_mono)
      note t = moves_pok [OF p(2)]
      show "pwp (at_token toks) (let_declaration n) (\<lambda>x u. \<exists>ts. moves toks t ts u \<and> g_let (kw # ts) x \<and>
          sgood (ps_depth t) x \<and> slack (ps_depth t) x) t"
        using p t f [OF p(2)] by (intro let_ok) auto
    next
      fix x u
      assume "\<exists>ts. moves toks t ts u \<and> g_let (kw # ts) x \<and> sgood (ps_depth t) x \<and> slack (ps_depth t) x"
      then obtain us where us: "moves toks t us u" "g_let (kw # us) x" "sgood (ps_depth t) x" "slack (ps_depth t) x"
        by blast
      show "Q (Some x) u"
        using moves_trans [OF p(2) us(1)] us moves_pok [OF p(2)] by (intro Q [of "kw # us"] gf_let) simp_all
    qed
    using e by (simp only: if_False)
qed

subsection \<open>The contract of the recursive functions\<close>

definition stmt_post :: "token list \<Rightarrow> pstate \<Rightarrow> token list \<Rightarrow> stmt \<Rightarrow> pstate \<Rightarrow> bool" where
  "stmt_post toks s kws x t \<longleftrightarrow> (\<exists>c ts. moves toks s ts t \<and> kws @ ts \<noteq> [] \<and> g_stmt c (kws @ ts) x \<and>
     (c \<or> \<not> check TkElse t) \<and> sgood (ps_depth s) x)"

definition ok_stmt :: "token list \<Rightarrow> nat \<Rightarrow> bool" where
  "ok_stmt toks n \<longleftrightarrow> (\<forall>s. pok toks s \<longrightarrow> fuel_ok toks 9 n s \<longrightarrow>
     pwp (at_token toks) (statement n) (stmt_post toks s []) s)"

definition ok_nested :: "token list \<Rightarrow> nat \<Rightarrow> bool" where
  "ok_nested toks n \<longleftrightarrow> (\<forall>s. pok toks s \<longrightarrow> fuel_ok toks 10 n s \<longrightarrow>
     pwp (at_token toks) (nested_statement n) (\<lambda>x t. \<exists>c ts. moves toks s ts t \<and> g_stmt c ts x \<and>
       (c \<or> \<not> check TkElse t) \<and> sgood (Suc (ps_depth s)) x \<and> ps_depth s < kMaxNesting) s)"

definition ok_decl :: "token list \<Rightarrow> nat \<Rightarrow> bool" where
  "ok_decl toks n \<longleftrightarrow> (\<forall>s. pok toks s \<longrightarrow> fuel_ok toks 10 n s \<longrightarrow>
     pwp (at_token toks) (p_declaration n) (\<lambda>x t. \<exists>ts. moves toks s ts t \<and> ts \<noteq> [] \<and> g_decl ts x \<and>
       sgood (ps_depth s) x) s)"

definition ok_block_loop :: "token list \<Rightarrow> nat \<Rightarrow> bool" where
  "ok_block_loop toks n \<longleftrightarrow> (\<forall>s0 ts ss s. moves toks s0 ts s \<longrightarrow> fuel_ok toks 11 n s \<longrightarrow> g_decls ts ss \<longrightarrow>
     sgoods (ps_depth s0) ss \<longrightarrow>
     pwp (at_token toks) (block_loop n ss) (\<lambda>ss t. \<exists>ts. moves toks s0 ts t \<and> g_decls ts ss \<and>
       sgoods (ps_depth s0) ss) s)"

definition ok_block :: "token list \<Rightarrow> nat \<Rightarrow> bool" where
  "ok_block toks n \<longleftrightarrow> (\<forall>s. pok toks s \<longrightarrow> fuel_ok toks 12 n s \<longrightarrow>
     pwp (at_token toks) (block_rest n) (\<lambda>ss t. \<exists>ts rb. moves toks s (ts @ [rb]) t \<and> g_decls ts ss \<and>
       tk_kind rb = TkRightBrace \<and> sgoods (Suc (ps_depth s)) ss) s)"

definition ok_fn :: "token list \<Rightarrow> nat \<Rightarrow> bool" where
  "ok_fn toks n \<longleftrightarrow> (\<forall>s kw. pok toks s \<longrightarrow> fuel_ok toks 13 n s \<longrightarrow> p_previous s = kw \<longrightarrow> tk_kind kw = TkFn \<longrightarrow>
     pwp (at_token toks) (function_declaration n) (\<lambda>x t. \<exists>ts. moves toks s ts t \<and> g_decl (kw # ts) x \<and>
       sgood (ps_depth s) x) s)"

definition ok_keyword :: "token list \<Rightarrow> token_kind \<Rightarrow> stmt parser \<Rightarrow> nat \<Rightarrow> bool" where
  "ok_keyword toks k m n \<longleftrightarrow> (\<forall>s kw. pok toks s \<longrightarrow> fuel_ok toks 13 n s \<longrightarrow> p_previous s = kw \<longrightarrow>
     tk_kind kw = k \<longrightarrow> pwp (at_token toks) m (stmt_post toks s [kw]) s)"

definition ok_stmts :: "token list \<Rightarrow> nat \<Rightarrow> bool" where
  "ok_stmts toks n \<longleftrightarrow> ok_stmt toks n \<and> ok_nested toks n \<and> ok_decl toks n \<and> ok_block_loop toks n \<and>
     ok_block toks n \<and> ok_fn toks n \<and> ok_keyword toks TkIf (if_statement n) n \<and>
     ok_keyword toks TkWhile (while_statement n) n \<and> ok_keyword toks TkFor (for_statement n) n"

lemma stmts_zero: "ok_stmts toks 0"
  by (auto simp: ok_stmts_def ok_stmt_def ok_nested_def ok_decl_def ok_block_loop_def ok_block_def
      ok_fn_def ok_keyword_def fuel_zero dest: fuel_zero [OF conjunct1 [OF moves_pok], THEN notE])

lemma fuel_moves_more:
  "fuel_ok toks r (Suc n) s \<Longrightarrow> moves toks s0 ts s \<Longrightarrow> moves toks s0 us t \<Longrightarrow> length ts < length us \<Longrightarrow>
   r' < 16 \<Longrightarrow> fuel_ok toks r' n t"
  using moves_length [of toks s0 ts s] moves_length [of toks s0 us t] moves_pok [of toks s0 ts s]
    fuel_consumed [of toks r n s t r'] by simp

definition names_begun :: "token list \<Rightarrow> sview list \<Rightarrow> bool" where
  "names_begun us names \<longleftrightarrow> names = [] \<and> us = [] \<or>
     (\<exists>vs comma. us = vs @ [comma] \<and> g_names vs names \<and> tk_kind comma = TkComma)"

lemma names_begun_next:
  "names_begun us names \<Longrightarrow> tk_kind x = TkIdentifier \<Longrightarrow> g_names (us @ [x]) (names @ [tk_lexeme x])"
  by (auto simp: names_begun_def intro: g_names.intros)

lemma vc_names:
  assumes "fuel_ok toks 1 n s" "moves toks s0 (ts @ us) s" "names_begun us names"
    and Q: "\<And>us names t. moves toks s0 (ts @ us) t \<Longrightarrow> g_names us names \<Longrightarrow> names \<noteq> [] \<Longrightarrow> Q names t"
  shows "pwp (at_token toks) (name_list n names) Q s"
  using assms(1-3)
proof (induction n arbitrary: s names us)
  case 0
  then show ?case using fuel_zero moves_pok by blast
next
  case (Suc n)
  note g = names_begun_next [OF Suc.prems(3)]
  show ?case
    unfolding name_list.simps pwp_bind
    apply (rule vc_consume [OF Suc.prems(2)], simp)
    apply (rule vc_match, assumption, simp)
    subgoal premises p for x t comma u
    proof -
      have m: "moves toks s0 (ts @ us @ [x, comma]) u" using p(5) by simp
      have f: "fuel_ok toks 1 n u" using Suc.prems(1,2) m by (rule fuel_moves_more) simp_all
      have "names_begun (us @ [x, comma]) (names @ [tk_lexeme x])"
        using g [OF p(2)] p(6) by (auto simp: names_begun_def)
      then show ?thesis using Suc.IH [OF f m] by (simp only: if_True)
    qed
    subgoal premises p for x t
      using Q [of "us @ [x]" t] p(1) g [OF p(2)] by (simp add: pwp_return)
    done
qed

lemma vc_stmt:
  assumes "ok_stmts toks n" "fuel_ok toks 9 n s" "moves toks s0 ts s"
    and Q: "\<And>c us x t. moves toks s0 (ts @ us) t \<Longrightarrow> us \<noteq> [] \<Longrightarrow> g_stmt c us x \<Longrightarrow>
      c \<or> \<not> check TkElse t \<Longrightarrow> sgood (ps_depth s0) x \<Longrightarrow> Q x t"
  shows "pwp (at_token toks) (statement n) Q s"
proof (rule pwp_mono)
  show "pwp (at_token toks) (statement n) (stmt_post toks s []) s"
    using assms(1,2) moves_pok [OF assms(3), THEN conjunct1] by (simp add: ok_stmts_def ok_stmt_def)
next
  fix x t
  assume "stmt_post toks s [] x t"
  then obtain c us where us: "moves toks s us t" "us \<noteq> []" "g_stmt c us x" "c \<or> \<not> check TkElse t" "sgood (ps_depth s) x"
    by (auto simp: stmt_post_def)
  then show "Q x t"
    using moves_pok [OF assms(3)] by (intro Q [OF moves_trans [OF assms(3) us(1)] us(2-4)]) simp
qed

lemma vc_nested:
  assumes "ok_stmts toks n" "fuel_ok toks 10 n s" "moves toks s0 ts s"
    and Q: "\<And>c us x t. moves toks s0 (ts @ us) t \<Longrightarrow> g_stmt c us x \<Longrightarrow> c \<or> \<not> check TkElse t \<Longrightarrow>
      sgood (Suc (ps_depth s0)) x \<Longrightarrow> ps_depth s0 < kMaxNesting \<Longrightarrow> Q x t"
  shows "pwp (at_token toks) (nested_statement n) Q s"
proof (rule pwp_mono)
  show "pwp (at_token toks) (nested_statement n) (\<lambda>x t. \<exists>c ts. moves toks s ts t \<and> g_stmt c ts x \<and>
       (c \<or> \<not> check TkElse t) \<and> sgood (Suc (ps_depth s)) x \<and> ps_depth s < kMaxNesting) s"
    using assms(1,2) moves_pok [OF assms(3), THEN conjunct1] by (simp add: ok_stmts_def ok_nested_def)
next
  fix x t
  assume "\<exists>c ts. moves toks s ts t \<and> g_stmt c ts x \<and> (c \<or> \<not> check TkElse t) \<and> sgood (Suc (ps_depth s)) x \<and>
    ps_depth s < kMaxNesting"
  then obtain c us where us: "moves toks s us t" "g_stmt c us x" "c \<or> \<not> check TkElse t"
    "sgood (Suc (ps_depth s)) x" "ps_depth s < kMaxNesting"
    by blast
  with moves_trans [OF assms(3) us(1)] moves_pok [OF assms(3)] show "Q x t"
    by (intro Q [of us t c x]) simp_all
qed

lemma vc_decl:
  assumes "ok_stmts toks n" "fuel_ok toks 10 n s" "moves toks s0 ts s"
    and Q: "\<And>us x t. moves toks s0 (ts @ us) t \<Longrightarrow> us \<noteq> [] \<Longrightarrow> g_decl us x \<Longrightarrow> sgood (ps_depth s0) x \<Longrightarrow> Q x t"
  shows "pwp (at_token toks) (p_declaration n) Q s"
proof (rule pwp_mono)
  show "pwp (at_token toks) (p_declaration n) (\<lambda>x t. \<exists>ts. moves toks s ts t \<and> ts \<noteq> [] \<and> g_decl ts x \<and>
       sgood (ps_depth s) x) s"
    using assms(1,2) moves_pok [OF assms(3), THEN conjunct1] by (simp add: ok_stmts_def ok_decl_def)
next
  fix x t
  assume "\<exists>ts. moves toks s ts t \<and> ts \<noteq> [] \<and> g_decl ts x \<and> sgood (ps_depth s) x"
  then obtain us where us: "moves toks s us t" "us \<noteq> []" "g_decl us x" "sgood (ps_depth s) x"
    by blast
  with moves_trans [OF assms(3) us(1)] moves_pok [OF assms(3)] show "Q x t"
    by (intro Q [of us t x]) simp_all
qed

lemma vc_block:
  assumes "ok_stmts toks n" "fuel_ok toks 12 n s" "moves toks s0 ts s"
    and Q: "\<And>us rb ss t. moves toks s0 (ts @ us @ [rb]) t \<Longrightarrow> g_decls us ss \<Longrightarrow> tk_kind rb = TkRightBrace \<Longrightarrow>
      sgoods (Suc (ps_depth s0)) ss \<Longrightarrow> Q ss t"
  shows "pwp (at_token toks) (block_rest n) Q s"
proof (rule pwp_mono)
  show "pwp (at_token toks) (block_rest n) (\<lambda>ss t. \<exists>ts rb. moves toks s (ts @ [rb]) t \<and> g_decls ts ss \<and>
       tk_kind rb = TkRightBrace \<and> sgoods (Suc (ps_depth s)) ss) s"
    using assms(1,2) moves_pok [OF assms(3), THEN conjunct1] by (simp add: ok_stmts_def ok_block_def)
next
  fix ss t
  assume "\<exists>ts rb. moves toks s (ts @ [rb]) t \<and> g_decls ts ss \<and> tk_kind rb = TkRightBrace \<and>
    sgoods (Suc (ps_depth s)) ss"
  then obtain us rb where us: "moves toks s (us @ [rb]) t" "g_decls us ss" "tk_kind rb = TkRightBrace"
    "sgoods (Suc (ps_depth s)) ss"
    by blast
  with moves_trans [OF assms(3) us(1)] moves_pok [OF assms(3)] show "Q ss t"
    by (intro Q [of us rb t ss]) simp_all
qed

lemma vc_keyword:
  assumes "ok_keyword toks k m n" "fuel_ok toks 13 n s" "moves toks s0 (ts @ [kw]) s" "p_previous s = kw"
    "tk_kind kw = k"
    and Q: "\<And>c us x t. moves toks s0 (ts @ kw # us) t \<Longrightarrow> g_stmt c (kw # us) x \<Longrightarrow> c \<or> \<not> check TkElse t \<Longrightarrow>
      sgood (ps_depth s0) x \<Longrightarrow> Q x t"
  shows "pwp (at_token toks) m Q s"
proof (rule pwp_mono)
  show "pwp (at_token toks) m (stmt_post toks s [kw]) s"
    using assms(1,2,4,5) moves_pok [OF assms(3), THEN conjunct1] unfolding ok_keyword_def by blast
next
  fix x t
  assume "stmt_post toks s [kw] x t"
  then obtain c us where us: "moves toks s us t" "g_stmt c (kw # us) x" "c \<or> \<not> check TkElse t"
    "sgood (ps_depth s) x"
    by (auto simp: stmt_post_def)
  with moves_trans [OF assms(3) us(1)] moves_pok [OF assms(3)] show "Q x t"
    by (intro Q [of us t c x]) simp_all
qed


lemma vc_plain:
  assumes "pwp (at_token toks) m (\<lambda>x t. \<exists>ts. moves toks s ts t \<and> g_stmt True (kw # ts) x \<and> sgood (ps_depth s) x) s"
    "moves toks s0 (ts @ [kw]) s"
    and Q: "\<And>us x t. moves toks s0 (ts @ kw # us) t \<Longrightarrow> g_stmt True (kw # us) x \<Longrightarrow>
      sgood (ps_depth s0) x \<Longrightarrow> Q x t"
  shows "pwp (at_token toks) m Q s"
proof (rule pwp_mono [OF assms(1)])
  fix x t
  assume "\<exists>ts. moves toks s ts t \<and> g_stmt True (kw # ts) x \<and> sgood (ps_depth s) x"
  then obtain us where us: "moves toks s us t" "g_stmt True (kw # us) x" "sgood (ps_depth s) x"
    by blast
  with moves_trans [OF assms(2) us(1)] moves_pok [OF assms(2)] show "Q x t"
    by (intro Q [of us t x]) simp_all
qed


subsection \<open>Every function keeps its contract\<close>

lemma sgood_parts:
  "good d c \<Longrightarrow> sgood (Suc d) t \<Longrightarrow> sgood d (SIf c t None l)"
  "good d c \<Longrightarrow> sgood (Suc d) t \<Longrightarrow> sgood (Suc d) e \<Longrightarrow> sgood d (SIf c t (Some e) l)"
  "good d c \<Longrightarrow> sgood (Suc d) t \<Longrightarrow> sgood d (SWhile c t l)"
  "sgoods (Suc d) ss \<Longrightarrow> sgood d (SBlock ss l)"
  "sgoods (Suc d) ss \<Longrightarrow> sgood d (SFunction f ps ss bl l)"
  "sgoods d ss \<Longrightarrow> sgood d s \<Longrightarrow> sgoods d (ss @ [s])"
  "d \<le> kMaxNesting \<Longrightarrow> sgoods d []"
  by (auto simp: good_def sgood_def sgoods_def kMaxNesting_def)

lemma sgood_for:
  assumes "\<forall>x. i = Some x \<longrightarrow> sgood d x \<and> slack d x" "\<forall>e. co = Some e \<longrightarrow> good d e" "\<forall>e. no = Some e \<longrightarrow> good d e"
    "sgood (Suc d) b" "d < kMaxNesting"
  shows "sgood d (for_desugared i co no il b l)"
proof -
  obtain c where c: "(case co of Some c \<Rightarrow> c | None \<Rightarrow> ELiteral (LitBool True) l) = c" "good d c"
    using assms(2,5) by (cases co) (auto simp: good_def)
  show ?thesis
    using assms(1,3,4,5) c(2) unfolding for_desugared_def Let_def c(1)
    by (cases i; cases no) (auto simp: good_def sgood_def slack_def kMaxNesting_def)
qed

lemma stmt_ok: "ok_stmts toks n \<Longrightarrow> ok_stmt toks (Suc n)"
  unfolding ok_stmt_def
proof (intro allI impI)
  fix s
  assume ih: "ok_stmts toks n" and s: "pok toks s" "fuel_ok toks 9 (Suc n) s"
  note m0 = moves_refl [OF s(1)]
  note k = ih [unfolded ok_stmts_def]
  have f: "fuel_ok toks r n t" if "moves toks s [kw] t" "r < 16" for kw t r
    using s(2) m0 that(1) _ that(2) by (rule fuel_moves_more) simp
  have post: "stmt_post toks s [] x t" if "moves toks s us t" "us \<noteq> []" "g_stmt c us x"
    "c \<or> \<not> check TkElse t" "sgood (ps_depth s) x" for c us x t
    using that by (auto simp: stmt_post_def)
  show "pwp (at_token toks) (statement (Suc n)) (stmt_post toks s []) s"
    unfolding statement.simps pwp_bind
    apply (rule vc_match [OF m0], simp)
    subgoal premises p for kw t
      using p moves_pok [OF p(1)] f [of kw t 7]
      by (simp add: pwp_bind) (rule vc_plain [OF print_ok, where ts = "[]"], auto intro: post)
    apply (simp only: if_False pwp_bind)
    apply (rule vc_match [OF m0], simp)
    subgoal premises p for kw t
      using p k f [of kw t 13]
      by simp (rule vc_keyword [where ts = "[]" and kw = kw and k = TkIf], auto intro: post)
    apply (simp only: if_False pwp_bind)
    apply (rule vc_match [OF m0], simp)
    subgoal premises p for kw t
      using p k f [of kw t 13]
      by simp (rule vc_keyword [where ts = "[]" and kw = kw and k = TkWhile], auto intro: post)
    apply (simp only: if_False pwp_bind)
    apply (rule vc_match [OF m0], simp)
    subgoal premises p for kw t
      using p k f [of kw t 13]
      by simp (rule vc_keyword [where ts = "[]" and kw = kw and k = TkFor], auto intro: post)
    apply (simp only: if_False pwp_bind)
    apply (rule vc_match [OF m0], simp)
    subgoal premises p for kw t
      using p moves_pok [OF p(5)] f [of kw t 7]
      by (simp add: pwp_bind) (rule vc_plain [OF return_ok, where ts = "[]"], auto intro: post)
    apply (simp only: if_False pwp_bind)
    apply (rule vc_match [OF m0], simp)
    subgoal premises p for lb t
      apply (simp only: if_True pwp_bind pwp_get pwp_return)
      apply (rule vc_block [OF ih f p(6)], use p in simp, simp)
      apply (rule post, assumption, simp)
        apply (use p in \<open>auto simp: previous_line_def sgood_parts intro: gs_block\<close>)
      done
    subgoal premises p
    proof -
      have f7: "fuel_ok toks 7 n s" using s(2) by (rule fuel_step) simp_all
      show ?thesis
        unfolding if_False
        by (rule pwp_mono [OF expr_stmt_ok [OF s(1) f7]]) (auto intro: post gs_expr)
    qed
    done
qed


lemma moves_enter:
  "moves toks (s\<lparr>ps_depth := d\<rparr>) ts t \<Longrightarrow> pok toks s \<Longrightarrow> d' = ps_depth s \<Longrightarrow> moves toks s ts (t\<lparr>ps_depth := d'\<rparr>)"
  by (auto simp: moves_def adv_def pok_def)

lemma nested_ok: "ok_stmts toks n \<Longrightarrow> ok_nested toks (Suc n)"
  unfolding ok_nested_def
proof (intro allI impI)
  fix s
  assume ih: "ok_stmts toks n" and s: "pok toks s" "fuel_ok toks 10 (Suc n) s"
  let ?u = "s\<lparr>ps_depth := ps_depth s + 1\<rparr>"
  show "pwp (at_token toks) (nested_statement (Suc n)) (\<lambda>x t. \<exists>c ts. moves toks s ts t \<and> g_stmt c ts x \<and>
       (c \<or> \<not> check TkElse t) \<and> sgood (Suc (ps_depth s)) x \<and> ps_depth s < kMaxNesting) s"
  proof (cases "kMaxNesting < ps_depth s + 1")
    case True
    then show ?thesis using s(1) by (simp add: pwp_nest)
  next
    case False
    have u: "pok toks ?u" using pok_nest [OF s(1) False] .
    have f: "fuel_ok toks 9 n ?u" using s(2) by (rule fuel_step) simp_all
    show ?thesis
      unfolding nested_statement.simps pwp_nest
      apply (simp only: False if_False)
      apply (rule vc_stmt [OF ih f moves_refl [OF u]])
      subgoal premises p for c us x t
      proof -
        have d: "ps_depth t = Suc (ps_depth s)" using moves_pok [OF p(1)] by simp
        have "moves toks s us (t\<lparr>ps_depth := ps_depth t - 1\<rparr>)"
          using moves_enter [where s = s and t = t and ts = us and d' = "ps_depth t - 1"] p(1) s(1) d by simp
        then show ?thesis using p(3-5) False by auto
      qed
      done
  qed
qed

lemma decl_ok: "ok_stmts toks n \<Longrightarrow> ok_decl toks (Suc n)"
  unfolding ok_decl_def
proof (intro allI impI)
  fix s
  assume ih: "ok_stmts toks n" and s: "pok toks s" "fuel_ok toks 10 (Suc n) s"
  note m0 = moves_refl [OF s(1)]
  have f: "fuel_ok toks r n t" if "moves toks s [kw] t" "r < 16" for kw t r
    using s(2) m0 that(1) _ that(2) by (rule fuel_moves_more) simp
  let ?Q = "\<lambda>x t. \<exists>ts. moves toks s ts t \<and> ts \<noteq> [] \<and> g_decl ts x \<and> sgood (ps_depth s) x"
  show "pwp (at_token toks) (p_declaration (Suc n)) ?Q s"
    unfolding p_declaration.simps pwp_bind
    apply (rule vc_match [OF m0], simp)
    subgoal premises p for kw t
    proof -
      note m = p(1) [simplified] moves_pok [OF p(1)]
      have "ok_fn toks n" using ih by (simp add: ok_stmts_def)
      moreover have "fuel_ok toks 13 n t" by (rule f [OF m(1)]) simp
      ultimately have "pwp (at_token toks) (function_declaration n)
          (\<lambda>x u. \<exists>ts. moves toks t ts u \<and> g_decl (kw # ts) x \<and> sgood (ps_depth t) x) t"
        using m(2) p(2,3) unfolding ok_fn_def by blast
      then show ?thesis
        unfolding if_True by (rule pwp_mono) (use moves_trans [OF m(1)] m(2) in fastforce)
    qed
    apply (simp only: if_False pwp_bind)
    apply (rule vc_match [OF m0], simp)
    subgoal premises p for kw t
    proof -
      note m = p(2) [simplified] moves_pok [OF p(2)]
      have "pwp (at_token toks) (let_declaration n) (\<lambda>x u. \<exists>ts. moves toks t ts u \<and> g_let (kw # ts) x \<and>
          sgood (ps_depth t) x \<and> slack (ps_depth t) x) t"
        using f [OF m(1), of 7] m(2) p(3,4) by (intro let_ok) auto
      then show ?thesis
        unfolding if_True by (rule pwp_mono) (use moves_trans [OF m(1)] m(2) gd_let in fastforce)
    qed
    subgoal premises p
      unfolding if_False
      apply (rule vc_stmt [OF ih _ m0])
      subgoal using s(2) by (rule fuel_step) simp_all
      subgoal using gd_stmt by auto
      done
    done
qed

lemma block_loop_ok: "ok_stmts toks n \<Longrightarrow> ok_block_loop toks (Suc n)"
  unfolding ok_block_loop_def
proof (intro allI impI)
  fix s0 ts ss s
  assume ih: "ok_stmts toks n" and m: "moves toks s0 ts s" and f: "fuel_ok toks 11 (Suc n) s"
    and g: "g_decls ts ss" "sgoods (ps_depth s0) ss"
  let ?Q = "\<lambda>ss t. \<exists>ts. moves toks s0 ts t \<and> g_decls ts ss \<and> sgoods (ps_depth s0) ss"
  show "pwp (at_token toks) (block_loop (Suc n) ss) ?Q s"
  proof (cases "\<not> check TkRightBrace s \<and> \<not> check TkEof s")
    case False
    then show ?thesis using m g by (auto simp: pwp_bind pwp_get pwp_return)
  next
    case True
    have f10: "fuel_ok toks 10 n s" using f by (rule fuel_step) simp_all
    show ?thesis
      unfolding block_loop.simps pwp_bind pwp_get
      apply (simp only: True simp_thms if_True pwp_bind)
      apply (rule vc_decl [OF ih f10 m])
      subgoal premises p for us x t
      proof -
        have "fuel_ok toks 11 n t" using f m p(1) by (rule fuel_moves_more) (use p(2) in auto)
        moreover have "ok_block_loop toks n" using ih by (simp add: ok_stmts_def)
        moreover have "g_decls (ts @ us) (ss @ [x])" using g(1) p(3) by (rule gds_snoc)
        moreover have "sgoods (ps_depth s0) (ss @ [x])" using g(2) p(4) by (rule sgood_parts)
        ultimately show ?thesis using p(1) unfolding ok_block_loop_def by blast
      qed
      done
  qed
qed

lemma block_ok: "ok_stmts toks n \<Longrightarrow> ok_block toks (Suc n)"
  unfolding ok_block_def
proof (intro allI impI)
  fix s
  assume ih: "ok_stmts toks n" and s: "pok toks s" "fuel_ok toks 12 (Suc n) s"
  let ?u = "s\<lparr>ps_depth := ps_depth s + 1\<rparr>"
  let ?Q = "\<lambda>ss t. \<exists>ts rb. moves toks s (ts @ [rb]) t \<and> g_decls ts ss \<and> tk_kind rb = TkRightBrace \<and>
    sgoods (Suc (ps_depth s)) ss"
  show "pwp (at_token toks) (block_rest (Suc n)) ?Q s"
  proof (cases "kMaxNesting < ps_depth s + 1")
    case True
    then show ?thesis using s(1) by (simp add: pwp_nest)
  next
    case False
    have u: "pok toks ?u" using pok_nest [OF s(1) False] .
    have f: "fuel_ok toks 11 n ?u" using s(2) by (rule fuel_step) simp_all
    have "sgoods (ps_depth ?u) []" using u by (intro sgood_parts) (simp add: pok_def)
    moreover have "ok_block_loop toks n" using ih by (simp add: ok_stmts_def)
    ultimately have l: "pwp (at_token toks) (block_loop n []) (\<lambda>ss t. \<exists>ts. moves toks ?u ts t \<and> g_decls ts ss \<and>
       sgoods (ps_depth ?u) ss) ?u"
      using moves_refl [OF u] f gds_nil unfolding ok_block_loop_def by blast
    show ?thesis
      unfolding block_rest.simps pwp_nest pwp_bind pwp_return
      apply (simp only: False if_False)
      apply (rule pwp_mono [OF l])
      apply (elim exE conjE)
      apply (rule vc_consume, assumption, simp)
      subgoal premises p for ss t ts rb w
      proof -
        have d: "ps_depth w = Suc (ps_depth s)" using moves_pok [OF p(4)] by simp
        have "moves toks s (ts @ [rb]) (w\<lparr>ps_depth := ps_depth w - 1\<rparr>)"
          using moves_enter [where s = s and t = w and ts = "ts @ [rb]" and d' = "ps_depth w - 1"] p(4) s(1) d by simp
        then show ?thesis using p by auto
      qed
      done
  qed
qed


lemma keyword_post:
  "moves toks s ts t \<Longrightarrow> g_stmt c (kw # ts) x \<Longrightarrow> c \<or> \<not> check TkElse t \<Longrightarrow> sgood (ps_depth s) x \<Longrightarrow>
   stmt_post toks s [kw] x t"
  by (auto simp: stmt_post_def)

lemma while_ok: "ok_stmts toks n \<Longrightarrow> ok_keyword toks TkWhile (while_statement (Suc n)) (Suc n)"
  unfolding ok_keyword_def
proof (intro allI impI)
  fix s kw
  assume ih: "ok_stmts toks n" and s: "pok toks s" "fuel_ok toks 13 (Suc n) s"
    and kw: "p_previous s = kw" "tk_kind kw = TkWhile"
  have f: "fuel_ok toks 12 n s" using s(2) by (rule fuel_step) simp_all
  have f10: "fuel_ok toks 10 n t" if "moves toks s us t" for us t using f that by (rule fuel_moves) simp
  show "pwp (at_token toks) (while_statement (Suc n)) (stmt_post toks s [kw]) s"
    unfolding while_statement.simps pwp_bind pwp_get pwp_return previous_line_def kw(1)
    apply (rule vc_paren_condition [OF f _ moves_refl [OF s(1)]], simp)
    subgoal premises c for lp us e rp t
      apply (rule vc_nested [OF ih f10 [OF c(1)] c(1)])
      subgoal premises p for cl vs x u
        using p(3) sgood_parts(3) [OF c(5) p(4)] gs_while [OF kw(2) c(2,3,4) p(2)] p(1)
        by (intro keyword_post) simp_all
      done
    done
qed

lemma if_ok: "ok_stmts toks n \<Longrightarrow> ok_keyword toks TkIf (if_statement (Suc n)) (Suc n)"
  unfolding ok_keyword_def
proof (intro allI impI)
  fix s kw
  assume ih: "ok_stmts toks n" and s: "pok toks s" "fuel_ok toks 13 (Suc n) s"
    and kw: "p_previous s = kw" "tk_kind kw = TkIf"
  have f: "fuel_ok toks 12 n s" using s(2) by (rule fuel_step) simp_all
  have f10: "fuel_ok toks 10 n t" if "moves toks s us t" for us t using f that by (rule fuel_moves) simp
  show "pwp (at_token toks) (if_statement (Suc n)) (stmt_post toks s [kw]) s"
    unfolding if_statement.simps pwp_bind pwp_get pwp_return previous_line_def kw(1)
    apply (rule vc_paren_condition [OF f _ moves_refl [OF s(1)]], simp)
    subgoal premises c for lp us e rp t
      apply (rule vc_nested [OF ih f10 [OF c(1)] c(1)])
      subgoal premises p for cl vs x u
        apply (rule vc_match [OF p(1)], simp)
        subgoal premises q for el w
          unfolding if_True pwp_bind pwp_return
          apply (rule vc_nested [OF ih f10 [OF q(1)] q(1)])
          subgoal premises r for cl' ws y v
            using p(3) q(4) sgood_parts(2) [OF c(5) p(4) r(4)] r(1,3)
              gs_if_else [OF kw(2) c(2,3,4) _ q(2) r(2), of vs x] p(2)
            by (intro keyword_post) auto
          done
        subgoal premises q
          unfolding if_False pwp_return
          using p(1) sgood_parts(1) [OF c(5) p(4)] gs_if [OF kw(2) c(2,3,4) p(2)] q
          by (intro keyword_post) simp_all
        done
      done
    done
qed

lemma for_ok: "ok_stmts toks n \<Longrightarrow> ok_keyword toks TkFor (for_statement (Suc n)) (Suc n)"
  unfolding ok_keyword_def
proof (intro allI impI)
  fix s kw
  assume ih: "ok_stmts toks n" and s: "pok toks s" "fuel_ok toks 13 (Suc n) s"
    and kw: "p_previous s = kw" "tk_kind kw = TkFor"
  have f: "fuel_ok toks 12 n s" using s(2) by (rule fuel_step) simp_all
  have f10: "fuel_ok toks 10 n t" if "moves toks s us t" for us t using f that by (rule fuel_moves) simp
  show "pwp (at_token toks) (for_statement (Suc n)) (stmt_post toks s [kw]) s"
    unfolding for_statement.simps pwp_bind pwp_get pwp_return previous_line_def kw(1)
    apply (rule vc_consume [OF moves_refl [OF s(1)]], simp)
    apply (rule vc_for_initializer [OF f], simp, assumption)
    apply (rule vc_unless_check [OF f], simp, assumption)
    apply (rule vc_consume, assumption, simp)
    apply (rule vc_unless_check [OF f], simp, assumption)
    apply (rule vc_consume, assumption, simp)
    subgoal premises p for lp t1 us i t2 cs co t3 semi t4 ns no t5 rp t6
      apply (rule vc_nested [OF ih f10 [OF p(20)] p(20)])
      subgoal premises q for c ts x u
      proof -
        have il: "tk_line (p_peek t4) = tk_line (hd (ns @ [rp]))"
          using p(18,19,23) by (cases no) auto
        have "sgood (ps_depth s) (for_desugared i co no (tk_line (p_peek t4)) x (tk_line kw))"
          using p(7,10,18) q(4,5) by (intro sgood_for) auto
        moreover have "g_stmt c (kw # lp # us @ cs @ semi # ns @ rp # ts)
            (for_desugared i co no (tk_line (p_peek t4)) x (tk_line kw))"
          unfolding il using p(2,6,9,13,17,21) q(2) by (intro gs_for kw(2))
        ultimately show ?thesis using q(1,3) by (intro keyword_post [where ts = "lp # us @ cs @ semi # ns @ rp # ts"]) simp_all
      qed
      done
    done
qed


lemma fn_ok: "ok_stmts toks n \<Longrightarrow> ok_fn toks (Suc n)"
  unfolding ok_fn_def
proof (intro allI impI)
  fix s kw
  assume ih: "ok_stmts toks n" and s: "pok toks s" "fuel_ok toks 13 (Suc n) s"
    and kw: "p_previous s = kw" "tk_kind kw = TkFn"
  have f: "fuel_ok toks 12 n s" using s(2) by (rule fuel_step) simp_all
  have fu: "fuel_ok toks r n t" if "moves toks s us t" "r \<le> 12" for us t r using f that by (rule fuel_moves)
  let ?Q = "\<lambda>x t. \<exists>ts. moves toks s ts t \<and> g_decl (kw # ts) x \<and> sgood (ps_depth s) x"
  show "pwp (at_token toks) (function_declaration (Suc n)) ?Q s"
    unfolding function_declaration.simps pwp_bind pwp_get pwp_return previous_line_def kw(1)
    apply (rule vc_consume [OF moves_refl [OF s(1)]], simp)
    apply (rule vc_consume, assumption, simp)
    subgoal premises h for name t lp u
    proof -
      let ?E = "at_token toks"
      have rest: "pwp ?E (consume TkRightParen msg) (\<lambda>_. pwp ?E (consume TkLeftBrace msg') (\<lambda>_ t.
          pwp ?E (block_rest n) (\<lambda>body. ?Q (SFunction (tk_lexeme name) ps body (tk_line (p_previous t)) (tk_line kw))) t)) w"
        if m: "moves toks s ([name, lp] @ us) w" and ps: "if ps = [] then us = [] else g_names us ps" for w us ps msg msg'
        apply (rule vc_consume [OF m], simp)
        apply (rule vc_consume, assumption, simp)
        subgoal premises p for rp a lb b
          apply (rule vc_block [OF ih fu [OF p(5)] p(5)], simp)
          subgoal premises q for ts rb body c
            using q(1) p(7) sgood_parts(5) [OF q(4)] gd_fn [OF kw(2) h(2,6) ps p(2,6) q(2,3)]
            by (intro exI [of _ "name # lp # us @ rp # lb # ts @ [rb]"]) simp
          done
        done
      show ?thesis
      proof (cases "check TkRightParen u")
        case True
        then show ?thesis
          using rest [of "[]" u "[]"] h(5) by (simp add: pwp_return)
      next
        case False
        show ?thesis
          apply (simp only: False not_False_eq_True if_True)
          apply (rule vc_names [where us = "[]" and ts = "[name, lp]" and ?s0.0 = s])
             apply (rule fu [OF h(5)], simp)
          using h(5) apply simp
           apply (simp add: names_begun_def)
          apply (rule rest, assumption, simp)
          done
      qed
    qed
    done
qed

lemma stmts_ok: "ok_stmts toks n"
proof (induction n)
  case 0
  show ?case by (rule stmts_zero)
next
  case (Suc n)
  then show ?case
    using stmt_ok nested_ok decl_ok block_loop_ok block_ok fn_ok if_ok while_ok for_ok
    unfolding ok_stmts_def [of toks "Suc n"] by blast
qed

lemma program_ok:
  "moves toks s0 ts s \<Longrightarrow> fuel_ok toks 11 n s \<Longrightarrow> g_decls ts ss \<Longrightarrow> sgoods (ps_depth s0) ss \<Longrightarrow>
   pwp (at_token toks) (parse_program n ss)
     (\<lambda>ss t. \<exists>ts. moves toks s0 ts t \<and> check TkEof t \<and> g_decls ts ss \<and> sgoods (ps_depth s0) ss) s"
proof (induction n arbitrary: s ts ss)
  case 0
  then show ?case using fuel_zero moves_pok by blast
next
  case (Suc n)
  show ?case
  proof (cases "check TkEof s")
    case True
    then show ?thesis using Suc.prems by (auto simp: pwp_bind pwp_get pwp_return)
  next
    case False
    have f: "fuel_ok toks 10 n s" using Suc.prems(2) by (rule fuel_step) simp_all
    show ?thesis
      unfolding parse_program.simps pwp_bind pwp_get
      apply (simp only: False not_False_eq_True if_True pwp_bind)
      apply (rule vc_decl [OF stmts_ok f Suc.prems(1)])
      subgoal premises p for us x t
      proof (rule Suc.IH [OF p(1)])
        show "fuel_ok toks 11 n t"
          using Suc.prems(2,1) p(1) by (rule fuel_moves_more) (use p(2) in auto)
        show "g_decls (ts @ us) (ss @ [x])" using Suc.prems(3) p(3) by (rule gds_snoc)
        show "sgoods (ps_depth s0) (ss @ [x])" using Suc.prems(4) p(4) by (rule sgood_parts)
      qed
      done
  qed
qed

subsection \<open>Parsing what a lexer delivers\<close>

text \<open>
  What the parser needs of the tokens it is given: they end with the only end-of-file token. The
  lexer's runs provide it.
\<close>

locale token_source =
  fixes tokens_of :: "string \<Rightarrow> token list option"
  assumes one_eof: "tokens_of src = Some ts \<Longrightarrow>
    \<exists>us eof. ts = us @ [eof] \<and> tk_kind eof = TkEof \<and> TkEof \<notin> tk_kind ` set us"
begin

lemma stream: "tokens_of src = Some ts \<Longrightarrow> stream_ok ts"
  using one_eof [of src ts] by (auto simp: stream_ok_def)

lemma program_wp:
  assumes "tokens_of src = Some ts"
  shows "pwp (at_token ts) (parse_program (parse_fuel ts) [])
    (\<lambda>ss t. \<exists>us eof. ts = us @ [eof] \<and> tk_kind eof = TkEof \<and> g_decls us ss \<and> sgoods 0 ss) (init_pstate ts)"
proof -
  obtain us eof where ts: "ts = us @ [eof]" "tk_kind eof = TkEof" "TkEof \<notin> tk_kind ` set us"
    using one_eof [OF assms] by blast
  let ?s = "init_pstate ts"
  have p: "pok ts ?s" using stream [OF assms] by (simp add: pok_def init_pstate_def stream_ok_def)
  have f: "fuel_ok ts 11 (parse_fuel ts) ?s" by (simp add: fuel_ok_def parse_fuel_def init_pstate_def)
  have g: "sgoods (ps_depth ?s) []" by (simp add: sgoods_def init_pstate_def)
  show ?thesis
  proof (rule pwp_mono [OF program_ok [OF moves_refl [OF p] f gds_nil g]], elim exE conjE)
    fix ss t vs
    assume m: "moves ts ?s vs t" "check TkEof t" "g_decls vs ss" "sgoods (ps_depth ?s) ss"
    have t: "ps_pos t < length ts" "ps_tokens t = ts" "vs = seg ts 0 (ps_pos t)"
      using m(1) by (auto simp: moves_def adv_def pok_def init_pstate_def)
    have "ps_pos t = length us"
    proof (rule ccontr)
      assume "ps_pos t \<noteq> length us"
      then have "ps_pos t < length us" using t(1) ts(1) by simp
      then have "p_peek t \<in> set us" using t(2) ts(1) by (simp add: p_peek_def nth_append)
      then have "tk_kind (p_peek t) \<in> tk_kind ` set us" by (rule imageI)
      then show False using m(2) ts(3) by (simp add: check_def)
    qed
    then have "vs = us" using t(3) ts(1) by (simp add: seg_def)
    then show "\<exists>us eof. ts = us @ [eof] \<and> tk_kind eof = TkEof \<and> g_decls us ss \<and> sgoods 0 ss"
      using m(3,4) ts(1,2) by (auto simp: init_pstate_def)
  qed
qed

end

lemma tiles_one_eof:
  "tiles src p ts \<Longrightarrow> \<exists>us eof. ts = us @ [eof] \<and> tk_kind eof = TkEof \<and> TkEof \<notin> tk_kind ` set us"
proof (induction ts arbitrary: p)
  case Nil
  then show ?case by simp
next
  case (Cons t ts)
  show ?case
  proof (cases "ts = []")
    case True
    then show ?thesis using Cons.prems by auto
  next
    case False
    then have "tk_kind t \<noteq> TkEof" using Cons.prems by simp
    moreover have "tiles src (sv_start (tk_lexeme t) + length (sv_text (tk_lexeme t))) ts"
      using Cons.prems False by simp
    from Cons.IH [OF this] obtain us eof
      where "ts = us @ [eof] \<and> tk_kind eof = TkEof \<and> TkEof \<notin> tk_kind ` set us" by blast
    ultimately show ?thesis by (intro exI [of _ "t # us"] exI [of _ eof]) auto
  qed
qed

definition lexed_tokens :: "string \<Rightarrow> token list option" where
  "lexed_tokens src = (if lr_error (lex src) = None then Some (lr_tokens (lex src)) else None)"

lemma lex_ok_tiles: "lr_error (lex src) = None \<Longrightarrow> tiles src 0 (lr_tokens (lex src))"
  using lex_loop_tiles [OF lx_ok_init, of src] by (auto simp: lex_def Let_def init_lexer_def)

interpretation lexed: token_source lexed_tokens
  by unfold_locales (auto simp: lexed_tokens_def dest!: lex_ok_tiles tiles_one_eof split: if_splits)

lemma parse_wp:
  assumes "lr_error (lex src) = None"
  defines "ts \<equiv> lr_tokens (lex src)"
  shows "(\<exists>ss us eof. parse src = Ok \<lparr>pr_source = src, pr_tokens = ts, pr_statements = ss\<rparr> \<and>
      ts = us @ [eof] \<and> tk_kind eof = TkEof \<and> g_decls us ss \<and> sgoods 0 ss) \<or>
    (\<exists>e. parse src = Error e \<and> at_token ts (ce_line e))"
proof -
  have "lexed_tokens src = Some ts" using assms by (simp add: lexed_tokens_def)
  from lexed.program_wp [OF this] show ?thesis
    using assms(1) by (auto simp: pwp_def parse_def Let_def ts_def split: outcome.splits)
qed

subsection \<open>Properties\<close>

text \<open>C2. The parser always returns: its fuel never runs out, whatever the source.\<close>

theorem parse_total: "parse src \<noteq> Timeout"
proof (cases "lr_error (lex src)")
  case None
  then show ?thesis using parse_wp [of src] by auto
next
  case (Some e)
  then show ?thesis by (simp add: parse_def Let_def)
qed

text \<open>C3. A program the parser accepts derives, in the unambiguous grammar, from exactly the
  tokens of its source before the end-of-file token.\<close>

theorem parse_derives:
  assumes "parse src = Ok p"
  shows "pr_source p = src \<and> pr_tokens p = lr_tokens (lex src) \<and>
    (\<exists>ts eof. pr_tokens p = ts @ [eof] \<and> tk_kind eof = TkEof \<and> g_decls ts (pr_statements p))"
proof -
  have "lr_error (lex src) = None" using assms by (cases "lr_error (lex src)") (simp_all add: parse_def Let_def)
  from parse_wp [OF this] assms show ?thesis by auto
qed

theorem parse_derives_witness:
  "\<exists>ts eof. lr_tokens (lex ''x=1;'') = ts @ [eof] \<and> tk_kind eof = TkEof \<and>
    g_decls ts [SExpr (EAssign \<lparr>sv_start = 0, sv_text = ''x''\<rparr> (ELiteral (LitInt 1) 1) Unresolved 1) 1]"
proof -
  let ?e = "EAssign \<lparr>sv_start = 0, sv_text = ''x''\<rparr> (ELiteral (LitInt 1) 1) Unresolved 1"
  have "parse ''x=1;'' = Ok \<lparr>pr_source = ''x=1;'', pr_tokens = lr_tokens (lex ''x=1;''), pr_statements = [SExpr ?e 1]\<rparr>"
    by code_simp
  from parse_derives [OF this] show ?thesis by simp
qed

text \<open>C4. An accepted program keeps the limits the later passes rely on: chains of at most 1000
  links, nesting of at most 200 in an expression and 601 in the (desugared) statements, and no
  binding resolved yet.\<close>

theorem parse_limits:
  assumes "parse src = Ok p"
  shows "(\<forall>e\<in>set (sexprss (pr_statements p)). eheight e \<le> kMaxChain \<and> enest e \<le> kMaxNesting) \<and>
    snests (pr_statements p) \<le> 3 * kMaxNesting + 1 \<and> set (sbindingss (pr_statements p)) \<subseteq> {Unresolved}"
proof -
  have "lr_error (lex src) = None" using assms by (cases "lr_error (lex src)") (simp_all add: parse_def Let_def)
  from parse_wp [OF this] assms show ?thesis by (auto simp: sgoods_def)
qed

theorem parse_limits_witness: "snests [SPrint (EUnary UNegate (EVariable \<lparr>sv_start = 7, sv_text = ''a''\<rparr> Unresolved 1) 1) 1] \<le> 601"
proof -
  let ?ss = "[SPrint (EUnary UNegate (EVariable \<lparr>sv_start = 7, sv_text = ''a''\<rparr> Unresolved 1) 1) 1]"
  have "parse ''print -a;'' = Ok \<lparr>pr_source = ''print -a;'', pr_tokens = lr_tokens (lex ''print -a;''), pr_statements = ?ss\<rparr>"
    by code_simp
  from parse_limits [OF this] show ?thesis by (simp add: kMaxNesting_def)
qed

text \<open>C5. A compile error of the parser carries the line of one of the tokens.\<close>

theorem parse_error_line:
  assumes "parse src = Error e"
  shows "lr_error (lex src) = Some e \<or> ce_line e \<in> tk_line ` set (lr_tokens (lex src))"
proof (cases "lr_error (lex src)")
  case None
  then show ?thesis using parse_wp [OF None] assms by (auto simp: at_token_def)
next
  case (Some x)
  then show ?thesis using assms by (simp add: parse_def Let_def)
qed

theorem parse_error_line_witness:
  "ce_line \<lparr>ce_line = 2, ce_message = ''expected expression''\<rparr> \<in> tk_line ` set (lr_tokens (lex (''x='' @ [newline] @ '';'')))"
proof -
  have "parse (''x='' @ [newline] @ '';'') = Error \<lparr>ce_line = 2, ce_message = ''expected expression''\<rparr>" by code_simp
  from parse_error_line [OF this] show ?thesis
    by (rule disjE) (code_simp, assumption)
qed

end
