(* ===== verification/Resolver.thy ===== *)
theory Resolver
  imports Ast
begin

text \<open>
  \<open>resolver.cpp\<close>: one walk over the tree that reports the static errors and fills in the bindings.
  The state is the class's: the stack of local scopes and the stack of functions (innermost first
  here, so \<open>back()\<close> is the head and hops count from the head), and the next declaration id. A
  thrown \<open>ResolveAbort\<close> is an \<open>Inl\<close>. Each \<open>visit\<close> returns the node with its bindings filled in.
\<close>

subsection \<open>The state\<close>

definition kMaxLocalLimit :: nat where "kMaxLocalLimit = 255"

record local_var =
  lc_defined :: bool
  lc_id :: nat

record scope =
  sc_names :: "(string \<times> local_var) list"
  sc_level :: nat

record function_state =
  fs_live :: int
  fs_captured :: "nat list"

record rstate =
  rs_scopes :: "scope list"
  rs_functions :: "function_state list"
  rs_next_id :: nat

type_synonym 'a rresult = "compile_error + ('a \<times> rstate)"

definition init_rstate :: rstate where
  "init_rstate =
     \<lparr>rs_scopes = [], rs_functions = [\<lparr>fs_live = 0, fs_captured = []\<rparr>], rs_next_id = 0\<rparr>"

definition rfail :: "nat \<Rightarrow> string \<Rightarrow> 'a rresult" where
  "rfail l msg = Inl \<lparr>ce_line = l, ce_message = msg\<rparr>"

definition line_of :: "string \<Rightarrow> sview \<Rightarrow> nat" where
  "line_of src name = Suc (length (filter (\<lambda>c. c = newline) (take (sv_start name) src)))"

text \<open>An update of the innermost function.\<close>

definition with_function :: "(function_state \<Rightarrow> function_state) \<Rightarrow> rstate \<Rightarrow> rstate" where
  "with_function f s =
     s\<lparr>rs_functions := (case rs_functions s of [] \<Rightarrow> [] | g # gs \<Rightarrow> f g # gs)\<rparr>"

definition with_scope :: "(scope \<Rightarrow> scope) \<Rightarrow> rstate \<Rightarrow> rstate" where
  "with_scope f s = s\<lparr>rs_scopes := (case rs_scopes s of [] \<Rightarrow> [] | c # cs \<Rightarrow> f c # cs)\<rparr>"

subsection \<open>Scopes\<close>

definition begin_scope :: "rstate \<Rightarrow> rstate" where
  "begin_scope s =
     s\<lparr>rs_scopes := \<lparr>sc_names = [], sc_level = length (rs_functions s) - 1\<rparr> # rs_scopes s\<rparr>"

definition end_scope :: "rstate \<Rightarrow> rstate" where
  "end_scope s =
     (let s = with_function
            (\<lambda>f. f\<lparr>fs_live := fs_live f - int (length (sc_names (hd (rs_scopes s))))\<rparr>) s
      in s\<lparr>rs_scopes := tl (rs_scopes s)\<rparr>)"

definition declare_name :: "sview \<Rightarrow> nat \<Rightarrow> rstate \<Rightarrow> unit rresult" where
  "declare_name name l s =
     (let sc = hd (rs_scopes s); x = sv_text name
      in if map_of (sc_names sc) x \<noteq> None
         then rfail l (''variable '' @ quoted x @ '' is already declared in this scope'')
         else
           let s = with_function (\<lambda>f. f\<lparr>fs_live := fs_live f + 1\<rparr>) s
           in if int kMaxLocalLimit < fs_live (hd (rs_functions s))
              then rfail l ''too many local variables''
              else
                let lv = \<lparr>lc_defined = False, lc_id = rs_next_id s\<rparr>
                in Inr ((), (with_scope (\<lambda>sc. sc\<lparr>sc_names := (x, lv) # sc_names sc\<rparr>) s)
                     \<lparr>rs_next_id := rs_next_id s + 1\<rparr>))"

definition define_name :: "sview \<Rightarrow> rstate \<Rightarrow> rstate" where
  "define_name name =
     with_scope (\<lambda>sc. sc\<lparr>sc_names :=
       map (\<lambda>(y, lv). if y = sv_text name then (y, lv\<lparr>lc_defined := True\<rparr>) else (y, lv))
         (sc_names sc)\<rparr>)"

text \<open>
  \<open>note_capture\<close> inserts into the functions of a level above the owner's, the first
  \<open>current - owner\<close> of the stack, and fails if one of them grew over the limit.
\<close>

definition note_capture :: "nat \<Rightarrow> nat \<Rightarrow> nat \<Rightarrow> rstate \<Rightarrow> unit rresult" where
  "note_capture owner i l s =
     (let fs = rs_functions s; k = length fs - 1 - owner;
          inner = map (\<lambda>f. f\<lparr>fs_captured := List.insert i (fs_captured f)\<rparr>) (take k fs)
      in if \<exists>f\<in>set inner. kMaxLocalLimit < length (fs_captured f)
         then rfail l ''too many captured variables''
         else Inr ((), s\<lparr>rs_functions := inner @ drop k fs\<rparr>))"

fun find_scope :: "string \<Rightarrow> scope list \<Rightarrow> nat \<Rightarrow> (nat \<times> nat \<times> local_var) option" where
  "find_scope x [] hops = None"
| "find_scope x (sc # scs) hops =
     (case map_of (sc_names sc) x of
        None \<Rightarrow> find_scope x scs (hops + 1)
      | Some lv \<Rightarrow> Some (hops, sc_level sc, lv))"

definition bind_name :: "sview \<Rightarrow> nat \<Rightarrow> rstate \<Rightarrow> binding rresult" where
  "bind_name name l s =
     (case find_scope (sv_text name) (rs_scopes s) 0 of
        None \<Rightarrow> Inr (GlobalBinding, s)
      | Some (hops, owner, lv) \<Rightarrow>
          if \<not> lc_defined lv
          then rfail l (''can'' @ [CHR 0x27] @ ''t read local variable '' @ quoted (sv_text name) @
                 '' in its own initializer'')
          else sbind (note_capture owner (lc_id lv) l s) (\<lambda>(_, s). Inr (LocalBinding hops, s)))"

subsection \<open>Expressions\<close>

fun r_expr :: "expr \<Rightarrow> rstate \<Rightarrow> expr rresult" and
    r_args :: "nat \<Rightarrow> nat \<Rightarrow> expr list \<Rightarrow> rstate \<Rightarrow> expr list rresult" and
    r_exprs :: "expr list \<Rightarrow> rstate \<Rightarrow> expr list rresult" where
  "r_expr (ELiteral v l) s = Inr (ELiteral v l, s)"
| "r_expr (EVariable x b l) s = sbind (bind_name x l s) (\<lambda>(b, s). Inr (EVariable x b l, s))"
| "r_expr (EAssign x e b l) s =
     sbind (r_expr e s) (\<lambda>(e, s).
     sbind (bind_name x l s) (\<lambda>(b, s). Inr (EAssign x e b l, s)))"
| "r_expr (EUnary op e l) s = sbind (r_expr e s) (\<lambda>(e, s). Inr (EUnary op e l, s))"
| "r_expr (EBinary op a b l) s =
     sbind (r_expr a s) (\<lambda>(a, s). sbind (r_expr b s) (\<lambda>(b, s). Inr (EBinary op a b l, s)))"
| "r_expr (ELogical op a b l) s =
     sbind (r_expr a s) (\<lambda>(a, s). sbind (r_expr b s) (\<lambda>(b, s). Inr (ELogical op a b l, s)))"
| "r_expr (ECall f as l) s =
     sbind (r_expr f s) (\<lambda>(f, s). sbind (r_args 0 l as s) (\<lambda>(as, s). Inr (ECall f as l, s)))"
| "r_expr (EArrayLiteral es l) s = sbind (r_exprs es s) (\<lambda>(es, s). Inr (EArrayLiteral es l, s))"
| "r_expr (EIndex a i l) s =
     sbind (r_expr a s) (\<lambda>(a, s). sbind (r_expr i s) (\<lambda>(i, s). Inr (EIndex a i l, s)))"
| "r_expr (EIndexAssign a i v l) s =
     sbind (r_expr a s) (\<lambda>(a, s).
     sbind (r_expr i s) (\<lambda>(i, s).
     sbind (r_expr v s) (\<lambda>(v, s). Inr (EIndexAssign a i v l, s))))"
| "r_args i l [] s = Inr ([], s)"
| "r_args i l (e # es) s =
     (if kMaxLocalLimit \<le> i then rfail l ''too many arguments''
      else
        sbind (r_expr e s) (\<lambda>(e, s).
        sbind (r_args (i + 1) l es s) (\<lambda>(es, s). Inr (e # es, s))))"
| "r_exprs [] s = Inr ([], s)"
| "r_exprs (e # es) s =
     sbind (r_expr e s) (\<lambda>(e, s). sbind (r_exprs es s) (\<lambda>(es, s). Inr (e # es, s)))"

definition r_opt :: "expr option \<Rightarrow> rstate \<Rightarrow> expr option rresult" where
  "r_opt eo s =
     (case eo of None \<Rightarrow> Inr (None, s) | Some e \<Rightarrow> sbind (r_expr e s) (\<lambda>(e, s). Inr (Some e, s)))"

subsection \<open>Statements\<close>

fun r_params :: "string \<Rightarrow> nat \<Rightarrow> sview list \<Rightarrow> rstate \<Rightarrow> unit rresult" where
  "r_params src i [] s = Inr ((), s)"
| "r_params src i (p # ps) s =
     (if kMaxLocalLimit \<le> i then rfail (line_of src p) ''too many parameters''
      else
        sbind (declare_name p (line_of src p) s) (\<lambda>(_, s).
        r_params src (i + 1) ps (define_name p s)))"

definition push_function :: "rstate \<Rightarrow> rstate" where
  "push_function s = s\<lparr>rs_functions := \<lparr>fs_live = 0, fs_captured = []\<rparr> # rs_functions s\<rparr>"

definition pop_function :: "rstate \<Rightarrow> rstate" where
  "pop_function s = s\<lparr>rs_functions := tl (rs_functions s)\<rparr>"

definition r_let :: "string \<Rightarrow> sview \<Rightarrow> expr option \<Rightarrow> rstate \<Rightarrow> expr option rresult" where
  "r_let src x init s =
     (if rs_scopes s = [] then r_opt init s
      else
        sbind (declare_name x (line_of src x) s) (\<lambda>(_, s).
        sbind (r_opt init s) (\<lambda>(init, s). Inr (init, define_name x s))))"

definition r_function_name :: "string \<Rightarrow> sview \<Rightarrow> rstate \<Rightarrow> unit rresult" where
  "r_function_name src f s =
     (if rs_scopes s = [] then Inr ((), s)
      else sbind (declare_name f (line_of src f) s) (\<lambda>(_, s). Inr ((), define_name f s)))"

fun r_stmt :: "string \<Rightarrow> stmt \<Rightarrow> rstate \<Rightarrow> stmt rresult" and
    r_stmts :: "string \<Rightarrow> stmt list \<Rightarrow> rstate \<Rightarrow> stmt list rresult" where
  "r_stmt src (SPrint e l) s = sbind (r_expr e s) (\<lambda>(e, s). Inr (SPrint e l, s))"
| "r_stmt src (SExpr e l) s = sbind (r_expr e s) (\<lambda>(e, s). Inr (SExpr e l, s))"
| "r_stmt src (SLet x init l) s = sbind (r_let src x init s) (\<lambda>(init, s). Inr (SLet x init l, s))"
| "r_stmt src (SBlock ss l) s =
     sbind (r_stmts src ss (begin_scope s)) (\<lambda>(ss, s). Inr (SBlock ss l, end_scope s))"
| "r_stmt src (SIf c t None l) s =
     sbind (r_expr c s) (\<lambda>(c, s).
     sbind (r_stmt src t s) (\<lambda>(t, s). Inr (SIf c t None l, s)))"
| "r_stmt src (SIf c t (Some e) l) s =
     sbind (r_expr c s) (\<lambda>(c, s).
     sbind (r_stmt src t s) (\<lambda>(t, s).
     sbind (r_stmt src e s) (\<lambda>(e, s). Inr (SIf c t (Some e) l, s))))"
| "r_stmt src (SWhile c b l) s =
     sbind (r_expr c s) (\<lambda>(c, s). sbind (r_stmt src b s) (\<lambda>(b, s). Inr (SWhile c b l, s)))"
| "r_stmt src (SFunction f ps body bl l) s =
     sbind (r_function_name src f s) (\<lambda>(_, s).
     sbind (r_params src 0 ps (begin_scope (push_function s))) (\<lambda>(_, s).
     sbind (r_stmts src body s) (\<lambda>(body, s).
     Inr (SFunction f ps body bl l, pop_function (end_scope s)))))"
| "r_stmt src (SReturn v l) s =
     (if length (rs_functions s) = 1
      then rfail l (''can'' @ [CHR 0x27] @ ''t return from top-level code'')
      else sbind (r_opt v s) (\<lambda>(v, s). Inr (SReturn v l, s)))"
| "r_stmts src [] s = Inr ([], s)"
| "r_stmts src (st # ss) s =
     sbind (r_stmt src st s) (\<lambda>(st, s).
     sbind (r_stmts src ss s) (\<lambda>(ss, s). Inr (st # ss, s)))"

definition resolve :: "program \<Rightarrow> compile_error + program" where
  "resolve p =
     sbind (r_stmts (pr_source p) (pr_statements p) init_rstate)
       (\<lambda>(ss, _). Inr (p\<lparr>pr_statements := ss\<rparr>))"

end
