(* ===== verification/Resolver_Spec.thy ===== *)
theory Resolver_Spec
  imports Resolver
begin

text \<open>
  The scoping rules of the language, stated on a resolved tree alone (\<open>scoped\<close>), and the proof
  that what \<open>resolve\<close> returns satisfies them and differs from its input in the bindings only. The
  environment of a point of the program is the list of its scopes, innermost first: the function
  level that owns the scope and its names, each with whether it is defined yet.
\<close>

subsection \<open>Static scoping\<close>

type_synonym senv = "(nat \<times> (string \<times> bool) list) list"

fun env_lookup :: "string \<Rightarrow> senv \<Rightarrow> nat \<Rightarrow> (nat \<times> bool) option" where
  "env_lookup x [] hops = None"
| "env_lookup x ((d, xs) # env) hops =
     (case map_of xs x of None \<Rightarrow> env_lookup x env (hops + 1) | Some b \<Rightarrow> Some (hops, b))"

text \<open>A use binds to the nearest scope that declares the name, which must be defined by then.\<close>

definition scoped_use :: "senv \<Rightarrow> sview \<Rightarrow> binding \<Rightarrow> bool" where
  "scoped_use env x b \<longleftrightarrow>
     (case env_lookup (sv_text x) env 0 of
        None \<Rightarrow> b = GlobalBinding
      | Some (hops, defined) \<Rightarrow> defined \<and> b = LocalBinding hops)"

fun scoped_e :: "senv \<Rightarrow> expr \<Rightarrow> bool" and scoped_es :: "senv \<Rightarrow> expr list \<Rightarrow> bool" where
  "scoped_e env (ELiteral v l) \<longleftrightarrow> True"
| "scoped_e env (EVariable x b l) \<longleftrightarrow> scoped_use env x b"
| "scoped_e env (EAssign x e b l) \<longleftrightarrow> scoped_e env e \<and> scoped_use env x b"
| "scoped_e env (EUnary op e l) \<longleftrightarrow> scoped_e env e"
| "scoped_e env (EBinary op a b l) \<longleftrightarrow> scoped_e env a \<and> scoped_e env b"
| "scoped_e env (ELogical op a b l) \<longleftrightarrow> scoped_e env a \<and> scoped_e env b"
| "scoped_e env (ECall f as l) \<longleftrightarrow> scoped_e env f \<and> scoped_es env as \<and> length as \<le> kMaxLocalLimit"
| "scoped_e env (EArrayLiteral es l) \<longleftrightarrow> scoped_es env es"
| "scoped_e env (EIndex a i l) \<longleftrightarrow> scoped_e env a \<and> scoped_e env i"
| "scoped_e env (EIndexAssign a i v l) \<longleftrightarrow> scoped_e env a \<and> scoped_e env i \<and> scoped_e env v"
| "scoped_es env [] \<longleftrightarrow> True"
| "scoped_es env (e # es) \<longleftrightarrow> scoped_e env e \<and> scoped_es env es"

definition scoped_opt :: "senv \<Rightarrow> expr option \<Rightarrow> bool" where
  "scoped_opt env eo = (case eo of None \<Rightarrow> True | Some e \<Rightarrow> scoped_e env e)"

text \<open>The live locals of the function at level \<open>d\<close>, and a new name in the innermost scope.\<close>

definition live :: "nat \<Rightarrow> senv \<Rightarrow> nat" where
  "live d env = sum_list (map (\<lambda>(l, xs). if l = d then length xs else 0) env)"

definition add_name :: "sview \<Rightarrow> bool \<Rightarrow> senv \<Rightarrow> senv" where
  "add_name x b env =
     (case env of [] \<Rightarrow> [] | (d, xs) # env \<Rightarrow> (d, (sv_text x, b) # xs) # env)"

definition new_name :: "nat \<Rightarrow> sview \<Rightarrow> senv \<Rightarrow> bool" where
  "new_name d x env \<longleftrightarrow>
     (case env of [] \<Rightarrow> True
      | (l, xs) # _ \<Rightarrow> sv_text x \<notin> fst ` set xs \<and> live d env < kMaxLocalLimit)"

fun after :: "stmt \<Rightarrow> senv \<Rightarrow> senv" where
  "after (SLet x init l) env = add_name x True env"
| "after (SFunction f ps body bl l) env = add_name f True env"
| "after (SIf c t None l) env = after t env"
| "after (SIf c t (Some e) l) env = after e (after t env)"
| "after (SWhile c b l) env = after b env"
| "after s env = env"

definition params_scope :: "sview list \<Rightarrow> (string \<times> bool) list" where
  "params_scope ps = rev (map (\<lambda>p. (sv_text p, True)) ps)"

fun scoped_s :: "nat \<Rightarrow> senv \<Rightarrow> stmt \<Rightarrow> bool" and scoped_ss :: "nat \<Rightarrow> senv \<Rightarrow> stmt list \<Rightarrow> bool" where
  "scoped_s d env (SPrint e l) \<longleftrightarrow> scoped_e env e"
| "scoped_s d env (SExpr e l) \<longleftrightarrow> scoped_e env e"
| "scoped_s d env (SLet x init l) \<longleftrightarrow> new_name d x env \<and> scoped_opt (add_name x False env) init"
| "scoped_s d env (SBlock ss l) \<longleftrightarrow> scoped_ss d ((d, []) # env) ss"
| "scoped_s d env (SIf c t None l) \<longleftrightarrow> scoped_e env c \<and> scoped_s d env t"
| "scoped_s d env (SIf c t (Some e) l) \<longleftrightarrow>
     scoped_e env c \<and> scoped_s d env t \<and> scoped_s d (after t env) e"
| "scoped_s d env (SWhile c b l) \<longleftrightarrow> scoped_e env c \<and> scoped_s d env b"
| "scoped_s d env (SFunction f ps body bl l) \<longleftrightarrow>
     new_name d f env \<and> distinct (map sv_text ps) \<and> length ps \<le> kMaxLocalLimit \<and>
     scoped_ss (Suc d) ((Suc d, params_scope ps) # add_name f True env) body"
| "scoped_s d env (SReturn v l) \<longleftrightarrow> 0 < d \<and> scoped_opt env v"
| "scoped_ss d env [] \<longleftrightarrow> True"
| "scoped_ss d env (s # ss) \<longleftrightarrow> scoped_s d env s \<and> scoped_ss d (after s env) ss"

text \<open>The tree without its bindings.\<close>

fun unbound_e :: "expr \<Rightarrow> expr" and unbound_es :: "expr list \<Rightarrow> expr list" where
  "unbound_e (ELiteral v l) = ELiteral v l"
| "unbound_e (EVariable x b l) = EVariable x Unresolved l"
| "unbound_e (EAssign x e b l) = EAssign x (unbound_e e) Unresolved l"
| "unbound_e (EUnary op e l) = EUnary op (unbound_e e) l"
| "unbound_e (EBinary op a b l) = EBinary op (unbound_e a) (unbound_e b) l"
| "unbound_e (ELogical op a b l) = ELogical op (unbound_e a) (unbound_e b) l"
| "unbound_e (ECall f as l) = ECall (unbound_e f) (unbound_es as) l"
| "unbound_e (EArrayLiteral es l) = EArrayLiteral (unbound_es es) l"
| "unbound_e (EIndex a i l) = EIndex (unbound_e a) (unbound_e i) l"
| "unbound_e (EIndexAssign a i v l) = EIndexAssign (unbound_e a) (unbound_e i) (unbound_e v) l"
| "unbound_es [] = []"
| "unbound_es (e # es) = unbound_e e # unbound_es es"

fun unbound_s :: "stmt \<Rightarrow> stmt" and unbound_ss :: "stmt list \<Rightarrow> stmt list" where
  "unbound_s (SPrint e l) = SPrint (unbound_e e) l"
| "unbound_s (SExpr e l) = SExpr (unbound_e e) l"
| "unbound_s (SLet x init l) = SLet x (map_option unbound_e init) l"
| "unbound_s (SBlock ss l) = SBlock (unbound_ss ss) l"
| "unbound_s (SIf c t None l) = SIf (unbound_e c) (unbound_s t) None l"
| "unbound_s (SIf c t (Some e) l) = SIf (unbound_e c) (unbound_s t) (Some (unbound_s e)) l"
| "unbound_s (SWhile c b l) = SWhile (unbound_e c) (unbound_s b) l"
| "unbound_s (SFunction f ps body bl l) = SFunction f ps (unbound_ss body) bl l"
| "unbound_s (SReturn v l) = SReturn (map_option unbound_e v) l"
| "unbound_ss [] = []"
| "unbound_ss (s # ss) = unbound_s s # unbound_ss ss"

subsection \<open>The resolver's state as an environment\<close>

definition rview :: "rstate \<Rightarrow> senv" where
  "rview s = map (\<lambda>sc. (sc_level sc, map (\<lambda>(x, lv). (x, lc_defined lv)) (sc_names sc))) (rs_scopes s)"

definition rinv :: "nat \<Rightarrow> rstate \<Rightarrow> bool" where
  "rinv d s \<longleftrightarrow>
     length (rs_functions s) = Suc d \<and>
     (\<forall>i\<le>d. fs_live (rs_functions s ! i) = int (live (d - i) (rview s))) \<and>
     (\<forall>c\<in>set (rview s). fst c \<le> d) \<and> (rview s \<noteq> [] \<longrightarrow> fst (hd (rview s)) = d)"

lemma map_of_view: "map_of (map (\<lambda>(x, lv). (x, lc_defined lv)) xs) x = map_option lc_defined (map_of xs x)"
  by (induction xs) auto

lemma find_scope_view:
  "env_lookup x (map (\<lambda>sc. (sc_level sc, map (\<lambda>(x, lv). (x, lc_defined lv)) (sc_names sc))) scs) h =
   map_option (\<lambda>(h, d, lv). (h, lc_defined lv)) (find_scope x scs h)"
  by (induction scs arbitrary: h) (auto simp: map_of_view split: option.splits)

definition rsame :: "rstate \<Rightarrow> rstate \<Rightarrow> bool" where
  "rsame s t \<longleftrightarrow> rs_scopes t = rs_scopes s \<and> map fs_live (rs_functions t) = map fs_live (rs_functions s)"

lemma rsame_refl: "rsame s s"
  by (simp add: rsame_def)

lemma rsame_trans: "rsame s t \<Longrightarrow> rsame t u \<Longrightarrow> rsame s u"
  by (simp add: rsame_def)

lemma rsame_view: "rsame s t \<Longrightarrow> rview t = rview s"
  by (simp add: rsame_def rview_def)

lemma rsame_inv:
  assumes "rsame s t" "rinv d s"
  shows "rinv d t"
proof -
  have m: "map fs_live (rs_functions t) = map fs_live (rs_functions s)"
    using assms(1) by (simp add: rsame_def)
  have l: "length (rs_functions t) = length (rs_functions s)" using arg_cong [OF m, of length] by simp
  have "fs_live (rs_functions t ! i) = fs_live (rs_functions s ! i)" if "i < length (rs_functions s)" for i
    using arg_cong [OF m, of "\<lambda>xs. xs ! i"] that l by simp
  then show ?thesis using assms l by (simp add: rinv_def rsame_view)
qed

lemma note_capture_same:
  assumes "note_capture owner i l s = Inr (u, t)"
  shows "rsame s t"
proof -
  let ?fs = "rs_functions s" and ?k = "length (rs_functions s) - 1 - owner"
  let ?g = "\<lambda>f. f\<lparr>fs_captured := List.insert i (fs_captured f)\<rparr>"
  have t: "t = s\<lparr>rs_functions := map ?g (take ?k ?fs) @ drop ?k ?fs\<rparr>"
    using assms by (simp add: note_capture_def Let_def rfail_def split: if_splits)
  have "map fs_live (map ?g (take ?k ?fs) @ drop ?k ?fs) = map fs_live (take ?k ?fs @ drop ?k ?fs)"
    unfolding map_append map_map by (simp add: comp_def)
  then show ?thesis unfolding t by (simp add: rsame_def del: map_append)
qed

lemma bind_name_ok:
  assumes "bind_name x l s = Inr (b, t)"
  shows "scoped_use (rview s) x b \<and> rsame s t"
  using assms note_capture_same
  by (auto simp: bind_name_def scoped_use_def rview_def find_scope_view rsame_refl rfail_def sbind_eq_Inr
      split: option.splits if_splits)

text \<open>Resolving one expression after another keeps the environment.\<close>

lemma then_ok:
  assumes "sbind m f = Inr y" "\<And>x t. m = Inr (x, t) \<Longrightarrow> P x \<and> rsame s t"
    and "\<And>x t. P x \<Longrightarrow> rsame s t \<Longrightarrow> rview t = rview s \<Longrightarrow> f (x, t) = Inr y \<Longrightarrow> Q"
  shows Q
proof -
  from assms(1) obtain x t where m: "m = Inr (x, t)" "f (x, t) = Inr y" by (auto simp: sbind_eq_Inr)
  have "P x" "rsame s t" using assms(2) [OF m(1)] by blast+
  then show ?thesis using assms(3) rsame_view m(2) by blast
qed

lemma r_expr_ok:
  "r_expr e s = Inr (e', t) \<Longrightarrow> (scoped_e (rview s) e' \<and> unbound_e e' = unbound_e e) \<and> rsame s t"
  "(i \<le> kMaxLocalLimit \<longrightarrow> r_args i l es s = Inr (es', t) \<longrightarrow>
     (scoped_es (rview s) es' \<and> unbound_es es' = unbound_es es \<and>
      length es' = length es \<and> i + length es \<le> kMaxLocalLimit) \<and> rsame s t) \<and>
   (r_exprs es s = Inr (es', t) \<longrightarrow>
     (scoped_es (rview s) es' \<and> unbound_es es' = unbound_es es) \<and> rsame s t)"
proof (induction e and es arbitrary: s e' t and s es' t i l rule: eheight_eheights.induct)
  case (1 v l)
  then show ?case by (auto simp: rsame_refl)
next
  case (2 x b l)
  then show ?case by (auto simp: sbind_eq_Inr dest: bind_name_ok)
next
  case (3 x e b l)
  show ?case
    by (rule then_ok [OF "3.prems" [simplified] "3.IH"], assumption)
      (auto simp: sbind_eq_Inr dest!: bind_name_ok intro: rsame_trans)
next
  case (4 op e l)
  show ?case by (rule then_ok [OF "4.prems" [simplified] "4.IH"], assumption) auto
next
  case (5 op a b l)
  show ?case
    apply (rule then_ok [OF "5.prems" [simplified] "5.IH"(1)], assumption)
    apply (simp only: prod.case)
    apply (erule then_ok, erule "5.IH"(2))
    apply (auto intro: rsame_trans)
    done
next
  case (6 op a b l)
  show ?case
    apply (rule then_ok [OF "6.prems" [simplified] "6.IH"(1)], assumption)
    apply (simp only: prod.case)
    apply (erule then_ok, erule "6.IH"(2))
    apply (auto intro: rsame_trans)
    done
next
  case (7 f as l)
  show ?case
  proof -
    have args: "(scoped_es (rview s) es' \<and> unbound_es es' = unbound_es as \<and> length es' = length as \<and>
        length as \<le> kMaxLocalLimit) \<and> rsame s t" if "r_args 0 l as s = Inr (es', t)" for s es' t
      using "7.IH"(2) [where i = 0 and l = l and s = s and es' = es' and t = t] that by simp
    show ?thesis
      apply (rule then_ok [OF "7.prems" [simplified] "7.IH"(1)], assumption)
      apply (simp only: prod.case)
      apply (erule then_ok, erule args)
      apply (auto intro: rsame_trans)
      done
  qed
next
  case (8 es l)
  show ?case
    by (rule then_ok [OF "8.prems" [simplified] "8.IH" [THEN conjunct2, rule_format]], assumption) auto
next
  case (9 a i l)
  show ?case
    apply (rule then_ok [OF "9.prems" [simplified] "9.IH"(1)], assumption)
    apply (simp only: prod.case)
    apply (erule then_ok, erule "9.IH"(2))
    apply (auto intro: rsame_trans)
    done
next
  case (10 a i v l)
  show ?case
    apply (rule then_ok [OF "10.prems" [simplified] "10.IH"(1)], assumption)
    apply (simp only: prod.case)
    apply (erule then_ok, erule "10.IH"(2))
    apply (simp only: prod.case)
    apply (erule then_ok, erule "10.IH"(3))
    apply (auto intro: rsame_trans)
    done
next
  case 11
  then show ?case by (auto simp: rsame_refl)
next
  case (12 e es)
  show ?case
  proof (rule conjI; intro impI)
    assume i: "i \<le> kMaxLocalLimit" and r: "r_args i l (e # es) s = Inr (es', t)"
    then have lt: "i < kMaxLocalLimit" by (auto simp: rfail_def split: if_splits)
    from r lt have r: "sbind (r_expr e s) (\<lambda>(e, s). sbind (r_args (i + 1) l es s) (\<lambda>(es, s). Inr (e # es, s))) = Inr (es', t)"
      by simp
    have args: "(scoped_es (rview s) es' \<and> unbound_es es' = unbound_es es \<and> length es' = length es \<and>
        i + 1 + length es \<le> kMaxLocalLimit) \<and> rsame s t" if "r_args (i + 1) l es s = Inr (es', t)" for s es' t
      using "12.IH"(2) [where i = "i + 1" and l = l and s = s and es' = es' and t = t] that lt by simp
    show "(scoped_es (rview s) es' \<and> unbound_es es' = unbound_es (e # es) \<and>
      length es' = length (e # es) \<and> i + length (e # es) \<le> kMaxLocalLimit) \<and> rsame s t"
      apply (rule then_ok [OF r "12.IH"(1)], assumption)
      apply (simp only: prod.case)
      apply (erule then_ok, erule args)
      apply (auto intro: rsame_trans)
      done
  next
    assume r: "r_exprs (e # es) s = Inr (es', t)"
    show "(scoped_es (rview s) es' \<and> unbound_es es' = unbound_es (e # es)) \<and> rsame s t"
      apply (rule then_ok [OF r [simplified] "12.IH"(1)], assumption)
      apply (simp only: prod.case)
      apply (erule then_ok, erule "12.IH"(2) [THEN conjunct2, rule_format])
      apply (auto intro: rsame_trans)
      done
  qed
qed


lemma r_opt_ok:
  "r_opt eo s = Inr (eo', t) \<Longrightarrow>
   (scoped_opt (rview s) eo' \<and> map_option unbound_e eo' = map_option unbound_e eo) \<and> rsame s t"
  by (auto simp: r_opt_def scoped_opt_def sbind_eq_Inr rsame_refl dest: r_expr_ok(1) split: option.splits)

subsection \<open>Scopes and names\<close>

lemma live_Cons: "live d ((l, xs) # env) = (if l = d then length xs else 0) + live d env"
  by (simp add: live_def)

lemma live_above: "\<forall>c\<in>set env. fst c \<le> d \<Longrightarrow> live (Suc d) env = 0"
  by (induction env) (auto simp: live_def)

lemma env_lookup_names: "new_name d x ((l, xs) # env) \<longleftrightarrow> sv_text x \<notin> fst ` set xs \<and> live d ((l, xs) # env) < kMaxLocalLimit"
  by (simp add: new_name_def)

lemma rview_Nil: "rview s = [] \<longleftrightarrow> rs_scopes s = []"
  by (simp add: rview_def)

lemma live_add_name:
  "env \<noteq> [] \<Longrightarrow> fst (hd env) = d \<Longrightarrow> live e (add_name x b env) = live e env + (if e = d then 1 else 0)"
  by (cases env) (auto simp: add_name_def live_Cons)

lemma declare_name_ok:
  assumes "declare_name x l s = Inr (u, t)" "rinv d s" "rs_scopes s \<noteq> []"
  shows "new_name d x (rview s) \<and> rview t = add_name x False (rview s) \<and> rinv d t"
proof -
  obtain sc scs where sc: "rs_scopes s = sc # scs" using assms(3) by (cases "rs_scopes s") auto
  obtain f fs where f: "rs_functions s = f # fs" using assms(2) by (cases "rs_functions s") (auto simp: rinv_def)
  have n: "map_of (sc_names sc) (sv_text x) = None" and l: "\<not> int kMaxLocalLimit < fs_live f + 1"
    and t: "rs_scopes t = sc\<lparr>sc_names := (sv_text x, \<lparr>lc_defined = False, lc_id = rs_next_id s\<rparr>) # sc_names sc\<rparr> # scs"
      "rs_functions t = f\<lparr>fs_live := fs_live f + 1\<rparr> # fs"
    using assms(1) by (auto simp: declare_name_def sc f Let_def with_function_def with_scope_def rfail_def split: if_splits)
  have v: "rview s = (sc_level sc, map (\<lambda>(x, lv). (x, lc_defined lv)) (sc_names sc)) # tl (rview s)"
    by (simp add: rview_def sc)
  have d: "sc_level sc = d" using assms(2) v by (simp add: rinv_def) (metis fst_conv list.sel(1) v list.distinct(1))
  have vt: "rview t = add_name x False (rview s)" by (simp add: rview_def t sc add_name_def)
  have lv: "fs_live f = int (live d (rview s))" using assms(2) f by (auto simp: rinv_def)
  have "new_name d x (rview s)"
  proof -
    have "sv_text x \<notin> fst ` set (map (\<lambda>(x, lv). (x, lc_defined lv)) (sc_names sc))"
      using n by (auto simp: map_of_eq_None_iff image_image case_prod_beta)
    moreover have "live d (rview s) < kMaxLocalLimit" using l lv by simp
    ultimately show ?thesis unfolding new_name_def by (subst v) simp
  qed
  moreover have "rinv d t"
  proof -
    have ne: "rview s \<noteq> []" and hd: "fst (hd (rview s)) = d" using v d by (metis list.distinct(1), metis fst_conv list.sel(1))
    have lives: "fs_live (rs_functions t ! i) = int (live (d - i) (rview t))" if "i \<le> d" for i
    proof -
      have "fs_live (rs_functions s ! i) = int (live (d - i) (rview s))" using assms(2) that by (simp add: rinv_def)
      moreover have "live (d - i) (rview t) = live (d - i) (rview s) + (if i = 0 then 1 else 0)"
        unfolding vt using live_add_name [OF ne hd] that by (auto split: if_splits)
      ultimately show ?thesis using t(2) f by (cases i) auto
    qed
    have "\<forall>c\<in>set (rview t). fst c \<le> d" "fst (hd (rview t)) = d"
      using assms(2) hd ne unfolding vt rinv_def by (cases "rview s"; auto simp: add_name_def)+
    then show ?thesis using lives assms(2) t(2) f unfolding rinv_def by simp
  qed
  ultimately show ?thesis using vt by blast
qed


lemma define_name_ok:
  assumes "rinv d s" "rview s = add_name x False env" "env \<noteq> []" "new_name d x env"
  shows "rview (define_name x s) = add_name x True env \<and> rinv d (define_name x s)"
proof -
  obtain l xs e where env: "env = (l, xs) # e" using assms(3) by (cases env) auto
  obtain sc scs where sc: "rs_scopes s = sc # scs"
    using assms(2) env by (cases "rs_scopes s") (auto simp: rview_def add_name_def)
  have v: "sc_level sc = l" "map (\<lambda>(x, lv). (x, lc_defined lv)) (sc_names sc) = (sv_text x, False) # xs"
    "map (\<lambda>sc. (sc_level sc, map (\<lambda>(x, lv). (x, lc_defined lv)) (sc_names sc))) scs = e"
    using assms(2) env sc by (simp_all add: rview_def add_name_def)
  have n: "sv_text x \<notin> fst ` set xs" using assms(4) env by (simp add: new_name_def)
  then have x: "map (\<lambda>(y, b). if y = sv_text x then (y, True) else (y, b)) xs = xs"
    by (intro map_idI) (auto simp: image_iff)
  have "map (\<lambda>(x, lv). (x, lc_defined lv))
      (map (\<lambda>(y, lv). if y = sv_text x then (y, lv\<lparr>lc_defined := True\<rparr>) else (y, lv)) (sc_names sc)) =
    map (\<lambda>(y, b). if y = sv_text x then (y, True) else (y, b)) (map (\<lambda>(x, lv). (x, lc_defined lv)) (sc_names sc))"
    by auto
  also have "\<dots> = (sv_text x, True) # xs" unfolding v(2) using x by simp
  finally have vw: "rview (define_name x s) = add_name x True env"
    using v(1,3) sc by (simp add: rview_def define_name_def with_scope_def env add_name_def)
  have "live e (add_name x True env) = live e (add_name x False env)" for e
    by (simp add: env add_name_def live_Cons)
  then have "rinv d (define_name x s)"
    using assms(1,2) unfolding rinv_def vw
    by (auto simp: define_name_def with_scope_def env add_name_def)
  then show ?thesis using vw by blast
qed

lemma begin_scope_ok:
  "rinv d s \<Longrightarrow> rview (begin_scope s) = (d, []) # rview s \<and> rinv d (begin_scope s)"
  by (auto simp: rinv_def rview_def begin_scope_def live_Cons)

lemma end_scope_ok:
  assumes "rinv d s" "rview s = (d, xs) # env" "env \<noteq> [] \<longrightarrow> fst (hd env) = d"
  shows "rview (end_scope s) = env \<and> rinv d (end_scope s)"
proof -
  obtain sc scs where sc: "rs_scopes s = sc # scs" using assms(2) by (cases "rs_scopes s") (auto simp: rview_def)
  obtain f fs where f: "rs_functions s = f # fs" using assms(1) by (cases "rs_functions s") (auto simp: rinv_def)
  have v: "rview (end_scope s) = env"
    using assms(2) sc by (simp add: rview_def end_scope_def Let_def with_function_def)
  have n: "length (sc_names sc) = length xs" using assms(2) sc by (auto simp: rview_def)
  have fs: "rs_functions (end_scope s) = f\<lparr>fs_live := fs_live f - int (length xs)\<rparr> # fs"
    using f sc n by (simp add: end_scope_def Let_def with_function_def)
  have "fs_live (rs_functions (end_scope s) ! i) = int (live (d - i) env)" if "i \<le> d" for i
  proof -
    have "fs_live (rs_functions s ! i) = int (live (d - i) ((d, xs) # env))"
      using assms(1,2) that by (simp add: rinv_def)
    then show ?thesis using fs f that by (cases i) (auto simp: live_Cons split: if_splits)
  qed
  then show ?thesis using assms v fs f by (auto simp: rinv_def)
qed

lemma push_function_ok:
  assumes "rinv d s"
  defines "t \<equiv> begin_scope (push_function s)"
  shows "rview t = (Suc d, []) # rview s \<and> rinv (Suc d) t"
proof -
  have v: "rview t = (Suc d, []) # rview s"
    using assms(1) by (simp add: t_def rinv_def rview_def begin_scope_def push_function_def)
  have fs: "rs_functions t = \<lparr>fs_live = 0, fs_captured = []\<rparr> # rs_functions s"
    by (simp add: t_def begin_scope_def push_function_def)
  have "fs_live (rs_functions t ! i) = int (live (Suc d - i) (rview t))" if "i \<le> Suc d" for i
    using assms(1) that live_above [of "rview s" d] unfolding v fs rinv_def
    by (cases i) (auto simp: live_Cons)
  then show ?thesis using assms(1) v fs unfolding rinv_def by (auto simp: less_Suc_eq_le intro: le_SucI)
qed

lemma pop_function_ok:
  assumes "rinv (Suc d) s" "rview s = (Suc d, xs) # env" "\<forall>c\<in>set env. fst c \<le> d" "env \<noteq> [] \<longrightarrow> fst (hd env) = d"
  shows "rview (pop_function (end_scope s)) = env \<and> rinv d (pop_function (end_scope s))"
proof -
  obtain sc scs where sc: "rs_scopes s = sc # scs" using assms(2) by (cases "rs_scopes s") (auto simp: rview_def)
  obtain f fs where f: "rs_functions s = f # fs" using assms(1) by (cases "rs_functions s") (auto simp: rinv_def)
  have v: "rview (pop_function (end_scope s)) = env"
    using assms(2) sc by (simp add: rview_def end_scope_def Let_def with_function_def pop_function_def)
  have fs: "rs_functions (pop_function (end_scope s)) = fs"
    using f by (simp add: end_scope_def Let_def with_function_def pop_function_def)
  have "fs_live (fs ! i) = int (live (d - i) env)" if "i \<le> d" for i
  proof -
    have "fs_live (rs_functions s ! Suc i) = int (live (Suc d - Suc i) ((Suc d, xs) # env))"
      using assms(1,2) that unfolding rinv_def by (metis Suc_le_mono)
    moreover have "Suc d \<noteq> d - i" by simp
    ultimately show ?thesis using f that by (simp only: live_Cons) simp
  qed
  then show ?thesis using assms v fs f by (auto simp: rinv_def)
qed


subsection \<open>Statements\<close>

lemma add_name_not_Nil: "add_name x b env = [] \<longleftrightarrow> env = []"
  by (simp add: add_name_def split: list.splits)

lemma r_let_ok:
  assumes "r_let src x init s = Inr (init', t)" "rinv d s"
  shows "new_name d x (rview s) \<and> scoped_opt (add_name x False (rview s)) init' \<and>
    map_option unbound_e init' = map_option unbound_e init \<and> rview t = add_name x True (rview s) \<and> rinv d t"
proof (cases "rs_scopes s = []")
  case True
  then have "rview s = []" by (simp add: rview_Nil)
  then show ?thesis using assms True r_opt_ok [of init s init' t] rsame_view rsame_inv
    by (auto simp: r_let_def new_name_def add_name_def)
next
  case False
  then obtain s1 s2 where s1: "declare_name x (line_of src x) s = Inr ((), s1)" "r_opt init s1 = Inr (init', s2)"
    "t = define_name x s2"
    using assms(1) by (auto simp: r_let_def sbind_eq_Inr)
  note d = declare_name_ok [OF s1(1) assms(2) False]
  note o = r_opt_ok [OF s1(2)]
  have v: "rview s2 = add_name x False (rview s)" "rinv d s2"
    using d o rsame_view [of s1 s2] rsame_inv [of s1 s2 d] by auto
  have ne: "rview s \<noteq> []" using False by (simp add: rview_Nil)
  show ?thesis using define_name_ok [OF v(2,1) ne] d o s1(3) by simp
qed

lemma r_function_name_ok:
  assumes "r_function_name src x s = Inr (u, t)" "rinv d s"
  shows "new_name d x (rview s) \<and> rview t = add_name x True (rview s) \<and> rinv d t"
proof (cases "rs_scopes s = []")
  case True
  then have "rview s = []" by (simp add: rview_Nil)
  then show ?thesis using assms True by (auto simp: r_function_name_def new_name_def add_name_def)
next
  case False
  then obtain s1 where s1: "declare_name x (line_of src x) s = Inr ((), s1)" "t = define_name x s1"
    using assms(1) by (auto simp: r_function_name_def sbind_eq_Inr)
  note d = declare_name_ok [OF s1(1) assms(2) False]
  have ne: "rview s \<noteq> []" using False by (simp add: rview_Nil)
  show ?thesis using define_name_ok [of d s1 x "rview s"] ne d s1(2) by simp
qed

lemma r_params_ok:
  assumes "r_params src i ps s = Inr (u, t)" "rinv d s" "rview s = (d, params_scope qs) # env"
    "distinct (map sv_text qs)" "i = length qs" "i \<le> kMaxLocalLimit"
  shows "rview t = (d, params_scope (qs @ ps)) # env \<and> rinv d t \<and> distinct (map sv_text (qs @ ps)) \<and>
    length (qs @ ps) \<le> kMaxLocalLimit"
  using assms
proof (induction ps arbitrary: i s qs)
  case Nil
  then show ?case by simp
next
  case (Cons p ps)
  then have i: "i < kMaxLocalLimit" by (auto simp: rfail_def split: if_splits)
  then obtain s1 where s1: "declare_name p (line_of src p) s = Inr ((), s1)"
    "r_params src (Suc i) ps (define_name p s1) = Inr (u, t)"
    using Cons.prems(1) by (auto simp: sbind_eq_Inr)
  have ne: "rview s \<noteq> []" "rs_scopes s \<noteq> []" using Cons.prems(3) rview_Nil [of s] by auto
  note d = declare_name_ok [OF s1(1) Cons.prems(2) ne(2)]
  note e = define_name_ok [of d s1 p "rview s"]
  have v: "rview (define_name p s1) = (d, params_scope (qs @ [p])) # env" "rinv d (define_name p s1)"
    using e d ne Cons.prems(3) by (auto simp: add_name_def params_scope_def)
  have "sv_text p \<notin> sv_text ` set qs"
    using d Cons.prems(3) by (auto simp: new_name_def params_scope_def image_image)
  then show ?case
    using Cons.IH [OF s1(2) v(2,1)] Cons.prems(4,5) i by simp
qed

lemma after_hd: "env \<noteq> [] \<Longrightarrow> after st env \<noteq> [] \<and> fst (hd (after st env)) = fst (hd env)"
  by (induction st env rule: after.induct) (auto simp: add_name_def split: list.splits)

fun afters :: "stmt list \<Rightarrow> senv \<Rightarrow> senv" where
  "afters [] env = env"
| "afters (s # ss) env = afters ss (after s env)"

lemma after_tl: "tl (after st env) = tl env"
  by (induction st env rule: after.induct) (auto simp: add_name_def split: list.splits)

lemma afters_scope: "\<exists>xs'. afters ss ((d, xs) # env) = (d, xs') # env"
proof (induction ss arbitrary: xs)
  case (Cons s ss)
  obtain xs' where "after s ((d, xs) # env) = (d, xs') # env"
    using after_hd [of "(d, xs) # env" s] after_tl [of s "(d, xs) # env"]
    by (cases "after s ((d, xs) # env)") auto
  then show ?case using Cons.IH by simp
qed simp

lemma r_stmt_ok:
  "r_stmt src st s = Inr (st', t) \<Longrightarrow> rinv d s \<Longrightarrow>
   scoped_s d (rview s) st' \<and> unbound_s st' = unbound_s st \<and> rview t = after st' (rview s) \<and> rinv d t"
  "r_stmts src ss s = Inr (ss', t) \<Longrightarrow> rinv d s \<Longrightarrow>
   scoped_ss d (rview s) ss' \<and> unbound_ss ss' = unbound_ss ss \<and> rview t = afters ss' (rview s) \<and> rinv d t"
proof (induction st and ss arbitrary: s st' t d and s ss' t d rule: snest_snests.induct)
  case (1 e l)
  then show ?case by (auto simp: sbind_eq_Inr dest!: r_expr_ok(1) dest: rsame_view rsame_inv)
next
  case (2 e l)
  then show ?case by (auto simp: sbind_eq_Inr dest!: r_expr_ok(1) dest: rsame_view rsame_inv)
next
  case (3 x eo l)
  then show ?case by (auto simp: sbind_eq_Inr dest!: r_let_ok)
next
  case (4 ss l)
  from "4.prems"(1) obtain ss' u where r: "r_stmts src ss (begin_scope s) = Inr (ss', u)"
    "st' = SBlock ss' l" "t = end_scope u" by (auto simp: sbind_eq_Inr)
  note b = begin_scope_ok [OF "4.prems"(2)]
  note ih = "4.IH" [OF r(1) conjunct2 [OF b]]
  obtain xs where xs: "rview u = (d, xs) # rview s" using ih b afters_scope [of ss' d "[]" "rview s"] by auto
  have "rview s \<noteq> [] \<longrightarrow> fst (hd (rview s)) = d" using "4.prems"(2) by (simp add: rinv_def)
  from end_scope_ok [OF _ xs this] ih show ?case using r b by simp
next
  case (5 c t l s st' u)
  from "5.prems"(1) obtain c' s1 t' where r: "r_expr c s = Inr (c', s1)" "r_stmt src t s1 = Inr (t', u)"
    "st' = SIf c' t' None l" by (auto simp: sbind_eq_Inr)
  note c = r_expr_ok(1) [OF r(1)]
  note e = c [THEN conjunct2, THEN rsame_view] rsame_inv [OF c [THEN conjunct2] "5.prems"(2)]
  show ?case using c e "5.IH" [OF r(2) e(2)] r(3) by simp
next
  case (6 c t e l s st' u)
  from "6.prems"(1) obtain c' s1 t' s2 e' where r: "r_expr c s = Inr (c', s1)" "r_stmt src t s1 = Inr (t', s2)"
    "r_stmt src e s2 = Inr (e', u)" "st' = SIf c' t' (Some e') l" by (auto simp: sbind_eq_Inr)
  note c = r_expr_ok(1) [OF r(1)]
  note v = c [THEN conjunct2, THEN rsame_view] rsame_inv [OF c [THEN conjunct2] "6.prems"(2)]
  note t = "6.IH"(1) [OF r(2) v(2)]
  show ?case using c v t "6.IH"(2) [OF r(3), of d] r(4) by simp
next
  case (7 c b l s st' u)
  from "7.prems"(1) obtain c' s1 b' where r: "r_expr c s = Inr (c', s1)" "r_stmt src b s1 = Inr (b', u)"
    "st' = SWhile c' b' l" by (auto simp: sbind_eq_Inr)
  note c = r_expr_ok(1) [OF r(1)]
  note v = c [THEN conjunct2, THEN rsame_view] rsame_inv [OF c [THEN conjunct2] "7.prems"(2)]
  show ?case using c v "7.IH" [OF r(2) v(2)] r(3) by simp
next
  case (8 f ps body bl l s st' t)
  from "8.prems"(1) obtain s1 s2 body' u where r: "r_function_name src f s = Inr ((), s1)"
    "r_params src 0 ps (begin_scope (push_function s1)) = Inr ((), s2)" "r_stmts src body s2 = Inr (body', u)"
    "st' = SFunction f ps body' bl l" "t = pop_function (end_scope u)" by (auto simp: sbind_eq_Inr)
  let ?env = "add_name f True (rview s)"
  note f = r_function_name_ok [OF r(1) "8.prems"(2)]
  note p = push_function_ok [of d s1]
  have p0: "rview (begin_scope (push_function s1)) = (Suc d, params_scope []) # ?env"
    "rinv (Suc d) (begin_scope (push_function s1))"
    using p f by (simp_all add: params_scope_def)
  note q = r_params_ok [OF r(2) p0(2,1)]
  have q': "rview s2 = (Suc d, params_scope ps) # ?env" "rinv (Suc d) s2" "distinct (map sv_text ps)"
    "length ps \<le> kMaxLocalLimit" using q by simp_all
  note b = "8.IH" [OF r(3) q'(2)]
  obtain xs where xs: "rview u = (Suc d, xs) # ?env" using b q' afters_scope [of body' "Suc d" "params_scope ps" ?env] by auto
  have inv1: "rinv d s1" "rview s1 = ?env" using f by simp_all
  have env: "\<forall>c\<in>set ?env. fst c \<le> d" "?env \<noteq> [] \<longrightarrow> fst (hd ?env) = d"
    using inv1 by (simp_all add: rinv_def)
  show ?case using pop_function_ok [OF _ xs env] b q' f r(4,5) by simp
next
  case (9 eo l s st' t)
  from "9.prems"(1) obtain v' where r: "r_opt eo s = Inr (v', t)" "st' = SReturn v' l" "length (rs_functions s) \<noteq> 1"
    by (auto simp: sbind_eq_Inr rfail_def split: if_splits)
  have "0 < d" using r(3) "9.prems"(2) by (simp add: rinv_def)
  then show ?case using r_opt_ok [OF r(1)] r(2) rsame_view [of s t] rsame_inv [of s t d] "9.prems"(2) by simp
next
  case 10
  then show ?case by auto
next
  case (11 st ss s ss' t)
  from "11.prems"(1) obtain st' s1 ss1 where r: "r_stmt src st s = Inr (st', s1)" "r_stmts src ss s1 = Inr (ss1, t)"
    "ss' = st' # ss1" by (auto simp: sbind_eq_Inr)
  note a = "11.IH"(1) [OF r(1) "11.prems"(2)]
  show ?case using a "11.IH"(2) [OF r(2), of d] r(3) by simp
qed

lemma resolve_ok:
  assumes "resolve p = Inr q"
  shows "scoped_ss 0 [] (pr_statements q) \<and> unbound_ss (pr_statements q) = unbound_ss (pr_statements p)"
proof -
  have i: "rinv 0 init_rstate" "rview init_rstate = []"
    by (auto simp: rinv_def init_rstate_def rview_def live_def)
  from assms obtain ss t where "r_stmts (pr_source p) (pr_statements p) init_rstate = Inr (ss, t)"
    "q = p\<lparr>pr_statements := ss\<rparr>" by (auto simp: resolve_def sbind_eq_Inr)
  with r_stmt_ok(2) [OF _ i(1)] i(2) show ?thesis by simp
qed

text \<open>No binding stays unresolved, and no hop leads out of the scopes.\<close>

lemma scoped_resolved:
  "scoped_e env e \<Longrightarrow> Unresolved \<notin> set (ebindings e)"
  "scoped_es env es \<Longrightarrow> Unresolved \<notin> set (ebindingss es)"
  by (induction e and es rule: eheight_eheights.induct)
    (auto simp: scoped_use_def split: option.splits prod.splits)

lemma scoped_resolved_s:
  "scoped_s d env st \<Longrightarrow> Unresolved \<notin> set (sbindings st)"
  "scoped_ss d env ss \<Longrightarrow> Unresolved \<notin> set (sbindingss ss)"
  by (induction d env st and d env ss rule: scoped_s_scoped_ss.induct)
    (auto simp: scoped_opt_def ebindings_opt_def dest: scoped_resolved split: option.splits)

subsection \<open>Properties\<close>

text \<open>C11. A resolved program obeys static scoping: every use is bound to the nearest scope that
  declares its name by the number of scopes to walk up, or is global; no name is declared twice in
  a scope or read in its own initializer; no function holds more than 255 live locals or
  parameters, no call more than 255 arguments; and no return stands at top level.\<close>

theorem resolve_scoped:
  assumes "resolve p = Inr q"
  shows "scoped_ss 0 [] (pr_statements q) \<and> Unresolved \<notin> set (sbindingss (pr_statements q))"
  using resolve_ok [OF assms] scoped_resolved_s(2) by blast

theorem resolve_scoped_witness:
  "scoped_ss 0 [] [SBlock [SLet \<lparr>sv_start = 6, sv_text = ''a''\<rparr> None 1,
      SBlock [SPrint (EVariable \<lparr>sv_start = 17, sv_text = ''a''\<rparr> (LocalBinding 1) 1) 1,
        SPrint (EVariable \<lparr>sv_start = 26, sv_text = ''b''\<rparr> GlobalBinding 1) 1] 1] 1]"
proof -
  let ?p = "\<lambda>b c. [SBlock [SLet \<lparr>sv_start = 6, sv_text = ''a''\<rparr> None 1,
      SBlock [SPrint (EVariable \<lparr>sv_start = 17, sv_text = ''a''\<rparr> b 1) 1,
        SPrint (EVariable \<lparr>sv_start = 26, sv_text = ''b''\<rparr> c 1) 1] 1] 1]"
  have "resolve \<lparr>pr_source = ''{ let a; { print a; print b; } }'', pr_tokens = [], pr_statements = ?p Unresolved Unresolved\<rparr>
    = Inr \<lparr>pr_source = ''{ let a; { print a; print b; } }'', pr_tokens = [],
        pr_statements = ?p (LocalBinding 1) GlobalBinding\<rparr>"
    by code_simp
  from resolve_scoped [OF this] show ?thesis by simp
qed

text \<open>The resolver changes nothing but the bindings.\<close>

theorem resolve_keeps_tree:
  assumes "resolve p = Inr q"
  shows "unbound_ss (pr_statements q) = unbound_ss (pr_statements p) \<and>
    pr_source q = pr_source p \<and> pr_tokens q = pr_tokens p"
  using resolve_ok [OF assms] assms by (auto simp: resolve_def sbind_eq_Inr)

end
