(* ===== verification/Line_Table.thy ===== *)
theory Line_Table
  imports Prelude
begin

text \<open>
  The run-length encoded line table that both bytecode formats keep beside their code
  (\<open>LineRun\<close> in \<open>bytecode/chunk.h\<close> and \<open>bytecode/register_code.h\<close>), and its contract as a locale:
  whatever a code container appends with a line is found at that line again.
\<close>

record line_run =
  lr_offset :: nat
  lr_line :: nat

text \<open>\<open>if (lines.empty() || lines.back().line != line) lines.push_back({code.size(), line})\<close>.\<close>

definition push_run :: "nat \<Rightarrow> nat \<Rightarrow> line_run list \<Rightarrow> line_run list" where
  "push_run n line runs =
     (if runs = [] \<or> lr_line (last runs) \<noteq> line
      then runs @ [\<lparr>lr_offset = n, lr_line = line\<rparr>] else runs)"

text \<open>The run before \<open>std::upper_bound\<close>: the last one that starts at or before the offset.\<close>

definition run_line_at :: "line_run list \<Rightarrow> nat \<Rightarrow> nat" where
  "run_line_at runs offset =
     (let it = length (takeWhile (\<lambda>run. \<not> offset < lr_offset run) runs)
      in lr_line (runs ! (it - 1)))"

text \<open>\<open>covers runs ls\<close>: the runs describe a code whose items came from the lines \<open>ls\<close>.\<close>

fun covers :: "line_run list \<Rightarrow> nat list \<Rightarrow> bool" where
  "covers runs ls \<longleftrightarrow>
     (ls \<noteq> [] \<longrightarrow> runs \<noteq> [] \<and> lr_offset (hd runs) = 0 \<and> lr_line (last runs) = last ls) \<and>
     (\<forall>r\<in>set runs. lr_offset r < length ls) \<and>
     (\<forall>i<length runs. \<forall>k. lr_offset (runs ! i) \<le> k \<longrightarrow>
        k < (if Suc i < length runs then lr_offset (runs ! Suc i) else length ls) \<longrightarrow>
        ls ! k = lr_line (runs ! i)) \<and>
     sorted_wrt (<) (map lr_offset runs)"

declare covers.simps [simp del]

lemma covers_Nil: "covers [] []"
  by (simp add: covers.simps)

lemma covers_below:
  assumes "covers runs ls"
  shows "j < length runs \<Longrightarrow> lr_offset (runs ! j) < length ls"
    and "k < (if j < length runs then lr_offset (runs ! j) else length ls) \<Longrightarrow> k < length ls"
proof -
  show "lr_offset (runs ! j) < length ls" if "j < length runs" for j
    using assms that unfolding covers.simps by simp
  then show "k < (if j < length runs then lr_offset (runs ! j) else length ls) \<Longrightarrow> k < length ls"
    by (auto split: if_splits intro: less_trans)
qed

lemma covers_push:
  assumes "covers runs ls"
  shows "covers (push_run (length ls) line runs) (ls @ [line])"
proof (cases "runs = [] \<or> lr_line (last runs) \<noteq> line")
  case True
  let ?runs = "runs @ [\<lparr>lr_offset = length ls, lr_line = line\<rparr>]"
  have e: "runs = [] \<longleftrightarrow> ls = []" using assms by (cases runs) (auto simp: covers.simps)
  have "(ls @ [line]) ! k = lr_line (?runs ! i)"
    if "i < length ?runs" "lr_offset (?runs ! i) \<le> k"
      "k < (if Suc i < length ?runs then lr_offset (?runs ! Suc i) else length (ls @ [line]))" for i k
  proof (cases "i = length runs")
    case True
    then show ?thesis using that by (auto simp: nth_append)
  next
    case False
    then have i: "i < length runs" using that(1) by simp
    have "k < (if Suc i < length runs then lr_offset (runs ! Suc i) else length ls)"
      using that(3) i by (auto simp: nth_append split: if_splits)
    moreover from this have "k < length ls"
      by (rule covers_below(2) [OF assms])
    ultimately show ?thesis using assms that(2) i by (auto simp: covers.simps nth_append)
  qed
  moreover have "lr_offset (hd ?runs) = 0" "\<forall>r\<in>set ?runs. lr_offset r < length (ls @ [line])"
    "sorted_wrt (<) (map lr_offset ?runs)"
  proof -
    have o: "\<forall>r\<in>set runs. lr_offset r < length ls" using assms unfolding covers.simps by blast
    then show "\<forall>r\<in>set ?runs. lr_offset r < length (ls @ [line])" by auto
    have "sorted_wrt (<) (map lr_offset runs)" using assms unfolding covers.simps by blast
    then show "sorted_wrt (<) (map lr_offset ?runs)" using o by (auto simp: sorted_wrt_append)
    have "ls \<noteq> [] \<longrightarrow> lr_offset (hd runs) = 0" using assms unfolding covers.simps by blast
    then show "lr_offset (hd ?runs) = 0" using e by (cases runs) auto
  qed
  ultimately have "covers ?runs (ls @ [line])" unfolding covers.simps by simp
  then show ?thesis using True by (simp add: push_run_def)
next
  case False
  have ne: "ls \<noteq> []" using False assms by (cases runs) (auto simp: covers.simps)
  have "(ls @ [line]) ! k = lr_line (runs ! i)"
    if "i < length runs" "lr_offset (runs ! i) \<le> k"
      "k < (if Suc i < length runs then lr_offset (runs ! Suc i) else length (ls @ [line]))" for i k
  proof (cases "k = length ls")
    case True
    have "\<not> Suc i < length runs"
      using that(3) True covers_below(1) [OF assms, of "Suc i"] by auto
    then have "runs ! i = last runs" using that(1) by (metis One_nat_def Suc_lessI diff_Suc_1 last_conv_nth list.size(3) not_less0)
    then show ?thesis using False True by simp
  next
    case k: False
    then have "k < (if Suc i < length runs then lr_offset (runs ! Suc i) else length ls)"
      using that by (auto split: if_splits)
    moreover from this have "k < length ls"
      by (rule covers_below(2) [OF assms])
    ultimately show ?thesis using assms that(1,2) by (auto simp: covers.simps nth_append)
  qed
  moreover have "runs \<noteq> []" "lr_offset (hd runs) = 0" "\<forall>r\<in>set runs. lr_offset r < length (ls @ [line])"
    "sorted_wrt (<) (map lr_offset runs)"
    using assms ne unfolding covers.simps by (blast, blast, fastforce, blast)
  ultimately have "covers runs (ls @ [line])" using False unfolding covers.simps by simp
  then show ?thesis using False by (simp add: push_run_def)
qed

lemma run_line_at_covers:
  assumes "covers runs ls" "k < length ls"
  shows "run_line_at runs k = ls ! k"
proof -
  let ?P = "\<lambda>run. \<not> k < lr_offset run"
  have ne: "runs \<noteq> []" "lr_offset (hd runs) = 0" using assms by (auto simp: covers.simps)
  obtain i where i: "length (takeWhile ?P runs) = Suc i"
    using ne by (cases runs; cases "length (takeWhile ?P runs)") auto
  have le: "i < length runs" using length_takeWhile_le [of ?P runs] i by simp
  have "takeWhile ?P runs ! i = runs ! i" using i by (simp add: takeWhile_nth)
  moreover have "takeWhile ?P runs ! i \<in> set (takeWhile ?P runs)" using i by simp
  ultimately have "lr_offset (runs ! i) \<le> k" using set_takeWhileD [of "runs ! i" ?P runs] by simp
  moreover have "k < (if Suc i < length runs then lr_offset (runs ! Suc i) else length ls)"
    using assms(2) nth_length_takeWhile [of ?P runs] i by auto
  ultimately have "ls ! k = lr_line (runs ! i)" using assms(1) le by (simp add: covers.simps)
  then show ?thesis using i by (simp add: run_line_at_def)
qed

subsection \<open>The contract of a code container\<close>

locale line_mapped =
  fixes new_code :: 'c
    and emit_item :: "'c \<Rightarrow> 'i \<Rightarrow> nat \<Rightarrow> 'c"
    and items :: "'c \<Rightarrow> 'i list"
    and runs_of :: "'c \<Rightarrow> line_run list"
    and line_at :: "'c \<Rightarrow> nat \<Rightarrow> nat"
  assumes new_items: "items new_code = []" and new_runs: "runs_of new_code = []"
    and emit_items: "items (emit_item c i l) = items c @ [i]"
    and emit_runs: "runs_of (emit_item c i l) = push_run (length (items c)) l (runs_of c)"
    and line_at_runs: "line_at c k = run_line_at (runs_of c) k"
begin

definition emitted :: "('i \<times> nat) list \<Rightarrow> 'c" where
  "emitted xs = foldl (\<lambda>c (i, l). emit_item c i l) new_code xs"

lemma emitted_items: "items (emitted xs) = map fst xs"
  by (induction xs rule: rev_induct) (auto simp: emitted_def new_items emit_items)

lemma emitted_covers: "covers (runs_of (emitted xs)) (map snd xs)"
proof (induction xs rule: rev_induct)
  case Nil
  then show ?case by (simp add: emitted_def new_runs covers_Nil)
next
  case (snoc x xs)
  have n: "length (items (emitted xs)) = length (map snd xs)" by (simp add: emitted_items)
  have "runs_of (emitted (xs @ [x])) = push_run (length (map snd xs)) (snd x) (runs_of (emitted xs))"
    using n by (simp add: emitted_def emit_runs case_prod_beta)
  then show ?case using covers_push [OF snoc.IH, of "snd x"] by simp
qed

lemma emitted_line_at: "k < length xs \<Longrightarrow> line_at (emitted xs) k = snd (xs ! k)"
  using run_line_at_covers [OF emitted_covers, of k xs] by (simp add: line_at_runs)

end

end
