(* ===== verification/Chunk.thy ===== *)
theory Chunk
  imports Value Line_Table
begin

text \<open>
  \<open>bytecode/chunk.h\<close> and \<open>chunk.cpp\<close>: the stack VM's bytecode. Opcodes, three-byte operands and
  the chunk of one function (code, constants and line table).
\<close>

datatype opcode =
    OpConst | OpNil | OpTrue | OpFalse | OpPop
  | OpGetLocal | OpSetLocal | OpGetGlobal | OpSetGlobal | OpDefineGlobal | OpGetUpvalue | OpSetUpvalue
  | OpAdd | OpSub | OpMul | OpDiv | OpMod | OpNeg | OpNot | OpEq | OpNe | OpLt | OpLe | OpGt | OpGe
  | OpJump | OpJumpIfFalse | OpLoop
  | OpCall | OpClosure | OpCloseUpvalue | OpReturn
  | OpPrint | OpArray | OpIndexGet | OpIndexSet

type_synonym byte = "8 word"

definition opcodes :: "opcode list" where
  "opcodes =
     [OpConst, OpNil, OpTrue, OpFalse, OpPop,
      OpGetLocal, OpSetLocal, OpGetGlobal, OpSetGlobal, OpDefineGlobal, OpGetUpvalue, OpSetUpvalue,
      OpAdd, OpSub, OpMul, OpDiv, OpMod, OpNeg, OpNot, OpEq, OpNe, OpLt, OpLe, OpGt, OpGe,
      OpJump, OpJumpIfFalse, OpLoop,
      OpCall, OpClosure, OpCloseUpvalue, OpReturn,
      OpPrint, OpArray, OpIndexGet, OpIndexSet]"

text \<open>The enumerator's number, and the opcode a byte stands for.\<close>

definition op_byte :: "opcode \<Rightarrow> byte" where
  "op_byte op = of_nat (length (takeWhile (\<lambda>x. x \<noteq> op) opcodes))"

definition op_of_byte :: "byte \<Rightarrow> opcode option" where
  "op_of_byte b = (if unat b < length opcodes then Some (opcodes ! unat b) else None)"

lemma op_of_byte_op_byte: "op_of_byte (op_byte op) = Some op"
  by (cases op) (simp_all add: op_byte_def op_of_byte_def opcodes_def)

subsection \<open>Three-byte operands\<close>

definition kMaxU24 :: "32 word" where "kMaxU24 = 0xFFFFFF"

definition put_u24 :: "32 word \<Rightarrow> byte list" where
  "put_u24 v = [ucast (drop_bit 16 v), ucast (drop_bit 8 v), ucast v]"

definition get_u24 :: "byte list \<Rightarrow> 32 word" where
  "get_u24 p = push_bit 16 (ucast (p ! 0)) OR (push_bit 8 (ucast (p ! 1)) OR ucast (p ! 2))"

lemma get_put_u24: "get_u24 (put_u24 v) = take_bit 24 v"
proof (rule bit_word_eqI)
  fix n
  assume "n < LENGTH(32)"
  then consider "n < 8" | "8 \<le> n" "n < 16" | "16 \<le> n" "n < 24" | "24 \<le> n" by linarith
  then show "bit (get_u24 (put_u24 v)) n = bit (take_bit 24 v) n"
    by cases (auto simp: get_u24_def put_u24_def bit_simps)
qed

lemma put_get_u24: "put_u24 (get_u24 [x, y, z]) = [x, y, z]"
proof -
  have "ucast (drop_bit 16 (get_u24 [x, y, z])) = x" "ucast (drop_bit 8 (get_u24 [x, y, z])) = y"
    "ucast (get_u24 [x, y, z]) = z"
    by (rule bit_word_eqI, auto simp: get_u24_def bit_simps dest: bit_imp_le_length)+
  then show ?thesis by (simp add: put_u24_def)
qed

lemma take_24: "v \<le> kMaxU24 \<Longrightarrow> take_bit 24 v = v"
proof -
  assume "v \<le> kMaxU24"
  then have "uint v \<le> 0xFFFFFF" by (simp add: kMaxU24_def word_le_def)
  then have "take_bit 24 (uint v) = uint v" by (simp add: take_bit_int_eq_self_iff)
  then show ?thesis by (simp add: word_uint_eq_iff unsigned_take_bit_eq)
qed

subsection \<open>Chunks\<close>

record chunk =
  ch_code :: "byte list"
  ch_constants :: "value list"
  ch_lines :: "line_run list"

definition empty_chunk :: chunk where
  "empty_chunk = \<lparr>ch_code = [], ch_constants = [], ch_lines = []\<rparr>"

definition emit_byte :: "byte \<Rightarrow> nat \<Rightarrow> chunk \<Rightarrow> chunk" where
  "emit_byte b line c =
     c\<lparr>ch_lines := push_run (length (ch_code c)) line (ch_lines c), ch_code := ch_code c @ [b]\<rparr>"

definition emit_op :: "opcode \<Rightarrow> nat \<Rightarrow> chunk \<Rightarrow> chunk" where
  "emit_op op line c = emit_byte (op_byte op) line c"

definition emit_u24 :: "32 word \<Rightarrow> nat \<Rightarrow> chunk \<Rightarrow> chunk" where
  "emit_u24 v line c =
     emit_byte (ucast v) line
       (emit_byte (ucast (drop_bit 8 v)) line (emit_byte (ucast (drop_bit 16 v)) line c))"

definition add_constant :: "value \<Rightarrow> chunk \<Rightarrow> nat \<times> chunk" where
  "add_constant v c = (length (ch_constants c), c\<lparr>ch_constants := ch_constants c @ [v]\<rparr>)"

definition line_at :: "chunk \<Rightarrow> nat \<Rightarrow> nat" where
  "line_at c offset = run_line_at (ch_lines c) offset"

interpretation chunk_lines: line_mapped empty_chunk "\<lambda>c b l. emit_byte b l c" ch_code ch_lines line_at
  by unfold_locales (simp_all add: empty_chunk_def emit_byte_def line_at_def)

lemma emit_u24_code: "ch_code (emit_u24 v l c) = ch_code c @ put_u24 v"
  by (simp add: emit_u24_def emit_byte_def put_u24_def)

subsection \<open>Properties\<close>

text \<open>A three-byte operand that fits is read back as it was written, and every three bytes are
  the operand they are read as.\<close>

theorem u24_round_trip:
  assumes "v \<le> kMaxU24"
  shows "get_u24 (put_u24 v) = v \<and> ch_code (emit_u24 v l c) = ch_code c @ put_u24 v \<and>
    put_u24 (get_u24 [x, y, z]) = [x, y, z]"
  using get_put_u24 [of v] take_24 [OF assms] by (simp add: emit_u24_code put_get_u24)

text \<open>C12. The line table loses nothing: after any sequence of emitted bytes, the line of each byte
  is the line it was emitted with.\<close>

theorem chunk_line_at:
  assumes "k < length xs"
  shows "line_at (foldl (\<lambda>c (b, l). emit_byte b l c) empty_chunk xs) k = snd (xs ! k)"
  using chunk_lines.emitted_line_at [OF assms] by (simp add: chunk_lines.emitted_def)

theorem chunk_line_at_witness:
  "line_at (foldl (\<lambda>c (b, l). emit_byte b l c) empty_chunk [(0, 3), (1, 3), (2, 7), (0, 5)]) 2 = 7"
  using chunk_line_at [of 2 "[(0, 3), (1, 3), (2, 7), (0, 5)]"] by simp

end
