(* ===== verification/Reg_Code.thy ===== *)
theory Reg_Code
  imports Chunk
begin

text \<open>
  \<open>bytecode/register_code.h\<close>, \<open>register_code.cpp\<close> and \<open>superinstructions.cpp\<close>: the register VM's
  instruction words, the chunk of one function, and the pass that fuses adjacent instructions into
  superinstructions by rewriting the opcode byte of the first.
\<close>

subsection \<open>Opcodes\<close>

datatype regop =
    RgMove | RgLoadK | RgLoadNil | RgLoadTrue | RgLoadFalse
  | RgGetGlobal | RgSetGlobal | RgDefineGlobal | RgGetUpvalue | RgSetUpvalue
  | RgAdd | RgSub | RgMul | RgDiv | RgMod | RgEq | RgNe | RgLt | RgLe | RgGt | RgGe | RgNeg | RgNot
  | RgJump | RgJumpIfFalse | RgJumpIfTrue
  | RgCall | RgClosure | RgCapture | RgClose | RgReturn | RgReturnNil
  | RgPrint | RgArray | RgArrayAppend | RgIndexGet | RgIndexSet
  | RgLtJumpIfFalse | RgLeJumpIfFalse | RgAddJump | RgModAdd | RgDivAdd | RgIndexSetAdd

definition regops :: "regop list" where
  "regops =
     [RgMove, RgLoadK, RgLoadNil, RgLoadTrue, RgLoadFalse,
      RgGetGlobal, RgSetGlobal, RgDefineGlobal, RgGetUpvalue, RgSetUpvalue,
      RgAdd, RgSub, RgMul, RgDiv, RgMod, RgEq, RgNe, RgLt, RgLe, RgGt, RgGe, RgNeg, RgNot,
      RgJump, RgJumpIfFalse, RgJumpIfTrue,
      RgCall, RgClosure, RgCapture, RgClose, RgReturn, RgReturnNil,
      RgPrint, RgArray, RgArrayAppend, RgIndexGet, RgIndexSet,
      RgLtJumpIfFalse, RgLeJumpIfFalse, RgAddJump, RgModAdd, RgDivAdd, RgIndexSetAdd]"

definition rg_byte :: "regop \<Rightarrow> byte" where
  "rg_byte op = of_nat (length (takeWhile (\<lambda>x. x \<noteq> op) regops))"

definition rg_of_byte :: "byte \<Rightarrow> regop option" where
  "rg_of_byte b = (if unat b < length regops then Some (regops ! unat b) else None)"

definition kFusedPairs :: "(regop \<times> regop \<times> regop) list" where
  "kFusedPairs =
     [(RgLtJumpIfFalse, RgLt, RgJumpIfFalse), (RgLeJumpIfFalse, RgLe, RgJumpIfFalse),
      (RgAddJump, RgAdd, RgJump), (RgModAdd, RgMod, RgAdd), (RgDivAdd, RgDiv, RgAdd),
      (RgIndexSetAdd, RgIndexSet, RgAdd)]"

definition kFirstFusedOp :: nat where
  "kFirstFusedOp = length regops - length kFusedPairs"

text \<open>A \<open>RegOp\<close> read from a word may be any byte, so these take the byte.\<close>

definition is_fused :: "byte \<Rightarrow> bool" where
  "is_fused b \<longleftrightarrow> kFirstFusedOp \<le> unat b"

definition fused_first :: "byte \<Rightarrow> byte" where
  "fused_first b = rg_byte (fst (snd (kFusedPairs ! (unat b - kFirstFusedOp))))"

definition fused_second :: "byte \<Rightarrow> byte" where
  "fused_second b = rg_byte (snd (snd (kFusedPairs ! (unat b - kFirstFusedOp))))"

definition fuse_pair :: "byte \<Rightarrow> byte \<Rightarrow> byte" where
  "fuse_pair first second =
     (case find (\<lambda>(_, f, s). rg_byte f = first \<and> rg_byte s = second) kFusedPairs of
        Some (fused, _) \<Rightarrow> rg_byte fused
      | None \<Rightarrow> first)"

lemma rg_of_byte_rg_byte: "rg_of_byte (rg_byte op) = Some op"
  by (cases op) (simp_all add: rg_byte_def rg_of_byte_def regops_def)

subsection \<open>Instruction words\<close>

type_synonym instruction = "64 word"

definition kFlagBConst :: byte where "kFlagBConst = 1"
definition kFlagCConst :: byte where "kFlagCConst = 2"
definition kMaxRegister :: "32 word" where "kMaxRegister = 0xFFFF"
definition kMaxRkConstant :: "32 word" where "kMaxRkConstant = 0xFFFF"
definition kArrayBatch :: nat where "kArrayBatch = 50"

definition make_abc :: "byte \<Rightarrow> 32 word \<Rightarrow> 32 word \<Rightarrow> 32 word \<Rightarrow> byte \<Rightarrow> instruction" where
  "make_abc op a b c flags =
     ucast op OR (push_bit 8 (ucast (a AND 0xFFFF)) OR (push_bit 24 (ucast (b AND 0xFFFF)) OR
       (push_bit 40 (ucast (c AND 0xFFFF)) OR push_bit 56 (ucast flags))))"

definition make_abx :: "byte \<Rightarrow> 32 word \<Rightarrow> 32 word \<Rightarrow> instruction" where
  "make_abx op a bx = ucast op OR (push_bit 8 (ucast (a AND 0xFFFF)) OR push_bit 24 (ucast bx))"

text \<open>\<open>sBx\<close> is the signed reading of the same 32 bits: conversions keep the word.\<close>

definition make_asbx :: "byte \<Rightarrow> 32 word \<Rightarrow> 32 word \<Rightarrow> instruction" where
  "make_asbx op a sbx = make_abx op a sbx"

definition insn_op :: "instruction \<Rightarrow> byte" where "insn_op i = ucast (i AND 0xFF)"
definition insn_a :: "instruction \<Rightarrow> 32 word" where "insn_a i = ucast (drop_bit 8 i) AND 0xFFFF"
definition insn_b :: "instruction \<Rightarrow> 32 word" where "insn_b i = ucast (drop_bit 24 i) AND 0xFFFF"
definition insn_c :: "instruction \<Rightarrow> 32 word" where "insn_c i = ucast (drop_bit 40 i) AND 0xFFFF"
definition insn_bx :: "instruction \<Rightarrow> 32 word" where "insn_bx i = ucast (drop_bit 24 i)"
definition insn_sbx :: "instruction \<Rightarrow> int" where "insn_sbx i = sint (insn_bx i)"
definition insn_flags :: "instruction \<Rightarrow> byte" where "insn_flags i = ucast (drop_bit 56 i)"

lemma and_masks: "x AND (0xFFFF :: 32 word) = take_bit 16 x" "y AND (0xFF :: 64 word) = take_bit 8 y"
  using take_bit_eq_mask [of 16 x] take_bit_eq_mask [of 8 y] by (simp_all add: mask_eq_exp_minus_1)

lemma make_abc_fields:
  "insn_op (make_abc op a b c f) = op" "insn_a (make_abc op a b c f) = take_bit 16 a"
  "insn_b (make_abc op a b c f) = take_bit 16 b" "insn_c (make_abc op a b c f) = take_bit 16 c"
  "insn_flags (make_abc op a b c f) = f"
  unfolding insn_op_def insn_a_def insn_b_def insn_c_def insn_flags_def make_abc_def and_masks
  by (rule bit_word_eqI, auto simp: bit_simps dest: bit_imp_le_length)+

lemma make_abx_fields:
  "insn_op (make_abx op a bx) = op" "insn_a (make_abx op a bx) = take_bit 16 a"
  "insn_bx (make_abx op a bx) = bx"
  unfolding insn_op_def insn_a_def insn_bx_def make_abx_def and_masks
  by (rule bit_word_eqI, auto simp: bit_simps dest: bit_imp_le_length)+

lemma take_16: "x \<le> 0xFFFF \<Longrightarrow> take_bit 16 x = (x :: 32 word)"
proof -
  assume "x \<le> 0xFFFF"
  then have "uint x \<le> 0xFFFF" by (simp add: word_le_def)
  then have "take_bit 16 (uint x) = uint x" by (simp add: take_bit_int_eq_self_iff)
  then show ?thesis by (simp add: word_uint_eq_iff unsigned_take_bit_eq)
qed

text \<open>The same words and fields in arithmetic, the equations evaluation uses.\<close>

lemma disjoint_or: "(\<And>n. \<not> bit a n \<or> \<not> bit b n) \<Longrightarrow> a OR b = (a + b :: instruction)"
  by (simp add: disjunctive_add)

lemma ucast_low: "(ucast (x AND 0xFFFF :: 32 word) :: instruction) = word_of_int (uint x mod 65536)"
  unfolding and_masks
  by (simp add: word_uint_eq_iff unsigned_ucast_eq unsigned_take_bit_eq uint_word_of_int take_bit_int_def mod_mod_cancel)

lemma uint_instruction: "uint i mod 18446744073709551616 = uint (i :: instruction)"
  using uint_lt2p [of i] by (simp del: uint_lt2p)

lemma uint_top_byte: "uint i div 72057594037927936 mod 256 = uint (i :: instruction) div 72057594037927936"
  using uint_lt2p [of i] uint_ge_0 [of i] by (intro mod_pos_pos_trivial) (simp_all add: pos_imp_zdiv_nonneg_iff int_div_less_self)

lemma make_abc_code [code]:
  "make_abc op a b c flags = word_of_int (uint op + (256 * (uint a mod 65536) + (16777216 * (uint b mod 65536) +
     (1099511627776 * (uint c mod 65536) + 72057594037927936 * uint flags))))"
proof -
  have p: "push_bit 8 w = 256 * w" "push_bit 24 w = 16777216 * w" "push_bit 40 w = 1099511627776 * w"
    "push_bit 56 w = 72057594037927936 * w" for w :: instruction
    by (simp_all add: push_bit_eq_mult)
  let ?d = "push_bit 56 (ucast flags) :: instruction"
  let ?c = "push_bit 40 (ucast (c AND 0xFFFF)) :: instruction"
  let ?b = "push_bit 24 (ucast (b AND 0xFFFF)) :: instruction"
  let ?a = "push_bit 8 (ucast (a AND 0xFFFF)) :: instruction"
  have "?c OR ?d = ?c + ?d"
    by (rule disjoint_or) (auto simp: bit_simps and_masks dest: bit_imp_le_length)
  moreover have "?b OR (?c OR ?d) = ?b + (?c OR ?d)"
    by (rule disjoint_or) (auto simp: bit_simps and_masks dest: bit_imp_le_length)
  moreover have "?a OR (?b OR (?c OR ?d)) = ?a + (?b OR (?c OR ?d))"
    by (rule disjoint_or) (auto simp: bit_simps and_masks dest: bit_imp_le_length)
  moreover have "ucast op OR (?a OR (?b OR (?c OR ?d))) = ucast op + (?a OR (?b OR (?c OR ?d)))"
    by (rule disjoint_or) (auto simp: bit_simps and_masks dest: bit_imp_le_length)
  ultimately have "make_abc op a b c flags = ucast op + (?a + (?b + (?c + ?d)))"
    unfolding make_abc_def by simp
  then show ?thesis unfolding p ucast_low by (simp add: word_of_int_uint)
qed

lemma make_abx_code [code]:
  "make_abx op a bx = word_of_int (uint op + (256 * (uint a mod 65536) + 16777216 * uint bx))"
proof -
  have p: "push_bit 8 w = 256 * w" "push_bit 24 w = 16777216 * w" for w :: instruction
    by (simp_all add: push_bit_eq_mult)
  let ?b = "push_bit 24 (ucast bx) :: instruction"
  let ?a = "push_bit 8 (ucast (a AND 0xFFFF)) :: instruction"
  have "?a OR ?b = ?a + ?b"
    by (rule disjoint_or) (auto simp: bit_simps and_masks dest: bit_imp_le_length)
  moreover have "ucast op OR (?a OR ?b) = ucast op + (?a OR ?b)"
    by (rule disjoint_or) (auto simp: bit_simps and_masks dest: bit_imp_le_length)
  ultimately have "make_abx op a bx = ucast op + (?a + ?b)"
    unfolding make_abx_def by simp
  then show ?thesis unfolding p ucast_low by (simp add: word_of_int_uint)
qed

lemma insn_code [code]:
  "insn_op i = word_of_int (uint i mod 256)"
  "insn_a i = word_of_int (uint i div 256 mod 65536)"
  "insn_b i = word_of_int (uint i div 16777216 mod 65536)"
  "insn_c i = word_of_int (uint i div 1099511627776 mod 65536)"
  "insn_bx i = word_of_int (uint i div 16777216 mod 4294967296)"
  "insn_flags i = word_of_int (uint i div 72057594037927936 mod 256)"
  unfolding insn_op_def insn_a_def insn_b_def insn_c_def insn_bx_def insn_flags_def and_masks
  by (simp_all add: word_uint_eq_iff unsigned_ucast_eq unsigned_take_bit_eq uint_word_of_int take_bit_int_def
    unsigned_drop_bit_eq drop_bit_int_def drop_bit_take_bit mod_mod_cancel uint_instruction uint_top_byte)
lemma insn_sbx_code [code]:
  "insn_sbx i = (let b = uint i div 16777216 mod 4294967296 in if b < 2147483648 then b else b - 4294967296)"
proof -
  have b: "uint (insn_bx i) = uint i div 16777216 mod 4294967296"
    by (simp add: insn_code uint_word_of_int)
  have odd: "odd (u div 2147483648)" if "\<not> u < 2147483648" "u < 4294967296" for u :: int
  proof -
    have "u div 2147483648 = (u - 2147483648) div 2147483648 + 1" by (simp add: div_add_self2 [symmetric] del: div_add_self2)
    also have "(u - 2147483648) div 2147483648 = 0" using that by (intro div_pos_pos_trivial) simp_all
    finally show ?thesis by simp
  qed
  show ?thesis
    unfolding insn_sbx_def b [symmetric] Let_def using uint_lt2p [of "insn_bx i"] odd [of "uint (insn_bx i)"]
    by (simp add: sint_uint signed_take_bit_eq_take_bit_minus take_bit_int_eq_self bit_iff_odd_drop_bit drop_bit_int_def take_bit_int_def)
qed

subsection \<open>Chunks\<close>

record reg_chunk =
  rc_code :: "instruction list"
  rc_constants :: "value list"
  rc_lines :: "line_run list"
  rc_frame_size :: nat

definition empty_reg_chunk :: reg_chunk where
  "empty_reg_chunk = \<lparr>rc_code = [], rc_constants = [], rc_lines = [], rc_frame_size = 0\<rparr>"

definition reg_emit :: "instruction \<Rightarrow> nat \<Rightarrow> reg_chunk \<Rightarrow> nat \<times> reg_chunk" where
  "reg_emit insn line c =
     (length (rc_code c),
      c\<lparr>rc_lines := push_run (length (rc_code c)) line (rc_lines c), rc_code := rc_code c @ [insn]\<rparr>)"

definition reg_add_constant :: "value \<Rightarrow> reg_chunk \<Rightarrow> nat \<times> reg_chunk" where
  "reg_add_constant v c = (length (rc_constants c), c\<lparr>rc_constants := rc_constants c @ [v]\<rparr>)"

definition reg_line_at :: "reg_chunk \<Rightarrow> nat \<Rightarrow> nat" where
  "reg_line_at c index = run_line_at (rc_lines c) index"

interpretation reg_lines: line_mapped empty_reg_chunk "\<lambda>c i l. snd (reg_emit i l c)" rc_code rc_lines reg_line_at
  by unfold_locales (simp_all add: empty_reg_chunk_def reg_emit_def reg_line_at_def)

subsection \<open>Superinstructions\<close>

text \<open>\<open>(code[index] & ~Instruction{0xFF}) | static_cast<Instruction>(fused_op)\<close>.\<close>

definition with_op :: "instruction \<Rightarrow> byte \<Rightarrow> instruction" where
  "with_op i op = (i AND NOT 0xFF) OR ucast op"

text \<open>The loop over the index, which looks at two words at a time and moves forward only, is
  recursion over the rest of the code.\<close>

fun fuse_from :: "instruction list \<Rightarrow> nat \<times> instruction list" where
  "fuse_from (w # v # code) =
     (if is_fused (insn_op w)
      then (let (n, code) = fuse_from code in (n, w # v # code))
      else
        let fused_op = fuse_pair (insn_op w) (insn_op v)
        in if fused_op = insn_op w
           then (let (n, code) = fuse_from (v # code) in (n, w # code))
           else (let (n, code) = fuse_from code in (n + 1, with_op w fused_op # v # code)))"
| "fuse_from code = (0, code)"

definition fuse_superinstructions :: "reg_chunk \<Rightarrow> nat \<times> reg_chunk" where
  "fuse_superinstructions c = (let (n, code) = fuse_from (rc_code c) in (n, c\<lparr>rc_code := code\<rparr>))"

subsection \<open>What fusing keeps\<close>

lemma with_op_fields:
  "insn_op (with_op w op) = op" "insn_a (with_op w op) = insn_a w" "insn_b (with_op w op) = insn_b w"
  "insn_c (with_op w op) = insn_c w" "insn_bx (with_op w op) = insn_bx w"
  "insn_flags (with_op w op) = insn_flags w"
proof -
  have m: "(0xFF :: 64 word) = mask 8" by (simp add: mask_eq_exp_minus_1)
  show "insn_op (with_op w op) = op"
    unfolding insn_op_def with_op_def m
    by (rule bit_word_eqI) (auto simp: bit_simps dest: bit_imp_le_length)
  show "insn_a (with_op w op) = insn_a w" "insn_b (with_op w op) = insn_b w"
    "insn_c (with_op w op) = insn_c w" "insn_bx (with_op w op) = insn_bx w"
    "insn_flags (with_op w op) = insn_flags w"
    unfolding insn_a_def insn_b_def insn_c_def insn_bx_def insn_flags_def with_op_def m and_masks
    by (rule bit_word_eqI, auto simp: bit_simps dest: bit_imp_le_length)+
qed

lemma with_op_again: "with_op (with_op w op) (insn_op w) = w"
proof -
  have m: "(0xFF :: 64 word) = mask 8" by (simp add: mask_eq_exp_minus_1)
  show ?thesis
    unfolding with_op_def insn_op_def m
    by (rule bit_word_eqI) (auto simp: bit_simps dest: bit_imp_le_length)
qed

lemma with_op_code [code]: "with_op i op = word_of_int (uint i - uint i mod 256 + uint op)"
proof -
  have m: "(0xFF :: 64 word) = mask 8" by (simp add: mask_eq_exp_minus_1)
  have "with_op i op = (i AND NOT 0xFF) + ucast op"
    unfolding with_op_def m by (rule disjoint_or) (auto simp: bit_simps dest: bit_imp_le_length)
  moreover have "i = (i AND NOT 0xFF) + (i AND 0xFF)"
    unfolding m by (subst disjoint_or [symmetric]) (auto simp: bit_simps intro!: bit_word_eqI)
  moreover have "(i AND 0xFF) = word_of_int (uint i mod 256)"
    unfolding and_masks by (simp add: word_uint_eq_iff unsigned_take_bit_eq uint_word_of_int take_bit_int_def mod_mod_cancel)
  ultimately have "with_op i op = i - word_of_int (uint i mod 256) + ucast op"
    by (metis add_diff_cancel_right')
  then show ?thesis by (simp add: word_of_int_uint of_int_diff)
qed

lemma fused_table:
  "list_all (\<lambda>(x, f, s). is_fused (rg_byte x) \<and> fused_first (rg_byte x) = rg_byte f \<and>
     fused_second (rg_byte x) = rg_byte s \<and> \<not> is_fused (rg_byte s)) kFusedPairs"
  by code_simp

lemma fuse_pair_cases:
  "fuse_pair a b = a \<or>
   is_fused (fuse_pair a b) \<and> fused_first (fuse_pair a b) = a \<and> fused_second (fuse_pair a b) = b \<and> \<not> is_fused b"
proof (cases "find (\<lambda>(_, f, s). rg_byte f = a \<and> rg_byte s = b) kFusedPairs")
  case None
  then show ?thesis by (simp add: fuse_pair_def)
next
  case (Some p)
  obtain x f s where p: "p = (x, f, s)" by (cases p)
  have m: "(x, f, s) \<in> set kFusedPairs" and "rg_byte f = a" "rg_byte s = b"
    using Some p by (auto simp: find_Some_iff in_set_conv_nth)
  then have "is_fused (rg_byte x) \<and> fused_first (rg_byte x) = a \<and> fused_second (rg_byte x) = b \<and> \<not> is_fused b"
    using fused_table [unfolded list_all_iff, rule_format, OF m] by simp
  then show ?thesis using Some p by (simp add: fuse_pair_def)
qed

lemma fuse_pair_fused_second: "is_fused b \<Longrightarrow> fuse_pair a b = a"
  using fuse_pair_cases [of a b] by blast

text \<open>The program before fusing, recovered word by word.\<close>

definition unfuse_word :: "instruction \<Rightarrow> instruction" where
  "unfuse_word w = (if is_fused (insn_op w) then with_op w (fused_first (insn_op w)) else w)"

text \<open>Every fused word stands before the instruction its opcode names as its second half, which is
  not fused itself: the VM reads it as an operand word or, after a jump to it, as an instruction.\<close>

fun paired :: "instruction list \<Rightarrow> bool" where
  "paired (w # v # code) \<longleftrightarrow>
     (if is_fused (insn_op w)
      then insn_op v = fused_second (insn_op w) \<and> \<not> is_fused (insn_op v) \<and> paired code
      else paired (v # code))"
| "paired [w] \<longleftrightarrow> \<not> is_fused (insn_op w)"
| "paired [] \<longleftrightarrow> True"

lemma fuse_from_unfuse:
  "\<forall>w\<in>set code. \<not> is_fused (insn_op w) \<Longrightarrow> map unfuse_word (snd (fuse_from code)) = code"
proof (induction code rule: fuse_from.induct)
  case (1 w v code)
  have n: "\<not> is_fused (insn_op w)" "\<not> is_fused (insn_op v)" using "1.prems" by auto
  show ?case
  proof (cases "fuse_pair (insn_op w) (insn_op v) = insn_op w")
    case True
    have "map unfuse_word (snd (fuse_from (v # code))) = v # code"
      using "1.IH"(2) [OF n(1) refl True] "1.prems" by simp
    moreover have "unfuse_word w = w" using n by (simp add: unfuse_word_def)
    ultimately show ?thesis using True n by (simp add: case_prod_beta)
  next
    case False
    have "map unfuse_word (snd (fuse_from code)) = code"
      using "1.IH"(3) [OF n(1) refl False] "1.prems" by simp
    moreover have "unfuse_word (with_op w (fuse_pair (insn_op w) (insn_op v))) = w"
      using fuse_pair_cases [of "insn_op w" "insn_op v"] False
      by (simp add: unfuse_word_def with_op_fields with_op_again)
    moreover have "unfuse_word v = v" using n by (simp add: unfuse_word_def)
    ultimately show ?thesis using False n by (simp add: case_prod_beta Let_def)
  qed
qed (auto simp: unfuse_word_def)

lemma fuse_from_hd: "code \<noteq> [] \<Longrightarrow> \<exists>w us. snd (fuse_from code) = w # us \<and> (insn_op w = insn_op (hd code) \<or> is_fused (insn_op w))"
  using fuse_pair_cases
  by (cases code rule: fuse_from.cases) (auto simp: case_prod_beta Let_def with_op_fields)

lemma fuse_from_paired:
  "\<forall>w\<in>set code. \<not> is_fused (insn_op w) \<Longrightarrow> paired (snd (fuse_from code))"
proof (induction code rule: fuse_from.induct)
  case (1 w v code)
  have n: "\<not> is_fused (insn_op w)" "\<not> is_fused (insn_op v)" using "1.prems" by auto
  show ?case
  proof (cases "fuse_pair (insn_op w) (insn_op v) = insn_op w")
    case True
    obtain x us where x: "snd (fuse_from (v # code)) = x # us" using fuse_from_hd [of "v # code"] by auto
    have "paired (snd (fuse_from (v # code)))" using "1.IH"(2) [OF n(1) refl True] "1.prems" by simp
    then show ?thesis using True n x by (simp add: case_prod_beta)
  next
    case False
    have "paired (snd (fuse_from code))" using "1.IH"(3) [OF n(1) refl False] "1.prems" by simp
    then show ?thesis using False n fuse_pair_cases [of "insn_op w" "insn_op v"]
      by (simp add: case_prod_beta Let_def with_op_fields)
  qed
qed auto

lemma fuse_from_again: "fuse_from (snd (fuse_from code)) = (0, snd (fuse_from code))"
proof (induction code rule: fuse_from.induct)
  case (1 w v code)
  show ?case
  proof (cases "is_fused (insn_op w)")
    case True
    then show ?thesis using "1.IH"(1) by (simp add: case_prod_beta)
  next
    case n: False
    show ?thesis
    proof (cases "fuse_pair (insn_op w) (insn_op v) = insn_op w")
      case True
      obtain x us where x: "snd (fuse_from (v # code)) = x # us" "insn_op x = insn_op v \<or> is_fused (insn_op x)"
        using fuse_from_hd [of "v # code"] by auto
      have "fuse_pair (insn_op w) (insn_op x) = insn_op w"
        using x(2) True fuse_pair_fused_second by auto
      then show ?thesis using "1.IH"(2) [OF n refl True] n True x(1) by (simp add: case_prod_beta)
    next
      case False
      then show ?thesis using "1.IH"(3) [OF n refl False] n fuse_pair_cases [of "insn_op w" "insn_op v"]
        by (simp add: case_prod_beta Let_def with_op_fields)
    qed
  qed
qed auto

subsection \<open>Properties\<close>

text \<open>The fields of an instruction word are read back as they were written, whatever the other
  fields hold.\<close>

theorem instruction_round_trip:
  assumes "a \<le> kMaxRegister" "b \<le> kMaxRegister" "c \<le> kMaxRegister"
  shows "insn_op (make_abc op a b c f) = op \<and> insn_a (make_abc op a b c f) = a \<and>
    insn_b (make_abc op a b c f) = b \<and> insn_c (make_abc op a b c f) = c \<and>
    insn_flags (make_abc op a b c f) = f \<and>
    insn_op (make_asbx op a d) = op \<and> insn_a (make_asbx op a d) = a \<and> insn_sbx (make_asbx op a d) = sint d"
  using assms take_16 by (simp add: make_abc_fields make_asbx_def make_abx_fields insn_sbx_def kMaxRegister_def)

theorem instruction_round_trip_witness:
  "insn_b (make_abc 10 3 65535 4 2) = 65535 \<and> insn_sbx (make_asbx 23 0 (- 5)) = - 5"
  using instruction_round_trip [of 3 65535 4 10 2 0] instruction_round_trip [of 0 0 0 23 0 "- 5"]
  by (simp add: kMaxRegister_def)

text \<open>C13. Fusing superinstructions is reversible and moves nothing: the words are as many as before,
  putting the first half's opcode back recovers the code, and every fused word stands before its
  unfused second half.\<close>

theorem fuse_recoverable:
  assumes "\<forall>w\<in>set (rc_code c). \<not> is_fused (insn_op w)" "fuse_superinstructions c = (n, d)"
  shows "map unfuse_word (rc_code d) = rc_code c \<and> paired (rc_code d) \<and> rc_lines d = rc_lines c \<and>
    rc_constants d = rc_constants c"
  using assms fuse_from_unfuse fuse_from_paired
  by (auto simp: fuse_superinstructions_def case_prod_beta)

theorem fuse_recoverable_witness:
  "map unfuse_word (rc_code (snd (fuse_superinstructions
      (empty_reg_chunk\<lparr>rc_code := [make_abc (rg_byte RgLt) 1 2 3 0, make_asbx (rg_byte RgJumpIfFalse) 1 7]\<rparr>)))) =
   [make_abc (rg_byte RgLt) 1 2 3 0, make_asbx (rg_byte RgJumpIfFalse) 1 7]"
proof -
  let ?c = "empty_reg_chunk\<lparr>rc_code := [make_abc (rg_byte RgLt) 1 2 3 0, make_asbx (rg_byte RgJumpIfFalse) 1 7]\<rparr>"
  obtain n d where d: "fuse_superinstructions ?c = (n, d)" by (cases "fuse_superinstructions ?c")
  have "\<forall>w\<in>set (rc_code ?c). \<not> is_fused (insn_op w)"
    by (simp add: make_abc_fields make_asbx_def make_abx_fields is_fused_def kFirstFusedOp_def
        kFusedPairs_def rg_byte_def regops_def)
  from fuse_recoverable [OF this d] show ?thesis by (simp add: d)
qed

text \<open>Running the pass twice changes nothing more and counts no more pairs.\<close>

theorem fuse_idempotent:
  "fuse_superinstructions (snd (fuse_superinstructions c)) = (0, snd (fuse_superinstructions c))"
  using fuse_from_again [of "rc_code c"] by (simp add: fuse_superinstructions_def case_prod_beta)

end
