(* ===== verification/Heap.thy ===== *)
theory Heap
  imports Ast Reg_Code
begin

text \<open>
  \<open>runtime/object.h\<close>, \<open>object.cpp\<close>, \<open>function.h\<close>, \<open>heap.h\<close> and \<open>heap.cpp\<close>: the heap objects, the
  interned strings and the mark-sweep collector. The heap's intrusive list is a list of cells,
  newest first: an address, the mark bit and the object. An address is a number that \<open>allocate\<close>
  takes from a counter, so that a pointer to a freed object never becomes valid again. The root
  markers are not kept in the heap: an operation that may collect takes the addresses they mark,
  \<open>roots\<close>, as an argument. \<open>sz\<close> is the number of bytes an object accounts for, which depends on
  the capacities the standard library chose.
\<close>

subsection \<open>Objects\<close>

datatype native_fn = NativeClock | NativeLen | NativeArray

record fn_decl =
  fd_name :: sview
  fd_params :: "sview list"
  fd_body :: "stmt list"

record function_object =
  fo_name :: "addr option"
  fo_arity :: nat
  fo_upvalue_count :: nat
  fo_chunk :: chunk
  fo_reg :: reg_chunk

text \<open>An upvalue's \<open>location\<close> is a stack slot while it is open and its own \<open>closed\<close> field after.\<close>

datatype upvalue_location = OpenAt nat | ClosedHere

record upvalue_object =
  uv_location :: upvalue_location
  uv_closed :: "value"

datatype obj =
    OString string
  | OArray "value list"
  | ONative string nat native_fn
  | OFunction function_object
  | OClosure addr "addr option list"
  | OUpvalue upvalue_object
  | OEnvironment "(addr \<times> value) list" "addr option"
  | OTreeFunction addr fn_decl "addr option"

text \<open>32-bit FNV-1a over the bytes of a string.\<close>

definition fnv1a :: "string \<Rightarrow> int32" where
  "fnv1a bytes = foldl (\<lambda>hash c. (hash XOR of_nat (of_char c)) * 16777619) 2166136261 bytes"

subsection \<open>The heap\<close>

record heap_stats =
  hs_objects_allocated :: nat
  hs_bytes_allocated :: nat
  hs_collections :: nat
  hs_peak_live_bytes :: nat
  hs_live_objects :: nat

record heap =
  hp_objects :: "(addr \<times> bool \<times> obj) list"
  hp_fresh :: addr
  hp_strings :: "(string \<times> addr) list"
  hp_temp_roots :: "value list"
  hp_stress :: bool
  hp_bytes :: nat
  hp_next_gc :: nat
  hp_stats :: heap_stats

definition kMinNextGc :: nat where "kMinNextGc = 1024 * 1024"

definition empty_heap :: heap where
  "empty_heap =
     \<lparr>hp_objects = [], hp_fresh = 0, hp_strings = [], hp_temp_roots = [], hp_stress = False,
      hp_bytes = 0, hp_next_gc = kMinNextGc,
      hp_stats = \<lparr>hs_objects_allocated = 0, hs_bytes_allocated = 0, hs_collections = 0,
        hs_peak_live_bytes = 0, hs_live_objects = 0\<rparr>\<rparr>"

definition obj_at :: "heap \<Rightarrow> addr \<Rightarrow> obj option" where
  "obj_at h a = map_option snd (map_of (hp_objects h) a)"

definition set_obj :: "addr \<Rightarrow> obj \<Rightarrow> heap \<Rightarrow> heap" where
  "set_obj a ob h =
     h\<lparr>hp_objects := map (\<lambda>(b, m, x). if b = a then (b, m, ob) else (b, m, x)) (hp_objects h)\<rparr>"

subsection \<open>Marking\<close>

definition value_addrs :: "value \<Rightarrow> addr list" where
  "value_addrs v = (case v of VObj a \<Rightarrow> [a] | _ \<Rightarrow> [])"

definition opt_addrs :: "addr option \<Rightarrow> addr list" where
  "opt_addrs x = (case x of None \<Rightarrow> [] | Some a \<Rightarrow> [a])"

text \<open>\<open>trace\<close>: the addresses it marks, in its order.\<close>

fun trace :: "obj \<Rightarrow> addr list" where
  "trace (OArray vs) = concat (map value_addrs vs)"
| "trace (OFunction f) =
     opt_addrs (fo_name f) @ concat (map value_addrs (ch_constants (fo_chunk f))) @
     concat (map value_addrs (rc_constants (fo_reg f)))"
| "trace (OClosure f us) = f # concat (map opt_addrs us)"
| "trace (OUpvalue u) = value_addrs (uv_closed u)"
| "trace (OEnvironment vars enclosing) =
     opt_addrs enclosing @ concat (map (\<lambda>(name, v). name # value_addrs v) vars)"
| "trace (OTreeFunction name decl closure) = name # opt_addrs closure"
| "trace (OString s) = []"
| "trace (ONative n k f) = []"

definition set_mark :: "addr \<Rightarrow> heap \<Rightarrow> heap" where
  "set_mark a h =
     h\<lparr>hp_objects := map (\<lambda>(b, m, x). if b = a then (b, True, x) else (b, m, x)) (hp_objects h)\<rparr>"

text \<open>\<open>mark_object\<close>, with the gray stack. A null pointer is no address; nothing stands at a
  dangling one.\<close>

definition mark_object :: "addr \<Rightarrow> heap \<times> addr list \<Rightarrow> heap \<times> addr list" where
  "mark_object a st =
     (case st of (h, gray) \<Rightarrow>
        (case map_of (hp_objects h) a of
           None \<Rightarrow> (h, gray)
         | Some (marked, _) \<Rightarrow> if marked then (h, gray) else (set_mark a h, a # gray)))"

definition mark_objects :: "addr list \<Rightarrow> heap \<times> addr list \<Rightarrow> heap \<times> addr list" where
  "mark_objects as st = fold mark_object as st"

fun unmarked_cells :: "(addr \<times> bool \<times> obj) list \<Rightarrow> nat" where
  "unmarked_cells [] = 0"
| "unmarked_cells ((a, m, x) # cells) = (if m then 0 else 1) + unmarked_cells cells"

definition unmarked :: "heap \<Rightarrow> nat" where
  "unmarked h = unmarked_cells (hp_objects h)"

lemma unmarked_mark_le:
  "unmarked_cells (map (\<lambda>(b, m, x). if b = a then (b, True, x) else (b, m, x)) cells) \<le> unmarked_cells cells"
  by (induction cells rule: unmarked_cells.induct) auto

lemma unmarked_mark_less:
  "map_of cells a = Some (False, x) \<Longrightarrow>
   unmarked_cells (map (\<lambda>(b, m, x). if b = a then (b, True, x) else (b, m, x)) cells) < unmarked_cells cells"
proof (induction cells rule: unmarked_cells.induct)
  case (2 b m y cells)
  then show ?case using unmarked_mark_le [of a cells] by (auto split: if_splits simp: less_Suc_eq_le)
qed simp

lemma mark_object_measure:
  "mark_object a st = st \<or> unmarked (fst (mark_object a st)) < unmarked (fst st)"
proof -
  obtain h gray where st: "st = (h, gray)" by (cases st)
  show ?thesis
  proof (cases "map_of (hp_objects h) a")
    case (Some p)
    then show ?thesis
      using unmarked_mark_less [of "hp_objects h" a "snd p"]
      by (cases p; cases "fst p") (auto simp: st mark_object_def unmarked_def set_mark_def)
  qed (simp add: st mark_object_def)
qed

lemma mark_objects_measure:
  "mark_objects as st = st \<or> unmarked (fst (mark_objects as st)) < unmarked (fst st)"
proof (induction as arbitrary: st)
  case (Cons a as)
  show ?case
    using Cons.IH [of "mark_object a st"] mark_object_measure [of a st]
    by (fastforce simp: mark_objects_def)
qed (simp add: mark_objects_def)

function mark_loop :: "heap \<times> addr list \<Rightarrow> heap" where
  "mark_loop (h, []) = h"
| "mark_loop (h, a # gray) =
     mark_loop (mark_objects (case obj_at h a of None \<Rightarrow> [] | Some ob \<Rightarrow> trace ob) (h, gray))"
  by pat_completeness auto
termination
proof (relation "measures [\<lambda>(h, gray). unmarked h, \<lambda>(h, gray). length gray]", goal_cases)
  case (2 h a gray)
  show ?case
    using mark_objects_measure [of "case obj_at h a of None \<Rightarrow> [] | Some ob \<Rightarrow> trace ob" "(h, gray)"]
    by (auto simp: case_prod_beta)
qed simp

subsection \<open>Sweeping and collecting\<close>

definition free_object :: "obj \<Rightarrow> heap \<Rightarrow> heap" where
  "free_object ob h =
     (case ob of
        OString s \<Rightarrow> h\<lparr>hp_strings := filter (\<lambda>(t, b). t \<noteq> s) (hp_strings h)\<rparr>
      | _ \<Rightarrow> h)"

definition stats_live :: "(nat \<Rightarrow> nat) \<Rightarrow> heap \<Rightarrow> heap" where
  "stats_live f h = h\<lparr>hp_stats := (hp_stats h)\<lparr>hs_live_objects := f (hs_live_objects (hp_stats h))\<rparr>\<rparr>"

text \<open>The walk over the intrusive list: the cells that stay, and the heap's other fields.\<close>

fun sweep_cells :: "(obj \<Rightarrow> nat) \<Rightarrow> (addr \<times> bool \<times> obj) list \<Rightarrow> nat \<Rightarrow> heap \<Rightarrow>
    (addr \<times> bool \<times> obj) list \<times> nat \<times> heap" where
  "sweep_cells sz [] live h = ([], live, h)"
| "sweep_cells sz ((a, marked, ob) # cells) live h =
     (if marked
      then (let (kept, live, h) = sweep_cells sz cells (live + sz ob) h
            in ((a, False, ob) # kept, live, h))
      else sweep_cells sz cells live (stats_live (\<lambda>n. n - 1) (free_object ob h)))"

definition sweep :: "(obj \<Rightarrow> nat) \<Rightarrow> heap \<Rightarrow> heap" where
  "sweep sz h =
     (let (kept, live, h) = sweep_cells sz (hp_objects h) 0 h
      in h\<lparr>hp_objects := kept, hp_bytes := live\<rparr>)"

definition collect :: "(obj \<Rightarrow> nat) \<Rightarrow> addr list \<Rightarrow> heap \<Rightarrow> heap" where
  "collect sz roots h =
     (let h = mark_loop (mark_objects (concat (map value_addrs (hp_temp_roots h)) @ roots) (h, []));
          h = sweep sz h
      in h\<lparr>hp_stats := (hp_stats h)\<lparr>hs_collections := hs_collections (hp_stats h) + 1\<rparr>,
          hp_next_gc := max kMinNextGc (hp_bytes h * 2)\<rparr>)"

subsection \<open>Allocation and interning\<close>

definition before_allocate :: "(obj \<Rightarrow> nat) \<Rightarrow> addr list \<Rightarrow> heap \<Rightarrow> heap" where
  "before_allocate sz roots h =
     (if hp_stress h \<or> hp_next_gc h < hp_bytes h then collect sz roots h else h)"

text \<open>\<open>new\<close> and \<open>link\<close>. The check that the address fits in 48 bits is \<open>pointer_fits\<close> of the value
  representations.\<close>

definition link_object :: "(obj \<Rightarrow> nat) \<Rightarrow> obj \<Rightarrow> heap \<Rightarrow> addr \<times> heap" where
  "link_object sz ob h =
     (let a = hp_fresh h; n = sz ob; b = hp_bytes h + n; st = hp_stats h
      in (a, h\<lparr>hp_objects := (a, False, ob) # hp_objects h, hp_fresh := a + 1, hp_bytes := b,
            hp_stats := st\<lparr>hs_bytes_allocated := hs_bytes_allocated st + n,
              hs_objects_allocated := hs_objects_allocated st + 1,
              hs_live_objects := hs_live_objects st + 1,
              hs_peak_live_bytes := max (hs_peak_live_bytes st) b\<rparr>\<rparr>))"

definition allocate :: "(obj \<Rightarrow> nat) \<Rightarrow> addr list \<Rightarrow> obj \<Rightarrow> heap \<Rightarrow> addr \<times> heap" where
  "allocate sz roots ob h = link_object sz ob (before_allocate sz roots h)"

definition intern :: "(obj \<Rightarrow> nat) \<Rightarrow> addr list \<Rightarrow> string \<Rightarrow> heap \<Rightarrow> addr \<times> heap" where
  "intern sz roots bytes h =
     (case map_of (hp_strings h) bytes of
        Some a \<Rightarrow> (a, h)
      | None \<Rightarrow>
          (let (a, h) = allocate sz roots (OString bytes) h
           in (a, h\<lparr>hp_strings := (bytes, a) # hp_strings h\<rparr>)))"

definition push_temp :: "value \<Rightarrow> heap \<Rightarrow> heap" where
  "push_temp v h = h\<lparr>hp_temp_roots := hp_temp_roots h @ [v]\<rparr>"

definition pop_temp :: "heap \<Rightarrow> heap" where
  "pop_temp h = h\<lparr>hp_temp_roots := butlast (hp_temp_roots h)\<rparr>"

end
