(* ===== verification/Heap_Spec.thy ===== *)
theory Heap_Spec
  imports Heap
begin

text \<open>
  What the collector promises: it frees exactly the objects that no root reaches, changes nothing
  in the others, and keeps the heap's invariant (\<open>heap_ok\<close>: distinct addresses below the counter,
  no mark left, and an intern table that holds every string object under its contents, once).
  \<open>no_dangling\<close> says that every pointer stored in an object leads to an object.
\<close>

subsection \<open>Reachability and the invariant\<close>

inductive reach :: "heap \<Rightarrow> addr set \<Rightarrow> addr \<Rightarrow> bool" for h R where
  reach_root: "a \<in> R \<Longrightarrow> obj_at h a \<noteq> None \<Longrightarrow> reach h R a"
| reach_step: "reach h R a \<Longrightarrow> obj_at h a = Some ob \<Longrightarrow> b \<in> set (trace ob) \<Longrightarrow> obj_at h b \<noteq> None \<Longrightarrow> reach h R b"

definition no_dangling :: "heap \<Rightarrow> bool" where
  "no_dangling h \<longleftrightarrow>
     (\<forall>a ob. obj_at h a = Some ob \<longrightarrow> (\<forall>b\<in>set (trace ob). obj_at h b \<noteq> None))"

definition strings_ok :: "heap \<Rightarrow> bool" where
  "strings_ok h \<longleftrightarrow>
     distinct (map fst (hp_strings h)) \<and>
     (\<forall>s a. map_of (hp_strings h) s = Some a \<longleftrightarrow> obj_at h a = Some (OString s))"

definition heap_ok :: "heap \<Rightarrow> bool" where
  "heap_ok h \<longleftrightarrow>
     distinct (map fst (hp_objects h)) \<and> (\<forall>(a, m, x)\<in>set (hp_objects h). a < hp_fresh h \<and> \<not> m) \<and>
     strings_ok h \<and> hs_live_objects (hp_stats h) = length (hp_objects h)"

lemma reach_live: "reach h R a \<Longrightarrow> obj_at h a \<noteq> None"
  by (cases rule: reach.cases) auto

lemma reach_mono: "reach h R a \<Longrightarrow> R \<subseteq> S \<Longrightarrow> reach h S a"
  by (induction rule: reach.induct) (auto intro: reach.intros)

subsection \<open>Marking\<close>

definition contents :: "heap \<Rightarrow> (addr \<times> obj) list" where
  "contents h = map (\<lambda>(a, m, x). (a, x)) (hp_objects h)"

definition marks :: "heap \<Rightarrow> addr set" where
  "marks h = {a. \<exists>x. map_of (hp_objects h) a = Some (True, x)}"

lemma map_of_contents: "map_of (map (\<lambda>(a, m, x). (a, x)) cells) a = map_option snd (map_of cells a)"
  by (induction cells) auto

lemma obj_at_contents: "obj_at h a = map_of (contents h) a"
  by (simp add: obj_at_def contents_def map_of_contents)

text \<open>The heaps of a marking phase differ in their marks only.\<close>

definition same_but_marks :: "heap \<Rightarrow> heap \<Rightarrow> bool" where
  "same_but_marks h h' \<longleftrightarrow> contents h' = contents h \<and> (\<exists>cells. h' = h\<lparr>hp_objects := cells\<rparr>)"

lemma same_but_marks_refl: "same_but_marks h h"
  by (auto simp: same_but_marks_def intro: exI [of _ "hp_objects h"])

lemma same_but_marks_trans: "same_but_marks h h' \<Longrightarrow> same_but_marks h' h'' \<Longrightarrow> same_but_marks h h''"
  by (auto simp: same_but_marks_def)

lemma same_but_marks_obj: "same_but_marks h h' \<Longrightarrow> obj_at h' a = obj_at h a"
  by (simp add: same_but_marks_def obj_at_contents)

lemma set_mark_same: "same_but_marks h (set_mark a h)"
  by (auto simp: same_but_marks_def set_mark_def contents_def case_prod_beta)

lemma map_of_set_mark:
  "map_of (map (\<lambda>(b, m, x). if b = a then (b, True, x) else (b, m, x)) cells) b =
   (if b = a then map_option (\<lambda>(m, x). (True, x)) (map_of cells b) else map_of cells b)"
  by (induction cells) auto

lemma marks_set_mark: "obj_at h a \<noteq> None \<Longrightarrow> marks (set_mark a h) = insert a (marks h)"
  by (auto simp: marks_def set_mark_def map_of_set_mark obj_at_def)

lemma mark_object_ok:
  assumes "mark_object a (h, gray) = (h', gray')"
  shows "same_but_marks h h' \<and> marks h' = marks h \<union> {b. b = a \<and> obj_at h b \<noteq> None} \<and>
    set gray' = set gray \<union> (marks h' - marks h)"
proof (cases "map_of (hp_objects h) a")
  case None
  then show ?thesis using assms by (auto simp: mark_object_def obj_at_def same_but_marks_refl)
next
  case (Some p)
  obtain m x where p: "p = (m, x)" by (cases p)
  show ?thesis
  proof (cases m)
    case True
    then have "a \<in> marks h" using Some p by (simp add: marks_def)
    then show ?thesis using assms Some p True by (auto simp: mark_object_def same_but_marks_refl)
  next
    case False
    then have n: "a \<notin> marks h" "obj_at h a \<noteq> None" using Some p by (simp_all add: marks_def obj_at_def)
    have h: "h' = set_mark a h" "gray' = a # gray"
      using assms Some p False by (auto simp: mark_object_def)
    have m: "marks h' = insert a (marks h)" using marks_set_mark [OF n(2)] h(1) by simp
    have "{b. b = a \<and> obj_at h b \<noteq> None} = {a}" using n(2) by auto
    with m have "marks h' = marks h \<union> {b. b = a \<and> obj_at h b \<noteq> None}" by simp
    moreover have "set gray' = set gray \<union> (marks h' - marks h)" using m n(1) h(2) by auto
    ultimately show ?thesis using set_mark_same [of h a] h(1) by blast
  qed
qed

lemma mark_objects_ok:
  "mark_objects as (h, gray) = (h', gray') \<Longrightarrow>
   same_but_marks h h' \<and> marks h' = marks h \<union> {b \<in> set as. obj_at h b \<noteq> None} \<and>
   set gray' = set gray \<union> (marks h' - marks h)"
proof (induction as arbitrary: h gray)
  case Nil
  then show ?case by (simp add: mark_objects_def same_but_marks_refl)
next
  case (Cons a as)
  obtain h1 g1 where 1: "mark_object a (h, gray) = (h1, g1)" by fastforce
  then have 2: "mark_objects as (h1, g1) = (h', gray')" using Cons.prems by (simp add: mark_objects_def)
  note a = mark_object_ok [OF 1] and b = Cons.IH [OF 2]
  have 1: "same_but_marks h h'"
    using a [THEN conjunct1] b [THEN conjunct1] by (rule same_but_marks_trans)
  have o: "obj_at h1 b = obj_at h b" for b using a [THEN conjunct1] by (rule same_but_marks_obj)
  have m1: "marks h1 = marks h \<union> {b. b = a \<and> obj_at h b \<noteq> None}"
    and g1: "set g1 = set gray \<union> (marks h1 - marks h)" using a by blast+
  have m2: "marks h' = marks h1 \<union> {b \<in> set as. obj_at h b \<noteq> None}"
    and g2: "set gray' = set g1 \<union> (marks h' - marks h1)" using b o by simp_all
  have 2: "marks h' = marks h \<union> {b \<in> set (a # as). obj_at h b \<noteq> None}"
    unfolding m2 m1 by auto
  have "marks h \<subseteq> marks h1" "marks h1 \<subseteq> marks h'" unfolding m2 m1 by blast+
  then have "set gray' = set gray \<union> (marks h' - marks h)" unfolding g2 g1 by blast
  with 1 2 show ?case by blast
qed

text \<open>The tricolour invariant: gray objects are marked, every mark is reachable, and what a marked
  object that is not gray points to is marked.\<close>

definition tricolour :: "heap \<Rightarrow> addr set \<Rightarrow> heap \<times> addr list \<Rightarrow> bool" where
  "tricolour h0 R st \<longleftrightarrow>
     (case st of (h, gray) \<Rightarrow>
        same_but_marks h0 h \<and> set gray \<subseteq> marks h \<and> marks h \<subseteq> {a. reach h0 R a} \<and>
        {a \<in> R. obj_at h0 a \<noteq> None} \<subseteq> marks h \<and>
        (\<forall>a\<in>marks h - set gray. \<forall>ob. obj_at h0 a = Some ob \<longrightarrow>
           (\<forall>b\<in>set (trace ob). obj_at h0 b \<noteq> None \<longrightarrow> b \<in> marks h)))"

lemma mark_loop_ok:
  "tricolour h0 R st \<Longrightarrow> same_but_marks h0 (mark_loop st) \<and> marks (mark_loop st) = {a. reach h0 R a}"
proof (induction st rule: mark_loop.induct)
  case (1 h)
  have "a \<in> marks h" if "reach h0 R a" for a
    using that 1 by (induction rule: reach.induct) (auto simp: tricolour_def)
  then show ?case using 1 by (auto simp: tricolour_def)
next
  case (2 h a gray)
  let ?as = "case obj_at h a of None \<Rightarrow> [] | Some ob \<Rightarrow> trace ob"
  obtain h' gray' where m: "mark_objects ?as (h, gray) = (h', gray')" by fastforce
  note ok = mark_objects_ok [OF m]
  from "2.prems" have p: "same_but_marks h0 h" "set (a # gray) \<subseteq> marks h" "marks h \<subseteq> {a. reach h0 R a}"
    "{a \<in> R. obj_at h0 a \<noteq> None} \<subseteq> marks h"
    "\<forall>a\<in>marks h - set (a # gray). \<forall>ob. obj_at h0 a = Some ob \<longrightarrow>
       (\<forall>b\<in>set (trace ob). obj_at h0 b \<noteq> None \<longrightarrow> b \<in> marks h)"
    by (auto simp: tricolour_def)
  have o: "obj_at h b = obj_at h0 b" for b using p(1) by (rule same_but_marks_obj)
  have new: "marks h' \<subseteq> {a. reach h0 R a}"
  proof (intro subsetI CollectI)
    fix x
    assume x: "x \<in> marks h'"
    show "reach h0 R x"
    proof (cases "x \<in> marks h")
      case False
      with x ok have b: "x \<in> set ?as" "obj_at h x \<noteq> None" by blast+
      from b(1) obtain ob where ob: "obj_at h a = Some ob" "x \<in> set (trace ob)"
        by (cases "obj_at h a") auto
      have "reach h0 R a" using p(2,3) by auto
      then show ?thesis using ob b(2) o [of a] o [of x] reach_step [of h0 R a ob x] by simp
    qed (use p(3) in blast)
  qed
  have "\<forall>c\<in>marks h' - set gray'. \<forall>ob. obj_at h0 c = Some ob \<longrightarrow>
       (\<forall>b\<in>set (trace ob). obj_at h0 b \<noteq> None \<longrightarrow> b \<in> marks h')"
  proof (intro ballI allI impI)
    fix c ob b
    assume c: "c \<in> marks h' - set gray'" "obj_at h0 c = Some ob" "b \<in> set (trace ob)" "obj_at h0 b \<noteq> None"
    then have "c \<in> marks h" "c \<notin> set gray" using ok by blast+
    show "b \<in> marks h'"
    proof (cases "c = a")
      case True
      then have "b \<in> set ?as" "obj_at h b \<noteq> None" using c(2-4) o by simp_all
      then show ?thesis using ok by blast
    next
      case False
      with \<open>c \<in> marks h\<close> \<open>c \<notin> set gray\<close> have "c \<in> marks h - set (a # gray)" by simp
      with p(5) c(2-4) have "b \<in> marks h" by blast
      then show ?thesis using ok by blast
    qed
  qed
  moreover have "same_but_marks h0 h'"
    using p(1) ok [THEN conjunct1] by (rule same_but_marks_trans)
  moreover have sub: "marks h \<subseteq> marks h'" using ok by blast
  moreover have "set gray' = set gray \<union> (marks h' - marks h)" using ok by blast
  moreover have "set gray \<subseteq> marks h" using p(2) by simp
  moreover have "{a \<in> R. obj_at h0 a \<noteq> None} \<subseteq> marks h'" using p(4) sub by (rule subset_trans)
  ultimately have "tricolour h0 R (h', gray')"
    using new unfolding tricolour_def prod.case by (intro conjI) blast+
  then show ?case using "2.IH" m by simp
qed


lemma mark_phase:
  fixes rs :: "addr list"
  assumes "heap_ok h"
  defines "h' \<equiv> mark_loop (mark_objects rs (h, []))"
  shows "same_but_marks h h'" and "marks h' = {a. reach h (set rs) a}"
proof -
  have none: "marks h = {}"
    using assms(1) unfolding heap_ok_def marks_def by (fastforce dest: map_of_SomeD)
  obtain h1 gray where m: "mark_objects rs (h, []) = (h1, gray)" by fastforce
  note ok = mark_objects_ok [OF m]
  have r: "marks h1 = {b \<in> set rs. obj_at h b \<noteq> None}" and g: "set gray = marks h1"
    using ok none by auto
  have "marks h1 \<subseteq> {a. reach h (set rs) a}" unfolding r by (auto intro: reach_root)
  then have "tricolour h (set rs) (h1, gray)"
    using ok [THEN conjunct1] r g by (simp add: tricolour_def)
  from mark_loop_ok [OF this] show "same_but_marks h h'" "marks h' = {a. reach h (set rs) a}"
    by (simp_all add: h'_def m)
qed

subsection \<open>Sweeping\<close>

definition kept_cells :: "(addr \<times> bool \<times> obj) list \<Rightarrow> (addr \<times> bool \<times> obj) list" where
  "kept_cells cells = map (\<lambda>(a, m, x). (a, False, x)) (filter (\<lambda>(a, m, x). m) cells)"

definition freed :: "(addr \<times> bool \<times> obj) list \<Rightarrow> obj list" where
  "freed cells = map (\<lambda>(a, m, x). x) (filter (\<lambda>(a, m, x). \<not> m) cells)"

definition cell_bytes :: "(obj \<Rightarrow> nat) \<Rightarrow> (addr \<times> bool \<times> obj) list \<Rightarrow> nat" where
  "cell_bytes sz cells = sum_list (map (\<lambda>(a, m, x). sz x) cells)"

definition heap_bytes :: "(obj \<Rightarrow> nat) \<Rightarrow> heap \<Rightarrow> nat" where
  "heap_bytes sz h = cell_bytes sz (hp_objects h)"

definition drop_strings :: "obj list \<Rightarrow> heap \<Rightarrow> heap" where
  "drop_strings obs h =
     h\<lparr>hp_strings := filter (\<lambda>(t, b). OString t \<notin> set obs) (hp_strings h),
       hp_stats := (hp_stats h)\<lparr>hs_live_objects := hs_live_objects (hp_stats h) - length obs\<rparr>\<rparr>"

lemma free_one: "stats_live (\<lambda>n. n - 1) (free_object ob h) = drop_strings [ob] h"
proof (cases ob)
  case (OString s)
  have "(\<lambda>(t, b). t \<noteq> s) = (\<lambda>(t, b :: addr). OString t \<notin> set [ob])" using OString by auto
  then show ?thesis using OString by (simp add: stats_live_def free_object_def drop_strings_def)
qed (simp_all add: stats_live_def free_object_def drop_strings_def)

lemma drop_strings_twice: "drop_strings ys (drop_strings xs h) = drop_strings (xs @ ys) h"
proof -
  have "filter (\<lambda>(t, b). OString t \<notin> set ys) (filter (\<lambda>(t, b). OString t \<notin> set xs) ps) =
    filter (\<lambda>(t, b). OString t \<notin> set (xs @ ys)) ps" for ps :: "(string \<times> addr) list"
    by (induction ps) auto
  then show ?thesis by (simp add: drop_strings_def)
qed

lemma drop_strings_none: "drop_strings [] h = h"
  by (simp add: drop_strings_def)

lemma sweep_cells_ok:
  "sweep_cells sz cells live h =
   (kept_cells cells, live + cell_bytes sz (kept_cells cells), drop_strings (freed cells) h)"
proof (induction sz cells live h rule: sweep_cells.induct)
  case (1 sz live h)
  then show ?case by (simp add: kept_cells_def freed_def cell_bytes_def drop_strings_none)
next
  case (2 sz a marked ob cells live h)
  show ?case
  proof (cases marked)
    case True
    then show ?thesis using "2.IH"(1) [OF True]
      by (simp add: kept_cells_def freed_def cell_bytes_def)
  next
    case False
    then show ?thesis using "2.IH"(2) [OF False] drop_strings_twice [of "freed cells" "[ob]" h]
      by (simp add: kept_cells_def freed_def cell_bytes_def free_one [unfolded One_nat_def])
  qed
qed

lemma kept_subset: "set (map fst (kept_cells cells)) \<subseteq> set (map fst cells)"
  by (force simp: kept_cells_def)

lemma map_of_kept:
  "distinct (map fst cells) \<Longrightarrow>
   map_of (kept_cells cells) a =
     (case map_of cells a of Some (True, x) \<Rightarrow> Some (False, x) | _ \<Rightarrow> None)"
proof (induction cells)
  case (Cons c cells)
  obtain b m x where c: "c = (b, m, x)" by (cases c)
  have out: "map_of (kept_cells cells) b = None"
    using Cons.prems kept_subset [of cells] by (auto simp: map_of_eq_None_iff c)
  have "kept_cells (c # cells) = (if m then (b, False, x) # kept_cells cells else kept_cells cells)"
    by (simp add: kept_cells_def c)
  then show ?case using Cons out by (auto simp: c)
qed (simp add: kept_cells_def)

lemma kept_addresses: "distinct (map fst cells) \<Longrightarrow> distinct (map fst (kept_cells cells))"
proof (induction cells)
  case (Cons c cells)
  obtain b m x where c: "c = (b, m, x)" by (cases c)
  have "kept_cells (c # cells) = (if m then (b, False, x) # kept_cells cells else kept_cells cells)"
    by (simp add: kept_cells_def c)
  then show ?case using Cons kept_subset [of cells] by (auto simp: c)
qed (simp add: kept_cells_def)

lemma length_kept_freed: "length (kept_cells cells) + length (freed cells) = length cells"
  by (induction cells) (auto simp: kept_cells_def freed_def)


subsection \<open>A collection\<close>

definition gc_roots :: "addr list \<Rightarrow> heap \<Rightarrow> addr set" where
  "gc_roots roots h = set (concat (map value_addrs (hp_temp_roots h)) @ roots)"

lemma contents_addresses: "map fst (contents h) = map fst (hp_objects h)"
  by (simp add: contents_def case_prod_beta)

lemma collect_parts:
  assumes "heap_ok h"
  obtains cells where
    "contents (h\<lparr>hp_objects := cells\<rparr>) = contents h"
    "\<And>a. map_of cells a = map_option (\<lambda>x. (reach h (gc_roots roots h) a, x)) (obj_at h a)"
    "distinct (map fst cells)"
    "collect sz roots h = (drop_strings (freed cells) h)
       \<lparr>hp_objects := kept_cells cells, hp_bytes := cell_bytes sz (kept_cells cells),
        hp_stats := (hp_stats (drop_strings (freed cells) h))
          \<lparr>hs_collections := hs_collections (hp_stats h) + 1\<rparr>,
        hp_next_gc := max kMinNextGc (cell_bytes sz (kept_cells cells) * 2)\<rparr>"
proof -
  let ?rs = "concat (map value_addrs (hp_temp_roots h)) @ roots"
  define h' where "h' = mark_loop (mark_objects ?rs (h, []))"
  note m = mark_phase [OF assms, of ?rs, folded h'_def gc_roots_def]
  from m(1) obtain cells where h': "h' = h\<lparr>hp_objects := cells\<rparr>"
    and c: "contents h' = contents h" by (auto simp: same_but_marks_def)
  have cells: "hp_objects h' = cells" by (simp add: h')
  have "map_of cells a = map_option (\<lambda>x. (reach h (gc_roots roots h) a, x)) (obj_at h a)" for a
  proof -
    have 1: "map_option snd (map_of cells a) = obj_at h a"
      using same_but_marks_obj [OF m(1), of a] by (simp add: obj_at_def cells)
    have 2: "a \<in> marks h' \<longleftrightarrow> reach h (gc_roots roots h) a" using m(2) by simp
    show ?thesis
    proof (cases "map_of cells a")
      case (Some p)
      then have "fst p \<longleftrightarrow> a \<in> marks h'" by (cases p) (simp add: marks_def cells)
      then show ?thesis using 2 unfolding 1 [symmetric] Some by (cases p) auto
    qed (simp flip: 1)
  qed
  moreover have "distinct (map fst cells)"
    using assms c contents_addresses [of h'] contents_addresses [of h] cells by (simp add: heap_ok_def)
  moreover have "contents (h\<lparr>hp_objects := cells\<rparr>) = contents h" using c h' by simp
  moreover have "drop_strings obs (h\<lparr>hp_objects := cells\<rparr>) = drop_strings obs h\<lparr>hp_objects := cells\<rparr>" for obs
    by (simp add: drop_strings_def)
  then have "collect sz roots h = (drop_strings (freed cells) h)
       \<lparr>hp_objects := kept_cells cells, hp_bytes := cell_bytes sz (kept_cells cells),
        hp_stats := (hp_stats (drop_strings (freed cells) h))
          \<lparr>hs_collections := hs_collections (hp_stats h) + 1\<rparr>,
        hp_next_gc := max kMinNextGc (cell_bytes sz (kept_cells cells) * 2)\<rparr>"
    unfolding collect_def Let_def h'_def [symmetric] sweep_def h'
    by (simp add: sweep_cells_ok drop_strings_def)
  ultimately show ?thesis using that by blast
qed

lemma obj_at_collect:
  assumes "heap_ok h"
  shows "obj_at (collect sz roots h) a = (if reach h (gc_roots roots h) a then obj_at h a else None)"
proof (rule collect_parts [OF assms, of roots sz])
  fix cells
  assume m: "\<And>a. map_of cells a = map_option (\<lambda>x. (reach h (gc_roots roots h) a, x)) (obj_at h a)"
    and d: "distinct (map fst cells)"
    and c: "collect sz roots h = (drop_strings (freed cells) h)
       \<lparr>hp_objects := kept_cells cells, hp_bytes := cell_bytes sz (kept_cells cells),
        hp_stats := (hp_stats (drop_strings (freed cells) h))
          \<lparr>hs_collections := hs_collections (hp_stats h) + 1\<rparr>,
        hp_next_gc := max kMinNextGc (cell_bytes sz (kept_cells cells) * 2)\<rparr>"
  have "obj_at (collect sz roots h) a = map_option snd (map_of (kept_cells cells) a)"
    unfolding c by (simp add: obj_at_def)
  then show ?thesis using m [of a] by (cases "obj_at h a") (auto simp: map_of_kept [OF d])
qed

lemma collect_fields:
  assumes "heap_ok h"
  shows "hp_temp_roots (collect sz roots h) = hp_temp_roots h \<and>
    hp_fresh (collect sz roots h) = hp_fresh h \<and>
    hp_bytes (collect sz roots h) = heap_bytes sz (collect sz roots h) \<and>
    hp_stress (collect sz roots h) = hp_stress h"
proof (rule collect_parts [OF assms, of roots sz])
  fix cells
  assume c: "collect sz roots h = (drop_strings (freed cells) h)
       \<lparr>hp_objects := kept_cells cells, hp_bytes := cell_bytes sz (kept_cells cells),
        hp_stats := (hp_stats (drop_strings (freed cells) h))
          \<lparr>hs_collections := hs_collections (hp_stats h) + 1\<rparr>,
        hp_next_gc := max kMinNextGc (cell_bytes sz (kept_cells cells) * 2)\<rparr>"
  show ?thesis unfolding c by (simp add: drop_strings_def heap_bytes_def)
qed

lemma in_freed:
  "distinct (map fst cells) \<Longrightarrow> x \<in> set (freed cells) \<longleftrightarrow> (\<exists>a. map_of cells a = Some (False, x))"
  by (force simp: freed_def dest: map_of_SomeD intro: map_of_is_SomeI)

lemma map_of_filter_fst:
  "map_of (filter (\<lambda>(t, b). P t) ps) s = (if P s then map_of ps s else None)"
  by (induction ps) auto


lemma collect_heap_ok:
  assumes ok: "heap_ok h"
  shows "heap_ok (collect sz roots h)"
proof (rule collect_parts [OF ok, of roots sz])
  fix cells
  let ?c = "collect sz roots h"
  assume same: "contents (h\<lparr>hp_objects := cells\<rparr>) = contents h"
    and m: "\<And>a. map_of cells a = map_option (\<lambda>x. (reach h (gc_roots roots h) a, x)) (obj_at h a)"
    and d: "distinct (map fst cells)"
    and c: "collect sz roots h = (drop_strings (freed cells) h)
       \<lparr>hp_objects := kept_cells cells, hp_bytes := cell_bytes sz (kept_cells cells),
        hp_stats := (hp_stats (drop_strings (freed cells) h))
          \<lparr>hs_collections := hs_collections (hp_stats h) + 1\<rparr>,
        hp_next_gc := max kMinNextGc (cell_bytes sz (kept_cells cells) * 2)\<rparr>"
  have objs: "hp_objects ?c = kept_cells cells" and fresh: "hp_fresh ?c = hp_fresh h"
    and strs: "hp_strings ?c = filter (\<lambda>(t, b). OString t \<notin> set (freed cells)) (hp_strings h)"
    and live: "hs_live_objects (hp_stats ?c) = hs_live_objects (hp_stats h) - length (freed cells)"
    unfolding c by (simp_all add: drop_strings_def)
  have addrs: "map fst cells = map fst (hp_objects h)"
    using same contents_addresses [of h] contents_addresses [of "h\<lparr>hp_objects := cells\<rparr>"] by simp
  have "\<forall>(a, m, x)\<in>set (kept_cells cells). a < hp_fresh h \<and> \<not> m"
  proof (clarsimp simp: kept_cells_def)
    fix a x assume "(a, True, x) \<in> set cells"
    then have "a \<in> set (map fst cells)" by force
    then show "a < hp_fresh h" unfolding addrs using ok by (auto simp: heap_ok_def)
  qed
  moreover have "length (hp_objects h) = length cells" using addrs map_eq_imp_length_eq by metis
  then have "hs_live_objects (hp_stats h) - length (freed cells) = length (kept_cells cells)"
    using ok length_kept_freed [of cells] by (simp add: heap_ok_def)
  moreover have "strings_ok ?c"
    unfolding strings_ok_def
  proof (intro conjI allI)
    show "distinct (map fst (hp_strings ?c))"
      using ok unfolding strs by (auto simp: heap_ok_def strings_ok_def intro: distinct_map_filter)
    fix s a
    have h: "map_of (hp_strings h) s = Some a \<longleftrightarrow> obj_at h a = Some (OString s)" for a
      using ok by (simp add: heap_ok_def strings_ok_def)
    have "OString s \<in> set (freed cells) \<longleftrightarrow>
        (\<exists>b. obj_at h b = Some (OString s) \<and> \<not> reach h (gc_roots roots h) b)"
      unfolding in_freed [OF d] m by auto
    then show "map_of (hp_strings ?c) s = Some a \<longleftrightarrow> obj_at ?c a = Some (OString s)"
      unfolding strs map_of_filter_fst obj_at_collect [OF ok] using h by (metis option.inject option.simps(3))
  qed
  ultimately show ?thesis
    using kept_addresses [OF d] objs fresh live by (simp add: heap_ok_def)
qed

lemma collect_no_dangling:
  assumes "heap_ok h" "no_dangling h"
  shows "no_dangling (collect sz roots h)"
  unfolding no_dangling_def obj_at_collect [OF assms(1)]
proof (intro allI impI ballI)
  fix a ob b
  assume a: "(if reach h (gc_roots roots h) a then obj_at h a else None) = Some ob" "b \<in> set (trace ob)"
  then have r: "reach h (gc_roots roots h) a" "obj_at h a = Some ob" by (auto split: if_splits)
  moreover have "obj_at h b \<noteq> None" using assms(2) r(2) a(2) by (auto simp: no_dangling_def)
  ultimately have "reach h (gc_roots roots h) b" using a(2) reach_step by blast
  then show "(if reach h (gc_roots roots h) b then obj_at h b else None) \<noteq> None"
    using \<open>obj_at h b \<noteq> None\<close> by simp
qed

subsection \<open>Allocation\<close>

text \<open>\<open>retains R h h'\<close>: the heap after an operation that may have collected with roots \<open>R\<close>.\<close>

definition retains :: "addr set \<Rightarrow> heap \<Rightarrow> heap \<Rightarrow> bool" where
  "retains R h h' \<longleftrightarrow>
     heap_ok h' \<and> no_dangling h' \<and> hp_temp_roots h' = hp_temp_roots h \<and> hp_fresh h \<le> hp_fresh h' \<and>
     (\<forall>a. reach h R a \<longrightarrow> obj_at h' a = obj_at h a)"

definition sane :: "heap \<Rightarrow> bool" where
  "sane h \<longleftrightarrow> heap_ok h \<and> no_dangling h"

lemma reach_retained:
  assumes "retains R h h'" "reach h R a"
  shows "reach h' R a"
proof -
  have same: "obj_at h' b = obj_at h b" if "reach h R b" for b
    using assms(1) that by (simp add: retains_def)
  from assms(2) show ?thesis
  proof (induction rule: reach.induct)
    case (reach_root a)
    have "obj_at h' a = obj_at h a" by (rule same) (rule reach.reach_root [OF reach_root])
    then show ?case using reach_root by (intro reach.reach_root) simp_all
  next
    case (reach_step a ob b)
    have "obj_at h' b = obj_at h b" by (rule same) (rule reach.reach_step [OF reach_step.hyps])
    moreover have "obj_at h' a = Some ob" using same [OF reach_step.hyps(1)] reach_step.hyps(2) by simp
    ultimately show ?case
      using reach.reach_step [OF reach_step.IH, of ob b] reach_step.hyps(3,4) by simp
  qed
qed

lemma before_allocate_ok:
  assumes "sane h"
  shows "retains (gc_roots roots h) h (before_allocate sz roots h) \<and>
    hp_fresh (before_allocate sz roots h) = hp_fresh h"
proof (cases "hp_stress h \<or> hp_next_gc h < hp_bytes h")
  case True
  have ok: "heap_ok h" "no_dangling h" using assms by (simp_all add: sane_def)
  show ?thesis
    using True collect_heap_ok [OF ok(1)] collect_no_dangling [OF ok] collect_fields [OF ok(1), of sz roots]
    by (simp add: before_allocate_def retains_def obj_at_collect [OF ok(1)])
next
  case False
  then show ?thesis using assms by (simp add: before_allocate_def retains_def sane_def)
qed

lemma before_allocate_old:
  "sane h \<Longrightarrow> obj_at (before_allocate sz roots h) a = Some ob \<Longrightarrow> obj_at h a = Some ob"
  by (auto simp: before_allocate_def sane_def obj_at_collect split: if_splits)

lemma fresh_free: "heap_ok h \<Longrightarrow> hp_fresh h \<le> a \<Longrightarrow> obj_at h a = None"
proof -
  assume ok: "heap_ok h" and le: "hp_fresh h \<le> a"
  have "a \<notin> set (map fst (hp_objects h))" using ok le by (fastforce simp: heap_ok_def)
  then have "map_of (hp_objects h) a = None" by (simp add: map_of_eq_None_iff)
  then show ?thesis by (simp add: obj_at_def)
qed

lemma link_object_fields:
  "link_object sz ob h = (a, h') \<Longrightarrow>
   a = hp_fresh h \<and> hp_objects h' = (a, False, ob) # hp_objects h \<and> hp_fresh h' = a + 1 \<and>
   hp_strings h' = hp_strings h \<and> hp_temp_roots h' = hp_temp_roots h \<and>
   hs_live_objects (hp_stats h') = hs_live_objects (hp_stats h) + 1"
  by (auto simp: link_object_def Let_def)


lemma obj_at_link:
  assumes "link_object sz ob h = (a, h')"
  shows "obj_at h' b = (if b = a then Some ob else obj_at h b)"
  using link_object_fields [OF assms] by (simp add: obj_at_def)

lemma link_sane:
  assumes "sane h" "link_object sz ob h = (a, h')" "\<forall>b\<in>set (trace ob). obj_at h b \<noteq> None"
  shows "no_dangling h'" and "obj_at h a = None"
    and "distinct (map fst (hp_objects h')) \<and>
      (\<forall>(a, m, x)\<in>set (hp_objects h'). a < hp_fresh h' \<and> \<not> m) \<and>
      hs_live_objects (hp_stats h') = length (hp_objects h')"
proof -
  note f = link_object_fields [OF assms(2)] and o = obj_at_link [OF assms(2)]
  have ok: "heap_ok h" "no_dangling h" using assms(1) by (simp_all add: sane_def)
  show n: "obj_at h a = None" using fresh_free [OF ok(1)] f by simp
  show "no_dangling h'"
    unfolding no_dangling_def
  proof (intro allI impI ballI)
    fix b x c assume b: "obj_at h' b = Some x" "c \<in> set (trace x)"
    have "obj_at h c \<noteq> None"
    proof (cases "b = a")
      case True then show ?thesis using b o assms(3) by simp
    next
      case False then show ?thesis using b o ok(2) by (simp add: no_dangling_def)
    qed
    then show "obj_at h' c \<noteq> None" using o by simp
  qed
  have "a \<notin> set (map fst (hp_objects h))"
    using n by (auto simp: obj_at_def map_of_eq_None_iff)
  moreover have "\<forall>(b, m, x)\<in>set (hp_objects h). b < hp_fresh h' \<and> \<not> m"
    using ok(1) f by (fastforce simp: heap_ok_def)
  ultimately show "distinct (map fst (hp_objects h')) \<and>
      (\<forall>(a, m, x)\<in>set (hp_objects h'). a < hp_fresh h' \<and> \<not> m) \<and>
      hs_live_objects (hp_stats h') = length (hp_objects h')"
    using ok(1) f by (simp add: heap_ok_def)
qed

definition is_string :: "obj \<Rightarrow> bool" where
  "is_string ob \<longleftrightarrow> (case ob of OString s \<Rightarrow> True | _ \<Rightarrow> False)"

lemma allocate_ok:
  assumes "sane h" "allocate sz roots ob h = (a, h')" "\<not> is_string ob"
    and "\<forall>b\<in>set (trace ob). reach h (gc_roots roots h) b"
  shows "retains (gc_roots roots h) h h'" and "obj_at h' a = Some ob" and "hp_fresh h \<le> a"
proof -
  let ?h = "before_allocate sz roots h"
  have l: "link_object sz ob ?h = (a, h')" using assms(2) by (simp add: allocate_def)
  note b = before_allocate_ok [OF assms(1), of roots sz]
  note f = link_object_fields [OF l] and o = obj_at_link [OF l]
  have s: "sane ?h" using b by (simp add: retains_def sane_def)
  have "\<forall>b\<in>set (trace ob). obj_at ?h b \<noteq> None"
    using assms(4) b reach_live by (fastforce simp: retains_def)
  note k = link_sane [OF s l this]
  have "strings_ok h'"
    using s o f k(2) assms(3) by (auto simp: strings_ok_def sane_def heap_ok_def is_string_def)
  then have ok: "heap_ok h'" using k(3) by (simp add: heap_ok_def)
  show "obj_at h' a = Some ob" using o by simp
  show "hp_fresh h \<le> a" using b f by simp
  have "obj_at h' c = obj_at h c" if "reach h (gc_roots roots h) c" for c
  proof -
    have "obj_at ?h c = obj_at h c" using b that by (simp add: retains_def)
    then show ?thesis using o k(2) reach_live [OF that] by auto
  qed
  then show "retains (gc_roots roots h) h h'"
    using ok k(1) f b by (simp add: retains_def)
qed

lemma intern_ok:
  assumes "sane h" "intern sz roots s h = (a, h')"
  shows "retains (gc_roots roots h) h h'" and "obj_at h' a = Some (OString s)"
proof -
  have ok: "heap_ok h" "no_dangling h" and st: "strings_ok h"
    using assms(1) by (simp_all add: sane_def heap_ok_def)
  have "retains (gc_roots roots h) h h' \<and> obj_at h' a = Some (OString s)"
  proof (cases "map_of (hp_strings h) s")
    case (Some b)
    then have "a = b" "h' = h" using assms(2) by (simp_all add: intern_def)
    then show ?thesis using ok st Some by (auto simp: retains_def strings_ok_def)
  next
    case None
    let ?h = "before_allocate sz roots h"
    obtain h1 where l: "link_object sz (OString s) ?h = (a, h1)" and h': "h' = h1\<lparr>hp_strings := (s, a) # hp_strings h1\<rparr>"
      using assms(2) None by (auto simp: intern_def allocate_def split: prod.splits)
    note b = before_allocate_ok [OF assms(1), of roots sz]
    note f = link_object_fields [OF l] and o = obj_at_link [OF l]
    have s: "sane ?h" using b by (simp add: retains_def sane_def)
    note k = link_sane [OF s l]
    have o': "obj_at h' c = (if c = a then Some (OString s) else obj_at ?h c)" for c
      using o by (simp add: h' obj_at_def)
    have new: "obj_at ?h c \<noteq> Some (OString s)" for c
      using None before_allocate_old [OF assms(1)] st by (fastforce simp: strings_ok_def)
    have "strings_ok h'"
      unfolding strings_ok_def
    proof (intro conjI allI)
      have sb: "strings_ok ?h" using s by (simp add: sane_def heap_ok_def)
      have h: "map_of (hp_strings ?h) t = Some c \<longleftrightarrow> obj_at ?h c = Some (OString t)" for t c
        using sb by (simp add: strings_ok_def)
      have "map_of (hp_strings ?h) s = None" using h [of s] new by (cases "map_of (hp_strings ?h) s") auto
      then show "distinct (map fst (hp_strings h'))"
        using sb f by (simp add: h' strings_ok_def map_of_eq_None_iff)
      fix t c
      show "map_of (hp_strings h') t = Some c \<longleftrightarrow> obj_at h' c = Some (OString t)"
        unfolding o' using h [of t c] k(2) new [of c] f by (auto simp: h')
    qed
    then have ok': "heap_ok h'" using k(3) by (simp add: heap_ok_def h')
    have nd: "no_dangling h'" using k(1) by (simp add: no_dangling_def h' obj_at_def)
    have "obj_at h' c = obj_at h c" if "reach h (gc_roots roots h) c" for c
    proof -
      have "obj_at ?h c = obj_at h c" using b that by (simp add: retains_def)
      then show ?thesis using o' k(2) reach_live [OF that] by auto
    qed
    then show ?thesis using ok' nd f b o' by (simp add: retains_def h')
  qed
  then show "retains (gc_roots roots h) h h'" "obj_at h' a = Some (OString s)" by blast+
qed


text \<open>Nothing old appears or changes: an object below the counter was there before.\<close>

lemma allocate_old:
  assumes "sane h" "allocate sz roots ob h = (a, h')" "obj_at h' b = Some x" "b < hp_fresh h"
  shows "obj_at h b = Some x"
proof -
  let ?h = "before_allocate sz roots h"
  have l: "link_object sz ob ?h = (a, h')" using assms(2) by (simp add: allocate_def)
  have "hp_fresh ?h = hp_fresh h" using before_allocate_ok [OF assms(1), of roots sz] by blast
  then have "b \<noteq> a" using link_object_fields [OF l] assms(4) by simp
  then have "obj_at ?h b = Some x" using obj_at_link [OF l, of b] assms(3) by simp
  then show ?thesis by (rule before_allocate_old [OF assms(1)])
qed

lemma intern_old:
  assumes "sane h" "intern sz roots s h = (a, h')" "obj_at h' b = Some x" "b < hp_fresh h"
  shows "obj_at h b = Some x"
proof (cases "map_of (hp_strings h) s")
  case None
  then obtain h1 where "allocate sz roots (OString s) h = (a, h1)" "obj_at h1 b = obj_at h' b"
    using assms(2) by (auto simp: intern_def obj_at_def split: prod.splits)
  then show ?thesis using allocate_old [OF assms(1)] assms(3,4) by simp
next
  case (Some c)
  then show ?thesis using assms(2,3) by (simp add: intern_def)
qed

lemma intern_new:
  assumes "sane h" "intern sz roots s h = (a, h')" "obj_at h' b = Some x" "hp_fresh h \<le> b"
  shows "x = OString s"
proof (cases "map_of (hp_strings h) s")
  case None
  let ?h = "before_allocate sz roots h"
  obtain h1 where l: "link_object sz (OString s) ?h = (a, h1)" and o: "obj_at h1 b = obj_at h' b"
    using assms(2) None by (auto simp: intern_def allocate_def obj_at_def split: prod.splits)
  show ?thesis
  proof (cases "b = a")
    case True
    then show ?thesis using obj_at_link [OF l, of b] o assms(3) by simp
  next
    case False
    then have "obj_at ?h b = Some x" using obj_at_link [OF l, of b] o assms(3) by simp
    then have "obj_at h b = Some x" by (rule before_allocate_old [OF assms(1)])
    then show ?thesis using fresh_free [of h b] assms(1,4) by (simp add: sane_def)
  qed
next
  case (Some c)
  then have "obj_at h b = Some x" using assms(2,3) by (simp add: intern_def)
  then show ?thesis using fresh_free [of h b] assms(1,4) by (simp add: sane_def)
qed

lemma allocate_new:
  assumes "sane h" "allocate sz roots ob h = (a, h')" "obj_at h' b = Some x" "hp_fresh h \<le> b"
  shows "b = a \<and> x = ob"
proof -
  let ?h = "before_allocate sz roots h"
  have l: "link_object sz ob ?h = (a, h')" using assms(2) by (simp add: allocate_def)
  have "b = a"
  proof (rule ccontr)
    assume "b \<noteq> a"
    then have "obj_at ?h b = Some x" using obj_at_link [OF l, of b] assms(3) by simp
    then have "obj_at h b = Some x" by (rule before_allocate_old [OF assms(1)])
    then show False using fresh_free [of h b] assms(1,4) by (simp add: sane_def)
  qed
  then show ?thesis using obj_at_link [OF l, of b] assms(3) by simp
qed

subsection \<open>Writing an object and the temporary roots\<close>

lemma obj_at_set_obj [heap_simps]:
  "obj_at (set_obj a ob h) b = (if b = a \<and> obj_at h a \<noteq> None then Some ob else obj_at h b)"
proof -
  have "map_of (map (\<lambda>(b, m, x). if b = a then (b, m, ob) else (b, m, x)) cells) b =
    (if b = a then map_option (\<lambda>(m, x). (m, ob)) (map_of cells b) else map_of cells b)"
    for cells :: "(addr \<times> bool \<times> obj) list"
    by (induction cells) auto
  then show ?thesis by (cases "map_of (hp_objects h) a") (auto simp: obj_at_def set_obj_def)
qed

lemma obj_at_temp [heap_simps]:
  "obj_at (push_temp v h) a = obj_at h a" "obj_at (pop_temp h) a = obj_at h a"
  by (simp_all add: push_temp_def pop_temp_def obj_at_def)

lemma sane_temp [heap_simps]: "sane (push_temp v h) = sane h" "sane (pop_temp h) = sane h"
  by (simp_all add: sane_def heap_ok_def strings_ok_def no_dangling_def heap_simps)
    (simp_all add: push_temp_def pop_temp_def)

lemma sane_set_obj:
  assumes "sane h" "obj_at h a = Some old" "\<not> is_string old" "\<not> is_string ob"
    "\<forall>b\<in>set (trace ob). obj_at h b \<noteq> None"
  shows "sane (set_obj a ob h)"
proof -
  have f: "map fst (hp_objects (set_obj a ob h)) = map fst (hp_objects h)"
    by (auto simp: set_obj_def intro: map_cong)
  have "\<forall>(b, m, x)\<in>set (hp_objects (set_obj a ob h)). b < hp_fresh h \<and> \<not> m"
    using assms(1) by (fastforce simp: set_obj_def sane_def heap_ok_def split: if_splits)
  moreover have "length (hp_objects (set_obj a ob h)) = length (hp_objects h)" by (simp add: set_obj_def)
  moreover have "strings_ok (set_obj a ob h)"
  proof -
    have "obj_at (set_obj a ob h) b = Some (OString s) \<longleftrightarrow> obj_at h b = Some (OString s)" for b s
      using assms(2-4) by (auto simp: heap_simps is_string_def)
    then show ?thesis using assms(1) by (simp add: sane_def heap_ok_def strings_ok_def set_obj_def)
  qed
  moreover have "no_dangling (set_obj a ob h)"
    using assms(1,2,5) by (fastforce simp: no_dangling_def heap_simps sane_def split: if_splits)
  ultimately show ?thesis
    using assms(1) f by (simp add: sane_def heap_ok_def) (simp add: set_obj_def)
qed

lemma empty_heap_sane: "sane empty_heap"
  by (simp add: sane_def heap_ok_def strings_ok_def no_dangling_def obj_at_def empty_heap_def)

subsection \<open>The collector's promises\<close>

text \<open>A heap for the witnesses: an array that holds a string, and a string nothing refers to.\<close>

definition demo_heap :: heap where
  "demo_heap = empty_heap\<lparr>hp_objects := [(2, False, OString ''dead''), (1, False, OArray [VObj 0]),
       (0, False, OString ''kept'')],
     hp_fresh := 3, hp_strings := [(''dead'', 2), (''kept'', 0)], hp_bytes := 30,
     hp_stats := (hp_stats empty_heap)\<lparr>hs_live_objects := 3\<rparr>\<rparr>"

lemmas heap_eval = collect_def sweep_def Let_def demo_heap_def empty_heap_def mark_objects_def
  mark_object_def set_mark_def value_addrs_def obj_at_def free_object_def stats_live_def

lemma demo_heap_sane: "sane demo_heap"
proof -
  have o: "obj_at demo_heap a = (if a = 2 then Some (OString ''dead'') else if a = 1 then Some (OArray [VObj 0])
      else if a = 0 then Some (OString ''kept'') else None)" for a
    by (simp add: obj_at_def demo_heap_def)
  have "strings_ok demo_heap" unfolding strings_ok_def o by (auto simp: demo_heap_def)
  moreover have "no_dangling demo_heap" unfolding no_dangling_def o by (auto simp: value_addrs_def)
  moreover have "distinct (map fst (hp_objects demo_heap))"
    "\<forall>(a, m, x)\<in>set (hp_objects demo_heap). a < hp_fresh demo_heap \<and> \<not> m"
    "hs_live_objects (hp_stats demo_heap) = length (hp_objects demo_heap)"
    by (simp_all add: demo_heap_def)
  ultimately show ?thesis by (simp only: sane_def heap_ok_def simp_thms)
qed

text \<open>C6. A collection frees exactly the objects that no root reaches, and leaves every other object
  as it is at its address: nothing in use is freed and no garbage, cyclic or not, survives.\<close>

theorem collect_exact:
  assumes "heap_ok h"
  shows "obj_at (collect sz roots h) a =
    (if reach h (set (concat (map value_addrs (hp_temp_roots h))) \<union> set roots) a then obj_at h a else None)"
  using obj_at_collect [OF assms, of sz roots a] by (simp add: gc_roots_def)

theorem collect_exact_witness:
  "obj_at (collect (\<lambda>_. 10) [1] demo_heap) 0 =
     (if reach demo_heap (set (concat (map value_addrs (hp_temp_roots demo_heap))) \<union> set [1]) 0
      then obj_at demo_heap 0 else None) \<and>
   obj_at (collect (\<lambda>_. 10) [1] demo_heap) 0 = Some (OString ''kept'') \<and>
   obj_at (collect (\<lambda>_. 10) [1] demo_heap) 2 = None"
proof (intro conjI)
  show "obj_at (collect (\<lambda>_. 10) [1] demo_heap) 0 =
     (if reach demo_heap (set (concat (map value_addrs (hp_temp_roots demo_heap))) \<union> set [1]) 0
      then obj_at demo_heap 0 else None)"
    using demo_heap_sane by (intro collect_exact) (simp add: sane_def)
  show "obj_at (collect (\<lambda>_. 10) [1] demo_heap) 0 = Some (OString ''kept'')"
    "obj_at (collect (\<lambda>_. 10) [1] demo_heap) 2 = None" by (simp_all add: heap_eval)
qed

text \<open>C7. A collection keeps the heap sound: addresses stay distinct and below the counter, no mark is
  left, the intern table holds exactly the string objects that survived, no object points to a
  freed one, the live bytes are recounted, and the next collection is due at twice the live bytes
  or 1 MiB, whichever is more.\<close>

theorem collect_invariant:
  assumes "heap_ok h" "no_dangling h"
  shows "heap_ok (collect sz roots h) \<and> no_dangling (collect sz roots h) \<and>
    hp_bytes (collect sz roots h) = heap_bytes sz (collect sz roots h) \<and>
    hp_next_gc (collect sz roots h) = max kMinNextGc (2 * heap_bytes sz (collect sz roots h))"
proof -
  have "hp_next_gc (collect sz roots h) = max kMinNextGc (hp_bytes (collect sz roots h) * 2)"
    by (simp add: collect_def Let_def)
  then show ?thesis
    using collect_heap_ok [OF assms(1)] collect_no_dangling [OF assms]
      collect_fields [OF assms(1), of sz roots] by simp
qed

theorem collect_invariant_witness:
  "heap_ok (collect (\<lambda>_. 10) [1] demo_heap) \<and> hp_bytes (collect (\<lambda>_. 10) [1] demo_heap) = 20"
proof -
  have "hp_bytes (collect (\<lambda>_. 10) [1] demo_heap) = 20" by (simp add: heap_eval)
  then show ?thesis
    using collect_invariant [of demo_heap "\<lambda>_. 10" "[1]"] demo_heap_sane by (simp add: sane_def)
qed

text \<open>C8. Interning: the string object handed out holds the bytes, every other string object holds
  other bytes (so that comparing addresses compares contents), and whatever collection the
  allocation triggers leaves everything a root reaches in place.\<close>

theorem intern_unique:
  assumes "heap_ok h" "no_dangling h" "intern sz roots bytes h = (a, h')"
  shows "obj_at h' a = Some (OString bytes) \<and>
    (\<forall>b. obj_at h' b = Some (OString bytes) \<longrightarrow> b = a) \<and>
    heap_ok h' \<and> no_dangling h' \<and>
    (\<forall>b. reach h (gc_roots roots h) b \<longrightarrow> obj_at h' b = obj_at h b)"
proof -
  have s: "sane h" using assms(1,2) by (simp add: sane_def)
  note i = intern_ok [OF s assms(3)]
  then have "strings_ok h'" by (simp add: retains_def heap_ok_def)
  then have t: "map_of (hp_strings h') bytes = Some b \<longleftrightarrow> obj_at h' b = Some (OString bytes)" for b
    by (simp add: strings_ok_def)
  have "\<forall>b. obj_at h' b = Some (OString bytes) \<longrightarrow> b = a"
    unfolding t [symmetric] using t [of a] i(2) by simp
  then show ?thesis using i unfolding retains_def by blast
qed

theorem intern_unique_witness:
  "fst (intern (\<lambda>_. 10) [1] ''new'' (demo_heap\<lparr>hp_stress := True\<rparr>)) = 3 \<and>
   obj_at (snd (intern (\<lambda>_. 10) [1] ''new'' (demo_heap\<lparr>hp_stress := True\<rparr>))) 3 = Some (OString ''new'')"
proof -
  let ?h = "demo_heap\<lparr>hp_stress := True\<rparr>"
  have o: "obj_at ?h b = obj_at demo_heap b" for b by (simp add: obj_at_def)
  have "sane ?h" using demo_heap_sane
    by (simp add: sane_def heap_ok_def no_dangling_def strings_ok_def o)
  moreover have "fst (intern (\<lambda>_. 10) [1] ''new'' ?h) = 3"
    by (simp add: heap_eval allocate_def before_allocate_def link_object_def intern_def)
  ultimately show ?thesis
    using intern_unique [of ?h "\<lambda>_. 10" "[1]" "''new''" 3 "snd (intern (\<lambda>_. 10) [1] ''new'' ?h)"]
    by (metis prod.collapse sane_def)
qed

end
