(* ===== verification/Ops.thy ===== *)
theory Ops
  imports Heap "HOL-Library.Signed_Division"
begin

text \<open>
  \<open>runtime/ops.h\<close>, \<open>ops.cpp\<close> and \<open>natives.cpp\<close>: every rule of the language about values, stated
  once for all engines. An operation that may fail returns the error message on the left. An
  operation that reads objects takes the heap; one that allocates also takes the size parameter
  and the addresses the root markers mark, and returns the new heap. \<open>array_set\<close> writes the heap.
\<close>

subsection \<open>Looking at values\<close>

definition is_int :: "value \<Rightarrow> bool" where
  "is_int v = (case v of VInt i \<Rightarrow> True | _ \<Rightarrow> False)"

definition is_number :: "value \<Rightarrow> bool" where
  "is_number v = (case v of VInt i \<Rightarrow> True | VFloat d \<Rightarrow> True | _ \<Rightarrow> False)"

definition as_int :: "value \<Rightarrow> int32" where
  "as_int v = (case v of VInt i \<Rightarrow> i | _ \<Rightarrow> 0)"

definition to_double :: "value \<Rightarrow> double" where
  "to_double v = (case v of VInt i \<Rightarrow> f_of_int32 i | VFloat d \<Rightarrow> d | _ \<Rightarrow> 0)"

definition string_of :: "heap \<Rightarrow> value \<Rightarrow> string option" where
  "string_of h v =
     (case v of
        VObj a \<Rightarrow> (case obj_at h a of Some (OString s) \<Rightarrow> Some s | _ \<Rightarrow> None)
      | _ \<Rightarrow> None)"

text \<open>\<open>is_array\<close> and \<open>as_array\<close>: the address and the elements.\<close>

definition array_of :: "heap \<Rightarrow> value \<Rightarrow> (addr \<times> value list) option" where
  "array_of h v =
     (case v of
        VObj a \<Rightarrow> (case obj_at h a of Some (OArray vs) \<Rightarrow> Some (a, vs) | _ \<Rightarrow> None)
      | _ \<Rightarrow> None)"

definition is_truthy :: "value \<Rightarrow> bool" where
  "is_truthy v \<longleftrightarrow> \<not> (v = VNil \<or> v = VBool False)"

subsection \<open>Messages\<close>

definition kErrAddOperands :: string where
  "kErrAddOperands = ''operands must be two numbers or two strings''"
definition kErrNumbers :: string where "kErrNumbers = ''operands must be numbers''"
definition kErrModInts :: string where
  "kErrModInts = ''operands of '' @ quoted ''%'' @ '' must be ints''"
definition kErrNegate :: string where "kErrNegate = ''operand must be a number''"
definition kErrDivZero :: string where "kErrDivZero = ''division by zero''"
definition kErrIndexNotArray :: string where "kErrIndexNotArray = ''can only index arrays''"
definition kErrIndexNotInt :: string where "kErrIndexNotInt = ''array index must be an int''"
definition kErrIndexRange :: string where "kErrIndexRange = ''array index out of range''"
definition kErrNotCallable :: string where "kErrNotCallable = ''can only call functions''"
definition kErrStackOverflow :: string where "kErrStackOverflow = ''stack overflow''"
definition kMaxCallDepth :: nat where "kMaxCallDepth = 10000"

definition arity_error_message :: "nat \<Rightarrow> nat \<Rightarrow> string" where
  "arity_error_message expected got =
     ''expected '' @ nat_digits expected @ '' arguments but got '' @ nat_digits got"

definition undefined_variable_message :: "string \<Rightarrow> string" where
  "undefined_variable_message name = ''undefined variable '' @ quoted name"

subsection \<open>Arithmetic\<close>

definition wrap_add :: "int32 \<Rightarrow> int32 \<Rightarrow> int32" where "wrap_add a b = a + b"
definition wrap_sub :: "int32 \<Rightarrow> int32 \<Rightarrow> int32" where "wrap_sub a b = a - b"
definition wrap_mul :: "int32 \<Rightarrow> int32 \<Rightarrow> int32" where "wrap_mul a b = a * b"
definition wrap_neg :: "int32 \<Rightarrow> int32" where "wrap_neg a = 0 - a"

definition numeric_binary :: "(int32 \<Rightarrow> int32 \<Rightarrow> string + value) \<Rightarrow> (double \<Rightarrow> double \<Rightarrow> double) \<Rightarrow>
    value \<Rightarrow> value \<Rightarrow> string + value" where
  "numeric_binary int_fn float_fn a b =
     (if \<not> is_number a \<or> \<not> is_number b then Inl kErrNumbers
      else if is_int a \<and> is_int b then int_fn (as_int a) (as_int b)
      else Inr (VFloat (float_fn (to_double a) (to_double b))))"

definition numeric_compare :: "(int32 \<Rightarrow> int32 \<Rightarrow> bool) \<Rightarrow> (double \<Rightarrow> double \<Rightarrow> bool) \<Rightarrow>
    value \<Rightarrow> value \<Rightarrow> string + value" where
  "numeric_compare int_cmp float_cmp a b =
     (if \<not> is_number a \<or> \<not> is_number b then Inl kErrNumbers
      else if is_int a \<and> is_int b then Inr (VBool (int_cmp (as_int a) (as_int b)))
      else Inr (VBool (float_cmp (to_double a) (to_double b))))"

definition op_add :: "(obj \<Rightarrow> nat) \<Rightarrow> addr list \<Rightarrow> value \<Rightarrow> value \<Rightarrow> heap \<Rightarrow> (string + value) \<times> heap" where
  "op_add sz roots a b h =
     (case (string_of h a, string_of h b) of
        (Some s, Some t) \<Rightarrow> (let (r, h) = intern sz roots (s @ t) h in (Inr (VObj r), h))
      | _ \<Rightarrow>
          if is_number a \<and> is_number b
          then (if is_int a \<and> is_int b
                then (Inr (VInt (wrap_add (as_int a) (as_int b))), h)
                else (Inr (VFloat (fadd (to_double a) (to_double b))), h))
          else (Inl kErrAddOperands, h))"

definition op_sub :: "value \<Rightarrow> value \<Rightarrow> string + value" where
  "op_sub a b = numeric_binary (\<lambda>x y. Inr (VInt (wrap_sub x y))) fsub a b"

definition op_mul :: "value \<Rightarrow> value \<Rightarrow> string + value" where
  "op_mul a b = numeric_binary (\<lambda>x y. Inr (VInt (wrap_mul x y))) fmul a b"

text \<open>C++ division truncates toward zero, and \<open>x % y\<close> is what it leaves.\<close>

definition trunc_div :: "int32 \<Rightarrow> int32 \<Rightarrow> int32" where
  "trunc_div x y = word_of_int (sint x sdiv sint y)"

definition trunc_mod :: "int32 \<Rightarrow> int32 \<Rightarrow> int32" where
  "trunc_mod x y = word_of_int (sint x smod sint y)"

definition op_div :: "value \<Rightarrow> value \<Rightarrow> string + value" where
  "op_div a b =
     numeric_binary
       (\<lambda>x y. if y = 0 then Inl kErrDivZero
              else Inr (VInt (if y = - 1 then wrap_neg x else trunc_div x y)))
       fdiv a b"

definition op_mod :: "value \<Rightarrow> value \<Rightarrow> string + value" where
  "op_mod a b =
     (if \<not> is_int a \<or> \<not> is_int b then Inl kErrModInts
      else
        let x = as_int a; y = as_int b
        in if y = 0 then Inl kErrDivZero
           else Inr (VInt (if y = - 1 then 0 else trunc_mod x y)))"

definition op_negate :: "value \<Rightarrow> string + value" where
  "op_negate a =
     (case a of
        VInt i \<Rightarrow> Inr (VInt (wrap_neg i))
      | VFloat d \<Rightarrow> Inr (VFloat (fneg d))
      | _ \<Rightarrow> Inl kErrNegate)"

definition op_not :: "value \<Rightarrow> value" where
  "op_not a = VBool (\<not> is_truthy a)"

subsection \<open>Comparison and equality\<close>

definition op_less :: "value \<Rightarrow> value \<Rightarrow> string + value" where
  "op_less a b = numeric_compare (\<lambda>x y. sint x < sint y) flt a b"
definition op_less_equal :: "value \<Rightarrow> value \<Rightarrow> string + value" where
  "op_less_equal a b = numeric_compare (\<lambda>x y. sint x \<le> sint y) fle a b"
definition op_greater :: "value \<Rightarrow> value \<Rightarrow> string + value" where
  "op_greater a b = numeric_compare (\<lambda>x y. sint x > sint y) (\<lambda>x y. flt y x) a b"
definition op_greater_equal :: "value \<Rightarrow> value \<Rightarrow> string + value" where
  "op_greater_equal a b = numeric_compare (\<lambda>x y. sint x \<ge> sint y) (\<lambda>x y. fle y x) a b"

definition values_equal :: "value \<Rightarrow> value \<Rightarrow> bool" where
  "values_equal a b =
     (if is_number a \<and> is_number b
      then (if is_int a \<and> is_int b then as_int a = as_int b else feq (to_double a) (to_double b))
      else case (a, b) of
             (VNil, VNil) \<Rightarrow> True
           | (VBool x, VBool y) \<Rightarrow> x = y
           | (VObj x, VObj y) \<Rightarrow> x = y
           | _ \<Rightarrow> False)"

subsection \<open>Printing\<close>

text \<open>The loop over the precisions 1 to 17 and the text of the first that reads back as \<open>x\<close>.\<close>

function shortest_g :: "nat \<Rightarrow> double \<Rightarrow> string" where
  "shortest_g p x =
     (let buf = printf_g p x in if feq (strtod buf) x \<or> 17 \<le> p then buf else shortest_g (Suc p) x)"
  by pat_completeness auto
termination
  by (relation "measure (\<lambda>(p, x). 17 - p)") auto

declare shortest_g.simps [simp del]

definition format_float :: "double \<Rightarrow> string" where
  "format_float x =
     (if isnan x then ''nan''
      else if isinf x then (if flt x 0 then ''-inf'' else ''inf'')
      else
        let buf = shortest_g 1 x
        in if list_ex (\<lambda>c. c = CHR ''.'' \<or> c = CHR ''e'') buf then buf else buf @ ''.0'')"

definition string_at :: "heap \<Rightarrow> addr \<Rightarrow> string" where
  "string_at h a = (case obj_at h a of Some (OString s) \<Rightarrow> s | _ \<Rightarrow> [])"

definition function_label :: "heap \<Rightarrow> function_object \<Rightarrow> string" where
  "function_label h f =
     (case fo_name f of Some n \<Rightarrow> ''<fn '' @ string_at h n @ ''>'' | None \<Rightarrow> ''<script>'')"

definition print_object :: "heap \<Rightarrow> obj \<Rightarrow> string" where
  "print_object h ob =
     (case ob of
        OString s \<Rightarrow> s
      | ONative n k f \<Rightarrow> ''<native fn>''
      | OArray vs \<Rightarrow> ''[...]''
      | OFunction f \<Rightarrow> function_label h f
      | OClosure f us \<Rightarrow>
          (case obj_at h f of Some (OFunction fn) \<Rightarrow> function_label h fn | _ \<Rightarrow> [])
      | OTreeFunction n d c \<Rightarrow> ''<fn '' @ string_at h n @ ''>''
      | OEnvironment vars e \<Rightarrow> ''<environment>''
      | OUpvalue u \<Rightarrow> ''<upvalue>'')"

definition print_scalar :: "heap \<Rightarrow> value \<Rightarrow> string" where
  "print_scalar h v =
     (case v of
        VNil \<Rightarrow> ''nil''
      | VBool b \<Rightarrow> if b then ''true'' else ''false''
      | VInt i \<Rightarrow> int_digits (sint i)
      | VFloat d \<Rightarrow> format_float d
      | VObj a \<Rightarrow> (case obj_at h a of Some ob \<Rightarrow> print_object h ob | None \<Rightarrow> []))"

text \<open>
  \<open>print_value\<close>: a frame is an array that is being printed and the number of elements already
  written; \<open>printing\<close> holds the arrays whose closing bracket is still to come.
\<close>

definition array_at :: "heap \<Rightarrow> addr \<Rightarrow> value list" where
  "array_at h a = (case obj_at h a of Some (OArray vs) \<Rightarrow> vs | _ \<Rightarrow> [])"

definition open_array :: "addr \<Rightarrow> (addr \<times> nat) list \<times> addr list \<times> string \<Rightarrow>
    (addr \<times> nat) list \<times> addr list \<times> string" where
  "open_array a st =
     (case st of (stack, printing, out) \<Rightarrow>
        if a \<in> set printing then (stack, printing, out @ ''[...]'')
        else ((a, 0) # stack, List.insert a printing, out @ ''[''))"

definition print_step :: "heap \<Rightarrow> (addr \<times> nat) list \<times> addr list \<times> string \<Rightarrow>
    (addr \<times> nat) list \<times> addr list \<times> string" where
  "print_step h st =
     (case st of
        ([], printing, out) \<Rightarrow> st
      | ((a, next) # stack, printing, out) \<Rightarrow>
          (let elements = array_at h a
           in if length elements \<le> next then (stack, removeAll a printing, out @ '']'')
              else
                let out = (if 0 < next then out @ '', '' else out);
                    element = elements ! next; stack = (a, next + 1) # stack
                in case array_of h element of
                     Some (b, _) \<Rightarrow> open_array b (stack, printing, out)
                   | None \<Rightarrow> (stack, printing, out @ print_scalar h element)))"


text \<open>
  Printing ends: opening an array uses up one of the arrays that are not being printed, so the
  work still to do is bounded by a weight that depends on how many of those are left.
\<close>

definition array_addrs :: "heap \<Rightarrow> addr set" where
  "array_addrs h = {a. \<exists>vs. obj_at h a = Some (OArray vs)}"

definition spare_arrays :: "heap \<Rightarrow> addr list \<Rightarrow> nat" where
  "spare_arrays h printing = card (array_addrs h - set printing)"

definition all_elements :: "heap \<Rightarrow> nat" where
  "all_elements h = (\<Sum>a\<in>array_addrs h. length (array_at h a))"

fun print_weight :: "nat \<Rightarrow> nat \<Rightarrow> nat" where
  "print_weight n 0 = 1"
| "print_weight n (Suc k) = n * print_weight n k + 2"

fun print_work :: "heap \<Rightarrow> (addr \<times> nat) list \<Rightarrow> addr list \<Rightarrow> nat" where
  "print_work h [] printing = 0"
| "print_work h ((a, next) # stack) printing =
     (length (array_at h a) - next) * print_weight (all_elements h) (spare_arrays h printing) + 1 +
     print_work h stack (removeAll a printing)"

lemma finite_array_addrs: "finite (array_addrs h)"
proof -
  have "array_addrs h \<subseteq> fst ` set (hp_objects h)"
    by (force simp: array_addrs_def obj_at_def dest: map_of_SomeD)
  then show ?thesis by (rule finite_subset) simp
qed

lemma print_weight_pos: "0 < print_weight n k"
  by (cases k) auto

lemma array_of_addr: "array_of h v = Some (b, vs) \<Longrightarrow> v = VObj b \<and> b \<in> array_addrs h \<and> array_at h b = vs"
  by (auto simp: array_of_def array_addrs_def array_at_def split: gvalue.splits option.splits obj.splits)

lemma length_array_le: "length (array_at h a) \<le> all_elements h"
proof (cases "a \<in> array_addrs h")
  case True
  then show ?thesis unfolding all_elements_def
    by (intro member_le_sum) (simp_all add: finite_array_addrs)
next
  case False
  then show ?thesis by (auto simp: array_addrs_def array_at_def split: option.splits obj.splits)
qed

lemma spare_insert:
  assumes "b \<in> array_addrs h" "b \<notin> set printing"
  shows "spare_arrays h printing = Suc (spare_arrays h (List.insert b printing))"
proof -
  let ?rest = "array_addrs h - insert b (set printing)"
  have "card (array_addrs h - set printing) = card (insert b ?rest)"
    by (rule arg_cong [where f = card]) (use assms in blast)
  also have "\<dots> = Suc (card ?rest)"
    by (rule card_insert_disjoint) (simp_all add: finite_array_addrs)
  finally show ?thesis by (simp add: spare_arrays_def)
qed

lemma print_step_work:
  assumes "print_step h (f # stack, printing, out) = (stack', printing', out')"
  shows "print_work h stack' printing' < print_work h (f # stack) printing"
proof -
  obtain a n where f: "f = (a, n)" by (cases f)
  let ?w = "\<lambda>pr. print_weight (all_elements h) (spare_arrays h pr)"
  show ?thesis
  proof (cases "length (array_at h a) \<le> n")
    case True
    then show ?thesis using assms by (simp add: f print_step_def)
  next
    case more: False
    then have one: "(length (array_at h a) - (n + 1)) * ?w printing + ?w printing =
        (length (array_at h a) - n) * ?w printing"
      proof -
      have "length (array_at h a) - n = Suc (length (array_at h a) - (n + 1))" using more by simp
      then show ?thesis by simp
    qed
    show ?thesis
    proof (cases "array_of h (array_at h a ! n)")
      case None
      then show ?thesis
        using assms more one print_weight_pos [of "all_elements h" "spare_arrays h printing"]
        by (auto simp: f print_step_def Let_def)
    next
      case (Some p)
      then obtain b vs where b: "array_of h (array_at h a ! n) = Some (b, vs)" by (cases p) auto
      show ?thesis
      proof (cases "b \<in> set printing")
        case True
        then show ?thesis
          using assms more one b print_weight_pos [of "all_elements h" "spare_arrays h printing"]
          by (auto simp: f print_step_def Let_def open_array_def)
      next
        case False
        have w: "?w printing = all_elements h * ?w (List.insert b printing) + 2"
          using spare_insert [of b h printing] array_of_addr [OF b] False by simp
        have "length (array_at h b) * ?w (List.insert b printing) + 1 < ?w printing"
          unfolding w using length_array_le [of h b] mult_le_mono1 by (simp add: less_Suc_eq_le)
        moreover have "removeAll b (List.insert b printing) = printing" using False by simp
        ultimately show ?thesis
          using assms more one b False by (auto simp: f print_step_def Let_def open_array_def)
      qed
    qed
  qed
qed

function print_loop :: "heap \<Rightarrow> (addr \<times> nat) list \<times> addr list \<times> string \<Rightarrow> string" where
  "print_loop h ([], printing, out) = out"
| "print_loop h (f # stack, printing, out) = print_loop h (print_step h (f # stack, printing, out))"
  by pat_completeness auto
termination
proof (relation "measure (\<lambda>(h, stack, printing, out). print_work h stack printing)", goal_cases)
  case (2 h f stack printing out)
  obtain stack' printing' out' where "print_step h (f # stack, printing, out) = (stack', printing', out')"
    by (metis prod_cases3)
  with print_step_work [OF this] show ?case by simp
qed simp

declare print_loop.simps(2) [simp del]

definition print_value :: "heap \<Rightarrow> value \<Rightarrow> string" where
  "print_value h v =
     (case array_of h v of
        None \<Rightarrow> print_scalar h v
      | Some (a, _) \<Rightarrow> print_loop h (open_array a ([], [], [])))"

subsection \<open>Arrays\<close>

definition resolve_index :: "heap \<Rightarrow> value \<Rightarrow> value \<Rightarrow> string + nat" where
  "resolve_index h array index =
     (case array_of h array of
        None \<Rightarrow> Inl kErrIndexNotArray
      | Some (a, vs) \<Rightarrow>
          if \<not> is_int index then Inl kErrIndexNotInt
          else
            let i = sint (as_int index)
            in if i < 0 \<or> int (length vs) \<le> i then Inl kErrIndexRange else Inr (nat i))"

definition array_get :: "heap \<Rightarrow> value \<Rightarrow> value \<Rightarrow> string + value" where
  "array_get h array index =
     sbind (resolve_index h array index)
       (\<lambda>position. case array_of h array of Some (a, vs) \<Rightarrow> Inr (vs ! position) | None \<Rightarrow> Inl [])"

definition array_set :: "value \<Rightarrow> value \<Rightarrow> value \<Rightarrow> heap \<Rightarrow> string + heap" where
  "array_set array index v h =
     sbind (resolve_index h array index)
       (\<lambda>position. case array_of h array of
          Some (a, vs) \<Rightarrow> Inr (set_obj a (OArray (vs[position := v])) h)
        | None \<Rightarrow> Inl [])"

subsection \<open>Natives\<close>

text \<open>A clock reading comes from outside: \<open>now\<close>.\<close>

definition native_clock :: "double \<Rightarrow> value" where
  "native_clock now = VFloat now"

definition native_len :: "heap \<Rightarrow> value list \<Rightarrow> string + value" where
  "native_len h args =
     (let x = args ! 0
      in case array_of h x of
           Some (a, vs) \<Rightarrow> Inr (VInt (of_nat (length vs)))
         | None \<Rightarrow>
             (case string_of h x of
                Some s \<Rightarrow> Inr (VInt (of_nat (length s)))
              | None \<Rightarrow> Inl ''len expects an array or a string''))"

definition native_array :: "(obj \<Rightarrow> nat) \<Rightarrow> addr list \<Rightarrow> value list \<Rightarrow> heap \<Rightarrow> (string + value) \<times> heap" where
  "native_array sz roots args h =
     (let n = args ! 0; fill = args ! 1
      in if \<not> is_int n \<or> sint (as_int n) < 0
         then (Inl ''array size must be a non-negative int'', h)
         else
           let (a, h) = allocate sz roots (OArray (replicate (nat (sint (as_int n))) fill)) (push_temp fill h)
           in (Inr (VObj a), pop_temp h))"

definition call_native :: "(obj \<Rightarrow> nat) \<Rightarrow> addr list \<Rightarrow> double \<Rightarrow> native_fn \<Rightarrow> value list \<Rightarrow> heap \<Rightarrow>
    (string + value) \<times> heap" where
  "call_native sz roots now f args h =
     (case f of
        NativeClock \<Rightarrow> (Inr (native_clock now), h)
      | NativeLen \<Rightarrow> (native_len h args, h)
      | NativeArray \<Rightarrow> native_array sz roots args h)"

text \<open>
  \<open>register_natives\<close> over an engine state \<open>'s\<close> that holds the heap: \<open>get\<close> and \<open>put\<close> reach it,
  \<open>roots\<close> is the engine's root marker and \<open>def\<close> the callback, which gets the name and the native.
\<close>

definition kSpecs :: "(string \<times> nat \<times> native_fn) list" where
  "kSpecs = [(''clock'', 0, NativeClock), (''len'', 1, NativeLen), (''array'', 2, NativeArray)]"

definition register_native :: "(obj \<Rightarrow> nat) \<Rightarrow> ('s \<Rightarrow> heap) \<Rightarrow> (heap \<Rightarrow> 's \<Rightarrow> 's) \<Rightarrow> ('s \<Rightarrow> addr list) \<Rightarrow>
    (string \<Rightarrow> value \<Rightarrow> 's \<Rightarrow> 's) \<Rightarrow> string \<times> nat \<times> native_fn \<Rightarrow> 's \<Rightarrow> 's" where
  "register_native sz get put roots def spec s =
     (case spec of (name, arity, f) \<Rightarrow>
        (let (a, h) = allocate sz (roots s) (ONative name arity f) (get s);
             s = def name (VObj a) (put (push_temp (VObj a) h) s)
         in put (pop_temp (get s)) s))"

definition register_natives :: "(obj \<Rightarrow> nat) \<Rightarrow> ('s \<Rightarrow> heap) \<Rightarrow> (heap \<Rightarrow> 's \<Rightarrow> 's) \<Rightarrow> ('s \<Rightarrow> addr list) \<Rightarrow>
    (string \<Rightarrow> value \<Rightarrow> 's \<Rightarrow> 's) \<Rightarrow> 's \<Rightarrow> 's" where
  "register_natives sz get put roots def s = fold (register_native sz get put roots def) kSpecs s"

end
