(* ===== verification/Ops_Spec.thy ===== *)
theory Ops_Spec
  imports Ops Heap_Spec
begin

text \<open>
  The laws of the operations: division, exact comparison of mixed numbers, equality, printing
  against a recursive definition, array reads and writes, and concatenation through interning.
\<close>

subsection \<open>Integers\<close>

lemma sint32_range: "- (2 ^ 31) \<le> sint (x :: int32)" "sint (x :: int32) < 2 ^ 31"
  using sint_range_size [of x] by (simp_all add: word_size)

lemma sint_word_of_int32: "- (2 ^ 31) \<le> n \<Longrightarrow> n < 2 ^ 31 \<Longrightarrow> sint (word_of_int n :: int32) = n"
  by (simp add: sint_sbintrunc' signed_take_bit_int_eq_self)

lemma sdiv_range:
  assumes "y \<noteq> 0" "y \<noteq> - 1"
  shows "- (2 ^ 31) \<le> sint (x :: int32) sdiv y \<and> sint (x :: int32) sdiv y < 2 ^ 31"
proof (cases "y = 1")
  case True
  then show ?thesis using sint32_range [of x] by (simp add: signed_divide_int_def sgn_if)
next
  case False
  with assms have "2 \<le> \<bar>y\<bar>" by linarith
  then have "\<bar>sint x\<bar> div \<bar>y\<bar> \<le> \<bar>sint x\<bar> div 2" by (intro zdiv_mono2) auto
  also have "\<dots> \<le> 2 ^ 30" using sint32_range [of x] by simp
  finally have b: "\<bar>sint x\<bar> div \<bar>y\<bar> \<le> 2 ^ 30" .
  have p: "0 \<le> \<bar>sint x\<bar> div \<bar>y\<bar>" using assms by (simp add: pos_imp_zdiv_nonneg_iff)
  have "\<bar>sgn (sint x) * sgn y\<bar> \<le> 1" by (simp add: sgn_if)
  then have "\<bar>sint x sdiv y\<bar> \<le> \<bar>sint x\<bar> div \<bar>y\<bar>"
    unfolding signed_divide_int_def using p by (simp add: abs_mult mult_left_le_one_le)
  with b have "\<bar>sint x sdiv y\<bar> \<le> 1073741824" by simp
  then show ?thesis by auto
qed

lemma smod_props:
  assumes "y \<noteq> 0"
  shows "\<bar>x smod y\<bar> < \<bar>y\<bar>" and "x smod y = 0 \<or> sgn (x smod y) = sgn (x :: int)"
proof -
  have m: "x smod y = sgn x * (\<bar>x\<bar> mod \<bar>y\<bar>)" by (simp add: signed_modulo_int_def)
  have r: "0 \<le> \<bar>x\<bar> mod \<bar>y\<bar>" "\<bar>x\<bar> mod \<bar>y\<bar> < \<bar>y\<bar>" using assms by simp_all
  show "\<bar>x smod y\<bar> < \<bar>y\<bar>" unfolding m using r assms by (cases "x = 0") (simp_all add: abs_mult)
  show "x smod y = 0 \<or> sgn (x smod y) = sgn x"
    unfolding m using r by (cases "\<bar>x\<bar> mod \<bar>y\<bar> = 0") (auto simp: sgn_mult)
qed




subsection \<open>Comparison and equality\<close>

text \<open>The exact value of a number, in units of \<open>2 ^ -1074\<close>. Ints and doubles share the scale.\<close>

definition exact :: "value \<Rightarrow> int" where
  "exact v = (case v of VInt i \<Rightarrow> sint i * 2 ^ 1074 | VFloat d \<Rightarrow> f_val d | _ \<Rightarrow> 0)"

definition is_nan :: "value \<Rightarrow> bool" where
  "is_nan v = (case v of VFloat d \<Rightarrow> isnan d | _ \<Rightarrow> False)"

lemma to_double_exact:
  "is_number v \<Longrightarrow> f_val (to_double v) = exact v" "is_number v \<Longrightarrow> isnan (to_double v) = is_nan v"
  by (auto simp: is_number_def to_double_def exact_def is_nan_def f_of_int32_exact split: gvalue.splits)

lemma exact_int: "is_int v \<Longrightarrow> exact v = sint (as_int v) * 2 ^ 1074 \<and> \<not> is_nan v"
  by (auto simp: is_int_def exact_def as_int_def is_nan_def split: gvalue.splits)

lemma compare_numbers:
  assumes "is_number a" "is_number b" "\<not> is_nan a" "\<not> is_nan b"
  shows "op_less a b = Inr (VBool (exact a < exact b)) \<and>
    op_less_equal a b = Inr (VBool (exact a \<le> exact b)) \<and>
    op_greater a b = Inr (VBool (exact b < exact a)) \<and>
    op_greater_equal a b = Inr (VBool (exact b \<le> exact a)) \<and>
    values_equal a b = (exact a = exact b)"
proof (cases "is_int a \<and> is_int b")
  case True
  then have e: "exact a = sint (as_int a) * 2 ^ 1074" "exact b = sint (as_int b) * 2 ^ 1074"
    using exact_int by auto
  have "as_int a = as_int b \<longleftrightarrow> sint (as_int a) = sint (as_int b)" by (auto intro: signed_word_eqI)
  then show ?thesis
    using True assms by (simp add: e op_less_def op_less_equal_def op_greater_def
      op_greater_equal_def numeric_compare_def values_equal_def)
next
  case False
  then show ?thesis
    using assms by (simp add: op_less_def op_less_equal_def op_greater_def op_greater_equal_def
      numeric_compare_def values_equal_def flt_def fle_def feq_def to_double_exact if_not_P [OF False])
qed

text \<open>C19. Comparison of numbers is comparison of the exact values, whether the operands are ints,
  floats or one of each: no mixed comparison loses precision, and the five operators are
  consistent with each other.\<close>

theorem compare_exact:
  assumes "is_number a" "is_number b" "\<not> is_nan a" "\<not> is_nan b"
  shows "op_less a b = Inr (VBool (exact a < exact b)) \<and>
    op_less_equal a b = Inr (VBool (exact a \<le> exact b)) \<and>
    op_greater a b = Inr (VBool (exact b < exact a)) \<and>
    op_greater_equal a b = Inr (VBool (exact b \<le> exact a)) \<and>
    values_equal a b = (exact a = exact b)"
  by (rule compare_numbers [OF assms])

theorem compare_exact_witness:
  "op_less (VInt 1) (VFloat 0x3FF8000000000000) =
     Inr (VBool (exact (VInt 1) < exact (VFloat 0x3FF8000000000000)))"
  using compare_exact [of "VInt 1" "VFloat 0x3FF8000000000000"]
  by (simp add: is_number_def is_nan_def isnan_def f_exp_def f_man_def)

text \<open>Equality is a partial equivalence on values, reflexive on everything but NaN, and never
  relates values of different types.\<close>

theorem equality_laws:
  "(values_equal a a \<longleftrightarrow> \<not> is_nan a) \<and> (values_equal a b = values_equal b a) \<and>
   (values_equal a b \<and> values_equal b c \<longrightarrow> values_equal a c) \<and>
   (values_equal a b \<longrightarrow> is_number a = is_number b)"
proof -
  have num: "values_equal v w = (\<not> is_nan v \<and> \<not> is_nan w \<and> exact v = exact w)"
    if "is_number v" "is_number w" for v w
  proof (cases "is_nan v \<or> is_nan w")
    case True
    then have "\<not> (is_int v \<and> is_int w)" using exact_int by auto
    then show ?thesis using True that by (auto simp: values_equal_def feq_def to_double_exact)
  qed (use compare_numbers [of v w] that in auto)
  have mixed: "\<not> values_equal v w" if "is_number v \<noteq> is_number w" for v w
    using that by (auto simp: values_equal_def is_number_def split: gvalue.splits)
  have other: "values_equal v w \<longleftrightarrow> v = w" if "\<not> is_number v" "\<not> is_number w" for v w
    using that by (auto simp: values_equal_def is_number_def split: gvalue.splits)
  have nn: "\<not> is_number v \<Longrightarrow> \<not> is_nan v" for v
    by (auto simp: is_number_def is_nan_def split: gvalue.splits)
  show ?thesis
    using num other mixed nn by (cases "is_number a"; cases "is_number b"; cases "is_number c") auto
qed




subsection \<open>Arrays\<close>

lemma array_ofE:
  assumes "array_of h v = Some (a, vs)"
  obtains "v = VObj a" "obj_at h a = Some (OArray vs)"
  using assms by (auto simp: array_of_def split: gvalue.splits option.splits obj.splits)

lemma resolve_index_Inr:
  "resolve_index h array index = Inr n \<longleftrightarrow>
   (\<exists>a vs i. array_of h array = Some (a, vs) \<and> index = VInt i \<and> n < length vs \<and> sint i = int n)"
  by (auto simp: resolve_index_def Let_def is_int_def as_int_def split: option.splits gvalue.splits)

text \<open>Writing an element: the write succeeds exactly where the read does, and with the same
  message where it does not; afterwards the element reads back, and every other element and every
  other object is as before.\<close>

theorem array_set_get:
  "(case array_get h array index of
      Inl message \<Rightarrow> array_set array index v h = Inl message \<and>
        message \<in> {kErrIndexNotArray, kErrIndexNotInt, kErrIndexRange}
    | Inr old \<Rightarrow> (\<exists>a vs n h'. array = VObj a \<and> obj_at h a = Some (OArray vs) \<and>
        index = VInt (of_nat n) \<and> n < length vs \<and> old = vs ! n \<and>
        array_set array index v h = Inr h' \<and> array_get h' array index = Inr v \<and>
        obj_at h' = (obj_at h)(a \<mapsto> OArray (vs[n := v]))))"
proof (cases "resolve_index h array index")
  case (Inl m)
  then have "m \<in> {kErrIndexNotArray, kErrIndexNotInt, kErrIndexRange}"
    by (auto simp: resolve_index_def Let_def split: option.splits if_splits)
  then show ?thesis using Inl by (simp add: array_get_def array_set_def)
next
  case (Inr n)
  then obtain a vs i where i: "array_of h array = Some (a, vs)" "index = VInt i" "n < length vs" "sint i = int n"
    by (auto simp: resolve_index_Inr)
  from i(1) have a: "array = VObj a" "obj_at h a = Some (OArray vs)" by (auto elim: array_ofE)
  let ?h = "set_obj a (OArray (vs[n := v])) h"
  have n: "i = of_nat n" using i(4) by (metis of_int_of_nat_eq of_int_sint scast_id)
  have o: "obj_at ?h = (obj_at h)(a \<mapsto> OArray (vs[n := v]))"
    by (rule ext) (simp add: heap_simps a)
  have "array_of ?h array = Some (a, vs[n := v])" by (simp add: array_of_def a o)
  moreover from this have "resolve_index ?h array index = Inr n"
    using i by (auto simp: resolve_index_Inr)
  ultimately have "array_get ?h array index = Inr v" using i(3) by (simp add: array_get_def)
  then show ?thesis
    using Inr i a n o by (simp add: array_get_def array_set_def) blast
qed


subsection \<open>Printing\<close>

text \<open>The reference: arrays print recursively, and an array met again inside itself prints as
  \<open>[...]\<close>. \<open>open\<close> is the list of arrays that enclose the value.\<close>

definition after_comma :: "string \<Rightarrow> string" where
  "after_comma z = '', '' @ z"

definition commas :: "string list \<Rightarrow> string" where
  "commas xs = (case xs of [] \<Rightarrow> [] | y # ys \<Rightarrow> y @ concat (map after_comma ys))"

function print_nested :: "heap \<Rightarrow> addr list \<Rightarrow> value \<Rightarrow> string" where
  "print_nested h enclosing v =
     (case array_of h v of
        None \<Rightarrow> print_scalar h v
      | Some (a, vs) \<Rightarrow>
          if a \<in> set enclosing then ''[...]''
          else ''['' @ commas (map (print_nested h (a # enclosing)) vs) @ '']'')"
  by pat_completeness auto
termination
proof (relation "measure (\<lambda>(h, enclosing, v). spare_arrays h enclosing)", goal_cases)
  case (2 h enclosing v p a vs z)
  then have "a \<in> array_addrs h" using array_of_addr by auto
  then show ?case using 2 spare_insert [of a h enclosing] by (simp add: spare_arrays_def)
qed simp

declare print_nested.simps [simp del]

definition more_text :: "nat \<Rightarrow> string list \<Rightarrow> string" where
  "more_text n xs = (if n = 0 then commas xs else concat (map after_comma (drop n xs)))"

lemma more_text_step:
  "n < length xs \<Longrightarrow> more_text n xs = (if 0 < n then '', '' else []) @ xs ! n @ more_text (n + 1) xs"
  by (cases xs) (auto simp: more_text_def commas_def after_comma_def Cons_nth_drop_Suc [symmetric])

lemma more_text_end: "length xs \<le> n \<Longrightarrow> more_text n xs = []"
  by (auto simp: more_text_def commas_def)

lemma print_loop_frame:
  "print_loop h ((a, n) # stack, printing, out) =
   print_loop h (stack, removeAll a printing,
     out @ more_text n (map (print_nested h printing) (array_at h a)) @ '']'')"
proof (induction "print_work h ((a, n) # stack) printing" arbitrary: a n stack printing out rule: less_induct)
  case less
  let ?vs = "array_at h a" and ?texts = "map (print_nested h printing) (array_at h a)"
  show ?case
  proof (cases "length ?vs \<le> n")
    case True
    then show ?thesis by (simp add: print_loop.simps(2) print_step_def more_text_end)
  next
    case False
    let ?out = "out @ (if 0 < n then '', '' else [])" and ?v = "?vs ! n"
    have next_frame: "print_loop h ((a, n + 1) # stack, printing, o2) =
        print_loop h (stack, removeAll a printing, o2 @ more_text (n + 1) ?texts @ '']'')" for o2
    proof (rule less)
      have "print_weight (all_elements h) (spare_arrays h printing) > 0" by (rule print_weight_pos)
      then have "(length ?vs - (n + 1)) * print_weight (all_elements h) (spare_arrays h printing) <
          (length ?vs - n) * print_weight (all_elements h) (spare_arrays h printing)"
        using False by (intro mult_less_mono1) auto
      then show "print_work h ((a, n + 1) # stack) printing < print_work h ((a, n) # stack) printing"
        by simp
    qed
    have whole: "more_text n ?texts = (if 0 < n then '', '' else []) @ print_nested h printing ?v @ more_text (n + 1) ?texts"
      using more_text_step [of n ?texts] False by simp
    show ?thesis
    proof (cases "array_of h ?v")
      case None
      then have "print_nested h printing ?v = print_scalar h ?v" by (simp add: print_nested.simps [of h])
      moreover have "print_step h ((a, n) # stack, printing, out) =
          ((a, n + 1) # stack, printing, ?out @ print_scalar h ?v)"
        using None False by (simp add: print_step_def Let_def)
      ultimately show ?thesis
        by (simp only: print_loop.simps(2) [of h "(a, n)" stack printing out] next_frame whole append_assoc)
    next
      case (Some p)
      then obtain b vs where b: "array_of h ?v = Some (b, vs)" by (cases p) auto
      show ?thesis
      proof (cases "b \<in> set printing")
        case True
        then have "print_nested h printing ?v = ''[...]''"
          using b by (simp add: print_nested.simps [of h])
        moreover have "print_step h ((a, n) # stack, printing, out) =
            ((a, n + 1) # stack, printing, ?out @ ''[...]'')"
          using b True False by (simp add: print_step_def Let_def open_array_def)
        ultimately show ?thesis
          by (simp only: print_loop.simps(2) [of h "(a, n)" stack printing out] next_frame whole append_assoc)
      next
        case new: False
        have vs: "array_at h b = vs" using array_of_addr [OF b] by simp
        have st: "print_step h ((a, n) # stack, printing, out) =
            ((b, 0) # (a, n + 1) # stack, b # printing, ?out @ ''['')"
          using b new False by (simp add: print_step_def Let_def open_array_def List.insert_def)
        have "print_nested h printing ?v = ''['' @ more_text 0 (map (print_nested h (b # printing)) vs) @ '']''"
          using b new by (simp add: print_nested.simps [of h printing] more_text_def)
        moreover have "print_loop h ((b, 0) # (a, n + 1) # stack, b # printing, o2) =
            print_loop h ((a, n + 1) # stack, printing,
              o2 @ more_text 0 (map (print_nested h (b # printing)) vs) @ '']'')" for o2
          using less [of b 0 "(a, n + 1) # stack" "b # printing" o2] print_step_work [OF st] new
          by (simp add: vs del: print_work.simps)
        ultimately show ?thesis
          by (simp only: print_loop.simps(2) [of h "(a, n)" stack printing out] st next_frame whole append_assoc)
      qed
    qed
  qed
qed

text \<open>C17. Printing returns for every value, cyclic or not, and its explicit stack prints what the
  recursive definition prints: elements in order between brackets, and [...] exactly for an array
  that is being printed already.\<close>

theorem print_value_nested: "print_value h v = print_nested h [] v"
proof (cases "array_of h v")
  case None
  then show ?thesis by (simp add: print_value_def print_nested.simps [of h "[]" v])
next
  case (Some p)
  then obtain a vs where a: "array_of h v = Some (a, vs)" by (cases p) auto
  then have "array_at h a = vs" using array_of_addr by blast
  then show ?thesis
    using a by (simp add: print_value_def open_array_def List.insert_def print_loop_frame more_text_def
      print_nested.simps [of h "[]" v])
qed

subsection \<open>Concatenation\<close>

text \<open>C18. + on two strings gives the string object of the joined bytes, in a sound heap that still
  holds everything the roots reach, whatever collection interning triggered; on two numbers it
  adds, wrapping ints and rounding floats; any other operands are the one error.\<close>

theorem op_add_correct:
  assumes "heap_ok h" "no_dangling h" "op_add sz roots a b h = (r, h')"
  shows "heap_ok h' \<and> no_dangling h' \<and> (\<forall>x. reach h (gc_roots roots h) x \<longrightarrow> obj_at h' x = obj_at h x) \<and>
    (case r of
       Inr v \<Rightarrow>
         (\<exists>s t. string_of h a = Some s \<and> string_of h b = Some t \<and> string_of h' v = Some (s @ t)) \<or>
         (\<exists>i j. a = VInt i \<and> b = VInt j \<and> v = VInt (i + j)) \<or>
         (is_number a \<and> is_number b \<and> \<not> (is_int a \<and> is_int b) \<and> v = VFloat (fadd (to_double a) (to_double b)))
     | Inl m \<Rightarrow> m = ''operands must be two numbers or two strings'' \<and> \<not> (is_number a \<and> is_number b) \<and>
         \<not> (string_of h a \<noteq> None \<and> string_of h b \<noteq> None))"
proof (cases "string_of h a \<noteq> None \<and> string_of h b \<noteq> None")
  case True
  then obtain s t where st: "string_of h a = Some s" "string_of h b = Some t" by auto
  obtain c h1 where i: "intern sz roots (s @ t) h = (c, h1)" by fastforce
  then have r: "r = Inr (VObj c)" "h1 = h'" using assms(3) st by (auto simp: op_add_def)
  have "sane h" using assms(1,2) by (simp add: sane_def)
  note k = intern_ok [OF this i]
  have "string_of h' (VObj c) = Some (s @ t)" using k(2) r by (simp add: string_of_def)
  then show ?thesis using k(1) r st by (auto simp: retains_def)
next
  case False
  then have "op_add sz roots a b h =
      (if is_number a \<and> is_number b
       then (if is_int a \<and> is_int b then Inr (VInt (wrap_add (as_int a) (as_int b)))
             else Inr (VFloat (fadd (to_double a) (to_double b))))
       else Inl kErrAddOperands, h)"
    by (auto simp: op_add_def split: option.splits)
  then have rh: "h' = h" "r = (if is_number a \<and> is_number b
       then (if is_int a \<and> is_int b then Inr (VInt (wrap_add (as_int a) (as_int b)))
             else Inr (VFloat (fadd (to_double a) (to_double b))))
       else Inl kErrAddOperands)" using assms(3) by simp_all
  have "is_int a \<and> is_int b \<Longrightarrow> \<exists>i j. a = VInt i \<and> b = VInt j \<and> VInt (wrap_add (as_int a) (as_int b)) = VInt (i + j)"
    by (auto simp: is_int_def as_int_def wrap_add_def split: gvalue.splits)
  then show ?thesis using assms(1,2) False rh by (auto simp: kErrAddOperands_def)
qed

theorem op_add_correct_witness:
  "\<exists>r h'. op_add (\<lambda>_. 10) [0, 2] (VObj 0) (VObj 2) demo_heap = (Inr r, h') \<and>
     string_of h' r = Some ''keptdead'' \<and> heap_ok h'"
proof -
  obtain r h' where o: "op_add (\<lambda>_. 10) [0, 2] (VObj 0) (VObj 2) demo_heap = (r, h')" by fastforce
  have s: "string_of demo_heap (VObj 0) = Some ''kept''" "string_of demo_heap (VObj 2) = Some ''dead''"
    by (simp_all add: string_of_def obj_at_def demo_heap_def)
  have "\<not> is_number (VObj 0)" by (simp add: is_number_def)
  then show ?thesis
    using op_add_correct [OF _ _ o] demo_heap_sane s o
    by (cases r) (auto simp: sane_def)
qed

end
