(* ===== verification/Tree_Engine.thy ===== *)
theory Tree_Engine
  imports Ops Resolver "HOL-Library.AList"
begin

text \<open>
  \<open>engine_tree.h\<close> and \<open>engine_tree.cpp\<close>: the engine that walks the syntax tree. \<open>tree_state\<close> holds
  the fields of \<open>TreeEngine\<close> with its heap and its output; a hash table is an association list. Each
  member function is a definition in the state \<open>'a tm\<close>: it returns a value and the new state, or the
  fault \<open>BadPointer\<close> where the C++ would go through a null or dangling pointer or fail an assertion,
  or \<open>Timeout\<close> when the fuel of the recursion is used up. A handler of a node takes the functions
  \<open>ev\<close> and \<open>ex\<close> that evaluate and execute its children; \<open>tree_eval\<close> and \<open>tree_exec\<close> tie the knot.
  The guards of a C++ scope (\<open>TempRoot\<close>, \<open>ActiveRoot\<close>, \<open>StackRegion\<close>, \<open>DepthGuard\<close>) are the
  \<open>with_\<close> definitions: what the destructor undoes is undone on every way out.
\<close>

subsection \<open>The state\<close>

type_synonym env = "addr option"

datatype fault = BadPointer

datatype flow = FlowNormal | FlowReturn | FlowError

record tree_state =
  te_heap :: heap
  te_globals :: "(addr \<times> value) list"
  te_names :: "(string \<times> addr) list"
  te_active :: "addr list"
  te_stack :: "value list"
  te_return_value :: "value"
  te_error :: "runtime_error option"
  te_depth :: nat
  te_out :: string
  te_ticks :: nat

type_synonym 'a tm = "tree_state \<Rightarrow> (fault, 'a \<times> tree_state) outcome"

definition treturn :: "'a \<Rightarrow> 'a tm" where
  "treturn x s = Ok (x, s)"

definition tbind :: "'a tm \<Rightarrow> ('a \<Rightarrow> 'b tm) \<Rightarrow> 'b tm" where
  "tbind m f s = bindo (m s) (\<lambda>(x, s). f x s)"

definition tget :: "(tree_state \<Rightarrow> 'a) \<Rightarrow> 'a tm" where
  "tget f s = Ok (f s, s)"

definition tmod :: "(tree_state \<Rightarrow> tree_state) \<Rightarrow> unit tm" where
  "tmod f s = Ok ((), f s)"

definition tfault :: "'a tm" where
  "tfault s = Error BadPointer"

text \<open>\<open>mark_roots\<close>: the addresses the engine's root marker marks.\<close>

definition tree_roots :: "tree_state \<Rightarrow> addr list" where
  "tree_roots s =
     concat (map (\<lambda>(name, v). name # value_addrs v) (te_globals s)) @ map snd (te_names s) @
     te_active s @ concat (map value_addrs (te_stack s)) @ value_addrs (te_return_value s)"

subsection \<open>Guards\<close>

definition with_temp :: "value \<Rightarrow> 'a tm \<Rightarrow> 'a tm" where
  "with_temp v body =
     tbind (tmod (\<lambda>s. s\<lparr>te_heap := push_temp v (te_heap s)\<rparr>)) (\<lambda>_.
     tbind body (\<lambda>r.
     tbind (tmod (\<lambda>s. s\<lparr>te_heap := pop_temp (te_heap s)\<rparr>)) (\<lambda>_. treturn r)))"

definition with_active :: "addr \<Rightarrow> 'a tm \<Rightarrow> 'a tm" where
  "with_active a body =
     tbind (tmod (\<lambda>s. s\<lparr>te_active := te_active s @ [a]\<rparr>)) (\<lambda>_.
     tbind body (\<lambda>r.
     tbind (tmod (\<lambda>s. s\<lparr>te_active := butlast (te_active s)\<rparr>)) (\<lambda>_. treturn r)))"

text \<open>\<open>StackRegion\<close>: the body gets the base of the region.\<close>

definition with_region :: "(nat \<Rightarrow> 'a tm) \<Rightarrow> 'a tm" where
  "with_region body =
     tbind (tget (\<lambda>s. length (te_stack s))) (\<lambda>base.
     tbind (body base) (\<lambda>r.
     tbind (tmod (\<lambda>s. s\<lparr>te_stack := take base (te_stack s)\<rparr>)) (\<lambda>_. treturn r)))"

definition with_depth :: "'a tm \<Rightarrow> 'a tm" where
  "with_depth body =
     tbind (tmod (\<lambda>s. s\<lparr>te_depth := te_depth s + 1\<rparr>)) (\<lambda>_.
     tbind body (\<lambda>r.
     tbind (tmod (\<lambda>s. s\<lparr>te_depth := te_depth s - 1\<rparr>)) (\<lambda>_. treturn r)))"

subsection \<open>Errors\<close>

definition failed :: "tree_state \<Rightarrow> bool" where
  "failed s \<longleftrightarrow> te_error s \<noteq> None"

definition t_fail :: "nat \<Rightarrow> string \<Rightarrow> value tm" where
  "t_fail line message =
     tbind (tmod (\<lambda>s. s\<lparr>te_error := Some \<lparr>re_line = line, re_message = message\<rparr>\<rparr>))
       (\<lambda>_. treturn VNil)"

definition take_error :: "runtime_error option tm" where
  "take_error = tbind (tget te_error) (\<lambda>e. tbind (tmod (\<lambda>s. s\<lparr>te_error := None\<rparr>)) (\<lambda>_. treturn e))"

text \<open>An operation's result, with the line attached to its message.\<close>

definition t_result :: "nat \<Rightarrow> string + value \<Rightarrow> value tm" where
  "t_result line r = (case r of Inl message \<Rightarrow> t_fail line message | Inr v \<Rightarrow> treturn v)"

text \<open>\<open>Value v = eval(...); if (failed()) return make_nil();\<close> and its form in a statement.\<close>

definition eval_then :: "value tm \<Rightarrow> (value \<Rightarrow> value tm) \<Rightarrow> value tm" where
  "eval_then m k = tbind m (\<lambda>v. tbind (tget failed) (\<lambda>f. if f then treturn VNil else k v))"

definition exec_then :: "value tm \<Rightarrow> (value \<Rightarrow> flow tm) \<Rightarrow> flow tm" where
  "exec_then m k = tbind m (\<lambda>v. tbind (tget failed) (\<lambda>f. if f then treturn FlowError else k v))"

subsection \<open>The heap\<close>

definition t_allocate :: "(obj \<Rightarrow> nat) \<Rightarrow> obj \<Rightarrow> addr tm" where
  "t_allocate sz ob s =
     (let (a, h) = allocate sz (tree_roots s) ob (te_heap s) in Ok (a, s\<lparr>te_heap := h\<rparr>))"

definition t_intern :: "(obj \<Rightarrow> nat) \<Rightarrow> string \<Rightarrow> addr tm" where
  "t_intern sz bytes s =
     (let (a, h) = intern sz (tree_roots s) bytes (te_heap s) in Ok (a, s\<lparr>te_heap := h\<rparr>))"

definition t_object :: "addr \<Rightarrow> obj tm" where
  "t_object a s = (case obj_at (te_heap s) a of Some ob \<Rightarrow> Ok (ob, s) | None \<Rightarrow> Error BadPointer)"

definition name_of :: "(obj \<Rightarrow> nat) \<Rightarrow> string \<Rightarrow> addr tm" where
  "name_of sz name =
     tbind (tget (\<lambda>s. map_of (te_names s) name)) (\<lambda>found.
       case found of
         Some a \<Rightarrow> treturn a
       | None \<Rightarrow>
           tbind (t_intern sz name) (\<lambda>a.
           tbind (tmod (\<lambda>s. s\<lparr>te_names := (name, a) # te_names s\<rparr>)) (\<lambda>_. treturn a)))"

subsection \<open>Variables\<close>

text \<open>\<open>env->vars[name] = value\<close>.\<close>

definition set_var :: "addr \<Rightarrow> addr \<Rightarrow> value \<Rightarrow> unit tm" where
  "set_var e name v =
     tbind (t_object e) (\<lambda>ob.
       case ob of
         OEnvironment vars enclosing \<Rightarrow>
           tmod (\<lambda>s. s\<lparr>te_heap := set_obj e (OEnvironment (AList.update name v vars) enclosing) (te_heap s)\<rparr>)
       | _ \<Rightarrow> tfault)"

definition define_var :: "env \<Rightarrow> addr \<Rightarrow> value \<Rightarrow> unit tm" where
  "define_var env name v =
     (case env of
        None \<Rightarrow> tmod (\<lambda>s. s\<lparr>te_globals := AList.update name v (te_globals s)\<rparr>)
      | Some e \<Rightarrow> set_var e name v)"

text \<open>The storage \<open>lookup\<close> finds: a global, or a variable of the environment at an address.\<close>

datatype slot = GlobalSlot | LocalSlot addr

fun walk_up :: "nat \<Rightarrow> env \<Rightarrow> env tm" where
  "walk_up 0 env = treturn env"
| "walk_up (Suc n) env =
     (case env of
        None \<Rightarrow> tfault
      | Some e \<Rightarrow>
          tbind (t_object e) (\<lambda>ob.
            case ob of OEnvironment vars enclosing \<Rightarrow> walk_up n enclosing | _ \<Rightarrow> tfault))"

definition lookup :: "env \<Rightarrow> binding \<Rightarrow> addr \<Rightarrow> (slot \<times> value) option tm" where
  "lookup env b name =
     (case b of
        Unresolved \<Rightarrow> tfault
      | GlobalBinding \<Rightarrow>
          tget (\<lambda>s. map_option (\<lambda>v. (GlobalSlot, v)) (map_of (te_globals s) name))
      | LocalBinding hops \<Rightarrow>
          tbind (walk_up hops env) (\<lambda>found.
            case found of
              None \<Rightarrow> tfault
            | Some e \<Rightarrow>
                tbind (t_object e) (\<lambda>ob.
                  case ob of
                    OEnvironment vars enclosing \<Rightarrow>
                      (case map_of vars name of
                         Some v \<Rightarrow> treturn (Some (LocalSlot e, v))
                       | None \<Rightarrow> tfault)
                  | _ \<Rightarrow> tfault)))"

definition assign_slot :: "slot \<Rightarrow> addr \<Rightarrow> value \<Rightarrow> unit tm" where
  "assign_slot sl name v =
     (case sl of
        GlobalSlot \<Rightarrow> tmod (\<lambda>s. s\<lparr>te_globals := AList.update name v (te_globals s)\<rparr>)
      | LocalSlot e \<Rightarrow> set_var e name v)"


subsection \<open>Calls\<close>

text \<open>The loop over a function's body: the first flow that is not normal ends the call.\<close>

fun call_body :: "(stmt \<Rightarrow> env \<Rightarrow> flow tm) \<Rightarrow> stmt list \<Rightarrow> env \<Rightarrow> value tm" where
  "call_body ex [] scope = treturn VNil"
| "call_body ex (st # sts) scope =
     tbind (ex st scope) (\<lambda>flow.
       case flow of
         FlowError \<Rightarrow> treturn VNil
       | FlowReturn \<Rightarrow>
           tbind (tget te_return_value) (\<lambda>result.
           tbind (tmod (\<lambda>s. s\<lparr>te_return_value := VNil\<rparr>)) (\<lambda>_. treturn result))
       | FlowNormal \<Rightarrow> call_body ex sts scope)"

fun bind_params :: "(obj \<Rightarrow> nat) \<Rightarrow> addr \<Rightarrow> nat \<Rightarrow> sview list \<Rightarrow> unit tm" where
  "bind_params sz scope i [] = treturn ()"
| "bind_params sz scope i (p # ps) =
     tbind (name_of sz (sv_text p)) (\<lambda>name.
     tbind (tget te_stack) (\<lambda>stack.
       if i < length stack
       then tbind (set_var scope name (stack ! i)) (\<lambda>_. bind_params sz scope (i + 1) ps)
       else tfault))"

definition call_function :: "(obj \<Rightarrow> nat) \<Rightarrow> (stmt \<Rightarrow> env \<Rightarrow> flow tm) \<Rightarrow> addr \<Rightarrow> fn_decl \<Rightarrow> env \<Rightarrow>
    nat \<Rightarrow> nat \<Rightarrow> nat \<Rightarrow> value tm" where
  "call_function sz ex fn decl closure base argc line =
     (if length (fd_params decl) \<noteq> argc
      then t_fail line (arity_error_message (length (fd_params decl)) argc)
      else
        tbind (tget te_depth) (\<lambda>depth.
          if kMaxCallDepth \<le> depth then t_fail line kErrStackOverflow
          else
            tbind (t_allocate sz (OEnvironment [] closure)) (\<lambda>scope.
            with_active fn (with_active scope (
              tbind (bind_params sz scope base (fd_params decl)) (\<lambda>_.
              with_depth (call_body ex (fd_body decl) (Some scope))))))))"

definition call_native_fn :: "(obj \<Rightarrow> nat) \<Rightarrow> (nat \<Rightarrow> double) \<Rightarrow> native_fn \<Rightarrow> nat \<Rightarrow> nat \<Rightarrow> value tm" where
  "call_native_fn sz clk f base line s =
     (let s = (if f = NativeClock then s\<lparr>te_ticks := te_ticks s + 1\<rparr> else s);
          (r, h) = call_native sz (tree_roots s) (clk (te_ticks s)) f (drop base (te_stack s)) (te_heap s)
      in t_result line r (s\<lparr>te_heap := h\<rparr>))"

definition call_value :: "(obj \<Rightarrow> nat) \<Rightarrow> (nat \<Rightarrow> double) \<Rightarrow> (stmt \<Rightarrow> env \<Rightarrow> flow tm) \<Rightarrow> value \<Rightarrow>
    nat \<Rightarrow> nat \<Rightarrow> nat \<Rightarrow> value tm" where
  "call_value sz clk ex callee base argc line =
     (case callee of
        VObj fn \<Rightarrow>
          tbind (t_object fn) (\<lambda>ob.
            case ob of
              OTreeFunction name decl closure \<Rightarrow> call_function sz ex fn decl closure base argc line
            | ONative name arity f \<Rightarrow>
                if arity \<noteq> argc then t_fail line (arity_error_message arity argc)
                else call_native_fn sz clk f base line
            | _ \<Rightarrow> t_fail line kErrNotCallable)
      | _ \<Rightarrow> t_fail line kErrNotCallable)"

subsection \<open>Expressions\<close>

definition eval_literal :: "(obj \<Rightarrow> nat) \<Rightarrow> literal \<Rightarrow> value tm" where
  "eval_literal sz l =
     (case l of
        LitNil \<Rightarrow> treturn VNil
      | LitBool b \<Rightarrow> treturn (VBool b)
      | LitInt i \<Rightarrow> treturn (VInt i)
      | LitFloat d \<Rightarrow> treturn (VFloat d)
      | LitString t \<Rightarrow> tbind (t_intern sz t) (\<lambda>a. treturn (VObj a)))"

definition eval_variable :: "(obj \<Rightarrow> nat) \<Rightarrow> sview \<Rightarrow> binding \<Rightarrow> nat \<Rightarrow> env \<Rightarrow> value tm" where
  "eval_variable sz x b line env =
     tbind (name_of sz (sv_text x)) (\<lambda>name.
     tbind (lookup env b name) (\<lambda>found.
       case found of
         None \<Rightarrow> t_fail line (undefined_variable_message (sv_text x))
       | Some (sl, v) \<Rightarrow> treturn v))"

definition eval_assign :: "(obj \<Rightarrow> nat) \<Rightarrow> (expr \<Rightarrow> env \<Rightarrow> value tm) \<Rightarrow> sview \<Rightarrow> expr \<Rightarrow> binding \<Rightarrow> nat \<Rightarrow>
    env \<Rightarrow> value tm" where
  "eval_assign sz ev x e b line env =
     tbind (name_of sz (sv_text x)) (\<lambda>name.
     eval_then (ev e env) (\<lambda>v.
     tbind (lookup env b name) (\<lambda>found.
       case found of
         None \<Rightarrow> t_fail line (undefined_variable_message (sv_text x))
       | Some (sl, old) \<Rightarrow> tbind (assign_slot sl name v) (\<lambda>_. treturn v))))"

definition eval_unary :: "(expr \<Rightarrow> env \<Rightarrow> value tm) \<Rightarrow> unary_op \<Rightarrow> expr \<Rightarrow> nat \<Rightarrow> env \<Rightarrow> value tm" where
  "eval_unary ev op e line env =
     eval_then (ev e env) (\<lambda>v.
       case op of UNot \<Rightarrow> treturn (op_not v) | UNegate \<Rightarrow> t_result line (op_negate v))"

text \<open>The operators that read no object, and \<open>op_add\<close> on the engine's heap.\<close>

definition binary_op_value :: "binary_op \<Rightarrow> value \<Rightarrow> value \<Rightarrow> string + value" where
  "binary_op_value op a b =
     (case op of
        BSub \<Rightarrow> op_sub a b
      | BMul \<Rightarrow> op_mul a b
      | BDiv \<Rightarrow> op_div a b
      | BMod \<Rightarrow> op_mod a b
      | BLt \<Rightarrow> op_less a b
      | BLe \<Rightarrow> op_less_equal a b
      | BGt \<Rightarrow> op_greater a b
      | BGe \<Rightarrow> op_greater_equal a b
      | BEq \<Rightarrow> Inr (VBool (values_equal a b))
      | BNe \<Rightarrow> Inr (VBool (\<not> values_equal a b))
      | BAdd \<Rightarrow> Inl [])"

definition t_add :: "(obj \<Rightarrow> nat) \<Rightarrow> value \<Rightarrow> value \<Rightarrow> (string + value) tm" where
  "t_add sz a b s =
     (let (r, h) = op_add sz (tree_roots s) a b (te_heap s) in Ok (r, s\<lparr>te_heap := h\<rparr>))"

definition eval_binary :: "(obj \<Rightarrow> nat) \<Rightarrow> (expr \<Rightarrow> env \<Rightarrow> value tm) \<Rightarrow> binary_op \<Rightarrow> expr \<Rightarrow> expr \<Rightarrow> nat \<Rightarrow>
    env \<Rightarrow> value tm" where
  "eval_binary sz ev op l r line env =
     eval_then (ev l env) (\<lambda>a.
     with_temp a (
       eval_then (ev r env) (\<lambda>b.
       with_temp b (
         if op = BAdd then tbind (t_add sz a b) (t_result line)
         else t_result line (binary_op_value op a b)))))"

definition eval_logical :: "(expr \<Rightarrow> env \<Rightarrow> value tm) \<Rightarrow> logical_op \<Rightarrow> expr \<Rightarrow> expr \<Rightarrow> env \<Rightarrow> value tm" where
  "eval_logical ev op l r env =
     eval_then (ev l env) (\<lambda>v.
       if (if op = LAnd then \<not> is_truthy v else is_truthy v) then treturn v else ev r env)"

text \<open>The loop that evaluates arguments or elements onto the stack, and what follows it.\<close>

fun push_all :: "(expr \<Rightarrow> env \<Rightarrow> value tm) \<Rightarrow> expr list \<Rightarrow> env \<Rightarrow> value tm \<Rightarrow> value tm" where
  "push_all ev [] env k = k"
| "push_all ev (e # es) env k =
     eval_then (ev e env) (\<lambda>v.
     tbind (tmod (\<lambda>s. s\<lparr>te_stack := te_stack s @ [v]\<rparr>)) (\<lambda>_. push_all ev es env k))"

definition eval_call :: "(obj \<Rightarrow> nat) \<Rightarrow> (nat \<Rightarrow> double) \<Rightarrow> (expr \<Rightarrow> env \<Rightarrow> value tm) \<Rightarrow>
    (stmt \<Rightarrow> env \<Rightarrow> flow tm) \<Rightarrow> expr \<Rightarrow> expr list \<Rightarrow> nat \<Rightarrow> env \<Rightarrow> value tm" where
  "eval_call sz clk ev ex f args line env =
     eval_then (ev f env) (\<lambda>callee.
     with_temp callee (
     with_region (\<lambda>base.
       push_all ev args env (call_value sz clk ex callee base (length args) line))))"

definition eval_array :: "(obj \<Rightarrow> nat) \<Rightarrow> (expr \<Rightarrow> env \<Rightarrow> value tm) \<Rightarrow> expr list \<Rightarrow> env \<Rightarrow> value tm" where
  "eval_array sz ev es env =
     with_region (\<lambda>base.
       push_all ev es env (
         tbind (tget (\<lambda>s. drop base (te_stack s))) (\<lambda>copy.
         tbind (t_allocate sz (OArray copy)) (\<lambda>a. treturn (VObj a)))))"

definition eval_index :: "(expr \<Rightarrow> env \<Rightarrow> value tm) \<Rightarrow> expr \<Rightarrow> expr \<Rightarrow> nat \<Rightarrow> env \<Rightarrow> value tm" where
  "eval_index ev ob i line env =
     eval_then (ev ob env) (\<lambda>array.
     with_temp array (
       eval_then (ev i env) (\<lambda>index.
         tbind (tget (\<lambda>s. array_get (te_heap s) array index)) (t_result line))))"

definition eval_index_assign :: "(expr \<Rightarrow> env \<Rightarrow> value tm) \<Rightarrow> expr \<Rightarrow> expr \<Rightarrow> expr \<Rightarrow> nat \<Rightarrow> env \<Rightarrow> value tm" where
  "eval_index_assign ev ob i e line env =
     eval_then (ev ob env) (\<lambda>array.
     with_temp array (
       eval_then (ev i env) (\<lambda>index.
       with_temp index (
         eval_then (ev e env) (\<lambda>v.
           tbind (tget (\<lambda>s. array_set array index v (te_heap s))) (\<lambda>r.
             case r of
               Inl message \<Rightarrow> t_fail line message
             | Inr h \<Rightarrow> tbind (tmod (\<lambda>s. s\<lparr>te_heap := h\<rparr>)) (\<lambda>_. treturn v)))))))"

definition eval_node :: "(obj \<Rightarrow> nat) \<Rightarrow> (nat \<Rightarrow> double) \<Rightarrow> (expr \<Rightarrow> env \<Rightarrow> value tm) \<Rightarrow>
    (stmt \<Rightarrow> env \<Rightarrow> flow tm) \<Rightarrow> expr \<Rightarrow> env \<Rightarrow> value tm" where
  "eval_node sz clk ev ex e env =
     (case e of
        ELiteral l line \<Rightarrow> eval_literal sz l
      | EVariable x b line \<Rightarrow> eval_variable sz x b line env
      | EAssign x a b line \<Rightarrow> eval_assign sz ev x a b line env
      | EUnary op a line \<Rightarrow> eval_unary ev op a line env
      | EBinary op a b line \<Rightarrow> eval_binary sz ev op a b line env
      | ELogical op a b line \<Rightarrow> eval_logical ev op a b env
      | ECall f args line \<Rightarrow> eval_call sz clk ev ex f args line env
      | EArrayLiteral es line \<Rightarrow> eval_array sz ev es env
      | EIndex a i line \<Rightarrow> eval_index ev a i line env
      | EIndexAssign a i v line \<Rightarrow> eval_index_assign ev a i v line env)"

subsection \<open>Statements\<close>

definition exec_print :: "(expr \<Rightarrow> env \<Rightarrow> value tm) \<Rightarrow> expr \<Rightarrow> env \<Rightarrow> flow tm" where
  "exec_print ev e env =
     exec_then (ev e env) (\<lambda>v.
     tbind (tmod (\<lambda>s. s\<lparr>te_out := te_out s @ print_value (te_heap s) v @ [newline]\<rparr>)) (\<lambda>_.
       treturn FlowNormal))"

definition exec_expr :: "(expr \<Rightarrow> env \<Rightarrow> value tm) \<Rightarrow> expr \<Rightarrow> env \<Rightarrow> flow tm" where
  "exec_expr ev e env = exec_then (ev e env) (\<lambda>v. treturn FlowNormal)"

definition eval_opt :: "(expr \<Rightarrow> env \<Rightarrow> value tm) \<Rightarrow> expr option \<Rightarrow> env \<Rightarrow> value tm" where
  "eval_opt ev e env = (case e of Some e \<Rightarrow> ev e env | None \<Rightarrow> treturn VNil)"

definition exec_let :: "(obj \<Rightarrow> nat) \<Rightarrow> (expr \<Rightarrow> env \<Rightarrow> value tm) \<Rightarrow> sview \<Rightarrow> expr option \<Rightarrow> env \<Rightarrow> flow tm" where
  "exec_let sz ev x init env =
     tbind (name_of sz (sv_text x)) (\<lambda>name.
     exec_then (eval_opt ev init env) (\<lambda>v.
     tbind (define_var env name v) (\<lambda>_. treturn FlowNormal)))"

fun exec_seq :: "(stmt \<Rightarrow> env \<Rightarrow> flow tm) \<Rightarrow> stmt list \<Rightarrow> env \<Rightarrow> flow tm" where
  "exec_seq ex [] env = treturn FlowNormal"
| "exec_seq ex (st # sts) env =
     tbind (ex st env) (\<lambda>flow. if flow \<noteq> FlowNormal then treturn flow else exec_seq ex sts env)"

definition exec_block :: "(obj \<Rightarrow> nat) \<Rightarrow> (stmt \<Rightarrow> env \<Rightarrow> flow tm) \<Rightarrow> stmt list \<Rightarrow> env \<Rightarrow> flow tm" where
  "exec_block sz ex sts env =
     tbind (t_allocate sz (OEnvironment [] env)) (\<lambda>scope.
     with_active scope (exec_seq ex sts (Some scope)))"

definition exec_if :: "(expr \<Rightarrow> env \<Rightarrow> value tm) \<Rightarrow> (stmt \<Rightarrow> env \<Rightarrow> flow tm) \<Rightarrow> expr \<Rightarrow> stmt \<Rightarrow> stmt option \<Rightarrow>
    env \<Rightarrow> flow tm" where
  "exec_if ev ex c t e env =
     exec_then (ev c env) (\<lambda>v.
       if is_truthy v then ex t env
       else case e of Some e \<Rightarrow> ex e env | None \<Rightarrow> treturn FlowNormal)"

text \<open>One iteration; \<open>again\<close> is the loop from its start.\<close>

definition exec_while :: "(expr \<Rightarrow> env \<Rightarrow> value tm) \<Rightarrow> (stmt \<Rightarrow> env \<Rightarrow> flow tm) \<Rightarrow> expr \<Rightarrow> stmt \<Rightarrow>
    flow tm \<Rightarrow> env \<Rightarrow> flow tm" where
  "exec_while ev ex c body again env =
     exec_then (ev c env) (\<lambda>v.
       if \<not> is_truthy v then treturn FlowNormal
       else tbind (ex body env) (\<lambda>flow. if flow \<noteq> FlowNormal then treturn flow else again))"

definition exec_function :: "(obj \<Rightarrow> nat) \<Rightarrow> fn_decl \<Rightarrow> env \<Rightarrow> flow tm" where
  "exec_function sz decl env =
     tbind (name_of sz (sv_text (fd_name decl))) (\<lambda>name.
     tbind (t_allocate sz (OTreeFunction name decl env)) (\<lambda>fn.
     tbind (define_var env name (VObj fn)) (\<lambda>_. treturn FlowNormal)))"

definition exec_return :: "(expr \<Rightarrow> env \<Rightarrow> value tm) \<Rightarrow> expr option \<Rightarrow> env \<Rightarrow> flow tm" where
  "exec_return ev e env =
     exec_then (eval_opt ev e env) (\<lambda>v.
     tbind (tmod (\<lambda>s. s\<lparr>te_return_value := v\<rparr>)) (\<lambda>_. treturn FlowReturn))"

definition exec_node :: "(obj \<Rightarrow> nat) \<Rightarrow> (expr \<Rightarrow> env \<Rightarrow> value tm) \<Rightarrow> (stmt \<Rightarrow> env \<Rightarrow> flow tm) \<Rightarrow> stmt \<Rightarrow>
    env \<Rightarrow> flow tm" where
  "exec_node sz ev ex st env =
     (case st of
        SPrint e line \<Rightarrow> exec_print ev e env
      | SExpr e line \<Rightarrow> exec_expr ev e env
      | SLet x init line \<Rightarrow> exec_let sz ev x init env
      | SBlock sts line \<Rightarrow> exec_block sz ex sts env
      | SIf c t e line \<Rightarrow> exec_if ev ex c t e env
      | SWhile c body line \<Rightarrow> exec_while ev ex c body (ex st env) env
      | SFunction x ps body bline line \<Rightarrow>
          exec_function sz \<lparr>fd_name = x, fd_params = ps, fd_body = body\<rparr> env
      | SReturn e line \<Rightarrow> exec_return ev e env)"

subsection \<open>The engine\<close>

text \<open>The fuel bounds how deep the evaluation calls itself, a further iteration of a loop counting
  as one level more.\<close>

fun tree_eval :: "(obj \<Rightarrow> nat) \<Rightarrow> (nat \<Rightarrow> double) \<Rightarrow> nat \<Rightarrow> expr \<Rightarrow> env \<Rightarrow> value tm" and
    tree_exec :: "(obj \<Rightarrow> nat) \<Rightarrow> (nat \<Rightarrow> double) \<Rightarrow> nat \<Rightarrow> stmt \<Rightarrow> env \<Rightarrow> flow tm" where
  "tree_eval sz clk 0 e env = (\<lambda>s. Timeout)"
| "tree_eval sz clk (Suc n) e env = eval_node sz clk (tree_eval sz clk n) (tree_exec sz clk n) e env"
| "tree_exec sz clk 0 st env = (\<lambda>s. Timeout)"
| "tree_exec sz clk (Suc n) st env = exec_node sz (tree_eval sz clk n) (tree_exec sz clk n) st env"

fun run_top :: "(stmt \<Rightarrow> env \<Rightarrow> flow tm) \<Rightarrow> stmt list \<Rightarrow> unit tm" where
  "run_top ex [] = treturn ()"
| "run_top ex (st # sts) =
     tbind (ex st None) (\<lambda>flow. if flow = FlowError then treturn () else run_top ex sts)"

definition tree_run :: "(obj \<Rightarrow> nat) \<Rightarrow> (nat \<Rightarrow> double) \<Rightarrow> nat \<Rightarrow> stmt list \<Rightarrow> runtime_error option tm" where
  "tree_run sz clk n sts = tbind (run_top (tree_exec sz clk n) sts) (\<lambda>_. take_error)"

definition call_global :: "(obj \<Rightarrow> nat) \<Rightarrow> (nat \<Rightarrow> double) \<Rightarrow> nat \<Rightarrow> string \<Rightarrow> (value \<times> runtime_error option) tm" where
  "call_global sz clk n name =
     tbind (t_intern sz name) (\<lambda>key.
     tbind (tget (\<lambda>s. map_of (te_globals s) key)) (\<lambda>found.
       case found of
         None \<Rightarrow>
           treturn (VNil, Some \<lparr>re_line = 0, re_message = undefined_variable_message name\<rparr>)
       | Some callee \<Rightarrow>
           with_temp callee (
           with_region (\<lambda>base.
             tbind (call_value sz clk (tree_exec sz clk n) callee base 0 0) (\<lambda>v.
             tbind take_error (\<lambda>e. treturn (v, e)))))))"

text \<open>The constructor: the natives become globals. Interning a name fails in no state.\<close>

definition define_native :: "(obj \<Rightarrow> nat) \<Rightarrow> string \<Rightarrow> value \<Rightarrow> tree_state \<Rightarrow> tree_state" where
  "define_native sz name native s =
     (case name_of sz name s of
        Ok (a, s) \<Rightarrow> s\<lparr>te_globals := AList.update a native (te_globals s)\<rparr>
      | _ \<Rightarrow> s)"

definition empty_tree :: "heap \<Rightarrow> tree_state" where
  "empty_tree h =
     \<lparr>te_heap = h, te_globals = [], te_names = [], te_active = [], te_stack = [],
      te_return_value = VNil, te_error = None, te_depth = 0, te_out = [], te_ticks = 0\<rparr>"

definition init_tree :: "(obj \<Rightarrow> nat) \<Rightarrow> heap \<Rightarrow> tree_state" where
  "init_tree sz h =
     register_natives sz te_heap (\<lambda>h s. s\<lparr>te_heap := h\<rparr>) tree_roots (define_native sz) (empty_tree h)"

end
