(* ===== verification/Fold.thy ===== *)
theory Fold
  imports Tree_Engine
begin

text \<open>
  \<open>fold.h\<close> and \<open>fold.cpp\<close>: compile-time simplification of a resolved tree. The code rewrites the
  tree in place; a function here returns the tree that stands in the slot afterwards, or \<open>None\<close> for
  a statement slot that became null, and the state of the \<open>Folder\<close>: its two counters and the private
  heap it interns string literals in, only to ask whether they are truthy.
\<close>

record folder =
  fl_expressions_folded :: nat
  fl_statements_removed :: nat
  fl_scratch :: heap

definition init_folder :: folder where
  "init_folder = \<lparr>fl_expressions_folded = 0, fl_statements_removed = 0, fl_scratch = empty_heap\<rparr>"

definition count_removed :: "nat \<Rightarrow> folder \<Rightarrow> folder" where
  "count_removed n s = s\<lparr>fl_statements_removed := fl_statements_removed s + n\<rparr>"

subsection \<open>Literals as runtime values\<close>

definition is_string_literal :: "literal \<Rightarrow> bool" where
  "is_string_literal lit = (case lit of LitString text \<Rightarrow> True | _ \<Rightarrow> False)"

definition number_value :: "literal \<Rightarrow> value option" where
  "number_value lit =
     (case lit of
        LitNil \<Rightarrow> Some VNil
      | LitBool b \<Rightarrow> Some (VBool b)
      | LitInt i \<Rightarrow> Some (VInt i)
      | LitFloat d \<Rightarrow> Some (VFloat d)
      | LitString text \<Rightarrow> None)"

definition any_value :: "(obj \<Rightarrow> nat) \<Rightarrow> literal \<Rightarrow> folder \<Rightarrow> value \<times> folder" where
  "any_value sz lit s =
     (case lit of
        LitString text \<Rightarrow> (let (a, h) = intern sz [] text (fl_scratch s) in (VObj a, s\<lparr>fl_scratch := h\<rparr>))
      | _ \<Rightarrow> (the (number_value lit), s))"

text \<open>\<open>as_float\<close> of a value that is no float is an assertion of the code; here it is 0.\<close>

definition as_float :: "value \<Rightarrow> double" where
  "as_float v = (case v of VFloat d \<Rightarrow> d | _ \<Rightarrow> 0)"

definition literal_of :: "value \<Rightarrow> literal" where
  "literal_of v =
     (case v of
        VNil \<Rightarrow> LitNil
      | VBool b \<Rightarrow> LitBool b
      | VInt i \<Rightarrow> LitInt i
      | _ \<Rightarrow> LitFloat (as_float v))"

definition as_literal :: "expr \<Rightarrow> literal option" where
  "as_literal e = (case e of ELiteral lit line \<Rightarrow> Some lit | _ \<Rightarrow> None)"

definition replace_with :: "value \<Rightarrow> nat \<Rightarrow> folder \<Rightarrow> expr \<times> folder" where
  "replace_with v line s =
     (ELiteral (literal_of v) line, s\<lparr>fl_expressions_folded := fl_expressions_folded s + 1\<rparr>)"

text \<open>\<open>op_add\<close> gets the scratch heap, which no marker roots.\<close>

definition apply_op :: "(obj \<Rightarrow> nat) \<Rightarrow> binary_op \<Rightarrow> value \<Rightarrow> value \<Rightarrow> folder \<Rightarrow> (string + value) \<times> folder" where
  "apply_op sz op a b s =
     (case op of
        BAdd \<Rightarrow> (let (r, h) = op_add sz [] a b (fl_scratch s) in (r, s\<lparr>fl_scratch := h\<rparr>))
      | BSub \<Rightarrow> (op_sub a b, s)
      | BMul \<Rightarrow> (op_mul a b, s)
      | BDiv \<Rightarrow> (op_div a b, s)
      | BMod \<Rightarrow> (op_mod a b, s)
      | BEq \<Rightarrow> (Inr (VBool (values_equal a b)), s)
      | BNe \<Rightarrow> (Inr (VBool (\<not> values_equal a b)), s)
      | BLt \<Rightarrow> (op_less a b, s)
      | BLe \<Rightarrow> (op_less_equal a b, s)
      | BGt \<Rightarrow> (op_greater a b, s)
      | BGe \<Rightarrow> (op_greater_equal a b, s))"

subsection \<open>Expressions\<close>

text \<open>What \<open>fold_unary\<close> and \<open>fold_binary\<close> do once the operands are folded.\<close>

definition fold_unary :: "(obj \<Rightarrow> nat) \<Rightarrow> unary_op \<Rightarrow> expr \<Rightarrow> nat \<Rightarrow> folder \<Rightarrow> expr \<times> folder" where
  "fold_unary sz op e line s =
     (case as_literal e of
        None \<Rightarrow> (EUnary op e line, s)
      | Some operand \<Rightarrow>
          (case op of
             UNot \<Rightarrow> (let (v, s) = any_value sz operand s in replace_with (op_not v) line s)
           | UNegate \<Rightarrow>
               (case number_value operand of
                  None \<Rightarrow> (EUnary op e line, s)
                | Some v \<Rightarrow>
                    (case op_negate v of
                       Inl error \<Rightarrow> (EUnary op e line, s)
                     | Inr result \<Rightarrow> replace_with result line s))))"

definition fold_binary :: "(obj \<Rightarrow> nat) \<Rightarrow> binary_op \<Rightarrow> expr \<Rightarrow> expr \<Rightarrow> nat \<Rightarrow> folder \<Rightarrow> expr \<times> folder" where
  "fold_binary sz op a b line s =
     (case (as_literal a, as_literal b) of
        (Some left, Some right) \<Rightarrow>
          (if is_string_literal left \<or> is_string_literal right then (EBinary op a b line, s)
           else
             (case apply_op sz op (the (number_value left)) (the (number_value right)) s of
                (Inl error, s) \<Rightarrow> (EBinary op a b line, s)
              | (Inr result, s) \<Rightarrow> replace_with result line s))
      | _ \<Rightarrow> (EBinary op a b line, s))"

fun fold_expr :: "(obj \<Rightarrow> nat) \<Rightarrow> expr \<Rightarrow> folder \<Rightarrow> expr \<times> folder" and
    fold_exprs :: "(obj \<Rightarrow> nat) \<Rightarrow> expr list \<Rightarrow> folder \<Rightarrow> expr list \<times> folder" where
  "fold_expr sz (ELiteral lit l) s = (ELiteral lit l, s)"
| "fold_expr sz (EVariable x b l) s = (EVariable x b l, s)"
| "fold_expr sz (EAssign x e b l) s = (let (e, s) = fold_expr sz e s in (EAssign x e b l, s))"
| "fold_expr sz (EUnary op e l) s = (let (e, s) = fold_expr sz e s in fold_unary sz op e l s)"
| "fold_expr sz (EBinary op a b l) s =
     (let (a, s) = fold_expr sz a s; (b, s) = fold_expr sz b s in fold_binary sz op a b l s)"
| "fold_expr sz (ELogical op a b l) s =
     (let (a, s) = fold_expr sz a s in
      case as_literal a of
        None \<Rightarrow> (let (b, s) = fold_expr sz b s in (ELogical op a b l, s))
      | Some left \<Rightarrow>
          (let (v, s) = any_value sz left s;
               (chosen, s) = (if (op = LAnd) = is_truthy v then fold_expr sz b s else (a, s))
           in (chosen, s\<lparr>fl_expressions_folded := fl_expressions_folded s + 1\<rparr>)))"
| "fold_expr sz (ECall f as l) s =
     (let (f, s) = fold_expr sz f s; (as, s) = fold_exprs sz as s in (ECall f as l, s))"
| "fold_expr sz (EArrayLiteral es l) s = (let (es, s) = fold_exprs sz es s in (EArrayLiteral es l, s))"
| "fold_expr sz (EIndex a i l) s =
     (let (a, s) = fold_expr sz a s; (i, s) = fold_expr sz i s in (EIndex a i l, s))"
| "fold_expr sz (EIndexAssign a i v l) s =
     (let (a, s) = fold_expr sz a s; (i, s) = fold_expr sz i s; (v, s) = fold_expr sz v s
      in (EIndexAssign a i v l, s))"
| "fold_exprs sz [] s = ([], s)"
| "fold_exprs sz (e # es) s =
     (let (e, s) = fold_expr sz e s; (es, s) = fold_exprs sz es s in (e # es, s))"

definition fold_opt :: "(obj \<Rightarrow> nat) \<Rightarrow> expr option \<Rightarrow> folder \<Rightarrow> expr option \<times> folder" where
  "fold_opt sz eo s =
     (case eo of None \<Rightarrow> (None, s) | Some e \<Rightarrow> (let (e, s) = fold_expr sz e s in (Some e, s)))"

subsection \<open>Statements\<close>

text \<open>A body that vanished still has to be a statement.\<close>

definition nested :: "nat \<Rightarrow> stmt option \<Rightarrow> stmt" where
  "nested line slot = (case slot of None \<Rightarrow> SBlock [] line | Some st \<Rightarrow> st)"

definition is_return :: "stmt \<Rightarrow> bool" where
  "is_return st = (case st of SReturn v line \<Rightarrow> True | _ \<Rightarrow> False)"

fun fold_stmt :: "(obj \<Rightarrow> nat) \<Rightarrow> stmt \<Rightarrow> folder \<Rightarrow> stmt option \<times> folder" and
    fold_stmts :: "(obj \<Rightarrow> nat) \<Rightarrow> stmt list \<Rightarrow> folder \<Rightarrow> stmt list \<times> folder" where
  "fold_stmt sz (SPrint e l) s = (let (e, s) = fold_expr sz e s in (Some (SPrint e l), s))"
| "fold_stmt sz (SExpr e l) s = (let (e, s) = fold_expr sz e s in (Some (SExpr e l), s))"
| "fold_stmt sz (SLet x init l) s = (let (init, s) = fold_opt sz init s in (Some (SLet x init l), s))"
| "fold_stmt sz (SBlock ss l) s = (let (ss, s) = fold_stmts sz ss s in (Some (SBlock ss l), s))"
| "fold_stmt sz (SIf c t None l) s =
     (let (c, s) = fold_expr sz c s in
      case as_literal c of
        None \<Rightarrow> (let (t, s) = fold_stmt sz t s in (Some (SIf c (nested l t) None l), s))
      | Some condition \<Rightarrow>
          (let (v, s) = any_value sz condition s; s = count_removed 1 s
           in if is_truthy v then fold_stmt sz t s else (None, s)))"
| "fold_stmt sz (SIf c t (Some e) l) s =
     (let (c, s) = fold_expr sz c s in
      case as_literal c of
        None \<Rightarrow>
          (let (t, s) = fold_stmt sz t s; (e, s) = fold_stmt sz e s
           in (Some (SIf c (nested l t) (Some (nested l e)) l), s))
      | Some condition \<Rightarrow>
          (let (v, s) = any_value sz condition s; s = count_removed 1 s
           in if is_truthy v then fold_stmt sz t s else fold_stmt sz e s))"
| "fold_stmt sz (SWhile c body l) s =
     (let (c, s) = fold_expr sz c s in
      case as_literal c of
        None \<Rightarrow> (let (body, s) = fold_stmt sz body s in (Some (SWhile c (nested l body) l), s))
      | Some condition \<Rightarrow>
          (let (v, s) = any_value sz condition s
           in if \<not> is_truthy v then (None, count_removed 1 s)
              else (let (body, s) = fold_stmt sz body s in (Some (SWhile c (nested l body) l), s))))"
| "fold_stmt sz (SFunction f ps body bl l) s =
     (let (body, s) = fold_stmts sz body s in (Some (SFunction f ps body bl l), s))"
| "fold_stmt sz (SReturn v l) s = (let (v, s) = fold_opt sz v s in (Some (SReturn v l), s))"
| "fold_stmts sz [] s = ([], s)"
| "fold_stmts sz (st # ss) s =
     (let (slot, s) = fold_stmt sz st s in
      case slot of
        None \<Rightarrow> fold_stmts sz ss s
      | Some st \<Rightarrow>
          (if is_return st then ([st], count_removed (length ss) s)
           else (let (ss, s) = fold_stmts sz ss s in (st # ss, s))))"

definition fold_program :: "(obj \<Rightarrow> nat) \<Rightarrow> program \<Rightarrow> program \<times> folder" where
  "fold_program sz p =
     (let (ss, s) = fold_stmts sz (pr_statements p) init_folder in (p\<lparr>pr_statements := ss\<rparr>, s))"

end
