(* ===== verification/Gc_Client.thy ===== *)
theory Gc_Client
  imports Heap_Spec Ops
begin

text \<open>
  The contract between the collector and the code that allocates: an engine or a compiler whose
  state holds the heap and marks some addresses. Stated once as a locale; every allocating operation
  keeps the heap sound and the roots live, and leaves what the roots reach as it was.
\<close>

definition gc_live :: "heap \<Rightarrow> addr list \<Rightarrow> bool" where
  "gc_live h roots \<longleftrightarrow> sane h \<and> (\<forall>a\<in>gc_roots roots h. obj_at h a \<noteq> None)"

definition held :: "heap \<Rightarrow> addr list \<Rightarrow> addr \<Rightarrow> bool" where
  "held h roots a \<longleftrightarrow> reach h (gc_roots roots h) a"

text \<open>\<open>grown keeps R h h' new\<close>: what the roots reach is unchanged, and nothing appeared but \<open>new\<close>.\<close>

definition evolved :: "addr list \<Rightarrow> heap \<Rightarrow> heap \<Rightarrow> (addr \<Rightarrow> obj \<Rightarrow> bool) \<Rightarrow> bool" where
  "evolved roots h h' new \<longleftrightarrow>
     retains (gc_roots roots h) h h' \<and>
     (\<forall>b x. obj_at h' b = Some x \<longrightarrow> obj_at h b = Some x \<or> (obj_at h b = None \<and> new b x))"

lemma gc_live_held: "gc_live h roots \<Longrightarrow> a \<in> gc_roots roots h \<Longrightarrow> held h roots a"
  by (simp add: gc_live_def held_def reach_root)

lemma held_live: "held h roots a \<Longrightarrow> obj_at h a \<noteq> None"
  by (simp add: held_def reach_live)

lemma held_trace:
  assumes "sane h" "held h roots a" "obj_at h a = Some ob" "b \<in> set (trace ob)"
  shows "held h roots b"
proof -
  have "obj_at h b \<noteq> None" using assms(1,3,4) by (auto simp: sane_def no_dangling_def)
  then show ?thesis using assms(2-4) by (auto simp: held_def intro: reach_step)
qed

lemma evolved_held: "evolved roots h h' new \<Longrightarrow> held h roots a \<Longrightarrow> obj_at h' a = obj_at h a"
  by (simp add: evolved_def retains_def held_def)

lemma evolved_sane: "evolved roots h h' new \<Longrightarrow> sane h'"
  by (simp add: evolved_def retains_def sane_def)

lemma evolved_roots: "evolved roots h h' new \<Longrightarrow> gc_roots rs h' = gc_roots rs h"
  by (simp add: evolved_def retains_def gc_roots_def)

lemma evolved_gc_live: "evolved roots h h' new \<Longrightarrow> gc_live h roots \<Longrightarrow> gc_live h' roots"
  using evolved_held [of roots h h' new] evolved_roots [of roots h h' new roots] gc_live_held [of h roots]
  by (auto simp: gc_live_def evolved_sane held_live)

lemma evolved_still_held:
  assumes "evolved roots h h' new" "held h roots a"
  shows "held h' roots a"
  using reach_retained [of "gc_roots roots h" h h' a] assms evolved_roots [OF assms(1)]
  by (simp add: evolved_def held_def)

lemma allocate_evolved:
  assumes "sane h" "allocate sz roots ob h = (a, h')" "\<not> is_string ob" "\<forall>b\<in>set (trace ob). held h roots b"
  shows "evolved roots h h' (\<lambda>b x. b = a \<and> x = ob)" "obj_at h' a = Some ob" "obj_at h a = None"
proof -
  note k = allocate_ok [OF assms(1-3)] 
  have t: "\<forall>b\<in>set (trace ob). reach h (gc_roots roots h) b" using assms(4) by (simp add: held_def)
  show a: "obj_at h' a = Some ob" using k(2) [OF t] .
  have f: "a = hp_fresh h"
    using assms(1,2) before_allocate_ok [OF assms(1), of roots sz] link_object_fields [of sz ob _ a h']
    by (auto simp: allocate_def)
  then show n: "obj_at h a = None" using fresh_free [of h a] assms(1) by (simp add: sane_def)
  have "obj_at h b = Some x \<or> (obj_at h b = None \<and> b = a \<and> x = ob)" if "obj_at h' b = Some x" for b x
    using allocate_old [OF assms(1,2) that] allocate_new [OF assms(1,2) that] n f
    by (cases "b < hp_fresh h") auto
  then show "evolved roots h h' (\<lambda>b x. b = a \<and> x = ob)" using k(1) [OF t] by (simp add: evolved_def)
qed

lemma intern_evolved:
  assumes "sane h" "intern sz roots s h = (a, h')"
  shows "evolved roots h h' (\<lambda>b x. x = OString s)" "obj_at h' a = Some (OString s)"
proof -
  note k = intern_ok [OF assms]
  show "obj_at h' a = Some (OString s)" using k(2) .
  have "obj_at h b = Some x \<or> (obj_at h b = None \<and> x = OString s)" if "obj_at h' b = Some x" for b x
    using intern_old [OF assms that] intern_new [OF assms that] fresh_free [of h b] assms(1)
    by (cases "b < hp_fresh h") (auto simp: sane_def)
  then show "evolved roots h h' (\<lambda>b x. x = OString s)" using k(1) by (simp add: evolved_def)
qed

lemma evolved_refl: "sane h \<Longrightarrow> evolved roots h h (\<lambda>b x. False)"
  by (simp add: evolved_def retains_def sane_def)

lemma evolved_mono: "evolved roots h h' new \<Longrightarrow> (\<And>b x. new b x \<Longrightarrow> new' b x) \<Longrightarrow> evolved roots h h' new'"
  by (auto simp: evolved_def)

subsection \<open>The operations that allocate\<close>

text \<open>A native is called with as many arguments as its code reads.\<close>

definition native_arity :: "native_fn \<Rightarrow> nat" where
  "native_arity f = (case f of NativeClock \<Rightarrow> 0 | NativeLen \<Rightarrow> 1 | NativeArray \<Rightarrow> 2)"

definition natives_ok :: "heap \<Rightarrow> bool" where
  "natives_ok h \<longleftrightarrow> (\<forall>a name k f. obj_at h a = Some (ONative name k f) \<longrightarrow> k = native_arity f)"


lemma natives_ok_evolved:
  "evolved roots h h' new \<Longrightarrow> natives_ok h \<Longrightarrow> (\<And>b name k f. new b (ONative name k f) \<Longrightarrow> k = native_arity f) \<Longrightarrow>
   natives_ok h'"
  by (fastforce simp: evolved_def natives_ok_def)

lemma evolved_trans_temp:
  assumes "evolved roots (push_temp v h) h' new" "sane h"
  shows "evolved roots h (pop_temp h') new"
proof -
  have r: "gc_roots roots h \<subseteq> gc_roots roots (push_temp v h)" by (auto simp: gc_roots_def push_temp_def)
  have "reach (push_temp v h) (gc_roots roots (push_temp v h)) a" if "reach h (gc_roots roots h) a" for a
    using that
  proof induction
    case (reach_root a)
    then show ?case using r by (auto simp: heap_simps intro: reach.reach_root)
  next
    case (reach_step a ob b)
    then show ?case using reach.reach_step [of "push_temp v h" _ a ob b] by (simp add: heap_simps)
  qed
  moreover have "sane (pop_temp h')" using evolved_sane [OF assms(1)] by (simp add: heap_simps)
  moreover have "hp_temp_roots (pop_temp h') = hp_temp_roots h" "hp_fresh h \<le> hp_fresh (pop_temp h')"
    using assms(1) by (simp_all add: evolved_def retains_def push_temp_def pop_temp_def)
  ultimately show ?thesis
    using assms(1) unfolding evolved_def retains_def sane_def by (simp add: heap_simps)
qed

lemma op_add_evolved:
  assumes "sane h" "op_add sz roots a b h = (r, h')"
  shows "evolved roots h h' (\<lambda>b x. \<exists>s. x = OString s)"
    "r = Inr v \<Longrightarrow> \<forall>x\<in>set (value_addrs v). obj_at h' x \<noteq> None"
proof -
  have "evolved roots h h' (\<lambda>b x. \<exists>s. x = OString s) \<and>
    (r = Inr v \<longrightarrow> (\<forall>x\<in>set (value_addrs v). obj_at h' x \<noteq> None))"
  proof (cases "string_of h a \<noteq> None \<and> string_of h b \<noteq> None")
    case True
    then obtain s t where st: "string_of h a = Some s" "string_of h b = Some t" by auto
    obtain c h1 where i: "intern sz roots (s @ t) h = (c, h1)" by fastforce
    then have "r = Inr (VObj c)" "h' = h1" using assms(2) st by (simp_all add: op_add_def)
    then show ?thesis
      using intern_evolved [OF assms(1) i] by (auto simp: value_addrs_def elim: evolved_mono)
  next
    case False
    then show ?thesis
      using assms evolved_mono [OF evolved_refl [OF assms(1), of roots]]
      by (auto simp: op_add_def value_addrs_def split: option.splits if_splits)
  qed
  then show "evolved roots h h' (\<lambda>b x. \<exists>s. x = OString s)"
    "r = Inr v \<Longrightarrow> \<forall>x\<in>set (value_addrs v). obj_at h' x \<noteq> None" by blast+
qed

lemma call_native_evolved:
  assumes "gc_live h roots" "length args = native_arity f" "\<forall>v\<in>set args. set (value_addrs v) \<subseteq> gc_roots roots h"
    "call_native sz roots now f args h = (r, h')"
  shows "evolved roots h h' (\<lambda>b x. \<exists>vs. x = OArray vs)"
    "r = Inr v \<Longrightarrow> \<forall>x\<in>set (value_addrs v). obj_at h' x \<noteq> None"
proof -
  have s: "sane h" using assms(1) by (simp add: gc_live_def)
  have same: "evolved roots h h (\<lambda>b x. \<exists>vs. x = OArray vs)" by (rule evolved_mono [OF evolved_refl [OF s]]) simp
  have "evolved roots h h' (\<lambda>b x. \<exists>vs. x = OArray vs) \<and>
    (r = Inr v \<longrightarrow> (\<forall>x\<in>set (value_addrs v). obj_at h' x \<noteq> None))"
  proof (cases f)
    case NativeClock
    then show ?thesis using assms(4) same by (auto simp: call_native_def native_clock_def value_addrs_def)
  next
    case NativeLen
    then show ?thesis
      using assms(4) same by (auto simp: call_native_def native_len_def Let_def value_addrs_def split: option.splits)
  next
    case NativeArray
    let ?n = "args ! 0" and ?fill = "args ! 1"
    show ?thesis
    proof (cases "\<not> is_int ?n \<or> sint (as_int ?n) < 0")
      case True
      then show ?thesis using assms(4) same NativeArray by (auto simp: call_native_def native_array_def)
    next
      case False
      let ?ob = "OArray (replicate (nat (sint (as_int ?n))) ?fill)"
      obtain a h1 where al: "allocate sz roots ?ob (push_temp ?fill h) = (a, h1)" by fastforce
      then have r: "r = Inr (VObj a)" "h' = pop_temp h1"
        using assms(4) False NativeArray by (auto simp: call_native_def native_array_def Let_def)
      have p: "sane (push_temp ?fill h)" using s by (simp add: heap_simps)
      have R: "gc_roots roots (push_temp ?fill h) = gc_roots roots h \<union> set (value_addrs ?fill)"
        by (auto simp: gc_roots_def push_temp_def)
      have "?fill \<in> set args" using assms(2) NativeArray by (simp add: native_arity_def)
      then have f: "set (value_addrs ?fill) \<subseteq> gc_roots roots h" using assms(3) by blast
      then have "gc_live (push_temp ?fill h) roots"
        using assms(1) p unfolding gc_live_def R by (auto simp: heap_simps)
      then have "\<forall>b\<in>set (value_addrs ?fill). held (push_temp ?fill h) roots b"
        using gc_live_held R by blast
      then have "\<forall>b\<in>set (trace ?ob). held (push_temp ?fill h) roots b" by auto
      note k = allocate_evolved [OF p al _ this]
      have "evolved roots (push_temp ?fill h) h1 (\<lambda>b x. \<exists>vs. x = OArray vs)"
        by (rule evolved_mono [OF k(1)]) (simp_all add: is_string_def)
      from evolved_trans_temp [OF this s] have "evolved roots h h' (\<lambda>b x. \<exists>vs. x = OArray vs)" by (simp only: r(2))
      moreover have "obj_at h' a = Some ?ob" using k(2) r(2) by (simp add: heap_simps is_string_def)
      ultimately show ?thesis using r(1) by (auto simp: value_addrs_def)
    qed
  qed
  then show "evolved roots h h' (\<lambda>b x. \<exists>vs. x = OArray vs)"
    "r = Inr v \<Longrightarrow> \<forall>x\<in>set (value_addrs v). obj_at h' x \<noteq> None" by blast+
qed

subsection \<open>The contract\<close>

locale gc_client =
  fixes heap_of :: "'s \<Rightarrow> heap" and set_heap :: "heap \<Rightarrow> 's \<Rightarrow> 's" and roots_of :: "'s \<Rightarrow> addr list"
  assumes heap_set: "heap_of (set_heap h s) = h" and roots_set: "roots_of (set_heap h s) = roots_of s"
begin

lemma allocated:
  assumes "gc_live (heap_of s) (roots_of s)" "allocate sz (roots_of s) ob (heap_of s) = (a, h)" "\<not> is_string ob"
    "\<forall>b\<in>set (trace ob). held (heap_of s) (roots_of s) b"
  shows "gc_live (heap_of (set_heap h s)) (roots_of (set_heap h s))" "obj_at (heap_of (set_heap h s)) a = Some ob"
    "held (heap_of s) (roots_of s) b \<Longrightarrow> obj_at (heap_of (set_heap h s)) b = obj_at (heap_of s) b"
proof -
  have "sane (heap_of s)" using assms(1) by (simp add: gc_live_def)
  note k = allocate_evolved [OF this assms(2-4)]
  show "gc_live (heap_of (set_heap h s)) (roots_of (set_heap h s))" "obj_at (heap_of (set_heap h s)) a = Some ob"
    "held (heap_of s) (roots_of s) b \<Longrightarrow> obj_at (heap_of (set_heap h s)) b = obj_at (heap_of s) b"
    using evolved_gc_live [OF k(1) assms(1)] k(2) evolved_held [OF k(1)] by (simp_all add: heap_set roots_set)
qed

lemma interned:
  assumes "gc_live (heap_of s) (roots_of s)" "intern sz (roots_of s) bytes (heap_of s) = (a, h)"
  shows "gc_live (heap_of (set_heap h s)) (roots_of (set_heap h s))"
    "obj_at (heap_of (set_heap h s)) a = Some (OString bytes)"
    "held (heap_of s) (roots_of s) b \<Longrightarrow> obj_at (heap_of (set_heap h s)) b = obj_at (heap_of s) b"
proof -
  have "sane (heap_of s)" using assms(1) by (simp add: gc_live_def)
  note k = intern_evolved [OF this assms(2)]
  show "gc_live (heap_of (set_heap h s)) (roots_of (set_heap h s))"
    "obj_at (heap_of (set_heap h s)) a = Some (OString bytes)"
    "held (heap_of s) (roots_of s) b \<Longrightarrow> obj_at (heap_of (set_heap h s)) b = obj_at (heap_of s) b"
    using evolved_gc_live [OF k(1) assms(1)] k(2) evolved_held [OF k(1)] by (simp_all add: heap_set roots_set)
qed

end

end
