(* ===== verification/Tree_Safe.thy ===== *)
theory Tree_Safe
  imports Tree_Engine Resolver_Spec Parser_Total Ops_Spec Gc_Client
begin

text \<open>
  The engine never goes wrong on a resolved program: no null or dangling pointer is followed and no
  assertion fails, whatever collections happen on the way. The invariant \<open>tree_inv\<close> says that the
  heap is sound, that every root is live, and that the closure of every function in the heap matches
  the static environment its body was resolved in (\<open>env_ok\<close>). \<open>tok\<close> is the weakest precondition of an
  engine action: no fault, and the postcondition if it returns.
\<close>

subsection \<open>Weakest preconditions\<close>

definition tok :: "'a tm \<Rightarrow> tree_state \<Rightarrow> ('a \<Rightarrow> tree_state \<Rightarrow> bool) \<Rightarrow> bool" where
  "tok m s Q = (case m s of Ok (x, s') \<Rightarrow> Q x s' | Error f \<Rightarrow> False | Timeout \<Rightarrow> True)"

lemma tok_simps [simp]:
  "tok (treturn x) s P = P x s"
  "tok (tget f) s R = R (f s) s"
  "tok (tmod g) s S = S () (g s)"
  "tok (tbind m k) s Q = tok m s (\<lambda>x s'. tok (k x) s' Q)"
  by (auto simp: tok_def treturn_def tget_def tmod_def tbind_def split: outcome.splits prod.splits)

lemma tok_mono: "tok m s Q \<Longrightarrow> (\<And>x s'. Q x s' \<Longrightarrow> R x s') \<Longrightarrow> tok m s R"
  by (auto simp: tok_def split: outcome.splits prod.splits)

lemma tok_eval_then:
  "tok m s (\<lambda>v s'. (failed s' \<longrightarrow> Q VNil s') \<and> (\<not> failed s' \<longrightarrow> tok (k v) s' Q)) \<Longrightarrow> tok (eval_then m k) s Q"
  unfolding eval_then_def tok_simps by (erule tok_mono) simp

lemma tok_exec_then:
  "tok m s (\<lambda>v s'. (failed s' \<longrightarrow> Q FlowError s') \<and> (\<not> failed s' \<longrightarrow> tok (k v) s' Q)) \<Longrightarrow> tok (exec_then m k) s Q"
  unfolding exec_then_def tok_simps by (erule tok_mono) simp

subsection \<open>Declarations stand in blocks only\<close>

fun is_decl :: "stmt \<Rightarrow> bool" where
  "is_decl (SLet x i l) = True"
| "is_decl (SFunction f ps b bl l) = True"
| "is_decl st = False"

fun plain_s :: "stmt \<Rightarrow> bool" and plain_ss :: "stmt list \<Rightarrow> bool" where
  "plain_s (SBlock ss l) \<longleftrightarrow> plain_ss ss"
| "plain_s (SIf c t None l) \<longleftrightarrow> \<not> is_decl t \<and> plain_s t"
| "plain_s (SIf c t (Some e) l) \<longleftrightarrow> \<not> is_decl t \<and> plain_s t \<and> \<not> is_decl e \<and> plain_s e"
| "plain_s (SWhile c b l) \<longleftrightarrow> \<not> is_decl b \<and> plain_s b"
| "plain_s (SFunction f ps body bl l) \<longleftrightarrow> plain_ss body"
| "plain_s (SPrint e l) \<longleftrightarrow> True"
| "plain_s (SExpr e l) \<longleftrightarrow> True"
| "plain_s (SLet x i l) \<longleftrightarrow> True"
| "plain_s (SReturn e l) \<longleftrightarrow> True"
| "plain_ss [] \<longleftrightarrow> True"
| "plain_ss (s # ss) \<longleftrightarrow> plain_s s \<and> plain_ss ss"

lemma after_plain: "plain_s st \<Longrightarrow> \<not> is_decl st \<Longrightarrow> after st env = env"
  by (induction st env rule: after.induct) auto

subsection \<open>Environments\<close>

fun env_ok :: "heap \<Rightarrow> (string \<times> addr) list \<Rightarrow> senv \<Rightarrow> env \<Rightarrow> bool" where
  "env_ok h ns [] env \<longleftrightarrow> env = None"
| "env_ok h ns ((d, xs) # senv) env \<longleftrightarrow>
     (\<exists>e vars enclosing. env = Some e \<and> obj_at h e = Some (OEnvironment vars enclosing) \<and>
        (\<forall>x. map_of xs x = Some True \<longrightarrow> (\<exists>a. map_of ns x = Some a \<and> map_of vars a \<noteq> None)) \<and>
        env_ok h ns senv enclosing)"

text \<open>Environments only grow.\<close>

definition envs_grow :: "heap \<Rightarrow> heap \<Rightarrow> addr \<Rightarrow> bool" where
  "envs_grow h h' e \<longleftrightarrow>
     (\<forall>vars enclosing. obj_at h e = Some (OEnvironment vars enclosing) \<longrightarrow>
        (\<exists>vars'. obj_at h' e = Some (OEnvironment vars' enclosing) \<and>
           (\<forall>k. map_of vars k \<noteq> None \<longrightarrow> map_of vars' k \<noteq> None)))"

definition names_grow :: "(string \<times> addr) list \<Rightarrow> (string \<times> addr) list \<Rightarrow> bool" where
  "names_grow ns ns' \<longleftrightarrow> (\<forall>x a. map_of ns x = Some a \<longrightarrow> map_of ns' x = Some a)"

text \<open>A set of addresses closed under the links of environments.\<close>

definition chain_closed :: "heap \<Rightarrow> addr set \<Rightarrow> bool" where
  "chain_closed h A \<longleftrightarrow>
     (\<forall>e\<in>A. \<forall>vars enclosing. obj_at h e = Some (OEnvironment vars (Some enclosing)) \<longrightarrow> enclosing \<in> A)"

lemma env_ok_grow:
  assumes "env_ok h ns senv env" "\<forall>e\<in>A. envs_grow h h' e" "chain_closed h A"
    "set (opt_addrs env) \<subseteq> A" "names_grow ns ns'"
  shows "env_ok h' ns' senv env"
  using assms(1,4)
proof (induction senv arbitrary: env)
  case Nil
  then show ?case by simp
next
  case (Cons c senv)
  obtain d xs where c: "c = (d, xs)" by (cases c)
  from Cons.prems(1) obtain e vars enc where e: "env = Some e" "obj_at h e = Some (OEnvironment vars enc)"
    "\<forall>x. map_of xs x = Some True \<longrightarrow> (\<exists>a. map_of ns x = Some a \<and> map_of vars a \<noteq> None)"
    "env_ok h ns senv enc" by (auto simp: c)
  have A: "e \<in> A" using Cons.prems(2) e(1) by (simp add: opt_addrs_def)
  have "set (opt_addrs enc) \<subseteq> A"
    using assms(3) A e(2) by (cases enc) (auto simp: chain_closed_def opt_addrs_def)
  then have "env_ok h' ns' senv enc" using Cons.IH e(4) by blast
  moreover obtain vars' where "obj_at h' e = Some (OEnvironment vars' enc)"
    "\<forall>k. map_of vars k \<noteq> None \<longrightarrow> map_of vars' k \<noteq> None"
    using assms(2) A e(2) unfolding envs_grow_def by blast
  moreover have "\<forall>x. map_of xs x = Some True \<longrightarrow> (\<exists>a. map_of ns' x = Some a \<and> map_of vars' a \<noteq> None)"
    using e(3) calculation(3) assms(5) unfolding names_grow_def by blast
  ultimately show ?case using e(1) by (simp add: c)
qed

lemma env_ok_add_False: "env_ok h ns senv env \<Longrightarrow> env_ok h ns (add_name x False senv) env"
  by (cases senv) (auto simp: add_name_def split: if_splits)

subsection \<open>The invariant\<close>

definition fn_ok :: "heap \<Rightarrow> (string \<times> addr) list \<Rightarrow> fn_decl \<Rightarrow> env \<Rightarrow> bool" where
  "fn_ok h ns decl closure \<longleftrightarrow>
     (\<exists>senv d. env_ok h ns senv closure \<and> distinct (map sv_text (fd_params decl)) \<and>
        scoped_ss (Suc d) ((Suc d, params_scope (fd_params decl)) # senv) (fd_body decl) \<and>
        plain_ss (fd_body decl))"

definition funs_ok :: "addr set \<Rightarrow> heap \<Rightarrow> (string \<times> addr) list \<Rightarrow> bool" where
  "funs_ok X h ns \<longleftrightarrow>
     (\<forall>a name decl closure. obj_at h a = Some (OTreeFunction name decl closure) \<longrightarrow> a \<notin> X \<longrightarrow>
        fn_ok h ns decl closure)"

definition root_set :: "tree_state \<Rightarrow> addr set" where
  "root_set s = gc_roots (tree_roots s) (te_heap s)"

text \<open>\<open>X\<close> holds a function that is being declared: allocated, but not yet bound to its name.\<close>

definition tree_inv :: "addr set \<Rightarrow> tree_state \<Rightarrow> bool" where
  "tree_inv X s \<longleftrightarrow>
     sane (te_heap s) \<and> (\<forall>a\<in>root_set s. obj_at (te_heap s) a \<noteq> None) \<and>
     (\<forall>x a. map_of (te_names s) x = Some a \<longrightarrow> obj_at (te_heap s) a = Some (OString x)) \<and>
     funs_ok X (te_heap s) (te_names s) \<and> natives_ok (te_heap s) \<and> te_depth s \<le> kMaxCallDepth"

definition val_live :: "tree_state \<Rightarrow> value \<Rightarrow> bool" where
  "val_live s v \<longleftrightarrow> (\<forall>a\<in>set (value_addrs v). obj_at (te_heap s) a \<noteq> None)"

text \<open>What an action keeps.\<close>

definition keeps :: "tree_state \<Rightarrow> tree_state \<Rightarrow> bool" where
  "keeps s s' \<longleftrightarrow>
     te_active s' = te_active s \<and> te_stack s' = te_stack s \<and> te_depth s' = te_depth s \<and>
     hp_temp_roots (te_heap s') = hp_temp_roots (te_heap s) \<and> names_grow (te_names s) (te_names s') \<and>
     (\<forall>senv env. set (opt_addrs env) \<subseteq> set (te_active s) \<longrightarrow>
        env_ok (te_heap s) (te_names s) senv env \<longrightarrow> env_ok (te_heap s') (te_names s') senv env)"

definition at :: "tree_state \<Rightarrow> senv \<Rightarrow> env \<Rightarrow> bool" where
  "at s senv env \<longleftrightarrow>
     tree_inv {} s \<and> set (opt_addrs env) \<subseteq> set (te_active s) \<and>
     env_ok (te_heap s) (te_names s) senv env"

lemma names_grow_refl [simp]: "names_grow ns ns"
  by (simp add: names_grow_def)

lemma names_grow_trans: "names_grow a b \<Longrightarrow> names_grow b c \<Longrightarrow> names_grow a c"
  by (simp add: names_grow_def)

lemma keeps_refl [simp]: "keeps s s"
  by (simp add: keeps_def)

lemma keeps_trans: "keeps r s \<Longrightarrow> keeps s t \<Longrightarrow> keeps r t"
  unfolding keeps_def by (auto intro: names_grow_trans)

lemma at_keeps: "at s senv env \<Longrightarrow> keeps s s' \<Longrightarrow> tree_inv {} s' \<Longrightarrow> at s' senv env"
  by (simp add: at_def keeps_def)

lemma root_setI:
  "a \<in> set (te_active s) \<Longrightarrow> a \<in> root_set s"
  "v \<in> set (te_stack s) \<Longrightarrow> set (value_addrs v) \<subseteq> root_set s"
  "map_of (te_names s) x = Some a \<Longrightarrow> a \<in> root_set s"
  "map_of (te_globals s) k = Some v \<Longrightarrow> set (value_addrs v) \<subseteq> root_set s"
  "set (value_addrs (te_return_value s)) \<subseteq> root_set s"
  "v \<in> set (hp_temp_roots (te_heap s)) \<Longrightarrow> set (value_addrs v) \<subseteq> root_set s"
  by (force simp: root_set_def gc_roots_def tree_roots_def dest!: map_of_SomeD)+


subsection \<open>Allocation\<close>

lemma live_reach: "tree_inv X s \<Longrightarrow> a \<in> root_set s \<Longrightarrow> reach (te_heap s) (root_set s) a"
  by (simp add: tree_inv_def reach_root)

lemma reach_chain_closed: "no_dangling h \<Longrightarrow> chain_closed h {a. reach h R a}"
  unfolding chain_closed_def
proof (intro ballI allI impI)
  fix e vars enc
  assume n: "no_dangling h" and e: "e \<in> {a. reach h R a}" "obj_at h e = Some (OEnvironment vars (Some enc))"
  have t: "enc \<in> set (trace (OEnvironment vars (Some enc)))" by (simp add: opt_addrs_def)
  then have "obj_at h enc \<noteq> None" using n e(2) unfolding no_dangling_def by blast
  then show "enc \<in> {a. reach h R a}" using reach_step [OF _ e(2) t] e(1) by simp
qed

lemma env_ok_retained:
  assumes "retains R h h'" "sane h" "env_ok h ns senv env" "\<forall>a\<in>set (opt_addrs env). reach h R a"
  shows "env_ok h' ns senv env"
proof (rule env_ok_grow [OF assms(3)])
  show "\<forall>e\<in>{a. reach h R a}. envs_grow h h' e" using assms(1) by (simp add: retains_def envs_grow_def)
  show "chain_closed h {a. reach h R a}" using assms(2) by (simp add: sane_def reach_chain_closed)
  show "set (opt_addrs env) \<subseteq> {a. reach h R a}" using assms(4) by auto
qed simp

text \<open>An object that is still there after an allocation has kept its whole chain of environments.\<close>

lemma env_ok_survives:
  assumes "sane h" "sane h'" "\<And>b x. obj_at h' b = Some x \<Longrightarrow> b < hp_fresh h \<Longrightarrow> obj_at h b = Some x"
    "env_ok h ns senv env" "\<forall>a\<in>set (opt_addrs env). obj_at h' a \<noteq> None"
  shows "env_ok h' ns senv env"
  using assms(4,5)
proof (induction senv arbitrary: env)
  case (Cons c senv)
  obtain d xs where c: "c = (d, xs)" by (cases c)
  from Cons.prems(1) obtain e vars enc where e: "env = Some e" "obj_at h e = Some (OEnvironment vars enc)"
    "\<forall>x. map_of xs x = Some True \<longrightarrow> (\<exists>a. map_of ns x = Some a \<and> map_of vars a \<noteq> None)"
    "env_ok h ns senv enc" by (auto simp: c)
  have "e < hp_fresh h" using fresh_free [of h e] assms(1) e(2) by (force simp: sane_def not_le)
  moreover obtain x where x: "obj_at h' e = Some x" using Cons.prems(2) e(1) by (auto simp: opt_addrs_def)
  ultimately have h': "obj_at h' e = Some (OEnvironment vars enc)" using assms(3) e(2) by fastforce
  then have "\<forall>a\<in>set (opt_addrs enc). obj_at h' a \<noteq> None"
    using assms(2) by (auto simp: sane_def no_dangling_def)
  then have "env_ok h' ns senv enc" using Cons.IH e(4) by blast
  then show ?case using e(1,3) h' by (simp add: c)
qed simp

lemma inv_retains:
  assumes inv: "tree_inv X s" and r: "retains (root_set s) (te_heap s) h'"
    and old: "\<And>b x. obj_at h' b = Some x \<Longrightarrow> b < hp_fresh (te_heap s) \<Longrightarrow> obj_at (te_heap s) b = Some x"
    and new: "\<And>b n d c. obj_at h' b = Some (OTreeFunction n d c) \<Longrightarrow> hp_fresh (te_heap s) \<le> b \<Longrightarrow> b \<in> X'"
    and native: "\<And>b n k f. obj_at h' b = Some (ONative n k f) \<Longrightarrow> hp_fresh (te_heap s) \<le> b \<Longrightarrow> k = native_arity f"
    and X: "X \<subseteq> X'"
  shows "tree_inv X' (s\<lparr>te_heap := h'\<rparr>) \<and> keeps s (s\<lparr>te_heap := h'\<rparr>)"
proof -
  let ?h = "te_heap s" and ?s = "s\<lparr>te_heap := h'\<rparr>"
  have s: "sane ?h" using inv by (simp add: tree_inv_def)
  have s': "sane h'" and t: "hp_temp_roots h' = hp_temp_roots ?h" using r by (simp_all add: retains_def sane_def)
  have rs: "root_set ?s = root_set s" using t by (simp add: root_set_def gc_roots_def tree_roots_def)
  have same: "obj_at h' a = obj_at ?h a" if "a \<in> root_set s" for a
    using r live_reach [OF inv that] by (simp add: retains_def)
  have roots: "\<forall>a\<in>root_set s. obj_at h' a \<noteq> None" using inv same by (simp add: tree_inv_def)
  have names: "obj_at h' a = Some (OString x)" if "map_of (te_names s) x = Some a" for x a
    using inv same [OF root_setI(3) [OF that]] that by (simp add: tree_inv_def)
  have "funs_ok X' h' (te_names s)"
    unfolding funs_ok_def
  proof (intro allI impI)
    fix a n d c
    assume a: "obj_at h' a = Some (OTreeFunction n d c)" "a \<notin> X'"
    then have lt: "a < hp_fresh ?h" using new by (meson not_le)
    then have "obj_at ?h a = Some (OTreeFunction n d c)" using old a(1) by blast
    moreover have "a \<notin> X" using a(2) X by blast
    ultimately have "fn_ok ?h (te_names s) d c" using inv by (auto simp: tree_inv_def funs_ok_def)
    moreover have "\<forall>b\<in>set (opt_addrs c). obj_at h' b \<noteq> None"
      using s' a(1) by (auto simp: sane_def no_dangling_def)
    ultimately show "fn_ok h' (te_names s) d c"
      using env_ok_survives [OF s s' old] unfolding fn_ok_def by blast
  qed
  moreover have "natives_ok h'"
    unfolding natives_ok_def
  proof (intro allI impI)
    fix a n k f assume a: "obj_at h' a = Some (ONative n k f)"
    show "k = native_arity f"
    proof (cases "a < hp_fresh ?h")
      case True
      then have "obj_at ?h a = Some (ONative n k f)" using old a by blast
      then show ?thesis using inv by (simp add: tree_inv_def natives_ok_def)
    qed (use native a in auto)
  qed
  ultimately have "tree_inv X' ?s" using inv s' roots names rs by (simp add: tree_inv_def)
  moreover have "keeps s ?s"
    unfolding keeps_def
  proof (intro conjI allI impI)
    fix senv env
    assume e: "set (opt_addrs env) \<subseteq> set (te_active s)" "env_ok ?h (te_names s) senv env"
    have "\<forall>a\<in>set (opt_addrs env). reach ?h (root_set s) a"
      using e(1) root_setI(1) live_reach [OF inv] by blast
    then show "env_ok (te_heap ?s) (te_names ?s) senv env" using env_ok_retained [OF r s e(2)] by simp
  qed (simp_all add: t)
  ultimately show ?thesis by blast
qed

lemma tok_allocate:
  assumes inv: "tree_inv {} s" and ob: "\<not> is_string ob" "\<forall>b\<in>set (trace ob). reach (te_heap s) (root_set s) b"
    and native: "\<And>n k f. ob = ONative n k f \<Longrightarrow> k = native_arity f"
    and Q: "\<And>a s'. tree_inv (if \<exists>n d c. ob = OTreeFunction n d c then {a} else {}) s' \<Longrightarrow> keeps s s' \<Longrightarrow>
      te_names s' = te_names s \<Longrightarrow> te_globals s' = te_globals s \<Longrightarrow> obj_at (te_heap s') a = Some ob \<Longrightarrow>
      (\<And>b. b \<in> root_set s \<Longrightarrow> obj_at (te_heap s') b = obj_at (te_heap s) b) \<Longrightarrow>
      retains (root_set s) (te_heap s) (te_heap s') \<Longrightarrow> Q a s'"
  shows "tok (t_allocate sz ob) s Q"
proof -
  obtain a h' where al: "allocate sz (tree_roots s) ob (te_heap s) = (a, h')" by fastforce
  have s: "sane (te_heap s)" using inv by (simp add: tree_inv_def)
  have "\<forall>b\<in>set (trace ob). reach (te_heap s) (gc_roots (tree_roots s) (te_heap s)) b"
    using ob(2) by (simp add: root_set_def)
  note k = allocate_ok [OF s al ob(1) this, folded root_set_def]
  let ?X = "if \<exists>n d c. ob = OTreeFunction n d c then {a} else {}"
  have "tree_inv ?X (s\<lparr>te_heap := h'\<rparr>) \<and> keeps s (s\<lparr>te_heap := h'\<rparr>)"
  proof (rule inv_retains [OF inv k(1)])
    show "\<And>b x. obj_at h' b = Some x \<Longrightarrow> b < hp_fresh (te_heap s) \<Longrightarrow> obj_at (te_heap s) b = Some x"
      by (rule allocate_old [OF s al])
    show "\<And>b n d c. obj_at h' b = Some (OTreeFunction n d c) \<Longrightarrow> hp_fresh (te_heap s) \<le> b \<Longrightarrow> b \<in> ?X"
      using allocate_new [OF s al] by auto
    show "\<And>b n k f. obj_at h' b = Some (ONative n k f) \<Longrightarrow> hp_fresh (te_heap s) \<le> b \<Longrightarrow> k = native_arity f"
      using allocate_new [OF s al] native by blast
  qed simp
  moreover have "obj_at h' b = obj_at (te_heap s) b" if "b \<in> root_set s" for b
    using k(1) live_reach [OF inv that] by (simp add: retains_def)
  ultimately have "Q a (s\<lparr>te_heap := h'\<rparr>)" using k by (intro Q) simp_all
  then show ?thesis by (simp add: tok_def t_allocate_def al)
qed

lemma tok_intern:
  assumes inv: "tree_inv {} s"
    and Q: "\<And>a s'. tree_inv {} s' \<Longrightarrow> keeps s s' \<Longrightarrow> te_names s' = te_names s \<Longrightarrow>
      te_globals s' = te_globals s \<Longrightarrow> obj_at (te_heap s') a = Some (OString bytes) \<Longrightarrow>
      retains (root_set s) (te_heap s) (te_heap s') \<Longrightarrow> Q a s'"
  shows "tok (t_intern sz bytes) s Q"
proof -
  obtain a h' where i: "intern sz (tree_roots s) bytes (te_heap s) = (a, h')" by fastforce
  have s: "sane (te_heap s)" using inv by (simp add: tree_inv_def)
  note k = intern_ok [OF s i, folded root_set_def]
  have "tree_inv {} (s\<lparr>te_heap := h'\<rparr>) \<and> keeps s (s\<lparr>te_heap := h'\<rparr>)"
  proof (rule inv_retains [OF inv k(1)])
    show "\<And>b x. obj_at h' b = Some x \<Longrightarrow> b < hp_fresh (te_heap s) \<Longrightarrow> obj_at (te_heap s) b = Some x"
      by (rule intern_old [OF s i])
    show "\<And>b n d c. obj_at h' b = Some (OTreeFunction n d c) \<Longrightarrow> hp_fresh (te_heap s) \<le> b \<Longrightarrow> b \<in> {}"
      using intern_new [OF s i] by fastforce
    show "\<And>b n k f. obj_at h' b = Some (ONative n k f) \<Longrightarrow> hp_fresh (te_heap s) \<le> b \<Longrightarrow> k = native_arity f"
      using intern_new [OF s i] by fastforce
  qed simp
  then have "Q a (s\<lparr>te_heap := h'\<rparr>)" using k by (intro Q) simp_all
  then show ?thesis by (simp add: tok_def t_intern_def i)
qed


subsection \<open>Changes of the state\<close>

lemma env_ok_cong: "obj_at h' = obj_at h \<Longrightarrow> env_ok h' ns senv env = env_ok h ns senv env"
  by (induction h ns senv env rule: env_ok.induct) auto

lemma env_ok_heap:
  assumes "env_ok h ns senv env" "\<And>e. envs_grow h h' e" "names_grow ns ns'"
  shows "env_ok h' ns' senv env"
proof (rule env_ok_grow [OF assms(1), of UNIV])
  show "chain_closed h UNIV" unfolding chain_closed_def by blast
qed (use assms(2,3) in blast)+

lemma root_set_update [simp]:
  "root_set (s\<lparr>te_error := e\<rparr>) = root_set s"
  "root_set (s\<lparr>te_out := out\<rparr>) = root_set s"
  "root_set (s\<lparr>te_depth := n\<rparr>) = root_set s"
  "root_set (s\<lparr>te_ticks := n\<rparr>) = root_set s"
  by (simp_all add: root_set_def gc_roots_def tree_roots_def)

text \<open>A change that leaves the objects and the names alone.\<close>

lemma inv_change:
  assumes "tree_inv X s" "obj_at (te_heap s') = obj_at (te_heap s)" "sane (te_heap s')"
    "te_names s' = te_names s" "te_depth s' \<le> kMaxCallDepth"
    "\<And>a. a \<in> root_set s' \<Longrightarrow> a \<notin> root_set s \<Longrightarrow> obj_at (te_heap s) a \<noteq> None"
  shows "tree_inv X s'"
proof -
  have "\<forall>a\<in>root_set s'. obj_at (te_heap s') a \<noteq> None"
  proof
    fix a assume "a \<in> root_set s'"
    then show "obj_at (te_heap s') a \<noteq> None"
      unfolding assms(2) using assms(1,6) by (cases "a \<in> root_set s") (simp_all add: tree_inv_def)
  qed
  moreover have "funs_ok X (te_heap s') (te_names s')"
    using assms(1,4) env_ok_cong [OF assms(2)] by (simp add: tree_inv_def funs_ok_def fn_ok_def assms(2))
  moreover have "natives_ok (te_heap s')" using assms(1) by (simp add: tree_inv_def natives_ok_def assms(2))
  ultimately show ?thesis using assms by (simp add: tree_inv_def)
qed

lemma inv_depth: "tree_inv X s \<Longrightarrow> te_depth s \<le> kMaxCallDepth"
  by (simp add: tree_inv_def)

lemma inv_sane: "tree_inv X s \<Longrightarrow> sane (te_heap s)"
  by (simp add: tree_inv_def)

definition vals_addrs :: "value list \<Rightarrow> addr set" where
  "vals_addrs vs = (\<Union>v\<in>set vs. set (value_addrs v))"

definition alist_addrs :: "(addr \<times> value) list \<Rightarrow> addr set" where
  "alist_addrs al = (\<Union>p\<in>set al. insert (fst p) (set (value_addrs (snd p))))"

lemma root_set_eq:
  "root_set s = vals_addrs (hp_temp_roots (te_heap s)) \<union> alist_addrs (te_globals s) \<union>
     snd ` set (te_names s) \<union> set (te_active s) \<union> vals_addrs (te_stack s) \<union>
     set (value_addrs (te_return_value s))"
  by (simp add: root_set_def gc_roots_def tree_roots_def vals_addrs_def alist_addrs_def
      case_prod_beta Un_assoc)

lemma vals_addrs_append [simp]: "vals_addrs (xs @ ys) = vals_addrs xs \<union> vals_addrs ys"
  by (simp add: vals_addrs_def)

lemma vals_addrs_simps [simp]: "vals_addrs [] = {}" "vals_addrs (v # vs) = set (value_addrs v) \<union> vals_addrs vs"
  by (simp_all add: vals_addrs_def)

lemma vals_addrs_take: "a \<in> vals_addrs (take n vs) \<Longrightarrow> a \<in> vals_addrs vs"
  by (auto simp: vals_addrs_def dest: in_set_takeD)

lemma vals_addrs_butlast: "a \<in> vals_addrs (butlast vs) \<Longrightarrow> a \<in> vals_addrs vs"
  by (auto simp: vals_addrs_def dest: in_set_butlastD)

lemma alist_addrs_update:
  "alist_addrs (AList.update k v al) \<subseteq> insert k (set (value_addrs v)) \<union> alist_addrs al"
  by (induction al) (auto simp: alist_addrs_def)

lemma push_temp_temps [simp]: "hp_temp_roots (push_temp v h) = hp_temp_roots h @ [v]"
  by (simp add: push_temp_def)

lemma pop_temp_temps [simp]: "hp_temp_roots (pop_temp h) = butlast (hp_temp_roots h)"
  by (simp add: pop_temp_def)

lemma obj_at_temp_fun [simp]: "obj_at (push_temp v h) = obj_at h" "obj_at (pop_temp h) = obj_at h"
  by (rule ext, simp add: heap_simps)+

lemma inv_push_temp:
  "tree_inv X s \<Longrightarrow> val_live s v \<Longrightarrow> tree_inv X (s\<lparr>te_heap := push_temp v (te_heap s)\<rparr>)"
  by (rule inv_change) (auto simp: heap_simps inv_sane inv_depth root_set_eq val_live_def)

lemma inv_pop_temp: "tree_inv X s \<Longrightarrow> tree_inv X (s\<lparr>te_heap := pop_temp (te_heap s)\<rparr>)"
  by (rule inv_change) (auto simp: heap_simps inv_sane inv_depth root_set_eq dest: vals_addrs_butlast)

lemma inv_push_active:
  "tree_inv X s \<Longrightarrow> obj_at (te_heap s) a \<noteq> None \<Longrightarrow> tree_inv X (s\<lparr>te_active := te_active s @ [a]\<rparr>)"
  by (rule inv_change) (auto simp: inv_sane inv_depth root_set_eq)

lemma inv_pop_active: "tree_inv X s \<Longrightarrow> tree_inv X (s\<lparr>te_active := butlast (te_active s)\<rparr>)"
  by (rule inv_change) (auto simp: inv_sane inv_depth root_set_eq dest: in_set_butlastD)

lemma inv_push_stack:
  "tree_inv X s \<Longrightarrow> val_live s v \<Longrightarrow> tree_inv X (s\<lparr>te_stack := te_stack s @ [v]\<rparr>)"
  by (rule inv_change) (auto simp: inv_sane inv_depth root_set_eq val_live_def)

lemma inv_take_stack: "tree_inv X s \<Longrightarrow> tree_inv X (s\<lparr>te_stack := take n (te_stack s)\<rparr>)"
  by (rule inv_change) (auto simp: inv_sane inv_depth root_set_eq dest: vals_addrs_take)

lemma inv_return:
  "tree_inv X s \<Longrightarrow> val_live s v \<Longrightarrow> tree_inv X (s\<lparr>te_return_value := v\<rparr>)"
  by (rule inv_change) (auto simp: inv_sane inv_depth root_set_eq val_live_def)

lemma inv_error: "tree_inv X s \<Longrightarrow> tree_inv X (s\<lparr>te_error := e\<rparr>)"
  by (rule inv_change) (auto simp: inv_sane inv_depth)

lemma inv_out: "tree_inv X s \<Longrightarrow> tree_inv X (s\<lparr>te_out := out\<rparr>)"
  by (rule inv_change) (auto simp: inv_sane inv_depth)

lemma inv_ticks: "tree_inv X s \<Longrightarrow> tree_inv X (s\<lparr>te_ticks := n\<rparr>)"
  by (rule inv_change) (auto simp: inv_sane inv_depth)

lemma inv_set_depth: "tree_inv X s \<Longrightarrow> n \<le> kMaxCallDepth \<Longrightarrow> tree_inv X (s\<lparr>te_depth := n\<rparr>)"
  by (rule inv_change) (auto simp: inv_sane inv_depth)

lemma inv_global:
  assumes "tree_inv X s" "val_live s v" "obj_at (te_heap s) name \<noteq> None"
  shows "tree_inv X (s\<lparr>te_globals := AList.update name v (te_globals s)\<rparr>)"
proof (rule inv_change [OF assms(1)])
  fix a
  assume "a \<in> root_set (s\<lparr>te_globals := AList.update name v (te_globals s)\<rparr>)" "a \<notin> root_set s"
  then have "a \<in> insert name (set (value_addrs v))"
    using alist_addrs_update [of name v "te_globals s"] by (auto simp: root_set_eq)
  then show "obj_at (te_heap s) a \<noteq> None" using assms(2,3) by (auto simp: val_live_def)
qed (simp_all add: inv_sane [OF assms(1)] inv_depth [OF assms(1)])

text \<open>Writing an object that is neither a string nor callable.\<close>

definition is_callable :: "obj \<Rightarrow> bool" where
  "is_callable ob \<longleftrightarrow> (case ob of OTreeFunction n d c \<Rightarrow> True | ONative n k f \<Rightarrow> True | _ \<Rightarrow> False)"

lemma inv_set_obj:
  assumes inv: "tree_inv X s" and o: "obj_at (te_heap s) a = Some old"
    and n: "\<not> is_string old" "\<not> is_string ob" "\<not> is_callable old" "\<not> is_callable ob"
    and live: "\<forall>b\<in>set (trace ob). obj_at (te_heap s) b \<noteq> None"
    and grow: "envs_grow (te_heap s) (set_obj a ob (te_heap s)) a"
  defines "s' \<equiv> s\<lparr>te_heap := set_obj a ob (te_heap s)\<rparr>"
  shows "tree_inv X s' \<and> keeps s s'"
proof -
  let ?h = "te_heap s" and ?h' = "set_obj a ob (te_heap s)"
  have oa: "obj_at ?h' b = (if b = a then Some ob else obj_at ?h b)" for b using o by (simp add: heap_simps)
  have g: "envs_grow ?h ?h' e" for e
    using grow by (cases "e = a") (simp_all add: envs_grow_def oa)
  have env: "env_ok ?h' (te_names s) senv env" if "env_ok ?h (te_names s) senv env" for senv env
    using env_ok_heap [OF that g] by simp
  have t: "hp_temp_roots ?h' = hp_temp_roots ?h" by (simp add: set_obj_def)
  have rs: "root_set s' = root_set s" by (simp add: s'_def root_set_def gc_roots_def tree_roots_def t)
  have "sane ?h'" using inv_sane [OF inv] o n(1,2) live by (rule sane_set_obj)
  moreover have "\<forall>b\<in>root_set s'. obj_at ?h' b \<noteq> None" using inv rs by (simp add: tree_inv_def oa)
  moreover have "\<forall>x b. map_of (te_names s) x = Some b \<longrightarrow> obj_at ?h' b = Some (OString x)"
    using inv n(1) o by (fastforce simp: tree_inv_def oa is_string_def)
  moreover have "funs_ok X ?h' (te_names s)"
    unfolding funs_ok_def fn_ok_def
  proof (intro allI impI)
    fix b nm d c
    assume b: "obj_at ?h' b = Some (OTreeFunction nm d c)" "b \<notin> X"
    then have "obj_at ?h b = Some (OTreeFunction nm d c)"
      using n(4) by (auto simp: oa is_callable_def split: if_splits)
    then have "fn_ok ?h (te_names s) d c" using inv b(2) by (simp add: tree_inv_def funs_ok_def)
    then show "\<exists>senv dd. env_ok ?h' (te_names s) senv c \<and> distinct (map sv_text (fd_params d)) \<and>
        scoped_ss (Suc dd) ((Suc dd, params_scope (fd_params d)) # senv) (fd_body d) \<and> plain_ss (fd_body d)"
      using env unfolding fn_ok_def by blast
  qed
  moreover have "natives_ok ?h'"
    using inv n(4) by (auto simp: tree_inv_def natives_ok_def oa is_callable_def split: if_splits)
  ultimately have "tree_inv X s'" using inv by (simp add: tree_inv_def s'_def)
  moreover have "keeps s s'" using env by (simp add: keeps_def s'_def t)
  ultimately show ?thesis by blast
qed


subsection \<open>Contracts\<close>

definition vpost :: "tree_state \<Rightarrow> value \<Rightarrow> tree_state \<Rightarrow> bool" where
  "vpost s v s' \<longleftrightarrow> tree_inv {} s' \<and> keeps s s' \<and> val_live s' v"

definition fpost :: "senv \<Rightarrow> env \<Rightarrow> tree_state \<Rightarrow> flow \<Rightarrow> tree_state \<Rightarrow> bool" where
  "fpost senv env s fl s' \<longleftrightarrow>
     tree_inv {} s' \<and> keeps s s' \<and> (fl = FlowNormal \<longrightarrow> env_ok (te_heap s') (te_names s') senv env)"

definition ev_ok :: "(expr \<Rightarrow> env \<Rightarrow> value tm) \<Rightarrow> bool" where
  "ev_ok ev \<longleftrightarrow> (\<forall>e env s senv. at s senv env \<longrightarrow> scoped_e senv e \<longrightarrow> tok (ev e env) s (vpost s))"

definition ex_ok :: "(stmt \<Rightarrow> env \<Rightarrow> flow tm) \<Rightarrow> bool" where
  "ex_ok ex \<longleftrightarrow>
     (\<forall>st env s senv d. at s senv env \<longrightarrow> scoped_s d senv st \<longrightarrow> plain_s st \<longrightarrow>
        tok (ex st env) s (fpost (after st senv) env s))"

lemma at_inv: "at s senv env \<Longrightarrow> tree_inv {} s"
  by (simp add: at_def)

lemma vpost_at: "at s senv env \<Longrightarrow> vpost s v s' \<Longrightarrow> at s' senv env"
  by (auto simp: vpost_def intro: at_keeps)

lemma vpost_trans: "keeps r s \<Longrightarrow> vpost s v s' \<Longrightarrow> vpost r v s'"
  by (auto simp: vpost_def intro: keeps_trans)

lemma fpost_trans: "keeps r s \<Longrightarrow> fpost senv env s v s' \<Longrightarrow> fpost senv env r v s'"
  by (auto simp: fpost_def intro: keeps_trans)

lemma val_live_scalar [simp]:
  "val_live s VNil" "val_live s (VBool b)" "val_live s (VInt i)" "val_live s (VFloat d)"
  by (simp_all add: val_live_def value_addrs_def)

lemma vpost_nil: "tree_inv {} s' \<Longrightarrow> keeps s s' \<Longrightarrow> vpost s VNil s'"
  by (simp add: vpost_def)

lemma tok_ev:
  assumes "ev_ok ev" "at s senv env" "scoped_e senv e"
    "\<And>v s'. vpost s v s' \<Longrightarrow> at s' senv env \<Longrightarrow> Q v s'"
  shows "tok (ev e env) s Q"
proof -
  have "tok (ev e env) s (vpost s)" using assms(1-3) by (simp add: ev_ok_def)
  then show ?thesis by (rule tok_mono) (use assms(2,4) vpost_at in blast)
qed

text \<open>Evaluating a child and going on with its value, from a state that \<open>r\<close> led to.\<close>

lemma tok_ev_then:
  assumes "ev_ok ev" "at s senv env" "scoped_e senv e" "keeps r s"
    "\<And>v s'. vpost s v s' \<Longrightarrow> at s' senv env \<Longrightarrow> keeps r s' \<Longrightarrow> tok (k v) s' (vpost r)"
  shows "tok (eval_then (ev e env) k) s (vpost r)"
proof (rule tok_eval_then, rule tok_ev [OF assms(1-3)], intro conjI impI)
  fix v s'
  assume p: "vpost s v s'" "at s' senv env"
  then have r: "keeps r s'" using assms(4) by (auto simp: vpost_def intro: keeps_trans)
  then show "vpost r VNil s'" using p by (simp add: vpost_nil at_inv)
  show "tok (k v) s' (vpost r)" using assms(5) p r by blast
qed

lemma tok_ev_exec:
  assumes "ev_ok ev" "at s senv env" "scoped_e senv e" "keeps r s"
    "\<And>v s'. vpost s v s' \<Longrightarrow> at s' senv env \<Longrightarrow> keeps r s' \<Longrightarrow> tok (k v) s' (fpost senv' env r)"
  shows "tok (exec_then (ev e env) k) s (fpost senv' env r)"
proof (rule tok_exec_then, rule tok_ev [OF assms(1-3)], intro conjI impI)
  fix v s'
  assume p: "vpost s v s'" "at s' senv env"
  then have r: "keeps r s'" using assms(4) by (auto simp: vpost_def intro: keeps_trans)
  then show "fpost senv' env r FlowError s'" using p by (simp add: fpost_def at_inv)
  show "tok (k v) s' (fpost senv' env r)" using assms(5) p r by blast
qed

lemma tok_fail: "tree_inv {} s \<Longrightarrow> keeps r s \<Longrightarrow> tok (t_fail line m) s (vpost r)"
  by (simp add: t_fail_def vpost_def inv_error) (simp add: keeps_def)

lemma tok_result:
  assumes "tree_inv {} s" "keeps r s" "\<And>v. x = Inr v \<Longrightarrow> val_live s v"
  shows "tok (t_result line x) s (vpost r)"
  using assms by (cases x) (simp_all add: t_result_def tok_fail vpost_def)

lemma keeps_temp:
  assumes "keeps (s\<lparr>te_heap := push_temp v (te_heap s)\<rparr>) s'"
  shows "keeps s (s'\<lparr>te_heap := pop_temp (te_heap s')\<rparr>)"
  using assms by (simp add: keeps_def env_ok_cong [OF obj_at_temp_fun(1)] env_ok_cong [OF obj_at_temp_fun(2)])

lemma at_push_temp:
  "at s senv env \<Longrightarrow> val_live s v \<Longrightarrow> at (s\<lparr>te_heap := push_temp v (te_heap s)\<rparr>) senv env"
  by (simp add: at_def inv_push_temp env_ok_cong [OF obj_at_temp_fun(1)])

lemma temp_live: "tree_inv X s \<Longrightarrow> v \<in> set (hp_temp_roots (te_heap s)) \<Longrightarrow> val_live s v"
  using root_setI(6) [of v s] by (auto simp: tree_inv_def val_live_def)

lemma stack_live: "tree_inv X s \<Longrightarrow> v \<in> set (te_stack s) \<Longrightarrow> val_live s v"
  using root_setI(2) [of v s] by (auto simp: tree_inv_def val_live_def)

lemma tok_with_temp:
  assumes "keeps r s" "tok body (s\<lparr>te_heap := push_temp v (te_heap s)\<rparr>) (vpost (s\<lparr>te_heap := push_temp v (te_heap s)\<rparr>))"
  shows "tok (with_temp v body) s (vpost r)"
  unfolding with_temp_def tok_simps
proof (rule tok_mono [OF assms(2)])
  fix x s'
  assume "vpost (s\<lparr>te_heap := push_temp v (te_heap s)\<rparr>) x s'"
  then have "keeps s (s'\<lparr>te_heap := pop_temp (te_heap s')\<rparr>)" "tree_inv {} s'" "val_live s' x"
    by (auto simp: vpost_def intro: keeps_temp)
  then show "vpost r x (s'\<lparr>te_heap := pop_temp (te_heap s')\<rparr>)"
    using assms(1) by (simp add: vpost_def inv_pop_temp val_live_def heap_simps keeps_trans [OF assms(1)])
qed

subsection \<open>Names and variables\<close>

lemma tok_name_of:
  assumes inv: "tree_inv {} s"
    and Q: "\<And>a s'. tree_inv {} s' \<Longrightarrow> keeps s s' \<Longrightarrow> map_of (te_names s') x = Some a \<Longrightarrow> Q a s'"
  shows "tok (name_of sz x) s Q"
proof (cases "map_of (te_names s) x")
  case (Some a)
  then show ?thesis using Q [OF inv keeps_refl] by (simp add: name_of_def)
next
  case None
  show ?thesis
    unfolding name_of_def tok_simps None option.case
  proof (rule tok_intern [OF inv])
    fix a s'
    assume i: "tree_inv {} s'" "keeps s s'" "te_names s' = te_names s" "obj_at (te_heap s') a = Some (OString x)"
    let ?s = "s'\<lparr>te_names := (x, a) # te_names s'\<rparr>"
    have g: "names_grow (te_names s') (te_names ?s)" using None i(3) by (simp add: names_grow_def)
    have env: "env_ok (te_heap s') (te_names ?s) senv env" if "env_ok (te_heap s') (te_names s') senv env" for senv env
      by (rule env_ok_heap [OF that _ g]) (simp add: envs_grow_def)
    have "root_set ?s = insert a (root_set s')" by (auto simp: root_set_eq)
    moreover have "funs_ok {} (te_heap s') (te_names ?s)"
      using i(1) env unfolding tree_inv_def funs_ok_def fn_ok_def by blast
    ultimately have "tree_inv {} ?s" using i(1,4) by (simp add: tree_inv_def)
    moreover have "keeps s' ?s" using env g by (simp add: keeps_def)
    then have "keeps s ?s" using i(2) keeps_trans by blast
    ultimately show "Q a ?s" by (intro Q) simp_all
  qed
qed

lemma name_live: "tree_inv X s \<Longrightarrow> map_of (te_names s) x = Some a \<Longrightarrow> obj_at (te_heap s) a \<noteq> None"
  by (simp add: tree_inv_def)

lemma set_trace_env: "set (trace (OEnvironment vars enc)) = set (opt_addrs enc) \<union> alist_addrs vars"
  by (simp add: alist_addrs_def case_prod_beta)

lemma tok_set_var:
  assumes inv: "tree_inv X s" and o: "obj_at (te_heap s) e = Some (OEnvironment vars enc)"
    and live: "val_live s v" "obj_at (te_heap s) name \<noteq> None"
    and Q: "\<And>s'. tree_inv X s' \<Longrightarrow> keeps s s' \<Longrightarrow> te_names s' = te_names s \<Longrightarrow>
      te_heap s' = set_obj e (OEnvironment (AList.update name v vars) enc) (te_heap s) \<Longrightarrow> Q () s'"
  shows "tok (set_var e name v) s Q"
proof -
  let ?ob = "OEnvironment (AList.update name v vars) enc"
  have "tree_inv X (s\<lparr>te_heap := set_obj e ?ob (te_heap s)\<rparr>) \<and> keeps s (s\<lparr>te_heap := set_obj e ?ob (te_heap s)\<rparr>)"
  proof (rule inv_set_obj [OF inv o])
    have "\<forall>b\<in>set (trace (OEnvironment vars enc)). obj_at (te_heap s) b \<noteq> None"
      using inv_sane [OF inv] o unfolding sane_def no_dangling_def by blast
    then show "\<forall>b\<in>set (trace ?ob). obj_at (te_heap s) b \<noteq> None"
      using alist_addrs_update [of name v vars] live unfolding set_trace_env val_live_def by blast
    show "envs_grow (te_heap s) (set_obj e ?ob (te_heap s)) e"
      using o by (auto simp: envs_grow_def heap_simps update_conv')
  qed (simp_all add: is_string_def is_callable_def)
  then show ?thesis using o Q by (simp add: set_var_def t_object_def tok_def tbind_def tmod_def)
qed

lemma tok_define:
  assumes inv: "tree_inv X s" and env: "env_ok (te_heap s) (te_names s) senv env"
    and name: "map_of (te_names s) (sv_text x) = Some a" and live: "val_live s v"
    and Q: "\<And>s'. tree_inv X s' \<Longrightarrow> keeps s s' \<Longrightarrow>
      env_ok (te_heap s') (te_names s') (add_name x True senv) env \<Longrightarrow> te_names s' = te_names s \<Longrightarrow>
      (\<And>b n d c. obj_at (te_heap s') b = Some (OTreeFunction n d c) \<Longrightarrow>
        obj_at (te_heap s) b = Some (OTreeFunction n d c)) \<Longrightarrow> Q () s'"
  shows "tok (define_var env a v) s Q"
proof (cases senv)
  case Nil
  then have e: "env = None" using env by simp
  let ?s = "s\<lparr>te_globals := AList.update a v (te_globals s)\<rparr>"
  have "tree_inv X ?s" using inv_global [OF inv live name_live [OF inv name]] .
  then show ?thesis using e Nil by (simp add: define_var_def, intro Q) (simp_all add: keeps_def add_name_def)
next
  case (Cons c rest)
  obtain d xs where c: "c = (d, xs)" by (cases c)
  from env obtain e vars enc where e: "env = Some e" "obj_at (te_heap s) e = Some (OEnvironment vars enc)"
    "\<forall>y. map_of xs y = Some True \<longrightarrow> (\<exists>b. map_of (te_names s) y = Some b \<and> map_of vars b \<noteq> None)"
    "env_ok (te_heap s) (te_names s) rest enc" by (auto simp: Cons c)
  have "tok (set_var e a v) s Q"
  proof (rule tok_set_var [OF inv e(2) live name_live [OF inv name]])
    fix s'
    assume s': "tree_inv X s'" "keeps s s'" "te_names s' = te_names s"
      and h: "te_heap s' = set_obj e (OEnvironment (AList.update a v vars) enc) (te_heap s)"
    have g: "envs_grow (te_heap s) (te_heap s') b" for b
      using e(2) by (auto simp: envs_grow_def h heap_simps update_conv')
    have "env_ok (te_heap s') (te_names s') rest enc"
      using env_ok_heap [OF e(4) g, of "te_names s"] s'(3) by simp
    moreover have "obj_at (te_heap s') e = Some (OEnvironment (AList.update a v vars) enc)"
      using e(2) by (simp add: h heap_simps)
    moreover have "\<exists>b. map_of (te_names s') y = Some b \<and> map_of (AList.update a v vars) b \<noteq> None"
      if "map_of ((sv_text x, True) # xs) y = Some True" for y
    proof (cases "y = sv_text x")
      case True
      then show ?thesis using name s'(3) by (simp add: update_conv')
    next
      case False
      then have "map_of xs y = Some True" using that by simp
      then obtain b where "map_of (te_names s) y = Some b" "map_of vars b \<noteq> None" using e(3) by blast
      then show ?thesis using s'(3) by (auto simp: update_conv')
    qed
    ultimately have "env_ok (te_heap s') (te_names s') (add_name x True senv) env"
      using e(1) by (simp add: Cons c add_name_def)
    then show "Q () s'" using s' e(2) by (intro Q) (auto simp: h heap_simps split: if_splits)
  qed
  then show ?thesis by (simp add: define_var_def e(1))
qed

lemma env_lookup_ge: "env_lookup x senv k = Some (m, b) \<Longrightarrow> k \<le> m"
  by (induction x senv k rule: env_lookup.induct) (auto split: option.splits)

lemma tok_walk_up:
  assumes "env_ok (te_heap s) ns senv env" "env_lookup x senv k = Some (k + n, True)"
    "\<And>e vars enc a. obj_at (te_heap s) e = Some (OEnvironment vars enc) \<Longrightarrow>
       map_of ns x = Some a \<Longrightarrow> map_of vars a \<noteq> None \<Longrightarrow> Q (Some e) s"
  shows "tok (walk_up n env) s Q"
  using assms(1,2)
proof (induction n arbitrary: senv env k)
  case 0
  then obtain d xs rest where c: "senv = (d, xs) # rest" by (cases senv) auto
  have "map_of xs x = Some True"
  proof (cases "map_of xs x")
    case None
    then have "env_lookup x rest (k + 1) = Some (k, True)" using 0 c by simp
    then show ?thesis using env_lookup_ge by fastforce
  qed (use 0 c in auto)
  then show ?case using 0(1) assms(3) unfolding c by auto
next
  case (Suc n)
  then obtain d xs rest where c: "senv = (d, xs) # rest" by (cases senv) auto
  have "map_of xs x = None" using Suc.prems(2) c by (auto split: option.splits)
  then have "env_lookup x rest (k + 1) = Some ((k + 1) + n, True)" using Suc.prems(2) c by simp
  then show ?case using Suc.prems(1) Suc.IH [of rest _ "k + 1"]
    unfolding c by (auto simp: tok_def tbind_def t_object_def)
qed


text \<open>Where the storage of a use is.\<close>

definition slot_ok :: "tree_state \<Rightarrow> slot \<Rightarrow> bool" where
  "slot_ok s sl \<longleftrightarrow>
     (case sl of GlobalSlot \<Rightarrow> True | LocalSlot e \<Rightarrow> \<exists>vars enc. obj_at (te_heap s) e = Some (OEnvironment vars enc))"

lemma env_value_live:
  assumes "tree_inv X s" "obj_at (te_heap s) e = Some (OEnvironment vars enc)" "map_of vars a = Some v"
  shows "val_live s v"
proof -
  have "set (value_addrs v) \<subseteq> alist_addrs vars"
    using map_of_SomeD [OF assms(3)] by (force simp: alist_addrs_def)
  then have "set (value_addrs v) \<subseteq> set (trace (OEnvironment vars enc))" by (simp only: set_trace_env) blast
  then show ?thesis using inv_sane [OF assms(1)] assms(2) unfolding sane_def no_dangling_def val_live_def by blast
qed

lemma tok_lookup:
  assumes at: "at s senv env" and use: "scoped_use senv x b" and name: "map_of (te_names s) (sv_text x) = Some a"
    and Q: "Q None s" "\<And>sl v. val_live s v \<Longrightarrow> slot_ok s sl \<Longrightarrow> Q (Some (sl, v)) s"
  shows "tok (lookup env b a) s Q"
proof (cases "env_lookup (sv_text x) senv 0")
  case None
  then have b: "b = GlobalBinding" using use by (simp add: scoped_use_def)
  show ?thesis
  proof (cases "map_of (te_globals s) a")
    case (Some v)
    then have "val_live s v" using root_setI(4) [OF Some] at_inv [OF at] by (auto simp: tree_inv_def val_live_def)
    then show ?thesis using b Some Q(2) by (simp add: lookup_def slot_ok_def)
  qed (use b Q(1) in \<open>simp add: lookup_def\<close>)
next
  case (Some p)
  obtain hops df where p: "p = (hops, df)" by (cases p)
  then have b: "b = LocalBinding hops" and l: "env_lookup (sv_text x) senv 0 = Some (0 + hops, True)"
    using use Some by (auto simp: scoped_use_def)
  have env: "env_ok (te_heap s) (te_names s) senv env" using at by (simp add: at_def)
  show ?thesis
    unfolding lookup_def b binding.case tok_simps
  proof (rule tok_walk_up [OF env l])
    fix e vars enc c
    assume e: "obj_at (te_heap s) e = Some (OEnvironment vars enc)" "map_of (te_names s) (sv_text x) = Some c"
      "map_of vars c \<noteq> None"
    then obtain v where v: "map_of vars a = Some v" using name by auto
    then have "Q (Some (LocalSlot e, v)) s"
      using env_value_live [OF at_inv [OF at] e(1)] e(1) by (intro Q(2)) (auto simp: slot_ok_def)
    then show "tok (case Some e of None \<Rightarrow> tfault | Some e \<Rightarrow> tbind (t_object e) (\<lambda>ob. case ob of
        OEnvironment vars enclosing \<Rightarrow> (case map_of vars a of Some v \<Rightarrow> treturn (Some (LocalSlot e, v)) | None \<Rightarrow> tfault)
      | _ \<Rightarrow> tfault)) s Q"
      using e(1) v by (simp add: tok_def tbind_def t_object_def treturn_def)
  qed
qed

lemma tok_assign_slot:
  assumes inv: "tree_inv {} s" and sl: "slot_ok s sl" and live: "val_live s v"
    and name: "map_of (te_names s) x = Some a"
    and Q: "\<And>s'. tree_inv {} s' \<Longrightarrow> keeps s s' \<Longrightarrow> val_live s' v \<Longrightarrow> Q () s'"
  shows "tok (assign_slot sl a v) s Q"
proof (cases sl)
  case GlobalSlot
  then show ?thesis using inv_global [OF inv live name_live [OF inv name]] live
    by (simp add: assign_slot_def, intro Q) (simp_all add: keeps_def val_live_def)
next
  case (LocalSlot e)
  then obtain vars enc where e: "obj_at (te_heap s) e = Some (OEnvironment vars enc)"
    using sl by (auto simp: slot_ok_def)
  have "tok (set_var e a v) s Q"
  proof (rule tok_set_var [OF inv e live name_live [OF inv name]])
    fix s' assume s': "tree_inv {} s'" "keeps s s'"
      and h: "te_heap s' = set_obj e (OEnvironment (AList.update a v vars) enc) (te_heap s)"
    have "val_live s' v" using live by (auto simp: val_live_def h heap_simps)
    then show "Q () s'" using Q s' by blast
  qed
  then show ?thesis by (simp add: assign_slot_def LocalSlot)
qed

subsection \<open>Expressions\<close>

lemma tok_literal: "tree_inv {} s \<Longrightarrow> tok (eval_literal sz l) s (vpost s)"
proof (cases l)
  case (LitString t)
  assume inv: "tree_inv {} s"
  show ?thesis unfolding LitString eval_literal_def literal.case tok_simps
    by (rule tok_intern [OF inv]) (simp add: vpost_def val_live_def value_addrs_def)
qed (simp_all add: eval_literal_def vpost_def)

lemma tok_variable:
  assumes "at s senv env" "scoped_use senv x b"
  shows "tok (eval_variable sz x b line env) s (vpost s)"
  unfolding eval_variable_def tok_simps
proof (rule tok_name_of [OF at_inv [OF assms(1)]])
  fix a s1
  assume 1: "tree_inv {} s1" "keeps s s1" "map_of (te_names s1) (sv_text x) = Some a"
  have at1: "at s1 senv env" using at_keeps [OF assms(1)] 1 by blast
  show "tok (lookup env b a) s1 (\<lambda>found s'. tok (case found of
      None \<Rightarrow> t_fail line (undefined_variable_message (sv_text x)) | Some (sl, v) \<Rightarrow> treturn v) s' (vpost s))"
    by (rule tok_lookup [OF at1 assms(2) 1(3)]) (use 1 in \<open>simp_all add: tok_fail vpost_def\<close>)
qed

lemma tok_assign:
  assumes ev: "ev_ok ev" and at: "at s senv env" and e: "scoped_e senv e" and use: "scoped_use senv x b"
  shows "tok (eval_assign sz ev x e b line env) s (vpost s)"
  unfolding eval_assign_def tok_simps
proof (rule tok_name_of [OF at_inv [OF at]])
  fix a s1
  assume 1: "tree_inv {} s1" "keeps s s1" "map_of (te_names s1) (sv_text x) = Some a"
  have at1: "at s1 senv env" using at_keeps [OF at] 1 by blast
  show "tok (eval_then (ev e env) (\<lambda>v. tbind (lookup env b a) (\<lambda>found. case found of
      None \<Rightarrow> t_fail line (undefined_variable_message (sv_text x))
    | Some (sl, old) \<Rightarrow> tbind (assign_slot sl a v) (\<lambda>_. treturn v)))) s1 (vpost s)"
  proof (rule tok_ev_then [OF ev at1 e 1(2)])
    fix v s2
    assume 2: "vpost s1 v s2" "at s2 senv env" "keeps s s2"
    have n2: "map_of (te_names s2) (sv_text x) = Some a"
      using 1(3) 2(1) by (auto simp: vpost_def keeps_def names_grow_def)
    have l2: "val_live s2 v" and i2: "tree_inv {} s2" using 2(1) by (simp_all add: vpost_def)
    show "tok (tbind (lookup env b a) (\<lambda>found. case found of
        None \<Rightarrow> t_fail line (undefined_variable_message (sv_text x))
      | Some (sl, old) \<Rightarrow> tbind (assign_slot sl a v) (\<lambda>_. treturn v))) s2 (vpost s)"
      unfolding tok_simps
    proof (rule tok_lookup [OF 2(2) use n2])
      show "tok (case None of None \<Rightarrow> t_fail line (undefined_variable_message (sv_text x))
          | Some (sl, old) \<Rightarrow> tbind (assign_slot sl a v) (\<lambda>_. treturn v)) s2 (vpost s)"
        using i2 2(3) by (simp add: tok_fail)
    next
      fix sl old assume sl: "slot_ok s2 sl"
      show "tok (case Some (sl, old) of None \<Rightarrow> t_fail line (undefined_variable_message (sv_text x))
          | Some (sl, old) \<Rightarrow> tbind (assign_slot sl a v) (\<lambda>_. treturn v)) s2 (vpost s)"
        unfolding option.case prod.case tok_simps
        by (rule tok_assign_slot [OF i2 sl l2 n2])
          (use 2(3) in \<open>auto simp: vpost_def intro: keeps_trans\<close>)
    qed
  qed
qed


lemma tok_unary: "ev_ok ev \<Longrightarrow> at s senv env \<Longrightarrow> scoped_e senv e \<Longrightarrow> tok (eval_unary ev op e line env) s (vpost s)"
  unfolding eval_unary_def
  by (rule tok_ev_then)
    (auto simp: op_not_def op_negate_def vpost_def split: unary_op.splits gvalue.splits intro!: tok_result)

lemma binary_op_live: "binary_op_value op a b = Inr v \<Longrightarrow> val_live s v"
  by (auto simp: binary_op_value_def op_sub_def op_mul_def op_div_def op_mod_def op_less_def
      op_less_equal_def op_greater_def op_greater_equal_def numeric_binary_def numeric_compare_def Let_def
      split: binary_op.splits if_splits)

lemma tok_add:
  assumes inv: "tree_inv {} s"
    and Q: "\<And>r s'. tree_inv {} s' \<Longrightarrow> keeps s s' \<Longrightarrow> (\<And>v. r = Inr v \<Longrightarrow> val_live s' v) \<Longrightarrow> Q r s'"
  shows "tok (t_add sz a b) s Q"
proof (cases "string_of (te_heap s) a \<noteq> None \<and> string_of (te_heap s) b \<noteq> None")
  case True
  then obtain x y where xy: "string_of (te_heap s) a = Some x" "string_of (te_heap s) b = Some y" by auto
  then have e: "tok (t_add sz a b) s Q = tok (t_intern sz (x @ y)) s (\<lambda>c. Q (Inr (VObj c)))"
    by (simp add: tok_def t_add_def t_intern_def op_add_def split: prod.splits)
  show ?thesis unfolding e
    by (rule tok_intern [OF inv], rule Q) (auto simp: val_live_def value_addrs_def)
next
  case False
  then have "snd (op_add sz (tree_roots s) a b (te_heap s)) = te_heap s"
    and "\<And>v. fst (op_add sz (tree_roots s) a b (te_heap s)) = Inr v \<Longrightarrow> val_live s v"
    by (auto simp: op_add_def split: option.splits if_splits)
  then show ?thesis
    using Q [of s "fst (op_add sz (tree_roots s) a b (te_heap s))"] inv
    by (simp add: tok_def t_add_def case_prod_beta)
qed

lemma tok_binary:
  assumes ev: "ev_ok ev" and at: "at s senv env" and e: "scoped_e senv l" "scoped_e senv r"
  shows "tok (eval_binary sz ev op l r line env) s (vpost s)"
  unfolding eval_binary_def
proof (rule tok_ev_then [OF ev at e(1) keeps_refl], rule tok_with_temp)
  fix a s1
  assume 1: "vpost s a s1" "at s1 senv env" "keeps s s1"
  then show "keeps s s1" by blast
  let ?s1 = "s1\<lparr>te_heap := push_temp a (te_heap s1)\<rparr>"
  have at1: "at ?s1 senv env" using at_push_temp [OF 1(2)] 1(1) by (simp add: vpost_def)
  show "tok (eval_then (ev r env) (\<lambda>b. with_temp b (if op = BAdd then tbind (t_add sz a b) (t_result line)
      else t_result line (binary_op_value op a b)))) ?s1 (vpost ?s1)"
  proof (rule tok_ev_then [OF ev at1 e(2) keeps_refl], rule tok_with_temp)
    fix b s2
    assume 2: "vpost ?s1 b s2" "at s2 senv env" "keeps ?s1 s2"
    then show "keeps ?s1 s2" by blast
    let ?s2 = "s2\<lparr>te_heap := push_temp b (te_heap s2)\<rparr>"
    have "at ?s2 senv env" using at_push_temp [OF 2(2)] 2(1) by (simp add: vpost_def)
    then have i: "tree_inv {} ?s2" by (rule at_inv)
    show "tok (if op = BAdd then tbind (t_add sz a b) (t_result line) else t_result line (binary_op_value op a b))
        ?s2 (vpost ?s2)"
    proof (cases "op = BAdd")
      case True
      show ?thesis unfolding True if_P [OF refl] tok_simps
        by (rule tok_add [OF i]) (auto intro: tok_result)
    qed (auto intro: tok_result [OF i] binary_op_live)
  qed
qed

lemma tok_logical:
  assumes "ev_ok ev" "at s senv env" "scoped_e senv l" "scoped_e senv r"
  shows "tok (eval_logical ev op l r env) s (vpost s)"
  unfolding eval_logical_def
proof (rule tok_ev_then [OF assms(1,2,3) keeps_refl])
  fix v s1
  assume 1: "vpost s v s1" "at s1 senv env" "keeps s s1"
  have "tok (ev r env) s1 (vpost s)"
    by (rule tok_ev [OF assms(1) 1(2) assms(4)]) (rule vpost_trans [OF 1(3)])
  then show "tok (if (if op = LAnd then \<not> is_truthy v else is_truthy v) then treturn v else ev r env) s1 (vpost s)"
    using 1(1) by simp
qed

subsection \<open>The value stack\<close>

text \<open>The state \<open>s1\<close> is \<open>s\<close> with the values \<open>vs\<close> pushed, up to what an action may change.\<close>

definition above :: "tree_state \<Rightarrow> tree_state \<Rightarrow> value list \<Rightarrow> bool" where
  "above s s1 vs \<longleftrightarrow> te_stack s1 = te_stack s @ vs \<and> keeps s (s1\<lparr>te_stack := te_stack s\<rparr>)"

lemma above_refl: "above s s []"
  by (simp add: above_def keeps_def)

lemma above_at: "at s senv env \<Longrightarrow> above s s1 vs \<Longrightarrow> tree_inv {} s1 \<Longrightarrow> at s1 senv env"
  by (simp add: at_def above_def keeps_def)

lemma above_keeps: "above s s1 vs \<Longrightarrow> keeps s1 s2 \<Longrightarrow> above s s2 vs"
  unfolding above_def keeps_def by (auto intro: names_grow_trans)

lemma above_push: "above s s1 vs \<Longrightarrow> above s (s1\<lparr>te_stack := te_stack s1 @ [v]\<rparr>) (vs @ [v])"
  by (simp add: above_def keeps_def)

lemma tok_push_all:
  assumes ev: "ev_ok ev" and at: "at s senv env" and es: "scoped_es senv es"
    and s1: "tree_inv {} s1" "above s s1 vs"
    and fail: "\<And>s2 ws. tree_inv {} s2 \<Longrightarrow> above s s2 ws \<Longrightarrow> Q VNil s2"
    and k: "\<And>s2 ws. tree_inv {} s2 \<Longrightarrow> above s s2 (vs @ ws) \<Longrightarrow> length ws = length es \<Longrightarrow> tok k s2 Q"
  shows "tok (push_all ev es env k) s1 Q"
  using es s1 k
proof (induction es arbitrary: s1 vs)
  case Nil
  then show ?case using Nil.prems(4) [of s1 "[]"] by simp
next
  case (Cons e es)
  have at1: "at s1 senv env" using above_at [OF at Cons.prems(3,2)] .
  have e: "scoped_e senv e" "scoped_es senv es" using Cons.prems(1) by simp_all
  show ?case
    unfolding push_all.simps
  proof (rule tok_eval_then, rule tok_ev [OF ev at1 e(1)], intro conjI impI)
    fix v s2
    assume 2: "vpost s1 v s2"
    then have a2: "above s s2 vs" using above_keeps [OF Cons.prems(3)] by (simp add: vpost_def)
    have i2: "tree_inv {} s2" "val_live s2 v" using 2 by (simp_all add: vpost_def)
    show "Q VNil s2" using fail i2(1) a2 by blast
    show "tok (tbind (tmod (\<lambda>s. s\<lparr>te_stack := te_stack s @ [v]\<rparr>)) (\<lambda>_. push_all ev es env k)) s2 Q"
      unfolding tok_simps
    proof (rule Cons.IH [OF e(2)])
      show "tree_inv {} (s2\<lparr>te_stack := te_stack s2 @ [v]\<rparr>)" using inv_push_stack i2 by blast
      show "above s (s2\<lparr>te_stack := te_stack s2 @ [v]\<rparr>) (vs @ [v])" using above_push [OF a2] .
      fix s3 ws
      assume "tree_inv {} s3" "above s s3 ((vs @ [v]) @ ws)" "length ws = length es"
      then show "tok k s3 Q" using Cons.prems(4) [of s3 "v # ws"] by simp
    qed
  qed
qed

lemma tok_with_region:
  assumes "tok (body (length (te_stack s))) s (\<lambda>v s2. tree_inv {} s2 \<and> val_live s2 v \<and> (\<exists>vs. above s s2 vs))"
  shows "tok (with_region body) s (vpost s)"
  unfolding with_region_def tok_simps
proof (rule tok_mono [OF assms])
  fix v s2
  assume 2: "tree_inv {} s2 \<and> val_live s2 v \<and> (\<exists>vs. above s s2 vs)"
  then obtain vs where "above s s2 vs" by blast
  then have "keeps s (s2\<lparr>te_stack := take (length (te_stack s)) (te_stack s2)\<rparr>)" by (simp add: above_def)
  then show "vpost s v (s2\<lparr>te_stack := take (length (te_stack s)) (te_stack s2)\<rparr>)"
    using 2 by (simp add: vpost_def inv_take_stack) (simp add: val_live_def)
qed

lemma tok_array:
  assumes ev: "ev_ok ev" and at: "at s senv env" and es: "scoped_es senv es"
  shows "tok (eval_array sz ev es env) s (vpost s)"
  unfolding eval_array_def
proof (rule tok_with_region, rule tok_push_all [OF ev at es at_inv [OF at] above_refl])
  fix s2 ws
  assume 2: "tree_inv {} s2" "above s s2 ([] @ ws)"
  let ?copy = "drop (length (te_stack s)) (te_stack s2)"
  have "\<forall>b\<in>set (trace (OArray ?copy)). b \<in> root_set s2"
    using root_setI(2) [of _ s2] by (auto dest!: in_set_dropD)
  then have "\<forall>b\<in>set (trace (OArray ?copy)). reach (te_heap s2) (root_set s2) b"
    using live_reach [OF 2(1)] by blast
  then have "tok (t_allocate sz (OArray ?copy)) s2
      (\<lambda>a s3. tree_inv {} s3 \<and> val_live s3 (VObj a) \<and> (\<exists>vs. above s s3 vs))"
    by (intro tok_allocate [OF 2(1)])
      (auto simp: is_string_def val_live_def value_addrs_def intro: above_keeps [OF 2(2)])
  then show "tok (tbind (tget (\<lambda>s2. drop (length (te_stack s)) (te_stack s2))) (\<lambda>copy.
      tbind (t_allocate sz (OArray copy)) (\<lambda>a. treturn (VObj a)))) s2
      (\<lambda>v s2. tree_inv {} s2 \<and> val_live s2 v \<and> (\<exists>vs. above s s2 vs))"
    by simp
qed auto


lemma array_get_live:
  assumes "tree_inv X s" "array_get (te_heap s) array index = Inr v"
  shows "val_live s v"
proof -
  obtain n where "resolve_index (te_heap s) array index = Inr n"
    using assms(2) by (auto simp: array_get_def sbind_eq_Inr)
  moreover from this obtain a vs where a: "array_of (te_heap s) array = Some (a, vs)" "n < length vs"
    by (auto simp: resolve_index_Inr)
  ultimately have "v = vs ! n" using assms(2) by (simp add: array_get_def)
  then have "v \<in> set vs" using a(2) by simp
  then have "set (value_addrs v) \<subseteq> set (trace (OArray vs))" by auto
  moreover have "obj_at (te_heap s) a = Some (OArray vs)" using a(1) by (auto elim: array_ofE)
  ultimately show ?thesis
    using inv_sane [OF assms(1)] unfolding sane_def no_dangling_def val_live_def by blast
qed

lemma tok_index:
  assumes ev: "ev_ok ev" and at: "at s senv env" and e: "scoped_e senv a" "scoped_e senv i"
  shows "tok (eval_index ev a i line env) s (vpost s)"
  unfolding eval_index_def
proof (rule tok_ev_then [OF ev at e(1) keeps_refl], rule tok_with_temp)
  fix v s1
  assume 1: "vpost s v s1" "at s1 senv env" "keeps s s1"
  then show "keeps s s1" by blast
  let ?s1 = "s1\<lparr>te_heap := push_temp v (te_heap s1)\<rparr>"
  have at1: "at ?s1 senv env" using at_push_temp [OF 1(2)] 1(1) by (simp add: vpost_def)
  show "tok (eval_then (ev i env) (\<lambda>index. tbind (tget (\<lambda>s. array_get (te_heap s) v index)) (t_result line)))
      ?s1 (vpost ?s1)"
  proof (rule tok_ev_then [OF ev at1 e(2) keeps_refl], unfold tok_simps, rule tok_result)
    fix w s2 x
    assume 2: "vpost ?s1 w s2" "at s2 senv env" "keeps ?s1 s2"
    then show "tree_inv {} s2" "keeps ?s1 s2" by (simp_all add: vpost_def)
    assume "array_get (te_heap s2) v w = Inr x"
    then show "val_live s2 x" using array_get_live [OF at_inv [OF 2(2)]] by blast
  qed
qed

lemma array_set_ok:
  assumes inv: "tree_inv {} s" and "val_live s v" and a: "array_set array index v (te_heap s) = Inr h"
  shows "tree_inv {} (s\<lparr>te_heap := h\<rparr>) \<and> keeps s (s\<lparr>te_heap := h\<rparr>) \<and> val_live (s\<lparr>te_heap := h\<rparr>) v"
proof -
  obtain n where r: "resolve_index (te_heap s) array index = Inr n"
    using a by (auto simp: array_set_def sbind_eq_Inr)
  then obtain b vs where b: "array_of (te_heap s) array = Some (b, vs)" "n < length vs"
    by (auto simp: resolve_index_Inr)
  then have o: "obj_at (te_heap s) b = Some (OArray vs)" by (auto elim: array_ofE)
  have h: "h = set_obj b (OArray (vs[n := v])) (te_heap s)" using a r b by (simp add: array_set_def)
  have "set (vs[n := v]) \<subseteq> insert v (set vs)" by (rule set_update_subset_insert)
  moreover have "\<forall>c\<in>set (trace (OArray vs)). obj_at (te_heap s) c \<noteq> None"
    using inv_sane [OF inv] o unfolding sane_def no_dangling_def by blast
  ultimately have "\<forall>c\<in>set (trace (OArray (vs[n := v]))). obj_at (te_heap s) c \<noteq> None"
    using assms(2) unfolding val_live_def by fastforce
  moreover have "envs_grow (te_heap s) (set_obj b (OArray (vs[n := v])) (te_heap s)) b"
    using o by (simp add: envs_grow_def)
  ultimately have "tree_inv {} (s\<lparr>te_heap := h\<rparr>) \<and> keeps s (s\<lparr>te_heap := h\<rparr>)"
    unfolding h by (intro inv_set_obj [OF inv o]) (simp_all add: is_string_def is_callable_def)
  moreover have "val_live (s\<lparr>te_heap := h\<rparr>) v"
    using assms(2) o by (auto simp: val_live_def h heap_simps)
  ultimately show ?thesis by blast
qed

lemma tok_index_assign:
  assumes ev: "ev_ok ev" and at: "at s senv env" and e: "scoped_e senv a" "scoped_e senv i" "scoped_e senv x"
  shows "tok (eval_index_assign ev a i x line env) s (vpost s)"
  unfolding eval_index_assign_def
proof (rule tok_ev_then [OF ev at e(1) keeps_refl], rule tok_with_temp)
  fix v s1
  assume 1: "vpost s v s1" "at s1 senv env" "keeps s s1"
  then show "keeps s s1" by blast
  let ?s1 = "s1\<lparr>te_heap := push_temp v (te_heap s1)\<rparr>"
  have at1: "at ?s1 senv env" using at_push_temp [OF 1(2)] 1(1) by (simp add: vpost_def)
  show "tok (eval_then (ev i env) (\<lambda>index. with_temp index (eval_then (ev x env) (\<lambda>w.
      tbind (tget (\<lambda>s. array_set v index w (te_heap s))) (\<lambda>r. case r of
        Inl message \<Rightarrow> t_fail line message
      | Inr h \<Rightarrow> tbind (tmod (\<lambda>s. s\<lparr>te_heap := h\<rparr>)) (\<lambda>_. treturn w)))))) ?s1 (vpost ?s1)"
  proof (rule tok_ev_then [OF ev at1 e(2) keeps_refl], rule tok_with_temp)
    fix u s2
    assume 2: "vpost ?s1 u s2" "at s2 senv env" "keeps ?s1 s2"
    then show "keeps ?s1 s2" by blast
    let ?s2 = "s2\<lparr>te_heap := push_temp u (te_heap s2)\<rparr>"
    have at2: "at ?s2 senv env" using at_push_temp [OF 2(2)] 2(1) by (simp add: vpost_def)
    show "tok (eval_then (ev x env) (\<lambda>w. tbind (tget (\<lambda>s. array_set v u w (te_heap s))) (\<lambda>r. case r of
        Inl message \<Rightarrow> t_fail line message
      | Inr h \<Rightarrow> tbind (tmod (\<lambda>s. s\<lparr>te_heap := h\<rparr>)) (\<lambda>_. treturn w)))) ?s2 (vpost ?s2)"
    proof (rule tok_ev_then [OF ev at2 e(3) keeps_refl], unfold tok_simps)
      fix w s3
      assume 3: "vpost ?s2 w s3" "at s3 senv env" "keeps ?s2 s3"
      then have i3: "tree_inv {} s3" "val_live s3 w" by (simp_all add: vpost_def)
      show "tok (case array_set v u w (te_heap s3) of Inl message \<Rightarrow> t_fail line message
          | Inr h \<Rightarrow> tbind (tmod (\<lambda>s. s\<lparr>te_heap := h\<rparr>)) (\<lambda>_. treturn w)) s3 (vpost ?s2)"
      proof (cases "array_set v u w (te_heap s3)")
        case (Inl m)
        then show ?thesis using tok_fail [OF i3(1) 3(3)] by simp
      next
        case (Inr h)
        then show ?thesis
          using array_set_ok [OF i3 Inr] keeps_trans [OF 3(3)] by (simp add: vpost_def)
      qed
    qed
  qed
qed

subsection \<open>Calls\<close>

lemma tok_ex:
  "ex_ok ex \<Longrightarrow> at s senv env \<Longrightarrow> scoped_s d senv st \<Longrightarrow> plain_s st \<Longrightarrow>
   tok (ex st env) s (fpost (after st senv) env s)"
  unfolding ex_ok_def by blast

lemma tok_bind_params:
  assumes "tree_inv {} s" "scope \<in> set (te_active s)" "i + length ps \<le> length (te_stack s)"
    "env_ok (te_heap s) (te_names s) ((d, xs) # senv) (Some scope)" "keeps r s"
    "\<And>s'. tree_inv {} s' \<Longrightarrow> keeps r s' \<Longrightarrow>
      env_ok (te_heap s') (te_names s') ((d, params_scope ps @ xs) # senv) (Some scope) \<Longrightarrow> Q () s'"
  shows "tok (bind_params sz scope i ps) s Q"
  using assms
proof (induction ps arbitrary: s i xs)
  case Nil
  then show ?case by (simp add: params_scope_def)
next
  case (Cons p ps)
  note prems = Cons.prems
  show ?case
    unfolding bind_params.simps tok_simps
  proof (rule tok_name_of [OF prems(1)])
    fix a s1
    assume 1: "tree_inv {} s1" "keeps s s1" "map_of (te_names s1) (sv_text p) = Some a"
    have st: "te_stack s1 = te_stack s" "te_active s1 = te_active s" using 1(2) by (simp_all add: keeps_def)
    then have i: "i < length (te_stack s1)" using prems(3) by simp
    have "set (opt_addrs (Some scope)) \<subseteq> set (te_active s)" using prems(2) by (simp add: opt_addrs_def)
    then have env1: "env_ok (te_heap s1) (te_names s1) ((d, xs) # senv) (Some scope)"
      using 1(2) prems(4) unfolding keeps_def by blast
    have live: "val_live s1 (te_stack s1 ! i)" by (rule stack_live [OF 1(1)]) (use i in simp)
    have "tok (define_var (Some scope) a (te_stack s1 ! i)) s1
        (\<lambda>_ s2. tok (bind_params sz scope (i + 1) ps) s2 Q)"
    proof (rule tok_define [OF 1(1) env1 1(3) live])
      fix s2
      assume 2: "tree_inv {} s2" "keeps s1 s2"
        "env_ok (te_heap s2) (te_names s2) (add_name p True ((d, xs) # senv)) (Some scope)"
      have k: "keeps s s2" using keeps_trans [OF 1(2) 2(2)] .
      show "tok (bind_params sz scope (i + 1) ps) s2 Q"
      proof (rule Cons.IH [OF 2(1)])
        show "scope \<in> set (te_active s2)" "i + 1 + length ps \<le> length (te_stack s2)"
          using k prems(2,3) by (simp_all add: keeps_def)
        show "env_ok (te_heap s2) (te_names s2) ((d, (sv_text p, True) # xs) # senv) (Some scope)"
          using 2(3) by (simp add: add_name_def)
        show "keeps r s2" using keeps_trans [OF prems(5) k] .
        fix s'
        assume "tree_inv {} s'" "keeps r s'"
          "env_ok (te_heap s') (te_names s') ((d, params_scope ps @ (sv_text p, True) # xs) # senv) (Some scope)"
        then show "Q () s'" by (intro prems(6)) (simp_all add: params_scope_def)
      qed
    qed
    then show "tok (if i < length (te_stack s1) then tbind (set_var scope a (te_stack s1 ! i))
        (\<lambda>_. bind_params sz scope (i + 1) ps) else tfault) s1 Q"
      using i by (simp add: define_var_def)
  qed
qed

lemma tok_call_body:
  assumes ex: "ex_ok ex"
  shows "at s senv env \<Longrightarrow> scoped_ss d senv sts \<Longrightarrow> plain_ss sts \<Longrightarrow> keeps r s \<Longrightarrow>
    tok (call_body ex sts env) s (vpost r)"
proof (induction sts arbitrary: s senv)
  case Nil
  then show ?case by (simp add: vpost_nil at_inv)
next
  case (Cons st sts)
  have "tok (ex st env) s (fpost (after st senv) env s)" using Cons.prems by (intro tok_ex [OF ex, where d = d]) simp_all
  then show ?case
    unfolding call_body.simps tok_simps
  proof (rule tok_mono)
    fix fl s1
    assume 1: "fpost (after st senv) env s fl s1"
    then have i: "tree_inv {} s1" "keeps r s1" using Cons.prems(4) keeps_trans by (auto simp: fpost_def)
    show "tok (case fl of FlowError \<Rightarrow> treturn VNil
        | FlowReturn \<Rightarrow> tbind (tget te_return_value) (\<lambda>result.
            tbind (tmod (\<lambda>s. s\<lparr>te_return_value := VNil\<rparr>)) (\<lambda>_. treturn result))
        | FlowNormal \<Rightarrow> call_body ex sts env) s1 (vpost r)"
    proof (cases fl)
      case FlowNormal
      have "at s1 (after st senv) env"
        using 1 Cons.prems(1) FlowNormal by (simp add: fpost_def at_def keeps_def)
      then show ?thesis using Cons.IH [of s1 "after st senv"] Cons.prems(2,3) i FlowNormal by simp
    next
      case FlowReturn
      have "val_live s1 (te_return_value s1)"
        using root_setI(5) [of s1] i(1) by (auto simp: tree_inv_def val_live_def)
      then show ?thesis
        using FlowReturn i inv_return [OF i(1), of VNil]
        by (simp add: vpost_def) (simp add: keeps_def val_live_def)
    qed (use i in \<open>simp add: vpost_nil\<close>)
  qed
qed

lemma keeps_active:
  "keeps (s\<lparr>te_active := te_active s @ [a]\<rparr>) s' \<Longrightarrow> keeps s (s'\<lparr>te_active := butlast (te_active s')\<rparr>)"
  by (auto simp: keeps_def)

lemma tok_with_active:
  assumes "keeps r s" "tok body (s\<lparr>te_active := te_active s @ [a]\<rparr>) (vpost (s\<lparr>te_active := te_active s @ [a]\<rparr>))"
  shows "tok (with_active a body) s (vpost r)"
  unfolding with_active_def tok_simps
proof (rule tok_mono [OF assms(2)])
  fix v s'
  assume v: "vpost (s\<lparr>te_active := te_active s @ [a]\<rparr>) v s'"
  then have "keeps r (s'\<lparr>te_active := butlast (te_active s')\<rparr>)"
    using keeps_trans [OF assms(1) keeps_active] unfolding vpost_def by blast
  with v show "vpost r v (s'\<lparr>te_active := butlast (te_active s')\<rparr>)"
    by (simp add: vpost_def inv_pop_active) (simp add: val_live_def)
qed

lemma tok_with_active_flow:
  assumes "keeps r s" "tok body (s\<lparr>te_active := te_active s @ [a]\<rparr>) (\<lambda>fl s'. tree_inv {} s' \<and> keeps (s\<lparr>te_active := te_active s @ [a]\<rparr>) s')"
  shows "tok (with_active a body) s (\<lambda>fl s'. tree_inv {} s' \<and> keeps r s')"
  unfolding with_active_def tok_simps
proof (rule tok_mono [OF assms(2)])
  fix v s'
  assume "tree_inv {} s' \<and> keeps (s\<lparr>te_active := te_active s @ [a]\<rparr>) s'"
  then show "tree_inv {} (s'\<lparr>te_active := butlast (te_active s')\<rparr>) \<and> keeps r (s'\<lparr>te_active := butlast (te_active s')\<rparr>)"
    using keeps_trans [OF assms(1) keeps_active] inv_pop_active by blast
qed

lemma tok_with_depth:
  assumes "keeps r s" "tok body (s\<lparr>te_depth := te_depth s + 1\<rparr>) (vpost (s\<lparr>te_depth := te_depth s + 1\<rparr>))"
  shows "tok (with_depth body) s (vpost r)"
  unfolding with_depth_def tok_simps
proof (rule tok_mono [OF assms(2)])
  fix v s'
  assume v: "vpost (s\<lparr>te_depth := te_depth s + 1\<rparr>) v s'"
  then have "keeps s (s'\<lparr>te_depth := te_depth s' - 1\<rparr>)" by (simp add: vpost_def keeps_def)
  then show "vpost r v (s'\<lparr>te_depth := te_depth s' - 1\<rparr>)"
    using v keeps_trans [OF assms(1)] inv_set_depth [of "{}" s' "te_depth s' - 1"] inv_depth [of "{}" s']
    by (simp add: vpost_def) (simp add: val_live_def)
qed


lemma tok_call_function:
  assumes ex: "ex_ok ex" and inv: "tree_inv {} s"
    and fn: "obj_at (te_heap s) fn = Some (OTreeFunction name decl closure)"
      "VObj fn \<in> set (hp_temp_roots (te_heap s))"
    and args: "length (te_stack s) = base + argc"
  shows "tok (call_function sz ex fn decl closure base argc line) s (vpost s)"
proof (cases "length (fd_params decl) \<noteq> argc \<or> kMaxCallDepth \<le> te_depth s")
  case True
  then show ?thesis using tok_fail [OF inv keeps_refl] by (auto simp: call_function_def)
next
  case False
  obtain senv d where f: "env_ok (te_heap s) (te_names s) senv closure"
    "scoped_ss (Suc d) ((Suc d, params_scope (fd_params decl)) # senv) (fd_body decl)" "plain_ss (fd_body decl)"
    using inv fn(1) unfolding tree_inv_def funs_ok_def fn_ok_def by blast
  have root: "fn \<in> root_set s" using root_setI(6) [OF fn(2)] by (auto simp: value_addrs_def)
  have "\<forall>b\<in>set (opt_addrs closure). reach (te_heap s) (root_set s) b"
  proof
    fix b assume b: "b \<in> set (opt_addrs closure)"
    then have t: "b \<in> set (trace (OTreeFunction name decl closure))" by simp
    then have "obj_at (te_heap s) b \<noteq> None"
      using inv_sane [OF inv] fn(1) unfolding sane_def no_dangling_def by blast
    then show "reach (te_heap s) (root_set s) b"
      using reach_step [OF live_reach [OF inv root] fn(1) t] by simp
  qed
  note closure = this
  have "tok (t_allocate sz (OEnvironment [] closure)) s (\<lambda>scope s1. tok (with_active fn (with_active scope (
      tbind (bind_params sz scope base (fd_params decl)) (\<lambda>_.
      with_depth (call_body ex (fd_body decl) (Some scope)))))) s1 (vpost s))"
  proof (rule tok_allocate [OF inv])
    show "\<forall>b\<in>set (trace (OEnvironment [] closure)). reach (te_heap s) (root_set s) b" using closure by simp
    fix scope s1
    assume "tree_inv (if \<exists>n d c. OEnvironment [] closure = OTreeFunction n d c then {scope} else {}) s1"
      and 1: "keeps s s1" "te_names s1 = te_names s" "obj_at (te_heap s1) scope = Some (OEnvironment [] closure)"
        "\<And>b. b \<in> root_set s \<Longrightarrow> obj_at (te_heap s1) b = obj_at (te_heap s) b"
        "retains (root_set s) (te_heap s) (te_heap s1)"
    then have i1: "tree_inv {} s1" by simp
    have "env_ok (te_heap s1) (te_names s1) senv closure"
      using env_ok_retained [OF 1(5) inv_sane [OF inv] f(1) closure] 1(2) by simp
    then have env1: "env_ok (te_heap s1) (te_names s1) ((Suc d, []) # senv) (Some scope)"
      using 1(3) by simp
    let ?s2 = "s1\<lparr>te_active := te_active s1 @ [fn]\<rparr>"
    let ?s3 = "?s2\<lparr>te_active := te_active ?s2 @ [scope]\<rparr>"
    have i2: "tree_inv {} ?s2" by (rule inv_push_active [OF i1]) (simp add: 1(4) [OF root] fn(1))
    have i3: "tree_inv {} ?s3" by (rule inv_push_active [OF i2]) (simp add: 1(3))
    have stack: "te_stack s1 = te_stack s" "te_depth s1 = te_depth s" using 1(1) by (simp_all add: keeps_def)
    have "tok (bind_params sz scope base (fd_params decl)) ?s3
        (\<lambda>_ s4. tok (with_depth (call_body ex (fd_body decl) (Some scope))) s4 (vpost ?s3))"
    proof (rule tok_bind_params [OF i3, where r = ?s3 and d = "Suc d" and xs = "[]" and senv = senv])
      show "base + length (fd_params decl) \<le> length (te_stack ?s3)" using False args stack by simp
      fix s4
      assume 4: "tree_inv {} s4" "keeps ?s3 s4"
        "env_ok (te_heap s4) (te_names s4) ((Suc d, params_scope (fd_params decl) @ []) # senv) (Some scope)"
      let ?s5 = "s4\<lparr>te_depth := te_depth s4 + 1\<rparr>"
      have "te_depth s4 = te_depth s" using 4(2) stack by (simp add: keeps_def)
      then have i5: "tree_inv {} ?s5" using inv_set_depth [OF 4(1)] False by simp
      have "scope \<in> set (te_active s4)" using 4(2) by (simp add: keeps_def)
      then have at5: "at ?s5 ((Suc d, params_scope (fd_params decl)) # senv) (Some scope)"
        using i5 4(3) by (simp add: at_def opt_addrs_def)
      show "tok (with_depth (call_body ex (fd_body decl) (Some scope))) s4 (vpost ?s3)"
        by (rule tok_with_depth [OF 4(2)], rule tok_call_body [OF ex at5 f(2,3) keeps_refl])
    qed (use env1 in simp_all)
    then show "tok (with_active fn (with_active scope (
        tbind (bind_params sz scope base (fd_params decl)) (\<lambda>_.
        with_depth (call_body ex (fd_body decl) (Some scope)))))) s1 (vpost s)"
      by (intro tok_with_active 1(1) keeps_refl) simp
  qed (simp_all add: is_string_def)
  then show ?thesis using False by (simp add: call_function_def)
qed


lemma tok_native:
  assumes inv: "tree_inv {} s" and args: "length (te_stack s) = base + native_arity f"
  shows "tok (call_native_fn sz clk f base line) s (vpost s)"
proof (cases f)
  case NativeClock
  have "tree_inv {} (s\<lparr>te_ticks := te_ticks s + 1\<rparr>)" using inv_ticks [OF inv] .
  then show ?thesis
    by (simp add: NativeClock call_native_fn_def call_native_def native_clock_def t_result_def tok_def treturn_def vpost_def)
      (simp add: keeps_def)
next
  case NativeLen
  have "tok (t_result line (native_len (te_heap s) (drop base (te_stack s)))) s (vpost s)"
    by (rule tok_result [OF inv keeps_refl])
      (auto simp: native_len_def Let_def split: option.splits)
  then show ?thesis by (simp add: NativeLen call_native_fn_def call_native_def tok_def)
next
  case NativeArray
  let ?args = "drop base (te_stack s)" and ?roots = "tree_roots s"
  let ?n = "?args ! 0" and ?fill = "?args ! 1"
  show ?thesis
  proof (cases "\<not> is_int ?n \<or> sint (as_int ?n) < 0")
    case True
    then show ?thesis using tok_fail [OF inv keeps_refl]
      by (simp add: NativeArray call_native_fn_def call_native_def native_array_def Let_def t_result_def tok_def)
  next
    case False
    let ?ob = "OArray (replicate (nat (sint (as_int ?n))) ?fill)"
    let ?s1 = "s\<lparr>te_heap := push_temp ?fill (te_heap s)\<rparr>"
    have "?fill \<in> set (te_stack s)" using args NativeArray
      by (auto simp: native_arity_def in_set_conv_nth intro!: exI [of _ "base + 1"])
    then have i1: "tree_inv {} ?s1" using inv_push_temp [OF inv] stack_live [OF inv] by blast
    have "set (value_addrs ?fill) \<subseteq> root_set ?s1" by (rule root_setI(6)) simp
    then have "\<forall>b\<in>set (trace ?ob). reach (te_heap ?s1) (root_set ?s1) b"
      using live_reach [OF i1] by auto
    then have "tok (t_allocate sz ?ob) ?s1 (\<lambda>a s2. vpost s (VObj a) (s2\<lparr>te_heap := pop_temp (te_heap s2)\<rparr>))"
    proof (intro tok_allocate [OF i1])
      fix a s2
      assume "tree_inv (if \<exists>n d c. ?ob = OTreeFunction n d c then {a} else {}) s2" "keeps ?s1 s2"
        "obj_at (te_heap s2) a = Some ?ob"
      then show "vpost s (VObj a) (s2\<lparr>te_heap := pop_temp (te_heap s2)\<rparr>)"
        using keeps_temp [of ?fill s s2]
        by (simp add: vpost_def inv_pop_temp val_live_def value_addrs_def)
    qed (simp_all add: is_string_def)
    moreover have "tree_roots ?s1 = ?roots" by (simp add: tree_roots_def)
    ultimately show ?thesis using False
      by (simp add: NativeArray call_native_fn_def call_native_def native_array_def Let_def t_result_def
          tok_def t_allocate_def treturn_def split: prod.splits)
  qed
qed

lemma tok_call_value:
  assumes ex: "ex_ok ex" and inv: "tree_inv {} s" and temp: "callee \<in> set (hp_temp_roots (te_heap s))"
    and args: "length (te_stack s) = base + argc"
  shows "tok (call_value sz clk ex callee base argc line) s (vpost s)"
proof (cases callee)
  case (VObj fn)
  then obtain ob where ob: "obj_at (te_heap s) fn = Some ob"
    using temp_live [OF inv temp] by (auto simp: val_live_def value_addrs_def)
  have e: "tok (tbind (t_object fn) k) s Q = tok (k ob) s Q" for k :: "obj \<Rightarrow> value tm" and Q
    using ob by (simp add: tok_def tbind_def t_object_def)
  have fail: "tok (t_fail line m) s (vpost s)" for m by (rule tok_fail [OF inv keeps_refl])
  show ?thesis
    unfolding call_value_def VObj gvalue.case e
  proof (cases ob)
    case (ONative n k f)
    then have "k = native_arity f" using inv ob by (auto simp: tree_inv_def natives_ok_def)
    then show "tok (case ob of OTreeFunction name decl closure \<Rightarrow> call_function sz ex fn decl closure base argc line
        | ONative name arity f \<Rightarrow> if arity \<noteq> argc then t_fail line (arity_error_message arity argc)
            else call_native_fn sz clk f base line
        | _ \<Rightarrow> t_fail line kErrNotCallable) s (vpost s)"
      using ONative fail tok_native [OF inv] args by simp
  next
    case (OTreeFunction n d c)
    then show "tok (case ob of OTreeFunction name decl closure \<Rightarrow> call_function sz ex fn decl closure base argc line
        | ONative name arity f \<Rightarrow> if arity \<noteq> argc then t_fail line (arity_error_message arity argc)
            else call_native_fn sz clk f base line
        | _ \<Rightarrow> t_fail line kErrNotCallable) s (vpost s)"
      using tok_call_function [OF ex inv _ _ args, of fn n d c] ob temp VObj by simp
  qed (simp_all add: fail)
qed (simp_all add: call_value_def tok_fail [OF inv keeps_refl])

lemma tok_call:
  assumes ev: "ev_ok ev" and ex: "ex_ok ex" and at: "at s senv env"
    and e: "scoped_e senv f" "scoped_es senv args"
  shows "tok (eval_call sz clk ev ex f args line env) s (vpost s)"
  unfolding eval_call_def
proof (rule tok_ev_then [OF ev at e(1) keeps_refl], rule tok_with_temp, assumption)
  fix v s1
  assume 1: "vpost s v s1" "at s1 senv env" "keeps s s1"
  let ?s1 = "s1\<lparr>te_heap := push_temp v (te_heap s1)\<rparr>"
  have at1: "at ?s1 senv env" using at_push_temp [OF 1(2)] 1(1) by (simp add: vpost_def)
  show "tok (with_region (\<lambda>base. push_all ev args env (call_value sz clk ex v base (length args) line))) ?s1 (vpost ?s1)"
  proof (rule tok_with_region, rule tok_push_all [OF ev at1 e(2) at_inv [OF at1] above_refl])
    fix s2 ws
    assume 2: "tree_inv {} s2" "above ?s1 s2 ([] @ ws)" "length ws = length args"
    have "hp_temp_roots (te_heap s2) = hp_temp_roots (te_heap ?s1)" "te_stack s2 = te_stack ?s1 @ ws"
      using 2(2) by (simp_all add: above_def keeps_def)
    then have "tok (call_value sz clk ex v (length (te_stack ?s1)) (length args) line) s2 (vpost s2)"
      using 2(3) by (intro tok_call_value [OF ex 2(1)]) simp_all
    then show "tok (call_value sz clk ex v (length (te_stack ?s1)) (length args) line) s2
        (\<lambda>v s2. tree_inv {} s2 \<and> val_live s2 v \<and> (\<exists>vs. above ?s1 s2 vs))"
      by (rule tok_mono) (use above_keeps [OF 2(2)] in \<open>auto simp: vpost_def\<close>)
  qed auto
qed

lemma eval_node_ok: "ev_ok ev \<Longrightarrow> ex_ok ex \<Longrightarrow> ev_ok (eval_node sz clk ev ex)"
  unfolding ev_ok_def [of "eval_node sz clk ev ex"]
proof (intro allI impI)
  fix e env s senv
  assume "ev_ok ev" "ex_ok ex" "at s senv env" "scoped_e senv e"
  then show "tok (eval_node sz clk ev ex e env) s (vpost s)"
    by (cases e) (simp_all add: eval_node_def tok_literal at_inv tok_variable tok_assign tok_unary tok_binary
        tok_logical tok_call tok_array tok_index tok_index_assign)
qed

subsection \<open>Statements\<close>

lemma fpost_normal: "at s senv env \<Longrightarrow> tree_inv {} s' \<Longrightarrow> keeps s s' \<Longrightarrow> fpost senv env s fl s'"
  using at_keeps [of s senv env s'] by (simp add: fpost_def at_def)

lemma tok_opt_exec:
  assumes "ev_ok ev" "at s senv env" "scoped_opt senv eo" "keeps r s"
    "\<And>v s'. vpost s v s' \<Longrightarrow> at s' senv env \<Longrightarrow> keeps r s' \<Longrightarrow> tok (k v) s' (fpost senv' env r)"
  shows "tok (exec_then (eval_opt ev eo env) k) s (fpost senv' env r)"
proof (cases eo)
  case None
  have "vpost s VNil s" using at_inv [OF assms(2)] by (simp add: vpost_nil)
  then show ?thesis
    using assms(5) [OF _ assms(2,4)] assms(4) at_inv [OF assms(2)]
    by (intro tok_exec_then) (simp add: None eval_opt_def fpost_def)
next
  case (Some e)
  then show ?thesis
    using tok_ev_exec [OF assms(1,2) _ assms(4,5)] assms(3) by (simp add: eval_opt_def scoped_opt_def)
qed

lemma tok_print:
  assumes "ev_ok ev" "at s senv env" "scoped_e senv e"
  shows "tok (exec_print ev e env) s (fpost senv env s)"
  unfolding exec_print_def
proof (rule tok_ev_exec [OF assms keeps_refl])
  fix v s1
  assume 1: "vpost s v s1" "at s1 senv env" "keeps s s1"
  let ?s2 = "s1\<lparr>te_out := te_out s1 @ print_value (te_heap s1) v @ [newline]\<rparr>"
  have "tree_inv {} ?s2" using inv_out [OF at_inv [OF 1(2)]] .
  moreover have "keeps s ?s2" using 1(3) by (simp add: keeps_def)
  ultimately show "tok (tbind (tmod (\<lambda>s. s\<lparr>te_out := te_out s @ print_value (te_heap s) v @ [newline]\<rparr>))
      (\<lambda>_. treturn FlowNormal)) s1 (fpost senv env s)"
    by (simp add: fpost_normal [OF assms(2)])
qed

lemma tok_expr_stmt:
  assumes "ev_ok ev" "at s senv env" "scoped_e senv e"
  shows "tok (exec_expr ev e env) s (fpost senv env s)"
  unfolding exec_expr_def
  by (rule tok_ev_exec [OF assms keeps_refl]) (simp add: fpost_normal [OF assms(2)] vpost_def)

lemma tok_return_stmt:
  assumes "ev_ok ev" "at s senv env" "scoped_opt senv eo"
  shows "tok (exec_return ev eo env) s (fpost senv env s)"
  unfolding exec_return_def
proof (rule tok_opt_exec [OF assms keeps_refl])
  fix v s1
  assume 1: "vpost s v s1" "at s1 senv env" "keeps s s1"
  have "tree_inv {} (s1\<lparr>te_return_value := v\<rparr>)" using 1(1) by (intro inv_return) (simp_all add: vpost_def)
  moreover have "keeps s (s1\<lparr>te_return_value := v\<rparr>)" using 1(3) by (simp add: keeps_def)
  ultimately show "tok (tbind (tmod (\<lambda>s. s\<lparr>te_return_value := v\<rparr>)) (\<lambda>_. treturn FlowReturn)) s1 (fpost senv env s)"
    by (simp add: fpost_def)
qed

lemma tok_if:
  assumes ev: "ev_ok ev" and ex: "ex_ok ex" and at: "at s senv env" and c: "scoped_e senv c"
    and t: "scoped_s d senv t" "plain_s t" "\<not> is_decl t"
    and f: "\<And>e. eo = Some e \<Longrightarrow> scoped_s d senv e \<and> plain_s e \<and> \<not> is_decl e"
  shows "tok (exec_if ev ex c t eo env) s (fpost senv env s)"
  unfolding exec_if_def
proof (rule tok_ev_exec [OF ev at c keeps_refl])
  fix v s1
  assume 1: "vpost s v s1" "at s1 senv env" "keeps s s1"
  have b: "tok (ex b env) s1 (fpost senv env s)" if "scoped_s d senv b" "plain_s b" "\<not> is_decl b" for b
    using tok_ex [OF ex 1(2) that(1,2)] after_plain [OF that(2,3)] fpost_trans [OF 1(3)]
    by (simp add: tok_mono)
  show "tok (if is_truthy v then ex t env else case eo of Some e \<Rightarrow> ex e env | None \<Rightarrow> treturn FlowNormal) s1
      (fpost senv env s)"
    using b t f 1 fpost_normal [OF at at_inv [OF 1(2)]] by (cases eo) simp_all
qed

lemma tok_while:
  assumes ev: "ev_ok ev" and ex: "ex_ok ex" and at: "at s senv env" and st: "st = SWhile c body l"
    "scoped_s d senv st" "plain_s st"
  shows "tok (exec_while ev ex c body (ex st env) env) s (fpost senv env s)"
  unfolding exec_while_def
proof (rule tok_ev_exec [OF ev at _ keeps_refl])
  show "scoped_e senv c" using st by simp
  fix v s1
  assume 1: "vpost s v s1" "at s1 senv env" "keeps s s1"
  have b: "scoped_s d senv body" "plain_s body" "after body senv = senv"
    using st after_plain [of body senv] by simp_all
  have a: "after st senv = senv" using b(3) st(1) by simp
  have "tok (ex body env) s1 (\<lambda>flow s'. tok (if flow \<noteq> FlowNormal then treturn flow else ex st env) s' (fpost senv env s))"
  proof (rule tok_mono [OF tok_ex [OF ex 1(2) b(1,2), unfolded b(3)]])
    fix fl s2
    assume 2: "fpost senv env s1 fl s2"
    then have k: "keeps s s2" "at s2 senv env" using keeps_trans [OF 1(3)] at_keeps [OF 1(2)] by (simp_all add: fpost_def)
    have "tok (ex st env) s2 (fpost senv env s)"
      using tok_ex [OF ex k(2) st(2,3)] fpost_trans [OF k(1)] by (simp add: a tok_mono)
    then show "tok (if fl \<noteq> FlowNormal then treturn fl else ex st env) s2 (fpost senv env s)"
      using fpost_normal [OF at at_inv [OF k(2)] k(1)] by simp
  qed
  then show "tok (if \<not> is_truthy v then treturn FlowNormal
      else tbind (ex body env) (\<lambda>flow. if flow \<noteq> FlowNormal then treturn flow else ex st env)) s1 (fpost senv env s)"
    using fpost_normal [OF at at_inv [OF 1(2)] 1(3)] by simp
qed


lemma tok_let:
  assumes ev: "ev_ok ev" and at: "at s senv env" and init: "scoped_opt (add_name x False senv) eo"
  shows "tok (exec_let sz ev x eo env) s (fpost (add_name x True senv) env s)"
  unfolding exec_let_def tok_simps
proof (rule tok_name_of [OF at_inv [OF at]])
  fix a s1
  assume 1: "tree_inv {} s1" "keeps s s1" "map_of (te_names s1) (sv_text x) = Some a"
  have at1: "at s1 senv env" using at_keeps [OF at] 1 by blast
  then have at1': "at s1 (add_name x False senv) env" by (simp add: at_def env_ok_add_False)
  show "tok (exec_then (eval_opt ev eo env) (\<lambda>v. tbind (define_var env a v) (\<lambda>_. treturn FlowNormal))) s1
      (fpost (add_name x True senv) env s)"
  proof (rule tok_opt_exec [OF ev at1' init 1(2)])
    fix v s2
    assume 2: "vpost s1 v s2" "keeps s s2"
    have i2: "tree_inv {} s2" "val_live s2 v" using 2(1) by (simp_all add: vpost_def)
    have "map_of (te_names s2) (sv_text x) = Some a" "env_ok (te_heap s2) (te_names s2) senv env"
      using 1(3) 2(1) at1 by (simp_all add: vpost_def keeps_def names_grow_def at_def)
    then show "tok (tbind (define_var env a v) (\<lambda>_. treturn FlowNormal)) s2 (fpost (add_name x True senv) env s)"
      unfolding tok_simps using i2 keeps_trans [OF 2(2)]
      by (intro tok_define [OF i2(1)]) (simp_all add: fpost_def)
  qed
qed

lemma tok_exec_seq:
  assumes ex: "ex_ok ex"
  shows "at s senv env \<Longrightarrow> scoped_ss d senv sts \<Longrightarrow> plain_ss sts \<Longrightarrow> keeps r s \<Longrightarrow>
    tok (exec_seq ex sts env) s (\<lambda>fl s'. tree_inv {} s' \<and> keeps r s')"
proof (induction sts arbitrary: s senv)
  case Nil
  then show ?case by (simp add: at_inv)
next
  case (Cons st sts)
  have "tok (ex st env) s (fpost (after st senv) env s)"
    using Cons.prems by (intro tok_ex [OF ex, where d = d]) simp_all
  then show ?case
    unfolding exec_seq.simps tok_simps
  proof (rule tok_mono)
    fix fl s1
    assume 1: "fpost (after st senv) env s fl s1"
    then have i: "tree_inv {} s1" "keeps r s1" using Cons.prems(4) keeps_trans by (auto simp: fpost_def)
    show "tok (if fl \<noteq> FlowNormal then treturn fl else exec_seq ex sts env) s1 (\<lambda>fl s'. tree_inv {} s' \<and> keeps r s')"
    proof (cases "fl = FlowNormal")
      case True
      then have "at s1 (after st senv) env" using 1 Cons.prems(1) by (simp add: fpost_def at_def keeps_def)
      then show ?thesis using Cons.IH Cons.prems(2,3) i True by simp
    qed (use i in simp)
  qed
qed

lemma env_rooted: "at s senv env \<Longrightarrow> \<forall>b\<in>set (opt_addrs env). reach (te_heap s) (root_set s) b"
  using live_reach [OF at_inv] root_setI(1) unfolding at_def by blast

lemma tok_block:
  assumes ex: "ex_ok ex" and at: "at s senv env" and sts: "scoped_ss d ((d, []) # senv) sts" "plain_ss sts"
  shows "tok (exec_block sz ex sts env) s (fpost senv env s)"
  unfolding exec_block_def tok_simps
proof (rule tok_allocate [OF at_inv [OF at]])
  show "\<forall>b\<in>set (trace (OEnvironment [] env)). reach (te_heap s) (root_set s) b" using env_rooted [OF at] by simp
  fix scope s1
  assume "tree_inv (if \<exists>n d c. OEnvironment [] env = OTreeFunction n d c then {scope} else {}) s1"
    and 1: "keeps s s1" "obj_at (te_heap s1) scope = Some (OEnvironment [] env)"
  then have i1: "tree_inv {} s1" by simp
  have at1: "at s1 senv env" using at_keeps [OF at 1(1) i1] .
  let ?s2 = "s1\<lparr>te_active := te_active s1 @ [scope]\<rparr>"
  have "tree_inv {} ?s2" by (rule inv_push_active [OF i1]) (simp add: 1(2))
  then have at2: "at ?s2 ((d, []) # senv) (Some scope)" using at1 1(2) by (simp add: at_def opt_addrs_def)
  have "tok (with_active scope (exec_seq ex sts (Some scope))) s1 (\<lambda>fl s'. tree_inv {} s' \<and> keeps s s')"
    by (rule tok_with_active_flow [OF 1(1)], rule tok_exec_seq [OF ex at2 sts keeps_refl])
  then show "tok (with_active scope (exec_seq ex sts (Some scope))) s1 (fpost senv env s)"
    by (rule tok_mono) (use fpost_normal [OF at] in blast)
qed (simp_all add: is_string_def)

lemma tok_function:
  assumes at: "at s senv env"
    and fn: "distinct (map sv_text ps)" "scoped_ss (Suc d) ((Suc d, params_scope ps) # add_name f True senv) body" "plain_ss body"
  shows "tok (exec_function sz \<lparr>fd_name = f, fd_params = ps, fd_body = body\<rparr> env) s (fpost (add_name f True senv) env s)"
  unfolding exec_function_def tok_simps fn_decl.simps
proof (rule tok_name_of [OF at_inv [OF at]])
  let ?decl = "\<lparr>fd_name = f, fd_params = ps, fd_body = body\<rparr>"
  fix a s1
  assume 1: "tree_inv {} s1" "keeps s s1" "map_of (te_names s1) (sv_text f) = Some a"
  have at1: "at s1 senv env" using at_keeps [OF at] 1 by blast
  have a: "reach (te_heap s1) (root_set s1) a" using live_reach [OF 1(1)] root_setI(3) [OF 1(3)] by blast
  show "tok (t_allocate sz (OTreeFunction a ?decl env)) s1
      (\<lambda>fn s'. tok (define_var env a (VObj fn)) s' (\<lambda>_ s'. fpost (add_name f True senv) env s FlowNormal s'))"
  proof (rule tok_allocate [OF 1(1)])
    show "\<forall>b\<in>set (trace (OTreeFunction a ?decl env)). reach (te_heap s1) (root_set s1) b"
      using env_rooted [OF at1] a by simp
    fix fnc s2
    assume "tree_inv (if \<exists>n d c. OTreeFunction a ?decl env = OTreeFunction n d c then {fnc} else {}) s2"
      and 2: "keeps s1 s2" "te_names s2 = te_names s1" "obj_at (te_heap s2) fnc = Some (OTreeFunction a ?decl env)"
    then have i2: "tree_inv {fnc} s2" by (auto split: if_splits)
    have env2: "env_ok (te_heap s2) (te_names s2) senv env" using 2(1) at1 by (simp add: keeps_def at_def)
    have "map_of (te_names s2) (sv_text f) = Some a" "val_live s2 (VObj fnc)"
      using 1(3) 2 by (simp_all add: val_live_def value_addrs_def)
    then show "tok (define_var env a (VObj fnc)) s2 (\<lambda>_ s'. fpost (add_name f True senv) env s FlowNormal s')"
    proof (intro tok_define [OF i2 env2])
      fix s3
      assume 3: "tree_inv {fnc} s3" "keeps s2 s3" "env_ok (te_heap s3) (te_names s3) (add_name f True senv) env"
        "\<And>b n d c. obj_at (te_heap s3) b = Some (OTreeFunction n d c) \<Longrightarrow>
          obj_at (te_heap s2) b = Some (OTreeFunction n d c)"
      have "fn_ok (te_heap s3) (te_names s3) ?decl env" using 3(3) fn unfolding fn_ok_def by auto
      then have "funs_ok {} (te_heap s3) (te_names s3)"
        using 3(1) 3(4) [of fnc] 2(3) unfolding tree_inv_def funs_ok_def by fastforce
      then have "tree_inv {} s3" using 3(1) by (simp add: tree_inv_def)
      moreover have "keeps s s3" using keeps_trans [OF 1(2) keeps_trans [OF 2(1) 3(2)]] .
      ultimately show "fpost (add_name f True senv) env s FlowNormal s3" using 3(3) by (simp add: fpost_def)
    qed
  qed (simp_all add: is_string_def)
qed

lemma exec_node_ok:
  assumes ev: "ev_ok ev" and ex: "ex_ok ex"
    and at: "at s senv env" and st: "scoped_s d senv st" "plain_s st"
  shows "tok (exec_node sz ev ex st env) s (fpost (after st senv) env s)"
proof (cases st)
  case (SPrint e l)
  then show ?thesis using tok_print [OF ev at] st by (simp add: exec_node_def)
next
  case (SExpr e l)
  then show ?thesis using tok_expr_stmt [OF ev at] st by (simp add: exec_node_def)
next
  case (SLet x i l)
  then show ?thesis using tok_let [OF ev at] st by (simp add: exec_node_def)
next
  case (SBlock ss l)
  then show ?thesis using tok_block [OF ex at] st by (simp add: exec_node_def)
next
  case (SIf c t eo l)
  then have "after st senv = senv" "scoped_e senv c" "scoped_s d senv t" "plain_s t" "\<not> is_decl t"
    "\<And>e. eo = Some e \<Longrightarrow> scoped_s d senv e \<and> plain_s e \<and> \<not> is_decl e"
    using st after_plain [of t senv] after_plain [of _ senv] by (cases eo; simp)+
  then show ?thesis using tok_if [OF ev ex at] SIf by (simp add: exec_node_def)
next
  case (SWhile c b l)
  then have "after st senv = senv" using st after_plain [of b senv] by simp
  then show ?thesis using tok_while [OF ev ex at SWhile st] SWhile by (simp add: exec_node_def)
next
  case (SFunction f ps body bl l)
  then show ?thesis using tok_function [OF at, of ps d f body sz] st by (simp add: exec_node_def)
next
  case (SReturn eo l)
  then show ?thesis using tok_return_stmt [OF ev at] st by (simp add: exec_node_def)
qed

lemma tree_ok: "ev_ok (tree_eval sz clk n) \<and> ex_ok (tree_exec sz clk n)"
proof (induction n)
  case 0
  then show ?case by (simp add: ev_ok_def ex_ok_def tok_def)
next
  case (Suc n)
  then have "ev_ok (eval_node sz clk (tree_eval sz clk n) (tree_exec sz clk n))" by (intro eval_node_ok) blast+
  moreover have "ex_ok (exec_node sz (tree_eval sz clk n) (tree_exec sz clk n))"
    unfolding ex_ok_def [of "exec_node sz (tree_eval sz clk n) (tree_exec sz clk n)"]
    using exec_node_ok Suc by blast
  moreover have "tree_eval sz clk (Suc n) = eval_node sz clk (tree_eval sz clk n) (tree_exec sz clk n)"
    "tree_exec sz clk (Suc n) = exec_node sz (tree_eval sz clk n) (tree_exec sz clk n)"
    by (rule ext, rule ext, simp)+
  ultimately show ?case by simp
qed

end
