(* ===== verification/Tree_Sound.thy ===== *)
theory Tree_Sound
  imports Tree_Safe
begin

text \<open>
  From the source to the engine: the constructor establishes the invariant, the parser puts
  declarations in blocks only, the resolver and the parser together give a program every statement
  of which the engine runs safely.
\<close>

subsection \<open>The constructor\<close>

definition resting :: "tree_state \<Rightarrow> bool" where
  "resting s \<longleftrightarrow>
     tree_inv {} s \<and> te_active s = [] \<and> te_stack s = [] \<and> hp_temp_roots (te_heap s) = [] \<and> te_depth s = 0"

lemma resting_keeps: "resting s \<Longrightarrow> keeps s s' \<Longrightarrow> tree_inv {} s' \<Longrightarrow> resting s'"
  by (simp add: resting_def keeps_def)

lemma register_native_ok:
  assumes s: "resting s"
  shows "resting (register_native sz te_heap (\<lambda>h s. s\<lparr>te_heap := h\<rparr>) tree_roots (define_native sz) (name, native_arity f, f) s)"
proof -
  have inv: "tree_inv {} s" using s by (simp add: resting_def)
  obtain a h where al: "allocate sz (tree_roots s) (ONative name (native_arity f) f) (te_heap s) = (a, h)" by fastforce
  let ?s1 = "s\<lparr>te_heap := h\<rparr>"
  have "tok (t_allocate sz (ONative name (native_arity f) f)) s
      (\<lambda>b s'. tree_inv {} s' \<and> keeps s s' \<and> obj_at (te_heap s') b = Some (ONative name (native_arity f) f))"
    by (rule tok_allocate [OF inv]) (auto simp: is_string_def)
  then have 1: "tree_inv {} ?s1" "keeps s ?s1" "obj_at h a = Some (ONative name (native_arity f) f)"
    using al by (simp_all add: tok_def t_allocate_def)
  let ?s2 = "?s1\<lparr>te_heap := push_temp (VObj a) h\<rparr>"
  have i2: "tree_inv {} ?s2"
    using inv_push_temp [OF 1(1), of "VObj a"] 1(3) by (simp add: val_live_def value_addrs_def)
  then have "tok (name_of sz name) ?s2 (\<lambda>k s'. tree_inv {} s' \<and> keeps ?s2 s' \<and> map_of (te_names s') name = Some k)"
    by (rule tok_name_of) blast
  then have d: "tree_inv {} (define_native sz name (VObj a) ?s2) \<and>
      (keeps ?s2 (define_native sz name (VObj a) ?s2))"
  proof (cases "name_of sz name ?s2")
    case (Ok ks)
    obtain k s3 where ks: "ks = (k, s3)" by (cases ks)
    assume "tok (name_of sz name) ?s2 (\<lambda>k s'. tree_inv {} s' \<and> keeps ?s2 s' \<and> map_of (te_names s') name = Some k)"
    then have 3: "tree_inv {} s3" "keeps ?s2 s3" "map_of (te_names s3) name = Some k"
      unfolding tok_def Ok ks by simp_all
    have t: "hp_temp_roots (te_heap s3) = hp_temp_roots h @ [VObj a]" using 3(2) by (simp add: keeps_def)
    have "val_live s3 (VObj a)" by (rule temp_live [OF 3(1)]) (simp add: t)
    then have "tree_inv {} (s3\<lparr>te_globals := AList.update k (VObj a) (te_globals s3)\<rparr>)"
      using inv_global [OF 3(1)] name_live [OF 3(1,3)] by blast
    moreover have "define_native sz name (VObj a) ?s2 = s3\<lparr>te_globals := AList.update k (VObj a) (te_globals s3)\<rparr>"
      unfolding define_native_def Ok ks by simp
    moreover have "keeps ?s2 (s3\<lparr>te_globals := AList.update k (VObj a) (te_globals s3)\<rparr>)"
      using 3(2) unfolding keeps_def by simp
    ultimately show ?thesis by presburger
  qed (use i2 in \<open>simp_all add: define_native_def\<close>)
  let ?s4 = "define_native sz name (VObj a) ?s2"
  have "tree_inv {} (?s4\<lparr>te_heap := pop_temp (te_heap ?s4)\<rparr>)" using inv_pop_temp d by blast
  moreover have "te_active ?s4 = []" "te_stack ?s4 = []" "te_depth ?s4 = 0" "hp_temp_roots (te_heap ?s4) = [VObj a]"
    using conjunct2 [OF d] 1(2) s by (simp_all add: keeps_def resting_def)
  ultimately show ?thesis by (simp add: register_native_def al Let_def resting_def)
qed

lemma empty_tree_ok: "resting (empty_tree (empty_heap\<lparr>hp_stress := b\<rparr>))"
proof -
  have "sane (empty_heap\<lparr>hp_stress := b\<rparr>)"
    by (simp add: sane_def heap_ok_def no_dangling_def empty_heap_def obj_at_def strings_ok_def heap_eval)
  then show ?thesis
    by (simp add: resting_def tree_inv_def empty_tree_def root_set_def gc_roots_def tree_roots_def
        funs_ok_def natives_ok_def empty_heap_def obj_at_def value_addrs_def)
qed

lemma init_tree_ok: "resting (init_tree sz (empty_heap\<lparr>hp_stress := b\<rparr>))"
proof -
  have k: "kSpecs = [(''clock'', native_arity NativeClock, NativeClock), (''len'', native_arity NativeLen, NativeLen),
      (''array'', native_arity NativeArray, NativeArray)]"
    by (simp add: kSpecs_def native_arity_def)
  show ?thesis
    unfolding init_tree_def register_natives_def k
    by (simp add: register_native_ok empty_tree_ok)
qed

subsection \<open>Declarations in blocks only\<close>

lemma plain_ss_append [simp]: "plain_ss (ss @ ts) \<longleftrightarrow> plain_ss ss \<and> plain_ss ts"
  by (induction ss) auto

lemma plain_for_desugared:
  assumes "\<And>st. i = Some st \<Longrightarrow> plain_s st" "plain_s b" "\<not> is_decl b"
  shows "plain_s (for_desugared i co no il b l) \<and> \<not> is_decl (for_desugared i co no il b l)"
  using assms by (cases i; cases no; cases co) (auto simp: for_desugared_def Let_def)

lemma grammar_plain:
  "g_stmt c ts s \<Longrightarrow> plain_s s \<and> \<not> is_decl s"
  "g_decl us t \<Longrightarrow> plain_s t"
  "g_decls vs ss \<Longrightarrow> plain_ss ss"
proof (induction rule: g_stmt_g_decl_g_decls.inducts)
  case (gs_for kw lp ins i cs co semi ns no rp c ts s)
  have "plain_s st" if "i = Some st" for st
    using gs_for(3) that by (auto elim!: g_for_init.cases g_let.cases g_expr_stmt.cases)
  then show ?case using plain_for_desugared gs_for by blast
qed (auto elim!: g_let.cases g_expr_stmt.cases)

lemma plain_unbound [simp]:
  "is_decl (unbound_s s) = is_decl s"
  "plain_s (unbound_s s) = plain_s s"
  "plain_ss (unbound_ss ss) = plain_ss ss"
proof -
  show d: "is_decl (unbound_s s) = is_decl s" for s by (cases s rule: unbound_s.cases) auto
  show "plain_s (unbound_s s) = plain_s s" "plain_ss (unbound_ss ss) = plain_ss ss"
    by (induction s and ss rule: plain_s_plain_ss.induct) (auto simp: d)
qed

lemma front_end_ok:
  assumes "parse src = Ok p" "resolve p = Inr q"
  shows "scoped_ss 0 [] (pr_statements q)" "plain_ss (pr_statements q)"
proof -
  have "lr_error (lex src) = None" using assms(1) by (cases "lr_error (lex src)") (simp_all add: parse_def Let_def)
  from parse_wp [OF this] assms(1) have "plain_ss (pr_statements p)" by (auto dest: grammar_plain(3))
  then show "scoped_ss 0 [] (pr_statements q)" "plain_ss (pr_statements q)"
    using resolve_ok [OF assms(2)] plain_unbound(3) by metis+
qed

subsection \<open>The entry points\<close>

lemma at_top: "at s [] None \<longleftrightarrow> tree_inv {} s"
  by (auto simp: at_def opt_addrs_def)

lemma resting_error: "resting s \<Longrightarrow> resting (s\<lparr>te_error := e\<rparr>)"
  by (simp add: resting_def inv_error)

lemma tok_take_error: "resting s \<Longrightarrow> (\<And>e s'. resting s' \<Longrightarrow> Q e s') \<Longrightarrow> tok take_error s Q"
  by (simp add: take_error_def resting_error)

lemma run_top_ok:
  assumes ex: "ex_ok ex"
  shows "resting s \<Longrightarrow> scoped_ss 0 [] ss \<Longrightarrow> plain_ss ss \<Longrightarrow> tok (run_top ex ss) s (\<lambda>_. resting)"
proof (induction ss arbitrary: s)
  case (Cons st ss)
  have at: "at s [] None" using Cons.prems(1) by (simp add: at_top resting_def)
  have top: "after st [] = []" by (induction st "[]::senv" rule: after.induct) (simp_all add: add_name_def)
  have "tok (ex st None) s (fpost (after st []) None s)"
    using tok_ex [OF ex at, of 0 st] Cons.prems(2,3) by simp
  then show ?case
    unfolding run_top.simps tok_simps
  proof (rule tok_mono)
    fix fl s'
    assume "fpost (after st []) None s fl s'"
    then have "resting s'" using resting_keeps [OF Cons.prems(1)] by (simp add: fpost_def)
    then show "tok (if fl = FlowError then treturn () else run_top ex ss) s' (\<lambda>_. resting)"
      using Cons.IH Cons.prems(2,3) top by simp
  qed
qed simp

lemma tree_run_ok:
  assumes "resting s" "scoped_ss 0 [] ss" "plain_ss ss"
  shows "tok (tree_run sz clk n ss) s (\<lambda>_. resting)"
proof -
  have "tok (run_top (tree_exec sz clk n) ss) s (\<lambda>_. resting)"
    using run_top_ok [OF _ assms] tree_ok by blast
  then show ?thesis
    unfolding tree_run_def tok_simps by (rule tok_mono) (blast intro: tok_take_error)
qed

lemma call_global_ok:
  assumes s: "resting s"
  shows "tok (call_global sz clk n name) s (\<lambda>_. resting)"
  unfolding call_global_def tok_simps(4)
proof (rule tok_intern)
  show "tree_inv {} s" using s by (simp add: resting_def)
  fix key s1
  assume 1: "tree_inv {} s1" "keeps s s1"
  have r1: "resting s1" using resting_keeps [OF s] 1 by blast
  show "tok (tget (\<lambda>s. map_of (te_globals s) key)) s1
      (\<lambda>found s'. tok (case found of
         None \<Rightarrow> treturn (VNil, Some \<lparr>re_line = 0, re_message = undefined_variable_message name\<rparr>)
       | Some callee \<Rightarrow> with_temp callee (with_region (\<lambda>base.
           tbind (call_value sz clk (tree_exec sz clk n) callee base 0 0) (\<lambda>v.
           tbind take_error (\<lambda>e. treturn (v, e)))))) s' (\<lambda>_. resting))"
  proof (cases "map_of (te_globals s1) key")
    case (Some callee)
    let ?s2 = "s1\<lparr>te_heap := push_temp callee (te_heap s1)\<rparr>"
    have "val_live s1 callee" using root_setI(4) [OF Some] 1(1) unfolding tree_inv_def val_live_def by blast
    then have i2: "tree_inv {} ?s2" by (rule inv_push_temp [OF 1(1)])
    have "tok (call_value sz clk (tree_exec sz clk n) callee 0 0 0) ?s2 (vpost ?s2)"
      using r1 by (intro tok_call_value [OF _ i2]) (simp_all add: tree_ok resting_def)
    then have "tok (call_value sz clk (tree_exec sz clk n) callee 0 0 0) ?s2
      (\<lambda>v s'. resting (s'\<lparr>te_error := None, te_stack := [], te_heap := pop_temp (te_heap s')\<rparr>))"
    proof (rule tok_mono)
      fix v s'
      assume v: "vpost ?s2 v s'"
      then have "tree_inv {} (s'\<lparr>te_error := None, te_stack := take 0 (te_stack s')\<rparr>)"
        using inv_take_stack [of "{}" "s'\<lparr>te_error := None\<rparr>" 0] by (simp add: vpost_def inv_error)
      from inv_pop_temp [OF this]
      show "resting (s'\<lparr>te_error := None, te_stack := [], te_heap := pop_temp (te_heap s')\<rparr>)"
        using v r1 by (simp add: resting_def vpost_def keeps_def)
    qed
    then show ?thesis
      using r1 by (simp add: Some with_temp_def with_region_def resting_def take_error_def)
  qed (simp add: r1)
qed

subsection \<open>Properties\<close>



text \<open>C15. A host may call the globals of a program that has run: an unknown name, a value that is
  no function and a failing body are errors of the language, and the engine is at rest again.\<close>

theorem tree_call_global_safe:
  assumes "parse text = Ok prog" "resolve prog = Inr res"
  shows "case tbind (tree_run sz clk n (pr_statements res)) (\<lambda>_. call_global sz clk m name)
      (init_tree sz (empty_heap\<lparr>hp_stress := b\<rparr>)) of
      Ok (r, s) \<Rightarrow> resting s | Error f \<Rightarrow> False | Timeout \<Rightarrow> True"
proof -
  have "tok (tree_run sz clk n (pr_statements res)) (init_tree sz (empty_heap\<lparr>hp_stress := b\<rparr>)) (\<lambda>_. resting)"
    by (rule tree_run_ok [OF init_tree_ok front_end_ok [OF assms]])
  then have "tok (tbind (tree_run sz clk n (pr_statements res)) (\<lambda>_. call_global sz clk m name))
      (init_tree sz (empty_heap\<lparr>hp_stress := b\<rparr>)) (\<lambda>_. resting)"
    unfolding tok_simps by (rule tok_mono) (rule call_global_ok)
  then show ?thesis by (simp add: tok_def)
qed

theorem tree_call_global_safe_witness:
  "case tbind (tree_run (\<lambda>_. 40) (\<lambda>_. 0) 9 [SExpr (ELiteral (LitInt 1) 1) 1]) (\<lambda>_. call_global (\<lambda>_. 40) (\<lambda>_. 0) 9 ''f'')
      (init_tree (\<lambda>_. 40) (empty_heap\<lparr>hp_stress := True\<rparr>)) of
    Ok (r, s) \<Rightarrow> resting s | Error f \<Rightarrow> False | Timeout \<Rightarrow> True"
proof -
  let ?p = "\<lparr>pr_source = ''1;'', pr_tokens = lr_tokens (lex ''1;''), pr_statements = [SExpr (ELiteral (LitInt 1) 1) 1]\<rparr>"
  have "parse ''1;'' = Ok ?p" by code_simp
  moreover have "resolve ?p = Inr ?p" by code_simp
  ultimately show ?thesis using tree_call_global_safe [of "''1;''" ?p ?p] by simp
qed

end
