(* ===== verification/Tree_Fuel.thy ===== *)
theory Tree_Fuel
  imports Tree_Sound
begin

text \<open>
  Fuel. \<open>less_fuel m m'\<close> orders two actions that differ only in how much fuel they were given: where the
  first returns, the second does the same. Every operation of the engine preserves the order, so more
  fuel never changes what a program does.
\<close>

definition less_fuel :: "'a tm \<Rightarrow> 'a tm \<Rightarrow> bool" where
  "less_fuel m m' \<longleftrightarrow> (\<forall>s. m s \<noteq> Timeout \<longrightarrow> m' s = m s)"

named_theorems less_fuel_rules

lemma less_fuel_refl [less_fuel_rules]: "less_fuel m m"
  by (simp add: less_fuel_def)

lemma less_fuel_bind [less_fuel_rules]:
  "less_fuel m m' \<Longrightarrow> (\<And>x. less_fuel (k x) (k' x)) \<Longrightarrow> less_fuel (tbind m k) (tbind m' k')"
proof -
  assume m: "less_fuel m m'" and k: "\<And>x. less_fuel (k x) (k' x)"
  have "tbind m' k' s = tbind m k s" if "tbind m k s \<noteq> Timeout" for s
    using m k that by (cases "m s") (auto simp: less_fuel_def tbind_def split: prod.splits)
  then show ?thesis by (simp add: less_fuel_def)
qed

lemma less_fuel_if [less_fuel_rules]:
  "less_fuel m m' \<Longrightarrow> less_fuel k k' \<Longrightarrow> less_fuel (if b then m else k) (if b then m' else k')"
  by simp

lemma less_fuel_case_option [less_fuel_rules]:
  "less_fuel m m' \<Longrightarrow> (\<And>x. less_fuel (k x) (k' x)) \<Longrightarrow>
   less_fuel (case x of None \<Rightarrow> m | Some y \<Rightarrow> k y) (case x of None \<Rightarrow> m' | Some y \<Rightarrow> k' y)"
  by (simp split: option.split)

lemma less_fuel_then [less_fuel_rules]:
  "less_fuel m m' \<Longrightarrow> (\<And>v. less_fuel (k v) (k' v)) \<Longrightarrow> less_fuel (eval_then m k) (eval_then m' k')"
  "less_fuel m m' \<Longrightarrow> (\<And>v. less_fuel (l v) (l' v)) \<Longrightarrow> less_fuel (exec_then m l) (exec_then m' l')"
  unfolding eval_then_def exec_then_def by (intro less_fuel_rules; assumption)+

lemma less_fuel_with [less_fuel_rules]:
  "less_fuel m m' \<Longrightarrow> less_fuel (with_temp v m) (with_temp v m')"
  "less_fuel m m' \<Longrightarrow> less_fuel (with_active a m) (with_active a m')"
  "less_fuel m m' \<Longrightarrow> less_fuel (with_depth m) (with_depth m')"
  "(\<And>base. less_fuel (b base) (b' base)) \<Longrightarrow> less_fuel (with_region b) (with_region b')"
  unfolding with_temp_def with_active_def with_depth_def with_region_def
  by (intro less_fuel_rules; assumption)+

lemma less_fuel_push_all [less_fuel_rules]:
  "(\<And>e env. less_fuel (ev e env) (ev' e env)) \<Longrightarrow> less_fuel k k' \<Longrightarrow>
   less_fuel (push_all ev es env k) (push_all ev' es env k')"
  by (induction es) (auto intro!: less_fuel_rules)

lemma less_fuel_seq [less_fuel_rules]:
  "(\<And>st env. less_fuel (ex st env) (ex' st env)) \<Longrightarrow> less_fuel (exec_seq ex sts env) (exec_seq ex' sts env)"
  "(\<And>st env. less_fuel (ex st env) (ex' st env)) \<Longrightarrow> less_fuel (call_body ex sts env) (call_body ex' sts env)"
  "(\<And>st env. less_fuel (ex st env) (ex' st env)) \<Longrightarrow> less_fuel (run_top ex sts) (run_top ex' sts)"
  by (induction sts) (auto intro!: less_fuel_rules split: flow.split)

lemma less_fuel_call_value [less_fuel_rules]:
  assumes "\<And>st env. less_fuel (ex st env) (ex' st env)"
  shows "less_fuel (call_value sz clk ex callee base argc line) (call_value sz clk ex' callee base argc line)"
proof -
  have "less_fuel (call_function sz ex fn decl closure base argc line)
      (call_function sz ex' fn decl closure base argc line)" for fn decl closure
    unfolding call_function_def by (intro less_fuel_rules assms)
  then have "less_fuel
      (case ob of OTreeFunction name decl closure \<Rightarrow> call_function sz ex fn decl closure base argc line
        | ONative name arity f \<Rightarrow>
            if arity \<noteq> argc then t_fail line (arity_error_message arity argc) else call_native_fn sz clk f base line
        | _ \<Rightarrow> t_fail line kErrNotCallable)
      (case ob of OTreeFunction name decl closure \<Rightarrow> call_function sz ex' fn decl closure base argc line
        | ONative name arity f \<Rightarrow>
            if arity \<noteq> argc then t_fail line (arity_error_message arity argc) else call_native_fn sz clk f base line
        | _ \<Rightarrow> t_fail line kErrNotCallable)" for ob fn
    by (cases ob) (simp_all add: less_fuel_refl)
  then show ?thesis
    unfolding call_value_def by (cases callee) (auto intro!: less_fuel_rules)
qed

lemma less_fuel_eval_node [less_fuel_rules]:
  assumes ev: "\<And>e env. less_fuel (ev e env) (ev' e env)" and ex: "\<And>st env. less_fuel (ex st env) (ex' st env)"
  shows "less_fuel (eval_node sz clk ev ex e env) (eval_node sz clk ev' ex' e env)"
  unfolding eval_node_def
  by (cases e; simp only: expr.simps eval_assign_def eval_unary_def eval_binary_def eval_logical_def eval_call_def
      eval_array_def eval_index_def eval_index_assign_def; intro less_fuel_rules ev ex)

lemma less_fuel_exec_node [less_fuel_rules]:
  assumes ev: "\<And>e env. less_fuel (ev e env) (ev' e env)" and ex: "\<And>st env. less_fuel (ex st env) (ex' st env)"
  shows "less_fuel (exec_node sz ev ex st env) (exec_node sz ev' ex' st env)"
proof -
  have "less_fuel (eval_opt ev eo env) (eval_opt ev' eo env)" for eo env
    unfolding eval_opt_def by (intro less_fuel_rules ev)
  then show ?thesis
    unfolding exec_node_def
    by (cases st; simp only: stmt.simps exec_print_def exec_expr_def exec_let_def exec_block_def exec_if_def
        exec_while_def exec_return_def; intro less_fuel_rules ev ex)
qed

lemma less_fuel_Suc:
  "less_fuel (tree_eval sz clk n e env) (tree_eval sz clk (Suc n) e env) \<and>
   less_fuel (tree_exec sz clk n st env) (tree_exec sz clk (Suc n) st env)"
proof (induction n arbitrary: e st env)
  case 0
  then show ?case by (simp add: less_fuel_def)
next
  case (Suc n)
  have le: "less_fuel (tree_eval sz clk n e env) (tree_eval sz clk (Suc n) e env)"
    "less_fuel (tree_exec sz clk n st env) (tree_exec sz clk (Suc n) st env)" for e st env
    using Suc by blast+
  have "less_fuel (eval_node sz clk (tree_eval sz clk n) (tree_exec sz clk n) e env)
      (eval_node sz clk (tree_eval sz clk (Suc n)) (tree_exec sz clk (Suc n)) e env)"
    "less_fuel (exec_node sz (tree_eval sz clk n) (tree_exec sz clk n) st env)
      (exec_node sz (tree_eval sz clk (Suc n)) (tree_exec sz clk (Suc n)) st env)"
    by (intro less_fuel_eval_node less_fuel_exec_node le)+
  then show ?case by simp
qed

lemma less_fuel_trans: "less_fuel m m' \<Longrightarrow> less_fuel m' m'' \<Longrightarrow> less_fuel m m''"
  by (simp add: less_fuel_def)

lemma more_fuel:
  assumes "n \<le> m"
  shows "less_fuel (tree_eval sz clk n e env) (tree_eval sz clk m e env)"
    "less_fuel (tree_exec sz clk n st env) (tree_exec sz clk m st env)"
  using assms by (induction m rule: dec_induct) (use less_fuel_refl less_fuel_trans less_fuel_Suc in blast)+



end
