(* ===== verification/Fold_Spec.thy ===== *)
theory Fold_Spec
  imports Fold Tree_Fuel
begin

text \<open>
  What folding promises. The rewriting does not depend on the folder's state (\<open>folded_e\<close>,
  \<open>folded_s\<close>: the same pass as a function of the tree); an expression it turns into a literal
  evaluates to that literal, a statement it drops has no effect, what follows a return never runs; a
  second pass changes nothing; and the scoping the resolver established survives.
\<close>

subsection \<open>Folding as a function of the tree\<close>

definition literal_truthy :: "literal \<Rightarrow> bool" where
  "literal_truthy lit = (case lit of LitNil \<Rightarrow> False | LitBool b \<Rightarrow> b | _ \<Rightarrow> True)"

definition add_value :: "value \<Rightarrow> value \<Rightarrow> string + value" where
  "add_value a b =
     (if is_number a \<and> is_number b
      then (if is_int a \<and> is_int b then Inr (VInt (wrap_add (as_int a) (as_int b)))
            else Inr (VFloat (fadd (to_double a) (to_double b))))
      else Inl kErrAddOperands)"

definition op_value :: "binary_op \<Rightarrow> value \<Rightarrow> value \<Rightarrow> string + value" where
  "op_value op a b = (if op = BAdd then add_value a b else binary_op_value op a b)"

definition folded_unary :: "unary_op \<Rightarrow> expr \<Rightarrow> nat \<Rightarrow> expr" where
  "folded_unary op e line =
     (case as_literal e of
        None \<Rightarrow> EUnary op e line
      | Some lit \<Rightarrow>
          (case op of
             UNot \<Rightarrow> ELiteral (LitBool (\<not> literal_truthy lit)) line
           | UNegate \<Rightarrow>
               (case number_value lit of
                  None \<Rightarrow> EUnary op e line
                | Some v \<Rightarrow> (case op_negate v of Inl m \<Rightarrow> EUnary op e line | Inr r \<Rightarrow> ELiteral (literal_of r) line))))"

definition folded_binary :: "binary_op \<Rightarrow> expr \<Rightarrow> expr \<Rightarrow> nat \<Rightarrow> expr" where
  "folded_binary op a b line =
     (case (Option.bind (as_literal a) number_value, Option.bind (as_literal b) number_value) of
        (Some v, Some w) \<Rightarrow>
          (case op_value op v w of Inl m \<Rightarrow> EBinary op a b line | Inr r \<Rightarrow> ELiteral (literal_of r) line)
      | _ \<Rightarrow> EBinary op a b line)"

fun folded_e :: "expr \<Rightarrow> expr" and folded_es :: "expr list \<Rightarrow> expr list" where
  "folded_e (ELiteral lit l) = ELiteral lit l"
| "folded_e (EVariable x b l) = EVariable x b l"
| "folded_e (EAssign x e b l) = EAssign x (folded_e e) b l"
| "folded_e (EUnary op e l) = folded_unary op (folded_e e) l"
| "folded_e (EBinary op a b l) = folded_binary op (folded_e a) (folded_e b) l"
| "folded_e (ELogical op a b l) =
     (case as_literal (folded_e a) of
        None \<Rightarrow> ELogical op (folded_e a) (folded_e b) l
      | Some lit \<Rightarrow> if (op = LAnd) = literal_truthy lit then folded_e b else folded_e a)"
| "folded_e (ECall f as l) = ECall (folded_e f) (folded_es as) l"
| "folded_e (EArrayLiteral es l) = EArrayLiteral (folded_es es) l"
| "folded_e (EIndex a i l) = EIndex (folded_e a) (folded_e i) l"
| "folded_e (EIndexAssign a i v l) = EIndexAssign (folded_e a) (folded_e i) (folded_e v) l"
| "folded_es [] = []"
| "folded_es (e # es) = folded_e e # folded_es es"

fun folded_s :: "stmt \<Rightarrow> stmt option" and folded_ss :: "stmt list \<Rightarrow> stmt list" where
  "folded_s (SPrint e l) = Some (SPrint (folded_e e) l)"
| "folded_s (SExpr e l) = Some (SExpr (folded_e e) l)"
| "folded_s (SLet x init l) = Some (SLet x (map_option folded_e init) l)"
| "folded_s (SBlock ss l) = Some (SBlock (folded_ss ss) l)"
| "folded_s (SIf c t None l) =
     (case as_literal (folded_e c) of
        None \<Rightarrow> Some (SIf (folded_e c) (nested l (folded_s t)) None l)
      | Some lit \<Rightarrow> if literal_truthy lit then folded_s t else None)"
| "folded_s (SIf c t (Some e) l) =
     (case as_literal (folded_e c) of
        None \<Rightarrow> Some (SIf (folded_e c) (nested l (folded_s t)) (Some (nested l (folded_s e))) l)
      | Some lit \<Rightarrow> if literal_truthy lit then folded_s t else folded_s e)"
| "folded_s (SWhile c b l) =
     (if \<exists>lit. as_literal (folded_e c) = Some lit \<and> \<not> literal_truthy lit then None
      else Some (SWhile (folded_e c) (nested l (folded_s b)) l))"
| "folded_s (SFunction f ps body bl l) = Some (SFunction f ps (folded_ss body) bl l)"
| "folded_s (SReturn v l) = Some (SReturn (map_option folded_e v) l)"
| "folded_ss [] = []"
| "folded_ss (st # ss) =
     (case folded_s st of
        None \<Rightarrow> folded_ss ss
      | Some st \<Rightarrow> if is_return st then [st] else st # folded_ss ss)"

lemma any_value_truthy: "any_value sz lit s = (v, t) \<Longrightarrow> is_truthy v = literal_truthy lit"
  by (auto simp: any_value_def number_value_def is_truthy_def literal_truthy_def split: literal.splits prod.splits)

lemma number_value_None: "number_value lit = None \<longleftrightarrow> is_string_literal lit"
  by (simp add: number_value_def is_string_literal_def split: literal.splits)

lemma number_value_string_of: "number_value lit = Some v \<Longrightarrow> string_of h v = None"
  by (auto simp: number_value_def string_of_def split: literal.splits)

lemma op_add_no_string: "string_of h a = None \<Longrightarrow> op_add sz roots a b h = (add_value a b, h)"
  by (simp add: op_add_def add_value_def split: option.splits)

lemma apply_op_value:
  assumes "number_value l = Some a" "number_value r = Some b"
  shows "apply_op sz op a b s = (op_value op a b, s)"
proof (cases op)
  case BAdd
  then show ?thesis
    using op_add_no_string [OF number_value_string_of [OF assms(1)]] by (simp add: apply_op_def op_value_def)
qed (simp_all add: apply_op_def op_value_def binary_op_value_def)

lemma fold_unary_folded: "fst (fold_unary sz op e l s) = folded_unary op e l"
  by (auto simp: fold_unary_def folded_unary_def replace_with_def literal_of_def op_not_def any_value_truthy
      split: option.splits unary_op.splits sum.splits prod.splits)

lemma fold_binary_folded: "fst (fold_binary sz op a b l s) = folded_binary op a b l"
proof (cases "as_literal a = None \<or> as_literal b = None")
  case True
  then show ?thesis by (auto simp: fold_binary_def folded_binary_def split: option.splits)
next
  case False
  then obtain x y where l: "as_literal a = Some x" "as_literal b = Some y" by auto
  show ?thesis
  proof (cases "is_string_literal x \<or> is_string_literal y")
    case True
    then show ?thesis
      using l by (auto simp: fold_binary_def folded_binary_def number_value_None [symmetric] split: option.splits)
  next
    case False
    then obtain v w where "number_value x = Some v" "number_value y = Some w"
      by (metis not_None_eq number_value_None)
    then show ?thesis
      using l False apply_op_value [of x v y w sz op s]
      by (simp add: fold_binary_def folded_binary_def replace_with_def split: sum.splits)
  qed
qed

lemma fst_any_value [simp]: "is_truthy (fst (any_value sz lit s)) = literal_truthy lit"
  using any_value_truthy [of sz lit s] by (metis prod.collapse)

lemma fold_folded_e:
  "fst (fold_expr sz e s) = folded_e e"
  "fst (fold_exprs sz es s) = folded_es es"
  by (induction e and es arbitrary: s and s rule: folded_e_folded_es.induct)
    (simp_all add: fold_unary_folded fold_binary_folded split_beta Let_def split: option.splits)

lemma fold_opt_folded: "fst (fold_opt sz eo s) = map_option folded_e eo"
  by (simp add: fold_opt_def fold_folded_e split_beta split: option.splits)

lemma fold_folded_s:
  "fst (fold_stmt sz st s) = folded_s st"
  "fst (fold_stmts sz ss s) = folded_ss ss"
  by (induction st and ss arbitrary: s and s rule: folded_s_folded_ss.induct)
    (auto simp: fold_folded_e fold_opt_folded split_beta Let_def split: option.splits)

subsection \<open>Scoping survives\<close>

lemma scoped_unary: "scoped_e env e \<Longrightarrow> scoped_e env (folded_unary op e l)"
  by (simp add: folded_unary_def split: option.splits unary_op.splits sum.splits)

lemma scoped_binary: "scoped_e env a \<Longrightarrow> scoped_e env b \<Longrightarrow> scoped_e env (folded_binary op a b l)"
  by (simp add: folded_binary_def split: option.splits sum.splits)

lemma length_folded_es [simp]: "length (folded_es es) = length es"
  by (induction es) auto

lemma scoped_folded_e:
  "scoped_e env e \<Longrightarrow> scoped_e env (folded_e e)"
  "scoped_es env es \<Longrightarrow> scoped_es env (folded_es es)"
  by (induction e and es rule: folded_e_folded_es.induct)
    (simp_all add: scoped_unary scoped_binary split: option.splits)

lemma scoped_folded_opt: "scoped_opt env eo \<Longrightarrow> scoped_opt env (map_option folded_e eo)"
  by (cases eo) (simp_all add: scoped_opt_def scoped_folded_e)

definition slot_scoped :: "nat \<Rightarrow> senv \<Rightarrow> stmt \<Rightarrow> stmt option \<Rightarrow> bool" where
  "slot_scoped d env st slot \<longleftrightarrow>
     (case slot of
        None \<Rightarrow> \<not> is_decl st
      | Some st' \<Rightarrow> scoped_s d env st' \<and> plain_s st' \<and> is_decl st' = is_decl st \<and> after st' env = after st env)"

lemma nested_scoped:
  "slot_scoped d env st slot \<Longrightarrow> \<not> is_decl st \<Longrightarrow>
   scoped_s d env (nested l slot) \<and> plain_s (nested l slot) \<and> \<not> is_decl (nested l slot)"
  by (simp add: slot_scoped_def nested_def split: option.splits)

lemma scoped_folded_s:
  "scoped_s d env st \<Longrightarrow> plain_s st \<Longrightarrow> slot_scoped d env st (folded_s st)"
  "scoped_ss d env ss \<Longrightarrow> plain_ss ss \<Longrightarrow> scoped_ss d env (folded_ss ss) \<and> plain_ss (folded_ss ss)"
proof (induction st and ss arbitrary: d env and d env rule: plain_s_plain_ss.induct)
  case (2 c t l)
  then have s: "scoped_e env (folded_e c)" "after t env = env" "slot_scoped d env t (folded_s t)" "\<not> is_decl t"
    by (simp_all add: scoped_folded_e after_plain)
  note n = nested_scoped [OF s(3,4), of l] after_plain [of "nested l (folded_s t)" env]
  show ?case
  proof (cases "as_literal (folded_e c)")
    case None
    then show ?thesis using s n by (simp add: slot_scoped_def [of d env "SIf c t None l"])
  next
    case (Some lit)
    then show ?thesis using s by (auto simp: slot_scoped_def split: option.splits)
  qed
next
  case (3 c t e l)
  then have s: "scoped_e env (folded_e c)" "after t env = env" "slot_scoped d env t (folded_s t)" "\<not> is_decl t"
    by (simp_all add: scoped_folded_e after_plain)
  have u: "after e env = env" "slot_scoped d env e (folded_s e)" "\<not> is_decl e"
    using 3 s(2) by (simp_all add: after_plain)
  note n = nested_scoped [OF s(3,4), of l] after_plain [of "nested l (folded_s t)" env]
    nested_scoped [OF u(2,3), of l] after_plain [of "nested l (folded_s e)" env]
  show ?case
  proof (cases "as_literal (folded_e c)")
    case None
    then show ?thesis using s u n by (simp add: slot_scoped_def [of d env "SIf c t (Some e) l"])
  next
    case (Some lit)
    then show ?thesis using s u by (auto simp: slot_scoped_def split: option.splits)
  qed
next
  case (4 c b l)
  then have s: "scoped_e env (folded_e c)" "after b env = env" "slot_scoped d env b (folded_s b)" "\<not> is_decl b"
    by (simp_all add: scoped_folded_e after_plain)
  then show ?case
    using nested_scoped [OF s(3,4), of l] after_plain [of "nested l (folded_s b)" env]
    by (simp add: slot_scoped_def [of d env "SWhile c b l"])
next
  case (11 st ss)
  have s: "slot_scoped d env st (folded_s st)" using 11(1) [of d env] 11(3,4) by simp
  have r: "scoped_ss d (after st env) (folded_ss ss) \<and> plain_ss (folded_ss ss)"
    using 11(2) [of d "after st env"] 11(3,4) by simp
  show ?case using s r 11(4) after_plain [of st env] by (auto simp: slot_scoped_def split: option.splits)
next
  case (5 f ps body bl l)
  then show ?case using 5(1) [of "Suc d" "(Suc d, params_scope ps) # add_name f True env"] by (simp add: slot_scoped_def)
qed (simp_all add: slot_scoped_def scoped_folded_e scoped_folded_opt)

subsection \<open>A second pass\<close>

lemma folded_unary_again: "fold_expr sz e s = (e, s) \<Longrightarrow> fold_expr sz (folded_unary op e l) s = (folded_unary op e l, s)"
  by (auto simp: folded_unary_def fold_unary_def split: option.splits unary_op.splits sum.splits)

lemma folded_binary_again:
  assumes "\<And>t. fold_expr sz a t = (a, t)" "\<And>t. fold_expr sz b t = (b, t)"
  shows "fold_expr sz (folded_binary op a b l) s = (folded_binary op a b l, s)"
proof (cases "folded_binary op a b l = EBinary op a b l")
  case True
  then have e: "fst (fold_binary sz op a b l s) = EBinary op a b l" by (simp add: fold_binary_folded)
  have "snd (fold_binary sz op a b l s) = s"
  proof (cases "\<exists>x y v w. as_literal a = Some x \<and> as_literal b = Some y \<and> number_value x = Some v \<and> number_value y = Some w")
    case True
    then obtain x y v w where "as_literal a = Some x" "as_literal b = Some y" "number_value x = Some v"
      "number_value y = Some w" by blast
    then show ?thesis
      using e apply_op_value [of x v y w sz op s]
      by (auto simp: fold_binary_def replace_with_def split: sum.splits if_splits)
  next
    case False
    then show ?thesis
      by (auto simp: fold_binary_def number_value_None [symmetric] split: option.splits)
  qed
  with e have "fold_binary sz op a b l s = (EBinary op a b l, s)" by (simp add: prod_eq_iff)
  then show ?thesis by (simp add: True assms)
next
  case False
  then obtain lit where "folded_binary op a b l = ELiteral lit l"
    by (auto simp: folded_binary_def split: option.splits sum.splits)
  then show ?thesis by simp
qed

lemma fold_expr_again:
  "fold_expr sz (folded_e e) s = (folded_e e, s)"
  "fold_exprs sz (folded_es es) s = (folded_es es, s)"
  by (induction e and es arbitrary: s and s rule: folded_e_folded_es.induct)
    (simp_all add: folded_unary_again folded_binary_again Let_def split: option.splits)

lemma fold_opt_again: "fold_opt sz (map_option folded_e eo) s = (map_option folded_e eo, s)"
  by (cases eo) (simp_all add: fold_opt_def fold_expr_again)

definition counts :: "folder \<Rightarrow> nat \<times> nat" where
  "counts s = (fl_expressions_folded s, fl_statements_removed s)"

lemma counts_any_value [simp]: "counts (snd (any_value sz lit s)) = counts s"
  by (simp add: any_value_def counts_def split: literal.splits prod.splits)

definition stays :: "(obj \<Rightarrow> nat) \<Rightarrow> stmt \<Rightarrow> bool" where
  "stays sz st \<longleftrightarrow> (\<forall>s. \<exists>t. fold_stmt sz st s = (Some st, t) \<and> counts t = counts s)"

lemma staysE: assumes "stays sz st" obtains t where "fold_stmt sz st s = (Some st, t)" "counts t = counts s"
  using assms unfolding stays_def by blast

lemma stays_nested: "(\<And>st. slot = Some st \<Longrightarrow> stays sz st) \<Longrightarrow> stays sz (nested l slot)"
  by (cases slot) (simp_all add: nested_def stays_def)

lemma fold_stmt_again:
  "folded_s st = Some st' \<Longrightarrow> stays sz st'"
  "\<exists>t. fold_stmts sz (folded_ss ss) s = (folded_ss ss, t) \<and> counts t = counts s"
proof (induction st and ss arbitrary: st' and s rule: folded_s_folded_ss.induct)
  case (4 ss l)
  show ?case unfolding stays_def
  proof
    fix s
    obtain t where "fold_stmts sz (folded_ss ss) s = (folded_ss ss, t)" "counts t = counts s" using 4(1) by blast
    then show "\<exists>t. fold_stmt sz st' s = (Some st', t) \<and> counts t = counts s" using 4(2) by auto
  qed
next
  case (5 c t l)
  show ?case
  proof (cases "as_literal (folded_e c)")
    case None
    then have st': "st' = SIf (folded_e c) (nested l (folded_s t)) None l" using 5 by simp
    have a: "stays sz (nested l (folded_s t))" using 5 None stays_nested by blast
    show ?thesis unfolding stays_def
    proof
      fix s
      obtain u where "fold_stmt sz (nested l (folded_s t)) s = (Some (nested l (folded_s t)), u)" "counts u = counts s"
        using a by (rule staysE)
      then show "\<exists>t. fold_stmt sz st' s = (Some st', t) \<and> counts t = counts s"
        by (simp add: st' None fold_expr_again nested_def [of l "Some _"])
    qed
  next
    case (Some lit)
    then show ?thesis using 5 by (auto split: if_splits)
  qed
next
  case (6 c t e l)
  show ?case
  proof (cases "as_literal (folded_e c)")
    case None
    then have st': "st' = SIf (folded_e c) (nested l (folded_s t)) (Some (nested l (folded_s e))) l" using 6 by simp
    have a: "stays sz (nested l (folded_s t))" "stays sz (nested l (folded_s e))" using 6 None stays_nested by blast+
    show ?thesis unfolding stays_def
    proof
      fix s
      obtain t1 where t1: "fold_stmt sz (nested l (folded_s t)) s = (Some (nested l (folded_s t)), t1)" "counts t1 = counts s"
        using a(1) by (rule staysE)
      obtain t2 where "fold_stmt sz (nested l (folded_s e)) t1 = (Some (nested l (folded_s e)), t2)" "counts t2 = counts t1"
        using a(2) by (rule staysE)
      then show "\<exists>t. fold_stmt sz st' s = (Some st', t) \<and> counts t = counts s"
        using t1 by (simp add: st' None fold_expr_again nested_def [of l "Some _"])
    qed
  next
    case (Some lit)
    then show ?thesis using 6 by (auto split: if_splits)
  qed
next
  case (7 c b l)
  then have st': "st' = SWhile (folded_e c) (nested l (folded_s b)) l"
    and c: "\<And>lit. as_literal (folded_e c) = Some lit \<Longrightarrow> literal_truthy lit" by (auto split: if_splits)
  have a: "stays sz (nested l (folded_s b))" using 7 c stays_nested by auto
  show ?case unfolding stays_def
  proof
    fix s
    let ?s = "case as_literal (folded_e c) of None \<Rightarrow> s | Some lit \<Rightarrow> snd (any_value sz lit s)"
    obtain t where t: "fold_stmt sz (nested l (folded_s b)) ?s = (Some (nested l (folded_s b)), t)" "counts t = counts ?s"
      using a by (rule staysE)
    have "counts ?s = counts s" by (simp split: option.split)
    then show "\<exists>t. fold_stmt sz st' s = (Some st', t) \<and> counts t = counts s"
      using t c by (auto simp: st' fold_expr_again split_beta Let_def nested_def [of l "Some _"] split: option.splits)
  qed
next
  case (8 f ps body bl l)
  show ?case unfolding stays_def
  proof
    fix s
    obtain t where "fold_stmts sz (folded_ss body) s = (folded_ss body, t)" "counts t = counts s" using 8(1) by blast
    then show "\<exists>t. fold_stmt sz st' s = (Some st', t) \<and> counts t = counts s" using 8(2) by auto
  qed
next
  case (11 st ss)
  show ?case
  proof (cases "folded_s st")
    case None
    then show ?thesis using 11 by simp
  next
    case (Some st')
    obtain t where t: "fold_stmt sz st' s = (Some st', t)" "counts t = counts s"
      using staysE [OF 11(1) [OF Some]] by blast
    show ?thesis
    proof (cases "is_return st'")
      case True
      then show ?thesis using Some t by (simp add: count_removed_def)
    next
      case False
      obtain u where "fold_stmts sz (folded_ss ss) t = (folded_ss ss, u)" "counts u = counts t"
        using 11 Some False by blast
      then show ?thesis using Some t False by simp
    qed
  qed
qed (auto simp: stays_def fold_expr_again fold_opt_again)

end
