(* ===== verification/Fold_Sound.thy ===== *)
theory Fold_Sound
  imports Fold_Spec
begin

text \<open>
  Folding against the tree-walking engine: a folded literal is the value the expression has, with no
  other effect than interning; a dropped statement does nothing; what is dropped behind a return
  never runs; and a folded program is as safe as the program it came from.
\<close>

subsection \<open>Expressions that fold to a literal\<close>

definition literal_value :: "heap \<Rightarrow> literal \<Rightarrow> value \<Rightarrow> bool" where
  "literal_value h lit v \<longleftrightarrow>
     (case lit of LitString text \<Rightarrow> string_of h v = Some text | _ \<Rightarrow> number_value lit = Some v)"

definition quiet :: "heap \<Rightarrow> heap \<Rightarrow> bool" where
  "quiet h h' \<longleftrightarrow> sane h' \<and> hp_temp_roots h' = hp_temp_roots h"

lemma quiet_trans: "quiet g h \<Longrightarrow> quiet h k \<Longrightarrow> quiet g k"
  by (simp add: quiet_def)

lemma as_literal_Some: "as_literal e = Some lit \<longleftrightarrow> (\<exists>l. e = ELiteral lit l)"
  by (auto simp: as_literal_def split: expr.splits)

lemma literal_value_truthy: "literal_value h lit v \<Longrightarrow> is_truthy v = literal_truthy lit"
  by (auto simp: literal_value_def number_value_def is_truthy_def literal_truthy_def string_of_def
      split: literal.splits gvalue.splits)

lemma literal_value_number: "number_value lit = Some v \<Longrightarrow> literal_value h lit w \<longleftrightarrow> w = v"
  by (auto simp: literal_value_def number_value_def split: literal.splits)

lemma literal_of_op_value: "op_value op v w = Inr r \<Longrightarrow> number_value (literal_of r) = Some r"
  by (cases op)
    (auto simp: op_value_def add_value_def binary_op_value_def op_sub_def op_mul_def op_div_def op_mod_def
      op_less_def op_less_equal_def op_greater_def op_greater_equal_def numeric_binary_def numeric_compare_def
      literal_of_def number_value_def as_float_def Let_def split: if_splits)

lemma literal_of_negate: "op_negate v = Inr r \<Longrightarrow> number_value (literal_of r) = Some r"
  by (auto simp: op_negate_def literal_of_def number_value_def as_float_def split: gvalue.splits)

lemma pop_push_temp [simp]: "pop_temp (push_temp v h) = h"
  by (simp add: pop_temp_def push_temp_def)

lemma quiet_push: "quiet h h' \<Longrightarrow> sane (push_temp v h')"
  by (simp add: quiet_def heap_simps)

lemma quiet_pop: "quiet (push_temp v h) h' \<Longrightarrow> quiet h (pop_temp h')"
  by (simp add: quiet_def heap_simps)

lemma eval_folded:
  "folded_e e = ELiteral lit l \<Longrightarrow> sane (te_heap s) \<Longrightarrow> \<not> failed s \<Longrightarrow> eheight e < n \<Longrightarrow>
   \<exists>v h. tree_eval sz clk n e env s = Ok (v, s\<lparr>te_heap := h\<rparr>) \<and> quiet (te_heap s) h \<and> literal_value h lit v"
proof (induction e arbitrary: lit l s n)
  case (ELiteral lit' l')
  then obtain m where n: "n = Suc m" by (cases n) auto
  show ?case
  proof (cases "number_value lit")
    case (Some v)
    then show ?thesis
      using ELiteral by (auto simp: n eval_node_def eval_literal_def treturn_def quiet_def literal_value_def
          number_value_def split: literal.splits intro: exI [of _ "te_heap s"])
  next
    case None
    then obtain str where lit: "lit = LitString str" by (auto simp: number_value_def split: literal.splits)
    obtain a h where i: "intern sz (tree_roots s) str (te_heap s) = (a, h)" by fastforce
    note k = intern_ok [OF ELiteral(2) i]
    then show ?thesis
      using ELiteral lit i by (auto simp: n eval_node_def eval_literal_def tbind_def t_intern_def treturn_def
          quiet_def retains_def sane_def literal_value_def string_of_def)
  qed
next
  case (EUnary op e l')
  then obtain m where n: "n = Suc m" by (cases n) auto
  obtain lit0 where "as_literal (folded_e e) = Some lit0"
    using EUnary.prems(1) by (cases "as_literal (folded_e e)") (auto simp: folded_unary_def)
  then obtain l0 where f: "folded_e e = ELiteral lit0 l0" by (auto simp: as_literal_Some)
  obtain v h where e: "tree_eval sz clk m e env s = Ok (v, s\<lparr>te_heap := h\<rparr>)" "quiet (te_heap s) h" "literal_value h lit0 v"
    using EUnary.IH [OF f EUnary.prems(2,3), of m] EUnary.prems(4) n by auto
  have a: "as_literal (ELiteral lit0 l0) = Some lit0" by (simp add: as_literal_def)
  show ?case
  proof (cases op)
    case UNot
    then have "lit = LitBool (\<not> literal_truthy lit0)" using EUnary.prems(1) f a by (simp add: folded_unary_def)
    then have "literal_value h lit (op_not v)"
      using literal_value_truthy [OF e(3)] by (simp add: literal_value_def number_value_def op_not_def)
    moreover have "tree_eval sz clk n (EUnary op e l') env s = Ok (op_not v, s\<lparr>te_heap := h\<rparr>)"
      using e(1) EUnary.prems(3) UNot
      by (simp add: n eval_node_def eval_unary_def eval_then_def tbind_def tget_def treturn_def failed_def)
    ultimately show ?thesis using e(2) by blast
  next
    case UNegate
    obtain w r where w: "number_value lit0 = Some w" "op_negate w = Inr r" "lit = literal_of r"
      using EUnary.prems(1) f a UNegate by (auto simp: folded_unary_def split: option.splits sum.splits)
    then have "v = w" "literal_value h (literal_of r) r"
      using literal_value_number [of lit0 w h v] e(3) literal_value_number [OF literal_of_negate [OF w(2)]] by auto
    moreover have "tree_eval sz clk n (EUnary op e l') env s = Ok (r, s\<lparr>te_heap := h\<rparr>)"
      using e(1) w(2) \<open>v = w\<close> EUnary.prems(3) UNegate
      by (simp add: n eval_node_def eval_unary_def eval_then_def tbind_def tget_def treturn_def failed_def t_result_def)
    ultimately show ?thesis using e(2) w(3) by blast
  qed
next
  case (EBinary op a b l')
  then obtain m where n: "n = Suc m" by (cases n) auto
  obtain x y p q r where fo: "as_literal (folded_e a) = Some x" "as_literal (folded_e b) = Some y"
    "number_value x = Some p" "number_value y = Some q" "op_value op p q = Inr r" "lit = literal_of r"
    using EBinary.prems(1) by (auto simp: folded_binary_def split: option.splits sum.splits elim!: bind_eq_Some_conv [THEN iffD1, elim_format])
  obtain la lb where f: "folded_e a = ELiteral x la" "folded_e b = ELiteral y lb" using fo(1,2) by (auto simp: as_literal_Some)
  obtain v h where a: "tree_eval sz clk m a env s = Ok (v, s\<lparr>te_heap := h\<rparr>)" "quiet (te_heap s) h" "literal_value h x v"
    using EBinary.IH(1) [OF f(1) EBinary.prems(2,3), of m] EBinary.prems(4) n by auto
  let ?s = "s\<lparr>te_heap := push_temp v h\<rparr>"
  have "sane (te_heap ?s)" "\<not> failed ?s" using quiet_push [OF a(2)] EBinary.prems(3) by (simp_all add: failed_def)
  from EBinary.IH(2) [OF f(2) this, of m] obtain w k where
    b: "tree_eval sz clk m b env ?s = Ok (w, s\<lparr>te_heap := k\<rparr>)" "quiet (push_temp v h) k" "literal_value k y w"
    using EBinary.prems(4) n by auto
  have vw: "v = p" "w = q" using a(3) b(3) literal_value_number fo(3,4) by blast+
  have "string_of k v = None" for k using number_value_string_of [OF fo(3)] vw by simp
  from op_add_no_string [OF this] have add: "op_add sz roots v w k = (op_value BAdd p q, k)" for roots k
    by (simp add: vw op_value_def)
  have "tree_eval sz clk n (EBinary op a b l') env s = Ok (r, s\<lparr>te_heap := pop_temp k\<rparr>)"
    using a(1) b(1) fo(5) EBinary.prems(3) add
    by (cases "op = BAdd") (simp_all add: n eval_node_def eval_binary_def eval_then_def with_temp_def tbind_def
        tget_def tmod_def treturn_def failed_def t_add_def t_result_def vw op_value_def)
  moreover have "quiet (te_heap s) (pop_temp k)" using quiet_trans [OF a(2) quiet_pop [OF b(2)]] .
  ultimately show ?case using literal_value_number [OF literal_of_op_value [OF fo(5)]] fo(6) by blast
next
  case (ELogical op a b l')
  then obtain m where n: "n = Suc m" by (cases n) auto
  obtain x where "as_literal (folded_e a) = Some x"
    using ELogical.prems(1) by (cases "as_literal (folded_e a)") auto
  then obtain la where f: "folded_e a = ELiteral x la" by (auto simp: as_literal_Some)
  obtain v h where a: "tree_eval sz clk m a env s = Ok (v, s\<lparr>te_heap := h\<rparr>)" "quiet (te_heap s) h" "literal_value h x v"
    using ELogical.IH(1) [OF f ELogical.prems(2,3), of m] ELogical.prems(4) n by auto
  note tr = literal_value_truthy [OF a(3)]
  show ?case
  proof (cases "(op = LAnd) = literal_truthy x")
    case True
    then have fb: "folded_e b = ELiteral lit l" using ELogical.prems(1) f by (simp add: as_literal_def)
    have "sane (te_heap (s\<lparr>te_heap := h\<rparr>))" "\<not> failed (s\<lparr>te_heap := h\<rparr>)"
      using a(2) ELogical.prems(3) by (simp_all add: quiet_def failed_def)
    from ELogical.IH(2) [OF fb this, of m] obtain w k where
      "tree_eval sz clk m b env (s\<lparr>te_heap := h\<rparr>) = Ok (w, s\<lparr>te_heap := k\<rparr>)" "quiet h k" "literal_value k lit w"
      using ELogical.prems(4) n by auto
    then show ?thesis
      using a(1) ELogical.prems(3) True tr quiet_trans [OF a(2)]
      by (auto simp: n eval_node_def eval_logical_def eval_then_def tbind_def tget_def treturn_def failed_def)
  next
    case False
    then have "lit = x" using ELogical.prems(1) f by (simp add: as_literal_def)
    then show ?thesis
      using a ELogical.prems(3) False tr
      by (auto simp: n eval_node_def eval_logical_def eval_then_def tbind_def tget_def treturn_def failed_def)
  qed
qed auto

subsection \<open>Statements that fold away, and what a return hides\<close>

text \<open>A condition that folds to a literal decides the branch, in every run that returns.\<close>

lemma condition_folded:
  assumes "folded_e c = ELiteral lit l" "sane (te_heap s)" "\<not> failed s"
  obtains v h where "quiet (te_heap s) h" "is_truthy v = literal_truthy lit"
    "\<And>n. tree_eval sz clk n c env s = Timeout \<or> tree_eval sz clk n c env s = Ok (v, s\<lparr>te_heap := h\<rparr>)"
    "\<And>n. eheight c < n \<Longrightarrow> tree_eval sz clk n c env s = Ok (v, s\<lparr>te_heap := h\<rparr>)"
proof -
  obtain v h where v: "tree_eval sz clk (Suc (eheight c)) c env s = Ok (v, s\<lparr>te_heap := h\<rparr>)"
    "quiet (te_heap s) h" "literal_value h lit v"
    using eval_folded [OF assms] by blast
  show thesis
  proof (rule that [OF v(2) literal_value_truthy [OF v(3)]])
    show "tree_eval sz clk n c env s = Ok (v, s\<lparr>te_heap := h\<rparr>)" if "eheight c < n" for n
    proof -
      have "less_fuel (tree_eval sz clk (Suc (eheight c)) c env) (tree_eval sz clk n c env)"
        using that by (intro more_fuel) simp
      then show ?thesis using v(1) by (simp add: less_fuel_def)
    qed
    then show "tree_eval sz clk n c env s = Timeout \<or> tree_eval sz clk n c env s = Ok (v, s\<lparr>te_heap := h\<rparr>)" for n
    proof (cases "eheight c < n")
      case False
      then have "less_fuel (tree_eval sz clk n c env) (tree_eval sz clk (Suc (eheight c)) c env)"
        by (intro more_fuel) simp
      then show ?thesis using v(1) by (auto simp: less_fuel_def)
    qed simp
  qed
qed

lemma exec_if_folded:
  assumes "tree_eval sz clk n c env s = Ok (v, s\<lparr>te_heap := h\<rparr>)" "\<not> failed s"
  shows "tree_exec sz clk (Suc n) (SIf c t eo l) env s =
    (if is_truthy v then tree_exec sz clk n t env (s\<lparr>te_heap := h\<rparr>)
     else case eo of None \<Rightarrow> Ok (FlowNormal, s\<lparr>te_heap := h\<rparr>) | Some e \<Rightarrow> tree_exec sz clk n e env (s\<lparr>te_heap := h\<rparr>))"
  using assms by (simp add: exec_node_def exec_if_def exec_then_def tbind_def tget_def treturn_def failed_def split: option.split)

lemma exec_if_timeout: "tree_eval sz clk n c env s = Timeout \<Longrightarrow> tree_exec sz clk (Suc n) (SIf c t eo l) env s = Timeout"
  by (simp add: exec_node_def exec_if_def exec_then_def tbind_def)

text \<open>The branch an \<open>if\<close> on a folded condition takes.\<close>

definition taken :: "literal \<Rightarrow> stmt \<Rightarrow> stmt option \<Rightarrow> stmt option" where
  "taken lit t eo = (if literal_truthy lit then Some t else eo)"

lemma folded_if:
  "as_literal (folded_e c) = Some lit \<Longrightarrow> folded_s (SIf c t eo l) = Option.bind (taken lit t eo) folded_s"
  by (cases eo) (simp_all add: taken_def)

lemma exec_if_taken:
  assumes "as_literal (folded_e c) = Some lit" "sane (te_heap s)" "\<not> failed s"
  obtains h where "quiet (te_heap s) h"
    "\<And>n st. taken lit t eo = Some st \<Longrightarrow> tree_exec sz clk (Suc n) (SIf c t eo l) env s \<noteq> Timeout \<Longrightarrow>
      tree_exec sz clk (Suc n) (SIf c t eo l) env s = tree_exec sz clk n st env (s\<lparr>te_heap := h\<rparr>)"
    "\<And>n st. taken lit t eo = Some st \<Longrightarrow> eheight c < n \<Longrightarrow>
      tree_exec sz clk (Suc n) (SIf c t eo l) env s = tree_exec sz clk n st env (s\<lparr>te_heap := h\<rparr>)"
    "\<And>n. taken lit t eo = None \<Longrightarrow> eheight c < n \<Longrightarrow>
      tree_exec sz clk (Suc n) (SIf c t eo l) env s = Ok (FlowNormal, s\<lparr>te_heap := h\<rparr>)"
proof -
  obtain lc where lc: "folded_e c = ELiteral lit lc" using assms(1) by (auto simp: as_literal_Some)
  obtain v h where c: "quiet (te_heap s) h" "is_truthy v = literal_truthy lit"
    "\<And>n. tree_eval sz clk n c env s = Timeout \<or> tree_eval sz clk n c env s = Ok (v, s\<lparr>te_heap := h\<rparr>)"
    "\<And>n. eheight c < n \<Longrightarrow> tree_eval sz clk n c env s = Ok (v, s\<lparr>te_heap := h\<rparr>)"
    by (rule condition_folded [OF lc assms(2,3), where sz = sz and clk = clk and env = env]) (rule that)
  have run: "tree_exec sz clk (Suc n) (SIf c t eo l) env s =
      (case taken lit t eo of None \<Rightarrow> Ok (FlowNormal, s\<lparr>te_heap := h\<rparr>)
        | Some st \<Rightarrow> tree_exec sz clk n st env (s\<lparr>te_heap := h\<rparr>))"
    if "tree_eval sz clk n c env s = Ok (v, s\<lparr>te_heap := h\<rparr>)" for n
    using exec_if_folded [OF that assms(3), of t eo l] c(2) by (simp add: taken_def split: option.split)
  show thesis
  proof (rule that [OF c(1)])
    fix n st assume "taken lit t eo = Some st" "tree_exec sz clk (Suc n) (SIf c t eo l) env s \<noteq> Timeout"
    then show "tree_exec sz clk (Suc n) (SIf c t eo l) env s = tree_exec sz clk n st env (s\<lparr>te_heap := h\<rparr>)"
      using c(3) [of n] run [of n] exec_if_timeout [of sz clk n c env s t eo l] by (auto simp del: tree_exec.simps)
  next
    fix n st assume "taken lit t eo = Some st" "eheight c < n"
    then show "tree_exec sz clk (Suc n) (SIf c t eo l) env s = tree_exec sz clk n st env (s\<lparr>te_heap := h\<rparr>)"
      using run [OF c(4)] by (simp del: tree_exec.simps)
  next
    fix n assume "taken lit t eo = None" "eheight c < n"
    then show "tree_exec sz clk (Suc n) (SIf c t eo l) env s = Ok (FlowNormal, s\<lparr>te_heap := h\<rparr>)"
      using run [OF c(4)] by (simp del: tree_exec.simps)
  qed
qed

lemma exec_removed:
  "folded_s st = None \<Longrightarrow> sane (te_heap s) \<Longrightarrow> \<not> failed s \<Longrightarrow>
   \<exists>n h. tree_exec sz clk n st env s = Ok (FlowNormal, s\<lparr>te_heap := h\<rparr>) \<and> quiet (te_heap s) h"
proof (induction st arbitrary: s)
  case (SIf c t eo l)
  then obtain lit where lit: "as_literal (folded_e c) = Some lit"
    by (cases eo; cases "as_literal (folded_e c)") auto
  from exec_if_taken [OF this SIf.prems(2,3), where t = t and eo = eo and sz = sz and clk = clk and l = l and env = env]
  obtain h where h: "quiet (te_heap s) h"
    "\<And>n st. taken lit t eo = Some st \<Longrightarrow> eheight c < n \<Longrightarrow>
      tree_exec sz clk (Suc n) (SIf c t eo l) env s = tree_exec sz clk n st env (s\<lparr>te_heap := h\<rparr>)"
    "\<And>n. taken lit t eo = None \<Longrightarrow> eheight c < n \<Longrightarrow>
      tree_exec sz clk (Suc n) (SIf c t eo l) env s = Ok (FlowNormal, s\<lparr>te_heap := h\<rparr>)" by metis
  show ?case
  proof (cases "taken lit t eo")
    case None
    then show ?thesis using h(3) [OF None, of "Suc (eheight c)"] h(1) by blast
  next
    case (Some st)
    then have "folded_s st = None" using SIf.prems(1) folded_if [OF lit] by simp
    moreover have "st = t \<or> eo = Some st" using Some by (auto simp: taken_def split: if_splits)
    ultimately obtain n k where n: "tree_exec sz clk n st env (s\<lparr>te_heap := h\<rparr>) = Ok (FlowNormal, s\<lparr>te_heap := k\<rparr>)"
      "quiet h k"
      using SIf.IH(1) [of "s\<lparr>te_heap := h\<rparr>"] SIf.IH(2) [of st "s\<lparr>te_heap := h\<rparr>"] h(1) SIf.prems(3)
      by (auto simp: quiet_def failed_def)
    let ?n = "max n (Suc (eheight c))"
    have "less_fuel (tree_exec sz clk n st env) (tree_exec sz clk ?n st env)" by (rule more_fuel) simp
    then have "tree_exec sz clk ?n st env (s\<lparr>te_heap := h\<rparr>) = Ok (FlowNormal, s\<lparr>te_heap := k\<rparr>)"
      using n(1) by (simp add: less_fuel_def)
    then have "tree_exec sz clk (Suc ?n) (SIf c t eo l) env s = Ok (FlowNormal, s\<lparr>te_heap := k\<rparr>)"
      using h(2) [OF Some, of ?n] by (simp del: tree_exec.simps)
    then show ?thesis using quiet_trans [OF h(1) n(2)] by blast
  qed
next
  case (SWhile c b l)
  then obtain lit where lit: "as_literal (folded_e c) = Some lit" "\<not> literal_truthy lit" by (auto split: if_splits)
  then obtain lc where "folded_e c = ELiteral lit lc" by (auto simp: as_literal_Some)
  from condition_folded [OF this SWhile.prems(2,3)] obtain v h where "quiet (te_heap s) h" "\<not> is_truthy v"
    "tree_eval sz clk (Suc (eheight c)) c env s = Ok (v, s\<lparr>te_heap := h\<rparr>)" using lit(2) by (metis lessI)
  then have "tree_exec sz clk (Suc (Suc (eheight c))) (SWhile c b l) env s = Ok (FlowNormal, s\<lparr>te_heap := h\<rparr>)"
    using SWhile.prems(3)
    by (simp add: exec_node_def exec_while_def exec_then_def tbind_def tget_def treturn_def failed_def del: tree_eval.simps)
  then show ?case using \<open>quiet (te_heap s) h\<close> by blast
qed auto

lemma exec_return_leaves:
  assumes "tree_exec sz clk n (SReturn v l) env s = Ok (fl, s')"
  shows "fl \<noteq> FlowNormal"
proof -
  obtain m where n: "n = Suc m" using assms by (cases n) auto
  show ?thesis
    using assms by (cases "eval_opt (tree_eval sz clk m) v env s")
      (auto simp: n exec_node_def exec_return_def exec_then_def tbind_def tget_def tmod_def treturn_def split: if_splits)
qed

lemma exec_folded_return:
  "folded_s st = Some st' \<Longrightarrow> is_return st' \<Longrightarrow> sane (te_heap s) \<Longrightarrow> \<not> failed s \<Longrightarrow>
   tree_exec sz clk n st env s = Ok (fl, s') \<Longrightarrow> fl \<noteq> FlowNormal"
proof (induction st arbitrary: s n)
  case (SIf c t eo l)
  then obtain m where n: "n = Suc m" by (cases n) auto
  obtain lit where lit: "as_literal (folded_e c) = Some lit"
    using SIf.prems(1,2) by (cases eo; cases "as_literal (folded_e c)") (auto simp: is_return_def)
  then obtain st where st: "taken lit t eo = Some st" "folded_s st = Some st'"
    using SIf.prems(1) folded_if [OF lit, of t eo l] by (cases "taken lit t eo") auto
  from exec_if_taken [OF lit SIf.prems(3,4), where t = t and eo = eo and sz = sz and clk = clk and l = l and env = env]
  obtain h where h: "quiet (te_heap s) h"
    "tree_exec sz clk (Suc m) (SIf c t eo l) env s = tree_exec sz clk m st env (s\<lparr>te_heap := h\<rparr>)"
    using st(1) SIf.prems(5) n by (metis outcome.distinct(3))
  have "st = t \<or> eo = Some st" using st(1) by (auto simp: taken_def split: if_splits)
  then show ?case
    using SIf.IH(1) [OF _ SIf.prems(2), of "s\<lparr>te_heap := h\<rparr>" m] SIf.IH(2) [of st, OF _ _ SIf.prems(2), of "s\<lparr>te_heap := h\<rparr>" m]
      h SIf.prems(4,5) st(2) n
    by (auto simp: quiet_def failed_def)
next
  case (SReturn v l)
  then show ?case using exec_return_leaves by blast
qed (auto simp: is_return_def split: if_splits)

subsection \<open>Properties\<close>


lemma sane_empty_tree: "sane (te_heap (empty_tree empty_heap))" "\<not> failed (empty_tree empty_heap)"
  using empty_tree_ok [of False] by (simp_all add: resting_def tree_inv_def empty_tree_def empty_heap_def failed_def)






text \<open>Folding a folded program changes nothing and counts nothing.\<close>

theorem fold_twice:
  "\<exists>s. fold_program sz (fst (fold_program fsz p)) = (fst (fold_program fsz p), s) \<and>
    fl_expressions_folded s = 0 \<and> fl_statements_removed s = 0"
proof -
  let ?ss = "folded_ss (pr_statements p)"
  have q: "fst (fold_program fsz p) = p\<lparr>pr_statements := ?ss\<rparr>"
    by (simp add: fold_program_def split_beta fold_folded_s Let_def)
  obtain t where "fold_stmts sz ?ss init_folder = (?ss, t)" "counts t = counts init_folder"
    using fold_stmt_again(2) by blast
  then show ?thesis unfolding q by (simp add: fold_program_def counts_def init_folder_def)
qed

text \<open>C25. Folding keeps what the resolver established, hops included: a folded program runs on the
  tree-walking engine as safely as the program it came from.\<close>

theorem fold_safe:
  assumes "parse src = Ok p" "resolve p = Inr q"
  shows "scoped_ss 0 [] (pr_statements (fst (fold_program fsz q))) \<and>
    (case tree_run sz clk n (pr_statements (fst (fold_program fsz q))) (init_tree sz (empty_heap\<lparr>hp_stress := b\<rparr>)) of
      Ok (e, s) \<Rightarrow> resting s | Error f \<Rightarrow> False | Timeout \<Rightarrow> True)"
proof -
  have "pr_statements (fst (fold_program fsz q)) = folded_ss (pr_statements q)"
    by (simp add: fold_program_def split_beta fold_folded_s Let_def)
  moreover have "scoped_ss 0 [] (folded_ss (pr_statements q)) \<and> plain_ss (folded_ss (pr_statements q))"
    using scoped_folded_s(2) [OF front_end_ok [OF assms]] .
  ultimately show ?thesis
    using tree_run_ok [OF init_tree_ok [of sz b], of "folded_ss (pr_statements q)" sz clk n] by (simp add: tok_def)
qed

theorem fold_safe_witness:
  "case tree_run (\<lambda>_. 40) (\<lambda>_. 0) 9 [] (init_tree (\<lambda>_. 40) (empty_heap\<lparr>hp_stress := True\<rparr>)) of
      Ok (e, s) \<Rightarrow> resting s | Error f \<Rightarrow> False | Timeout \<Rightarrow> True"
proof -
  let ?src = "''if(nil)1;''"
  let ?st = "SIf (ELiteral LitNil 1) (SExpr (ELiteral (LitInt 1) 1) 1) None 1"
  let ?p = "\<lparr>pr_source = ?src, pr_tokens = lr_tokens (lex ?src), pr_statements = [?st]\<rparr>"
  have "parse ?src = Ok ?p" by code_simp
  moreover have "resolve ?p = Inr ?p" by code_simp
  moreover have "pr_statements (fst (fold_program (\<lambda>_. 8) ?p)) = []"
    by (simp add: fold_program_def split_beta fold_folded_s as_literal_def literal_truthy_def Let_def)
  ultimately show ?thesis using fold_safe [of ?src ?p ?p "\<lambda>_. 8" "\<lambda>_. 40" "\<lambda>_. 0" 9 True] by simp
qed

end
