(* ===== verification/Exec_Monad.thy ===== *)
theory Exec_Monad
  imports Prelude
begin

text \<open>
  Actions on a machine state that may stop with an error or run out of fuel, for the compilers and
  the virtual machines, and their weakest precondition: \<open>xwp m s Q E\<close> says that \<open>m\<close> from \<open>s\<close> ends in
  \<open>Q\<close> when it returns and in \<open>E\<close> when it stops. The rules below walk through a sequence of actions.
\<close>

type_synonym ('s, 'e, 'a) exec = "'s \<Rightarrow> ('e, 'a \<times> 's) outcome"

definition xreturn :: "'a \<Rightarrow> ('s, 'e, 'a) exec" where
  "xreturn x s = Ok (x, s)"

definition xbind :: "('s, 'e, 'a) exec \<Rightarrow> ('a \<Rightarrow> ('s, 'e, 'b) exec) \<Rightarrow> ('s, 'e, 'b) exec" where
  "xbind m k s = bindo (m s) (\<lambda>(x, s). k x s)"

abbreviation xseq :: "('s, 'e, 'a) exec \<Rightarrow> ('s, 'e, 'b) exec \<Rightarrow> ('s, 'e, 'b) exec" where
  "xseq m k \<equiv> xbind m (\<lambda>_. k)"

definition xget :: "('s \<Rightarrow> 'a) \<Rightarrow> ('s, 'e, 'a) exec" where
  "xget f s = Ok (f s, s)"

definition xmod :: "('s \<Rightarrow> 's) \<Rightarrow> ('s, 'e, unit) exec" where
  "xmod f s = Ok ((), f s)"

definition xstop :: "('s \<Rightarrow> 'e) \<Rightarrow> ('s, 'e, 'a) exec" where
  "xstop e s = Error (e s)"

text \<open>An optional result that has to be there.\<close>

definition xthe :: "'e \<Rightarrow> 'a option \<Rightarrow> ('s, 'e, 'a) exec" where
  "xthe e x s = (case x of None \<Rightarrow> Error e | Some y \<Rightarrow> Ok (y, s))"

definition xassert :: "'e \<Rightarrow> bool \<Rightarrow> ('s, 'e, unit) exec" where
  "xassert e b s = (if b then Ok ((), s) else Error e)"

definition xwp :: "('s, 'e, 'a) exec \<Rightarrow> 's \<Rightarrow> ('a \<Rightarrow> 's \<Rightarrow> bool) \<Rightarrow> ('e \<Rightarrow> bool) \<Rightarrow> bool" where
  "xwp m s Q E = (case m s of Ok (x, t) \<Rightarrow> Q x t | Error e \<Rightarrow> E e | Timeout \<Rightarrow> True)"

lemma xwp_return: "xwp (xreturn x) s Q E = Q x s"
  by (simp add: xwp_def xreturn_def)

lemma xwp_bind: "xwp (xbind m k) s Q E = xwp m s (\<lambda>x t. xwp (k x) t Q E) E"
  by (cases "m s") (auto simp: xwp_def xbind_def)

lemma xwp_get: "xwp (xget f) s Q E = Q (f s) s"
  by (simp add: xwp_def xget_def)

lemma xwp_mod: "xwp (xmod f) s Q E = Q () (f s)"
  by (simp add: xwp_def xmod_def)

lemma xwp_stop: "xwp (xstop e) s Q E = E (e s)"
  by (simp add: xwp_def xstop_def)

lemma xwp_the: "xwp (xthe e x) s Q E = (case x of None \<Rightarrow> E e | Some y \<Rightarrow> Q y s)"
  by (simp add: xwp_def xthe_def split: option.split)

lemma xwp_assert: "xwp (xassert e b) s Q E = (if b then Q () s else E e)"
  by (simp add: xwp_def xassert_def)

lemmas xwp_simps = xwp_return xwp_bind xwp_get xwp_mod xwp_stop xwp_the xwp_assert

lemma xwp_mono: "xwp m s Q E \<Longrightarrow> (\<And>x t. Q x t \<Longrightarrow> R x t) \<Longrightarrow> (\<And>e. E e \<Longrightarrow> F e) \<Longrightarrow> xwp m s R F"
  by (auto simp: xwp_def split: outcome.splits)

end
