(* ===== verification/Stack_Compiler.thy ===== *)
theory Stack_Compiler
  imports Exec_Monad Heap
begin

text \<open>
  \<open>compiler_stack.h\<close> and \<open>compiler_stack.cpp\<close>: the single-pass compiler from the resolved tree to
  stack bytecode. The functions under construction are a list, innermost first (\<open>current_\<close> and its
  \<open>enclosing\<close> links); their chunks live in heap objects, as in the code. \<open>roots\<close> are the addresses
  that the other root markers of the heap mark. A failed assertion or a null pointer is \<open>Stuck\<close>; a
  thrown \<open>CompileError\<close> carries the heap it leaves behind.
\<close>

subsection \<open>The state\<close>

record clocal =
  lc_name :: string
  lc_depth :: nat
  lc_captured :: bool

record upvalue_ref =
  ur_index :: byte
  ur_is_local :: bool

record function_state =
  fs_function :: addr
  fs_locals :: "clocal list"
  fs_upvalues :: "upvalue_ref list"
  fs_scope_depth :: nat
  fs_string_constants :: "(addr \<times> nat) list"

record stack_compiler =
  sc_heap :: heap
  sc_current :: "function_state list"

datatype compile_stop = TooLarge compile_error heap | Stuck

type_synonym 'a cm = "(stack_compiler, compile_stop, 'a) exec"

definition compiler_roots :: "stack_compiler \<Rightarrow> addr list" where
  "compiler_roots s = map fs_function (sc_current s)"

definition too_large :: "nat \<Rightarrow> 'a cm" where
  "too_large line = xstop (\<lambda>s. TooLarge \<lparr>ce_line = line, ce_message = ''function too large''\<rparr> (sc_heap s))"

definition c_allocate :: "(obj \<Rightarrow> nat) \<Rightarrow> addr list \<Rightarrow> obj \<Rightarrow> addr cm" where
  "c_allocate sz roots ob s =
     (let (a, h) = allocate sz (roots @ compiler_roots s) ob (sc_heap s) in Ok (a, s\<lparr>sc_heap := h\<rparr>))"

definition c_intern :: "(obj \<Rightarrow> nat) \<Rightarrow> addr list \<Rightarrow> string \<Rightarrow> addr cm" where
  "c_intern sz roots bytes s =
     (let (a, h) = intern sz (roots @ compiler_roots s) bytes (sc_heap s) in Ok (a, s\<lparr>sc_heap := h\<rparr>))"

text \<open>\<open>*current_\<close>, read and written.\<close>

definition c_current :: "function_state cm" where
  "c_current = xbind (xget sc_current) (\<lambda>fs. case fs of [] \<Rightarrow> xstop (\<lambda>_. Stuck) | f # _ \<Rightarrow> xreturn f)"

definition c_update :: "(function_state \<Rightarrow> function_state) \<Rightarrow> unit cm" where
  "c_update g =
     xbind (xget sc_current) (\<lambda>fs.
       case fs of [] \<Rightarrow> xstop (\<lambda>_. Stuck) | f # rest \<Rightarrow> xmod (\<lambda>s. s\<lparr>sc_current := g f # rest\<rparr>))"

definition get_function :: "addr \<Rightarrow> function_object cm" where
  "get_function a =
     xbind (xget (\<lambda>s. obj_at (sc_heap s) a)) (\<lambda>ob.
       case ob of Some (OFunction f) \<Rightarrow> xreturn f | _ \<Rightarrow> xstop (\<lambda>_. Stuck))"

definition set_function :: "addr \<Rightarrow> (function_object \<Rightarrow> function_object) \<Rightarrow> unit cm" where
  "set_function a g =
     xbind (get_function a) (\<lambda>f. xmod (\<lambda>s. s\<lparr>sc_heap := set_obj a (OFunction (g f)) (sc_heap s)\<rparr>))"

definition c_chunk :: "chunk cm" where
  "c_chunk = xbind c_current (\<lambda>fs. xbind (get_function (fs_function fs)) (\<lambda>f. xreturn (fo_chunk f)))"

definition c_set_chunk :: "(chunk \<Rightarrow> chunk) \<Rightarrow> unit cm" where
  "c_set_chunk g =
     xbind c_current (\<lambda>fs. set_function (fs_function fs) (\<lambda>f. f\<lparr>fo_chunk := g (fo_chunk f)\<rparr>))"

subsection \<open>Function setup and emission\<close>

definition new_function :: "addr option \<Rightarrow> obj" where
  "new_function name =
     OFunction \<lparr>fo_name = name, fo_arity = 0, fo_upvalue_count = 0, fo_chunk = empty_chunk, fo_reg = empty_reg_chunk\<rparr>"

definition begin_function :: "(obj \<Rightarrow> nat) \<Rightarrow> addr list \<Rightarrow> string \<Rightarrow> unit cm" where
  "begin_function sz roots name =
     xbind
       (if name = [] then c_allocate sz roots (new_function None)
        else
          xbind (c_intern sz roots name) (\<lambda>interned.
          xbind (xmod (\<lambda>s. s\<lparr>sc_heap := push_temp (VObj interned) (sc_heap s)\<rparr>)) (\<lambda>_.
          xbind (c_allocate sz roots (new_function (Some interned))) (\<lambda>fn.
          xbind (xmod (\<lambda>s. s\<lparr>sc_heap := pop_temp (sc_heap s)\<rparr>)) (\<lambda>_. xreturn fn)))))
     (\<lambda>fn.
       xmod (\<lambda>s. s\<lparr>sc_current :=
         \<lparr>fs_function = fn, fs_locals = [\<lparr>lc_name = [], lc_depth = 0, lc_captured = False\<rparr>],
          fs_upvalues = [], fs_scope_depth = 0, fs_string_constants = []\<rparr> # sc_current s\<rparr>))"

definition c_emit :: "opcode \<Rightarrow> nat \<Rightarrow> unit cm" where
  "c_emit op line = c_set_chunk (emit_op op line)"

definition c_emit_byte :: "byte \<Rightarrow> nat \<Rightarrow> unit cm" where
  "c_emit_byte b line = c_set_chunk (emit_byte b line)"

definition c_emit_u8 :: "opcode \<Rightarrow> nat \<Rightarrow> nat \<Rightarrow> unit cm" where
  "c_emit_u8 op operand line =
     xseq (xassert Stuck (operand \<le> 255)) (xseq (c_emit op line) (c_emit_byte (of_nat operand) line))"

definition c_emit_u24 :: "opcode \<Rightarrow> nat \<Rightarrow> nat \<Rightarrow> unit cm" where
  "c_emit_u24 op operand line =
     (if unat kMaxU24 < operand then too_large line
      else xseq (c_emit op line) (c_set_chunk (emit_u24 (of_nat operand) line)))"

definition c_constant :: "value \<Rightarrow> nat \<Rightarrow> nat cm" where
  "c_constant v line =
     xbind c_chunk (\<lambda>chunk.
     xseq (c_set_chunk (\<lambda>c. snd (add_constant v c)))
       (let index = fst (add_constant v chunk)
        in if unat kMaxU24 < index then too_large line else xreturn index))"

definition string_constant :: "(obj \<Rightarrow> nat) \<Rightarrow> addr list \<Rightarrow> string \<Rightarrow> nat \<Rightarrow> nat cm" where
  "string_constant sz roots bytes line =
     xbind (c_intern sz roots bytes) (\<lambda>str.
     xbind c_current (\<lambda>fs.
       case map_of (fs_string_constants fs) str of
         Some index \<Rightarrow> xreturn index
       | None \<Rightarrow>
           xbind (c_constant (VObj str) line) (\<lambda>index.
           xseq (c_update (\<lambda>f. f\<lparr>fs_string_constants := (str, index) # fs_string_constants f\<rparr>))
             (xreturn index))))"

definition emit_jump :: "opcode \<Rightarrow> nat \<Rightarrow> nat cm" where
  "emit_jump op line =
     xseq (c_emit op line)
       (xbind c_chunk (\<lambda>chunk.
        xseq (c_emit_byte 0xFF line) (xseq (c_emit_byte 0xFF line) (xseq (c_emit_byte 0xFF line)
          (xreturn (length (ch_code chunk)))))))"

text \<open>\<open>put_u24(&code[operand], value)\<close>.\<close>

definition code_put_u24 :: "nat \<Rightarrow> 32 word \<Rightarrow> chunk \<Rightarrow> chunk" where
  "code_put_u24 operand v c =
     c\<lparr>ch_code := take operand (ch_code c) @ put_u24 v @ drop (operand + 3) (ch_code c)\<rparr>"

definition patch_jump :: "nat \<Rightarrow> nat \<Rightarrow> unit cm" where
  "patch_jump operand line =
     xbind c_chunk (\<lambda>chunk.
       let distance = length (ch_code chunk) - (operand + 3)
       in if unat kMaxU24 < distance then too_large line
          else c_set_chunk (code_put_u24 operand (of_nat distance)))"

definition emit_loop :: "nat \<Rightarrow> nat \<Rightarrow> unit cm" where
  "emit_loop loop_start line =
     xseq (c_emit OpLoop line)
       (xbind c_chunk (\<lambda>chunk.
          let distance = length (ch_code chunk) + 3 - loop_start
          in if unat kMaxU24 < distance then too_large line
             else c_set_chunk (emit_u24 (of_nat distance) line)))"

subsection \<open>Locals and upvalues\<close>

definition at_global_scope :: "stack_compiler \<Rightarrow> bool" where
  "at_global_scope s \<longleftrightarrow> (case sc_current s of [fs] \<Rightarrow> fs_scope_depth fs = 0 | _ \<Rightarrow> False)"

definition add_local :: "string \<Rightarrow> unit cm" where
  "add_local name =
     xbind c_current (\<lambda>fs.
     xseq (xassert Stuck (length (fs_locals fs) \<le> 255))
       (c_update (\<lambda>f. f\<lparr>fs_locals :=
          fs_locals f @ [\<lparr>lc_name = name, lc_depth = fs_scope_depth f, lc_captured = False\<rparr>]\<rparr>)))"

text \<open>The search from the newest local down to slot 1.\<close>

fun find_local :: "clocal list \<Rightarrow> string \<Rightarrow> nat \<Rightarrow> nat option" where
  "find_local locals name 0 = None"
| "find_local locals name (Suc i) =
     (if i = 0 then None
      else if lc_name (locals ! i) = name then Some i else find_local locals name i)"

definition resolve_local :: "function_state \<Rightarrow> string \<Rightarrow> nat option" where
  "resolve_local fn name = find_local (fs_locals fn) name (length (fs_locals fn))"

fun find_upvalue :: "upvalue_ref list \<Rightarrow> upvalue_ref \<Rightarrow> nat \<Rightarrow> nat option" where
  "find_upvalue [] u i = None"
| "find_upvalue (v # vs) u i = (if v = u then Some i else find_upvalue vs u (i + 1))"

definition add_upvalue :: "function_state \<Rightarrow> byte \<Rightarrow> bool \<Rightarrow> (nat \<times> function_state) option" where
  "add_upvalue fn index is_local =
     (let u = \<lparr>ur_index = index, ur_is_local = is_local\<rparr>
      in case find_upvalue (fs_upvalues fn) u 0 of
           Some i \<Rightarrow> Some (i, fn)
         | None \<Rightarrow>
             if length (fs_upvalues fn) < 255
             then Some (length (fs_upvalues fn), fn\<lparr>fs_upvalues := fs_upvalues fn @ [u]\<rparr>)
             else None)"

definition capture_local :: "nat \<Rightarrow> function_state \<Rightarrow> function_state" where
  "capture_local i fn = fn\<lparr>fs_locals := (fs_locals fn)[i := (fs_locals fn ! i)\<lparr>lc_captured := True\<rparr>]\<rparr>"

text \<open>The outer option is a failed assertion, the inner one \<open>-1\<close>.\<close>

fun resolve_upvalue :: "string \<Rightarrow> function_state list \<Rightarrow> (nat option \<times> function_state list) option" where
  "resolve_upvalue name (fn # enclosing # rest) =
     (case resolve_local enclosing name of
        Some l \<Rightarrow>
          map_option (\<lambda>(i, fn). (Some i, fn # capture_local l enclosing # rest)) (add_upvalue fn (of_nat l) True)
      | None \<Rightarrow>
          (case resolve_upvalue name (enclosing # rest) of
             None \<Rightarrow> None
           | Some (None, outer) \<Rightarrow> Some (None, fn # outer)
           | Some (Some u, outer) \<Rightarrow>
               map_option (\<lambda>(i, fn). (Some i, fn # outer)) (add_upvalue fn (of_nat u) False)))"
| "resolve_upvalue name fs = Some (None, fs)"

definition emit_local_access :: "string \<Rightarrow> bool \<Rightarrow> nat \<Rightarrow> unit cm" where
  "emit_local_access name store line =
     xbind c_current (\<lambda>fs.
       case resolve_local fs name of
         Some slot \<Rightarrow> c_emit_u8 (if store then OpSetLocal else OpGetLocal) slot line
       | None \<Rightarrow>
           xbind (xget sc_current) (\<lambda>chain.
           xbind (xthe Stuck (resolve_upvalue name chain)) (\<lambda>(upvalue, chain).
           xseq (xmod (\<lambda>s. s\<lparr>sc_current := chain\<rparr>))
             (xbind (xthe Stuck upvalue) (\<lambda>u.
                c_emit_u8 (if store then OpSetUpvalue else OpGetUpvalue) u line)))))"

text \<open>The loop that ends a scope; there is always slot 0, which has depth 0.\<close>

fun pop_locals :: "nat \<Rightarrow> nat \<Rightarrow> unit cm" where
  "pop_locals 0 line = xstop (\<lambda>_. Stuck)"
| "pop_locals (Suc n) line =
     xbind c_current (\<lambda>fs.
       let l = fs_locals fs ! n
       in if fs_scope_depth fs < lc_depth l
          then xseq (c_emit (if lc_captured l then OpCloseUpvalue else OpPop) line)
            (xseq (c_update (\<lambda>f. f\<lparr>fs_locals := butlast (fs_locals f)\<rparr>)) (pop_locals n line))
          else xreturn ())"

definition end_scope :: "nat \<Rightarrow> unit cm" where
  "end_scope line =
     xseq (c_update (\<lambda>f. f\<lparr>fs_scope_depth := fs_scope_depth f - 1\<rparr>))
       (xbind c_current (\<lambda>fs. pop_locals (length (fs_locals fs)) line))"

subsection \<open>Expressions\<close>

definition c_literal :: "(obj \<Rightarrow> nat) \<Rightarrow> addr list \<Rightarrow> literal \<Rightarrow> nat \<Rightarrow> unit cm" where
  "c_literal sz roots lit line =
     (case lit of
        LitNil \<Rightarrow> c_emit OpNil line
      | LitBool b \<Rightarrow> c_emit (if b then OpTrue else OpFalse) line
      | LitInt i \<Rightarrow> xbind (c_constant (VInt i) line) (\<lambda>k. c_emit_u24 OpConst k line)
      | LitFloat d \<Rightarrow> xbind (c_constant (VFloat d) line) (\<lambda>k. c_emit_u24 OpConst k line)
      | LitString str \<Rightarrow> xbind (string_constant sz roots str line) (\<lambda>k. c_emit_u24 OpConst k line))"

definition c_variable :: "(obj \<Rightarrow> nat) \<Rightarrow> addr list \<Rightarrow> sview \<Rightarrow> binding \<Rightarrow> bool \<Rightarrow> nat \<Rightarrow> unit cm" where
  "c_variable sz roots x b store line =
     (case b of
        GlobalBinding \<Rightarrow>
          xbind (string_constant sz roots (sv_text x) line) (\<lambda>k.
            c_emit_u24 (if store then OpSetGlobal else OpGetGlobal) k line)
      | LocalBinding hops \<Rightarrow> emit_local_access (sv_text x) store line
      | Unresolved \<Rightarrow> xstop (\<lambda>_. Stuck))"

definition binary_opcode :: "binary_op \<Rightarrow> opcode" where
  "binary_opcode op =
     (case op of
        BAdd \<Rightarrow> OpAdd | BSub \<Rightarrow> OpSub | BMul \<Rightarrow> OpMul | BDiv \<Rightarrow> OpDiv | BMod \<Rightarrow> OpMod
      | BEq \<Rightarrow> OpEq | BNe \<Rightarrow> OpNe | BLt \<Rightarrow> OpLt | BLe \<Rightarrow> OpLe | BGt \<Rightarrow> OpGt | BGe \<Rightarrow> OpGe)"

fun c_expr :: "(obj \<Rightarrow> nat) \<Rightarrow> addr list \<Rightarrow> expr \<Rightarrow> unit cm" and
    c_exprs :: "(obj \<Rightarrow> nat) \<Rightarrow> addr list \<Rightarrow> expr list \<Rightarrow> unit cm" where
  "c_expr sz roots (ELiteral lit line) = c_literal sz roots lit line"
| "c_expr sz roots (EVariable x b line) = c_variable sz roots x b False line"
| "c_expr sz roots (EAssign x e b line) = xseq (c_expr sz roots e) (c_variable sz roots x b True line)"
| "c_expr sz roots (EUnary op e line) =
     xseq (c_expr sz roots e) (c_emit (case op of UNegate \<Rightarrow> OpNeg | UNot \<Rightarrow> OpNot) line)"
| "c_expr sz roots (EBinary op l r line) =
     xseq (c_expr sz roots l) (xseq (c_expr sz roots r) (c_emit (binary_opcode op) line))"
| "c_expr sz roots (ELogical op l r line) =
     xseq (c_expr sz roots l)
       (case op of
          LAnd \<Rightarrow>
            xbind (emit_jump OpJumpIfFalse line) (\<lambda>end_jump.
            xseq (c_emit OpPop line)
              (xseq (c_expr sz roots r) (patch_jump end_jump line)))
        | LOr \<Rightarrow>
            xbind (emit_jump OpJumpIfFalse line) (\<lambda>evaluate_right.
            xbind (emit_jump OpJump line) (\<lambda>end_jump.
            xseq (patch_jump evaluate_right line)
              (xseq (c_emit OpPop line)
                (xseq (c_expr sz roots r) (patch_jump end_jump line))))))"
| "c_expr sz roots (ECall f args line) =
     xseq (c_expr sz roots f) (xseq (c_exprs sz roots args) (c_emit_u8 OpCall (length args) line))"
| "c_expr sz roots (EArrayLiteral es line) =
     xseq (c_exprs sz roots es) (c_emit_u24 OpArray (length es) line)"
| "c_expr sz roots (EIndex ob i line) =
     xseq (c_expr sz roots ob) (xseq (c_expr sz roots i) (c_emit OpIndexGet line))"
| "c_expr sz roots (EIndexAssign ob i v line) =
     xseq (c_expr sz roots ob)
       (xseq (c_expr sz roots i) (xseq (c_expr sz roots v) (c_emit OpIndexSet line)))"
| "c_exprs sz roots [] = xreturn ()"
| "c_exprs sz roots (e # es) = xseq (c_expr sz roots e) (c_exprs sz roots es)"

definition c_opt :: "(obj \<Rightarrow> nat) \<Rightarrow> addr list \<Rightarrow> expr option \<Rightarrow> nat \<Rightarrow> unit cm" where
  "c_opt sz roots e line = (case e of Some e \<Rightarrow> c_expr sz roots e | None \<Rightarrow> c_emit OpNil line)"

subsection \<open>Statements\<close>

text \<open>What \<open>compile_function\<close> does before and after the body.\<close>

definition open_function :: "(obj \<Rightarrow> nat) \<Rightarrow> addr list \<Rightarrow> string \<Rightarrow> sview list \<Rightarrow> unit cm" where
  "open_function sz roots name params =
     xseq (begin_function sz roots name)
       (xseq (c_update (\<lambda>f. f\<lparr>fs_scope_depth := 1\<rparr>))
         (xseq (fold (\<lambda>p m. xseq m (add_local (sv_text p))) params (xreturn ()))
           (xbind c_current (\<lambda>fs. set_function (fs_function fs) (\<lambda>f. f\<lparr>fo_arity := length params\<rparr>)))))"

fun emit_upvalue_refs :: "upvalue_ref list \<Rightarrow> nat \<Rightarrow> unit cm" where
  "emit_upvalue_refs [] line = xreturn ()"
| "emit_upvalue_refs (up # ups) line =
     xseq (c_emit_byte (if ur_is_local up then 1 else 0) line)
       (xseq (c_emit_byte (ur_index up) line) (emit_upvalue_refs ups line))"

definition close_function :: "nat \<Rightarrow> unit cm" where
  "close_function line =
     xseq (c_emit OpNil line)
       (xseq (c_emit OpReturn line)
         (xbind c_current (\<lambda>state.
          xseq (set_function (fs_function state) (\<lambda>f. f\<lparr>fo_upvalue_count := length (fs_upvalues state)\<rparr>))
            (xseq (xmod (\<lambda>s. s\<lparr>sc_current := tl (sc_current s)\<rparr>))
              (xbind (c_constant (VObj (fs_function state)) line) (\<lambda>k.
               xseq (c_emit_u24 OpClosure k line) (emit_upvalue_refs (fs_upvalues state) line)))))))"

text \<open>A name at the top level becomes a global, anywhere else a local.\<close>

definition define_global :: "(obj \<Rightarrow> nat) \<Rightarrow> addr list \<Rightarrow> string \<Rightarrow> nat \<Rightarrow> unit cm" where
  "define_global sz roots name line =
     xbind (string_constant sz roots name line) (\<lambda>k. c_emit_u24 OpDefineGlobal k line)"

fun c_stmt :: "(obj \<Rightarrow> nat) \<Rightarrow> addr list \<Rightarrow> stmt \<Rightarrow> unit cm" and
    c_stmts :: "(obj \<Rightarrow> nat) \<Rightarrow> addr list \<Rightarrow> stmt list \<Rightarrow> unit cm" where
  "c_stmt sz roots (SPrint e line) = xseq (c_expr sz roots e) (c_emit OpPrint line)"
| "c_stmt sz roots (SExpr e line) = xseq (c_expr sz roots e) (c_emit OpPop line)"
| "c_stmt sz roots (SLet x init line) =
     xseq (c_opt sz roots init line)
       (xbind (xget at_global_scope) (\<lambda>global.
          if global then define_global sz roots (sv_text x) line else add_local (sv_text x)))"
| "c_stmt sz roots (SBlock ss line) =
     xseq (c_update (\<lambda>f. f\<lparr>fs_scope_depth := fs_scope_depth f + 1\<rparr>))
       (xseq (c_stmts sz roots ss) (end_scope line))"
| "c_stmt sz roots (SIf c t None line) =
     xseq (c_expr sz roots c)
       (xbind (emit_jump OpJumpIfFalse line) (\<lambda>to_else.
        xseq (c_emit OpPop line)
          (xseq (c_stmt sz roots t)
            (xbind (emit_jump OpJump line) (\<lambda>to_end.
             xseq (patch_jump to_else line) (xseq (c_emit OpPop line) (patch_jump to_end line)))))))"
| "c_stmt sz roots (SIf c t (Some e) line) =
     xseq (c_expr sz roots c)
       (xbind (emit_jump OpJumpIfFalse line) (\<lambda>to_else.
        xseq (c_emit OpPop line)
          (xseq (c_stmt sz roots t)
            (xbind (emit_jump OpJump line) (\<lambda>to_end.
             xseq (patch_jump to_else line)
               (xseq (c_emit OpPop line) (xseq (c_stmt sz roots e) (patch_jump to_end line))))))))"
| "c_stmt sz roots (SWhile c body line) =
     xbind c_chunk (\<lambda>chunk.
     xseq (c_expr sz roots c)
       (xbind (emit_jump OpJumpIfFalse line) (\<lambda>exit_jump.
        xseq (c_emit OpPop line)
          (xseq (c_stmt sz roots body)
            (xseq (emit_loop (length (ch_code chunk)) line)
              (xseq (patch_jump exit_jump line) (c_emit OpPop line)))))))"
| "c_stmt sz roots (SReturn e line) = xseq (c_opt sz roots e line) (c_emit OpReturn line)"
| "c_stmt sz roots (SFunction f ps body bline line) =
     xbind (xget at_global_scope) (\<lambda>global.
       xseq (if global then xreturn () else add_local (sv_text f))
         (xseq (open_function sz roots (sv_text f) ps)
           (xseq (c_stmts sz roots body)
             (xseq (close_function line)
               (if global then define_global sz roots (sv_text f) line else xreturn ())))))"
| "c_stmts sz roots [] = xreturn ()"
| "c_stmts sz roots (st # sts) = xseq (c_stmt sz roots st) (c_stmts sz roots sts)"

subsection \<open>The script\<close>

definition end_line :: "program \<Rightarrow> nat" where
  "end_line p = (if pr_tokens p = [] then 1 else tk_line (last (pr_tokens p)))"

definition compile_script :: "(obj \<Rightarrow> nat) \<Rightarrow> addr list \<Rightarrow> program \<Rightarrow> addr cm" where
  "compile_script sz roots p =
     xseq (begin_function sz roots [])
       (xseq (c_stmts sz roots (pr_statements p))
         (xseq (c_emit OpNil (end_line p))
           (xseq (c_emit OpReturn (end_line p))
             (xbind c_current (\<lambda>state.
              xseq (xmod (\<lambda>s. s\<lparr>sc_current := []\<rparr>)) (xreturn (fs_function state)))))))"

text \<open>\<open>compile_stack\<close>: the script function or the compile error, and the heap.\<close>

definition compile_stack :: "(obj \<Rightarrow> nat) \<Rightarrow> addr list \<Rightarrow> program \<Rightarrow> heap \<Rightarrow>
    (compile_stop, (compile_error + addr) \<times> heap) outcome" where
  "compile_stack sz roots p h =
     (case compile_script sz roots p \<lparr>sc_heap = h, sc_current = []\<rparr> of
        Ok (fn, s) \<Rightarrow> Ok (Inr fn, sc_heap s)
      | Error (TooLarge e h) \<Rightarrow> Ok (Inl e, h)
      | Error Stuck \<Rightarrow> Error Stuck
      | Timeout \<Rightarrow> Timeout)"

end
