(* ===== verification/Stack_VM.thy ===== *)
theory Stack_VM
  imports Stack_Compiler Ops "HOL-Library.AList"
begin

text \<open>
  \<open>vm_stack.h\<close> and \<open>vm_stack.cpp\<close>: the bytecode machine. The value stack is the list of its live
  slots, the frames are a list with the running one first, and the open upvalues are a list, highest
  slot first (\<open>open_upvalues_\<close> and its \<open>next_open\<close> links). The dispatch loop keeps the running
  frame's \<open>ip\<close> and the stack pointer in C++ locals and saves them before anything that can fail or
  allocate; here they are the fields themselves. A null or dangling pointer, a bad operand or opcode,
  an empty stack and an element past the end of the stack's memory are the faults. \<open>sz\<close> is the bytes
  an object accounts for and \<open>clk\<close> the readings of the clock. The instruction counters, which a
  build option adds, are not modelled.
\<close>

subsection \<open>The state\<close>

definition kFrameSlots :: nat where "kFrameSlots = 256"
definition kTempSlack :: nat where "kTempSlack = 4194304"
definition kStackSlots :: nat where "kStackSlots = kMaxCallDepth * kFrameSlots + kTempSlack"
definition kMaxFrames :: nat where "kMaxFrames = kMaxCallDepth + 1"

record call_frame =
  cf_closure :: addr
  cf_ip :: nat
  cf_base :: nat

datatype vm_fault = BadPointer | BadCode | StackUnderrun | StackOverrun | FramesOverrun

datatype call_outcome = CallError | PushedFrame | NativeDone

record stack_vm =
  vm_heap :: heap
  vm_stack :: "value list"
  vm_frames :: "call_frame list"
  vm_uncounted :: nat
  vm_open :: "addr list"
  vm_globals :: "(addr \<times> value) list"
  vm_result :: "value"
  vm_error :: "runtime_error option"
  vm_out :: string
  vm_ticks :: nat

type_synonym 'a vm = "(stack_vm, vm_fault, 'a) exec"

definition vm_fail_with :: "vm_fault \<Rightarrow> 'a vm" where
  "vm_fail_with f = xstop (\<lambda>_. f)"

definition vm_roots :: "stack_vm \<Rightarrow> addr list" where
  "vm_roots s =
     concat (map value_addrs (vm_stack s)) @ map cf_closure (vm_frames s) @ vm_open s @
     concat (map (\<lambda>(name, v). name # value_addrs v) (vm_globals s))"

definition vm_allocate :: "(obj \<Rightarrow> nat) \<Rightarrow> obj \<Rightarrow> addr vm" where
  "vm_allocate sz ob s =
     (let (a, h) = allocate sz (vm_roots s) ob (vm_heap s) in Ok (a, s\<lparr>vm_heap := h\<rparr>))"

definition vm_set_obj :: "addr \<Rightarrow> obj \<Rightarrow> unit vm" where
  "vm_set_obj a ob = xmod (\<lambda>s. s\<lparr>vm_heap := set_obj a ob (vm_heap s)\<rparr>)"

text \<open>Reading objects through pointers.\<close>

definition vm_object :: "addr \<Rightarrow> obj vm" where
  "vm_object a = xbind (xget (\<lambda>s. obj_at (vm_heap s) a)) (xthe BadPointer)"

definition vm_closure :: "addr \<Rightarrow> (addr \<times> addr option list) vm" where
  "vm_closure a =
     xbind (vm_object a) (\<lambda>ob. case ob of OClosure f us \<Rightarrow> xreturn (f, us) | _ \<Rightarrow> vm_fail_with BadPointer)"

definition vm_function :: "addr \<Rightarrow> function_object vm" where
  "vm_function a =
     xbind (vm_object a) (\<lambda>ob. case ob of OFunction f \<Rightarrow> xreturn f | _ \<Rightarrow> vm_fail_with BadPointer)"

definition vm_upvalue :: "addr \<Rightarrow> upvalue_object vm" where
  "vm_upvalue a =
     xbind (vm_object a) (\<lambda>ob. case ob of OUpvalue u \<Rightarrow> xreturn u | _ \<Rightarrow> vm_fail_with BadPointer)"

subsection \<open>The stack\<close>

definition vm_push :: "value \<Rightarrow> unit vm" where
  "vm_push v =
     xbind (xget (\<lambda>s. length (vm_stack s))) (\<lambda>n.
     xseq (xassert StackOverrun (n < kStackSlots)) (xmod (\<lambda>s. s\<lparr>vm_stack := vm_stack s @ [v]\<rparr>)))"

text \<open>\<open>sp[-n]\<close> and \<open>sp -= n\<close>.\<close>

definition vm_top :: "nat \<Rightarrow> value vm" where
  "vm_top n =
     xbind (xget vm_stack) (\<lambda>st.
     xseq (xassert StackUnderrun (0 < n \<and> n \<le> length st)) (xreturn (st ! (length st - n))))"

definition vm_drop :: "nat \<Rightarrow> unit vm" where
  "vm_drop n =
     xbind (xget vm_stack) (\<lambda>st.
     xseq (xassert StackUnderrun (n \<le> length st))
       (xmod (\<lambda>s. s\<lparr>vm_stack := take (length st - n) (vm_stack s)\<rparr>)))"

definition vm_replace :: "nat \<Rightarrow> value \<Rightarrow> unit vm" where
  "vm_replace n v = xseq (vm_drop n) (vm_push v)"

definition vm_slot :: "nat \<Rightarrow> value vm" where
  "vm_slot i =
     xbind (xget vm_stack) (\<lambda>st. xseq (xassert StackUnderrun (i < length st)) (xreturn (st ! i)))"

definition vm_set_slot :: "nat \<Rightarrow> value \<Rightarrow> unit vm" where
  "vm_set_slot i v =
     xbind (xget vm_stack) (\<lambda>st.
     xseq (xassert StackUnderrun (i < length st)) (xmod (\<lambda>s. s\<lparr>vm_stack := (vm_stack s)[i := v]\<rparr>)))"

subsection \<open>The running frame\<close>

definition vm_frame :: "call_frame vm" where
  "vm_frame = xbind (xget vm_frames) (\<lambda>fs. case fs of [] \<Rightarrow> vm_fail_with BadPointer | f # _ \<Rightarrow> xreturn f)"

definition vm_set_ip :: "nat \<Rightarrow> unit vm" where
  "vm_set_ip ip =
     xbind (xget vm_frames) (\<lambda>fs.
       case fs of [] \<Rightarrow> vm_fail_with BadPointer
       | f # rest \<Rightarrow> xmod (\<lambda>s. s\<lparr>vm_frames := f\<lparr>cf_ip := ip\<rparr> # rest\<rparr>))"

definition vm_chunk :: "chunk vm" where
  "vm_chunk =
     xbind vm_frame (\<lambda>f. xbind (vm_closure (cf_closure f)) (\<lambda>(fn, us).
     xbind (vm_function fn) (\<lambda>fo. xreturn (fo_chunk fo))))"

definition read_byte :: "byte vm" where
  "read_byte =
     xbind vm_chunk (\<lambda>c. xbind vm_frame (\<lambda>f.
     xseq (xassert BadCode (cf_ip f < length (ch_code c)))
       (xseq (vm_set_ip (cf_ip f + 1)) (xreturn (ch_code c ! cf_ip f)))))"

definition read_u24 :: "nat vm" where
  "read_u24 =
     xbind read_byte (\<lambda>x. xbind read_byte (\<lambda>y. xbind read_byte (\<lambda>z. xreturn (unat (get_u24 [x, y, z])))))"

definition read_constant :: "value vm" where
  "read_constant =
     xbind read_u24 (\<lambda>k. xbind vm_chunk (\<lambda>c.
     xseq (xassert BadCode (k < length (ch_constants c))) (xreturn (ch_constants c ! k))))"

text \<open>\<open>as_string(constants[READ_U24()])\<close>: the address of the name.\<close>

definition read_name :: "addr vm" where
  "read_name =
     xbind read_constant (\<lambda>v. case v of VObj a \<Rightarrow> xreturn a | _ \<Rightarrow> vm_fail_with BadCode)"

subsection \<open>Errors\<close>

definition vm_fail :: "string \<Rightarrow> unit vm" where
  "vm_fail message =
     xbind (xget vm_frames) (\<lambda>fs.
     xbind (if fs = [] then xreturn 0
            else xbind vm_chunk (\<lambda>c. xbind vm_frame (\<lambda>f. xreturn (line_at c (cf_ip f - 1))))) (\<lambda>line.
       xmod (\<lambda>s. s\<lparr>vm_error := Some \<lparr>re_line = line, re_message = message\<rparr>\<rparr>)))"

subsection \<open>Upvalues\<close>

text \<open>The walk over the open list: the upvalues above the slot, and the rest.\<close>

fun split_open :: "nat \<Rightarrow> addr list \<Rightarrow> (addr list \<times> addr list) vm" where
  "split_open i [] = xreturn ([], [])"
| "split_open i (up # ups) =
     xbind (vm_upvalue up) (\<lambda>u.
       case uv_location u of
         ClosedHere \<Rightarrow> vm_fail_with BadPointer
       | OpenAt j \<Rightarrow>
           if i < j
           then xbind (split_open i ups) (\<lambda>(above, rest). xreturn (up # above, rest))
           else xreturn ([], up # ups))"

definition capture_upvalue :: "(obj \<Rightarrow> nat) \<Rightarrow> nat \<Rightarrow> addr vm" where
  "capture_upvalue sz i =
     xbind (xget vm_open) (\<lambda>open_list.
     xbind (split_open i open_list) (\<lambda>(above, rest).
     xbind (case rest of
              [] \<Rightarrow> xreturn None
            | up # _ \<Rightarrow>
                xbind (vm_upvalue up) (\<lambda>u.
                  xreturn (if uv_location u = OpenAt i then Some up else None))) (\<lambda>found.
       case found of
         Some up \<Rightarrow> xreturn up
       | None \<Rightarrow>
           xbind (vm_allocate sz (OUpvalue \<lparr>uv_location = OpenAt i, uv_closed = VNil\<rparr>)) (\<lambda>created.
           xseq (xmod (\<lambda>s. s\<lparr>vm_open := above @ created # rest\<rparr>)) (xreturn created)))))"

fun close_loop :: "nat \<Rightarrow> addr list \<Rightarrow> unit vm" where
  "close_loop i [] = xmod (\<lambda>s. s\<lparr>vm_open := []\<rparr>)"
| "close_loop i (up # ups) =
     xbind (vm_upvalue up) (\<lambda>u.
       case uv_location u of
         ClosedHere \<Rightarrow> vm_fail_with BadPointer
       | OpenAt j \<Rightarrow>
           if i \<le> j
           then
             xbind (vm_slot j) (\<lambda>v.
             xseq (vm_set_obj up (OUpvalue \<lparr>uv_location = ClosedHere, uv_closed = v\<rparr>)) (close_loop i ups))
           else xmod (\<lambda>s. s\<lparr>vm_open := up # ups\<rparr>))"

definition close_upvalues :: "nat \<Rightarrow> unit vm" where
  "close_upvalues i = xbind (xget vm_open) (close_loop i)"

text \<open>\<open>*upvalue->location\<close>.\<close>

definition read_upvalue :: "addr \<Rightarrow> value vm" where
  "read_upvalue up =
     xbind (vm_upvalue up) (\<lambda>u.
       case uv_location u of OpenAt j \<Rightarrow> vm_slot j | ClosedHere \<Rightarrow> xreturn (uv_closed u))"

definition write_upvalue :: "addr \<Rightarrow> value \<Rightarrow> unit vm" where
  "write_upvalue up v =
     xbind (vm_upvalue up) (\<lambda>u.
       case uv_location u of
         OpenAt j \<Rightarrow> vm_set_slot j v
       | ClosedHere \<Rightarrow> vm_set_obj up (OUpvalue (u\<lparr>uv_closed := v\<rparr>)))"

text \<open>\<open>closure->upvalues[index]\<close> of the running frame, a pointer that must not be null to be used.\<close>

definition frame_upvalue :: "byte \<Rightarrow> addr option vm" where
  "frame_upvalue i =
     xbind vm_frame (\<lambda>f. xbind (vm_closure (cf_closure f)) (\<lambda>(fn, us).
     xseq (xassert BadCode (unat i < length us)) (xreturn (us ! unat i))))"

subsection \<open>Calls\<close>

definition vm_call_native :: "(obj \<Rightarrow> nat) \<Rightarrow> (nat \<Rightarrow> double) \<Rightarrow> native_fn \<Rightarrow> nat \<Rightarrow> (string + value) vm" where
  "vm_call_native sz clk f argc s =
     (let s = (if f = NativeClock then s\<lparr>vm_ticks := vm_ticks s + 1\<rparr> else s);
          args = drop (length (vm_stack s) - argc) (vm_stack s);
          (r, h) = call_native sz (vm_roots s) (clk (vm_ticks s)) f args (vm_heap s)
      in Ok (r, s\<lparr>vm_heap := h\<rparr>))"

definition vm_error_outcome :: "string \<Rightarrow> call_outcome vm" where
  "vm_error_outcome message = xseq (vm_fail message) (xreturn CallError)"

definition push_frame :: "addr \<Rightarrow> nat \<Rightarrow> unit vm" where
  "push_frame closure base =
     xbind (xget (\<lambda>s. length (vm_frames s))) (\<lambda>n.
     xseq (xassert FramesOverrun (n < kMaxFrames))
       (xmod (\<lambda>s. s\<lparr>vm_frames := \<lparr>cf_closure = closure, cf_ip = 0, cf_base = base\<rparr> # vm_frames s\<rparr>)))"

definition vm_call_closure :: "addr \<Rightarrow> addr \<Rightarrow> nat \<Rightarrow> call_outcome vm" where
  "vm_call_closure closure fn argc =
     xbind (vm_function fn) (\<lambda>fo.
       if fo_arity fo \<noteq> argc then vm_error_outcome (arity_error_message (fo_arity fo) argc)
       else
         xbind (xget (\<lambda>s. (length (vm_frames s) - vm_uncounted s, length (vm_stack s)))) (\<lambda>(depth, sp).
           if kMaxCallDepth \<le> depth \<or> kStackSlots - kTempSlack < sp + kFrameSlots
           then vm_error_outcome kErrStackOverflow
           else xseq (push_frame closure (sp - argc - 1)) (xreturn PushedFrame)))"

definition vm_native_result :: "nat \<Rightarrow> string + value \<Rightarrow> call_outcome vm" where
  "vm_native_result argc r =
     (case r of
        Inl message \<Rightarrow> vm_error_outcome message
      | Inr v \<Rightarrow> xseq (vm_replace (argc + 1) v) (xreturn NativeDone))"

definition vm_call_object :: "(obj \<Rightarrow> nat) \<Rightarrow> (nat \<Rightarrow> double) \<Rightarrow> nat \<Rightarrow> addr \<Rightarrow> obj \<Rightarrow> call_outcome vm" where
  "vm_call_object sz clk argc a ob =
     (case ob of
        OClosure fn us \<Rightarrow> vm_call_closure a fn argc
      | ONative name arity f \<Rightarrow>
          if arity \<noteq> argc then vm_error_outcome (arity_error_message arity argc)
          else xbind (vm_call_native sz clk f argc) (vm_native_result argc)
      | _ \<Rightarrow> vm_error_outcome kErrNotCallable)"

definition vm_call_value :: "(obj \<Rightarrow> nat) \<Rightarrow> (nat \<Rightarrow> double) \<Rightarrow> nat \<Rightarrow> call_outcome vm" where
  "vm_call_value sz clk argc =
     xbind (vm_top (argc + 1)) (\<lambda>callee.
       case callee of
         VObj a \<Rightarrow> xbind (vm_object a) (vm_call_object sz clk argc a)
       | _ \<Rightarrow> vm_error_outcome kErrNotCallable)"

subsection \<open>Instructions\<close>

text \<open>How an instruction ends: the loop goes on, or \<open>execute\<close> returns.\<close>

datatype step_result = Running | Finished bool

definition running :: "unit vm \<Rightarrow> step_result vm" where
  "running m = xseq m (xreturn Running)"

text \<open>\<open>FAIL(message)\<close>.\<close>

definition failing :: "string \<Rightarrow> step_result vm" where
  "failing message = xseq (vm_fail message) (xreturn (Finished False))"

definition vm_result_of :: "nat \<Rightarrow> string + value \<Rightarrow> step_result vm" where
  "vm_result_of operands r =
     (case r of Inl message \<Rightarrow> failing message | Inr v \<Rightarrow> running (vm_replace operands v))"

text \<open>\<open>BINARY_OP\<close>.\<close>

definition step_binary :: "(value \<Rightarrow> value \<Rightarrow> string + value) \<Rightarrow> step_result vm" where
  "step_binary op = xbind (vm_top 2) (\<lambda>a. xbind (vm_top 1) (\<lambda>b. vm_result_of 2 (op a b)))"

definition step_add :: "(obj \<Rightarrow> nat) \<Rightarrow> step_result vm" where
  "step_add sz =
     xbind (vm_top 2) (\<lambda>a. xbind (vm_top 1) (\<lambda>b.
     xbind (\<lambda>s. let (r, h) = op_add sz (vm_roots s) a b (vm_heap s) in Ok (r, s\<lparr>vm_heap := h\<rparr>))
       (vm_result_of 2)))"

definition step_get_global :: "step_result vm" where
  "step_get_global =
     xbind read_name (\<lambda>name.
     xbind (xget (\<lambda>s. map_of (vm_globals s) name)) (\<lambda>found.
       case found of
         None \<Rightarrow>
           xbind (xget (\<lambda>s. string_at (vm_heap s) name)) (\<lambda>x. failing (undefined_variable_message x))
       | Some v \<Rightarrow> running (vm_push v)))"

definition step_set_global :: "step_result vm" where
  "step_set_global =
     xbind read_name (\<lambda>name.
     xbind (xget (\<lambda>s. map_of (vm_globals s) name)) (\<lambda>found.
       case found of
         None \<Rightarrow>
           xbind (xget (\<lambda>s. string_at (vm_heap s) name)) (\<lambda>x. failing (undefined_variable_message x))
       | Some old \<Rightarrow>
           xbind (vm_top 1) (\<lambda>v.
             running (xmod (\<lambda>s. s\<lparr>vm_globals := AList.update name v (vm_globals s)\<rparr>)))))"

definition step_define_global :: "step_result vm" where
  "step_define_global =
     xbind read_name (\<lambda>name.
     xbind (vm_top 1) (\<lambda>v.
       running (xseq (xmod (\<lambda>s. s\<lparr>vm_globals := AList.update name v (vm_globals s)\<rparr>)) (vm_drop 1))))"

definition step_get_upvalue :: "step_result vm" where
  "step_get_upvalue =
     xbind read_byte (\<lambda>i. xbind (frame_upvalue i) (\<lambda>up. xbind (xthe BadPointer up) (\<lambda>up.
     xbind (read_upvalue up) (\<lambda>v. running (vm_push v)))))"

definition step_set_upvalue :: "step_result vm" where
  "step_set_upvalue =
     xbind read_byte (\<lambda>i. xbind (frame_upvalue i) (\<lambda>up. xbind (xthe BadPointer up) (\<lambda>up.
     xbind (vm_top 1) (\<lambda>v. running (write_upvalue up v)))))"

definition step_get_local :: "step_result vm" where
  "step_get_local =
     xbind read_byte (\<lambda>i. xbind vm_frame (\<lambda>f.
     xbind (vm_slot (cf_base f + unat i)) (\<lambda>v. running (vm_push v))))"

definition step_set_local :: "step_result vm" where
  "step_set_local =
     xbind read_byte (\<lambda>i. xbind vm_frame (\<lambda>f.
     xbind (vm_top 1) (\<lambda>v. running (vm_set_slot (cf_base f + unat i) v))))"

text \<open>The three jumps: the distance is read, then added to or taken from the \<open>ip\<close> behind it.\<close>

definition jump_forward :: "nat \<Rightarrow> unit vm" where
  "jump_forward distance = xbind vm_frame (\<lambda>f. vm_set_ip (cf_ip f + distance))"

definition jump_back :: "nat \<Rightarrow> unit vm" where
  "jump_back distance =
     xbind vm_frame (\<lambda>f.
     xseq (xassert BadCode (distance \<le> cf_ip f)) (vm_set_ip (cf_ip f - distance)))"

definition step_jump_if_false :: "step_result vm" where
  "step_jump_if_false =
     xbind read_u24 (\<lambda>distance. xbind (vm_top 1) (\<lambda>v.
       running (if \<not> is_truthy v then jump_forward distance else xreturn ())))"

definition step_call :: "(obj \<Rightarrow> nat) \<Rightarrow> (nat \<Rightarrow> double) \<Rightarrow> step_result vm" where
  "step_call sz clk =
     xbind read_byte (\<lambda>argc. xbind (vm_call_value sz clk (unat argc)) (\<lambda>r.
       xreturn (if r = CallError then Finished False else Running)))"

text \<open>The loop that fills in the upvalues of a closure that is on the stack already.\<close>

fun fill_upvalues :: "(obj \<Rightarrow> nat) \<Rightarrow> addr \<Rightarrow> nat \<Rightarrow> nat \<Rightarrow> unit vm" where
  "fill_upvalues sz created i 0 = xreturn ()"
| "fill_upvalues sz created i (Suc n) =
     xbind read_byte (\<lambda>is_local. xbind read_byte (\<lambda>index.
     xbind (if is_local \<noteq> 0
            then xbind vm_frame (\<lambda>f.
              xbind (capture_upvalue sz (cf_base f + unat index)) (\<lambda>up. xreturn (Some up)))
            else frame_upvalue index) (\<lambda>up.
     xbind (vm_closure created) (\<lambda>(fn, us).
     xseq (vm_set_obj created (OClosure fn (us[i := up]))) (fill_upvalues sz created (i + 1) n)))))"

definition step_closure :: "(obj \<Rightarrow> nat) \<Rightarrow> step_result vm" where
  "step_closure sz =
     xbind read_constant (\<lambda>v.
       case v of
         VObj fn \<Rightarrow>
           xbind (vm_function fn) (\<lambda>fo.
           xbind (vm_allocate sz (OClosure fn (replicate (fo_upvalue_count fo) None))) (\<lambda>created.
           xseq (vm_push (VObj created)) (running (fill_upvalues sz created 0 (fo_upvalue_count fo)))))
       | _ \<Rightarrow> vm_fail_with BadCode)"

definition step_close_upvalue :: "step_result vm" where
  "step_close_upvalue =
     xbind (xget (\<lambda>s. length (vm_stack s))) (\<lambda>n.
     xseq (xassert StackUnderrun (0 < n)) (running (xseq (close_upvalues (n - 1)) (vm_drop 1))))"

definition step_return :: "nat \<Rightarrow> step_result vm" where
  "step_return stop_frames =
     xbind (vm_top 1) (\<lambda>result. xbind vm_frame (\<lambda>f.
     xseq (close_upvalues (cf_base f))
       (xseq (xmod (\<lambda>s. s\<lparr>vm_frames := tl (vm_frames s)\<rparr>))
         (xbind (xget (\<lambda>s. length (vm_frames s))) (\<lambda>n.
          xseq (xmod (\<lambda>s. s\<lparr>vm_stack := take (cf_base f) (vm_stack s)\<rparr>))
            (if n = stop_frames
             then xseq (xmod (\<lambda>s. s\<lparr>vm_result := result\<rparr>)) (xreturn (Finished True))
             else running (vm_push result)))))))"

definition step_print :: "step_result vm" where
  "step_print =
     xbind (vm_top 1) (\<lambda>v.
       running (xseq (xmod (\<lambda>s. s\<lparr>vm_out := vm_out s @ print_value (vm_heap s) v @ [newline]\<rparr>)) (vm_drop 1)))"

definition step_array :: "(obj \<Rightarrow> nat) \<Rightarrow> step_result vm" where
  "step_array sz =
     xbind read_u24 (\<lambda>count. xbind (xget vm_stack) (\<lambda>st.
     xseq (xassert StackUnderrun (count \<le> length st))
       (xbind (vm_allocate sz (OArray (drop (length st - count) st))) (\<lambda>a.
          running (vm_replace count (VObj a))))))"

definition step_index_get :: "step_result vm" where
  "step_index_get =
     xbind (vm_top 2) (\<lambda>a. xbind (vm_top 1) (\<lambda>i.
     xbind (xget (\<lambda>s. array_get (vm_heap s) a i)) (vm_result_of 2)))"

definition step_index_set :: "step_result vm" where
  "step_index_set =
     xbind (vm_top 3) (\<lambda>a. xbind (vm_top 2) (\<lambda>i. xbind (vm_top 1) (\<lambda>v.
     xbind (xget (\<lambda>s. array_set a i v (vm_heap s))) (\<lambda>r.
       case r of
         Inl message \<Rightarrow> failing message
       | Inr h \<Rightarrow> running (xseq (xmod (\<lambda>s. s\<lparr>vm_heap := h\<rparr>)) (vm_replace 3 v))))))"

definition step_op :: "(obj \<Rightarrow> nat) \<Rightarrow> (nat \<Rightarrow> double) \<Rightarrow> nat \<Rightarrow> opcode \<Rightarrow> step_result vm" where
  "step_op sz clk stop_frames op =
     (case op of
        OpConst \<Rightarrow> xbind read_constant (\<lambda>v. running (vm_push v))
      | OpNil \<Rightarrow> running (vm_push VNil)
      | OpTrue \<Rightarrow> running (vm_push (VBool True))
      | OpFalse \<Rightarrow> running (vm_push (VBool False))
      | OpPop \<Rightarrow> running (vm_drop 1)
      | OpGetLocal \<Rightarrow> step_get_local
      | OpSetLocal \<Rightarrow> step_set_local
      | OpGetGlobal \<Rightarrow> step_get_global
      | OpSetGlobal \<Rightarrow> step_set_global
      | OpDefineGlobal \<Rightarrow> step_define_global
      | OpGetUpvalue \<Rightarrow> step_get_upvalue
      | OpSetUpvalue \<Rightarrow> step_set_upvalue
      | OpAdd \<Rightarrow> step_add sz
      | OpSub \<Rightarrow> step_binary op_sub
      | OpMul \<Rightarrow> step_binary op_mul
      | OpDiv \<Rightarrow> step_binary op_div
      | OpMod \<Rightarrow> step_binary op_mod
      | OpLt \<Rightarrow> step_binary op_less
      | OpLe \<Rightarrow> step_binary op_less_equal
      | OpGt \<Rightarrow> step_binary op_greater
      | OpGe \<Rightarrow> step_binary op_greater_equal
      | OpEq \<Rightarrow> step_binary (\<lambda>a b. Inr (VBool (values_equal a b)))
      | OpNe \<Rightarrow> step_binary (\<lambda>a b. Inr (VBool (\<not> values_equal a b)))
      | OpNeg \<Rightarrow> xbind (vm_top 1) (\<lambda>a. vm_result_of 1 (op_negate a))
      | OpNot \<Rightarrow> xbind (vm_top 1) (\<lambda>a. running (vm_replace 1 (op_not a)))
      | OpJump \<Rightarrow> xbind read_u24 (\<lambda>distance. running (jump_forward distance))
      | OpJumpIfFalse \<Rightarrow> step_jump_if_false
      | OpLoop \<Rightarrow> xbind read_u24 (\<lambda>distance. running (jump_back distance))
      | OpCall \<Rightarrow> step_call sz clk
      | OpClosure \<Rightarrow> step_closure sz
      | OpCloseUpvalue \<Rightarrow> step_close_upvalue
      | OpReturn \<Rightarrow> step_return stop_frames
      | OpPrint \<Rightarrow> step_print
      | OpArray \<Rightarrow> step_array sz
      | OpIndexGet \<Rightarrow> step_index_get
      | OpIndexSet \<Rightarrow> step_index_set)"

definition vm_step :: "(obj \<Rightarrow> nat) \<Rightarrow> (nat \<Rightarrow> double) \<Rightarrow> nat \<Rightarrow> step_result vm" where
  "vm_step sz clk stop_frames =
     xbind read_byte (\<lambda>b. xbind (xthe BadCode (op_of_byte b)) (step_op sz clk stop_frames))"

text \<open>The dispatch loop; the fuel counts instructions.\<close>

fun execute :: "(obj \<Rightarrow> nat) \<Rightarrow> (nat \<Rightarrow> double) \<Rightarrow> nat \<Rightarrow> nat \<Rightarrow> bool vm" where
  "execute sz clk stop_frames 0 = (\<lambda>s. Timeout)"
| "execute sz clk stop_frames (Suc n) =
     xbind (vm_step sz clk stop_frames) (\<lambda>r.
       case r of Running \<Rightarrow> execute sz clk stop_frames n | Finished ok \<Rightarrow> xreturn ok)"

subsection \<open>Entry points\<close>

definition vm_take_error :: "runtime_error option vm" where
  "vm_take_error =
     xbind (xget vm_error) (\<lambda>error.
     xseq (xmod (\<lambda>s. s\<lparr>vm_error := None\<rparr>))
       (if error = None then xreturn None
        else
          xseq (close_upvalues 0)
            (xseq (xmod (\<lambda>s. s\<lparr>vm_stack := [], vm_frames := []\<rparr>)) (xreturn error))))"

text \<open>\<open>run\<close>: the compile error, or the runtime error if there was one.\<close>

definition vm_compile :: "(obj \<Rightarrow> nat) \<Rightarrow> program \<Rightarrow> (compile_error + addr) vm" where
  "vm_compile sz p s =
     (case compile_stack sz (vm_roots s) p (vm_heap s) of
        Ok (r, h) \<Rightarrow> Ok (r, s\<lparr>vm_heap := h\<rparr>)
      | Error e \<Rightarrow> Error BadPointer
      | Timeout \<Rightarrow> Timeout)"

definition vm_load :: "(obj \<Rightarrow> nat) \<Rightarrow> program \<Rightarrow> (compile_error + unit) vm" where
  "vm_load sz p =
     xbind (vm_compile sz p) (\<lambda>compiled.
       case compiled of
         Inl error \<Rightarrow> xreturn (Inl error)
       | Inr function \<Rightarrow>
           xseq (vm_push (VObj function))
             (xbind (vm_function function) (\<lambda>fo.
              xbind (vm_allocate sz (OClosure function (replicate (fo_upvalue_count fo) None))) (\<lambda>script.
              xseq (xmod (\<lambda>s. s\<lparr>vm_stack := [VObj script],
                  vm_frames := [\<lparr>cf_closure = script, cf_ip = 0, cf_base = 0\<rparr>], vm_uncounted := 1\<rparr>))
                (xreturn (Inr ()))))))"

definition stack_run :: "(obj \<Rightarrow> nat) \<Rightarrow> (nat \<Rightarrow> double) \<Rightarrow> nat \<Rightarrow> program \<Rightarrow>
    (compile_error + runtime_error option) vm" where
  "stack_run sz clk fuel p =
     xbind (vm_load sz p) (\<lambda>loaded.
       case loaded of
         Inl error \<Rightarrow> xreturn (Inl error)
       | Inr _ \<Rightarrow>
           xbind (execute sz clk 0 fuel) (\<lambda>ok.
             if ok then xreturn (Inr None) else xbind vm_take_error (\<lambda>e. xreturn (Inr e))))"

definition vm_intern :: "(obj \<Rightarrow> nat) \<Rightarrow> string \<Rightarrow> addr vm" where
  "vm_intern sz bytes s =
     (let (a, h) = intern sz (vm_roots s) bytes (vm_heap s) in Ok (a, s\<lparr>vm_heap := h\<rparr>))"

text \<open>\<open>call_global\<close>: the end of it, by how \<open>call_value\<close> went, and the whole.\<close>

definition vm_call_finish :: "(obj \<Rightarrow> nat) \<Rightarrow> (nat \<Rightarrow> double) \<Rightarrow> nat \<Rightarrow> nat \<Rightarrow> call_outcome \<Rightarrow>
    (value \<times> runtime_error option) vm" where
  "vm_call_finish sz clk fuel stop_frames called =
     (case called of
        NativeDone \<Rightarrow> xbind (vm_top 1) (\<lambda>v. xseq (xmod (\<lambda>s. s\<lparr>vm_stack := []\<rparr>)) (xreturn (v, None)))
      | PushedFrame \<Rightarrow>
          xbind (execute sz clk stop_frames fuel) (\<lambda>ok.
            if ok then xbind (xget vm_result) (\<lambda>v. xreturn (v, None))
            else xbind vm_take_error (\<lambda>e. xreturn (VNil, e)))
      | CallError \<Rightarrow> xbind vm_take_error (\<lambda>e. xreturn (VNil, e)))"

definition vm_call_global :: "(obj \<Rightarrow> nat) \<Rightarrow> (nat \<Rightarrow> double) \<Rightarrow> nat \<Rightarrow> string \<Rightarrow>
    (value \<times> runtime_error option) vm" where
  "vm_call_global sz clk fuel name =
     xbind (vm_intern sz name) (\<lambda>key.
     xbind (xget (\<lambda>s. map_of (vm_globals s) key)) (\<lambda>found.
       case found of
         None \<Rightarrow> xreturn (VNil, Some \<lparr>re_line = 0, re_message = undefined_variable_message name\<rparr>)
       | Some callee \<Rightarrow>
           xseq (xmod (\<lambda>s. s\<lparr>vm_uncounted := 0\<rparr>))
             (xbind (xget (\<lambda>s. length (vm_frames s))) (\<lambda>stop_frames.
              xseq (vm_push callee)
                (xbind (vm_call_value sz clk 0) (vm_call_finish sz clk fuel stop_frames))))))"

text \<open>The constructor. Interning a name fails in no state.\<close>

definition vm_define_native :: "(obj \<Rightarrow> nat) \<Rightarrow> string \<Rightarrow> value \<Rightarrow> stack_vm \<Rightarrow> stack_vm" where
  "vm_define_native sz name native s =
     (let (a, h) = intern sz (vm_roots s) name (vm_heap s)
      in s\<lparr>vm_heap := h, vm_globals := AList.update a native (vm_globals s)\<rparr>)"

definition empty_vm :: "heap \<Rightarrow> stack_vm" where
  "empty_vm h =
     \<lparr>vm_heap = h, vm_stack = [], vm_frames = [], vm_uncounted = 0, vm_open = [], vm_globals = [],
      vm_result = VNil, vm_error = None, vm_out = [], vm_ticks = 0\<rparr>"

definition init_vm :: "(obj \<Rightarrow> nat) \<Rightarrow> heap \<Rightarrow> stack_vm" where
  "init_vm sz h =
     register_natives sz vm_heap (\<lambda>h s. s\<lparr>vm_heap := h\<rparr>) vm_roots (vm_define_native sz) (empty_vm h)"

end
