(* ===== verification/Stack_Safe.thy ===== *)
theory Stack_Safe
  imports Stack_VM Gc_Client Ops_Spec
begin

text \<open>
  What the bytecode machine keeps whatever the bytecode is: the heap is sound and every root live, so
  no collection frees what the machine can still reach; the open upvalues are exactly those on the
  open list, highest slot first; and neither the stack nor the frames outgrow their arrays.
\<close>

interpretation vm_gc: gc_client vm_heap "\<lambda>h s. s\<lparr>vm_heap := h\<rparr>" vm_roots
  by unfold_locales (simp_all add: vm_roots_def)

subsection \<open>The invariant\<close>

definition opens_ok :: "heap \<Rightarrow> addr list \<Rightarrow> bool" where
  "opens_ok h opens \<longleftrightarrow>
     (\<exists>js. sorted_wrt (>) js \<and>
        list_all2 (\<lambda>up j. obj_at h up = Some (OUpvalue \<lparr>uv_location = OpenAt j, uv_closed = VNil\<rparr>)) opens js) \<and>
     (\<forall>a u j. obj_at h a = Some (OUpvalue u) \<longrightarrow> uv_location u = OpenAt j \<longrightarrow> a \<in> set opens)"

definition vm_inv :: "stack_vm \<Rightarrow> bool" where
  "vm_inv s \<longleftrightarrow>
     gc_live (vm_heap s) (vm_roots s) \<and> natives_ok (vm_heap s) \<and> opens_ok (vm_heap s) (vm_open s) \<and>
     length (vm_frames s) \<le> kMaxFrames \<and> length (vm_stack s) \<le> kStackSlots"

definition live_value :: "stack_vm \<Rightarrow> value \<Rightarrow> bool" where
  "live_value s v \<longleftrightarrow> (\<forall>a\<in>set (value_addrs v). obj_at (vm_heap s) a \<noteq> None)"

definition held_value :: "stack_vm \<Rightarrow> value \<Rightarrow> bool" where
  "held_value s v \<longleftrightarrow> (\<forall>a\<in>set (value_addrs v). held (vm_heap s) (vm_roots s) a)"

abbreviation vok :: "'a vm \<Rightarrow> stack_vm \<Rightarrow> ('a \<Rightarrow> stack_vm \<Rightarrow> bool) \<Rightarrow> bool" where
  "vok m s Q \<equiv> xwp m s Q (\<lambda>_. True)"

lemma vok_fail [simp]: "vok (vm_fail_with f) s Q"
  by (simp add: vm_fail_with_def xwp_simps)

lemma vok_mono: "vok m s Q \<Longrightarrow> (\<And>x t. Q x t \<Longrightarrow> R x t) \<Longrightarrow> vok m s R"
  by (rule xwp_mono)

declare xwp_simps [simp]

lemma held_live_value: "held_value s v \<Longrightarrow> live_value s v"
  unfolding held_value_def live_value_def using held_live by blast

lemma scalar_values [simp]:
  "live_value s VNil" "live_value s (VBool b)" "live_value s (VInt i)" "live_value s (VFloat d)"
  by (simp_all add: live_value_def value_addrs_def)

text \<open>The roots, by what holds them.\<close>

definition vm_root_set :: "stack_vm \<Rightarrow> addr set" where
  "vm_root_set s = gc_roots (vm_roots s) (vm_heap s)"

lemma root_cases:
  "a \<in> vm_root_set s \<longleftrightarrow>
     (\<exists>v\<in>set (hp_temp_roots (vm_heap s)). a \<in> set (value_addrs v)) \<or>
     (\<exists>v\<in>set (vm_stack s). a \<in> set (value_addrs v)) \<or> a \<in> cf_closure ` set (vm_frames s) \<or>
     a \<in> set (vm_open s) \<or> (\<exists>(k, v)\<in>set (vm_globals s). a = k \<or> a \<in> set (value_addrs v))"
  unfolding vm_root_set_def gc_roots_def vm_roots_def by (fastforce simp: split_beta)

lemma roots_mono:
  assumes "vm_heap s' = vm_heap s" "set (vm_stack s') \<subseteq> set (vm_stack s)" "set (vm_frames s') \<subseteq> set (vm_frames s)"
    "vm_open s' = vm_open s" "vm_globals s' = vm_globals s"
  shows "vm_root_set s' \<subseteq> vm_root_set s"
  unfolding subset_iff root_cases using assms by (auto simp: image_iff)

lemma inv_root_live: "vm_inv s \<Longrightarrow> a \<in> vm_root_set s \<Longrightarrow> obj_at (vm_heap s) a \<noteq> None"
  by (simp add: vm_inv_def gc_live_def vm_root_set_def)

lemma inv_root_held: "vm_inv s \<Longrightarrow> a \<in> vm_root_set s \<Longrightarrow> held (vm_heap s) (vm_roots s) a"
  by (simp add: vm_inv_def gc_live_held vm_root_set_def)

lemma vm_inv_sane: "vm_inv s \<Longrightarrow> sane (vm_heap s)"
  by (simp add: vm_inv_def gc_live_def)

lemma stack_held: "vm_inv s \<Longrightarrow> v \<in> set (vm_stack s) \<Longrightarrow> held_value s v"
  unfolding held_value_def by (metis inv_root_held root_cases)

lemma globals_held: "vm_inv s \<Longrightarrow> map_of (vm_globals s) k = Some v \<Longrightarrow> held_value s v"
  unfolding held_value_def
proof
  fix a assume "vm_inv s" "map_of (vm_globals s) k = Some v" "a \<in> set (value_addrs v)"
  then show "held (vm_heap s) (vm_roots s) a"
    using map_of_SomeD [of "vm_globals s" k v] by (intro inv_root_held) (force simp: root_cases)+
qed

lemma frame_held: "vm_inv s \<Longrightarrow> f \<in> set (vm_frames s) \<Longrightarrow> held (vm_heap s) (vm_roots s) (cf_closure f)"
  by (rule inv_root_held) (auto simp: root_cases)

lemma opens_ok_cong: "obj_at h' = obj_at h \<Longrightarrow> opens_ok h' opens = opens_ok h opens"
  by (simp add: opens_ok_def)

text \<open>A change that leaves the objects alone, and keeps or drops roots or adds live ones.\<close>

lemma vm_inv_change:
  assumes "vm_inv s" "vm_heap s' = vm_heap s" "vm_open s' = vm_open s"
    "\<And>a. a \<in> vm_root_set s' \<Longrightarrow> a \<notin> vm_root_set s \<Longrightarrow> obj_at (vm_heap s) a \<noteq> None"
    "length (vm_frames s') \<le> kMaxFrames" "length (vm_stack s') \<le> kStackSlots"
  shows "vm_inv s'"
proof -
  have "obj_at (vm_heap s) a \<noteq> None" if "a \<in> vm_root_set s'" for a
    using assms(4) [OF that] inv_root_live [OF assms(1)] by blast
  then show ?thesis using assms(1-3,5,6) by (simp add: vm_inv_def gc_live_def vm_root_set_def)
qed

lemma inv_bounds: "vm_inv s \<Longrightarrow> length (vm_frames s) \<le> kMaxFrames" "vm_inv s \<Longrightarrow> length (vm_stack s) \<le> kStackSlots"
  by (simp_all add: vm_inv_def)

subsection \<open>The stack\<close>

lemma inv_push: "vm_inv s \<Longrightarrow> live_value s v \<Longrightarrow> length (vm_stack s) < kStackSlots \<Longrightarrow> vm_inv (s\<lparr>vm_stack := vm_stack s @ [v]\<rparr>)"
  by (rule vm_inv_change) (auto simp: root_cases live_value_def inv_bounds)

lemma inv_shrink:
  assumes "vm_inv s" "vm_heap s' = vm_heap s" "vm_open s' = vm_open s" "vm_root_set s' \<subseteq> vm_root_set s"
    "length (vm_frames s') \<le> length (vm_frames s)" "length (vm_stack s') \<le> length (vm_stack s)"
  shows "vm_inv s'"
  using assms(4-6) inv_bounds [OF assms(1)] by (intro vm_inv_change [OF assms(1-3)]) auto

lemma inv_take: "vm_inv s \<Longrightarrow> vm_inv (s\<lparr>vm_stack := take n (vm_stack s)\<rparr>)"
  by (erule inv_shrink) (simp_all add: roots_mono set_take_subset)

lemma inv_set_slot: "vm_inv s \<Longrightarrow> live_value s v \<Longrightarrow> vm_inv (s\<lparr>vm_stack := (vm_stack s)[i := v]\<rparr>)"
  by (rule vm_inv_change) (auto simp: root_cases live_value_def inv_bounds dest!: set_update_subset_insert [THEN subsetD])

lemma inv_small:
  "vm_inv s \<Longrightarrow> vm_inv (s\<lparr>vm_error := e\<rparr>)" "vm_inv s \<Longrightarrow> vm_inv (s\<lparr>vm_out := out\<rparr>)"
  "vm_inv s \<Longrightarrow> vm_inv (s\<lparr>vm_result := r\<rparr>)" "vm_inv s \<Longrightarrow> vm_inv (s\<lparr>vm_ticks := n\<rparr>)"
  "vm_inv s \<Longrightarrow> vm_inv (s\<lparr>vm_uncounted := m\<rparr>)"
  by (erule inv_shrink; simp add: roots_mono)+

lemma inv_pop_frame: "vm_inv s \<Longrightarrow> vm_inv (s\<lparr>vm_frames := tl (vm_frames s)\<rparr>)"
  using list.set_sel(2) [of "vm_frames s"] by (elim inv_shrink, simp_all)
    (rule roots_mono, simp_all, cases "vm_frames s", auto)

lemma vm_inv_global:
  assumes "vm_inv s" "live_value s v" "obj_at (vm_heap s) name \<noteq> None"
  shows "vm_inv (s\<lparr>vm_globals := AList.update name v (vm_globals s)\<rparr>)"
proof (rule vm_inv_change [OF assms(1)])
  have u: "set (AList.update name v g) \<subseteq> insert (name, v) (set g)" for g :: "(addr \<times> value) list"
    by (induction g) auto
  fix a assume "a \<in> vm_root_set (s\<lparr>vm_globals := AList.update name v (vm_globals s)\<rparr>)" "a \<notin> vm_root_set s"
  then have "a = name \<or> a \<in> set (value_addrs v)" using u [of "vm_globals s"] by (fastforce simp: root_cases)
  then show "obj_at (vm_heap s) a \<noteq> None" using assms(2,3) by (auto simp: live_value_def)
qed (simp_all add: inv_bounds [OF assms(1)])

subsection \<open>The heap\<close>

definition is_open_upvalue :: "obj \<Rightarrow> bool" where
  "is_open_upvalue ob \<longleftrightarrow> (case ob of OUpvalue u \<Rightarrow> uv_location u \<noteq> ClosedHere | _ \<Rightarrow> False)"

definition is_native_object :: "obj \<Rightarrow> bool" where
  "is_native_object ob \<longleftrightarrow> (case ob of ONative n k f \<Rightarrow> True | _ \<Rightarrow> False)"

lemma opens_ok_kept:
  assumes "opens_ok h opens" "\<And>up. up \<in> set opens \<Longrightarrow> obj_at h' up = obj_at h up"
    "\<And>a ob. obj_at h' a = Some ob \<Longrightarrow> is_open_upvalue ob \<Longrightarrow> obj_at h a = Some ob"
  shows "opens_ok h' opens"
  unfolding opens_ok_def
proof
  obtain js where js: "sorted_wrt (>) js"
    "list_all2 (\<lambda>up j. obj_at h up = Some (OUpvalue \<lparr>uv_location = OpenAt j, uv_closed = VNil\<rparr>)) opens js"
    using assms(1) unfolding opens_ok_def by blast
  have "list_all2 (\<lambda>up j. obj_at h' up = Some (OUpvalue \<lparr>uv_location = OpenAt j, uv_closed = VNil\<rparr>)) opens js"
    by (rule list.rel_mono_strong [OF js(2)]) (simp add: assms(2))
  then show "\<exists>js. sorted_wrt (>) js \<and>
      list_all2 (\<lambda>up j. obj_at h' up = Some (OUpvalue \<lparr>uv_location = OpenAt j, uv_closed = VNil\<rparr>)) opens js"
    using js(1) by blast
  show "\<forall>a u j. obj_at h' a = Some (OUpvalue u) \<longrightarrow> uv_location u = OpenAt j \<longrightarrow> a \<in> set opens"
    using assms(1,3) unfolding opens_ok_def by (simp add: is_open_upvalue_def)
qed

lemma inv_evolved:
  assumes inv: "vm_inv s" and e: "evolved (vm_roots s) (vm_heap s) h new"
    and new: "\<And>b x. new b x \<Longrightarrow> \<not> is_open_upvalue x" "\<And>b n k f. new b (ONative n k f) \<Longrightarrow> k = native_arity f"
  shows "vm_inv (s\<lparr>vm_heap := h\<rparr>)"
proof -
  have g: "gc_live (vm_heap s) (vm_roots s)" using inv by (simp add: vm_inv_def)
  have "opens_ok h (vm_open s)"
  proof (rule opens_ok_kept)
    show "opens_ok (vm_heap s) (vm_open s)" using inv by (simp add: vm_inv_def)
    show "obj_at h up = obj_at (vm_heap s) up" if "up \<in> set (vm_open s)" for up
      using evolved_held [OF e] inv_root_held [OF inv] that by (simp add: root_cases)
    show "obj_at (vm_heap s) a = Some ob" if "obj_at h a = Some ob" "is_open_upvalue ob" for a ob
      using e new(1) that unfolding evolved_def by blast
  qed
  moreover have "natives_ok h" using natives_ok_evolved [OF e _ new(2)] inv by (simp add: vm_inv_def)
  ultimately show ?thesis using evolved_gc_live [OF e g] inv by (simp add: vm_inv_def vm_gc.roots_set)
qed

lemma vm_inv_set_obj:
  assumes inv: "vm_inv s" and o: "obj_at (vm_heap s) a = Some old"
    and n: "\<not> is_string old" "\<not> is_string ob" "\<not> is_open_upvalue old" "\<not> is_open_upvalue ob" "\<not> is_native_object ob"
    and live: "\<forall>b\<in>set (trace ob). obj_at (vm_heap s) b \<noteq> None"
  shows "vm_inv (s\<lparr>vm_heap := set_obj a ob (vm_heap s)\<rparr>)"
proof -
  let ?h = "set_obj a ob (vm_heap s)"
  have oa: "obj_at ?h b = (if b = a then Some ob else obj_at (vm_heap s) b)" for b using o by (simp add: heap_simps)
  have t: "hp_temp_roots ?h = hp_temp_roots (vm_heap s)" by (simp add: set_obj_def)
  have "sane ?h" using vm_inv_sane [OF inv] o n(1,2) live by (rule sane_set_obj)
  then have "gc_live ?h (vm_roots s)"
    using inv_root_live [OF inv] by (simp add: gc_live_def gc_roots_def vm_root_set_def t oa)
  moreover have "natives_ok ?h"
    using inv n(5) by (auto simp: vm_inv_def natives_ok_def oa is_native_object_def split: if_splits)
  moreover have "opens_ok ?h (vm_open s)"
  proof (rule opens_ok_kept)
    show p: "opens_ok (vm_heap s) (vm_open s)" using inv by (simp add: vm_inv_def)
    show "obj_at ?h up = obj_at (vm_heap s) up" if "up \<in> set (vm_open s)" for up
    proof -
      from p obtain js where "list_all2 (\<lambda>up j. obj_at (vm_heap s) up =
          Some (OUpvalue \<lparr>uv_location = OpenAt j, uv_closed = VNil\<rparr>)) (vm_open s) js"
        unfolding opens_ok_def by blast
      then have "\<exists>j. obj_at (vm_heap s) up = Some (OUpvalue \<lparr>uv_location = OpenAt j, uv_closed = VNil\<rparr>)"
        using that by (auto simp: list_all2_conv_all_nth in_set_conv_nth)
      then show ?thesis using n(3) o by (auto simp: oa is_open_upvalue_def)
    qed
    show "obj_at (vm_heap s) b = Some x" if "obj_at ?h b = Some x" "is_open_upvalue x" for b x
      using that n(4) by (auto simp: oa split: if_splits)
  qed
  ultimately show ?thesis using inv by (simp add: vm_inv_def vm_gc.roots_set)
qed

lemma vok_allocate:
  assumes inv: "vm_inv s" and ob: "\<not> is_string ob" "\<not> is_open_upvalue ob" "\<not> is_native_object ob"
    "\<forall>b\<in>set (trace ob). held (vm_heap s) (vm_roots s) b"
    and Q: "\<And>a h. vm_inv (s\<lparr>vm_heap := h\<rparr>) \<Longrightarrow> obj_at h a = Some ob \<Longrightarrow>
      (\<And>b. held (vm_heap s) (vm_roots s) b \<Longrightarrow> obj_at h b = obj_at (vm_heap s) b) \<Longrightarrow> Q a (s\<lparr>vm_heap := h\<rparr>)"
  shows "vok (vm_allocate sz ob) s Q"
proof -
  obtain a h where al: "allocate sz (vm_roots s) ob (vm_heap s) = (a, h)" by fastforce
  note k = allocate_evolved [OF vm_inv_sane [OF inv] al ob(1,4)]
  have "vm_inv (s\<lparr>vm_heap := h\<rparr>)"
    by (rule inv_evolved [OF inv k(1)]) (use ob in \<open>auto simp: is_native_object_def\<close>)
  then have "Q a (s\<lparr>vm_heap := h\<rparr>)" using k(2) evolved_held [OF k(1)] by (rule Q)
  then show ?thesis by (simp add: xwp_def vm_allocate_def al)
qed

subsection \<open>Reading\<close>

lemma vok_push: "vm_inv s \<Longrightarrow> live_value s v \<Longrightarrow> (vm_inv (s\<lparr>vm_stack := vm_stack s @ [v]\<rparr>) \<Longrightarrow>
    Q () (s\<lparr>vm_stack := vm_stack s @ [v]\<rparr>)) \<Longrightarrow> vok (vm_push v) s Q"
  by (simp add: vm_push_def inv_push)

lemma vok_top: "(\<And>v. v \<in> set (vm_stack s) \<Longrightarrow> Q v s) \<Longrightarrow> vok (vm_top n) s Q"
  by (auto simp: vm_top_def)

lemma vok_slot: "(\<And>v. v \<in> set (vm_stack s) \<Longrightarrow> Q v s) \<Longrightarrow> vok (vm_slot i) s Q"
  by (auto simp: vm_slot_def)

lemma vok_drop: "vm_inv s \<Longrightarrow> (\<And>m. vm_inv (s\<lparr>vm_stack := take m (vm_stack s)\<rparr>) \<Longrightarrow>
    Q () (s\<lparr>vm_stack := take m (vm_stack s)\<rparr>)) \<Longrightarrow> vok (vm_drop n) s Q"
  by (simp add: vm_drop_def inv_take)

lemma vok_set_slot: "vm_inv s \<Longrightarrow> live_value s v \<Longrightarrow> (vm_inv (s\<lparr>vm_stack := (vm_stack s)[i := v]\<rparr>) \<Longrightarrow>
    Q () (s\<lparr>vm_stack := (vm_stack s)[i := v]\<rparr>)) \<Longrightarrow> vok (vm_set_slot i v) s Q"
  by (simp add: vm_set_slot_def inv_set_slot)

lemma live_value_stack [simp]: "live_value (s\<lparr>vm_stack := st\<rparr>) v = live_value s v"
  by (simp add: live_value_def)

lemma vok_replace: "vm_inv s \<Longrightarrow> live_value s v \<Longrightarrow> vok (vm_replace n v) s (\<lambda>_. vm_inv)"
  unfolding vm_replace_def xwp_bind by (rule vok_drop, assumption) (rule vok_push, simp_all)

lemma vok_frame: "(\<And>f. f \<in> set (vm_frames s) \<Longrightarrow> vm_frames s \<noteq> [] \<Longrightarrow> f = hd (vm_frames s) \<Longrightarrow> Q f s) \<Longrightarrow> vok vm_frame s Q"
  by (auto simp: vm_frame_def split: list.split)

lemma vok_object: "(\<And>ob. obj_at (vm_heap s) a = Some ob \<Longrightarrow> Q ob s) \<Longrightarrow> vok (vm_object a) s Q"
  by (simp add: vm_object_def split: option.split)

lemma vok_closure: "(\<And>f us. obj_at (vm_heap s) a = Some (OClosure f us) \<Longrightarrow> Q (f, us) s) \<Longrightarrow> vok (vm_closure a) s Q"
  by (simp add: vm_closure_def vm_object_def split: option.split obj.split)

lemma vok_function: "(\<And>f. obj_at (vm_heap s) a = Some (OFunction f) \<Longrightarrow> Q f s) \<Longrightarrow> vok (vm_function a) s Q"
  by (simp add: vm_function_def vm_object_def split: option.split obj.split)

lemma vok_upvalue: "(\<And>u. obj_at (vm_heap s) a = Some (OUpvalue u) \<Longrightarrow> Q u s) \<Longrightarrow> vok (vm_upvalue a) s Q"
  by (simp add: vm_upvalue_def vm_object_def split: option.split obj.split)

text \<open>What the running closure leads to is held: its function, its upvalues, its constants.\<close>

lemma held_closure:
  assumes "vm_inv s" "f \<in> set (vm_frames s)" "obj_at (vm_heap s) (cf_closure f) = Some (OClosure fn us)"
  shows "held (vm_heap s) (vm_roots s) fn" "Some up \<in> set us \<Longrightarrow> held (vm_heap s) (vm_roots s) up"
  using held_trace [OF vm_inv_sane [OF assms(1)] frame_held [OF assms(1,2)] assms(3)]
  by (auto simp: opt_addrs_def)

lemma held_constant:
  assumes "vm_inv s" "held (vm_heap s) (vm_roots s) fn" "obj_at (vm_heap s) fn = Some (OFunction fo)"
    "v \<in> set (ch_constants (fo_chunk fo))"
  shows "held_value s v"
  using held_trace [OF vm_inv_sane [OF assms(1)] assms(2,3)] assms(4) by (auto simp: held_value_def)

lemma vok_chunk:
  assumes "vm_inv s" "\<And>c. (\<And>v. v \<in> set (ch_constants c) \<Longrightarrow> held_value s v) \<Longrightarrow> Q c s"
  shows "vok vm_chunk s Q"
  unfolding vm_chunk_def xwp_bind
proof (rule vok_frame, rule vok_closure, unfold split_conv xwp_bind xwp_return, rule vok_function)
  fix f fn us fo
  assume "f \<in> set (vm_frames s)" "obj_at (vm_heap s) (cf_closure f) = Some (OClosure fn us)"
    "obj_at (vm_heap s) fn = Some (OFunction fo)"
  then have "held_value s v" if "v \<in> set (ch_constants (fo_chunk fo))" for v
    using held_constant [OF assms(1) held_closure(1) [OF assms(1)]] that by blast
  then show "Q (fo_chunk fo) s" using assms(2) by simp
qed

text \<open>A move of the instruction pointer.\<close>

definition moved :: "stack_vm \<Rightarrow> stack_vm \<Rightarrow> bool" where
  "moved s s' \<longleftrightarrow> (\<exists>fs. s' = s\<lparr>vm_frames := fs\<rparr> \<and> map cf_closure fs = map cf_closure (vm_frames s) \<and>
     map cf_base fs = map cf_base (vm_frames s))"

lemma moved_refl: "moved s s"
  unfolding moved_def by (intro exI [of _ "vm_frames s"]) simp

lemma moved_trans: "moved r s \<Longrightarrow> moved s t \<Longrightarrow> moved r t"
  unfolding moved_def by auto

lemma moved_roots: "moved s s' \<Longrightarrow> vm_roots s' = vm_roots s" "moved s s' \<Longrightarrow> vm_heap s' = vm_heap s"
  "moved s s' \<Longrightarrow> vm_stack s' = vm_stack s" "moved s s' \<Longrightarrow> vm_globals s' = vm_globals s"
  by (auto simp: moved_def vm_roots_def)

lemma moved_inv: "moved s s' \<Longrightarrow> vm_inv s \<Longrightarrow> vm_inv s'"
proof -
  assume m: "moved s s'" and inv: "vm_inv s"
  then obtain fs where fs: "s' = s\<lparr>vm_frames := fs\<rparr>" "map cf_closure fs = map cf_closure (vm_frames s)"
    unfolding moved_def by blast
  have "length fs = length (vm_frames s)" using fs(2) by (metis length_map)
  then show "vm_inv s'" using inv fs moved_roots(1) [OF m] by (simp add: vm_inv_def)
qed

lemma moved_ip: "vm_frames s = f # fs \<Longrightarrow> moved s (s\<lparr>vm_frames := f\<lparr>cf_ip := ip\<rparr> # fs\<rparr>)"
  unfolding moved_def by (intro exI [of _ "f\<lparr>cf_ip := ip\<rparr> # fs"]) simp

lemma vok_set_ip: "(\<And>s'. moved s s' \<Longrightarrow> Q () s') \<Longrightarrow> vok (vm_set_ip ip) s Q"
  by (auto simp: vm_set_ip_def moved_ip split: list.split)

lemma moved_constants: "moved s s' \<Longrightarrow> held_value s v \<Longrightarrow> held_value s' v"
  by (simp add: held_value_def moved_roots)

lemma vok_read_byte:
  assumes "vm_inv s" "\<And>b s'. moved s s' \<Longrightarrow> vm_inv s' \<Longrightarrow> Q b s'"
  shows "vok read_byte s Q"
  unfolding read_byte_def xwp_bind
proof (rule vok_chunk [OF assms(1)], rule vok_frame)
  fix c f
  show "vok (xassert BadCode (cf_ip f < length (ch_code c))) s (\<lambda>x t. vok (vm_set_ip (cf_ip f + 1)) t
      (\<lambda>x t. vok (xreturn (ch_code c ! cf_ip f)) t Q))"
    by (simp, intro impI vok_set_ip) (simp add: assms moved_inv [OF _ assms(1)])
qed

lemma vok_read_u24:
  assumes "vm_inv s" "\<And>k s'. moved s s' \<Longrightarrow> vm_inv s' \<Longrightarrow> Q k s'"
  shows "vok read_u24 s Q"
  unfolding read_u24_def xwp_bind xwp_return
  by (rule vok_read_byte [OF assms(1)], erule vok_read_byte, erule vok_read_byte)
    (rule assms(2), blast intro: moved_trans, assumption)

lemma vok_read_constant:
  assumes "vm_inv s" "\<And>v s'. moved s s' \<Longrightarrow> vm_inv s' \<Longrightarrow> held_value s' v \<Longrightarrow> Q v s'"
  shows "vok read_constant s Q"
  unfolding read_constant_def xwp_bind
proof (rule vok_read_u24 [OF assms(1)])
  fix k s' assume s': "moved s s'" "vm_inv s'"
  show "vok vm_chunk s' (\<lambda>c t. vok (xassert BadCode (k < length (ch_constants c))) t
      (\<lambda>_ t. vok (xreturn (ch_constants c ! k)) t Q))"
    by (rule vok_chunk [OF s'(2)]) (simp add: assms(2) [OF s'])
qed

lemma vok_read_name:
  assumes "vm_inv s" "\<And>a s'. moved s s' \<Longrightarrow> vm_inv s' \<Longrightarrow> held (vm_heap s') (vm_roots s') a \<Longrightarrow> Q a s'"
  shows "vok read_name s Q"
  unfolding read_name_def xwp_bind
  by (rule vok_read_constant [OF assms(1)])
    (simp add: assms(2) held_value_def value_addrs_def split: gvalue.split)

lemma vok_vm_fail: "vm_inv s \<Longrightarrow> (\<And>e. vm_inv (s\<lparr>vm_error := e\<rparr>) \<Longrightarrow> Q () (s\<lparr>vm_error := e\<rparr>)) \<Longrightarrow> vok (vm_fail m) s Q"
  unfolding vm_fail_def xwp_bind xwp_get
  by (auto intro!: vok_chunk vok_frame simp: inv_small)

subsection \<open>Handlers\<close>

text \<open>What is left of a handler after its last read.\<close>

abbreviation keeps_inv :: "'a vm \<Rightarrow> stack_vm \<Rightarrow> bool" where
  "keeps_inv m s \<equiv> vok m s (\<lambda>_. vm_inv)"

lemma keeps_running: "keeps_inv m s \<Longrightarrow> keeps_inv (running m) s"
  by (simp add: running_def)

lemma keeps_failing: "vm_inv s \<Longrightarrow> keeps_inv (failing m) s"
  by (simp add: failing_def) (erule vok_vm_fail, assumption)

lemma keeps_result:
  "vm_inv s \<Longrightarrow> (\<And>v. r = Inr v \<Longrightarrow> live_value s v) \<Longrightarrow> keeps_inv (vm_result_of n r) s"
  by (cases r) (simp_all add: vm_result_of_def keeps_failing keeps_running vok_replace)

lemma keeps_push: "vm_inv s \<Longrightarrow> live_value s v \<Longrightarrow> keeps_inv (vm_push v) s"
  by (erule vok_push)

lemma keeps_drop: "vm_inv s \<Longrightarrow> keeps_inv (vm_drop n) s"
  by (erule vok_drop)

lemma vm_stack_live: "vm_inv s \<Longrightarrow> v \<in> set (vm_stack s) \<Longrightarrow> live_value s v"
  by (rule held_live_value [OF stack_held])

lemma binary_live:
  assumes "op \<in> {op_sub, op_mul, op_div, op_mod, op_less, op_less_equal, op_greater, op_greater_equal,
      \<lambda>a b. Inr (VBool (values_equal a b)), \<lambda>a b. Inr (VBool (\<not> values_equal a b))}" "op a b = Inr v"
  shows "live_value s v"
  using assms
  by (auto simp: op_sub_def op_mul_def op_div_def op_mod_def op_less_def op_less_equal_def op_greater_def
      op_greater_equal_def numeric_binary_def numeric_compare_def Let_def split: if_splits)

lemma keeps_binary:
  "vm_inv s \<Longrightarrow> (\<And>a b v. op a b = Inr v \<Longrightarrow> live_value s v) \<Longrightarrow> keeps_inv (step_binary op) s"
  unfolding step_binary_def xwp_bind by (intro vok_top keeps_result) blast+

lemma keeps_add: "vm_inv s \<Longrightarrow> keeps_inv (step_add sz) s"
  unfolding step_add_def xwp_bind
proof (intro vok_top)
  fix a b
  assume inv: "vm_inv s"
  obtain r h where op: "op_add sz (vm_roots s) a b (vm_heap s) = (r, h)" by fastforce
  note k = op_add_evolved [OF vm_inv_sane [OF inv] op]
  have i: "vm_inv (s\<lparr>vm_heap := h\<rparr>)" by (rule inv_evolved [OF inv k(1)]) (auto simp: is_open_upvalue_def)
  have "keeps_inv (vm_result_of 2 r) (s\<lparr>vm_heap := h\<rparr>)"
    by (rule keeps_result [OF i]) (use k(2) in \<open>simp add: live_value_def\<close>)
  then show "vok (\<lambda>s. let (r, h) = op_add sz (vm_roots s) a b (vm_heap s) in Ok (r, s\<lparr>vm_heap := h\<rparr>)) s
      (\<lambda>x t. keeps_inv (vm_result_of 2 x) t)"
    by (simp add: xwp_def op)
qed

lemma keeps_globals:
  assumes inv: "vm_inv s"
  shows "keeps_inv step_get_global s" "keeps_inv step_set_global s" "keeps_inv step_define_global s"
proof -
  show "keeps_inv step_get_global s"
    unfolding step_get_global_def xwp_bind xwp_get
  proof (rule vok_read_name [OF inv])
    fix a s' assume i: "vm_inv s'"
    show "vok (case map_of (vm_globals s') a of
        None \<Rightarrow> xbind (xget (\<lambda>s. string_at (vm_heap s) a)) (\<lambda>x. failing (undefined_variable_message x))
      | Some v \<Rightarrow> running (vm_push v)) s' (\<lambda>_. vm_inv)"
      using i globals_held [OF i, of a]
      by (auto intro!: keeps_failing keeps_running keeps_push dest: held_live_value split: option.split)
  qed
  show "keeps_inv step_set_global s"
    unfolding step_set_global_def xwp_bind xwp_get
  proof (rule vok_read_name [OF inv])
    fix a s' assume i: "vm_inv s'" "held (vm_heap s') (vm_roots s') a"
    then have "obj_at (vm_heap s') a \<noteq> None" by (simp only: held_live not_False_eq_True)
    then show "vok (case map_of (vm_globals s') a of
        None \<Rightarrow> xbind (xget (\<lambda>s. string_at (vm_heap s) a)) (\<lambda>x. failing (undefined_variable_message x))
      | Some old \<Rightarrow> xbind (vm_top 1) (\<lambda>v.
          running (xmod (\<lambda>s. s\<lparr>vm_globals := AList.update a v (vm_globals s)\<rparr>)))) s' (\<lambda>_. vm_inv)"
      using i(1) vm_stack_live [OF i(1)]
      by (auto intro!: keeps_failing keeps_running vok_top vm_inv_global split: option.split)
  qed
  show "keeps_inv step_define_global s"
    unfolding step_define_global_def xwp_bind xwp_get
  proof (rule vok_read_name [OF inv], rule vok_top)
    fix a s' v assume i: "vm_inv s'" "held (vm_heap s') (vm_roots s') a" "v \<in> set (vm_stack s')"
    then have "obj_at (vm_heap s') a \<noteq> None" by (simp only: held_live not_False_eq_True)
    then have "vm_inv (s'\<lparr>vm_globals := AList.update a v (vm_globals s')\<rparr>)"
      by (intro vm_inv_global vm_stack_live i)
    then show "keeps_inv (running (xseq (xmod (\<lambda>s. s\<lparr>vm_globals := AList.update a v (vm_globals s)\<rparr>)) (vm_drop 1))) s'"
      by (intro keeps_running) (simp add: keeps_drop)
  qed
qed

lemma keeps_locals:
  assumes inv: "vm_inv s"
  shows "keeps_inv step_get_local s" "keeps_inv step_set_local s"
proof -
  show "keeps_inv step_get_local s"
    unfolding step_get_local_def xwp_bind
    by (rule vok_read_byte [OF inv], rule vok_frame, rule vok_slot, intro keeps_running keeps_push vm_stack_live)
  show "keeps_inv step_set_local s"
    unfolding step_set_local_def xwp_bind
    by (rule vok_read_byte [OF inv], rule vok_frame, rule vok_top, intro keeps_running vok_set_slot vm_stack_live)
qed

lemma keeps_jump:
  assumes "vm_inv s"
  shows "keeps_inv (jump_forward d) s" "keeps_inv (jump_back d) s"
  unfolding jump_forward_def jump_back_def xwp_bind
  by (rule vok_frame, auto intro!: vok_set_ip moved_inv [OF _ assms])+

lemma keeps_jumps:
  assumes inv: "vm_inv s"
  shows "keeps_inv (xbind read_u24 (\<lambda>d. running (jump_forward d))) s"
    "keeps_inv (xbind read_u24 (\<lambda>d. running (jump_back d))) s" "keeps_inv step_jump_if_false s"
proof -
  show "keeps_inv (xbind read_u24 (\<lambda>d. running (jump_forward d))) s"
    "keeps_inv (xbind read_u24 (\<lambda>d. running (jump_back d))) s"
    unfolding xwp_bind by (rule vok_read_u24 [OF inv], intro keeps_running keeps_jump, assumption)+
  show "keeps_inv step_jump_if_false s"
    unfolding step_jump_if_false_def xwp_bind
    by (rule vok_read_u24 [OF inv], rule vok_top, rule keeps_running) (simp add: keeps_jump)
qed

lemma heap_value_live:
  assumes "vm_inv s" "obj_at (vm_heap s) a = Some ob" "set (value_addrs v) \<subseteq> set (trace ob)"
  shows "live_value s v"
  using assms vm_inv_sane [OF assms(1)] unfolding live_value_def sane_def no_dangling_def by blast

lemma keeps_print: "vm_inv s \<Longrightarrow> keeps_inv step_print s"
  unfolding step_print_def xwp_bind by (rule vok_top, rule keeps_running) (simp add: keeps_drop inv_small)

lemma keeps_array: "vm_inv s \<Longrightarrow> keeps_inv (step_array sz) s"
  unfolding step_array_def xwp_bind [of read_u24]
proof (rule vok_read_u24, assumption)
  fix count s' assume i: "vm_inv s'"
  let ?st = "vm_stack s'"
  have "held_value s' v" if "v \<in> set (drop (length ?st - count) ?st)" for v
    using that stack_held [OF i] by (blast dest: in_set_dropD)
  then have t: "\<forall>b\<in>set (trace (OArray (drop (length ?st - count) ?st))). held (vm_heap s') (vm_roots s') b"
    by (auto simp: held_value_def)
  have "keeps_inv (xbind (vm_allocate sz (OArray (drop (length ?st - count) ?st)))
      (\<lambda>a. running (vm_replace count (VObj a)))) s'"
    unfolding xwp_bind
  proof (rule vok_allocate [OF i _ _ _ t])
    fix a h assume "vm_inv (s'\<lparr>vm_heap := h\<rparr>)" "obj_at h a = Some (OArray (drop (length ?st - count) ?st))"
    then show "keeps_inv (running (vm_replace count (VObj a))) (s'\<lparr>vm_heap := h\<rparr>)"
      by (intro keeps_running vok_replace) (simp_all add: live_value_def value_addrs_def)
  qed (simp_all add: is_string_def is_open_upvalue_def is_native_object_def)
  then show "keeps_inv (xbind (xget vm_stack) (\<lambda>st.
     xseq (xassert StackUnderrun (count \<le> length st))
       (xbind (vm_allocate sz (OArray (drop (length st - count) st))) (\<lambda>a.
          running (vm_replace count (VObj a)))))) s'" by simp
qed

lemma keeps_index_get: "vm_inv s \<Longrightarrow> keeps_inv step_index_get s"
  unfolding step_index_get_def xwp_bind xwp_get
proof (rule vok_top, rule vok_top, rule keeps_result, assumption)
  fix a i v
  assume inv: "vm_inv s" and "array_get (vm_heap s) a i = Inr v"
  then obtain n b vs where "array_of (vm_heap s) a = Some (b, vs)" "n < length vs" "v = vs ! n"
    by (auto simp: array_get_def sbind_eq_Inr resolve_index_Inr)
  then show "live_value s v"
    using heap_value_live [OF inv, of b "OArray vs" v] nth_mem [of n vs] by (fastforce elim!: array_ofE)
qed

lemma keeps_index_set: "vm_inv s \<Longrightarrow> keeps_inv step_index_set s"
  unfolding step_index_set_def xwp_bind xwp_get
proof (rule vok_top, rule vok_top, rule vok_top)
  fix a i v
  assume inv: "vm_inv s" and v: "v \<in> set (vm_stack s)"
  show "keeps_inv (case array_set a i v (vm_heap s) of
       Inl message \<Rightarrow> failing message
     | Inr h \<Rightarrow> running (xseq (xmod (\<lambda>s. s\<lparr>vm_heap := h\<rparr>)) (vm_replace 3 v))) s"
  proof (cases "array_set a i v (vm_heap s)")
    case (Inl m)
    then show ?thesis using inv by (simp add: keeps_failing)
  next
    case (Inr h)
    then obtain n b vs where b: "array_of (vm_heap s) a = Some (b, vs)" "n < length vs"
      and h: "h = set_obj b (OArray (vs[n := v])) (vm_heap s)"
      by (auto simp: array_set_def sbind_eq_Inr resolve_index_Inr)
    then have o: "obj_at (vm_heap s) b = Some (OArray vs)" by (auto elim: array_ofE)
    have lv: "live_value s v" using vm_stack_live [OF inv v] .
    have "\<forall>x\<in>set (trace (OArray vs)). obj_at (vm_heap s) x \<noteq> None"
      using vm_inv_sane [OF inv] o unfolding sane_def no_dangling_def by blast
    then have "\<forall>x\<in>set (trace (OArray (vs[n := v]))). obj_at (vm_heap s) x \<noteq> None"
      using lv by (auto simp: live_value_def dest!: set_update_subset_insert [THEN subsetD])
    then have "vm_inv (s\<lparr>vm_heap := h\<rparr>)"
      unfolding h by (intro vm_inv_set_obj [OF inv o]) (simp_all add: is_string_def is_open_upvalue_def is_native_object_def)
    moreover have "live_value (s\<lparr>vm_heap := h\<rparr>) v" using lv by (simp add: live_value_def h heap_simps)
    ultimately show ?thesis by (simp add: Inr keeps_running vok_replace)
  qed
qed

end
