(* ===== verification/Compiler_Host.thy ===== *)
theory Compiler_Host
  imports Stack_Safe
begin

text \<open>
  What a machine asks of a compiler that allocates on its heap: the heap stays sound, what the machine
  marks stays live, and the open upvalues stay as they are. The contract is stated for any compiler
  state that holds the heap, as a locale that both compilers interpret.
\<close>

declare xwp_simps [simp]

definition host_ok :: "addr list \<Rightarrow> addr list \<Rightarrow> heap \<Rightarrow> bool" where
  "host_ok roots opens h \<longleftrightarrow> gc_live h roots \<and> natives_ok h \<and> opens_ok h opens \<and> set opens \<subseteq> set roots"

definition stop_ok :: "addr list \<Rightarrow> addr list \<Rightarrow> compile_stop \<Rightarrow> bool" where
  "stop_ok outer opens e \<longleftrightarrow> (case e of TooLarge err h \<Rightarrow> host_ok outer opens h | Stuck \<Rightarrow> True)"

lemma stop_ok_Stuck [simp]: "stop_ok outer opens Stuck"
  by (simp add: stop_ok_def)

subsection \<open>The heap\<close>

lemma host_ok_evolved:
  assumes ok: "host_ok roots opens h" and e: "evolved roots h h' new"
    and new: "\<And>b x. new b x \<Longrightarrow> \<not> is_open_upvalue x" "\<And>b n k f. new b (ONative n k f) \<Longrightarrow> k = native_arity f"
  shows "host_ok roots opens h'"
proof -
  have g: "gc_live h roots" and o: "opens_ok h opens" "set opens \<subseteq> set roots" using ok by (simp_all add: host_ok_def)
  have "opens_ok h' opens"
  proof (rule opens_ok_kept [OF o(1)])
    show "obj_at h' up = obj_at h up" if "up \<in> set opens" for up
      using that o(2) by (intro evolved_held [OF e] gc_live_held [OF g]) (auto simp: gc_roots_def)
    show "obj_at h a = Some ob" if "obj_at h' a = Some ob" "is_open_upvalue ob" for a ob
      using e new(1) that unfolding evolved_def by blast
  qed
  then show ?thesis
    using evolved_gc_live [OF e g] natives_ok_evolved [OF e _ new(2)] ok by (simp add: host_ok_def)
qed

lemma host_ok_set_obj:
  assumes ok: "host_ok roots opens h" and o: "obj_at h a = Some old"
    and n: "\<not> is_string old" "\<not> is_string ob" "\<not> is_open_upvalue old" "\<not> is_open_upvalue ob" "\<not> is_native_object ob"
    and live: "\<forall>b\<in>set (trace ob). obj_at h b \<noteq> None"
  shows "host_ok roots opens (set_obj a ob h)"
proof -
  let ?h = "set_obj a ob h"
  have oa: "obj_at ?h b = (if b = a then Some ob else obj_at h b)" for b using o by (simp add: heap_simps)
  have t: "hp_temp_roots ?h = hp_temp_roots h" by (simp add: set_obj_def)
  have "sane h" using ok by (simp add: host_ok_def gc_live_def)
  from sane_set_obj [OF this o n(1,2) live] have "gc_live ?h roots"
    using ok by (simp add: host_ok_def gc_live_def gc_roots_def t oa)
  moreover have "natives_ok ?h"
    using ok n(5) by (auto simp: host_ok_def natives_ok_def oa is_native_object_def split: if_splits)
  moreover have "opens_ok ?h opens"
  proof (rule opens_ok_kept)
    show p: "opens_ok h opens" using ok by (simp add: host_ok_def)
    show "obj_at ?h up = obj_at h up" if "up \<in> set opens" for up
    proof -
      from p obtain js where "list_all2 (\<lambda>up j. obj_at h up =
          Some (OUpvalue \<lparr>uv_location = OpenAt j, uv_closed = VNil\<rparr>)) opens js"
        unfolding opens_ok_def by blast
      then have "\<exists>j. obj_at h up = Some (OUpvalue \<lparr>uv_location = OpenAt j, uv_closed = VNil\<rparr>)"
        using that by (auto simp: list_all2_conv_all_nth in_set_conv_nth)
      then show ?thesis using n(3) o by (auto simp: oa is_open_upvalue_def)
    qed
    show "obj_at h b = Some x" if "obj_at ?h b = Some x" "is_open_upvalue x" for b x
      using that n(4) by (auto simp: oa split: if_splits)
  qed
  ultimately show ?thesis using ok by (simp add: host_ok_def)
qed

lemma host_ok_set_function:
  "host_ok roots opens h \<Longrightarrow> obj_at h a = Some (OFunction old) \<Longrightarrow>
   \<forall>b\<in>set (trace (OFunction f)). obj_at h b \<noteq> None \<Longrightarrow> host_ok roots opens (set_obj a (OFunction f) h)"
  by (rule host_ok_set_obj) (auto simp: is_string_def is_open_upvalue_def is_native_object_def)

lemma host_ok_fewer: "host_ok roots opens h \<Longrightarrow> set roots' \<subseteq> set roots \<Longrightarrow> set opens \<subseteq> set roots' \<Longrightarrow> host_ok roots' opens h"
  by (auto simp: host_ok_def gc_live_def gc_roots_def)

lemma host_ok_same_objects:
  assumes "host_ok roots opens h" "obj_at h' = obj_at h" "sane h'" "\<forall>a\<in>gc_roots roots h'. obj_at h a \<noteq> None"
  shows "host_ok roots opens h'"
  using assms opens_ok_cong [OF assms(2)] by (simp add: host_ok_def gc_live_def natives_ok_def)

lemma host_ok_sane: "host_ok roots opens h \<Longrightarrow> sane h"
  by (simp add: host_ok_def gc_live_def)

lemma host_ok_live: "host_ok roots opens h \<Longrightarrow> a \<in> gc_roots roots h \<Longrightarrow> obj_at h a \<noteq> None"
  by (simp add: host_ok_def gc_live_def)

lemma host_ok_push_temp:
  assumes "host_ok roots opens h" "\<forall>b\<in>set (value_addrs v). obj_at h b \<noteq> None"
  shows "host_ok roots opens (push_temp v h)"
proof (rule host_ok_same_objects [OF assms(1)])
  have "gc_roots roots (push_temp v h) = gc_roots roots h \<union> set (value_addrs v)"
    by (auto simp: gc_roots_def push_temp_def)
  then show "\<forall>a\<in>gc_roots roots (push_temp v h). obj_at h a \<noteq> None"
    using assms(2) host_ok_live [OF assms(1)] by blast
qed (use host_ok_sane [OF assms(1)] in \<open>simp_all add: heap_simps fun_eq_iff\<close>)

lemma host_ok_pop_temp:
  assumes "host_ok roots opens h"
  shows "host_ok roots opens (pop_temp h)"
proof (rule host_ok_same_objects [OF assms(1)])
  have "gc_roots roots (pop_temp h) \<subseteq> gc_roots roots h"
    by (auto simp: gc_roots_def pop_temp_def dest: in_set_butlastD)
  then show "\<forall>a\<in>gc_roots roots (pop_temp h). obj_at h a \<noteq> None" using host_ok_live [OF assms(1)] by blast
qed (use host_ok_sane [OF assms(1)] in \<open>simp_all add: heap_simps fun_eq_iff\<close>)

subsection \<open>A compiler\<close>

text \<open>
  What the two compilers share: a state that holds the heap and the function objects under
  construction, which are its roots besides those of the machine, \<open>outer\<close>. An action keeps the
  invariant when it does so from every state, whether it returns or throws.
\<close>

locale heap_compiler = gc_client heap_of set_heap funs_of
  for heap_of :: "'s \<Rightarrow> heap" and set_heap :: "heap \<Rightarrow> 's \<Rightarrow> 's" and funs_of :: "'s \<Rightarrow> addr list" +
  assumes set_set: "set_heap h (set_heap k s) = set_heap h s"
begin

definition inv :: "addr list \<Rightarrow> addr list \<Rightarrow> 's \<Rightarrow> bool" where
  "inv outer opens s \<longleftrightarrow> host_ok (outer @ funs_of s) opens (heap_of s) \<and> set opens \<subseteq> set outer"

definition keeps :: "addr list \<Rightarrow> addr list \<Rightarrow> ('s, compile_stop, 'a) exec \<Rightarrow> bool" where
  "keeps outer opens m \<longleftrightarrow> (\<forall>s. inv outer opens s \<longrightarrow> xwp m s (\<lambda>_. inv outer opens) (stop_ok outer opens))"

lemma keepsI: "(\<And>s. inv outer opens s \<Longrightarrow> xwp m s (\<lambda>_. inv outer opens) (stop_ok outer opens)) \<Longrightarrow> keeps outer opens m"
  by (simp add: keeps_def)

lemma keepsD: "keeps outer opens m \<Longrightarrow> inv outer opens s \<Longrightarrow> xwp m s (\<lambda>_. inv outer opens) (stop_ok outer opens)"
  by (simp add: keeps_def)

lemma keeps_bind: "keeps outer opens m \<Longrightarrow> (\<And>x. keeps outer opens (k x)) \<Longrightarrow> keeps outer opens (xbind m k)"
  unfolding keeps_def xwp_bind by (blast intro: xwp_mono)

lemma keeps_simple:
  "keeps outer opens (xreturn x)" "keeps outer opens (xget g)" "keeps outer opens (xassert Stuck b)"
  "keeps outer opens (xthe Stuck y)" "keeps outer opens (xstop (\<lambda>_. Stuck))"
  by (simp_all add: keeps_def split: option.split)

lemma keeps_cond: "keeps outer opens m \<Longrightarrow> keeps outer opens m' \<Longrightarrow> keeps outer opens (if b then m else m')"
  by simp

lemma bind_keeps:
  "keeps outer opens m \<Longrightarrow> inv outer opens s \<Longrightarrow>
   (\<And>x t. inv outer opens t \<Longrightarrow> xwp (k x) t Q (stop_ok outer opens)) \<Longrightarrow> xwp (xbind m k) s Q (stop_ok outer opens)"
  unfolding xwp_bind by (rule xwp_mono [OF keepsD]) auto

lemma host_inv: "inv outer opens s \<Longrightarrow> host_ok (outer @ funs_of s) opens (heap_of s)"
  by (simp add: inv_def)

lemma inv_outer: "inv outer opens s \<Longrightarrow> host_ok outer opens (heap_of s)"
  by (auto simp: inv_def elim: host_ok_fewer)

lemma keeps_stop: "keeps outer opens (xstop (\<lambda>s. TooLarge e (heap_of s)))"
  by (rule keepsI) (simp add: stop_ok_def inv_outer)

lemma inv_set_heap:
  "inv outer opens s \<Longrightarrow> host_ok (outer @ funs_of s) opens h \<Longrightarrow> inv outer opens (set_heap h s)"
  by (simp add: inv_def heap_set roots_set)

lemma inv_fewer:
  "inv outer opens s \<Longrightarrow> heap_of s' = heap_of s \<Longrightarrow> set (funs_of s') \<subseteq> set (funs_of s) \<Longrightarrow> inv outer opens s'"
  by (auto simp: inv_def elim!: host_ok_fewer)

lemma inv_more:
  assumes "inv outer opens s" "heap_of s' = heap_of s" "set (funs_of s') \<subseteq> insert a (set (funs_of s))"
    "obj_at (heap_of s) a \<noteq> None"
  shows "inv outer opens s'"
proof -
  have "gc_roots (outer @ funs_of s') (heap_of s) \<subseteq> insert a (gc_roots (outer @ funs_of s) (heap_of s))"
    using assms(3) by (auto simp: gc_roots_def)
  then show ?thesis using assms by (auto simp: inv_def host_ok_def gc_live_def)
qed

lemma inv_trace:
  "inv outer opens s \<Longrightarrow> obj_at (heap_of s) a = Some ob \<Longrightarrow> b \<in> set (trace ob) \<Longrightarrow> obj_at (heap_of s) b \<noteq> None"
  unfolding inv_def host_ok_def gc_live_def sane_def no_dangling_def by blast

lemma inv_root: "inv outer opens s \<Longrightarrow> a \<in> set (funs_of s) \<Longrightarrow> obj_at (heap_of s) a \<noteq> None"
  by (auto simp: inv_def host_ok_def gc_live_def gc_roots_def)

lemma inv_set_function:
  assumes "inv outer opens s" "obj_at (heap_of s) a = Some (OFunction f)"
    "\<And>b. b \<in> set (trace (OFunction g)) \<Longrightarrow> b \<in> set (trace (OFunction f)) \<or> obj_at (heap_of s) b \<noteq> None"
  shows "inv outer opens (set_heap (set_obj a (OFunction g) (heap_of s)) s)"
  by (rule inv_set_heap [OF assms(1)], rule host_ok_set_function [OF host_inv [OF assms(1)] assms(2)])
    (use assms(3) inv_trace [OF assms(1,2)] in blast)

lemma inv_interned:
  assumes inv: "inv outer opens s" and i: "intern sz (outer @ funs_of s) bytes (heap_of s) = (a, h)"
  shows "inv outer opens (set_heap h s)" "obj_at h a = Some (OString bytes)"
proof -
  note k = intern_evolved [OF host_ok_sane [OF host_inv [OF inv]] i]
  show "obj_at h a = Some (OString bytes)" by (rule k(2))
  show "inv outer opens (set_heap h s)"
    by (rule inv_set_heap [OF inv], rule host_ok_evolved [OF host_inv [OF inv] k(1)]) (auto simp: is_open_upvalue_def)
qed

lemma inv_new_function:
  assumes inv: "inv outer opens s" and name: "\<And>n. name = Some n \<Longrightarrow> VObj n \<in> set (hp_temp_roots (heap_of s))"
    and al: "allocate sz (outer @ funs_of s) (new_function name) (heap_of s) = (a, h)"
  shows "inv outer opens (set_heap h s)" "obj_at h a \<noteq> None"
proof -
  let ?R = "outer @ funs_of s" and ?ob = "new_function name"
  have "b \<in> gc_roots ?R (heap_of s)" if "b \<in> set (trace ?ob)" for b
  proof -
    have "name = Some b" using that
      by (simp add: new_function_def opt_addrs_def empty_chunk_def empty_reg_chunk_def split: option.splits)
    from name [OF this] show ?thesis by (force simp: gc_roots_def value_addrs_def)
  qed
  then have "\<forall>b\<in>set (trace ?ob). held (heap_of s) ?R b"
    using host_inv [OF inv] by (simp add: host_ok_def gc_live_held)
  note k = allocate_evolved [OF host_ok_sane [OF host_inv [OF inv]] al _ this]
  have n: "\<not> is_string ?ob" by (simp add: new_function_def is_string_def)
  show "obj_at h a \<noteq> None" using k(2) [OF n] by simp
  show "inv outer opens (set_heap h s)"
    by (rule inv_set_heap [OF inv], rule host_ok_evolved [OF host_inv [OF inv] k(1) [OF n]])
      (auto simp: is_open_upvalue_def new_function_def)
qed

text \<open>The name of a function is a temporary root while the function object is allocated.\<close>

lemma inv_named_function:
  assumes inv: "inv outer opens s" and a: "obj_at (heap_of s) n = Some (OString name)"
    and al: "allocate sz (outer @ funs_of s) (new_function (Some n)) (push_temp (VObj n) (heap_of s)) = (a, h)"
  shows "inv outer opens (set_heap (pop_temp h) s)" "obj_at (pop_temp h) a \<noteq> None"
proof -
  let ?t = "set_heap (push_temp (VObj n) (heap_of s)) s"
  have t: "inv outer opens ?t"
    by (rule inv_set_heap [OF inv], rule host_ok_push_temp [OF host_inv [OF inv]]) (simp add: value_addrs_def a)
  have "allocate sz (outer @ funs_of ?t) (new_function (Some n)) (heap_of ?t) = (a, h)"
    using al by (simp add: heap_set roots_set)
  note k = inv_new_function [OF t _ this]
  have u: "inv outer opens (set_heap h s)" "obj_at h a \<noteq> None"
    using k by (simp_all add: heap_set set_set push_temp_def)
  show "obj_at (pop_temp h) a \<noteq> None" using u(2) by (simp add: heap_simps)
  show "inv outer opens (set_heap (pop_temp h) s)"
    using host_ok_pop_temp [OF host_inv [OF u(1)]] by (intro inv_set_heap [OF inv]) (simp add: heap_set roots_set)
qed

end

end
