(* ===== verification/Upvalue_Host.thy ===== *)
theory Upvalue_Host
  imports Compiler_Host
begin

text \<open>
  The open upvalues as the heap has them: the open list holds exactly these, highest slot first. What
  capturing and closing do to the heap and the list is the same for both machines.
\<close>

definition open_at :: "heap \<Rightarrow> addr \<Rightarrow> nat \<Rightarrow> bool" where
  "open_at h up j \<longleftrightarrow> obj_at h up = Some (OUpvalue \<lparr>uv_location = OpenAt j, uv_closed = VNil\<rparr>)"

lemma opens_okE:
  assumes "opens_ok h opens"
  obtains js where "sorted_wrt (>) js" "list_all2 (open_at h) opens js"
    "\<And>a u j. obj_at h a = Some (OUpvalue u) \<Longrightarrow> uv_location u = OpenAt j \<Longrightarrow> a \<in> set opens"
  using assms unfolding opens_ok_def open_at_def [abs_def] by blast

lemma opens_okI:
  assumes "sorted_wrt (>) js" "list_all2 (open_at h) opens js"
    "\<And>a u j. obj_at h a = Some (OUpvalue u) \<Longrightarrow> uv_location u = OpenAt j \<Longrightarrow> a \<in> set opens"
  shows "opens_ok h opens"
  using assms unfolding opens_ok_def open_at_def [abs_def] by blast

text \<open>\<open>split_open\<close> stops exactly where the order says: slots above \<open>i\<close>, then slots at or below it.\<close>

definition split_at :: "nat \<Rightarrow> heap \<Rightarrow> addr list \<Rightarrow> nat list \<Rightarrow> addr list \<Rightarrow> addr list \<Rightarrow> bool" where
  "split_at i h opens js upper rest \<longleftrightarrow>
     opens = upper @ rest \<and>
     (\<exists>js1 js2. js = js1 @ js2 \<and> list_all2 (open_at h) upper js1 \<and> list_all2 (open_at h) rest js2 \<and>
        (\<forall>j\<in>set js1. i < j) \<and> (js2 \<noteq> [] \<longrightarrow> hd js2 \<le> i))"

lemma split_at_cons:
  assumes "split_at i h ups js upper rest" "open_at h up j" "i < j"
  shows "split_at i h (up # ups) (j # js) (up # upper) rest"
proof -
  from assms(1) obtain js1 js2 where "ups = upper @ rest" "js = js1 @ js2" "list_all2 (open_at h) upper js1"
    "list_all2 (open_at h) rest js2" "\<forall>j\<in>set js1. i < j" "js2 \<noteq> [] \<longrightarrow> hd js2 \<le> i"
    unfolding split_at_def by blast
  then show ?thesis
    unfolding split_at_def using assms(2,3) by (intro conjI exI [of _ "j # js1"] exI [of _ js2]) auto
qed

lemma split_at_here: "list_all2 (open_at h) (up # ups) (j # js) \<Longrightarrow> j \<le> i \<Longrightarrow> split_at i h (up # ups) (j # js) [] (up # ups)"
  unfolding split_at_def by (intro conjI exI [of _ "[]"] exI [of _ "j # js"]) auto

lemma split_at_Nil: "split_at i h [] [] [] []"
  by (simp add: split_at_def)

text \<open>The list with a new upvalue in its place.\<close>

lemma host_ok_capture:
  assumes ok: "host_ok roots opens h" and sp: "split_at i h opens js upper rest"
    and sorted: "sorted_wrt (>) js" and new: "rest \<noteq> [] \<Longrightarrow> \<not> open_at h (hd rest) i"
    and e: "evolved roots h h' (\<lambda>b x. b = a \<and> x = OUpvalue \<lparr>uv_location = OpenAt i, uv_closed = VNil\<rparr>)"
    and a: "open_at h' a i"
    and roots: "set roots' \<subseteq> insert a (set roots)" "set (upper @ a # rest) \<subseteq> set roots'"
  shows "host_ok roots' (upper @ a # rest) h'"
proof -
  have g: "gc_live h roots" and sub: "set opens \<subseteq> set roots" using ok by (simp_all add: host_ok_def)
  have same: "obj_at h' b = obj_at h b" if "held h roots b" for b by (rule evolved_held [OF e that])
  from sp obtain js1 js2 where j: "opens = upper @ rest" "js = js1 @ js2" "list_all2 (open_at h) upper js1"
    "list_all2 (open_at h) rest js2" "\<forall>j\<in>set js1. i < j" "js2 \<noteq> [] \<longrightarrow> hd js2 \<le> i"
    unfolding split_at_def by blast
  have up: "open_at h' up m" if "up \<in> set opens" "open_at h up m" for up m
    using that sub same [OF gc_live_held [OF g]] by (auto simp: open_at_def gc_roots_def)
  have below: "m < i" if "m \<in> set js2" for m
  proof (cases js2)
    case (Cons m0 ms)
    then have "rest \<noteq> []" "open_at h (hd rest) m0" using j(4) by (auto simp: list_all2_Cons2)
    then have "m0 < i" using new j(6) Cons by (cases "m0 = i") auto
    moreover have "m \<le> m0" using sorted j(2) Cons that by (auto simp: sorted_wrt_append)
    ultimately show ?thesis by simp
  qed (use that in simp)
  have "opens_ok h' (upper @ a # rest)"
  proof (rule opens_okI)
    show "sorted_wrt (>) (js1 @ i # js2)"
      using sorted j(2,5) below by (fastforce simp: sorted_wrt_append)
    have "list_all2 (open_at h') upper js1" "list_all2 (open_at h') rest js2"
      by (rule list.rel_mono_strong [OF j(3)], simp add: up j(1), rule list.rel_mono_strong [OF j(4)], simp add: up j(1))
    then show "list_all2 (open_at h') (upper @ a # rest) (js1 @ i # js2)"
      using a by (simp add: list_all2_appendI)
    fix b u m
    assume b: "obj_at h' b = Some (OUpvalue u)" "uv_location u = OpenAt m"
    have "obj_at h b = Some (OUpvalue u) \<or> b = a" using e b(1) unfolding evolved_def by blast
    then show "b \<in> set (upper @ a # rest)"
      using ok b(2) unfolding host_ok_def opens_ok_def j(1) by fastforce
  qed
  moreover have "natives_ok h'" using natives_ok_evolved [OF e] ok by (simp add: host_ok_def)
  moreover have "gc_live h' roots'"
  proof -
    have "obj_at h' b \<noteq> None" if "b \<in> gc_roots roots' h'" for b
    proof (cases "b = a")
      case False
      then have "b \<in> gc_roots roots h" using that roots(1) evolved_roots [OF e, of roots'] by (auto simp: gc_roots_def)
      then show ?thesis using same gc_live_held [OF g] held_live by fastforce
    qed (use a in \<open>simp add: open_at_def\<close>)
    then show ?thesis using evolved_sane [OF e] by (simp add: gc_live_def)
  qed
  ultimately show ?thesis using roots(2) by (simp add: host_ok_def)
qed

text \<open>The newest upvalue of the list closed over a live value.\<close>

lemma host_ok_close:
  assumes ok: "host_ok roots (up # ups) h" and o: "open_at h up j" and v: "\<forall>b\<in>set (value_addrs v). obj_at h b \<noteq> None"
    and roots: "set roots' \<subseteq> set roots" "set ups \<subseteq> set roots'"
  shows "host_ok roots' ups (set_obj up (OUpvalue \<lparr>uv_location = ClosedHere, uv_closed = v\<rparr>) h)"
proof -
  let ?ob = "OUpvalue \<lparr>uv_location = ClosedHere, uv_closed = v\<rparr>"
  let ?h = "set_obj up ?ob h"
  have oa: "obj_at ?h b = (if b = up then Some ?ob else obj_at h b)" for b
    using o by (simp add: heap_simps open_at_def)
  have t: "hp_temp_roots ?h = hp_temp_roots h" by (simp add: set_obj_def)
  have sane: "sane ?h"
    using host_ok_sane [OF ok] o v by (intro sane_set_obj [of _ _ "OUpvalue \<lparr>uv_location = OpenAt j, uv_closed = VNil\<rparr>"])
      (simp_all add: open_at_def is_string_def)
  have "obj_at ?h b \<noteq> None" if "b \<in> gc_roots roots' ?h" for b
    using that roots(1) host_ok_live [OF ok, of b] by (auto simp: gc_roots_def t oa)
  then have "gc_live ?h roots'" using sane by (simp add: gc_live_def)
  moreover have "natives_ok ?h" using ok by (simp add: host_ok_def natives_ok_def oa)
  moreover have "opens_ok ?h ups"
  proof -
    from ok obtain js where js: "sorted_wrt (>) js" "list_all2 (open_at h) (up # ups) js"
      "\<And>a u j. obj_at h a = Some (OUpvalue u) \<Longrightarrow> uv_location u = OpenAt j \<Longrightarrow> a \<in> set (up # ups)"
      unfolding host_ok_def by (auto elim: opens_okE)
    then obtain js' where j: "js = j # js'" "list_all2 (open_at h) ups js'" "sorted_wrt (>) js'" "\<forall>m\<in>set js'. m < j"
      using o by (auto simp: list_all2_Cons1 open_at_def)
    have "list_all2 (open_at ?h) ups js'"
    proof (rule list.rel_mono_strong [OF j(2)])
      fix b m assume "m \<in> set js'" "open_at h b m"
      then show "open_at ?h b m" using o j(4) by (cases "b = up") (auto simp: open_at_def oa)
    qed
    moreover have "a \<in> set ups" if "obj_at ?h a = Some (OUpvalue u)" "uv_location u = OpenAt m" for a u m
      using that js(3) [of a u m] by (auto simp: oa split: if_splits)
    ultimately show ?thesis using j(3) by (intro opens_okI)
  qed
  ultimately show ?thesis using roots(2) by (simp add: host_ok_def)
qed

lemma opens_below:
  assumes ok: "opens_ok h (up # ups)" and o: "open_at h up j" "open_at h b m"
  shows "m \<le> j"
proof -
  from ok obtain js where js: "sorted_wrt (>) js" "list_all2 (open_at h) (up # ups) js"
    "\<And>a u j. obj_at h a = Some (OUpvalue u) \<Longrightarrow> uv_location u = OpenAt j \<Longrightarrow> a \<in> set (up # ups)"
    by (blast elim: opens_okE)
  then obtain js' where j: "js = j # js'" using o(1) by (auto simp: list_all2_Cons1 open_at_def)
  have "b \<in> set (up # ups)" using js(3) o(2) by (simp add: open_at_def)
  then obtain k where "k < length (up # ups)" "(up # ups) ! k = b" unfolding in_set_conv_nth by blast
  then have "k < length js" "open_at h b (js ! k)"
    using list_all2_nthD [OF js(2)] list_all2_lengthD [OF js(2)] by auto
  then have "m \<in> set js" using o(2) by (auto simp: open_at_def in_set_conv_nth)
  then show ?thesis using js(1) j by auto
qed

lemma opens_none: "opens_ok h [] \<Longrightarrow> \<not> open_at h b m"
  unfolding opens_ok_def open_at_def by fastforce

lemma opens_hd:
  assumes "opens_ok h (up # ups)"
  obtains j where "open_at h up j"
  using assms by (auto elim!: opens_okE simp: list_all2_Cons1)

lemma open_at_unique:
  assumes "opens_ok h opens" "open_at h a j" "open_at h b j"
  shows "a = b"
proof -
  from assms(1) obtain js where js: "sorted_wrt (>) js" "list_all2 (open_at h) opens js"
    "\<And>a u j. obj_at h a = Some (OUpvalue u) \<Longrightarrow> uv_location u = OpenAt j \<Longrightarrow> a \<in> set opens"
    by (blast elim: opens_okE)
  have "\<exists>k < length js. opens ! k = x \<and> js ! k = j" if "open_at h x j" for x
  proof -
    have "x \<in> set opens" using js(3) that by (simp add: open_at_def)
    then obtain k where k: "k < length opens" "opens ! k = x" by (auto simp: in_set_conv_nth)
    then have "open_at h x (js ! k)" using list_all2_nthD [OF js(2)] by blast
    then show ?thesis using k that list_all2_lengthD [OF js(2)] by (auto simp: open_at_def)
  qed
  then obtain k m where "k < length js" "m < length js" "opens ! k = a" "opens ! m = b" "js ! k = j" "js ! m = j"
    using assms(2,3) by blast
  moreover from this have "k = m" using js(1) by (metis less_irrefl linorder_neqE_nat sorted_wrt_iff_nth_less)
  ultimately show ?thesis by simp
qed

end
