(* ===== verification/Stack_Upvalues.thy ===== *)
theory Stack_Upvalues
  imports Upvalue_Host
begin

text \<open>
  The open upvalues: capturing a slot finds the upvalue that is open there or adds one in its place,
  closing moves the values of the slots above a bound into the upvalues. Both keep the order of the
  open list and its agreement with the heap.
\<close>

declare xwp_simps [simp]

lemma inv_host: "vm_inv s \<Longrightarrow> host_ok (vm_roots s) (vm_open s) (vm_heap s)"
  by (auto simp: vm_inv_def host_ok_def vm_roots_def)

lemma vm_host_inv:
  "host_ok (vm_roots s) (vm_open s) (vm_heap s) \<Longrightarrow> length (vm_frames s) \<le> kMaxFrames \<Longrightarrow>
   length (vm_stack s) \<le> kStackSlots \<Longrightarrow> vm_inv s"
  by (simp add: vm_inv_def host_ok_def)

lemma vok_open_at: "open_at (vm_heap s) up j \<Longrightarrow> Q \<lparr>uv_location = OpenAt j, uv_closed = VNil\<rparr> s \<Longrightarrow> vok (vm_upvalue up) s Q"
  by (rule vok_upvalue) (simp add: open_at_def)

subsection \<open>Capturing\<close>

lemma vok_split_open:
  "list_all2 (open_at (vm_heap s)) opens js \<Longrightarrow>
   (\<And>upper rest. split_at i (vm_heap s) opens js upper rest \<Longrightarrow> Q (upper, rest) s) \<Longrightarrow>
   vok (split_open i opens) s Q"
proof (induction opens arbitrary: js Q)
  case Nil
  then show ?case by (simp add: split_at_Nil)
next
  case (Cons up ups)
  then obtain j js' where js: "js = j # js'" "open_at (vm_heap s) up j" "list_all2 (open_at (vm_heap s)) ups js'"
    by (auto simp: list_all2_Cons1)
  show ?case
    unfolding split_open.simps xwp_bind
  proof (rule vok_open_at [OF js(2)])
    have "vok (split_open i ups) s (\<lambda>x t. case x of (upper, rest) \<Rightarrow> Q (up # upper, rest) t)" if "i < j"
      by (rule Cons.IH [OF js(3)]) (use Cons.prems(2) split_at_cons [OF _ js(2) that] js(1) in simp)
    moreover have "Q ([], up # ups) s" if "\<not> i < j"
      using Cons.prems split_at_here [of "vm_heap s" up ups j js' i] that js(1) by simp
    ultimately show "vok (case uv_location \<lparr>uv_location = OpenAt j, uv_closed = VNil\<rparr> of
         ClosedHere \<Rightarrow> vm_fail_with BadPointer
       | OpenAt j \<Rightarrow> if i < j then xbind (split_open i ups) (\<lambda>(upper, rest). xreturn (up # upper, rest))
           else xreturn ([], up # ups)) s Q"
      by (simp add: case_prod_beta')
  qed
qed

text \<open>What capturing a slot promises: an upvalue that is open at the slot, and is on the open list.\<close>

definition captured :: "stack_vm \<Rightarrow> nat \<Rightarrow> addr \<Rightarrow> stack_vm \<Rightarrow> bool" where
  "captured s i up s' \<longleftrightarrow>
     vm_inv s' \<and> open_at (vm_heap s') up i \<and> up \<in> set (vm_open s') \<and> set (vm_open s) \<subseteq> set (vm_open s') \<and>
     s' = s\<lparr>vm_heap := vm_heap s', vm_open := vm_open s'\<rparr> \<and>
     (\<forall>b. held (vm_heap s) (vm_roots s) b \<longrightarrow> obj_at (vm_heap s') b = obj_at (vm_heap s) b)"

lemma inv_capture:
  assumes inv: "vm_inv s" and sp: "split_at i (vm_heap s) (vm_open s) js upper rest"
    and sorted: "sorted_wrt (>) js" and new: "rest \<noteq> [] \<Longrightarrow> \<not> open_at (vm_heap s) (hd rest) i"
    and al: "allocate sz (vm_roots s) (OUpvalue \<lparr>uv_location = OpenAt i, uv_closed = VNil\<rparr>) (vm_heap s) = (a, h)"
  shows "captured s i a (s\<lparr>vm_heap := h, vm_open := upper @ a # rest\<rparr>)"
proof -
  let ?ob = "OUpvalue \<lparr>uv_location = OpenAt i, uv_closed = VNil\<rparr>"
  let ?s = "s\<lparr>vm_heap := h, vm_open := upper @ a # rest\<rparr>"
  have "\<not> is_string ?ob" "\<forall>b\<in>set (trace ?ob). held (vm_heap s) (vm_roots s) b"
    by (simp_all add: is_string_def value_addrs_def)
  note k = allocate_evolved [OF vm_inv_sane [OF inv] al this]
  have j: "vm_open s = upper @ rest" using sp by (simp add: split_at_def)
  have "host_ok (vm_roots ?s) (upper @ a # rest) h"
    by (rule host_ok_capture [OF inv_host [OF inv] sp sorted new k(1)])
      (use k(2) j in \<open>auto simp: vm_roots_def open_at_def\<close>)
  then have "vm_inv ?s" using inv_bounds [OF inv] by (intro vm_host_inv) simp_all
  then show ?thesis using k(2) evolved_held [OF k(1)] j by (auto simp: captured_def open_at_def)
qed

lemma vok_capture:
  assumes inv: "vm_inv s" and Q: "\<And>up s'. captured s i up s' \<Longrightarrow> Q up s'"
  shows "vok (capture_upvalue sz i) s Q"
proof -
  from inv obtain js where js: "sorted_wrt (>) js" "list_all2 (open_at (vm_heap s)) (vm_open s) js"
    unfolding vm_inv_def by (blast elim: opens_okE)
  show ?thesis
    unfolding capture_upvalue_def xwp_bind xwp_get
  proof (rule vok_split_open [OF js(2)], unfold split_conv)
    fix upper rest
    assume sp: "split_at i (vm_heap s) (vm_open s) js upper rest"
    let ?alloc = "xbind (vm_allocate sz (OUpvalue \<lparr>uv_location = OpenAt i, uv_closed = VNil\<rparr>)) (\<lambda>created.
        xseq (xmod (\<lambda>s. s\<lparr>vm_open := upper @ created # rest\<rparr>)) (xreturn created))"
    have new: "vok ?alloc s Q" if "rest \<noteq> [] \<Longrightarrow> \<not> open_at (vm_heap s) (hd rest) i"
    proof -
      obtain a h where al: "allocate sz (vm_roots s) (OUpvalue \<lparr>uv_location = OpenAt i, uv_closed = VNil\<rparr>) (vm_heap s) = (a, h)"
        by fastforce
      from Q [OF inv_capture [OF inv sp js(1) that al]] show ?thesis
        by (simp add: xwp_def xbind_def vm_allocate_def al xmod_def xreturn_def)
    qed
    show "vok (xbind (case rest of [] \<Rightarrow> xreturn None
          | up # _ \<Rightarrow> xbind (vm_upvalue up) (\<lambda>u. xreturn (if uv_location u = OpenAt i then Some up else None)))
        (\<lambda>found. case found of Some up \<Rightarrow> xreturn up | None \<Rightarrow> ?alloc)) s Q"
    proof (cases rest)
      case Nil
      then show ?thesis using new by simp
    next
      case (Cons up ups)
      obtain m where m: "open_at (vm_heap s) up m" "up \<in> set (vm_open s)"
        using sp Cons unfolding split_at_def by (auto simp: list_all2_Cons1)
      have "captured s i up s" if "m = i" using inv m that by (simp add: captured_def)
      then show ?thesis
        using Q new m unfolding Cons by (auto intro!: vok_open_at [OF m(1)] simp: open_at_def)
    qed
  qed
qed

subsection \<open>Closing\<close>

definition upvalue_value :: "heap \<Rightarrow> value list \<Rightarrow> addr \<Rightarrow> value option" where
  "upvalue_value h st up =
     (case obj_at h up of
        Some (OUpvalue u) \<Rightarrow> Some (case uv_location u of OpenAt j \<Rightarrow> st ! j | ClosedHere \<Rightarrow> uv_closed u)
      | _ \<Rightarrow> None)"

definition closed_from :: "nat \<Rightarrow> stack_vm \<Rightarrow> stack_vm \<Rightarrow> bool" where
  "closed_from i s s' \<longleftrightarrow>
     vm_inv s' \<and> s' = s\<lparr>vm_heap := vm_heap s', vm_open := vm_open s'\<rparr> \<and>
     (\<forall>a. obj_at (vm_heap s') a = None \<longleftrightarrow> obj_at (vm_heap s) a = None) \<and>
     (\<forall>up. upvalue_value (vm_heap s') (vm_stack s) up = upvalue_value (vm_heap s) (vm_stack s) up) \<and>
     (\<forall>up j. open_at (vm_heap s') up j \<longrightarrow> j < i)"

lemma inv_close:
  assumes inv: "vm_inv (s\<lparr>vm_open := up # ups\<rparr>)" and o: "open_at (vm_heap s) up j" and v: "live_value s v"
  shows "vm_inv (s\<lparr>vm_heap := set_obj up (OUpvalue \<lparr>uv_location = ClosedHere, uv_closed = v\<rparr>) (vm_heap s), vm_open := ups\<rparr>)"
proof -
  let ?s = "s\<lparr>vm_open := up # ups\<rparr>"
  let ?t = "s\<lparr>vm_heap := set_obj up (OUpvalue \<lparr>uv_location = ClosedHere, uv_closed = v\<rparr>) (vm_heap s), vm_open := ups\<rparr>"
  have "host_ok (vm_roots ?s) (up # ups) (vm_heap s)" using inv_host [OF inv] by simp
  from host_ok_close [OF this o, of v "vm_roots ?t"] v have "host_ok (vm_roots ?t) ups (vm_heap ?t)"
    by (auto simp: live_value_def vm_roots_def)
  then show ?thesis using inv_bounds [OF inv] by (intro vm_host_inv) simp_all
qed

lemma closed_from_step:
  assumes "open_at (vm_heap s) up j" "j < length (vm_stack s)"
    "closed_from i (s\<lparr>vm_heap := set_obj up (OUpvalue \<lparr>uv_location = ClosedHere, uv_closed = vm_stack s ! j\<rparr>) (vm_heap s)\<rparr>) s'"
  shows "closed_from i s s'"
proof -
  let ?h = "set_obj up (OUpvalue \<lparr>uv_location = ClosedHere, uv_closed = vm_stack s ! j\<rparr>) (vm_heap s)"
  have "upvalue_value ?h (vm_stack s) b = upvalue_value (vm_heap s) (vm_stack s) b" for b
    using assms(1) by (simp add: upvalue_value_def heap_simps open_at_def)
  moreover have "obj_at ?h a = None \<longleftrightarrow> obj_at (vm_heap s) a = None" for a
    using assms(1) by (simp add: heap_simps open_at_def)
  ultimately show ?thesis using assms(3) unfolding closed_from_def by simp
qed

lemma vok_close_loop:
  "vm_inv (s\<lparr>vm_open := opens\<rparr>) \<Longrightarrow> (\<And>s'. closed_from i s s' \<Longrightarrow> Q () s') \<Longrightarrow> vok (close_loop i opens) s Q"
proof (induction opens arbitrary: s Q)
  case Nil
  then have "\<not> open_at (vm_heap s) up j" for up j by (intro opens_none) (simp add: vm_inv_def)
  then show ?case using Nil by (simp add: closed_from_def)
next
  case (Cons up ups)
  have ok: "opens_ok (vm_heap s) (up # ups)" using Cons.prems(1) by (simp add: vm_inv_def)
  then obtain j where j: "open_at (vm_heap s) up j" by (rule opens_hd)
  show ?case
    unfolding close_loop.simps xwp_bind
  proof (rule vok_open_at [OF j])
    have 1: "vok (xbind (vm_slot j) (\<lambda>v. xseq (vm_set_obj up (OUpvalue \<lparr>uv_location = ClosedHere, uv_closed = v\<rparr>))
        (close_loop i ups))) s Q"
      if "i \<le> j"
    proof (cases "j < length (vm_stack s)")
      case True
      let ?s = "s\<lparr>vm_heap := set_obj up (OUpvalue \<lparr>uv_location = ClosedHere, uv_closed = vm_stack s ! j\<rparr>) (vm_heap s)\<rparr>"
      have "live_value s (vm_stack s ! j)"
        using vm_stack_live [OF Cons.prems(1), of "vm_stack s ! j"] True by (simp add: live_value_def)
      from inv_close [OF Cons.prems(1) j this] have "vok (close_loop i ups) ?s Q"
        by (intro Cons.IH) (auto intro: Cons.prems(2) closed_from_step [OF j True])
      then show ?thesis using True by (simp add: vm_slot_def vm_set_obj_def)
    qed (simp add: vm_slot_def)
    have 2: "Q () (s\<lparr>vm_open := up # ups\<rparr>)" if "j < i"
    proof (rule Cons.prems(2))
      have "m < i" if "open_at (vm_heap s) b m" for b m using opens_below [OF ok j that] \<open>j < i\<close> by simp
      then show "closed_from i s (s\<lparr>vm_open := up # ups\<rparr>)" using Cons.prems(1) by (simp add: closed_from_def)
    qed
    show "vok (case uv_location \<lparr>uv_location = OpenAt j, uv_closed = VNil\<rparr> of
         ClosedHere \<Rightarrow> vm_fail_with BadPointer
       | OpenAt j \<Rightarrow> if i \<le> j
           then xbind (vm_slot j) (\<lambda>v. xseq (vm_set_obj up (OUpvalue \<lparr>uv_location = ClosedHere, uv_closed = v\<rparr>)) (close_loop i ups))
           else xmod (\<lambda>s. s\<lparr>vm_open := up # ups\<rparr>)) s Q"
      using 1 2 by (cases "i \<le> j") (simp_all del: xwp_bind)
  qed
qed

lemma vok_close: "vm_inv s \<Longrightarrow> (\<And>s'. closed_from i s s' \<Longrightarrow> Q () s') \<Longrightarrow> vok (close_upvalues i) s Q"
  unfolding close_upvalues_def xwp_bind xwp_get by (rule vok_close_loop) simp_all

lemma closed_from_live: "closed_from i s s' \<Longrightarrow> live_value s v \<Longrightarrow> live_value s' v"
  by (auto simp: closed_from_def live_value_def)

subsection \<open>Reading and writing through upvalues\<close>

lemma vok_frame_upvalue:
  assumes inv: "vm_inv s" and Q: "\<And>x. (\<And>up. x = Some up \<Longrightarrow> held (vm_heap s) (vm_roots s) up) \<Longrightarrow> Q x s"
  shows "vok (frame_upvalue i) s Q"
  unfolding frame_upvalue_def xwp_bind
proof (rule vok_frame, rule vok_closure, unfold split_conv xwp_bind xwp_assert)
  fix f fn us
  assume "f \<in> set (vm_frames s)" "obj_at (vm_heap s) (cf_closure f) = Some (OClosure fn us)"
  then show "if unat i < length us then vok (xreturn (us ! unat i)) s Q else True"
    using Q [of "us ! unat i"] held_closure(2) [OF inv] nth_mem [of "unat i" us] by (metis xwp_return)
qed

lemma vok_read_upvalue:
  assumes "vm_inv s" "\<And>v. live_value s v \<Longrightarrow> Q v s"
  shows "vok (read_upvalue up) s Q"
  unfolding read_upvalue_def xwp_bind
proof (rule vok_upvalue)
  fix u assume o: "obj_at (vm_heap s) up = Some (OUpvalue u)"
  have "live_value s (uv_closed u)" using heap_value_live [OF assms(1) o] by simp
  then show "vok (case uv_location u of OpenAt j \<Rightarrow> vm_slot j | ClosedHere \<Rightarrow> xreturn (uv_closed u)) s Q"
    using assms vm_stack_live by (auto intro!: vok_slot split: upvalue_location.split)
qed

lemma keeps_write_upvalue:
  assumes inv: "vm_inv s" and v: "live_value s v"
  shows "keeps_inv (write_upvalue up v) s"
  unfolding write_upvalue_def xwp_bind
proof (rule vok_upvalue)
  fix u assume o: "obj_at (vm_heap s) up = Some (OUpvalue u)"
  have "vm_inv (s\<lparr>vm_heap := set_obj up (OUpvalue (u\<lparr>uv_closed := v\<rparr>)) (vm_heap s)\<rparr>)" if "uv_location u = ClosedHere"
    using v that by (intro vm_inv_set_obj [OF inv o])
      (simp_all add: is_string_def is_open_upvalue_def is_native_object_def live_value_def)
  then show "keeps_inv (case uv_location u of OpenAt j \<Rightarrow> vm_set_slot j v
      | ClosedHere \<Rightarrow> vm_set_obj up (OUpvalue (u\<lparr>uv_closed := v\<rparr>))) s"
    using inv v by (auto intro!: vok_set_slot simp: vm_set_obj_def split: upvalue_location.split)
qed

lemma keeps_upvalues:
  assumes inv: "vm_inv s"
  shows "keeps_inv step_get_upvalue s" "keeps_inv step_set_upvalue s" "keeps_inv step_close_upvalue s"
proof -
  show "keeps_inv step_get_upvalue s"
    unfolding step_get_upvalue_def xwp_bind xwp_the
    by (rule vok_read_byte [OF inv], rule vok_frame_upvalue, assumption)
      (auto intro!: vok_read_upvalue keeps_running keeps_push split: option.split)
  show "keeps_inv step_set_upvalue s"
    unfolding step_set_upvalue_def xwp_bind xwp_the
    by (rule vok_read_byte [OF inv], rule vok_frame_upvalue, assumption)
      (auto intro!: vok_top keeps_running keeps_write_upvalue vm_stack_live split: option.split)
  have "keeps_inv (xseq (close_upvalues n) (vm_drop 1)) s" for n
    unfolding xwp_bind by (rule vok_close [OF inv], rule keeps_drop) (simp add: closed_from_def)
  then show "keeps_inv step_close_upvalue s"
    unfolding step_close_upvalue_def xwp_bind [of "xget _"] xwp_get xwp_bind [of "xassert _ _"] xwp_assert
    by (simp add: keeps_running)
qed

end
