(* ===== verification/Stack_Steps.thy ===== *)
theory Stack_Steps
  imports Stack_Upvalues
begin

text \<open>
  Every instruction, call and entry point of the bytecode machine keeps its invariant, and so does the
  compiler that allocates on the same heap.
\<close>

declare xwp_simps [simp]

subsection \<open>Closures\<close>

lemma keeps_store_upvalue:
  assumes inv: "vm_inv s" and up: "\<And>b. x = Some b \<Longrightarrow> obj_at (vm_heap s) b \<noteq> None"
    and o: "obj_at (vm_heap s) created = Some (OClosure fn us)"
  shows "vm_inv (s\<lparr>vm_heap := set_obj created (OClosure fn (us[i := x])) (vm_heap s)\<rparr>)"
proof (rule vm_inv_set_obj [OF inv o])
  have t: "\<forall>b\<in>set (trace (OClosure fn us)). obj_at (vm_heap s) b \<noteq> None"
    using vm_inv_sane [OF inv] o unfolding sane_def no_dangling_def by blast
  show "\<forall>b\<in>set (trace (OClosure fn (us[i := x]))). obj_at (vm_heap s) b \<noteq> None"
  proof
    fix b assume "b \<in> set (trace (OClosure fn (us[i := x])))"
    then consider "b = fn" | y where "y \<in> set (us[i := x])" "b \<in> set (opt_addrs y)" by auto
    then show "obj_at (vm_heap s) b \<noteq> None"
    proof cases
      case 1
      then show ?thesis using t by simp
    next
      case 2
      then have "y = x \<or> y \<in> set us" using set_update_subset_insert [of us i x] by blast
      then show ?thesis
      proof
        assume "y = x"
        then show ?thesis using 2(2) up by (cases x) (simp_all add: opt_addrs_def)
      next
        assume "y \<in> set us"
        then show ?thesis using 2(2) t by simp
      qed
    qed
  qed
qed (simp_all add: is_string_def is_open_upvalue_def is_native_object_def)

lemma keeps_fill: "vm_inv s \<Longrightarrow> keeps_inv (fill_upvalues sz created i n) s"
proof (induction n arbitrary: i s)
  case (Suc n)
  have rest: "keeps_inv (xbind (vm_closure created) (\<lambda>(fn, us).
      xseq (vm_set_obj created (OClosure fn (us[i := x]))) (fill_upvalues sz created (i + 1) n))) t"
    if "vm_inv t" "\<And>b. x = Some b \<Longrightarrow> obj_at (vm_heap t) b \<noteq> None" for x t
    unfolding xwp_bind
    by (rule vok_closure) (use keeps_store_upvalue [OF that] Suc.IH in \<open>simp add: vm_set_obj_def\<close>)
  show ?case
    unfolding fill_upvalues.simps xwp_bind [of read_byte]
  proof (rule vok_read_byte [OF Suc.prems], rule vok_read_byte, assumption)
    fix b index s'
    assume i: "vm_inv s'"
    show "keeps_inv (xbind (if b \<noteq> 0
            then xbind vm_frame (\<lambda>f. xbind (capture_upvalue sz (cf_base f + unat index)) (\<lambda>up. xreturn (Some up)))
            else frame_upvalue index) (\<lambda>up.
         xbind (vm_closure created) (\<lambda>(fn, us).
         xseq (vm_set_obj created (OClosure fn (us[i := up]))) (fill_upvalues sz created (i + 1) n)))) s'"
    proof (cases "b \<noteq> 0")
      case True
      have "keeps_inv (xbind (xbind vm_frame (\<lambda>f. xbind (capture_upvalue sz (cf_base f + unat index))
            (\<lambda>up. xreturn (Some up)))) (\<lambda>up.
         xbind (vm_closure created) (\<lambda>(fn, us).
         xseq (vm_set_obj created (OClosure fn (us[i := up]))) (fill_upvalues sz created (i + 1) n)))) s'"
        unfolding xwp_bind [of "xbind _ _"] xwp_bind [of vm_frame] xwp_bind [of "capture_upvalue _ _"] xwp_return
        by (rule vok_frame, rule vok_capture [OF i], rule rest) (auto simp: captured_def open_at_def)
      then show ?thesis using True by simp
    next
      case False
      have "keeps_inv (xbind (frame_upvalue index) (\<lambda>up.
         xbind (vm_closure created) (\<lambda>(fn, us).
         xseq (vm_set_obj created (OClosure fn (us[i := up]))) (fill_upvalues sz created (i + 1) n)))) s'"
        unfolding xwp_bind [of "frame_upvalue _"]
        by (rule vok_frame_upvalue [OF i], rule rest [OF i]) (blast dest: held_live)
      then show ?thesis using False by simp
    qed
  qed
qed simp

lemma keeps_closure: "vm_inv s \<Longrightarrow> keeps_inv (step_closure sz) s"
  unfolding step_closure_def xwp_bind [of read_constant]
proof (rule vok_read_constant, assumption)
  fix v s'
  assume i: "vm_inv s'" and v: "held_value s' v"
  show "keeps_inv (case v of VObj fn \<Rightarrow>
           xbind (vm_function fn) (\<lambda>fo.
           xbind (vm_allocate sz (OClosure fn (replicate (fo_upvalue_count fo) None))) (\<lambda>created.
           xseq (vm_push (VObj created)) (running (fill_upvalues sz created 0 (fo_upvalue_count fo)))))
       | _ \<Rightarrow> vm_fail_with BadCode) s'"
  proof (cases v)
    case (VObj fn)
    have "held (vm_heap s') (vm_roots s') fn" using v VObj by (simp add: held_value_def value_addrs_def)
    then have t: "\<forall>b\<in>set (trace (OClosure fn (replicate n None))). held (vm_heap s') (vm_roots s') b" for n
      by (simp add: opt_addrs_def)
    have "keeps_inv (xbind (vm_function fn) (\<lambda>fo.
         xbind (vm_allocate sz (OClosure fn (replicate (fo_upvalue_count fo) None))) (\<lambda>created.
         xseq (vm_push (VObj created)) (running (fill_upvalues sz created 0 (fo_upvalue_count fo)))))) s'"
      unfolding xwp_bind
    proof (rule vok_function, rule vok_allocate [OF i _ _ _ t])
      fix fo a h
      assume h: "vm_inv (s'\<lparr>vm_heap := h\<rparr>)" "obj_at h a = Some (OClosure fn (replicate (fo_upvalue_count fo) None))"
      show "vok (vm_push (VObj a)) (s'\<lparr>vm_heap := h\<rparr>) (\<lambda>_. keeps_inv (running (fill_upvalues sz a 0 (fo_upvalue_count fo))))"
        by (rule vok_push [OF h(1)]) (use h(2) in \<open>simp_all add: live_value_def value_addrs_def keeps_running keeps_fill\<close>)
    qed (simp_all add: is_string_def is_open_upvalue_def is_native_object_def)
    then show ?thesis using VObj by simp
  qed simp_all
qed

subsection \<open>Calls and returns\<close>

lemma keeps_error_outcome: "vm_inv s \<Longrightarrow> keeps_inv (vm_error_outcome m) s"
  by (simp add: vm_error_outcome_def) (erule vok_vm_fail, assumption)

lemma inv_push_frame:
  assumes "vm_inv s" "obj_at (vm_heap s) a \<noteq> None" "length (vm_frames s) < kMaxFrames"
  shows "vm_inv (s\<lparr>vm_frames := \<lparr>cf_closure = a, cf_ip = 0, cf_base = base\<rparr> # vm_frames s\<rparr>)"
  by (rule vm_inv_change [OF assms(1)]) (use assms(2,3) inv_bounds [OF assms(1)] in \<open>auto simp: root_cases\<close>)

lemma keeps_call_closure:
  assumes "vm_inv s" "obj_at (vm_heap s) a \<noteq> None"
  shows "keeps_inv (vm_call_closure a fn argc) s"
  unfolding vm_call_closure_def xwp_bind [of "vm_function _"]
  by (rule vok_function)
    (use assms in \<open>auto simp: push_frame_def intro!: keeps_error_outcome inv_push_frame\<close>)

lemma vok_ok: "m s = Ok (x, t) \<Longrightarrow> vok (k x) t Q \<Longrightarrow> vok (xbind m k) s Q"
  by (simp add: xwp_def xbind_def)

lemma keeps_call_native:
  assumes inv: "vm_inv s" and argc: "argc = native_arity f" "argc + 1 \<le> length (vm_stack s)"
  shows "keeps_inv (xbind (vm_call_native sz clk f argc) (vm_native_result argc)) s"
proof -
  let ?s = "if f = NativeClock then s\<lparr>vm_ticks := vm_ticks s + 1\<rparr> else s"
  let ?args = "drop (length (vm_stack s) - argc) (vm_stack s)"
  have i: "vm_inv ?s" and st: "vm_stack ?s = vm_stack s" using inv inv_small(4) by auto
  obtain r h where c: "call_native sz (vm_roots ?s) (clk (vm_ticks ?s)) f ?args (vm_heap ?s) = (r, h)" by fastforce
  have "set (value_addrs v) \<subseteq> gc_roots (vm_roots ?s) (vm_heap ?s)" if "v \<in> set ?args" for v
    using that root_cases [of _ ?s] st in_set_dropD [of v] by (fastforce simp: vm_root_set_def)
  then have a: "\<forall>v\<in>set ?args. set (value_addrs v) \<subseteq> gc_roots (vm_roots ?s) (vm_heap ?s)" by blast
  have g: "gc_live (vm_heap ?s) (vm_roots ?s)" using i by (simp only: vm_inv_def)
  have l: "length ?args = native_arity f" using argc by simp
  note k = call_native_evolved [OF g l a c]
  have h: "vm_inv (?s\<lparr>vm_heap := h\<rparr>)" by (rule inv_evolved [OF i k(1)]) (auto simp: is_open_upvalue_def)
  have "live_value (?s\<lparr>vm_heap := h\<rparr>) v" if "r = Inr v" for v using k(2) [OF that] by (simp add: live_value_def)
  then have "keeps_inv (vm_native_result argc r) (?s\<lparr>vm_heap := h\<rparr>)"
    using h by (cases r) (simp_all add: vm_native_result_def keeps_error_outcome vok_replace)
  moreover have "vm_call_native sz clk f argc s = Ok (r, ?s\<lparr>vm_heap := h\<rparr>)"
    using c st by (simp add: vm_call_native_def Let_def)
  ultimately show ?thesis by (rule vok_ok [rotated])
qed

lemma vok_top_depth: "(\<And>v. v \<in> set (vm_stack s) \<Longrightarrow> n \<le> length (vm_stack s) \<Longrightarrow> Q v s) \<Longrightarrow> vok (vm_top n) s Q"
  by (auto simp: vm_top_def)

lemma keeps_call_object:
  assumes inv: "vm_inv s" and ob: "obj_at (vm_heap s) a = Some ob" and l: "argc + 1 \<le> length (vm_stack s)"
  shows "keeps_inv (vm_call_object sz clk argc a ob) s"
proof (cases ob)
  case (ONative name arity f)
  then have a: "arity = native_arity f" using inv ob by (auto simp: vm_inv_def natives_ok_def)
  show ?thesis
  proof (cases "arity = argc")
    case True
    with a have "argc = native_arity f" by simp
    from keeps_call_native [OF inv this l, of sz clk] show ?thesis
      by (simp only: vm_call_object_def ONative obj.case True simp_thms if_False)
  qed (simp add: vm_call_object_def ONative keeps_error_outcome inv)
qed (simp_all add: vm_call_object_def keeps_error_outcome keeps_call_closure inv ob)

lemma keeps_call_value:
  assumes inv: "vm_inv s"
  shows "keeps_inv (vm_call_value sz clk argc) s"
  unfolding vm_call_value_def xwp_bind [of "vm_top _"]
proof (rule vok_top_depth)
  fix v assume v: "v \<in> set (vm_stack s)" "argc + 1 \<le> length (vm_stack s)"
  have "keeps_inv (xbind (vm_object a) (vm_call_object sz clk argc a)) s" for a
    unfolding xwp_bind by (rule vok_object) (rule keeps_call_object [OF inv _ v(2)])
  then show "keeps_inv (case v of VObj a \<Rightarrow> xbind (vm_object a) (vm_call_object sz clk argc a)
      | _ \<Rightarrow> vm_error_outcome kErrNotCallable) s"
    using keeps_error_outcome [OF inv] by (cases v) (simp_all only: gvalue.case)
qed

lemma keeps_call: "vm_inv s \<Longrightarrow> keeps_inv (step_call sz clk) s"
  unfolding step_call_def xwp_bind by (rule vok_read_byte, assumption) (simp add: keeps_call_value)

lemma keeps_return:
  assumes inv: "vm_inv s"
  shows "keeps_inv (step_return stop_frames) s"
  unfolding step_return_def xwp_bind [of "vm_top _"] xwp_bind [of vm_frame] xwp_bind [of "close_upvalues _"]
proof (rule vok_top, rule vok_frame, rule vok_close [OF inv])
  fix v f s'
  assume v: "v \<in> set (vm_stack s)" and c: "closed_from (cf_base f) s s'"
  have i: "vm_inv s'" and l: "live_value s' v"
    using c closed_from_live [OF c vm_stack_live [OF inv v]] by (simp_all add: closed_from_def)
  let ?t = "s'\<lparr>vm_frames := tl (vm_frames s'), vm_stack := take (cf_base f) (vm_stack s')\<rparr>"
  have "vm_inv (s'\<lparr>vm_frames := tl (vm_frames s')\<rparr>)" by (rule inv_pop_frame [OF i])
  from inv_take [OF this, of "cf_base f"] have t: "vm_inv ?t" by simp
  have "live_value ?t v" using l by (simp add: live_value_def)
  then have "keeps_inv (running (vm_push v)) ?t" by (intro keeps_running keeps_push t)
  then show "keeps_inv (xseq (xmod (\<lambda>s. s\<lparr>vm_frames := tl (vm_frames s)\<rparr>))
       (xbind (xget (\<lambda>s. length (vm_frames s))) (\<lambda>n.
        xseq (xmod (\<lambda>s. s\<lparr>vm_stack := take (cf_base f) (vm_stack s)\<rparr>))
          (if n = stop_frames then xseq (xmod (\<lambda>s. s\<lparr>vm_result := v\<rparr>)) (xreturn (Finished True))
           else running (vm_push v))))) s'"
    using inv_small(3) [OF t, of v] by simp
qed

subsection \<open>The loop\<close>

lemma keeps_op:
  assumes inv: "vm_inv s"
  shows "keeps_inv (step_op sz clk stop_frames op) s"
proof -
  have const: "keeps_inv (xbind read_constant (\<lambda>v. running (vm_push v))) s"
    unfolding xwp_bind
    by (rule vok_read_constant [OF inv], intro keeps_running keeps_push, assumption, erule held_live_value)
  have neg: "keeps_inv (xbind (vm_top 1) (\<lambda>a. vm_result_of 1 (op_negate a))) s"
    unfolding xwp_bind
    by (rule vok_top, rule keeps_result [OF inv]) (auto simp: op_negate_def split: gvalue.splits)
  have "live_value s (op_not a)" for a by (simp add: op_not_def)
  then have neg2: "keeps_inv (xbind (vm_top 1) (\<lambda>a. running (vm_replace 1 (op_not a)))) s"
    unfolding xwp_bind by (intro vok_top keeps_running vok_replace inv)
  have bin: "keeps_inv (step_binary f) s"
    if "f \<in> {op_sub, op_mul, op_div, op_mod, op_less, op_less_equal, op_greater, op_greater_equal,
      \<lambda>a b. Inr (VBool (values_equal a b)), \<lambda>a b. Inr (VBool (\<not> values_equal a b))}" for f
    using keeps_binary [OF inv] binary_live [OF that] by blast
  note rules = const neg neg2 keeps_locals [OF inv] keeps_globals [OF inv] keeps_upvalues [OF inv] keeps_add [OF inv]
    keeps_jumps [OF inv] keeps_call [OF inv] keeps_closure [OF inv] keeps_return [OF inv] keeps_print [OF inv]
    keeps_array [OF inv] keeps_index_get [OF inv] keeps_index_set [OF inv]
  show ?thesis
    unfolding step_op_def
    by (cases op; simp only: opcode.simps;
        (intro keeps_running keeps_push keeps_drop inv scalar_values | rule rules | (rule bin, (rule insertI1 | rule insertI2)+))+)
qed

lemma keeps_step: "vm_inv s \<Longrightarrow> keeps_inv (vm_step sz clk stop_frames) s"
  unfolding vm_step_def xwp_bind [of read_byte]
  by (rule vok_read_byte, assumption) (simp add: keeps_op split: option.split)

lemma keeps_execute: "vm_inv s \<Longrightarrow> keeps_inv (execute sz clk stop_frames n) s"
proof (induction n arbitrary: s)
  case 0
  then show ?case by (simp add: xwp_def)
next
  case (Suc n)
  show ?case
    unfolding execute.simps xwp_bind
    by (rule vok_mono [OF keeps_step [OF Suc.prems]]) (simp add: Suc.IH split: step_result.split)
qed

end
