(* ===== verification/Compiler_Safe.thy ===== *)
theory Compiler_Safe
  imports Compiler_Host
begin

text \<open>
  The stack compiler keeps the contract of \<open>heap_compiler\<close>. Whatever the tree is, it keeps the heap of
  its machine sound, what the machine marks live, and the open upvalues as they are, also when it stops
  with an error; and every function it is working on stays live.
\<close>

declare xwp_simps [simp]

interpretation sc: heap_compiler sc_heap "\<lambda>h s. s\<lparr>sc_heap := h\<rparr>" compiler_roots
  by unfold_locales (simp_all add: compiler_roots_def)

abbreviation c_inv :: "addr list \<Rightarrow> addr list \<Rightarrow> stack_compiler \<Rightarrow> bool" where
  "c_inv \<equiv> sc.inv"

abbreviation keeps_c :: "addr list \<Rightarrow> addr list \<Rightarrow> 'a cm \<Rightarrow> bool" where
  "keeps_c \<equiv> sc.keeps"

subsection \<open>Primitives\<close>

abbreviation cok :: "addr list \<Rightarrow> addr list \<Rightarrow> 'a cm \<Rightarrow> stack_compiler \<Rightarrow> ('a \<Rightarrow> stack_compiler \<Rightarrow> bool) \<Rightarrow> bool" where
  "cok outer opens m s Q \<equiv> xwp m s Q (stop_ok outer opens)"

lemma keeps_too_large: "keeps_c outer opens (too_large line)"
  unfolding too_large_def by (rule sc.keeps_stop)

lemma c_inv_chain:
  "c_inv outer opens s \<Longrightarrow> set (map fs_function fs) \<subseteq> set (map fs_function (sc_current s)) \<Longrightarrow>
   c_inv outer opens (s\<lparr>sc_current := fs\<rparr>)"
  by (erule sc.inv_fewer) (simp_all add: compiler_roots_def)

lemma cok_current: "(\<And>f. f \<in> set (sc_current s) \<Longrightarrow> Q f s) \<Longrightarrow> cok outer opens c_current s Q"
  by (simp add: c_current_def split: list.split)

lemma keeps_c_current: "keeps_c outer opens c_current"
  by (rule sc.keepsI) (rule cok_current)

lemma keeps_c_update: "(\<And>f. fs_function (g f) = fs_function f) \<Longrightarrow> keeps_c outer opens (c_update g)"
  by (rule sc.keepsI) (auto simp: c_update_def intro!: c_inv_chain split: list.split)

lemma cok_get_function: "(\<And>f. obj_at (sc_heap s) a = Some (OFunction f) \<Longrightarrow> Q f s) \<Longrightarrow> cok outer opens (get_function a) s Q"
  by (simp add: get_function_def split: option.split obj.split)

lemma keeps_get_function: "keeps_c outer opens (get_function a)"
  by (rule sc.keepsI) (rule cok_get_function)

definition live_in :: "stack_compiler \<Rightarrow> value \<Rightarrow> bool" where
  "live_in s v \<longleftrightarrow> (\<forall>b\<in>set (value_addrs v). obj_at (sc_heap s) b \<noteq> None)"

lemma live_in_scalar [simp]: "live_in s (VInt i)" "live_in s (VFloat d)"
  by (simp_all add: live_in_def value_addrs_def)

lemma c_inv_root: "c_inv outer opens s \<Longrightarrow> f \<in> set (sc_current s) \<Longrightarrow> obj_at (sc_heap s) (fs_function f) \<noteq> None"
  by (erule sc.inv_root) (simp add: compiler_roots_def)

lemma cok_set_function:
  assumes "c_inv outer opens s"
    "\<And>f b. b \<in> set (trace (OFunction (g f))) \<Longrightarrow> b \<in> set (trace (OFunction f)) \<or> obj_at (sc_heap s) b \<noteq> None"
    "\<And>h. c_inv outer opens (s\<lparr>sc_heap := h\<rparr>) \<Longrightarrow> (\<And>b. obj_at h b = None \<longleftrightarrow> obj_at (sc_heap s) b = None) \<Longrightarrow> Q () (s\<lparr>sc_heap := h\<rparr>)"
  shows "cok outer opens (set_function a g) s Q"
  unfolding set_function_def xwp_bind xwp_mod
proof (rule cok_get_function)
  fix f assume o: "obj_at (sc_heap s) a = Some (OFunction f)"
  have "c_inv outer opens (s\<lparr>sc_heap := set_obj a (OFunction (g f)) (sc_heap s)\<rparr>)"
    by (rule sc.inv_set_function [OF assms(1) o assms(2)])
  then show "Q () (s\<lparr>sc_heap := set_obj a (OFunction (g f)) (sc_heap s)\<rparr>)"
    by (rule assms(3)) (simp add: heap_simps o)
qed

lemma keeps_set_function:
  "(\<And>f. set (trace (OFunction (g f))) \<subseteq> set (trace (OFunction f))) \<Longrightarrow> keeps_c outer opens (set_function a g)"
  by (rule sc.keepsI, rule cok_set_function) blast+

lemma cok_chunk: "(\<And>c. Q c s) \<Longrightarrow> cok outer opens c_chunk s Q"
  by (simp add: c_chunk_def cok_current cok_get_function)

lemma keeps_c_chunk: "keeps_c outer opens c_chunk"
  by (rule sc.keepsI) (rule cok_chunk)

lemma keeps_set_chunk: "(\<And>c. ch_constants (g c) = ch_constants c) \<Longrightarrow> keeps_c outer opens (c_set_chunk g)"
  unfolding c_set_chunk_def by (intro sc.keeps_bind keeps_c_current keeps_set_function) simp

lemma same_constants:
  "ch_constants (emit_byte b line c) = ch_constants c" "ch_constants (emit_op op line c) = ch_constants c"
  "ch_constants (emit_u24 v line c) = ch_constants c" "ch_constants (code_put_u24 k v c) = ch_constants c"
  by (simp_all add: emit_byte_def emit_op_def emit_u24_def code_put_u24_def)

lemma keeps_emit:
  "keeps_c outer opens (c_emit op line)" "keeps_c outer opens (c_emit_byte b line)"
  "keeps_c outer opens (c_emit_u8 op k line)" "keeps_c outer opens (c_emit_u24 op k line)"
  "keeps_c outer opens (emit_jump op line)" "keeps_c outer opens (patch_jump k line)"
  "keeps_c outer opens (emit_loop k line)"
  unfolding c_emit_def c_emit_byte_def c_emit_u8_def c_emit_u24_def emit_jump_def patch_jump_def emit_loop_def Let_def
  by (intro sc.keeps_bind sc.keeps_cond sc.keeps_simple keeps_c_chunk keeps_set_chunk keeps_too_large same_constants)+

subsection \<open>Constants and names\<close>

lemma cok_constant:
  assumes inv: "c_inv outer opens s" and v: "live_in s v"
  shows "cok outer opens (c_constant v line) s (\<lambda>_. c_inv outer opens)"
  unfolding c_constant_def Let_def c_set_chunk_def xwp_bind
proof (rule cok_chunk, rule cok_current, rule cok_set_function [OF inv])
  show "b \<in> set (trace (OFunction f)) \<or> obj_at (sc_heap s) b \<noteq> None"
    if "b \<in> set (trace (OFunction (f\<lparr>fo_chunk := snd (add_constant v (fo_chunk f))\<rparr>)))" for f b
    using that v by (auto simp: add_constant_def live_in_def)
  show "cok outer opens (if unat kMaxU24 < fst (add_constant v c) then too_large line
      else xreturn (fst (add_constant v c))) (s\<lparr>sc_heap := h\<rparr>) (\<lambda>_. c_inv outer opens)"
    if "c_inv outer opens (s\<lparr>sc_heap := h\<rparr>)" for c h
    by (rule sc.keepsD [OF sc.keeps_cond [OF keeps_too_large sc.keeps_simple(1)] that])
qed

lemma cok_intern:
  assumes "c_inv outer opens s"
    and "\<And>a h. c_inv outer opens (s\<lparr>sc_heap := h\<rparr>) \<Longrightarrow> obj_at h a = Some (OString bytes) \<Longrightarrow> Q a (s\<lparr>sc_heap := h\<rparr>)"
  shows "cok outer opens (c_intern sz outer bytes) s Q"
proof -
  obtain a h where i: "intern sz (outer @ compiler_roots s) bytes (sc_heap s) = (a, h)" by fastforce
  show ?thesis using assms(2) sc.inv_interned [OF assms(1) i] by (simp add: xwp_def c_intern_def i)
qed

lemma keeps_string_constant: "keeps_c outer opens (string_constant sz outer bytes line)"
proof (rule sc.keepsI)
  fix s assume inv: "c_inv outer opens s"
  show "cok outer opens (string_constant sz outer bytes line) s (\<lambda>_. c_inv outer opens)"
    unfolding string_constant_def xwp_bind [of "c_intern _ _ _"]
  proof (rule cok_intern [OF inv], unfold xwp_bind [of c_current], rule cok_current)
    fix a h fs
    assume i: "c_inv outer opens (s\<lparr>sc_heap := h\<rparr>)" and a: "obj_at h a = Some (OString bytes)"
    have c: "cok outer opens (c_constant (VObj a) line) (s\<lparr>sc_heap := h\<rparr>) (\<lambda>_. c_inv outer opens)"
      by (rule cok_constant [OF i]) (simp add: live_in_def value_addrs_def a)
    have k: "keeps_c outer opens
        (xseq (c_update (\<lambda>f. f\<lparr>fs_string_constants := (a, k) # fs_string_constants f\<rparr>)) (xreturn k))" for k
      by (intro sc.keeps_bind keeps_c_update sc.keeps_simple) simp
    have "cok outer opens (xbind (c_constant (VObj a) line) (\<lambda>index.
        xseq (c_update (\<lambda>f. f\<lparr>fs_string_constants := (a, index) # fs_string_constants f\<rparr>)) (xreturn index)))
        (s\<lparr>sc_heap := h\<rparr>) (\<lambda>_. c_inv outer opens)"
      unfolding xwp_bind [of "c_constant _ _"] by (rule xwp_mono [OF c]) (rule sc.keepsD [OF k])
    then show "cok outer opens (case map_of (fs_string_constants fs) a of
         Some index \<Rightarrow> xreturn index
       | None \<Rightarrow> xbind (c_constant (VObj a) line) (\<lambda>index.
           xseq (c_update (\<lambda>f. f\<lparr>fs_string_constants := (a, index) # fs_string_constants f\<rparr>)) (xreturn index)))
        (s\<lparr>sc_heap := h\<rparr>) (\<lambda>_. c_inv outer opens)"
      using i by (simp del: xwp_bind split: option.split)
  qed
qed

text \<open>A function object is allocated with its name, if it has one, as a temporary root.\<close>

lemma cok_function_object:
  assumes inv: "c_inv outer opens s"
    and Q: "\<And>fn h. c_inv outer opens (s\<lparr>sc_heap := h\<rparr>) \<Longrightarrow> obj_at h fn \<noteq> None \<Longrightarrow> Q fn (s\<lparr>sc_heap := h\<rparr>)"
  shows "cok outer opens
    (if name = [] then c_allocate sz outer (new_function None)
     else xbind (c_intern sz outer name) (\<lambda>a.
       xbind (xmod (\<lambda>s. s\<lparr>sc_heap := push_temp (VObj a) (sc_heap s)\<rparr>)) (\<lambda>_.
       xbind (c_allocate sz outer (new_function (Some a))) (\<lambda>fn.
       xbind (xmod (\<lambda>s. s\<lparr>sc_heap := pop_temp (sc_heap s)\<rparr>)) (\<lambda>_. xreturn fn))))) s Q"
proof (cases "name = []")
  case True
  obtain a h where al: "allocate sz (outer @ compiler_roots s) (new_function None) (sc_heap s) = (a, h)" by fastforce
  from Q [OF sc.inv_new_function [OF inv _ al]] True show ?thesis by (simp add: xwp_def c_allocate_def al)
next
  case False
  have named: "cok outer opens
      (xbind (xmod (\<lambda>s. s\<lparr>sc_heap := push_temp (VObj a) (sc_heap s)\<rparr>)) (\<lambda>_.
       xbind (c_allocate sz outer (new_function (Some a))) (\<lambda>fn.
       xbind (xmod (\<lambda>s. s\<lparr>sc_heap := pop_temp (sc_heap s)\<rparr>)) (\<lambda>_. xreturn fn)))) (s\<lparr>sc_heap := k\<rparr>) Q"
    if t: "c_inv outer opens (s\<lparr>sc_heap := k\<rparr>)" and a: "obj_at k a = Some (OString name)" for a k
  proof -
    obtain fn h where al: "allocate sz (outer @ compiler_roots (s\<lparr>sc_heap := k\<rparr>)) (new_function (Some a))
        (push_temp (VObj a) (sc_heap (s\<lparr>sc_heap := k\<rparr>))) = (fn, h)" by fastforce
    have "obj_at (sc_heap (s\<lparr>sc_heap := k\<rparr>)) a = Some (OString name)" using a by simp
    from sc.inv_named_function [OF t this al] have "Q fn (s\<lparr>sc_heap := pop_temp h\<rparr>)" by (intro Q) simp_all
    then show ?thesis using al by (simp add: compiler_roots_def xwp_def xbind_def xmod_def c_allocate_def xreturn_def)
  qed
  show ?thesis unfolding if_not_P [OF False] xwp_bind [of "c_intern _ _ _"] by (rule cok_intern [OF inv]) (rule named)
qed

lemma keeps_begin_function: "keeps_c outer opens (begin_function sz outer name)"
  unfolding begin_function_def
  by (rule sc.keepsI, unfold xwp_bind [of "if _ then _ else _"], erule cok_function_object, unfold xwp_mod,
      erule sc.inv_more) (auto simp: compiler_roots_def)

subsection \<open>Locals and upvalues\<close>

lemma keeps_add_local: "keeps_c outer opens (add_local name)"
  unfolding add_local_def by (intro sc.keeps_bind keeps_c_current sc.keeps_simple keeps_c_update) simp

lemma add_upvalue_function: "add_upvalue fn i l = Some (k, fn') \<Longrightarrow> fs_function fn' = fs_function fn"
  by (auto simp: add_upvalue_def Let_def split: option.splits if_splits)

lemma resolve_upvalue_functions:
  "resolve_upvalue name fs = Some (r, fs') \<Longrightarrow> map fs_function fs' = map fs_function fs"
proof (induction name fs arbitrary: r fs' rule: resolve_upvalue.induct)
  case (1 name fn enclosing rest)
  then show ?case
    by (cases "resolve_local enclosing name")
      (auto simp: capture_local_def dest!: add_upvalue_function split: option.splits)
qed auto

lemma keeps_local_access: "keeps_c outer opens (emit_local_access name store line)"
proof (rule sc.keepsI)
  fix s assume inv: "c_inv outer opens s"
  let ?up = "xbind (xget sc_current) (\<lambda>chain.
      xbind (xthe Stuck (resolve_upvalue name chain)) (\<lambda>(upvalue, chain).
      xseq (xmod (\<lambda>s. s\<lparr>sc_current := chain\<rparr>))
        (xbind (xthe Stuck upvalue) (\<lambda>u.
           c_emit_u8 (if store then OpSetUpvalue else OpGetUpvalue) u line))))"
  have "cok outer opens ?up s (\<lambda>_. c_inv outer opens)"
  proof (cases "resolve_upvalue name (sc_current s)")
    case (Some p)
    then obtain r chain where p: "resolve_upvalue name (sc_current s) = Some (r, chain)" by (cases p) auto
    have i: "c_inv outer opens (s\<lparr>sc_current := chain\<rparr>)"
      by (rule c_inv_chain [OF inv]) (simp only: resolve_upvalue_functions [OF p] subset_refl)
    have "keeps_c outer opens (xbind (xthe Stuck r) (\<lambda>u. c_emit_u8 (if store then OpSetUpvalue else OpGetUpvalue) u line))"
      by (intro sc.keeps_bind sc.keeps_simple keeps_emit)
    from sc.keepsD [OF this i] show ?thesis
      unfolding xwp_bind [of "xget _"] xwp_get p xwp_bind [of "xthe Stuck (Some (r, chain))"] xwp_the option.case split_conv
        xwp_bind [of "xmod _"] xwp_mod .
  qed simp
  then have "cok outer opens (case r of
        Some slot \<Rightarrow> c_emit_u8 (if store then OpSetLocal else OpGetLocal) slot line
      | None \<Rightarrow> ?up) s (\<lambda>_. c_inv outer opens)" for r
    using sc.keepsD [OF keeps_emit(3) inv] by (cases r) (simp_all only: option.case)
  then show "cok outer opens (emit_local_access name store line) s (\<lambda>_. c_inv outer opens)"
    unfolding emit_local_access_def xwp_bind [of c_current] by (intro cok_current)
qed

lemma keeps_pop_locals: "keeps_c outer opens (pop_locals n line)"
proof (induction n)
  case (Suc n)
  show ?case
    unfolding pop_locals.simps Let_def
    by (intro sc.keeps_bind keeps_c_current sc.keeps_cond keeps_emit keeps_c_update sc.keeps_simple Suc.IH) simp
qed (simp add: sc.keeps_simple)

lemma keeps_end_scope: "keeps_c outer opens (end_scope line)"
  unfolding end_scope_def by (intro sc.keeps_bind keeps_c_update keeps_c_current keeps_pop_locals) simp

subsection \<open>Expressions\<close>

lemma keeps_c_constant: "(\<And>s. live_in s v) \<Longrightarrow> keeps_c outer opens (c_constant v line)"
  by (rule sc.keepsI) (rule cok_constant)

lemma keeps_literal: "keeps_c outer opens (c_literal sz outer lit line)"
  by (cases lit; simp only: c_literal_def literal.case)
    (intro sc.keeps_bind keeps_emit keeps_string_constant keeps_c_constant; simp)+

lemma keeps_variable: "keeps_c outer opens (c_variable sz outer x b store line)"
  by (cases b; simp only: c_variable_def binding.case)
    (intro sc.keeps_bind keeps_emit keeps_string_constant keeps_local_access sc.keeps_simple)+

lemma keeps_exprs: "keeps_c outer opens (c_expr sz outer e)" "keeps_c outer opens (c_exprs sz outer es)"
proof (induction sz outer e and sz outer es rule: c_expr_c_exprs.induct)
  case (6 sz outer op l r line)
  show ?case
    by (cases op; simp only: c_expr.simps logical_op.case)
      (intro sc.keeps_bind keeps_emit 6; simp)+
qed (simp only: c_expr.simps c_exprs.simps, intro sc.keeps_bind keeps_literal keeps_variable keeps_emit sc.keeps_simple; assumption)+

lemma keeps_opt: "keeps_c outer opens (c_opt sz outer e line)"
  by (cases e) (simp_all add: c_opt_def keeps_exprs keeps_emit)

subsection \<open>Statements\<close>

lemma keeps_params: "keeps_c outer opens m \<Longrightarrow> keeps_c outer opens (fold (\<lambda>p m. xseq m (add_local (sv_text p))) params m)"
  by (induction params arbitrary: m) (simp_all add: sc.keeps_bind keeps_add_local)

lemma keeps_open_function: "keeps_c outer opens (open_function sz outer name params)"
  unfolding open_function_def
  by (intro sc.keeps_bind keeps_begin_function keeps_c_update keeps_params keeps_c_current keeps_set_function sc.keeps_simple)
    simp_all

lemma keeps_upvalue_refs: "keeps_c outer opens (emit_upvalue_refs ups line)"
  by (induction ups) (simp_all only: emit_upvalue_refs.simps sc.keeps_bind keeps_emit sc.keeps_simple)

lemma keeps_close_function: "keeps_c outer opens (close_function line)"
  unfolding close_function_def
proof (intro sc.keeps_bind [OF keeps_emit(1)], rule sc.keepsI)
  fix s assume inv: "c_inv outer opens s"
  let ?tail = "\<lambda>state. xbind (c_constant (VObj (fs_function state)) line) (\<lambda>k.
     xseq (c_emit_u24 OpClosure k line) (emit_upvalue_refs (fs_upvalues state) line))"
  show "cok outer opens (xbind c_current (\<lambda>state.
       xseq (set_function (fs_function state) (\<lambda>f. f\<lparr>fo_upvalue_count := length (fs_upvalues state)\<rparr>))
         (xseq (xmod (\<lambda>s. s\<lparr>sc_current := tl (sc_current s)\<rparr>)) (?tail state)))) s (\<lambda>_. c_inv outer opens)"
    unfolding xwp_bind [of c_current] xwp_bind [of "set_function _ _"] xwp_bind [of "xmod _"] xwp_mod
  proof (rule cok_current, rule cok_set_function [OF inv])
    fix state h
    assume state: "state \<in> set (sc_current s)" and i: "c_inv outer opens (s\<lparr>sc_heap := h\<rparr>)"
      and same: "\<And>b. obj_at h b = None \<longleftrightarrow> obj_at (sc_heap s) b = None"
    let ?t = "s\<lparr>sc_heap := h, sc_current := tl (sc_current (s\<lparr>sc_heap := h\<rparr>))\<rparr>"
    have t: "c_inv outer opens ?t" by (rule c_inv_chain [OF i]) (cases "sc_current s", auto)
    have "live_in ?t (VObj (fs_function state))"
      using c_inv_root [OF inv state] same by (simp add: live_in_def value_addrs_def)
    note c = cok_constant [OF t this, of line]
    have "keeps_c outer opens (xseq (c_emit_u24 OpClosure k line) (emit_upvalue_refs (fs_upvalues state) line))" for k
      by (intro sc.keeps_bind keeps_emit keeps_upvalue_refs)
    from sc.keepsD [OF this] show "cok outer opens (?tail state) ?t (\<lambda>_. c_inv outer opens)"
      unfolding xwp_bind [of "c_constant _ _"] by (rule xwp_mono [OF c])
  qed simp
qed

lemma keeps_define_global: "keeps_c outer opens (define_global sz outer name line)"
  unfolding define_global_def by (intro sc.keeps_bind keeps_string_constant keeps_emit)

lemma keeps_stmts: "keeps_c outer opens (c_stmt sz outer st)" "keeps_c outer opens (c_stmts sz outer sts)"
proof (induction sz outer st and sz outer sts rule: c_stmt_c_stmts.induct)
qed (simp only: c_stmt.simps c_stmts.simps, intro sc.keeps_bind sc.keeps_cond keeps_exprs keeps_opt keeps_emit sc.keeps_simple
  keeps_define_global keeps_add_local keeps_end_scope keeps_c_chunk keeps_open_function keeps_close_function; (assumption | simp add: keeps_c_update))+

subsection \<open>The script\<close>

lemma cok_script:
  assumes "c_inv outer opens s"
  shows "cok outer opens (compile_script sz outer p) s
    (\<lambda>fn t. host_ok outer opens (sc_heap t) \<and> obj_at (sc_heap t) fn \<noteq> None)"
  unfolding compile_script_def
proof (intro sc.bind_keeps [OF keeps_begin_function assms] sc.bind_keeps [OF keeps_stmts(2)]
    sc.bind_keeps [OF keeps_emit(1)], assumption+, unfold xwp_bind, rule cok_current)
  fix t state
  assume i: "c_inv outer opens t" and state: "state \<in> set (sc_current t)"
  have "host_ok outer opens (sc_heap t)"
    by (rule sc.inv_outer [OF i])
  then show "cok outer opens (xmod (\<lambda>s. s\<lparr>sc_current := []\<rparr>)) t (\<lambda>_ t. cok outer opens (xreturn (fs_function state)) t
      (\<lambda>fn t. host_ok outer opens (sc_heap t) \<and> obj_at (sc_heap t) fn \<noteq> None))"
    using c_inv_root [OF i state] by simp
qed

lemma compile_stack_ok:
  assumes "host_ok roots opens h" "compile_stack sz roots p h = Ok (r, h')"
  shows "host_ok roots opens h'" "r = Inr fn \<Longrightarrow> obj_at h' fn \<noteq> None"
proof -
  let ?s = "\<lparr>sc_heap = h, sc_current = []\<rparr>"
  have "c_inv roots opens ?s" using assms(1) by (simp add: sc.inv_def compiler_roots_def host_ok_def)
  note k = cok_script [OF this, of sz p]
  have "host_ok roots opens h' \<and> (r = Inr fn \<longrightarrow> obj_at h' fn \<noteq> None)"
    using k assms(2) by (auto simp: compile_stack_def xwp_def stop_ok_def split: outcome.splits compile_stop.splits)
  then show "host_ok roots opens h'" "r = Inr fn \<Longrightarrow> obj_at h' fn \<noteq> None" by blast+
qed

end
