(* ===== verification/Stack_Sound.thy ===== *)
theory Stack_Sound
  imports Stack_Steps Compiler_Safe
begin

text \<open>
  The entry points of the bytecode machine: constructing it, running a program, calling a global
  afterwards. Each keeps the invariant, for every program, every bytecode and every collection the
  allocations start.
\<close>

declare xwp_simps [simp]

subsection \<open>The constructor\<close>

lemma inv_new_heap:
  assumes "vm_inv s" "host_ok (vm_roots s) (vm_open s) h"
  shows "vm_inv (s\<lparr>vm_heap := h\<rparr>)"
  using assms by (simp add: vm_inv_def host_ok_def vm_gc.roots_set)

lemma inv_intern:
  assumes inv: "vm_inv s" and i: "intern sz (vm_roots s) name (vm_heap s) = (a, h)"
  shows "vm_inv (s\<lparr>vm_heap := h\<rparr>)" "obj_at h a = Some (OString name)"
    "held (vm_heap s) (vm_roots s) b \<Longrightarrow> obj_at h b = obj_at (vm_heap s) b"
proof -
  note k = intern_evolved [OF vm_inv_sane [OF inv] i]
  show "vm_inv (s\<lparr>vm_heap := h\<rparr>)" by (rule inv_evolved [OF inv k(1)]) (auto simp: is_open_upvalue_def)
  show "obj_at h a = Some (OString name)" by (rule k(2))
  show "held (vm_heap s) (vm_roots s) b \<Longrightarrow> obj_at h b = obj_at (vm_heap s) b" by (rule evolved_held [OF k(1)])
qed

lemma gc_live_temp:
  assumes "vm_inv s" "live_value s v"
  shows "vm_inv (s\<lparr>vm_heap := push_temp v (vm_heap s)\<rparr>)"
  by (rule inv_new_heap [OF assms(1)], rule host_ok_push_temp [OF inv_host [OF assms(1)]])
    (use assms(2) in \<open>simp add: live_value_def\<close>)

lemma vm_inv_pop_temp: "vm_inv s \<Longrightarrow> vm_inv (s\<lparr>vm_heap := pop_temp (vm_heap s)\<rparr>)"
  by (rule inv_new_heap, assumption, rule host_ok_pop_temp, erule inv_host)

lemma inv_define_native:
  assumes inv: "vm_inv s" and v: "held_value s v"
  shows "vm_inv (vm_define_native sz name v s)"
proof -
  obtain a h where i: "intern sz (vm_roots s) name (vm_heap s) = (a, h)" by fastforce
  note k = inv_intern [OF inv i]
  have "live_value (s\<lparr>vm_heap := h\<rparr>) v"
    using v k(3) held_live unfolding held_value_def live_value_def by fastforce
  from vm_inv_global [OF k(1) this, of a] k(2) show ?thesis by (simp add: vm_define_native_def i)
qed

lemma register_native_inv:
  assumes inv: "vm_inv s" and "spec = (name, native_arity f, f)"
  shows "vm_inv (register_native sz vm_heap (\<lambda>h s. s\<lparr>vm_heap := h\<rparr>) vm_roots (vm_define_native sz) spec s)"
proof -
  let ?ob = "ONative name (native_arity f) f"
  obtain a h where al: "allocate sz (vm_roots s) ?ob (vm_heap s) = (a, h)" by fastforce
  have n: "\<not> is_string ?ob" "\<forall>b\<in>set (trace ?ob). held (vm_heap s) (vm_roots s) b" by (simp_all add: is_string_def)
  note k = allocate_evolved [OF vm_inv_sane [OF inv] al n]
  have 1: "vm_inv (s\<lparr>vm_heap := h\<rparr>)" by (rule inv_evolved [OF inv k(1)]) (auto simp: is_open_upvalue_def)
  let ?t = "s\<lparr>vm_heap := push_temp (VObj a) h\<rparr>"
  have "live_value (s\<lparr>vm_heap := h\<rparr>) (VObj a)" by (simp add: live_value_def value_addrs_def k(2))
  from gc_live_temp [OF 1 this] have 2: "vm_inv ?t" by simp
  have "held_value ?t (VObj a)"
    unfolding held_value_def using inv_root_held [OF 2] by (simp add: root_cases push_temp_def value_addrs_def)
  from vm_inv_pop_temp [OF inv_define_native [OF 2 this]] show ?thesis
    by (simp add: register_native_def assms(2) al Let_def)
qed

lemma empty_vm_inv: "vm_inv (empty_vm (empty_heap\<lparr>hp_stress := b\<rparr>))"
proof -
  have "sane (empty_heap\<lparr>hp_stress := b\<rparr>)"
    by (simp add: sane_def heap_ok_def no_dangling_def empty_heap_def obj_at_def strings_ok_def heap_eval)
  then show ?thesis
    by (simp add: vm_inv_def empty_vm_def gc_live_def gc_roots_def vm_roots_def natives_ok_def opens_ok_def
        empty_heap_def obj_at_def)
qed

lemma init_vm_inv: "vm_inv (init_vm sz (empty_heap\<lparr>hp_stress := b\<rparr>))"
proof -
  have k: "kSpecs = [(''clock'', native_arity NativeClock, NativeClock), (''len'', native_arity NativeLen, NativeLen),
      (''array'', native_arity NativeArray, NativeArray)]"
    by (simp add: kSpecs_def native_arity_def)
  show ?thesis
    unfolding init_vm_def register_natives_def k by (simp add: register_native_inv empty_vm_inv)
qed

subsection \<open>Running\<close>

lemma vok_compile:
  assumes inv: "vm_inv s"
    and Q: "\<And>r h. vm_inv (s\<lparr>vm_heap := h\<rparr>) \<Longrightarrow> (\<And>fn. r = Inr fn \<Longrightarrow> obj_at h fn \<noteq> None) \<Longrightarrow> Q r (s\<lparr>vm_heap := h\<rparr>)"
  shows "vok (vm_compile sz p) s Q"
proof (cases "compile_stack sz (vm_roots s) p (vm_heap s)")
  case (Ok x)
  obtain r h where x: "x = (r, h)" by (cases x)
  note k = compile_stack_ok [OF inv_host [OF inv] Ok [unfolded x]]
  have "Q r (s\<lparr>vm_heap := h\<rparr>)" by (rule Q [OF inv_new_heap [OF inv k(1)]]) (rule k(2))
  then show ?thesis by (simp add: xwp_def vm_compile_def Ok x)
qed (simp_all add: xwp_def vm_compile_def)

lemma inv_start:
  assumes "vm_inv s" "obj_at (vm_heap s) a \<noteq> None"
  shows "vm_inv (s\<lparr>vm_stack := [VObj a], vm_frames := [\<lparr>cf_closure = a, cf_ip = 0, cf_base = 0\<rparr>], vm_uncounted := 1\<rparr>)"
  by (rule vm_inv_change [OF assms(1)])
    (use assms(2) in \<open>auto simp: root_cases value_addrs_def kMaxFrames_def kStackSlots_def kTempSlack_def\<close>)

lemma keeps_load: "vm_inv s \<Longrightarrow> keeps_inv (vm_load sz p) s"
  unfolding vm_load_def xwp_bind [of "vm_compile _ _"]
proof (rule vok_compile, assumption)
  fix r :: "compile_error + addr" and h
  assume i: "vm_inv (s\<lparr>vm_heap := h\<rparr>)" and fn: "\<And>fn. r = Inr fn \<Longrightarrow> obj_at h fn \<noteq> None"
  let ?start = "\<lambda>script. xseq (xmod (\<lambda>s. s\<lparr>vm_stack := [VObj script],
      vm_frames := [\<lparr>cf_closure = script, cf_ip = 0, cf_base = 0\<rparr>], vm_uncounted := 1\<rparr>)) (xreturn (Inr () :: compile_error + unit))"
  have "keeps_inv (xseq (vm_push (VObj f)) (xbind (vm_function f) (\<lambda>fo.
      xbind (vm_allocate sz (OClosure f (replicate (fo_upvalue_count fo) None))) ?start))) (s\<lparr>vm_heap := h\<rparr>)"
    if f: "r = Inr f" for f
    unfolding xwp_bind [of "vm_push _"] xwp_bind [of "vm_function _"] xwp_bind [of "vm_allocate _ _"]
  proof (rule vok_push [OF i], simp add: live_value_def value_addrs_def fn [OF f], rule vok_function)
    fix fo
    let ?s = "s\<lparr>vm_heap := h, vm_stack := vm_stack (s\<lparr>vm_heap := h\<rparr>) @ [VObj f]\<rparr>"
    assume j: "vm_inv ?s"
    have "held (vm_heap ?s) (vm_roots ?s) f" using inv_root_held [OF j] by (simp add: root_cases value_addrs_def)
    then have t: "\<forall>b\<in>set (trace (OClosure f (replicate n None))). held (vm_heap ?s) (vm_roots ?s) b" for n
      by (simp add: opt_addrs_def)
    show "vok (vm_allocate sz (OClosure f (replicate (fo_upvalue_count fo) None))) ?s (\<lambda>a. keeps_inv (?start a))"
    proof (rule vok_allocate [OF j _ _ _ t])
      fix a h'
      assume "vm_inv (?s\<lparr>vm_heap := h'\<rparr>)" "obj_at h' a = Some (OClosure f (replicate (fo_upvalue_count fo) None))"
      then show "keeps_inv (?start a) (?s\<lparr>vm_heap := h'\<rparr>)" using inv_start [of "?s\<lparr>vm_heap := h'\<rparr>" a] by simp
    qed (simp_all add: is_string_def is_open_upvalue_def is_native_object_def)
  qed
  then show "keeps_inv (case r of Inl error \<Rightarrow> xreturn (Inl error)
      | Inr function \<Rightarrow> xseq (vm_push (VObj function)) (xbind (vm_function function) (\<lambda>fo.
          xbind (vm_allocate sz (OClosure function (replicate (fo_upvalue_count fo) None))) ?start))) (s\<lparr>vm_heap := h\<rparr>)"
    using i by (cases r) (simp_all only: sum.case xwp_return)
qed

lemma keeps_take_error: "vm_inv s \<Longrightarrow> keeps_inv vm_take_error s"
proof -
  assume inv: "vm_inv s"
  have "vm_inv (t\<lparr>vm_stack := [], vm_frames := []\<rparr>)" if "vm_inv t" for t
    by (rule inv_shrink [OF that]) (simp_all add: roots_mono)
  then have "keeps_inv (xseq (close_upvalues 0) (xseq (xmod (\<lambda>s. s\<lparr>vm_stack := [], vm_frames := []\<rparr>)) (xreturn e))) t"
    if "vm_inv t" for t and e :: "runtime_error option"
    unfolding xwp_bind [of "close_upvalues _"] by (intro vok_close [OF that]) (simp add: closed_from_def)
  then show "keeps_inv vm_take_error s"
    unfolding vm_take_error_def xwp_bind [of "xget _"] xwp_get xwp_bind [of "xmod _"] xwp_mod
    using inv_small(1) [OF inv, of None] by (simp del: xwp_bind)
qed

lemma keeps_run: "vm_inv s \<Longrightarrow> keeps_inv (stack_run sz clk n p) s"
  unfolding stack_run_def xwp_bind [of "vm_load _ _"]
proof (rule vok_mono [OF keeps_load], assumption)
  fix r :: "compile_error + unit" and t
  assume i: "vm_inv t"
  have "keeps_inv (xbind (execute sz clk 0 n) (\<lambda>ok.
       if ok then xreturn (Inr None) else xbind vm_take_error (\<lambda>e. xreturn (Inr e)))) t"
    unfolding xwp_bind [of "execute _ _ _ _"]
    by (rule vok_mono [OF keeps_execute [OF i]]) (simp add: keeps_take_error)
  then show "keeps_inv (case r of Inl error \<Rightarrow> xreturn (Inl error)
     | Inr _ \<Rightarrow> xbind (execute sz clk 0 n) (\<lambda>ok.
         if ok then xreturn (Inr None) else xbind vm_take_error (\<lambda>e. xreturn (Inr e)))) t"
    using i by (cases r) (simp_all only: sum.case xwp_return)
qed

end
