(* ===== verification/Stack_Rest.thy ===== *)
theory Stack_Rest
  imports Stack_Sound
begin

text \<open>
  A run leaves the machine as it found it: when \<open>execute\<close> returns, the value stack, the frames and the
  open list are empty again, whether the program ended or an error was taken; and \<open>execute\<close> reports
  failure exactly with an error recorded.
\<close>

declare xwp_simps [simp]

text \<open>A running machine: the outermost frame starts at the bottom of the stack.\<close>

definition based :: "stack_vm \<Rightarrow> bool" where
  "based s \<longleftrightarrow> vm_frames s \<noteq> [] \<and> cf_base (last (vm_frames s)) = 0"

definition steady :: "'a vm \<Rightarrow> bool" where
  "steady m \<longleftrightarrow> (\<forall>s. based s \<longrightarrow> vok m s (\<lambda>_. based))"

definition at_rest :: "stack_vm \<Rightarrow> bool" where
  "at_rest s \<longleftrightarrow> vm_stack s = [] \<and> vm_frames s = [] \<and> vm_open s = []"

definition ending :: "step_result \<Rightarrow> stack_vm \<Rightarrow> bool" where
  "ending r s \<longleftrightarrow>
     (case r of Running \<Rightarrow> based s | Finished True \<Rightarrow> at_rest s | Finished False \<Rightarrow> based s \<and> vm_error s \<noteq> None)"

definition steps :: "step_result vm \<Rightarrow> bool" where
  "steps m \<longleftrightarrow> (\<forall>s. based s \<longrightarrow> vok m s ending)"

lemma steadyD: "steady m \<Longrightarrow> based s \<Longrightarrow> vok m s (\<lambda>_. based)"
  by (simp add: steady_def)

lemma steady_bind: "steady m \<Longrightarrow> (\<And>x. steady (k x)) \<Longrightarrow> steady (xbind m k)"
  unfolding steady_def xwp_bind by (blast intro: vok_mono)

lemma steps_bind: "steady m \<Longrightarrow> (\<And>x. steps (k x)) \<Longrightarrow> steps (xbind m k)"
  unfolding steady_def steps_def xwp_bind by (blast intro: vok_mono)

lemma steady_if: "steady m \<Longrightarrow> steady m' \<Longrightarrow> steady (if b then m else m')"
  by simp

lemma steady_basic:
  "steady (xreturn x)" "steady (xget f)" "steady (xassert e b)" "steady (xthe e y)" "steady (vm_fail_with e)"
  by (auto simp: steady_def split: option.split)

text \<open>A change outside the frames.\<close>

lemma based_cong: "vm_frames s' = vm_frames s \<Longrightarrow> based s' = based s"
  by (simp add: based_def)

lemma steady_mod: "(\<And>s. vm_frames (g s) = vm_frames s) \<Longrightarrow> steady (xmod g)"
  by (simp add: steady_def based_def)

lemma steady_heap: "steady (\<lambda>s. case f s of (r, h) \<Rightarrow> Ok (r, s\<lparr>vm_heap := h\<rparr>))"
  by (simp add: steady_def xwp_def based_def split: prod.split)

lemma steady_set_ip: "steady (vm_set_ip ip)"
  by (auto simp: steady_def vm_set_ip_def based_def split: list.split)

lemma steady_allocate: "steady (vm_allocate sz ob)"
  using steady_heap [of "\<lambda>s. allocate sz (vm_roots s) ob (vm_heap s)"]
  by (simp add: vm_allocate_def [abs_def] Let_def)

lemma steady_frame: "steady vm_frame"
  unfolding vm_frame_def by (intro steady_bind steady_basic) (auto simp: steady_basic split: list.split)

lemma steady_object:
  "steady (vm_object a)" "steady (vm_closure a)" "steady (vm_function a)" "steady (vm_upvalue a)"
  unfolding vm_object_def vm_closure_def vm_function_def vm_upvalue_def
  by (intro steady_bind steady_basic; auto simp: steady_basic split: obj.split)+

lemma steady_stack:
  "steady (vm_push v)" "steady (vm_top n)" "steady (vm_drop n)" "steady (vm_replace n v)" "steady (vm_slot i)"
  "steady (vm_set_slot i v)" "steady (vm_set_obj a ob)"
  unfolding vm_push_def vm_top_def vm_drop_def vm_replace_def vm_slot_def vm_set_slot_def vm_set_obj_def
  by (intro steady_bind steady_basic steady_mod; simp)+

lemma steady_chunk: "steady vm_chunk"
  unfolding vm_chunk_def by (intro steady_bind steady_frame steady_object steady_basic) (simp split: prod.split, intro allI impI steady_bind steady_object steady_basic)

lemma steady_read: "steady read_byte" "steady read_u24" "steady read_constant" "steady read_name"
proof -
  show b: "steady read_byte"
    unfolding read_byte_def by (intro steady_bind steady_chunk steady_frame steady_basic steady_set_ip)
  show u: "steady read_u24"
    unfolding read_u24_def by (intro steady_bind b steady_basic)
  show c: "steady read_constant"
    unfolding read_constant_def by (intro steady_bind u steady_chunk steady_basic)
  show "steady read_name"
    unfolding read_name_def by (intro steady_bind c) (simp add: steady_basic split: gvalue.split)
qed

lemma steady_fail: "steady (vm_fail message)"
  unfolding vm_fail_def by (intro steady_bind steady_basic steady_if steady_chunk steady_frame steady_mod) simp

lemmas steady_rules = steady_bind steady_if steady_basic steady_frame steady_object steady_stack steady_chunk steady_read
  steady_set_ip steady_allocate steady_fail

subsection \<open>Upvalues\<close>

lemma steady_split_open: "steady (split_open i ups)"
proof (induction ups)
  case (Cons up ups)
  show ?case
    unfolding split_open.simps
    by (intro steady_rules, simp split: upvalue_location.split)
      (auto intro!: steady_rules Cons.IH split: prod.split)
qed (simp add: steady_basic)

lemma steady_capture: "steady (capture_upvalue sz i)"
  unfolding capture_upvalue_def
  by (intro steady_bind steady_basic steady_split_open, unfold split_paired_all split_conv)
    (auto intro!: steady_rules steady_mod split: list.split option.split)

lemma steady_close_loop: "steady (close_loop i ups)"
proof (induction ups)
  case (Cons up ups)
  show ?case
    unfolding close_loop.simps
    by (intro steady_rules, simp split: upvalue_location.split)
      (auto intro!: steady_rules steady_mod Cons.IH)
qed (simp add: steady_mod)

lemma steady_upvalues:
  "steady (close_upvalues i)" "steady (read_upvalue up)" "steady (write_upvalue up v)" "steady (frame_upvalue b)"
  unfolding close_upvalues_def read_upvalue_def write_upvalue_def frame_upvalue_def
  by (intro steady_rules steady_close_loop; auto intro!: steady_rules split: upvalue_location.split prod.split)+

lemma steady_fill: "steady (fill_upvalues sz created i n)"
proof (induction n arbitrary: i)
  case (Suc n)
  show ?case
    unfolding fill_upvalues.simps
    by (intro steady_rules steady_capture steady_upvalues) (auto intro!: steady_rules Suc.IH split: prod.split)
qed (simp add: steady_basic)

text \<open>Closing leaves the stack and the frames alone; from the bottom of the stack it empties the list.\<close>

lemma close_loop_result:
  "vok (close_loop i ups) s (\<lambda>_ t. vm_stack t = vm_stack s \<and> vm_frames t = vm_frames s \<and> (i = 0 \<longrightarrow> vm_open t = []))"
proof (induction ups arbitrary: s)
  case (Cons up ups)
  have "vok (close_loop i ups) (s\<lparr>vm_heap := h\<rparr>)
      (\<lambda>_ t. vm_stack t = vm_stack s \<and> vm_frames t = vm_frames s \<and> (i = 0 \<longrightarrow> vm_open t = []))" for h
    using Cons.IH [of "s\<lparr>vm_heap := h\<rparr>"] by simp
  then show ?case
    unfolding close_loop.simps xwp_bind
    by (intro vok_upvalue) (simp add: vm_slot_def vm_set_obj_def split: upvalue_location.split)
qed simp

lemma close_result:
  "vok (close_upvalues i) s (\<lambda>_ t. vm_stack t = vm_stack s \<and> vm_frames t = vm_frames s \<and> (i = 0 \<longrightarrow> vm_open t = []))"
  unfolding close_upvalues_def xwp_bind xwp_get by (rule close_loop_result)

subsection \<open>Instructions\<close>

lemma steps_running: "steady m \<Longrightarrow> steps (running m)"
  unfolding steps_def running_def xwp_bind by (auto simp: ending_def dest: steadyD)

lemma failing_error:
  assumes "based s"
  shows "vok (vm_fail message) s (\<lambda>_ t. based t \<and> vm_error t \<noteq> None)"
proof -
  let ?set = "\<lambda>line. xmod (\<lambda>s. s\<lparr>vm_error := Some \<lparr>re_line = line, re_message = message\<rparr>\<rparr>)"
  have s: "vok (?set line) t (\<lambda>_ t. based t \<and> vm_error t \<noteq> None)" if "based t" for line t
    using that by (simp add: based_def)
  have "steady (if fs = [] then xreturn 0 else xbind vm_chunk (\<lambda>c. xbind vm_frame (\<lambda>f. xreturn (line_at c (cf_ip f - 1)))))" for fs
    by (intro steady_rules)
  from steadyD [OF this assms] show ?thesis
    unfolding vm_fail_def xwp_bind [of "xget _"] xwp_get xwp_bind [of _ ?set] by (rule vok_mono) (rule s)
qed

lemma steps_failing: "steps (failing message)"
  unfolding steps_def failing_def xwp_bind xwp_return
  by (intro allI impI vok_mono [OF failing_error]) (simp_all add: ending_def)

lemma steps_result: "steps (vm_result_of n r)"
  by (cases r) (simp_all add: vm_result_of_def steps_failing steps_running steady_stack)

lemma steps_basic: "steps (vm_fail_with e)" "steps (xreturn Running)"
  by (simp_all add: steps_def ending_def)

lemmas steps_rules = steps_bind steps_running steps_failing steps_result steps_basic steady_rules steady_upvalues

lemma steps_globals: "steps step_get_global" "steps step_set_global" "steps step_define_global"
  unfolding step_get_global_def step_set_global_def step_define_global_def
  by (intro steps_rules; auto intro!: steps_rules steady_mod split: option.split)+

lemma steps_small:
  "steps step_get_upvalue" "steps step_set_upvalue" "steps step_get_local" "steps step_set_local"
  "steps (step_binary f)" "steps (step_add sz)" "steps step_jump_if_false" "steps step_close_upvalue"
  "steps step_print" "steps (step_array sz)" "steps step_index_get"
  unfolding step_get_upvalue_def step_set_upvalue_def step_get_local_def step_set_local_def step_binary_def
    step_add_def step_jump_if_false_def step_close_upvalue_def step_print_def step_array_def step_index_get_def
    jump_forward_def Let_def
  by (intro steps_rules steady_mod steady_heap; simp)+

lemma steps_index_set: "steps step_index_set"
  unfolding step_index_set_def by (intro steps_rules) (auto intro!: steps_rules steady_mod split: sum.split)

lemma steps_closure: "steps (step_closure sz)"
  unfolding step_closure_def
  by (intro steps_rules) (auto intro!: steps_rules steady_fill split: gvalue.split)

subsection \<open>Calls and returns\<close>

text \<open>A call leaves the running frames in place, and \<open>CallError\<close> comes with an error. With no frame
  running, a call of the value at the bottom of the stack starts the first one.\<close>

definition called :: "stack_vm \<Rightarrow> call_outcome \<Rightarrow> stack_vm \<Rightarrow> bool" where
  "called s r t \<longleftrightarrow>
     (r = CallError \<longrightarrow> vm_error t \<noteq> None) \<and> (r = PushedFrame \<longrightarrow> based t) \<and>
     (r = NativeDone \<longrightarrow> vm_frames t = vm_frames s \<and> vm_open t = vm_open s) \<and> (based s \<longrightarrow> based t)"

definition callable :: "nat \<Rightarrow> stack_vm \<Rightarrow> bool" where
  "callable argc s \<longleftrightarrow> based s \<or> (vm_frames s = [] \<and> length (vm_stack s) = argc + 1)"

lemma error_outcome_called:
  "callable argc s \<Longrightarrow> vok (vm_error_outcome m) s (called s)"
proof (cases "based s")
  case True
  then show ?thesis
    unfolding vm_error_outcome_def xwp_bind xwp_return
    by (intro vok_mono [OF failing_error]) (simp_all add: called_def)
next
  case False
  moreover assume "callable argc s"
  ultimately show ?thesis by (simp add: vm_error_outcome_def vm_fail_def callable_def called_def)
qed

lemma call_closure_called:
  "callable argc s \<Longrightarrow> vok (vm_call_closure a fn argc) s (called s)"
  unfolding vm_call_closure_def xwp_bind [of "vm_function _"]
proof (rule vok_function)
  fix fo assume c: "callable argc s"
  then have "based (s\<lparr>vm_frames := \<lparr>cf_closure = a, cf_ip = 0, cf_base = length (vm_stack s) - argc - 1\<rparr> # vm_frames s\<rparr>)"
    by (auto simp: callable_def based_def)
  then show "vok (if fo_arity fo \<noteq> argc then vm_error_outcome (arity_error_message (fo_arity fo) argc)
       else xbind (xget (\<lambda>s. (length (vm_frames s) - vm_uncounted s, length (vm_stack s)))) (\<lambda>(depth, sp).
         if kMaxCallDepth \<le> depth \<or> kStackSlots - kTempSlack < sp + kFrameSlots
         then vm_error_outcome kErrStackOverflow
         else xseq (push_frame a (sp - argc - 1)) (xreturn PushedFrame))) s
       (called s)"
    using error_outcome_called [OF c] by (simp add: push_frame_def called_def)
qed

lemma native_result_called:
  assumes "callable argc s"
  shows "vok (vm_native_result argc r) s (called s)"
proof (cases r)
  case (Inr v)
  have "vok (vm_replace (argc + 1) v) s (\<lambda>_ t. vm_frames t = vm_frames s \<and> vm_open t = vm_open s)"
    by (auto simp: vm_replace_def vm_drop_def vm_push_def)
  then show ?thesis
    unfolding Inr vm_native_result_def sum.case xwp_bind xwp_return by (rule vok_mono) (simp add: called_def based_def)
qed (simp add: vm_native_result_def error_outcome_called [OF assms])

lemma call_object_called:
  assumes c: "callable argc s"
  shows "vok (vm_call_object sz clk argc a ob) s (called s)"
proof (cases ob)
  case (ONative name arity f)
  let ?s = "if f = NativeClock then s\<lparr>vm_ticks := vm_ticks s + 1\<rparr> else s"
  obtain r h where "call_native sz (vm_roots ?s) (clk (vm_ticks ?s)) f
      (drop (length (vm_stack ?s) - argc) (vm_stack ?s)) (vm_heap ?s) = (r, h)" by fastforce
  then have k: "vm_call_native sz clk f argc s = Ok (r, ?s\<lparr>vm_heap := h\<rparr>)" by (simp add: vm_call_native_def Let_def)
  have b: "called (?s\<lparr>vm_heap := h\<rparr>) = called s" "callable argc (?s\<lparr>vm_heap := h\<rparr>)"
    using c by (auto simp: based_def callable_def called_def fun_eq_iff)
  have "vok (xbind (vm_call_native sz clk f argc) (vm_native_result argc)) s (called s)"
    by (rule vok_ok [where m = "vm_call_native sz clk f argc", OF k]) (use native_result_called [OF b(2)] in \<open>simp only: b(1)\<close>)
  then show ?thesis
    using error_outcome_called [OF c] by (simp add: vm_call_object_def ONative del: xwp_bind)
qed (simp_all only: vm_call_object_def obj.case error_outcome_called [OF c] call_closure_called [OF c])

lemma call_value_called:
  assumes c: "callable argc s"
  shows "vok (vm_call_value sz clk argc) s (called s)"
  unfolding vm_call_value_def xwp_bind [of "vm_top _"]
proof (rule vok_top)
  fix v
  have "vok (xbind (vm_object a) (vm_call_object sz clk argc a)) s (called s)" for a
    unfolding xwp_bind by (rule vok_object) (rule call_object_called [OF c])
  then show "vok (case v of VObj a \<Rightarrow> xbind (vm_object a) (vm_call_object sz clk argc a)
      | _ \<Rightarrow> vm_error_outcome kErrNotCallable) s (called s)"
    using error_outcome_called [OF c] by (cases v) (simp_all only: gvalue.case)
qed

lemma steps_call: "steps (step_call sz clk)"
proof -
  have "steps (xbind (vm_call_value sz clk n) (\<lambda>r. xreturn (if r = CallError then Finished False else Running)))" for n
    unfolding steps_def
  proof (intro allI impI)
    fix s assume b: "based s"
    then have "callable n s" by (simp add: callable_def)
    note call_value_called [OF this]
    then show "vok (xbind (vm_call_value sz clk n) (\<lambda>r. xreturn (if r = CallError then Finished False else Running))) s ending"
      unfolding xwp_bind xwp_return by (rule vok_mono) (use b in \<open>auto simp: ending_def called_def\<close>)
  qed
  then show ?thesis unfolding step_call_def by (rule steps_bind [OF steady_read(1)])
qed

lemma steps_return: "steps (step_return 0)"
  unfolding steps_def
proof (intro allI impI)
  fix s assume b: "based s"
  show "vok (step_return 0) s ending"
    unfolding step_return_def xwp_bind [of "vm_top _"] xwp_bind [of vm_frame] xwp_bind [of "close_upvalues _"]
  proof (rule vok_top, rule vok_frame)
    fix v f
    assume f: "f = hd (vm_frames s)"
    let ?rest = "xseq (xmod (\<lambda>s. s\<lparr>vm_frames := tl (vm_frames s)\<rparr>))
       (xbind (xget (\<lambda>s. length (vm_frames s))) (\<lambda>n.
        xseq (xmod (\<lambda>s. s\<lparr>vm_stack := take (cf_base f) (vm_stack s)\<rparr>))
          (if n = 0 then xseq (xmod (\<lambda>s. s\<lparr>vm_result := v\<rparr>)) (xreturn (Finished True))
           else running (vm_push v))))"
    show "vok (close_upvalues (cf_base f)) s (\<lambda>_ t. vok ?rest t ending)"
    proof (cases "tl (vm_frames s) = []")
      case True
      then have z: "cf_base f = 0" using b f by (cases "vm_frames s") (auto simp: based_def)
      show ?thesis
        by (rule vok_mono [OF close_result]) (simp add: True z ending_def at_rest_def)
    next
      case False
      show ?thesis
        by (rule vok_mono [OF close_result]) (use False b in \<open>simp add: running_def ending_def based_def vm_push_def last_tl\<close>)
    qed
  qed
qed

subsection \<open>The loop\<close>

lemma steps_op: "steps (step_op sz clk 0 op)"
  by (cases op; simp only: step_op_def opcode.simps)
    (rule steps_globals steps_small steps_index_set steps_closure steps_call steps_return
      | (intro steps_rules; simp add: jump_forward_def jump_back_def; intro steady_rules))+

lemma steps_step: "steps (vm_step sz clk 0)"
  unfolding vm_step_def by (intro steps_bind steady_read steady_basic steps_op)

lemma execute_ends:
  "based s \<Longrightarrow> vok (execute sz clk 0 n) s (\<lambda>ok t. if ok then at_rest t else based t \<and> vm_error t \<noteq> None)"
proof (induction n arbitrary: s)
  case (Suc n)
  have "vok (vm_step sz clk 0) s ending" using steps_step [of sz clk] Suc.prems by (simp add: steps_def)
  then show ?case
    unfolding execute.simps xwp_bind
  proof (rule vok_mono)
    fix r t assume e: "ending r t"
    show "vok (case r of Running \<Rightarrow> execute sz clk 0 n | Finished ok \<Rightarrow> xreturn ok) t
        (\<lambda>ok t. if ok then at_rest t else based t \<and> vm_error t \<noteq> None)"
    proof (cases r)
      case Running
      then have "based t" using e by (simp add: ending_def)
      from Suc.IH [OF this] show ?thesis by (simp only: Running step_result.case)
    next
      case (Finished ok)
      then show ?thesis using e by (cases ok) (simp_all add: ending_def)
    qed
  qed
qed (simp add: xwp_def)

subsection \<open>Entry points\<close>

lemma take_error_rests: "vm_error s \<noteq> None \<Longrightarrow> vok vm_take_error s (\<lambda>_. at_rest)"
proof -
  assume "vm_error s \<noteq> None"
  then obtain e where "vm_error s = Some e" by blast
  moreover have "vok (xseq (close_upvalues 0) (xseq (xmod (\<lambda>s. s\<lparr>vm_stack := [], vm_frames := []\<rparr>)) (xreturn e))) t
      (\<lambda>_. at_rest)" for t and e :: "runtime_error option"
    unfolding xwp_bind [of "close_upvalues _"] by (rule vok_mono [OF close_result]) (simp add: at_rest_def)
  ultimately show ?thesis
    unfolding vm_take_error_def xwp_bind [of "xget _"] xwp_get xwp_bind [of "xmod _"] xwp_mod by (simp del: xwp_bind)
qed

lemma finish_rests:
  assumes "based s"
  shows "vok (xbind (execute sz clk 0 n) (\<lambda>ok. if ok then xreturn x else xbind vm_take_error (\<lambda>e. xreturn (y e)))) s
    (\<lambda>_. at_rest)"
  unfolding xwp_bind [of "execute _ _ _ _"]
  by (rule vok_mono [OF execute_ends [OF assms]]) (auto simp: take_error_rests split: if_splits)

lemma load_based:
  assumes "at_rest s"
  shows "vok (vm_load sz p) s (\<lambda>r t. case r of Inl e \<Rightarrow> at_rest t | Inr _ \<Rightarrow> based t)"
proof (cases "compile_stack sz (vm_roots s) p (vm_heap s)")
  case (Ok x)
  obtain r h where x: "x = (r, h)" by (cases x)
  let ?k = "\<lambda>compiled. case compiled of
         Inl error \<Rightarrow> xreturn (Inl error)
       | Inr function \<Rightarrow>
           xseq (vm_push (VObj function))
             (xbind (vm_function function) (\<lambda>fo.
              xbind (vm_allocate sz (OClosure function (replicate (fo_upvalue_count fo) None))) (\<lambda>script.
              xseq (xmod (\<lambda>s. s\<lparr>vm_stack := [VObj script],
                  vm_frames := [\<lparr>cf_closure = script, cf_ip = 0, cf_base = 0\<rparr>], vm_uncounted := 1\<rparr>))
                (xreturn (Inr ())))))"
  have c: "vm_compile sz p s = Ok (r, s\<lparr>vm_heap := h\<rparr>)" by (simp add: vm_compile_def Ok x)
  have "vok (?k r) (s\<lparr>vm_heap := h\<rparr>) (\<lambda>r t. case r of Inl e \<Rightarrow> at_rest t | Inr _ \<Rightarrow> based t)"
  proof (cases r)
    case (Inl e)
    then show ?thesis using assms by (simp add: at_rest_def)
  next
    case (Inr f)
    have "vok (vm_allocate sz ob) t (\<lambda>a t. based (t\<lparr>vm_stack := [VObj a],
        vm_frames := [\<lparr>cf_closure = a, cf_ip = 0, cf_base = 0\<rparr>], vm_uncounted := 1\<rparr>))" for ob t
      by (simp add: xwp_def vm_allocate_def based_def split: prod.split)
    then show ?thesis by (auto simp: Inr vm_push_def intro!: vok_function)
  qed
  then show ?thesis unfolding vm_load_def by (rule vok_ok [where m = "vm_compile sz p", OF c])
qed (simp_all add: vm_load_def xwp_def xbind_def vm_compile_def)

lemma run_rests: "at_rest s \<Longrightarrow> vok (stack_run sz clk n p) s (\<lambda>_. at_rest)"
  unfolding stack_run_def xwp_bind [of "vm_load _ _"]
proof (rule vok_mono [OF load_based], assumption)
  fix r :: "compile_error + unit" and t
  assume r: "case r of Inl e \<Rightarrow> at_rest t | Inr _ \<Rightarrow> based t"
  show "vok (case r of Inl error \<Rightarrow> xreturn (Inl error)
     | Inr _ \<Rightarrow> xbind (execute sz clk 0 n) (\<lambda>ok.
         if ok then xreturn (Inr None) else xbind vm_take_error (\<lambda>e. xreturn (Inr e)))) t (\<lambda>_. at_rest)"
  proof (cases r)
    case (Inl e)
    then show ?thesis using r by simp
  next
    case (Inr u)
    then have "based t" using r by simp
    then show ?thesis unfolding Inr sum.case by (rule finish_rests)
  qed
qed

end
