(* ===== verification/Stack_Session.thy ===== *)
theory Stack_Session
  imports Stack_Rest "HOL-Library.Code_Target_Nat"
begin

text \<open>
  What a host sees of the bytecode machine: it may construct it, run programs and call globals in any
  order. The states between these calls, and every state inside a run, are the reachable ones.
\<close>

declare xwp_simps [simp]

subsection \<open>Calling a global\<close>

lemma vok_intern:
  assumes inv: "vm_inv s"
    and Q: "\<And>a h. vm_inv (s\<lparr>vm_heap := h\<rparr>) \<Longrightarrow> Q a (s\<lparr>vm_heap := h\<rparr>)"
  shows "vok (vm_intern sz name) s Q"
proof -
  obtain a h where "intern sz (vm_roots s) name (vm_heap s) = (a, h)" by fastforce
  then show ?thesis using Q [OF inv_intern(1) [OF inv]] by (simp add: xwp_def vm_intern_def)
qed

lemma keeps_call_finish:
  assumes inv: "vm_inv s"
  shows "keeps_inv (vm_call_finish sz clk fuel stop_frames c) s"
proof (cases c)
  case CallError
  then show ?thesis using keeps_take_error [OF inv] by (simp add: vm_call_finish_def)
next
  case PushedFrame
  show ?thesis
    unfolding PushedFrame vm_call_finish_def call_outcome.case xwp_bind [of "execute _ _ _ _"]
    by (rule vok_mono [OF keeps_execute [OF inv]]) (simp add: keeps_take_error)
next
  case NativeDone
  have "vm_inv (s\<lparr>vm_stack := []\<rparr>)" using inv_take [OF inv, of 0] by simp
  then show ?thesis by (simp add: NativeDone vm_call_finish_def vm_top_def)
qed

lemma keeps_call_global:
  assumes inv: "vm_inv s"
  shows "keeps_inv (vm_call_global sz clk fuel name) s"
  unfolding vm_call_global_def xwp_bind [of "vm_intern _ _"]
proof (rule vok_intern [OF inv])
  fix a h
  let ?s = "s\<lparr>vm_heap := h\<rparr>"
  assume i: "vm_inv ?s"
  show "keeps_inv (xbind (xget (\<lambda>s. map_of (vm_globals s) a)) (\<lambda>found.
       case found of
         None \<Rightarrow> xreturn (VNil, Some \<lparr>re_line = 0, re_message = undefined_variable_message name\<rparr>)
       | Some callee \<Rightarrow>
           xseq (xmod (\<lambda>s. s\<lparr>vm_uncounted := 0\<rparr>))
             (xbind (xget (\<lambda>s. length (vm_frames s))) (\<lambda>stop_frames.
              xseq (vm_push callee)
                (xbind (vm_call_value sz clk 0) (vm_call_finish sz clk fuel stop_frames)))))) ?s"
    unfolding xwp_bind [of "xget _"] xwp_get
  proof (cases "map_of (vm_globals ?s) a")
    case (Some v)
    have u: "vm_inv (?s\<lparr>vm_uncounted := 0\<rparr>)" by (rule inv_small(5) [OF i])
    have "live_value (?s\<lparr>vm_uncounted := 0\<rparr>) v" using held_live_value [OF globals_held [OF i Some]] by (simp add: live_value_def)
    then have "keeps_inv (xseq (vm_push v) (xbind (vm_call_value sz clk 0) (vm_call_finish sz clk fuel n))) (?s\<lparr>vm_uncounted := 0\<rparr>)" for n
      unfolding xwp_bind by (rule vok_push [OF u]) (rule vok_mono [OF keeps_call_value], assumption, rule keeps_call_finish)
    then show "keeps_inv (case map_of (vm_globals ?s) a of
         None \<Rightarrow> xreturn (VNil, Some \<lparr>re_line = 0, re_message = undefined_variable_message name\<rparr>)
       | Some callee \<Rightarrow>
           xseq (xmod (\<lambda>s. s\<lparr>vm_uncounted := 0\<rparr>))
             (xbind (xget (\<lambda>s. length (vm_frames s))) (\<lambda>stop_frames.
              xseq (vm_push callee)
                (xbind (vm_call_value sz clk 0) (vm_call_finish sz clk fuel stop_frames))))) ?s"
      unfolding Some option.case xwp_bind [of "xmod _"] xwp_mod xwp_bind [of "xget _"] xwp_get .
  qed (use i in simp)
qed

lemma call_global_rests:
  assumes "at_rest s"
  shows "vok (vm_call_global sz clk fuel name) s (\<lambda>_. at_rest)"
proof -
  obtain a h where i: "vm_intern sz name s = Ok (a, s\<lparr>vm_heap := h\<rparr>)"
    by (cases "intern sz (vm_roots s) name (vm_heap s)") (simp add: vm_intern_def)
  let ?s = "s\<lparr>vm_heap := h, vm_uncounted := 0\<rparr>"
  have "vok (xseq (vm_push v) (xbind (vm_call_value sz clk 0) (vm_call_finish sz clk fuel 0))) ?s (\<lambda>_. at_rest)" for v
  proof -
    let ?t = "?s\<lparr>vm_stack := [v]\<rparr>"
    have "callable 0 ?t" using assms by (simp add: callable_def at_rest_def)
    have "vok (vm_call_finish sz clk fuel 0 c) u (\<lambda>_. at_rest)" if "called ?t c u" for c u
    proof (cases c)
      case CallError
      then show ?thesis using that take_error_rests by (simp add: called_def vm_call_finish_def)
    next
      case PushedFrame
      then have "based u" using that by (simp add: called_def)
      have "vok (xbind (execute sz clk 0 fuel) (\<lambda>ok. if ok then xbind (xget vm_result) (\<lambda>v. xreturn (v, None))
          else xbind vm_take_error (\<lambda>e. xreturn (VNil, e)))) u (\<lambda>_. at_rest)"
        unfolding xwp_bind [of "execute _ _ _ _"]
        by (rule vok_mono [OF execute_ends [OF \<open>based u\<close>]]) (auto simp: take_error_rests split: if_splits)
      then show ?thesis by (simp only: PushedFrame vm_call_finish_def call_outcome.case)
    next
      case NativeDone
      then show ?thesis using that assms by (simp add: called_def vm_call_finish_def vm_top_def at_rest_def)
    qed
    then have "vok (xbind (vm_call_value sz clk 0) (vm_call_finish sz clk fuel 0)) ?t (\<lambda>_. at_rest)"
      unfolding xwp_bind by (rule vok_mono [OF call_value_called [OF \<open>callable 0 ?t\<close>]])
    then show ?thesis using assms by (simp add: at_rest_def vm_push_def)
  qed
  then have "vok (xbind (xget (\<lambda>s. map_of (vm_globals s) a)) (\<lambda>found.
       case found of
         None \<Rightarrow> xreturn (VNil, Some \<lparr>re_line = 0, re_message = undefined_variable_message name\<rparr>)
       | Some callee \<Rightarrow>
           xseq (xmod (\<lambda>s. s\<lparr>vm_uncounted := 0\<rparr>))
             (xbind (xget (\<lambda>s. length (vm_frames s))) (\<lambda>stop_frames.
              xseq (vm_push callee)
                (xbind (vm_call_value sz clk 0) (vm_call_finish sz clk fuel stop_frames))))))
      (s\<lparr>vm_heap := h\<rparr>) (\<lambda>_. at_rest)"
    using assms by (simp add: at_rest_def split: option.split)
  then show ?thesis
    unfolding vm_call_global_def by (rule vok_ok [where m = "vm_intern sz name", OF i])
qed

subsection \<open>Sessions\<close>

inductive vm_session :: "(obj \<Rightarrow> nat) \<Rightarrow> (nat \<Rightarrow> double) \<Rightarrow> stack_vm \<Rightarrow> bool" for sz clk where
  start: "vm_session sz clk (init_vm sz (empty_heap\<lparr>hp_stress := b\<rparr>))"
| run: "vm_session sz clk s \<Longrightarrow> stack_run sz clk n p s = Ok (r, s') \<Longrightarrow> vm_session sz clk s'"
| call: "vm_session sz clk s \<Longrightarrow> vm_call_global sz clk n name s = Ok (v, s') \<Longrightarrow> vm_session sz clk s'"

text \<open>The states inside a run or a call, between two instructions.\<close>

inductive vm_running :: "(obj \<Rightarrow> nat) \<Rightarrow> (nat \<Rightarrow> double) \<Rightarrow> stack_vm \<Rightarrow> bool" for sz clk where
  loaded: "vm_session sz clk s \<Longrightarrow> vm_load sz p s = Ok (Inr u, s') \<Longrightarrow> vm_running sz clk s'"
| entered: "vm_session sz clk s \<Longrightarrow> map_of (vm_globals s) name = Some callee \<Longrightarrow>
    vm_call_value sz clk 0 (s\<lparr>vm_uncounted := 0, vm_stack := [callee]\<rparr>) = Ok (PushedFrame, s') \<Longrightarrow> vm_running sz clk s'"
| stepped: "vm_running sz clk s \<Longrightarrow> vm_step sz clk 0 s = Ok (Running, s') \<Longrightarrow> vm_running sz clk s'"

inductive_cases vm_runningE: "vm_running sz clk s"

lemma vok_result: "vok m s Q \<Longrightarrow> m s = Ok (x, t) \<Longrightarrow> Q x t"
  by (simp add: xwp_def)

lemma define_native_rests: "at_rest s \<Longrightarrow> at_rest (vm_define_native sz name v s)"
  by (simp add: vm_define_native_def at_rest_def split: prod.split)

lemma register_native_rests:
  assumes "at_rest s"
  shows "at_rest (register_native sz vm_heap (\<lambda>h s. s\<lparr>vm_heap := h\<rparr>) vm_roots (vm_define_native sz) spec s)"
proof -
  obtain name k f where spec: "spec = (name, k, f)" by (cases spec) auto
  obtain a h where al: "allocate sz (vm_roots s) (ONative name k f) (vm_heap s) = (a, h)" by fastforce
  have "at_rest (s\<lparr>vm_heap := h'\<rparr>)" for h' using assms by (simp add: at_rest_def)
  from define_native_rests [OF this] show ?thesis
    by (simp add: register_native_def spec al Let_def) (simp add: at_rest_def)
qed

lemma init_rests: "at_rest (init_vm sz h)"
proof -
  have "at_rest (empty_vm h)" by (simp add: at_rest_def empty_vm_def)
  then show ?thesis by (simp add: init_vm_def register_natives_def kSpecs_def register_native_rests)
qed

lemma session_ok: "vm_session sz clk s \<Longrightarrow> vm_inv s \<and> at_rest s"
proof (induction rule: vm_session.induct)
  case (start b)
  then show ?case using init_vm_inv init_rests by blast
next
  case (run s n p r s')
  then show ?case using vok_result [OF keeps_run run(2)] vok_result [OF run_rests run(2)] by blast
next
  case (call s n name v s')
  then show ?case using vok_result [OF keeps_call_global call(2)] vok_result [OF call_global_rests call(2)] by blast
qed

lemma running_ok: "vm_running sz clk s \<Longrightarrow> vm_inv s \<and> based s"
proof (induction rule: vm_running.induct)
  case (loaded s p u s')
  note s = session_ok [OF loaded(1)]
  show ?case
    using vok_result [OF keeps_load loaded(2)] vok_result [OF load_based loaded(2)] s by simp
next
  case (entered s name callee s')
  note s = session_ok [OF entered(1)]
  let ?s = "s\<lparr>vm_uncounted := 0, vm_stack := [callee]\<rparr>"
  have v: "live_value (s\<lparr>vm_uncounted := 0\<rparr>) callee"
    using held_live_value [OF globals_held [OF conjunct1 [OF s] entered(2)]] by (simp add: live_value_def)
  have "vm_inv ?s"
    using inv_push [OF inv_small(5) [OF conjunct1 [OF s]] v] s
    by (simp add: at_rest_def kStackSlots_def kTempSlack_def)
  moreover have "callable 0 ?s" using s by (simp add: callable_def at_rest_def)
  ultimately show ?case
    using vok_result [OF keeps_call_value entered(3)] vok_result [OF call_value_called entered(3)] by (simp add: called_def)
next
  case (stepped s s')
  have "vok (vm_step sz clk 0) s ending" using steps_step [of sz clk] stepped(3) by (simp add: steps_def)
  from vok_result [OF this stepped(2)] show ?case
    using vok_result [OF keeps_step stepped(2)] stepped(3) by (simp add: ending_def)
qed

subsection \<open>Properties\<close>

text \<open>A machine with one value on the stack, and the same with that slot captured.\<close>

definition demo_vm :: stack_vm where
  "demo_vm = (init_vm (\<lambda>_. 40) (empty_heap\<lparr>hp_stress := True\<rparr>))\<lparr>vm_stack := [VInt 7]\<rparr>"

lemma demo_vm_inv: "vm_inv demo_vm"
proof -
  let ?s = "init_vm (\<lambda>_. 40) (empty_heap\<lparr>hp_stress := True\<rparr>)"
  have "vm_stack ?s = []" using init_rests by (simp add: at_rest_def)
  then show ?thesis
    using inv_push [OF init_vm_inv [of "\<lambda>_. 40" True], of "VInt 7"]
    by (simp add: demo_vm_def kStackSlots_def kTempSlack_def)
qed

lemma demo_captured:
  obtains up s' where "capture_upvalue (\<lambda>_. 40) 0 demo_vm = Ok (up, s')" "vm_inv s'" "vm_open s' = [up]"
proof -
  have "case capture_upvalue (\<lambda>_. 40) 0 demo_vm of Ok (up, s) \<Rightarrow> vm_open s = [up] | _ \<Rightarrow> False" by code_simp
  then obtain up s' where c: "capture_upvalue (\<lambda>_. 40) 0 demo_vm = Ok (up, s')" "vm_open s' = [up]"
    by (auto split: outcome.splits)
  have "captured demo_vm 0 up s'" by (rule vok_result [OF vok_capture [OF demo_vm_inv] c(1)])
  then have "vm_inv s'" by (simp add: captured_def)
  with c that show thesis by blast
qed



text \<open>C28. A host may construct the machine, run programs, also failing ones, and call globals, in any
  order: after each of these the value stack, the frames and the open list are empty, and the heap is
  sound with everything the machine marks live.\<close>

theorem stack_vm_at_rest:
  assumes "vm_session sz clk s"
  shows "vm_stack s = [] \<and> vm_frames s = [] \<and> vm_open s = [] \<and> gc_live (vm_heap s) (vm_roots s)"
  using session_ok [OF assms] by (simp add: at_rest_def vm_inv_def)

theorem stack_vm_at_rest_witness:
  "\<exists>s. vm_session (\<lambda>_. 40) (\<lambda>_. 0) s \<and> vm_out s = ''nil'' @ [newline] \<and> vm_stack s = [] \<and> vm_frames s = []"
proof -
  let ?p = "\<lparr>pr_source = ''print nil;'', pr_tokens = [], pr_statements = [SPrint (ELiteral LitNil 1) 1]\<rparr>"
  let ?s0 = "init_vm (\<lambda>_. 40) (empty_heap\<lparr>hp_stress := True\<rparr>)"
  have "case stack_run (\<lambda>_. 40) (\<lambda>_. 0) 9 ?p ?s0 of Ok (r, s) \<Rightarrow> vm_out s = ''nil'' @ [newline] | _ \<Rightarrow> False"
    by code_simp
  then obtain r s where r: "stack_run (\<lambda>_. 40) (\<lambda>_. 0) 9 ?p ?s0 = Ok (r, s)" "vm_out s = ''nil'' @ [newline]"
    by (auto split: outcome.splits)
  have "vm_session (\<lambda>_. 40) (\<lambda>_. 0) s" by (rule vm_session.run [OF vm_session.start r(1)])
  with stack_vm_at_rest [OF this] r(2) show ?thesis by blast
qed

text \<open>C29. Closing the upvalues from a slot on loses no variable: every upvalue reads the same value
  before and after, the ones still open are below the slot, no object disappears, and the machine is
  otherwise as it was.\<close>

theorem close_upvalues_keeps_values:
  assumes "vm_inv s" "close_upvalues i s = Ok (u, s')"
  shows "vm_inv s' \<and> s' = s\<lparr>vm_heap := vm_heap s', vm_open := vm_open s'\<rparr> \<and>
    upvalue_value (vm_heap s') (vm_stack s) up = upvalue_value (vm_heap s) (vm_stack s) up \<and>
    (open_at (vm_heap s') up j \<longrightarrow> j < i) \<and> (obj_at (vm_heap s') a = None \<longleftrightarrow> obj_at (vm_heap s) a = None)"
proof -
  have "closed_from i s s'" by (rule vok_result [OF vok_close [OF assms(1)] assms(2)])
  then show ?thesis unfolding closed_from_def by blast
qed

theorem close_upvalues_keeps_values_witness:
  "case xbind (capture_upvalue (\<lambda>_. 40) 0) (\<lambda>up. xseq (close_upvalues 0) (xreturn up)) demo_vm of
     Ok (up, s') \<Rightarrow> upvalue_value (vm_heap s') [VInt 7] up = Some (VInt 7) \<and> vm_inv s' | _ \<Rightarrow> False"
proof -
  have v: "case xbind (capture_upvalue (\<lambda>_. 40) 0) (\<lambda>up. xseq (close_upvalues 0) (xreturn up)) demo_vm of
     Ok (up, s') \<Rightarrow> upvalue_value (vm_heap s') [VInt 7] up = Some (VInt 7) | _ \<Rightarrow> False" by code_simp
  obtain up s' where c: "capture_upvalue (\<lambda>_. 40) 0 demo_vm = Ok (up, s')" "vm_inv s'" by (rule demo_captured)
  with v obtain u t where "close_upvalues 0 s' = Ok (u, t)" "upvalue_value (vm_heap t) [VInt 7] up = Some (VInt 7)"
    by (cases "close_upvalues 0 s'") (auto simp: xbind_def xreturn_def)
  with close_upvalues_keeps_values [OF c(2) this(1)] c(1) show ?thesis by (simp add: xbind_def xreturn_def)
qed

text \<open>C30. Capturing a slot gives the one upvalue that is open there: two closures over a variable
  share it, and a new one takes its place in the order of the open list.\<close>

theorem capture_upvalue_shared:
  assumes "vm_inv s" "capture_upvalue sz i s = Ok (up, s')"
  shows "vm_inv s' \<and> open_at (vm_heap s') up i \<and> (\<forall>b. open_at (vm_heap s) b i \<longrightarrow> b = up) \<and>
    (\<forall>b. open_at (vm_heap s') b i \<longrightarrow> b = up)"
proof -
  have c: "captured s i up s'" by (rule vok_result [OF vok_capture [OF assms(1)] assms(2)])
  then have s': "vm_inv s'" "open_at (vm_heap s') up i"
    and same: "\<And>b. held (vm_heap s) (vm_roots s) b \<Longrightarrow> obj_at (vm_heap s') b = obj_at (vm_heap s) b"
    by (simp_all add: captured_def)
  have unique: "b = up" if "open_at (vm_heap s') b i" for b
    using open_at_unique s' that by (auto simp: vm_inv_def)
  have "b = up" if "open_at (vm_heap s) b i" for b
  proof -
    have "b \<in> set (vm_open s)" using assms(1) that unfolding vm_inv_def opens_ok_def open_at_def by fastforce
    then have "obj_at (vm_heap s') b = obj_at (vm_heap s) b"
      using inv_root_held [OF assms(1)] by (intro same) (simp add: root_cases)
    then show ?thesis using unique that by (simp add: open_at_def)
  qed
  then show ?thesis using s' unique by blast
qed

theorem capture_upvalue_shared_witness:
  "case capture_upvalue (\<lambda>_. 40) 0 demo_vm of
     Ok (up, s) \<Rightarrow> (case capture_upvalue (\<lambda>_. 40) 0 s of Ok (b, t) \<Rightarrow> b = up \<and> vm_inv t | _ \<Rightarrow> False) | _ \<Rightarrow> False"
proof -
  have v: "case capture_upvalue (\<lambda>_. 40) 0 demo_vm of
     Ok (up, s) \<Rightarrow> (case capture_upvalue (\<lambda>_. 40) 0 s of Ok (b, t) \<Rightarrow> True | _ \<Rightarrow> False) | _ \<Rightarrow> False" by code_simp
  obtain up s where c: "capture_upvalue (\<lambda>_. 40) 0 demo_vm = Ok (up, s)" "vm_inv s" by (rule demo_captured)
  with v obtain b t where d: "capture_upvalue (\<lambda>_. 40) 0 s = Ok (b, t)" by (auto split: outcome.splits)
  have "open_at (vm_heap s) up 0" using capture_upvalue_shared [OF demo_vm_inv c(1)] by blast
  with capture_upvalue_shared [OF c(2) d] have "up = b" "vm_inv t" by blast+
  then show ?thesis by (simp add: c(1) d)
qed

end
