(* ===== verification/Reg_Compiler.thy ===== *)
theory Reg_Compiler
  imports Stack_Compiler
begin

text \<open>
  \<open>compiler_reg.h\<close> and \<open>compiler_reg.cpp\<close>: the single-pass compiler from the resolved tree to
  register code. Locals own the first registers of a frame, temporaries are handed out above them,
  and an expression is compiled into a destination register. The functions under construction are a
  list, innermost first; \<open>roots\<close> are the addresses that the other root markers mark. As for the stack
  compiler, a failed assertion is \<open>Stuck\<close> and a thrown error carries the heap it leaves behind.
\<close>

subsection \<open>The state\<close>

text \<open>\<open>rf_constants\<close>: the pool index of each constant by its type tag and its bits; a string's bits
  are its address.\<close>

record reg_state =
  rf_function :: addr
  rf_locals :: "clocal list"
  rf_upvalues :: "upvalue_ref list"
  rf_scope_depth :: nat
  rf_free :: nat
  rf_constants :: "((nat \<times> nat) \<times> nat) list"

record reg_compiler =
  rg_heap :: heap
  rg_current :: "reg_state list"
  rg_fused :: nat

type_synonym 'a rm = "(reg_compiler, compile_stop, 'a) exec"

text \<open>An operand that may be a register or, with the flag, a constant.\<close>

record rk_operand =
  rk_index :: nat
  rk_const :: bool

datatype local_ref = InRegister nat | InUpvalue nat

definition rcompiler_roots :: "reg_compiler \<Rightarrow> addr list" where
  "rcompiler_roots s = map rf_function (rg_current s)"

definition r_too_large :: "nat \<Rightarrow> 'a rm" where
  "r_too_large line = xstop (\<lambda>s. TooLarge \<lparr>ce_line = line, ce_message = ''function too large''\<rparr> (rg_heap s))"

definition r_allocate :: "(obj \<Rightarrow> nat) \<Rightarrow> addr list \<Rightarrow> obj \<Rightarrow> addr rm" where
  "r_allocate sz roots ob s =
     (let (a, h) = allocate sz (roots @ rcompiler_roots s) ob (rg_heap s) in Ok (a, s\<lparr>rg_heap := h\<rparr>))"

definition r_intern :: "(obj \<Rightarrow> nat) \<Rightarrow> addr list \<Rightarrow> string \<Rightarrow> addr rm" where
  "r_intern sz roots bytes s =
     (let (a, h) = intern sz (roots @ rcompiler_roots s) bytes (rg_heap s) in Ok (a, s\<lparr>rg_heap := h\<rparr>))"

definition r_current :: "reg_state rm" where
  "r_current = xbind (xget rg_current) (\<lambda>fs. case fs of [] \<Rightarrow> xstop (\<lambda>_. Stuck) | f # _ \<Rightarrow> xreturn f)"

definition r_update :: "(reg_state \<Rightarrow> reg_state) \<Rightarrow> unit rm" where
  "r_update g =
     xbind (xget rg_current) (\<lambda>fs.
       case fs of [] \<Rightarrow> xstop (\<lambda>_. Stuck) | f # rest \<Rightarrow> xmod (\<lambda>s. s\<lparr>rg_current := g f # rest\<rparr>))"

definition r_get_function :: "addr \<Rightarrow> function_object rm" where
  "r_get_function a =
     xbind (xget (\<lambda>s. obj_at (rg_heap s) a)) (\<lambda>ob.
       case ob of Some (OFunction f) \<Rightarrow> xreturn f | _ \<Rightarrow> xstop (\<lambda>_. Stuck))"

definition r_set_function :: "addr \<Rightarrow> (function_object \<Rightarrow> function_object) \<Rightarrow> unit rm" where
  "r_set_function a g =
     xbind (r_get_function a) (\<lambda>f. xmod (\<lambda>s. s\<lparr>rg_heap := set_obj a (OFunction (g f)) (rg_heap s)\<rparr>))"

definition r_code :: "reg_chunk rm" where
  "r_code = xbind r_current (\<lambda>fs. xbind (r_get_function (rf_function fs)) (\<lambda>f. xreturn (fo_reg f)))"

definition r_set_code :: "(reg_chunk \<Rightarrow> reg_chunk) \<Rightarrow> unit rm" where
  "r_set_code g =
     xbind r_current (\<lambda>fs. r_set_function (rf_function fs) (\<lambda>f. f\<lparr>fo_reg := g (fo_reg f)\<rparr>))"

subsection \<open>Function setup, emission and temporaries\<close>

definition r_begin_function :: "(obj \<Rightarrow> nat) \<Rightarrow> addr list \<Rightarrow> string \<Rightarrow> unit rm" where
  "r_begin_function sz roots name =
     xbind
       (if name = [] then r_allocate sz roots (new_function None)
        else
          xbind (r_intern sz roots name) (\<lambda>interned.
          xbind (xmod (\<lambda>s. s\<lparr>rg_heap := push_temp (VObj interned) (rg_heap s)\<rparr>)) (\<lambda>_.
          xbind (r_allocate sz roots (new_function (Some interned))) (\<lambda>fn.
          xbind (xmod (\<lambda>s. s\<lparr>rg_heap := pop_temp (rg_heap s)\<rparr>)) (\<lambda>_. xreturn fn)))))
     (\<lambda>fn.
       xmod (\<lambda>s. s\<lparr>rg_current :=
         \<lparr>rf_function = fn, rf_locals = [], rf_upvalues = [], rf_scope_depth = 0, rf_free = 0,
          rf_constants = []\<rparr> # rg_current s\<rparr>))"

definition r_emit :: "instruction \<Rightarrow> nat \<Rightarrow> unit rm" where
  "r_emit insn line = r_set_code (\<lambda>c. snd (reg_emit insn line c))"

definition here :: "nat rm" where
  "here = xbind r_code (\<lambda>c. xreturn (length (rc_code c)))"

definition emit_abc :: "regop \<Rightarrow> nat \<Rightarrow> nat \<Rightarrow> nat \<Rightarrow> nat \<Rightarrow> unit rm" where
  "emit_abc op a b c line = r_emit (make_abc (rg_byte op) (of_nat a) (of_nat b) (of_nat c) 0) line"

definition emit_abx :: "regop \<Rightarrow> nat \<Rightarrow> nat \<Rightarrow> nat \<Rightarrow> unit rm" where
  "emit_abx op a bx line = r_emit (make_abx (rg_byte op) (of_nat a) (of_nat bx)) line"

definition emit_rk :: "regop \<Rightarrow> nat \<Rightarrow> rk_operand \<Rightarrow> rk_operand \<Rightarrow> nat \<Rightarrow> unit rm" where
  "emit_rk op a b c line =
     r_emit (make_abc (rg_byte op) (of_nat a) (of_nat (rk_index b)) (of_nat (rk_index c))
       ((if rk_const b then kFlagBConst else 0) OR (if rk_const c then kFlagCConst else 0))) line"

definition emit_rk_b :: "regop \<Rightarrow> nat \<Rightarrow> rk_operand \<Rightarrow> nat \<Rightarrow> unit rm" where
  "emit_rk_b op a b line =
     r_emit (make_abc (rg_byte op) (of_nat a) (of_nat (rk_index b)) 0
       (if rk_const b then kFlagBConst else 0)) line"

definition reserve :: "nat \<Rightarrow> nat rm" where
  "reserve line =
     xbind r_current (\<lambda>fs.
     let reg = rf_free fs in
     xseq (r_update (\<lambda>f. f\<lparr>rf_free := reg + 1\<rparr>))
       (if unat kMaxRegister < reg then r_too_large line
        else
          xseq (r_set_code (\<lambda>c. if rc_frame_size c < reg + 1 then c\<lparr>rc_frame_size := reg + 1\<rparr> else c))
            (xreturn reg)))"

definition free_reg :: "nat rm" where
  "free_reg = xbind r_current (\<lambda>fs. xreturn (rf_free fs))"

definition set_free_reg :: "nat \<Rightarrow> unit rm" where
  "set_free_reg reg = r_update (\<lambda>f. f\<lparr>rf_free := reg\<rparr>)"

subsection \<open>Constants\<close>

definition r_constant :: "nat \<Rightarrow> nat \<Rightarrow> value \<Rightarrow> nat rm" where
  "r_constant tag bits v =
     xbind r_current (\<lambda>fs.
       case map_of (rf_constants fs) (tag, bits) of
         Some index \<Rightarrow> xreturn index
       | None \<Rightarrow>
           xbind r_code (\<lambda>c.
           let index = length (rc_constants c) in
           xseq (r_set_code (\<lambda>c. snd (reg_add_constant v c)))
             (xseq (r_update (\<lambda>f. f\<lparr>rf_constants := ((tag, bits), index) # rf_constants f\<rparr>))
               (xreturn index))))"

definition r_string_constant :: "(obj \<Rightarrow> nat) \<Rightarrow> addr list \<Rightarrow> string \<Rightarrow> nat rm" where
  "r_string_constant sz roots bytes =
     xbind (r_intern sz roots bytes) (\<lambda>str. r_constant 4 str (VObj str))"

definition literal_constant :: "(obj \<Rightarrow> nat) \<Rightarrow> addr list \<Rightarrow> literal \<Rightarrow> nat rm" where
  "literal_constant sz roots lit =
     (case lit of
        LitNil \<Rightarrow> r_constant 0 0 VNil
      | LitBool b \<Rightarrow> r_constant 1 (if b then 1 else 0) (VBool b)
      | LitInt i \<Rightarrow> r_constant 2 (unat i) (VInt i)
      | LitFloat d \<Rightarrow> r_constant 3 (unat d) (VFloat d)
      | LitString str \<Rightarrow> r_string_constant sz roots str)"

subsection \<open>Jumps\<close>

definition kMaxInt32 :: nat where "kMaxInt32 = 2147483647"

definition r_emit_jump :: "regop \<Rightarrow> nat \<Rightarrow> nat \<Rightarrow> nat rm" where
  "r_emit_jump op reg line =
     xseq (r_emit (make_asbx (rg_byte op) (of_nat reg) 0) line)
       (xbind here (\<lambda>n. xreturn (n - 1)))"

definition set_jump :: "nat \<Rightarrow> 32 word \<Rightarrow> reg_chunk \<Rightarrow> reg_chunk" where
  "set_jump jump distance c =
     c\<lparr>rc_code := (rc_code c)[jump :=
       make_asbx (insn_op (rc_code c ! jump)) (insn_a (rc_code c ! jump)) distance]\<rparr>"

definition r_patch_jump :: "nat \<Rightarrow> nat \<Rightarrow> unit rm" where
  "r_patch_jump jump line =
     xbind here (\<lambda>n.
       let distance = n - (jump + 1)
       in if kMaxInt32 < distance then r_too_large line
          else r_set_code (set_jump jump (of_nat distance)))"

definition r_emit_loop :: "nat \<Rightarrow> nat \<Rightarrow> unit rm" where
  "r_emit_loop target line =
     xbind here (\<lambda>n.
       let distance = n + 1 - target
       in if kMaxInt32 < distance then r_too_large line
          else r_emit (make_asbx (rg_byte RgJump) 0 (- of_nat distance)) line)"

subsection \<open>Locals and upvalues\<close>

definition r_at_global_scope :: "reg_compiler \<Rightarrow> bool" where
  "r_at_global_scope s \<longleftrightarrow> (case rg_current s of [fs] \<Rightarrow> rf_scope_depth fs = 0 | _ \<Rightarrow> False)"

definition local_count :: "nat rm" where
  "local_count = xbind r_current (\<lambda>fs. xreturn (length (rf_locals fs)))"

definition r_add_local :: "string \<Rightarrow> unit rm" where
  "r_add_local name =
     xbind r_current (\<lambda>fs.
     xseq (xassert Stuck (length (rf_locals fs) < 255))
       (xseq (xassert Stuck (rf_free fs = length (rf_locals fs) + 1))
         (r_update (\<lambda>f. f\<lparr>rf_locals :=
            rf_locals f @ [\<lparr>lc_name = name, lc_depth = rf_scope_depth f, lc_captured = False\<rparr>]\<rparr>))))"

text \<open>The search from the newest local down to register 0.\<close>

fun find_register :: "clocal list \<Rightarrow> string \<Rightarrow> nat \<Rightarrow> nat option" where
  "find_register locals name 0 = None"
| "find_register locals name (Suc i) =
     (if lc_name (locals ! i) = name then Some i else find_register locals name i)"

definition r_resolve_local :: "reg_state \<Rightarrow> string \<Rightarrow> nat option" where
  "r_resolve_local fn name = find_register (rf_locals fn) name (length (rf_locals fn))"

definition r_add_upvalue :: "reg_state \<Rightarrow> byte \<Rightarrow> bool \<Rightarrow> (nat \<times> reg_state) option" where
  "r_add_upvalue fn index is_local =
     (let u = \<lparr>ur_index = index, ur_is_local = is_local\<rparr>
      in case find_upvalue (rf_upvalues fn) u 0 of
           Some i \<Rightarrow> Some (i, fn)
         | None \<Rightarrow>
             if length (rf_upvalues fn) < 255
             then Some (length (rf_upvalues fn), fn\<lparr>rf_upvalues := rf_upvalues fn @ [u]\<rparr>)
             else None)"

definition r_capture_local :: "nat \<Rightarrow> reg_state \<Rightarrow> reg_state" where
  "r_capture_local i fn = fn\<lparr>rf_locals := (rf_locals fn)[i := (rf_locals fn ! i)\<lparr>lc_captured := True\<rparr>]\<rparr>"

text \<open>The outer option is a failed assertion, the inner one \<open>-1\<close>.\<close>

fun r_resolve_upvalue :: "string \<Rightarrow> reg_state list \<Rightarrow> (nat option \<times> reg_state list) option" where
  "r_resolve_upvalue name (fn # enclosing # rest) =
     (case r_resolve_local enclosing name of
        Some l \<Rightarrow>
          map_option (\<lambda>(i, fn). (Some i, fn # r_capture_local l enclosing # rest)) (r_add_upvalue fn (of_nat l) True)
      | None \<Rightarrow>
          (case r_resolve_upvalue name (enclosing # rest) of
             None \<Rightarrow> None
           | Some (None, outer) \<Rightarrow> Some (None, fn # outer)
           | Some (Some u, outer) \<Rightarrow>
               map_option (\<lambda>(i, fn). (Some i, fn # outer)) (r_add_upvalue fn (of_nat u) False)))"
| "r_resolve_upvalue name fs = Some (None, fs)"

definition r_find_local :: "string \<Rightarrow> local_ref rm" where
  "r_find_local name =
     xbind r_current (\<lambda>fs.
       case r_resolve_local fs name of
         Some reg \<Rightarrow> xreturn (InRegister reg)
       | None \<Rightarrow>
           xbind (xget rg_current) (\<lambda>chain.
           xbind (xthe Stuck (r_resolve_upvalue name chain)) (\<lambda>(upvalue, chain).
           xseq (xmod (\<lambda>s. s\<lparr>rg_current := chain\<rparr>))
             (xbind (xthe Stuck upvalue) (\<lambda>u. xreturn (InUpvalue u))))))"

text \<open>The loop of \<open>end_scope\<close> over the locals, newest first: those that stay, and the lowest captured
  one of those that went.\<close>

fun drop_locals :: "nat \<Rightarrow> clocal list \<Rightarrow> nat option \<Rightarrow> clocal list \<times> nat option" where
  "drop_locals depth [] captured = ([], captured)"
| "drop_locals depth (l # older) captured =
     (if depth < lc_depth l
      then drop_locals depth older (if lc_captured l then Some (length older) else captured)
      else (l # older, captured))"

definition r_end_scope :: "nat \<Rightarrow> unit rm" where
  "r_end_scope line =
     xseq (r_update (\<lambda>f. f\<lparr>rf_scope_depth := rf_scope_depth f - 1\<rparr>))
       (xbind r_current (\<lambda>fs.
        let (kept, first_captured) = drop_locals (rf_scope_depth fs) (rev (rf_locals fs)) None in
        xseq (r_update (\<lambda>f. f\<lparr>rf_locals := rev kept\<rparr>))
          (xseq (case first_captured of None \<Rightarrow> xreturn () | Some i \<Rightarrow> emit_abc RgClose i 0 0 line)
            (set_free_reg (length kept)))))"

subsection \<open>Expressions\<close>

fun may_clobber_locals :: "expr \<Rightarrow> bool" where
  "may_clobber_locals (ELiteral lit line) = False"
| "may_clobber_locals (EVariable x b line) = False"
| "may_clobber_locals (EAssign x e b line) =
     ((case b of LocalBinding hops \<Rightarrow> True | _ \<Rightarrow> False) \<or> may_clobber_locals e)"
| "may_clobber_locals (EUnary op e line) = may_clobber_locals e"
| "may_clobber_locals (EBinary op l r line) = (may_clobber_locals l \<or> may_clobber_locals r)"
| "may_clobber_locals (ELogical op l r line) = (may_clobber_locals l \<or> may_clobber_locals r)"
| "may_clobber_locals (ECall f args line) = True"
| "may_clobber_locals (EArrayLiteral es line) = list_ex may_clobber_locals es"
| "may_clobber_locals (EIndex ob i line) = (may_clobber_locals ob \<or> may_clobber_locals i)"
| "may_clobber_locals (EIndexAssign ob i v line) =
     (may_clobber_locals ob \<or> may_clobber_locals i \<or> may_clobber_locals v)"

fun line_of :: "expr \<Rightarrow> nat" where
  "line_of (ELiteral lit line) = line"
| "line_of (EVariable x b line) = line"
| "line_of (EAssign x e b line) = line"
| "line_of (EUnary op e line) = line"
| "line_of (EBinary op l r line) = line"
| "line_of (ELogical op l r line) = line"
| "line_of (ECall f args line) = line"
| "line_of (EArrayLiteral es line) = line"
| "line_of (EIndex ob i line) = line"
| "line_of (EIndexAssign ob i v line) = line"

definition register_operand :: "nat \<Rightarrow> rk_operand" where
  "register_operand reg = \<lparr>rk_index = reg, rk_const = False\<rparr>"

text \<open>The pieces below take the compilation of a subexpression into a register as an argument.\<close>

definition into_temp :: "(nat \<Rightarrow> unit rm) \<Rightarrow> nat \<Rightarrow> rk_operand rm" where
  "into_temp compile line = xbind (reserve line) (\<lambda>temp. xseq (compile temp) (xreturn (register_operand temp)))"

definition operand :: "(obj \<Rightarrow> nat) \<Rightarrow> addr list \<Rightarrow> (nat \<Rightarrow> unit rm) \<Rightarrow> expr \<Rightarrow> bool \<Rightarrow> bool \<Rightarrow> rk_operand rm" where
  "operand sz roots compile e allow_const snapshot =
     (case e of
        ELiteral lit line \<Rightarrow>
          if allow_const
          then xbind (literal_constant sz roots lit) (\<lambda>index.
            if index \<le> unat kMaxRkConstant then xreturn \<lparr>rk_index = index, rk_const = True\<rparr>
            else into_temp compile line)
          else into_temp compile line
      | EVariable x (LocalBinding hops) line \<Rightarrow>
          if \<not> snapshot
          then xbind (r_find_local (sv_text x)) (\<lambda>ref.
            case ref of InRegister reg \<Rightarrow> xreturn (register_operand reg)
            | InUpvalue u \<Rightarrow> into_temp compile line)
          else into_temp compile line
      | _ \<Rightarrow> into_temp compile (line_of e))"

definition move_operand_to :: "nat \<Rightarrow> rk_operand \<Rightarrow> nat \<Rightarrow> unit rm" where
  "move_operand_to dest src line =
     (if rk_const src then emit_abx RgLoadK dest (rk_index src) line
      else if rk_index src \<noteq> dest then emit_abc RgMove dest (rk_index src) 0 line
      else xreturn ())"

definition r_literal :: "(obj \<Rightarrow> nat) \<Rightarrow> addr list \<Rightarrow> literal \<Rightarrow> nat \<Rightarrow> nat \<Rightarrow> unit rm" where
  "r_literal sz roots lit line dest =
     (case lit of
        LitNil \<Rightarrow> emit_abc RgLoadNil dest 0 0 line
      | LitBool b \<Rightarrow> emit_abc (if b then RgLoadTrue else RgLoadFalse) dest 0 0 line
      | _ \<Rightarrow> xbind (literal_constant sz roots lit) (\<lambda>k. emit_abx RgLoadK dest k line))"

definition r_variable :: "(obj \<Rightarrow> nat) \<Rightarrow> addr list \<Rightarrow> sview \<Rightarrow> binding \<Rightarrow> nat \<Rightarrow> nat \<Rightarrow> unit rm" where
  "r_variable sz roots x b line dest =
     (case b of
        GlobalBinding \<Rightarrow> xbind (r_string_constant sz roots (sv_text x)) (\<lambda>k. emit_abx RgGetGlobal dest k line)
      | LocalBinding hops \<Rightarrow>
          xbind (r_find_local (sv_text x)) (\<lambda>ref.
            case ref of
              InRegister reg \<Rightarrow> move_operand_to dest (register_operand reg) line
            | InUpvalue u \<Rightarrow> emit_abc RgGetUpvalue dest u 0 line)
      | Unresolved \<Rightarrow> xstop (\<lambda>_. Stuck))"

text \<open>\<open>assign\<close>: without a destination the value is discarded.\<close>

definition assign_value :: "(nat \<Rightarrow> unit rm) \<Rightarrow> nat \<Rightarrow> nat option \<Rightarrow> nat rm" where
  "assign_value compile line dest =
     xbind (case dest of Some d \<Rightarrow> xreturn d | None \<Rightarrow> reserve line) (\<lambda>v. xseq (compile v) (xreturn v))"

definition r_assign :: "(obj \<Rightarrow> nat) \<Rightarrow> addr list \<Rightarrow> (nat \<Rightarrow> unit rm) \<Rightarrow> sview \<Rightarrow> binding \<Rightarrow> nat \<Rightarrow>
    nat option \<Rightarrow> unit rm" where
  "r_assign sz roots compile x b line dest =
     xbind free_reg (\<lambda>save.
       case b of
         LocalBinding hops \<Rightarrow>
           xbind (r_find_local (sv_text x)) (\<lambda>ref.
             case ref of
               InRegister reg \<Rightarrow>
                 xseq (compile reg)
                   (case dest of None \<Rightarrow> xreturn ()
                    | Some d \<Rightarrow> move_operand_to d (register_operand reg) line)
             | InUpvalue u \<Rightarrow>
                 xbind (assign_value compile line dest) (\<lambda>v.
                 xseq (emit_abc RgSetUpvalue v u 0 line) (set_free_reg save)))
       | GlobalBinding \<Rightarrow>
           xbind (assign_value compile line dest) (\<lambda>v.
           xbind (r_string_constant sz roots (sv_text x)) (\<lambda>k.
           xseq (emit_abx RgSetGlobal v k line) (set_free_reg save)))
       | Unresolved \<Rightarrow> xstop (\<lambda>_. Stuck))"

definition binary_regop :: "binary_op \<Rightarrow> regop" where
  "binary_regop op =
     (case op of
        BAdd \<Rightarrow> RgAdd | BSub \<Rightarrow> RgSub | BMul \<Rightarrow> RgMul | BDiv \<Rightarrow> RgDiv | BMod \<Rightarrow> RgMod
      | BEq \<Rightarrow> RgEq | BNe \<Rightarrow> RgNe | BLt \<Rightarrow> RgLt | BLe \<Rightarrow> RgLe | BGt \<Rightarrow> RgGt | BGe \<Rightarrow> RgGe)"

definition logical_into :: "logical_op \<Rightarrow> (nat \<Rightarrow> unit rm) \<Rightarrow> (nat \<Rightarrow> unit rm) \<Rightarrow> nat \<Rightarrow> nat \<Rightarrow> unit rm" where
  "logical_into op left right line dest =
     xseq (left dest)
       (xbind (r_emit_jump (if op = LAnd then RgJumpIfFalse else RgJumpIfTrue) dest line) (\<lambda>end_jump.
        xseq (right dest) (r_patch_jump end_jump line)))"

text \<open>A destination that is a live local is written only at the end, from a temporary. The temporary
  lies above the locals, so the test in the recursive call of the source is false.\<close>

definition r_logical :: "logical_op \<Rightarrow> (nat \<Rightarrow> unit rm) \<Rightarrow> (nat \<Rightarrow> unit rm) \<Rightarrow> nat \<Rightarrow> nat \<Rightarrow> unit rm" where
  "r_logical op left right line dest =
     xbind local_count (\<lambda>n.
       if dest < n
       then xbind free_reg (\<lambda>save. xbind (reserve line) (\<lambda>temp.
         xseq (logical_into op left right line temp)
           (xseq (move_operand_to dest (register_operand temp) line) (set_free_reg save))))
       else logical_into op left right line dest)"

definition dest_is_top_temp :: "nat \<Rightarrow> bool rm" where
  "dest_is_top_temp dest =
     xbind free_reg (\<lambda>free. xbind local_count (\<lambda>n. xreturn (dest + 1 = free \<and> \<not> dest < n)))"

definition emit_array :: "bool \<Rightarrow> nat \<Rightarrow> nat \<Rightarrow> nat \<Rightarrow> nat \<Rightarrow> unit rm" where
  "emit_array first target start batch line =
     xseq (emit_abc (if first then RgArray else RgArrayAppend) target start batch line) (set_free_reg start)"

definition index_assign :: "(obj \<Rightarrow> nat) \<Rightarrow> addr list \<Rightarrow> (nat \<Rightarrow> unit rm) \<Rightarrow> (nat \<Rightarrow> unit rm) \<Rightarrow> (nat \<Rightarrow> unit rm) \<Rightarrow>
    expr \<Rightarrow> expr \<Rightarrow> expr \<Rightarrow> nat \<Rightarrow> nat option \<Rightarrow> unit rm" where
  "index_assign sz roots c_ob c_i c_v ob i v line dest =
     xbind free_reg (\<lambda>save.
     xbind (operand sz roots c_ob ob False (may_clobber_locals i \<or> may_clobber_locals v)) (\<lambda>object.
     xbind (operand sz roots c_i i True (may_clobber_locals v)) (\<lambda>position.
     xbind (operand sz roots c_v v True False) (\<lambda>value.
     xseq (emit_rk RgIndexSet (rk_index object) position value line)
       (xseq (case dest of None \<Rightarrow> xreturn () | Some d \<Rightarrow> move_operand_to d value line)
         (set_free_reg save))))))"

text \<open>The elements of an array literal, in batches: \<open>n\<close> of the current batch are in registers.\<close>

fun r_expr :: "(obj \<Rightarrow> nat) \<Rightarrow> addr list \<Rightarrow> expr \<Rightarrow> nat \<Rightarrow> unit rm" and
    r_args :: "(obj \<Rightarrow> nat) \<Rightarrow> addr list \<Rightarrow> expr list \<Rightarrow> nat \<Rightarrow> nat \<Rightarrow> unit rm" and
    r_elements :: "(obj \<Rightarrow> nat) \<Rightarrow> addr list \<Rightarrow> expr list \<Rightarrow> bool \<Rightarrow> nat \<Rightarrow> nat \<Rightarrow> nat \<Rightarrow> nat \<Rightarrow> unit rm" where
  "r_expr sz roots (ELiteral lit line) dest = r_literal sz roots lit line dest"
| "r_expr sz roots (EVariable x b line) dest = r_variable sz roots x b line dest"
| "r_expr sz roots (EAssign x e b line) dest = r_assign sz roots (\<lambda>d. r_expr sz roots e d) x b line (Some dest)"
| "r_expr sz roots (EUnary op e line) dest =
     xbind free_reg (\<lambda>save.
     xbind (operand sz roots (\<lambda>d. r_expr sz roots e d) e True False) (\<lambda>v.
     xseq (emit_rk_b (case op of UNegate \<Rightarrow> RgNeg | UNot \<Rightarrow> RgNot) dest v line) (set_free_reg save)))"
| "r_expr sz roots (EBinary op l r line) dest =
     xbind free_reg (\<lambda>save.
     xbind (operand sz roots (\<lambda>d. r_expr sz roots l d) l True (may_clobber_locals r)) (\<lambda>left.
     xbind (operand sz roots (\<lambda>d. r_expr sz roots r d) r True False) (\<lambda>right.
     xseq (emit_rk (binary_regop op) dest left right line) (set_free_reg save))))"
| "r_expr sz roots (ELogical op l r line) dest =
     r_logical op (\<lambda>d. r_expr sz roots l d) (\<lambda>d. r_expr sz roots r d) line dest"
| "r_expr sz roots (ECall f args line) dest =
     xbind free_reg (\<lambda>save.
     xbind (dest_is_top_temp dest) (\<lambda>top.
     xbind (if top then xreturn dest else reserve line) (\<lambda>base.
     xseq (r_expr sz roots f base)
       (xseq (r_args sz roots args (base + 1) line)
         (xseq (emit_abc RgCall base (length args) 0 line)
           (xseq (if base \<noteq> dest then move_operand_to dest (register_operand base) line else xreturn ())
             (set_free_reg save)))))))"
| "r_expr sz roots (EArrayLiteral es line) dest =
     xbind free_reg (\<lambda>save.
     xbind (dest_is_top_temp dest) (\<lambda>top.
     xbind (if length es \<le> kArrayBatch \<or> top then xreturn dest else reserve line) (\<lambda>target.
     xbind free_reg (\<lambda>start.
     xseq (r_elements sz roots es True 0 target start line)
       (xseq (if target \<noteq> dest then move_operand_to dest (register_operand target) line else xreturn ())
         (set_free_reg save))))))"
| "r_expr sz roots (EIndex ob i line) dest =
     xbind free_reg (\<lambda>save.
     xbind (operand sz roots (\<lambda>d. r_expr sz roots ob d) ob True (may_clobber_locals i)) (\<lambda>object.
     xbind (operand sz roots (\<lambda>d. r_expr sz roots i d) i True False) (\<lambda>position.
     xseq (emit_rk RgIndexGet dest object position line) (set_free_reg save))))"
| "r_expr sz roots (EIndexAssign ob i v line) dest =
     index_assign sz roots (\<lambda>d. r_expr sz roots ob d) (\<lambda>d. r_expr sz roots i d) (\<lambda>d. r_expr sz roots v d)
       ob i v line (Some dest)"
| "r_args sz roots [] reg line = xreturn ()"
| "r_args sz roots (e # es) expected line =
     xbind (reserve line) (\<lambda>reg.
     xseq (xassert Stuck (reg = expected))
       (xseq (r_expr sz roots e reg) (r_args sz roots es (expected + 1) line)))"
| "r_elements sz roots [] first n target start line = emit_array first target start n line"
| "r_elements sz roots (e # es) first n target start line =
     xseq (if n = kArrayBatch then emit_array first target start n line else xreturn ())
       (xbind (reserve line) (\<lambda>reg.
        xseq (r_expr sz roots e reg)
          (r_elements sz roots es (first \<and> n \<noteq> kArrayBatch) (if n = kArrayBatch then 1 else n + 1)
             target start line)))"

subsection \<open>Statements\<close>

definition jump_if_false :: "(obj \<Rightarrow> nat) \<Rightarrow> addr list \<Rightarrow> expr \<Rightarrow> nat \<Rightarrow> nat rm" where
  "jump_if_false sz roots c line =
     xbind free_reg (\<lambda>save.
     xbind (operand sz roots (r_expr sz roots c) c False False) (\<lambda>cond.
     xbind (r_emit_jump RgJumpIfFalse (rk_index cond) line) (\<lambda>jump.
     xseq (set_free_reg save) (xreturn jump))))"

definition r_define_global :: "(obj \<Rightarrow> nat) \<Rightarrow> addr list \<Rightarrow> string \<Rightarrow> nat \<Rightarrow> nat \<Rightarrow> nat \<Rightarrow> unit rm" where
  "r_define_global sz roots name reg save line =
     xbind (r_string_constant sz roots name) (\<lambda>k.
     xseq (emit_abx RgDefineGlobal reg k line) (set_free_reg save))"

definition r_print :: "(obj \<Rightarrow> nat) \<Rightarrow> addr list \<Rightarrow> expr \<Rightarrow> nat \<Rightarrow> unit rm" where
  "r_print sz roots e line =
     xbind free_reg (\<lambda>save.
     xbind (operand sz roots (r_expr sz roots e) e True False) (\<lambda>v.
     xseq (emit_rk_b RgPrint 0 v line) (set_free_reg save)))"

definition r_expr_stmt :: "(obj \<Rightarrow> nat) \<Rightarrow> addr list \<Rightarrow> expr \<Rightarrow> nat \<Rightarrow> unit rm" where
  "r_expr_stmt sz roots e line =
     xbind free_reg (\<lambda>save.
     xseq
       (case e of
          EAssign x v b l \<Rightarrow> r_assign sz roots (r_expr sz roots v) x b l None
        | EIndexAssign ob i v l \<Rightarrow>
            index_assign sz roots (r_expr sz roots ob) (r_expr sz roots i) (r_expr sz roots v) ob i v l None
        | _ \<Rightarrow> xbind (reserve line) (\<lambda>reg. r_expr sz roots e reg))
       (set_free_reg save))"

definition r_let :: "(obj \<Rightarrow> nat) \<Rightarrow> addr list \<Rightarrow> sview \<Rightarrow> expr option \<Rightarrow> nat \<Rightarrow> unit rm" where
  "r_let sz roots x init line =
     xbind free_reg (\<lambda>save.
     xbind (reserve line) (\<lambda>reg.
     xseq (case init of Some e \<Rightarrow> r_expr sz roots e reg | None \<Rightarrow> emit_abc RgLoadNil reg 0 0 line)
       (xbind (xget r_at_global_scope) (\<lambda>global.
          if global then r_define_global sz roots (sv_text x) reg save line else r_add_local (sv_text x)))))"

definition r_return :: "(obj \<Rightarrow> nat) \<Rightarrow> addr list \<Rightarrow> expr option \<Rightarrow> nat \<Rightarrow> unit rm" where
  "r_return sz roots e line =
     (case e of
        None \<Rightarrow> emit_abc RgReturnNil 0 0 0 line
      | Some e \<Rightarrow>
          xbind free_reg (\<lambda>save.
          xbind (operand sz roots (r_expr sz roots e) e True False) (\<lambda>v.
          xseq (emit_rk_b RgReturn 0 v line) (set_free_reg save))))"

definition r_open_function :: "(obj \<Rightarrow> nat) \<Rightarrow> addr list \<Rightarrow> string \<Rightarrow> sview list \<Rightarrow> nat \<Rightarrow> unit rm" where
  "r_open_function sz roots name params line =
     xseq (r_begin_function sz roots name)
       (xseq (r_update (\<lambda>f. f\<lparr>rf_scope_depth := 1\<rparr>))
         (xseq (fold (\<lambda>p m. xseq m (xseq (reserve line) (r_add_local (sv_text p)))) params (xreturn ()))
           (xbind r_current (\<lambda>fs. r_set_function (rf_function fs) (\<lambda>f. f\<lparr>fo_arity := length params\<rparr>)))))"

definition finish_function :: "bool \<Rightarrow> addr \<Rightarrow> unit rm" where
  "finish_function superinstructions fn =
     (if superinstructions
      then xbind (r_get_function fn) (\<lambda>f.
        let (n, code) = fuse_superinstructions (fo_reg f) in
        xseq (r_set_function fn (\<lambda>f. f\<lparr>fo_reg := code\<rparr>)) (xmod (\<lambda>s. s\<lparr>rg_fused := rg_fused s + n\<rparr>)))
      else xreturn ())"

fun emit_captures :: "upvalue_ref list \<Rightarrow> nat \<Rightarrow> unit rm" where
  "emit_captures [] line = xreturn ()"
| "emit_captures (up # ups) line =
     xseq (emit_abc RgCapture (if ur_is_local up then 1 else 0) (unat (ur_index up)) 0 line)
       (emit_captures ups line)"

definition r_close_function :: "bool \<Rightarrow> nat \<Rightarrow> nat \<Rightarrow> unit rm" where
  "r_close_function superinstructions line dest =
     xseq (emit_abc RgReturnNil 0 0 0 line)
       (xbind r_current (\<lambda>state.
        xseq (finish_function superinstructions (rf_function state))
          (xseq (r_set_function (rf_function state) (\<lambda>f. f\<lparr>fo_upvalue_count := length (rf_upvalues state)\<rparr>))
            (xseq (xmod (\<lambda>s. s\<lparr>rg_current := tl (rg_current s)\<rparr>))
              (xbind r_code (\<lambda>c.
               xseq (r_set_code (\<lambda>c. snd (reg_add_constant (VObj (rf_function state)) c)))
                 (xseq (emit_abx RgClosure dest (length (rc_constants c)) line)
                   (emit_captures (rf_upvalues state) line))))))))"

text \<open>Every statement starts with no temporary in use.\<close>

definition no_temporaries :: "unit rm" where
  "no_temporaries = xbind r_current (\<lambda>fs. xassert Stuck (rf_free fs = length (rf_locals fs)))"

fun r_stmt :: "bool \<Rightarrow> (obj \<Rightarrow> nat) \<Rightarrow> addr list \<Rightarrow> stmt \<Rightarrow> unit rm" and
    r_stmts :: "bool \<Rightarrow> (obj \<Rightarrow> nat) \<Rightarrow> addr list \<Rightarrow> stmt list \<Rightarrow> unit rm" where
  "r_stmt si sz roots (SPrint e line) = xseq no_temporaries (r_print sz roots e line)"
| "r_stmt si sz roots (SExpr e line) = xseq no_temporaries (r_expr_stmt sz roots e line)"
| "r_stmt si sz roots (SLet x init line) = xseq no_temporaries (r_let sz roots x init line)"
| "r_stmt si sz roots (SBlock ss line) =
     xseq no_temporaries
       (xseq (r_update (\<lambda>f. f\<lparr>rf_scope_depth := rf_scope_depth f + 1\<rparr>))
         (xseq (r_stmts si sz roots ss) (r_end_scope line)))"
| "r_stmt si sz roots (SIf c t None line) =
     xseq no_temporaries
       (xbind (jump_if_false sz roots c line) (\<lambda>to_else.
        xseq (r_stmt si sz roots t) (r_patch_jump to_else line)))"
| "r_stmt si sz roots (SIf c t (Some e) line) =
     xseq no_temporaries
       (xbind (jump_if_false sz roots c line) (\<lambda>to_else.
        xseq (r_stmt si sz roots t)
          (xbind (r_emit_jump RgJump 0 line) (\<lambda>to_end.
           xseq (r_patch_jump to_else line)
             (xseq (r_stmt si sz roots e) (r_patch_jump to_end line))))))"
| "r_stmt si sz roots (SWhile c body line) =
     xseq no_temporaries
       (xbind here (\<lambda>loop_start.
        xbind (jump_if_false sz roots c line) (\<lambda>exit_jump.
        xseq (r_stmt si sz roots body)
          (xseq (r_emit_loop loop_start line) (r_patch_jump exit_jump line)))))"
| "r_stmt si sz roots (SReturn e line) = xseq no_temporaries (r_return sz roots e line)"
| "r_stmt si sz roots (SFunction f ps body bline line) =
     xseq no_temporaries
       (xbind free_reg (\<lambda>save.
        xbind (reserve line) (\<lambda>reg.
        xbind (xget r_at_global_scope) (\<lambda>global.
        xseq (if global then xreturn () else r_add_local (sv_text f))
          (xseq (r_open_function sz roots (sv_text f) ps line)
            (xseq (r_stmts si sz roots body)
              (xseq (r_close_function si line reg)
                (if global then r_define_global sz roots (sv_text f) reg save line else xreturn ()))))))))"
| "r_stmts si sz roots [] = xreturn ()"
| "r_stmts si sz roots (st # sts) = xseq (r_stmt si sz roots st) (r_stmts si sz roots sts)"

subsection \<open>The script\<close>

definition r_compile_script :: "bool \<Rightarrow> (obj \<Rightarrow> nat) \<Rightarrow> addr list \<Rightarrow> program \<Rightarrow> addr rm" where
  "r_compile_script si sz roots p =
     xseq (r_begin_function sz roots [])
       (xseq (r_stmts si sz roots (pr_statements p))
         (xseq (emit_abc RgReturnNil 0 0 0 (end_line p))
           (xbind r_current (\<lambda>state.
            xseq (finish_function si (rf_function state))
              (xseq (xmod (\<lambda>s. s\<lparr>rg_current := []\<rparr>)) (xreturn (rf_function state)))))))"

text \<open>\<open>compile_register\<close>: the script function and the number of fused pairs, or the compile error; and
  the heap.\<close>

definition compile_register :: "bool \<Rightarrow> (obj \<Rightarrow> nat) \<Rightarrow> addr list \<Rightarrow> program \<Rightarrow> heap \<Rightarrow>
    (compile_stop, (compile_error + addr \<times> nat) \<times> heap) outcome" where
  "compile_register si sz roots p h =
     (case r_compile_script si sz roots p \<lparr>rg_heap = h, rg_current = [], rg_fused = 0\<rparr> of
        Ok (fn, s) \<Rightarrow> Ok (Inr (fn, rg_fused s), rg_heap s)
      | Error (TooLarge e h) \<Rightarrow> Ok (Inl e, h)
      | Error Stuck \<Rightarrow> Error Stuck
      | Timeout \<Rightarrow> Timeout)"

end
