(* ===== verification/Reg_VM.thy ===== *)
theory Reg_VM
  imports Reg_Compiler Stack_VM
begin

text \<open>
  \<open>vm_reg.h\<close> and \<open>vm_reg.cpp\<close>: the register machine, as \<open>--engine=register\<close> runs it (the hooks of the
  just-in-time compiler are templates that this configuration compiles to nothing). The register file
  is the list of the slots written so far: the C++ array is not initialised, and a slot keeps its value
  after the frame that used it has returned. The frames are a list with the running one first; a
  frame's window is the \<open>frame_size\<close> slots from its base. \<open>rv_cache\<close> is the \<open>global_cache\<close> of each
  function object: one entry per instruction, empty or the cell of a global, which is the address of
  its name. As for the stack machine, \<open>pc\<close> is the frame's field. Null or dangling pointers, bad
  operands or opcodes, reading a slot above every window or one never written, and writing past the
  array are the faults.
\<close>

subsection \<open>The state\<close>

definition kRegisterSlots :: nat where "kRegisterSlots = kMaxCallDepth * kFrameSlots + 4194304"

record reg_vm =
  rv_heap :: heap
  rv_regs :: "(nat \<times> value) list"
  rv_frames :: "call_frame list"
  rv_uncounted :: nat
  rv_open :: "addr list"
  rv_globals :: "(addr \<times> value) list"
  rv_inline_cache :: bool
  rv_superinstructions :: bool
  rv_cache :: "(addr \<times> addr option list) list"
  rv_fused :: nat
  rv_result :: "value"
  rv_error :: "runtime_error option"
  rv_out :: string
  rv_ticks :: nat

type_synonym 'a rvm = "(reg_vm, vm_fault, 'a) exec"

definition rv_fail_with :: "vm_fault \<Rightarrow> 'a rvm" where
  "rv_fail_with f = xstop (\<lambda>_. f)"

text \<open>\<open>frame.closure->function->reg.frame_size\<close>.\<close>

definition frame_size :: "heap \<Rightarrow> addr \<Rightarrow> nat" where
  "frame_size h closure =
     (case obj_at h closure of
        Some (OClosure fn us) \<Rightarrow>
          (case obj_at h fn of Some (OFunction f) \<Rightarrow> rc_frame_size (fo_reg f) | _ \<Rightarrow> 0)
      | _ \<Rightarrow> 0)"

definition reg_top :: "heap \<Rightarrow> call_frame list \<Rightarrow> nat" where
  "reg_top h frames = fold (\<lambda>f top. max top (cf_base f + frame_size h (cf_closure f))) frames 1"

definition slot_addrs :: "(nat \<times> value) list \<Rightarrow> nat \<Rightarrow> addr list" where
  "slot_addrs regs i = (case map_of regs i of None \<Rightarrow> [] | Some v \<Rightarrow> value_addrs v)"

definition reg_roots :: "reg_vm \<Rightarrow> addr list" where
  "reg_roots s =
     concat (map (slot_addrs (rv_regs s)) [0..<reg_top (rv_heap s) (rv_frames s)]) @
     map cf_closure (rv_frames s) @ rv_open s @
     concat (map (\<lambda>(name, v). name # value_addrs v) (rv_globals s))"

definition rv_allocate :: "(obj \<Rightarrow> nat) \<Rightarrow> obj \<Rightarrow> addr rvm" where
  "rv_allocate sz ob s =
     (let (a, h) = allocate sz (reg_roots s) ob (rv_heap s) in Ok (a, s\<lparr>rv_heap := h\<rparr>))"

definition rv_set_obj :: "addr \<Rightarrow> obj \<Rightarrow> unit rvm" where
  "rv_set_obj a ob = xmod (\<lambda>s. s\<lparr>rv_heap := set_obj a ob (rv_heap s)\<rparr>)"

definition rv_object :: "addr \<Rightarrow> obj rvm" where
  "rv_object a = xbind (xget (\<lambda>s. obj_at (rv_heap s) a)) (xthe BadPointer)"

definition rv_closure :: "addr \<Rightarrow> (addr \<times> addr option list) rvm" where
  "rv_closure a =
     xbind (rv_object a) (\<lambda>ob. case ob of OClosure f us \<Rightarrow> xreturn (f, us) | _ \<Rightarrow> rv_fail_with BadPointer)"

definition rv_function :: "addr \<Rightarrow> function_object rvm" where
  "rv_function a =
     xbind (rv_object a) (\<lambda>ob. case ob of OFunction f \<Rightarrow> xreturn f | _ \<Rightarrow> rv_fail_with BadPointer)"

definition rv_upvalue :: "addr \<Rightarrow> upvalue_object rvm" where
  "rv_upvalue a =
     xbind (rv_object a) (\<lambda>ob. case ob of OUpvalue u \<Rightarrow> xreturn u | _ \<Rightarrow> rv_fail_with BadPointer)"

subsection \<open>The registers\<close>

definition rv_slot :: "nat \<Rightarrow> value rvm" where
  "rv_slot i =
     xbind (xget (\<lambda>s. reg_top (rv_heap s) (rv_frames s))) (\<lambda>top.
     xseq (xassert StackUnderrun (i < top))
       (xbind (xget (\<lambda>s. map_of (rv_regs s) i)) (xthe StackUnderrun)))"

definition rv_set_slot :: "nat \<Rightarrow> value \<Rightarrow> unit rvm" where
  "rv_set_slot i v =
     xseq (xassert StackOverrun (i < kRegisterSlots))
       (xmod (\<lambda>s. s\<lparr>rv_regs := AList.update i v (rv_regs s)\<rparr>))"

text \<open>A copy of consecutive slots, and \<open>std::fill\<close> with nil.\<close>

fun rv_slots :: "nat \<Rightarrow> nat \<Rightarrow> value list rvm" where
  "rv_slots i 0 = xreturn []"
| "rv_slots i (Suc n) = xbind (rv_slot i) (\<lambda>v. xbind (rv_slots (i + 1) n) (\<lambda>vs. xreturn (v # vs)))"

fun rv_fill_nil :: "nat \<Rightarrow> nat \<Rightarrow> unit rvm" where
  "rv_fill_nil i 0 = xreturn ()"
| "rv_fill_nil i (Suc n) = xseq (rv_set_slot i VNil) (rv_fill_nil (i + 1) n)"

subsection \<open>The running frame\<close>

definition rv_frame :: "call_frame rvm" where
  "rv_frame = xbind (xget rv_frames) (\<lambda>fs. case fs of [] \<Rightarrow> rv_fail_with BadPointer | f # _ \<Rightarrow> xreturn f)"

definition rv_set_pc :: "nat \<Rightarrow> unit rvm" where
  "rv_set_pc pc =
     xbind (xget rv_frames) (\<lambda>fs.
       case fs of [] \<Rightarrow> rv_fail_with BadPointer
       | f # rest \<Rightarrow> xmod (\<lambda>s. s\<lparr>rv_frames := f\<lparr>cf_ip := pc\<rparr> # rest\<rparr>))"

definition rv_chunk :: "reg_chunk rvm" where
  "rv_chunk =
     xbind rv_frame (\<lambda>f. xbind (rv_closure (cf_closure f)) (\<lambda>(fn, us).
     xbind (rv_function fn) (\<lambda>fo. xreturn (fo_reg fo))))"

text \<open>\<open>insn = *pc++\<close>.\<close>

definition rv_fetch :: "instruction rvm" where
  "rv_fetch =
     xbind rv_chunk (\<lambda>c. xbind rv_frame (\<lambda>f.
     xseq (xassert BadCode (cf_ip f < length (rc_code c)))
       (xseq (rv_set_pc (cf_ip f + 1)) (xreturn (rc_code c ! cf_ip f)))))"

text \<open>\<open>base[index]\<close>, \<open>constants[index]\<close> and the operands that may be either.\<close>

definition rv_reg :: "32 word \<Rightarrow> value rvm" where
  "rv_reg index = xbind rv_frame (\<lambda>f. rv_slot (cf_base f + unat index))"

definition rv_set_reg :: "32 word \<Rightarrow> value \<Rightarrow> unit rvm" where
  "rv_set_reg index v = xbind rv_frame (\<lambda>f. rv_set_slot (cf_base f + unat index) v)"

definition rv_constant :: "32 word \<Rightarrow> value rvm" where
  "rv_constant index =
     xbind rv_chunk (\<lambda>c.
     xseq (xassert BadCode (unat index < length (rc_constants c)))
       (xreturn (rc_constants c ! unat index)))"

definition rv_rk_b :: "instruction \<Rightarrow> value rvm" where
  "rv_rk_b insn = (if insn_flags insn AND kFlagBConst \<noteq> 0 then rv_constant (insn_b insn) else rv_reg (insn_b insn))"

definition rv_rk_c :: "instruction \<Rightarrow> value rvm" where
  "rv_rk_c insn = (if insn_flags insn AND kFlagCConst \<noteq> 0 then rv_constant (insn_c insn) else rv_reg (insn_c insn))"

text \<open>A constant that is an object: a name or a function.\<close>

definition rv_object_constant :: "32 word \<Rightarrow> addr rvm" where
  "rv_object_constant index =
     xbind (rv_constant index) (\<lambda>v. case v of VObj a \<Rightarrow> xreturn a | _ \<Rightarrow> rv_fail_with BadCode)"

subsection \<open>Errors\<close>

definition rv_fail :: "string \<Rightarrow> unit rvm" where
  "rv_fail message =
     xbind (xget rv_frames) (\<lambda>fs.
     xbind (if fs = [] then xreturn 0
            else xbind rv_chunk (\<lambda>c. xbind rv_frame (\<lambda>f. xreturn (reg_line_at c (cf_ip f - 1))))) (\<lambda>line.
       xmod (\<lambda>s. s\<lparr>rv_error := Some \<lparr>re_line = line, re_message = message\<rparr>\<rparr>)))"

subsection \<open>Upvalues\<close>

fun rv_split_open :: "nat \<Rightarrow> addr list \<Rightarrow> (addr list \<times> addr list) rvm" where
  "rv_split_open i [] = xreturn ([], [])"
| "rv_split_open i (up # ups) =
     xbind (rv_upvalue up) (\<lambda>u.
       case uv_location u of
         ClosedHere \<Rightarrow> rv_fail_with BadPointer
       | OpenAt j \<Rightarrow>
           if i < j
           then xbind (rv_split_open i ups) (\<lambda>(higher, rest). xreturn (up # higher, rest))
           else xreturn ([], up # ups))"

definition rv_capture_upvalue :: "(obj \<Rightarrow> nat) \<Rightarrow> nat \<Rightarrow> addr rvm" where
  "rv_capture_upvalue sz i =
     xbind (xget rv_open) (\<lambda>open_list.
     xbind (rv_split_open i open_list) (\<lambda>(higher, rest).
     xbind (case rest of
              [] \<Rightarrow> xreturn None
            | up # _ \<Rightarrow>
                xbind (rv_upvalue up) (\<lambda>u.
                  xreturn (if uv_location u = OpenAt i then Some up else None))) (\<lambda>found.
       case found of
         Some up \<Rightarrow> xreturn up
       | None \<Rightarrow>
           xbind (rv_allocate sz (OUpvalue \<lparr>uv_location = OpenAt i, uv_closed = VNil\<rparr>)) (\<lambda>created.
           xseq (xmod (\<lambda>s. s\<lparr>rv_open := higher @ created # rest\<rparr>)) (xreturn created)))))"

fun rv_close_loop :: "nat \<Rightarrow> addr list \<Rightarrow> unit rvm" where
  "rv_close_loop i [] = xmod (\<lambda>s. s\<lparr>rv_open := []\<rparr>)"
| "rv_close_loop i (up # ups) =
     xbind (rv_upvalue up) (\<lambda>u.
       case uv_location u of
         ClosedHere \<Rightarrow> rv_fail_with BadPointer
       | OpenAt j \<Rightarrow>
           if i \<le> j
           then
             xbind (rv_slot j) (\<lambda>v.
             xseq (rv_set_obj up (OUpvalue \<lparr>uv_location = ClosedHere, uv_closed = v\<rparr>)) (rv_close_loop i ups))
           else xmod (\<lambda>s. s\<lparr>rv_open := up # ups\<rparr>))"

definition rv_close_upvalues :: "nat \<Rightarrow> unit rvm" where
  "rv_close_upvalues i = xbind (xget rv_open) (rv_close_loop i)"

definition rv_read_upvalue :: "addr \<Rightarrow> value rvm" where
  "rv_read_upvalue up =
     xbind (rv_upvalue up) (\<lambda>u.
       case uv_location u of OpenAt j \<Rightarrow> rv_slot j | ClosedHere \<Rightarrow> xreturn (uv_closed u))"

definition rv_write_upvalue :: "addr \<Rightarrow> value \<Rightarrow> unit rvm" where
  "rv_write_upvalue up v =
     xbind (rv_upvalue up) (\<lambda>u.
       case uv_location u of
         OpenAt j \<Rightarrow> rv_set_slot j v
       | ClosedHere \<Rightarrow> rv_set_obj up (OUpvalue (u\<lparr>uv_closed := v\<rparr>)))"

definition rv_frame_upvalue :: "32 word \<Rightarrow> addr option rvm" where
  "rv_frame_upvalue i =
     xbind rv_frame (\<lambda>f. xbind (rv_closure (cf_closure f)) (\<lambda>(fn, us).
     xseq (xassert BadCode (unat i < length us)) (xreturn (us ! unat i))))"

subsection \<open>The inline cache\<close>

definition rv_find_global :: "addr \<Rightarrow> addr option rvm" where
  "rv_find_global name = xget (\<lambda>s. if map_of (rv_globals s) name = None then None else Some name)"

text \<open>\<open>attach_global_caches\<close> goes into the functions among the constants; the fuel is the depth of
  that nesting.\<close>

fun attach_global_caches :: "nat \<Rightarrow> addr \<Rightarrow> unit rvm" and
    attach_to_constants :: "nat \<Rightarrow> value list \<Rightarrow> unit rvm" where
  "attach_global_caches 0 fn = (\<lambda>s. Timeout)"
| "attach_global_caches (Suc n) fn =
     xbind (rv_function fn) (\<lambda>f.
     xseq (xmod (\<lambda>s. s\<lparr>rv_cache := AList.update fn (replicate (length (rc_code (fo_reg f))) None) (rv_cache s)\<rparr>))
       (attach_to_constants n (rc_constants (fo_reg f))))"
| "attach_to_constants n [] = xreturn ()"
| "attach_to_constants n (v # vs) =
     xbind (xget (\<lambda>s. case v of
              VObj a \<Rightarrow> (case obj_at (rv_heap s) a of Some (OFunction f) \<Rightarrow> Some a | _ \<Rightarrow> None)
            | _ \<Rightarrow> None)) (\<lambda>nested.
     xseq (case nested of Some a \<Rightarrow> attach_global_caches n a | None \<Rightarrow> xreturn ())
       (attach_to_constants n vs))"

text \<open>\<open>global_cache[(pc - 1) - code_begin]\<close> of the running function: the function and the index.\<close>

definition rv_cache_index :: "(addr \<times> nat) rvm" where
  "rv_cache_index =
     xbind rv_frame (\<lambda>f. xbind (rv_closure (cf_closure f)) (\<lambda>(fn, us).
     xseq (xassert BadCode (0 < cf_ip f)) (xreturn (fn, cf_ip f - 1))))"

definition rv_cache_slot :: "addr \<times> nat \<Rightarrow> addr option rvm" where
  "rv_cache_slot p =
     xbind (xget (\<lambda>s. map_of (rv_cache s) (fst p))) (\<lambda>c. xbind (xthe BadPointer c) (\<lambda>cells.
     xseq (xassert BadCode (snd p < length cells)) (xreturn (cells ! snd p))))"

definition rv_set_cache_slot :: "addr \<times> nat \<Rightarrow> addr option \<Rightarrow> unit rvm" where
  "rv_set_cache_slot p cell =
     xbind (xget (\<lambda>s. map_of (rv_cache s) (fst p))) (\<lambda>c. xbind (xthe BadPointer c) (\<lambda>cells.
     xmod (\<lambda>s. s\<lparr>rv_cache := AList.update (fst p) (cells[snd p := cell]) (rv_cache s)\<rparr>)))"

text \<open>\<open>GLOBAL_CACHE_LOOKUP\<close>, up to the \<open>FAIL\<close>: the cell, or nothing. And the plain lookup.\<close>

definition rv_cached_cell :: "addr \<Rightarrow> addr option rvm" where
  "rv_cached_cell name =
     xbind rv_cache_index (\<lambda>p. xbind (rv_cache_slot p) (\<lambda>slot.
       case slot of
         Some cell \<Rightarrow> xreturn (Some cell)
       | None \<Rightarrow> xbind (rv_find_global name) (\<lambda>cell. xseq (rv_set_cache_slot p cell) (xreturn cell))))"

definition rv_cell :: "addr \<Rightarrow> addr option rvm" where
  "rv_cell name =
     xbind (xget rv_inline_cache) (\<lambda>cached. if cached then rv_cached_cell name else rv_find_global name)"

subsection \<open>Calls\<close>

definition rv_error_outcome :: "string \<Rightarrow> call_outcome rvm" where
  "rv_error_outcome message = xseq (rv_fail message) (xreturn CallError)"

definition rv_call_native :: "(obj \<Rightarrow> nat) \<Rightarrow> (nat \<Rightarrow> double) \<Rightarrow> native_fn \<Rightarrow> value list \<Rightarrow> (string + value) rvm" where
  "rv_call_native sz clk f args s =
     (let s = (if f = NativeClock then s\<lparr>rv_ticks := rv_ticks s + 1\<rparr> else s);
          (r, h) = call_native sz (reg_roots s) (clk (rv_ticks s)) f args (rv_heap s)
      in Ok (r, s\<lparr>rv_heap := h\<rparr>))"

definition rv_native_result :: "nat \<Rightarrow> string + value \<Rightarrow> call_outcome rvm" where
  "rv_native_result callee r =
     (case r of
        Inl message \<Rightarrow> rv_error_outcome message
      | Inr v \<Rightarrow> xseq (rv_set_slot callee v) (xreturn NativeDone))"

text \<open>The new frame: its window is set to nil above the arguments, which the caller has put in its own
  window right above the callee.\<close>

definition rv_push_frame :: "addr \<Rightarrow> nat \<Rightarrow> nat \<Rightarrow> nat \<Rightarrow> unit rvm" where
  "rv_push_frame closure base argc window =
     xbind (xget (\<lambda>s. (reg_top (rv_heap s) (rv_frames s), length (rv_frames s)))) (\<lambda>(top, n).
     xseq (xassert StackUnderrun (base + argc \<le> top \<and> argc \<le> window))
       (xseq (rv_fill_nil (base + argc) (window - argc))
         (xseq (xassert FramesOverrun (n < kMaxFrames))
           (xmod (\<lambda>s. s\<lparr>rv_frames := \<lparr>cf_closure = closure, cf_ip = 0, cf_base = base\<rparr> # rv_frames s\<rparr>)))))"

definition rv_call_closure :: "addr \<Rightarrow> addr \<Rightarrow> nat \<Rightarrow> nat \<Rightarrow> call_outcome rvm" where
  "rv_call_closure closure fn callee argc =
     xbind (rv_function fn) (\<lambda>fo.
       if fo_arity fo \<noteq> argc then rv_error_outcome (arity_error_message (fo_arity fo) argc)
       else
         let base = callee + 1; window = rc_frame_size (fo_reg fo) in
         xbind (xget (\<lambda>s. length (rv_frames s) - rv_uncounted s)) (\<lambda>depth.
           if kMaxCallDepth \<le> depth \<or> kRegisterSlots - base < window
           then rv_error_outcome kErrStackOverflow
           else xseq (rv_push_frame closure base argc window) (xreturn PushedFrame)))"

definition rv_call_object :: "(obj \<Rightarrow> nat) \<Rightarrow> (nat \<Rightarrow> double) \<Rightarrow> nat \<Rightarrow> nat \<Rightarrow> addr \<Rightarrow> obj \<Rightarrow> call_outcome rvm" where
  "rv_call_object sz clk callee argc a ob =
     (case ob of
        OClosure fn us \<Rightarrow> rv_call_closure a fn callee argc
      | ONative name arity f \<Rightarrow>
          if arity \<noteq> argc then rv_error_outcome (arity_error_message arity argc)
          else xbind (rv_slots (callee + 1) argc) (\<lambda>args.
            xbind (rv_call_native sz clk f args) (rv_native_result callee))
      | _ \<Rightarrow> rv_error_outcome kErrNotCallable)"

definition rv_call_value :: "(obj \<Rightarrow> nat) \<Rightarrow> (nat \<Rightarrow> double) \<Rightarrow> nat \<Rightarrow> nat \<Rightarrow> call_outcome rvm" where
  "rv_call_value sz clk callee argc =
     xbind (rv_slot callee) (\<lambda>v.
       case v of
         VObj a \<Rightarrow> xbind (rv_object a) (rv_call_object sz clk callee argc a)
       | _ \<Rightarrow> rv_error_outcome kErrNotCallable)"

subsection \<open>Instructions\<close>

definition rv_running :: "unit rvm \<Rightarrow> step_result rvm" where
  "rv_running m = xseq m (xreturn Running)"

definition rv_failing :: "string \<Rightarrow> step_result rvm" where
  "rv_failing message = xseq (rv_fail message) (xreturn (Finished False))"

text \<open>\<open>CHECKED_OP\<close>: the result goes to R[A].\<close>

definition rv_checked :: "instruction \<Rightarrow> string + value \<Rightarrow> step_result rvm" where
  "rv_checked insn r =
     (case r of Inl message \<Rightarrow> rv_failing message | Inr v \<Rightarrow> rv_running (rv_set_reg (insn_a insn) v))"

definition rv_binary :: "(value \<Rightarrow> value \<Rightarrow> string + value) \<Rightarrow> instruction \<Rightarrow> step_result rvm" where
  "rv_binary op insn = xbind (rv_rk_b insn) (\<lambda>x. xbind (rv_rk_c insn) (\<lambda>y. rv_checked insn (op x y)))"

definition body_add :: "(obj \<Rightarrow> nat) \<Rightarrow> instruction \<Rightarrow> step_result rvm" where
  "body_add sz insn =
     xbind (rv_rk_b insn) (\<lambda>x. xbind (rv_rk_c insn) (\<lambda>y.
     xbind (\<lambda>s. let (r, h) = op_add sz (reg_roots s) x y (rv_heap s) in Ok (r, s\<lparr>rv_heap := h\<rparr>))
       (rv_checked insn)))"

definition rv_jump :: "instruction \<Rightarrow> unit rvm" where
  "rv_jump insn =
     xbind rv_frame (\<lambda>f.
       let pc = int (cf_ip f) + insn_sbx insn in
       xseq (xassert BadCode (0 \<le> pc)) (rv_set_pc (nat pc)))"

definition body_jump :: "instruction \<Rightarrow> step_result rvm" where
  "body_jump insn = rv_running (rv_jump insn)"

definition jump_when :: "bool \<Rightarrow> instruction \<Rightarrow> step_result rvm" where
  "jump_when b insn =
     xbind (rv_reg (insn_a insn)) (\<lambda>v.
       rv_running (if is_truthy v = b then rv_jump insn else xreturn ()))"

definition body_jump_if_false :: "instruction \<Rightarrow> step_result rvm" where
  "body_jump_if_false = jump_when False"

definition body_index_set :: "instruction \<Rightarrow> step_result rvm" where
  "body_index_set insn =
     xbind (rv_reg (insn_a insn)) (\<lambda>a. xbind (rv_rk_b insn) (\<lambda>i. xbind (rv_rk_c insn) (\<lambda>v.
     xbind (xget (\<lambda>s. array_set a i v (rv_heap s))) (\<lambda>r.
       case r of
         Inl message \<Rightarrow> rv_failing message
       | Inr h \<Rightarrow> rv_running (xmod (\<lambda>s. s\<lparr>rv_heap := h\<rparr>))))))"

text \<open>A superinstruction: the first half, and if it did not fail the word after it as the second.\<close>

definition second_half :: "(instruction \<Rightarrow> step_result rvm) \<Rightarrow> step_result \<Rightarrow> step_result rvm" where
  "second_half body r = (case r of Running \<Rightarrow> xbind rv_fetch body | Finished ok \<Rightarrow> xreturn (Finished ok))"

definition rv_name_failure :: "addr \<Rightarrow> step_result rvm" where
  "rv_name_failure name =
     xbind (xget (\<lambda>s. string_at (rv_heap s) name)) (\<lambda>x. rv_failing (undefined_variable_message x))"

definition rv_get_global :: "instruction \<Rightarrow> step_result rvm" where
  "rv_get_global insn =
     xbind (rv_object_constant (insn_bx insn)) (\<lambda>name. xbind (rv_cell name) (\<lambda>cell.
       case cell of
         None \<Rightarrow> rv_name_failure name
       | Some key \<Rightarrow>
           xbind (xget (\<lambda>s. map_of (rv_globals s) key)) (\<lambda>v. xbind (xthe BadPointer v) (\<lambda>v.
             rv_running (rv_set_reg (insn_a insn) v)))))"

definition rv_set_global :: "instruction \<Rightarrow> step_result rvm" where
  "rv_set_global insn =
     xbind (rv_object_constant (insn_bx insn)) (\<lambda>name. xbind (rv_cell name) (\<lambda>cell.
       case cell of
         None \<Rightarrow> rv_name_failure name
       | Some key \<Rightarrow>
           xbind (rv_reg (insn_a insn)) (\<lambda>v.
             rv_running (xmod (\<lambda>s. s\<lparr>rv_globals := AList.update key v (rv_globals s)\<rparr>)))))"

definition rv_define_global :: "instruction \<Rightarrow> step_result rvm" where
  "rv_define_global insn =
     xbind (rv_object_constant (insn_bx insn)) (\<lambda>name. xbind (rv_reg (insn_a insn)) (\<lambda>v.
       rv_running (xmod (\<lambda>s. s\<lparr>rv_globals := AList.update name v (rv_globals s)\<rparr>))))"

definition rv_get_upvalue :: "instruction \<Rightarrow> step_result rvm" where
  "rv_get_upvalue insn =
     xbind (rv_frame_upvalue (insn_b insn)) (\<lambda>up. xbind (xthe BadPointer up) (\<lambda>up.
     xbind (rv_read_upvalue up) (\<lambda>v. rv_running (rv_set_reg (insn_a insn) v))))"

definition rv_set_upvalue :: "instruction \<Rightarrow> step_result rvm" where
  "rv_set_upvalue insn =
     xbind (rv_frame_upvalue (insn_b insn)) (\<lambda>up. xbind (xthe BadPointer up) (\<lambda>up.
     xbind (rv_reg (insn_a insn)) (\<lambda>v. rv_running (rv_write_upvalue up v))))"

definition rv_call :: "(obj \<Rightarrow> nat) \<Rightarrow> (nat \<Rightarrow> double) \<Rightarrow> instruction \<Rightarrow> step_result rvm" where
  "rv_call sz clk insn =
     xbind rv_frame (\<lambda>f.
     xbind (rv_call_value sz clk (cf_base f + unat (insn_a insn)) (unat (insn_b insn))) (\<lambda>r.
       xreturn (if r = CallError then Finished False else Running)))"

fun rv_fill_upvalues :: "(obj \<Rightarrow> nat) \<Rightarrow> addr \<Rightarrow> nat \<Rightarrow> nat \<Rightarrow> unit rvm" where
  "rv_fill_upvalues sz created i 0 = xreturn ()"
| "rv_fill_upvalues sz created i (Suc n) =
     xbind rv_fetch (\<lambda>capture.
     xbind (if insn_a capture \<noteq> 0
            then xbind rv_frame (\<lambda>f.
              xbind (rv_capture_upvalue sz (cf_base f + unat (insn_b capture))) (\<lambda>up. xreturn (Some up)))
            else rv_frame_upvalue (insn_b capture)) (\<lambda>up.
     xbind (rv_closure created) (\<lambda>(fn, us).
     xseq (rv_set_obj created (OClosure fn (us[i := up]))) (rv_fill_upvalues sz created (i + 1) n))))"

definition rv_make_closure :: "(obj \<Rightarrow> nat) \<Rightarrow> instruction \<Rightarrow> step_result rvm" where
  "rv_make_closure sz insn =
     xbind (rv_object_constant (insn_bx insn)) (\<lambda>fn. xbind (rv_function fn) (\<lambda>fo.
     xbind (rv_allocate sz (OClosure fn (replicate (fo_upvalue_count fo) None))) (\<lambda>created.
     xseq (rv_set_reg (insn_a insn) (VObj created))
       (rv_running (rv_fill_upvalues sz created 0 (fo_upvalue_count fo))))))"

definition rv_close :: "instruction \<Rightarrow> step_result rvm" where
  "rv_close insn = xbind rv_frame (\<lambda>f. rv_running (rv_close_upvalues (cf_base f + unat (insn_a insn))))"

definition rv_return :: "nat \<Rightarrow> value \<Rightarrow> step_result rvm" where
  "rv_return stop_frames result =
     xbind rv_frame (\<lambda>f.
     xseq (rv_close_upvalues (cf_base f))
       (xseq (xmod (\<lambda>s. s\<lparr>rv_frames := tl (rv_frames s)\<rparr>))
         (xbind (xget (\<lambda>s. length (rv_frames s))) (\<lambda>n.
            if n = stop_frames
            then xseq (xmod (\<lambda>s. s\<lparr>rv_result := result\<rparr>)) (xreturn (Finished True))
            else rv_running (rv_set_slot (cf_base f - 1) result)))))"

definition rv_print :: "instruction \<Rightarrow> step_result rvm" where
  "rv_print insn =
     xbind (rv_rk_b insn) (\<lambda>v.
       rv_running (xmod (\<lambda>s. s\<lparr>rv_out := rv_out s @ print_value (rv_heap s) v @ [newline]\<rparr>)))"

definition rv_elements :: "instruction \<Rightarrow> value list rvm" where
  "rv_elements insn =
     xbind rv_frame (\<lambda>f. rv_slots (cf_base f + unat (insn_b insn)) (unat (insn_c insn)))"

definition rv_array :: "(obj \<Rightarrow> nat) \<Rightarrow> instruction \<Rightarrow> step_result rvm" where
  "rv_array sz insn =
     xbind (rv_elements insn) (\<lambda>vs. xbind (rv_allocate sz (OArray vs)) (\<lambda>a.
       rv_running (rv_set_reg (insn_a insn) (VObj a))))"

definition rv_array_append :: "instruction \<Rightarrow> step_result rvm" where
  "rv_array_append insn =
     xbind (rv_reg (insn_a insn)) (\<lambda>v.
     xbind (case v of VObj a \<Rightarrow> xreturn a | _ \<Rightarrow> rv_fail_with BadPointer) (\<lambda>a.
     xbind (rv_object a) (\<lambda>ob. xbind (rv_elements insn) (\<lambda>vs.
       case ob of
         OArray old \<Rightarrow> rv_running (rv_set_obj a (OArray (old @ vs)))
       | _ \<Rightarrow> rv_fail_with BadPointer))))"

definition rv_index_get :: "instruction \<Rightarrow> step_result rvm" where
  "rv_index_get insn =
     xbind (rv_rk_b insn) (\<lambda>a. xbind (rv_rk_c insn) (\<lambda>i.
     xbind (xget (\<lambda>s. array_get (rv_heap s) a i)) (rv_checked insn)))"

definition reg_op :: "(obj \<Rightarrow> nat) \<Rightarrow> (nat \<Rightarrow> double) \<Rightarrow> nat \<Rightarrow> instruction \<Rightarrow> regop \<Rightarrow> step_result rvm" where
  "reg_op sz clk stop_frames insn op =
     (case op of
        RgMove \<Rightarrow> xbind (rv_reg (insn_b insn)) (\<lambda>v. rv_running (rv_set_reg (insn_a insn) v))
      | RgLoadK \<Rightarrow> xbind (rv_constant (insn_bx insn)) (\<lambda>v. rv_running (rv_set_reg (insn_a insn) v))
      | RgLoadNil \<Rightarrow> rv_running (rv_set_reg (insn_a insn) VNil)
      | RgLoadTrue \<Rightarrow> rv_running (rv_set_reg (insn_a insn) (VBool True))
      | RgLoadFalse \<Rightarrow> rv_running (rv_set_reg (insn_a insn) (VBool False))
      | RgGetGlobal \<Rightarrow> rv_get_global insn
      | RgSetGlobal \<Rightarrow> rv_set_global insn
      | RgDefineGlobal \<Rightarrow> rv_define_global insn
      | RgGetUpvalue \<Rightarrow> rv_get_upvalue insn
      | RgSetUpvalue \<Rightarrow> rv_set_upvalue insn
      | RgAdd \<Rightarrow> body_add sz insn
      | RgSub \<Rightarrow> rv_binary op_sub insn
      | RgMul \<Rightarrow> rv_binary op_mul insn
      | RgDiv \<Rightarrow> rv_binary op_div insn
      | RgMod \<Rightarrow> rv_binary op_mod insn
      | RgEq \<Rightarrow> rv_binary (\<lambda>x y. Inr (VBool (values_equal x y))) insn
      | RgNe \<Rightarrow> rv_binary (\<lambda>x y. Inr (VBool (\<not> values_equal x y))) insn
      | RgLt \<Rightarrow> rv_binary op_less insn
      | RgLe \<Rightarrow> rv_binary op_less_equal insn
      | RgGt \<Rightarrow> rv_binary op_greater insn
      | RgGe \<Rightarrow> rv_binary op_greater_equal insn
      | RgNeg \<Rightarrow> xbind (rv_rk_b insn) (\<lambda>x. rv_checked insn (op_negate x))
      | RgNot \<Rightarrow> xbind (rv_rk_b insn) (\<lambda>x. rv_running (rv_set_reg (insn_a insn) (op_not x)))
      | RgJump \<Rightarrow> body_jump insn
      | RgJumpIfFalse \<Rightarrow> body_jump_if_false insn
      | RgJumpIfTrue \<Rightarrow> jump_when True insn
      | RgCall \<Rightarrow> rv_call sz clk insn
      | RgClosure \<Rightarrow> rv_make_closure sz insn
      | RgCapture \<Rightarrow> xreturn Running
      | RgClose \<Rightarrow> rv_close insn
      | RgReturn \<Rightarrow> xbind (rv_rk_b insn) (rv_return stop_frames)
      | RgReturnNil \<Rightarrow> rv_return stop_frames VNil
      | RgPrint \<Rightarrow> rv_print insn
      | RgArray \<Rightarrow> rv_array sz insn
      | RgArrayAppend \<Rightarrow> rv_array_append insn
      | RgIndexGet \<Rightarrow> rv_index_get insn
      | RgIndexSet \<Rightarrow> body_index_set insn
      | RgLtJumpIfFalse \<Rightarrow> xbind (rv_binary op_less insn) (second_half body_jump_if_false)
      | RgLeJumpIfFalse \<Rightarrow> xbind (rv_binary op_less_equal insn) (second_half body_jump_if_false)
      | RgAddJump \<Rightarrow> xbind (body_add sz insn) (second_half body_jump)
      | RgModAdd \<Rightarrow> xbind (rv_binary op_mod insn) (second_half (body_add sz))
      | RgDivAdd \<Rightarrow> xbind (rv_binary op_div insn) (second_half (body_add sz))
      | RgIndexSetAdd \<Rightarrow> xbind (body_index_set insn) (second_half (body_add sz)))"

definition reg_step :: "(obj \<Rightarrow> nat) \<Rightarrow> (nat \<Rightarrow> double) \<Rightarrow> nat \<Rightarrow> step_result rvm" where
  "reg_step sz clk stop_frames =
     xbind rv_fetch (\<lambda>insn. xbind (xthe BadCode (rg_of_byte (insn_op insn)))
       (reg_op sz clk stop_frames insn))"

text \<open>The dispatch loop; the fuel counts dispatches.\<close>

fun reg_execute :: "(obj \<Rightarrow> nat) \<Rightarrow> (nat \<Rightarrow> double) \<Rightarrow> nat \<Rightarrow> nat \<Rightarrow> bool rvm" where
  "reg_execute sz clk stop_frames 0 = (\<lambda>s. Timeout)"
| "reg_execute sz clk stop_frames (Suc n) =
     xbind (reg_step sz clk stop_frames) (\<lambda>r.
       case r of Running \<Rightarrow> reg_execute sz clk stop_frames n | Finished ok \<Rightarrow> xreturn ok)"

subsection \<open>Entry points\<close>

definition rv_take_error :: "runtime_error option rvm" where
  "rv_take_error =
     xbind (xget rv_error) (\<lambda>error.
     xseq (xmod (\<lambda>s. s\<lparr>rv_error := None\<rparr>))
       (if error = None then xreturn None
        else
          xseq (rv_close_upvalues 0)
            (xseq (xmod (\<lambda>s. s\<lparr>rv_frames := [], rv_regs := AList.update 0 VNil (rv_regs s)\<rparr>)) (xreturn error))))"

definition rv_compile :: "(obj \<Rightarrow> nat) \<Rightarrow> program \<Rightarrow> (compile_error + addr) rvm" where
  "rv_compile sz p s =
     (case compile_register (rv_superinstructions s) sz (reg_roots s) p (rv_heap s) of
        Ok (Inr (fn, fused), h) \<Rightarrow> Ok (Inr fn, s\<lparr>rv_heap := h, rv_fused := fused\<rparr>)
      | Ok (Inl e, h) \<Rightarrow> Ok (Inl e, s\<lparr>rv_heap := h\<rparr>)
      | Error e \<Rightarrow> Error BadPointer
      | Timeout \<Rightarrow> Timeout)"

definition rv_load :: "(obj \<Rightarrow> nat) \<Rightarrow> nat \<Rightarrow> program \<Rightarrow> (compile_error + unit) rvm" where
  "rv_load sz fuel p =
     xbind (rv_compile sz p) (\<lambda>compiled.
       case compiled of
         Inl error \<Rightarrow> xreturn (Inl error)
       | Inr function \<Rightarrow>
           xbind (xget rv_inline_cache) (\<lambda>cached.
           xseq (if cached then attach_global_caches fuel function else xreturn ())
             (xseq (rv_set_slot 0 (VObj function))
               (xbind (rv_function function) (\<lambda>fo.
                xbind (rv_allocate sz (OClosure function (replicate (fo_upvalue_count fo) None))) (\<lambda>script.
                xseq (rv_set_slot 0 (VObj script))
                  (xseq (xassert StackOverrun (rc_frame_size (fo_reg fo) < kRegisterSlots))
                    (xseq (rv_fill_nil 1 (rc_frame_size (fo_reg fo)))
                      (xseq (xmod (\<lambda>s. s\<lparr>rv_frames := [\<lparr>cf_closure = script, cf_ip = 0, cf_base = 1\<rparr>],
                          rv_uncounted := 1\<rparr>))
                        (xreturn (Inr ())))))))))))"

definition reg_run :: "(obj \<Rightarrow> nat) \<Rightarrow> (nat \<Rightarrow> double) \<Rightarrow> nat \<Rightarrow> program \<Rightarrow>
    (compile_error + runtime_error option) rvm" where
  "reg_run sz clk fuel p =
     xbind (rv_load sz fuel p) (\<lambda>loaded.
       case loaded of
         Inl error \<Rightarrow> xreturn (Inl error)
       | Inr _ \<Rightarrow>
           xbind (reg_execute sz clk 0 fuel) (\<lambda>ok.
           xbind (if ok then xreturn None else rv_take_error) (\<lambda>e.
           xseq (rv_set_slot 0 VNil) (xreturn (Inr e)))))"

definition rv_intern :: "(obj \<Rightarrow> nat) \<Rightarrow> string \<Rightarrow> addr rvm" where
  "rv_intern sz bytes s =
     (let (a, h) = intern sz (reg_roots s) bytes (rv_heap s) in Ok (a, s\<lparr>rv_heap := h\<rparr>))"

definition rv_call_finish :: "(obj \<Rightarrow> nat) \<Rightarrow> (nat \<Rightarrow> double) \<Rightarrow> nat \<Rightarrow> nat \<Rightarrow> call_outcome \<Rightarrow>
    (value \<times> runtime_error option) rvm" where
  "rv_call_finish sz clk fuel stop_frames called =
     (case called of
        NativeDone \<Rightarrow> xbind (rv_slot 0) (\<lambda>v. xreturn (v, None))
      | PushedFrame \<Rightarrow>
          xbind (reg_execute sz clk stop_frames fuel) (\<lambda>ok.
            if ok then xbind (xget rv_result) (\<lambda>v. xreturn (v, None))
            else xbind rv_take_error (\<lambda>e. xreturn (VNil, e)))
      | CallError \<Rightarrow> xbind rv_take_error (\<lambda>e. xreturn (VNil, e)))"

definition rv_call_global :: "(obj \<Rightarrow> nat) \<Rightarrow> (nat \<Rightarrow> double) \<Rightarrow> nat \<Rightarrow> string \<Rightarrow>
    (value \<times> runtime_error option) rvm" where
  "rv_call_global sz clk fuel name =
     xbind (rv_intern sz name) (\<lambda>key.
     xbind (xget (\<lambda>s. map_of (rv_globals s) key)) (\<lambda>found.
       case found of
         None \<Rightarrow> xreturn (VNil, Some \<lparr>re_line = 0, re_message = undefined_variable_message name\<rparr>)
       | Some callee \<Rightarrow>
           xseq (xmod (\<lambda>s. s\<lparr>rv_uncounted := 0\<rparr>))
             (xbind (xget (\<lambda>s. length (rv_frames s))) (\<lambda>stop_frames.
              xseq (rv_set_slot 0 callee)
                (xbind (rv_call_value sz clk 0 0) (\<lambda>called.
                 xbind (rv_call_finish sz clk fuel stop_frames called) (\<lambda>r.
                 xseq (rv_set_slot 0 VNil) (xreturn r))))))))"

text \<open>The constructor.\<close>

definition rv_define_native :: "(obj \<Rightarrow> nat) \<Rightarrow> string \<Rightarrow> value \<Rightarrow> reg_vm \<Rightarrow> reg_vm" where
  "rv_define_native sz name native s =
     (let (a, h) = intern sz (reg_roots s) name (rv_heap s)
      in s\<lparr>rv_heap := h, rv_globals := AList.update a native (rv_globals s)\<rparr>)"

definition empty_reg_vm :: "bool \<Rightarrow> bool \<Rightarrow> heap \<Rightarrow> reg_vm" where
  "empty_reg_vm inline_cache superinstructions h =
     \<lparr>rv_heap = h, rv_regs = [(0, VNil)], rv_frames = [], rv_uncounted = 0, rv_open = [], rv_globals = [],
      rv_inline_cache = inline_cache, rv_superinstructions = superinstructions, rv_cache = [],
      rv_fused = 0, rv_result = VNil, rv_error = None, rv_out = [], rv_ticks = 0\<rparr>"

definition init_reg_vm :: "(obj \<Rightarrow> nat) \<Rightarrow> bool \<Rightarrow> bool \<Rightarrow> heap \<Rightarrow> reg_vm" where
  "init_reg_vm sz inline_cache superinstructions h =
     register_natives sz rv_heap (\<lambda>h s. s\<lparr>rv_heap := h\<rparr>) reg_roots (rv_define_native sz)
       (empty_reg_vm inline_cache superinstructions h)"

end
