(* ===== verification/Reg_Compiler_Safe.thy ===== *)
theory Reg_Compiler_Safe
  imports Compiler_Host Reg_Compiler
begin

text \<open>
  The register compiler keeps the contract of \<open>heap_compiler\<close>: whatever the tree is, the heap of its
  machine stays sound, what the machine marks stays live, and the open upvalues stay as they are.
\<close>

declare xwp_simps [simp]

interpretation rc: heap_compiler rg_heap "\<lambda>h s. s\<lparr>rg_heap := h\<rparr>" rcompiler_roots
  by unfold_locales (simp_all add: rcompiler_roots_def)

abbreviation rc_inv :: "addr list \<Rightarrow> addr list \<Rightarrow> reg_compiler \<Rightarrow> bool" where
  "rc_inv \<equiv> rc.inv"

abbreviation keeps_r :: "addr list \<Rightarrow> addr list \<Rightarrow> 'a rm \<Rightarrow> bool" where
  "keeps_r \<equiv> rc.keeps"

abbreviation rcok :: "addr list \<Rightarrow> addr list \<Rightarrow> 'a rm \<Rightarrow> reg_compiler \<Rightarrow> ('a \<Rightarrow> reg_compiler \<Rightarrow> bool) \<Rightarrow> bool" where
  "rcok outer opens m s Q \<equiv> xwp m s Q (stop_ok outer opens)"

subsection \<open>Primitives\<close>

lemma keeps_r_too_large: "keeps_r outer opens (r_too_large line)"
  unfolding r_too_large_def by (rule rc.keeps_stop)

lemma rc_inv_chain:
  "rc_inv outer opens s \<Longrightarrow> set (map rf_function fs) \<subseteq> set (map rf_function (rg_current s)) \<Longrightarrow>
   rc_inv outer opens (s\<lparr>rg_current := fs\<rparr>)"
  by (erule rc.inv_fewer) (simp_all add: rcompiler_roots_def)

lemma rcok_current: "(\<And>f. f \<in> set (rg_current s) \<Longrightarrow> Q f s) \<Longrightarrow> rcok outer opens r_current s Q"
  by (simp add: r_current_def split: list.split)

lemma keeps_r_current: "keeps_r outer opens r_current"
  by (rule rc.keepsI) (rule rcok_current)

lemma keeps_r_update: "(\<And>f. rf_function (g f) = rf_function f) \<Longrightarrow> keeps_r outer opens (r_update g)"
  by (rule rc.keepsI) (auto simp: r_update_def intro!: rc_inv_chain split: list.split)

lemma rcok_get_function: "(\<And>f. obj_at (rg_heap s) a = Some (OFunction f) \<Longrightarrow> Q f s) \<Longrightarrow> rcok outer opens (r_get_function a) s Q"
  by (simp add: r_get_function_def split: option.split obj.split)

lemma keeps_r_get_function: "keeps_r outer opens (r_get_function a)"
  by (rule rc.keepsI) (rule rcok_get_function)

definition r_live_in :: "reg_compiler \<Rightarrow> value \<Rightarrow> bool" where
  "r_live_in s v \<longleftrightarrow> (\<forall>b\<in>set (value_addrs v). obj_at (rg_heap s) b \<noteq> None)"

lemma r_live_in_scalar [simp]: "r_live_in s VNil" "r_live_in s (VBool b)" "r_live_in s (VInt i)" "r_live_in s (VFloat d)"
  by (simp_all add: r_live_in_def value_addrs_def)

lemma rc_inv_root: "rc_inv outer opens s \<Longrightarrow> f \<in> set (rg_current s) \<Longrightarrow> obj_at (rg_heap s) (rf_function f) \<noteq> None"
  by (erule rc.inv_root) (simp add: rcompiler_roots_def)

lemma rcok_set_function:
  assumes "rc_inv outer opens s"
    "\<And>f b. b \<in> set (trace (OFunction (g f))) \<Longrightarrow> b \<in> set (trace (OFunction f)) \<or> obj_at (rg_heap s) b \<noteq> None"
    "\<And>h. rc_inv outer opens (s\<lparr>rg_heap := h\<rparr>) \<Longrightarrow> (\<And>b. obj_at h b = None \<longleftrightarrow> obj_at (rg_heap s) b = None) \<Longrightarrow> Q () (s\<lparr>rg_heap := h\<rparr>)"
  shows "rcok outer opens (r_set_function a g) s Q"
  unfolding r_set_function_def xwp_bind xwp_mod
proof (rule rcok_get_function)
  fix f assume o: "obj_at (rg_heap s) a = Some (OFunction f)"
  have "rc_inv outer opens (s\<lparr>rg_heap := set_obj a (OFunction (g f)) (rg_heap s)\<rparr>)"
    by (rule rc.inv_set_function [OF assms(1) o assms(2)])
  then show "Q () (s\<lparr>rg_heap := set_obj a (OFunction (g f)) (rg_heap s)\<rparr>)"
    by (rule assms(3)) (simp add: heap_simps o)
qed

lemma keeps_r_set_function:
  "(\<And>f. set (trace (OFunction (g f))) \<subseteq> set (trace (OFunction f))) \<Longrightarrow> keeps_r outer opens (r_set_function a g)"
  by (rule rc.keepsI, rule rcok_set_function) blast+

lemma rcok_code: "(\<And>c. Q c s) \<Longrightarrow> rcok outer opens r_code s Q"
  by (simp add: r_code_def rcok_current rcok_get_function)

lemma keeps_r_code: "keeps_r outer opens r_code"
  by (rule rc.keepsI) (rule rcok_code)

lemma keeps_here: "keeps_r outer opens here"
  unfolding here_def by (intro rc.keeps_bind rc.keeps_simple keeps_r_code)

lemma keeps_r_set_code: "(\<And>c. rc_constants (g c) = rc_constants c) \<Longrightarrow> keeps_r outer opens (r_set_code g)"
  unfolding r_set_code_def by (intro rc.keeps_bind keeps_r_current keeps_r_set_function) simp

lemma keeps_r_emit:
  "keeps_r outer opens (r_emit insn line)" "keeps_r outer opens (emit_abc op a b c line)"
  "keeps_r outer opens (emit_abx op a k line)" "keeps_r outer opens (emit_rk op a x y line)"
  "keeps_r outer opens (emit_rk_b op a x line)" "keeps_r outer opens (r_emit_jump op a line)"
  "keeps_r outer opens (r_patch_jump k line)" "keeps_r outer opens (r_emit_loop k line)"
  unfolding r_emit_def emit_abc_def emit_abx_def emit_rk_def emit_rk_b_def r_emit_jump_def r_patch_jump_def
    r_emit_loop_def Let_def
  by (intro rc.keeps_bind rc.keeps_cond rc.keeps_simple keeps_here keeps_r_code keeps_r_set_code keeps_r_too_large;
      simp add: reg_emit_def set_jump_def)+

lemma keeps_registers:
  "keeps_r outer opens (reserve line)" "keeps_r outer opens free_reg" "keeps_r outer opens (set_free_reg k)"
  "keeps_r outer opens local_count" "keeps_r outer opens (dest_is_top_temp k)" "keeps_r outer opens no_temporaries"
  unfolding reserve_def free_reg_def set_free_reg_def local_count_def dest_is_top_temp_def no_temporaries_def Let_def
  by (intro rc.keeps_bind rc.keeps_cond rc.keeps_simple keeps_r_current keeps_r_update keeps_r_set_code
      keeps_r_too_large; simp)+

subsection \<open>Constants and names\<close>

lemma rcok_set_code:
  assumes inv: "rc_inv outer opens s" and v: "r_live_in s v" and Q: "\<And>h. rc_inv outer opens (s\<lparr>rg_heap := h\<rparr>) \<Longrightarrow> Q () (s\<lparr>rg_heap := h\<rparr>)"
  shows "rcok outer opens (r_set_code (\<lambda>c. snd (reg_add_constant v c))) s Q"
  unfolding r_set_code_def xwp_bind
proof (rule rcok_current, rule rcok_set_function [OF inv])
  show "b \<in> set (trace (OFunction f)) \<or> obj_at (rg_heap s) b \<noteq> None"
    if "b \<in> set (trace (OFunction (f\<lparr>fo_reg := snd (reg_add_constant v (fo_reg f))\<rparr>)))" for f b
    using that v by (auto simp: reg_add_constant_def r_live_in_def)
qed (rule Q)

lemma rcok_constant:
  assumes inv: "rc_inv outer opens s" and v: "r_live_in s v"
  shows "rcok outer opens (r_constant tag bits v) s (\<lambda>_. rc_inv outer opens)"
proof -
  have "keeps_r outer opens (xseq (r_update (\<lambda>f. f\<lparr>rf_constants := ((tag, bits), k) # rf_constants f\<rparr>)) (xreturn k))" for k
    by (intro rc.keeps_bind keeps_r_update rc.keeps_simple) simp
  then have "rcok outer opens (xseq (r_set_code (\<lambda>c. snd (reg_add_constant v c)))
      (xseq (r_update (\<lambda>f. f\<lparr>rf_constants := ((tag, bits), k) # rf_constants f\<rparr>)) (xreturn k))) s
      (\<lambda>_. rc_inv outer opens)" for k
    unfolding xwp_bind [of "r_set_code _"] by (intro rcok_set_code [OF inv v] rc.keepsD)
  then show ?thesis
    using inv unfolding r_constant_def Let_def xwp_bind [of r_current]
    by (intro rcok_current) (simp add: rcok_code del: xwp_bind xwp_return split: option.split,
      simp add: xwp_bind [of r_code] rcok_code del: xwp_bind)
qed

lemma rcok_intern:
  assumes "rc_inv outer opens s"
    and "\<And>a h. rc_inv outer opens (s\<lparr>rg_heap := h\<rparr>) \<Longrightarrow> obj_at h a = Some (OString bytes) \<Longrightarrow> Q a (s\<lparr>rg_heap := h\<rparr>)"
  shows "rcok outer opens (r_intern sz outer bytes) s Q"
proof -
  obtain a h where i: "intern sz (outer @ rcompiler_roots s) bytes (rg_heap s) = (a, h)" by fastforce
  show ?thesis using assms(2) rc.inv_interned [OF assms(1) i] by (simp add: xwp_def r_intern_def i)
qed

lemma keeps_r_string_constant: "keeps_r outer opens (r_string_constant sz outer bytes)"
  unfolding r_string_constant_def
  by (rule rc.keepsI, unfold xwp_bind, erule rcok_intern, erule rcok_constant) (simp add: r_live_in_def value_addrs_def)

lemma keeps_r_constant: "(\<And>s. r_live_in s v) \<Longrightarrow> keeps_r outer opens (r_constant tag bits v)"
  by (rule rc.keepsI) (rule rcok_constant)

lemma keeps_literal_constant: "keeps_r outer opens (literal_constant sz outer lit)"
  by (cases lit; simp only: literal_constant_def literal.case)
    (intro keeps_r_constant keeps_r_string_constant; simp)+

text \<open>A function object is allocated with its name, if it has one, as a temporary root.\<close>

lemma rcok_function_object:
  assumes inv: "rc_inv outer opens s"
    and Q: "\<And>fn h. rc_inv outer opens (s\<lparr>rg_heap := h\<rparr>) \<Longrightarrow> obj_at h fn \<noteq> None \<Longrightarrow> Q fn (s\<lparr>rg_heap := h\<rparr>)"
  shows "rcok outer opens
    (if name = [] then r_allocate sz outer (new_function None)
     else xbind (r_intern sz outer name) (\<lambda>a.
       xbind (xmod (\<lambda>s. s\<lparr>rg_heap := push_temp (VObj a) (rg_heap s)\<rparr>)) (\<lambda>_.
       xbind (r_allocate sz outer (new_function (Some a))) (\<lambda>fn.
       xbind (xmod (\<lambda>s. s\<lparr>rg_heap := pop_temp (rg_heap s)\<rparr>)) (\<lambda>_. xreturn fn))))) s Q"
proof (cases "name = []")
  case True
  obtain a h where al: "allocate sz (outer @ rcompiler_roots s) (new_function None) (rg_heap s) = (a, h)" by fastforce
  from Q [OF rc.inv_new_function [OF inv _ al]] True show ?thesis by (simp add: xwp_def r_allocate_def al)
next
  case False
  have named: "rcok outer opens
      (xbind (xmod (\<lambda>s. s\<lparr>rg_heap := push_temp (VObj a) (rg_heap s)\<rparr>)) (\<lambda>_.
       xbind (r_allocate sz outer (new_function (Some a))) (\<lambda>fn.
       xbind (xmod (\<lambda>s. s\<lparr>rg_heap := pop_temp (rg_heap s)\<rparr>)) (\<lambda>_. xreturn fn)))) (s\<lparr>rg_heap := k\<rparr>) Q"
    if t: "rc_inv outer opens (s\<lparr>rg_heap := k\<rparr>)" and a: "obj_at k a = Some (OString name)" for a k
  proof -
    obtain fn h where al: "allocate sz (outer @ rcompiler_roots (s\<lparr>rg_heap := k\<rparr>)) (new_function (Some a))
        (push_temp (VObj a) (rg_heap (s\<lparr>rg_heap := k\<rparr>))) = (fn, h)" by fastforce
    have "obj_at (rg_heap (s\<lparr>rg_heap := k\<rparr>)) a = Some (OString name)" using a by simp
    from rc.inv_named_function [OF t this al] have "Q fn (s\<lparr>rg_heap := pop_temp h\<rparr>)" by (intro Q) simp_all
    then show ?thesis using al by (simp add: rcompiler_roots_def xwp_def xbind_def xmod_def r_allocate_def xreturn_def)
  qed
  show ?thesis unfolding if_not_P [OF False] xwp_bind [of "r_intern _ _ _"] by (rule rcok_intern [OF inv]) (rule named)
qed

lemma keeps_r_begin_function: "keeps_r outer opens (r_begin_function sz outer name)"
  unfolding r_begin_function_def
  by (rule rc.keepsI, unfold xwp_bind [of "if _ then _ else _"], erule rcok_function_object, unfold xwp_mod,
      erule rc.inv_more) (auto simp: rcompiler_roots_def)

subsection \<open>Locals and upvalues\<close>

lemma keeps_r_add_local: "keeps_r outer opens (r_add_local name)"
  unfolding r_add_local_def by (intro rc.keeps_bind keeps_r_current rc.keeps_simple keeps_r_update) simp

lemma r_add_upvalue_function: "r_add_upvalue fn i l = Some (k, fn') \<Longrightarrow> rf_function fn' = rf_function fn"
  by (auto simp: r_add_upvalue_def Let_def split: option.splits if_splits)

lemma r_resolve_upvalue_functions:
  "r_resolve_upvalue name fs = Some (r, fs') \<Longrightarrow> map rf_function fs' = map rf_function fs"
proof (induction name fs arbitrary: r fs' rule: r_resolve_upvalue.induct)
  case (1 name fn enclosing rest)
  then show ?case
    by (cases "r_resolve_local enclosing name")
      (auto simp: r_capture_local_def dest!: r_add_upvalue_function split: option.splits)
qed auto

lemma keeps_find_local: "keeps_r outer opens (r_find_local name)"
proof (rule rc.keepsI)
  fix s assume inv: "rc_inv outer opens s"
  let ?up = "xbind (xget rg_current) (\<lambda>chain.
      xbind (xthe Stuck (r_resolve_upvalue name chain)) (\<lambda>(upvalue, chain).
      xseq (xmod (\<lambda>s. s\<lparr>rg_current := chain\<rparr>)) (xbind (xthe Stuck upvalue) (\<lambda>u. xreturn (InUpvalue u)))))"
  have "rcok outer opens ?up s (\<lambda>_. rc_inv outer opens)"
  proof (cases "r_resolve_upvalue name (rg_current s)")
    case (Some p)
    then obtain r chain where p: "r_resolve_upvalue name (rg_current s) = Some (r, chain)" by (cases p) auto
    have "rc_inv outer opens (s\<lparr>rg_current := chain\<rparr>)"
      by (rule rc_inv_chain [OF inv]) (simp only: r_resolve_upvalue_functions [OF p] subset_refl)
    then show ?thesis using p by (simp split: option.split)
  qed simp
  then have "rcok outer opens (case r of Some reg \<Rightarrow> xreturn (InRegister reg) | None \<Rightarrow> ?up) s (\<lambda>_. rc_inv outer opens)" for r
    using inv by (cases r) (simp_all only: option.case xwp_return)
  then show "rcok outer opens (r_find_local name) s (\<lambda>_. rc_inv outer opens)"
    unfolding r_find_local_def xwp_bind [of r_current] by (intro rcok_current)
qed

lemma keeps_r_end_scope: "keeps_r outer opens (r_end_scope line)"
proof -
  have "keeps_r outer opens (case c of None \<Rightarrow> xreturn () | Some i \<Rightarrow> emit_abc RgClose i 0 0 line)" for c
    by (cases c) (simp_all only: option.case keeps_r_emit rc.keeps_simple)
  then show ?thesis
    unfolding r_end_scope_def Let_def case_prod_beta
    by (intro rc.keeps_bind keeps_r_update keeps_r_current keeps_registers; simp)
qed

subsection \<open>Expressions\<close>

lemma keeps_operand:
  assumes "\<And>d. keeps_r outer opens (compile d)"
  shows "keeps_r outer opens (operand sz outer compile e allow_const snapshot)"
proof -
  have t: "keeps_r outer opens (into_temp compile line)" for line
    unfolding into_temp_def by (intro rc.keeps_bind keeps_registers assms rc.keeps_simple)
  have r: "keeps_r outer opens (case ref of InRegister reg \<Rightarrow> xreturn (register_operand reg)
      | InUpvalue u \<Rightarrow> into_temp compile line)" for ref line
    by (cases ref) (simp_all only: local_ref.case t rc.keeps_simple)
  have b: "keeps_r outer opens (case b of LocalBinding hops \<Rightarrow>
        (if \<not> snapshot then xbind (r_find_local name) (\<lambda>ref.
           case ref of InRegister reg \<Rightarrow> xreturn (register_operand reg) | InUpvalue u \<Rightarrow> into_temp compile line)
         else into_temp compile line)
      | _ \<Rightarrow> into_temp compile l)" for b name line l
    by (cases b; simp only: binding.case) (intro rc.keeps_cond rc.keeps_bind keeps_find_local r t)+
  show ?thesis
    by (cases e; simp only: operand_def expr.case)
      (use b in \<open>intro rc.keeps_cond rc.keeps_bind keeps_literal_constant rc.keeps_simple t | simp only: binding.case\<close>)+
qed

lemma keeps_move_operand: "keeps_r outer opens (move_operand_to dest src line)"
  unfolding move_operand_to_def by (intro rc.keeps_cond keeps_r_emit rc.keeps_simple)

lemma keeps_r_literal: "keeps_r outer opens (r_literal sz outer lit line dest)"
  by (cases lit; simp only: r_literal_def literal.case)
    (intro rc.keeps_bind keeps_r_emit keeps_literal_constant)+

lemma keeps_r_variable: "keeps_r outer opens (r_variable sz outer x b line dest)"
proof -
  have "keeps_r outer opens (case ref of InRegister reg \<Rightarrow> move_operand_to dest (register_operand reg) line
      | InUpvalue u \<Rightarrow> emit_abc RgGetUpvalue dest u 0 line)" for ref
    by (cases ref) (simp_all only: local_ref.case keeps_move_operand keeps_r_emit)
  then show ?thesis
    by (cases b; simp only: r_variable_def binding.case)
      (intro rc.keeps_bind keeps_r_emit keeps_r_string_constant keeps_find_local rc.keeps_simple)+
qed

lemma keeps_r_assign:
  assumes "\<And>d. keeps_r outer opens (compile d)"
  shows "keeps_r outer opens (r_assign sz outer compile x b line dest)"
proof -
  have d: "keeps_r outer opens (case dest of None \<Rightarrow> xreturn () | Some d \<Rightarrow> move_operand_to d src line)" for src
    by (cases dest) (simp_all only: option.case keeps_move_operand rc.keeps_simple)
  have "keeps_r outer opens (case dest of Some d \<Rightarrow> xreturn d | None \<Rightarrow> reserve line)"
    by (cases dest) (simp_all only: option.case keeps_registers rc.keeps_simple)
  then have v: "keeps_r outer opens (assign_value compile line dest)"
    unfolding assign_value_def by (intro rc.keeps_bind assms rc.keeps_simple)
  have "keeps_r outer opens (case ref of
        InRegister reg \<Rightarrow> xseq (compile reg) (case dest of None \<Rightarrow> xreturn ()
          | Some d \<Rightarrow> move_operand_to d (register_operand reg) line)
      | InUpvalue u \<Rightarrow> xbind (assign_value compile line dest) (\<lambda>v.
          xseq (emit_abc RgSetUpvalue v u 0 line) (set_free_reg save)))" for ref save
    by (cases ref) (simp_all only: local_ref.case, (intro rc.keeps_bind assms d v keeps_r_emit keeps_registers)+)
  then show ?thesis
    unfolding r_assign_def
    by (cases b; simp only: binding.case)
      (intro rc.keeps_bind v keeps_r_emit keeps_r_string_constant keeps_find_local keeps_registers rc.keeps_simple)+
qed

lemma keeps_r_logical:
  assumes "\<And>d. keeps_r outer opens (left d)" "\<And>d. keeps_r outer opens (right d)"
  shows "keeps_r outer opens (r_logical op left right line dest)"
  unfolding r_logical_def logical_into_def
  by (intro rc.keeps_bind rc.keeps_cond keeps_registers keeps_r_emit keeps_move_operand assms)

lemma keeps_index_assign:
  assumes "\<And>d. keeps_r outer opens (c_ob d)" "\<And>d. keeps_r outer opens (c_i d)" "\<And>d. keeps_r outer opens (c_v d)"
  shows "keeps_r outer opens (index_assign sz outer c_ob c_i c_v ob i v line dest)"
proof -
  have "keeps_r outer opens (case dest of None \<Rightarrow> xreturn () | Some d \<Rightarrow> move_operand_to d src line)" for src
    by (cases dest) (simp_all only: option.case keeps_move_operand rc.keeps_simple)
  then show ?thesis
    unfolding index_assign_def by (intro rc.keeps_bind keeps_registers keeps_operand assms keeps_r_emit)
qed

lemma keeps_emit_array: "keeps_r outer opens (emit_array first target start batch line)"
  unfolding emit_array_def by (intro rc.keeps_bind keeps_r_emit keeps_registers)

lemma keeps_r_exprs:
  "keeps_r outer opens (r_expr sz outer e dest)" "keeps_r outer opens (r_args sz outer es reg line)"
  "keeps_r outer opens (r_elements sz outer es first n target start line)"
proof (induction sz outer e dest and sz outer es reg line and sz outer es first n target start line
    rule: r_expr_r_args_r_elements.induct)
qed (simp only: r_expr.simps r_args.simps r_elements.simps,
  intro rc.keeps_bind rc.keeps_cond rc.keeps_simple keeps_r_literal keeps_r_variable keeps_r_assign keeps_operand
    keeps_r_logical keeps_index_assign keeps_emit_array keeps_move_operand keeps_r_emit keeps_registers; assumption)+

subsection \<open>Statements\<close>

lemma keeps_r_small:
  "keeps_r outer opens (jump_if_false sz outer c line)" "keeps_r outer opens (r_define_global sz outer name reg save line)"
  "keeps_r outer opens (r_print sz outer e line)"
  unfolding jump_if_false_def r_define_global_def r_print_def
  by (intro rc.keeps_bind rc.keeps_simple keeps_operand keeps_r_exprs keeps_r_emit keeps_registers keeps_r_string_constant)+

lemma keeps_r_expr_stmt: "keeps_r outer opens (r_expr_stmt sz outer e line)"
  unfolding r_expr_stmt_def
  by (intro rc.keeps_bind keeps_registers; cases e; simp only: expr.case)
    (intro rc.keeps_bind keeps_r_assign keeps_index_assign keeps_r_exprs keeps_registers)+

lemma keeps_r_let: "keeps_r outer opens (r_let sz outer x init line)"
proof -
  have "keeps_r outer opens (case init of Some e \<Rightarrow> r_expr sz outer e reg | None \<Rightarrow> emit_abc RgLoadNil reg 0 0 line)" for reg
    by (cases init) (simp_all only: option.case keeps_r_exprs keeps_r_emit)
  then show ?thesis
    unfolding r_let_def by (intro rc.keeps_bind rc.keeps_cond rc.keeps_simple keeps_registers keeps_r_small keeps_r_add_local)
qed

lemma keeps_r_return: "keeps_r outer opens (r_return sz outer e line)"
  by (cases e; simp only: r_return_def option.case)
    (intro rc.keeps_bind keeps_registers keeps_operand keeps_r_exprs keeps_r_emit)+

lemma keeps_r_params:
  "keeps_r outer opens m \<Longrightarrow>
   keeps_r outer opens (fold (\<lambda>p m. xseq m (xseq (reserve line) (r_add_local (sv_text p)))) params m)"
  by (induction params arbitrary: m) (simp_all add: rc.keeps_bind keeps_registers keeps_r_add_local)

lemma keeps_r_open_function: "keeps_r outer opens (r_open_function sz outer name params line)"
  unfolding r_open_function_def
  by (intro rc.keeps_bind keeps_r_begin_function keeps_r_update keeps_r_params keeps_r_current keeps_r_set_function
      rc.keeps_simple) simp_all

lemma keeps_captures: "keeps_r outer opens (emit_captures ups line)"
  by (induction ups) (simp_all only: emit_captures.simps rc.keeps_bind keeps_r_emit rc.keeps_simple)

lemma keeps_finish_function: "keeps_r outer opens (finish_function si fn)"
proof (rule rc.keepsI)
  fix s assume inv: "rc_inv outer opens s"
  have "rcok outer opens (let (n, code) = fuse_superinstructions (fo_reg f) in
      xseq (r_set_function fn (\<lambda>f. f\<lparr>fo_reg := code\<rparr>)) (xmod (\<lambda>s. s\<lparr>rg_fused := rg_fused s + n\<rparr>))) s
      (\<lambda>_. rc_inv outer opens)" if "obj_at (rg_heap s) fn = Some (OFunction f)" for f
  proof -
    let ?c = "snd (fuse_superinstructions (fo_reg f))"
    have "rc_constants ?c = rc_constants (fo_reg f)" by (simp add: fuse_superinstructions_def case_prod_beta)
    then have "rc_inv outer opens (s\<lparr>rg_heap := set_obj fn (OFunction (f\<lparr>fo_reg := ?c\<rparr>)) (rg_heap s)\<rparr>)"
      by (intro rc.inv_set_function [OF inv that]) auto
    then have "rc_inv outer opens (s\<lparr>rg_heap := set_obj fn (OFunction (f\<lparr>fo_reg := ?c\<rparr>)) (rg_heap s), rg_fused := k\<rparr>)" for k
      by (rule rc.inv_fewer) (simp_all add: rcompiler_roots_def)
    then show ?thesis by (simp add: case_prod_beta Let_def r_set_function_def r_get_function_def that)
  qed
  then show "rcok outer opens (finish_function si fn) s (\<lambda>_. rc_inv outer opens)"
    using inv unfolding finish_function_def
    by (cases si) (simp_all only: if_True if_False xwp_return xwp_bind [of "r_get_function _"] rcok_get_function)
qed

lemma keeps_r_close_function: "keeps_r outer opens (r_close_function si line dest)"
  unfolding r_close_function_def
proof (intro rc.keeps_bind [OF keeps_r_emit(2)], rule rc.keepsI)
  fix s assume inv: "rc_inv outer opens s"
  let ?tail = "\<lambda>state. xbind r_code (\<lambda>c.
     xseq (r_set_code (\<lambda>c. snd (reg_add_constant (VObj (rf_function state)) c)))
       (xseq (emit_abx RgClosure dest (length (rc_constants c)) line) (emit_captures (rf_upvalues state) line)))"
  let ?count = "\<lambda>state. r_set_function (rf_function state) (\<lambda>f. f\<lparr>fo_upvalue_count := length (rf_upvalues state)\<rparr>)"
  have tail: "rcok outer opens (?tail state) t (\<lambda>_. rc_inv outer opens)"
    if t: "rc_inv outer opens t" and live: "obj_at (rg_heap t) (rf_function state) \<noteq> None" for t state
  proof -
    have k: "keeps_r outer opens (xseq (emit_abx RgClosure dest n line) (emit_captures (rf_upvalues state) line))" for n
      by (intro rc.keeps_bind keeps_r_emit keeps_captures)
    show ?thesis
      unfolding xwp_bind [of r_code] xwp_bind [of "r_set_code _"]
      by (rule rcok_code, rule rcok_set_code [OF t])
        (use live in \<open>auto simp: r_live_in_def value_addrs_def simp del: xwp_bind intro: rc.keepsD [OF k]\<close>)
  qed
  have fin: "rcok outer opens (finish_function si fn) t (\<lambda>_ u. rc_inv outer opens u \<and>
      (\<forall>b. obj_at (rg_heap u) b = None \<longleftrightarrow> obj_at (rg_heap t) b = None) \<and> rg_current u = rg_current t)"
    if "rc_inv outer opens t" for t fn
  proof -
    note k = rc.keepsD [OF keeps_finish_function that, of si fn]
    have "rcok outer opens (finish_function si fn) t (\<lambda>_ u.
        (\<forall>b. obj_at (rg_heap u) b = None \<longleftrightarrow> obj_at (rg_heap t) b = None) \<and> rg_current u = rg_current t)"
      by (auto simp: finish_function_def r_set_function_def r_get_function_def case_prod_beta Let_def heap_simps
          split: option.split obj.split)
    with k show ?thesis by (auto simp: xwp_def split: outcome.splits)
  qed
  show "rcok outer opens (xbind r_current (\<lambda>state.
       xseq (finish_function si (rf_function state))
         (xseq (?count state) (xseq (xmod (\<lambda>s. s\<lparr>rg_current := tl (rg_current s)\<rparr>)) (?tail state))))) s
      (\<lambda>_. rc_inv outer opens)"
    unfolding xwp_bind [of r_current] xwp_bind [of "finish_function _ _"] xwp_bind [of "r_set_function _ _"]
      xwp_bind [of "xmod _"] xwp_mod
  proof (rule rcok_current, rule xwp_mono [OF fin [OF inv]])
    fix state x t
    assume state: "state \<in> set (rg_current s)" and t: "rc_inv outer opens t \<and>
      (\<forall>b. obj_at (rg_heap t) b = None \<longleftrightarrow> obj_at (rg_heap s) b = None) \<and> rg_current t = rg_current s"
    show "rcok outer opens (?count state) t (\<lambda>_ u. rcok outer opens (?tail state) (u\<lparr>rg_current := tl (rg_current u)\<rparr>)
        (\<lambda>_. rc_inv outer opens))"
    proof (rule rcok_set_function)
      show "rc_inv outer opens t" using t by blast
      fix h
      assume i: "rc_inv outer opens (t\<lparr>rg_heap := h\<rparr>)" and same: "\<And>b. obj_at h b = None \<longleftrightarrow> obj_at (rg_heap t) b = None"
      have "rc_inv outer opens (t\<lparr>rg_heap := h, rg_current := tl (rg_current (t\<lparr>rg_heap := h\<rparr>))\<rparr>)"
        by (rule rc_inv_chain [OF i]) (cases "rg_current t", auto)
      moreover have "obj_at h (rf_function state) \<noteq> None" using rc_inv_root [OF inv state] same t by simp
      ultimately show "rcok outer opens (?tail state) (t\<lparr>rg_heap := h, rg_current := tl (rg_current (t\<lparr>rg_heap := h\<rparr>))\<rparr>)
          (\<lambda>_. rc_inv outer opens)" by (intro tail) simp_all
    qed simp
  qed
qed

lemma keeps_r_stmts: "keeps_r outer opens (r_stmt si sz outer st)" "keeps_r outer opens (r_stmts si sz outer sts)"
proof (induction si sz outer st and si sz outer sts rule: r_stmt_r_stmts.induct)
qed (simp only: r_stmt.simps r_stmts.simps, intro rc.keeps_bind rc.keeps_cond keeps_registers keeps_r_small
  keeps_r_expr_stmt keeps_r_let keeps_r_return keeps_r_end_scope keeps_r_emit keeps_here keeps_r_add_local
  keeps_r_open_function keeps_r_close_function rc.keeps_simple; (assumption | simp add: keeps_r_update))+

subsection \<open>The script\<close>

lemma rcok_script:
  assumes "rc_inv outer opens s"
  shows "rcok outer opens (r_compile_script si sz outer p) s
    (\<lambda>fn t. host_ok outer opens (rg_heap t) \<and> obj_at (rg_heap t) fn \<noteq> None)"
  unfolding r_compile_script_def
proof (intro rc.bind_keeps [OF keeps_r_begin_function assms] rc.bind_keeps [OF keeps_r_stmts(2)]
    rc.bind_keeps [OF keeps_r_emit(2)], assumption+, unfold xwp_bind [of r_current], rule rcok_current)
  fix t state
  assume i: "rc_inv outer opens t" and state: "state \<in> set (rg_current t)"
  show "rcok outer opens (xseq (finish_function si (rf_function state)) (xseq (xmod (\<lambda>s. s\<lparr>rg_current := []\<rparr>))
      (xreturn (rf_function state)))) t (\<lambda>fn t. host_ok outer opens (rg_heap t) \<and> obj_at (rg_heap t) fn \<noteq> None)"
  proof -
    have "rcok outer opens (finish_function si (rf_function state)) t (\<lambda>_ u. rg_current u = rg_current t)"
      by (auto simp: finish_function_def r_set_function_def r_get_function_def case_prod_beta Let_def
          split: option.split obj.split)
    with rc.keepsD [OF keeps_finish_function i, of si "rf_function state"]
    have "rcok outer opens (finish_function si (rf_function state)) t
        (\<lambda>_ u. rc_inv outer opens u \<and> rg_current u = rg_current t)"
      by (auto simp: xwp_def split: outcome.splits)
    then show ?thesis
      unfolding xwp_bind xwp_mod xwp_return
      by (rule xwp_mono) (use state rc.inv_outer rc_inv_root in fastforce)+
  qed
qed

lemma compile_register_ok:
  assumes "host_ok roots opens h" "compile_register si sz roots p h = Ok (r, h')"
  shows "host_ok roots opens h'" "r = Inr (fn, n) \<Longrightarrow> obj_at h' fn \<noteq> None"
proof -
  let ?s = "\<lparr>rg_heap = h, rg_current = [], rg_fused = 0\<rparr>"
  have "rc_inv roots opens ?s" using assms(1) by (simp add: rc.inv_def rcompiler_roots_def host_ok_def)
  note k = rcok_script [OF this, of si sz p]
  have "host_ok roots opens h' \<and> (r = Inr (fn, n) \<longrightarrow> obj_at h' fn \<noteq> None)"
    using k assms(2) by (auto simp: compile_register_def xwp_def stop_ok_def split: outcome.splits compile_stop.splits)
  then show "host_ok roots opens h'" "r = Inr (fn, n) \<Longrightarrow> obj_at h' fn \<noteq> None" by blast+
qed

end
