(* ===== verification/Reg_Safe.thy ===== *)
theory Reg_Safe
  imports Reg_VM Reg_Compiler_Safe Upvalue_Host
begin

text \<open>
  The safety invariant of the register machine: the heap is sound and every root live; the roots are
  the slots of the register file below the end of the highest window, and each of these has been
  written, so that the collector never marks a stale or uninitialised register; the windows fit the
  register file, the outermost one starts at slot 1, and slot 0 is never captured; the open list is
  exact; and a cached cell is that of a defined global.
\<close>

declare xwp_simps [simp]

subsection \<open>Windows\<close>

definition frame_end :: "heap \<Rightarrow> call_frame \<Rightarrow> nat" where
  "frame_end h f = cf_base f + frame_size h (cf_closure f)"

lemma fold_max_less: "i < fold (\<lambda>f top. max top (g f)) fs t \<longleftrightarrow> i < t \<or> (\<exists>f\<in>set fs. i < (g f :: nat))"
  by (induction fs arbitrary: t) auto

lemma reg_top_less: "i < reg_top h fs \<longleftrightarrow> i = 0 \<or> (\<exists>f\<in>set fs. i < frame_end h f)"
  unfolding reg_top_def by (subst fold_max_less) (auto simp: frame_end_def)

lemma fold_max_le: "fold (\<lambda>f top. max top (g f)) fs t \<le> n \<longleftrightarrow> t \<le> n \<and> (\<forall>f\<in>set fs. g f \<le> (n :: nat))"
  by (induction fs arbitrary: t) auto

lemma reg_top_le: "reg_top h fs \<le> n \<longleftrightarrow> 0 < n \<and> (\<forall>f\<in>set fs. frame_end h f \<le> n)"
  unfolding reg_top_def by (subst fold_max_le) (auto simp: frame_end_def)

lemma reg_top_cong: "(\<And>f. f \<in> set fs \<Longrightarrow> frame_size h' (cf_closure f) = frame_size h (cf_closure f)) \<Longrightarrow> reg_top h' fs = reg_top h fs"
  unfolding reg_top_def by (rule fold_cong) auto

lemma reg_top_mono: "set fs' \<subseteq> set fs \<Longrightarrow> reg_top h fs' \<le> reg_top h fs"
  using reg_top_le [of h fs "reg_top h fs"] by (auto simp: reg_top_le)

lemma reg_top_Nil: "reg_top h [] = 1"
  by (simp add: reg_top_def)

lemma reg_top_bases:
  assumes "map cf_closure fs' = map cf_closure fs" "map cf_base fs' = map cf_base fs"
  shows "reg_top h fs' = reg_top h fs"
proof -
  have fold: "fold (\<lambda>f top. max top (cf_base f + frame_size h (cf_closure f))) fs t =
      fold (\<lambda>(c, b) top. max top (b + frame_size h c)) (zip (map cf_closure fs) (map cf_base fs)) t" for fs t
    by (induction fs arbitrary: t) auto
  show ?thesis unfolding reg_top_def fold assms ..
qed

text \<open>What \<open>frame_size\<close> sees of an object.\<close>

definition frame_view :: "obj \<Rightarrow> (addr + nat) option" where
  "frame_view ob =
     (case ob of OClosure fn us \<Rightarrow> Some (Inl fn) | OFunction f \<Rightarrow> Some (Inr (rc_frame_size (fo_reg f))) | _ \<Rightarrow> None)"

lemma frame_size_view:
  "frame_size h c =
     (case Option.bind (obj_at h c) frame_view of
        Some (Inl fn) \<Rightarrow> (case Option.bind (obj_at h fn) frame_view of Some (Inr n) \<Rightarrow> n | _ \<Rightarrow> 0)
      | _ \<Rightarrow> 0)"
  by (auto simp: frame_size_def frame_view_def split: option.splits obj.splits)

lemma frame_size_set_obj:
  assumes "obj_at h a = Some old" "frame_view ob = frame_view old"
  shows "frame_size (set_obj a ob h) c = frame_size h c"
proof -
  have "Option.bind (obj_at (set_obj a ob h) b) frame_view = Option.bind (obj_at h b) frame_view" for b
    using assms by (simp add: heap_simps)
  then show ?thesis by (simp only: frame_size_view)
qed

subsection \<open>The invariant\<close>

abbreviation rtop :: "reg_vm \<Rightarrow> nat" where
  "rtop s \<equiv> reg_top (rv_heap s) (rv_frames s)"

definition cache_ok :: "(addr \<times> addr option list) list \<Rightarrow> (addr \<times> value) list \<Rightarrow> bool" where
  "cache_ok cache globals \<longleftrightarrow>
     (\<forall>(f, cells)\<in>set cache. \<forall>key. Some key \<in> set cells \<longrightarrow> map_of globals key \<noteq> None)"

definition windows_ok :: "call_frame list \<Rightarrow> heap \<Rightarrow> bool" where
  "windows_ok fs h \<longleftrightarrow>
     (\<forall>f\<in>set fs. 0 < cf_base f) \<and> (fs \<noteq> [] \<longrightarrow> cf_base (last fs) = 1) \<and> (\<forall>up j. open_at h up j \<longrightarrow> 0 < j)"

definition rv_inv :: "reg_vm \<Rightarrow> bool" where
  "rv_inv s \<longleftrightarrow>
     host_ok (reg_roots s) (rv_open s) (rv_heap s) \<and> length (rv_frames s) \<le> kMaxFrames \<and>
     rtop s \<le> kRegisterSlots \<and> (\<forall>i < rtop s. map_of (rv_regs s) i \<noteq> None) \<and> cache_ok (rv_cache s) (rv_globals s) \<and>
     windows_ok (rv_frames s) (rv_heap s)"

definition rlive :: "reg_vm \<Rightarrow> value \<Rightarrow> bool" where
  "rlive s v \<longleftrightarrow> (\<forall>a\<in>set (value_addrs v). obj_at (rv_heap s) a \<noteq> None)"

definition rheld :: "reg_vm \<Rightarrow> value \<Rightarrow> bool" where
  "rheld s v \<longleftrightarrow> (\<forall>a\<in>set (value_addrs v). held (rv_heap s) (reg_roots s) a)"

abbreviation rok :: "'a rvm \<Rightarrow> reg_vm \<Rightarrow> ('a \<Rightarrow> reg_vm \<Rightarrow> bool) \<Rightarrow> bool" where
  "rok m s Q \<equiv> xwp m s Q (\<lambda>_. True)"

lemma rok_fail [simp]: "rok (rv_fail_with f) s Q"
  by (simp add: rv_fail_with_def)

lemma rheld_live: "rheld s v \<Longrightarrow> rlive s v"
  unfolding rheld_def rlive_def using held_live by blast

lemma rlive_scalars [simp]: "rlive s VNil" "rlive s (VBool b)" "rlive s (VInt i)" "rlive s (VFloat d)"
  by (simp_all add: rlive_def value_addrs_def)

definition rv_root_set :: "reg_vm \<Rightarrow> addr set" where
  "rv_root_set s = gc_roots (reg_roots s) (rv_heap s)"

lemma slot_addrs_iff: "a \<in> set (slot_addrs regs i) \<longleftrightarrow> (\<exists>v. map_of regs i = Some v \<and> a \<in> set (value_addrs v))"
  by (cases "map_of regs i") (simp_all add: slot_addrs_def)

lemma reg_roots_iff:
  "a \<in> set (reg_roots s) \<longleftrightarrow>
     (\<exists>i v. i < rtop s \<and> map_of (rv_regs s) i = Some v \<and> a \<in> set (value_addrs v)) \<or>
     a \<in> cf_closure ` set (rv_frames s) \<or> a \<in> set (rv_open s) \<or>
     (\<exists>(k, v)\<in>set (rv_globals s). a = k \<or> a \<in> set (value_addrs v))"
  by (auto simp: reg_roots_def slot_addrs_iff Bex_def) (force+)?

lemma rv_root_cases:
  "a \<in> rv_root_set s \<longleftrightarrow>
     (\<exists>v\<in>set (hp_temp_roots (rv_heap s)). a \<in> set (value_addrs v)) \<or> a \<in> set (reg_roots s)"
  by (auto simp: rv_root_set_def gc_roots_def)

lemma rv_root_live: "rv_inv s \<Longrightarrow> a \<in> rv_root_set s \<Longrightarrow> obj_at (rv_heap s) a \<noteq> None"
  by (simp add: rv_inv_def host_ok_def gc_live_def rv_root_set_def)

lemma rv_root_held: "rv_inv s \<Longrightarrow> a \<in> set (reg_roots s) \<Longrightarrow> held (rv_heap s) (reg_roots s) a"
  by (simp add: rv_inv_def host_ok_def gc_live_held gc_roots_def)

lemma rv_host: "rv_inv s \<Longrightarrow> host_ok (reg_roots s) (rv_open s) (rv_heap s)"
  by (simp add: rv_inv_def)

lemma rv_sane: "rv_inv s \<Longrightarrow> sane (rv_heap s)"
  by (simp add: rv_inv_def host_ok_def gc_live_def)

lemma slot_held: "rv_inv s \<Longrightarrow> i < rtop s \<Longrightarrow> map_of (rv_regs s) i = Some v \<Longrightarrow> rheld s v"
  unfolding rheld_def by (auto intro!: rv_root_held simp: reg_roots_iff)

lemma global_held: "rv_inv s \<Longrightarrow> map_of (rv_globals s) k = Some v \<Longrightarrow> rheld s v"
  unfolding rheld_def by (intro ballI rv_root_held) (use map_of_SomeD [of "rv_globals s" k v] in \<open>force simp: reg_roots_iff\<close>)+

lemma global_name_live: "rv_inv s \<Longrightarrow> map_of (rv_globals s) k \<noteq> None \<Longrightarrow> obj_at (rv_heap s) k \<noteq> None"
  by (rule held_live, rule rv_root_held) (use map_of_SomeD [of "rv_globals s" k] in \<open>force simp: reg_roots_iff\<close>)+

lemma frame_closure_held: "rv_inv s \<Longrightarrow> f \<in> set (rv_frames s) \<Longrightarrow> held (rv_heap s) (reg_roots s) (cf_closure f)"
  by (rule rv_root_held) (auto simp: reg_roots_iff)

text \<open>A change that leaves the objects and the open list alone, and keeps or drops roots or adds live
  ones.\<close>

lemma rv_inv_change:
  assumes inv: "rv_inv s" and same: "rv_heap s' = rv_heap s" "rv_open s' = rv_open s"
    and live: "\<And>a. a \<in> set (reg_roots s') \<Longrightarrow> a \<notin> set (reg_roots s) \<Longrightarrow> obj_at (rv_heap s) a \<noteq> None"
    and rest: "length (rv_frames s') \<le> kMaxFrames" "rtop s' \<le> kRegisterSlots"
      "\<And>i. i < rtop s' \<Longrightarrow> map_of (rv_regs s') i \<noteq> None" "cache_ok (rv_cache s') (rv_globals s')"
      "windows_ok (rv_frames s') (rv_heap s)"
  shows "rv_inv s'"
proof -
  have "obj_at (rv_heap s) a \<noteq> None" if "a \<in> rv_root_set s'" for a
    using that live [of a] rv_root_live [OF inv, of a] same(1) by (auto simp: rv_root_cases)
  moreover have "set (rv_open s) \<subseteq> set (reg_roots s')" using same(2) by (auto simp: reg_roots_iff)
  ultimately show ?thesis
    using inv same rest by (simp add: rv_inv_def host_ok_def gc_live_def rv_root_set_def)
qed

lemma rv_bounds: "rv_inv s \<Longrightarrow> length (rv_frames s) \<le> kMaxFrames" "rv_inv s \<Longrightarrow> rtop s \<le> kRegisterSlots"
  "rv_inv s \<Longrightarrow> i < rtop s \<Longrightarrow> map_of (rv_regs s) i \<noteq> None" "rv_inv s \<Longrightarrow> cache_ok (rv_cache s) (rv_globals s)"
  "rv_inv s \<Longrightarrow> windows_ok (rv_frames s) (rv_heap s)"
  by (simp_all add: rv_inv_def)

text \<open>A change of the heap that keeps the machine's side of the contract and its frame sizes.\<close>

lemma reg_roots_heap:
  "(\<And>f. f \<in> set (rv_frames s) \<Longrightarrow> frame_size h (cf_closure f) = frame_size (rv_heap s) (cf_closure f)) \<Longrightarrow>
   reg_roots (s\<lparr>rv_heap := h\<rparr>) = reg_roots s \<and> rtop (s\<lparr>rv_heap := h\<rparr>) = rtop s"
  using reg_top_cong [of "rv_frames s" h "rv_heap s"] by (simp add: reg_roots_def)

lemma rv_inv_heap:
  assumes "rv_inv s" "host_ok (reg_roots s) (rv_open s) h"
    "\<And>f. f \<in> set (rv_frames s) \<Longrightarrow> frame_size h (cf_closure f) = frame_size (rv_heap s) (cf_closure f)"
    "\<And>up j. open_at h up j \<Longrightarrow> open_at (rv_heap s) up j"
  shows "rv_inv (s\<lparr>rv_heap := h\<rparr>)"
proof -
  have "windows_ok (rv_frames s) h" using assms(1,4) unfolding rv_inv_def windows_ok_def by blast
  then show ?thesis using reg_roots_heap [OF assms(3)] assms(1,2) by (simp add: rv_inv_def)
qed

lemma frame_size_evolved:
  assumes inv: "rv_inv s" and e: "evolved (reg_roots s) (rv_heap s) h new" and f: "f \<in> set (rv_frames s)"
  shows "frame_size h (cf_closure f) = frame_size (rv_heap s) (cf_closure f)"
proof -
  have c: "held (rv_heap s) (reg_roots s) (cf_closure f)" by (rule frame_closure_held [OF inv f])
  note o = evolved_held [OF e c]
  show ?thesis
  proof (cases "obj_at (rv_heap s) (cf_closure f)")
    case (Some ob)
    then show ?thesis
    proof (cases ob)
      case (OClosure fn us)
      have "held (rv_heap s) (reg_roots s) fn"
        using held_trace [OF rv_sane [OF inv] c, of ob fn] Some OClosure by simp
      from evolved_held [OF e this] show ?thesis using o by (simp add: frame_size_def Some OClosure)
    qed (simp_all add: frame_size_def o Some)
  qed (simp add: frame_size_def o)
qed

lemma rv_inv_evolved:
  assumes inv: "rv_inv s" and e: "evolved (reg_roots s) (rv_heap s) h new"
    and new: "\<And>b x. new b x \<Longrightarrow> \<not> is_open_upvalue x" "\<And>b n k f. new b (ONative n k f) \<Longrightarrow> k = native_arity f"
  shows "rv_inv (s\<lparr>rv_heap := h\<rparr>)"
proof (rule rv_inv_heap [OF inv host_ok_evolved [OF rv_host [OF inv] e new] frame_size_evolved [OF inv e]])
  show "open_at (rv_heap s) up j" if "open_at h up j" for up j
    using that e new(1) unfolding evolved_def open_at_def is_open_upvalue_def by fastforce
qed

lemma rv_inv_set_obj:
  assumes inv: "rv_inv s" and o: "obj_at (rv_heap s) a = Some old"
    and n: "\<not> is_string old" "\<not> is_string ob" "\<not> is_open_upvalue old" "\<not> is_open_upvalue ob" "\<not> is_native_object ob"
    and live: "\<forall>b\<in>set (trace ob). obj_at (rv_heap s) b \<noteq> None" and view: "frame_view ob = frame_view old"
  shows "rv_inv (s\<lparr>rv_heap := set_obj a ob (rv_heap s)\<rparr>)"
  by (rule rv_inv_heap [OF inv host_ok_set_obj [OF rv_host [OF inv] o n live]], rule frame_size_set_obj [OF o view])
    (use n(4) o in \<open>auto simp: open_at_def is_open_upvalue_def heap_simps split: if_splits\<close>)

subsection \<open>Changes of the machine's own state\<close>

lemma rv_inv_slot: "rv_inv s \<Longrightarrow> rlive s v \<Longrightarrow> rv_inv (s\<lparr>rv_regs := AList.update i v (rv_regs s)\<rparr>)"
proof (rule rv_inv_change)
  fix a assume v: "rlive s v" and a: "a \<in> set (reg_roots (s\<lparr>rv_regs := AList.update i v (rv_regs s)\<rparr>))" "a \<notin> set (reg_roots s)"
  have "a \<in> set (value_addrs v)"
    using a unfolding reg_roots_iff by (simp add: update_conv' split: if_splits)
  then show "obj_at (rv_heap s) a \<noteq> None" using v by (simp add: rlive_def)
qed (simp_all add: rv_bounds rv_bounds(3) [unfolded not_None_eq] update_conv')

lemma rv_inv_fewer:
  assumes "rv_inv s" "rv_heap s' = rv_heap s" "rv_open s' = rv_open s" "rv_regs s' = rv_regs s"
    "rv_frames s' \<in> {rv_frames s, tl (rv_frames s), []}"
    "rv_globals s' = rv_globals s" "cache_ok (rv_cache s') (rv_globals s)"
  shows "rv_inv s'"
proof (rule rv_inv_change [OF assms(1-3)])
  have sub: "set (rv_frames s') \<subseteq> set (rv_frames s)" using assms(5) by (cases "rv_frames s") auto
  have t: "rtop s' \<le> rtop s" using reg_top_mono [OF sub] assms(2) by simp
  then show "rtop s' \<le> kRegisterSlots" using rv_bounds(2) [OF assms(1)] by simp
  show "map_of (rv_regs s') i \<noteq> None" if "i < rtop s'" for i using rv_bounds(3) [OF assms(1), of i] that t assms(4) by simp
  fix a assume a: "a \<in> set (reg_roots s')" "a \<notin> set (reg_roots s)"
  have "a \<in> set (reg_roots s)"
    using a(1) t sub assms(3,4,6) unfolding reg_roots_iff by (auto intro: less_le_trans)
  then show "obj_at (rv_heap s) a \<noteq> None" using a(2) by blast
next
  show "windows_ok (rv_frames s') (rv_heap s)"
    using rv_bounds(5) [OF assms(1)] assms(5) by (cases "rv_frames s") (auto simp: windows_ok_def split: if_splits)
  show "length (rv_frames s') \<le> kMaxFrames" using rv_bounds(1) [OF assms(1)] assms(5) by auto
qed (use assms in simp_all)

lemma rv_inv_small:
  "rv_inv s \<Longrightarrow> rv_inv (s\<lparr>rv_error := e\<rparr>)" "rv_inv s \<Longrightarrow> rv_inv (s\<lparr>rv_out := out\<rparr>)"
  "rv_inv s \<Longrightarrow> rv_inv (s\<lparr>rv_result := r\<rparr>)" "rv_inv s \<Longrightarrow> rv_inv (s\<lparr>rv_ticks := n\<rparr>)"
  "rv_inv s \<Longrightarrow> rv_inv (s\<lparr>rv_uncounted := m\<rparr>)" "rv_inv s \<Longrightarrow> rv_inv (s\<lparr>rv_fused := k\<rparr>)"
  by (frule rv_bounds(4), erule rv_inv_fewer, simp_all)+

lemma rv_inv_pop_frame: "rv_inv s \<Longrightarrow> rv_inv (s\<lparr>rv_frames := tl (rv_frames s)\<rparr>)"
  "rv_inv s \<Longrightarrow> rv_inv (s\<lparr>rv_frames := []\<rparr>)"
  by (frule rv_bounds(4), erule rv_inv_fewer, simp_all)+

lemma rv_inv_global:
  assumes "rv_inv s" "rlive s v" "obj_at (rv_heap s) name \<noteq> None"
  shows "rv_inv (s\<lparr>rv_globals := AList.update name v (rv_globals s)\<rparr>)"
proof (rule rv_inv_change [OF assms(1)])
  have u: "set (AList.update name v g) \<subseteq> insert (name, v) (set g)" for g :: "(addr \<times> value) list"
    by (induction g) auto
  fix a assume "a \<in> set (reg_roots (s\<lparr>rv_globals := AList.update name v (rv_globals s)\<rparr>))" "a \<notin> set (reg_roots s)"
  then have "a = name \<or> a \<in> set (value_addrs v)" using u [of "rv_globals s"] by (fastforce simp: reg_roots_iff)
  then show "obj_at (rv_heap s) a \<noteq> None" using assms(2,3) by (auto simp: rlive_def)
next
  show "cache_ok (rv_cache (s\<lparr>rv_globals := AList.update name v (rv_globals s)\<rparr>))
      (rv_globals (s\<lparr>rv_globals := AList.update name v (rv_globals s)\<rparr>))"
    using rv_bounds(4) [OF assms(1)] by (force simp: cache_ok_def update_conv')
qed (simp_all add: rv_bounds [OF assms(1)])

lemma cache_ok_update:
  assumes "cache_ok cache globals" "\<And>key. Some key \<in> set cells \<Longrightarrow> map_of globals key \<noteq> None"
  shows "cache_ok (AList.update f cells cache) globals"
proof -
  have "set (AList.update f cells c) \<subseteq> insert (f, cells) (set c)" for c :: "(addr \<times> addr option list) list"
    by (induction c) auto
  then show ?thesis using assms unfolding cache_ok_def by fastforce
qed

lemma rv_inv_cache: "rv_inv s \<Longrightarrow> cache_ok cache (rv_globals s) \<Longrightarrow> rv_inv (s\<lparr>rv_cache := cache\<rparr>)"
  by (erule rv_inv_fewer) simp_all

text \<open>A move of the program counter.\<close>

definition rmoved :: "reg_vm \<Rightarrow> reg_vm \<Rightarrow> bool" where
  "rmoved s s' \<longleftrightarrow> (\<exists>fs. s' = s\<lparr>rv_frames := fs\<rparr> \<and> map cf_closure fs = map cf_closure (rv_frames s) \<and>
     map cf_base fs = map cf_base (rv_frames s))"

lemma rmoved_refl: "rmoved s s"
  unfolding rmoved_def by (intro exI [of _ "rv_frames s"]) simp

lemma rmoved_roots:
  assumes "rmoved s s'"
  shows "reg_roots s' = reg_roots s" "rtop s' = rtop s" "rv_heap s' = rv_heap s" "length (rv_frames s') = length (rv_frames s)"
proof -
  from assms obtain fs where fs: "s' = s\<lparr>rv_frames := fs\<rparr>" "map cf_closure fs = map cf_closure (rv_frames s)"
    "map cf_base fs = map cf_base (rv_frames s)" unfolding rmoved_def by blast
  note t = reg_top_bases [OF fs(2,3), of "rv_heap s"]
  show "rv_heap s' = rv_heap s" "length (rv_frames s') = length (rv_frames s)"
    using fs(1) map_eq_imp_length_eq [OF fs(2)] by simp_all
  show "rtop s' = rtop s" "reg_roots s' = reg_roots s" using t fs by (simp_all add: reg_roots_def)
qed

lemma rmoved_windows:
  assumes "rmoved s s'"
  shows "windows_ok (rv_frames s') h = windows_ok (rv_frames s) h"
proof -
  from assms obtain fs where fs: "s' = s\<lparr>rv_frames := fs\<rparr>" and b: "map cf_base fs = map cf_base (rv_frames s)"
    unfolding rmoved_def by blast
  have w: "windows_ok gs h \<longleftrightarrow> (\<forall>b\<in>set (map cf_base gs). 0 < b) \<and> (map cf_base gs \<noteq> [] \<longrightarrow> last (map cf_base gs) = 1) \<and>
      (\<forall>up j. open_at h up j \<longrightarrow> 0 < j)" for gs
    by (auto simp: windows_ok_def last_map)
  show ?thesis unfolding w using fs b by simp
qed

lemma rmoved_inv: "rmoved s s' \<Longrightarrow> rv_inv s \<Longrightarrow> rv_inv s'"
proof -
  assume m: "rmoved s s'" and inv: "rv_inv s"
  then obtain fs where "s' = s\<lparr>rv_frames := fs\<rparr>" unfolding rmoved_def by blast
  then have "rv_open s' = rv_open s" "rv_regs s' = rv_regs s" "rv_cache s' = rv_cache s" "rv_globals s' = rv_globals s"
    by simp_all
  moreover have "reg_top (rv_heap s) (rv_frames s') = rtop s" using rmoved_roots(2,3) [OF m] by simp
  moreover have "windows_ok (rv_frames s') (rv_heap s)" using rv_bounds(5) [OF inv] rmoved_windows [OF m] by simp
  ultimately show "rv_inv s'" using inv unfolding rv_inv_def by (auto simp only: rmoved_roots(1,3,4) [OF m])
qed

lemma rmoved_pc: "rv_frames s = f # fs \<Longrightarrow> rmoved s (s\<lparr>rv_frames := f\<lparr>cf_ip := pc\<rparr> # fs\<rparr>)"
  unfolding rmoved_def by (intro exI [of _ "f\<lparr>cf_ip := pc\<rparr> # fs"]) simp

lemma rok_set_pc: "(\<And>s'. rmoved s s' \<Longrightarrow> Q () s') \<Longrightarrow> rok (rv_set_pc pc) s Q"
  by (auto simp: rv_set_pc_def rmoved_pc split: list.split)

lemma rheld_moved: "rmoved s s' \<Longrightarrow> rheld s v \<Longrightarrow> rheld s' v"
  by (simp add: rheld_def rmoved_roots)

subsection \<open>Reading\<close>

text \<open>An action that only looks: from a state of the invariant it returns something with a property, or
  faults.\<close>

definition peeks :: "'a rvm \<Rightarrow> (reg_vm \<Rightarrow> 'a \<Rightarrow> bool) \<Rightarrow> bool" where
  "peeks m P \<longleftrightarrow> (\<forall>s. rv_inv s \<longrightarrow> rok m s (\<lambda>x t. t = s \<and> P s x))"

lemma peeksI: "(\<And>s. rv_inv s \<Longrightarrow> rok m s (\<lambda>x t. t = s \<and> P s x)) \<Longrightarrow> peeks m P"
  by (simp add: peeks_def)

lemma rok_peek: "peeks m P \<Longrightarrow> rv_inv s \<Longrightarrow> (\<And>x. P s x \<Longrightarrow> rok (k x) s Q) \<Longrightarrow> rok (xbind m k) s Q"
  unfolding peeks_def xwp_bind by (blast intro: xwp_mono)

lemma peeksD: "peeks m P \<Longrightarrow> rv_inv s \<Longrightarrow> (\<And>x. P s x \<Longrightarrow> R s x) \<Longrightarrow> rok m s (\<lambda>x t. t = s \<and> R s x)"
  unfolding peeks_def by (blast intro: xwp_mono)

lemma peeks_bind: "peeks m P \<Longrightarrow> (\<And>s x. rv_inv s \<Longrightarrow> P s x \<Longrightarrow> rok (k x) s (\<lambda>y t. t = s \<and> R s y)) \<Longrightarrow> peeks (xbind m k) R"
  by (rule peeksI) (rule rok_peek)

lemma peeks_object: "peeks (rv_object a) (\<lambda>s ob. obj_at (rv_heap s) a = Some ob)"
  by (rule peeksI) (simp add: rv_object_def split: option.split)

lemma peeks_closure: "peeks (rv_closure a) (\<lambda>s (f, us). obj_at (rv_heap s) a = Some (OClosure f us))"
  unfolding rv_closure_def by (rule peeks_bind [OF peeks_object]) (simp split: obj.split)

lemma peeks_function: "peeks (rv_function a) (\<lambda>s f. obj_at (rv_heap s) a = Some (OFunction f))"
  unfolding rv_function_def by (rule peeks_bind [OF peeks_object]) (simp split: obj.split)

lemma peeks_upvalue: "peeks (rv_upvalue a) (\<lambda>s u. obj_at (rv_heap s) a = Some (OUpvalue u))"
  unfolding rv_upvalue_def by (rule peeks_bind [OF peeks_object]) (simp split: obj.split)

lemma peeks_frame: "peeks rv_frame (\<lambda>s f. f \<in> set (rv_frames s) \<and> f = hd (rv_frames s))"
  by (rule peeksI) (simp add: rv_frame_def split: list.split)

lemma peeks_slot: "peeks (rv_slot i) (\<lambda>s v. rheld s v \<and> i < rtop s)"
  by (rule peeksI) (auto simp: rv_slot_def slot_held split: option.split)

lemma peeks_slots: "peeks (rv_slots i n) (\<lambda>s vs. (\<forall>v\<in>set vs. rheld s v \<and> set (value_addrs v) \<subseteq> set (reg_roots s)) \<and> length vs = n)"
proof (induction n arbitrary: i)
  case (Suc n)
  have r: "peeks (rv_slot i) (\<lambda>s v. rheld s v \<and> set (value_addrs v) \<subseteq> set (reg_roots s))"
    by (rule peeksI) (auto simp: rv_slot_def slot_held reg_roots_iff split: option.split)
  show ?case
    unfolding rv_slots.simps
    by (rule peeks_bind [OF r], rule rok_peek [OF Suc.IH], assumption) simp
qed (simp add: peeks_def)

lemma peeks_chunk: "peeks rv_chunk (\<lambda>s c. \<forall>v\<in>set (rc_constants c). rheld s v)"
  unfolding rv_chunk_def
proof (rule peeks_bind [OF peeks_frame], rule rok_peek [OF peeks_closure], assumption, unfold split_paired_all split_conv,
    rule rok_peek [OF peeks_function], assumption)
  fix s f fn us fo
  assume inv: "rv_inv s" and f: "f \<in> set (rv_frames s) \<and> f = hd (rv_frames s)"
    and o: "obj_at (rv_heap s) (cf_closure f) = Some (OClosure fn us)" "obj_at (rv_heap s) fn = Some (OFunction fo)"
  have "held (rv_heap s) (reg_roots s) fn"
    using held_trace [OF rv_sane [OF inv] frame_closure_held [OF inv conjunct1 [OF f]] o(1)] by simp
  then have "rheld s v" if "v \<in> set (rc_constants (fo_reg fo))" for v
    using held_trace [OF rv_sane [OF inv] _ o(2)] that by (auto simp: rheld_def)
  then show "rok (xreturn (fo_reg fo)) s (\<lambda>y t. t = s \<and> (\<forall>v\<in>set (rc_constants y). rheld s v))" by simp
qed

lemma peeks_reg: "peeks (rv_reg i) rheld"
  unfolding rv_reg_def by (rule peeks_bind [OF peeks_frame], rule peeksD [OF peeks_slot], assumption) simp

lemma peeks_constant: "peeks (rv_constant i) rheld"
  unfolding rv_constant_def by (rule peeks_bind [OF peeks_chunk]) simp

lemma peeks_rk: "peeks (rv_rk_b insn) rheld" "peeks (rv_rk_c insn) rheld"
  unfolding rv_rk_b_def rv_rk_c_def by (simp_all add: peeks_reg peeks_constant)

lemma peeks_object_constant: "peeks (rv_object_constant i) (\<lambda>s a. held (rv_heap s) (reg_roots s) a)"
  unfolding rv_object_constant_def
  by (rule peeks_bind [OF peeks_constant]) (simp add: rheld_def value_addrs_def split: gvalue.split)

lemma peeks_elements: "peeks (rv_elements insn) (\<lambda>s vs. \<forall>v\<in>set vs. rheld s v)"
  unfolding rv_elements_def by (rule peeks_bind [OF peeks_frame], rule peeksD [OF peeks_slots], assumption) simp

lemma rok_fetch:
  assumes inv: "rv_inv s" and Q: "\<And>insn s'. rmoved s s' \<Longrightarrow> rv_inv s' \<Longrightarrow> Q insn s'"
  shows "rok rv_fetch s Q"
  unfolding rv_fetch_def
  by (rule rok_peek [OF peeks_chunk inv], rule rok_peek [OF peeks_frame inv], simp, intro impI rok_set_pc)
    (rule Q, assumption, rule rmoved_inv [OF _ inv])

end
