(* ===== verification/Reg_Upvalues.thy ===== *)
theory Reg_Upvalues
  imports Reg_Safe
begin

text \<open>
  The open upvalues of the register machine: capturing a register finds the upvalue that is open there
  or adds one in its place, closing moves the values of the registers from a bound on into the
  upvalues. The heap side of both is that of \<open>Upvalue_Host\<close>.
\<close>

declare xwp_simps [simp]

subsection \<open>Allocating and writing\<close>

lemma rok_allocate:
  assumes inv: "rv_inv s" and ob: "\<not> is_string ob" "\<not> is_open_upvalue ob" "\<not> is_native_object ob"
    "\<forall>b\<in>set (trace ob). held (rv_heap s) (reg_roots s) b"
    and Q: "\<And>a h. rv_inv (s\<lparr>rv_heap := h\<rparr>) \<Longrightarrow> obj_at h a = Some ob \<Longrightarrow>
      (\<And>b. held (rv_heap s) (reg_roots s) b \<Longrightarrow> obj_at h b = obj_at (rv_heap s) b) \<Longrightarrow> Q a (s\<lparr>rv_heap := h\<rparr>)"
  shows "rok (rv_allocate sz ob) s Q"
proof -
  obtain a h where al: "allocate sz (reg_roots s) ob (rv_heap s) = (a, h)" by fastforce
  note k = allocate_evolved [OF rv_sane [OF inv] al ob(1,4)]
  have "rv_inv (s\<lparr>rv_heap := h\<rparr>)"
    by (rule rv_inv_evolved [OF inv k(1)]) (use ob in \<open>auto simp: is_native_object_def\<close>)
  then have "Q a (s\<lparr>rv_heap := h\<rparr>)" using k(2) evolved_held [OF k(1)] by (rule Q)
  then show ?thesis by (simp add: xwp_def rv_allocate_def al)
qed

lemma rok_set_slot:
  "rv_inv s \<Longrightarrow> rlive s v \<Longrightarrow> (rv_inv (s\<lparr>rv_regs := AList.update i v (rv_regs s)\<rparr>) \<Longrightarrow>
    Q () (s\<lparr>rv_regs := AList.update i v (rv_regs s)\<rparr>)) \<Longrightarrow> rok (rv_set_slot i v) s Q"
  by (simp add: rv_set_slot_def rv_inv_slot)

abbreviation keeps_rv :: "'a rvm \<Rightarrow> reg_vm \<Rightarrow> bool" where
  "keeps_rv m s \<equiv> rok m s (\<lambda>_. rv_inv)"

lemma keeps_set_slot: "rv_inv s \<Longrightarrow> rlive s v \<Longrightarrow> keeps_rv (rv_set_slot i v) s"
  by (erule rok_set_slot)

lemma keeps_set_reg: "rv_inv s \<Longrightarrow> rlive s v \<Longrightarrow> keeps_rv (rv_set_reg i v) s"
  unfolding rv_set_reg_def by (rule rok_peek [OF peeks_frame], assumption) (rule keeps_set_slot)

lemma rheld_value_live: "rv_inv s \<Longrightarrow> obj_at (rv_heap s) a = Some ob \<Longrightarrow> set (value_addrs v) \<subseteq> set (trace ob) \<Longrightarrow> rlive s v"
  using rv_sane [of s] unfolding rlive_def sane_def no_dangling_def by blast

subsection \<open>Capturing\<close>

lemma rok_open_at: "open_at (rv_heap s) up j \<Longrightarrow> Q \<lparr>uv_location = OpenAt j, uv_closed = VNil\<rparr> s \<Longrightarrow> rok (rv_upvalue up) s Q"
  by (simp add: rv_upvalue_def rv_object_def open_at_def)

lemma rok_split_open:
  "list_all2 (open_at (rv_heap s)) opens js \<Longrightarrow>
   (\<And>upper rest. split_at i (rv_heap s) opens js upper rest \<Longrightarrow> Q (upper, rest) s) \<Longrightarrow>
   rok (rv_split_open i opens) s Q"
proof (induction opens arbitrary: js Q)
  case Nil
  then show ?case by (simp add: split_at_Nil)
next
  case (Cons up ups)
  then obtain j js' where js: "js = j # js'" "open_at (rv_heap s) up j" "list_all2 (open_at (rv_heap s)) ups js'"
    by (auto simp: list_all2_Cons1)
  show ?case
    unfolding rv_split_open.simps xwp_bind
  proof (rule rok_open_at [OF js(2)])
    have "rok (rv_split_open i ups) s (\<lambda>x t. case x of (upper, rest) \<Rightarrow> Q (up # upper, rest) t)" if "i < j"
      by (rule Cons.IH [OF js(3)]) (use Cons.prems(2) split_at_cons [OF _ js(2) that] js(1) in simp)
    moreover have "Q ([], up # ups) s" if "\<not> i < j"
      using Cons.prems split_at_here [of "rv_heap s" up ups j js' i] that js(1) by simp
    ultimately show "rok (case uv_location \<lparr>uv_location = OpenAt j, uv_closed = VNil\<rparr> of
         ClosedHere \<Rightarrow> rv_fail_with BadPointer
       | OpenAt j \<Rightarrow> if i < j then xbind (rv_split_open i ups) (\<lambda>(upper, rest). xreturn (up # upper, rest))
           else xreturn ([], up # ups)) s Q"
      by (simp add: case_prod_beta')
  qed
qed

definition rcaptured :: "reg_vm \<Rightarrow> nat \<Rightarrow> addr \<Rightarrow> reg_vm \<Rightarrow> bool" where
  "rcaptured s i up s' \<longleftrightarrow>
     rv_inv s' \<and> open_at (rv_heap s') up i \<and> s' = s\<lparr>rv_heap := rv_heap s', rv_open := rv_open s'\<rparr> \<and>
     (\<forall>b. held (rv_heap s) (reg_roots s) b \<longrightarrow> obj_at (rv_heap s') b = obj_at (rv_heap s) b)"

lemma reg_roots_open:
  "set (reg_roots (s\<lparr>rv_open := opens\<rparr>)) \<subseteq> set opens \<union> set (reg_roots s)"
  "set opens \<subseteq> set (reg_roots (s\<lparr>rv_open := opens\<rparr>))"
  by (auto simp: reg_roots_iff)

lemma inv_rcapture:
  assumes inv: "rv_inv s" and pos: "0 < i" and sp: "split_at i (rv_heap s) (rv_open s) js upper rest"
    and sorted: "sorted_wrt (>) js" and new: "rest \<noteq> [] \<Longrightarrow> \<not> open_at (rv_heap s) (hd rest) i"
    and al: "allocate sz (reg_roots s) (OUpvalue \<lparr>uv_location = OpenAt i, uv_closed = VNil\<rparr>) (rv_heap s) = (a, h)"
  shows "rcaptured s i a (s\<lparr>rv_heap := h, rv_open := upper @ a # rest\<rparr>)"
proof -
  let ?ob = "OUpvalue \<lparr>uv_location = OpenAt i, uv_closed = VNil\<rparr>"
  let ?t = "s\<lparr>rv_heap := h\<rparr>" and ?s = "s\<lparr>rv_heap := h, rv_open := upper @ a # rest\<rparr>"
  have "\<not> is_string ?ob" "\<forall>b\<in>set (trace ?ob). held (rv_heap s) (reg_roots s) b"
    by (simp_all add: is_string_def value_addrs_def)
  note k = allocate_evolved [OF rv_sane [OF inv] al this]
  have j: "rv_open s = upper @ rest" using sp by (simp add: split_at_def)
  have r: "reg_roots ?t = reg_roots s" "rtop ?t = rtop s"
    using reg_roots_heap [OF frame_size_evolved [OF inv k(1)]] by blast+
  have "set (reg_roots ?s) \<subseteq> insert a (set (reg_roots s))"
    using reg_roots_open(1) [where s = ?t and opens = "upper @ a # rest"] r(1) j by (auto simp: reg_roots_iff)
  then have "host_ok (reg_roots ?s) (upper @ a # rest) h"
    using reg_roots_open(2) [where s = ?t and opens = "upper @ a # rest"]
    by (intro host_ok_capture [OF rv_host [OF inv] sp sorted new k(1)]) (use k(2) in \<open>simp_all add: open_at_def\<close>)
  moreover have "rtop ?s = rtop s" using r(2) by simp
  moreover have "windows_ok (rv_frames s) h"
  proof -
    have "0 < j" if "open_at h up j" for up j
    proof -
      have "open_at (rv_heap s) up j \<or> j = i" using k(1) that unfolding evolved_def open_at_def by auto
      then show ?thesis using rv_bounds(5) [OF inv] pos by (auto simp: windows_ok_def)
    qed
    then show ?thesis using rv_bounds(5) [OF inv] by (simp add: windows_ok_def)
  qed
  ultimately have "rv_inv ?s" using inv by (simp add: rv_inv_def)
  then show ?thesis using k(2) evolved_held [OF k(1)] by (simp add: rcaptured_def open_at_def)
qed

lemma rok_capture:
  assumes inv: "rv_inv s" and pos: "0 < i" and Q: "\<And>up s'. rcaptured s i up s' \<Longrightarrow> Q up s'"
  shows "rok (rv_capture_upvalue sz i) s Q"
proof -
  from inv obtain js where js: "sorted_wrt (>) js" "list_all2 (open_at (rv_heap s)) (rv_open s) js"
    unfolding rv_inv_def host_ok_def by (blast elim: opens_okE)
  show ?thesis
    unfolding rv_capture_upvalue_def xwp_bind xwp_get
  proof (rule rok_split_open [OF js(2)], unfold split_conv)
    fix upper rest
    assume sp: "split_at i (rv_heap s) (rv_open s) js upper rest"
    let ?alloc = "xbind (rv_allocate sz (OUpvalue \<lparr>uv_location = OpenAt i, uv_closed = VNil\<rparr>)) (\<lambda>created.
        xseq (xmod (\<lambda>s. s\<lparr>rv_open := upper @ created # rest\<rparr>)) (xreturn created))"
    have new: "rok ?alloc s Q" if "rest \<noteq> [] \<Longrightarrow> \<not> open_at (rv_heap s) (hd rest) i"
    proof -
      obtain a h where al: "allocate sz (reg_roots s) (OUpvalue \<lparr>uv_location = OpenAt i, uv_closed = VNil\<rparr>) (rv_heap s) = (a, h)"
        by fastforce
      from Q [OF inv_rcapture [OF inv pos sp js(1) that al]] show ?thesis
        by (simp add: xwp_def xbind_def rv_allocate_def al xmod_def xreturn_def)
    qed
    show "rok (xbind (case rest of [] \<Rightarrow> xreturn None
          | up # _ \<Rightarrow> xbind (rv_upvalue up) (\<lambda>u. xreturn (if uv_location u = OpenAt i then Some up else None)))
        (\<lambda>found. case found of Some up \<Rightarrow> xreturn up | None \<Rightarrow> ?alloc)) s Q"
    proof (cases rest)
      case Nil
      then show ?thesis using new by simp
    next
      case (Cons up ups)
      obtain m where m: "open_at (rv_heap s) up m" "up \<in> set (rv_open s)"
        using sp Cons unfolding split_at_def by (auto simp: list_all2_Cons1)
      have "rcaptured s i up s" if "m = i" using inv m that by (simp add: rcaptured_def)
      then show ?thesis
        using Q new m unfolding Cons by (auto intro!: rok_open_at [OF m(1)] simp: open_at_def)
    qed
  qed
qed

subsection \<open>Closing\<close>

definition rupvalue_value :: "heap \<Rightarrow> (nat \<times> value) list \<Rightarrow> addr \<Rightarrow> value option" where
  "rupvalue_value h regs up =
     (case obj_at h up of
        Some (OUpvalue u) \<Rightarrow> (case uv_location u of OpenAt j \<Rightarrow> map_of regs j | ClosedHere \<Rightarrow> Some (uv_closed u))
      | _ \<Rightarrow> None)"

definition rclosed_from :: "nat \<Rightarrow> reg_vm \<Rightarrow> reg_vm \<Rightarrow> bool" where
  "rclosed_from i s s' \<longleftrightarrow>
     rv_inv s' \<and> s' = s\<lparr>rv_heap := rv_heap s', rv_open := rv_open s'\<rparr> \<and>
     (\<forall>a. obj_at (rv_heap s') a = None \<longleftrightarrow> obj_at (rv_heap s) a = None) \<and>
     (\<forall>up. rupvalue_value (rv_heap s') (rv_regs s) up = rupvalue_value (rv_heap s) (rv_regs s) up) \<and>
     (\<forall>up j. open_at (rv_heap s') up j \<longrightarrow> j < i)"

lemma inv_rclose:
  assumes inv: "rv_inv (s\<lparr>rv_open := up # ups\<rparr>)" and o: "open_at (rv_heap s) up j" and v: "rlive s v"
  shows "rv_inv (s\<lparr>rv_heap := set_obj up (OUpvalue \<lparr>uv_location = ClosedHere, uv_closed = v\<rparr>) (rv_heap s), rv_open := ups\<rparr>)"
proof -
  let ?ob = "OUpvalue \<lparr>uv_location = ClosedHere, uv_closed = v\<rparr>"
  let ?h = "set_obj up ?ob (rv_heap s)"
  let ?s = "s\<lparr>rv_open := up # ups\<rparr>" and ?t = "s\<lparr>rv_heap := ?h, rv_open := ups\<rparr>"
  have f: "frame_size ?h c = frame_size (rv_heap s) c" for c
    by (rule frame_size_set_obj [OF o [unfolded open_at_def]]) (simp add: frame_view_def)
  have r: "reg_roots (s\<lparr>rv_heap := ?h\<rparr>) = reg_roots s" "rtop (s\<lparr>rv_heap := ?h\<rparr>) = rtop s"
    using reg_roots_heap [OF f] by simp_all
  have "host_ok (reg_roots ?s) (up # ups) (rv_heap s)" using rv_host [OF inv] by simp
  moreover have "set (reg_roots ?t) \<subseteq> set (reg_roots ?s)"
    using reg_top_cong [of "rv_frames s" ?h "rv_heap s"] f by (auto simp: reg_roots_iff)
  moreover have "set ups \<subseteq> set (reg_roots ?t)" by (auto simp: reg_roots_iff)
  moreover have "\<forall>b\<in>set (value_addrs v). obj_at (rv_heap s) b \<noteq> None" using v by (simp add: rlive_def)
  ultimately have "host_ok (reg_roots ?t) ups ?h" by (intro host_ok_close [OF _ o])
  moreover have "windows_ok (rv_frames s) ?h"
    using rv_bounds(5) [OF inv] o by (auto simp: windows_ok_def open_at_def heap_simps split: if_splits)
  ultimately show ?thesis using inv r(2) by (simp add: rv_inv_def)
qed

lemma rclosed_from_step:
  assumes "open_at (rv_heap s) up j" "map_of (rv_regs s) j = Some v"
    "rclosed_from i (s\<lparr>rv_heap := set_obj up (OUpvalue \<lparr>uv_location = ClosedHere, uv_closed = v\<rparr>) (rv_heap s)\<rparr>) s'"
  shows "rclosed_from i s s'"
proof -
  let ?h = "set_obj up (OUpvalue \<lparr>uv_location = ClosedHere, uv_closed = v\<rparr>) (rv_heap s)"
  have "rupvalue_value ?h (rv_regs s) b = rupvalue_value (rv_heap s) (rv_regs s) b" for b
    using assms(1,2) by (simp add: rupvalue_value_def heap_simps open_at_def)
  moreover have "obj_at ?h a = None \<longleftrightarrow> obj_at (rv_heap s) a = None" for a
    using assms(1) by (simp add: heap_simps open_at_def)
  ultimately show ?thesis using assms(3) unfolding rclosed_from_def by simp
qed

lemma rok_close_loop:
  "rv_inv (s\<lparr>rv_open := opens\<rparr>) \<Longrightarrow> (\<And>s'. rclosed_from i s s' \<Longrightarrow> Q () s') \<Longrightarrow> rok (rv_close_loop i opens) s Q"
proof (induction opens arbitrary: s Q)
  case Nil
  then have "\<not> open_at (rv_heap s) up j" for up j by (intro opens_none) (simp add: rv_inv_def host_ok_def)
  then show ?case using Nil by (simp add: rclosed_from_def)
next
  case (Cons up ups)
  have ok: "opens_ok (rv_heap s) (up # ups)" using Cons.prems(1) by (simp add: rv_inv_def host_ok_def)
  then obtain j where j: "open_at (rv_heap s) up j" by (rule opens_hd)
  show ?case
    unfolding rv_close_loop.simps xwp_bind
  proof (rule rok_open_at [OF j])
    have 1: "rok (xbind (rv_slot j) (\<lambda>v. xseq (rv_set_obj up (OUpvalue \<lparr>uv_location = ClosedHere, uv_closed = v\<rparr>))
        (rv_close_loop i ups))) s Q"
      if "i \<le> j"
    proof (cases "j < rtop s \<and> map_of (rv_regs s) j \<noteq> None")
      case True
      then obtain v where v: "j < rtop s" "map_of (rv_regs s) j = Some v" by blast
      let ?s = "s\<lparr>rv_heap := set_obj up (OUpvalue \<lparr>uv_location = ClosedHere, uv_closed = v\<rparr>) (rv_heap s)\<rparr>"
      have "rlive s v"
        using rheld_live [OF slot_held [OF Cons.prems(1), of j v]] v by (simp add: rlive_def)
      from inv_rclose [OF Cons.prems(1) j this] have "rok (rv_close_loop i ups) ?s Q"
        by (intro Cons.IH) (auto intro: Cons.prems(2) rclosed_from_step [OF j v(2)])
      then show ?thesis using v by (simp add: rv_slot_def rv_set_obj_def)
    qed (auto simp: rv_slot_def)
    have 2: "Q () (s\<lparr>rv_open := up # ups\<rparr>)" if "j < i"
    proof (rule Cons.prems(2))
      have "m < i" if "open_at (rv_heap s) b m" for b m using opens_below [OF ok j that] \<open>j < i\<close> by simp
      then show "rclosed_from i s (s\<lparr>rv_open := up # ups\<rparr>)" using Cons.prems(1) by (simp add: rclosed_from_def)
    qed
    show "rok (case uv_location \<lparr>uv_location = OpenAt j, uv_closed = VNil\<rparr> of
         ClosedHere \<Rightarrow> rv_fail_with BadPointer
       | OpenAt j \<Rightarrow> if i \<le> j
           then xbind (rv_slot j) (\<lambda>v. xseq (rv_set_obj up (OUpvalue \<lparr>uv_location = ClosedHere, uv_closed = v\<rparr>)) (rv_close_loop i ups))
           else xmod (\<lambda>s. s\<lparr>rv_open := up # ups\<rparr>)) s Q"
      using 1 2 by (cases "i \<le> j") (simp_all del: xwp_bind)
  qed
qed

lemma rok_close: "rv_inv s \<Longrightarrow> (\<And>s'. rclosed_from i s s' \<Longrightarrow> Q () s') \<Longrightarrow> rok (rv_close_upvalues i) s Q"
  unfolding rv_close_upvalues_def xwp_bind xwp_get by (rule rok_close_loop) simp_all

lemma rclosed_from_live: "rclosed_from i s s' \<Longrightarrow> rlive s v \<Longrightarrow> rlive s' v"
  by (auto simp: rclosed_from_def rlive_def)

end
