(* ===== verification/Reg_Steps.thy ===== *)
theory Reg_Steps
  imports Reg_Upvalues
begin

text \<open>
  Every instruction of the register machine, its calls and its loop keep the invariant.
\<close>

declare xwp_simps [simp]

subsection \<open>Errors and results\<close>

lemma rok_rv_fail:
  assumes inv: "rv_inv s" and Q: "\<And>e. rv_inv (s\<lparr>rv_error := e\<rparr>) \<Longrightarrow> Q () (s\<lparr>rv_error := e\<rparr>)"
  shows "rok (rv_fail m) s Q"
proof -
  let ?line = "\<lambda>fs. if fs = [] then xreturn 0
      else xbind rv_chunk (\<lambda>c. xbind rv_frame (\<lambda>f. xreturn (reg_line_at c (cf_ip f - 1))))"
  have "peeks (?line fs) (\<lambda>s x. True)" for fs
  proof (rule peeksI)
    fix s assume i: "rv_inv s"
    have "rok (xbind rv_chunk (\<lambda>c. xbind rv_frame (\<lambda>f. xreturn (reg_line_at c (cf_ip f - 1))))) s (\<lambda>x t. t = s \<and> True)"
      by (rule rok_peek [OF peeks_chunk i], rule rok_peek [OF peeks_frame i]) simp
    then show "rok (?line fs) s (\<lambda>x t. t = s \<and> True)" by (simp del: xwp_bind)
  qed
  note l = rok_peek [OF this inv]
  show ?thesis
    unfolding rv_fail_def xwp_bind [of "xget _"] xwp_get
    by (rule l) (use Q rv_inv_small(1) [OF inv] in simp)
qed

lemma keeps_rv_running: "keeps_rv m s \<Longrightarrow> keeps_rv (rv_running m) s"
  by (simp add: rv_running_def)

lemma keeps_rv_failing: "rv_inv s \<Longrightarrow> keeps_rv (rv_failing m) s"
  by (simp add: rv_failing_def) (erule rok_rv_fail, assumption)

lemma keeps_checked: "rv_inv s \<Longrightarrow> (\<And>v. r = Inr v \<Longrightarrow> rlive s v) \<Longrightarrow> keeps_rv (rv_checked insn r) s"
  by (cases r) (simp_all add: rv_checked_def keeps_rv_failing keeps_rv_running keeps_set_reg del: xwp_bind)

lemma binary_scalar:
  assumes "op \<in> {op_sub, op_mul, op_div, op_mod, op_less, op_less_equal, op_greater, op_greater_equal,
      \<lambda>a b. Inr (VBool (values_equal a b)), \<lambda>a b. Inr (VBool (\<not> values_equal a b))}" "op a b = Inr v"
  shows "rlive s v"
  using assms
  by (auto simp: op_sub_def op_mul_def op_div_def op_mod_def op_less_def op_less_equal_def op_greater_def
      op_greater_equal_def numeric_binary_def numeric_compare_def Let_def split: if_splits)

lemma keeps_rv_binary:
  "rv_inv s \<Longrightarrow> (\<And>a b v. op a b = Inr v \<Longrightarrow> rlive s v) \<Longrightarrow> keeps_rv (rv_binary op insn) s"
  unfolding rv_binary_def
  by (rule rok_peek [OF peeks_rk(1)], assumption, rule rok_peek [OF peeks_rk(2)], assumption, rule keeps_checked) blast+

lemma keeps_body_add:
  assumes inv: "rv_inv s"
  shows "keeps_rv (body_add sz insn) s"
  unfolding body_add_def
proof (rule rok_peek [OF peeks_rk(1) inv], rule rok_peek [OF peeks_rk(2) inv])
  fix a b
  obtain r h where op: "op_add sz (reg_roots s) a b (rv_heap s) = (r, h)" by fastforce
  note k = op_add_evolved [OF rv_sane [OF inv] op]
  have i: "rv_inv (s\<lparr>rv_heap := h\<rparr>)" by (rule rv_inv_evolved [OF inv k(1)]) (auto simp: is_open_upvalue_def)
  have "keeps_rv (rv_checked insn r) (s\<lparr>rv_heap := h\<rparr>)"
    by (rule keeps_checked [OF i]) (use k(2) in \<open>simp add: rlive_def\<close>)
  then show "keeps_rv (xbind (\<lambda>s. let (r, h) = op_add sz (reg_roots s) a b (rv_heap s) in Ok (r, s\<lparr>rv_heap := h\<rparr>))
      (rv_checked insn)) s"
    by (simp add: xwp_def xbind_def op)
qed

lemma keeps_rv_jump: "rv_inv s \<Longrightarrow> keeps_rv (rv_jump insn) s"
  unfolding rv_jump_def Let_def
  by (rule rok_peek [OF peeks_frame], assumption) (simp add: rok_set_pc rmoved_inv)

lemma keeps_jump_when: "rv_inv s \<Longrightarrow> keeps_rv (jump_when b insn) s"
  unfolding jump_when_def
  by (rule rok_peek [OF peeks_reg], assumption, rule keeps_rv_running) (simp add: keeps_rv_jump)

lemma keeps_body_index_set:
  assumes inv: "rv_inv s"
  shows "keeps_rv (body_index_set insn) s"
  unfolding body_index_set_def
proof (rule rok_peek [OF peeks_reg inv], rule rok_peek [OF peeks_rk(1) inv], rule rok_peek [OF peeks_rk(2) inv])
  fix a i v
  assume "rheld s v"
  then have v: "rlive s v" by (rule rheld_live)
  have "keeps_rv (case array_set a i v (rv_heap s) of
      Inl message \<Rightarrow> rv_failing message | Inr h \<Rightarrow> rv_running (xmod (\<lambda>s. s\<lparr>rv_heap := h\<rparr>))) s"
  proof (cases "array_set a i v (rv_heap s)")
    case (Inl m)
    then show ?thesis using inv by (simp add: keeps_rv_failing)
  next
    case (Inr h)
    then obtain n b vs where b: "array_of (rv_heap s) a = Some (b, vs)" "n < length vs"
      and h: "h = set_obj b (OArray (vs[n := v])) (rv_heap s)"
      by (auto simp: array_set_def sbind_eq_Inr resolve_index_Inr)
    then have o: "obj_at (rv_heap s) b = Some (OArray vs)" by (auto elim: array_ofE)
    have "\<forall>x\<in>set (trace (OArray vs)). obj_at (rv_heap s) x \<noteq> None"
      using rv_sane [OF inv] o unfolding sane_def no_dangling_def by blast
    then have "\<forall>x\<in>set (trace (OArray (vs[n := v]))). obj_at (rv_heap s) x \<noteq> None"
      using v by (auto simp: rlive_def dest!: set_update_subset_insert [THEN subsetD])
    then have "rv_inv (s\<lparr>rv_heap := h\<rparr>)"
      unfolding h by (intro rv_inv_set_obj [OF inv o])
        (simp_all add: is_string_def is_open_upvalue_def is_native_object_def frame_view_def)
    then show ?thesis by (simp add: Inr rv_running_def)
  qed
  then show "keeps_rv (xbind (xget (\<lambda>s. array_set a i v (rv_heap s))) (\<lambda>r. case r of
      Inl message \<Rightarrow> rv_failing message | Inr h \<Rightarrow> rv_running (xmod (\<lambda>s. s\<lparr>rv_heap := h\<rparr>)))) s" by simp
qed

lemma keeps_second_half:
  assumes m: "keeps_rv m s" and b: "\<And>insn t. rv_inv t \<Longrightarrow> keeps_rv (body insn) t"
  shows "keeps_rv (xbind m (second_half body)) s"
  unfolding xwp_bind
proof (rule xwp_mono [OF m])
  fix r t assume t: "rv_inv t"
  have "keeps_rv (xbind rv_fetch body) t" unfolding xwp_bind by (rule rok_fetch [OF t]) (rule b)
  then show "keeps_rv (second_half body r) t" using t by (cases r) (simp_all add: second_half_def del: xwp_bind)
qed simp

subsection \<open>Globals\<close>

lemma rok_cell:
  assumes inv: "rv_inv s"
    and Q: "\<And>cell c. rv_inv (s\<lparr>rv_cache := c\<rparr>) \<Longrightarrow> (\<And>key. cell = Some key \<Longrightarrow> map_of (rv_globals s) key \<noteq> None) \<Longrightarrow>
      Q cell (s\<lparr>rv_cache := c\<rparr>)"
  shows "rok (rv_cell name) s Q"
proof -
  have same: "Q cell s" if "\<And>key. cell = Some key \<Longrightarrow> map_of (rv_globals s) key \<noteq> None" for cell
    using Q [of "rv_cache s"] inv that by simp
  have index: "peeks rv_cache_index (\<lambda>s p. True)"
    unfolding rv_cache_index_def
    by (rule peeks_bind [OF peeks_frame], rule rok_peek [OF peeks_closure], assumption) auto
  have slot: "peeks (rv_cache_slot p) (\<lambda>s c. \<forall>key. c = Some key \<longrightarrow> map_of (rv_globals s) key \<noteq> None)" for p
  proof (rule peeksI)
    fix s assume "rv_inv s"
    then have c: "cache_ok (rv_cache s) (rv_globals s)" by (rule rv_bounds)
    have "map_of (rv_globals s) key \<noteq> None"
      if "map_of (rv_cache s) (fst p) = Some cells" "snd p < length cells" "cells ! snd p = Some key" for cells key
      using c map_of_SomeD [OF that(1)] nth_mem [OF that(2)] that(3) unfolding cache_ok_def by fastforce
    then show "rok (rv_cache_slot p) s (\<lambda>x t. t = s \<and> (\<forall>key. x = Some key \<longrightarrow> map_of (rv_globals s) key \<noteq> None))"
      by (simp add: rv_cache_slot_def split: option.split)
  qed
  have set: "rok (xseq (rv_set_cache_slot p cell) (xreturn cell)) s Q"
    if cell: "\<And>key. cell = Some key \<Longrightarrow> map_of (rv_globals s) key \<noteq> None" for p cell
  proof (cases "map_of (rv_cache s) (fst p)")
    case (Some cells)
    have "cache_ok (AList.update (fst p) (cells[snd p := cell]) (rv_cache s)) (rv_globals s)"
    proof (rule cache_ok_update)
      show c: "cache_ok (rv_cache s) (rv_globals s)" by (rule rv_bounds [OF inv])
      fix key assume "Some key \<in> set (cells[snd p := cell])"
      then have "Some key = cell \<or> Some key \<in> set cells" using set_update_subset_insert [of cells "snd p" cell] by blast
      then show "map_of (rv_globals s) key \<noteq> None"
        using cell c map_of_SomeD [OF Some] unfolding cache_ok_def by fastforce
    qed
    from Q [OF rv_inv_cache [OF inv this] cell] show ?thesis by (simp add: rv_set_cache_slot_def Some)
  qed (simp add: rv_set_cache_slot_def)
  have "rok (rv_cached_cell name) s Q"
    unfolding rv_cached_cell_def
  proof (rule rok_peek [OF index inv], rule rok_peek [OF slot inv])
    fix p slot
    assume "\<forall>key. slot = Some key \<longrightarrow> map_of (rv_globals s) key \<noteq> None"
    then show "rok (case slot of Some cell \<Rightarrow> xreturn (Some cell)
        | None \<Rightarrow> xbind (rv_find_global name) (\<lambda>cell. xseq (rv_set_cache_slot p cell) (xreturn cell))) s Q"
      using same [of slot] set [of "Some name" p] set [of None p] by (cases slot) (auto simp: rv_find_global_def)
  qed
  then show ?thesis
    unfolding rv_cell_def using same [of None] same [of "Some name"] by (cases "rv_inline_cache s") (auto simp: rv_find_global_def)
qed

lemma keeps_name_failure: "rv_inv s \<Longrightarrow> keeps_rv (rv_name_failure name) s"
  by (simp add: rv_name_failure_def keeps_rv_failing)

lemma keeps_rv_globals:
  assumes inv: "rv_inv s"
  shows "keeps_rv (rv_get_global insn) s" "keeps_rv (rv_set_global insn) s" "keeps_rv (rv_define_global insn) s"
proof -
  show "keeps_rv (rv_get_global insn) s"
    unfolding rv_get_global_def
  proof (rule rok_peek [OF peeks_object_constant inv], unfold xwp_bind [of "rv_cell _"], rule rok_cell [OF inv])
    fix name cell c
    assume i: "rv_inv (s\<lparr>rv_cache := c\<rparr>)"
    have "keeps_rv (rv_running (rv_set_reg (insn_a insn) v)) (s\<lparr>rv_cache := c\<rparr>)"
      if "map_of (rv_globals s) key = Some v" for key v
      using rheld_live [OF global_held [OF i, of key v]] that by (intro keeps_rv_running keeps_set_reg i) simp
    then show "keeps_rv (case cell of None \<Rightarrow> rv_name_failure name
       | Some key \<Rightarrow> xbind (xget (\<lambda>s. map_of (rv_globals s) key)) (\<lambda>v. xbind (xthe BadPointer v) (\<lambda>v.
           rv_running (rv_set_reg (insn_a insn) v)))) (s\<lparr>rv_cache := c\<rparr>)"
      using i by (auto simp: keeps_name_failure split: option.split)
  qed
  show "keeps_rv (rv_set_global insn) s"
    unfolding rv_set_global_def
  proof (rule rok_peek [OF peeks_object_constant inv], unfold xwp_bind [of "rv_cell _"], rule rok_cell [OF inv])
    fix name cell c
    assume i: "rv_inv (s\<lparr>rv_cache := c\<rparr>)" and cell: "\<And>key. cell = Some key \<Longrightarrow> map_of (rv_globals s) key \<noteq> None"
    have "keeps_rv (xbind (rv_reg (insn_a insn)) (\<lambda>v.
        rv_running (xmod (\<lambda>s. s\<lparr>rv_globals := AList.update key v (rv_globals s)\<rparr>)))) (s\<lparr>rv_cache := c\<rparr>)"
      if "cell = Some key" for key
    proof (rule rok_peek [OF peeks_reg i], rule keeps_rv_running)
      fix v assume v: "rheld (s\<lparr>rv_cache := c\<rparr>) v"
      have "obj_at (rv_heap (s\<lparr>rv_cache := c\<rparr>)) key \<noteq> None"
        by (rule global_name_live [OF i]) (use cell [OF that] in simp)
      from rv_inv_global [OF i rheld_live [OF v] this]
      show "keeps_rv (xmod (\<lambda>s. s\<lparr>rv_globals := AList.update key v (rv_globals s)\<rparr>)) (s\<lparr>rv_cache := c\<rparr>)" by simp
    qed
    then show "keeps_rv (case cell of None \<Rightarrow> rv_name_failure name
       | Some key \<Rightarrow> xbind (rv_reg (insn_a insn)) (\<lambda>v.
           rv_running (xmod (\<lambda>s. s\<lparr>rv_globals := AList.update key v (rv_globals s)\<rparr>)))) (s\<lparr>rv_cache := c\<rparr>)"
      using i by (cases cell) (simp_all add: keeps_name_failure del: xwp_bind)
  qed
  show "keeps_rv (rv_define_global insn) s"
    unfolding rv_define_global_def
  proof (rule rok_peek [OF peeks_object_constant inv], rule rok_peek [OF peeks_reg inv], rule keeps_rv_running)
    fix name v assume "held (rv_heap s) (reg_roots s) name" "rheld s v"
    then have "rv_inv (s\<lparr>rv_globals := AList.update name v (rv_globals s)\<rparr>)"
      by (intro rv_inv_global [OF inv rheld_live held_live])
    then show "keeps_rv (xmod (\<lambda>s. s\<lparr>rv_globals := AList.update name v (rv_globals s)\<rparr>)) s" by simp
  qed
qed

subsection \<open>Upvalues and closures\<close>

lemma peeks_frame_upvalue:
  "peeks (rv_frame_upvalue i) (\<lambda>s x. \<forall>up. x = Some up \<longrightarrow> obj_at (rv_heap s) up \<noteq> None)"
  unfolding rv_frame_upvalue_def
proof (rule peeks_bind [OF peeks_frame], rule rok_peek [OF peeks_closure], assumption, unfold split_paired_all split_conv)
  fix s f fn us
  assume inv: "rv_inv s" and o: "obj_at (rv_heap s) (cf_closure f) = Some (OClosure fn us)"
  have "obj_at (rv_heap s) up \<noteq> None" if "unat i < length us" "us ! unat i = Some up" for up
  proof -
    have "Some up \<in> set us" using that nth_mem by metis
    then have "up \<in> set (trace (OClosure fn us))" by (force simp: opt_addrs_def)
    then show ?thesis using rv_sane [OF inv] o unfolding sane_def no_dangling_def by blast
  qed
  then show "rok (xseq (xassert BadCode (unat i < length us)) (xreturn (us ! unat i))) s
      (\<lambda>y t. t = s \<and> (\<forall>up. y = Some up \<longrightarrow> obj_at (rv_heap s) up \<noteq> None))" by simp
qed

lemma peeks_read_upvalue: "peeks (rv_read_upvalue up) rlive"
  unfolding rv_read_upvalue_def
proof (rule peeks_bind [OF peeks_upvalue])
  fix s u assume inv: "rv_inv s" and o: "obj_at (rv_heap s) up = Some (OUpvalue u)"
  have "rlive s (uv_closed u)" by (rule rheld_value_live [OF inv o]) simp
  moreover have "rok (rv_slot j) s (\<lambda>y t. t = s \<and> rlive s y)" for j
    by (rule peeksD [OF peeks_slot inv]) (simp add: rheld_live)
  ultimately show "rok (case uv_location u of OpenAt j \<Rightarrow> rv_slot j | ClosedHere \<Rightarrow> xreturn (uv_closed u)) s
      (\<lambda>y t. t = s \<and> rlive s y)" by (simp split: upvalue_location.split)
qed

lemma keeps_rv_write_upvalue:
  assumes inv: "rv_inv s" and v: "rlive s v"
  shows "keeps_rv (rv_write_upvalue up v) s"
  unfolding rv_write_upvalue_def
proof (rule rok_peek [OF peeks_upvalue inv])
  fix u assume o: "obj_at (rv_heap s) up = Some (OUpvalue u)"
  show "keeps_rv (case uv_location u of OpenAt j \<Rightarrow> rv_set_slot j v
      | ClosedHere \<Rightarrow> rv_set_obj up (OUpvalue (u\<lparr>uv_closed := v\<rparr>))) s"
  proof (cases "uv_location u")
    case ClosedHere
    have "rv_inv (s\<lparr>rv_heap := set_obj up (OUpvalue (u\<lparr>uv_closed := v\<rparr>)) (rv_heap s)\<rparr>)"
      by (rule rv_inv_set_obj [OF inv o])
        (use v ClosedHere in \<open>simp_all add: is_string_def is_open_upvalue_def is_native_object_def rlive_def frame_view_def\<close>)
    then show ?thesis by (simp add: ClosedHere rv_set_obj_def)
  qed (simp add: keeps_set_slot inv v)
qed

lemma keeps_rv_upvalues:
  assumes inv: "rv_inv s"
  shows "keeps_rv (rv_get_upvalue insn) s" "keeps_rv (rv_set_upvalue insn) s"
proof -
  have the: "peeks (xthe BadPointer up) (\<lambda>s x. True)" for up :: "addr option"
    by (rule peeksI) (simp split: option.split)
  show "keeps_rv (rv_get_upvalue insn) s"
    unfolding rv_get_upvalue_def
    by (rule rok_peek [OF peeks_frame_upvalue inv], rule rok_peek [OF the inv], rule rok_peek [OF peeks_read_upvalue inv],
        rule keeps_rv_running, rule keeps_set_reg [OF inv])
  show "keeps_rv (rv_set_upvalue insn) s"
    unfolding rv_set_upvalue_def
    by (rule rok_peek [OF peeks_frame_upvalue inv], rule rok_peek [OF the inv], rule rok_peek [OF peeks_reg inv],
        rule keeps_rv_running, rule keeps_rv_write_upvalue [OF inv rheld_live])
qed

lemma keeps_rv_store:
  assumes inv: "rv_inv s" and up: "\<And>b. x = Some b \<Longrightarrow> obj_at (rv_heap s) b \<noteq> None"
    and o: "obj_at (rv_heap s) created = Some (OClosure fn us)"
  shows "rv_inv (s\<lparr>rv_heap := set_obj created (OClosure fn (us[i := x])) (rv_heap s)\<rparr>)"
proof (rule rv_inv_set_obj [OF inv o])
  have t: "\<forall>b\<in>set (trace (OClosure fn us)). obj_at (rv_heap s) b \<noteq> None"
    using rv_sane [OF inv] o unfolding sane_def no_dangling_def by blast
  have "set (trace (OClosure fn (us[i := x]))) \<subseteq> set (trace (OClosure fn us)) \<union> set (opt_addrs x)"
    using set_update_subset_insert [of us i x] by auto
  then show "\<forall>b\<in>set (trace (OClosure fn (us[i := x]))). obj_at (rv_heap s) b \<noteq> None"
    using t up by (cases x) (auto simp: opt_addrs_def)
qed (simp_all add: is_string_def is_open_upvalue_def is_native_object_def frame_view_def)

lemma keeps_rv_fill: "rv_inv s \<Longrightarrow> keeps_rv (rv_fill_upvalues sz created i n) s"
proof (induction n arbitrary: i s)
  case (Suc n)
  have rest: "keeps_rv (xbind (rv_closure created) (\<lambda>(fn, us).
      xseq (rv_set_obj created (OClosure fn (us[i := x]))) (rv_fill_upvalues sz created (i + 1) n))) t"
    if "rv_inv t" "\<And>b. x = Some b \<Longrightarrow> obj_at (rv_heap t) b \<noteq> None" for x t
    by (rule rok_peek [OF peeks_closure that(1)])
      (use keeps_rv_store [OF that] Suc.IH in \<open>auto simp: rv_set_obj_def\<close>)
  show ?case
    unfolding rv_fill_upvalues.simps xwp_bind [of rv_fetch]
  proof (rule rok_fetch [OF Suc.prems])
    fix capture s'
    assume i: "rv_inv s'"
    have 1: "keeps_rv (xbind (xbind rv_frame (\<lambda>f. xbind (rv_capture_upvalue sz (cf_base f + unat (insn_b capture)))
            (\<lambda>up. xreturn (Some up)))) (\<lambda>up.
         xbind (rv_closure created) (\<lambda>(fn, us).
         xseq (rv_set_obj created (OClosure fn (us[i := up]))) (rv_fill_upvalues sz created (i + 1) n)))) s'"
      unfolding xwp_bind [of "xbind _ _"]
      by (rule rok_peek [OF peeks_frame i], unfold xwp_bind [of "rv_capture_upvalue _ _"] xwp_return,
          rule rok_capture [OF i], use rv_bounds(5) [OF i] in \<open>simp add: windows_ok_def\<close>, rule rest)
        (auto simp: rcaptured_def open_at_def)
    have 2: "keeps_rv (xbind (rv_frame_upvalue (insn_b capture)) (\<lambda>up.
         xbind (rv_closure created) (\<lambda>(fn, us).
         xseq (rv_set_obj created (OClosure fn (us[i := up]))) (rv_fill_upvalues sz created (i + 1) n)))) s'"
      by (rule rok_peek [OF peeks_frame_upvalue i], rule rest [OF i]) blast
    show "keeps_rv (xbind (if insn_a capture \<noteq> 0
            then xbind rv_frame (\<lambda>f. xbind (rv_capture_upvalue sz (cf_base f + unat (insn_b capture))) (\<lambda>up. xreturn (Some up)))
            else rv_frame_upvalue (insn_b capture)) (\<lambda>up.
         xbind (rv_closure created) (\<lambda>(fn, us).
         xseq (rv_set_obj created (OClosure fn (us[i := up]))) (rv_fill_upvalues sz created (i + 1) n)))) s'"
      using 1 2 by (simp del: xwp_bind)
  qed
qed simp

lemma keeps_make_closure:
  assumes inv: "rv_inv s"
  shows "keeps_rv (rv_make_closure sz insn) s"
  unfolding rv_make_closure_def
proof (rule rok_peek [OF peeks_object_constant inv], rule rok_peek [OF peeks_function inv], unfold xwp_bind [of "rv_allocate _ _"])
  fix fn fo
  assume "held (rv_heap s) (reg_roots s) fn"
  then have t: "\<forall>b\<in>set (trace (OClosure fn (replicate (fo_upvalue_count fo) None))). held (rv_heap s) (reg_roots s) b"
    by (simp add: opt_addrs_def)
  show "rok (rv_allocate sz (OClosure fn (replicate (fo_upvalue_count fo) None))) s (\<lambda>created.
      keeps_rv (xseq (rv_set_reg (insn_a insn) (VObj created)) (rv_running (rv_fill_upvalues sz created 0 (fo_upvalue_count fo)))))"
  proof (rule rok_allocate [OF inv _ _ _ t])
    fix a h
    assume h: "rv_inv (s\<lparr>rv_heap := h\<rparr>)" "obj_at h a = Some (OClosure fn (replicate (fo_upvalue_count fo) None))"
    have "rlive (s\<lparr>rv_heap := h\<rparr>) (VObj a)" using h(2) by (simp add: rlive_def value_addrs_def)
    from keeps_set_reg [OF h(1) this]
    show "keeps_rv (xseq (rv_set_reg (insn_a insn) (VObj a)) (rv_running (rv_fill_upvalues sz a 0 (fo_upvalue_count fo))))
        (s\<lparr>rv_heap := h\<rparr>)"
      unfolding xwp_bind by (rule xwp_mono) (simp_all add: keeps_rv_running keeps_rv_fill)
  qed (simp_all add: is_string_def is_open_upvalue_def is_native_object_def)
qed

lemma keeps_rv_close: "rv_inv s \<Longrightarrow> keeps_rv (rv_close insn) s"
  unfolding rv_close_def
  by (rule rok_peek [OF peeks_frame], assumption, rule keeps_rv_running, erule rok_close) (simp add: rclosed_from_def)

subsection \<open>Calls and returns\<close>

lemma keeps_rv_error: "rv_inv s \<Longrightarrow> keeps_rv (rv_error_outcome m) s"
  by (simp add: rv_error_outcome_def) (erule rok_rv_fail, assumption)

definition filled :: "nat \<Rightarrow> nat \<Rightarrow> reg_vm \<Rightarrow> reg_vm \<Rightarrow> bool" where
  "filled i n s t \<longleftrightarrow> rv_inv t \<and> (\<exists>regs. t = s\<lparr>rv_regs := regs\<rparr> \<and>
     (\<forall>j. map_of regs j = (if i \<le> j \<and> j < i + n then Some VNil else map_of (rv_regs s) j)))"

lemma rok_fill: "rv_inv s \<Longrightarrow> rok (rv_fill_nil i n) s (\<lambda>_. filled i n s)"
proof (induction n arbitrary: i s)
  case 0
  then show ?case by (auto simp: filled_def intro!: exI [of _ "rv_regs s"])
next
  case (Suc n)
  show ?case
    unfolding rv_fill_nil.simps xwp_bind
  proof (rule rok_set_slot [OF Suc.prems])
    let ?s = "s\<lparr>rv_regs := AList.update i VNil (rv_regs s)\<rparr>"
    assume "rv_inv ?s"
    from Suc.IH [OF this, of "i + 1"] show "rok (rv_fill_nil (i + 1) n) ?s (\<lambda>_. filled i (Suc n) s)"
      by (rule xwp_mono) (force simp: filled_def update_conv')+
  qed simp
qed

lemma inv_push_window:
  assumes inv: "rv_inv s" and c: "obj_at (rv_heap s) a \<noteq> None" and w: "frame_size (rv_heap s) a = window"
    and arg: "base + argc \<le> rtop s" "argc \<le> window" "base + window \<le> kRegisterSlots"
    and t: "filled (base + argc) (window - argc) s t" and n: "length (rv_frames s) < kMaxFrames"
    and low: "0 < base" "rv_frames s = [] \<Longrightarrow> base = 1"
  shows "rv_inv (t\<lparr>rv_frames := \<lparr>cf_closure = a, cf_ip = 0, cf_base = base\<rparr> # rv_frames t\<rparr>)"
proof -
  obtain regs where r: "t = s\<lparr>rv_regs := regs\<rparr>" and m: "\<And>j. map_of regs j =
      (if base + argc \<le> j \<and> j < base + window then Some VNil else map_of (rv_regs s) j)"
    using t arg(2) unfolding filled_def by auto
  let ?t = "t\<lparr>rv_frames := \<lparr>cf_closure = a, cf_ip = 0, cf_base = base\<rparr> # rv_frames t\<rparr>"
  have top: "i < rtop ?t \<longleftrightarrow> i < rtop s \<or> i < base + window" for i
    by (auto simp: reg_top_less frame_end_def r w)
  show ?thesis
  proof (rule rv_inv_change [of t])
    show "rv_inv t" using t by (simp add: filled_def)
    fix b assume b: "b \<in> set (reg_roots ?t)" "b \<notin> set (reg_roots t)"
    have "b = a"
    proof (rule ccontr)
      assume "b \<noteq> a"
      with b obtain i v where v: "i < rtop ?t" "map_of regs i = Some v" "b \<in> set (value_addrs v)"
        unfolding reg_roots_iff r by auto
      then have "\<not> (base + argc \<le> i \<and> i < base + window)" using m [of i] by (auto simp: value_addrs_def)
      then have "i < rtop s" using top [of i] v(1) arg(1) by linarith
      then show False using b(2) v(2,3) unfolding reg_roots_iff r by auto
    qed
    then show "obj_at (rv_heap t) b \<noteq> None" using c r by simp
  next
    have "frame_end (rv_heap s) \<lparr>cf_closure = a, cf_ip = 0, cf_base = base\<rparr> \<le> kRegisterSlots"
      using arg(3) by (simp add: frame_end_def w)
    then show "rtop ?t \<le> kRegisterSlots" using rv_bounds(2) [OF inv] by (simp add: reg_top_le r)
    show "map_of (rv_regs ?t) i \<noteq> None" if "i < rtop ?t" for i
      using that rv_bounds(3) [OF inv, of i] m [of i] arg(1) unfolding top by (auto simp: r)
    show "windows_ok (rv_frames ?t) (rv_heap t)"
      using rv_bounds(5) [OF inv] low by (auto simp: windows_ok_def r)
  qed (use n r rv_bounds(4) [OF inv] in simp_all)
qed

lemma keeps_push_window:
  assumes inv: "rv_inv s" and c: "obj_at (rv_heap s) a \<noteq> None" and w: "frame_size (rv_heap s) a = window"
    and b: "base + window \<le> kRegisterSlots" and low: "0 < base" "rv_frames s = [] \<Longrightarrow> base = 1"
  shows "keeps_rv (rv_push_frame a base argc window) s"
proof (cases "base + argc \<le> rtop s \<and> argc \<le> window")
  case True
  have "rok (rv_fill_nil (base + argc) (window - argc)) s (\<lambda>_ t.
      length (rv_frames s) < kMaxFrames \<longrightarrow>
        rv_inv (t\<lparr>rv_frames := \<lparr>cf_closure = a, cf_ip = 0, cf_base = base\<rparr> # rv_frames t\<rparr>))"
    by (rule xwp_mono [OF rok_fill [OF inv]]) (use inv_push_window [OF inv c w _ _ b _ _ low] True in blast)+
  then show ?thesis using True by (simp add: rv_push_frame_def)
qed (auto simp: rv_push_frame_def)

lemma keeps_rv_call_closure:
  assumes inv: "rv_inv s" and o: "obj_at (rv_heap s) a = Some (OClosure fn us)" and callee: "callee < rtop s"
  shows "keeps_rv (rv_call_closure a fn callee argc) s"
  unfolding rv_call_closure_def
proof (rule rok_peek [OF peeks_function inv])
  fix fo assume f: "obj_at (rv_heap s) fn = Some (OFunction fo)"
  let ?w = "rc_frame_size (fo_reg fo)"
  have w: "frame_size (rv_heap s) a = ?w" by (simp add: frame_size_def o f)
  have "callee + 1 \<le> kRegisterSlots" using callee rv_bounds(2) [OF inv] by simp
  then have "keeps_rv (rv_push_frame a (callee + 1) argc ?w) s" if "\<not> kRegisterSlots - (callee + 1) < ?w"
    using that callee by (intro keeps_push_window [OF inv _ w]) (simp_all add: o reg_top_Nil)
  then show "keeps_rv (if fo_arity fo \<noteq> argc then rv_error_outcome (arity_error_message (fo_arity fo) argc)
       else let base = callee + 1; window = ?w in
         xbind (xget (\<lambda>s. length (rv_frames s) - rv_uncounted s)) (\<lambda>depth.
           if kMaxCallDepth \<le> depth \<or> kRegisterSlots - base < window then rv_error_outcome kErrStackOverflow
           else xseq (rv_push_frame a base argc window) (xreturn PushedFrame))) s"
    using keeps_rv_error [OF inv] by (auto simp: Let_def)
qed

lemma rok_ok: "m s = Ok (x, t) \<Longrightarrow> rok (k x) t Q \<Longrightarrow> rok (xbind m k) s Q"
  by (simp add: xwp_def xbind_def)

lemma keeps_rv_native:
  assumes inv: "rv_inv s" and args: "length args = native_arity f" "\<forall>v\<in>set args. set (value_addrs v) \<subseteq> set (reg_roots s)"
  shows "keeps_rv (xbind (rv_call_native sz clk f args) (rv_native_result callee)) s"
proof -
  let ?s = "if f = NativeClock then s\<lparr>rv_ticks := rv_ticks s + 1\<rparr> else s"
  have i: "rv_inv ?s" and st: "reg_roots ?s = reg_roots s" "rv_heap ?s = rv_heap s"
    using inv rv_inv_small(4) by (auto simp: reg_roots_def)
  obtain r h where c: "call_native sz (reg_roots ?s) (clk (rv_ticks ?s)) f args (rv_heap ?s) = (r, h)" by fastforce
  have a: "\<forall>v\<in>set args. set (value_addrs v) \<subseteq> gc_roots (reg_roots ?s) (rv_heap ?s)"
    using args(2) st by (auto simp: gc_roots_def)
  have g: "gc_live (rv_heap ?s) (reg_roots ?s)" using rv_host [OF i] by (simp add: host_ok_def)
  note k = call_native_evolved [OF g args(1) a c]
  have h: "rv_inv (?s\<lparr>rv_heap := h\<rparr>)" by (rule rv_inv_evolved [OF i k(1)]) (auto simp: is_open_upvalue_def)
  have "rlive (?s\<lparr>rv_heap := h\<rparr>) v" if "r = Inr v" for v using k(2) [OF that] by (simp add: rlive_def)
  then have "keeps_rv (rv_native_result callee r) (?s\<lparr>rv_heap := h\<rparr>)"
    using h by (cases r) (simp_all add: rv_native_result_def keeps_rv_error keeps_set_slot)
  moreover have "rv_call_native sz clk f args s = Ok (r, ?s\<lparr>rv_heap := h\<rparr>)"
    using c by (simp add: rv_call_native_def Let_def)
  ultimately show ?thesis by (rule rok_ok [rotated])
qed

lemma keeps_rv_call_object:
  assumes inv: "rv_inv s" and ob: "obj_at (rv_heap s) a = Some ob" and callee: "callee < rtop s"
  shows "keeps_rv (rv_call_object sz clk callee argc a ob) s"
proof (cases ob)
  case (ONative name arity f)
  then have a: "arity = native_arity f" using rv_host [OF inv] ob by (auto simp: host_ok_def natives_ok_def)
  show ?thesis
  proof (cases "arity = argc")
    case True
    have "keeps_rv (xbind (rv_slots (callee + 1) argc) (\<lambda>args.
        xbind (rv_call_native sz clk f args) (rv_native_result callee))) s"
      by (rule rok_peek [OF peeks_slots inv], rule keeps_rv_native [OF inv]) (use a True in simp_all)
    then show ?thesis by (simp only: rv_call_object_def ONative obj.case True simp_thms if_False)
  qed (simp add: rv_call_object_def ONative keeps_rv_error inv)
qed (simp_all add: rv_call_object_def keeps_rv_error keeps_rv_call_closure inv ob callee)

lemma keeps_rv_call_value:
  assumes inv: "rv_inv s"
  shows "keeps_rv (rv_call_value sz clk callee argc) s"
  unfolding rv_call_value_def
proof (rule rok_peek [OF peeks_slot inv])
  fix v assume v: "rheld s v \<and> callee < rtop s"
  have "keeps_rv (xbind (rv_object a) (rv_call_object sz clk callee argc a)) s" for a
    by (rule rok_peek [OF peeks_object inv], rule keeps_rv_call_object [OF inv]) (use v in simp_all)
  then show "keeps_rv (case v of VObj a \<Rightarrow> xbind (rv_object a) (rv_call_object sz clk callee argc a)
      | _ \<Rightarrow> rv_error_outcome kErrNotCallable) s"
    using keeps_rv_error [OF inv] by (cases v) (simp_all only: gvalue.case)
qed

lemma keeps_rv_call: "rv_inv s \<Longrightarrow> keeps_rv (rv_call sz clk insn) s"
  unfolding rv_call_def by (rule rok_peek [OF peeks_frame], assumption) (simp add: keeps_rv_call_value)

lemma keeps_rv_return:
  assumes inv: "rv_inv s" and v: "rlive s v"
  shows "keeps_rv (rv_return stop_frames v) s"
  unfolding rv_return_def
proof (rule rok_peek [OF peeks_frame inv], unfold xwp_bind [of "rv_close_upvalues _"], rule rok_close [OF inv])
  fix f s'
  assume c: "rclosed_from (cf_base f) s s'"
  have i: "rv_inv s'" and l: "rlive s' v" using c rclosed_from_live [OF c v] by (simp_all add: rclosed_from_def)
  have t: "rv_inv (s'\<lparr>rv_frames := tl (rv_frames s')\<rparr>)" by (rule rv_inv_pop_frame [OF i])
  have "rlive (s'\<lparr>rv_frames := tl (rv_frames s')\<rparr>) v" using l by (simp add: rlive_def)
  then have "keeps_rv (rv_running (rv_set_slot (cf_base f - 1) v)) (s'\<lparr>rv_frames := tl (rv_frames s')\<rparr>)"
    by (intro keeps_rv_running keeps_set_slot t)
  then show "keeps_rv (xseq (xmod (\<lambda>s. s\<lparr>rv_frames := tl (rv_frames s)\<rparr>))
         (xbind (xget (\<lambda>s. length (rv_frames s))) (\<lambda>n.
            if n = stop_frames
            then xseq (xmod (\<lambda>s. s\<lparr>rv_result := v\<rparr>)) (xreturn (Finished True))
            else rv_running (rv_set_slot (cf_base f - 1) v)))) s'"
    using rv_inv_small(3) [OF t, of v] by simp
qed

subsection \<open>Printing and arrays\<close>

lemma keeps_rv_print: "rv_inv s \<Longrightarrow> keeps_rv (rv_print insn) s"
  unfolding rv_print_def
  by (rule rok_peek [OF peeks_rk(1)], assumption, rule keeps_rv_running) (simp add: rv_inv_small)

lemma keeps_rv_array:
  assumes inv: "rv_inv s"
  shows "keeps_rv (rv_array sz insn) s"
  unfolding rv_array_def
proof (rule rok_peek [OF peeks_elements inv], unfold xwp_bind [of "rv_allocate _ _"])
  fix vs assume vs: "\<forall>v\<in>set vs. rheld s v"
  then have t: "\<forall>b\<in>set (trace (OArray vs)). held (rv_heap s) (reg_roots s) b" by (auto simp: rheld_def)
  show "rok (rv_allocate sz (OArray vs)) s (\<lambda>a. keeps_rv (rv_running (rv_set_reg (insn_a insn) (VObj a))))"
  proof (rule rok_allocate [OF inv _ _ _ t])
    fix a h assume "rv_inv (s\<lparr>rv_heap := h\<rparr>)" "obj_at h a = Some (OArray vs)"
    then show "keeps_rv (rv_running (rv_set_reg (insn_a insn) (VObj a))) (s\<lparr>rv_heap := h\<rparr>)"
      by (intro keeps_rv_running keeps_set_reg) (simp_all add: rlive_def value_addrs_def)
  qed (simp_all add: is_string_def is_open_upvalue_def is_native_object_def)
qed

lemma keeps_array_append:
  assumes inv: "rv_inv s"
  shows "keeps_rv (rv_array_append insn) s"
  unfolding rv_array_append_def
proof (rule rok_peek [OF peeks_reg inv])
  fix v
  have app: "keeps_rv (rv_running (rv_set_obj a (OArray (old @ vs)))) s"
    if o: "obj_at (rv_heap s) a = Some (OArray old)" and vs: "\<forall>v\<in>set vs. rheld s v" for a old vs
  proof -
    have "\<forall>b\<in>set (trace (OArray old)). obj_at (rv_heap s) b \<noteq> None"
      using rv_sane [OF inv] o unfolding sane_def no_dangling_def by blast
    moreover have "\<forall>v\<in>set vs. rlive s v" using vs rheld_live by blast
    ultimately have "rv_inv (s\<lparr>rv_heap := set_obj a (OArray (old @ vs)) (rv_heap s)\<rparr>)"
      by (intro rv_inv_set_obj [OF inv o])
        (auto simp: is_string_def is_open_upvalue_def is_native_object_def frame_view_def rlive_def)
    then show ?thesis by (simp add: rv_running_def rv_set_obj_def)
  qed
  have "keeps_rv (xbind (rv_object a) (\<lambda>ob. xbind (rv_elements insn) (\<lambda>vs.
      case ob of OArray old \<Rightarrow> rv_running (rv_set_obj a (OArray (old @ vs))) | _ \<Rightarrow> rv_fail_with BadPointer))) s" for a
  proof (rule rok_peek [OF peeks_object inv], rule rok_peek [OF peeks_elements inv])
    fix ob vs assume "obj_at (rv_heap s) a = Some ob" "\<forall>v\<in>set vs. rheld s v"
    then show "keeps_rv (case ob of OArray old \<Rightarrow> rv_running (rv_set_obj a (OArray (old @ vs)))
        | _ \<Rightarrow> rv_fail_with BadPointer) s"
      using app by (cases ob) simp_all
  qed
  then show "keeps_rv (xbind (case v of VObj a \<Rightarrow> xreturn a | _ \<Rightarrow> rv_fail_with BadPointer) (\<lambda>a.
      xbind (rv_object a) (\<lambda>ob. xbind (rv_elements insn) (\<lambda>vs.
      case ob of OArray old \<Rightarrow> rv_running (rv_set_obj a (OArray (old @ vs))) | _ \<Rightarrow> rv_fail_with BadPointer)))) s"
    unfolding xwp_bind [of "case v of VObj a \<Rightarrow> xreturn a | _ \<Rightarrow> rv_fail_with BadPointer"]
    by (cases v) (simp_all only: gvalue.case xwp_return rok_fail)
qed

lemma keeps_rv_index_get:
  assumes inv: "rv_inv s"
  shows "keeps_rv (rv_index_get insn) s"
  unfolding rv_index_get_def xwp_bind [of "xget _"] xwp_get
proof (rule rok_peek [OF peeks_rk(1) inv], rule rok_peek [OF peeks_rk(2) inv], unfold xwp_bind [of "xget _"] xwp_get,
    rule keeps_checked [OF inv])
  fix a i v
  assume "array_get (rv_heap s) a i = Inr v"
  then obtain n b vs where "array_of (rv_heap s) a = Some (b, vs)" "n < length vs" "v = vs ! n"
    by (auto simp: array_get_def sbind_eq_Inr resolve_index_Inr)
  then show "rlive s v"
    using rheld_value_live [OF inv, of b "OArray vs" v] nth_mem [of n vs] by (fastforce elim!: array_ofE)
qed

subsection \<open>The loop\<close>

lemma keeps_reg_op:
  assumes inv: "rv_inv s"
  shows "keeps_rv (reg_op sz clk stop_frames insn op) s"
proof -
  have move: "keeps_rv (xbind (rv_reg (insn_b insn)) (\<lambda>v. rv_running (rv_set_reg (insn_a insn) v))) s"
    by (rule rok_peek [OF peeks_reg inv], intro keeps_rv_running keeps_set_reg inv rheld_live)
  have loadk: "keeps_rv (xbind (rv_constant (insn_bx insn)) (\<lambda>v. rv_running (rv_set_reg (insn_a insn) v))) s"
    by (rule rok_peek [OF peeks_constant inv], intro keeps_rv_running keeps_set_reg inv rheld_live)
  have neg: "keeps_rv (xbind (rv_rk_b insn) (\<lambda>x. rv_checked insn (op_negate x))) s"
    by (rule rok_peek [OF peeks_rk(1) inv], rule keeps_checked [OF inv]) (auto simp: op_negate_def split: gvalue.splits)
  have not: "keeps_rv (xbind (rv_rk_b insn) (\<lambda>x. rv_running (rv_set_reg (insn_a insn) (op_not x)))) s"
    by (rule rok_peek [OF peeks_rk(1) inv], intro keeps_rv_running keeps_set_reg inv) (simp add: op_not_def)
  have ret: "keeps_rv (xbind (rv_rk_b insn) (rv_return stop_frames)) s" "keeps_rv (rv_return stop_frames VNil) s"
    by (rule rok_peek [OF peeks_rk(1) inv], rule keeps_rv_return [OF inv rheld_live], assumption,
        rule keeps_rv_return [OF inv]) simp
  have bin: "keeps_rv (rv_binary f insn) s"
    if "f \<in> {op_sub, op_mul, op_div, op_mod, op_less, op_less_equal, op_greater, op_greater_equal,
      \<lambda>a b. Inr (VBool (values_equal a b)), \<lambda>a b. Inr (VBool (\<not> values_equal a b))}" for f insn
    using keeps_rv_binary [OF inv] binary_scalar [OF that] by blast
  have jump: "keeps_rv (body_jump insn) t" "keeps_rv (body_jump_if_false insn) t" if "rv_inv t" for insn t
    unfolding body_jump_def body_jump_if_false_def by (intro keeps_rv_running keeps_rv_jump keeps_jump_when that)+
  note rules = move loadk neg not ret jump [OF inv] keeps_jump_when [OF inv] keeps_rv_globals [OF inv]
    keeps_rv_upvalues [OF inv] keeps_body_add [OF inv] keeps_rv_call [OF inv] keeps_make_closure [OF inv]
    keeps_rv_close [OF inv] keeps_rv_print [OF inv] keeps_rv_array [OF inv] keeps_array_append [OF inv]
    keeps_rv_index_get [OF inv] keeps_body_index_set [OF inv] jump keeps_body_add
  show ?thesis
    unfolding reg_op_def
    by (cases op; simp only: regop.simps)
      ((intro keeps_rv_running keeps_set_reg inv rlive_scalars | rule rules | rule keeps_second_half
        | (rule bin, (rule insertI1 | rule insertI2)+) | assumption | simp add: inv)+)
qed

lemma keeps_reg_step: "rv_inv s \<Longrightarrow> keeps_rv (reg_step sz clk stop_frames) s"
  unfolding reg_step_def xwp_bind [of rv_fetch]
  by (rule rok_fetch, assumption) (simp add: keeps_reg_op split: option.split)

lemma keeps_reg_execute: "rv_inv s \<Longrightarrow> keeps_rv (reg_execute sz clk stop_frames n) s"
proof (induction n arbitrary: s)
  case 0
  then show ?case by (simp add: xwp_def)
next
  case (Suc n)
  show ?case
    unfolding reg_execute.simps xwp_bind
    by (rule xwp_mono [OF keeps_reg_step [OF Suc.prems]]) (simp_all add: Suc.IH split: step_result.split)
qed

end
