(* ===== verification/Reg_Rest.thy ===== *)
theory Reg_Rest
  imports Reg_Steps
begin

text \<open>
  The ends of the register machine's loop, and its entry points: when \<open>execute\<close> returns, either the
  frames and the open list are empty or an error is recorded, and in both cases the machine comes to
  rest: no frame, no open upvalue, and nil in slot 0.
\<close>

declare xwp_simps [simp]

subsection \<open>How an instruction ends\<close>

definition ends :: "step_result \<Rightarrow> reg_vm \<Rightarrow> bool" where
  "ends r t \<longleftrightarrow> (r = Finished True \<longrightarrow> rv_frames t = [] \<and> rv_open t = []) \<and> (r = Finished False \<longrightarrow> rv_error t \<noteq> None)"

definition finishes :: "step_result rvm \<Rightarrow> bool" where
  "finishes m \<longleftrightarrow> (\<forall>s. rok m s ends)"

lemma rok_any: "rok m s (\<lambda>_ _. True)"
  by (simp add: xwp_def split: outcome.split)

lemma finishes_bind: "(\<And>x. finishes (k x)) \<Longrightarrow> finishes (xbind m k)"
  unfolding finishes_def xwp_bind by (blast intro: xwp_mono [OF rok_any])

lemma finishes_running: "finishes (rv_running m)"
  unfolding finishes_def rv_running_def xwp_bind xwp_return by (simp add: ends_def rok_any)

lemma rok_records: "rok (rv_fail m) s (\<lambda>_ t. rv_error t \<noteq> None)"
  unfolding rv_fail_def xwp_bind [of "xget _"] xwp_get xwp_bind [of "if _ then _ else _"]
  by (rule xwp_mono [OF rok_any]) simp_all

lemma finishes_failing: "finishes (rv_failing m)"
  unfolding finishes_def rv_failing_def xwp_bind xwp_return
  by (intro allI xwp_mono [OF rok_records]) (simp_all add: ends_def)

lemma finishes_basic: "finishes (rv_fail_with e)" "finishes (xreturn Running)"
  by (simp_all add: finishes_def ends_def)

lemma finishes_checked: "finishes (rv_checked insn r)"
  by (cases r) (simp_all add: rv_checked_def finishes_running finishes_failing)

lemma finishes_cases:
  "finishes m \<Longrightarrow> (\<And>x. finishes (k x)) \<Longrightarrow> finishes (case c of None \<Rightarrow> m | Some x \<Rightarrow> k x)"
  "(\<And>e. finishes (f e)) \<Longrightarrow> (\<And>x. finishes (g x)) \<Longrightarrow> finishes (case d of Inl e \<Rightarrow> f e | Inr x \<Rightarrow> g x)"
  by (simp_all split: option.split sum.split)

lemmas finishes_rules = finishes_bind finishes_running finishes_failing finishes_basic finishes_checked finishes_cases

lemma finishes_parts:
  "finishes (rv_binary f insn)" "finishes (body_add sz insn)" "finishes (body_jump insn)" "finishes (jump_when b insn)"
  "finishes (body_jump_if_false insn)" "finishes (body_index_set insn)" "finishes (rv_get_global insn)"
  "finishes (rv_set_global insn)" "finishes (rv_define_global insn)" "finishes (rv_get_upvalue insn)"
  "finishes (rv_set_upvalue insn)" "finishes (rv_make_closure sz insn)" "finishes (rv_close insn)"
  "finishes (rv_print insn)" "finishes (rv_array sz insn)" "finishes (rv_index_get insn)"
  unfolding rv_binary_def body_add_def body_jump_def jump_when_def body_jump_if_false_def body_index_set_def
    rv_get_global_def rv_set_global_def rv_define_global_def rv_get_upvalue_def rv_set_upvalue_def
    rv_make_closure_def rv_close_def rv_print_def rv_array_def rv_index_get_def rv_name_failure_def
  by (intro finishes_rules)+

lemma finishes_append: "finishes (rv_array_append insn)"
  unfolding rv_array_append_def by (intro finishes_bind) (auto simp: finishes_rules split: obj.split)

lemma finishes_second: "finishes m \<Longrightarrow> (\<And>insn. finishes (body insn)) \<Longrightarrow> finishes (xbind m (second_half body))"
  unfolding finishes_def xwp_bind
proof (intro allI, rule xwp_mono, blast)
  fix s r t assume b: "\<And>insn. \<forall>s. rok (body insn) s ends" and e: "ends r t"
  have "finishes (xbind rv_fetch body)" by (rule finishes_bind) (simp add: finishes_def b)
  then show "rok (second_half body r) t ends"
    using e by (cases r) (simp_all add: second_half_def finishes_def del: xwp_bind)
qed simp

subsection \<open>Calls and returns\<close>

definition rcalled :: "reg_vm \<Rightarrow> call_outcome \<Rightarrow> reg_vm \<Rightarrow> bool" where
  "rcalled s r t \<longleftrightarrow>
     (r = CallError \<longrightarrow> rv_error t \<noteq> None) \<and>
     (r = NativeDone \<longrightarrow> rv_frames t = rv_frames s \<and> rv_open t = rv_open s)"

lemma rcalled_error: "rok (rv_error_outcome m) s (rcalled s')"
  unfolding rv_error_outcome_def xwp_bind xwp_return
  by (rule xwp_mono [OF rok_records]) (simp_all add: rcalled_def)

lemma rcalled_native: "rok (xbind (rv_call_native sz clk f args) (rv_native_result callee)) s (rcalled s)"
proof -
  let ?s = "if f = NativeClock then s\<lparr>rv_ticks := rv_ticks s + 1\<rparr> else s"
  obtain r h where "call_native sz (reg_roots ?s) (clk (rv_ticks ?s)) f args (rv_heap ?s) = (r, h)" by fastforce
  then obtain t where c: "rv_call_native sz clk f args s = Ok (r, t)" "rv_frames t = rv_frames s" "rv_open t = rv_open s"
    by (simp add: rv_call_native_def Let_def)
  have "rok (rv_native_result callee r) t (rcalled s)"
    using c(2,3) by (cases r) (simp_all add: rv_native_result_def rcalled_error rv_set_slot_def rcalled_def)
  with c(1) show ?thesis by (rule rok_ok)
qed

lemma rok_slot_same: "rok (rv_slot i) s (\<lambda>_ t. t = s)"
  by (simp add: rv_slot_def split: option.split)

lemma rok_slots_same: "rok (rv_slots i n) s (\<lambda>_ t. t = s)"
proof (induction n arbitrary: i)
  case (Suc n)
  show ?case
    unfolding rv_slots.simps xwp_bind [of "rv_slot _"]
    by (rule xwp_mono [OF rok_slot_same]) (use Suc.IH in simp_all)
qed simp

lemma rcalled_value: "rok (rv_call_value sz clk callee argc) s (rcalled s)"
proof -
  have pushed: "rok (xseq m (xreturn PushedFrame)) s' (rcalled s)" for m s'
    unfolding xwp_bind xwp_return by (rule xwp_mono [OF rok_any]) (simp_all add: rcalled_def)
  have object: "rok (rv_call_object sz clk callee argc a ob) s (rcalled s)" for a ob
  proof (cases ob)
    case (OClosure fn us)
    have "rok (rv_call_closure a fn callee argc) s (rcalled s)"
      by (simp add: rv_call_closure_def rv_function_def rv_object_def Let_def rcalled_error split: option.split obj.split)
        (simp add: xwp_mono [OF rok_any] rcalled_def)
    then show ?thesis by (simp add: rv_call_object_def OClosure)
  next
    case (ONative name arity f)
    have "rok (xbind (rv_slots (callee + 1) argc) (\<lambda>args. xbind (rv_call_native sz clk f args) (rv_native_result callee))) s
        (rcalled s)"
      unfolding xwp_bind [of "rv_slots _ _"] by (rule xwp_mono [OF rok_slots_same]) (simp_all only: rcalled_native)
    then show ?thesis by (simp add: rv_call_object_def ONative rcalled_error del: xwp_bind)
  qed (simp_all add: rv_call_object_def rcalled_error)
  show ?thesis
    unfolding rv_call_value_def xwp_bind [of "rv_slot _"]
  proof (rule xwp_mono [OF rok_slot_same])
    fix v t assume t: "t = s"
    have "rok (xbind (rv_object a) (rv_call_object sz clk callee argc a)) s (rcalled s)" for a
      by (simp add: rv_object_def object split: option.split)
    then show "rok (case v of VObj a \<Rightarrow> xbind (rv_object a) (rv_call_object sz clk callee argc a)
        | _ \<Rightarrow> rv_error_outcome kErrNotCallable) t (rcalled s)"
      unfolding t by (cases v) (simp_all only: gvalue.case rcalled_error)
  qed simp
qed

lemma finishes_call: "finishes (rv_call sz clk insn)"
proof -
  have "finishes (xbind (rv_call_value sz clk n k) (\<lambda>r. xreturn (if r = CallError then Finished False else Running)))" for n k
    unfolding finishes_def xwp_bind xwp_return
    by (intro allI xwp_mono [OF rcalled_value]) (simp_all add: ends_def rcalled_def)
  then show ?thesis unfolding rv_call_def by (rule finishes_bind)
qed

lemma no_opens: "opens_ok h opens \<Longrightarrow> (\<And>up j. \<not> open_at h up j) \<Longrightarrow> opens = []"
  by (cases opens) (auto elim: opens_hd)

lemma rclosed_low:
  assumes "rclosed_from i s s'" "i \<le> 1"
  shows "rv_open s' = []"
proof -
  have inv: "rv_inv s'" using assms(1) by (simp add: rclosed_from_def)
  then have "opens_ok (rv_heap s') (rv_open s')" by (simp add: rv_inv_def host_ok_def)
  moreover have "\<not> open_at (rv_heap s') up j" for up j
    using assms rv_bounds(5) [OF inv] by (fastforce simp: rclosed_from_def windows_ok_def)
  ultimately show ?thesis by (rule no_opens)
qed

lemma return_ends:
  assumes inv: "rv_inv s"
  shows "rok (rv_return 0 v) s ends"
  unfolding rv_return_def
proof (rule rok_peek [OF peeks_frame inv], unfold xwp_bind [of "rv_close_upvalues _"], rule rok_close [OF inv])
  fix f s'
  assume f: "f \<in> set (rv_frames s) \<and> f = hd (rv_frames s)" and c: "rclosed_from (cf_base f) s s'"
  have same: "rv_frames s' = rv_frames s" using c unfolding rclosed_from_def by (metis reg_vm.select_convs(3) reg_vm.surjective reg_vm.update_convs(1,5))
  have "rv_open s' = []" if "tl (rv_frames s') = []"
  proof (rule rclosed_low [OF c])
    have "rv_frames s = [f]" using that same f by (cases "rv_frames s") auto
    then show "cf_base f \<le> 1" using rv_bounds(5) [OF inv] by (simp add: windows_ok_def)
  qed
  then show "rok (xseq (xmod (\<lambda>s. s\<lparr>rv_frames := tl (rv_frames s)\<rparr>))
         (xbind (xget (\<lambda>s. length (rv_frames s))) (\<lambda>n.
            if n = 0
            then xseq (xmod (\<lambda>s. s\<lparr>rv_result := v\<rparr>)) (xreturn (Finished True))
            else rv_running (rv_set_slot (cf_base f - 1) v)))) s' ends"
    using finishes_running [of "rv_set_slot (cf_base f - 1) v"] by (auto simp: ends_def finishes_def)
qed

subsection \<open>The loop\<close>

lemma reg_op_ends:
  assumes inv: "rv_inv s"
  shows "rok (reg_op sz clk 0 insn op) s ends"
proof -
  have f: "finishes (reg_op sz clk 0 insn op)" if "op \<noteq> RgReturn" "op \<noteq> RgReturnNil"
    using that
    by (cases op; simp only: reg_op_def regop.simps simp_thms)
      (rule finishes_parts finishes_append finishes_call | intro finishes_second finishes_rules)+
  have "rok (xbind (rv_rk_b insn) (rv_return 0)) s ends"
    by (rule rok_peek [OF peeks_rk(1) inv], rule return_ends [OF inv])
  then have "op = RgReturn \<Longrightarrow> ?thesis" "op = RgReturnNil \<Longrightarrow> ?thesis"
    using return_ends [OF inv] by (simp_all add: reg_op_def del: xwp_bind)
  then show ?thesis using f unfolding finishes_def by blast
qed

lemma reg_step_ends: "rv_inv s \<Longrightarrow> rok (reg_step sz clk 0) s (\<lambda>r t. rv_inv t \<and> ends r t)"
proof -
  assume inv: "rv_inv s"
  have "rok (reg_step sz clk 0) s ends"
    unfolding reg_step_def xwp_bind [of rv_fetch]
    by (rule rok_fetch [OF inv]) (simp add: reg_op_ends split: option.split)
  with keeps_reg_step [OF inv, of sz clk 0] show ?thesis by (auto simp: xwp_def split: outcome.splits)
qed

lemma reg_execute_ends:
  "rv_inv s \<Longrightarrow> rok (reg_execute sz clk 0 n) s (\<lambda>ok t. rv_inv t \<and>
     (if ok then rv_frames t = [] \<and> rv_open t = [] else rv_error t \<noteq> None))"
proof (induction n arbitrary: s)
  case (Suc n)
  show ?case
    unfolding reg_execute.simps xwp_bind
  proof (rule xwp_mono [OF reg_step_ends [OF Suc.prems]])
    fix r t assume e: "rv_inv t \<and> ends r t"
    show "rok (case r of Running \<Rightarrow> reg_execute sz clk 0 n | Finished ok \<Rightarrow> xreturn ok) t
        (\<lambda>ok t. rv_inv t \<and> (if ok then rv_frames t = [] \<and> rv_open t = [] else rv_error t \<noteq> None))"
    proof (cases r)
      case Running
      from Suc.IH [OF conjunct1 [OF e]] show ?thesis by (simp only: Running step_result.case)
    next
      case (Finished ok)
      then show ?thesis using e by (cases ok) (simp_all add: ends_def)
    qed
  qed simp
qed (simp add: xwp_def)

end
