(* ===== verification/Reg_Session.thy ===== *)
theory Reg_Session
  imports Reg_Rest "HOL-Library.Code_Target_Nat"
begin

text \<open>
  What a host sees of the register machine, with or without the inline cache and the superinstructions:
  it may construct it, run programs and call globals in any order. The states between these calls, and
  every state inside a run, are the reachable ones.
\<close>

declare xwp_simps [simp]

subsection \<open>The constructor\<close>

definition rests :: "reg_vm \<Rightarrow> bool" where
  "rests s \<longleftrightarrow> rv_inv s \<and> rv_frames s = [] \<and> rv_open s = [] \<and> map_of (rv_regs s) 0 = Some VNil"

lemma rv_inv_interned:
  assumes inv: "rv_inv s" and i: "intern sz (reg_roots s) name (rv_heap s) = (a, h)"
  shows "rv_inv (s\<lparr>rv_heap := h\<rparr>)" "obj_at h a = Some (OString name)"
    "held (rv_heap s) (reg_roots s) b \<Longrightarrow> obj_at h b = obj_at (rv_heap s) b"
proof -
  note k = intern_evolved [OF rv_sane [OF inv] i]
  show "rv_inv (s\<lparr>rv_heap := h\<rparr>)" by (rule rv_inv_evolved [OF inv k(1)]) (auto simp: is_open_upvalue_def)
  show "obj_at h a = Some (OString name)" by (rule k(2))
  show "held (rv_heap s) (reg_roots s) b \<Longrightarrow> obj_at h b = obj_at (rv_heap s) b" by (rule evolved_held [OF k(1)])
qed

lemma rv_inv_same_objects:
  assumes "rv_inv s" "host_ok (reg_roots s) (rv_open s) h" "obj_at h = obj_at (rv_heap s)"
  shows "rv_inv (s\<lparr>rv_heap := h\<rparr>)"
proof (rule rv_inv_heap [OF assms(1,2)])
  show "frame_size h (cf_closure f) = frame_size (rv_heap s) (cf_closure f)" for f
    unfolding frame_size_def assms(3) ..
qed (simp add: open_at_def assms(3))

lemma rv_inv_temp:
  "rv_inv s \<Longrightarrow> rlive s v \<Longrightarrow> rv_inv (s\<lparr>rv_heap := push_temp v (rv_heap s)\<rparr>)"
  "rv_inv s \<Longrightarrow> rv_inv (s\<lparr>rv_heap := pop_temp (rv_heap s)\<rparr>)"
  by (rule rv_inv_same_objects, assumption, rule host_ok_push_temp, erule rv_host, simp add: rlive_def,
      simp add: heap_simps fun_eq_iff,
      rule rv_inv_same_objects, assumption, rule host_ok_pop_temp, erule rv_host, simp add: heap_simps fun_eq_iff)

lemma rests_define_native:
  assumes r: "rests s" and v: "rheld s v"
  shows "rests (rv_define_native sz name v s)"
proof -
  have inv: "rv_inv s" using r by (simp add: rests_def)
  obtain a h where i: "intern sz (reg_roots s) name (rv_heap s) = (a, h)" by fastforce
  note k = rv_inv_interned [OF inv i]
  have "rlive (s\<lparr>rv_heap := h\<rparr>) v" using v k(3) held_live unfolding rheld_def rlive_def by fastforce
  from rv_inv_global [OF k(1) this, of a] k(2) show ?thesis using r by (simp add: rv_define_native_def i rests_def)
qed

lemma rests_register_native:
  assumes r: "rests s" and spec: "spec = (name, native_arity f, f)"
  shows "rests (register_native sz rv_heap (\<lambda>h s. s\<lparr>rv_heap := h\<rparr>) reg_roots (rv_define_native sz) spec s)"
proof -
  have inv: "rv_inv s" using r by (simp add: rests_def)
  let ?ob = "ONative name (native_arity f) f"
  obtain a h where al: "allocate sz (reg_roots s) ?ob (rv_heap s) = (a, h)" by fastforce
  have n: "\<not> is_string ?ob" "\<forall>b\<in>set (trace ?ob). held (rv_heap s) (reg_roots s) b" by (simp_all add: is_string_def)
  note k = allocate_evolved [OF rv_sane [OF inv] al n]
  have 1: "rv_inv (s\<lparr>rv_heap := h\<rparr>)" by (rule rv_inv_evolved [OF inv k(1)]) (auto simp: is_open_upvalue_def)
  let ?t = "s\<lparr>rv_heap := push_temp (VObj a) h\<rparr>"
  have "rlive (s\<lparr>rv_heap := h\<rparr>) (VObj a)" by (simp add: rlive_def value_addrs_def k(2))
  from rv_inv_temp(1) [OF 1 this] have 2: "rv_inv ?t" by simp
  have "a \<in> gc_roots (reg_roots ?t) (rv_heap ?t)" by (simp add: gc_roots_def push_temp_def value_addrs_def)
  then have "rheld ?t (VObj a)"
    using gc_live_held [of "rv_heap ?t" "reg_roots ?t" a] rv_host [OF 2] by (simp add: rheld_def value_addrs_def host_ok_def)
  moreover have "rests ?t" using 2 r by (simp add: rests_def)
  ultimately have "rests (rv_define_native sz name (VObj a) ?t)" by (rule rests_define_native [rotated])
  then show ?thesis using rv_inv_temp(2) by (simp add: register_native_def spec al Let_def rests_def)
qed

lemma empty_rests: "rests (empty_reg_vm ic si (empty_heap\<lparr>hp_stress := b\<rparr>))"
proof -
  let ?h = "empty_heap\<lparr>hp_stress := b\<rparr>"
  have "sane ?h" by (simp add: sane_def heap_ok_def no_dangling_def empty_heap_def obj_at_def strings_ok_def heap_eval)
  moreover have "reg_roots (empty_reg_vm ic si ?h) = []"
    by (simp add: reg_roots_def empty_reg_vm_def reg_top_Nil slot_addrs_def value_addrs_def)
  moreover have "\<not> open_at ?h up j" for up j by (simp add: open_at_def empty_heap_def obj_at_def)
  ultimately show ?thesis
    by (auto simp: rests_def rv_inv_def host_ok_def gc_live_def gc_roots_def natives_ok_def opens_ok_def reg_top_Nil
        windows_ok_def cache_ok_def kRegisterSlots_def empty_heap_def obj_at_def empty_reg_vm_def)
qed

lemma rg_init_rests: "rests (init_reg_vm sz ic si (empty_heap\<lparr>hp_stress := b\<rparr>))"
proof -
  have k: "kSpecs = [(''clock'', native_arity NativeClock, NativeClock), (''len'', native_arity NativeLen, NativeLen),
      (''array'', native_arity NativeArray, NativeArray)]"
    by (simp add: kSpecs_def native_arity_def)
  show ?thesis
    unfolding init_reg_vm_def register_natives_def k by (simp add: rests_register_native empty_rests)
qed

subsection \<open>Loading a program\<close>

lemma rok_compile:
  assumes r: "rests s"
    and Q: "\<And>r h n. rests (s\<lparr>rv_heap := h, rv_fused := n\<rparr>) \<Longrightarrow> (\<And>fn. r = Inr fn \<Longrightarrow> obj_at h fn \<noteq> None) \<Longrightarrow>
      Q r (s\<lparr>rv_heap := h, rv_fused := n\<rparr>)"
  shows "rok (rv_compile sz p) s Q"
proof (cases "compile_register (rv_superinstructions s) sz (reg_roots s) p (rv_heap s)")
  case (Ok x)
  obtain r h where x: "x = (r, h)" by (cases x)
  have inv: "rv_inv s" and empty: "rv_frames s = []" "rv_open s = []" using r by (simp_all add: rests_def)
  note k = compile_register_ok [OF rv_host [OF inv] Ok [unfolded x]]
  have "opens_ok h []" using k(1) empty by (simp add: host_ok_def)
  then have "rv_inv (s\<lparr>rv_heap := h\<rparr>)"
    by (intro rv_inv_heap [OF inv k(1)]) (simp_all add: empty opens_none)
  from rv_inv_small(6) [OF this] r have i: "rests (s\<lparr>rv_heap := h, rv_fused := n\<rparr>)" for n
    by (simp add: rests_def)
  show ?thesis
  proof (cases r)
    case (Inl e)
    have "Q (Inl e) (s\<lparr>rv_heap := h, rv_fused := rv_fused s\<rparr>)" by (rule Q [OF i]) simp
    then show ?thesis by (simp add: xwp_def rv_compile_def Ok x Inl)
  next
    case (Inr y)
    obtain fn n where y: "y = (fn, n)" by (cases y)
    have "Q (Inr fn) (s\<lparr>rv_heap := h, rv_fused := n\<rparr>)" by (rule Q [OF i]) (use k(2) Inr y in auto)
    then show ?thesis by (simp add: xwp_def rv_compile_def Ok x Inr y)
  qed
qed (simp_all add: xwp_def rv_compile_def)

definition recached :: "reg_vm \<Rightarrow> reg_vm \<Rightarrow> bool" where
  "recached s t \<longleftrightarrow> (\<exists>c. t = s\<lparr>rv_cache := c\<rparr> \<and> (cache_ok (rv_cache s) (rv_globals s) \<longrightarrow> cache_ok c (rv_globals s)))"

lemma recached_refl: "recached s s"
  unfolding recached_def by (intro exI [of _ "rv_cache s"]) simp

lemma recached_trans: "recached s t \<Longrightarrow> recached t u \<Longrightarrow> recached s u"
  unfolding recached_def by auto

lemma attach_recached:
  "rok (attach_global_caches n fn) s (\<lambda>_. recached s)" "rok (attach_to_constants n vs) s (\<lambda>_. recached s)"
proof (induction n fn and n vs arbitrary: s and s rule: attach_global_caches_attach_to_constants.induct)
  case (2 n fn)
  have "rok (xseq (xmod (\<lambda>s. s\<lparr>rv_cache := AList.update fn (replicate (length (rc_code (fo_reg f))) None) (rv_cache s)\<rparr>))
      (attach_to_constants n (rc_constants (fo_reg f)))) s (\<lambda>_. recached s)" for f :: function_object
    unfolding xwp_bind xwp_mod
    by (rule xwp_mono [OF 2], rule recached_trans) (auto simp: recached_def intro!: cache_ok_update)
  then show ?case
    by (simp add: rv_function_def rv_object_def del: xwp_bind xwp_mod split: option.split obj.split)
      (simp split: option.split obj.split)
next
  case (4 n v vs)
  have "rok (xseq m (attach_to_constants n vs)) s (\<lambda>_. recached s)" if "rok m s (\<lambda>_. recached s)" for m :: "unit rvm"
    unfolding xwp_bind
    by (rule xwp_mono [OF that], rule xwp_mono [OF 4(2)]) (auto intro: recached_trans)
  moreover have "rok (case x of Some a \<Rightarrow> attach_global_caches n a | None \<Rightarrow> xreturn ()) s (\<lambda>_. recached s)" for x
    using 4(1) by (cases x) (simp_all add: recached_refl)
  ultimately show ?case
    unfolding attach_to_constants.simps xwp_bind [of "xget _"] xwp_get by simp
qed (simp_all add: xwp_def [of "\<lambda>s. Timeout"] recached_refl)

lemma rests_recached: "rests s \<Longrightarrow> recached s t \<Longrightarrow> rests t"
  using rv_inv_cache [of s] rv_bounds(4) [of s] by (auto simp: rests_def recached_def)

lemma rests_set_slot:
  assumes "rests s" "rlive s v"
  shows "rok (rv_set_slot i v) s (\<lambda>_ t. rv_inv t \<and> t = s\<lparr>rv_regs := rv_regs t\<rparr> \<and> map_of (rv_regs t) i = Some v)"
  using assms rv_inv_slot [of s v i] by (simp add: rests_def rv_set_slot_def update_conv')

text \<open>The script's frame: the window at slot 1 below no other.\<close>

lemma inv_start_window:
  assumes inv: "rv_inv s" and none: "rv_frames s = []" and c: "obj_at (rv_heap s) a \<noteq> None"
    and w: "frame_size (rv_heap s) a = window" "window < kRegisterSlots"
  shows "rok (rv_fill_nil 1 window) s (\<lambda>_ t. rv_inv (t\<lparr>rv_frames := [\<lparr>cf_closure = a, cf_ip = 0, cf_base = 1\<rparr>], rv_uncounted := 1\<rparr>))"
proof (rule xwp_mono [OF rok_fill [OF inv]])
  fix x t assume f: "filled 1 window s t"
  then have "rv_frames t = []" using none by (auto simp: filled_def)
  moreover have "rv_inv (t\<lparr>rv_frames := \<lparr>cf_closure = a, cf_ip = 0, cf_base = 1\<rparr> # rv_frames t\<rparr>)"
    by (rule inv_push_window [OF inv c w(1), of 1 0]) (use none f w(2) in \<open>simp_all add: reg_top_Nil kMaxFrames_def\<close>)
  ultimately show "rv_inv (t\<lparr>rv_frames := [\<lparr>cf_closure = a, cf_ip = 0, cf_base = 1\<rparr>], rv_uncounted := 1\<rparr>)"
    using rv_inv_small(5) by fastforce
qed simp

definition start_script :: "(obj \<Rightarrow> nat) \<Rightarrow> addr \<Rightarrow> (compile_error + unit) rvm" where
  "start_script sz function =
     xseq (rv_set_slot 0 (VObj function))
       (xbind (rv_function function) (\<lambda>fo.
        xbind (rv_allocate sz (OClosure function (replicate (fo_upvalue_count fo) None))) (\<lambda>script.
        xseq (rv_set_slot 0 (VObj script))
          (xseq (xassert StackOverrun (rc_frame_size (fo_reg fo) < kRegisterSlots))
            (xseq (rv_fill_nil 1 (rc_frame_size (fo_reg fo)))
              (xseq (xmod (\<lambda>s. s\<lparr>rv_frames := [\<lparr>cf_closure = script, cf_ip = 0, cf_base = 1\<rparr>], rv_uncounted := 1\<rparr>))
                (xreturn (Inr ()))))))))"

lemma rok_script_closure:
  assumes inv: "rv_inv s" and none: "rv_frames s = []" and fo: "obj_at (rv_heap s) fn = Some (OFunction fo)"
    and script: "obj_at (rv_heap s) a = Some (OClosure fn us)"
  shows "rok (xseq (rv_set_slot 0 (VObj a))
          (xseq (xassert StackOverrun (rc_frame_size (fo_reg fo) < kRegisterSlots))
            (xseq (rv_fill_nil 1 (rc_frame_size (fo_reg fo)))
              (xseq (xmod (\<lambda>s. s\<lparr>rv_frames := [\<lparr>cf_closure = a, cf_ip = 0, cf_base = 1\<rparr>], rv_uncounted := 1\<rparr>))
                (xreturn (Inr () :: compile_error + unit)))))) s (\<lambda>r t. r = Inr () \<and> rv_inv t)"
  unfolding xwp_bind [of "rv_set_slot _ _"]
proof (rule rok_set_slot [OF inv])
  show "rlive s (VObj a)" by (simp add: rlive_def value_addrs_def script)
  let ?s = "s\<lparr>rv_regs := AList.update 0 (VObj a) (rv_regs s)\<rparr>"
  assume i: "rv_inv ?s"
  have w: "frame_size (rv_heap ?s) a = rc_frame_size (fo_reg fo)" by (simp add: frame_size_def script fo)
  have "rok (rv_fill_nil 1 (rc_frame_size (fo_reg fo))) ?s
      (\<lambda>_ t. rv_inv (t\<lparr>rv_frames := [\<lparr>cf_closure = a, cf_ip = 0, cf_base = 1\<rparr>], rv_uncounted := 1\<rparr>))"
    if "rc_frame_size (fo_reg fo) < kRegisterSlots"
    by (rule inv_start_window [OF i _ _ w that]) (simp_all add: none script)
  then show "rok (xseq (xassert StackOverrun (rc_frame_size (fo_reg fo) < kRegisterSlots))
            (xseq (rv_fill_nil 1 (rc_frame_size (fo_reg fo)))
              (xseq (xmod (\<lambda>s. s\<lparr>rv_frames := [\<lparr>cf_closure = a, cf_ip = 0, cf_base = 1\<rparr>], rv_uncounted := 1\<rparr>))
                (xreturn (Inr () :: compile_error + unit))))) ?s (\<lambda>r t. r = Inr () \<and> rv_inv t)" by simp
qed

lemma rok_start_script:
  assumes r: "rests s" and fn: "obj_at (rv_heap s) fn \<noteq> None"
  shows "rok (start_script sz fn) s (\<lambda>r t. r = Inr () \<and> rv_inv t)"
  unfolding start_script_def xwp_bind [of "rv_set_slot 0 (VObj fn)"]
proof (rule rok_set_slot)
  show "rv_inv s" "rlive s (VObj fn)" using r fn by (simp_all add: rests_def rlive_def value_addrs_def)
  let ?s = "s\<lparr>rv_regs := AList.update 0 (VObj fn) (rv_regs s)\<rparr>"
  assume i: "rv_inv ?s"
  have none: "rv_frames ?s = []" using r by (simp add: rests_def)
  have "held (rv_heap ?s) (reg_roots ?s) fn"
    by (rule rv_root_held [OF i]) (use none in \<open>simp add: reg_roots_iff reg_top_Nil update_conv' value_addrs_def\<close>)
  then have t: "\<forall>b\<in>set (trace (OClosure fn (replicate n None))). held (rv_heap ?s) (reg_roots ?s) b"
    and h: "held (rv_heap ?s) (reg_roots ?s) fn" for n
    by (simp_all add: opt_addrs_def)
  show "rok (xbind (rv_function fn) (\<lambda>fo.
        xbind (rv_allocate sz (OClosure fn (replicate (fo_upvalue_count fo) None))) (\<lambda>script.
        xseq (rv_set_slot 0 (VObj script))
          (xseq (xassert StackOverrun (rc_frame_size (fo_reg fo) < kRegisterSlots))
            (xseq (rv_fill_nil 1 (rc_frame_size (fo_reg fo)))
              (xseq (xmod (\<lambda>s. s\<lparr>rv_frames := [\<lparr>cf_closure = script, cf_ip = 0, cf_base = 1\<rparr>], rv_uncounted := 1\<rparr>))
                (xreturn (Inr () :: compile_error + unit)))))))) ?s (\<lambda>r t. r = Inr () \<and> rv_inv t)"
  proof (rule rok_peek [OF peeks_function i], unfold xwp_bind [of "rv_allocate _ _"], rule rok_allocate [OF i _ _ _ t])
    fix fo a h'
    assume fo: "obj_at (rv_heap ?s) fn = Some (OFunction fo)" and j: "rv_inv (?s\<lparr>rv_heap := h'\<rparr>)"
      and a: "obj_at h' a = Some (OClosure fn (replicate (fo_upvalue_count fo) None))"
      and same: "\<And>b. held (rv_heap ?s) (reg_roots ?s) b \<Longrightarrow> obj_at h' b = obj_at (rv_heap ?s) b"
    have "obj_at h' fn = Some (OFunction fo)" using same [OF h] fo by simp
    then show "rok (xseq (rv_set_slot 0 (VObj a))
          (xseq (xassert StackOverrun (rc_frame_size (fo_reg fo) < kRegisterSlots))
            (xseq (rv_fill_nil 1 (rc_frame_size (fo_reg fo)))
              (xseq (xmod (\<lambda>s. s\<lparr>rv_frames := [\<lparr>cf_closure = a, cf_ip = 0, cf_base = 1\<rparr>], rv_uncounted := 1\<rparr>))
                (xreturn (Inr () :: compile_error + unit)))))) (?s\<lparr>rv_heap := h'\<rparr>) (\<lambda>r t. r = Inr () \<and> rv_inv t)"
      using none a by (intro rok_script_closure [OF j]) simp_all
  qed (simp_all add: is_string_def is_open_upvalue_def is_native_object_def)
qed

lemma load_ok:
  assumes r: "rests s"
  shows "rok (rv_load sz fuel p) s (\<lambda>r t. case r of Inl e \<Rightarrow> rests t | Inr _ \<Rightarrow> rv_inv t)"
  unfolding rv_load_def start_script_def [symmetric] xwp_bind [of "rv_compile _ _"]
proof (rule rok_compile [OF r])
  fix c :: "compile_error + addr" and h n
  let ?s = "s\<lparr>rv_heap := h, rv_fused := n\<rparr>"
  assume i: "rests ?s" and fn: "\<And>fn. c = Inr fn \<Longrightarrow> obj_at h fn \<noteq> None"
  have "rok (xbind (xget rv_inline_cache) (\<lambda>cached.
      xseq (if cached then attach_global_caches fuel f else xreturn ()) (start_script sz f))) ?s
      (\<lambda>r t. case r of Inl e \<Rightarrow> rests t | Inr _ \<Rightarrow> rv_inv t)" if f: "c = Inr f" for f
  proof -
    have "rok (if b then attach_global_caches fuel f else xreturn ()) ?s (\<lambda>_. recached ?s)" for b
      by (simp add: attach_recached recached_refl)
    moreover have "rok (start_script sz f) t (\<lambda>r t. case r of Inl e \<Rightarrow> rests t | Inr _ \<Rightarrow> rv_inv t)"
      if "recached ?s t" for t
    proof -
      have "obj_at (rv_heap t) f \<noteq> None" using fn [OF f] that by (auto simp: recached_def)
      from rok_start_script [OF rests_recached [OF i that] this] show ?thesis by (rule xwp_mono) simp_all
    qed
    ultimately have "rok (xseq (if b then attach_global_caches fuel f else xreturn ()) (start_script sz f)) ?s
        (\<lambda>r t. case r of Inl e \<Rightarrow> rests t | Inr _ \<Rightarrow> rv_inv t)" for b
      unfolding xwp_bind by (blast intro: xwp_mono)
    then show ?thesis unfolding xwp_bind [of "xget _"] xwp_get .
  qed
  then show "rok (case c of Inl error \<Rightarrow> xreturn (Inl error)
      | Inr function \<Rightarrow> xbind (xget rv_inline_cache) (\<lambda>cached.
          xseq (if cached then attach_global_caches fuel function else xreturn ()) (start_script sz function))) ?s
      (\<lambda>r t. case r of Inl e \<Rightarrow> rests t | Inr _ \<Rightarrow> rv_inv t)"
    using i by (cases c) (simp_all only: sum.case xwp_return)
qed

subsection \<open>Running and calling\<close>

definition stopped :: "reg_vm \<Rightarrow> bool" where
  "stopped s \<longleftrightarrow> rv_inv s \<and> rv_frames s = [] \<and> rv_open s = []"

lemma stopped_rests: "stopped s \<Longrightarrow> rok (xseq (rv_set_slot 0 VNil) (xreturn r)) s (\<lambda>_. rests)"
  by (simp add: stopped_def rv_set_slot_def rests_def rv_inv_slot update_conv')

lemma take_error_stops:
  assumes inv: "rv_inv s" and e: "rv_error s \<noteq> None"
  shows "rok rv_take_error s (\<lambda>_. stopped)"
proof -
  have c: "rok (rv_close_upvalues 0) t (\<lambda>_ u. rv_inv u \<and> rv_open u = [])" if "rv_inv t" for t
    by (rule rok_close [OF that], rule conjI, simp add: rclosed_from_def, erule rclosed_low, simp)
  have u: "stopped (t\<lparr>rv_frames := [], rv_regs := AList.update 0 VNil (rv_regs t)\<rparr>)" if "rv_inv t" "rv_open t = []" for t
    using rv_inv_slot [OF rv_inv_pop_frame(2) [OF that(1)], of VNil 0] that(2) by (simp add: stopped_def)
  have "rok (xseq (rv_close_upvalues 0) (xseq (xmod (\<lambda>s. s\<lparr>rv_frames := [], rv_regs := AList.update 0 VNil (rv_regs s)\<rparr>))
      (xreturn x))) t (\<lambda>_. stopped)" if "rv_inv t" for t and x :: "runtime_error option"
    unfolding xwp_bind [of "rv_close_upvalues _"] by (rule xwp_mono [OF c [OF that]]) (simp_all add: u)
  then show ?thesis
    unfolding rv_take_error_def xwp_bind [of "xget _"] xwp_get xwp_bind [of "xmod _"] xwp_mod
    using rv_inv_small(1) [OF inv, of None] e by (auto simp del: xwp_bind)
qed

lemma run_stops:
  assumes inv: "rv_inv s"
    and that: "\<And>t. stopped t \<Longrightarrow> rok m t (\<lambda>_. Q)" "\<And>t e. stopped t \<Longrightarrow> rok (k e) t (\<lambda>_. Q)"
  shows "rok (xbind (reg_execute sz clk 0 n) (\<lambda>ok. if ok then m else xbind rv_take_error k)) s (\<lambda>_. Q)"
  unfolding xwp_bind [of "reg_execute _ _ _ _"]
proof (rule xwp_mono [OF reg_execute_ends [OF inv]])
  fix ok t assume t: "rv_inv t \<and> (if ok then rv_frames t = [] \<and> rv_open t = [] else rv_error t \<noteq> None)"
  show "rok (if ok then m else xbind rv_take_error k) t (\<lambda>_. Q)"
  proof (cases ok)
    case True
    then show ?thesis using t that(1) by (simp add: stopped_def)
  next
    case False
    then have "rok rv_take_error t (\<lambda>_. stopped)" using t take_error_stops by simp
    then show ?thesis using False unfolding xwp_bind by (auto elim: xwp_mono intro: that(2))
  qed
qed simp

lemma rg_run_rests: "rests s \<Longrightarrow> rok (reg_run sz clk fuel p) s (\<lambda>_. rests)"
  unfolding reg_run_def xwp_bind [of "rv_load _ _ _"]
proof (rule xwp_mono [OF load_ok], assumption)
  fix r :: "compile_error + unit" and t
  assume r: "case r of Inl e \<Rightarrow> rests t | Inr _ \<Rightarrow> rv_inv t"
  let ?finish = "\<lambda>e. xseq (rv_set_slot 0 VNil) (xreturn (Inr e :: compile_error + runtime_error option))"
  have "rok (xbind (reg_execute sz clk 0 fuel) (\<lambda>ok. xbind (if ok then xreturn None else rv_take_error) ?finish)) t (\<lambda>_. rests)"
    if "rv_inv t"
  proof -
    have e: "xbind (if ok then xreturn None else rv_take_error) ?finish = (if ok then xbind (xreturn None) ?finish else xbind rv_take_error ?finish)"
      for ok by simp
    show ?thesis unfolding e by (rule run_stops [OF that]) (simp_all add: stopped_rests [unfolded xwp_bind xwp_return])
  qed
  then show "rok (case r of Inl error \<Rightarrow> xreturn (Inl error)
       | Inr _ \<Rightarrow> xbind (reg_execute sz clk 0 fuel) (\<lambda>ok. xbind (if ok then xreturn None else rv_take_error) ?finish)) t (\<lambda>_. rests)"
    using r by (cases r) (simp_all only: sum.case xwp_return)
qed simp

lemma call_finish_stops:
  assumes inv: "rv_inv t" and c: "rcalled u c t" and u: "rv_frames u = []" "rv_open u = []"
  shows "rok (rv_call_finish sz clk fuel 0 c) t (\<lambda>_. stopped)"
proof (cases c)
  case CallError
  then have "rok rv_take_error t (\<lambda>_. stopped)" using c by (intro take_error_stops [OF inv]) (simp add: rcalled_def)
  then show ?thesis by (simp add: CallError rv_call_finish_def)
next
  case PushedFrame
  show ?thesis
    unfolding PushedFrame rv_call_finish_def call_outcome.case by (rule run_stops [OF inv]) simp_all
next
  case NativeDone
  then have "stopped t" using inv c u by (simp add: stopped_def rcalled_def)
  then have "rok (xbind (rv_slot 0) (\<lambda>v. xreturn (v, None :: runtime_error option))) t (\<lambda>_. stopped)"
    unfolding xwp_bind by (intro xwp_mono [OF rok_slot_same]) simp_all
  then show ?thesis unfolding NativeDone rv_call_finish_def call_outcome.case .
qed

lemma rok_called:
  "rv_inv s \<Longrightarrow> rok (rv_call_value sz clk callee argc) s (\<lambda>c t. rv_inv t \<and> rcalled s c t)"
  using keeps_rv_call_value [of s sz clk callee argc] rcalled_value [of sz clk callee argc s]
  by (auto simp: xwp_def split: outcome.splits)

lemma rg_call_rests:
  assumes r: "rests s"
  shows "rok (rv_call_global sz clk fuel name) s (\<lambda>_. rests)"
proof -
  have inv: "rv_inv s" using r by (simp add: rests_def)
  obtain a h where i: "intern sz (reg_roots s) name (rv_heap s) = (a, h)" by fastforce
  let ?s = "s\<lparr>rv_heap := h, rv_uncounted := 0\<rparr>"
  have k: "rv_intern sz name s = Ok (a, s\<lparr>rv_heap := h\<rparr>)" by (simp add: rv_intern_def i)
  have h: "rv_inv (s\<lparr>rv_heap := h\<rparr>)" by (rule rv_inv_interned [OF inv i])
  have call: "rok (xseq (rv_set_slot 0 v) (xbind (rv_call_value sz clk 0 0) (\<lambda>called.
      xbind (rv_call_finish sz clk fuel 0 called) (\<lambda>r. xseq (rv_set_slot 0 VNil) (xreturn r))))) ?s (\<lambda>_. rests)"
    if "rlive ?s v" for v
    unfolding xwp_bind [of "rv_set_slot 0 v"]
  proof (rule rok_set_slot [OF _ that])
    show "rv_inv ?s" using rv_inv_small(5) [OF h] by simp
    let ?t = "?s\<lparr>rv_regs := AList.update 0 v (rv_regs ?s)\<rparr>"
    assume t: "rv_inv ?t"
    show "rok (xbind (rv_call_value sz clk 0 0) (\<lambda>called. xbind (rv_call_finish sz clk fuel 0 called)
        (\<lambda>r. xseq (rv_set_slot 0 VNil) (xreturn r)))) ?t (\<lambda>_. rests)"
      unfolding xwp_bind [of "rv_call_value _ _ _ _"] xwp_bind [of "rv_call_finish _ _ _ _ _"]
      by (rule xwp_mono [OF rok_called [OF t]], rule xwp_mono [OF call_finish_stops [where u = ?t]])
        (use r stopped_rests in \<open>auto simp: rests_def simp del: xwp_bind\<close>)
  qed
  have v: "rlive ?s v" if "map_of (rv_globals s) a = Some v" for v
    using rheld_live [OF global_held [OF h, of a v]] that by (simp add: rlive_def)
  have none: "rv_frames s = []" using r by (simp add: rests_def)
  have "rok (xbind (xget (\<lambda>s. map_of (rv_globals s) a)) (\<lambda>found.
       case found of
         None \<Rightarrow> xreturn (VNil, Some \<lparr>re_line = 0, re_message = undefined_variable_message name\<rparr>)
       | Some callee \<Rightarrow>
           xseq (xmod (\<lambda>s. s\<lparr>rv_uncounted := 0\<rparr>))
             (xbind (xget (\<lambda>s. length (rv_frames s))) (\<lambda>stop_frames.
              xseq (rv_set_slot 0 callee)
                (xbind (rv_call_value sz clk 0 0) (\<lambda>called.
                 xbind (rv_call_finish sz clk fuel stop_frames called) (\<lambda>r.
                 xseq (rv_set_slot 0 VNil) (xreturn r)))))))) (s\<lparr>rv_heap := h\<rparr>) (\<lambda>_. rests)"
  proof (cases "map_of (rv_globals s) a")
    case None
    then show ?thesis using r h by (simp add: rests_def)
  next
    case (Some v)
    have g: "map_of (rv_globals (s\<lparr>rv_heap := h\<rparr>)) a = Some v" using Some by simp
    show ?thesis
      unfolding xwp_bind [of "xget _"] xwp_get g option.case xwp_bind [of "xmod _"] xwp_mod
      using call [OF v, OF Some] none by (simp del: xwp_bind)
  qed
  then show ?thesis unfolding rv_call_global_def by (rule rok_ok [where m = "rv_intern sz name", OF k])
qed

subsection \<open>Sessions\<close>

inductive reg_session :: "(obj \<Rightarrow> nat) \<Rightarrow> (nat \<Rightarrow> double) \<Rightarrow> reg_vm \<Rightarrow> bool" for sz clk where
  start: "reg_session sz clk (init_reg_vm sz ic si (empty_heap\<lparr>hp_stress := b\<rparr>))"
| run: "reg_session sz clk s \<Longrightarrow> reg_run sz clk n p s = Ok (r, s') \<Longrightarrow> reg_session sz clk s'"
| call: "reg_session sz clk s \<Longrightarrow> rv_call_global sz clk n name s = Ok (v, s') \<Longrightarrow> reg_session sz clk s'"

text \<open>The states inside a run or a call, between two instructions.\<close>

inductive reg_running :: "(obj \<Rightarrow> nat) \<Rightarrow> (nat \<Rightarrow> double) \<Rightarrow> reg_vm \<Rightarrow> bool" for sz clk where
  loaded: "reg_session sz clk s \<Longrightarrow> rv_load sz n p s = Ok (Inr u, s') \<Longrightarrow> reg_running sz clk s'"
| entered: "reg_session sz clk s \<Longrightarrow> map_of (rv_globals s) name = Some callee \<Longrightarrow>
    rv_call_value sz clk 0 0 (s\<lparr>rv_uncounted := 0, rv_regs := AList.update 0 callee (rv_regs s)\<rparr>) = Ok (PushedFrame, s') \<Longrightarrow>
    reg_running sz clk s'"
| stepped: "reg_running sz clk s \<Longrightarrow> reg_step sz clk 0 s = Ok (Running, s') \<Longrightarrow> reg_running sz clk s'"

lemma rok_result: "rok m s Q \<Longrightarrow> m s = Ok (x, t) \<Longrightarrow> Q x t"
  by (simp add: xwp_def)

lemma reg_session_rests: "reg_session sz clk s \<Longrightarrow> rests s"
proof (induction rule: reg_session.induct)
  case (start ic si b)
  show ?case by (rule rg_init_rests)
next
  case (run s n p r s')
  show ?case by (rule rok_result [OF rg_run_rests run(2)]) (rule run.IH)
next
  case (call s n name v s')
  show ?case by (rule rok_result [OF rg_call_rests call(2)]) (rule call.IH)
qed

lemma reg_running_inv: "reg_running sz clk s \<Longrightarrow> rv_inv s"
proof (induction rule: reg_running.induct)
  case (loaded s n p u s')
  from rok_result [OF load_ok [OF reg_session_rests [OF loaded(1)]] loaded(2)] show ?case by simp
next
  case (entered s name callee s')
  have inv: "rv_inv s" using reg_session_rests [OF entered(1)] by (simp add: rests_def)
  have "rlive s callee" by (rule rheld_live [OF global_held [OF inv entered(2)]])
  then have "rv_inv (s\<lparr>rv_uncounted := 0, rv_regs := AList.update 0 callee (rv_regs s)\<rparr>)"
    using rv_inv_slot [OF rv_inv_small(5) [OF inv, of 0], of callee 0] by (simp add: rlive_def)
  from rok_result [OF keeps_rv_call_value [OF this] entered(3)] show ?case .
next
  case (stepped s s')
  show ?case by (rule rok_result [OF keeps_reg_step [OF stepped.IH] stepped(2)])
qed

subsection \<open>Properties\<close>



text \<open>C32. A host may construct the register machine with any options, run programs, also failing ones,
  and call globals, in any order: after each of these no frame runs, no upvalue is open, slot 0 holds
  nil, and the heap is sound with everything the machine marks live.\<close>

theorem reg_vm_at_rest:
  assumes "reg_session sz clk s"
  shows "rv_frames s = [] \<and> rv_open s = [] \<and> map_of (rv_regs s) 0 = Some VNil \<and> gc_live (rv_heap s) (reg_roots s)"
  using reg_session_rests [OF assms] by (simp add: rests_def rv_inv_def host_ok_def)

theorem reg_vm_at_rest_witness:
  "\<exists>s. reg_session (\<lambda>_. 40) (\<lambda>_. 0) s \<and> rv_out s = ''nil'' @ [newline] \<and> rv_frames s = [] \<and> rv_open s = []"
proof -
  let ?p = "\<lparr>pr_source = ''print nil;'', pr_tokens = [], pr_statements = [SPrint (ELiteral LitNil 1) 1]\<rparr>"
  let ?s0 = "init_reg_vm (\<lambda>_. 40) True True (empty_heap\<lparr>hp_stress := True\<rparr>)"
  have "case reg_run (\<lambda>_. 40) (\<lambda>_. 0) 9 ?p ?s0 of Ok (r, s) \<Rightarrow> rv_out s = ''nil'' @ [newline] | _ \<Rightarrow> False"
    by code_simp
  then obtain r s where r: "reg_run (\<lambda>_. 40) (\<lambda>_. 0) 9 ?p ?s0 = Ok (r, s)" "rv_out s = ''nil'' @ [newline]"
    by (auto split: outcome.splits)
  have "reg_session (\<lambda>_. 40) (\<lambda>_. 0) s" by (rule reg_session.run [OF reg_session.start r(1)])
  with reg_vm_at_rest [OF this] r(2) show ?thesis by blast
qed

end
