(* ===== verification/Arm64.thy ===== *)
theory Arm64
  imports Exec_Monad
begin

text \<open>
  \<open>jit/arm64_emitter.h\<close> and \<open>arm64_emitter.cpp\<close>: the ARM64 instruction encoder of the baseline JIT.
  Every instruction is one 32-bit word put together from bit fields, or an error: the functions named
  after the \<open>\<dots>_\<close> members of \<open>Emitter\<close> compute the word, and the emitter, which is the list of the
  words so far and the table of labels, appends it. A branch to a label that is not bound yet is
  written with a zero offset and patched when the label is bound.

  Registers are the numbers of the enums \<open>WReg\<close> and \<open>XReg\<close>: 0 to 30, 31 for the zero register and 32
  for the stack pointer; \<open>sf\<close> says whether it is an X register. The order in which C++ evaluates the
  operands of \<open>|\<close> is not fixed, so of two illegal registers in one instruction either may be the one
  that is reported.
\<close>

subsection \<open>Registers and conditions\<close>

datatype cond = CEQ | CNE | CCS | CCC | CMI | CPL | CVS | CVC | CHI | CLS | CGE | CLT | CGT | CLE | CAL

definition cond_code :: "cond \<Rightarrow> nat" where
  "cond_code c = length (takeWhile (\<lambda>x. x \<noteq> c)
     [CEQ, CNE, CCS, CCC, CMI, CPL, CVS, CVC, CHI, CLS, CGE, CLT, CGT, CLE, CAL])"

datatype add_sub = AsAdd | AsSub | AsAdds | AsSubs
datatype logic = LgAnd | LgOrr | LgEor | LgAnds
datatype shift = ShLsl | ShLsr | ShAsr
datatype wide = Movz | Movn | Movk
datatype writeback = Post | Pre
datatype fixup = Imm26 | Imm19

type_synonym register = nat
type_synonym label = nat

abbreviation (input) zero_register :: register where "zero_register \<equiv> 31"
abbreviation (input) SP :: register where "SP \<equiv> 32"

subsection \<open>Fields\<close>

text \<open>\<open>fail\<close> throws an \<open>EmitError\<close> with this prefix.\<close>

definition arm_fail :: "string \<Rightarrow> string + 'a" where
  "arm_fail message = Inl (''arm64 emitter: '' @ message)"

definition zr_slot :: "register \<Rightarrow> string + 32 word" where
  "zr_slot r =
     (if r = SP then arm_fail ''sp is not allowed here (register 31 means the zero register in this slot)''
      else Inr (of_nat r))"

definition sp_slot :: "register \<Rightarrow> string + 32 word" where
  "sp_slot r =
     (if r = zero_register
      then arm_fail ''the zero register is not allowed here (register 31 means sp in this slot)''
      else Inr (if r = SP then 31 else of_nat r))"

definition check_range :: "int \<Rightarrow> int \<Rightarrow> int \<Rightarrow> string \<Rightarrow> string + unit" where
  "check_range value lo hi what =
     (if value < lo \<or> value > hi
      then arm_fail (what @ '' '' @ int_digits value @ '' is out of range ['' @ int_digits lo @ '', '' @
        int_digits hi @ '']'')
      else Inr ())"

definition sf_bit :: "bool \<Rightarrow> 32 word" where
  "sf_bit sf = (if sf then 0x80000000 else 0)"

definition branch_field :: "int \<Rightarrow> nat \<Rightarrow> string + 32 word" where
  "branch_field byte_offset bits =
     (if byte_offset mod 4 \<noteq> 0
      then arm_fail (''branch offset '' @ int_digits byte_offset @ '' is not a multiple of 4'')
      else
        let words = byte_offset div 4; limit = 2 ^ (bits - 1)
        in sbind (check_range words (- limit) (limit - 1) ''branch offset (in instructions)'')
             (\<lambda>_. Inr (word_of_int words AND (push_bit bits 1 - 1))))"

definition kBWord :: "32 word" where "kBWord = 0x14000000"
definition kBCond :: "32 word" where "kBCond = 0x54000000"
definition kCbz :: "32 word" where "kCbz = 0x34000000"

subsection \<open>Instruction words\<close>

fun add_sub_reg_op :: "add_sub \<Rightarrow> 32 word" where
  "add_sub_reg_op AsAdd = 0x0B000000"
| "add_sub_reg_op AsSub = 0x4B000000"
| "add_sub_reg_op AsAdds = 0x2B000000"
| "add_sub_reg_op AsSubs = 0x6B000000"

definition addsub_reg :: "add_sub \<Rightarrow> bool \<Rightarrow> register \<Rightarrow> register \<Rightarrow> register \<Rightarrow> string + 32 word" where
  "addsub_reg op sf d n m =
     sbind (zr_slot m) (\<lambda>m. sbind (zr_slot n) (\<lambda>n. sbind (zr_slot d) (\<lambda>d.
       Inr (sf_bit sf OR add_sub_reg_op op OR push_bit 16 m OR push_bit 5 n OR d))))"

fun add_sub_imm_op :: "add_sub \<Rightarrow> 32 word" where
  "add_sub_imm_op AsAdd = 0x11000000"
| "add_sub_imm_op AsSub = 0x51000000"
| "add_sub_imm_op AsAdds = 0x31000000"
| "add_sub_imm_op AsSubs = 0x71000000"

definition addsub_imm :: "add_sub \<Rightarrow> bool \<Rightarrow> register \<Rightarrow> register \<Rightarrow> 32 word \<Rightarrow> bool \<Rightarrow> string + 32 word" where
  "addsub_imm op sf d n imm12 shift12 =
     sbind (check_range (uint imm12) 0 4095 ''add/sub immediate'') (\<lambda>_.
     sbind (if op = AsAdds \<or> op = AsSubs then zr_slot d else sp_slot d) (\<lambda>rd.
     sbind (sp_slot n) (\<lambda>n.
       Inr (sf_bit sf OR add_sub_imm_op op OR (if shift12 then push_bit 22 1 else 0) OR push_bit 10 imm12 OR
         push_bit 5 n OR rd))))"

definition mul_add :: "bool \<Rightarrow> bool \<Rightarrow> register \<Rightarrow> register \<Rightarrow> register \<Rightarrow> register \<Rightarrow> string + 32 word" where
  "mul_add subtract sf d n m a =
     sbind (zr_slot m) (\<lambda>m. sbind (zr_slot a) (\<lambda>a. sbind (zr_slot n) (\<lambda>n. sbind (zr_slot d) (\<lambda>d.
       Inr (sf_bit sf OR 0x1B000000 OR push_bit 16 m OR (if subtract then push_bit 15 1 else 0) OR
         push_bit 10 a OR push_bit 5 n OR d)))))"

definition sdiv_word :: "bool \<Rightarrow> register \<Rightarrow> register \<Rightarrow> register \<Rightarrow> string + 32 word" where
  "sdiv_word sf d n m =
     sbind (zr_slot m) (\<lambda>m. sbind (zr_slot n) (\<lambda>n. sbind (zr_slot d) (\<lambda>d.
       Inr (sf_bit sf OR 0x1AC00C00 OR push_bit 16 m OR push_bit 5 n OR d))))"

fun logic_reg_op :: "logic \<Rightarrow> 32 word" where
  "logic_reg_op LgAnd = 0x0A000000"
| "logic_reg_op LgOrr = 0x2A000000"
| "logic_reg_op LgEor = 0x4A000000"
| "logic_reg_op LgAnds = 0x6A000000"

definition logic_reg :: "logic \<Rightarrow> bool \<Rightarrow> register \<Rightarrow> register \<Rightarrow> register \<Rightarrow> string + 32 word" where
  "logic_reg op sf d n m =
     sbind (zr_slot m) (\<lambda>m. sbind (zr_slot n) (\<lambda>n. sbind (zr_slot d) (\<lambda>d.
       Inr (sf_bit sf OR logic_reg_op op OR push_bit 16 m OR push_bit 5 n OR d))))"

definition shift_imm :: "shift \<Rightarrow> bool \<Rightarrow> register \<Rightarrow> register \<Rightarrow> nat \<Rightarrow> string + 32 word" where
  "shift_imm op sf d n amount =
     (let width = (if sf then 64 else 32 :: nat)
      in sbind (check_range (int amount) 0 (int width - 1) ''shift amount'') (\<lambda>_.
           let base = (if op = ShAsr then 0x13000000 else 0x53000000) OR (if sf then 0x80400000 else 0);
               (immr, imms) =
                 (if op = ShLsl then ((width - amount) mod width, width - 1 - amount)
                  else (amount, width - 1))
           in sbind (zr_slot n) (\<lambda>n. sbind (zr_slot d) (\<lambda>d.
                Inr (base OR push_bit 16 (of_nat immr) OR push_bit 10 (of_nat imms) OR push_bit 5 n OR d)))))"

definition sxtw_word :: "register \<Rightarrow> register \<Rightarrow> string + 32 word" where
  "sxtw_word d n =
     sbind (zr_slot n) (\<lambda>n. sbind (zr_slot d) (\<lambda>d. Inr (0x93407C00 OR push_bit 5 n OR d)))"

fun wide_op :: "wide \<Rightarrow> 32 word" where
  "wide_op Movz = 0x52800000"
| "wide_op Movn = 0x12800000"
| "wide_op Movk = 0x72800000"

definition wide_word :: "wide \<Rightarrow> bool \<Rightarrow> register \<Rightarrow> 32 word \<Rightarrow> nat \<Rightarrow> string + 32 word" where
  "wide_word op sf d imm16 sh =
     sbind (check_range (uint imm16) 0 0xFFFF ''move-wide immediate'') (\<lambda>_.
       if sh mod 16 \<noteq> 0 \<or> sh \<ge> (if sf then 64 else 32)
       then arm_fail (''move-wide shift '' @ nat_digits sh @ '' must be 0, 16'' @
         (if sf then '', 32 or 48'' else []) @ '' for this register width'')
       else sbind (zr_slot d) (\<lambda>d.
         Inr (sf_bit sf OR wide_op op OR push_bit 21 (of_nat (sh div 16)) OR push_bit 5 imm16 OR d)))"

definition ldr_str :: "bool \<Rightarrow> bool \<Rightarrow> register \<Rightarrow> register \<Rightarrow> 32 word \<Rightarrow> string + 32 word" where
  "ldr_str load sf rt base byte_offset =
     (let access = (if sf then 8 else 4)
      in if byte_offset mod access \<noteq> 0
         then arm_fail (''load/store offset '' @ int_digits (uint byte_offset) @ '' is not a multiple of '' @
           int_digits (uint access))
         else sbind (check_range (uint (byte_offset div access)) 0 4095 ''load/store offset (in accesses)'') (\<lambda>_.
           sbind (sp_slot base) (\<lambda>base. sbind (zr_slot rt) (\<lambda>rt.
             Inr ((if sf then 0xF9000000 else 0xB9000000) OR (if load then push_bit 22 1 else 0) OR
               push_bit 10 (byte_offset div access) OR push_bit 5 base OR rt)))))"

definition ldrb_word :: "register \<Rightarrow> register \<Rightarrow> 32 word \<Rightarrow> string + 32 word" where
  "ldrb_word rt base byte_offset =
     sbind (check_range (uint byte_offset) 0 4095 ''load byte offset'') (\<lambda>_.
     sbind (sp_slot base) (\<lambda>base. sbind (zr_slot rt) (\<lambda>rt.
       Inr (0x39400000 OR push_bit 10 byte_offset OR push_bit 5 base OR rt))))"

definition ldr_str_scaled :: "bool \<Rightarrow> bool \<Rightarrow> register \<Rightarrow> register \<Rightarrow> register \<Rightarrow> string + 32 word" where
  "ldr_str_scaled load sf rt base index =
     sbind (zr_slot index) (\<lambda>index. sbind (sp_slot base) (\<lambda>base. sbind (zr_slot rt) (\<lambda>rt.
       Inr ((if sf then 0xF8207800 else 0xB8207800) OR (if load then push_bit 22 1 else 0) OR
         push_bit 16 index OR push_bit 5 base OR rt))))"

definition pair_word :: "bool \<Rightarrow> writeback \<Rightarrow> bool \<Rightarrow> register \<Rightarrow> register \<Rightarrow> register \<Rightarrow> int \<Rightarrow> string + 32 word" where
  "pair_word load wb sf t1 t2 base byte_offset =
     (let access = (if sf then 8 else 4)
      in if byte_offset mod access \<noteq> 0
         then arm_fail (''pair offset '' @ int_digits byte_offset @ '' is not a multiple of '' @ int_digits access)
         else sbind (check_range (byte_offset div access) (- 64) 63 ''pair offset (in registers)'') (\<lambda>_.
           sbind (sp_slot base) (\<lambda>rn.
             if base \<noteq> SP \<and> (base = t1 \<or> base = t2)
             then arm_fail ''pair with writeback must not use the base register as a data register''
             else if load \<and> t1 = t2
             then arm_fail ''ldp with two identical destination registers is unpredictable''
             else sbind (zr_slot t2) (\<lambda>t2. sbind (zr_slot t1) (\<lambda>t1.
               Inr ((if sf then 0xA8800000 else 0x28800000) OR (if wb = Pre then push_bit 24 1 else 0) OR
                 (if load then push_bit 22 1 else 0) OR
                 push_bit 15 (word_of_int (byte_offset div access) AND 0x7F) OR
                 push_bit 10 t2 OR push_bit 5 rn OR t1))))))"

definition b_word :: "int \<Rightarrow> string + 32 word" where
  "b_word byte_offset = sbind (branch_field byte_offset 26) (\<lambda>f. Inr (kBWord OR f))"

definition bl_word :: "int \<Rightarrow> string + 32 word" where
  "bl_word byte_offset = sbind (branch_field byte_offset 26) (\<lambda>f. Inr (kBWord OR 0x80000000 OR f))"

definition b_cond_word :: "cond \<Rightarrow> int \<Rightarrow> string + 32 word" where
  "b_cond_word c byte_offset =
     sbind (branch_field byte_offset 19) (\<lambda>f. Inr (kBCond OR push_bit 5 f OR of_nat (cond_code c)))"

definition cbz_word :: "bool \<Rightarrow> bool \<Rightarrow> register \<Rightarrow> int \<Rightarrow> string + 32 word" where
  "cbz_word nonzero sf rt byte_offset =
     sbind (branch_field byte_offset 19) (\<lambda>f. sbind (zr_slot rt) (\<lambda>rt.
       Inr (sf_bit sf OR kCbz OR (if nonzero then push_bit 24 1 else 0) OR push_bit 5 f OR rt)))"

definition br_word :: "register \<Rightarrow> string + 32 word" where
  "br_word n = sbind (zr_slot n) (\<lambda>n. Inr (0xD61F0000 OR push_bit 5 n))"

definition blr_word :: "register \<Rightarrow> string + 32 word" where
  "blr_word n = sbind (zr_slot n) (\<lambda>n. Inr (0xD63F0000 OR push_bit 5 n))"

definition ret_word :: "register \<Rightarrow> string + 32 word" where
  "ret_word n = sbind (zr_slot n) (\<lambda>n. Inr (0xD65F0000 OR push_bit 5 n))"

definition cset_word :: "bool \<Rightarrow> register \<Rightarrow> cond \<Rightarrow> string + 32 word" where
  "cset_word sf d c =
     (if c = CAL then arm_fail ''cset cannot use the AL condition''
      else
        let inverted = of_nat (cond_code c) XOR 1
        in sbind (zr_slot d) (\<lambda>d.
             Inr (sf_bit sf OR 0x1A800400 OR push_bit 16 31 OR push_bit 12 inverted OR push_bit 5 31 OR d)))"

text \<open>The move-wide sequence of a constant, the loop of \<open>mov_imm_impl\<close> over the indices of the chunks.\<close>

definition chunk16 :: "64 word \<Rightarrow> nat \<Rightarrow> 32 word" where
  "chunk16 v i = ucast (drop_bit (16 * i) v) AND 0xFFFF"

fun mov_chunks :: "bool \<Rightarrow> 64 word \<Rightarrow> bool \<Rightarrow> nat list \<Rightarrow> (wide \<times> 32 word \<times> nat) list" where
  "mov_chunks use_movn v first [] = (if first then [(if use_movn then Movn else Movz, 0, 0)] else [])"
| "mov_chunks use_movn v first (i # is) =
     (let c = chunk16 v i
      in if c = (if use_movn then 0xFFFF else 0) then mov_chunks use_movn v first is
         else if first
         then (if use_movn then Movn else Movz, if use_movn then NOT c AND 0xFFFF else c, 16 * i) #
           mov_chunks use_movn v False is
         else (Movk, c, 16 * i) # mov_chunks use_movn v False is)"

definition mov_imm_impl :: "nat \<Rightarrow> 64 word \<Rightarrow> (wide \<times> 32 word \<times> nat) list" where
  "mov_imm_impl chunks v =
     (let zeros = length (filter (\<lambda>i. chunk16 v i = 0) [0..<chunks]);
          ones = length (filter (\<lambda>i. chunk16 v i = 0xFFFF) [0..<chunks])
      in mov_chunks (ones > zeros) v True [0..<chunks])"

end
