(* ===== verification/Arm64_Emitter.thy ===== *)
theory Arm64_Emitter
  imports Arm64
begin

text \<open>
  The emitter of \<open>jit/arm64_emitter.cpp\<close> as a state: the words so far and the labels. Its public
  members, one per instruction, append a word or stop with the \<open>EmitError\<close>; \<open>bind\<close> patches the
  branches that were waiting for a label. \<open>code_[index]\<close> outside the code would be undefined
  behaviour in C++; here it stops the emitter with an error of its own, \<open>Undefined\<close>.
\<close>

record pending =
  pd_index :: nat
  pd_kind :: fixup

record label_state =
  ls_bound :: bool
  ls_index :: nat
  ls_pending :: "pending list"

record emitter =
  em_code :: "32 word list"
  em_labels :: "label_state list"

datatype emit_fault = EmitError string | Undefined

type_synonym 'a emit = "(emitter, emit_fault, 'a) exec"

definition new_emitter :: emitter where
  "new_emitter = \<lparr>em_code = [], em_labels = []\<rparr>"

definition emit :: "32 word \<Rightarrow> unit emit" where
  "emit w = xmod (\<lambda>e. e\<lparr>em_code := em_code e @ [w]\<rparr>)"

definition lift_emit :: "string + 'a \<Rightarrow> 'a emit" where
  "lift_emit r = (case r of Inl message \<Rightarrow> xstop (\<lambda>_. EmitError message) | Inr x \<Rightarrow> xreturn x)"

definition emit_word :: "string + 32 word \<Rightarrow> unit emit" where
  "emit_word r = xbind (lift_emit r) emit"

definition size_bytes :: "emitter \<Rightarrow> nat" where
  "size_bytes e = length (em_code e) * 4"

subsection \<open>Labels\<close>

definition make_label :: "label emit" where
  "make_label =
     xseq (xmod (\<lambda>e. e\<lparr>em_labels := em_labels e @ [\<lparr>ls_bound = False, ls_index = 0, ls_pending = []\<rparr>]\<rparr>))
       (xget (\<lambda>e. length (em_labels e) - 1))"

definition label_state_of :: "label \<Rightarrow> label_state emit" where
  "label_state_of l e =
     (if l \<ge> length (em_labels e) then Error (EmitError (''arm64 emitter: unknown label''))
      else Ok (em_labels e ! l, e))"

definition set_label :: "label \<Rightarrow> label_state \<Rightarrow> unit emit" where
  "set_label l st = xmod (\<lambda>e. e\<lparr>em_labels := (em_labels e)[l := st]\<rparr>)"

definition fixup_field :: "nat \<Rightarrow> fixup \<Rightarrow> nat \<Rightarrow> string + 32 word" where
  "fixup_field index kind target_index =
     (let byte_offset = (int target_index - int index) * 4
      in case kind of
           Imm26 \<Rightarrow> branch_field byte_offset 26
         | Imm19 \<Rightarrow> sbind (branch_field byte_offset 19) (\<lambda>f. Inr (push_bit 5 f)))"

definition or_code :: "nat \<Rightarrow> 32 word \<Rightarrow> unit emit" where
  "or_code index f e =
     (if index < length (em_code e)
      then Ok ((), e\<lparr>em_code := (em_code e)[index := em_code e ! index OR f]\<rparr>)
      else Error Undefined)"

definition patch :: "nat \<Rightarrow> fixup \<Rightarrow> nat \<Rightarrow> unit emit" where
  "patch index kind target_index = xbind (lift_emit (fixup_field index kind target_index)) (or_code index)"

definition branch_to_label :: "string + 32 word \<Rightarrow> fixup \<Rightarrow> label \<Rightarrow> unit emit" where
  "branch_to_label r kind l =
     xbind (lift_emit r) (\<lambda>w.
     xseq (label_state_of l)
       (xseq (emit w)
         (xbind (xget (\<lambda>e. length (em_code e) - 1)) (\<lambda>index.
          xbind (label_state_of l) (\<lambda>st.
            if ls_bound st then patch index kind (ls_index st)
            else set_label l (st\<lparr>ls_pending := ls_pending st @ [\<lparr>pd_index = index, pd_kind = kind\<rparr>]\<rparr>))))))"

fun patch_all :: "nat \<Rightarrow> pending list \<Rightarrow> unit emit" where
  "patch_all target [] = xreturn ()"
| "patch_all target (p # ps) = xseq (patch (pd_index p) (pd_kind p) target) (patch_all target ps)"

definition bind_label :: "label \<Rightarrow> unit emit" where
  "bind_label l =
     xbind (label_state_of l) (\<lambda>st.
       if ls_bound st then xstop (\<lambda>_. EmitError ''arm64 emitter: label bound twice'')
       else
         xbind (xget (\<lambda>e. length (em_code e))) (\<lambda>here.
         xseq (patch_all here (ls_pending st))
           (set_label l \<lparr>ls_bound = True, ls_index = here, ls_pending = []\<rparr>)))"

definition finish :: "unit emit" where
  "finish =
     xbind (xget (\<lambda>e. list_all (\<lambda>st. ls_pending st = []) (em_labels e))) (\<lambda>ok.
       if ok then xreturn ()
       else xstop (\<lambda>_. EmitError ''arm64 emitter: a branch refers to a label that was never bound''))"

subsection \<open>Arithmetic\<close>

definition em_add where "em_add sf d n m = emit_word (addsub_reg AsAdd sf d n m)"
definition em_sub where "em_sub sf d n m = emit_word (addsub_reg AsSub sf d n m)"
definition em_adds where "em_adds sf d n m = emit_word (addsub_reg AsAdds sf d n m)"
definition em_subs where "em_subs sf d n m = emit_word (addsub_reg AsSubs sf d n m)"
definition em_add_imm where "em_add_imm sf d n imm shift12 = emit_word (addsub_imm AsAdd sf d n imm shift12)"
definition em_sub_imm where "em_sub_imm sf d n imm shift12 = emit_word (addsub_imm AsSub sf d n imm shift12)"
definition em_adds_imm where "em_adds_imm sf d n imm shift12 = emit_word (addsub_imm AsAdds sf d n imm shift12)"
definition em_subs_imm where "em_subs_imm sf d n imm shift12 = emit_word (addsub_imm AsSubs sf d n imm shift12)"
definition em_cmp where "em_cmp sf n m = em_subs sf zero_register n m"
definition em_cmp_imm where "em_cmp_imm sf n imm shift12 = em_subs_imm sf zero_register n imm shift12"
definition em_neg where "em_neg sf d m = em_sub sf d zero_register m"
definition em_madd where "em_madd sf d n m a = emit_word (mul_add False sf d n m a)"
definition em_msub where "em_msub sf d n m a = emit_word (mul_add True sf d n m a)"
definition em_mul where "em_mul sf d n m = em_madd sf d n m zero_register"
definition em_sdiv where "em_sdiv sf d n m = emit_word (sdiv_word sf d n m)"

subsection \<open>Logic and shifts\<close>

definition em_and where "em_and sf d n m = emit_word (logic_reg LgAnd sf d n m)"
definition em_orr where "em_orr sf d n m = emit_word (logic_reg LgOrr sf d n m)"
definition em_eor where "em_eor sf d n m = emit_word (logic_reg LgEor sf d n m)"
definition em_tst where "em_tst sf n m = emit_word (logic_reg LgAnds sf zero_register n m)"
definition em_lsl where "em_lsl sf d n amount = emit_word (shift_imm ShLsl sf d n amount)"
definition em_lsr where "em_lsr sf d n amount = emit_word (shift_imm ShLsr sf d n amount)"
definition em_asr where "em_asr sf d n amount = emit_word (shift_imm ShAsr sf d n amount)"
definition em_sxtw where "em_sxtw d n = emit_word (sxtw_word d n)"

subsection \<open>Moves\<close>

definition em_movz where "em_movz sf d imm16 sh = emit_word (wide_word Movz sf d imm16 sh)"
definition em_movn where "em_movn sf d imm16 sh = emit_word (wide_word Movn sf d imm16 sh)"
definition em_movk where "em_movk sf d imm16 sh = emit_word (wide_word Movk sf d imm16 sh)"

text \<open>The two \<open>mov\<close>, of W and of X registers, with the same body.\<close>

definition em_mov where
  "em_mov sf d n =
     (if d = SP \<or> n = SP then emit_word (addsub_imm AsAdd sf d n 0 False)
      else emit_word (logic_reg LgOrr sf d zero_register n))"

fun emit_wides :: "bool \<Rightarrow> register \<Rightarrow> (wide \<times> 32 word \<times> nat) list \<Rightarrow> unit emit" where
  "emit_wides sf d [] = xreturn ()"
| "emit_wides sf d ((op, imm, sh) # ws) = xseq (emit_word (wide_word op sf d imm sh)) (emit_wides sf d ws)"

definition em_mov_imm_w :: "register \<Rightarrow> 32 word \<Rightarrow> unit emit" where
  "em_mov_imm_w d v = emit_wides False d (mov_imm_impl 2 (ucast v))"

definition em_mov_imm_x :: "register \<Rightarrow> 64 word \<Rightarrow> unit emit" where
  "em_mov_imm_x d v = emit_wides True d (mov_imm_impl 4 v)"

subsection \<open>Memory\<close>

definition em_ldr where "em_ldr sf rt base byte_offset = emit_word (ldr_str True sf rt base byte_offset)"
definition em_str where "em_str sf rt base byte_offset = emit_word (ldr_str False sf rt base byte_offset)"
definition em_ldrb where "em_ldrb rt base byte_offset = emit_word (ldrb_word rt base byte_offset)"
definition em_ldr_scaled where "em_ldr_scaled sf rt base index = emit_word (ldr_str_scaled True sf rt base index)"
definition em_str_scaled where "em_str_scaled sf rt base index = emit_word (ldr_str_scaled False sf rt base index)"
definition em_ldp_post where "em_ldp_post sf t1 t2 base off = emit_word (pair_word True Post sf t1 t2 base off)"
definition em_ldp_pre where "em_ldp_pre sf t1 t2 base off = emit_word (pair_word True Pre sf t1 t2 base off)"
definition em_stp_post where "em_stp_post sf t1 t2 base off = emit_word (pair_word False Post sf t1 t2 base off)"
definition em_stp_pre where "em_stp_pre sf t1 t2 base off = emit_word (pair_word False Pre sf t1 t2 base off)"

subsection \<open>Control flow\<close>

definition em_b_offset where "em_b_offset off = emit_word (b_word off)"
definition em_bl_offset where "em_bl_offset off = emit_word (bl_word off)"
definition em_b_cond_offset where "em_b_cond_offset c off = emit_word (b_cond_word c off)"
definition em_cbz_offset where "em_cbz_offset sf rt off = emit_word (cbz_word False sf rt off)"
definition em_cbnz_offset where "em_cbnz_offset sf rt off = emit_word (cbz_word True sf rt off)"
definition em_b where "em_b l = branch_to_label (Inr kBWord) Imm26 l"
definition em_bl where "em_bl l = branch_to_label (Inr (kBWord OR 0x80000000)) Imm26 l"
definition em_b_cond where "em_b_cond c l = branch_to_label (Inr (kBCond OR of_nat (cond_code c))) Imm19 l"

definition cbz_label where
  "cbz_label nonzero sf rt l =
     branch_to_label
       (sbind (zr_slot rt) (\<lambda>rt. Inr (sf_bit sf OR kCbz OR (if nonzero then push_bit 24 1 else 0) OR rt))) Imm19 l"

definition em_cbz where "em_cbz sf rt l = cbz_label False sf rt l"
definition em_cbnz where "em_cbnz sf rt l = cbz_label True sf rt l"
definition em_br where "em_br n = emit_word (br_word n)"
definition em_blr where "em_blr n = emit_word (blr_word n)"
definition em_ret where "em_ret n = emit_word (ret_word n)"
definition em_cset where "em_cset sf d c = emit_word (cset_word sf d c)"

end
