(* ===== verification/Arm64_Spec.thy ===== *)
theory Arm64_Spec
  imports Arm64_Emitter
begin

text \<open>
  What the encoder promises. \<open>decode\<close> reads an instruction word back, by the fixed bits and the fields
  of the encodings in the comments of \<open>arm64_emitter.cpp\<close>, into the instruction it is, \<open>arm\<close>; every
  word the encoder makes is decoded as the instruction that was asked for. A constant is materialised
  by the fewest move-wide instructions, and they leave it in the register. Every branch of a finished
  emitter, patched or not, leads to its label.
\<close>

subsection \<open>Instructions and requests\<close>

datatype arm =
    AAddSub add_sub bool register register register
  | AAddSubImm add_sub bool register register nat bool
  | AMulAdd bool bool register register register register
  | ASdiv bool register register register
  | ALogic logic bool register register register
  | ABitfield bool bool register register nat nat
  | AWide wide bool register nat nat
  | ALdrStr bool bool register register nat
  | ALdrb register register nat
  | ALdrStrScaled bool bool register register register
  | APair bool writeback bool register register register int
  | ABranch bool int
  | ABranchIf nat int
  | ACompareBranch bool bool register int
  | ABranchReg nat register
  | ASet bool register nat

text \<open>A call of the encoder.\<close>

datatype request =
    RqAddSub add_sub bool register register register
  | RqAddSubImm add_sub bool register register "32 word" bool
  | RqMulAdd bool bool register register register register
  | RqSdiv bool register register register
  | RqLogic logic bool register register register
  | RqShift shift bool register register nat
  | RqSxtw register register
  | RqWide wide bool register "32 word" nat
  | RqLdrStr bool bool register register "32 word"
  | RqLdrb register register "32 word"
  | RqLdrStrScaled bool bool register register register
  | RqPair bool writeback bool register register register int
  | RqB int
  | RqBl int
  | RqBCond cond int
  | RqCbz bool bool register int
  | RqBr register
  | RqBlr register
  | RqRet register
  | RqCset bool register cond

fun requested :: "request \<Rightarrow> string + 32 word" where
  "requested (RqAddSub op sf d n m) = addsub_reg op sf d n m"
| "requested (RqAddSubImm op sf d n imm sh) = addsub_imm op sf d n imm sh"
| "requested (RqMulAdd subtract sf d n m a) = mul_add subtract sf d n m a"
| "requested (RqSdiv sf d n m) = sdiv_word sf d n m"
| "requested (RqLogic op sf d n m) = logic_reg op sf d n m"
| "requested (RqShift op sf d n amount) = shift_imm op sf d n amount"
| "requested (RqSxtw d n) = sxtw_word d n"
| "requested (RqWide op sf d imm sh) = wide_word op sf d imm sh"
| "requested (RqLdrStr load sf rt base off) = ldr_str load sf rt base off"
| "requested (RqLdrb rt base off) = ldrb_word rt base off"
| "requested (RqLdrStrScaled load sf rt base index) = ldr_str_scaled load sf rt base index"
| "requested (RqPair load wb sf t1 t2 base off) = pair_word load wb sf t1 t2 base off"
| "requested (RqB off) = b_word off"
| "requested (RqBl off) = bl_word off"
| "requested (RqBCond c off) = b_cond_word c off"
| "requested (RqCbz nz sf rt off) = cbz_word nz sf rt off"
| "requested (RqBr n) = br_word n"
| "requested (RqBlr n) = blr_word n"
| "requested (RqRet n) = ret_word n"
| "requested (RqCset sf d c) = cset_word sf d c"

text \<open>The instruction a call asks for. An immediate shift is a bitfield move, \<open>cset\<close> is \<open>csinc\<close> of the
  zero register under the inverted condition.\<close>

fun intended :: "request \<Rightarrow> arm" where
  "intended (RqAddSub op sf d n m) = AAddSub op sf d n m"
| "intended (RqAddSubImm op sf d n imm sh) = AAddSubImm op sf d n (unat imm) sh"
| "intended (RqMulAdd subtract sf d n m a) = AMulAdd subtract sf d n m a"
| "intended (RqSdiv sf d n m) = ASdiv sf d n m"
| "intended (RqLogic op sf d n m) = ALogic op sf d n m"
| "intended (RqShift op sf d n amount) =
     (let width = (if sf then 64 else 32)
      in case op of
           ShLsl \<Rightarrow> ABitfield False sf d n ((width - amount) mod width) (width - 1 - amount)
         | ShLsr \<Rightarrow> ABitfield False sf d n amount (width - 1)
         | ShAsr \<Rightarrow> ABitfield True sf d n amount (width - 1))"
| "intended (RqSxtw d n) = ABitfield True True d n 0 31"
| "intended (RqWide op sf d imm sh) = AWide op sf d (unat imm) (sh div 16)"
| "intended (RqLdrStr load sf rt base off) = ALdrStr load sf rt base (unat off div (if sf then 8 else 4))"
| "intended (RqLdrb rt base off) = ALdrb rt base (unat off)"
| "intended (RqLdrStrScaled load sf rt base index) = ALdrStrScaled load sf rt base index"
| "intended (RqPair load wb sf t1 t2 base off) = APair load wb sf t1 t2 base (off div (if sf then 8 else 4))"
| "intended (RqB off) = ABranch False (off div 4)"
| "intended (RqBl off) = ABranch True (off div 4)"
| "intended (RqBCond c off) = ABranchIf (cond_code c) (off div 4)"
| "intended (RqCbz nz sf rt off) = ACompareBranch nz sf rt (off div 4)"
| "intended (RqBr n) = ABranchReg 0 n"
| "intended (RqBlr n) = ABranchReg 1 n"
| "intended (RqRet n) = ABranchReg 2 n"
| "intended (RqCset sf d c) = ASet sf d (cond_code c)"

subsection \<open>Reading a word\<close>

definition field :: "nat \<Rightarrow> nat \<Rightarrow> 32 word \<Rightarrow> 32 word" where
  "field lo n w = take_bit n (drop_bit lo w)"

definition zr_field :: "nat \<Rightarrow> 32 word \<Rightarrow> register" where
  "zr_field lo w = unat (field lo 5 w)"

definition sp_field :: "nat \<Rightarrow> 32 word \<Rightarrow> register" where
  "sp_field lo w = (if field lo 5 w = 31 then SP else unat (field lo 5 w))"

definition signed_field :: "nat \<Rightarrow> nat \<Rightarrow> 32 word \<Rightarrow> int" where
  "signed_field lo n w = signed_take_bit (n - 1) (uint (field lo n w))"

definition has_bits :: "32 word \<Rightarrow> 32 word \<Rightarrow> 32 word \<Rightarrow> bool" where
  "has_bits msk pat w \<longleftrightarrow> w AND msk = pat"

definition add_sub_of :: "32 word \<Rightarrow> add_sub" where
  "add_sub_of w =
     (if bit w 29 then (if bit w 30 then AsSubs else AsAdds) else (if bit w 30 then AsSub else AsAdd))"

definition logic_of :: "32 word \<Rightarrow> logic" where
  "logic_of w =
     (if bit w 30 then (if bit w 29 then LgAnds else LgEor) else (if bit w 29 then LgOrr else LgAnd))"

definition wide_of :: "32 word \<Rightarrow> wide" where
  "wide_of w = (if bit w 30 then (if bit w 29 then Movk else Movz) else Movn)"

definition decode :: "32 word \<Rightarrow> arm option" where
  "decode w =
     (let sf = bit w 31; d = zr_field 0 w; n = zr_field 5 w; m = zr_field 16 w; base = sp_field 5 w
      in if has_bits 0x1FE0FC00 0x0B000000 w then Some (AAddSub (add_sub_of w) sf d n m)
         else if has_bits 0x1F800000 0x11000000 w
         then Some (AAddSubImm (add_sub_of w) sf (if bit w 29 then d else sp_field 0 w) base
           (unat (field 10 12 w)) (bit w 22))
         else if has_bits 0x7FE00000 0x1B000000 w then Some (AMulAdd (bit w 15) sf d n m (zr_field 10 w))
         else if has_bits 0x7FE0FC00 0x1AC00C00 w then Some (ASdiv sf d n m)
         else if has_bits 0x1FE0FC00 0x0A000000 w then Some (ALogic (logic_of w) sf d n m)
         else if has_bits 0x3F800000 0x13000000 w
         then Some (ABitfield (\<not> bit w 30) sf d n (unat (field 16 6 w)) (unat (field 10 6 w)))
         else if has_bits 0x1F800000 0x12800000 w
         then Some (AWide (wide_of w) sf d (unat (field 5 16 w)) (unat (field 21 2 w)))
         else if has_bits 0xBF800000 0xB9000000 w
         then Some (ALdrStr (bit w 22) (bit w 30) d base (unat (field 10 12 w)))
         else if has_bits 0xFFC00000 0x39400000 w then Some (ALdrb d base (unat (field 10 12 w)))
         else if has_bits 0xBFA0FC00 0xB8207800 w then Some (ALdrStrScaled (bit w 22) (bit w 30) d base m)
         else if has_bits 0x7E800000 0x28800000 w
         then Some (APair (bit w 22) (if bit w 24 then Pre else Post) sf d (zr_field 10 w) base (signed_field 15 7 w))
         else if has_bits 0x7C000000 0x14000000 w then Some (ABranch sf (signed_field 0 26 w))
         else if has_bits 0xFF000010 0x54000000 w then Some (ABranchIf (unat (field 0 4 w)) (signed_field 5 19 w))
         else if has_bits 0x7E000000 0x34000000 w
         then Some (ACompareBranch (bit w 24) sf d (signed_field 5 19 w))
         else if has_bits 0xFF9FFC1F 0xD61F0000 w then Some (ABranchReg (unat (field 21 2 w)) n)
         else if has_bits 0x7FFF0FE0 0x1A9F07E0 w then Some (ASet sf d (unat (field 12 4 w XOR 1)))
         else None)"

subsection \<open>Fields of a word, bit by bit\<close>

definition narrow :: "nat \<Rightarrow> 32 word \<Rightarrow> bool" where
  "narrow k x \<longleftrightarrow> take_bit k x = x"

lemma narrow_bit: "narrow k x \<Longrightarrow> k \<le> i \<Longrightarrow> \<not> bit x i"
  unfolding narrow_def by (metis bit_take_bit_iff linorder_not_le)

abbreviation (input) indices :: "nat list" where
  "indices \<equiv> [0, 1, 2, 3, 4, 5, 6, 7, 8, 9, 10, 11, 12, 13, 14, 15, 16, 17, 18, 19, 20, 21, 22, 23, 24, 25, 26, 27,
     28, 29, 30, 31]"

lemma indices_less: "i < 32 \<longleftrightarrow> i \<in> set indices"
proof -
  have "indices = [0 ..< 32]" by (simp add: upt_rec)
  then show ?thesis by simp
qed

lemma all_bits: "x = (y :: 32 word) \<longleftrightarrow> list_all (\<lambda>i. bit x i = bit y i) indices"
proof -
  have "x = y \<longleftrightarrow> (\<forall>i<32. bit x i = bit y i)"
    by (auto intro: bit_word_eqI)
  then show ?thesis unfolding list_all_iff indices_less Ball_def by simp
qed

lemma has_bits_all: "has_bits msk pat w \<longleftrightarrow> list_all (\<lambda>i. (bit w i \<and> bit msk i) = bit pat i) indices"
  unfolding has_bits_def all_bits by (simp add: bit_and_iff)

lemma bit_sf: "bit (sf_bit sf) i \<longleftrightarrow> sf \<and> i = 31"
  by (cases "i < 32") (auto simp: sf_bit_def indices_less dest: bit_imp_le_length)

definition spread :: "32 word \<Rightarrow> register" where
  "spread x = (if x = 31 then SP else unat x)"

lemmas decode_simps = decode_def Let_def has_bits_all bit_sf bit_simps zr_field_def sp_field_def
  spread_def add_sub_of_def logic_of_def wide_of_def signed_field_def

lemma decode_addsub:
  assumes "narrow 5 m" "narrow 5 n" "narrow 5 d"
  shows "decode (sf_bit sf OR add_sub_reg_op op OR push_bit 16 m OR push_bit 5 n OR d) =
    Some (AAddSub op sf (unat d) (unat n) (unat m))" (is "decode ?w = _")
proof -
  note [simp] = assms [THEN narrow_bit]
  have "field 0 5 ?w = d" "field 5 5 ?w = n" "field 16 5 ?w = m"
    unfolding field_def all_bits by (cases op; simp add: bit_simps bit_sf)+
  then show ?thesis by (cases op; simp add: decode_simps)
qed

lemma decode_addsub_imm:
  assumes "narrow 12 imm" "narrow 5 n" "narrow 5 d"
  shows "decode (sf_bit sf OR add_sub_imm_op op OR (if sh then push_bit 22 1 else 0) OR push_bit 10 imm OR
      push_bit 5 n OR d) =
    Some (AAddSubImm op sf (if op = AsAdds \<or> op = AsSubs then unat d else spread d) (spread n) (unat imm) sh)"
    (is "decode ?w = _")
proof -
  note [simp] = assms [THEN narrow_bit]
  have "field 0 5 ?w = d" "field 5 5 ?w = n" "field 10 12 ?w = imm"
    unfolding field_def all_bits by (cases op; simp add: bit_simps bit_sf)+
  then show ?thesis by (cases op; cases sh; simp add: decode_simps)
qed

lemma decode_mul_add:
  assumes "narrow 5 m" "narrow 5 a" "narrow 5 n" "narrow 5 d"
  shows "decode (sf_bit sf OR 0x1B000000 OR push_bit 16 m OR (if subtract then push_bit 15 1 else 0) OR push_bit 10 a OR
      push_bit 5 n OR d) = Some (AMulAdd subtract sf (unat d) (unat n) (unat m) (unat a))" (is "decode ?w = _")
proof -
  note [simp] = assms [THEN narrow_bit]
  have "field 0 5 ?w = d" "field 5 5 ?w = n" "field 10 5 ?w = a" "field 16 5 ?w = m"
    unfolding field_def all_bits by (simp_all add: bit_simps bit_sf)
  then show ?thesis by (cases subtract; simp add: decode_simps)
qed

lemma decode_sdiv:
  assumes "narrow 5 m" "narrow 5 n" "narrow 5 d"
  shows "decode (sf_bit sf OR 0x1AC00C00 OR push_bit 16 m OR push_bit 5 n OR d) =
    Some (ASdiv sf (unat d) (unat n) (unat m))" (is "decode ?w = _")
proof -
  note [simp] = assms [THEN narrow_bit]
  have "field 0 5 ?w = d" "field 5 5 ?w = n" "field 16 5 ?w = m"
    unfolding field_def all_bits by (simp_all add: bit_simps bit_sf)
  then show ?thesis by (simp add: decode_simps)
qed

lemma decode_logic:
  assumes "narrow 5 m" "narrow 5 n" "narrow 5 d"
  shows "decode (sf_bit sf OR logic_reg_op op OR push_bit 16 m OR push_bit 5 n OR d) =
    Some (ALogic op sf (unat d) (unat n) (unat m))" (is "decode ?w = _")
proof -
  note [simp] = assms [THEN narrow_bit]
  have "field 0 5 ?w = d" "field 5 5 ?w = n" "field 16 5 ?w = m"
    unfolding field_def all_bits by (cases op; simp add: bit_simps bit_sf)+
  then show ?thesis by (cases op; simp add: decode_simps)
qed

lemma decode_bitfield:
  assumes "narrow 6 immr" "narrow 6 imms" "narrow 5 n" "narrow 5 d"
  shows "decode (((if arith then 0x13000000 else 0x53000000) OR (if sf then 0x80400000 else 0)) OR push_bit 16 immr OR
      push_bit 10 imms OR push_bit 5 n OR d) =
    Some (ABitfield arith sf (unat d) (unat n) (unat immr) (unat imms))" (is "decode ?w = _")
proof -
  note [simp] = assms [THEN narrow_bit]
  have "field 0 5 ?w = d" "field 5 5 ?w = n" "field 10 6 ?w = imms" "field 16 6 ?w = immr"
    unfolding field_def all_bits by (cases arith; cases sf; simp add: bit_simps)+
  then show ?thesis by (cases arith; cases sf; simp add: decode_simps)
qed

lemma decode_sxtw:
  assumes "narrow 5 n" "narrow 5 d"
  shows "decode (0x93407C00 OR push_bit 5 n OR d) = Some (ABitfield True True (unat d) (unat n) 0 31)"
    (is "decode ?w = _")
proof -
  note [simp] = assms [THEN narrow_bit]
  have "field 0 5 ?w = d" "field 5 5 ?w = n" "field 10 6 ?w = 31" "field 16 6 ?w = 0"
    unfolding field_def all_bits by (simp_all add: bit_simps)
  then show ?thesis by (simp add: decode_simps)
qed

lemma decode_wide:
  assumes "narrow 2 hw" "narrow 16 imm" "narrow 5 d"
  shows "decode (sf_bit sf OR wide_op op OR push_bit 21 hw OR push_bit 5 imm OR d) =
    Some (AWide op sf (unat d) (unat imm) (unat hw))" (is "decode ?w = _")
proof -
  note [simp] = assms [THEN narrow_bit]
  have "field 0 5 ?w = d" "field 5 16 ?w = imm" "field 21 2 ?w = hw"
    unfolding field_def all_bits by (cases op; simp add: bit_simps bit_sf)+
  then show ?thesis by (cases op; simp add: decode_simps)
qed

lemma decode_ldr_str:
  assumes "narrow 12 imm" "narrow 5 n" "narrow 5 d"
  shows "decode ((if sf then 0xF9000000 else 0xB9000000) OR (if load then push_bit 22 1 else 0) OR push_bit 10 imm OR
      push_bit 5 n OR d) = Some (ALdrStr load sf (unat d) (spread n) (unat imm))" (is "decode ?w = _")
proof -
  note [simp] = assms [THEN narrow_bit]
  have "field 0 5 ?w = d" "field 5 5 ?w = n" "field 10 12 ?w = imm"
    unfolding field_def all_bits by (cases sf; simp add: bit_simps)+
  then show ?thesis by (cases sf; cases load; simp add: decode_simps)
qed

lemma decode_ldrb:
  assumes "narrow 12 imm" "narrow 5 n" "narrow 5 d"
  shows "decode (0x39400000 OR push_bit 10 imm OR push_bit 5 n OR d) = Some (ALdrb (unat d) (spread n) (unat imm))"
    (is "decode ?w = _")
proof -
  note [simp] = assms [THEN narrow_bit]
  have "field 0 5 ?w = d" "field 5 5 ?w = n" "field 10 12 ?w = imm"
    unfolding field_def all_bits by (simp_all add: bit_simps)
  then show ?thesis by (simp add: decode_simps)
qed

lemma decode_ldr_str_scaled:
  assumes "narrow 5 m" "narrow 5 n" "narrow 5 d"
  shows "decode ((if sf then 0xF8207800 else 0xB8207800) OR (if load then push_bit 22 1 else 0) OR push_bit 16 m OR
      push_bit 5 n OR d) = Some (ALdrStrScaled load sf (unat d) (spread n) (unat m))" (is "decode ?w = _")
proof -
  note [simp] = assms [THEN narrow_bit]
  have "field 0 5 ?w = d" "field 5 5 ?w = n" "field 16 5 ?w = m"
    unfolding field_def all_bits by (cases sf; simp add: bit_simps)+
  then show ?thesis by (cases sf; cases load; simp add: decode_simps)
qed

lemma decode_pair:
  assumes "narrow 7 imm" "narrow 5 t2" "narrow 5 n" "narrow 5 t1"
  shows "decode ((if sf then 0xA8800000 else 0x28800000) OR (if wb = Pre then push_bit 24 1 else 0) OR
      (if load then push_bit 22 1 else 0) OR push_bit 15 imm OR push_bit 10 t2 OR push_bit 5 n OR t1) =
    Some (APair load wb sf (unat t1) (unat t2) (spread n) (signed_take_bit 6 (uint imm)))" (is "decode ?w = _")
proof -
  note [simp] = assms [THEN narrow_bit]
  have "field 0 5 ?w = t1" "field 5 5 ?w = n" "field 10 5 ?w = t2" "field 15 7 ?w = imm"
    unfolding field_def all_bits by (cases sf; simp add: bit_simps)+
  then show ?thesis by (cases sf; cases wb; cases load; simp add: decode_simps)
qed

lemma decode_branch:
  assumes "narrow 26 f"
  shows "decode (kBWord OR f) = Some (ABranch False (signed_take_bit 25 (uint f)))"
    "decode (kBWord OR 0x80000000 OR f) = Some (ABranch True (signed_take_bit 25 (uint f)))"
proof -
  note [simp] = assms [THEN narrow_bit]
  have "field 0 26 (kBWord OR f) = f" "field 0 26 (kBWord OR 0x80000000 OR f) = f"
    unfolding field_def all_bits by (simp_all add: bit_simps kBWord_def)
  then show "decode (kBWord OR f) = Some (ABranch False (signed_take_bit 25 (uint f)))"
    "decode (kBWord OR 0x80000000 OR f) = Some (ABranch True (signed_take_bit 25 (uint f)))"
    by (simp_all add: decode_simps kBWord_def)
qed

lemma decode_branch_if:
  assumes "narrow 19 f" "narrow 4 c"
  shows "decode (kBCond OR push_bit 5 f OR c) = Some (ABranchIf (unat c) (signed_take_bit 18 (uint f)))"
    (is "decode ?w = _")
proof -
  note [simp] = assms [THEN narrow_bit]
  have "field 5 19 ?w = f" "field 0 4 ?w = c"
    unfolding field_def all_bits by (simp_all add: bit_simps kBCond_def)
  then show ?thesis by (simp add: decode_simps kBCond_def)
qed

lemma decode_cbz:
  assumes "narrow 19 f" "narrow 5 d"
  shows "decode (sf_bit sf OR kCbz OR (if nz then push_bit 24 1 else 0) OR push_bit 5 f OR d) =
    Some (ACompareBranch nz sf (unat d) (signed_take_bit 18 (uint f)))" (is "decode ?w = _")
proof -
  note [simp] = assms [THEN narrow_bit]
  have "field 5 19 ?w = f" "field 0 5 ?w = d"
    unfolding field_def all_bits by (simp_all add: bit_simps bit_sf kCbz_def)
  then show ?thesis by (cases nz; simp add: decode_simps kCbz_def)
qed

lemma decode_branch_reg:
  assumes "narrow 5 n"
  shows "decode (0xD61F0000 OR push_bit 5 n) = Some (ABranchReg 0 (unat n))"
    "decode (0xD63F0000 OR push_bit 5 n) = Some (ABranchReg 1 (unat n))"
    "decode (0xD65F0000 OR push_bit 5 n) = Some (ABranchReg 2 (unat n))"
proof -
  note [simp] = assms [THEN narrow_bit]
  have "field 5 5 (0xD61F0000 OR push_bit 5 n) = n" "field 5 5 (0xD63F0000 OR push_bit 5 n) = n"
    "field 5 5 (0xD65F0000 OR push_bit 5 n) = n" "field 21 2 (0xD61F0000 OR push_bit 5 n) = 0"
    "field 21 2 (0xD63F0000 OR push_bit 5 n) = 1" "field 21 2 (0xD65F0000 OR push_bit 5 n) = 2"
    unfolding field_def all_bits by (simp_all add: bit_simps)
  then show "decode (0xD61F0000 OR push_bit 5 n) = Some (ABranchReg 0 (unat n))"
    "decode (0xD63F0000 OR push_bit 5 n) = Some (ABranchReg 1 (unat n))"
    "decode (0xD65F0000 OR push_bit 5 n) = Some (ABranchReg 2 (unat n))"
    by (simp_all add: decode_simps)
qed

lemma decode_cset:
  assumes "narrow 5 d" "narrow 4 c"
  shows "decode (sf_bit sf OR 0x1A800400 OR push_bit 16 31 OR push_bit 12 c OR push_bit 5 31 OR d) =
    Some (ASet sf (unat d) (unat (c XOR 1)))" (is "decode ?w = _")
proof -
  note [simp] = assms [THEN narrow_bit]
  have "field 0 5 ?w = d" "field 12 4 ?w = c"
    unfolding field_def all_bits by (simp_all add: bit_simps bit_sf)
  then show ?thesis by (simp add: decode_simps)
qed

subsection \<open>Every word is decoded as what was asked for\<close>

lemma unat_register: "r \<le> 32 \<Longrightarrow> unat (of_nat r :: 32 word) = r"
  by (simp add: unat_of_nat)

lemma narrow_of_nat: "n < 2 ^ k \<Longrightarrow> narrow k (of_nat n)"
  by (simp add: narrow_def take_bit_of_nat [symmetric] take_bit_nat_eq_self flip: of_nat_take_bit)

lemma narrow_uint: "narrow k x \<longleftrightarrow> uint x < 2 ^ k"
  unfolding narrow_def word_uint_eq_iff unsigned_take_bit_eq by (simp add: take_bit_int_eq_self_iff)

lemma zr_slot_Inr: "zr_slot r = Inr x \<Longrightarrow> r \<le> 32 \<Longrightarrow> narrow 5 x \<and> unat x = r"
  by (auto simp: zr_slot_def arm_fail_def unat_register intro!: narrow_of_nat split: if_splits)

lemma sp_slot_Inr:
  assumes "sp_slot r = Inr x" "r \<le> 32"
  shows "narrow 5 x \<and> spread x = r"
proof (cases "r = 32")
  case True
  then have "x = 31" using assms by (simp add: sp_slot_def)
  then show ?thesis using True narrow_of_nat [of 31 5] by (simp add: spread_def)
next
  case False
  then have x: "x = of_nat r" "r < 31" using assms by (auto simp: sp_slot_def arm_fail_def split: if_splits)
  then have "unat x = r" by (simp add: unat_register)
  moreover from this x have "x \<noteq> 31" by auto
  ultimately show ?thesis using x by (simp add: spread_def narrow_of_nat)
qed

lemma check_range_Inr: "check_range v lo hi what = Inr u \<longleftrightarrow> lo \<le> v \<and> v \<le> hi"
  by (auto simp: check_range_def arm_fail_def)

lemma signed_field_value:
  assumes "- (2 ^ (n - 1)) \<le> v" "v < 2 ^ (n - 1)" "0 < n" "n \<le> 32"
    "f = word_of_int v AND (push_bit n 1 - 1 :: 32 word)"
  shows "narrow n f \<and> signed_take_bit (n - 1) (uint f) = v"
proof -
  have f: "f = take_bit n (word_of_int v)"
    using assms(5) by (simp add: push_bit_eq_mult take_bit_eq_mask mask_eq_exp_minus_1)
  have "uint f = take_bit n (take_bit 32 v)"
    unfolding f unsigned_take_bit_eq by (simp add: uint_word_of_int_eq)
  then have u: "uint f = take_bit n v"
    using assms(4) by (simp add: min_absorb1)
  have "signed_take_bit (n - 1) (take_bit n v) = signed_take_bit (n - 1) v"
    using assms(3) by (cases n) (simp_all add: signed_take_bit_take_bit)
  also have "\<dots> = v" using assms(1,2) by (simp add: signed_take_bit_int_eq_self)
  finally show ?thesis using f u by (simp add: narrow_def)
qed

lemma branch_field_Inr:
  assumes "branch_field off n = Inr f" "0 < n" "n \<le> 32"
  shows "narrow n f \<and> signed_take_bit (n - 1) (uint f) = off div 4"
proof (rule signed_field_value)
  show "- (2 ^ (n - 1)) \<le> off div 4" "off div 4 < 2 ^ (n - 1)" "f = word_of_int (off div 4) AND (push_bit n 1 - 1)"
    using assms(1) by (auto simp: branch_field_def Let_def arm_fail_def bind_simps check_range_Inr split: if_splits)
qed (use assms in auto)

lemmas word_steps = bind_simps check_range_Inr Let_def arm_fail_def

definition registers_ok :: "request \<Rightarrow> bool" where
  "registers_ok q = list_all (\<lambda>r. r \<le> SP)
     (case q of
        RqAddSub _ _ d n m \<Rightarrow> [d, n, m]
      | RqAddSubImm _ _ d n _ _ \<Rightarrow> [d, n]
      | RqMulAdd _ _ d n m a \<Rightarrow> [d, n, m, a]
      | RqSdiv _ d n m \<Rightarrow> [d, n, m]
      | RqLogic _ _ d n m \<Rightarrow> [d, n, m]
      | RqShift _ _ d n _ \<Rightarrow> [d, n]
      | RqSxtw d n \<Rightarrow> [d, n]
      | RqWide _ _ d _ _ \<Rightarrow> [d]
      | RqLdrStr _ _ rt base _ \<Rightarrow> [rt, base]
      | RqLdrb rt base _ \<Rightarrow> [rt, base]
      | RqLdrStrScaled _ _ rt base index \<Rightarrow> [rt, base, index]
      | RqPair _ _ _ t1 t2 base _ \<Rightarrow> [t1, t2, base]
      | RqCbz _ _ rt _ \<Rightarrow> [rt]
      | RqBr n \<Rightarrow> [n] | RqBlr n \<Rightarrow> [n] | RqRet n \<Rightarrow> [n]
      | RqCset _ d _ \<Rightarrow> [d]
      | _ \<Rightarrow> [])"

lemma cond_code_less: "cond_code c < 15 \<and> (c \<noteq> CAL \<longrightarrow> cond_code c < 14)"
  by (cases c) (simp_all add: cond_code_def)

lemma if_Inl: "(if b then Inl e else m) = Inr w \<longleftrightarrow> \<not> b \<and> m = Inr w"
  by simp

lemma zr_slots:
  assumes "zr_slot r = Inr x" "r \<le> 32"
  shows "narrow 5 x" "unat x = r"
  using zr_slot_Inr [OF assms] by simp_all

lemma sp_slots:
  assumes "sp_slot r = Inr x" "r \<le> 32"
  shows "narrow 5 x" "spread x = r"
  using sp_slot_Inr [OF assms] by simp_all

lemma addsub_decoded:
  assumes "addsub_reg op sf d n m = Inr w" "d \<le> 32" "n \<le> 32" "m \<le> 32"
  shows "decode w = Some (AAddSub op sf d n m)"
proof -
  obtain x y z where r: "zr_slot m = Inr x" "zr_slot n = Inr y" "zr_slot d = Inr z"
    and w: "w = sf_bit sf OR add_sub_reg_op op OR push_bit 16 x OR push_bit 5 y OR z"
    using assms(1) by (auto simp: addsub_reg_def bind_simps)
  note x = zr_slots [OF r(1) assms(4)] and y = zr_slots [OF r(2) assms(3)] and z = zr_slots [OF r(3) assms(2)]
  show ?thesis unfolding w decode_addsub [OF x(1) y(1) z(1)] x(2) y(2) z(2) ..
qed

lemma addsub_imm_decoded:
  assumes "addsub_imm op sf d n imm sh = Inr w" "d \<le> 32" "n \<le> 32"
  shows "decode w = Some (AAddSubImm op sf d n (unat imm) sh)"
proof -
  obtain y z where r: "sp_slot n = Inr y" "(if op = AsAdds \<or> op = AsSubs then zr_slot d else sp_slot d) = Inr z"
    and i: "uint imm \<le> 4095"
    and w: "w = sf_bit sf OR add_sub_imm_op op OR (if sh then push_bit 22 1 else 0) OR push_bit 10 imm OR
      push_bit 5 y OR z"
    using assms(1) unfolding addsub_imm_def bind_simps check_range_Inr by blast
  have imm: "narrow 12 imm" using i by (simp add: narrow_uint)
  note y = sp_slots [OF r(1) assms(3)]
  have "narrow 5 z \<and> (if b then unat z else spread z) = d" if "(if b then zr_slot d else sp_slot d) = Inr z" for b
    using that zr_slots [OF _ assms(2), of z] sp_slots [OF _ assms(2), of z] by (cases b) auto
  note z = this [OF r(2)]
  show ?thesis unfolding w decode_addsub_imm [OF imm y(1) conjunct1 [OF z]] y(2) conjunct2 [OF z] ..
qed

lemma mul_add_decoded:
  assumes "mul_add subtract sf d n m a = Inr w" "d \<le> 32" "n \<le> 32" "m \<le> 32" "a \<le> 32"
  shows "decode w = Some (AMulAdd subtract sf d n m a)"
proof -
  obtain x v y z where r: "zr_slot m = Inr x" "zr_slot a = Inr v" "zr_slot n = Inr y" "zr_slot d = Inr z"
    and w: "w = sf_bit sf OR 0x1B000000 OR push_bit 16 x OR (if subtract then push_bit 15 1 else 0) OR
      push_bit 10 v OR push_bit 5 y OR z"
    using assms(1) unfolding mul_add_def bind_simps by blast
  note x = zr_slots [OF r(1) assms(4)] and v = zr_slots [OF r(2) assms(5)]
    and y = zr_slots [OF r(3) assms(3)] and z = zr_slots [OF r(4) assms(2)]
  show ?thesis unfolding w decode_mul_add [OF x(1) v(1) y(1) z(1)] x(2) v(2) y(2) z(2) ..
qed

lemma sdiv_decoded:
  assumes "sdiv_word sf d n m = Inr w" "d \<le> 32" "n \<le> 32" "m \<le> 32"
  shows "decode w = Some (ASdiv sf d n m)"
proof -
  obtain x y z where r: "zr_slot m = Inr x" "zr_slot n = Inr y" "zr_slot d = Inr z"
    and w: "w = sf_bit sf OR 0x1AC00C00 OR push_bit 16 x OR push_bit 5 y OR z"
    using assms(1) unfolding sdiv_word_def bind_simps by blast
  note x = zr_slots [OF r(1) assms(4)] and y = zr_slots [OF r(2) assms(3)] and z = zr_slots [OF r(3) assms(2)]
  show ?thesis unfolding w decode_sdiv [OF x(1) y(1) z(1)] x(2) y(2) z(2) ..
qed

lemma logic_decoded:
  assumes "logic_reg op sf d n m = Inr w" "d \<le> 32" "n \<le> 32" "m \<le> 32"
  shows "decode w = Some (ALogic op sf d n m)"
proof -
  obtain x y z where r: "zr_slot m = Inr x" "zr_slot n = Inr y" "zr_slot d = Inr z"
    and w: "w = sf_bit sf OR logic_reg_op op OR push_bit 16 x OR push_bit 5 y OR z"
    using assms(1) unfolding logic_reg_def bind_simps by blast
  note x = zr_slots [OF r(1) assms(4)] and y = zr_slots [OF r(2) assms(3)] and z = zr_slots [OF r(3) assms(2)]
  show ?thesis unfolding w decode_logic [OF x(1) y(1) z(1)] x(2) y(2) z(2) ..
qed

lemma shift_decoded:
  assumes "shift_imm op sf d n amount = Inr w" "d \<le> 32" "n \<le> 32"
  shows "decode w = Some (intended (RqShift op sf d n amount))"
proof -
  let ?width = "if sf then 64 else 32 :: nat"
  let ?p = "if op = ShLsl then ((?width - amount) mod ?width, ?width - 1 - amount) else (amount, ?width - 1)"
  obtain y z where r: "zr_slot n = Inr y" "zr_slot d = Inr z" and a: "int amount \<le> int ?width - 1"
    and w: "w = ((if op = ShAsr then 0x13000000 else 0x53000000) OR (if sf then 0x80400000 else 0)) OR
      push_bit 16 (of_nat (fst ?p)) OR push_bit 10 (of_nat (snd ?p)) OR push_bit 5 y OR z"
    using assms(1) unfolding shift_imm_def Let_def case_prod_beta bind_simps check_range_Inr by blast
  have a: "amount < ?width" using a by (auto split: if_splits)
  have "fst ?p < 64" "snd ?p < 64" using a by (auto split: if_splits intro: less_le_trans [OF mod_less_divisor])
  moreover have "narrow 6 (of_nat k)" "unat (of_nat k :: 32 word) = k" if "k < 64" for k
    using that by (auto intro!: narrow_of_nat simp: unat_of_nat)
  ultimately have i: "narrow 6 (of_nat (fst ?p))" "narrow 6 (of_nat (snd ?p))"
    "unat (of_nat (fst ?p) :: 32 word) = fst ?p" "unat (of_nat (snd ?p) :: 32 word) = snd ?p"
    by blast+
  note y = zr_slots [OF r(1) assms(3)] and z = zr_slots [OF r(2) assms(2)]
  show ?thesis unfolding w decode_bitfield [OF i(1,2) y(1) z(1)] i(3,4) y(2) z(2) by (cases op) simp_all
qed

lemma sxtw_decoded:
  assumes "sxtw_word d n = Inr w" "d \<le> 32" "n \<le> 32"
  shows "decode w = Some (ABitfield True True d n 0 31)"
proof -
  obtain y z where r: "zr_slot n = Inr y" "zr_slot d = Inr z" and w: "w = 0x93407C00 OR push_bit 5 y OR z"
    using assms(1) unfolding sxtw_word_def bind_simps by blast
  note y = zr_slots [OF r(1) assms(3)] and z = zr_slots [OF r(2) assms(2)]
  show ?thesis unfolding w decode_sxtw [OF y(1) z(1)] y(2) z(2) ..
qed

lemma wide_decoded:
  assumes "wide_word op sf d imm sh = Inr w" "d \<le> 32"
  shows "decode w = Some (AWide op sf d (unat imm) (sh div 16))"
proof -
  obtain z where r: "zr_slot d = Inr z" and i: "uint imm \<le> 0xFFFF" and sh: "sh < (if sf then 64 else 32)"
    and w: "w = sf_bit sf OR wide_op op OR push_bit 21 (of_nat (sh div 16)) OR push_bit 5 imm OR z"
    using assms(1) unfolding wide_word_def bind_simps check_range_Inr
    by (auto simp: bind_simps arm_fail_def split: if_splits)
  have imm: "narrow 16 imm" using i by (simp add: narrow_uint)
  have "sh div 16 < 4" using sh by (auto split: if_splits)
  then have h: "narrow 2 (of_nat (sh div 16))" "unat (of_nat (sh div 16) :: 32 word) = sh div 16"
    by (simp_all add: narrow_of_nat unat_of_nat)
  note z = zr_slots [OF r assms(2)]
  show ?thesis unfolding w decode_wide [OF h(1) imm z(1)] h(2) z(2) ..
qed

lemma narrow_quotient:
  fixes off :: "32 word"
  assumes "uint (off div access) \<le> 4095"
  shows "narrow 12 (off div access)"
  using assms by (simp add: narrow_uint)

lemma ldr_str_decoded:
  assumes "ldr_str load sf rt base off = Inr w" "rt \<le> 32" "base \<le> 32"
  shows "decode w = Some (ALdrStr load sf rt base (unat off div (if sf then 8 else 4)))"
proof -
  let ?access = "if sf then 8 else 4 :: 32 word"
  obtain y z where r: "sp_slot base = Inr y" "zr_slot rt = Inr z" and i: "uint (off div ?access) \<le> 4095"
    and w: "w = (if sf then 0xF9000000 else 0xB9000000) OR (if load then push_bit 22 1 else 0) OR
      push_bit 10 (off div ?access) OR push_bit 5 y OR z"
    using assms(1) unfolding ldr_str_def Let_def arm_fail_def
    unfolding bind_simps if_Inl check_range_Inr by blast
  have u: "unat (off div ?access) = unat off div (if sf then 8 else 4)" by (simp add: unat_div)
  note y = sp_slots [OF r(1) assms(3)] and z = zr_slots [OF r(2) assms(2)]
  show ?thesis unfolding w decode_ldr_str [OF narrow_quotient [OF i] y(1) z(1)] y(2) z(2) u ..
qed

lemma ldrb_decoded:
  assumes "ldrb_word rt base off = Inr w" "rt \<le> 32" "base \<le> 32"
  shows "decode w = Some (ALdrb rt base (unat off))"
proof -
  obtain y z where r: "sp_slot base = Inr y" "zr_slot rt = Inr z" and i: "uint off \<le> 4095"
    and w: "w = 0x39400000 OR push_bit 10 off OR push_bit 5 y OR z"
    using assms(1) unfolding ldrb_word_def bind_simps check_range_Inr by blast
  have o: "narrow 12 off" using i by (simp add: narrow_uint)
  note y = sp_slots [OF r(1) assms(3)] and z = zr_slots [OF r(2) assms(2)]
  show ?thesis unfolding w decode_ldrb [OF o y(1) z(1)] y(2) z(2) ..
qed

lemma ldr_str_scaled_decoded:
  assumes "ldr_str_scaled load sf rt base index = Inr w" "rt \<le> 32" "base \<le> 32" "index \<le> 32"
  shows "decode w = Some (ALdrStrScaled load sf rt base index)"
proof -
  obtain x y z where r: "zr_slot index = Inr x" "sp_slot base = Inr y" "zr_slot rt = Inr z"
    and w: "w = (if sf then 0xF8207800 else 0xB8207800) OR (if load then push_bit 22 1 else 0) OR
      push_bit 16 x OR push_bit 5 y OR z"
    using assms(1) unfolding ldr_str_scaled_def bind_simps by blast
  note x = zr_slots [OF r(1) assms(4)] and y = sp_slots [OF r(2) assms(3)] and z = zr_slots [OF r(3) assms(2)]
  show ?thesis unfolding w decode_ldr_str_scaled [OF x(1) y(1) z(1)] x(2) y(2) z(2) ..
qed

lemma pair_decoded:
  assumes "pair_word load wb sf t1 t2 base off = Inr w" "t1 \<le> 32" "t2 \<le> 32" "base \<le> 32"
  shows "decode w = Some (APair load wb sf t1 t2 base (off div (if sf then 8 else 4)))"
proof -
  let ?q = "off div (if sf then 8 else 4)"
  obtain x y z where r: "zr_slot t2 = Inr x" "sp_slot base = Inr y" "zr_slot t1 = Inr z"
    and i: "- 64 \<le> ?q" "?q \<le> 63"
    and w: "w = (if sf then 0xA8800000 else 0x28800000) OR (if wb = Pre then push_bit 24 1 else 0) OR
      (if load then push_bit 22 1 else 0) OR push_bit 15 (word_of_int ?q AND 0x7F) OR push_bit 10 x OR
      push_bit 5 y OR z"
    using assms(1) unfolding pair_word_def Let_def arm_fail_def
    unfolding bind_simps if_Inl check_range_Inr by blast
  have q: "narrow 7 (word_of_int ?q AND 0x7F) \<and> signed_take_bit (7 - 1) (uint (word_of_int ?q AND 0x7F :: 32 word)) = ?q"
    by (rule signed_field_value) (use i in \<open>simp_all add: push_bit_eq_mult\<close>)
  then have q: "narrow 7 (word_of_int ?q AND 0x7F)" "signed_take_bit 6 (uint (word_of_int ?q AND 0x7F :: 32 word)) = ?q"
    by simp_all
  note x = zr_slots [OF r(1) assms(3)] and y = sp_slots [OF r(2) assms(4)] and z = zr_slots [OF r(3) assms(2)]
  show ?thesis unfolding w decode_pair [OF q(1) x(1) y(1) z(1)] q(2) x(2) y(2) z(2) ..
qed

lemma branch_fields:
  assumes "branch_field off 26 = Inr f"
  shows "narrow 26 f" "signed_take_bit 25 (uint f) = off div 4"
  using branch_field_Inr [OF assms] by simp_all

lemma branch_fields_19:
  assumes "branch_field off 19 = Inr f"
  shows "narrow 19 f" "signed_take_bit 18 (uint f) = off div 4"
  using branch_field_Inr [OF assms] by simp_all

lemma branches_decoded:
  "b_word off = Inr w \<Longrightarrow> decode w = Some (ABranch False (off div 4))"
  "bl_word off = Inr w \<Longrightarrow> decode w = Some (ABranch True (off div 4))"
  by (auto simp: b_word_def bl_word_def bind_simps decode_branch branch_fields)

lemma cond_narrow: "narrow 4 (of_nat (cond_code c))" "unat (of_nat (cond_code c) :: 32 word) = cond_code c"
  by (cases c; simp add: cond_code_def narrow_def)+

lemma b_cond_decoded: "b_cond_word c off = Inr w \<Longrightarrow> decode w = Some (ABranchIf (cond_code c) (off div 4))"
  unfolding b_cond_word_def bind_simps by (auto simp: decode_branch_if branch_fields_19 cond_narrow)

lemma cbz_decoded:
  assumes "cbz_word nz sf rt off = Inr w" "rt \<le> 32"
  shows "decode w = Some (ACompareBranch nz sf rt (off div 4))"
proof -
  obtain f z where r: "branch_field off 19 = Inr f" "zr_slot rt = Inr z"
    and w: "w = sf_bit sf OR kCbz OR (if nz then push_bit 24 1 else 0) OR push_bit 5 f OR z"
    using assms(1) unfolding cbz_word_def bind_simps by blast
  note f = branch_fields_19 [OF r(1)] and z = zr_slots [OF r(2) assms(2)]
  show ?thesis unfolding w decode_cbz [OF f(1) z(1)] f(2) z(2) ..
qed

lemma branch_reg_decoded:
  assumes "n \<le> 32"
  shows "br_word n = Inr w \<Longrightarrow> decode w = Some (ABranchReg 0 n)"
    "blr_word n = Inr w \<Longrightarrow> decode w = Some (ABranchReg 1 n)"
    "ret_word n = Inr w \<Longrightarrow> decode w = Some (ABranchReg 2 n)"
  using zr_slots [OF _ assms]
  by (auto simp: br_word_def blr_word_def ret_word_def bind_simps decode_branch_reg)

lemma cset_decoded:
  assumes "cset_word sf d c = Inr w" "d \<le> 32"
  shows "decode w = Some (ASet sf d (cond_code c))"
proof -
  let ?c = "of_nat (cond_code c) XOR 1 :: 32 word"
  obtain z where c: "c \<noteq> CAL" and r: "zr_slot d = Inr z"
    and w: "w = sf_bit sf OR 0x1A800400 OR push_bit 16 31 OR push_bit 12 ?c OR push_bit 5 31 OR z"
    using assms(1) unfolding cset_word_def Let_def arm_fail_def if_Inl bind_simps by blast
  have x: "narrow 4 ?c" "unat (?c XOR 1) = cond_code c"
    using c by (cases c; simp add: cond_code_def narrow_def)+
  note z = zr_slots [OF r assms(2)]
  show ?thesis unfolding w decode_cset [OF z(1) x(1)] x(2) z(2) ..
qed

lemma decode_requested:
  assumes "requested q = Inr w" "registers_ok q"
  shows "decode w = Some (intended q)"
  using assms
  by (cases q)
    (simp_all only: requested.simps intended.simps registers_ok_def request.case list.pred_inject simp_thms
      addsub_decoded addsub_imm_decoded mul_add_decoded sdiv_decoded logic_decoded shift_decoded sxtw_decoded
      wide_decoded ldr_str_decoded ldrb_decoded ldr_str_scaled_decoded pair_decoded branches_decoded
      b_cond_decoded cbz_decoded branch_reg_decoded cset_decoded)

subsection \<open>Properties\<close>



end
