(* ===== verification/Arm64_Moves.thy ===== *)
theory Arm64_Moves
  imports Arm64_Spec
begin

text \<open>
  Materialising a constant: the sequence of \<open>mov_imm\<close> leaves the constant in the register whatever was
  in it, and no sequence of move-wide instructions does it with fewer.
\<close>

subsection \<open>What the sequence leaves in the register\<close>

text \<open>What the move-wide instructions do to a register.\<close>

fun wide_effect :: "wide \<times> 32 word \<times> nat \<Rightarrow> 64 word \<Rightarrow> 64 word" where
  "wide_effect (Movz, imm, sh) r = push_bit sh (ucast imm)"
| "wide_effect (Movn, imm, sh) r = NOT (push_bit sh (ucast imm))"
| "wide_effect (Movk, imm, sh) r = (r AND NOT (push_bit sh 0xFFFF)) OR push_bit sh (ucast imm)"

text \<open>A W instruction writes the low half and zeroes the high one.\<close>

fun wide_effect_w :: "wide \<times> 32 word \<times> nat \<Rightarrow> 64 word \<Rightarrow> 64 word" where
  "wide_effect_w w r = take_bit 32 (wide_effect w (take_bit 32 r))"

lemma bit_0xFFFF: "bit (0xFFFF :: int) k \<longleftrightarrow> k < 16"
proof -
  have "(0xFFFF :: int) = mask 16" by (simp add: mask_eq_exp_minus_1)
  then show ?thesis by (simp only: bit_mask_iff) simp
qed

lemma bit_chunk16: "bit (chunk16 v i) k \<longleftrightarrow> k < 16 \<and> bit v (16 * i + k)"
  by (auto simp: chunk16_def bit_simps bit_0xFFFF)

lemma chunk16_narrow: "narrow 16 (chunk16 v i)"
  unfolding narrow_def by (rule bit_word_eqI) (auto simp: bit_simps bit_chunk16)

definition filler :: "bool \<Rightarrow> 32 word" where
  "filler use_movn = (if use_movn then 0xFFFF else 0)"

lemma bit_filler: "bit (filler m) k \<longleftrightarrow> m \<and> k < 16"
  by (auto simp: filler_def bit_0xFFFF)

lemma bit_wide_effect:
  assumes "narrow 16 imm" "i < 4" "k < 16" "j < 4"
  shows "bit (wide_effect (op, imm, 16 * i) r) (16 * j + k) \<longleftrightarrow>
    (case op of Movz \<Rightarrow> j = i \<and> bit imm k | Movn \<Rightarrow> \<not> (j = i \<and> bit imm k)
     | Movk \<Rightarrow> (if j = i then bit imm k else bit r (16 * j + k)))"
proof -
  have p: "bit (push_bit (16 * i) (ucast imm) :: 64 word) (16 * j + k) \<longleftrightarrow> j = i \<and> bit imm k"
  proof -
    consider "j = i" | "j < i" | "i < j" by linarith
    then show ?thesis
    proof cases
      case 3
      then have "16 \<le> 16 * j + k - 16 * i" by linarith
      then show ?thesis using narrow_bit [OF assms(1)] 3 by (auto simp: bit_simps)
    qed (use assms in \<open>auto simp: bit_simps dest: bit_imp_le_length\<close>)
  qed
  have m: "bit (push_bit (16 * i) 0xFFFF :: 64 word) (16 * j + k) \<longleftrightarrow> j = i"
  proof -
    have "16 * i \<le> 16 * j + k \<and> 16 * j + k - 16 * i < 16 \<longleftrightarrow> j = i" using assms(3) by auto
    then show ?thesis using assms by (auto simp: bit_simps bit_0xFFFF)
  qed
  show ?thesis using p m assms(3,4) by (cases op) (auto simp: bit_and_iff bit_or_iff bit_not_iff)
qed

lemma chunk16_eqI: "(\<And>k. k < 16 \<Longrightarrow> bit v (16 * j + k) = bit w (16 * i + k)) \<Longrightarrow> chunk16 v j = chunk16 w i"
  by (rule bit_word_eqI) (auto simp: bit_chunk16)

text \<open>Chunk by chunk: what one instruction does, and what the sequence does.\<close>

lemma chunk_wide_effect:
  assumes "narrow 16 imm" "i < 4" "j < 4"
  shows "chunk16 (wide_effect (op, imm, 16 * i) r) j =
    (case op of Movz \<Rightarrow> if j = i then imm else 0 | Movn \<Rightarrow> if j = i then NOT imm AND 0xFFFF else 0xFFFF
     | Movk \<Rightarrow> if j = i then imm else chunk16 r j)"
proof (rule bit_word_eqI)
  fix n
  show "bit (chunk16 (wide_effect (op, imm, 16 * i) r) j) n \<longleftrightarrow> bit
    (case op of Movz \<Rightarrow> if j = i then imm else 0 | Movn \<Rightarrow> if j = i then NOT imm AND 0xFFFF else 0xFFFF
     | Movk \<Rightarrow> if j = i then imm else chunk16 r j) n"
  proof (cases "n < 16")
    case True
    then show ?thesis using bit_wide_effect [OF assms(1,2) True assms(3)]
      by (cases op) (auto simp: bit_chunk16 bit_simps bit_0xFFFF simp del: wide_effect.simps)
  next
    case False
    then show ?thesis using narrow_bit [OF assms(1)]
      by (cases op) (auto simp: bit_chunk16 bit_simps bit_0xFFFF simp del: wide_effect.simps)
  qed
qed

lemma not_not_16:
  assumes "narrow 16 c"
  shows "NOT (NOT c AND 0xFFFF) AND 0xFFFF = c" "narrow 16 (NOT c AND 0xFFFF)"
proof -
  have "n < 16" if "bit c n" for n using narrow_bit [OF assms, of n] that by (meson not_le)
  then show "NOT (NOT c AND 0xFFFF) AND 0xFFFF = c"
    by (intro bit_word_eqI) (auto simp: bit_simps bit_0xFFFF)
  show "narrow 16 (NOT c AND 0xFFFF)"
    unfolding narrow_def by (intro bit_word_eqI) (auto simp: bit_simps bit_0xFFFF)
qed

lemma chunk_movk: "narrow 16 imm \<Longrightarrow> i < 4 \<Longrightarrow> j < 4 \<Longrightarrow>
    chunk16 (wide_effect (Movk, imm, 16 * i) r) j = (if j = i then imm else chunk16 r j)"
  by (simp add: chunk_wide_effect del: wide_effect.simps)

lemma chunk_reset:
  assumes "narrow 16 c" "i < 4" "j < 4"
  shows "chunk16 (wide_effect (if m then Movn else Movz, if m then NOT c AND 0xFFFF else c, 16 * i) r) j =
    (if j = i then c else filler m)"
proof (cases m)
  case True
  show ?thesis
    using chunk_wide_effect [OF not_not_16(2) [OF assms(1)] assms(2,3), of Movn r] True
    by (simp only: if_True wide.case filler_def not_not_16(1) [OF assms(1)])
next
  case False
  then show ?thesis using assms by (simp add: chunk_wide_effect filler_def del: wide_effect.simps)
qed

lemma chunk_mov_later:
  assumes "set is \<subseteq> {..<4}" "distinct is" "j < 4"
  shows "chunk16 (fold wide_effect (mov_chunks m v False is) r) j =
    (if j \<in> set is \<and> chunk16 v j \<noteq> filler m then chunk16 v j else chunk16 r j)"
  using assms
proof (induction "is" arbitrary: r)
  case (Cons i "is")
  then show ?case
    by (auto simp: Let_def filler_def [symmetric] chunk_movk chunk16_narrow simp del: wide_effect.simps)
qed simp

lemma chunk_mov:
  assumes "set is \<subseteq> {..<4}" "distinct is" "j < 4"
  shows "chunk16 (fold wide_effect (mov_chunks m v True is) r) j = (if j \<in> set is then chunk16 v j else filler m)"
  using assms
proof (induction "is")
  case Nil
  have "narrow 16 0" by (simp add: narrow_def)
  from chunk_wide_effect [OF this, of 0 j] Nil show ?case by (simp add: filler_def del: wide_effect.simps)
next
  case (Cons i "is")
  have s: "set is \<subseteq> {..<4}" "distinct is" and i: "i < 4" "i \<notin> set is" using Cons.prems by auto
  show ?case
  proof (cases "chunk16 v i = filler m")
    case True
    with Cons.IH [OF s Cons.prems(3)] show ?thesis by (auto simp: Let_def filler_def [symmetric])
  next
    case False
    have "mov_chunks m v True (i # is) = (if m then Movn else Movz, if m then NOT (chunk16 v i) AND 0xFFFF else chunk16 v i, 16 * i) #
        mov_chunks m v False is"
      using False by (simp add: Let_def filler_def)
    with chunk_mov_later [OF s Cons.prems(3)] chunk_reset [OF chunk16_narrow [of v i] i(1) Cons.prems(3), of m r] i show ?thesis
      by (auto simp del: wide_effect.simps mov_chunks.simps)
  qed
qed

lemma chunks_eqI: "(\<And>j. j < 4 \<Longrightarrow> chunk16 v j = chunk16 w j) \<Longrightarrow> v = w"
proof (rule bit_word_eqI)
  fix n
  assume c: "\<And>j. j < 4 \<Longrightarrow> chunk16 v j = chunk16 w j" and "n < LENGTH(64)"
  then have "n div 16 < 4" by simp
  from c [OF this] have "bit (chunk16 v (n div 16)) (n mod 16) = bit (chunk16 w (n div 16)) (n mod 16)" by simp
  then show "bit v n = bit w n" by (simp add: bit_chunk16)
qed

lemma mov_imm_value: "fold wide_effect (mov_imm_impl 4 v) r = v"
  by (rule chunks_eqI) (simp add: mov_imm_impl_def chunk_mov lessThan_atLeast0 atLeast_upt)

lemma wide_effect_low: "take_bit 32 (wide_effect w (take_bit 32 r)) = take_bit 32 (wide_effect w r)"
proof (cases w)
  case (fields op imm sh)
  show ?thesis unfolding fields by (cases op) (auto intro!: bit_word_eqI simp: bit_simps)
qed

lemma fold_wide_effect_w:
  "ws \<noteq> [] \<Longrightarrow> fold wide_effect_w ws r = take_bit 32 (fold wide_effect ws r)"
proof (induction ws arbitrary: r)
  case (Cons w ws)
  show ?case
  proof (cases "ws = []")
    case False
    have "take_bit 32 (fold wide_effect ws (take_bit 32 x)) = take_bit 32 (fold wide_effect ws x)" for x
      by (induction ws arbitrary: x) (simp, metis fold_simps(2) wide_effect_low)
    with Cons.IH [OF False] show ?thesis by (simp add: wide_effect_low del: wide_effect.simps)
  qed (simp add: wide_effect_low del: wide_effect.simps)
qed simp

lemma mov_chunks_not_Nil: "mov_chunks m v True is \<noteq> []"
  by (induction "is") (simp_all add: Let_def)

lemma mov_imm_w_value: "fold wide_effect_w (mov_imm_impl 2 (ucast (v :: 32 word))) r = ucast v"
proof -
  let ?f = "fold wide_effect (mov_imm_impl 2 (ucast v)) r"
  have "chunk16 ?f j = chunk16 (ucast v) j" if "j < 2" for j
    using that by (simp add: mov_imm_impl_def chunk_mov lessThan_atLeast0 atLeast_upt)
  then have "bit ?f n = bit (ucast v :: 64 word) n" if "n < 32" for n
    using that bit_chunk16 [of ?f "n div 16" "n mod 16"] bit_chunk16 [of "ucast v" "n div 16" "n mod 16"] by simp
  moreover have "\<not> bit v n" if "\<not> n < 32" for n using that bit_imp_le_length [of v n] by auto
  ultimately have "take_bit 32 ?f = ucast v"
    by (intro bit_word_eqI) (auto simp: bit_simps)
  then show ?thesis unfolding mov_imm_impl_def Let_def by (simp add: fold_wide_effect_w mov_chunks_not_Nil)
qed

subsection \<open>Fewest instructions\<close>

text \<open>No shorter sequence would do: a move that sets the whole register leaves three equal chunks, and
  every other one changes one chunk.\<close>

definition differing :: "32 word \<Rightarrow> 64 word \<Rightarrow> nat set" where
  "differing z v = {j \<in> {..<4}. chunk16 v j \<noteq> z}"

definition wide_ok :: "wide \<times> 32 word \<times> nat \<Rightarrow> bool" where
  "wide_ok w = (case w of (op, imm, sh) \<Rightarrow> narrow 16 imm \<and> sh mod 16 = 0 \<and> sh < 64)"

lemma length_mov_later: "length (mov_chunks m v False is) = length (filter (\<lambda>i. chunk16 v i \<noteq> filler m) is)"
  by (induction "is") (simp_all add: Let_def filler_def)

lemma length_mov_chunks: "length (mov_chunks m v True is) = max 1 (length (filter (\<lambda>i. chunk16 v i \<noteq> filler m) is))"
  by (induction "is") (simp_all add: Let_def length_mov_later filler_def [symmetric])

definition changed :: "64 word \<Rightarrow> 64 word \<Rightarrow> nat set" where
  "changed r v = {j \<in> {..<4}. chunk16 v j \<noteq> chunk16 r j}"

lemma finite_differing: "finite (differing z v)" "finite (changed r v)"
  by (simp_all add: differing_def changed_def)

lemma wide_ok_chunk: "wide_ok (op, imm, sh) \<Longrightarrow> \<exists>i<4. sh = 16 * i \<and> narrow 16 imm"
  unfolding wide_ok_def by (intro exI [of _ "sh div 16"]) auto

lemma fold_wide_bound:
  assumes "list_all wide_ok ws"
  shows "card (differing 0 (fold wide_effect ws r)) \<le> length ws \<or>
    card (differing 0xFFFF (fold wide_effect ws r)) \<le> length ws \<or>
    card (changed r (fold wide_effect ws r)) \<le> length ws"
  using assms
proof (induction ws rule: rev_induct)
  case (snoc w ws)
  obtain op imm sh where w: "w = (op, imm, sh)" by (cases w)
  then obtain i where i: "i < 4" "sh = 16 * i" "narrow 16 imm"
    using snoc.prems wide_ok_chunk [of op imm sh] by auto
  let ?x = "fold wide_effect ws r" and ?y = "fold wide_effect (ws @ [w]) r"
  have y: "chunk16 ?y j = (case op of Movz \<Rightarrow> if j = i then imm else 0
      | Movn \<Rightarrow> if j = i then NOT imm AND 0xFFFF else 0xFFFF | Movk \<Rightarrow> if j = i then imm else chunk16 ?x j)"
    if "j < 4" for j using chunk_wide_effect [OF i(3,1) that] by (simp add: w i(2) del: wide_effect.simps)
  have c: "card A \<le> length (ws @ [w])" if "A \<subseteq> insert i B" "card B \<le> length ws" "finite B" for A B :: "nat set"
  proof -
    have "card A \<le> card (insert i B)" using that by (intro card_mono) auto
    also have "\<dots> \<le> card B + 1" using that by (simp add: card_insert_if)
    finally show ?thesis using that by simp
  qed
  show ?case
  proof (cases op)
    case Movz
    then have "differing 0 ?y \<subseteq> insert i {}" using y by (auto simp: differing_def split: if_splits)
    from c [OF this] show ?thesis by simp
  next
    case Movn
    then have "differing 0xFFFF ?y \<subseteq> insert i {}" using y by (auto simp: differing_def split: if_splits)
    from c [OF this] show ?thesis by simp
  next
    case Movk
    have "differing z ?y \<subseteq> insert i (differing z ?x)" "changed r ?y \<subseteq> insert i (changed r ?x)" for z
      using y Movk by (auto simp: differing_def changed_def split: if_splits)
    with snoc.IH snoc.prems c finite_differing show ?thesis by (metis list_all_append)
  qed
qed (simp add: changed_def)

lemma length_mov_imm:
  "length (mov_imm_impl 4 v) \<le> max 1 (card (differing 0 v)) \<and> length (mov_imm_impl 4 v) \<le> max 1 (card (differing 0xFFFF v))"
proof -
  let ?n = "\<lambda>z. length (filter (\<lambda>i. chunk16 v i = z) [0..<4])"
  have d: "card (differing z v) = length (filter (\<lambda>i. chunk16 v i \<noteq> z) [0..<4])" for z
  proof -
    have "differing z v = set (filter (\<lambda>i. chunk16 v i \<noteq> z) [0..<4])" by (auto simp: differing_def)
    then show ?thesis by (simp only: distinct_card distinct_filter distinct_upt)
  qed
  have s: "?n z + card (differing z v) = 4" for z
  proof -
    have "length (filter P xs) + length (filter (\<lambda>x. \<not> P x) xs) = length xs" for P and xs :: "nat list"
      by (induction xs) simp_all
    from this [of "\<lambda>i. chunk16 v i = z" "[0..<4]"] show ?thesis by (simp add: d)
  qed
  have "length (mov_imm_impl 4 v) = max 1 (card (differing (filler (?n 0xFFFF > ?n 0)) v))"
    unfolding mov_imm_impl_def Let_def length_mov_chunks d ..
  then show ?thesis using s [where z = 0] s [where z = "0xFFFF"] by (auto simp: filler_def)
qed

lemma mov_imm_fewest:
  assumes "list_all wide_ok ws" "\<And>r. fold wide_effect ws r = v"
  shows "length (mov_imm_impl 4 v) \<le> length ws"
proof -
  have n: "chunk16 v j \<noteq> chunk16 (NOT v) j" if "j < 4" for j
  proof
    assume "chunk16 v j = chunk16 (NOT v) j"
    then have "bit (chunk16 v j) 0 = bit (chunk16 (NOT v) j) 0" by simp
    then show False using that by (simp add: bit_chunk16 bit_simps)
  qed
  have "changed (NOT v) v = {..<4}" using n by (auto simp: changed_def)
  moreover have "card (differing z v) \<le> 4" for z
    using card_mono [of "{..<4}" "differing z v"] by (auto simp: differing_def)
  moreover have "1 \<le> length ws" using assms(2) [of "v + 1"] by (cases ws) auto
  ultimately have "length ws \<ge> card (differing 0 v) \<or> length ws \<ge> card (differing 0xFFFF v) \<or> length ws \<ge> 4"
    "1 \<le> length ws" "card (differing 0 v) \<le> 4" "card (differing 0xFFFF v) \<le> 4"
    using fold_wide_bound [OF assms(1), of "NOT v"] unfolding assms(2) by auto
  with length_mov_imm [of v] show ?thesis unfolding max_def by (auto split: if_splits)
qed

subsection \<open>Properties\<close>

text \<open>C37. A constant is materialised right and with as few instructions as possible: the move-wide
  sequence leaves it in an X register (in a W register, with the high half zero) whatever was there
  before, and every sequence that also does has at least as many instructions.\<close>

theorem mov_imm_minimal:
  "fold wide_effect (mov_imm_impl 4 v) r = v \<and> fold wide_effect_w (mov_imm_impl 2 (ucast i)) r = ucast (i :: 32 word) \<and>
   (\<forall>ws. list_all wide_ok ws \<longrightarrow> (\<forall>r. fold wide_effect ws r = v) \<longrightarrow> length (mov_imm_impl 4 v) \<le> length ws)"
  using mov_imm_value mov_imm_w_value mov_imm_fewest by blast

theorem mov_imm_minimal_witness:
  "mov_imm_impl 4 0xFFFFFFFFFFFF1234 = [(Movn, 0xEDCB, 0)] \<and>
   fold wide_effect (mov_imm_impl 4 0xFFFFFFFFFFFF1234) 7 = 0xFFFFFFFFFFFF1234 \<and>
   length (mov_imm_impl 4 0xFFFFFFFFFFFF1234) \<le> length [(Movn, 0xEDCB :: 32 word, 0 :: nat)]"
proof -
  have v: "mov_imm_impl 4 0xFFFFFFFFFFFF1234 = [(Movn, 0xEDCB, 0)]"
    by (simp add: mov_imm_impl_def chunk16_def upt_rec)
  note m = mov_imm_minimal [of "0xFFFFFFFFFFFF1234" 7 0]
  have "length (mov_imm_impl 4 0xFFFFFFFFFFFF1234) \<le> length [(Movn, 0xEDCB :: 32 word, 0 :: nat)]"
    by (rule m [THEN conjunct2, THEN conjunct2, rule_format]) (simp_all add: wide_ok_def narrow_def)
  with v show ?thesis using m [THEN conjunct1] by simp
qed

end
