(* ===== verification/Disassembler.thy ===== *)
theory Disassembler
  imports Ops
begin

text \<open>
  \<open>disassembler.cpp\<close>: the bytecode listings of both formats, and the size counts of \<open>--stats\<close>. The
  functions that append to a string return what they append. A constant whose object is not in the
  heap, which would be undefined behaviour in C++, is shown as nothing.
\<close>

subsection \<open>Names\<close>

fun opcode_name :: "opcode \<Rightarrow> string" where
  "opcode_name OpConst = ''CONST''"
| "opcode_name OpNil = ''NIL''"
| "opcode_name OpTrue = ''TRUE''"
| "opcode_name OpFalse = ''FALSE''"
| "opcode_name OpPop = ''POP''"
| "opcode_name OpGetLocal = ''GET_LOCAL''"
| "opcode_name OpSetLocal = ''SET_LOCAL''"
| "opcode_name OpGetGlobal = ''GET_GLOBAL''"
| "opcode_name OpSetGlobal = ''SET_GLOBAL''"
| "opcode_name OpDefineGlobal = ''DEFINE_GLOBAL''"
| "opcode_name OpGetUpvalue = ''GET_UPVALUE''"
| "opcode_name OpSetUpvalue = ''SET_UPVALUE''"
| "opcode_name OpAdd = ''ADD''"
| "opcode_name OpSub = ''SUB''"
| "opcode_name OpMul = ''MUL''"
| "opcode_name OpDiv = ''DIV''"
| "opcode_name OpMod = ''MOD''"
| "opcode_name OpNeg = ''NEG''"
| "opcode_name OpNot = ''NOT''"
| "opcode_name OpEq = ''EQ''"
| "opcode_name OpNe = ''NE''"
| "opcode_name OpLt = ''LT''"
| "opcode_name OpLe = ''LE''"
| "opcode_name OpGt = ''GT''"
| "opcode_name OpGe = ''GE''"
| "opcode_name OpJump = ''JUMP''"
| "opcode_name OpJumpIfFalse = ''JUMP_IF_FALSE''"
| "opcode_name OpLoop = ''LOOP''"
| "opcode_name OpCall = ''CALL''"
| "opcode_name OpClosure = ''CLOSURE''"
| "opcode_name OpCloseUpvalue = ''CLOSE_UPVALUE''"
| "opcode_name OpReturn = ''RETURN''"
| "opcode_name OpPrint = ''PRINT''"
| "opcode_name OpArray = ''ARRAY''"
| "opcode_name OpIndexGet = ''INDEX_GET''"
| "opcode_name OpIndexSet = ''INDEX_SET''"

fun reg_opcode_name :: "regop \<Rightarrow> string" where
  "reg_opcode_name RgMove = ''MOVE''"
| "reg_opcode_name RgLoadK = ''LOADK''"
| "reg_opcode_name RgLoadNil = ''LOADNIL''"
| "reg_opcode_name RgLoadTrue = ''LOADTRUE''"
| "reg_opcode_name RgLoadFalse = ''LOADFALSE''"
| "reg_opcode_name RgGetGlobal = ''GET_GLOBAL''"
| "reg_opcode_name RgSetGlobal = ''SET_GLOBAL''"
| "reg_opcode_name RgDefineGlobal = ''DEFINE_GLOBAL''"
| "reg_opcode_name RgGetUpvalue = ''GET_UPVALUE''"
| "reg_opcode_name RgSetUpvalue = ''SET_UPVALUE''"
| "reg_opcode_name RgAdd = ''ADD''"
| "reg_opcode_name RgSub = ''SUB''"
| "reg_opcode_name RgMul = ''MUL''"
| "reg_opcode_name RgDiv = ''DIV''"
| "reg_opcode_name RgMod = ''MOD''"
| "reg_opcode_name RgEq = ''EQ''"
| "reg_opcode_name RgNe = ''NE''"
| "reg_opcode_name RgLt = ''LT''"
| "reg_opcode_name RgLe = ''LE''"
| "reg_opcode_name RgGt = ''GT''"
| "reg_opcode_name RgGe = ''GE''"
| "reg_opcode_name RgNeg = ''NEG''"
| "reg_opcode_name RgNot = ''NOT''"
| "reg_opcode_name RgJump = ''JUMP''"
| "reg_opcode_name RgJumpIfFalse = ''JUMP_IF_FALSE''"
| "reg_opcode_name RgJumpIfTrue = ''JUMP_IF_TRUE''"
| "reg_opcode_name RgCall = ''CALL''"
| "reg_opcode_name RgClosure = ''CLOSURE''"
| "reg_opcode_name RgCapture = ''CAPTURE''"
| "reg_opcode_name RgClose = ''CLOSE''"
| "reg_opcode_name RgReturn = ''RETURN''"
| "reg_opcode_name RgReturnNil = ''RETURN_NIL''"
| "reg_opcode_name RgPrint = ''PRINT''"
| "reg_opcode_name RgArray = ''ARRAY''"
| "reg_opcode_name RgArrayAppend = ''ARRAY_APPEND''"
| "reg_opcode_name RgIndexGet = ''INDEX_GET''"
| "reg_opcode_name RgIndexSet = ''INDEX_SET''"
| "reg_opcode_name RgLtJumpIfFalse = ''LT_JUMP_IF_FALSE''"
| "reg_opcode_name RgLeJumpIfFalse = ''LE_JUMP_IF_FALSE''"
| "reg_opcode_name RgAddJump = ''ADD_JUMP''"
| "reg_opcode_name RgModAdd = ''MOD_ADD''"
| "reg_opcode_name RgDivAdd = ''DIV_ADD''"
| "reg_opcode_name RgIndexSetAdd = ''INDEX_SET_ADD''"

text \<open>The names of a byte that may be no opcode.\<close>

definition byte_name :: "byte \<Rightarrow> string" where
  "byte_name b = (case op_of_byte b of Some op \<Rightarrow> opcode_name op | None \<Rightarrow> ''UNKNOWN'')"

definition reg_byte_name :: "byte \<Rightarrow> string" where
  "reg_byte_name b = (case rg_of_byte b of Some op \<Rightarrow> reg_opcode_name op | None \<Rightarrow> ''UNKNOWN'')"

subsection \<open>Formatting\<close>

definition escaped :: "char \<Rightarrow> string" where
  "escaped c =
     (if c = newline then [CHR 0x5C, CHR ''n''] else if c = CHR 0x09 then [CHR 0x5C, CHR ''t'']
      else if c = CHR 0x22 then [CHR 0x5C, c] else if c = CHR 0x5C then [CHR 0x5C, c] else [c])"

definition quoted :: "string \<Rightarrow> string" where
  "quoted s = [CHR 0x22] @ concat (map escaped s) @ [CHR 0x22]"

definition constant_text :: "heap \<Rightarrow> value \<Rightarrow> string" where
  "constant_text h v =
     (case v of
        VObj a \<Rightarrow> (case obj_at h a of Some (OString s) \<Rightarrow> quoted s | _ \<Rightarrow> print_value h v)
      | _ \<Rightarrow> print_value h v)"

text \<open>\<open>append_format\<close> formats into a buffer of 128 bytes, of which the last is the terminator, and
  appends the C string in it: a longer text is cut, and so is one with a NUL.\<close>

definition c_string :: "string \<Rightarrow> string" where
  "c_string s = takeWhile (\<lambda>c. c \<noteq> CHR 0x00) s"

definition append_format :: "string \<Rightarrow> string" where
  "append_format s = c_string (take 127 s)"

text \<open>\<open>%04zu\<close>, \<open>%04lld\<close>, \<open>%4d\<close> and \<open>%-14s\<close>.\<close>

definition zero_pad :: "nat \<Rightarrow> string \<Rightarrow> string" where
  "zero_pad n s = replicate (n - length s) (CHR ''0'') @ s"

definition pct_04zu :: "nat \<Rightarrow> string" where
  "pct_04zu n = zero_pad 4 (nat_digits n)"

definition pct_04lld :: "int \<Rightarrow> string" where
  "pct_04lld i = (if i < 0 then CHR ''-'' # zero_pad 3 (nat_digits (nat (- i))) else zero_pad 4 (nat_digits (nat i)))"

definition pct_4d :: "nat \<Rightarrow> string" where
  "pct_4d n = (let s = nat_digits n in replicate (4 - length s) (CHR '' '') @ s)"

definition pct_14s :: "string \<Rightarrow> string" where
  "pct_14s s = (let s = c_string s in s @ replicate (14 - length s) (CHR '' ''))"

subsection \<open>Stack bytecode\<close>

definition row_start :: "chunk \<Rightarrow> nat \<Rightarrow> string \<Rightarrow> bool \<Rightarrow> string" where
  "row_start c offset name has_operands =
     append_format (pct_04zu offset @ '' '' @ pct_4d (line_at c offset) @ '' '') @
     (if has_operands then append_format (pct_14s name) else name)"

definition u24_at :: "chunk \<Rightarrow> nat \<Rightarrow> 32 word" where
  "u24_at c offset = get_u24 (take 3 (drop offset (ch_code c)))"

definition function_at :: "heap \<Rightarrow> value \<Rightarrow> function_object option" where
  "function_at h v =
     (case v of VObj a \<Rightarrow> (case obj_at h a of Some (OFunction fo) \<Rightarrow> Some fo | _ \<Rightarrow> None) | _ \<Rightarrow> None)"

text \<open>The \<open>truncated\<close> check, and the row of an instruction whose operand bytes are there.\<close>

definition with_operands :: "chunk \<Rightarrow> nat \<Rightarrow> string \<Rightarrow> nat \<Rightarrow> (unit \<Rightarrow> string \<times> nat) \<Rightarrow> string \<times> nat" where
  "with_operands c offset name operand_bytes row =
     (if offset + 1 + operand_bytes \<le> length (ch_code c) then row ()
      else (row_start c offset name False @ '' <truncated>'' @ [newline], length (ch_code c)))"

definition constant_row :: "heap \<Rightarrow> chunk \<Rightarrow> nat \<Rightarrow> string" where
  "constant_row h c index =
     append_format ('' '' @ nat_digits index @ '' ('') @
     (if index < length (ch_constants c) then constant_text h (ch_constants c ! index) else ''<bad constant>'') @
     '')'' @ [newline]"

text \<open>The rows of the captured variables under a \<open>CLOSURE\<close>.\<close>

fun capture_rows :: "chunk \<Rightarrow> nat \<Rightarrow> nat \<Rightarrow> string \<times> nat" where
  "capture_rows c next 0 = ([], next)"
| "capture_rows c next (Suc count) =
     (if next + 2 > length (ch_code c) then (''     <truncated>'' @ [newline], length (ch_code c))
      else
        let row = append_format (pct_04zu next @ '' '' @ pct_4d (line_at c next) @ '' '' @ pct_14s ''  |'' @ '' '' @
              (if ch_code c ! next \<noteq> 0 then ''local'' else ''upvalue'') @ '' '' @
              nat_digits (unat (ch_code c ! (next + 1))) @ [newline]);
            (rows, after) = capture_rows c (next + 2) count
        in (row @ rows, after))"

definition closure_row :: "heap \<Rightarrow> chunk \<Rightarrow> nat \<Rightarrow> string \<Rightarrow> string \<times> nat" where
  "closure_row h c offset name =
     (let index = unat (u24_at c (offset + 1));
          fn = (if index < length (ch_constants c) then function_at h (ch_constants c ! index) else None);
          head = row_start c offset name True @ append_format ('' '' @ nat_digits index @ '' ('') @
            (if fn = None then ''<bad constant>'' else constant_text h (ch_constants c ! index)) @ '')'' @ [newline]
      in case fn of
           None \<Rightarrow> (head, offset + 4)
         | Some fo \<Rightarrow>
             let (rows, next) = capture_rows c (offset + 4) (fo_upvalue_count fo) in (head @ rows, next))"

definition jump_row :: "chunk \<Rightarrow> nat \<Rightarrow> string \<Rightarrow> bool \<Rightarrow> string \<times> nat" where
  "jump_row c offset name back =
     (let distance = unat (u24_at c (offset + 1)); next = offset + 4;
          target = (if back then (2 ^ 64 + next - distance) mod 2 ^ 64 else next + distance)
      in (row_start c offset name True @ append_format ('' -> '' @ pct_04zu target @ [newline]), next))"

definition disassemble_instruction :: "heap \<Rightarrow> chunk \<Rightarrow> nat \<Rightarrow> string \<times> nat" where
  "disassemble_instruction h c offset =
     (let code = ch_code c; name = byte_name (code ! offset);
          plain = (row_start c offset name False @ [newline], offset + 1);
          byte_row = (\<lambda>_. with_operands c offset name 1 (\<lambda>_. (row_start c offset name True @
             append_format ('' '' @ nat_digits (unat (code ! (offset + 1))) @ [newline]), offset + 2)));
          const_row = (\<lambda>_. with_operands c offset name 3 (\<lambda>_.
            (row_start c offset name True @ constant_row h c (unat (u24_at c (offset + 1))), offset + 4)))
      in case op_of_byte (code ! offset) of
           None \<Rightarrow>
             (row_start c offset ''UNKNOWN'' True @
              append_format ('' '' @ nat_digits (unat (code ! offset)) @ [newline]), offset + 1)
         | Some op \<Rightarrow>
             (case op of
                OpGetLocal \<Rightarrow> byte_row () | OpSetLocal \<Rightarrow> byte_row () | OpGetUpvalue \<Rightarrow> byte_row ()
              | OpSetUpvalue \<Rightarrow> byte_row () | OpCall \<Rightarrow> byte_row ()
              | OpArray \<Rightarrow>
                  with_operands c offset name 3 (\<lambda>_.
                    (row_start c offset name True @
                     append_format ('' '' @ nat_digits (unat (u24_at c (offset + 1))) @ [newline]), offset + 4))
              | OpConst \<Rightarrow> const_row () | OpGetGlobal \<Rightarrow> const_row () | OpSetGlobal \<Rightarrow> const_row ()
              | OpDefineGlobal \<Rightarrow> const_row ()
              | OpJump \<Rightarrow> with_operands c offset name 3 (\<lambda>_. jump_row c offset name False)
              | OpJumpIfFalse \<Rightarrow> with_operands c offset name 3 (\<lambda>_. jump_row c offset name False)
              | OpLoop \<Rightarrow> with_operands c offset name 3 (\<lambda>_. jump_row c offset name True)
              | OpClosure \<Rightarrow> with_operands c offset name 3 (\<lambda>_. closure_row h c offset name)
              | _ \<Rightarrow> plain))"

lemma capture_rows_next: "next \<le> length (ch_code c) \<Longrightarrow> next \<le> snd (capture_rows c next count)"
proof (induction count arbitrary: "next")
  case (Suc count)
  show ?case
  proof (cases "next + 2 \<le> length (ch_code c)")
    case True
    with Suc.IH [OF True] show ?thesis by (simp add: case_prod_beta)
  qed (use Suc.prems in simp)
qed simp

lemma closure_row_next:
  assumes "offset + 4 \<le> length (ch_code c)"
  shows "offset < snd (closure_row h c offset name)"
proof -
  have "offset < snd (capture_rows c (offset + 4) n)" for n
    using capture_rows_next [OF assms, of n] by linarith
  then show ?thesis
    unfolding closure_row_def Let_def by (simp add: case_prod_beta split: option.split)
qed

text \<open>Every row is about at least one byte, so the listing ends.\<close>

lemma disassemble_instruction_next:
  assumes "offset < length (ch_code c)"
  shows "offset < snd (disassemble_instruction h c offset)"
proof -
  have w: "offset < snd (with_operands c offset name n row)" if "offset + 1 + n \<le> length (ch_code c) \<Longrightarrow> offset < snd (row ())"
    for name n row using assms that by (simp add: with_operands_def)
  show ?thesis
    unfolding disassemble_instruction_def Let_def
    by (auto split: option.split opcode.split intro!: w closure_row_next simp: jump_row_def Let_def)
qed

function disassemble_from :: "heap \<Rightarrow> chunk \<Rightarrow> nat \<Rightarrow> string" where
  "disassemble_from h c offset =
     (if offset < length (ch_code c)
      then fst (disassemble_instruction h c offset) @ disassemble_from h c (snd (disassemble_instruction h c offset))
      else [])"
  by pat_completeness auto
termination
  by (relation "measure (\<lambda>(h, c, offset). length (ch_code c) - offset)")
    (use disassemble_instruction_next in \<open>auto intro: diff_less_mono2\<close>)

declare disassemble_from.simps [simp del]

definition chars_at :: "heap \<Rightarrow> addr \<Rightarrow> string" where
  "chars_at h a = (case obj_at h a of Some (OString s) \<Rightarrow> s | _ \<Rightarrow> [])"

definition disassemble_function :: "heap \<Rightarrow> function_object \<Rightarrow> string" where
  "disassemble_function h fo =
     (case fo_name fo of
        Some name \<Rightarrow>
          ''== '' @ chars_at h name @ '' (arity '' @ nat_digits (fo_arity fo) @ '', upvalues '' @
          nat_digits (fo_upvalue_count fo) @ '') =='' @ [newline]
      | None \<Rightarrow> ''== <script> =='' @ [newline]) @
     disassemble_from h (fo_chunk fo) 0"

text \<open>The functions nested in one, depth first, in the order of the constants. The recursion follows
  pointers, so it is on fuel.\<close>

fun disassemble_tree :: "nat \<Rightarrow> heap \<Rightarrow> function_object \<Rightarrow> string \<Rightarrow> (unit, string) outcome" and
  disassemble_nested :: "nat \<Rightarrow> heap \<Rightarrow> value list \<Rightarrow> string \<Rightarrow> (unit, string) outcome" where
  "disassemble_tree 0 h fo out = Timeout"
| "disassemble_tree (Suc n) h fo out =
     disassemble_nested n h (ch_constants (fo_chunk fo))
       (out @ (if out \<noteq> [] then [newline] else []) @ disassemble_function h fo)"
| "disassemble_nested n h [] out = Ok out"
| "disassemble_nested n h (v # vs) out =
     (case function_at h v of
        None \<Rightarrow> disassemble_nested n h vs out
      | Some fo \<Rightarrow> bindo (disassemble_tree n h fo out) (disassemble_nested n h vs))"

definition disassemble :: "nat \<Rightarrow> heap \<Rightarrow> function_object \<Rightarrow> (unit, string) outcome" where
  "disassemble fuel h script = disassemble_tree fuel h script []"

subsection \<open>Register bytecode\<close>

definition reg_text :: "nat \<Rightarrow> string" where
  "reg_text r = CHR ''r'' # nat_digits r"

definition const_text :: "heap \<Rightarrow> reg_chunk \<Rightarrow> nat \<Rightarrow> string" where
  "const_text h c index =
     CHR ''k'' # nat_digits index @ ''('' @
     (if index < length (rc_constants c) then constant_text h (rc_constants c ! index) else ''<bad constant>'') @
     '')''"

definition rk_text :: "heap \<Rightarrow> reg_chunk \<Rightarrow> nat \<Rightarrow> bool \<Rightarrow> string" where
  "rk_text h c operand is_const = (if is_const then const_text h c operand else reg_text operand)"

text \<open>The operands of every instruction whose row has the common form.\<close>

definition reg_operands :: "heap \<Rightarrow> reg_chunk \<Rightarrow> nat \<Rightarrow> instruction \<Rightarrow> regop \<Rightarrow> string" where
  "reg_operands h c next insn shown =
     (let a = unat (insn_a insn); b = unat (insn_b insn); cc = unat (insn_c insn);
          b_const = insn_flags insn AND kFlagBConst \<noteq> 0; c_const = insn_flags insn AND kFlagCConst \<noteq> 0;
          const_row = reg_text a @ '' '' @ const_text h c (unat (insn_bx insn));
          upvalue_row = reg_text a @ '' '' @ nat_digits b;
          binary_row = reg_text a @ '' '' @ rk_text h c b b_const @ '' '' @ rk_text h c cc c_const;
          unary_row = reg_text a @ '' '' @ rk_text h c b b_const;
          target = ''-> '' @ pct_04lld (int next + insn_sbx insn);
          array_row = reg_text a @ '' '' @ reg_text b @ '' '' @ nat_digits cc
      in case shown of
           RgMove \<Rightarrow> reg_text a @ '' '' @ reg_text b
         | RgLoadK \<Rightarrow> const_row
         | RgLoadNil \<Rightarrow> reg_text a | RgLoadTrue \<Rightarrow> reg_text a | RgLoadFalse \<Rightarrow> reg_text a | RgClose \<Rightarrow> reg_text a
         | RgGetGlobal \<Rightarrow> const_row | RgSetGlobal \<Rightarrow> const_row | RgDefineGlobal \<Rightarrow> const_row
         | RgGetUpvalue \<Rightarrow> upvalue_row | RgSetUpvalue \<Rightarrow> upvalue_row
         | RgAdd \<Rightarrow> binary_row | RgSub \<Rightarrow> binary_row | RgMul \<Rightarrow> binary_row | RgDiv \<Rightarrow> binary_row
         | RgMod \<Rightarrow> binary_row | RgEq \<Rightarrow> binary_row | RgNe \<Rightarrow> binary_row | RgLt \<Rightarrow> binary_row
         | RgLe \<Rightarrow> binary_row | RgGt \<Rightarrow> binary_row | RgGe \<Rightarrow> binary_row
         | RgIndexGet \<Rightarrow> binary_row | RgIndexSet \<Rightarrow> binary_row
         | RgNeg \<Rightarrow> unary_row | RgNot \<Rightarrow> unary_row
         | RgReturn \<Rightarrow> rk_text h c b b_const | RgPrint \<Rightarrow> rk_text h c b b_const
         | RgJump \<Rightarrow> target
         | RgJumpIfFalse \<Rightarrow> reg_text a @ '' '' @ target | RgJumpIfTrue \<Rightarrow> reg_text a @ '' '' @ target
         | RgCall \<Rightarrow> reg_text a @ '' '' @ nat_digits b
         | RgArray \<Rightarrow> array_row | RgArrayAppend \<Rightarrow> array_row
         | RgCapture \<Rightarrow> nat_digits a @ '' '' @ nat_digits b
         | _ \<Rightarrow> [])"

fun reg_capture_rows :: "reg_chunk \<Rightarrow> nat \<Rightarrow> nat \<Rightarrow> string \<times> nat" where
  "reg_capture_rows c next 0 = ([], next)"
| "reg_capture_rows c next (Suc count) =
     (if next \<ge> length (rc_code c) then (''     <truncated>'' @ [newline], length (rc_code c))
      else
        let cap = rc_code c ! next;
            row = append_format (pct_04zu next @ '' '' @ pct_4d (reg_line_at c next) @ '' '' @ pct_14s ''  |'' @ '' '' @
              (if insn_a cap \<noteq> 0 then ''local'' else ''upvalue'') @ '' '' @ nat_digits (unat (insn_b cap)) @ [newline]);
            (rows, after) = reg_capture_rows c (next + 1) count
        in (row @ rows, after))"

definition reg_closure_row :: "heap \<Rightarrow> reg_chunk \<Rightarrow> nat \<Rightarrow> instruction \<Rightarrow> string \<Rightarrow> string \<times> nat" where
  "reg_closure_row h c next insn name =
     (let k = unat (insn_bx insn);
          fn = (if k < length (rc_constants c) then function_at h (rc_constants c ! k) else None);
          head = append_format (pct_14s name @ '' '' @ c_string (reg_text (unat (insn_a insn))) @ '' '' @
            c_string (const_text h c k) @ [newline])
      in case fn of
           None \<Rightarrow> (head, next)
         | Some fo \<Rightarrow> let (rows, after) = reg_capture_rows c next (fo_upvalue_count fo) in (head @ rows, after))"

text \<open>The opcode a row shows: a superinstruction is shown as its first half.\<close>

definition shown_op :: "byte \<Rightarrow> byte" where
  "shown_op b = (if is_fused b then fused_first b else b)"

definition disassemble_register_instruction :: "heap \<Rightarrow> reg_chunk \<Rightarrow> nat \<Rightarrow> string \<times> nat" where
  "disassemble_register_instruction h c index =
     (let insn = rc_code c ! index; name = reg_byte_name (insn_op insn); next = index + 1;
          start = append_format (pct_04zu index @ '' '' @ pct_4d (reg_line_at c index) @ '' '');
          row = (\<lambda>operands. (start @ append_format (pct_14s name @ '' '' @ c_string operands) @
            (if 0 < index \<and> is_fused (insn_op (rc_code c ! (index - 1)))
             then ''   ; second half of the row above'' else []) @ [newline], next))
      in case rg_of_byte (shown_op (insn_op insn)) of
           None \<Rightarrow> row []
         | Some RgReturnNil \<Rightarrow> (start @ name @ [newline], next)
         | Some RgClosure \<Rightarrow> (let (rows, after) = reg_closure_row h c next insn name in (start @ rows, after))
         | Some shown \<Rightarrow> row (reg_operands h c next insn shown))"

lemma reg_capture_rows_next: "next \<le> length (rc_code c) \<Longrightarrow> next \<le> snd (reg_capture_rows c next count)"
proof (induction count arbitrary: "next")
  case (Suc count)
  show ?case
  proof (cases "next < length (rc_code c)")
    case True
    with Suc.IH [of "next + 1"] show ?thesis by (simp add: case_prod_beta Let_def)
  qed (use Suc.prems in simp)
qed simp

lemma disassemble_register_instruction_next:
  assumes "index < length (rc_code c)"
  shows "index < snd (disassemble_register_instruction h c index)"
proof -
  have "index < snd (reg_capture_rows c (index + 1) n)" for n
    using reg_capture_rows_next [of "index + 1" c n] assms by simp
  then have "index < snd (reg_closure_row h c (index + 1) insn name)" for insn name
    unfolding reg_closure_row_def Let_def by (simp add: case_prod_beta split: option.split)
  note closure = this
  show ?thesis
  proof (cases "rg_of_byte (shown_op (insn_op (rc_code c ! index)))")
    case (Some op)
    then show ?thesis
      by (cases op) (simp_all add: disassemble_register_instruction_def Let_def case_prod_beta closure del: One_nat_def)
  qed (simp add: disassemble_register_instruction_def Let_def)
qed

function disassemble_register_from :: "heap \<Rightarrow> reg_chunk \<Rightarrow> nat \<Rightarrow> string" where
  "disassemble_register_from h c index =
     (if index < length (rc_code c)
      then fst (disassemble_register_instruction h c index) @
        disassemble_register_from h c (snd (disassemble_register_instruction h c index))
      else [])"
  by pat_completeness auto
termination
  by (relation "measure (\<lambda>(h, c, index). length (rc_code c) - index)")
    (use disassemble_register_instruction_next in \<open>auto intro: diff_less_mono2\<close>)

declare disassemble_register_from.simps [simp del]

definition disassemble_register_function :: "heap \<Rightarrow> function_object \<Rightarrow> string" where
  "disassemble_register_function h fo =
     (case fo_name fo of
        Some name \<Rightarrow>
          ''== '' @ chars_at h name @ '' (arity '' @ nat_digits (fo_arity fo) @ '', upvalues '' @
          nat_digits (fo_upvalue_count fo) @ '', frame '' @ nat_digits (rc_frame_size (fo_reg fo)) @ '') =='' @ [newline]
      | None \<Rightarrow> ''== <script> (frame '' @ nat_digits (rc_frame_size (fo_reg fo)) @ '') =='' @ [newline]) @
     disassemble_register_from h (fo_reg fo) 0"

fun disassemble_register_tree :: "nat \<Rightarrow> heap \<Rightarrow> function_object \<Rightarrow> string \<Rightarrow> (unit, string) outcome" and
  disassemble_register_nested :: "nat \<Rightarrow> heap \<Rightarrow> value list \<Rightarrow> string \<Rightarrow> (unit, string) outcome" where
  "disassemble_register_tree 0 h fo out = Timeout"
| "disassemble_register_tree (Suc n) h fo out =
     disassemble_register_nested n h (rc_constants (fo_reg fo))
       (out @ (if out \<noteq> [] then [newline] else []) @ disassemble_register_function h fo)"
| "disassemble_register_nested n h [] out = Ok out"
| "disassemble_register_nested n h (v # vs) out =
     (case function_at h v of
        None \<Rightarrow> disassemble_register_nested n h vs out
      | Some fo \<Rightarrow> bindo (disassemble_register_tree n h fo out) (disassemble_register_nested n h vs))"

definition disassemble_register :: "nat \<Rightarrow> heap \<Rightarrow> function_object \<Rightarrow> (unit, string) outcome" where
  "disassemble_register fuel h script = disassemble_register_tree fuel h script []"

subsection \<open>Sizes\<close>

record bytecode_size =
  bs_functions :: nat
  bs_instructions :: nat
  bs_code_bytes :: nat
  bs_constants :: nat

definition no_size :: bytecode_size where
  "no_size = \<lparr>bs_functions = 0, bs_instructions = 0, bs_code_bytes = 0, bs_constants = 0\<rparr>"

function count_instructions :: "heap \<Rightarrow> chunk \<Rightarrow> nat \<Rightarrow> nat" where
  "count_instructions h c offset =
     (if offset < length (ch_code c)
      then Suc (count_instructions h c (snd (disassemble_instruction h c offset)))
      else 0)"
  by pat_completeness auto
termination
  by (relation "measure (\<lambda>(h, c, offset). length (ch_code c) - offset)")
    (use disassemble_instruction_next in \<open>auto intro: diff_less_mono2\<close>)

declare count_instructions.simps [simp del]

definition stack_size_of :: "heap \<Rightarrow> function_object \<Rightarrow> bytecode_size \<Rightarrow> bytecode_size" where
  "stack_size_of h fo acc =
     \<lparr>bs_functions = bs_functions acc + 1,
      bs_instructions = bs_instructions acc + count_instructions h (fo_chunk fo) 0,
      bs_code_bytes = bs_code_bytes acc + length (ch_code (fo_chunk fo)),
      bs_constants = bs_constants acc + length (ch_constants (fo_chunk fo))\<rparr>"

definition register_size_of :: "function_object \<Rightarrow> bytecode_size \<Rightarrow> bytecode_size" where
  "register_size_of fo acc =
     \<lparr>bs_functions = bs_functions acc + 1,
      bs_instructions = bs_instructions acc + length (rc_code (fo_reg fo)),
      bs_code_bytes = bs_code_bytes acc + length (rc_code (fo_reg fo)) * 8,
      bs_constants = bs_constants acc + length (rc_constants (fo_reg fo))\<rparr>"

fun add_stack_size :: "nat \<Rightarrow> heap \<Rightarrow> function_object \<Rightarrow> bytecode_size \<Rightarrow> (unit, bytecode_size) outcome" and
  add_stack_sizes :: "nat \<Rightarrow> heap \<Rightarrow> value list \<Rightarrow> bytecode_size \<Rightarrow> (unit, bytecode_size) outcome" where
  "add_stack_size 0 h fo acc = Timeout"
| "add_stack_size (Suc n) h fo acc = add_stack_sizes n h (ch_constants (fo_chunk fo)) (stack_size_of h fo acc)"
| "add_stack_sizes n h [] acc = Ok acc"
| "add_stack_sizes n h (v # vs) acc =
     (case function_at h v of
        None \<Rightarrow> add_stack_sizes n h vs acc
      | Some fo \<Rightarrow> bindo (add_stack_size n h fo acc) (add_stack_sizes n h vs))"

fun add_register_size :: "nat \<Rightarrow> heap \<Rightarrow> function_object \<Rightarrow> bytecode_size \<Rightarrow> (unit, bytecode_size) outcome" and
  add_register_sizes :: "nat \<Rightarrow> heap \<Rightarrow> value list \<Rightarrow> bytecode_size \<Rightarrow> (unit, bytecode_size) outcome" where
  "add_register_size 0 h fo acc = Timeout"
| "add_register_size (Suc n) h fo acc =
     add_register_sizes n h (rc_constants (fo_reg fo)) (register_size_of fo acc)"
| "add_register_sizes n h [] acc = Ok acc"
| "add_register_sizes n h (v # vs) acc =
     (case function_at h v of
        None \<Rightarrow> add_register_sizes n h vs acc
      | Some fo \<Rightarrow> bindo (add_register_size n h fo acc) (add_register_sizes n h vs))"

definition stack_bytecode_size :: "nat \<Rightarrow> heap \<Rightarrow> function_object \<Rightarrow> (unit, bytecode_size) outcome" where
  "stack_bytecode_size fuel h script = add_stack_size fuel h script no_size"

definition register_bytecode_size :: "nat \<Rightarrow> heap \<Rightarrow> function_object \<Rightarrow> (unit, bytecode_size) outcome" where
  "register_bytecode_size fuel h script = add_register_size fuel h script no_size"

end
