(* ===== verification/Jit_Compiler.thy ===== *)
theory Jit_Compiler
  imports Arm64_Emitter Disassembler
begin

text \<open>
  \<open>jit/jit_compiler.h\<close> and \<open>jit_compiler.cpp\<close>: which functions the baseline JIT compiles, and the
  machine code it generates for them. What the compiler knows of memory is its argument \<open>jit_env\<close>:
  where a heap object and the function's code lie, and the offsets it measured in a real array and a
  real closure. A step whose C++ counterpart would be undefined (an index outside the constants, a
  constant of the wrong type, a null \<open>self\<close>) stops with \<open>Undefined\<close>.
\<close>

subsection \<open>What the compiler is told\<close>

record array_layout =
  al_usable :: bool
  al_kind :: "32 word"
  al_begin :: "32 word"
  al_end :: "32 word"

record closure_layout =
  cl_usable :: bool
  cl_kind :: "32 word"
  cl_function :: "32 word"

record jit_env =
  je_array :: array_layout
  je_closure :: closure_layout
  je_pointer :: "addr \<Rightarrow> 64 word"
  je_code :: "64 word"

record self_call =
  sf_function :: function_object
  sf_address :: "64 word"
  sf_global :: "64 word option"

definition kMaxFrameSize :: nat where "kMaxFrameSize = 4096"
definition kMaxSelfCallFrameSize :: nat where "kMaxSelfCallFrameSize = 2047"
definition kFrameBytes :: "32 word" where "kFrameBytes = 24"
definition kFrameClosureOffset :: "32 word" where "kFrameClosureOffset = 0"
definition kFramePcOffset :: "32 word" where "kFramePcOffset = 8"
definition kFrameBaseOffset :: "32 word" where "kFrameBaseOffset = 16"
definition kNestedBailout :: "32 word" where "kNestedBailout = 0xFFFFFFFF"

text \<open>\<open>JitContext\<close>: four pointers or sizes of eight bytes; and two numbers of \<open>ObjKind\<close>.\<close>

definition offset_frames :: "32 word" where "offset_frames = 0"
definition offset_frame_count :: "32 word" where "offset_frame_count = 8"
definition offset_frame_limit :: "32 word" where "offset_frame_limit = 16"
definition offset_register_end :: "32 word" where "offset_register_end = 24"
definition kind_array :: "32 word" where "kind_array = 1"
definition kind_closure :: "32 word" where "kind_closure = 4"

subsection \<open>The whitelist\<close>

type_synonym 'a checked = "(emit_fault, 'a) outcome"

definition constant_of :: "reg_chunk \<Rightarrow> 32 word \<Rightarrow> value checked" where
  "constant_of c k = (if unat k < length (rc_constants c) then Ok (rc_constants c ! unat k) else Error Undefined)"

definition string_constant_at :: "heap \<Rightarrow> value \<Rightarrow> bool checked" where
  "string_constant_at h v =
     (case v of
        VObj a \<Rightarrow>
          (case obj_at h a of Some (OString _) \<Rightarrow> Ok True | Some _ \<Rightarrow> Ok False | None \<Rightarrow> Error Undefined)
      | _ \<Rightarrow> Ok False)"

definition constant_problem :: "heap \<Rightarrow> value \<Rightarrow> bool \<Rightarrow> string option checked" where
  "constant_problem h v operand_of_int_op =
     (case v of
        VInt _ \<Rightarrow> Ok None
      | VFloat _ \<Rightarrow> Ok (Some ''uses a float constant'')
      | VObj _ \<Rightarrow>
          bindo (string_constant_at h v) (\<lambda>str.
            Ok (Some (if str then ''uses a string constant'' else ''uses an object constant'')))
      | _ \<Rightarrow> Ok (if operand_of_int_op then Some ''has a nil or bool constant as an arithmetic operand'' else None))"

definition unfused_op :: "instruction \<Rightarrow> byte" where
  "unfused_op insn = (if is_fused (insn_op insn) then fused_first (insn_op insn) else insn_op insn)"

definition names_self :: "heap \<Rightarrow> value \<Rightarrow> self_call \<Rightarrow> bool checked" where
  "names_self h k self =
     bindo (string_constant_at h k) (\<lambda>str. Ok (str \<and> (case k of VObj a \<Rightarrow> fo_name (sf_function self) = Some a | _ \<Rightarrow> False)))"

fun reads_self :: "heap \<Rightarrow> reg_chunk \<Rightarrow> self_call \<Rightarrow> instruction list \<Rightarrow> bool checked" where
  "reads_self h c self [] = Ok False"
| "reads_self h c self (insn # code) =
     (if unfused_op insn = rg_byte RgGetGlobal
      then bindo (constant_of c (insn_bx insn)) (\<lambda>k. bindo (names_self h k self) (\<lambda>yes.
        if yes then Ok True else reads_self h c self code))
      else reads_self h c self code)"

definition self_call_problem :: "heap \<Rightarrow> jit_env \<Rightarrow> reg_chunk \<Rightarrow> self_call option \<Rightarrow> string option checked" where
  "self_call_problem h env c self =
     (case self of
        None \<Rightarrow> Ok (Some ''calls a function'')
      | Some sf \<Rightarrow>
          if sf_global sf = None then Ok (Some ''calls a function'')
          else if \<not> cl_usable (je_closure env)
          then Ok (Some ''calls itself, and this compiler's ObjClosure layout is not one the JIT reads'')
          else if kMaxSelfCallFrameSize < rc_frame_size c
          then Ok (Some ''calls itself, with more registers than a self-call allows'')
          else bindo (reads_self h c sf (rc_code c)) (\<lambda>yes.
            Ok (if yes then None else Some ''calls a function other than itself'')))"

definition rk_problem :: "heap \<Rightarrow> reg_chunk \<Rightarrow> instruction \<Rightarrow> 32 word \<Rightarrow> byte \<Rightarrow> bool \<Rightarrow> string option checked" where
  "rk_problem h c insn field flag int_op =
     (if insn_flags insn AND flag = 0 then Ok None
      else bindo (constant_of c field) (\<lambda>v. constant_problem h v int_op))"

definition both_rk_problem :: "heap \<Rightarrow> reg_chunk \<Rightarrow> instruction \<Rightarrow> bool \<Rightarrow> string option checked" where
  "both_rk_problem h c insn int_op =
     bindo (rk_problem h c insn (insn_b insn) kFlagBConst int_op) (\<lambda>problem.
       if problem = None then rk_problem h c insn (insn_c insn) kFlagCConst int_op else Ok problem)"

definition instruction_problem :: "heap \<Rightarrow> jit_env \<Rightarrow> reg_chunk \<Rightarrow> self_call option \<Rightarrow> nat \<Rightarrow> instruction \<Rightarrow>
    string option checked" where
  "instruction_problem h env c self i insn =
     (let arith = both_rk_problem h c insn True;
          jump =
            (let target = int i + 1 + insn_sbx insn
             in Ok (if target < 0 \<or> int (length (rc_code c)) \<le> target then Some ''jumps outside the function'' else None));
          global = Ok (Some ''uses a global variable'');
          captured = Ok (Some ''uses a captured variable'');
          closures = Ok (Some ''creates or closes a closure'');
          element =
            (if \<not> al_usable (je_array env)
             then Ok (Some ''uses an array, and this C++ library's std::vector layout is not one the JIT reads'')
             else both_rk_problem h c insn False);
          creates = Ok (Some ''creates an array'');
          fused = Ok (Some ''has a fused opcode the JIT cannot unfuse'')
      in case rg_of_byte (unfused_op insn) of
           None \<Rightarrow> Ok None
         | Some op \<Rightarrow>
             (case op of
                RgMove \<Rightarrow> Ok None | RgLoadNil \<Rightarrow> Ok None | RgLoadTrue \<Rightarrow> Ok None | RgLoadFalse \<Rightarrow> Ok None
              | RgReturnNil \<Rightarrow> Ok None
              | RgLoadK \<Rightarrow> bindo (constant_of c (insn_bx insn)) (\<lambda>v. constant_problem h v False)
              | RgAdd \<Rightarrow> arith | RgSub \<Rightarrow> arith | RgMul \<Rightarrow> arith | RgDiv \<Rightarrow> arith | RgMod \<Rightarrow> arith
              | RgEq \<Rightarrow> arith | RgNe \<Rightarrow> arith | RgLt \<Rightarrow> arith | RgLe \<Rightarrow> arith | RgGt \<Rightarrow> arith | RgGe \<Rightarrow> arith
              | RgNeg \<Rightarrow> rk_problem h c insn (insn_b insn) kFlagBConst True
              | RgReturn \<Rightarrow> rk_problem h c insn (insn_b insn) kFlagBConst False
              | RgJump \<Rightarrow> jump | RgJumpIfFalse \<Rightarrow> jump | RgJumpIfTrue \<Rightarrow> jump
              | RgNot \<Rightarrow> Ok (Some ''uses '!', which is not in the whitelist'')
              | RgGetGlobal \<Rightarrow>
                  (case self of
                     None \<Rightarrow> global
                   | Some sf \<Rightarrow>
                       if sf_global sf = None then global
                       else bindo (constant_of c (insn_bx insn)) (\<lambda>k. bindo (names_self h k sf) (\<lambda>yes.
                         if yes then Ok None else global)))
              | RgSetGlobal \<Rightarrow> global | RgDefineGlobal \<Rightarrow> global
              | RgGetUpvalue \<Rightarrow> captured | RgSetUpvalue \<Rightarrow> captured
              | RgClosure \<Rightarrow> closures | RgCapture \<Rightarrow> closures | RgClose \<Rightarrow> closures
              | RgCall \<Rightarrow> self_call_problem h env c self
              | RgPrint \<Rightarrow> Ok (Some ''prints'')
              | RgIndexGet \<Rightarrow> element | RgIndexSet \<Rightarrow> element
              | RgArray \<Rightarrow> creates | RgArrayAppend \<Rightarrow> creates
              | RgLtJumpIfFalse \<Rightarrow> fused | RgLeJumpIfFalse \<Rightarrow> fused | RgAddJump \<Rightarrow> fused
              | RgModAdd \<Rightarrow> fused | RgDivAdd \<Rightarrow> fused | RgIndexSetAdd \<Rightarrow> fused))"

fun check_from :: "heap \<Rightarrow> jit_env \<Rightarrow> reg_chunk \<Rightarrow> self_call option \<Rightarrow> nat \<Rightarrow> instruction list \<Rightarrow>
    (nat \<times> string) option checked" where
  "check_from h env c self i [] = Ok None"
| "check_from h env c self i (insn # code) =
     bindo (instruction_problem h env c self i insn) (\<lambda>problem.
       case problem of Some reason \<Rightarrow> Ok (Some (i, reason)) | None \<Rightarrow> check_from h env c self (i + 1) code)"

text \<open>\<open>check_whitelist\<close>: the first instruction outside the whitelist, and why.\<close>

definition check_whitelist :: "heap \<Rightarrow> jit_env \<Rightarrow> reg_chunk \<Rightarrow> self_call option \<Rightarrow> (nat \<times> string) option checked" where
  "check_whitelist h env c self =
     (if kMaxFrameSize < rc_frame_size c
      then Ok (Some (0, ''needs '' @ nat_digits (rc_frame_size c) @ '' registers, more than the JIT addresses ('' @
        nat_digits kMaxFrameSize @ '')''))
      else check_from h env c self 0 (rc_code c))"

subsection \<open>Code generation\<close>

text \<open>The machine registers, with the names of the constants of \<open>jit_compiler.cpp\<close>.\<close>

abbreviation (input) jBase :: register where "jBase \<equiv> 0"
abbreviation (input) jIntTag :: register where "jIntTag \<equiv> 1"
abbreviation (input) jIntTagHigh :: register where "jIntTagHigh \<equiv> 2"
abbreviation (input) jFalseBits :: register where "jFalseBits \<equiv> 3"
abbreviation (input) jNilBits :: register where "jNilBits \<equiv> 4"
abbreviation (input) jObjTag :: register where "jObjTag \<equiv> 5"
abbreviation (input) jB :: register where "jB \<equiv> 9"
abbreviation (input) jC :: register where "jC \<equiv> 10"
abbreviation (input) jTmp :: register where "jTmp \<equiv> 11"
abbreviation (input) jResult :: register where "jResult \<equiv> 12"
abbreviation (input) jIndex :: register where "jIndex \<equiv> 10"
abbreviation (input) jArray :: register where "jArray \<equiv> 13"
abbreviation (input) jElements :: register where "jElements \<equiv> 14"
abbreviation (input) jLength :: register where "jLength \<equiv> 15"
abbreviation (input) jSavedBase :: register where "jSavedBase \<equiv> 19"
abbreviation (input) jContext :: register where "jContext \<equiv> 20"

text \<open>Whether an instruction is of an X register (\<open>x\<close>) or of its low half (\<open>w\<close>).\<close>

abbreviation (input) xr :: bool where "xr \<equiv> True"
abbreviation (input) wr :: bool where "wr \<equiv> False"

definition slot_offset :: "32 word \<Rightarrow> 32 word" where
  "slot_offset reg = reg * 8"

text \<open>\<open>CodeGen\<close>: what its constructor works out, and what changes while it runs.\<close>

record codegen_input =
  gi_env :: jit_env
  gi_chunk :: reg_chunk
  gi_self :: "self_call option"
  gi_entry :: label
  gi_labels :: "label list"
  gi_returns :: "nat list"
  gi_calls :: bool
  gi_arrays :: bool

record codegen =
  cg_emitter :: emitter
  cg_exits :: "label option list"
  cg_nested :: "label option"

type_synonym 'a gen = "(codegen, emit_fault, 'a) exec"

definition em :: "'a emit \<Rightarrow> 'a gen" where
  "em m s =
     (case m (cg_emitter s) of
        Ok (x, e) \<Rightarrow> Ok (x, s\<lparr>cg_emitter := e\<rparr>)
      | Error f \<Rightarrow> Error f
      | Timeout \<Rightarrow> Timeout)"

text \<open>Statements one after the other.\<close>

fun steps :: "unit gen list \<Rightarrow> unit gen" where
  "steps [] = xreturn ()"
| "steps (m # ms) = xseq m (steps ms)"

definition undefined_step :: "'a gen" where
  "undefined_step = xstop (\<lambda>_. Undefined)"

definition gen_constant :: "codegen_input \<Rightarrow> 32 word \<Rightarrow> value gen" where
  "gen_constant g k s = (case constant_of (gi_chunk g) k of Ok v \<Rightarrow> Ok (v, s) | Error e \<Rightarrow> Error e | Timeout \<Rightarrow> Timeout)"

definition gen_as_int :: "value \<Rightarrow> int32 gen" where
  "gen_as_int v = (case v of VInt i \<Rightarrow> xreturn i | _ \<Rightarrow> undefined_step)"

definition value_bits :: "jit_env \<Rightarrow> value \<Rightarrow> 64 word" where
  "value_bits env v =
     (case v of
        VNil \<Rightarrow> n_make_nil | VBool b \<Rightarrow> n_make_bool b | VInt i \<Rightarrow> n_make_int i | VFloat d \<Rightarrow> n_make_float d
      | VObj a \<Rightarrow> n_make_obj (je_pointer env a))"

definition the_self :: "codegen_input \<Rightarrow> self_call gen" where
  "the_self g = (case gi_self g of None \<Rightarrow> undefined_step | Some sf \<Rightarrow> xreturn sf)"

definition code_address :: "codegen_input \<Rightarrow> nat \<Rightarrow> 64 word" where
  "code_address g index = je_code (gi_env g) + of_nat (8 * index)"

subsubsection \<open>Exits\<close>

definition load_constants :: "codegen_input \<Rightarrow> unit gen" where
  "load_constants g =
     steps
       [em (em_mov_imm_x jIntTag kIntTag),
        em (em_mov_imm_w jIntTagHigh (ucast (drop_bit 32 kIntTag))),
        em (em_mov_imm_x jFalseBits kFalse),
        em (em_mov_imm_x jNilBits kNil),
        if gi_arrays g \<or> gi_calls g then em (em_mov_imm_x jObjTag kObjTag) else xreturn ()]"

definition epilogue :: "codegen_input \<Rightarrow> unit gen" where
  "epilogue g =
     (if \<not> gi_calls g then xreturn ()
      else steps [em (em_ldp_post xr 29 30 SP 16), em (em_ldp_post xr jSavedBase jContext SP 16)])"

definition exit_with :: "codegen_input \<Rightarrow> nat \<Rightarrow> unit gen" where
  "exit_with g index = steps [epilogue g, em (em_mov_imm_w 0 (of_nat index)), em (em_ret 30)]"

definition nested_exit :: "label gen" where
  "nested_exit =
     xbind (xget cg_nested) (\<lambda>nested.
       case nested of
         Some l \<Rightarrow> xreturn l
       | None \<Rightarrow> xbind (em make_label) (\<lambda>l. xseq (xmod (\<lambda>s. s\<lparr>cg_nested := Some l\<rparr>)) (xreturn l)))"

definition exit_label :: "nat \<Rightarrow> label gen" where
  "exit_label index =
     xbind (xget (\<lambda>s. if index < length (cg_exits s) then Some (cg_exits s ! index) else None)) (\<lambda>found.
       case found of
         None \<Rightarrow> undefined_step
       | Some (Some l) \<Rightarrow> xreturn l
       | Some None \<Rightarrow>
           xbind (em make_label) (\<lambda>l. xseq (xmod (\<lambda>s. s\<lparr>cg_exits := (cg_exits s)[index := Some l]\<rparr>)) (xreturn l)))"

text \<open>A conditional or unconditional branch to the exit of an instruction.\<close>

definition exit_if :: "cond \<Rightarrow> nat \<Rightarrow> unit gen" where
  "exit_if c index = xbind (exit_label index) (\<lambda>l. em (em_b_cond c l))"

definition exit_always :: "nat \<Rightarrow> unit gen" where
  "exit_always index = xbind (exit_label index) (\<lambda>l. em (em_b l))"

definition add_bytes :: "register \<Rightarrow> register \<Rightarrow> 64 word \<Rightarrow> unit gen" where
  "add_bytes d n bytes =
     (if bytes \<le> 4095 then em (em_add_imm xr d n (ucast bytes) False)
      else steps [em (em_mov_imm_x d bytes), em (em_add xr d n d)])"

definition frame_address :: "register \<Rightarrow> int \<Rightarrow> unit gen" where
  "frame_address dst adjust =
     steps
       [em (em_ldr xr 13 jContext offset_frame_count),
        em (em_ldr xr 14 13 0),
        em (em_ldr xr dst jContext offset_frames),
        em (em_mov_imm_x jResult (ucast kFrameBytes)),
        em (em_madd xr dst 14 jResult dst),
        if adjust < 0 then em (em_sub_imm xr dst dst kFrameBytes False) else xreturn ()]"

subsubsection \<open>Operands\<close>

definition int_operand :: "codegen_input \<Rightarrow> nat \<Rightarrow> 32 word \<Rightarrow> bool \<Rightarrow> register \<Rightarrow> unit gen" where
  "int_operand g index field is_constant dst =
     (if is_constant
      then xbind (gen_constant g field) (\<lambda>v. xbind (gen_as_int v) (\<lambda>i. em (em_mov_imm_w dst i)))
      else steps
        [em (em_ldr xr dst jBase (slot_offset field)),
         em (em_lsr xr jTmp dst 32),
         em (em_cmp wr jTmp jIntTagHigh),
         exit_if CNE index])"

definition b_is_const :: "instruction \<Rightarrow> bool" where
  "b_is_const insn \<longleftrightarrow> insn_flags insn AND kFlagBConst \<noteq> 0"

definition c_is_const :: "instruction \<Rightarrow> bool" where
  "c_is_const insn \<longleftrightarrow> insn_flags insn AND kFlagCConst \<noteq> 0"

definition operands_bc :: "codegen_input \<Rightarrow> nat \<Rightarrow> instruction \<Rightarrow> unit gen" where
  "operands_bc g index insn =
     steps
       [int_operand g index (insn_b insn) (b_is_const insn) jB,
        int_operand g index (insn_c insn) (c_is_const insn) jC]"

definition check_divisor :: "codegen_input \<Rightarrow> nat \<Rightarrow> instruction \<Rightarrow> unit gen" where
  "check_divisor g index insn =
     (if \<not> c_is_const insn then xbind (exit_label index) (\<lambda>l. em (em_cbz wr jC l))
      else xbind (gen_constant g (insn_c insn)) (\<lambda>v. xbind (gen_as_int v) (\<lambda>i.
        if i = 0 then exit_always index else xreturn ())))"

definition store_to :: "register \<Rightarrow> 32 word \<Rightarrow> unit gen" where
  "store_to r field = em (em_str xr r jBase (slot_offset field))"

definition load_from :: "register \<Rightarrow> 32 word \<Rightarrow> unit gen" where
  "load_from r field = em (em_ldr xr r jBase (slot_offset field))"

definition store_int_result :: "instruction \<Rightarrow> unit gen" where
  "store_int_result insn = steps [em (em_orr xr jResult jResult jIntTag), store_to jResult (insn_a insn)]"

definition compare :: "codegen_input \<Rightarrow> nat \<Rightarrow> instruction \<Rightarrow> cond \<Rightarrow> unit gen" where
  "compare g index insn c =
     steps
       [operands_bc g index insn,
        em (em_cmp wr jB jC),
        em (em_cset wr jResult c),
        em (em_orr xr jResult jResult jFalseBits),
        store_to jResult (insn_a insn)]"

definition branch_if_falsy :: "register \<Rightarrow> label \<Rightarrow> unit gen" where
  "branch_if_falsy r target =
     steps
       [em (em_cmp xr r jFalseBits), em (em_b_cond CEQ target),
        em (em_cmp xr r jNilBits), em (em_b_cond CEQ target)]"

subsubsection \<open>Arrays\<close>

definition array_operand :: "codegen_input \<Rightarrow> nat \<Rightarrow> 32 word \<Rightarrow> bool \<Rightarrow> bool gen" where
  "array_operand g index field is_constant =
     (if is_constant then xseq (exit_always index) (xreturn False)
      else
        xseq
          (steps
            [load_from jArray field,
             em (em_eor xr jArray jArray jObjTag),
             em (em_lsr xr jTmp jArray 48),
             xbind (exit_label index) (\<lambda>l. em (em_cbnz xr jTmp l)),
             em (em_ldrb jTmp jArray (al_kind (je_array (gi_env g)))),
             em (em_cmp_imm wr jTmp kind_array False),
             exit_if CNE index])
          (xreturn True))"

definition element_bounds :: "codegen_input \<Rightarrow> nat \<Rightarrow> unit gen" where
  "element_bounds g index =
     steps
       [em (em_ldr xr jElements jArray (al_begin (je_array (gi_env g)))),
        em (em_ldr xr jLength jArray (al_end (je_array (gi_env g)))),
        em (em_sub xr jLength jLength jElements),
        em (em_lsr xr jLength jLength 3),
        em (em_cmp xr jIndex jLength),
        exit_if CCS index]"

definition element_index :: "codegen_input \<Rightarrow> nat \<Rightarrow> 32 word \<Rightarrow> bool \<Rightarrow> bool gen" where
  "element_index g index field is_constant =
     (if is_constant
      then xbind (gen_constant g field) (\<lambda>k.
        case k of
          VInt i \<Rightarrow>
            if sint i < 0 then xseq (exit_always index) (xreturn False)
            else xseq (em (em_mov_imm_w jIndex i)) (xseq (element_bounds g index) (xreturn True))
        | _ \<Rightarrow> xseq (exit_always index) (xreturn False))
      else
        xseq (int_operand g index field False jIndex)
          (xseq (em (em_sxtw jIndex jIndex)) (xseq (element_bounds g index) (xreturn True))))"

subsubsection \<open>Self-calls\<close>

text \<open>The checks of a call, before its first write.\<close>

definition call_checks :: "codegen_input \<Rightarrow> self_call \<Rightarrow> 32 word \<Rightarrow> label \<Rightarrow> unit gen" where
  "call_checks g sf a fail =
     steps
       [load_from jB a,
        em (em_eor xr jB jB jObjTag),
        em (em_lsr xr jTmp jB 48),
        em (em_cbnz xr jTmp fail),
        em (em_ldrb jTmp jB (cl_kind (je_closure (gi_env g)))),
        em (em_cmp_imm wr jTmp kind_closure False),
        em (em_b_cond CNE fail),
        em (em_ldr xr jTmp jB (cl_function (je_closure (gi_env g)))),
        em (em_mov_imm_x jResult (sf_address sf)),
        em (em_cmp xr jTmp jResult),
        em (em_b_cond CNE fail),
        em (em_ldr xr 13 jContext offset_frame_count),
        em (em_ldr xr 14 13 0),
        em (em_ldr xr 15 jContext offset_frame_limit),
        em (em_cmp xr 14 15),
        em (em_b_cond CCS fail),
        add_bytes jC jBase (ucast (slot_offset (a + 1))),
        add_bytes jTmp jC (ucast (slot_offset (of_nat (rc_frame_size (gi_chunk g))))),
        em (em_ldr xr 15 jContext offset_register_end),
        em (em_cmp xr jTmp 15),
        em (em_b_cond CHI fail)]"

text \<open>The callee's frame, and its registers above the arguments.\<close>

definition push_callee :: "codegen_input \<Rightarrow> nat \<Rightarrow> unit gen" where
  "push_callee g index =
     steps
       [em (em_ldr xr 15 jContext offset_frames),
        em (em_mov_imm_x jResult (ucast kFrameBytes)),
        em (em_madd xr 15 14 jResult 15),
        em (em_sub_imm xr jTmp 15 kFrameBytes False),
        em (em_mov_imm_x jResult (code_address g (index + 1))),
        em (em_str xr jResult jTmp kFramePcOffset),
        em (em_str xr jB 15 kFrameClosureOffset),
        em (em_mov_imm_x jResult (code_address g 0)),
        em (em_str xr jResult 15 kFramePcOffset),
        em (em_str xr jC 15 kFrameBaseOffset),
        em (em_add_imm xr 14 14 1 False),
        em (em_str xr 14 13 0)]"

fun fill_nil :: "32 word \<Rightarrow> nat \<Rightarrow> unit gen" where
  "fill_nil r 0 = xreturn ()"
| "fill_nil r (Suc n) = xseq (em (em_str xr jNilBits jC (slot_offset r))) (fill_nil (r + 1) n)"

definition clear_callee :: "codegen_input \<Rightarrow> nat \<Rightarrow> unit gen" where
  "clear_callee g arity =
     (let first = of_nat arity :: 32 word; frame_size = of_nat (rc_frame_size (gi_chunk g))
      in if frame_size - first \<le> 8
         then (if first < frame_size then fill_nil first (unat (frame_size - first)) else xreturn ())
         else
           xseq (add_bytes jTmp jC (ucast (slot_offset first)))
             (xseq (add_bytes jResult jC (ucast (slot_offset frame_size)))
               (xbind (em make_label) (\<lambda>loop.
                steps
                  [em (bind_label loop),
                   em (em_str xr jNilBits jTmp 0),
                   em (em_add_imm xr jTmp jTmp 8 False),
                   em (em_cmp xr jTmp jResult),
                   em (em_b_cond CCC loop)]))))"

text \<open>Which exit of the callee it was: one branch for each \<open>RETURN\<close>, to the code at a label of its own.\<close>

fun return_tests :: "nat list \<Rightarrow> label list gen" where
  "return_tests [] = xreturn []"
| "return_tests (r # rs) =
     xbind (em make_label) (\<lambda>l.
     xseq
       (if r \<le> 4095 then em (em_cmp_imm wr jB (of_nat r) False)
        else steps [em (em_mov_imm_w jTmp (of_nat r)), em (em_cmp wr jB jTmp)])
       (xseq (em (em_b_cond CEQ l)) (xbind (return_tests rs) (\<lambda>ls. xreturn (l # ls)))))"

definition return_result :: "codegen_input \<Rightarrow> 32 word \<Rightarrow> instruction \<Rightarrow> unit gen" where
  "return_result g a ret =
     xseq
       (if unfused_op ret = rg_byte RgReturnNil then em (em_mov xr jResult jNilBits)
        else if b_is_const ret
        then xbind (gen_constant g (insn_b ret)) (\<lambda>v. em (em_mov_imm_x jResult (value_bits (gi_env g) v)))
        else load_from jResult (a + 1 + insn_b ret))
       (store_to jResult a)"

fun return_copies :: "codegen_input \<Rightarrow> 32 word \<Rightarrow> label \<Rightarrow> (nat \<times> label) list \<Rightarrow> unit gen" where
  "return_copies g a popped [] = xreturn ()"
| "return_copies g a popped ((r, l) # rest) =
     xseq (em (bind_label l))
       (xseq (if r < length (rc_code (gi_chunk g)) then return_result g a (rc_code (gi_chunk g) ! r) else undefined_step)
         (xseq (if rest = [] then xreturn () else em (em_b popped)) (return_copies g a popped rest)))"

definition after_call :: "codegen_input \<Rightarrow> 32 word \<Rightarrow> unit gen" where
  "after_call g a =
     xseq
       (steps
         [em (em_mov wr jB 0),
          em (em_mov xr jBase jSavedBase),
          load_constants g,
          em (em_adds_imm wr zero_register jB 1 False),
          xbind nested_exit (\<lambda>l. em (em_b_cond CEQ l))])
       (xbind (return_tests (gi_returns g)) (\<lambda>returned.
        xseq
          (steps
            [em (em_lsl xr jTmp jB 3),
             em (em_mov_imm_x jResult (code_address g 0)),
             em (em_add xr jTmp jResult jTmp),
             frame_address 15 (- 1),
             em (em_str xr jTmp 15 kFramePcOffset),
             xbind nested_exit (\<lambda>l. em (em_b l))])
          (xbind (em make_label) (\<lambda>popped.
           xseq (return_copies g a popped (zip (gi_returns g) returned))
             (steps
               [em (bind_label popped),
                em (em_ldr xr 13 jContext offset_frame_count),
                em (em_ldr xr 14 13 0),
                em (em_sub_imm xr 14 14 1 False),
                em (em_str xr 14 13 0)])))))"

definition gen_self_call :: "codegen_input \<Rightarrow> nat \<Rightarrow> instruction \<Rightarrow> unit gen" where
  "gen_self_call g index insn =
     xbind (the_self g) (\<lambda>sf.
       if unat (insn_b insn) \<noteq> fo_arity (sf_function sf) then exit_always index
       else
         xbind (exit_label index) (\<lambda>fail.
         steps
           [call_checks g sf (insn_a insn) fail,
            push_callee g index,
            clear_callee g (fo_arity (sf_function sf)),
            em (em_mov xr jBase jC),
            em (em_mov xr 1 jContext),
            em (em_bl (gi_entry g)),
            after_call g (insn_a insn)]))"

subsubsection \<open>Instructions\<close>

definition jump_target :: "codegen_input \<Rightarrow> nat \<Rightarrow> instruction \<Rightarrow> label gen" where
  "jump_target g index insn =
     (let target = int index + 1 + insn_sbx insn
      in if 0 \<le> target \<and> nat target < length (gi_labels g) then xreturn (gi_labels g ! nat target)
         else undefined_step)"

definition arithmetic :: "codegen_input \<Rightarrow> nat \<Rightarrow> instruction \<Rightarrow> unit gen list \<Rightarrow> unit gen" where
  "arithmetic g i insn ops = steps (operands_bc g i insn # ops @ [store_int_result insn])"

definition gen_index_get :: "codegen_input \<Rightarrow> nat \<Rightarrow> instruction \<Rightarrow> unit gen" where
  "gen_index_get g i insn =
     xbind (array_operand g i (insn_b insn) (b_is_const insn)) (\<lambda>array.
       if \<not> array then xreturn ()
       else xbind (element_index g i (insn_c insn) (c_is_const insn)) (\<lambda>element.
         if \<not> element then xreturn ()
         else steps [em (em_ldr_scaled xr jResult jElements jIndex), store_to jResult (insn_a insn)]))"

definition gen_index_set :: "codegen_input \<Rightarrow> nat \<Rightarrow> instruction \<Rightarrow> unit gen" where
  "gen_index_set g i insn =
     xbind (array_operand g i (insn_a insn) False) (\<lambda>array.
       if \<not> array then xreturn ()
       else xbind (element_index g i (insn_b insn) (b_is_const insn)) (\<lambda>element.
         if \<not> element then xreturn ()
         else steps
           [if c_is_const insn
            then xbind (gen_constant g (insn_c insn)) (\<lambda>v. em (em_mov_imm_x jResult (value_bits (gi_env g) v)))
            else load_from jResult (insn_c insn),
            em (em_str_scaled xr jResult jElements jIndex)]))"

definition gen_op :: "codegen_input \<Rightarrow> nat \<Rightarrow> instruction \<Rightarrow> regop \<Rightarrow> unit gen" where
  "gen_op g i insn op =
     (case op of
        RgMove \<Rightarrow> steps [load_from jB (insn_b insn), store_to jB (insn_a insn)]
      | RgLoadK \<Rightarrow>
          xbind (gen_constant g (insn_bx insn)) (\<lambda>v.
            steps [em (em_mov_imm_x jB (value_bits (gi_env g) v)), store_to jB (insn_a insn)])
      | RgLoadNil \<Rightarrow> store_to jNilBits (insn_a insn)
      | RgLoadFalse \<Rightarrow> store_to jFalseBits (insn_a insn)
      | RgLoadTrue \<Rightarrow> steps [em (em_add_imm xr jB jFalseBits 1 False), store_to jB (insn_a insn)]
      | RgAdd \<Rightarrow> arithmetic g i insn [em (em_add wr jResult jB jC)]
      | RgSub \<Rightarrow> arithmetic g i insn [em (em_sub wr jResult jB jC)]
      | RgMul \<Rightarrow> arithmetic g i insn [em (em_mul wr jResult jB jC)]
      | RgDiv \<Rightarrow> arithmetic g i insn [check_divisor g i insn, em (em_sdiv wr jResult jB jC)]
      | RgMod \<Rightarrow>
          arithmetic g i insn [check_divisor g i insn, em (em_sdiv wr jTmp jB jC), em (em_msub wr jResult jTmp jC jB)]
      | RgNeg \<Rightarrow>
          steps
            [int_operand g i (insn_b insn) (b_is_const insn) jB, em (em_neg wr jResult jB), store_int_result insn]
      | RgEq \<Rightarrow> compare g i insn CEQ
      | RgNe \<Rightarrow> compare g i insn CNE
      | RgLt \<Rightarrow> compare g i insn CLT
      | RgLe \<Rightarrow> compare g i insn CLE
      | RgGt \<Rightarrow> compare g i insn CGT
      | RgGe \<Rightarrow> compare g i insn CGE
      | RgJump \<Rightarrow> xbind (jump_target g i insn) (\<lambda>l. em (em_b l))
      | RgJumpIfFalse \<Rightarrow>
          xseq (load_from jB (insn_a insn)) (xbind (jump_target g i insn) (branch_if_falsy jB))
      | RgJumpIfTrue \<Rightarrow>
          xbind (em make_label) (\<lambda>fall_through.
          xseq (load_from jB (insn_a insn))
            (xseq (branch_if_falsy jB fall_through)
              (xbind (jump_target g i insn) (\<lambda>l. xseq (em (em_b l)) (em (bind_label fall_through))))))
      | RgIndexGet \<Rightarrow> gen_index_get g i insn
      | RgIndexSet \<Rightarrow> gen_index_set g i insn
      | RgGetGlobal \<Rightarrow>
          xbind (the_self g) (\<lambda>sf.
            case sf_global sf of
              None \<Rightarrow> undefined_step
            | Some cell \<Rightarrow>
                steps [em (em_mov_imm_x jTmp cell), em (em_ldr xr jB jTmp 0), store_to jB (insn_a insn)])
      | RgCall \<Rightarrow> gen_self_call g i insn
      | RgReturn \<Rightarrow> exit_with g i
      | RgReturnNil \<Rightarrow> exit_with g i
      | _ \<Rightarrow> xstop (\<lambda>_. EmitError (''jit: no code generation for '' @ reg_opcode_name op)))"

definition gen_instruction :: "codegen_input \<Rightarrow> nat \<Rightarrow> instruction \<Rightarrow> unit gen" where
  "gen_instruction g i insn =
     (case rg_of_byte (unfused_op insn) of
        Some op \<Rightarrow> gen_op g i insn op
      | None \<Rightarrow> xstop (\<lambda>_. EmitError ''jit: no code generation for UNKNOWN''))"

subsubsection \<open>A function\<close>

fun gen_body :: "codegen_input \<Rightarrow> nat \<Rightarrow> instruction list \<Rightarrow> label list \<Rightarrow> nat list gen" where
  "gen_body g i (insn # code) (l # labels) =
     xseq (em (bind_label l))
       (xbind (xget (\<lambda>s. length (em_code (cg_emitter s)))) (\<lambda>start.
        xseq (gen_instruction g i insn) (xbind (gen_body g (i + 1) code labels) (\<lambda>starts. xreturn (start # starts)))))"
| "gen_body g i code labels = xreturn []"

fun gen_exits :: "codegen_input \<Rightarrow> nat \<Rightarrow> label option list \<Rightarrow> unit gen" where
  "gen_exits g i [] = xreturn ()"
| "gen_exits g i (None # exits) = gen_exits g (i + 1) exits"
| "gen_exits g i (Some l # exits) = xseq (em (bind_label l)) (xseq (exit_with g i) (gen_exits g (i + 1) exits))"

record generated_code =
  gc_words :: "32 word list"
  gc_starts :: "nat list"

definition gen_prologue :: "codegen_input \<Rightarrow> unit gen" where
  "gen_prologue g =
     (if \<not> gi_calls g then xreturn ()
      else steps
        [em (em_stp_pre xr jSavedBase jContext SP (- 16)),
         em (em_stp_pre xr 29 30 SP (- 16)),
         em (em_mov xr 29 SP),
         em (em_mov xr jSavedBase jBase),
         em (em_mov xr jContext 1)])"

definition gen_nested :: "codegen_input \<Rightarrow> unit gen" where
  "gen_nested g =
     xbind (xget cg_nested) (\<lambda>nested.
       case nested of
         None \<Rightarrow> xreturn ()
       | Some l \<Rightarrow> steps [em (bind_label l), epilogue g, em (em_mov_imm_w 0 kNestedBailout), em (em_ret 30)])"

definition gen_run :: "codegen_input \<Rightarrow> generated_code gen" where
  "gen_run g =
     xseq (em (bind_label (gi_entry g)))
       (xseq (gen_prologue g)
         (xseq (load_constants g)
           (xbind (gen_body g 0 (rc_code (gi_chunk g)) (gi_labels g)) (\<lambda>starts.
            xbind (xget cg_exits) (\<lambda>exits.
            xseq (gen_exits g 0 exits)
              (xseq (gen_nested g)
                (xseq (em finish)
                  (xget (\<lambda>s. \<lparr>gc_words = em_code (cg_emitter s), gc_starts = starts\<rparr>)))))))))"

fun make_labels :: "nat \<Rightarrow> label list emit" where
  "make_labels 0 = xreturn []"
| "make_labels (Suc n) = xbind make_label (\<lambda>l. xbind (make_labels n) (\<lambda>ls. xreturn (l # ls)))"

text \<open>The constructor of \<open>CodeGen\<close>: \<open>entry_\<close> takes the first label, then every instruction one.\<close>

definition codegen_for :: "jit_env \<Rightarrow> reg_chunk \<Rightarrow> self_call option \<Rightarrow> (codegen_input \<times> codegen) checked" where
  "codegen_for env c self =
     (let ops = map unfused_op (rc_code c)
      in bindo ((xbind make_label (\<lambda>entry. xbind (make_labels (length (rc_code c))) (\<lambda>labels. xreturn (entry, labels)))) new_emitter)
           (\<lambda>((entry, labels), e).
              Ok (\<lparr>gi_env = env, gi_chunk = c, gi_self = self, gi_entry = entry, gi_labels = labels,
                   gi_returns = filter (\<lambda>i. ops ! i = rg_byte RgReturn \<or> ops ! i = rg_byte RgReturnNil) [0..<length ops],
                   gi_calls = rg_byte RgCall \<in> set ops,
                   gi_arrays = rg_byte RgIndexGet \<in> set ops \<or> rg_byte RgIndexSet \<in> set ops\<rparr>,
                  \<lparr>cg_emitter = e, cg_exits = replicate (length (rc_code c)) None, cg_nested = None\<rparr>)))"

definition generate :: "jit_env \<Rightarrow> reg_chunk \<Rightarrow> self_call option \<Rightarrow> generated_code checked" where
  "generate env c self =
     bindo (codegen_for env c self) (\<lambda>(g, s). bindo (gen_run g s) (\<lambda>(code, _). Ok code))"

end
