(* ===== verification/Jit_Fused.thy ===== *)
theory Jit_Fused
  imports Jit_Compiler
begin

text \<open>
  The JIT reads fused code as the code it was before fusing: the whitelist gives the same verdict and
  the generator the same machine code, word for word. Both depend on an instruction only through its
  operand fields and the opcode it had before fusing.
\<close>

subsection \<open>Words that read alike\<close>

definition alike :: "instruction \<Rightarrow> instruction \<Rightarrow> bool" where
  "alike v w \<longleftrightarrow>
     unfused_op v = unfused_op w \<and> insn_a v = insn_a w \<and> insn_b v = insn_b w \<and> insn_c v = insn_c w \<and>
     insn_bx v = insn_bx w \<and> insn_flags v = insn_flags w"

definition alike_chunks :: "reg_chunk \<Rightarrow> reg_chunk \<Rightarrow> bool" where
  "alike_chunks c d \<longleftrightarrow>
     list_all2 alike (rc_code c) (rc_code d) \<and> rc_constants c = rc_constants d \<and> rc_frame_size c = rc_frame_size d"

lemma alike_refl: "alike w w" by (simp add: alike_def)

lemma alike_fields:
  assumes "alike v w"
  shows "unfused_op v = unfused_op w" "insn_a v = insn_a w" "insn_b v = insn_b w" "insn_c v = insn_c w"
    "insn_bx v = insn_bx w" "insn_flags v = insn_flags w" "insn_sbx v = insn_sbx w"
    "b_is_const v = b_is_const w" "c_is_const v = c_is_const w"
  using assms by (simp_all add: alike_def insn_sbx_def b_is_const_def c_is_const_def)

lemma fuse_from_alike: "list_all2 alike (snd (fuse_from code)) code"
proof (induction code rule: fuse_from.induct)
  case (1 w v code)
  have "alike (with_op w (fuse_pair (insn_op w) (insn_op v))) w" if "\<not> is_fused (insn_op w)"
    "fuse_pair (insn_op w) (insn_op v) \<noteq> insn_op w"
    using fuse_pair_cases [of "insn_op w" "insn_op v"] that by (auto simp: alike_def unfused_op_def with_op_fields)
  then show ?case using 1 by (auto simp: case_prod_beta Let_def alike_refl)
qed (auto simp: alike_refl)

lemma fused_alike: "alike_chunks (snd (fuse_superinstructions c)) c"
  by (simp add: fuse_superinstructions_def case_prod_beta alike_chunks_def fuse_from_alike)

subsection \<open>The whitelist\<close>

lemma alike_constant: "rc_constants c = rc_constants d \<Longrightarrow> constant_of c k = constant_of d k"
  by (simp add: constant_of_def)

lemma alike_rk:
  "alike v w \<Longrightarrow> rc_constants c = rc_constants d \<Longrightarrow> rk_problem h c v k f b = rk_problem h d w k f b"
  "alike v w \<Longrightarrow> rc_constants c = rc_constants d \<Longrightarrow> both_rk_problem h c v b = both_rk_problem h d w b"
  by (simp_all add: both_rk_problem_def rk_problem_def alike_fields alike_constant [of c d] cong: if_cong)

lemma alike_reads_self:
  assumes "rc_constants c = rc_constants d" "list_all2 alike code code'"
  shows "reads_self h c self code = reads_self h d self code'"
  using assms(2) by (induction rule: list_all2_induct) (simp_all add: alike_fields alike_constant [OF assms(1)] cong: if_cong)

lemma alike_problem:
  assumes "alike_chunks c d" "alike v w"
  shows "instruction_problem h env c self i v = instruction_problem h env d self i w"
proof -
  have c: "rc_constants c = rc_constants d" "length (rc_code c) = length (rc_code d)"
    "rc_frame_size c = rc_frame_size d" "list_all2 alike (rc_code c) (rc_code d)"
    using assms(1) by (auto simp: alike_chunks_def dest: list_all2_lengthD)
  show ?thesis
    unfolding instruction_problem_def
    by (simp add: alike_fields [OF assms(2)] alike_rk [OF assms(2) c(1)] alike_constant [OF c(1)] c(2,3)
        self_call_problem_def alike_reads_self [OF c(1,4)] Let_def
        cong: if_cong option.case_cong regop.case_cong)
qed

lemma alike_check_from:
  assumes "alike_chunks c d" "list_all2 alike code code'"
  shows "check_from h env c self i code = check_from h env d self i code'"
  using assms(2) by (induction arbitrary: i rule: list_all2_induct) (simp_all add: alike_problem [OF assms(1)])

lemma alike_whitelist: "alike_chunks c d \<Longrightarrow> check_whitelist h env c self = check_whitelist h env d self"
  by (simp add: check_whitelist_def alike_check_from [of c d] alike_chunks_def)

subsection \<open>The generator\<close>

text \<open>Two inputs that differ in the words of the code only.\<close>

definition alike_inputs :: "codegen_input \<Rightarrow> codegen_input \<Rightarrow> bool" where
  "alike_inputs g k \<longleftrightarrow> alike_chunks (gi_chunk g) (gi_chunk k) \<and> g = k\<lparr>gi_chunk := gi_chunk g\<rparr>"

lemma alike_input_fields:
  assumes "alike_inputs g k"
  shows "gi_env g = gi_env k" "gi_self g = gi_self k" "gi_entry g = gi_entry k"
    "gi_labels g = gi_labels k" "gi_returns g = gi_returns k" "gi_calls g = gi_calls k" "gi_arrays g = gi_arrays k"
    "rc_frame_size (gi_chunk g) = rc_frame_size (gi_chunk k)" "length (rc_code (gi_chunk g)) = length (rc_code (gi_chunk k))"
proof -
  have g: "g = k\<lparr>gi_chunk := gi_chunk g\<rparr>" and c: "alike_chunks (gi_chunk g) (gi_chunk k)"
    using assms by (simp_all add: alike_inputs_def)
  show "gi_env g = gi_env k" "gi_self g = gi_self k" "gi_entry g = gi_entry k"
    "gi_labels g = gi_labels k" "gi_returns g = gi_returns k" "gi_calls g = gi_calls k" "gi_arrays g = gi_arrays k"
    by (subst g, simp)+
  show "rc_frame_size (gi_chunk g) = rc_frame_size (gi_chunk k)"
    "length (rc_code (gi_chunk g)) = length (rc_code (gi_chunk k))"
    using c by (auto simp: alike_chunks_def dest: list_all2_lengthD)
qed

lemma alike_gen_constant: "alike_inputs g k \<Longrightarrow> gen_constant g = gen_constant k"
  by (intro ext) (simp add: gen_constant_def alike_inputs_def alike_chunks_def constant_of_def)

lemma alike_parts:
  assumes "alike_inputs g k"
  shows "load_constants g = load_constants k" "epilogue g = epilogue k" "exit_with g = exit_with k"
    "the_self g = the_self k" "code_address g = code_address k" "element_bounds g = element_bounds k"
    "call_checks g = call_checks k" "push_callee g = push_callee k" "clear_callee g = clear_callee k"
    "array_operand g = array_operand k" "gen_prologue g = gen_prologue k" "gen_nested g = gen_nested k"
proof -
  note [simp] = alike_input_fields [OF assms] and [cong] = if_cong option.case_cong
  show load: "load_constants g = load_constants k" by (simp add: load_constants_def)
  show epi [simp]: "epilogue g = epilogue k" by (simp add: epilogue_def)
  show "exit_with g = exit_with k" by (simp add: exit_with_def fun_eq_iff)
  show "the_self g = the_self k" by (simp add: the_self_def)
  show code [simp]: "code_address g = code_address k" by (simp add: code_address_def fun_eq_iff)
  show "element_bounds g = element_bounds k" by (simp add: element_bounds_def fun_eq_iff)
  show "call_checks g = call_checks k" by (simp add: call_checks_def fun_eq_iff)
  show "push_callee g = push_callee k" by (simp add: push_callee_def fun_eq_iff)
  show "clear_callee g = clear_callee k" by (simp add: clear_callee_def fun_eq_iff)
  show "array_operand g = array_operand k" by (simp add: array_operand_def fun_eq_iff)
  show "gen_prologue g = gen_prologue k" by (simp add: gen_prologue_def)
  show "gen_nested g = gen_nested k" by (simp add: gen_nested_def)
qed

lemma alike_operands:
  assumes "alike_inputs g k" "alike v w"
  shows "int_operand g = int_operand k" "operands_bc g i v = operands_bc k i w"
    "check_divisor g i v = check_divisor k i w" "store_int_result v = store_int_result w"
    "element_index g = element_index k" "jump_target g i v = jump_target k i w"
    "return_result g a v = return_result k a w"
proof -
  note [simp] = alike_input_fields [OF assms(1)] alike_gen_constant [OF assms(1)] alike_parts [OF assms(1)]
    alike_fields [OF assms(2)]
  note [cong] = if_cong gvalue.case_cong
  show int [simp]: "int_operand g = int_operand k" by (simp add: int_operand_def fun_eq_iff)
  show "operands_bc g i v = operands_bc k i w" by (simp add: operands_bc_def)
  show "check_divisor g i v = check_divisor k i w" by (simp add: check_divisor_def)
  show "store_int_result v = store_int_result w" by (simp add: store_int_result_def)
  show "element_index g = element_index k" by (intro ext) (simp add: element_index_def)
  show "jump_target g i v = jump_target k i w" by (simp add: jump_target_def)
  show "return_result g a v = return_result k a w" by (simp add: return_result_def)
qed

lemma alike_return_copies:
  assumes "alike_inputs g k"
  shows "return_copies g a popped rs = return_copies k a popped rs"
proof (induction rs)
  case (Cons r rs)
  have "list_all2 alike (rc_code (gi_chunk g)) (rc_code (gi_chunk k))"
    using assms by (simp add: alike_inputs_def alike_chunks_def)
  then have "return_result g a (rc_code (gi_chunk g) ! i) = return_result k a (rc_code (gi_chunk k) ! i)"
    if "i < length (rc_code (gi_chunk k))" for i
    using that alike_operands(7) [OF assms] by (simp add: list_all2_conv_all_nth)
  then show ?case using Cons alike_input_fields [OF assms] by (cases r) (simp cong: if_cong)
qed simp

lemma alike_compare:
  assumes "alike_inputs g k" "alike v w"
  shows "compare g i v c = compare k i w c" "arithmetic g i v ops = arithmetic k i w ops"
  using alike_fields [OF assms(2)] alike_operands [OF assms] by (simp_all add: compare_def arithmetic_def)

lemma alike_self_call:
  assumes "alike_inputs g k" "alike v w"
  shows "gen_self_call g i v = gen_self_call k i w"
proof -
  note [simp] = alike_input_fields [OF assms(1)] alike_parts [OF assms(1)] alike_fields [OF assms(2)]
    alike_return_copies [OF assms(1)]
  have "after_call g = after_call k" by (simp add: after_call_def fun_eq_iff)
  then show ?thesis by (simp add: gen_self_call_def cong: if_cong)
qed

lemma alike_elements:
  assumes "alike_inputs g k" "alike v w"
  shows "gen_index_get g i v = gen_index_get k i w" "gen_index_set g i v = gen_index_set k i w"
  using alike_input_fields(1) [OF assms(1)] alike_gen_constant [OF assms(1)] alike_parts(10) [OF assms(1)]
    alike_operands(5) [OF assms] alike_fields [OF assms(2)]
  by (simp_all add: gen_index_get_def gen_index_set_def cong: if_cong)

lemma alike_gen_op:
  assumes "alike_inputs g k" "alike v w"
  shows "gen_op g i v op = gen_op k i w op"
  using alike_input_fields(1) [OF assms(1)] alike_gen_constant [OF assms(1)] alike_parts(3,4) [OF assms(1)]
    alike_operands [OF assms] alike_fields [OF assms(2)] alike_compare [OF assms] alike_self_call [OF assms]
    alike_elements [OF assms]
  by (cases op) (simp_all add: gen_op_def cong: option.case_cong)

lemma alike_instruction:
  assumes "alike_inputs g k" "alike v w"
  shows "gen_instruction g i v = gen_instruction k i w"
  using alike_gen_op [OF assms] alike_fields(1) [OF assms(2)] by (simp add: gen_instruction_def cong: option.case_cong)

lemma alike_body:
  assumes "alike_inputs g k" "list_all2 alike code code'"
  shows "gen_body g i code ls = gen_body k i code' ls"
  using assms(2)
proof (induction arbitrary: i ls rule: list_all2_induct)
  case (Cons v code w code')
  then show ?case using alike_instruction [OF assms(1) Cons(1)] by (cases ls) simp_all
qed simp

lemma alike_exits: "alike_inputs g k \<Longrightarrow> gen_exits g i es = gen_exits k i es"
  by (induction es arbitrary: i rule: gen_exits.induct) (simp_all add: alike_parts)

lemma alike_run:
  assumes "alike_inputs g k"
  shows "gen_run g = gen_run k"
proof -
  have "list_all2 alike (rc_code (gi_chunk g)) (rc_code (gi_chunk k))"
    using assms by (simp add: alike_inputs_def alike_chunks_def)
  from alike_body [OF assms this] show ?thesis
    using alike_input_fields [OF assms] alike_parts [OF assms] alike_exits [OF assms] by (simp add: gen_run_def)
qed

lemma bindo_assoc: "bindo (bindo m f) k = bindo m (\<lambda>x. bindo (f x) k)"
  by (cases m) simp_all

lemma bindo_same: "(\<And>x. m = Ok x \<Longrightarrow> f x = k x) \<Longrightarrow> bindo m f = bindo m k"
  by (cases m) simp_all

lemma alike_generate:
  assumes "alike_chunks c d"
  shows "generate env c self = generate env d self"
proof -
  have c: "rc_constants c = rc_constants d" "rc_frame_size c = rc_frame_size d" "list_all2 alike (rc_code c) (rc_code d)"
    using assms by (simp_all add: alike_chunks_def)
  have ops: "map unfused_op (rc_code c) = map unfused_op (rc_code d)"
    using c(3) by (induction rule: list_all2_induct) (simp_all add: alike_fields)
  have len: "length (rc_code c) = length (rc_code d)" using c(3) by (rule list_all2_lengthD)
  have same: "codegen_for env c self = bindo (codegen_for env d self) (\<lambda>(g, s). Ok (g\<lparr>gi_chunk := c\<rparr>, s))"
    unfolding codegen_for_def Let_def ops len bindo_assoc by (intro bindo_same) auto
  have run: "gen_run (g\<lparr>gi_chunk := c\<rparr>) = gen_run g" if "codegen_for env d self = Ok (g, s)" for g s
  proof -
    have "gi_chunk g = d" using that by (auto simp: codegen_for_def Let_def bind_simps split: outcome.splits prod.splits)
    then show ?thesis by (intro alike_run) (simp add: alike_inputs_def assms)
  qed
  show ?thesis
    unfolding generate_def same bindo_assoc using run by (intro bindo_same) auto
qed

text \<open>C40. Fusing superinstructions changes nothing for the JIT: a fused function is accepted or rejected
  like the function before fusing, at the same instruction and for the same reason, and the machine
  code generated for the two is the same, word for word.\<close>

theorem jit_ignores_fusing:
  "check_whitelist h env (snd (fuse_superinstructions c)) self = check_whitelist h env c self \<and>
   generate env (snd (fuse_superinstructions c)) self = generate env c self"
  using alike_whitelist [OF fused_alike] alike_generate [OF fused_alike] by blast

end
