(* ===== verification/Jit_Total.thy ===== *)
theory Jit_Total
  imports Arm64_Labels Arm64_Moves Jit_Compiler "HOL-Library.Code_Target_Nat"
begin

text \<open>
  Code generation never goes wrong. From a chunk the whitelist accepted, the generator either produces
  code or stops with an error of the encoder, without an undefined step and without a label left
  unbound; and it always produces code when the registers fit the frame and the code is no longer
  than a conditional branch reaches. The invariant says which labels are open: a branch may only go to
  an open or a bound label, and every open label is bound exactly once.
\<close>

subsection \<open>Errors of the encoder\<close>

text \<open>The longest code, in words, in which every branch of 19 bits reaches every word.\<close>

definition kReach :: nat where "kReach = 262143"

definition arm_error :: "string \<Rightarrow> bool" where
  "arm_error e \<longleftrightarrow> (\<exists>m. e = ''arm64 emitter: '' @ m)"

definition arm_only :: "string + 'a \<Rightarrow> bool" where
  "arm_only r \<longleftrightarrow> (\<forall>e. r = Inl e \<longrightarrow> arm_error e)"

definition encodes :: "string + 'a \<Rightarrow> bool" where
  "encodes r \<longleftrightarrow> (\<exists>x. r = Inr x)"

lemma arm_only_rules:
  "arm_only (arm_fail m)" "arm_only (Inr x)"
  "arm_only r \<Longrightarrow> (\<And>x. arm_only (f x)) \<Longrightarrow> arm_only (sbind r f)"
  "arm_only r \<Longrightarrow> arm_only r' \<Longrightarrow> arm_only (if b then r else r')"
  by (auto simp: arm_only_def arm_error_def arm_fail_def bind_simps)

lemma arm_only_slots:
  "arm_only (zr_slot r)" "arm_only (sp_slot r)" "arm_only (check_range v lo hi what)" "arm_only (branch_field off n)"
  unfolding zr_slot_def sp_slot_def check_range_def branch_field_def Let_def by (intro arm_only_rules)+

lemmas arm_only_all = arm_only_rules arm_only_slots

lemma arm_only_words:
  "arm_only (addsub_reg op sf d n m)" "arm_only (addsub_imm op sf d n i sh)" "arm_only (mul_add su sf d n m a)"
  "arm_only (sdiv_word sf d n m)" "arm_only (logic_reg lop sf d n m)" "arm_only (shift_imm sop sf d n k)"
  "arm_only (sxtw_word d n)" "arm_only (wide_word wop sf d i k)" "arm_only (ldr_str ld sf rt b off)"
  "arm_only (ldrb_word rt b off)" "arm_only (ldr_str_scaled ld sf rt b x)" "arm_only (pair_word ld wb sf t1 t2 b po)"
  "arm_only (ret_word n)" "arm_only (cset_word sf d c)"
  unfolding addsub_reg_def addsub_imm_def mul_add_def sdiv_word_def logic_reg_def shift_imm_def sxtw_word_def
    wide_word_def ldr_str_def ldrb_word_def ldr_str_scaled_def pair_word_def ret_word_def cset_word_def Let_def
    case_prod_beta
  by (intro arm_only_all)+

lemma encodes_rules:
  "encodes (Inr x)" "encodes (zr_slot r) \<longleftrightarrow> r \<noteq> SP" "encodes (sp_slot r) \<longleftrightarrow> r \<noteq> 31"
  "encodes (check_range v lo hi what) \<longleftrightarrow> lo \<le> v \<and> v \<le> hi"
  by (auto simp: encodes_def zr_slot_def sp_slot_def check_range_def arm_fail_def)

lemma encodes_bind: "encodes r \<Longrightarrow> (\<And>x. r = Inr x \<Longrightarrow> encodes (f x)) \<Longrightarrow> encodes (sbind r f)"
  by (auto simp: encodes_def)

lemma encodes_words:
  "d \<noteq> SP \<Longrightarrow> n \<noteq> SP \<Longrightarrow> m \<noteq> SP \<Longrightarrow> encodes (addsub_reg op sf d n m)"
  "d \<noteq> SP \<Longrightarrow> n \<noteq> SP \<Longrightarrow> m \<noteq> SP \<Longrightarrow> encodes (logic_reg lop sf d n m)"
  "d \<noteq> SP \<Longrightarrow> n \<noteq> SP \<Longrightarrow> m \<noteq> SP \<Longrightarrow> encodes (sdiv_word sf d n m)"
  "d \<noteq> SP \<Longrightarrow> n \<noteq> SP \<Longrightarrow> m \<noteq> SP \<Longrightarrow> a \<noteq> SP \<Longrightarrow> encodes (mul_add su sf d n m a)"
  "d \<noteq> SP \<Longrightarrow> n \<noteq> SP \<Longrightarrow> encodes (sxtw_word d n)"
  "n \<noteq> SP \<Longrightarrow> encodes (ret_word n)"
  "d \<noteq> SP \<Longrightarrow> c \<noteq> CAL \<Longrightarrow> encodes (cset_word sf d c)"
  "d \<noteq> SP \<Longrightarrow> n \<noteq> SP \<Longrightarrow> k < (if sf then 64 else 32) \<Longrightarrow> encodes (shift_imm sop sf d n k)"
  "x \<noteq> SP \<Longrightarrow> b \<noteq> 31 \<Longrightarrow> rt \<noteq> SP \<Longrightarrow> encodes (ldr_str_scaled ld sf rt b x)"
  unfolding addsub_reg_def logic_reg_def sdiv_word_def mul_add_def sxtw_word_def ret_word_def cset_word_def
    shift_imm_def ldr_str_scaled_def Let_def case_prod_beta
  by (auto intro!: encodes_bind simp: encodes_rules)

lemma encodes_immediates:
  "i \<le> 4095 \<Longrightarrow> n \<noteq> 31 \<Longrightarrow> d \<noteq> 31 \<or> op \<in> {AsAdds, AsSubs} \<Longrightarrow> d \<noteq> SP \<or> op \<in> {AsAdd, AsSub} \<Longrightarrow>
    encodes (addsub_imm op sf d n i sh)"
  "off \<le> 4095 \<Longrightarrow> b \<noteq> 31 \<Longrightarrow> rt \<noteq> SP \<Longrightarrow> encodes (ldrb_word rt b off)"
  "off mod 8 = 0 \<Longrightarrow> off \<le> 32760 \<Longrightarrow> b \<noteq> 31 \<Longrightarrow> rt \<noteq> SP \<Longrightarrow> encodes (ldr_str ld True rt b off)"
proof -
  assume "i \<le> 4095" "n \<noteq> 31" "d \<noteq> 31 \<or> op \<in> {AsAdds, AsSubs}" "d \<noteq> SP \<or> op \<in> {AsAdd, AsSub}"
  then show "encodes (addsub_imm op sf d n i sh)"
    unfolding addsub_imm_def by (cases op) (auto intro!: encodes_bind simp: encodes_rules word_le_def)
next
  assume "off \<le> 4095" "b \<noteq> 31" "rt \<noteq> SP"
  then show "encodes (ldrb_word rt b off)"
    unfolding ldrb_word_def by (auto intro!: encodes_bind simp: encodes_rules word_le_def)
next
  assume off: "off mod 8 = 0" "off \<le> 32760" and r: "b \<noteq> 31" "rt \<noteq> SP"
  have "uint off \<le> 32760" using off(2) by (simp add: word_le_def)
  then have "uint (off div 8) \<le> 4095" by (simp add: uint_div)
  then have "encodes (check_range (uint (off div 8)) 0 4095 m)" for m by (simp only: encodes_rules uint_ge_0 simp_thms)
  then show "encodes (ldr_str ld True rt b off)"
    unfolding ldr_str_def Let_def if_True using off(1) r by (auto intro!: encodes_bind simp: encodes_rules(1-3))
qed

lemma encodes_pairs:
  "encodes (pair_word True Post True 29 30 SP 16)" "encodes (pair_word True Post True 19 20 SP 16)"
  "encodes (pair_word False Pre True 19 20 SP (- 16))" "encodes (pair_word False Pre True 29 30 SP (- 16))"
  unfolding pair_word_def Let_def if_True by (simp_all add: encodes_rules sp_slot_def zr_slot_def check_range_def)

lemma encodes_branch_field:
  "- (2 ^ (bits - 1)) \<le> d \<Longrightarrow> d < 2 ^ (bits - 1) \<Longrightarrow> encodes (branch_field (d * 4) bits)"
  unfolding branch_field_def by (auto intro!: encodes_bind simp: encodes_rules Let_def)

subsection \<open>The emitter\<close>

text \<open>\<open>open\<close> are the labels that are not bound yet and that branches may wait for.\<close>

definition e_ready :: "label set \<Rightarrow> emitter \<Rightarrow> bool" where
  "e_ready open e \<longleftrightarrow>
     (\<forall>l\<in>open. l < length (em_labels e) \<and> \<not> ls_bound (em_labels e ! l)) \<and>
     (\<forall>l<length (em_labels e).
        (l \<notin> open \<longrightarrow> ls_pending (em_labels e ! l) = []) \<and>
        ls_index (em_labels e ! l) \<le> length (em_code e) \<and>
        (\<forall>p\<in>set (ls_pending (em_labels e ! l)). pd_index p < length (em_code e)))"

definition target :: "label set \<Rightarrow> emitter \<Rightarrow> label \<Rightarrow> bool" where
  "target open e l \<longleftrightarrow> l < length (em_labels e) \<and> (l \<in> open \<or> ls_bound (em_labels e ! l))"

text \<open>An action of the emitter that adds at most \<open>n\<close> words and turns the open labels \<open>op\<close> into \<open>cl\<close>;
  \<open>fits\<close> says that the code is known to fit, and then it does not fail.\<close>

definition e_goes :: "bool \<Rightarrow> label set \<Rightarrow> label set \<Rightarrow> nat \<Rightarrow> emitter \<Rightarrow> 'a emit \<Rightarrow> ('a \<Rightarrow> emitter \<Rightarrow> bool) \<Rightarrow> bool" where
  "e_goes fits op cl n e m Q \<longleftrightarrow>
     (\<exists>x e'. m e = Ok (x, e') \<and> e_ready cl e' \<and> length (em_code e') \<le> length (em_code e) + n \<and>
        length (em_labels e) \<le> length (em_labels e') \<and>
        (\<forall>l<length (em_labels e). ls_bound (em_labels e ! l) \<longrightarrow> ls_bound (em_labels e' ! l)) \<and> Q x e') \<or>
     \<not> fits \<and> (\<exists>msg. m e = Error (EmitError msg) \<and> arm_error msg)"

lemma e_ready_code:
  assumes "e_ready op e" "length (em_code e) \<le> length code"
  shows "e_ready op (e\<lparr>em_code := code\<rparr>)"
  using assms by (fastforce simp: e_ready_def)

lemma e_goes_word:
  assumes "e_ready op e" "arm_only r" "fits \<Longrightarrow> encodes r"
  shows "e_goes fits op op 1 e (emit_word r) (\<lambda>_ _. True)"
proof (cases r)
  case (Inl msg)
  then show ?thesis
    using assms(2,3) by (auto simp: e_goes_def emit_word_def lift_emit_def xbind_def xstop_def encodes_def arm_only_def)
next
  case (Inr w)
  then show ?thesis
    using e_ready_code [OF assms(1), of "em_code e @ [w]"]
    by (auto simp: e_goes_def emit_word_def emit_def lift_emit_def xbind_def xreturn_def xmod_def)
qed

lemma e_goes_label:
  assumes "e_ready op e"
  shows "e_goes fits op (insert (length (em_labels e)) op) 0 e make_label
    (\<lambda>l e'. l = length (em_labels e) \<and> l < length (em_labels e'))"
  using assms by (auto simp: e_goes_def make_label_def xbind_def xmod_def xget_def e_ready_def nth_append less_Suc_eq)

text \<open>Patching a branch, when the code is short enough.\<close>

lemma fixup_fits:
  assumes "i < kReach" "t \<le> kReach"
  shows "encodes (fixup_field i kind t)"
proof -
  have d: "- 262144 \<le> int t - int i" "int t - int i < 262144" using assms by (simp_all add: kReach_def)
  have "encodes (branch_field ((int t - int i) * 4) 26)" "encodes (branch_field ((int t - int i) * 4) 19)"
    by (rule encodes_branch_field; use d in simp)+
  then show ?thesis by (cases kind) (auto simp: fixup_field_def encodes_def)
qed

lemma fixup_arm: "arm_only (fixup_field i kind t)"
  by (cases kind) (auto simp: fixup_field_def Let_def intro!: arm_only_all)

lemma patch_goes:
  assumes "i < length (em_code e)" "fits \<longrightarrow> length (em_code e) \<le> kReach \<and> t \<le> kReach"
  shows "(\<exists>code. patch i kind t e = Ok ((), e\<lparr>em_code := code\<rparr>) \<and> length code = length (em_code e)) \<or>
    \<not> fits \<and> (\<exists>msg. patch i kind t e = Error (EmitError msg) \<and> arm_error msg)"
proof (cases "fixup_field i kind t")
  case (Inl msg)
  have "\<not> fits" using fixup_fits [of i t kind] Inl assms by (auto simp: encodes_def)
  then show ?thesis
    using Inl fixup_arm [of i kind t] by (auto simp: patch_def lift_emit_def xbind_def xstop_def arm_only_def)
next
  case (Inr f)
  then show ?thesis using assms(1) by (auto simp: patch_def lift_emit_def xbind_def xreturn_def or_code_def)
qed

lemma patch_all_goes:
  assumes "\<forall>p\<in>set ps. pd_index p < length (em_code e)" "fits \<longrightarrow> length (em_code e) \<le> kReach \<and> t \<le> kReach"
  shows "(\<exists>code. patch_all t ps e = Ok ((), e\<lparr>em_code := code\<rparr>) \<and> length code = length (em_code e)) \<or>
    \<not> fits \<and> (\<exists>msg. patch_all t ps e = Error (EmitError msg) \<and> arm_error msg)"
  using assms
proof (induction ps arbitrary: e)
  case Nil
  show ?case by (intro disjI1 exI [of _ "em_code e"]) (simp add: xreturn_def)
next
  case (Cons p ps)
  from patch_goes [of "pd_index p" e fits t "pd_kind p"] Cons.prems
  consider code where "patch (pd_index p) (pd_kind p) t e = Ok ((), e\<lparr>em_code := code\<rparr>)" "length code = length (em_code e)"
    | msg where "\<not> fits" "patch (pd_index p) (pd_kind p) t e = Error (EmitError msg)" "arm_error msg" by auto
  then show ?case
  proof cases
    case 1
    have "(\<exists>code'. patch_all t ps (e\<lparr>em_code := code\<rparr>) = Ok ((), e\<lparr>em_code := code\<rparr>\<lparr>em_code := code'\<rparr>) \<and>
        length code' = length (em_code (e\<lparr>em_code := code\<rparr>))) \<or>
      \<not> fits \<and> (\<exists>msg. patch_all t ps (e\<lparr>em_code := code\<rparr>) = Error (EmitError msg) \<and> arm_error msg)"
      by (rule Cons.IH) (use Cons.prems 1(2) in auto)
    then show ?thesis using 1 by (auto simp: xbind_def)
  next
    case 2
    then show ?thesis by (auto simp: xbind_def)
  qed
qed

lemma e_goes_branch:
  assumes e: "e_ready op e" "target op e l" "arm_only r" "fits \<Longrightarrow> encodes r" and len: "fits \<longrightarrow> length (em_code e) + 1 \<le> kReach"
  shows "e_goes fits op op 1 e (branch_to_label r kind l) (\<lambda>_ _. True)"
proof (cases r)
  case (Inl msg)
  then show ?thesis
    using e by (auto simp: e_goes_def branch_to_label_def lift_emit_def xbind_def xstop_def encodes_def arm_only_def)
next
  case (Inr w)
  let ?e = "e\<lparr>em_code := em_code e @ [w]\<rparr>" and ?st = "em_labels e ! l"
  have l: "l < length (em_labels e)" using e(2) by (simp add: target_def)
  have r: "e_ready op ?e" by (rule e_ready_code [OF e(1)]) simp
  have run: "branch_to_label r kind l e =
    (if ls_bound ?st then patch (length (em_code e)) kind (ls_index ?st) ?e
     else set_label l (?st\<lparr>ls_pending := ls_pending ?st @ [\<lparr>pd_index = length (em_code e), pd_kind = kind\<rparr>]\<rparr>) ?e)"
    using l Inr by (simp add: branch_to_label_def lift_emit_def xbind_def xreturn_def emit_def xmod_def xget_def label_state_of_def)
  show ?thesis
  proof (cases "ls_bound ?st")
    case True
    have "ls_index ?st \<le> length (em_code e)" using e(1) l by (simp add: e_ready_def)
    with patch_goes [of "length (em_code e)" ?e fits "ls_index ?st" kind] len
    consider code where "patch (length (em_code e)) kind (ls_index ?st) ?e = Ok ((), ?e\<lparr>em_code := code\<rparr>)" "length code = length (em_code ?e)"
      | msg where "\<not> fits" "patch (length (em_code e)) kind (ls_index ?st) ?e = Error (EmitError msg)" "arm_error msg" by auto
    then show ?thesis
    proof cases
      case 1
      then show ?thesis using run True e_ready_code [OF r, of code] by (auto simp: e_goes_def)
    next
      case 2
      then show ?thesis using run True by (auto simp: e_goes_def)
    qed
  next
    case False
    then have "l \<in> op" using e(2) by (simp add: target_def)
    then have "e_ready op (?e\<lparr>em_labels := (em_labels e)[l := ?st\<lparr>ls_pending := ls_pending ?st @ [\<lparr>pd_index = length (em_code e), pd_kind = kind\<rparr>]\<rparr>]\<rparr>)"
      using r l False by (auto simp: e_ready_def nth_list_update)
    moreover have "ls_bound (em_labels e ! k) \<Longrightarrow> k \<noteq> l" for k using False by auto
    ultimately show ?thesis using run False l by (auto simp: e_goes_def set_label_def xmod_def nth_list_update)
  qed
qed

lemma e_goes_bind:
  assumes e: "e_ready (insert l op) e" "l \<notin> op" and len: "fits \<longrightarrow> length (em_code e) \<le> kReach"
  shows "e_goes fits (insert l op) op 0 e (bind_label l) (\<lambda>_ e'. ls_bound (em_labels e' ! l))"
proof -
  let ?st = "em_labels e ! l"
  have l: "l < length (em_labels e)" "\<not> ls_bound ?st" using e(1) by (simp_all add: e_ready_def)
  have "\<forall>p\<in>set (ls_pending ?st). pd_index p < length (em_code e)" using e(1) l by (simp add: e_ready_def)
  with patch_all_goes [of "ls_pending ?st" e fits "length (em_code e)"] len
  consider code where "patch_all (length (em_code e)) (ls_pending ?st) e = Ok ((), e\<lparr>em_code := code\<rparr>)" "length code = length (em_code e)"
    | msg where "\<not> fits" "patch_all (length (em_code e)) (ls_pending ?st) e = Error (EmitError msg)" "arm_error msg" by auto
  then show ?thesis
  proof cases
    case 1
    let ?e = "e\<lparr>em_code := code, em_labels := (em_labels e)[l := \<lparr>ls_bound = True, ls_index = length (em_code e), ls_pending = []\<rparr>]\<rparr>"
    have run: "bind_label l e = Ok ((), ?e)"
      using 1 l by (simp add: bind_label_def xbind_def label_state_of_def xget_def set_label_def xmod_def)
    have "e_ready op ?e" using e l 1(2) by (auto simp: e_ready_def nth_list_update)
    then show ?thesis using run l 1(2) by (auto simp: e_goes_def nth_list_update)
  next
    case 2
    then show ?thesis using l by (auto simp: e_goes_def bind_label_def xbind_def label_state_of_def xget_def)
  qed
qed

lemma e_goes_finish: "e_ready {} e \<Longrightarrow> e_goes fits {} {} 0 e finish (\<lambda>_ _. True)"
  by (auto simp: e_goes_def finish_def xbind_def xget_def xreturn_def e_ready_def list_all_length)

lemma target_keep:
  assumes "target op e l" "op \<subseteq> cl \<union> {k. ls_bound (em_labels e' ! k)}" "length (em_labels e) \<le> length (em_labels e')"
    "\<forall>l<length (em_labels e). ls_bound (em_labels e ! l) \<longrightarrow> ls_bound (em_labels e' ! l)"
  shows "target cl e' l"
  using assms by (auto simp: target_def)

subsection \<open>The generator\<close>

text \<open>The generator's open labels: \<open>B\<close>, and the exits made so far. \<open>mode\<close> is the number of instructions
  while exits may still be made; at the end, where only \<open>B\<close> counts, it is \<open>None\<close>. \<open>K\<close> are labels known
  to be good targets.\<close>

definition exit_set :: "codegen \<Rightarrow> label set" where
  "exit_set s = {l. Some l \<in> set (cg_exits s)} \<union> {l. cg_nested s = Some l}"

definition opens :: "nat option \<Rightarrow> label set \<Rightarrow> codegen \<Rightarrow> label set" where
  "opens mode B s = (if mode = None then B else B \<union> exit_set s)"

definition apart :: "label set \<Rightarrow> codegen \<Rightarrow> bool" where
  "apart B s \<longleftrightarrow>
     B \<inter> exit_set s = {} \<and> (\<forall>l. cg_nested s = Some l \<longrightarrow> Some l \<notin> set (cg_exits s)) \<and>
     distinct (filter (\<lambda>x. x \<noteq> None) (cg_exits s))"

definition gready :: "nat option \<Rightarrow> label set \<Rightarrow> label set \<Rightarrow> codegen \<Rightarrow> bool" where
  "gready mode B K s \<longleftrightarrow>
     e_ready (opens mode B s) (cg_emitter s) \<and> (\<forall>l\<in>K. target (opens mode B s) (cg_emitter s) l) \<and>
     (\<forall>n. mode = Some n \<longrightarrow> length (cg_exits s) = n \<and> apart B s)"

definition gok :: "bool \<Rightarrow> nat option \<Rightarrow> label set \<Rightarrow> label set \<Rightarrow> label set \<Rightarrow> nat \<Rightarrow> 'a gen \<Rightarrow> ('a \<Rightarrow> bool) \<Rightarrow> bool" where
  "gok fits mode B B' K n m Q \<longleftrightarrow>
     (\<forall>s. gready mode B K s \<and> (fits \<longrightarrow> length (em_code (cg_emitter s)) + n \<le> kReach) \<longrightarrow>
        (\<exists>x t. m s = Ok (x, t) \<and> gready mode B' K t \<and>
           length (em_code (cg_emitter t)) \<le> length (em_code (cg_emitter s)) + n \<and> Q x) \<or>
        \<not> fits \<and> (\<exists>msg. m s = Error (EmitError msg) \<and> arm_error msg))"

lemma gok_return: "Q x \<Longrightarrow> gok fits mode B B K 0 (xreturn x) Q"
  by (auto simp: gok_def xreturn_def)

lemma gok_bind:
  assumes "gok fits mode B B1 K n m Q" "\<And>x. Q x \<Longrightarrow> gok fits mode B1 B2 K n' (k x) R"
  shows "gok fits mode B B2 K (n + n') (xbind m k) R"
  unfolding gok_def
proof (intro allI impI)
  fix s assume s: "gready mode B K s \<and> (fits \<longrightarrow> length (em_code (cg_emitter s)) + (n + n') \<le> kReach)"
  then have "fits \<longrightarrow> length (em_code (cg_emitter s)) + n \<le> kReach" by auto
  with s assms(1) consider x t where "m s = Ok (x, t)" "gready mode B1 K t"
      "length (em_code (cg_emitter t)) \<le> length (em_code (cg_emitter s)) + n" "Q x"
    | msg where "\<not> fits" "m s = Error (EmitError msg)" "arm_error msg"
    unfolding gok_def by meson
  then show "(\<exists>x t. xbind m k s = Ok (x, t) \<and> gready mode B2 K t \<and>
      length (em_code (cg_emitter t)) \<le> length (em_code (cg_emitter s)) + (n + n') \<and> R x) \<or>
    \<not> fits \<and> (\<exists>msg. xbind m k s = Error (EmitError msg) \<and> arm_error msg)"
  proof cases
    case 1
    have "fits \<longrightarrow> length (em_code (cg_emitter t)) + n' \<le> kReach" using s 1(3) by auto
    with assms(2) [OF 1(4)] 1(2) consider y u where "k x t = Ok (y, u)" "gready mode B2 K u"
        "length (em_code (cg_emitter u)) \<le> length (em_code (cg_emitter t)) + n'" "R y"
      | msg where "\<not> fits" "k x t = Error (EmitError msg)" "arm_error msg"
      unfolding gok_def by meson
    then show ?thesis using 1 by cases (auto simp: xbind_def)
  next
    case 2
    then show ?thesis by (auto simp: xbind_def)
  qed
qed

lemma gok_weaken:
  assumes "gok fits mode B B' K n m Q" "n \<le> n'" "\<And>x. Q x \<Longrightarrow> R x"
  shows "gok fits mode B B' K n' m R"
  unfolding gok_def
proof (intro allI impI)
  fix s assume s: "gready mode B K s \<and> (fits \<longrightarrow> length (em_code (cg_emitter s)) + n' \<le> kReach)"
  then have "fits \<longrightarrow> length (em_code (cg_emitter s)) + n \<le> kReach" using assms(2) by auto
  with s assms(1) consider x t where "m s = Ok (x, t)" "gready mode B' K t"
      "length (em_code (cg_emitter t)) \<le> length (em_code (cg_emitter s)) + n" "Q x"
    | msg where "\<not> fits" "m s = Error (EmitError msg)" "arm_error msg"
    unfolding gok_def by meson
  then show "(\<exists>x t. m s = Ok (x, t) \<and> gready mode B' K t \<and>
      length (em_code (cg_emitter t)) \<le> length (em_code (cg_emitter s)) + n' \<and> R x) \<or>
    \<not> fits \<and> (\<exists>msg. m s = Error (EmitError msg) \<and> arm_error msg)"
    using assms(2,3) by cases auto
qed

lemma gok_steps_Nil: "gok fits mode B B K 0 (steps []) (\<lambda>_. True)"
  by (simp add: gok_return)

lemma gok_steps_Cons:
  "gok fits mode B B1 K n m (\<lambda>_. True) \<Longrightarrow> gok fits mode B1 B2 K n' (steps ms) (\<lambda>_. True) \<Longrightarrow>
   gok fits mode B B2 K (n + n') (steps (m # ms)) (\<lambda>_. True)"
  unfolding steps.simps by (rule gok_bind) auto

lemma gok_fewer_targets:
  assumes "\<And>s. gready mode B K s \<Longrightarrow> gready mode B K' s" "gok fits mode B B' K' n m Q" "K \<subseteq> K'"
  shows "gok fits mode B B' K n m Q"
proof -
  have "gready mode B' K t" if "gready mode B' K' t" for t using that assms(3) by (auto simp: gready_def)
  then show ?thesis using assms(1,2) unfolding gok_def by meson
qed

text \<open>Lifting the emitter's actions.\<close>

lemma gok_em:
  assumes "\<And>e op. e_ready (op \<union> B) e \<Longrightarrow> op \<inter> (B \<union> B') = {} \<Longrightarrow> (\<forall>l\<in>K. target (op \<union> B) e l) \<Longrightarrow>
      (fits \<longrightarrow> length (em_code e) + n \<le> kReach) \<Longrightarrow>
      e_goes fits (op \<union> B) (op \<union> B') n e m (\<lambda>x e'. Q x \<and> (\<forall>l\<in>B - B'. ls_bound (em_labels e' ! l)))"
    and B: "B' \<subseteq> B"
  shows "gok fits mode B B' K n (em m) Q"
  unfolding gok_def
proof (intro allI impI)
  fix s assume s: "gready mode B K s \<and> (fits \<longrightarrow> length (em_code (cg_emitter s)) + n \<le> kReach)"
  let ?op = "opens mode B s - B" and ?e = "cg_emitter s"
  have o: "?op \<union> B = opens mode B s" "opens mode B s \<union> B = opens mode B s" by (auto simp: opens_def)
  have "e_goes fits (?op \<union> B) (?op \<union> B') n ?e m (\<lambda>x e'. Q x \<and> (\<forall>l\<in>B - B'. ls_bound (em_labels e' ! l)))"
    by (rule assms(1)) (use s B in \<open>auto simp: gready_def o\<close>)
  then consider x e' where "m ?e = Ok (x, e')" "e_ready (?op \<union> B') e'" "length (em_code e') \<le> length (em_code ?e) + n"
      "length (em_labels ?e) \<le> length (em_labels e')"
      "\<forall>l<length (em_labels ?e). ls_bound (em_labels ?e ! l) \<longrightarrow> ls_bound (em_labels e' ! l)" "Q x"
      "\<forall>l\<in>B - B'. ls_bound (em_labels e' ! l)"
    | msg where "\<not> fits" "m ?e = Error (EmitError msg)" "arm_error msg"
    unfolding e_goes_def by blast
  then show "(\<exists>x t. em m s = Ok (x, t) \<and> gready mode B' K t \<and>
      length (em_code (cg_emitter t)) \<le> length (em_code (cg_emitter s)) + n \<and> Q x) \<or>
    \<not> fits \<and> (\<exists>msg. em m s = Error (EmitError msg) \<and> arm_error msg)"
  proof cases
    case 1
    let ?t = "s\<lparr>cg_emitter := e'\<rparr>"
    have x: "exit_set ?t = exit_set s" "apart B' ?t = apart B' s" by (auto simp: exit_set_def apart_def)
    have a: "apart B' s" "exit_set s \<inter> B = {}" if "mode = Some k" for k
      using s that B by (auto simp: gready_def apart_def)
    have ot: "opens mode B' ?t = ?op \<union> B'" using a(2) B by (auto simp: opens_def x)
    have "target (opens mode B' ?t) e' l" if "l \<in> K" for l
      by (rule target_keep [of "?op \<union> B" "?e"]) (use s that 1 in \<open>auto simp: gready_def o ot\<close>)
    then have "gready mode B' K ?t" using s 1(2) a(1) x by (auto simp: gready_def ot)
    then show ?thesis using 1 by (auto simp: em_def)
  next
    case 2
    then show ?thesis by (auto simp: em_def)
  qed
qed

lemma gok_word:
  assumes "arm_only r" "fits \<Longrightarrow> encodes r"
  shows "gok fits mode B B K 1 (em (emit_word r)) (\<lambda>_. True)"
  by (rule gok_em) (use assms e_goes_word in \<open>auto\<close>)

lemma gok_branch:
  assumes "l \<in> K" "arm_only r" "fits \<Longrightarrow> encodes r"
  shows "gok fits mode B B K 1 (em (branch_to_label r kind l)) (\<lambda>_. True)"
  by (rule gok_em) (use assms e_goes_branch in \<open>auto\<close>)

lemma gok_bind_label:
  assumes "l \<notin> B"
  shows "gok fits mode (insert l B) B K 0 (em (bind_label l)) (\<lambda>_. True)"
proof (rule gok_em)
  fix e op assume e: "e_ready (op \<union> insert l B) e" "op \<inter> (insert l B \<union> B) = {}" "fits \<longrightarrow> length (em_code e) + 0 \<le> kReach"
  have "e_goes fits (insert l (op \<union> B)) (op \<union> B) 0 e (bind_label l) (\<lambda>_ e'. ls_bound (em_labels e' ! l))"
    by (rule e_goes_bind) (use e assms in auto)
  then show "e_goes fits (op \<union> insert l B) (op \<union> B) 0 e (bind_label l)
      (\<lambda>x e'. True \<and> (\<forall>l\<in>insert l B - B. ls_bound (em_labels e' ! l)))"
    using assms by (auto simp: e_goes_def)
qed auto

lemma gok_finish: "gok fits None {} {} K 0 (em finish) (\<lambda>_. True)"
  unfolding gok_def
proof (intro allI impI)
  fix s assume "gready None {} K s \<and> (fits \<longrightarrow> length (em_code (cg_emitter s)) + 0 \<le> kReach)"
  then have s: "gready None {} K s" and e: "e_ready {} (cg_emitter s)" by (simp_all add: gready_def opens_def)
  have "finish (cg_emitter s) = Ok ((), cg_emitter s)"
    using e by (auto simp: finish_def xbind_def xget_def xreturn_def e_ready_def list_all_length)
  then show "(\<exists>x t. em finish s = Ok (x, t) \<and> gready None {} K t \<and>
      length (em_code (cg_emitter t)) \<le> length (em_code (cg_emitter s)) + 0 \<and> True) \<or>
    \<not> fits \<and> (\<exists>msg. em finish s = Error (EmitError msg) \<and> arm_error msg)"
    using s by (simp add: em_def)
qed

text \<open>Making a label: a local one, or the exit of an instruction or of a nested call.\<close>

lemma gok_new_label:
  assumes "\<And>l. l \<notin> B \<Longrightarrow> gok fits mode (insert l B) B' (insert l K) n (k l) Q"
  shows "gok fits mode B B' K n (xbind (em make_label) k) Q"
  unfolding gok_def
proof (intro allI impI)
  fix s assume s: "gready mode B K s \<and> (fits \<longrightarrow> length (em_code (cg_emitter s)) + n \<le> kReach)"
  let ?e = "cg_emitter s"
  let ?l = "length (em_labels ?e)"
  obtain e' where e': "make_label ?e = Ok (?l, e')" "e_ready (insert ?l (opens mode B s)) e'"
    "em_code e' = em_code ?e" "length (em_labels e') = Suc ?l" "\<forall>k<?l. em_labels e' ! k = em_labels ?e ! k"
    using e_goes_label [of "opens mode B s" ?e fits] s
    by (auto simp: e_goes_def gready_def make_label_def xbind_def xmod_def xget_def nth_append)
  let ?t = "s\<lparr>cg_emitter := e'\<rparr>"
  have o: "opens mode (insert ?l B) ?t = insert ?l (opens mode B s)" by (auto simp: opens_def exit_set_def)
  have below: "\<forall>k\<in>opens mode B s. k < ?l" using s by (simp add: gready_def e_ready_def)
  then have new: "?l \<notin> B" "mode \<noteq> None \<Longrightarrow> ?l \<notin> exit_set s"
    by (auto simp: opens_def split: if_splits)
  have "gready mode (insert ?l B) (insert ?l K) ?t"
    using s e' new by (auto simp: gready_def o target_def apart_def exit_set_def)
  moreover have "em make_label s = Ok (?l, ?t)" using e'(1) by (simp add: em_def)
  ultimately show "(\<exists>x t. xbind (em make_label) k s = Ok (x, t) \<and> gready mode B' K t \<and>
      length (em_code (cg_emitter t)) \<le> length (em_code (cg_emitter s)) + n \<and> Q x) \<or>
    \<not> fits \<and> (\<exists>msg. xbind (em make_label) k s = Error (EmitError msg) \<and> arm_error msg)"
    using assms [OF new(1), unfolded gok_def, rule_format, of ?t] s e'(3)
    by (auto simp: xbind_def gready_def)
qed

lemma gok_with_target:
  assumes "gready mode B (insert l K) t" "em_code (cg_emitter t) = em_code (cg_emitter s)"
    and "gok fits mode B B' (insert l K) n (k l) Q" "fits \<longrightarrow> length (em_code (cg_emitter s)) + n \<le> kReach"
    and "m s = Ok (l, t)"
  shows "(\<exists>x t. xbind m k s = Ok (x, t) \<and> gready mode B' K t \<and>
      length (em_code (cg_emitter t)) \<le> length (em_code (cg_emitter s)) + n \<and> Q x) \<or>
    \<not> fits \<and> (\<exists>msg. xbind m k s = Error (EmitError msg) \<and> arm_error msg)"
  using assms(3) [unfolded gok_def, rule_format, of t] assms(1,2,4,5) by (auto simp: xbind_def gready_def)

text \<open>What an exit label that was just made changes.\<close>

lemma new_exit:
  assumes s: "gready (Some N) B K s" and t: "exit_set t = insert (length (em_labels (cg_emitter s))) (exit_set s)"
    "cg_emitter t = (cg_emitter s)\<lparr>em_labels := em_labels (cg_emitter s) @ [\<lparr>ls_bound = False, ls_index = 0, ls_pending = []\<rparr>]\<rparr>"
    "length (cg_exits t) = N" "\<forall>l. cg_nested t = Some l \<longrightarrow> Some l \<notin> set (cg_exits t)"
    "distinct (filter (\<lambda>x. x \<noteq> None) (cg_exits t))"
  shows "gready (Some N) B (insert (length (em_labels (cg_emitter s))) K) t"
proof -
  let ?l = "length (em_labels (cg_emitter s))"
  have o: "opens (Some N) B t = insert ?l (opens (Some N) B s)" by (auto simp: opens_def t(1))
  have e: "e_ready (insert ?l (opens (Some N) B s)) (cg_emitter t)"
    using s by (auto simp: gready_def e_ready_def t(2) nth_append less_Suc_eq)
  have "?l \<notin> B" using s by (auto simp: gready_def opens_def e_ready_def)
  then have "apart B t" using s t by (auto simp: gready_def apart_def)
  then show ?thesis using s e t(3) by (auto simp: gready_def o target_def t(2) nth_append)
qed

lemma exit_labels_below:
  assumes "gready (Some N) B K s" "Some l \<in> set (cg_exits s) \<or> cg_nested s = Some l"
  shows "l < length (em_labels (cg_emitter s))"
  using assms by (auto simp: gready_def e_ready_def opens_def exit_set_def)

lemma distinct_exit_update:
  assumes "distinct (filter (\<lambda>x. x \<noteq> None) xs)" "xs ! i = None" "Some l \<notin> set xs" "i < length xs"
  shows "distinct (filter (\<lambda>x. x \<noteq> None) (xs[i := Some l]))" "Some k \<in> set (xs[i := Some l]) \<longleftrightarrow> k = l \<or> Some k \<in> set xs"
proof -
  have xs: "xs = take i xs @ None # drop (Suc i) xs" using id_take_nth_drop [OF assms(4)] assms(2) by simp
  have u: "xs[i := Some l] = take i xs @ Some l # drop (Suc i) xs" by (rule upd_conv_take_nth_drop [OF assms(4)])
  have "set xs = insert None (set (take i xs) \<union> set (drop (Suc i) xs))" using arg_cong [OF xs, of set] by simp
  then show "Some k \<in> set (xs[i := Some l]) \<longleftrightarrow> k = l \<or> Some k \<in> set xs" unfolding u by auto
  have "Some l \<notin> set (take i xs)" "Some l \<notin> set (drop (Suc i) xs)"
    using assms(3) by (auto dest: in_set_takeD in_set_dropD)
  then show "distinct (filter (\<lambda>x. x \<noteq> None) (xs[i := Some l]))"
    unfolding u using assms(1) by (subst (asm) xs) auto
qed

lemma gok_exit_label:
  assumes i: "i < N" and k: "\<And>l. gok fits (Some N) B B' (insert l K) n (k l) Q"
  shows "gok fits (Some N) B B' K n (xbind (exit_label i) k) Q"
  unfolding gok_def
proof (intro allI impI)
  fix s assume s: "gready (Some N) B K s \<and> (fits \<longrightarrow> length (em_code (cg_emitter s)) + n \<le> kReach)"
  have len: "length (cg_exits s) = N" using s by (simp add: gready_def)
  show "(\<exists>x t. xbind (exit_label i) k s = Ok (x, t) \<and> gready (Some N) B' K t \<and>
      length (em_code (cg_emitter t)) \<le> length (em_code (cg_emitter s)) + n \<and> Q x) \<or>
    \<not> fits \<and> (\<exists>msg. xbind (exit_label i) k s = Error (EmitError msg) \<and> arm_error msg)"
  proof (cases "cg_exits s ! i")
    case (Some l)
    then have "Some l \<in> set (cg_exits s)" using i len by (metis nth_mem)
    then have "gready (Some N) B (insert l K) s"
      using s exit_labels_below [of N B K s l] by (auto simp: gready_def target_def opens_def exit_set_def)
    moreover have "exit_label i s = Ok (l, s)" using Some i len by (simp add: exit_label_def xbind_def xget_def xreturn_def)
    ultimately show ?thesis using s k [of l]
      by (intro gok_with_target [where l = l and t = s and mode = "Some N" and B = B]) auto
  next
    case None
    let ?l = "length (em_labels (cg_emitter s))"
    let ?t = "s\<lparr>cg_emitter := (cg_emitter s)\<lparr>em_labels := em_labels (cg_emitter s) @ [\<lparr>ls_bound = False, ls_index = 0, ls_pending = []\<rparr>]\<rparr>,
      cg_exits := (cg_exits s)[i := Some ?l]\<rparr>"
    have new: "Some ?l \<notin> set (cg_exits s)" "cg_nested s \<noteq> Some ?l"
      using exit_labels_below [of N B K s ?l] s by auto
    have "distinct (filter (\<lambda>x. x \<noteq> None) (cg_exits s))" using s by (simp add: gready_def apart_def)
    note u = distinct_exit_update [OF this None new(1)]
    have set_t: "{l. Some l \<in> set (cg_exits ?t)} = insert ?l {l. Some l \<in> set (cg_exits s)}" using u(2) i len by auto
    have "gready (Some N) B (insert ?l K) ?t"
    proof (rule new_exit)
      show "exit_set ?t = insert ?l (exit_set s)" using set_t by (auto simp: exit_set_def)
      show "distinct (filter (\<lambda>x. x \<noteq> None) (cg_exits ?t))" using u(1) i len by simp
      show "\<forall>l. cg_nested ?t = Some l \<longrightarrow> Some l \<notin> set (cg_exits ?t)"
        using s set_t new(2) by (auto simp: gready_def apart_def)
    qed (use s in \<open>auto simp: gready_def\<close>)
    moreover have "exit_label i s = Ok (?l, ?t)"
      using None i len by (simp add: exit_label_def xbind_def xget_def xreturn_def em_def make_label_def xmod_def)
    ultimately show ?thesis using s k [of ?l]
      by (intro gok_with_target [where l = ?l and t = ?t and mode = "Some N" and B = B]) auto
  qed
qed

lemma gok_nested_exit:
  assumes k: "\<And>l. gok fits (Some N) B B' (insert l K) n (k l) Q"
  shows "gok fits (Some N) B B' K n (xbind nested_exit k) Q"
  unfolding gok_def
proof (intro allI impI)
  fix s assume s: "gready (Some N) B K s \<and> (fits \<longrightarrow> length (em_code (cg_emitter s)) + n \<le> kReach)"
  show "(\<exists>x t. xbind nested_exit k s = Ok (x, t) \<and> gready (Some N) B' K t \<and>
      length (em_code (cg_emitter t)) \<le> length (em_code (cg_emitter s)) + n \<and> Q x) \<or>
    \<not> fits \<and> (\<exists>msg. xbind nested_exit k s = Error (EmitError msg) \<and> arm_error msg)"
  proof (cases "cg_nested s")
    case (Some l)
    then have "gready (Some N) B (insert l K) s"
      using s exit_labels_below [of N B K s l] by (auto simp: gready_def target_def opens_def exit_set_def)
    moreover have "nested_exit s = Ok (l, s)" using Some by (simp add: nested_exit_def xbind_def xget_def xreturn_def)
    ultimately show ?thesis using s k [of l]
      by (intro gok_with_target [where l = l and t = s and mode = "Some N" and B = B]) auto
  next
    case None
    let ?l = "length (em_labels (cg_emitter s))"
    let ?t = "s\<lparr>cg_emitter := (cg_emitter s)\<lparr>em_labels := em_labels (cg_emitter s) @ [\<lparr>ls_bound = False, ls_index = 0, ls_pending = []\<rparr>]\<rparr>,
      cg_nested := Some ?l\<rparr>"
    have new: "Some ?l \<notin> set (cg_exits s)" using exit_labels_below [of N B K s ?l] s by auto
    have "gready (Some N) B (insert ?l K) ?t"
    proof (rule new_exit)
      show "exit_set ?t = insert ?l (exit_set s)" using None by (auto simp: exit_set_def)
    qed (use s new in \<open>auto simp: gready_def apart_def\<close>)
    moreover have "nested_exit s = Ok (?l, ?t)"
      using None by (simp add: nested_exit_def xbind_def xget_def xreturn_def em_def make_label_def xmod_def)
    ultimately show ?thesis using s k [of ?l]
      by (intro gok_with_target [where l = ?l and t = ?t and mode = "Some N" and B = B]) auto
  qed
qed

subsection \<open>The parts of an instruction\<close>

text \<open>What stands for the whitelist's verdict on constants, and for registers a load reaches.\<close>

definition known_constant :: "codegen_input \<Rightarrow> 32 word \<Rightarrow> bool" where
  "known_constant g k \<longleftrightarrow> (\<exists>v. constant_of (gi_chunk g) k = Ok v)"

definition int_constant :: "codegen_input \<Rightarrow> 32 word \<Rightarrow> bool" where
  "int_constant g k \<longleftrightarrow> (\<exists>i. constant_of (gi_chunk g) k = Ok (VInt i))"

definition near :: "32 word \<Rightarrow> bool" where
  "near r \<longleftrightarrow> unat r \<le> 4095"

definition layouts_ok :: "jit_env \<Rightarrow> bool" where
  "layouts_ok env \<longleftrightarrow>
     (al_usable (je_array env) \<longrightarrow>
        al_kind (je_array env) \<le> 4095 \<and> al_begin (je_array env) mod 8 = 0 \<and> al_begin (je_array env) \<le> 32760 \<and>
        al_end (je_array env) mod 8 = 0 \<and> al_end (je_array env) \<le> 32760) \<and>
     (cl_usable (je_closure env) \<longrightarrow>
        cl_kind (je_closure env) \<le> 4095 \<and> cl_function (je_closure env) mod 8 = 0 \<and> cl_function (je_closure env) \<le> 32760)"

lemma slot_near:
  assumes "near f" "rt \<noteq> SP"
  shows "encodes (ldr_str ld True rt 0 (slot_offset f))" "encodes (ldr_str ld True rt 10 (slot_offset f))"
proof -
  have f: "unat f \<le> 4095" using assms(1) by (simp add: near_def)
  have u: "unat (slot_offset f) = unat f * 8" unfolding slot_offset_def using f by (subst unat_mult_lem [THEN iffD1]) auto
  have m: "slot_offset f mod 8 = 0" and o: "slot_offset f \<le> 32760"
    using f u by (simp_all add: word_unat_eq_iff unat_mod word_le_nat_alt)
  show "encodes (ldr_str ld True rt 0 (slot_offset f))" "encodes (ldr_str ld True rt 10 (slot_offset f))"
    by (rule encodes_immediates(3) [OF m o]; simp add: assms(2))+
qed

lemma wide_mov_chunks:
  "(op, imm, sh) \<in> set (mov_chunks m v first is) \<Longrightarrow> imm \<le> 0xFFFF \<and> (sh = 0 \<or> (\<exists>i\<in>set is. sh = 16 * i))"
proof (induction "is" arbitrary: first)
  case (Cons i "is")
  have "chunk16 v i \<le> 0xFFFF" "NOT (chunk16 v i) AND 0xFFFF \<le> 0xFFFF" by (simp_all add: chunk16_def word_and_le1)
  then show ?case using Cons by (auto simp: Let_def split: if_splits)
qed (auto split: if_splits)

lemma gok_wides:
  assumes "\<And>op imm sh. (op, imm, sh) \<in> set ws \<Longrightarrow> encodes (wide_word op sf d imm sh)"
  shows "gok fits mode B B K (length ws) (em (emit_wides sf d ws)) (\<lambda>_. True)"
  using assms
proof (induction ws)
  case Nil
  have "em (emit_wides sf d []) = xreturn ()" by (auto simp: em_def xreturn_def)
  then show ?case by (simp add: gok_return)
next
  case (Cons w ws)
  obtain op imm sh where w: "w = (op, imm, sh)" by (cases w)
  have "em (emit_wides sf d (w # ws)) = xseq (em (emit_word (wide_word op sf d imm sh))) (em (emit_wides sf d ws))"
    unfolding w by (rule ext) (simp add: em_def xbind_def split: outcome.split prod.split)
  moreover have "gok fits mode B B K 1 (em (emit_word (wide_word op sf d imm sh))) (\<lambda>_. True)"
    by (rule gok_word) (simp_all add: arm_only_words Cons.prems w)
  then have "gok fits mode B B K (1 + length ws) (xseq (em (emit_word (wide_word op sf d imm sh))) (em (emit_wides sf d ws))) (\<lambda>_. True)"
    by (rule gok_bind) (rule Cons.IH, simp add: Cons.prems)
  ultimately show ?case by (simp del: emit_wides.simps)
qed

lemma wide_encodes:
  assumes "imm \<le> 0xFFFF" "sh mod 16 = 0" "sh < (if sf then 64 else 32)" "d \<noteq> SP"
  shows "encodes (wide_word op sf d imm sh)"
proof -
  have "uint imm \<le> 0xFFFF" using assms(1) by (simp add: word_le_def)
  then show ?thesis unfolding wide_word_def using assms(2-4) by (auto intro!: encodes_bind simp: encodes_rules)
qed

lemma mov_imm_short: "length (mov_imm_impl n v) \<le> max 1 n"
  using length_filter_le [of _ "[0..<n]"] by (auto simp: mov_imm_impl_def Let_def length_mov_chunks le_max_iff_disj)

lemma gok_mov_w:
  assumes "d \<noteq> SP"
  shows "gok fits mode B B K 2 (em (em_mov_imm_w d v)) (\<lambda>_. True)"
proof -
  have len: "length (mov_imm_impl 2 (ucast v)) \<le> 2" using mov_imm_short [of 2] by (simp add: max_def)
  show ?thesis
    unfolding em_mov_imm_w_def
    by (rule gok_weaken [OF gok_wides len])
      (use assms in \<open>auto intro!: wide_encodes simp: mov_imm_impl_def Let_def dest!: wide_mov_chunks\<close>)
qed

lemma gok_mov_x:
  assumes "d \<noteq> SP"
  shows "gok fits mode B B K 4 (em (em_mov_imm_x d v)) (\<lambda>_. True)"
proof -
  have len: "length (mov_imm_impl 4 v) \<le> 4" using mov_imm_short [of 4] by (simp add: max_def)
  show ?thesis
    unfolding em_mov_imm_x_def
    by (rule gok_weaken [OF gok_wides len])
      (use assms in \<open>auto intro!: wide_encodes simp: mov_imm_impl_def Let_def dest!: wide_mov_chunks\<close>)
qed

lemma gok_constant:
  assumes "known_constant g k" "\<And>v. constant_of (gi_chunk g) k = Ok v \<Longrightarrow> gok fits mode B B' K n (f v) Q"
  shows "gok fits mode B B' K n (xbind (gen_constant g k) f) Q"
proof -
  obtain v where v: "constant_of (gi_chunk g) k = Ok v" using assms(1) by (auto simp: known_constant_def)
  have "xbind (gen_constant g k) f = f v" by (rule ext) (simp add: xbind_def gen_constant_def v)
  then show ?thesis using assms(2) [OF v] by simp
qed

lemma gok_int_constant:
  assumes "int_constant g k" "\<And>i. gok fits mode B B' K n (f i) Q"
  shows "gok fits mode B B' K n (xbind (gen_constant g k) (\<lambda>v. xbind (gen_as_int v) f)) Q"
proof -
  obtain i where v: "constant_of (gi_chunk g) k = Ok (VInt i)" using assms(1) by (auto simp: int_constant_def)
  have "xbind (gen_constant g k) (\<lambda>v. xbind (gen_as_int v) f) = f i"
    by (rule ext) (simp add: xbind_def gen_constant_def v gen_as_int_def xreturn_def)
  then show ?thesis using assms(2) by simp
qed

lemmas em_defs = em_add_def em_sub_def em_adds_def em_subs_def em_add_imm_def em_sub_imm_def em_adds_imm_def
  em_subs_imm_def em_cmp_def em_cmp_imm_def em_neg_def em_madd_def em_msub_def em_mul_def em_sdiv_def em_and_def
  em_orr_def em_eor_def em_tst_def em_lsl_def em_lsr_def em_asr_def em_sxtw_def em_ldr_def em_str_def em_ldrb_def
  em_ldr_scaled_def em_str_scaled_def em_ldp_post_def em_stp_pre_def em_ret_def em_cset_def

lemma gok_mov:
  assumes "d \<noteq> SP" "n \<noteq> SP"
  shows "gok fits mode B B K 1 (em (em_mov sf d n)) (\<lambda>_. True)"
proof -
  have eq: "em_mov sf d n = emit_word (logic_reg LgOrr sf d zero_register n)" using assms by (simp add: em_mov_def)
  show ?thesis unfolding eq by (rule gok_word) (use assms in \<open>simp_all add: arm_only_words encodes_words\<close>)
qed

lemma gok_mov_sp: "gok fits mode B B K 1 (em (em_mov sf 29 SP)) (\<lambda>_. True)"
  unfolding em_mov_def simp_thms if_True by (rule gok_word) (simp_all add: arm_only_words encodes_immediates)

lemma gok_b: "l \<in> K \<Longrightarrow> gok fits mode B B K 1 (em (em_b l)) (\<lambda>_. True)"
  "l \<in> K \<Longrightarrow> gok fits mode B B K 1 (em (em_bl l)) (\<lambda>_. True)"
  "l \<in> K \<Longrightarrow> gok fits mode B B K 1 (em (em_b_cond c l)) (\<lambda>_. True)"
  unfolding em_b_def em_bl_def em_b_cond_def by (rule gok_branch; simp add: arm_only_all encodes_rules)+

lemma gok_cbz:
  assumes "l \<in> K" "r \<noteq> SP"
  shows "gok fits mode B B K 1 (em (em_cbz sf r l)) (\<lambda>_. True)" "gok fits mode B B K 1 (em (em_cbnz sf r l)) (\<lambda>_. True)"
  unfolding em_cbz_def em_cbnz_def cbz_label_def
  by (rule gok_branch; use assms in \<open>auto intro!: arm_only_all encodes_bind simp: encodes_rules\<close>)+

lemma gok_if:
  "(b \<Longrightarrow> gok fits mode B B' K n m Q) \<Longrightarrow> (\<not> b \<Longrightarrow> gok fits mode B B' K n m' Q) \<Longrightarrow>
   gok fits mode B B' K n (if b then m else m') Q"
  by simp

lemma gok_seq:
  "gok fits mode B B1 K n m (\<lambda>_. True) \<Longrightarrow> gok fits mode B1 B2 K n' k Q \<Longrightarrow> gok fits mode B B2 K (n + n') (xseq m k) Q"
  by (rule gok_bind)

lemma gok_nothing: "gok fits mode B B K 0 (xreturn ()) (\<lambda>_. True)"
  by (simp add: gok_return)

lemmas gok_intros = gok_steps_Cons gok_steps_Nil gok_word gok_mov_x gok_mov_w gok_mov gok_seq

lemmas gok_side = arm_only_words encodes_words encodes_immediates encodes_pairs slot_near

lemma gok_load_constants: "gok fits mode B B K 18 (load_constants g) (\<lambda>_. True)"
proof -
  have tag: "gok fits mode B B K 4 (if gi_arrays g \<or> gi_calls g then em (em_mov_imm_x 5 kObjTag) else xreturn ()) (\<lambda>_. True)"
    by (rule gok_if) ((rule gok_mov_x, simp) | (rule gok_weaken [OF gok_nothing]; simp))+
  show ?thesis
    unfolding load_constants_def by (rule gok_weaken) (rule gok_intros tag | simp add: gok_side)+
qed

lemma gok_epilogue: "gok fits mode B B K 2 (epilogue g) (\<lambda>_. True)"
  unfolding epilogue_def em_defs
  by (rule gok_if, (rule gok_weaken [OF gok_nothing]; simp), rule gok_weaken) (rule gok_intros | simp add: gok_side)+

lemma gok_exit_with: "gok fits mode B B K 5 (exit_with g i) (\<lambda>_. True)"
  unfolding exit_with_def em_defs
  by (rule gok_weaken) (rule gok_intros gok_epilogue | simp add: gok_side)+

lemma gok_exits:
  assumes "i < N"
  shows "gok fits (Some N) B B K 1 (exit_if c i) (\<lambda>_. True)" "gok fits (Some N) B B K 1 (exit_always i) (\<lambda>_. True)"
    "r \<noteq> SP \<Longrightarrow> gok fits (Some N) B B K 1 (xbind (exit_label i) (\<lambda>l. em (em_cbz sf r l))) (\<lambda>_. True)"
    "r \<noteq> SP \<Longrightarrow> gok fits (Some N) B B K 1 (xbind (exit_label i) (\<lambda>l. em (em_cbnz sf r l))) (\<lambda>_. True)"
  unfolding exit_if_def exit_always_def
  by (rule gok_exit_label [OF assms]; (rule gok_b gok_cbz; simp))+

lemma ucast_small:
  assumes "bytes \<le> (4095 :: 64 word)"
  shows "(ucast bytes :: 32 word) \<le> 4095"
proof -
  have "unat bytes \<le> 4095" using assms by (simp add: word_le_nat_alt)
  then show ?thesis by (simp add: word_le_nat_alt unsigned_ucast_eq take_bit_nat_eq_self)
qed

lemma gok_add_bytes:
  assumes "d \<noteq> SP" "n \<noteq> SP" "d \<noteq> 31" "n \<noteq> 31"
  shows "gok fits mode B B K 5 (add_bytes d n bytes) (\<lambda>_. True)"
  unfolding add_bytes_def em_defs
  by (rule gok_if; rule gok_weaken) (rule gok_intros | simp add: gok_side ucast_small assms)+

lemma gok_frame_address:
  assumes "d \<noteq> SP" "d \<noteq> 31"
  shows "gok fits mode B B K 9 (frame_address d adj) (\<lambda>_. True)"
proof -
  have adj: "gok fits mode B B K 1 (if adj < 0 then em (emit_word (addsub_imm AsSub True d d kFrameBytes False)) else xreturn ()) (\<lambda>_. True)"
    by (rule gok_if) ((rule gok_word; simp add: gok_side kFrameBytes_def assms) | (rule gok_weaken [OF gok_nothing]; simp))+
  show ?thesis
    unfolding frame_address_def em_defs
    by (rule gok_weaken) (rule gok_intros adj | simp add: gok_side offset_frame_count_def offset_frames_def assms)+
qed

text \<open>Operands. A register operand of an accepted instruction is near when the registers fit.\<close>

lemma gok_slots:
  assumes "fits \<Longrightarrow> near f" "r \<noteq> SP"
  shows "gok fits mode B B K 1 (load_from r f) (\<lambda>_. True)" "gok fits mode B B K 1 (store_to r f) (\<lambda>_. True)"
  unfolding load_from_def store_to_def em_defs by (rule gok_word; simp add: gok_side assms)+

lemma gok_int_operand:
  assumes "i < N" "d \<noteq> SP" "con \<Longrightarrow> int_constant g f" "fits \<Longrightarrow> \<not> con \<Longrightarrow> near f"
  shows "gok fits (Some N) B B K 4 (int_operand g i f con d) (\<lambda>_. True)"
proof (cases con)
  case True
  show ?thesis
    unfolding int_operand_def if_P [OF True]
    by (rule gok_weaken, rule gok_int_constant [OF assms(3) [OF True]], rule gok_mov_w) (simp_all add: assms(2))
next
  case False
  show ?thesis
    unfolding int_operand_def if_not_P [OF False] em_defs
    by (rule gok_weaken) (rule gok_intros gok_exits [OF assms(1)] | simp add: gok_side assms(2) assms(4) [OF _ False])+
qed

text \<open>The operands of an instruction that the whitelist accepted.\<close>

definition int_operands :: "bool \<Rightarrow> codegen_input \<Rightarrow> instruction \<Rightarrow> bool" where
  "int_operands fits g insn \<longleftrightarrow>
     (b_is_const insn \<longrightarrow> int_constant g (insn_b insn)) \<and> (c_is_const insn \<longrightarrow> int_constant g (insn_c insn)) \<and>
     (fits \<longrightarrow> (\<not> b_is_const insn \<longrightarrow> near (insn_b insn)) \<and> (\<not> c_is_const insn \<longrightarrow> near (insn_c insn)))"

lemma gok_operands_bc:
  assumes "i < N" "int_operands fits g insn"
  shows "gok fits (Some N) B B K 8 (operands_bc g i insn) (\<lambda>_. True)"
  unfolding operands_bc_def
  by (rule gok_weaken, rule gok_steps_Cons [OF gok_int_operand gok_steps_Cons [OF gok_int_operand gok_steps_Nil]])
    (use assms in \<open>auto simp: int_operands_def\<close>)

lemma gok_check_divisor:
  assumes "i < N" "int_operands fits g insn"
  shows "gok fits (Some N) B B K 1 (check_divisor g i insn) (\<lambda>_. True)"
proof (cases "c_is_const insn")
  case True
  then have "int_constant g (insn_c insn)" using assms(2) by (simp add: int_operands_def)
  then show ?thesis
    unfolding check_divisor_def using True
    by (simp del: One_nat_def)
      (rule gok_int_constant, assumption, rule gok_if; (rule gok_exits [OF assms(1)] | (rule gok_weaken [OF gok_nothing]; simp)))
next
  case False
  then show ?thesis
    unfolding check_divisor_def by (simp add: gok_exits(3) [OF assms(1)] del: One_nat_def)
qed

lemma gok_store_int_result:
  assumes "fits \<Longrightarrow> near (insn_a insn)"
  shows "gok fits mode B B K 2 (store_int_result insn) (\<lambda>_. True)"
  unfolding store_int_result_def em_defs
  by (rule gok_weaken) (rule gok_intros gok_slots | simp add: gok_side assms)+

lemma gok_compare:
  assumes "i < N" "int_operands fits g insn" "fits \<Longrightarrow> near (insn_a insn)" "c \<noteq> CAL"
  shows "gok fits (Some N) B B K 12 (compare g i insn c) (\<lambda>_. True)"
  unfolding compare_def em_defs
  by (rule gok_weaken) (rule gok_intros gok_slots gok_operands_bc [OF assms(1,2)] | simp add: gok_side assms)+

lemma gok_arithmetic:
  assumes "i < N" "int_operands fits g insn" "fits \<Longrightarrow> near (insn_a insn)"
    "\<And>n. gok fits (Some N) B B K n (steps [store_int_result insn]) (\<lambda>_. True) \<Longrightarrow>
      gok fits (Some N) B B K (3 + n) (steps (ops @ [store_int_result insn])) (\<lambda>_. True)"
  shows "gok fits (Some N) B B K 13 (arithmetic g i insn ops) (\<lambda>_. True)"
proof -
  have "gok fits (Some N) B B K (2 + 0) (steps [store_int_result insn]) (\<lambda>_. True)"
    by (rule gok_steps_Cons [OF gok_store_int_result gok_steps_Nil]) (rule assms(3))
  from gok_steps_Cons [OF gok_operands_bc [OF assms(1,2)] assms(4) [OF this]]
  show ?thesis unfolding arithmetic_def by (rule gok_weaken) simp_all
qed

lemma gok_branch_if_falsy:
  assumes "l \<in> K" "r \<noteq> SP"
  shows "gok fits mode B B K 4 (branch_if_falsy r l) (\<lambda>_. True)"
  unfolding branch_if_falsy_def em_defs
  by (rule gok_weaken) (rule gok_intros gok_b [OF assms(1)] | simp add: gok_side assms)+

text \<open>Array elements.\<close>

definition array_ok :: "bool \<Rightarrow> codegen_input \<Rightarrow> bool" where
  "array_ok fits g \<longleftrightarrow>
     (fits \<longrightarrow> al_kind (je_array (gi_env g)) \<le> 4095 \<and> al_begin (je_array (gi_env g)) mod 8 = 0 \<and>
        al_begin (je_array (gi_env g)) \<le> 32760 \<and> al_end (je_array (gi_env g)) mod 8 = 0 \<and>
        al_end (je_array (gi_env g)) \<le> 32760)"

lemma gok_array_operand:
  assumes "i < N" "array_ok fits g" "fits \<Longrightarrow> \<not> con \<Longrightarrow> near f"
  shows "gok fits (Some N) B B K 7 (array_operand g i f con) (\<lambda>_. True)"
proof (cases con)
  case True
  show ?thesis
    unfolding array_operand_def if_P [OF True]
    by (rule gok_weaken, rule gok_seq [OF gok_exits(2) [OF assms(1)] gok_return]) simp_all
next
  case False
  have "gok fits (Some N) B B K 7
    (steps [load_from 13 f, em (emit_word (logic_reg LgEor True 13 13 5)), em (emit_word (shift_imm ShLsr True 11 13 48)),
      xbind (exit_label i) (\<lambda>l. em (em_cbnz True 11 l)),
      em (emit_word (ldrb_word 11 13 (al_kind (je_array (gi_env g))))), em (emit_word (addsub_imm AsSubs False 31 11 kind_array False)),
      exit_if CNE i]) (\<lambda>_. True)"
    using assms(2)
    by - (rule gok_weaken, (rule gok_intros gok_slots gok_exits [OF assms(1)] |
      simp add: gok_side assms(3) [OF _ False] array_ok_def kind_array_def)+)
  from gok_seq [OF this gok_return, of "\<lambda>_. True" True] show ?thesis
    unfolding array_operand_def if_not_P [OF False] em_defs by simp
qed

lemma gok_element_bounds:
  assumes "i < N" "array_ok fits g"
  shows "gok fits (Some N) B B K 6 (element_bounds g i) (\<lambda>_. True)"
  unfolding element_bounds_def em_defs using assms(2)
  by - (rule gok_weaken, (rule gok_intros gok_exits [OF assms(1)] | rule encodes_immediates | simp add: gok_side array_ok_def)+)

lemma gok_element_index:
  assumes "i < N" "array_ok fits g" "con \<Longrightarrow> known_constant g f" "fits \<Longrightarrow> \<not> con \<Longrightarrow> near f"
  shows "gok fits (Some N) B B K 11 (element_index g i f con) (\<lambda>_. True)"
proof (cases con)
  case True
  have no: "gok fits (Some N) B B K 11 (xseq (exit_always i) (xreturn False)) (\<lambda>_. True)"
    by (rule gok_weaken, rule gok_seq [OF gok_exits(2) [OF assms(1)] gok_return]) simp_all
  have yes: "gok fits (Some N) B B K 11 (xseq (em (em_mov_imm_w 10 k)) (xseq (element_bounds g i) (xreturn True))) (\<lambda>_. True)" for k
    by (rule gok_weaken, rule gok_seq [OF gok_mov_w gok_seq [OF gok_element_bounds [OF assms(1,2)] gok_return]]) simp_all
  show ?thesis
    unfolding element_index_def if_P [OF True]
    by (rule gok_constant [OF assms(3) [OF True]]) (simp add: no yes split: gvalue.split)
next
  case False
  have int: "gok fits (Some N) B B K 4 (int_operand g i f False 10) (\<lambda>_. True)"
    by (rule gok_int_operand [OF assms(1)]) (simp_all add: assms(4) [OF _ False])
  have "gok fits (Some N) B B K 1 (em (emit_word (sxtw_word 10 10))) (\<lambda>_. True)"
    by (rule gok_word) (simp_all add: gok_side)
  from gok_seq [OF int gok_seq [OF this gok_seq [OF gok_element_bounds [OF assms(1,2)] gok_return]], of "\<lambda>_. True" True]
  show ?thesis
    unfolding element_index_def if_not_P [OF False] em_defs by (rule gok_weaken) simp_all
qed

definition any_operands :: "bool \<Rightarrow> codegen_input \<Rightarrow> instruction \<Rightarrow> bool" where
  "any_operands fits g insn \<longleftrightarrow>
     (b_is_const insn \<longrightarrow> known_constant g (insn_b insn)) \<and> (c_is_const insn \<longrightarrow> known_constant g (insn_c insn)) \<and>
     (fits \<longrightarrow> near (insn_a insn) \<and> (\<not> b_is_const insn \<longrightarrow> near (insn_b insn)) \<and> (\<not> c_is_const insn \<longrightarrow> near (insn_c insn)))"

lemma gok_guarded:
  assumes "gok fits mode B B K n m (\<lambda>_. True)" "gok fits mode B B K n' k (\<lambda>_. True)"
  shows "gok fits mode B B K (n + n') (xbind m (\<lambda>ok. if \<not> ok then xreturn () else k)) (\<lambda>_. True)"
proof (rule gok_bind [OF assms(1)])
  show "gok fits mode B B K n' (if \<not> ok then xreturn () else k) (\<lambda>_. True)" for ok
    by (rule gok_if, rule gok_weaken [OF gok_nothing], simp_all add: assms(2))
qed

lemma gok_elements:
  assumes "i < N" "array_ok fits g" "any_operands fits g insn"
  shows "gok fits (Some N) B B K 20 (gen_index_get g i insn) (\<lambda>_. True)"
    "gok fits (Some N) B B K 23 (gen_index_set g i insn) (\<lambda>_. True)"
proof -
  note f = assms(3) [unfolded any_operands_def]
  have get: "gok fits (Some N) B B K 2 (steps [em (emit_word (ldr_str_scaled True True 12 14 10)), store_to 12 (insn_a insn)]) (\<lambda>_. True)"
    by (rule gok_weaken) (rule gok_intros gok_slots | simp add: gok_side f)+
  show "gok fits (Some N) B B K 20 (gen_index_get g i insn) (\<lambda>_. True)"
    unfolding gen_index_get_def em_defs
    by (rule gok_weaken, rule gok_guarded [OF gok_array_operand [OF assms(1,2)]
      gok_guarded [OF gok_element_index [OF assms(1,2)] get]]) (simp_all add: f)
  have load: "gok fits (Some N) B B K 4 (if c_is_const insn
      then xbind (gen_constant g (insn_c insn)) (\<lambda>v. em (em_mov_imm_x 12 (value_bits (gi_env g) v)))
      else load_from 12 (insn_c insn)) (\<lambda>_. True)"
  proof (rule gok_if)
    assume "c_is_const insn"
    then show "gok fits (Some N) B B K 4 (xbind (gen_constant g (insn_c insn)) (\<lambda>v. em (em_mov_imm_x 12 (value_bits (gi_env g) v)))) (\<lambda>_. True)"
      using f by (intro gok_constant gok_mov_x) simp_all
  next
    assume "\<not> c_is_const insn"
    then show "gok fits (Some N) B B K 4 (load_from 12 (insn_c insn)) (\<lambda>_. True)"
      using f by (intro gok_weaken [OF gok_slots(1)]) simp_all
  qed
  have set: "gok fits (Some N) B B K 5 (steps
     [if c_is_const insn
      then xbind (gen_constant g (insn_c insn)) (\<lambda>v. em (em_mov_imm_x 12 (value_bits (gi_env g) v)))
      else load_from 12 (insn_c insn), em (emit_word (ldr_str_scaled False True 12 14 10))]) (\<lambda>_. True)"
    by (rule gok_weaken) (rule gok_intros load | simp add: gok_side)+
  show "gok fits (Some N) B B K 23 (gen_index_set g i insn) (\<lambda>_. True)"
    unfolding gen_index_set_def em_defs
    by (rule gok_weaken, rule gok_guarded [OF gok_array_operand [OF assms(1,2)]
      gok_guarded [OF gok_element_index [OF assms(1,2)] set]]) (simp_all add: f)
qed

subsection \<open>Calls\<close>

definition closure_ok :: "bool \<Rightarrow> codegen_input \<Rightarrow> bool" where
  "closure_ok fits g \<longleftrightarrow>
     (fits \<longrightarrow> cl_kind (je_closure (gi_env g)) \<le> 4095 \<and> cl_function (je_closure (gi_env g)) mod 8 = 0 \<and>
        cl_function (je_closure (gi_env g)) \<le> 32760)"

lemma gok_call_checks:
  assumes "fail \<in> K" "closure_ok fits g" "fits \<Longrightarrow> near a"
  shows "gok fits mode B B K 32 (call_checks g sf a fail) (\<lambda>_. True)"
  unfolding call_checks_def em_defs using assms(2)
  by - (rule gok_weaken, (rule gok_intros gok_slots gok_b [OF assms(1)] gok_cbz [OF assms(1)] gok_add_bytes |
    rule encodes_immediates | simp add: gok_side closure_ok_def kind_closure_def offset_frame_count_def offset_frame_limit_def
      offset_register_end_def assms(3))+)

lemma gok_push_callee: "gok fits mode B B K 21 (push_callee g i) (\<lambda>_. True)"
  unfolding push_callee_def em_defs
  by (rule gok_weaken) (rule gok_intros | simp add: gok_side offset_frames_def kFrameBytes_def kFramePcOffset_def
    kFrameClosureOffset_def kFrameBaseOffset_def)+

lemma gok_fill_nil:
  assumes "\<And>k. fits \<Longrightarrow> k < n \<Longrightarrow> near (r + of_nat k)"
  shows "gok fits mode B B K n (fill_nil r n) (\<lambda>_. True)"
  using assms
proof (induction n arbitrary: r)
  case 0
  show ?case by (simp add: gok_nothing)
next
  case (Suc n)
  have "near r" if fits using Suc.prems [of 0] that by simp
  then have "gok fits mode B B K 1 (em (emit_word (ldr_str False True 4 10 (slot_offset r)))) (\<lambda>_. True)"
    by - (rule gok_word; simp add: gok_side)
  moreover have "gok fits mode B B K n (fill_nil (r + 1) n) (\<lambda>_. True)"
    using Suc.prems [of "Suc k" for k] by (intro Suc.IH) (auto simp: add.assoc)
  ultimately have "gok fits mode B B K (1 + n) (fill_nil r (Suc n)) (\<lambda>_. True)"
    unfolding fill_nil.simps em_defs by (rule gok_seq)
  then show ?case by simp
qed

lemma gok_clear_callee:
  assumes "rc_frame_size (gi_chunk g) \<le> kMaxSelfCallFrameSize"
  shows "gok fits mode B B K 14 (clear_callee g arity) (\<lambda>_. True)"
proof -
  define first frame :: "32 word" where "first = of_nat arity" and "frame = of_nat (rc_frame_size (gi_chunk g))"
  have frame: "unat frame \<le> 2047" using assms by (simp add: frame_def kMaxSelfCallFrameSize_def take_bit_nat_eq_self unat_of_nat)
  have fill: "gok fits mode B B K 14 (if first < frame then fill_nil first (unat (frame - first)) else xreturn ()) (\<lambda>_. True)"
    if small: "frame - first \<le> 8"
  proof (rule gok_if)
    assume f: "first < frame"
    have d: "unat (frame - first) = unat frame - unat first" using f by (simp add: unat_sub)
    have "near (first + of_nat k)" if "k < unat (frame - first)" for k
    proof -
      have "unat (first + of_nat k) = (unat first + unat (of_nat k :: 32 word)) mod 2 ^ 32"
        by (simp add: unat_word_ariths)
      moreover have "unat (of_nat k :: 32 word) \<le> k" by (simp add: unat_of_nat)
      ultimately have "unat (first + of_nat k) \<le> unat first + k"
        using mod_less_eq_dividend [of "unat first + unat (of_nat k :: 32 word)" "2 ^ 32"] by linarith
      then show ?thesis using that d frame by (simp add: near_def)
    qed
    then show "gok fits mode B B K 14 (fill_nil first (unat (frame - first))) (\<lambda>_. True)"
      using small by (intro gok_weaken [OF gok_fill_nil]) (simp_all add: word_le_nat_alt)
  next
    show "gok fits mode B B K 14 (xreturn ()) (\<lambda>_. True)" by (rule gok_weaken [OF gok_nothing]) simp_all
  qed
  have loop: "gok fits mode B B K 14
    (xseq (add_bytes 11 10 (ucast (slot_offset first))) (xseq (add_bytes 12 10 (ucast (slot_offset frame)))
      (xbind (em make_label) (\<lambda>loop.
        steps [em (bind_label loop), em (em_str True 4 11 0), em (em_add_imm True 11 11 8 False),
          em (em_cmp True 11 12), em (em_b_cond CCC loop)])))) (\<lambda>_. True)"
  proof -
    have "gok fits mode B B K 4 (xbind (em make_label) (\<lambda>loop.
        steps [em (bind_label loop), em (em_str True 4 11 0), em (em_add_imm True 11 11 8 False),
          em (em_cmp True 11 12), em (em_b_cond CCC loop)])) (\<lambda>_. True)"
    proof (rule gok_new_label)
      fix l assume "l \<notin> B"
      then show "gok fits mode (insert l B) B (insert l K) 4 (steps [em (bind_label l), em (em_str True 4 11 0),
          em (em_add_imm True 11 11 8 False), em (em_cmp True 11 12), em (em_b_cond CCC l)]) (\<lambda>_. True)"
        unfolding em_defs
        by - (rule gok_weaken, rule gok_steps_Cons [OF gok_bind_label],
          (assumption | rule gok_intros gok_b | simp add: gok_side)+)
    qed
    then show ?thesis
      by - (rule gok_weaken, (assumption | rule gok_seq gok_add_bytes | simp)+)
  qed
  show ?thesis
    unfolding clear_callee_def Let_def first_def [symmetric] frame_def [symmetric]
    using fill loop by (simp add: Let_def)
qed

lemma xbind_nest: "xbind (xbind m f) k = xbind m (\<lambda>x. xbind (f x) k)"
proof (rule ext)
  fix s
  show "xbind (xbind m f) k s = xbind m (\<lambda>x. xbind (f x) k) s"
    by (cases "m s") (auto simp: xbind_def)
qed

lemma xbind_returned: "xbind (xreturn x) k = k x"
  by (rule ext) (simp add: xbind_def xreturn_def)

lemma gok_return_test:
  "gok fits mode B B K 3 (if r \<le> 4095 then em (em_cmp_imm False 9 (of_nat r) False)
     else steps [em (em_mov_imm_w 11 (of_nat r)), em (em_cmp False 9 11)]) (\<lambda>_. True)"
proof -
  have r: "(of_nat r :: 32 word) \<le> 4095" if "r \<le> 4095"
    using that by (simp add: word_le_nat_alt unat_of_nat)
  show ?thesis
    unfolding em_defs by (rule gok_if; rule gok_weaken) (rule gok_intros | simp add: gok_side r)+
qed

lemma gok_return_tests:
  assumes "\<And>ls. length ls = length rs \<Longrightarrow> distinct ls \<Longrightarrow> set ls \<inter> B = {} \<Longrightarrow>
    gok fits mode (B \<union> set ls) B' (K \<union> set ls) n (k ls) Q"
  shows "gok fits mode B B' K (4 * length rs + n) (xbind (return_tests rs) k) Q"
  using assms
proof (induction rs arbitrary: B K k)
  case Nil
  then show ?case using Nil.prems [of "[]"] by (simp add: xbind_returned)
next
  case (Cons r rs)
  have "gok fits mode B B' K (3 + (1 + (4 * length rs + n))) (xbind (return_tests (r # rs)) k) Q"
    unfolding return_tests.simps xbind_nest xbind_returned
  proof (rule gok_new_label)
    fix l assume l: "l \<notin> B"
    have "gok fits mode (insert l B) B' (insert l K) (4 * length rs + n) (xbind (return_tests rs) (\<lambda>ls. k (l # ls))) Q"
    proof (rule Cons.IH)
      fix ls assume "length ls = length rs" "distinct ls" "set ls \<inter> insert l B = {}"
      then show "gok fits mode (insert l B \<union> set ls) B' (insert l K \<union> set ls) n (k (l # ls)) Q"
        using Cons.prems [of "l # ls"] l by auto
    qed
    then show "gok fits mode (insert l B) B' (insert l K) (3 + (1 + (4 * length rs + n)))
        (xseq (if r \<le> 4095 then em (em_cmp_imm False 9 (of_nat r) False)
               else steps [em (em_mov_imm_w 11 (of_nat r)), em (em_cmp False 9 11)])
          (xseq (em (em_b_cond CEQ l)) (xbind (return_tests rs) (\<lambda>ls. k (l # ls))))) Q"
      by (intro gok_seq [OF gok_return_test gok_seq [OF gok_b(3)]]) simp_all
  qed
  then show ?case by (simp add: algebra_simps)
qed

definition return_ok :: "bool \<Rightarrow> codegen_input \<Rightarrow> 32 word \<Rightarrow> nat \<Rightarrow> bool" where
  "return_ok fits g a r \<longleftrightarrow>
     r < length (rc_code (gi_chunk g)) \<and>
     (let ret = rc_code (gi_chunk g) ! r
      in unfused_op ret \<noteq> rg_byte RgReturnNil \<longrightarrow>
         (if b_is_const ret then known_constant g (insn_b ret) else fits \<longrightarrow> near (a + 1 + insn_b ret)))"

lemma gok_return_result:
  assumes "return_ok fits g a r" "fits \<Longrightarrow> near a"
  shows "gok fits mode B B K 5 (return_result g a (rc_code (gi_chunk g) ! r)) (\<lambda>_. True)"
proof -
  let ?ret = "rc_code (gi_chunk g) ! r"
  have "gok fits mode B B K 4
    (if unfused_op ?ret = rg_byte RgReturnNil then em (em_mov True 12 4)
     else if b_is_const ?ret
     then xbind (gen_constant g (insn_b ?ret)) (\<lambda>v. em (em_mov_imm_x 12 (value_bits (gi_env g) v)))
     else load_from 12 (a + 1 + insn_b ?ret)) (\<lambda>_. True)"
  proof (intro gok_if)
    show "gok fits mode B B K 4 (em (em_mov True 12 4)) (\<lambda>_. True)" by (rule gok_weaken [OF gok_mov]) simp_all
  next
    assume n: "unfused_op ?ret \<noteq> rg_byte RgReturnNil"
    show "gok fits mode B B K 4 (xbind (gen_constant g (insn_b ?ret)) (\<lambda>v. em (em_mov_imm_x 12 (value_bits (gi_env g) v)))) (\<lambda>_. True)"
      if "b_is_const ?ret" using assms(1) n that by (intro gok_constant gok_mov_x) (simp_all add: return_ok_def Let_def)
    show "gok fits mode B B K 4 (load_from 12 (a + 1 + insn_b ?ret)) (\<lambda>_. True)" if "\<not> b_is_const ?ret"
      using assms(1) n that by (intro gok_weaken [OF gok_slots(1)]) (simp_all add: return_ok_def Let_def)
  qed
  note result = this
  have "gok fits mode B B K 1 (store_to 12 a) (\<lambda>_. True)" by (rule gok_slots(2)) (simp_all add: assms(2))
  from gok_seq [OF result this] show ?thesis unfolding return_result_def by (rule gok_weaken) simp_all
qed

lemma gok_return_copies:
  assumes "distinct (map snd rs)" "set (map snd rs) \<inter> B = {}" "popped \<in> K"
    "\<forall>p\<in>set rs. return_ok fits g a (fst p)" "fits \<Longrightarrow> near a"
  shows "gok fits mode (set (map snd rs) \<union> B) B K (6 * length rs) (return_copies g a popped rs) (\<lambda>_. True)"
  using assms(1,2,4)
proof (induction rs)
  case Nil
  then show ?case by (simp add: gok_nothing)
next
  case (Cons p rs)
  obtain r l where p: "p = (r, l)" by (cases p)
  let ?B = "set (map snd rs) \<union> B"
  have l: "l \<notin> ?B" using Cons.prems p by auto
  have r: "return_ok fits g a r" "r < length (rc_code (gi_chunk g))" using Cons.prems(3) p by (auto simp: return_ok_def)
  have jump: "gok fits mode ?B ?B K 1 (if rs = [] then xreturn () else em (em_b popped)) (\<lambda>_. True)"
    by (rule gok_if) ((rule gok_weaken [OF gok_nothing]; simp) | rule gok_b [OF assms(3)])+
  have copy: "gok fits mode ?B ?B K 5 (if r < length (rc_code (gi_chunk g)) then return_result g a (rc_code (gi_chunk g) ! r)
      else undefined_step) (\<lambda>_. True)"
    using r gok_return_result [OF r(1) assms(5)] by simp
  have rest: "gok fits mode ?B B K (6 * length rs) (return_copies g a popped rs) (\<lambda>_. True)" using Cons by simp
  have "gok fits mode (insert l ?B) B K (0 + (5 + (1 + 6 * length rs))) (return_copies g a popped (p # rs)) (\<lambda>_. True)"
    unfolding p return_copies.simps by (intro gok_seq [OF gok_bind_label [OF l] gok_seq [OF copy gok_seq [OF jump rest]]])
  then show ?case by (simp add: p)
qed

lemma gok_nested_branch:
  "gok fits (Some N) B B K 1 (xbind nested_exit (\<lambda>l. em (em_b l))) (\<lambda>_. True)"
  "gok fits (Some N) B B K 1 (xbind nested_exit (\<lambda>l. em (em_b_cond c l))) (\<lambda>_. True)"
  by (rule gok_nested_exit, rule gok_b, simp)+

lemma gok_after_call:
  assumes "\<forall>r\<in>set (gi_returns g). return_ok fits g a r" "fits \<Longrightarrow> near a"
  shows "gok fits (Some N) B B K (43 + 10 * length (gi_returns g)) (after_call g a) (\<lambda>_. True)"
proof -
  let ?R = "length (gi_returns g)"
  have first: "gok fits (Some N) B B K 22
    (steps [em (em_mov False 9 0), em (em_mov True 0 19), load_constants g, em (emit_word (addsub_imm AsAdds False 31 9 1 False)),
      xbind nested_exit (\<lambda>l. em (em_b_cond CEQ l))]) (\<lambda>_. True)" for B K
    by (rule gok_weaken) (rule gok_intros gok_load_constants gok_nested_branch | simp add: gok_side)+
  have middle: "gok fits (Some N) B B K 17
    (steps [em (emit_word (shift_imm ShLsl True 11 9 3)), em (em_mov_imm_x 12 (code_address g 0)),
      em (emit_word (addsub_reg AsAdd True 11 12 11)), frame_address 15 (- 1), em (emit_word (ldr_str False True 11 15 kFramePcOffset)),
      xbind nested_exit (\<lambda>l. em (em_b l))]) (\<lambda>_. True)" for B K
    by (rule gok_weaken) (rule gok_intros gok_frame_address gok_nested_branch | simp add: gok_side kFramePcOffset_def)+
  have last: "gok fits (Some N) (insert p B) B K 4
    (steps [em (bind_label p), em (emit_word (ldr_str True True 13 20 offset_frame_count)), em (emit_word (ldr_str True True 14 13 0)),
      em (emit_word (addsub_imm AsSub True 14 14 1 False)), em (emit_word (ldr_str False True 14 13 0))]) (\<lambda>_. True)"
    if "p \<notin> B" for p B K
    by (rule gok_weaken, rule gok_steps_Cons [OF gok_bind_label [OF that]])
      (rule gok_intros | simp add: gok_side offset_frame_count_def)+
  have "gok fits (Some N) B B K (22 + (4 * ?R + (17 + (6 * ?R + 4)))) (after_call g a) (\<lambda>_. True)"
    unfolding after_call_def em_defs
  proof (intro gok_seq [OF first] gok_return_tests)
    fix ls :: "label list"
    assume ls: "length ls = ?R" "distinct ls" "set ls \<inter> B = {}"
    show "gok fits (Some N) (B \<union> set ls) B (K \<union> set ls) (17 + (6 * ?R + 4))
      (xseq (steps [em (emit_word (shift_imm ShLsl True 11 9 3)), em (em_mov_imm_x 12 (code_address g 0)),
          em (emit_word (addsub_reg AsAdd True 11 12 11)), frame_address 15 (- 1), em (emit_word (ldr_str False True 11 15 kFramePcOffset)),
          xbind nested_exit (\<lambda>l. em (em_b l))])
        (xbind (em make_label) (\<lambda>popped.
          xseq (return_copies g a popped (zip (gi_returns g) ls))
            (steps [em (bind_label popped), em (emit_word (ldr_str True True 13 20 offset_frame_count)),
              em (emit_word (ldr_str True True 14 13 0)), em (emit_word (addsub_imm AsSub True 14 14 1 False)),
              em (emit_word (ldr_str False True 14 13 0))])))) (\<lambda>_. True)"
    proof (intro gok_seq [OF middle] gok_new_label)
      fix p assume p: "p \<notin> B \<union> set ls"
      have "gok fits (Some N) (set (map snd (zip (gi_returns g) ls)) \<union> insert p B) (insert p B) (insert p (K \<union> set ls))
          (6 * length (zip (gi_returns g) ls)) (return_copies g a p (zip (gi_returns g) ls)) (\<lambda>_. True)"
        by (rule gok_return_copies) (use ls p assms in \<open>auto dest: set_zip_leftD\<close>)
      moreover have "set (map snd (zip (gi_returns g) ls)) \<union> insert p B = insert p (B \<union> set ls)"
        using ls(1) by (auto simp: set_map [symmetric] simp del: set_map)
      ultimately have copies: "gok fits (Some N) (insert p (B \<union> set ls)) (insert p B) (insert p (K \<union> set ls)) (6 * ?R)
          (return_copies g a p (zip (gi_returns g) ls)) (\<lambda>_. True)" using ls(1) by simp
      have "p \<notin> B" using p by simp
      from gok_seq [OF copies last [OF this]] show "gok fits (Some N) (insert p (B \<union> set ls)) B (insert p (K \<union> set ls)) (6 * ?R + 4)
          (xseq (return_copies g a p (zip (gi_returns g) ls))
            (steps [em (bind_label p), em (emit_word (ldr_str True True 13 20 offset_frame_count)),
              em (emit_word (ldr_str True True 14 13 0)), em (emit_word (addsub_imm AsSub True 14 14 1 False)),
              em (emit_word (ldr_str False True 14 13 0))])) (\<lambda>_. True)"
        .
    qed
  qed
  then show ?thesis by (rule gok_weaken) simp_all
qed

definition call_ok :: "bool \<Rightarrow> codegen_input \<Rightarrow> 32 word \<Rightarrow> bool" where
  "call_ok fits g a \<longleftrightarrow>
     gi_self g \<noteq> None \<and> closure_ok fits g \<and> (fits \<longrightarrow> near a) \<and> rc_frame_size (gi_chunk g) \<le> kMaxSelfCallFrameSize \<and>
     (\<forall>r\<in>set (gi_returns g). return_ok fits g a r)"

lemma gok_self_call:
  assumes "i < N" "call_ok fits g (insn_a insn)" "gi_entry g \<in> K"
  shows "gok fits (Some N) B B K (113 + 10 * length (gi_returns g)) (gen_self_call g i insn) (\<lambda>_. True)"
proof -
  obtain sf where sf: "gi_self g = Some sf" using assms(2) by (auto simp: call_ok_def)
  have self: "gen_self_call g i insn =
    (if unat (insn_b insn) \<noteq> fo_arity (sf_function sf) then exit_always i
     else xbind (exit_label i) (\<lambda>fail. steps [call_checks g sf (insn_a insn) fail, push_callee g i,
       clear_callee g (fo_arity (sf_function sf)), em (em_mov True 0 10), em (em_mov True 1 20), em (em_bl (gi_entry g)),
       after_call g (insn_a insn)]))"
    unfolding gen_self_call_def by (rule ext) (simp add: the_self_def sf xbind_def xreturn_def)
  note ok = assms(2) [unfolded call_ok_def]
  show ?thesis
    unfolding self
  proof (rule gok_if)
    show "gok fits (Some N) B B K (113 + 10 * length (gi_returns g)) (exit_always i) (\<lambda>_. True)"
      by (rule gok_weaken [OF gok_exits(2) [OF assms(1)]]) simp_all
    show "gok fits (Some N) B B K (113 + 10 * length (gi_returns g))
      (xbind (exit_label i) (\<lambda>fail. steps [call_checks g sf (insn_a insn) fail, push_callee g i,
       clear_callee g (fo_arity (sf_function sf)), em (em_mov True 0 10), em (em_mov True 1 20), em (em_bl (gi_entry g)),
       after_call g (insn_a insn)])) (\<lambda>_. True)"
      by (rule gok_exit_label [OF assms(1)], rule gok_weaken)
        (rule gok_intros gok_call_checks gok_push_callee gok_clear_callee gok_b(2) gok_after_call | simp add: ok assms(3))+
  qed
qed

subsection \<open>One instruction\<close>

definition target_ok :: "codegen_input \<Rightarrow> nat \<Rightarrow> instruction \<Rightarrow> bool" where
  "target_ok g i insn \<longleftrightarrow> 0 \<le> int i + 1 + insn_sbx insn \<and> nat (int i + 1 + insn_sbx insn) < length (gi_labels g)"

text \<open>What the generator needs of an instruction of each kind.\<close>

definition op_ok :: "bool \<Rightarrow> codegen_input \<Rightarrow> nat \<Rightarrow> instruction \<Rightarrow> regop \<Rightarrow> bool" where
  "op_ok fits g i insn op \<longleftrightarrow>
     (let a = (fits \<longrightarrow> near (insn_a insn)); arith = int_operands fits g insn \<and> a
      in case op of
           RgMove \<Rightarrow> a \<and> (fits \<longrightarrow> near (insn_b insn))
         | RgLoadK \<Rightarrow> a \<and> known_constant g (insn_bx insn)
         | RgLoadNil \<Rightarrow> a | RgLoadTrue \<Rightarrow> a | RgLoadFalse \<Rightarrow> a
         | RgAdd \<Rightarrow> arith | RgSub \<Rightarrow> arith | RgMul \<Rightarrow> arith | RgDiv \<Rightarrow> arith | RgMod \<Rightarrow> arith
         | RgEq \<Rightarrow> arith | RgNe \<Rightarrow> arith | RgLt \<Rightarrow> arith | RgLe \<Rightarrow> arith | RgGt \<Rightarrow> arith | RgGe \<Rightarrow> arith
         | RgNeg \<Rightarrow>
             a \<and> (b_is_const insn \<longrightarrow> int_constant g (insn_b insn)) \<and> (fits \<longrightarrow> \<not> b_is_const insn \<longrightarrow> near (insn_b insn))
         | RgJump \<Rightarrow> target_ok g i insn
         | RgJumpIfFalse \<Rightarrow> a \<and> target_ok g i insn | RgJumpIfTrue \<Rightarrow> a \<and> target_ok g i insn
         | RgIndexGet \<Rightarrow> array_ok fits g \<and> any_operands fits g insn
         | RgIndexSet \<Rightarrow> array_ok fits g \<and> any_operands fits g insn
         | RgGetGlobal \<Rightarrow> a \<and> (\<exists>sf. gi_self g = Some sf \<and> sf_global sf \<noteq> None)
         | RgCall \<Rightarrow> call_ok fits g (insn_a insn)
         | RgReturn \<Rightarrow> True | RgReturnNil \<Rightarrow> True
         | _ \<Rightarrow> False)"

definition op_words :: "codegen_input \<Rightarrow> regop \<Rightarrow> nat" where
  "op_words g op = (if op = RgCall then 113 + 10 * length (gi_returns g) else 23)"

lemma gok_jump_target:
  assumes "target_ok g i insn" "\<And>l. l \<in> set (gi_labels g) \<Longrightarrow> gok fits mode B B' K n (k l) Q"
  shows "gok fits mode B B' K n (xbind (jump_target g i insn) k) Q"
proof -
  let ?l = "gi_labels g ! nat (int i + 1 + insn_sbx insn)"
  have "xbind (jump_target g i insn) k = k ?l"
    using assms(1) by (intro ext) (simp add: jump_target_def target_ok_def xbind_def xreturn_def Let_def)
  then show ?thesis using assms by (simp add: target_ok_def)
qed

lemma gok_jump_if_true:
  assumes "target_ok g i insn" "set (gi_labels g) \<subseteq> K" "fits \<Longrightarrow> near (insn_a insn)"
  shows "gok fits mode B B K 6
    (xbind (em make_label) (\<lambda>fall_through.
      xseq (load_from 9 (insn_a insn))
        (xseq (branch_if_falsy 9 fall_through)
          (xbind (jump_target g i insn) (\<lambda>l. xseq (em (em_b l)) (em (bind_label fall_through))))))) (\<lambda>_. True)"
proof (rule gok_new_label)
  fix f assume f: "f \<notin> B"
  have "gok fits mode (insert f B) B (insert f K) (1 + 0) (xbind (jump_target g i insn) (\<lambda>l. xseq (em (em_b l)) (em (bind_label f)))) (\<lambda>_. True)"
    by (rule gok_jump_target [OF assms(1)], rule gok_seq [OF gok_b(1) gok_bind_label [OF f]]) (use assms(2) in auto)
  then have "gok fits mode (insert f B) B (insert f K) (1 + (4 + (1 + 0)))
    (xseq (load_from 9 (insn_a insn)) (xseq (branch_if_falsy 9 f)
      (xbind (jump_target g i insn) (\<lambda>l. xseq (em (em_b l)) (em (bind_label f)))))) (\<lambda>_. True)"
    by (intro gok_seq [OF gok_slots(1) gok_seq [OF gok_branch_if_falsy]]) (simp_all add: assms(3))
  then show "gok fits mode (insert f B) B (insert f K) 6
    (xseq (load_from 9 (insn_a insn)) (xseq (branch_if_falsy 9 f)
      (xbind (jump_target g i insn) (\<lambda>l. xseq (em (em_b l)) (em (bind_label f)))))) (\<lambda>_. True)"
    by (rule gok_weaken) simp_all
qed

lemma gok_add_ops:
  assumes "gok fits mode B B K n (steps [z]) (\<lambda>_. True)"
  shows "encodes r \<and> arm_only r \<Longrightarrow> gok fits mode B B K (3 + n) (steps ([em (emit_word r)] @ [z])) (\<lambda>_. True)"
    "gok fits mode B B K 1 m (\<lambda>_. True) \<Longrightarrow> encodes r \<and> arm_only r \<Longrightarrow>
      gok fits mode B B K (3 + n) (steps ([m, em (emit_word r)] @ [z])) (\<lambda>_. True)"
    "gok fits mode B B K 1 m (\<lambda>_. True) \<Longrightarrow> encodes r \<and> arm_only r \<Longrightarrow> encodes r' \<and> arm_only r' \<Longrightarrow>
      gok fits mode B B K (3 + n) (steps ([m, em (emit_word r), em (emit_word r')] @ [z])) (\<lambda>_. True)"
proof -
  note add = gok_steps_Cons [OF _ assms] and more = gok_steps_Cons [OF _ gok_steps_Cons [OF _ assms]]
  show "gok fits mode B B K (3 + n) (steps ([em (emit_word r)] @ [z])) (\<lambda>_. True)" if "encodes r \<and> arm_only r"
    unfolding append.simps using that by (intro gok_weaken [OF add [OF gok_word]]) simp_all
  show "gok fits mode B B K (3 + n) (steps ([m, em (emit_word r)] @ [z])) (\<lambda>_. True)"
    if "gok fits mode B B K 1 m (\<lambda>_. True)" "encodes r \<and> arm_only r"
    unfolding append.simps using that(2) by (intro gok_weaken [OF more [OF that(1) gok_word]]) simp_all
  show "gok fits mode B B K (3 + n) (steps ([m, em (emit_word r), em (emit_word r')] @ [z])) (\<lambda>_. True)"
    if "gok fits mode B B K 1 m (\<lambda>_. True)" "encodes r \<and> arm_only r" "encodes r' \<and> arm_only r'"
    unfolding append.simps using that(2,3)
    by (intro gok_weaken [OF gok_steps_Cons [OF that(1) more [OF gok_word gok_word]]]) simp_all
qed

lemma gok_op:
  assumes i: "i < N" and K: "gi_entry g \<in> K" "set (gi_labels g) \<subseteq> K" and ok: "op_ok fits g i insn op"
  shows "gok fits (Some N) B B K (op_words g op) (gen_op g i insn op) (\<lambda>_. True)"
proof -
  have arith: "gok fits (Some N) B B K 13 (arithmetic g i insn [em (emit_word r)]) (\<lambda>_. True)"
    if "encodes r \<and> arm_only r" "int_operands fits g insn" "fits \<longrightarrow> near (insn_a insn)" for r
    using that by (intro gok_arithmetic [OF i] gok_add_ops) auto
  have div: "gok fits (Some N) B B K 13 (arithmetic g i insn [check_divisor g i insn, em (emit_word r)]) (\<lambda>_. True)"
    if "encodes r \<and> arm_only r" "int_operands fits g insn" "fits \<longrightarrow> near (insn_a insn)" for r
    using that by (intro gok_arithmetic [OF i] gok_add_ops gok_check_divisor [OF i]) auto
  have rem: "gok fits (Some N) B B K 13 (arithmetic g i insn [check_divisor g i insn, em (emit_word r), em (emit_word r')]) (\<lambda>_. True)"
    if "encodes r \<and> arm_only r" "encodes r' \<and> arm_only r'" "int_operands fits g insn" "fits \<longrightarrow> near (insn_a insn)" for r r'
    using that by (intro gok_arithmetic [OF i] gok_add_ops gok_check_divisor [OF i]) auto
  note rules = gok_intros gok_slots gok_exit_with gok_b arith div rem gok_compare [OF i] gok_elements [OF i] gok_branch_if_falsy
      gok_jump_target gok_constant gok_int_operand [OF i] gok_store_int_result gok_jump_if_true [OF _ K(2)]
    and ok' = ok [unfolded op_ok_def Let_def]
  consider "op = RgCall" | "op = RgGetGlobal" | "op \<noteq> RgCall" "op \<noteq> RgGetGlobal" by blast
  then show ?thesis
  proof cases
    case 1
    have "call_ok fits g (insn_a insn)" using ok' 1 by simp
    from gok_self_call [OF i this K(1)] show ?thesis by (simp add: gen_op_def op_words_def 1)
  next
    case 2
    then obtain sf cell where sf: "gi_self g = Some sf" "sf_global sf = Some cell" and a: "fits \<longrightarrow> near (insn_a insn)"
      using ok' by auto
    have get: "gen_op g i insn op = steps [em (em_mov_imm_x 11 cell), em (em_ldr True 9 11 0), store_to 9 (insn_a insn)]"
      unfolding gen_op_def 2 by (rule ext) (simp add: the_self_def sf xbind_def xreturn_def)
    have "gok fits (Some N) B B K 6 (gen_op g i insn op) (\<lambda>_. True)"
      unfolding get em_defs using a by - (rule gok_weaken, (rule gok_intros gok_slots | simp add: gok_side)+)
    then show ?thesis unfolding op_words_def 2 by (rule gok_weaken) simp_all
  next
    case 3
    have "op \<in> {RgMove, RgLoadK, RgLoadNil, RgLoadTrue, RgLoadFalse, RgAdd, RgSub, RgMul, RgDiv, RgMod, RgEq, RgNe,
        RgLt, RgLe, RgGt, RgGe, RgNeg, RgJump, RgJumpIfFalse, RgJumpIfTrue, RgIndexGet, RgIndexSet, RgReturn, RgReturnNil}"
      using ok' 3 by (cases op) simp_all
    then have "gok fits (Some N) B B K 23 (gen_op g i insn op) (\<lambda>_. True)"
      using ok'
      by - (elim insertE emptyE; simp only: gen_op_def regop.case em_defs;
        (rule gok_weaken, (rule rules | simp add: gok_side subsetD [OF K(2)])+))
    then show ?thesis using 3 by (simp add: op_words_def)
  qed
qed

subsection \<open>A function\<close>

definition insn_ok :: "bool \<Rightarrow> codegen_input \<Rightarrow> nat \<Rightarrow> instruction \<Rightarrow> bool" where
  "insn_ok fits g i insn \<longleftrightarrow>
     (case rg_of_byte (unfused_op insn) of None \<Rightarrow> False | Some op \<Rightarrow> op_ok fits g i insn op)"

definition insn_words :: "codegen_input \<Rightarrow> instruction \<Rightarrow> nat" where
  "insn_words g insn = (if unfused_op insn = rg_byte RgCall then 113 + 10 * length (gi_returns g) else 23)"

lemma rg_of_byte_Some: "rg_of_byte b = Some op \<Longrightarrow> b = rg_byte op"
proof -
  assume b: "rg_of_byte b = Some op"
  then have k: "unat b < length regops" "op = regops ! unat b" by (auto simp: rg_of_byte_def split: if_splits)
  have "list_all (\<lambda>k. rg_byte (regops ! k) = of_nat k) [0..<length regops]" by code_simp
  then have "rg_byte (regops ! unat b) = of_nat (unat b)" using k(1) by (auto simp: list_all_iff)
  then show ?thesis using k(2) by simp
qed

lemma gok_instruction:
  assumes "i < N" "gi_entry g \<in> K" "set (gi_labels g) \<subseteq> K" "insn_ok fits g i insn"
  shows "gok fits (Some N) B B K (insn_words g insn) (gen_instruction g i insn) (\<lambda>_. True)"
proof -
  obtain op where op: "rg_of_byte (unfused_op insn) = Some op" "op_ok fits g i insn op"
    using assms(4) by (auto simp: insn_ok_def split: option.splits)
  have "op_words g op \<le> insn_words g insn"
    using rg_of_byte_Some [OF op(1)] by (simp add: op_words_def insn_words_def)
  from gok_weaken [OF gok_op [OF assms(1-3) op(2)] this] show ?thesis by (simp add: gen_instruction_def op(1))
qed

lemma gok_get:
  assumes "\<And>x. gok fits mode B B' K n (k x) Q"
  shows "gok fits mode B B' K n (xbind (xget f) k) Q"
  using assms unfolding gok_def xbind_def xget_def by simp

lemma gok_body:
  assumes "length ls = length code" "distinct ls" "gi_entry g \<in> K" "set (gi_labels g) \<subseteq> K"
    "\<forall>j<length code. insn_ok fits g (i + j) (code ! j)" "i + length code \<le> N"
  shows "gok fits (Some N) (set ls) {} K (sum_list (map (insn_words g) code)) (gen_body g i code ls)
    (\<lambda>starts. length starts = length code)"
  using assms(1,2,5,6)
proof (induction code arbitrary: i ls)
  case Nil
  then show ?case by (simp add: gok_return)
next
  case (Cons insn code)
  then obtain l ls' where ls: "ls = l # ls'" by (cases ls) auto
  have rest: "gok fits (Some N) (set ls') {} K (sum_list (map (insn_words g) code)) (gen_body g (i + 1) code ls')
    (\<lambda>starts. length starts = length code)"
    by (rule Cons.IH) (use Cons.prems ls in \<open>auto dest: spec [of _ "Suc _"]\<close>)
  have insn: "gok fits (Some N) (set ls') (set ls') K (insn_words g insn) (gen_instruction g i insn) (\<lambda>_. True)"
    using Cons.prems by (intro gok_instruction [OF _ assms(3,4)]) (auto dest: spec [of _ 0])
  have "gok fits (Some N) (insert l (set ls')) {} K (0 + (insn_words g insn + (sum_list (map (insn_words g) code) + 0)))
    (gen_body g i (insn # code) (l # ls')) (\<lambda>starts. length starts = length (insn # code))"
    unfolding gen_body.simps
    by (rule gok_seq [OF gok_bind_label], (use Cons.prems ls in simp), rule gok_get, rule gok_seq [OF insn], rule gok_bind [OF rest],
      rule gok_return) simp
  then show ?case by (simp add: ls)
qed

text \<open>The exits, when no more can be made.\<close>

lemma gok_gen_exits:
  assumes "distinct (filter (\<lambda>x. x \<noteq> None) es)" "{l. Some l \<in> set es} \<inter> B = {}"
  shows "gok fits None ({l. Some l \<in> set es} \<union> B) B K (5 * length es) (gen_exits g i es) (\<lambda>_. True)"
  using assms
proof (induction es arbitrary: i)
  case Nil
  then show ?case by (simp add: gok_nothing)
next
  case (Cons e es)
  show ?case
  proof (cases e)
    case None
    then have "gok fits None ({l. Some l \<in> set es} \<union> B) B K (5 * length es) (gen_exits g (i + 1) es) (\<lambda>_. True)"
      using Cons.prems by (intro Cons.IH) auto
    from gok_weaken [OF this] show ?thesis by (simp add: None)
  next
    case (Some l)
    have l: "l \<notin> {l. Some l \<in> set es} \<union> B" using Cons.prems Some by auto
    have rest: "gok fits None ({l. Some l \<in> set es} \<union> B) B K (5 * length es) (gen_exits g (i + 1) es) (\<lambda>_. True)"
      using Cons.prems Some by (intro Cons.IH) auto
    have "{l. Some l \<in> set (e # es)} \<union> B = insert l ({l. Some l \<in> set es} \<union> B)" using Some by auto
    with gok_seq [OF gok_bind_label [OF l] gok_seq [OF gok_exit_with rest]] show ?thesis by (simp add: Some)
  qed
qed

definition keeps_nested :: "'a gen \<Rightarrow> bool" where
  "keeps_nested m \<longleftrightarrow> (\<forall>s x t. m s = Ok (x, t) \<longrightarrow> cg_nested t = cg_nested s)"

lemma keeps_nested_rules:
  "keeps_nested (em e)" "keeps_nested (xreturn x)"
  "keeps_nested m \<Longrightarrow> (\<And>x. keeps_nested (k x)) \<Longrightarrow> keeps_nested (xbind m k)"
  by (fastforce simp: keeps_nested_def em_def xreturn_def xbind_def bind_simps split: outcome.splits prod.splits)+

lemma keeps_nested_exits: "keeps_nested (gen_exits g i es)"
  by (induction es arbitrary: i rule: gen_exits.induct)
    (auto simp: exit_with_def epilogue_def intro!: keeps_nested_rules)

lemma gok_gen_nested:
  assumes "gready None {l. cg_nested s = Some l} K s" "fits \<longrightarrow> length (em_code (cg_emitter s)) + 5 \<le> kReach"
  shows "(\<exists>t. gen_nested g s = Ok ((), t) \<and> gready None {} K t \<and>
      length (em_code (cg_emitter t)) \<le> length (em_code (cg_emitter s)) + 5) \<or>
    \<not> fits \<and> (\<exists>msg. gen_nested g s = Error (EmitError msg) \<and> arm_error msg)"
proof (cases "cg_nested s")
  case None
  then show ?thesis using assms(1) by (auto simp: gen_nested_def xbind_def xget_def xreturn_def)
next
  case (Some l)
  have "gok fits None (insert l {}) {} K 5 (steps [em (bind_label l), epilogue g, em (em_mov_imm_w 0 kNestedBailout), em (em_ret 30)]) (\<lambda>_. True)"
    unfolding em_defs
    by (rule gok_weaken, rule gok_steps_Cons [OF gok_bind_label]) (rule gok_intros gok_epilogue | simp add: gok_side)+
  moreover have "gen_nested g s = steps [em (bind_label l), epilogue g, em (em_mov_imm_w 0 kNestedBailout), em (em_ret 30)] s"
    using Some by (simp add: gen_nested_def xbind_def xget_def)
  moreover have "{k. cg_nested s = Some k} = {l}" using Some by auto
  ultimately show ?thesis using assms unfolding gok_def by auto
qed

definition code_words :: "codegen_input \<Rightarrow> nat" where
  "code_words g =
     28 + sum_list (map (insn_words g) (rc_code (gi_chunk g))) + 5 * length (rc_code (gi_chunk g))"

lemma gok_prologue: "gok fits mode B B K 5 (gen_prologue g) (\<lambda>_. True)"
  unfolding gen_prologue_def em_defs
  by (rule gok_if, (rule gok_weaken [OF gok_nothing]; simp), rule gok_weaken)
    (rule gok_steps_Cons gok_steps_Nil gok_word gok_mov_sp gok_mov | simp add: gok_side)+

lemma gok_none:
  assumes "gready (Some N) {} K s"
  shows "gready None ({l. Some l \<in> set (cg_exits s)} \<union> {l. cg_nested s = Some l}) K s"
    "distinct (filter (\<lambda>x. x \<noteq> None) (cg_exits s))" "{l. Some l \<in> set (cg_exits s)} \<inter> {l. cg_nested s = Some l} = {}"
  using assms by (auto simp: gready_def opens_def apart_def exit_set_def)

lemma gen_run_goes:
  assumes ready: "gready (Some (length (rc_code (gi_chunk g)))) (insert (gi_entry g) (set (gi_labels g))) (insert (gi_entry g) (set (gi_labels g))) s"
    and labels: "length (gi_labels g) = length (rc_code (gi_chunk g))" "distinct (gi_labels g)" "gi_entry g \<notin> set (gi_labels g)"
    and ok: "\<forall>j<length (rc_code (gi_chunk g)). insn_ok fits g j (rc_code (gi_chunk g) ! j)"
    and len: "em_code (cg_emitter s) = []" "fits \<longrightarrow> code_words g \<le> kReach"
  shows "(\<exists>code t. gen_run g s = Ok (code, t) \<and> length (gc_words code) \<le> code_words g \<and>
      length (gc_starts code) = length (rc_code (gi_chunk g))) \<or>
    \<not> fits \<and> (\<exists>msg. gen_run g s = Error (EmitError msg) \<and> arm_error msg)"
proof -
  let ?N = "length (rc_code (gi_chunk g))" and ?K = "insert (gi_entry g) (set (gi_labels g))"
  let ?S = "sum_list (map (insn_words g) (rc_code (gi_chunk g)))"
  let ?start = "xseq (em (bind_label (gi_entry g))) (xseq (gen_prologue g) (xseq (load_constants g)
    (gen_body g 0 (rc_code (gi_chunk g)) (gi_labels g))))"
  let ?rest = "\<lambda>starts. xbind (xget cg_exits) (\<lambda>exits. xseq (gen_exits g 0 exits) (xseq (gen_nested g)
    (xseq (em finish) (xget (\<lambda>s. \<lparr>gc_words = em_code (cg_emitter s), gc_starts = starts\<rparr>)))))"
  have run: "gen_run g = xbind ?start ?rest" by (simp add: gen_run_def xbind_nest)
  have "gok fits (Some ?N) (set (gi_labels g)) {} ?K ?S (gen_body g 0 (rc_code (gi_chunk g)) (gi_labels g)) (\<lambda>starts. length starts = ?N)"
    by (rule gok_body) (use labels ok in auto)
  then have start: "gok fits (Some ?N) ?K {} ?K (0 + (5 + (18 + ?S))) ?start (\<lambda>starts. length starts = ?N)"
    using labels(3) by (intro gok_seq [OF gok_bind_label gok_seq [OF gok_prologue gok_seq [OF gok_load_constants]]]) simp_all
  have W: "code_words g = 0 + (5 + (18 + ?S)) + 5 * ?N + 5" by (simp add: code_words_def)
  from start ready len W consider starts t where "?start s = Ok (starts, t)" "gready (Some ?N) {} ?K t"
      "length (em_code (cg_emitter t)) \<le> 0 + (5 + (18 + ?S))" "length starts = ?N"
    | msg where "\<not> fits" "?start s = Error (EmitError msg)" "arm_error msg"
    unfolding gok_def by (auto dest: spec [of _ s])
  then show ?thesis
  proof cases
    case 1
    let ?nested = "{l. cg_nested t = Some l}"
    have n: "length (cg_exits t) = ?N" using 1(2) by (simp add: gready_def)
    note none = gok_none [OF 1(2)]
    have "fits \<longrightarrow> length (em_code (cg_emitter t)) + 5 * ?N \<le> kReach" using len(2) W 1(3) by auto
    with gok_gen_exits [OF none(2,3), of fits ?K g 0, unfolded gok_def n] none(1)
    consider u where "gen_exits g 0 (cg_exits t) t = Ok ((), u)" "gready None ?nested ?K u"
        "length (em_code (cg_emitter u)) \<le> length (em_code (cg_emitter t)) + 5 * ?N"
      | msg where "\<not> fits" "gen_exits g 0 (cg_exits t) t = Error (EmitError msg)" "arm_error msg" by auto
    then show ?thesis
    proof cases
      case u: 1
      have same: "cg_nested u = cg_nested t" using keeps_nested_exits u(1) by (auto simp: keeps_nested_def)
      have "fits \<longrightarrow> length (em_code (cg_emitter u)) + 5 \<le> kReach" using len(2) W 1(3) u(3) by auto
      with gok_gen_nested [of u ?K fits g] u(2) same
      consider v where "gen_nested g u = Ok ((), v)" "gready None {} ?K v"
          "length (em_code (cg_emitter v)) \<le> length (em_code (cg_emitter u)) + 5"
        | msg where "\<not> fits" "gen_nested g u = Error (EmitError msg)" "arm_error msg" by auto
      then show ?thesis
      proof cases
        case v: 1
        have "e_ready {} (cg_emitter v)" using v(2) by (simp add: gready_def opens_def)
        then have "finish (cg_emitter v) = Ok ((), cg_emitter v)"
          by (auto simp: finish_def xbind_def xget_def xreturn_def e_ready_def list_all_length)
        then have "gen_run g s = Ok (\<lparr>gc_words = em_code (cg_emitter v), gc_starts = starts\<rparr>, v)"
          unfolding run using 1(1) u(1) v(1) by (simp add: xbind_def xget_def em_def)
        then show ?thesis using 1(3,4) u(3) v(3) W by simp
      next
        case v: 2
        then show ?thesis unfolding run using 1(1) u(1) by (simp add: xbind_def xget_def)
      qed
    next
      case u: 2
      then show ?thesis unfolding run using 1(1) by (simp add: xbind_def xget_def)
    qed
  next
    case 2
    then show ?thesis unfolding run by (simp add: xbind_def)
  qed
qed

subsection \<open>The constructor\<close>

lemma make_labels_run:
  "make_labels n e = Ok ([length (em_labels e)..<length (em_labels e) + n],
     e\<lparr>em_labels := em_labels e @ replicate n \<lparr>ls_bound = False, ls_index = 0, ls_pending = []\<rparr>\<rparr>)"
proof (induction n arbitrary: e)
  case (Suc n)
  show ?case
    using Suc [of "e\<lparr>em_labels := em_labels e @ [\<lparr>ls_bound = False, ls_index = 0, ls_pending = []\<rparr>]\<rparr>"]
    by (simp add: xbind_def make_label_def xmod_def xget_def xreturn_def upt_rec)
qed (simp add: xreturn_def)

lemma codegen_for_run:
  assumes "codegen_for env c self = Ok (g, s)"
  shows "gi_env g = env" "gi_chunk g = c" "gi_self g = self" "gi_entry g = 0" "gi_labels g = [1..<Suc (length (rc_code c))]"
    "gi_returns g = filter (\<lambda>i. unfused_op (rc_code c ! i) = rg_byte RgReturn \<or> unfused_op (rc_code c ! i) = rg_byte RgReturnNil) [0..<length (rc_code c)]"
    "s = \<lparr>cg_emitter = \<lparr>em_code = [], em_labels = replicate (Suc (length (rc_code c))) \<lparr>ls_bound = False, ls_index = 0, ls_pending = []\<rparr>\<rparr>,
      cg_exits = replicate (length (rc_code c)) None, cg_nested = None\<rparr>"
proof -
  have f: "filter (\<lambda>i. map unfused_op (rc_code c) ! i = rg_byte RgReturn \<or> map unfused_op (rc_code c) ! i = rg_byte RgReturnNil) [0..<length (rc_code c)] =
    filter (\<lambda>i. unfused_op (rc_code c ! i) = rg_byte RgReturn \<or> unfused_op (rc_code c ! i) = rg_byte RgReturnNil) [0..<length (rc_code c)]"
    by (rule filter_cong) simp_all
  note r = assms [unfolded codegen_for_def Let_def xbind_def make_label_def xmod_def xget_def new_emitter_def, simplified,
      unfolded make_labels_run xreturn_def, simplified]
  show "gi_env g = env" "gi_chunk g = c" "gi_self g = self" "gi_entry g = 0" "gi_labels g = [1..<Suc (length (rc_code c))]"
    "gi_returns g = filter (\<lambda>i. unfused_op (rc_code c ! i) = rg_byte RgReturn \<or> unfused_op (rc_code c ! i) = rg_byte RgReturnNil) [0..<length (rc_code c)]"
    "s = \<lparr>cg_emitter = \<lparr>em_code = [], em_labels = replicate (Suc (length (rc_code c))) \<lparr>ls_bound = False, ls_index = 0, ls_pending = []\<rparr>\<rparr>,
      cg_exits = replicate (length (rc_code c)) None, cg_nested = None\<rparr>"
    using r f by auto
qed

lemma codegen_for_ready:
  assumes "codegen_for env c self = Ok (g, s)"
  shows "gready (Some (length (rc_code (gi_chunk g)))) (insert (gi_entry g) (set (gi_labels g))) (insert (gi_entry g) (set (gi_labels g))) s"
  using codegen_for_run [OF assms]
  by (auto simp: gready_def e_ready_def opens_def exit_set_def target_def apart_def nth_append simp del: replicate_Suc upt_Suc)

lemma codegen_for_Ok: "\<exists>g s. codegen_for env c self = Ok (g, s)"
  by (simp add: codegen_for_def Let_def xbind_def make_label_def xmod_def xget_def make_labels_run xreturn_def)

subsection \<open>The whitelist\<close>

text \<open>The fields of an instruction that name registers.\<close>

definition register_fields :: "instruction \<Rightarrow> 32 word list" where
  "register_fields insn =
     (let a = insn_a insn; b = (if b_is_const insn then [] else [insn_b insn]); c = (if c_is_const insn then [] else [insn_c insn])
      in case rg_of_byte (unfused_op insn) of
           None \<Rightarrow> []
         | Some op \<Rightarrow>
             if op = RgMove then [a, insn_b insn]
             else if op \<in> set [RgLoadK, RgLoadNil, RgLoadTrue, RgLoadFalse, RgGetGlobal, RgJumpIfFalse, RgJumpIfTrue, RgCall] then [a]
             else if op \<in> set [RgAdd, RgSub, RgMul, RgDiv, RgMod, RgEq, RgNe, RgLt, RgLe, RgGt, RgGe, RgIndexGet, RgIndexSet]
             then a # b @ c
             else if op = RgNeg then a # b
             else if op = RgReturn then b
             else [])"

definition registers_fit :: "reg_chunk \<Rightarrow> bool" where
  "registers_fit c \<longleftrightarrow> (\<forall>insn\<in>set (rc_code c). \<forall>r\<in>set (register_fields insn). unat r < rc_frame_size c)"

definition opcodes_ok :: "reg_chunk \<Rightarrow> bool" where
  "opcodes_ok c \<longleftrightarrow> (\<forall>insn\<in>set (rc_code c). rg_of_byte (unfused_op insn) \<noteq> None)"

lemma check_from_None:
  "check_from h env c self i code = Ok None \<Longrightarrow> j < length code \<Longrightarrow> instruction_problem h env c self (i + j) (code ! j) = Ok None"
proof (induction code arbitrary: i j)
  case (Cons insn code)
  have head: "instruction_problem h env c self i insn = Ok None" and tail: "check_from h env c self (i + 1) code = Ok None"
    using Cons.prems(1) by (auto simp: bind_simps split: option.splits)
  show ?case
  proof (cases j)
    case 0
    then show ?thesis using head by simp
  next
    case (Suc k)
    then show ?thesis using Cons.IH [OF tail, of k] Cons.prems(2) by simp
  qed
qed simp

lemma rk_problem_None:
  assumes "rk_problem h c insn f flag b = Ok None" "insn_flags insn AND flag \<noteq> 0"
  shows "\<exists>v. constant_of c f = Ok v" "b \<Longrightarrow> \<exists>i. constant_of c f = Ok (VInt i)"
proof -
  obtain v where v: "constant_of c f = Ok v" "constant_problem h v b = Ok None"
    using assms by (auto simp: rk_problem_def bind_simps)
  show "\<exists>v. constant_of c f = Ok v" using v(1) by blast
  show "\<exists>i. constant_of c f = Ok (VInt i)" if b
    using v that by (cases v) (auto simp: constant_problem_def bind_simps)
qed

lemma both_rk_problem_None:
  assumes "both_rk_problem h c insn b = Ok None"
  shows "rk_problem h c insn (insn_b insn) kFlagBConst b = Ok None" "rk_problem h c insn (insn_c insn) kFlagCConst b = Ok None"
  using assms by (auto simp: both_rk_problem_def bind_simps split: if_splits)

lemma whitelisted_operands:
  assumes "both_rk_problem h c insn b = Ok None" "gi_chunk g = c"
    "fits \<Longrightarrow> near (insn_a insn) \<and> (\<not> b_is_const insn \<longrightarrow> near (insn_b insn)) \<and> (\<not> c_is_const insn \<longrightarrow> near (insn_c insn))"
  shows "any_operands fits g insn" "b \<Longrightarrow> int_operands fits g insn"
  using both_rk_problem_None [OF assms(1), THEN rk_problem_None(1)] both_rk_problem_None [OF assms(1), THEN rk_problem_None(2)] assms(2,3)
  by (auto simp: any_operands_def int_operands_def known_constant_def int_constant_def b_is_const_def c_is_const_def)

lemma register_near:
  assumes "registers_fit c" "insn \<in> set (rc_code c)" "rc_frame_size c \<le> kMaxFrameSize" "r \<in> set (register_fields insn)"
  shows "near r"
proof -
  have "unat r < rc_frame_size c" using assms(1,2,4) by (simp add: registers_fit_def)
  then show ?thesis using assms(3) by (simp add: near_def kMaxFrameSize_def)
qed

lemma op_of_unfused: "rg_of_byte (unfused_op insn) = Some op \<Longrightarrow> unfused_op insn = rg_byte k \<longleftrightarrow> op = k"
  using rg_of_byte_Some rg_of_byte_rg_byte by (metis option.inject)

text \<open>The returns that a call's code copies results of.\<close>

lemma whitelisted_return:
  assumes r: "r < length (rc_code c)" "unfused_op (rc_code c ! r) = rg_byte RgReturn \<or> unfused_op (rc_code c ! r) = rg_byte RgReturnNil"
    and ok: "instruction_problem h env c self r (rc_code c ! r) = Ok None" and g: "gi_chunk g = c"
    and fit: "fits \<Longrightarrow> registers_fit c \<and> unat a < rc_frame_size c" "rc_frame_size c \<le> kMaxSelfCallFrameSize"
  shows "return_ok fits g a r"
proof (cases "unfused_op (rc_code c ! r) = rg_byte RgReturnNil")
  case False
  let ?ret = "rc_code c ! r"
  have op: "rg_of_byte (unfused_op ?ret) = Some RgReturn" using False r(2) rg_of_byte_rg_byte [of RgReturn] by simp
  have rk: "rk_problem h c ?ret (insn_b ?ret) kFlagBConst False = Ok None"
    using ok by (simp add: instruction_problem_def Let_def op)
  show ?thesis
  proof (cases "b_is_const ?ret")
    case True
    then show ?thesis using rk_problem_None(1) [OF rk] r(1) g
      by (auto simp: return_ok_def known_constant_def b_is_const_def Let_def)
  next
    case c: False
    have "near (a + 1 + insn_b ?ret)" if fits
    proof -
      have "insn_b ?ret \<in> set (register_fields ?ret)" using op c by (simp add: register_fields_def)
      then have "unat (insn_b ?ret) < rc_frame_size c" using fit(1) that r(1) by (auto simp: registers_fit_def)
      then have b: "unat a \<le> 2046" "unat (insn_b ?ret) \<le> 2046" using fit that by (auto simp: kMaxSelfCallFrameSize_def)
      then have "unat (a + 1) = unat a + 1" by (simp add: unat_word_ariths)
      moreover from this b have "unat (a + 1 + insn_b ?ret) = unat (a + 1) + unat (insn_b ?ret)"
        by (intro unat_add_lem [THEN iffD1]) simp
      ultimately show ?thesis using b by (simp add: near_def)
    qed
    then show ?thesis using c r(1) g by (simp add: return_ok_def Let_def)
  qed
qed (use r(1) g in \<open>simp add: return_ok_def Let_def\<close>)

lemma whitelisted_insn:
  assumes ok: "instruction_problem h env c self i (rc_code c ! i) = Ok None" and i: "i < length (rc_code c)"
    and op: "rg_of_byte (unfused_op (rc_code c ! i)) = Some op"
    and g: "gi_chunk g = c" "gi_self g = self" "gi_env g = env" "length (gi_labels g) = length (rc_code c)"
    and fit: "fits \<Longrightarrow> registers_fit c \<and> layouts_ok env" "rc_frame_size c \<le> kMaxFrameSize"
    and returns: "\<And>a. (fits \<Longrightarrow> unat a < rc_frame_size c) \<Longrightarrow> rc_frame_size c \<le> kMaxSelfCallFrameSize \<Longrightarrow>
      \<forall>r\<in>set (gi_returns g). return_ok fits g a r"
  shows "op_ok fits g i (rc_code c ! i) op"
proof -
  let ?insn = "rc_code c ! i"
  have near: "near r" if fits "r \<in> set (register_fields ?insn)" for r
    using register_near [of c ?insn r] fit that i by simp
  have below: "unat r < rc_frame_size c" if fits "r \<in> set (register_fields ?insn)" for r
    using fit(1) that i by (auto simp: registers_fit_def)
  note p = ok [unfolded instruction_problem_def Let_def op option.case]
  note near_op = near [unfolded register_fields_def Let_def op option.case]
  have abc: "near (insn_a ?insn) \<and> (\<not> b_is_const ?insn \<longrightarrow> near (insn_b ?insn)) \<and> (\<not> c_is_const ?insn \<longrightarrow> near (insn_c ?insn))"
    if fits "op \<in> {RgAdd, RgSub, RgMul, RgDiv, RgMod, RgEq, RgNe, RgLt, RgLe, RgGt, RgGe, RgIndexGet, RgIndexSet}"
    using near_op that by auto
  consider "op \<in> {RgAdd, RgSub, RgMul, RgDiv, RgMod, RgEq, RgNe, RgLt, RgLe, RgGt, RgGe}" | "op \<in> {RgIndexGet, RgIndexSet}"
    | "op = RgCall" | "op = RgNeg" | "op \<in> {RgJump, RgJumpIfFalse, RgJumpIfTrue}" | "op \<in> {RgMove, RgLoadK, RgLoadNil, RgLoadTrue, RgLoadFalse}"
    | "op = RgGetGlobal" | "op \<in> {RgReturn, RgReturnNil}"
    using p by (cases op) simp_all
  then show ?thesis
  proof cases
    case 1
    then have "both_rk_problem h c ?insn True = Ok None" using p by auto
    from whitelisted_operands(2) [OF this g(1) abc] 1 near_op show ?thesis by (auto simp: op_ok_def)
  next
    case 2
    then have b: "both_rk_problem h c ?insn False = Ok None" and u: "al_usable (je_array env)" using p by (auto split: if_splits)
    have "array_ok fits g" using fit(1) u g(3) by (auto simp: array_ok_def layouts_ok_def)
    then show ?thesis using whitelisted_operands(1) [OF b g(1) abc] 2 by (auto simp: op_ok_def)
  next
    case 3
    then have sc: "self_call_problem h env c self = Ok None" using p by simp
    then have self: "self \<noteq> None" "cl_usable (je_closure env)" "rc_frame_size c \<le> kMaxSelfCallFrameSize"
      by (auto simp: self_call_problem_def split: option.splits if_splits)
    have "closure_ok fits g" using fit(1) self(2) g(3) by (auto simp: closure_ok_def layouts_ok_def)
    moreover have "fits \<Longrightarrow> unat (insn_a ?insn) < rc_frame_size c" using below op 3 by (simp add: register_fields_def)
    ultimately show ?thesis using self near_op returns g 3 by (simp add: op_ok_def call_ok_def)
  next
    case 4
    then show ?thesis using p near_op rk_problem_None(2) [of h c ?insn "insn_b ?insn" kFlagBConst True] g(1)
      by (auto simp: op_ok_def int_constant_def b_is_const_def)
  next
    case 5
    then show ?thesis using p near_op g(4) by (auto simp: op_ok_def target_ok_def split: if_splits)
  next
    case 6
    then show ?thesis using p near_op g(1) by (auto simp: op_ok_def known_constant_def bind_simps)
  next
    case 7
    then show ?thesis using p near_op g(2) by (auto simp: op_ok_def split: option.splits if_splits)
  next
    case 8
    then show ?thesis by (auto simp: op_ok_def)
  qed
qed

subsection \<open>Properties\<close>

text \<open>A bound on the words of the machine code, from the bytecode alone.\<close>

definition returns_of :: "reg_chunk \<Rightarrow> nat list" where
  "returns_of c =
     filter (\<lambda>i. unfused_op (rc_code c ! i) = rg_byte RgReturn \<or> unfused_op (rc_code c ! i) = rg_byte RgReturnNil)
       [0..<length (rc_code c)]"

definition max_words :: "reg_chunk \<Rightarrow> nat" where
  "max_words c =
     28 + sum_list (map (\<lambda>insn. if unfused_op insn = rg_byte RgCall then 113 + 10 * length (returns_of c) else 23) (rc_code c)) +
     5 * length (rc_code c)"

lemma max_words_leaf:
  assumes "rg_byte RgCall \<notin> unfused_op ` set (rc_code c)"
  shows "max_words c = 28 + 28 * length (rc_code c)"
proof -
  have "unfused_op insn \<noteq> rg_byte RgCall" if "insn \<in> set (rc_code c)" for insn using assms that by (metis imageI)
  then have "map (\<lambda>insn. if unfused_op insn = rg_byte RgCall then 113 + 10 * length (returns_of c) else 23) (rc_code c) =
    map (\<lambda>_. 23) (rc_code c)" by (intro map_cong refl) (simp only: if_False)
  then show ?thesis unfolding max_words_def by (simp add: map_replicate_const sum_list_replicate del: map_eq_conv)
qed

lemma generate_goes:
  assumes wl: "check_whitelist h env c self = Ok None" and ops: "opcodes_ok c"
    and fit: "fits \<Longrightarrow> registers_fit c \<and> layouts_ok env \<and> max_words c \<le> kReach"
  shows "(\<exists>code. generate env c self = Ok code \<and> length (gc_words code) \<le> max_words c \<and>
      length (gc_starts code) = length (rc_code c)) \<or>
    \<not> fits \<and> (\<exists>msg. generate env c self = Error (EmitError msg) \<and> arm_error msg)"
proof -
  obtain g s where gs: "codegen_for env c self = Ok (g, s)" using codegen_for_Ok by blast
  note g = codegen_for_run [OF gs]
  have labels: "length (gi_labels g) = length (rc_code c)" "distinct (gi_labels g)" "gi_entry g \<notin> set (gi_labels g)"
    by (simp_all add: g(4,5) del: upt_Suc)
  have small: "rc_frame_size c \<le> kMaxFrameSize" and wl': "check_from h env c self 0 (rc_code c) = Ok None"
    using wl by (auto simp: check_whitelist_def split: if_splits)
  have wlj: "instruction_problem h env c self j (rc_code c ! j) = Ok None" if "j < length (rc_code c)" for j
    using check_from_None [OF wl' that] by simp
  have returns: "\<forall>r\<in>set (gi_returns g). return_ok fits g a r"
    if "fits \<Longrightarrow> unat a < rc_frame_size c" "rc_frame_size c \<le> kMaxSelfCallFrameSize" for a
    using that fit wlj by (auto simp: g(6) intro!: whitelisted_return [OF _ _ _ g(2)])
  have "insn_ok fits g j (rc_code c ! j)" if j: "j < length (rc_code c)" for j
  proof -
    obtain op where op: "rg_of_byte (unfused_op (rc_code c ! j)) = Some op" using ops j by (fastforce simp: opcodes_ok_def)
    have "op_ok fits g j (rc_code c ! j) op"
      by (rule whitelisted_insn [OF wlj [OF j] j op g(2,3,1) _ _ small returns]) (use labels fit in auto)
    then show ?thesis by (simp add: insn_ok_def op)
  qed
  moreover have "code_words g = max_words c"
    unfolding code_words_def max_words_def insn_words_def g(2) g(6) returns_of_def ..
  ultimately have "(\<exists>code t. gen_run g s = Ok (code, t) \<and> length (gc_words code) \<le> max_words c \<and>
      length (gc_starts code) = length (rc_code c)) \<or>
    \<not> fits \<and> (\<exists>msg. gen_run g s = Error (EmitError msg) \<and> arm_error msg)"
    using gen_run_goes [OF codegen_for_ready [OF gs], of fits] fit labels g(2,7) by simp
  then show ?thesis using gs by (auto simp: generate_def)
qed


text \<open>\<open>fun next(n) { return n + 1; }\<close>.\<close>

definition next_chunk :: reg_chunk where
  "next_chunk =
     \<lparr>rc_code = [make_abc (rg_byte RgAdd) 1 0 0 kFlagCConst, make_abc (rg_byte RgReturn) 0 1 0 0, make_abc (rg_byte RgReturnNil) 0 0 0 0],
      rc_constants = [VInt 1], rc_lines = [], rc_frame_size = 2\<rparr>"

definition plain_env :: jit_env where
  "plain_env =
     \<lparr>je_array = \<lparr>al_usable = True, al_kind = 8, al_begin = 24, al_end = 32\<rparr>,
      je_closure = \<lparr>cl_usable = True, cl_kind = 8, cl_function = 24\<rparr>, je_pointer = (\<lambda>_. 0), je_code = 0\<rparr>"


end
