(* ===== verification/Exec_Memory.thy ===== *)
theory Exec_Memory
  imports Jit_Compiler
begin

text \<open>
  \<open>jit/exec_memory.h\<close> and \<open>exec_memory.cpp\<close>: the buffers that own executable memory. The memory is the list
  of the mappings the program ever made, an address in it is the number of a mapping, and a mapping that
  was unmapped stays in the list, marked so. The operating system is the argument \<open>os\<close>: its page size,
  which mappings and which changes of permission it grants, and its text for an error. The steps are those
  of the Linux branch; on macOS the two changes of permission are a switch of the calling thread that cannot
  fail, which is the instance where \<open>os_mprotect\<close> grants everything. Caches are not modelled.
\<close>

record exec_map =
  mp_words :: "32 word list"
  mp_executable :: bool
  mp_mapped :: bool

type_synonym memory = "exec_map list"

record os =
  os_page :: nat
  os_mmap :: "nat \<Rightarrow> bool"
  os_mprotect :: "nat \<Rightarrow> bool \<Rightarrow> bool"
  os_strerror :: string

text \<open>\<open>ExecMemoryError\<close>, as its text.\<close>

type_synonym 'a mem_result = "string + 'a"

record exec_buffer =
  eb_base :: "nat option"
  eb_mapped :: nat
  eb_size :: nat

definition kHeaderBytes :: nat where "kHeaderBytes = 16"

definition mem_fail :: "os \<Rightarrow> string \<Rightarrow> 'a mem_result" where
  "mem_fail os what = Inl (what @ '': '' @ os_strerror os)"

definition round_up_to_page :: "os \<Rightarrow> nat \<Rightarrow> nat" where
  "round_up_to_page os bytes = (bytes + os_page os - 1) div os_page os * os_page os"

text \<open>The constructor. Fresh pages are zero.\<close>

definition new_exec_buffer :: "os \<Rightarrow> nat \<Rightarrow> memory \<Rightarrow> (exec_buffer \<times> memory) mem_result" where
  "new_exec_buffer os capacity mem =
     (let mapped = round_up_to_page os (kHeaderBytes + capacity)
      in if \<not> os_mmap os mapped then mem_fail os ''mmap for executable memory failed''
         else Inr (\<lparr>eb_base = Some (length mem), eb_mapped = mapped, eb_size = 0\<rparr>,
                   mem @ [\<lparr>mp_words = replicate (mapped div 4) 0, mp_executable = False, mp_mapped = True\<rparr>]))"

definition moved_from :: exec_buffer where
  "moved_from = \<lparr>eb_base = None, eb_mapped = 0, eb_size = 0\<rparr>"

definition release :: "exec_buffer \<Rightarrow> memory \<Rightarrow> exec_buffer \<times> memory" where
  "release eb mem =
     (moved_from, case eb_base eb of None \<Rightarrow> mem | Some b \<Rightarrow> mem[b := (mem ! b)\<lparr>mp_mapped := False\<rparr>])"

text \<open>The move constructor, and move assignment between two different buffers.\<close>

definition move_buffer :: "exec_buffer \<Rightarrow> exec_buffer \<times> exec_buffer" where
  "move_buffer other = (other, moved_from)"

definition move_assign :: "exec_buffer \<Rightarrow> exec_buffer \<Rightarrow> memory \<Rightarrow> (exec_buffer \<times> exec_buffer) \<times> memory" where
  "move_assign this other mem = (move_buffer other, snd (release this mem))"

definition capacity_bytes :: "exec_buffer \<Rightarrow> nat" where
  "capacity_bytes eb = eb_mapped eb - kHeaderBytes"

definition write_code :: "os \<Rightarrow> 32 word list \<Rightarrow> exec_buffer \<Rightarrow> memory \<Rightarrow> (exec_buffer \<times> memory) mem_result" where
  "write_code os words eb mem =
     (case eb_base eb of
        None \<Rightarrow> Inl ''write to a moved-from ExecBuffer''
      | Some b \<Rightarrow>
          if capacity_bytes eb div 4 < length words then Inl ''code does not fit in ExecBuffer''
          else if \<not> os_mprotect os b False then mem_fail os ''mprotect to read-write failed''
          else
            (let start = kHeaderBytes div 4;
                 m = mem ! b;
                 m = m\<lparr>mp_executable := False\<rparr>;
                 m = m\<lparr>mp_words := take start (mp_words m) @ words @ drop (start + length words) (mp_words m)\<rparr>
             in if \<not> os_mprotect os b True then mem_fail os ''mprotect to read-execute failed''
                else Inr (eb\<lparr>eb_size := 4 * length words\<rparr>, mem[b := m\<lparr>mp_executable := True\<rparr>])))"

text \<open>\<open>entry\<close>: the mapping; its code starts behind the header.\<close>

definition entry_of :: "exec_buffer \<Rightarrow> nat option" where
  "entry_of eb = eb_base eb"

definition word_at :: "memory \<Rightarrow> nat \<Rightarrow> nat \<Rightarrow> 32 word" where
  "word_at mem e i = mp_words (mem ! e) ! (kHeaderBytes div 4 + i)"

subsection \<open>What a buffer holds\<close>

text \<open>\<open>holds_code mem e words\<close>: calling \<open>e\<close> runs exactly \<open>words\<close>.\<close>

definition holds_code :: "memory \<Rightarrow> nat \<Rightarrow> 32 word list \<Rightarrow> bool" where
  "holds_code mem e words \<longleftrightarrow>
     e < length mem \<and> mp_mapped (mem ! e) \<and> mp_executable (mem ! e) \<and>
     take (length words) (drop (kHeaderBytes div 4) (mp_words (mem ! e))) = words"

lemma holds_code_grow: "holds_code mem e words \<Longrightarrow> holds_code (mem @ mem2) e words"
  by (auto simp: holds_code_def nth_append)

lemma holds_code_word: "holds_code mem e words \<Longrightarrow> i < length words \<Longrightarrow> word_at mem e i = words ! i"
proof -
  assume h: "holds_code mem e words" and i: "i < length words"
  then have w: "take (length words) (drop 4 (mp_words (mem ! e))) = words" by (simp add: holds_code_def kHeaderBytes_def)
  then have "length (take (length words) (drop 4 (mp_words (mem ! e)))) = length words" by simp
  then have "4 + i < length (mp_words (mem ! e))" using i by simp
  then have "take (length words) (drop 4 (mp_words (mem ! e))) ! i = mp_words (mem ! e) ! (4 + i)" using i by simp
  then show ?thesis using w by (simp add: word_at_def kHeaderBytes_def)
qed

lemma round_up_le: "0 < os_page os \<Longrightarrow> bytes \<le> round_up_to_page os bytes"
proof -
  assume p: "0 < os_page os"
  define n where "n = bytes + os_page os - 1"
  have "n = n div os_page os * os_page os + n mod os_page os" by simp
  moreover have "n mod os_page os < os_page os" using p by simp
  ultimately have "n < n div os_page os * os_page os + os_page os" by linarith
  moreover have "bytes + os_page os = n + 1" using p by (simp add: n_def)
  ultimately have "bytes \<le> n div os_page os * os_page os" by linarith
  then show ?thesis by (simp add: round_up_to_page_def n_def)
qed

text \<open>A fresh buffer with room for the words takes them, and then holds them; older mappings stay.\<close>

lemma write_fresh:
  assumes "0 < os_page os" "new_exec_buffer os (4 * length words) mem = Inr (eb, mem1)"
    "write_code os words eb mem1 = r"
  shows "(\<exists>msg. r = Inl msg) \<or>
    (\<exists>m. r = Inr (\<lparr>eb_base = Some (length mem), eb_mapped = eb_mapped eb, eb_size = 4 * length words\<rparr>, mem @ [m]) \<and>
      holds_code (mem @ [m]) (length mem) words)"
proof -
  let ?n = "round_up_to_page os (kHeaderBytes + 4 * length words)"
  have "16 + 4 * length words \<le> ?n"
    using round_up_le [OF assms(1), of "16 + 4 * length words"] by (simp add: kHeaderBytes_def)
  then have room: "length words \<le> (?n - 16) div 4" "4 + length words \<le> ?n div 4" by linarith+
  have eb: "eb = \<lparr>eb_base = Some (length mem), eb_mapped = ?n, eb_size = 0\<rparr>"
    "mem1 = mem @ [\<lparr>mp_words = replicate (?n div 4) 0, mp_executable = False, mp_mapped = True\<rparr>]"
    using assms(2) by (auto simp: new_exec_buffer_def Let_def mem_fail_def split: if_splits)
  show ?thesis
    using assms(3) room unfolding eb
    by (auto simp: write_code_def Let_def mem_fail_def capacity_bytes_def holds_code_def kHeaderBytes_def nth_append
        split: if_splits)
qed

end
