(* ===== verification/Jit_Runtime.thy ===== *)
theory Jit_Runtime
  imports Exec_Memory
begin

text \<open>
  \<open>jit/jit.h\<close> and \<open>jit.cpp\<close>, with the hooks of \<open>vm_reg.cpp\<close> that call them: the class \<open>Jit\<close>, which compiles hot
  functions on the engine's thread or on a compiler thread of its own, and the fields the JIT keeps on a
  function (\<open>function.h\<close>). This theory has the data and one definition per critical section of the two
  threads; \<open>Jit_Threads\<close> interleaves them. What the program reads from outside is an argument: the
  operating system and the layouts (\<open>jit_setup\<close>), the time a compilation took (\<open>ns\<close>), and the cell of the
  global named like a function (\<open>cell\<close>, which the engine looks up in its table).
\<close>

subsection \<open>Data\<close>

datatype jit_status = JitCold | JitQueued | JitCompiled | JitRejected

text \<open>The JIT's fields of a function object.\<close>

record jit_fields =
  jf_hotness :: "32 word"
  jf_status :: jit_status
  jf_entry :: "nat option"
  jf_self_global :: "64 word option"

definition cold :: jit_fields where
  "cold = \<lparr>jf_hotness = 0, jf_status = JitCold, jf_entry = None, jf_self_global = None\<rparr>"

record built =
  bt_buffer :: "exec_buffer option"
  bt_entry :: "nat option"
  bt_bytes :: nat
  bt_ns :: "64 word"
  bt_log_line :: string

record job =
  jb_function :: addr
  jb_qos :: "32 word"

text \<open>The class. \<open>jt_log\<close> holds the lines written to the log, or is \<open>None\<close> without one; \<open>jt_joinable\<close> is
  \<open>worker_.joinable()\<close>.\<close>

record jit =
  jt_threshold :: "32 word"
  jt_log :: "string list option"
  jt_background :: bool
  jt_queue :: "job list"
  jt_compiling :: "addr option"
  jt_stopping :: bool
  jt_held :: bool
  jt_buffers :: "exec_buffer list"
  jt_compiled :: "64 word"
  jt_rejected :: "64 word"
  jt_code_bytes :: "64 word"
  jt_compile_ns :: "64 word"
  jt_joinable :: bool
  jt_bailouts :: "64 word"

definition new_jit :: "32 word \<Rightarrow> bool \<Rightarrow> bool \<Rightarrow> jit" where
  "new_jit threshold log background =
     \<lparr>jt_threshold = threshold, jt_log = (if log then Some [] else None), jt_background = background,
      jt_queue = [], jt_compiling = None, jt_stopping = False, jt_held = False, jt_buffers = [],
      jt_compiled = 0, jt_rejected = 0, jt_code_bytes = 0, jt_compile_ns = 0, jt_joinable = background,
      jt_bailouts = 0\<rparr>"

record jit_setup =
  js_os :: os
  js_env :: "addr \<Rightarrow> jit_env"

text \<open>Why the process dies: \<open>abort\<close>, with what it writes to the error stream first, or an access the model
  cannot perform (a freed object, an index outside the code).\<close>

datatype jit_fault = Abort string | BadAccess

type_synonym 'a jit_result = "(jit_fault, 'a) outcome"

definition log_line :: "string \<Rightarrow> jit \<Rightarrow> jit" where
  "log_line line j = j\<lparr>jt_log := map_option (\<lambda>lines. lines @ [line]) (jt_log j)\<rparr>"

subsection \<open>Compiling one function\<close>

definition function_object_at :: "heap \<Rightarrow> addr \<Rightarrow> function_object jit_result" where
  "function_object_at h f = (case obj_at h f of Some (OFunction fo) \<Rightarrow> Ok fo | _ \<Rightarrow> Error BadAccess)"

definition function_name :: "heap \<Rightarrow> function_object \<Rightarrow> string jit_result" where
  "function_name h fo =
     (case fo_name fo of
        None \<Rightarrow> Ok ''<script>''
      | Some a \<Rightarrow> (case obj_at h a of Some (OString s) \<Rightarrow> Ok s | _ \<Rightarrow> Error BadAccess))"

definition self_of :: "jit_setup \<Rightarrow> addr \<Rightarrow> function_object \<Rightarrow> 64 word option \<Rightarrow> self_call" where
  "self_of S f fo cell = \<lparr>sf_function = fo, sf_address = je_pointer (js_env S f) f, sf_global = cell\<rparr>"

text \<open>The first half of \<open>build\<close>: why the function stays in the VM (empty if it compiles), and its code.\<close>

definition no_code :: generated_code where
  "no_code = \<lparr>gc_words = [], gc_starts = []\<rparr>"

definition rejection_text :: "reg_chunk \<Rightarrow> nat \<Rightarrow> string \<Rightarrow> string jit_result" where
  "rejection_text c i reason =
     (if i < length (rc_code c)
      then Ok (''instruction '' @ nat_digits i @ '' ('' @ reg_byte_name (unfused_op (rc_code c ! i)) @ '') '' @ reason)
      else Error BadAccess)"

definition generate_or_reject :: "jit_env \<Rightarrow> reg_chunk \<Rightarrow> self_call \<Rightarrow> (string \<times> generated_code) jit_result" where
  "generate_or_reject env c self =
     (case generate env c (Some self) of
        Ok code \<Rightarrow> Ok ('''', code)
      | Error (EmitError what) \<Rightarrow> Ok (what, no_code)
      | Error Undefined \<Rightarrow> Error BadAccess
      | Timeout \<Rightarrow> Timeout)"

definition translate :: "heap \<Rightarrow> jit_env \<Rightarrow> reg_chunk \<Rightarrow> self_call \<Rightarrow> (string \<times> generated_code) jit_result" where
  "translate h env c self =
     (case check_whitelist h env c (Some self) of
        Ok (Some (i, reason)) \<Rightarrow> bindo (rejection_text c i reason) (\<lambda>text. Ok (text, no_code))
      | Ok None \<Rightarrow> generate_or_reject env c self
      | Error _ \<Rightarrow> Error BadAccess
      | Timeout \<Rightarrow> Timeout)"

text \<open>The buffer that \<open>build\<close> makes for the words; a refusal of the system is an abort.\<close>

definition place_code :: "os \<Rightarrow> 32 word list \<Rightarrow> memory \<Rightarrow> (exec_buffer \<times> memory) jit_result" where
  "place_code os words mem =
     (case sbind (new_exec_buffer os (4 * length words) mem) (\<lambda>(buffer, mem). write_code os words buffer mem) of
        Inr placed \<Rightarrow> Ok placed
      | Inl what \<Rightarrow> Error (Abort (''rung: jit: '' @ what)))"

definition compiled_line :: "string \<Rightarrow> reg_chunk \<Rightarrow> 32 word list \<Rightarrow> 64 word \<Rightarrow> string" where
  "compiled_line name c words ns =
     ''[jit] compiled '' @ name @ '': '' @ nat_digits (length (rc_code c)) @ '' bytecode instructions -> '' @
     nat_digits (length words) @ '' machine instructions ('' @ nat_digits (4 * length words) @ '' bytes) in '' @
     nat_digits (unat ns) @ '' ns''"

definition build :: "jit_setup \<Rightarrow> heap \<Rightarrow> addr \<Rightarrow> 64 word option \<Rightarrow> 64 word \<Rightarrow> memory \<Rightarrow> (built \<times> memory) jit_result" where
  "build S h f cell ns mem =
     bindo (function_object_at h f) (\<lambda>fo.
     bindo (translate h (js_env S f) (fo_reg fo) (self_of S f fo cell)) (\<lambda>(rejected_because, code).
     if rejected_because = [] then
       bindo (place_code (js_os S) (gc_words code) mem) (\<lambda>(buffer, mem).
       bindo (function_name h fo) (\<lambda>name.
         Ok (\<lparr>bt_buffer = Some buffer, bt_entry = entry_of buffer, bt_bytes = 4 * length (gc_words code), bt_ns = ns,
              bt_log_line = compiled_line name (fo_reg fo) (gc_words code) ns\<rparr>, mem)))
     else
       bindo (function_name h fo) (\<lambda>name.
         Ok (\<lparr>bt_buffer = None, bt_entry = None, bt_bytes = 0, bt_ns = ns,
              bt_log_line = ''[jit] rejected '' @ name @ '': '' @ rejected_because\<rparr>, mem))))"

text \<open>\<open>record_locked\<close> moves the buffer out of \<open>built\<close>.\<close>

definition record_locked :: "built \<Rightarrow> jit \<Rightarrow> built \<times> jit" where
  "record_locked b j =
     (let j = j\<lparr>jt_compile_ns := jt_compile_ns j + bt_ns b\<rparr>
      in case bt_buffer b of
           Some buffer \<Rightarrow>
             (b\<lparr>bt_buffer := None\<rparr>,
              j\<lparr>jt_buffers := jt_buffers j @ [buffer], jt_code_bytes := jt_code_bytes j + of_nat (bt_bytes b),
                jt_compiled := jt_compiled j + 1\<rparr>)
         | None \<Rightarrow> (b, j\<lparr>jt_rejected := jt_rejected j + 1\<rparr>))"

subsection \<open>The world of the two threads\<close>

text \<open>Where the compiler thread is: it waits for work, it has taken a job, it has built it, it has published
  the entry, it is about to write the log line, or it has returned or killed the process. \<open>NoWorker\<close> is
  synchronous mode.\<close>

datatype worker =
    NoWorker
  | Waiting
  | Taken job
  | Finished job built
  | Published job built
  | Logging string
  | Exited
  | Died jit_fault

text \<open>Where the engine's thread is, as far as the compiler thread can tell: it runs, it collects with the
  roots its markers have reported, it waits for the compiler thread to end (with the functions that were
  dropped from the queue), or it has destroyed the JIT.\<close>

datatype engine_thread =
    Running
  | Collecting "addr list"
  | Joining "addr list"
  | Destroyed

record world =
  wd_jit :: jit
  wd_worker :: worker
  wd_engine :: engine_thread
  wd_fields :: "addr \<Rightarrow> jit_fields"
  wd_heap :: heap
  wd_memory :: memory

definition set_fields :: "addr \<Rightarrow> (jit_fields \<Rightarrow> jit_fields) \<Rightarrow> world \<Rightarrow> world" where
  "set_fields f upd w = w\<lparr>wd_fields := (wd_fields w)(f := upd (wd_fields w f))\<rparr>"

definition with_jit :: "(jit \<Rightarrow> jit) \<Rightarrow> world \<Rightarrow> world" where
  "with_jit upd w = w\<lparr>wd_jit := upd (wd_jit w)\<rparr>"

definition start_world :: "32 word \<Rightarrow> bool \<Rightarrow> bool \<Rightarrow> heap \<Rightarrow> world" where
  "start_world threshold log background h =
     \<lparr>wd_jit = new_jit threshold log background, wd_worker = (if background then Waiting else NoWorker),
      wd_engine = Running, wd_fields = (\<lambda>f. cold), wd_heap = h, wd_memory = []\<rparr>"

text \<open>\<open>mark_pending\<close>: the functions it marks, in its order.\<close>

definition pending :: "jit \<Rightarrow> addr list" where
  "pending j = map jb_function (jt_queue j) @ opt_addrs (jt_compiling j)"

subsection \<open>The engine's thread\<close>

text \<open>\<open>Jit::compile\<close>, the synchronous mode.\<close>

definition compile_now :: "jit_setup \<Rightarrow> 64 word \<Rightarrow> addr \<Rightarrow> world \<Rightarrow> world jit_result" where
  "compile_now S ns f w =
     bindo (build S (wd_heap w) f (jf_self_global (wd_fields w f)) ns (wd_memory w)) (\<lambda>(b, mem).
       let (b, j) = record_locked b (wd_jit w);
           w = w\<lparr>wd_memory := mem, wd_jit := j\<rparr>;
           w = (case bt_entry b of
                  Some e \<Rightarrow> set_fields f (\<lambda>x. x\<lparr>jf_entry := Some e, jf_status := JitCompiled\<rparr>) w
                | None \<Rightarrow> set_fields f (\<lambda>x. x\<lparr>jf_status := JitRejected\<rparr>) w)
       in Ok (with_jit (log_line (bt_log_line b)) w))"

text \<open>\<open>current_qos\<close> outside macOS, and \<open>enqueue\<close>.\<close>

definition current_qos :: "32 word" where "current_qos = 0"

definition enqueue :: "addr \<Rightarrow> world \<Rightarrow> world" where
  "enqueue f w =
     (let w = set_fields f (\<lambda>x. x\<lparr>jf_status := JitQueued\<rparr>) w
      in if jt_stopping (wd_jit w) then w
         else with_jit (\<lambda>j. j\<lparr>jt_queue := jt_queue j @ [\<lparr>jb_function = f, jb_qos = current_qos\<rparr>]\<rparr>) w)"

text \<open>\<open>RegisterEngine::jit_count\<close>.\<close>

definition jit_count :: "jit_setup \<Rightarrow> 64 word option \<Rightarrow> 64 word \<Rightarrow> addr \<Rightarrow> world \<Rightarrow> world jit_result" where
  "jit_count S cell ns f w =
     bindo (function_object_at (wd_heap w) f) (\<lambda>fo.
       if jf_status (wd_fields w f) \<noteq> JitCold \<or> fo_name fo = None then Ok w
       else
         (let w = set_fields f (\<lambda>x. x\<lparr>jf_hotness := jf_hotness x + 1\<rparr>) w
          in if jf_hotness (wd_fields w f) < jt_threshold (wd_jit w) then Ok w
             else
               (let w = set_fields f (\<lambda>x. x\<lparr>jf_self_global := cell\<rparr>) w
                in if jt_background (wd_jit w) then Ok (enqueue f w) else compile_now S ns f w)))"

text \<open>\<open>Jit::adopt\<close>.\<close>

definition adopt :: "addr \<Rightarrow> nat \<Rightarrow> world \<Rightarrow> world jit_result" where
  "adopt f e w =
     (if word_at (wd_memory w) e 0 = 0
      then bindo (function_object_at (wd_heap w) f) (\<lambda>fo. bindo (function_name (wd_heap w) fo) (\<lambda>name.
             Error (Abort (''rung: jit: published code for '' @ name @ '' is empty''))))
      else Ok (set_fields f (\<lambda>x. x\<lparr>jf_status := JitCompiled\<rparr>) w))"

text \<open>\<open>jit_frame_entry\<close>, after the count and up to the call of the machine code: the entry it calls, if any.\<close>

definition load_entry :: "addr \<Rightarrow> world \<Rightarrow> (nat option \<times> world) jit_result" where
  "load_entry f w =
     (case jf_entry (wd_fields w f) of
        None \<Rightarrow> Ok (None, w)
      | Some e \<Rightarrow>
          if jf_status (wd_fields w f) \<noteq> JitCompiled then bindo (adopt f e w) (\<lambda>w. Ok (Some e, w))
          else Ok (Some e, w))"

text \<open>\<open>note_bailout\<close>, and what \<open>jit_frame_entry\<close> does with the index the machine code returned: \<open>newest\<close> is the
  function of the newest frame and the instruction its saved \<open>pc\<close> stands at. The result is the instruction
  the VM goes on with, none when it reloads the newest frame.\<close>

definition note_bailout :: "addr \<Rightarrow> nat \<Rightarrow> world \<Rightarrow> world jit_result" where
  "note_bailout f index w =
     bindo (function_object_at (wd_heap w) f) (\<lambda>fo.
       let w = with_jit (\<lambda>j. j\<lparr>jt_bailouts := jt_bailouts j + 1\<rparr>) w
       in if jt_log (wd_jit w) = None then Ok w
          else if length (rc_code (fo_reg fo)) \<le> index then Error BadAccess
          else bindo (function_name (wd_heap w) fo) (\<lambda>name.
            Ok (with_jit (log_line (''[jit] bail-out in '' @ name @ '' at instruction '' @ nat_digits index @ '' ('' @
              reg_byte_name (insn_op (rc_code (fo_reg fo) ! index)) @ '', line '' @
              nat_digits (reg_line_at (fo_reg fo) index) @ '')'')) w)))"

definition after_machine_code :: "addr \<Rightarrow> 32 word \<Rightarrow> addr \<times> nat \<Rightarrow> world \<Rightarrow> (nat option \<times> world) jit_result" where
  "after_machine_code f resume newest w =
     (if resume = kNestedBailout then bindo (note_bailout (fst newest) (snd newest) w) (\<lambda>w. Ok (None, w))
      else
        bindo (function_object_at (wd_heap w) f) (\<lambda>fo.
          if length (rc_code (fo_reg fo)) \<le> unat resume then Error BadAccess
          else
            (let op = insn_op (rc_code (fo_reg fo) ! unat resume)
             in if op \<noteq> rg_byte RgReturn \<and> op \<noteq> rg_byte RgReturnNil
                then bindo (note_bailout f (unat resume) w) (\<lambda>w. Ok (Some (unat resume), w))
                else Ok (Some (unat resume), w))))"

definition hold_for_testing :: "bool \<Rightarrow> world \<Rightarrow> world" where
  "hold_for_testing hold w = with_jit (\<lambda>j. j\<lparr>jt_held := hold\<rparr>) w"

text \<open>The condition \<open>wait_until_idle\<close> waits for.\<close>

definition idle :: "jit \<Rightarrow> bool" where
  "idle j \<longleftrightarrow> (jt_queue j = [] \<or> jt_stopping j) \<and> jt_compiling j = None"

text \<open>\<open>shutdown\<close>, before and after it joins the thread, and the destructor, which unmaps the code.\<close>

definition shutdown_begin :: "world \<Rightarrow> world" where
  "shutdown_begin w =
     (if \<not> jt_joinable (wd_jit w) then w
      else
        (with_jit (\<lambda>j. j\<lparr>jt_stopping := True, jt_queue := []\<rparr>) w)
          \<lparr>wd_engine := Joining (map jb_function (jt_queue (wd_jit w)))\<rparr>)"

definition cancelled_line :: "string \<Rightarrow> string" where
  "cancelled_line name = ''[jit] cancelled '' @ name @ '': still queued at exit''"

fun log_cancelled :: "heap \<Rightarrow> addr list \<Rightarrow> jit \<Rightarrow> jit jit_result" where
  "log_cancelled h [] j = Ok j"
| "log_cancelled h (f # dropped) j =
     bindo (function_object_at h f) (\<lambda>fo. bindo (function_name h fo) (\<lambda>name.
       log_cancelled h dropped (log_line (cancelled_line name) j)))"

definition shutdown_end :: "addr list \<Rightarrow> world \<Rightarrow> world jit_result" where
  "shutdown_end dropped w =
     (let w = (with_jit (\<lambda>j. j\<lparr>jt_joinable := False\<rparr>) w)\<lparr>wd_engine := Running\<rparr>
      in if jt_log (wd_jit w) = None then Ok w
         else bindo (log_cancelled (wd_heap w) dropped (wd_jit w)) (\<lambda>j. Ok (w\<lparr>wd_jit := j\<rparr>)))"

definition destroy :: "world \<Rightarrow> world" where
  "destroy w =
     (with_jit (\<lambda>j. j\<lparr>jt_buffers := []\<rparr>) w)
       \<lparr>wd_memory := fold (\<lambda>buffer mem. snd (release buffer mem)) (jt_buffers (wd_jit w)) (wd_memory w),
        wd_engine := Destroyed\<rparr>"

subsection \<open>The compiler thread\<close>

text \<open>\<open>worker_main\<close>: what it does each time it holds or releases the lock.\<close>

definition wakes :: "jit \<Rightarrow> bool" where
  "wakes j \<longleftrightarrow> jt_stopping j \<or> (\<not> jt_held j \<and> jt_queue j \<noteq> [])"

definition worker_take :: "world \<Rightarrow> world" where
  "worker_take w =
     (let j = wd_jit w
      in if jt_stopping j then w\<lparr>wd_worker := Exited\<rparr>
         else
           (case jt_queue j of
              [] \<Rightarrow> w
            | job # rest \<Rightarrow>
                w\<lparr>wd_jit := j\<lparr>jt_queue := rest, jt_compiling := Some (jb_function job)\<rparr>, wd_worker := Taken job\<rparr>))"

definition worker_build :: "jit_setup \<Rightarrow> 64 word \<Rightarrow> job \<Rightarrow> world \<Rightarrow> world" where
  "worker_build S ns job w =
     (case build S (wd_heap w) (jb_function job) (jf_self_global (wd_fields w (jb_function job))) ns (wd_memory w) of
        Ok (b, mem) \<Rightarrow> w\<lparr>wd_memory := mem, wd_worker := Finished job b\<rparr>
      | Error fault \<Rightarrow> w\<lparr>wd_worker := Died fault\<rparr>
      | Timeout \<Rightarrow> w\<lparr>wd_worker := Died BadAccess\<rparr>)"

definition worker_publish :: "job \<Rightarrow> built \<Rightarrow> world \<Rightarrow> world" where
  "worker_publish job b w =
     (let w = w\<lparr>wd_worker := Published job b\<rparr>
      in case bt_entry b of
           Some e \<Rightarrow> set_fields (jb_function job) (\<lambda>x. x\<lparr>jf_entry := Some e\<rparr>) w
         | None \<Rightarrow> w)"

definition worker_record :: "job \<Rightarrow> built \<Rightarrow> world \<Rightarrow> world" where
  "worker_record job b w =
     (let (b, j) = record_locked b (wd_jit w);
          j = j\<lparr>jt_compiling := None\<rparr>
      in w\<lparr>wd_jit := j, wd_worker := (if jt_log j = None then Waiting else Logging (bt_log_line b))\<rparr>)"

definition worker_log :: "string \<Rightarrow> world \<Rightarrow> world" where
  "worker_log line w = (with_jit (log_line (line @ '' on the compiler thread'')) w)\<lparr>wd_worker := Waiting\<rparr>"

subsection \<open>Reporting\<close>

definition stats_report :: "jit \<Rightarrow> string" where
  "stats_report j =
     ''jit: '' @ nat_digits (unat (jt_compiled j)) @ '' functions compiled ('' @ nat_digits (unat (jt_code_bytes j)) @
     '' bytes of code), '' @ nat_digits (unat (jt_rejected j)) @ '' rejected, '' @ nat_digits (unat (jt_bailouts j)) @
     '' bail-outs, '' @ nat_digits (unat (jt_compile_ns j)) @ '' ns compiling'' @
     (if jt_background j
      then '' on the compiler thread, '' @
        nat_digits (length (jt_queue j) + (if jt_compiling j \<noteq> None then 1 else 0)) @ '' queued or in progress''
      else '''') @ [CHR 0x0A]"

end
