(* ===== verification/Jit_Frozen.thy ===== *)
theory Jit_Frozen
  imports Jit_Runtime Jit_Total Gc_Client
begin

text \<open>
  What the JIT reads of a function does not change while the function is alive: its code, its constants and
  its name, and whether a constant is a string. \<open>ages\<close> is how the heap changes while the program runs,
  collections included. Compiling a live function never touches a freed object, and gives the same result
  however old the heap is.
\<close>

subsection \<open>Heaps as the compiler thread sees them\<close>

text \<open>Functions and strings do not change once they exist; other objects keep being something else.\<close>

definition frozen :: "obj \<Rightarrow> bool" where
  "frozen ob = (case ob of OFunction _ \<Rightarrow> True | OString _ \<Rightarrow> True | _ \<Rightarrow> False)"

definition ages :: "heap \<Rightarrow> heap \<Rightarrow> bool" where
  "ages h h' \<longleftrightarrow>
     sane h' \<and> hp_fresh h \<le> hp_fresh h' \<and>
     (\<forall>a ob'. a < hp_fresh h \<longrightarrow> obj_at h' a = Some ob' \<longrightarrow>
        (\<exists>ob. obj_at h a = Some ob \<and> (frozen ob \<or> frozen ob' \<longrightarrow> ob' = ob)))"

text \<open>What the engine does to the heap between two collections: nothing disappears.\<close>

definition engine_writes :: "heap \<Rightarrow> heap \<Rightarrow> bool" where
  "engine_writes h h' \<longleftrightarrow> ages h h' \<and> (\<forall>a. obj_at h a \<noteq> None \<longrightarrow> obj_at h' a \<noteq> None)"

lemma frozen_simps [simp]:
  "frozen (OFunction fo)" "frozen (OString s)" "\<not> frozen (OArray vs)" "\<not> frozen (ONative n k g)"
  "\<not> frozen (OClosure c us)" "\<not> frozen (OUpvalue u)" "\<not> frozen (OEnvironment vars e)" "\<not> frozen (OTreeFunction m d e)"
  by (simp_all add: frozen_def)

lemma live_below_fresh: "sane h \<Longrightarrow> obj_at h a \<noteq> None \<Longrightarrow> a < hp_fresh h"
  using fresh_free [of h a] by (force simp: sane_def)

lemma sane_traced: "sane h \<Longrightarrow> obj_at h a = Some ob \<Longrightarrow> b \<in> set (trace ob) \<Longrightarrow> obj_at h b \<noteq> None"
  unfolding sane_def no_dangling_def by blast

lemma ages_object:
  "ages h h' \<Longrightarrow> a < hp_fresh h \<Longrightarrow> obj_at h' a = Some ob' \<Longrightarrow> frozen ob' \<Longrightarrow> obj_at h a = Some ob'"
  by (auto simp: ages_def)

lemma ages_forward:
  "ages h h' \<Longrightarrow> sane h \<Longrightarrow> obj_at h a = Some ob \<Longrightarrow> frozen ob \<Longrightarrow> obj_at h' a \<noteq> None \<Longrightarrow> obj_at h' a = Some ob"
proof -
  assume h: "ages h h'" "sane h" "obj_at h a = Some ob" "frozen ob" "obj_at h' a \<noteq> None"
  then have "a < hp_fresh h" using live_below_fresh by simp
  moreover obtain ob' where "obj_at h' a = Some ob'" using h(5) by blast
  ultimately obtain ob2 where "obj_at h a = Some ob2" "frozen ob2 \<longrightarrow> ob' = ob2" "obj_at h' a = Some ob'"
    using h(1) unfolding ages_def by blast
  then show ?thesis using h(3,4) by simp
qed

lemma ages_same:
  assumes "ages h h'" "a < hp_fresh h" "obj_at h a = Some ob" "obj_at h' a = Some ob'" "frozen ob \<or> frozen ob'"
  shows "ob' = ob"
proof -
  obtain ob2 where "obj_at h a = Some ob2" "frozen ob2 \<or> frozen ob' \<longrightarrow> ob' = ob2"
    using assms(1,2,4) unfolding ages_def by blast
  then show ?thesis using assms(3,5) by auto
qed

text \<open>The three kinds of change the engines make are such: a new object, an object that is not frozen
  written in place by one that is not, and a collection.\<close>

lemma collect_ages:
  assumes "sane h"
  shows "ages h (collect sz roots h)"
proof -
  have "heap_ok h" "no_dangling h" using assms by (simp_all add: sane_def)
  then show ?thesis
    using collect_heap_ok [of h] collect_no_dangling [of h] collect_fields [of h sz roots] obj_at_collect [of h sz roots]
    by (simp add: ages_def sane_def)
qed

lemma link_engine_writes:
  assumes "sane h" "link_object sz ob h = (a, h')" "sane h'"
  shows "engine_writes h h'"
proof -
  note f = link_object_fields [OF assms(2)] and o = obj_at_link [OF assms(2)]
  have "a = hp_fresh h" using f by simp
  moreover have "hp_fresh h' = hp_fresh h + 1" using assms(2) by (auto simp: link_object_def Let_def)
  ultimately show ?thesis using assms(3) by (auto simp: engine_writes_def ages_def o)
qed

lemma set_obj_engine_writes:
  assumes "sane h" "obj_at h a = Some ob" "\<not> frozen ob" "\<not> frozen ob'" "sane (set_obj a ob' h)"
  shows "engine_writes h (set_obj a ob' h)"
proof -
  have "hp_fresh (set_obj a ob' h) = hp_fresh h" by (simp add: set_obj_def)
  then show ?thesis using assms by (auto simp: engine_writes_def ages_def obj_at_set_obj)
qed

subsection \<open>Functions the VM runs\<close>

text \<open>What the VM asks of the functions it runs, as far as the JIT relies on it: a named function, opcodes that
  exist, and constant operands that are constants of the function.\<close>

definition constants_in_range :: "reg_chunk \<Rightarrow> instruction \<Rightarrow> bool" where
  "constants_in_range c insn \<longleftrightarrow>
     (unfused_op insn = rg_byte RgLoadK \<or> unfused_op insn = rg_byte RgGetGlobal \<longrightarrow>
        unat (insn_bx insn) < length (rc_constants c)) \<and>
     (insn_flags insn AND kFlagBConst \<noteq> 0 \<longrightarrow> unat (insn_b insn) < length (rc_constants c)) \<and>
     (insn_flags insn AND kFlagCConst \<noteq> 0 \<longrightarrow> unat (insn_c insn) < length (rc_constants c))"

definition jit_code_ok :: "reg_chunk \<Rightarrow> bool" where
  "jit_code_ok c \<longleftrightarrow> rc_code c \<noteq> [] \<and> opcodes_ok c \<and> (\<forall>insn\<in>set (rc_code c). constants_in_range c insn)"

definition function_ok :: "heap \<Rightarrow> function_object \<Rightarrow> bool" where
  "function_ok h fo \<longleftrightarrow>
     (\<exists>a s. fo_name fo = Some a \<and> obj_at h a = Some (OString s)) \<and> jit_code_ok (fo_reg fo)"

definition good_function :: "heap \<Rightarrow> addr \<Rightarrow> bool" where
  "good_function h f \<longleftrightarrow> (\<exists>fo. obj_at h f = Some (OFunction fo) \<and> function_ok h fo)"

subsection \<open>The whitelist reads live objects only\<close>

fun succeeds :: "('e, 'a) outcome \<Rightarrow> bool" where
  "succeeds (Ok x) = True"
| "succeeds (Error e) = False"
| "succeeds Timeout = False"

lemma succeeds_Ok: "succeeds m \<longleftrightarrow> (\<exists>x. m = Ok x)"
  by (cases m) simp_all

lemma succeeds_bindo: "succeeds m \<Longrightarrow> (\<And>x. m = Ok x \<Longrightarrow> succeeds (f x)) \<Longrightarrow> succeeds (bindo m f)"
  by (cases m) simp_all

definition readable :: "heap \<Rightarrow> value \<Rightarrow> bool" where
  "readable h v \<longleftrightarrow> succeeds (string_constant_at h v)"

lemma function_constants:
  assumes "sane h" "obj_at h f = Some (OFunction fo)" "v \<in> set (rc_constants (fo_reg fo))"
  shows "readable h v"
proof (cases v)
  case (VObj a)
  then have "a \<in> set (trace (OFunction fo))" using assms(3) by (force simp: value_addrs_def)
  then have "obj_at h a \<noteq> None" using sane_traced [OF assms(1,2)] by blast
  then show ?thesis by (auto simp: readable_def string_constant_at_def VObj split: obj.splits)
qed (simp_all add: readable_def string_constant_at_def)

lemma constant_succeeds:
  assumes "\<forall>v\<in>set (rc_constants c). readable h v" "unat k < length (rc_constants c)"
    "\<And>v. readable h v \<Longrightarrow> succeeds (f v)"
  shows "succeeds (bindo (constant_of c k) f)"
  using assms by (simp add: constant_of_def)

lemma constant_problem_succeeds: "readable h v \<Longrightarrow> succeeds (constant_problem h v int_op)"
  by (cases v) (auto simp: constant_problem_def readable_def intro!: succeeds_bindo)

lemma names_self_succeeds: "readable h v \<Longrightarrow> succeeds (names_self h v self)"
  by (auto simp: names_self_def readable_def intro!: succeeds_bindo)

lemma rk_problem_succeeds:
  assumes "\<forall>v\<in>set (rc_constants c). readable h v"
    "insn_flags insn AND flag \<noteq> 0 \<longrightarrow> unat k < length (rc_constants c)"
  shows "succeeds (rk_problem h c insn k flag int_op)"
  using assms(2) by (auto simp: rk_problem_def intro!: constant_succeeds [OF assms(1)] constant_problem_succeeds)

lemma insn_rk_succeeds:
  assumes "\<forall>v\<in>set (rc_constants c). readable h v" "constants_in_range c insn"
  shows "succeeds (rk_problem h c insn (insn_b insn) kFlagBConst int_op)"
    "succeeds (both_rk_problem h c insn int_op)"
proof -
  show b: "succeeds (rk_problem h c insn (insn_b insn) kFlagBConst int_op)"
    using rk_problem_succeeds [OF assms(1)] assms(2) by (simp add: constants_in_range_def)
  have "succeeds (rk_problem h c insn (insn_c insn) kFlagCConst int_op)"
    using rk_problem_succeeds [OF assms(1)] assms(2) by (simp add: constants_in_range_def)
  then show "succeeds (both_rk_problem h c insn int_op)"
    using b by (auto simp: both_rk_problem_def intro!: succeeds_bindo)
qed

lemma reads_self_succeeds:
  assumes "\<forall>v\<in>set (rc_constants c). readable h v" "\<forall>insn\<in>set code. constants_in_range c insn"
  shows "succeeds (reads_self h c self code)"
  using assms(2)
proof (induction code)
  case (Cons insn code)
  then have tl: "succeeds (reads_self h c self code)" by simp
  show ?case
  proof (cases "unfused_op insn = rg_byte RgGetGlobal")
    case True
    then have k: "unat (insn_bx insn) < length (rc_constants c)" using Cons.prems by (simp add: constants_in_range_def)
    have "succeeds (bindo (names_self h v self) (\<lambda>yes. if yes then Ok True else reads_self h c self code))"
      if "readable h v" for v
      using names_self_succeeds [OF that] tl by (intro succeeds_bindo) simp_all
    then have "succeeds (bindo (constant_of c (insn_bx insn)) (\<lambda>v. bindo (names_self h v self) (\<lambda>yes.
        if yes then Ok True else reads_self h c self code)))"
      by (rule constant_succeeds [OF assms(1) k])
    then show ?thesis by (simp only: reads_self.simps True simp_thms if_True)
  qed (simp add: tl)
qed simp

lemma self_call_problem_succeeds:
  assumes "\<forall>v\<in>set (rc_constants c). readable h v" "\<forall>insn\<in>set (rc_code c). constants_in_range c insn"
  shows "succeeds (self_call_problem h env c self)"
  by (auto simp: self_call_problem_def split: option.splits intro!: succeeds_bindo reads_self_succeeds [OF assms])

lemma instruction_problem_succeeds:
  assumes "\<forall>v\<in>set (rc_constants c). readable h v" "\<forall>insn\<in>set (rc_code c). constants_in_range c insn"
    and insn: "constants_in_range c insn"
  shows "succeeds (instruction_problem h env c self i insn)"
proof (cases "rg_of_byte (unfused_op insn)")
  case (Some op)
  then have op: "unfused_op insn = rg_byte op" by (rule rg_of_byte_Some)
  have bx: "succeeds (bindo (constant_of c (insn_bx insn)) g)"
    if "op = RgLoadK \<or> op = RgGetGlobal" "\<And>v. readable h v \<Longrightarrow> succeeds (g v)" for g :: "value \<Rightarrow> 'a checked"
    using insn that op by (intro constant_succeeds [OF assms(1)]) (auto simp: constants_in_range_def)
  have names: "succeeds (bindo (names_self h v sf) (\<lambda>yes. if yes then Ok None else Ok x))"
    if "readable h v" for v sf and x :: "'b option"
    using that by (auto intro!: succeeds_bindo names_self_succeeds)
  note all = insn_rk_succeeds [OF assms(1) insn] self_call_problem_succeeds [OF assms(1,2), of env self]
    constant_problem_succeeds
  show ?thesis
    unfolding instruction_problem_def Let_def Some option.case
    by (cases op; simp only: regop.case)
      (auto simp: all split: option.splits intro!: bx names)
qed (simp add: instruction_problem_def)

lemma check_from_succeeds:
  assumes "\<forall>v\<in>set (rc_constants c). readable h v" "\<forall>insn\<in>set (rc_code c). constants_in_range c insn"
    "\<forall>insn\<in>set code. constants_in_range c insn"
  shows "succeeds (check_from h env c self i code)"
  using assms(3)
proof (induction code arbitrary: i)
  case (Cons insn code)
  then show ?case
    using instruction_problem_succeeds [OF assms(1,2)] by (auto intro!: succeeds_bindo split: option.split)
qed simp

lemma check_from_index:
  "check_from h env c self i code = Ok (Some (j, reason)) \<Longrightarrow> j < i + length code"
proof (induction code arbitrary: i)
  case (Cons insn code)
  then show ?case by (fastforce simp: bind_simps split: option.splits)
qed simp

subsection \<open>What the compiler makes of a function\<close>

lemma translate_succeeds:
  assumes "sane h" "obj_at h f = Some (OFunction fo)" "function_ok h fo"
  shows "succeeds (translate h env (fo_reg fo) self)"
proof -
  let ?c = "fo_reg fo"
  have known: "\<forall>v\<in>set (rc_constants ?c). readable h v" using function_constants [OF assms(1,2)] by blast
  have code: "\<forall>insn\<in>set (rc_code ?c). constants_in_range ?c insn" "opcodes_ok ?c" "rc_code ?c \<noteq> []"
    using assms(3) by (simp_all add: function_ok_def jit_code_ok_def)
  have "succeeds (check_whitelist h env ?c (Some self))"
    using check_from_succeeds [OF known code(1) code(1)] by (simp add: check_whitelist_def)
  then obtain r where r: "check_whitelist h env ?c (Some self) = Ok r" by (auto simp: succeeds_Ok)
  show ?thesis
  proof (cases r)
    case None
    then show ?thesis
      using generate_goes [OF r [unfolded None] code(2), of False]
      by (auto simp: translate_def r None generate_or_reject_def)
  next
    case (Some p)
    obtain i reason where p: "p = (i, reason)" by (cases p)
    have "i < length (rc_code ?c)"
      using r code(3) check_from_index [of h env ?c "Some self" 0 "rc_code ?c" i reason]
      by (auto simp: check_whitelist_def Some p split: if_splits)
    then show ?thesis by (simp add: translate_def r Some p rejection_text_def)
  qed
qed

lemma translate_accepts:
  assumes "translate h env c self = Ok ('''', code)" "opcodes_ok c"
  shows "check_whitelist h env c (Some self) = Ok None \<and> generate env c (Some self) = Ok code"
proof -
  obtain r where r: "check_whitelist h env c (Some self) = Ok r"
    using assms(1) by (auto simp: translate_def split: outcome.splits)
  have n: "r = None"
    using assms(1) r by (cases r) (auto simp: translate_def rejection_text_def bind_simps split: if_splits)
  have "generate_or_reject env c self = Ok ('''', code)" using assms(1) r n by (simp add: translate_def)
  then have "generate env c (Some self) = Ok code"
    using generate_goes [OF r [unfolded n] assms(2), of False]
    by (auto simp: generate_or_reject_def arm_error_def split: outcome.splits emit_fault.splits)
  then show ?thesis using r n by simp
qed

text \<open>The whitelist asks the heap only whether the constants are strings.\<close>

lemma constant_member: "constant_of c k = Ok v \<Longrightarrow> v \<in> set (rc_constants c)"
  by (auto simp: constant_of_def split: if_splits)

lemma whitelist_heap:
  assumes same: "\<forall>v\<in>set (rc_constants c). string_constant_at h v = string_constant_at h' v"
  shows "check_whitelist h env c self = check_whitelist h' env c self"
proof -
  have cp: "constant_problem h v b = constant_problem h' v b" if "v \<in> set (rc_constants c)" for v b
    using same that by (cases v) (force simp: constant_problem_def)+
  have names: "names_self h v sf = names_self h' v sf" if "v \<in> set (rc_constants c)" for v sf
    using same that by (simp add: names_self_def)
  have rk: "rk_problem h c insn k f b = rk_problem h' c insn k f b" for insn k f b
    unfolding rk_problem_def by (rule if_cong [OF refl refl], rule bindo_cong [OF refl]) (simp add: cp constant_member)
  have both: "both_rk_problem h c insn b = both_rk_problem h' c insn b" for insn b
    by (simp add: both_rk_problem_def rk cong: if_cong)
  have reads: "reads_self h c sf code = reads_self h' c sf code" for sf code
  proof (induction code)
    case (Cons insn code)
    have "bindo (constant_of c (insn_bx insn)) (\<lambda>v. bindo (names_self h v sf) (\<lambda>yes. if yes then Ok True else reads_self h c sf code)) =
        bindo (constant_of c (insn_bx insn)) (\<lambda>v. bindo (names_self h' v sf) (\<lambda>yes. if yes then Ok True else reads_self h' c sf code))"
      by (rule bindo_cong [OF refl]) (simp add: names constant_member Cons cong: if_cong)
    then show ?case by (simp add: Cons)
  qed simp
  have call: "self_call_problem h env c self = self_call_problem h' env c self"
    by (simp add: self_call_problem_def reads cong: if_cong option.case_cong)
  have k: "bindo (constant_of c k) (\<lambda>v. constant_problem h v b) = bindo (constant_of c k) (\<lambda>v. constant_problem h' v b)" for k b
    by (rule bindo_cong [OF refl]) (simp add: cp constant_member)
  have g: "bindo (constant_of c k) (\<lambda>v. bindo (names_self h v sf) f) = bindo (constant_of c k) (\<lambda>v. bindo (names_self h' v sf) f)"
    for k sf and f :: "bool \<Rightarrow> string option checked"
    by (rule bindo_cong [OF refl]) (simp add: names constant_member)
  have "instruction_problem h env c self i insn = instruction_problem h' env c self i insn" for i insn
    by (simp add: instruction_problem_def rk both call k g cong: if_cong option.case_cong regop.case_cong)
  then have "check_from h env c self i code = check_from h' env c self i code" for i code
    by (induction code arbitrary: i) (simp_all cong: option.case_cong)
  then show ?thesis by (simp add: check_whitelist_def)
qed

lemma ages_function:
  assumes "ages h h'" "sane h" "f < hp_fresh h" "obj_at h' f = Some (OFunction fo)"
  shows "obj_at h f = Some (OFunction fo)" "translate h' env (fo_reg fo) self = translate h env (fo_reg fo) self"
    "function_ok h fo \<Longrightarrow> function_ok h' fo"
proof -
  show fo: "obj_at h f = Some (OFunction fo)" using ages_object [OF assms(1,3,4)] by simp
  have "sane h'" using assms(1) by (simp add: ages_def)
  note live = sane_traced [OF \<open>sane h'\<close> assms(4)] and old = sane_traced [OF assms(2) fo]
  have "string_constant_at h' v = string_constant_at h v" if v: "v \<in> set (rc_constants (fo_reg fo))" for v
  proof (cases v)
    case (VObj a)
    then have t: "a \<in> set (trace (OFunction fo))" using v by (force simp: value_addrs_def)
    obtain ob ob' where ob: "obj_at h a = Some ob" "obj_at h' a = Some ob'" using live [OF t] old [OF t] by blast
    moreover have "a < hp_fresh h" using ob live_below_fresh [OF assms(2)] by simp
    ultimately have "frozen ob \<or> frozen ob' \<longrightarrow> ob' = ob" using ages_same [OF assms(1)] by blast
    then show ?thesis
      by (cases ob; cases ob') (simp_all add: string_constant_at_def VObj ob)
  qed (simp_all add: string_constant_at_def)
  then have "check_whitelist h' env (fo_reg fo) (Some self) = check_whitelist h env (fo_reg fo) (Some self)"
    by (intro whitelist_heap) simp
  then show "translate h' env (fo_reg fo) self = translate h env (fo_reg fo) self" by (simp add: translate_def)
  assume ok: "function_ok h fo"
  then obtain a s where a: "fo_name fo = Some a" "obj_at h a = Some (OString s)" by (auto simp: function_ok_def)
  then have "a \<in> set (trace (OFunction fo))" by (simp add: opt_addrs_def)
  then have "obj_at h' a = Some (OString s)" using ages_forward [OF assms(1,2) a(2)] live by simp
  then show "function_ok h' fo" using ok a by (auto simp: function_ok_def)
qed

text \<open>A live good function stays one as long as it is not freed.\<close>

lemma ages_good:
  assumes "ages h h'" "sane h" "good_function h f" "obj_at h' f \<noteq> None"
  shows "good_function h' f"
proof -
  obtain fo where fo: "obj_at h f = Some (OFunction fo)" "function_ok h fo" using assms(3) by (auto simp: good_function_def)
  have "obj_at h' f = Some (OFunction fo)" using ages_forward [OF assms(1,2) fo(1) _ assms(4)] by simp
  then show ?thesis
    using ages_function(3) [OF assms(1,2) _ _ fo(2)] fo(1) live_below_fresh [OF assms(2), of f]
    by (auto simp: good_function_def)
qed

end
