(* ===== verification/Jit_Threads.thy ===== *)
theory Jit_Threads
  imports Jit_Frozen
begin

text \<open>
  The engine's thread and the compiler thread of the JIT, interleaved. A step is a critical section of one of
  the two, or what it does between two of them; the engine's other work is any change of the heap that keeps
  functions and strings as they are, and any collection whose roots include what \<open>mark_pending\<close> reports. The
  invariant \<open>jit_inv\<close> holds in every reachable world: what is queued or being compiled is alive, and an entry
  leads to the machine code of its function.
\<close>

subsection \<open>Compiling a live function\<close>

text \<open>\<open>has_code\<close>: calling the entry \<open>e\<close> runs the code the generator gives for the function, while it lives.\<close>

definition has_code :: "jit_setup \<Rightarrow> heap \<Rightarrow> memory \<Rightarrow> addr \<Rightarrow> 64 word option \<Rightarrow> nat \<Rightarrow> bool" where
  "has_code S h mem f cell e \<longleftrightarrow>
     (\<exists>code. holds_code mem e (gc_words code) \<and>
        (\<forall>fo. obj_at h f = Some (OFunction fo) \<longrightarrow>
           translate h (js_env S f) (fo_reg fo) (self_of S f fo cell) = Ok ('''', code)))"

definition stays_out :: "jit_setup \<Rightarrow> heap \<Rightarrow> addr \<Rightarrow> 64 word option \<Rightarrow> bool" where
  "stays_out S h f cell \<longleftrightarrow>
     (\<forall>fo. obj_at h f = Some (OFunction fo) \<longrightarrow>
        (\<exists>why code. why \<noteq> [] \<and> translate h (js_env S f) (fo_reg fo) (self_of S f fo cell) = Ok (why, code)))"

text \<open>What \<open>build\<close> returned for \<open>f\<close>: a buffer with its code, or the reason it stays in the VM.\<close>

definition built_for :: "jit_setup \<Rightarrow> heap \<Rightarrow> memory \<Rightarrow> addr \<Rightarrow> 64 word option \<Rightarrow> built \<Rightarrow> bool" where
  "built_for S h mem f cell b \<longleftrightarrow>
     (case bt_buffer b of
        None \<Rightarrow> bt_entry b = None \<and> stays_out S h f cell
      | Some buffer \<Rightarrow>
          (\<exists>e. bt_entry b = Some e \<and> eb_base buffer = Some e \<and> eb_size buffer = bt_bytes b \<and> has_code S h mem f cell e))"

lemma place_code_result:
  assumes "0 < os_page os" "place_code os words mem = r"
  shows "(\<exists>msg. r = Error (Abort msg)) \<or>
    (\<exists>m buffer. r = Ok (buffer, mem @ [m]) \<and> eb_base buffer = Some (length mem) \<and> eb_size buffer = 4 * length words \<and>
      holds_code (mem @ [m]) (length mem) words)"
proof (cases "new_exec_buffer os (4 * length words) mem")
  case (Inr p)
  obtain eb mem1 where p: "p = (eb, mem1)" by (cases p)
  show ?thesis
    using write_fresh [OF assms(1) Inr [unfolded p] refl] assms(2) by (auto simp: place_code_def Inr p)
qed (use assms(2) in \<open>auto simp: place_code_def\<close>)

lemma function_name_Ok: "function_ok h fo \<Longrightarrow> \<exists>name. function_name h fo = Ok name"
  by (auto simp: function_ok_def function_name_def)

lemma build_result:
  assumes "0 < os_page (js_os S)" "sane h" "good_function h f" "build S h f cell ns mem = r"
  shows "(\<exists>msg. r = Error (Abort msg)) \<or>
    (\<exists>b mem2. r = Ok (b, mem @ mem2) \<and> built_for S h (mem @ mem2) f cell b \<and> (\<forall>e. bt_entry b = Some e \<longrightarrow> e = length mem))"
proof -
  obtain fo where fo: "obj_at h f = Some (OFunction fo)" "function_ok h fo" using assms(3) by (auto simp: good_function_def)
  obtain why code where t: "translate h (js_env S f) (fo_reg fo) (self_of S f fo cell) = Ok (why, code)"
    using translate_succeeds [OF assms(2) fo, of "js_env S f" "self_of S f fo cell"] by (auto simp: succeeds_Ok)
  obtain name where name: "function_name h fo = Ok name" using function_name_Ok [OF fo(2)] by blast
  have b: "build S h f cell ns mem =
    (if why = [] then bindo (place_code (js_os S) (gc_words code) mem) (\<lambda>(buffer, mem).
         Ok (\<lparr>bt_buffer = Some buffer, bt_entry = entry_of buffer, bt_bytes = 4 * length (gc_words code), bt_ns = ns,
              bt_log_line = compiled_line name (fo_reg fo) (gc_words code) ns\<rparr>, mem))
     else Ok (\<lparr>bt_buffer = None, bt_entry = None, bt_bytes = 0, bt_ns = ns,
              bt_log_line = ''[jit] rejected '' @ name @ '': '' @ why\<rparr>, mem))"
    by (simp add: build_def function_object_at_def fo(1) t name case_prod_beta)
  show ?thesis
  proof (cases "why = []")
    case True
    then show ?thesis
      using place_code_result [OF assms(1), of "gc_words code" mem, OF refl] assms(4) b t fo(1)
      by (auto simp: built_for_def has_code_def entry_of_def intro!: exI [of _ code])
  next
    case False
    then show ?thesis using assms(4) b t fo(1) by (auto simp: built_for_def stays_out_def)
  qed
qed

lemma has_code_ages:
  assumes "has_code S h mem f cell e" "ages h h'" "sane h" "f < hp_fresh h"
  shows "has_code S h' mem f cell e"
  using assms(1) ages_function [OF assms(2,3,4)] by (fastforce simp: has_code_def)

lemma built_for_ages:
  assumes "built_for S h mem f cell b" "ages h h'" "sane h" "f < hp_fresh h"
  shows "built_for S h' mem f cell b"
  using assms(1) ages_function [OF assms(2,3,4)] has_code_ages [OF _ assms(2,3,4)]
  by (fastforce simp: built_for_def stays_out_def split: option.splits)

lemma has_code_grow: "has_code S h mem f cell e \<Longrightarrow> has_code S h (mem @ mem2) f cell e"
  using holds_code_grow by (fastforce simp: has_code_def)

lemma has_code_bound: "has_code S h mem f cell e \<Longrightarrow> e < length mem"
  by (auto simp: has_code_def holds_code_def)

subsection \<open>Steps\<close>

inductive worker_step :: "jit_setup \<Rightarrow> world \<Rightarrow> world \<Rightarrow> bool" for S where
  take_job: "wd_worker w = Waiting \<Longrightarrow> wakes (wd_jit w) \<Longrightarrow> worker_step S w (worker_take w)"
| build_code: "wd_worker w = Taken job \<Longrightarrow> worker_step S w (worker_build S ns job w)"
| publish: "wd_worker w = Finished job b \<Longrightarrow> worker_step S w (worker_publish job b w)"
| record_built: "wd_worker w = Published job b \<Longrightarrow> worker_step S w (worker_record job b w)"
| write_log: "wd_worker w = Logging line \<Longrightarrow> worker_step S w (worker_log line w)"

text \<open>The engine's thread: it counts a function it calls (compiling or queueing it), enters machine code and
  comes back from it, changes the heap, collects in two steps (the markers report their roots, and the
  collector frees the rest), and shuts the JIT down.\<close>

inductive engine_step :: "jit_setup \<Rightarrow> (obj \<Rightarrow> nat) \<Rightarrow> world \<Rightarrow> world \<Rightarrow> bool" for S sz where
  count: "wd_engine w = Running \<Longrightarrow> good_function (wd_heap w) f \<Longrightarrow> jit_count S cell ns f w = Ok w' \<Longrightarrow> engine_step S sz w w'"
| enter: "wd_engine w = Running \<Longrightarrow> load_entry f w = Ok (entry, w') \<Longrightarrow> engine_step S sz w w'"
| leave: "wd_engine w = Running \<Longrightarrow> after_machine_code f resume newest w = Ok (after, w') \<Longrightarrow> engine_step S sz w w'"
| run: "wd_engine w = Running \<Longrightarrow> engine_writes (wd_heap w) h' \<Longrightarrow> engine_step S sz w (w\<lparr>wd_heap := h'\<rparr>)"
| mark: "wd_engine w = Running \<Longrightarrow> engine_step S sz w (w\<lparr>wd_engine := Collecting (others @ pending (wd_jit w))\<rparr>)"
| sweep: "wd_engine w = Collecting roots \<Longrightarrow>
    engine_step S sz w (w\<lparr>wd_heap := collect sz roots (wd_heap w), wd_engine := Running\<rparr>)"
| hold: "wd_engine w = Running \<Longrightarrow> engine_step S sz w (hold_for_testing b w)"
| shut: "wd_engine w = Running \<Longrightarrow> engine_step S sz w (shutdown_begin w)"
| joined: "wd_engine w = Joining dropped \<Longrightarrow> wd_worker w = Exited \<Longrightarrow> shutdown_end dropped w = Ok w' \<Longrightarrow>
    engine_step S sz w w'"
| destroyed: "wd_engine w = Running \<Longrightarrow> \<not> jt_joinable (wd_jit w) \<Longrightarrow> engine_step S sz w (destroy w)"

inductive_cases worker_stepE: "worker_step S w w'"
inductive_cases engine_stepE: "engine_step S sz w w'"

text \<open>A process that was aborted does nothing more.\<close>

definition running_process :: "world \<Rightarrow> bool" where
  "running_process w \<longleftrightarrow> (case wd_worker w of Died fault \<Rightarrow> False | _ \<Rightarrow> True)"

definition jit_step :: "jit_setup \<Rightarrow> (obj \<Rightarrow> nat) \<Rightarrow> world \<Rightarrow> world \<Rightarrow> bool" where
  "jit_step S sz w w' \<longleftrightarrow> running_process w \<and> (worker_step S w w' \<or> engine_step S sz w w')"

inductive jit_reachable :: "jit_setup \<Rightarrow> (obj \<Rightarrow> nat) \<Rightarrow> world \<Rightarrow> bool" for S sz where
  started: "sane h \<Longrightarrow> jit_reachable S sz (start_world threshold log background h)"
| stepped: "jit_reachable S sz w \<Longrightarrow> jit_step S sz w w' \<Longrightarrow> jit_reachable S sz w'"

subsection \<open>The invariant\<close>

definition was_queued :: "jit_fields \<Rightarrow> bool" where
  "was_queued x \<longleftrightarrow> jf_status x = JitQueued \<or> jf_status x = JitCompiled"

definition queue_ok :: "world \<Rightarrow> bool" where
  "queue_ok w \<longleftrightarrow>
     distinct (pending (wd_jit w)) \<and>
     (\<forall>f\<in>set (pending (wd_jit w)). good_function (wd_heap w) f \<and> was_queued (wd_fields w f)) \<and>
     (\<forall>f\<in>jb_function ` set (jt_queue (wd_jit w)). jf_entry (wd_fields w f) = None) \<and>
     (jt_stopping (wd_jit w) \<longrightarrow> jt_queue (wd_jit w) = [])"

text \<open>The compiler thread and \<open>compiling_\<close> agree; \<open>compiles\<close> is the job it has between taking and recording it.\<close>

definition compiles :: "worker \<Rightarrow> job option" where
  "compiles p = (case p of Taken job \<Rightarrow> Some job | Finished job b \<Rightarrow> Some job | Published job b \<Rightarrow> Some job | _ \<Rightarrow> None)"

definition built_of :: "worker \<Rightarrow> (job \<times> built) option" where
  "built_of p = (case p of Finished job b \<Rightarrow> Some (job, b) | Published job b \<Rightarrow> Some (job, b) | _ \<Rightarrow> None)"

definition worker_ok :: "jit_setup \<Rightarrow> world \<Rightarrow> bool" where
  "worker_ok S w \<longleftrightarrow>
     (running_process w \<longrightarrow> jt_compiling (wd_jit w) = map_option jb_function (compiles (wd_worker w))) \<and>
     (wd_worker w = NoWorker \<longleftrightarrow> \<not> jt_background (wd_jit w)) \<and>
     (wd_worker w = NoWorker \<longrightarrow> jt_queue (wd_jit w) = []) \<and>
     (wd_worker w = Exited \<longrightarrow> jt_stopping (wd_jit w)) \<and>
     wd_worker w \<noteq> Died BadAccess \<and>
     (\<forall>job b. built_of (wd_worker w) = Some (job, b) \<longrightarrow>
        built_for S (wd_heap w) (wd_memory w) (jb_function job) (jf_self_global (wd_fields w (jb_function job))) b) \<and>
     (\<forall>job. wd_worker w = Taken job \<longrightarrow> jf_entry (wd_fields w (jb_function job)) = None) \<and>
     (\<forall>job b. wd_worker w = Finished job b \<longrightarrow> jf_entry (wd_fields w (jb_function job)) = None) \<and>
     (\<forall>job b. wd_worker w = Published job b \<longrightarrow> jf_entry (wd_fields w (jb_function job)) = bt_entry b)"

definition field_ok :: "jit_setup \<Rightarrow> heap \<Rightarrow> memory \<Rightarrow> addr \<Rightarrow> jit_fields \<Rightarrow> bool" where
  "field_ok S h mem f x \<longleftrightarrow>
     (x \<noteq> cold \<longrightarrow> f < hp_fresh h) \<and>
     (case jf_status x of
        JitCold \<Rightarrow> jf_entry x = None
      | JitQueued \<Rightarrow> True
      | JitCompiled \<Rightarrow> jf_entry x \<noteq> None
      | JitRejected \<Rightarrow> jf_entry x = None \<and> stays_out S h f (jf_self_global x)) \<and>
     (\<forall>e. jf_entry x = Some e \<longrightarrow> has_code S h mem f (jf_self_global x) e)"

definition fields_ok :: "jit_setup \<Rightarrow> world \<Rightarrow> bool" where
  "fields_ok S w \<longleftrightarrow> (\<forall>f. field_ok S (wd_heap w) (wd_memory w) f (wd_fields w f))"

text \<open>The mappings the JIT owns: those it recorded and the one the compiler thread is about to record.\<close>

definition owned :: "world \<Rightarrow> nat list" where
  "owned w =
     concat (map (\<lambda>buffer. opt_addrs (eb_base buffer)) (jt_buffers (wd_jit w))) @
     (case built_of (wd_worker w) of Some (job, b) \<Rightarrow> opt_addrs (bt_entry b) | None \<Rightarrow> [])"

definition buffers_ok :: "world \<Rightarrow> bool" where
  "buffers_ok w \<longleftrightarrow>
     distinct (owned w) \<and> (\<forall>e\<in>set (owned w). e < length (wd_memory w)) \<and>
     (\<forall>f e. jf_entry (wd_fields w f) = Some e \<longrightarrow> e \<in> set (owned w)) \<and>
     jt_compiled (wd_jit w) = of_nat (length (jt_buffers (wd_jit w))) \<and>
     jt_code_bytes (wd_jit w) = of_nat (sum_list (map eb_size (jt_buffers (wd_jit w))))"

definition engine_ok :: "world \<Rightarrow> bool" where
  "engine_ok w \<longleftrightarrow>
     (case wd_engine w of
        Collecting roots \<Rightarrow> set (pending (wd_jit w)) \<subseteq> set roots
      | Joining dropped \<Rightarrow> jt_stopping (wd_jit w) \<and> (\<forall>f\<in>set dropped. good_function (wd_heap w) f)
      | _ \<Rightarrow> True)"

definition live_inv :: "jit_setup \<Rightarrow> world \<Rightarrow> bool" where
  "live_inv S w \<longleftrightarrow>
     sane (wd_heap w) \<and> queue_ok w \<and> worker_ok S w \<and> fields_ok S w \<and> buffers_ok w \<and> engine_ok w"

definition ended :: "world \<Rightarrow> bool" where
  "ended w \<longleftrightarrow> wd_worker w = NoWorker \<or> wd_worker w = Exited"

definition jit_inv :: "jit_setup \<Rightarrow> world \<Rightarrow> bool" where
  "jit_inv S w \<longleftrightarrow>
     (if wd_engine w = Destroyed then ended w else live_inv S w) \<and> (\<not> jt_joinable (wd_jit w) \<longrightarrow> ended w)"

lemma start_inv: "sane h \<Longrightarrow> jit_inv S (start_world threshold log background h)"
  by (simp add: jit_inv_def live_inv_def start_world_def new_jit_def queue_ok_def pending_def opt_addrs_def worker_ok_def
      running_process_def compiles_def built_of_def fields_ok_def field_ok_def cold_def buffers_ok_def owned_def engine_ok_def ended_def)

lemma field_ok_ages:
  assumes "field_ok S h mem f x" "ages h h'" "sane h"
  shows "field_ok S h' mem f x"
proof (cases "x = cold")
  case True
  then show ?thesis by (simp add: field_ok_def cold_def)
next
  case False
  then have low: "f < hp_fresh h" using assms(1) by (simp add: field_ok_def)
  have "hp_fresh h \<le> hp_fresh h'" using assms(2) by (simp add: ages_def)
  moreover have "stays_out S h' f c" if "stays_out S h f c" for c
    using that ages_function [OF assms(2,3) low] by (simp add: stays_out_def)
  ultimately show ?thesis
    using assms(1) low has_code_ages [OF _ assms(2,3) low] by (simp add: field_ok_def split: jit_status.splits)
qed

lemma field_ok_grow: "field_ok S h mem f x \<Longrightarrow> field_ok S h (mem @ mem2) f x"
  using has_code_grow by (fastforce simp: field_ok_def)

lemma queued_low:
  assumes "fields_ok S w" "was_queued (wd_fields w f)"
  shows "f < hp_fresh (wd_heap w)"
proof -
  have "wd_fields w f \<noteq> cold" using assms(2) by (auto simp: cold_def was_queued_def)
  then show ?thesis using assms(1) by (simp add: fields_ok_def field_ok_def)
qed

text \<open>The engine changes the heap or collects: what is pending stays.\<close>

lemma inv_heap:
  assumes "live_inv S w" "ages (wd_heap w) h'" "\<forall>f\<in>set (pending (wd_jit w)). obj_at h' f \<noteq> None"
  shows "live_inv S (w\<lparr>wd_heap := h', wd_engine := Running\<rparr>)"
proof -
  let ?h = "wd_heap w"
  have s: "sane ?h" and q: "queue_ok w" and wk: "worker_ok S w" and fl: "fields_ok S w" and bf: "buffers_ok w"
    using assms(1) by (simp_all add: live_inv_def)
  have good: "good_function h' f" if "f \<in> set (pending (wd_jit w))" for f
    using q ages_good [OF assms(2) s] assms(3) that by (simp add: queue_ok_def)
  have "built_for S h' (wd_memory w) (jb_function job) (jf_self_global (wd_fields w (jb_function job))) b"
    if b: "built_of (wd_worker w) = Some (job, b)" for job b
  proof -
    have "running_process w" "compiles (wd_worker w) = Some job"
      using b by (auto simp: running_process_def compiles_def built_of_def split: worker.splits)
    then have "jb_function job \<in> set (pending (wd_jit w))" using wk by (simp add: worker_ok_def pending_def opt_addrs_def)
    then have "was_queued (wd_fields w (jb_function job))" using q by (simp add: queue_ok_def)
    then have "jb_function job < hp_fresh ?h" using queued_low [OF fl] by simp
    from built_for_ages [OF _ assms(2) s this] show ?thesis using wk b by (simp add: worker_ok_def)
  qed
  then have "worker_ok S (w\<lparr>wd_heap := h', wd_engine := Running\<rparr>)"
    using wk by (simp add: worker_ok_def running_process_def)
  moreover have "sane h'" using assms(2) by (simp add: ages_def)
  moreover have "fields_ok S (w\<lparr>wd_heap := h', wd_engine := Running\<rparr>)"
    using fl field_ok_ages [OF _ assms(2) s] by (simp add: fields_ok_def)
  ultimately show ?thesis
    using q bf good by (simp add: live_inv_def queue_ok_def buffers_ok_def owned_def engine_ok_def)
qed

subsection \<open>The compiler thread keeps the invariant\<close>

lemmas world_defs = live_inv_def queue_ok_def worker_ok_def fields_ok_def buffers_ok_def engine_ok_def
lemmas state_simps = pending_def opt_addrs_def running_process_def compiles_def built_of_def owned_def

lemma inv_take_job:
  assumes "live_inv S w" "wd_worker w = Waiting" "wakes (wd_jit w)"
  shows "live_inv S (worker_take w)"
proof (cases "jt_stopping (wd_jit w)")
  case True
  then show ?thesis
    using assms by (auto simp: worker_take_def Let_def world_defs state_simps split: engine_thread.splits)
next
  case False
  then obtain job rest where q: "jt_queue (wd_jit w) = job # rest" using assms(3) by (auto simp: wakes_def neq_Nil_conv)
  have "distinct (jb_function job # map jb_function rest)"
    using assms(1,2) q by (simp add: world_defs state_simps)
  moreover have "worker_take w = w\<lparr>wd_jit := (wd_jit w)\<lparr>jt_queue := rest, jt_compiling := Some (jb_function job)\<rparr>, wd_worker := Taken job\<rparr>"
    by (simp add: worker_take_def Let_def False q)
  ultimately show ?thesis
    using assms(1,2) q False by (auto simp: world_defs state_simps split: engine_thread.splits)
qed

lemma inv_build:
  assumes "0 < os_page (js_os S)" "live_inv S w" "wd_worker w = Taken job"
  shows "live_inv S (worker_build S ns job w)"
proof -
  let ?f = "jb_function job"
  have c: "jt_compiling (wd_jit w) = Some ?f" and e: "jf_entry (wd_fields w ?f) = None"
    and g: "good_function (wd_heap w) ?f" and s: "sane (wd_heap w)"
    using assms(2,3) by (auto simp: world_defs state_simps)
  let ?r = "build S (wd_heap w) ?f (jf_self_global (wd_fields w ?f)) ns (wd_memory w)"
  consider msg where "?r = Error (Abort msg)" | b mem2 where "?r = Ok (b, wd_memory w @ mem2)"
      "built_for S (wd_heap w) (wd_memory w @ mem2) ?f (jf_self_global (wd_fields w ?f)) b"
      "\<forall>e. bt_entry b = Some e \<longrightarrow> e = length (wd_memory w)"
    using build_result [OF assms(1) s g refl] by blast
  then show ?thesis
  proof cases
    case 1
    then show ?thesis
      using assms(2,3) by (auto simp: worker_build_def world_defs state_simps split: engine_thread.splits)
  next
    case 2
    have "e < length (wd_memory w @ mem2)" if "bt_entry b = Some e" for e
      using 2(2) that has_code_bound by (fastforce simp: built_for_def split: option.splits)
    moreover have "fields_ok S (w\<lparr>wd_memory := wd_memory w @ mem2, wd_worker := Finished job b\<rparr>)"
      using assms(2) field_ok_grow by (fastforce simp: live_inv_def fields_ok_def)
    moreover have "distinct (owned (w\<lparr>wd_memory := wd_memory w @ mem2, wd_worker := Finished job b\<rparr>))"
      using assms(2,3) 2(3) by (auto simp: live_inv_def buffers_ok_def owned_def built_of_def opt_addrs_def split: option.splits)
    ultimately show ?thesis
      using assms(2,3) 2 c e
      by (auto simp: worker_build_def world_defs state_simps intro: trans_less_add1 split: engine_thread.splits option.splits)
  qed
qed

lemma inv_publish:
  assumes "live_inv S w" "wd_worker w = Finished job b"
  shows "live_inv S (worker_publish job b w)"
proof -
  let ?f = "jb_function job" and ?x = "wd_fields w (jb_function job)"
  have c: "jt_compiling (wd_jit w) = Some ?f" and e: "jf_entry ?x = None" and st: "was_queued ?x"
    and q: "?f \<notin> jb_function ` set (jt_queue (wd_jit w))"
    and b: "built_for S (wd_heap w) (wd_memory w) ?f (jf_self_global ?x) b"
    using assms by (auto simp: world_defs state_simps)
  show ?thesis
  proof (cases "bt_entry b")
    case None
    then show ?thesis
      using assms e by (auto simp: worker_publish_def world_defs state_simps split: engine_thread.splits)
  next
    case (Some entry)
    have code: "has_code S (wd_heap w) (wd_memory w) ?f (jf_self_global ?x) entry"
      using b Some by (auto simp: built_for_def split: option.splits)
    have low: "?f < hp_fresh (wd_heap w)" using assms(1) queued_low [OF _ st, of S] by (auto simp: live_inv_def)
    have "field_ok S (wd_heap w) (wd_memory w) ?f (?x\<lparr>jf_entry := Some entry\<rparr>)"
      using code low st by (auto simp: field_ok_def was_queued_def)
    moreover have "was_queued (?x\<lparr>jf_entry := Some entry\<rparr>)" using st by (simp add: was_queued_def)
    ultimately show ?thesis
      using assms e Some q by (auto simp: worker_publish_def set_fields_def world_defs state_simps split: engine_thread.splits)
  qed
qed

lemma inv_record:
  assumes "live_inv S w" "wd_worker w = Published job b"
  shows "live_inv S (worker_record job b w)"
proof -
  let ?f = "jb_function job" and ?x = "wd_fields w (jb_function job)"
  have b: "built_for S (wd_heap w) (wd_memory w) ?f (jf_self_global ?x) b"
    using assms by (auto simp: world_defs state_simps)
  show ?thesis
  proof (cases "bt_buffer b")
    case None
    then have "bt_entry b = None" using b by (simp add: built_for_def)
    then show ?thesis
      using assms None
      by (auto simp: worker_record_def record_locked_def Let_def world_defs state_simps split: engine_thread.splits)
  next
    case (Some buffer)
    then obtain entry where "bt_entry b = Some entry" "eb_base buffer = Some entry" "eb_size buffer = bt_bytes b"
      using b by (auto simp: built_for_def)
    then show ?thesis
      using assms Some
      by (auto simp: worker_record_def record_locked_def Let_def world_defs state_simps split: engine_thread.splits)
  qed
qed

lemma inv_log:
  assumes "live_inv S w" "wd_worker w = Logging line"
  shows "live_inv S (worker_log line w)"
  using assms by (auto simp: worker_log_def with_jit_def log_line_def world_defs state_simps split: engine_thread.splits)

subsection \<open>The engine's thread keeps the invariant\<close>

text \<open>A function that was never queued is not pending, and nothing was built for it.\<close>

lemma cold_not_pending:
  assumes "live_inv S w" "jf_status (wd_fields w f) = JitCold"
  shows "f \<notin> set (pending (wd_jit w))" "compiles (wd_worker w) = Some job \<Longrightarrow> jb_function job \<noteq> f"
    "built_of (wd_worker w) = Some (job, b) \<Longrightarrow> jb_function job \<noteq> f"
    "jf_entry (wd_fields w f) = None"
proof -
  show f: "f \<notin> set (pending (wd_jit w))"
    using assms by (auto simp: live_inv_def queue_ok_def was_queued_def)
  show job: "jb_function job \<noteq> f" if c: "compiles (wd_worker w) = Some job" for job
  proof -
    have "running_process w" using c by (auto simp: running_process_def compiles_def split: worker.splits)
    then show ?thesis using f assms(1) c by (auto simp: live_inv_def worker_ok_def pending_def opt_addrs_def)
  qed
  show "jb_function job \<noteq> f" if b: "built_of (wd_worker w) = Some (job, b)"
    using job b by (auto simp: compiles_def built_of_def split: worker.splits)
  show "jf_entry (wd_fields w f) = None"
    using assms by (auto simp: live_inv_def fields_ok_def field_ok_def split: jit_status.splits)
qed

lemma compiles_cases: "p = Taken job \<or> p = Finished job b \<or> p = Published job b \<Longrightarrow> compiles p = Some job"
  by (auto simp: compiles_def)

text \<open>Writing the fields of such a function without giving it an entry.\<close>

lemma inv_set_cold:
  assumes "live_inv S w" "jf_status (wd_fields w f) = JitCold"
    "jf_entry (upd (wd_fields w f)) = None" "field_ok S (wd_heap w) (wd_memory w) f (upd (wd_fields w f))"
  shows "live_inv S (set_fields f upd w)"
proof -
  note c = cold_not_pending [OF assms(1,2)]
  have "worker_ok S (set_fields f upd w)"
    using assms(1) c(2,3) compiles_cases by (fastforce simp: live_inv_def worker_ok_def set_fields_def running_process_def)
  moreover have "queue_ok (set_fields f upd w)"
    using assms(1,3) c(1) by (auto simp: live_inv_def queue_ok_def set_fields_def pending_def)
  moreover have "buffers_ok (set_fields f upd w)"
    using assms(1,3) by (auto simp: live_inv_def buffers_ok_def set_fields_def owned_def)
  ultimately show ?thesis
    using assms(1,4) by (auto simp: live_inv_def fields_ok_def set_fields_def engine_ok_def split: engine_thread.splits)
qed

lemma inv_enqueue:
  assumes "live_inv S w" "good_function (wd_heap w) f" "jf_status (wd_fields w f) = JitCold" "jt_background (wd_jit w)"
    "wd_engine w = Running"
  shows "live_inv S (enqueue f w)"
proof -
  let ?x = "(wd_fields w f)\<lparr>jf_status := JitQueued\<rparr>" and ?w = "set_fields f (\<lambda>x. x\<lparr>jf_status := JitQueued\<rparr>) w"
  note c = cold_not_pending [OF assms(1,3)]
  have "f < hp_fresh (wd_heap w)"
    using assms(1,2) live_below_fresh [of "wd_heap w" f] by (auto simp: live_inv_def good_function_def)
  then have inv: "live_inv S ?w" using c(4) by (intro inv_set_cold [OF assms(1,3)]) (simp_all add: field_ok_def)
  have f: "wd_fields ?w f = ?x" "wd_heap ?w = wd_heap w" "wd_jit ?w = wd_jit w" "wd_worker ?w = wd_worker w"
    "wd_engine ?w = Running"
    using assms(5) by (simp_all add: set_fields_def)
  show ?thesis
  proof (cases "jt_stopping (wd_jit w)")
    case True
    then show ?thesis using inv by (simp add: enqueue_def Let_def f)
  next
    case False
    let ?j = "\<lambda>j. j\<lparr>jt_queue := jt_queue j @ [\<lparr>jb_function = f, jb_qos = current_qos\<rparr>]\<rparr>"
    have "queue_ok (with_jit ?j ?w)"
      using inv False c(1,4) assms(2) f
      by (auto simp: live_inv_def queue_ok_def with_jit_def pending_def was_queued_def)
    moreover have "worker_ok S (with_jit ?j ?w)"
      using inv assms(4) f by (auto simp: live_inv_def worker_ok_def with_jit_def running_process_def)
    ultimately have "live_inv S (with_jit ?j ?w)"
      using inv f by (simp add: live_inv_def fields_ok_def buffers_ok_def engine_ok_def with_jit_def owned_def)
    then show ?thesis using False by (simp add: enqueue_def Let_def f(3))
  qed
qed

lemma inv_compile_now:
  assumes "0 < os_page (js_os S)" "live_inv S w" "good_function (wd_heap w) f" "jf_status (wd_fields w f) = JitCold"
    "\<not> jt_background (wd_jit w)" "wd_engine w = Running" "compile_now S ns f w = Ok w'"
  shows "live_inv S w'"
proof -
  let ?x = "wd_fields w f"
  have s: "sane (wd_heap w)" and w: "wd_worker w = NoWorker" using assms(2,5) by (auto simp: live_inv_def worker_ok_def)
  have low: "f < hp_fresh (wd_heap w)"
    using assms(3) live_below_fresh [OF s, of f] by (auto simp: good_function_def)
  obtain b mem2 where b: "build S (wd_heap w) f (jf_self_global ?x) ns (wd_memory w) = Ok (b, wd_memory w @ mem2)"
      "built_for S (wd_heap w) (wd_memory w @ mem2) f (jf_self_global ?x) b"
      "\<forall>e. bt_entry b = Some e \<longrightarrow> e = length (wd_memory w)"
    using build_result [OF assms(1) s assms(3) refl, of "jf_self_global ?x" ns "wd_memory w"] assms(7)
    by (auto simp: compile_now_def)
  have q: "jt_queue (wd_jit w) = []" "jt_compiling (wd_jit w) = None"
    using assms(2) w by (simp_all add: live_inv_def worker_ok_def running_process_def compiles_def)
  have grow: "field_ok S (wd_heap w) (wd_memory w @ mem2) g (wd_fields w g)" for g
    using assms(2) field_ok_grow by (simp add: live_inv_def fields_ok_def)
  have e: "e < length (wd_memory w @ mem2)" if "bt_entry b = Some e" for e
    using b(2) that has_code_bound by (fastforce simp: built_for_def split: option.splits)
  show ?thesis
  proof (cases "bt_buffer b")
    case None
    then have n: "bt_entry b = None" "stays_out S (wd_heap w) f (jf_self_global ?x)" using b(2) by (simp_all add: built_for_def)
    have field: "field_ok S (wd_heap w) (wd_memory w @ mem2) f (?x\<lparr>jf_status := JitRejected\<rparr>)"
      using n(2) low cold_not_pending(4) [OF assms(2,4)] by (simp add: field_ok_def)
    have w': "wd_heap w' = wd_heap w" "wd_worker w' = NoWorker" "wd_engine w' = Running" "wd_memory w' = wd_memory w @ mem2"
      "wd_fields w' = (wd_fields w)(f := ?x\<lparr>jf_status := JitRejected\<rparr>)"
      "jt_queue (wd_jit w') = []" "jt_compiling (wd_jit w') = None" "\<not> jt_background (wd_jit w')"
      "jt_buffers (wd_jit w') = jt_buffers (wd_jit w)" "jt_compiled (wd_jit w') = jt_compiled (wd_jit w)"
      "jt_code_bytes (wd_jit w') = jt_code_bytes (wd_jit w)"
      using assms(5,6,7) b(1) n(1) None w q
      by (auto simp: compile_now_def record_locked_def Let_def set_fields_def with_jit_def log_line_def)
    have own: "owned w' = owned w" using w w'(2,9) by (simp add: owned_def built_of_def)
    have "buffers_ok w" using assms(2) by (simp add: live_inv_def)
    then have "buffers_ok w'"
      using cold_not_pending(4) [OF assms(2,4)] unfolding buffers_ok_def own w' by (auto intro: trans_less_add1)
    moreover have "fields_ok S w'" using field grow by (simp add: fields_ok_def w')
    ultimately show ?thesis
      using s w' by (simp add: live_inv_def queue_ok_def worker_ok_def engine_ok_def pending_def opt_addrs_def
          running_process_def compiles_def built_of_def)
  next
    case (Some buffer)
    then obtain n where n: "bt_entry b = Some n" "eb_base buffer = Some n" "eb_size buffer = bt_bytes b"
        "has_code S (wd_heap w) (wd_memory w @ mem2) f (jf_self_global ?x) n"
      using b(2) by (auto simp: built_for_def)
    have field: "field_ok S (wd_heap w) (wd_memory w @ mem2) f (?x\<lparr>jf_entry := Some n, jf_status := JitCompiled\<rparr>)"
      using n(4) low by (simp add: field_ok_def)
    have w': "wd_heap w' = wd_heap w" "wd_worker w' = NoWorker" "wd_engine w' = Running" "wd_memory w' = wd_memory w @ mem2"
      "wd_fields w' = (wd_fields w)(f := ?x\<lparr>jf_entry := Some n, jf_status := JitCompiled\<rparr>)"
      "jt_queue (wd_jit w') = []" "jt_compiling (wd_jit w') = None" "\<not> jt_background (wd_jit w')"
      "jt_buffers (wd_jit w') = jt_buffers (wd_jit w) @ [buffer]" "jt_compiled (wd_jit w') = jt_compiled (wd_jit w) + 1"
      "jt_code_bytes (wd_jit w') = jt_code_bytes (wd_jit w) + of_nat (bt_bytes b)"
      using assms(5,6,7) b(1) n(1) Some w q
      by (auto simp: compile_now_def record_locked_def Let_def set_fields_def with_jit_def log_line_def)
    have own: "owned w' = owned w @ [n]" using w w'(2,9) n(2) by (simp add: owned_def built_of_def opt_addrs_def)
    have bf: "buffers_ok w" and len: "n = length (wd_memory w)" using assms(2) b(3) n(1) by (simp_all add: live_inv_def)
    have "buffers_ok w'"
      using bf e [OF n(1)] len n(3) unfolding buffers_ok_def own w'
      by (auto intro: trans_less_add1 simp: add.commute)
    moreover have "fields_ok S w'" using field grow by (simp add: fields_ok_def w')
    ultimately show ?thesis
      using s w' by (simp add: live_inv_def queue_ok_def worker_ok_def engine_ok_def pending_def opt_addrs_def
          running_process_def compiles_def built_of_def)
  qed
qed

lemma inv_count:
  assumes "0 < os_page (js_os S)" "live_inv S w" "good_function (wd_heap w) f" "wd_engine w = Running"
    "jit_count S cell ns f w = Ok w'"
  shows "live_inv S w'"
proof (cases "w' = w")
  case False
  let ?x = "wd_fields w f"
  let ?hot = "\<lambda>x. x\<lparr>jf_hotness := jf_hotness x + 1\<rparr>" and ?self = "\<lambda>x. x\<lparr>jf_self_global := cell\<rparr>"
  obtain fo where fo: "function_object_at (wd_heap w) f = Ok fo"
    using assms(3) by (auto simp: good_function_def function_object_at_def)
  have cold: "jf_status ?x = JitCold"
    using assms(5) False by (auto simp: jit_count_def fo split: if_splits)
  have low: "f < hp_fresh (wd_heap w)"
    using assms(2,3) live_below_fresh [of "wd_heap w" f] by (auto simp: live_inv_def good_function_def)
  have 1: "live_inv S (set_fields f ?hot w)"
    using cold_not_pending(4) [OF assms(2) cold] cold low by (intro inv_set_cold [OF assms(2) cold]) (simp_all add: field_ok_def)
  have c1: "jf_status (wd_fields (set_fields f ?hot w) f) = JitCold" by (simp add: set_fields_def cold)
  have 2: "live_inv S (set_fields f ?self (set_fields f ?hot w))"
    using cold_not_pending(4) [OF assms(2) cold] cold low
    by (intro inv_set_cold [OF 1 c1]) (simp_all add: field_ok_def set_fields_def)
  let ?w = "set_fields f ?self (set_fields f ?hot w)"
  have w: "good_function (wd_heap ?w) f" "jf_status (wd_fields ?w f) = JitCold" "jt_background (wd_jit ?w) = jt_background (wd_jit w)"
    "wd_engine ?w = Running"
    using assms(3,4) cold by (simp_all add: set_fields_def)
  consider "w' = set_fields f ?hot w" | "jt_background (wd_jit w)" "w' = enqueue f ?w"
    | "\<not> jt_background (wd_jit w)" "compile_now S ns f ?w = Ok w'"
    using assms(5) False w(3) by (auto simp: jit_count_def fo Let_def split: if_splits)
  then show ?thesis
  proof cases
    case 1
    then show ?thesis using \<open>live_inv S (set_fields f ?hot w)\<close> by simp
  next
    case 2
    then show ?thesis using inv_enqueue [OF \<open>live_inv S ?w\<close> w(1,2) _ w(4)] w(3) by simp
  next
    case 3
    then show ?thesis using inv_compile_now [OF assms(1) \<open>live_inv S ?w\<close> w(1,2) _ w(4)] w(3) by simp
  qed
qed (use assms(2) in simp)

lemma inv_adopt:
  assumes "live_inv S w" "jf_entry (wd_fields w f) = Some e"
  shows "live_inv S (set_fields f (\<lambda>x. x\<lparr>jf_status := JitCompiled\<rparr>) w)"
proof -
  have "field_ok S (wd_heap w) (wd_memory w) f (wd_fields w f)" using assms(1) by (simp add: live_inv_def fields_ok_def)
  then have "field_ok S (wd_heap w) (wd_memory w) f ((wd_fields w f)\<lparr>jf_status := JitCompiled\<rparr>)"
    using assms(2) by (auto simp: field_ok_def cold_def)
  then have "fields_ok S (set_fields f (\<lambda>x. x\<lparr>jf_status := JitCompiled\<rparr>) w)"
    using assms(1) by (simp add: live_inv_def fields_ok_def set_fields_def)
  moreover have "queue_ok (set_fields f (\<lambda>x. x\<lparr>jf_status := JitCompiled\<rparr>) w)"
    using assms(1) by (auto simp: live_inv_def queue_ok_def set_fields_def was_queued_def)
  moreover have "worker_ok S (set_fields f (\<lambda>x. x\<lparr>jf_status := JitCompiled\<rparr>) w)"
    using assms(1) by (auto simp: live_inv_def worker_ok_def set_fields_def running_process_def)
  moreover have "buffers_ok (set_fields f (\<lambda>x. x\<lparr>jf_status := JitCompiled\<rparr>) w)"
    using assms(1) by (simp add: live_inv_def buffers_ok_def set_fields_def owned_def)
  moreover have "engine_ok (set_fields f (\<lambda>x. x\<lparr>jf_status := JitCompiled\<rparr>) w)"
    using assms(1) by (auto simp: live_inv_def engine_ok_def set_fields_def split: engine_thread.splits)
  ultimately show ?thesis using assms(1) by (simp add: live_inv_def set_fields_def)
qed

lemma inv_load_entry:
  assumes "live_inv S w" "load_entry f w = Ok (entry, w')"
  shows "live_inv S w'"
proof (cases "w' = w")
  case False
  then obtain e where e: "jf_entry (wd_fields w f) = Some e"
    using assms(2) by (auto simp: load_entry_def split: option.splits)
  then have "w' = set_fields f (\<lambda>x. x\<lparr>jf_status := JitCompiled\<rparr>) w"
    using assms(2) False by (auto simp: load_entry_def adopt_def bind_simps split: if_splits)
  then show ?thesis using inv_adopt [OF assms(1) e] by simp
qed (use assms(1) in simp)

text \<open>The log and the count of bail-outs are read by nothing but the reports.\<close>

lemma inv_reports:
  assumes "live_inv S w"
  shows "live_inv S (with_jit (log_line line) w)" "live_inv S (with_jit (\<lambda>j. j\<lparr>jt_bailouts := jt_bailouts j + 1\<rparr>) w)"
    "live_inv S (with_jit (\<lambda>j. j\<lparr>jt_held := b\<rparr>) w)"
  using assms by (auto simp: with_jit_def log_line_def world_defs state_simps split: engine_thread.splits)

lemma inv_bailout: "live_inv S w \<Longrightarrow> note_bailout f index w = Ok w' \<Longrightarrow> live_inv S w'"
  using inv_reports by (auto simp: note_bailout_def bind_simps Let_def split: if_splits)

lemma inv_after: "live_inv S w \<Longrightarrow> after_machine_code f resume newest w = Ok (after, w') \<Longrightarrow> live_inv S w'"
  using inv_bailout by (auto simp: after_machine_code_def bind_simps Let_def split: if_splits)

text \<open>What an operation of the engine's thread leaves alone.\<close>

definition quiet :: "world \<Rightarrow> world \<Rightarrow> bool" where
  "quiet w w' \<longleftrightarrow>
     wd_worker w' = wd_worker w \<and> wd_engine w' = wd_engine w \<and> wd_heap w' = wd_heap w \<and>
     jt_joinable (wd_jit w') = jt_joinable (wd_jit w) \<and> jt_stopping (wd_jit w') = jt_stopping (wd_jit w) \<and>
     (\<exists>more. jt_queue (wd_jit w') = jt_queue (wd_jit w) @ more) \<and> jt_compiling (wd_jit w') = jt_compiling (wd_jit w)"

lemma quiet_refl: "quiet w w" by (simp add: quiet_def)

lemma quiet_seq: "quiet u v \<Longrightarrow> quiet v w \<Longrightarrow> quiet u w" by (auto simp: quiet_def)

lemma quiet_bailout: "note_bailout f index w = Ok w' \<Longrightarrow> quiet w w'"
  by (auto simp: note_bailout_def bind_simps Let_def quiet_def with_jit_def log_line_def split: if_splits)

lemma quiet_after: "after_machine_code f resume newest w = Ok (after, w') \<Longrightarrow> quiet w w'"
  using quiet_bailout by (auto simp: after_machine_code_def bind_simps Let_def quiet_refl split: if_splits)

lemma quiet_load: "load_entry f w = Ok (entry, w') \<Longrightarrow> quiet w w'"
  by (auto simp: load_entry_def adopt_def bind_simps quiet_def set_fields_def split: option.splits if_splits)

lemma quiet_compile: "compile_now S ns f w = Ok w' \<Longrightarrow> quiet w w'"
  by (auto simp: compile_now_def bind_simps Let_def record_locked_def quiet_def set_fields_def with_jit_def log_line_def
      split: option.splits prod.splits)

lemma quiet_count: "jit_count S cell ns f w = Ok w' \<Longrightarrow> quiet w w'"
proof -
  have set: "quiet w (set_fields f upd w)" for upd and w :: world by (simp add: quiet_def set_fields_def)
  have enq: "quiet w (enqueue f w)" for w :: world
    by (simp add: enqueue_def Let_def quiet_def set_fields_def with_jit_def)
  assume c: "jit_count S cell ns f w = Ok w'"
  let ?w = "set_fields f (\<lambda>x. x\<lparr>jf_hotness := jf_hotness x + 1\<rparr>) w"
  let ?v = "set_fields f (\<lambda>x. x\<lparr>jf_self_global := cell\<rparr>) ?w"
  have v: "quiet w ?v" by (rule quiet_seq [OF set set])
  consider "w' = w" | "w' = ?w" | "w' = enqueue f ?v" | "compile_now S ns f ?v = Ok w'"
    using c by (auto simp: jit_count_def bind_simps Let_def split: if_splits)
  then show ?thesis
    using quiet_refl set enq quiet_seq [OF v] quiet_compile by cases blast+
qed

text \<open>Shutting down.\<close>

lemma inv_shutdown_begin:
  assumes "live_inv S w" "wd_engine w = Running"
  shows "live_inv S (shutdown_begin w)"
  using assms by (auto simp: shutdown_begin_def with_jit_def world_defs state_simps)

lemma log_cancelled_result:
  assumes "log_cancelled h dropped j = Ok j'"
  shows "\<exists>log. j' = j\<lparr>jt_log := log\<rparr>"
  using assms
proof (induction dropped arbitrary: j)
  case Nil
  then show ?case by (auto intro: exI [of _ "jt_log j"])
next
  case (Cons f dropped)
  then obtain name where "log_cancelled h dropped (log_line (cancelled_line name) j) = Ok j'" by (auto simp: bind_simps)
  from Cons.IH [OF this] show ?case by (auto simp: log_line_def)
qed

lemma inv_shutdown_end:
  assumes "live_inv S w" "shutdown_end dropped w = Ok w'"
  shows "live_inv S w'" "wd_worker w' = wd_worker w" "wd_engine w' = Running"
proof -
  obtain log where w': "w' = (with_jit (\<lambda>j. j\<lparr>jt_joinable := False, jt_log := log\<rparr>) w)\<lparr>wd_engine := Running\<rparr>"
  proof (cases "jt_log (wd_jit w) = None")
    case True
    then show ?thesis using assms(2) that [of None] by (auto simp: shutdown_end_def Let_def with_jit_def)
  next
    case False
    then obtain j where "log_cancelled (wd_heap w) dropped ((wd_jit w)\<lparr>jt_joinable := False\<rparr>) = Ok j"
      "w' = w\<lparr>wd_engine := Running, wd_jit := j\<rparr>"
      using assms(2) by (auto simp: shutdown_end_def Let_def with_jit_def bind_simps)
    moreover from this(1) obtain log where "j = (wd_jit w)\<lparr>jt_joinable := False, jt_log := log\<rparr>"
      using log_cancelled_result by fastforce
    ultimately show ?thesis using that [of log] by (simp add: with_jit_def)
  qed
  show "live_inv S w'" using assms(1) by (auto simp: w' with_jit_def world_defs state_simps)
  show "wd_worker w' = wd_worker w" "wd_engine w' = Running" by (simp_all add: w' with_jit_def)
qed

lemma log_cancelled_Ok: "\<forall>f\<in>set dropped. good_function h f \<Longrightarrow> \<exists>j'. log_cancelled h dropped j = Ok j'"
proof (induction dropped arbitrary: j)
  case (Cons f dropped)
  then obtain fo where fo: "obj_at h f = Some (OFunction fo)" "function_ok h fo" by (auto simp: good_function_def)
  then obtain name where "function_name h fo = Ok name" using function_name_Ok by blast
  then show ?case using Cons fo by (simp add: function_object_at_def)
qed simp

subsection \<open>Every step keeps the invariant\<close>

lemma inv_worker_step:
  assumes "0 < os_page (js_os S)" "jit_inv S w" "worker_step S w w'"
  shows "jit_inv S w'"
proof -
  have active: "\<not> ended w" using assms(3) by (auto simp: ended_def elim!: worker_stepE)
  then have inv: "live_inv S w" and e: "wd_engine w \<noteq> Destroyed" and j: "jt_joinable (wd_jit w)"
    using assms(2) by (auto simp: jit_inv_def split: if_splits)
  from assms(3) show ?thesis
  proof (cases rule: worker_stepE [consumes 1])
    case 1
    have "wd_engine w' = wd_engine w" "jt_joinable (wd_jit w') = jt_joinable (wd_jit w)"
      unfolding 1(1) by (auto simp: worker_take_def Let_def split: list.splits)
    then show ?thesis using inv_take_job [OF inv 1(2,3)] e j 1(1) by (simp add: jit_inv_def)
  next
    case (2 job ns)
    have "wd_engine w' = wd_engine w" "jt_joinable (wd_jit w') = jt_joinable (wd_jit w)"
      unfolding 2(1) by (auto simp: worker_build_def split: outcome.splits)
    then show ?thesis using inv_build [OF assms(1) inv 2(2), of ns] e j 2(1) by (simp add: jit_inv_def)
  next
    case (3 job b)
    have "wd_engine w' = wd_engine w" "jt_joinable (wd_jit w') = jt_joinable (wd_jit w)"
      unfolding 3(1) by (auto simp: worker_publish_def Let_def set_fields_def split: option.splits)
    then show ?thesis using inv_publish [OF inv 3(2)] e j 3(1) by (simp add: jit_inv_def)
  next
    case (4 job b)
    have "wd_engine w' = wd_engine w" "jt_joinable (wd_jit w') = jt_joinable (wd_jit w)"
      unfolding 4(1) by (auto simp: worker_record_def record_locked_def Let_def split: option.splits)
    then show ?thesis using inv_record [OF inv 4(2)] e j 4(1) by (simp add: jit_inv_def)
  next
    case (5 line)
    have "wd_engine w' = wd_engine w" "jt_joinable (wd_jit w') = jt_joinable (wd_jit w)"
      unfolding 5(1) by (auto simp: worker_log_def with_jit_def log_line_def)
    then show ?thesis using inv_log [OF inv 5(2)] e j 5(1) by (simp add: jit_inv_def)
  qed
qed

lemma quiet_inv: "live_inv S w' \<Longrightarrow> quiet w w' \<Longrightarrow> wd_engine w \<noteq> Destroyed \<Longrightarrow> jit_inv S w \<Longrightarrow> jit_inv S w'"
  by (simp add: jit_inv_def quiet_def ended_def)

lemma inv_engine_step:
  assumes "0 < os_page (js_os S)" "jit_inv S w" "engine_step S sz w w'"
  shows "jit_inv S w'"
proof -
  have e: "wd_engine w \<noteq> Destroyed" using assms(3) by (auto elim!: engine_stepE)
  then have inv: "live_inv S w" and j: "\<not> jt_joinable (wd_jit w) \<longrightarrow> ended w" using assms(2) by (simp_all add: jit_inv_def)
  have s: "sane (wd_heap w)" using inv by (simp add: live_inv_def)
  from assms(3) show ?thesis
  proof (cases rule: engine_stepE [consumes 1])
    case (1 f cell ns)
    show ?thesis by (rule quiet_inv [OF inv_count [OF assms(1) inv 1(2,1,3)] quiet_count [OF 1(3)] e assms(2)])
  next
    case (2 f entry)
    show ?thesis by (rule quiet_inv [OF inv_load_entry [OF inv 2(2)] quiet_load [OF 2(2)] e assms(2)])
  next
    case (3 f resume newest after)
    show ?thesis by (rule quiet_inv [OF inv_after [OF inv 3(2)] quiet_after [OF 3(2)] e assms(2)])
  next
    case (4 h')
    have "live_inv S (w\<lparr>wd_heap := h', wd_engine := Running\<rparr>)"
      using inv 4(3) by (intro inv_heap) (auto simp: engine_writes_def live_inv_def queue_ok_def good_function_def)
    moreover have "w\<lparr>wd_heap := h', wd_engine := Running\<rparr> = w'" using 4(1,2) by simp
    ultimately have "live_inv S w'" by simp
    then show ?thesis using j 4(1,2) by (simp add: jit_inv_def ended_def)
  next
    case (5 others)
    then show ?thesis using inv j by (simp add: jit_inv_def live_inv_def engine_ok_def ended_def queue_ok_def worker_ok_def
          fields_ok_def buffers_ok_def running_process_def owned_def)
  next
    case (6 roots)
    have "obj_at (collect sz roots (wd_heap w)) f \<noteq> None" if f: "f \<in> set (pending (wd_jit w))" for f
    proof -
      have "f \<in> set roots" "good_function (wd_heap w) f"
        using inv 6(2) f by (auto simp: live_inv_def engine_ok_def queue_ok_def)
      then have "reach (wd_heap w) (gc_roots roots (wd_heap w)) f"
        by (auto simp: gc_roots_def good_function_def intro!: reach.reach_root)
      moreover have "heap_ok (wd_heap w)" using s by (simp add: sane_def)
      ultimately show ?thesis
        using obj_at_collect [of "wd_heap w" sz roots f] \<open>good_function (wd_heap w) f\<close> by (auto simp: good_function_def)
    qed
    then have "live_inv S w'" unfolding 6(1) using inv_heap [OF inv collect_ages [OF s]] by blast
    then show ?thesis using j 6(1) by (simp add: jit_inv_def ended_def)
  next
    case (7 b)
    then show ?thesis using inv_reports(3) [OF inv, of b] j
      by (simp add: hold_for_testing_def jit_inv_def ended_def with_jit_def)
  next
    case 8
    then show ?thesis using inv_shutdown_begin [OF inv 8(2)] j
      by (auto simp: shutdown_begin_def jit_inv_def ended_def with_jit_def)
  next
    case (9 dropped)
    note fin = inv_shutdown_end [OF inv 9(3)]
    then show ?thesis using 9(2) by (simp add: jit_inv_def ended_def)
  next
    case 10
    then show ?thesis using j by (simp add: jit_inv_def destroy_def with_jit_def ended_def)
  qed
qed

lemma reachable_inv:
  assumes "0 < os_page (js_os S)" "jit_reachable S sz w"
  shows "jit_inv S w"
  using assms(2)
proof (induction rule: jit_reachable.induct)
  case (stepped w w')
  then show ?case using inv_worker_step [OF assms(1)] inv_engine_step [OF assms(1)] unfolding jit_step_def by blast
qed (rule start_inv)

end
