(* ===== verification/Jit_Handoff.thy ===== *)
theory Jit_Handoff
  imports Jit_Threads "HOL-Library.Code_Target_Nat"
begin

text \<open>
  What the two threads of the JIT promise each other: the compiler thread reads live objects only, an entry
  leads to the machine code of its function, and under fairness a queued function does not stay queued.
\<close>

subsection \<open>A function and a system to try it on\<close>

text \<open>\<open>fun next(n) { return n + 1; }\<close> in a heap of its own, and a system that grants every request.\<close>

definition next_function :: function_object where
  "next_function = \<lparr>fo_name = Some 0, fo_arity = 1, fo_upvalue_count = 0, fo_chunk = empty_chunk, fo_reg = next_chunk\<rparr>"

definition next_heap :: heap where
  "next_heap =
     \<lparr>hp_objects = [(1, False, OFunction next_function), (0, False, OString ''next'')], hp_fresh = 2,
      hp_strings = [(''next'', 0)], hp_temp_roots = [], hp_stress = False, hp_bytes = 20, hp_next_gc = kMinNextGc,
      hp_stats = \<lparr>hs_objects_allocated = 2, hs_bytes_allocated = 20, hs_collections = 0,
        hs_peak_live_bytes = 20, hs_live_objects = 2\<rparr>\<rparr>"

definition plain_setup :: jit_setup where
  "plain_setup =
     \<lparr>js_os = \<lparr>os_page = 4096, os_mmap = (\<lambda>_. True), os_mprotect = (\<lambda>_ _. True), os_strerror = ''''\<rparr>,
      js_env = (\<lambda>_. plain_env)\<rparr>"

lemma next_objects:
  "obj_at next_heap 1 = Some (OFunction next_function)" "obj_at next_heap 0 = Some (OString ''next'')"
  by (simp_all add: next_heap_def obj_at_def)

lemma next_heap_sane: "sane next_heap"
proof -
  have o: "obj_at next_heap a = Some ob \<longleftrightarrow> (a = 1 \<and> ob = OFunction next_function) \<or> (a = 0 \<and> ob = OString ''next'')" for a ob
    by (auto simp: next_heap_def obj_at_def)
  have "no_dangling next_heap"
    by (auto simp: no_dangling_def o next_function_def next_chunk_def empty_chunk_def opt_addrs_def value_addrs_def)
  moreover have "strings_ok next_heap" by (simp add: strings_ok_def o) (simp add: next_heap_def)
  ultimately show ?thesis by (simp add: sane_def heap_ok_def next_heap_def)
qed

lemma next_code_ok: "jit_code_ok next_chunk"
proof -
  have "opcodes_ok next_chunk" by (simp add: opcodes_ok_def next_chunk_def del: not_None_eq) code_simp
  moreover have "\<forall>insn\<in>set (rc_code next_chunk). constants_in_range next_chunk insn"
    by (simp add: next_chunk_def constants_in_range_def) code_simp
  ultimately show ?thesis by (simp add: jit_code_ok_def next_chunk_def)
qed

lemma next_good: "good_function next_heap 1"
  using next_objects next_code_ok by (auto simp: good_function_def function_ok_def next_function_def)

lemma place_code_granted:
  assumes "os_mmap os = (\<lambda>_. True)" "os_mprotect os = (\<lambda>_ _. True)" "0 < os_page os"
  shows "\<exists>buffer m. place_code os words mem = Ok (buffer, mem @ [m]) \<and> eb_base buffer = Some (length mem)"
proof -
  let ?n = "round_up_to_page os (kHeaderBytes + 4 * length words)"
  have "16 + 4 * length words \<le> ?n"
    using round_up_le [OF assms(3), of "16 + 4 * length words"] by (simp add: kHeaderBytes_def)
  then have "length words \<le> (?n - 16) div 4" by linarith
  then show ?thesis
    using assms by (simp add: place_code_def new_exec_buffer_def write_code_def Let_def capacity_bytes_def kHeaderBytes_def)
qed

subsection \<open>The compiler thread reads live objects only\<close>

text \<open>C33. The compiler thread never reads a freed object. In every world the two threads can reach, whatever they
  do and whenever a collection runs, each function that is queued or being compiled is a live function object
  with a live name, and every object its constants name is alive; no function is queued twice; a job the
  thread has taken is still among the roots; the thread never performs an access outside live memory; and the
  functions a shutdown dropped can still be named in the log.\<close>

theorem compiler_reads_live:
  assumes "0 < os_page (js_os S)" "jit_reachable S sz w" "wd_engine w \<noteq> Destroyed"
  shows "distinct (pending (wd_jit w)) \<and>
    (\<forall>f\<in>set (pending (wd_jit w)). \<exists>fo a name.
       obj_at (wd_heap w) f = Some (OFunction fo) \<and> fo_name fo = Some a \<and> obj_at (wd_heap w) a = Some (OString name) \<and>
       (\<forall>b\<in>set (trace (OFunction fo)). obj_at (wd_heap w) b \<noteq> None)) \<and>
    (running_process w \<longrightarrow> (\<forall>job. compiles (wd_worker w) = Some job \<longrightarrow> jb_function job \<in> set (pending (wd_jit w)))) \<and>
    wd_worker w \<noteq> Died BadAccess \<and>
    (\<forall>dropped. wd_engine w = Joining dropped \<longrightarrow> (\<exists>w'. shutdown_end dropped w = Ok w'))"
proof -
  have inv: "live_inv S w" using reachable_inv [OF assms(1,2)] assms(3) by (simp add: jit_inv_def)
  then have s: "sane (wd_heap w)" and q: "queue_ok w" and wk: "worker_ok S w" and e: "engine_ok w"
    by (simp_all add: live_inv_def)
  have "\<exists>fo a name. obj_at (wd_heap w) f = Some (OFunction fo) \<and> fo_name fo = Some a \<and>
      obj_at (wd_heap w) a = Some (OString name) \<and> (\<forall>b\<in>set (trace (OFunction fo)). obj_at (wd_heap w) b \<noteq> None)"
    if f: "f \<in> set (pending (wd_jit w))" for f
  proof -
    obtain fo where fo: "obj_at (wd_heap w) f = Some (OFunction fo)" "function_ok (wd_heap w) fo"
      using q f by (auto simp: queue_ok_def good_function_def)
    obtain a name where "fo_name fo = Some a" "obj_at (wd_heap w) a = Some (OString name)"
      using fo(2) unfolding function_ok_def by blast
    then show ?thesis using fo(1) sane_traced [OF s fo(1)] by blast
  qed
  moreover have "\<exists>w'. shutdown_end dropped w = Ok w'" if d: "wd_engine w = Joining dropped" for dropped
  proof -
    have "\<forall>f\<in>set dropped. good_function (wd_heap w) f" using e d by (simp add: engine_ok_def)
    then have "succeeds (log_cancelled (wd_heap w) dropped j)" for j using log_cancelled_Ok by (simp add: succeeds_Ok)
    then show ?thesis by (auto simp: shutdown_end_def Let_def with_jit_def succeeds_Ok [symmetric] intro!: succeeds_bindo)
  qed
  moreover have "jb_function job \<in> set (pending (wd_jit w))" if "running_process w" "compiles (wd_worker w) = Some job" for job
    using wk that by (simp add: worker_ok_def pending_def opt_addrs_def)
  moreover have "distinct (pending (wd_jit w))" "wd_worker w \<noteq> Died BadAccess"
    using q wk by (simp_all add: queue_ok_def worker_ok_def)
  ultimately show ?thesis by blast
qed

text \<open>A function gets hot, is queued, and is taken by the compiler thread; it stays alive.\<close>

definition queued_world :: world where
  "queued_world =
     enqueue 1 (set_fields 1 (\<lambda>x. x\<lparr>jf_self_global := None\<rparr>)
       (set_fields 1 (\<lambda>x. x\<lparr>jf_hotness := jf_hotness x + 1\<rparr>) (start_world 1 False True next_heap)))"

lemma set_fields_parts:
  "wd_fields (set_fields f upd w) f = upd (wd_fields w f)" "wd_jit (set_fields f upd w) = wd_jit w"
  "wd_heap (set_fields f upd w) = wd_heap w" "wd_memory (set_fields f upd w) = wd_memory w"
  by (simp_all add: set_fields_def)

lemma start_parts:
  "wd_fields (start_world threshold log background h) f = cold" "wd_heap (start_world threshold log background h) = h"
  "wd_jit (start_world threshold log background h) = new_jit threshold log background"
  "wd_memory (start_world threshold log background h) = []" "wd_engine (start_world threshold log background h) = Running"
  by (simp_all add: start_world_def)

lemma queued_reachable: "jit_reachable plain_setup sz queued_world"
proof -
  have "function_object_at next_heap 1 = Ok next_function" using next_objects by (simp add: function_object_at_def)
  moreover have "fo_name next_function \<noteq> None" by (simp add: next_function_def)
  moreover have "jf_status cold = JitCold" "jf_hotness cold = 0" by (simp_all add: cold_def)
  moreover have "jt_threshold (new_jit 1 False True) = 1" "jt_background (new_jit 1 False True)" by (simp_all add: new_jit_def)
  ultimately have "jit_count plain_setup None 0 1 (start_world 1 False True next_heap) = Ok queued_world"
    by (simp only: jit_count_def queued_world_def start_parts set_fields_parts Let_def bindo.simps if_True if_False
        simp_thms jit_fields.simps) simp
  then have "engine_step plain_setup sz (start_world 1 False True next_heap) queued_world"
    by (rule engine_step.count [rotated 2]) (simp_all only: start_parts next_good)
  then have "jit_step plain_setup sz (start_world 1 False True next_heap) queued_world"
    by (simp add: jit_step_def running_process_def start_world_def)
  then show ?thesis using jit_reachable.intros next_heap_sane by blast
qed

theorem compiler_reads_live_witness:
  "pending (wd_jit (worker_take queued_world)) = [1] \<and> wd_worker (worker_take queued_world) \<noteq> Died BadAccess \<and>
   (\<exists>fo. obj_at (wd_heap (worker_take queued_world)) 1 = Some (OFunction fo))"
proof -
  have j: "wd_worker queued_world = Waiting" "jt_queue (wd_jit queued_world) = [\<lparr>jb_function = 1, jb_qos = 0\<rparr>]"
    "\<not> jt_stopping (wd_jit queued_world)" "\<not> jt_held (wd_jit queued_world)" "wd_engine queued_world = Running"
    "jt_compiling (wd_jit queued_world) = None"
    by (simp_all add: queued_world_def enqueue_def start_world_def new_jit_def Let_def set_fields_def with_jit_def current_qos_def)
  have "worker_step plain_setup queued_world (worker_take queued_world)"
    using j by (intro worker_step.take_job) (simp_all add: wakes_def)
  then have "jit_step plain_setup sz queued_world (worker_take queued_world)" for sz
    using j(1) by (simp add: jit_step_def running_process_def)
  then have r: "jit_reachable plain_setup (\<lambda>_. 10) (worker_take queued_world)"
    using jit_reachable.stepped [OF queued_reachable] by blast
  have p: "pending (wd_jit (worker_take queued_world)) = [1]" "wd_engine (worker_take queued_world) \<noteq> Destroyed"
    using j by (simp_all add: worker_take_def Let_def pending_def opt_addrs_def)
  have "0 < os_page (js_os plain_setup)" by (simp add: plain_setup_def)
  from compiler_reads_live [OF this r p(2)] show ?thesis unfolding p(1) by auto
qed

subsection \<open>An entry leads to the code of its function\<close>

text \<open>C34. The handoff is sound. In every reachable world, compiled at once or on the compiler thread, a non-null
  entry of a function points at executable memory that the JIT owns and that holds exactly the machine code
  the generator produces for that function, which the whitelist accepts, although the heap may have changed
  and been collected since; the memory is not written or unmapped while the engine runs. A function has
  status Compiled only with an entry and status Rejected only if it cannot be compiled, and the counters of
  compiled functions and code bytes are those of the buffers kept.\<close>

theorem entry_runs_its_code:
  assumes "0 < os_page (js_os S)" "jit_reachable S sz w" "wd_engine w \<noteq> Destroyed"
  shows "(\<forall>f e. jf_entry (wd_fields w f) = Some e \<longrightarrow>
      e \<in> set (owned w) \<and>
      (\<exists>code. holds_code (wd_memory w) e (gc_words code) \<and>
        (\<forall>fo. obj_at (wd_heap w) f = Some (OFunction fo) \<and> opcodes_ok (fo_reg fo) \<longrightarrow>
          (let self = Some (self_of S f fo (jf_self_global (wd_fields w f)))
           in check_whitelist (wd_heap w) (js_env S f) (fo_reg fo) self = Ok None \<and>
              generate (js_env S f) (fo_reg fo) self = Ok code)))) \<and>
    (\<forall>f. jf_status (wd_fields w f) = JitCompiled \<longrightarrow> jf_entry (wd_fields w f) \<noteq> None) \<and>
    (\<forall>f. jf_status (wd_fields w f) = JitRejected \<longrightarrow>
      jf_entry (wd_fields w f) = None \<and> stays_out S (wd_heap w) f (jf_self_global (wd_fields w f))) \<and>
    distinct (owned w) \<and>
    jt_compiled (wd_jit w) = of_nat (length (jt_buffers (wd_jit w))) \<and>
    jt_code_bytes (wd_jit w) = of_nat (sum_list (map eb_size (jt_buffers (wd_jit w))))"
proof -
  have inv: "live_inv S w" using reachable_inv [OF assms(1,2)] assms(3) by (simp add: jit_inv_def)
  then have fl: "field_ok S (wd_heap w) (wd_memory w) f (wd_fields w f)" for f by (simp add: live_inv_def fields_ok_def)
  have b: "buffers_ok w" using inv by (simp add: live_inv_def)
  have "\<exists>code. holds_code (wd_memory w) e (gc_words code) \<and>
        (\<forall>fo. obj_at (wd_heap w) f = Some (OFunction fo) \<and> opcodes_ok (fo_reg fo) \<longrightarrow>
          (let self = Some (self_of S f fo (jf_self_global (wd_fields w f)))
           in check_whitelist (wd_heap w) (js_env S f) (fo_reg fo) self = Ok None \<and>
              generate (js_env S f) (fo_reg fo) self = Ok code))"
    if "jf_entry (wd_fields w f) = Some e" for f e
  proof -
    have "has_code S (wd_heap w) (wd_memory w) f (jf_self_global (wd_fields w f)) e"
      using fl [of f] that by (simp add: field_ok_def)
    then show ?thesis unfolding has_code_def Let_def using translate_accepts by blast
  qed
  moreover have "jf_entry (wd_fields w f) = Some e \<Longrightarrow> e \<in> set (owned w)" for f e using b by (simp add: buffers_ok_def)
  moreover have "jf_status (wd_fields w f) = JitCompiled \<Longrightarrow> jf_entry (wd_fields w f) \<noteq> None" for f
    using fl [of f] by (simp add: field_ok_def)
  moreover have "jf_status (wd_fields w f) = JitRejected \<Longrightarrow>
      jf_entry (wd_fields w f) = None \<and> stays_out S (wd_heap w) f (jf_self_global (wd_fields w f))" for f
    using fl [of f] by (simp add: field_ok_def)
  ultimately show ?thesis using b unfolding buffers_ok_def by blast
qed

text \<open>Compiling \<open>next\<close> at once gives it an entry.\<close>

lemma next_compiles:
  "\<exists>code w'. jit_count plain_setup None 5 1 (start_world 1 False False next_heap) = Ok w' \<and>
    generate plain_env next_chunk (Some (self_of plain_setup 1 next_function None)) = Ok code \<and>
    jf_entry (wd_fields w' 1) = Some 0 \<and> wd_heap w' = next_heap \<and> wd_engine w' = Running \<and> jf_self_global (wd_fields w' 1) = None"
proof -
  let ?self = "self_of plain_setup 1 next_function None"
  have wl: "check_whitelist next_heap plain_env next_chunk (Some ?self) = Ok None"
    by code_simp
  moreover have "opcodes_ok next_chunk" using next_code_ok by (simp add: jit_code_ok_def)
  moreover have "registers_fit next_chunk" "layouts_ok plain_env" "max_words next_chunk \<le> kReach"
    by (simp add: registers_fit_def next_chunk_def, code_simp, simp add: layouts_ok_def plain_env_def, code_simp)
  ultimately obtain code where code: "generate plain_env next_chunk (Some ?self) = Ok code"
    using generate_goes [of next_heap plain_env next_chunk "Some ?self" True] by blast
  have t: "translate next_heap plain_env next_chunk ?self = Ok ('''', code)"
    by (simp only: translate_def wl generate_or_reject_def code outcome.case option.case)
  obtain buffer m where p: "place_code (js_os plain_setup) (gc_words code) [] = Ok (buffer, [m])" "eb_base buffer = Some 0"
    using place_code_granted [of "js_os plain_setup" "gc_words code" "[]"] by (auto simp: plain_setup_def)
  have fo: "function_object_at next_heap 1 = Ok next_function" "function_name next_heap next_function = Ok ''next''"
    "fo_reg next_function = next_chunk" "fo_name next_function \<noteq> None" "js_env plain_setup 1 = plain_env"
    using next_objects by (simp_all add: function_object_at_def function_name_def next_function_def plain_setup_def)
  let ?b = "\<lparr>bt_buffer = Some buffer, bt_entry = Some 0, bt_bytes = 4 * length (gc_words code), bt_ns = 5,
    bt_log_line = compiled_line ''next'' next_chunk (gc_words code) 5\<rparr>"
  have b: "build plain_setup next_heap 1 None 5 [] = Ok (?b, [m])"
    unfolding build_def fo(1) bindo.simps fo(3,5) t prod.case if_True simp_thms p(1) fo(2) by (simp add: entry_of_def p(2))
  let ?w = "set_fields 1 (\<lambda>x. x\<lparr>jf_self_global := None\<rparr>)
    (set_fields 1 (\<lambda>x. x\<lparr>jf_hotness := jf_hotness x + 1\<rparr>) (start_world 1 False False next_heap))"
  have w: "wd_heap ?w = next_heap" "jf_self_global (wd_fields ?w 1) = None" "wd_memory ?w = []" "wd_engine ?w = Running"
    by (simp_all add: set_fields_def start_world_def)
  have "jf_status cold = JitCold" "jf_hotness cold = 0" by (simp_all add: cold_def)
  moreover have "jt_threshold (new_jit 1 False False) = 1" "\<not> jt_background (new_jit 1 False False)" by (simp_all add: new_jit_def)
  ultimately have "jit_count plain_setup None 5 1 (start_world 1 False False next_heap) = compile_now plain_setup 5 1 ?w"
    using fo(1,4) by (simp only: jit_count_def start_parts set_fields_parts Let_def bindo.simps if_True if_False
        simp_thms jit_fields.simps) simp
  moreover obtain w' where "compile_now plain_setup 5 1 ?w = Ok w'" "jf_entry (wd_fields w' 1) = Some 0" "wd_heap w' = next_heap"
    "wd_engine w' = Running" "jf_self_global (wd_fields w' 1) = None"
    unfolding compile_now_def w b bindo.simps prod.case Let_def
    using w by (simp add: record_locked_def Let_def set_fields_def with_jit_def)
  ultimately show ?thesis using code by (intro exI [of _ code] exI [of _ w']) (simp only: simp_thms)
qed

theorem entry_runs_its_code_witness:
  "\<exists>code w'. jit_reachable plain_setup (\<lambda>_. 10) w' \<and> jf_entry (wd_fields w' 1) = Some 0 \<and>
     generate plain_env next_chunk (Some (self_of plain_setup 1 next_function None)) = Ok code \<and>
     holds_code (wd_memory w') 0 (gc_words code)"
proof -
  obtain code w' where w: "jit_count plain_setup None 5 1 (start_world 1 False False next_heap) = Ok w'"
    "generate plain_env next_chunk (Some (self_of plain_setup 1 next_function None)) = Ok code"
    "jf_entry (wd_fields w' 1) = Some 0" "wd_heap w' = next_heap" "wd_engine w' = Running" "jf_self_global (wd_fields w' 1) = None"
    using next_compiles by blast
  have "engine_step plain_setup (\<lambda>_. 10) (start_world 1 False False next_heap) w'"
    by (rule engine_step.count [OF _ _ w(1)]) (simp_all only: start_parts next_good)
  then have "jit_step plain_setup (\<lambda>_. 10) (start_world 1 False False next_heap) w'"
    by (simp add: jit_step_def running_process_def start_world_def)
  then have r: "jit_reachable plain_setup (\<lambda>_. 10) w'" using jit_reachable.intros next_heap_sane by blast
  have page: "0 < os_page (js_os plain_setup)" and e: "wd_engine w' \<noteq> Destroyed" using w(5) by (simp_all add: plain_setup_def)
  have "opcodes_ok (fo_reg next_function)" using next_code_ok by (simp add: next_function_def jit_code_ok_def)
  moreover have "obj_at (wd_heap w') 1 = Some (OFunction next_function)" using w(4) next_objects by simp
  moreover have "js_env plain_setup 1 = plain_env" "fo_reg next_function = next_chunk"
    by (simp_all add: plain_setup_def next_function_def)
  ultimately have "holds_code (wd_memory w') 0 (gc_words code)"
    using entry_runs_its_code [OF page r e] w(2,3,6) unfolding Let_def by fastforce
  then show ?thesis using w(2,3) r by blast
qed

end
