(* ===== verification/Jit_Live.thy ===== *)
theory Jit_Live
  imports Jit_Handoff
begin

text \<open>
  Liveness of background compilation. A run of the two threads is a sequence of worlds in which every step is
  a step of one of them or changes nothing, and in which the compiler thread, when it can go on forever, does
  so at some time. In such a run a queued function does not stay queued: with every step of the compiler
  thread the distance of the function from the end of its compilation shrinks, and no step of the engine
  makes it larger.
\<close>

subsection \<open>Runs\<close>

definition can_work :: "jit_setup \<Rightarrow> world \<Rightarrow> bool" where
  "can_work S w \<longleftrightarrow> (\<exists>w'. worker_step S w w')"

definition jit_run :: "jit_setup \<Rightarrow> (obj \<Rightarrow> nat) \<Rightarrow> (nat \<Rightarrow> world) \<Rightarrow> bool" where
  "jit_run S sz ws \<longleftrightarrow>
     jit_reachable S sz (ws 0) \<and> (\<forall>i. ws (Suc i) = ws i \<or> jit_step S sz (ws i) (ws (Suc i)))"

definition fair :: "jit_setup \<Rightarrow> (nat \<Rightarrow> world) \<Rightarrow> bool" where
  "fair S ws \<longleftrightarrow> (\<forall>i. \<exists>j\<ge>i. \<not> can_work S (ws j) \<or> worker_step S (ws j) (ws (Suc j)))"

text \<open>\<open>hold_for_testing\<close> does not hold the thread forever.\<close>

definition released :: "(nat \<Rightarrow> world) \<Rightarrow> bool" where
  "released ws \<longleftrightarrow> (\<exists>i. \<forall>j\<ge>i. \<not> jt_held (wd_jit (ws j)))"

lemma run_reachable: "jit_run S sz ws \<Longrightarrow> jit_reachable S sz (ws i)"
proof (induction i)
  case (Suc i)
  then have "jit_reachable S sz (ws i)" "ws (Suc i) = ws i \<or> jit_step S sz (ws i) (ws (Suc i))" by (simp_all add: jit_run_def)
  then show ?case by (auto intro: jit_reachable.stepped)
qed (simp add: jit_run_def)

subsection \<open>The distance of a pending function from the end of its compilation\<close>

definition phase :: "worker \<Rightarrow> nat" where
  "phase p = (case p of Taken job \<Rightarrow> 4 | Finished job b \<Rightarrow> 3 | Published job b \<Rightarrow> 2 | Logging line \<Rightarrow> 1 | _ \<Rightarrow> 0)"

fun place :: "addr \<Rightarrow> job list \<Rightarrow> nat" where
  "place f [] = 0"
| "place f (job # queue) = (if jb_function job = f then 5 else 5 + place f queue)"

definition distance :: "addr \<Rightarrow> world \<Rightarrow> nat" where
  "distance f w =
     (if f \<in> jb_function ` set (jt_queue (wd_jit w)) then place f (jt_queue (wd_jit w)) else 0) + phase (wd_worker w)"

lemma place_append: "f \<in> jb_function ` set queue \<Longrightarrow> place f (queue @ queue2) = place f queue"
  by (induction queue) auto

lemma place_least: "f \<in> jb_function ` set queue \<Longrightarrow> 5 \<le> place f queue"
  by (induction queue) auto

text \<open>\<open>pends\<close>: the function is queued or being compiled, and compiling it gives \<open>why\<close> and \<open>code\<close>. \<open>settled\<close>: it has
  left the queue and the thread, with that code or without code. \<open>given_up\<close>: the JIT is shutting down, or the
  process was aborted.\<close>

definition pends :: "jit_setup \<Rightarrow> addr \<Rightarrow> function_object \<Rightarrow> string \<Rightarrow> generated_code \<Rightarrow> world \<Rightarrow> bool" where
  "pends S f fo why code w \<longleftrightarrow>
     wd_engine w \<noteq> Destroyed \<and> f \<in> set (pending (wd_jit w)) \<and> \<not> jt_stopping (wd_jit w) \<and> running_process w \<and>
     obj_at (wd_heap w) f = Some (OFunction fo) \<and>
     translate (wd_heap w) (js_env S f) (fo_reg fo) (self_of S f fo (jf_self_global (wd_fields w f))) = Ok (why, code)"

definition settled :: "addr \<Rightarrow> string \<Rightarrow> generated_code \<Rightarrow> world \<Rightarrow> bool" where
  "settled f why code w \<longleftrightarrow>
     f \<notin> set (pending (wd_jit w)) \<and>
     (if why = [] then \<exists>e. jf_entry (wd_fields w f) = Some e \<and> holds_code (wd_memory w) e (gc_words code)
      else jf_entry (wd_fields w f) = None)"

definition given_up :: "world \<Rightarrow> bool" where
  "given_up w \<longleftrightarrow> jt_stopping (wd_jit w) \<or> \<not> running_process w"

lemma pends_inv: "0 < os_page (js_os S) \<Longrightarrow> jit_reachable S sz w \<Longrightarrow> pends S f fo why code w \<Longrightarrow> live_inv S w"
  using reachable_inv by (fastforce simp: pends_def jit_inv_def)

text \<open>While a function pends its compiler thread exists and is not done, so the JIT is not being destroyed.\<close>

lemma pends_active:
  assumes "live_inv S w" "jit_inv S w" "pends S f fo why code w"
  shows "\<not> ended w" "jt_joinable (wd_jit w)"
proof -
  show e: "\<not> ended w"
    using assms(1,3) by (auto simp: ended_def live_inv_def worker_ok_def pends_def pending_def compiles_def opt_addrs_def)
  then show "jt_joinable (wd_jit w)" using assms(2) by (auto simp: jit_inv_def)
qed

lemma pends_heap:
  assumes "pends S f fo why code w" "ages (wd_heap w) h'" "sane (wd_heap w)" "obj_at h' f \<noteq> None" "e \<noteq> Destroyed"
  shows "pends S f fo why code (w\<lparr>wd_heap := h', wd_engine := e\<rparr>)"
proof -
  have fo: "obj_at (wd_heap w) f = Some (OFunction fo)" using assms(1) by (simp add: pends_def)
  then have "f < hp_fresh (wd_heap w)" using live_below_fresh [OF assms(3), of f] by simp
  moreover have "obj_at h' f = Some (OFunction fo)" using ages_forward [OF assms(2,3) fo _ assms(4)] by simp
  ultimately show ?thesis
    using assms(1,5) ages_function(2) [OF assms(2,3)] by (simp add: pends_def running_process_def)
qed

subsection \<open>Steps of the compiler thread\<close>

lemma distance_queued:
  "f \<in> jb_function ` set (jt_queue (wd_jit w)) \<Longrightarrow> distance f w = place f (jt_queue (wd_jit w)) + phase (wd_worker w)"
  by (simp add: distance_def)

lemma pends_worker_step:
  assumes inv: "live_inv S w" and p: "pends S f fo why code w" and step: "worker_step S w w'"
  shows "given_up w' \<or> settled f why code w' \<or> pends S f fo why code w' \<and> distance f w' < distance f w"
proof -
  have q: "distinct (pending (wd_jit w))" and wk: "worker_ok S w" and run: "running_process w"
    using inv p by (simp_all add: live_inv_def queue_ok_def pends_def)
  have c: "jt_compiling (wd_jit w) = map_option jb_function (compiles (wd_worker w))"
    using wk run by (simp add: worker_ok_def)
  from step show ?thesis
  proof (cases rule: worker_stepE [consumes 1])
    case 1
    have "\<not> jt_stopping (wd_jit w)" "jt_compiling (wd_jit w) = None" using p c 1(2) by (simp_all add: pends_def compiles_def)
    then have f: "f \<in> jb_function ` set (jt_queue (wd_jit w))" using p by (auto simp: pends_def pending_def opt_addrs_def)
    then obtain job rest where j: "jt_queue (wd_jit w) = job # rest" by (cases "jt_queue (wd_jit w)") auto
    have w': "w' = w\<lparr>wd_jit := (wd_jit w)\<lparr>jt_queue := rest, jt_compiling := Some (jb_function job)\<rparr>, wd_worker := Taken job\<rparr>"
      using 1(1) \<open>\<not> jt_stopping (wd_jit w)\<close> j by (simp add: worker_take_def Let_def)
    have "pends S f fo why code w'"
      using p f j by (auto simp: pends_def w' pending_def opt_addrs_def running_process_def)
    moreover have "distance f w' < distance f w"
    proof (cases "jb_function job = f")
      case True
      then have "f \<notin> jb_function ` set rest" using q j by (auto simp: pending_def)
      then show ?thesis using True by (simp add: distance_def w' j phase_def 1(2))
    next
      case False
      then show ?thesis using f by (auto simp: distance_def w' j phase_def 1(2))
    qed
    ultimately show ?thesis by blast
  next
    case (2 job ns)
    show ?thesis
    proof (cases "given_up w'")
      case False
      then obtain b mem where w': "w' = w\<lparr>wd_memory := mem, wd_worker := Finished job b\<rparr>"
        using 2(1) by (auto simp: worker_build_def given_up_def running_process_def split: outcome.splits)
      then show ?thesis
        using p 2(2) by (simp add: pends_def distance_def phase_def running_process_def)
    qed simp
  next
    case (3 job b)
    have w': "wd_jit w' = wd_jit w" "wd_worker w' = Published job b" "wd_heap w' = wd_heap w" "wd_engine w' = wd_engine w"
      "jf_self_global (wd_fields w' f) = jf_self_global (wd_fields w f)"
      unfolding 3(1) by (simp_all add: worker_publish_def Let_def set_fields_def split: option.split)
    then show ?thesis
      using p 3(2) by (simp add: pends_def distance_def phase_def running_process_def)
  next
    case (4 job b)
    let ?g = "jb_function job"
    obtain b' j' where rec: "record_locked b (wd_jit w) = (b', j')" by (cases "record_locked b (wd_jit w)")
    then have j': "jt_queue j' = jt_queue (wd_jit w)" "jt_stopping j' = jt_stopping (wd_jit w)" "bt_log_line b' = bt_log_line b"
      by (auto simp: record_locked_def Let_def split: option.splits)
    have w': "w' = w\<lparr>wd_jit := j'\<lparr>jt_compiling := None\<rparr>, wd_worker := (if jt_log j' = None then Waiting else Logging (bt_log_line b'))\<rparr>"
      using 4(1) by (simp add: worker_record_def rec Let_def)
    have g: "jt_compiling (wd_jit w) = Some ?g" using c 4(2) by (simp add: compiles_def)
    show ?thesis
    proof (cases "?g = f")
      case True
      then have "f \<notin> jb_function ` set (jt_queue (wd_jit w))" using q g by (auto simp: pending_def opt_addrs_def)
      then have out: "f \<notin> set (pending (wd_jit w'))" by (simp add: w' pending_def opt_addrs_def j')
      have b: "built_for S (wd_heap w) (wd_memory w) f (jf_self_global (wd_fields w f)) b" "jf_entry (wd_fields w f) = bt_entry b"
        using wk 4(2) True by (auto simp: worker_ok_def built_of_def)
      have "settled f why code w'"
        using b p out by (fastforce simp: settled_def built_for_def stays_out_def has_code_def pends_def w' split: option.splits)
      then show ?thesis by simp
    next
      case False
      then have f: "f \<in> jb_function ` set (jt_queue (wd_jit w))" using p g by (auto simp: pends_def pending_def opt_addrs_def)
      have "pends S f fo why code w'"
        using p f by (auto simp: pends_def w' pending_def opt_addrs_def running_process_def j')
      moreover have "distance f w' < distance f w" using f by (simp add: distance_def w' j' phase_def 4(2))
      ultimately show ?thesis by simp
    qed
  next
    case (5 line)
    then show ?thesis
      using p by (simp add: pends_def distance_def phase_def worker_log_def with_jit_def log_line_def pending_def running_process_def)
  qed
qed

subsection \<open>Steps of the engine\<close>

lemma count_other:
  assumes "jit_count S cell ns g w = Ok w'" "jf_status (wd_fields w f) \<noteq> JitCold"
  shows "jf_self_global (wd_fields w' f) = jf_self_global (wd_fields w f)"
proof (cases "f = g")
  case True
  then show ?thesis using assms by (auto simp: jit_count_def bind_simps)
next
  case False
  have set: "wd_fields (set_fields g upd v) f = wd_fields v f" for upd and v :: world using False by (simp add: set_fields_def)
  have log: "wd_fields (with_jit upd v) = wd_fields v" for upd and v :: world by (simp add: with_jit_def)
  have enq: "wd_fields (enqueue g v) f = wd_fields v f" for v :: world
    using False by (simp add: enqueue_def Let_def set_fields_def with_jit_def)
  have comp: "wd_fields v' f = wd_fields v f" if "compile_now S ns g v = Ok v'" for v v'
    using that by (auto simp: compile_now_def bind_simps Let_def record_locked_def set log split: option.splits prod.splits)
  have "wd_fields w' f = wd_fields w f"
    using assms(1) by (auto simp: jit_count_def bind_simps Let_def set enq dest!: comp split: if_splits)
  then show ?thesis by simp
qed

lemma pends_quiet:
  assumes "quiet w w'" "jf_self_global (wd_fields w' f) = jf_self_global (wd_fields w f)" "pends S f fo why code w"
    "distinct (pending (wd_jit w'))"
  shows "pends S f fo why code w' \<and> distance f w' \<le> distance f w"
proof -
  obtain more where more: "jt_queue (wd_jit w') = jt_queue (wd_jit w) @ more" using assms(1) by (auto simp: quiet_def)
  have c: "jt_compiling (wd_jit w') = jt_compiling (wd_jit w)" "wd_worker w' = wd_worker w" using assms(1) by (simp_all add: quiet_def)
  have "pends S f fo why code w'"
    using assms(1-3) by (auto simp: quiet_def pends_def pending_def running_process_def)
  moreover have "distance f w' \<le> distance f w"
  proof (cases "f \<in> jb_function ` set (jt_queue (wd_jit w))")
    case True
    then show ?thesis by (simp add: distance_def more place_append c image_Un)
  next
    case False
    then have "jt_compiling (wd_jit w) = Some f"
      using assms(3) by (cases "jt_compiling (wd_jit w)") (auto simp: pends_def pending_def opt_addrs_def)
    then have "f \<notin> jb_function ` set more" using assms(4) more c(1) by (auto simp: pending_def opt_addrs_def)
    then show ?thesis using False by (auto simp: distance_def more c(2))
  qed
  ultimately show ?thesis ..
qed

lemma pends_engine_step:
  assumes page: "0 < os_page (js_os S)" and reach: "jit_reachable S sz w" and p: "pends S f fo why code w"
    and step: "engine_step S sz w w'"
  shows "given_up w' \<or> pends S f fo why code w' \<and> distance f w' \<le> distance f w"
proof -
  have j: "jit_inv S w" using reachable_inv [OF page reach] .
  have inv: "live_inv S w" using pends_inv [OF page reach p] .
  have s: "sane (wd_heap w)" and pend: "f \<in> set (pending (wd_jit w))" and q: "was_queued (wd_fields w f)"
    using inv p by (auto simp: live_inv_def pends_def queue_ok_def)
  have live: "obj_at (wd_heap w) f \<noteq> None" using p by (simp add: pends_def)
  have d: "distinct (pending (wd_jit w'))" if "quiet w w'"
  proof -
    have "jit_reachable S sz w'" using jit_reachable.stepped [OF reach] step p by (simp add: jit_step_def pends_def)
    then have "jit_inv S w'" using reachable_inv [OF page] by blast
    then show ?thesis using that p by (auto simp: jit_inv_def quiet_def pends_def live_inv_def queue_ok_def)
  qed
  from step show ?thesis
  proof (cases rule: engine_stepE [consumes 1])
    case (1 g cell ns)
    have "jf_self_global (wd_fields w' f) = jf_self_global (wd_fields w f)"
      using q by (intro count_other [OF 1(3)]) (auto simp: was_queued_def)
    then show ?thesis using pends_quiet [OF quiet_count [OF 1(3)] _ p d [OF quiet_count [OF 1(3)]]] by simp
  next
    case (2 g entry)
    have "jf_self_global (wd_fields w' f) = jf_self_global (wd_fields w f)"
      using 2(2) by (auto simp: load_entry_def adopt_def bind_simps set_fields_def split: option.splits if_splits)
    then show ?thesis using pends_quiet [OF quiet_load [OF 2(2)] _ p d [OF quiet_load [OF 2(2)]]] by simp
  next
    case (3 g resume newest after)
    have "wd_fields v' = wd_fields v" if "note_bailout h i v = Ok v'" for h i v v'
      using that by (auto simp: note_bailout_def bind_simps Let_def with_jit_def split: if_splits)
    then have "wd_fields w' = wd_fields w"
      using 3(2) by (auto simp: after_machine_code_def bind_simps Let_def split: if_splits)
    then show ?thesis using pends_quiet [OF quiet_after [OF 3(2)] _ p d [OF quiet_after [OF 3(2)]]] by simp
  next
    case (4 h')
    have "pends S f fo why code (w\<lparr>wd_heap := h', wd_engine := Running\<rparr>)"
      using 4(3) live by (intro pends_heap [OF p _ s]) (auto simp: engine_writes_def)
    moreover have "w\<lparr>wd_heap := h', wd_engine := Running\<rparr> = w'" using 4(1,2) by simp
    ultimately show ?thesis by (simp add: 4(1) distance_def)
  next
    case (5 others)
    then show ?thesis using p by (simp add: pends_def distance_def running_process_def)
  next
    case (6 roots)
    have "f \<in> set roots" using inv 6(2) pend by (auto simp: live_inv_def engine_ok_def)
    then have "reach (wd_heap w) (gc_roots roots (wd_heap w)) f"
      using live by (intro reach.reach_root) (auto simp: gc_roots_def)
    then have "obj_at (collect sz roots (wd_heap w)) f \<noteq> None"
      using obj_at_collect [of "wd_heap w" sz roots f] s live by (simp add: sane_def)
    then have "pends S f fo why code w'" unfolding 6(1) by (intro pends_heap [OF p collect_ages [OF s] s]) simp_all
    then show ?thesis by (simp add: 6(1) distance_def)
  next
    case (7 b)
    then show ?thesis
      using p by (simp add: pends_def distance_def hold_for_testing_def with_jit_def pending_def running_process_def)
  next
    case 8
    then show ?thesis
      using p pends_active [OF inv j p] by (simp add: shutdown_begin_def given_up_def with_jit_def)
  next
    case (9 dropped)
    have "jt_stopping (wd_jit w)" using inv 9(1) by (simp add: live_inv_def engine_ok_def)
    then show ?thesis using p by (simp add: pends_def)
  next
    case 10
    then show ?thesis using pends_active(2) [OF inv j p] by simp
  qed
qed

subsection \<open>A queued function settles\<close>

lemma pends_can_work:
  assumes "live_inv S w" "jit_inv S w" "pends S f fo why code w" "\<not> jt_held (wd_jit w)"
  shows "can_work S w"
proof (cases "wd_worker w")
  case Waiting
  then have "jt_compiling (wd_jit w) = None"
    using assms(1,3) by (simp add: live_inv_def worker_ok_def pends_def compiles_def)
  then have "jt_queue (wd_jit w) \<noteq> []" using assms(3) by (auto simp: pends_def pending_def opt_addrs_def)
  then have "wakes (wd_jit w)" using assms(4) by (simp add: wakes_def)
  then show ?thesis using Waiting worker_step.take_job by (auto simp: can_work_def)
next
  case (Died fault)
  then show ?thesis using assms(3) by (simp add: pends_def running_process_def)
qed (use pends_active(1) [OF assms(1-3)] in \<open>auto simp: can_work_def ended_def intro: worker_step.intros\<close>)

lemma pends_run_step:
  assumes "0 < os_page (js_os S)" "jit_run S sz ws" "pends S f fo why code (ws i)"
  shows "given_up (ws (Suc i)) \<or> settled f why code (ws (Suc i)) \<or>
    pends S f fo why code (ws (Suc i)) \<and> distance f (ws (Suc i)) \<le> distance f (ws i) \<and>
    (worker_step S (ws i) (ws (Suc i)) \<longrightarrow> distance f (ws (Suc i)) < distance f (ws i))"
proof (cases "worker_step S (ws i) (ws (Suc i))")
  case True
  have "live_inv S (ws i)" using pends_inv [OF assms(1) run_reachable [OF assms(2)] assms(3)] .
  then show ?thesis using pends_worker_step [OF _ assms(3) True] by auto
next
  case False
  have "ws (Suc i) = ws i \<or> engine_step S sz (ws i) (ws (Suc i))"
    using assms(2) False unfolding jit_run_def jit_step_def by blast
  then show ?thesis using False assms(3) pends_engine_step [OF assms(1) run_reachable [OF assms(2)] assms(3)] by auto
qed

lemma pends_until:
  assumes "0 < os_page (js_os S)" "jit_run S sz ws" "pends S f fo why code (ws i)" "i \<le> k"
  shows "(\<exists>j\<ge>i. given_up (ws j) \<or> settled f why code (ws j)) \<or>
    pends S f fo why code (ws k) \<and> distance f (ws k) \<le> distance f (ws i)"
  using assms(4)
proof (induction rule: dec_induct)
  case (step k)
  show ?case
  proof (cases "\<exists>j\<ge>i. given_up (ws j) \<or> settled f why code (ws j)")
    case False
    then have k: "pends S f fo why code (ws k)" "distance f (ws k) \<le> distance f (ws i)" using step.IH by auto
    have "\<not> (given_up (ws (Suc k)) \<or> settled f why code (ws (Suc k)))" using False step.hyps le_SucI by blast
    then show ?thesis using pends_run_step [OF assms(1,2) k(1)] k(2) by auto
  qed simp
qed (use assms(3) in simp)

lemma pends_settles:
  assumes page: "0 < os_page (js_os S)" and run: "jit_run S sz ws" and fair: "fair S ws"
    and free: "\<forall>j\<ge>k. \<not> jt_held (wd_jit (ws j))" and "k \<le> i" "pends S f fo why code (ws i)"
  shows "\<exists>j\<ge>i. given_up (ws j) \<or> settled f why code (ws j)"
  using assms(5,6)
proof (induction "distance f (ws i)" arbitrary: i rule: less_induct)
  case less
  show ?case
  proof (rule ccontr)
    assume no: "\<not> ?thesis"
    obtain j where j: "i \<le> j" "\<not> can_work S (ws j) \<or> worker_step S (ws j) (ws (Suc j))" using fair unfolding fair_def by blast
    have p: "pends S f fo why code (ws j)" "distance f (ws j) \<le> distance f (ws i)"
      using pends_until [OF page run less.prems(2) j(1)] no by auto
    have "can_work S (ws j)"
      using pends_can_work [OF pends_inv [OF page run_reachable [OF run] p(1)] reachable_inv [OF page run_reachable [OF run]] p(1)]
        free less.prems(1) j(1) by simp
    then have "worker_step S (ws j) (ws (Suc j))" using j(2) by simp
    moreover have "\<not> (given_up (ws (Suc j)) \<or> settled f why code (ws (Suc j)))" using no j(1) le_SucI by blast
    ultimately have q: "pends S f fo why code (ws (Suc j))" "distance f (ws (Suc j)) < distance f (ws j)"
      using pends_run_step [OF page run p(1)] by auto
    have "\<exists>m\<ge>Suc j. given_up (ws m) \<or> settled f why code (ws m)"
      using less.hyps [of "Suc j"] q p(2) less.prems(1) j(1) by simp
    then show False using no j(1) by (meson Suc_leD le_trans)
  qed
qed

text \<open>C35. Background compilation is not starved. In a fair run in which the compiler thread is not held forever, a
  function that is queued or being compiled eventually leaves the queue and the thread: it then has an entry
  to exactly the code that compiling it at the moment it was seen pending gives, or none if it is rejected.
  The only other ends are that the JIT is shut down and that the system refuses memory, which aborts the
  process.\<close>

theorem queued_function_settles:
  assumes "0 < os_page (js_os S)" "jit_run S sz ws" "fair S ws" "released ws"
    and "wd_engine (ws i) \<noteq> Destroyed" "f \<in> set (pending (wd_jit (ws i)))"
  shows "\<exists>fo why code. obj_at (wd_heap (ws i)) f = Some (OFunction fo) \<and>
    translate (wd_heap (ws i)) (js_env S f) (fo_reg fo) (self_of S f fo (jf_self_global (wd_fields (ws i) f))) = Ok (why, code) \<and>
    (\<exists>j\<ge>i. jt_stopping (wd_jit (ws j)) \<or> (\<exists>msg. wd_worker (ws j) = Died (Abort msg)) \<or> settled f why code (ws j))"
proof -
  have inv: "live_inv S (ws i)" using reachable_inv [OF assms(1) run_reachable [OF assms(2)], of i] assms(5) by (simp add: jit_inv_def)
  obtain fo where fo: "obj_at (wd_heap (ws i)) f = Some (OFunction fo)" "function_ok (wd_heap (ws i)) fo"
    using inv assms(6) by (auto simp: live_inv_def queue_ok_def good_function_def)
  have "sane (wd_heap (ws i))" using inv by (simp add: live_inv_def)
  then obtain why code where t: "translate (wd_heap (ws i)) (js_env S f) (fo_reg fo)
      (self_of S f fo (jf_self_global (wd_fields (ws i) f))) = Ok (why, code)"
    using translate_succeeds [OF _ fo] by (fastforce simp: succeeds_Ok)
  obtain k where k: "\<forall>j\<ge>k. \<not> jt_held (wd_jit (ws j))" using assms(4) by (auto simp: released_def)
  have "\<exists>j\<ge>i. given_up (ws j) \<or> settled f why code (ws j)"
  proof (cases "given_up (ws i)")
    case False
    then have p: "pends S f fo why code (ws i)" using assms(5,6) fo(1) t by (simp add: pends_def given_up_def)
    show ?thesis
      using pends_until [OF assms(1,2) p, of "max i k"] pends_settles [OF assms(1-3) k, of "max i k" f fo why code]
      by (metis max.cobounded1 max.cobounded2 le_trans)
  qed auto
  then obtain j where j: "i \<le> j" "given_up (ws j) \<or> settled f why code (ws j)" by blast
  have "wd_worker (ws j) \<noteq> Died BadAccess"
    using reachable_inv [OF assms(1) run_reachable [OF assms(2)], of j]
    by (auto simp: jit_inv_def live_inv_def worker_ok_def ended_def split: if_splits)
  then have "jt_stopping (wd_jit (ws j)) \<or> (\<exists>msg. wd_worker (ws j) = Died (Abort msg)) \<or> settled f why code (ws j)"
    using j(2) by (auto simp: given_up_def running_process_def split: worker.splits) (metis jit_fault.exhaust)
  then show ?thesis using fo(1) t j(1) by blast
qed

text \<open>The run in which the engine queues \<open>next\<close> and then only the compiler thread steps.\<close>

definition worker_next :: "jit_setup \<Rightarrow> world \<Rightarrow> world" where
  "worker_next S w =
     (case wd_worker w of
        Waiting \<Rightarrow> if wakes (wd_jit w) then worker_take w else w
      | Taken job \<Rightarrow> worker_build S 0 job w
      | Finished job b \<Rightarrow> worker_publish job b w
      | Published job b \<Rightarrow> worker_record job b w
      | Logging line \<Rightarrow> worker_log line w
      | _ \<Rightarrow> w)"

lemma worker_next_step: "can_work S w \<Longrightarrow> worker_step S w (worker_next S w)"
  by (auto simp: can_work_def worker_next_def elim!: worker_stepE intro: worker_step.intros)

lemma worker_next_idle: "\<not> can_work S w \<Longrightarrow> worker_next S w = w"
proof (rule ccontr)
  assume "\<not> can_work S w" "worker_next S w \<noteq> w"
  moreover from this(2) have "worker_step S w (worker_next S w)"
    by (cases "wd_worker w") (auto simp: worker_next_def intro: worker_step.intros split: if_splits)
  ultimately show False by (auto simp: can_work_def)
qed

lemma worker_next_held: "jt_held (wd_jit (worker_next S w)) = jt_held (wd_jit w)"
  by (auto simp: worker_next_def worker_take_def worker_build_def worker_publish_def worker_record_def record_locked_def
      worker_log_def with_jit_def log_line_def set_fields_def Let_def split: worker.splits list.splits option.splits outcome.splits)

definition next_run :: "nat \<Rightarrow> world" where
  "next_run i = (worker_next plain_setup ^^ i) queued_world"

lemma next_run_fair: "fair plain_setup next_run"
  using worker_next_step by (auto simp: fair_def next_run_def intro!: exI)

lemma next_run_run: "jit_run plain_setup sz next_run"
proof -
  have "next_run (Suc i) = next_run i \<or> jit_step plain_setup sz (next_run i) (next_run (Suc i))" for i
  proof (cases "can_work plain_setup (next_run i)")
    case True
    moreover from this have "running_process (next_run i)"
      by (auto simp: can_work_def running_process_def elim!: worker_stepE)
    ultimately show ?thesis using worker_next_step [OF True] by (simp add: jit_step_def next_run_def)
  qed (use worker_next_idle in \<open>simp add: next_run_def\<close>)
  then show ?thesis using queued_reachable by (simp add: jit_run_def next_run_def)
qed

lemma next_run_released: "released next_run"
proof -
  have "\<not> jt_held (wd_jit (next_run i))" for i
    by (induction i) (simp_all add: next_run_def worker_next_held queued_world_def enqueue_def start_world_def new_jit_def
        Let_def set_fields_def with_jit_def)
  then show ?thesis by (simp add: released_def)
qed

theorem queued_function_settles_witness:
  "\<exists>why code j. jt_stopping (wd_jit (next_run j)) \<or> (\<exists>msg. wd_worker (next_run j) = Died (Abort msg)) \<or>
     settled 1 why code (next_run j)"
proof -
  have "0 < os_page (js_os plain_setup)" by (simp add: plain_setup_def)
  moreover have "wd_engine (next_run 0) \<noteq> Destroyed" "1 \<in> set (pending (wd_jit (next_run 0)))"
    by (simp_all add: next_run_def queued_world_def enqueue_def start_world_def new_jit_def Let_def set_fields_def with_jit_def
        pending_def)
  ultimately show ?thesis
    using queued_function_settles [of plain_setup "\<lambda>_. 10" next_run 0 1] next_run_run next_run_fair next_run_released by blast
qed

end
