(* ===== verification/Ast_Dump.thy ===== *)
theory Ast_Dump
  imports Ops
begin

text \<open>
  \<open>ast_dump.h\<close> and \<open>ast_dump.cpp\<close>: the S-expressions that \<open>--dump-ast\<close> prints. \<open>dump_expr\<close> walks a chain of
  operations with a loop, as the C++ does; \<open>dump_expr_nested\<close> shows that this prints what the plain recursion
  over the tree prints.
\<close>

definition use_name :: "sview \<Rightarrow> binding \<Rightarrow> string" where
  "use_name name b =
     sv_text name @ (if b = GlobalBinding then ''@global'' else '''') @
     (case b of LocalBinding hops \<Rightarrow> CHR 0x40 # nat_digits hops | _ \<Rightarrow> '''')"

definition dump_quote :: "string \<Rightarrow> string" where
  "dump_quote text =
     [CHR 0x22] @
     concat (map (\<lambda>c.
       if c = newline then [CHR 0x5C, CHR ''n'']
       else if c = CHR 0x09 then [CHR 0x5C, CHR ''t'']
       else if c = CHR 0x22 then [CHR 0x5C, CHR 0x22]
       else if c = CHR 0x5C then [CHR 0x5C, CHR 0x5C]
       else [c]) text) @ [CHR 0x22]"

definition float_text :: "double \<Rightarrow> string" where
  "float_text x =
     (if \<not> feq x x then ''nan''
      else if feq x (mk_double False inf_bits) then ''inf''
      else if feq x (fneg (mk_double False inf_bits)) then ''-inf''
      else
        let text = shortest_g 1 x
        in if list_ex (\<lambda>c. c = CHR ''.'' \<or> c = CHR ''e'') text then text else text @ ''.0'')"

fun binary_name :: "binary_op \<Rightarrow> string" where
  "binary_name BAdd = ''+''"
| "binary_name BSub = ''-''"
| "binary_name BMul = ''*''"
| "binary_name BDiv = ''/''"
| "binary_name BMod = ''%''"
| "binary_name BEq = ''==''"
| "binary_name BNe = ''!=''"
| "binary_name BLt = ''<''"
| "binary_name BLe = ''<=''"
| "binary_name BGt = ''>''"
| "binary_name BGe = ''>=''"

definition dump_literal :: "literal \<Rightarrow> string" where
  "dump_literal v =
     (case v of
        LitNil \<Rightarrow> ''nil''
      | LitBool b \<Rightarrow> (if b then ''true'' else ''false'')
      | LitInt i \<Rightarrow> int_digits (sint i)
      | LitFloat d \<Rightarrow> float_text d
      | LitString s \<Rightarrow> dump_quote s)"

text \<open>\<open>chain_head\<close> and \<open>head_of\<close>; \<open>leftmost_child\<close>.\<close>

fun head_of :: "expr \<Rightarrow> string" where
  "head_of (EBinary op a b l) = ''('' @ binary_name op @ '' ''"
| "head_of (ELogical op a b l) = ''('' @ (if op = LAnd then ''and'' else ''or'') @ '' ''"
| "head_of (ECall f as l) = ''(call ''"
| "head_of (EIndex a i l) = ''(index ''"
| "head_of (EIndexAssign a i v l) = ''(set-index ''"
| "head_of e = ''''"

fun leftmost_child :: "expr \<Rightarrow> expr option" where
  "leftmost_child (EBinary op a b l) = Some a"
| "leftmost_child (ELogical op a b l) = Some a"
| "leftmost_child (ECall f as l) = Some f"
| "leftmost_child (EIndex a i l) = Some a"
| "leftmost_child (EIndexAssign a i v l) = Some a"
| "leftmost_child e = None"

text \<open>The loop that collects the spine, outermost first, and finds the innermost node.\<close>

lemma leftmost_smaller: "leftmost_child e = Some c \<Longrightarrow> size c < size e"
  by (cases e) auto

function spine :: "expr \<Rightarrow> expr list \<times> expr" where
  "spine e =
     (case leftmost_child e of
        None \<Rightarrow> ([], e)
      | Some child \<Rightarrow> (let (nodes, innermost) = spine child in (e # nodes, innermost)))"
  by pat_completeness auto
termination
  by (relation "measure size") (auto dest: leftmost_smaller)

declare spine.simps [simp del]

lemma spine_sizes: "spine e = (nodes, innermost) \<Longrightarrow> size innermost \<le> size e \<and> (\<forall>n\<in>set nodes. size n \<le> size e)"
proof (induction e arbitrary: nodes innermost rule: spine.induct)
  case (1 e)
  show ?case
  proof (cases "leftmost_child e")
    case None
    then show ?thesis using 1(2) by (simp add: spine.simps [of e])
  next
    case (Some child)
    obtain ns i where s: "spine child = (ns, i)" by (cases "spine child")
    then have "nodes = e # ns" "innermost = i" using 1(2) Some by (simp_all add: spine.simps [of e])
    then show ?thesis using 1(1) [OF Some s] leftmost_smaller [OF Some] by fastforce
  qed
qed

text \<open>\<open>dump_expr\<close>, \<open>ExprDumper\<close> on the innermost node, and \<open>chain_tail\<close>. The overloads of \<open>ExprDumper\<close> for chain
  nodes are never reached by \<open>dump_expr\<close>.\<close>

function (sequential) dump_expr :: "expr \<Rightarrow> string" and dump_node :: "expr \<Rightarrow> string" and tail_of :: "expr \<Rightarrow> string"
  and dump_args :: "expr list \<Rightarrow> string" where
  "dump_expr e =
     (let (nodes, innermost) = spine e
      in concat (map head_of nodes) @ dump_node innermost @ concat (map tail_of (rev nodes)))"
| "dump_node (ELiteral v l) = dump_literal v"
| "dump_node (EVariable x b l) = use_name x b"
| "dump_node (EAssign x e b l) = ''(set '' @ use_name x b @ '' '' @ dump_expr e @ '')''"
| "dump_node (EUnary op e l) = ''('' @ (if op = UNot then ''!'' else ''-'') @ '' '' @ dump_expr e @ '')''"
| "dump_node (EArrayLiteral es l) = ''(array'' @ dump_args es @ '')''"
| "dump_node (EBinary op a b l) = head_of (EBinary op a b l) @ dump_expr a @ '' '' @ dump_expr b @ '')''"
| "dump_node (ELogical op a b l) = head_of (ELogical op a b l) @ dump_expr a @ '' '' @ dump_expr b @ '')''"
| "dump_node (ECall f as l) = head_of (ECall f as l) @ dump_expr f @ dump_args as @ '')''"
| "dump_node (EIndex a i l) = head_of (EIndex a i l) @ dump_expr a @ '' '' @ dump_expr i @ '')''"
| "dump_node (EIndexAssign a i v l) =
     head_of (EIndexAssign a i v l) @ dump_expr a @ '' '' @ dump_expr i @ '' '' @ dump_expr v @ '')''"
| "tail_of (EBinary op a b l) = '' '' @ dump_expr b @ '')''"
| "tail_of (ELogical op a b l) = '' '' @ dump_expr b @ '')''"
| "tail_of (ECall f as l) = dump_args as @ '')''"
| "tail_of (EIndex a i l) = '' '' @ dump_expr i @ '')''"
| "tail_of (EIndexAssign a i v l) = '' '' @ dump_expr i @ '' '' @ dump_expr v @ '')''"
| "tail_of e = ''''"
| "dump_args [] = ''''"
| "dump_args (e # es) = '' '' @ dump_expr e @ dump_args es"
  by pat_completeness auto
termination
proof (relation "measures [\<lambda>x. case x of Inl (Inl e) \<Rightarrow> size e | Inl (Inr e) \<Rightarrow> size e | Inr (Inl e) \<Rightarrow> size e
      | Inr (Inr es) \<Rightarrow> size_list size es, \<lambda>x. case x of Inl (Inl e) \<Rightarrow> 1 | _ \<Rightarrow> 0]", goal_cases)
  case (2 e p nodes innermost)
  then show ?case using spine_sizes [of e nodes innermost] by fastforce
next
  case (3 e p nodes innermost node)
  then show ?case using spine_sizes [of e nodes innermost] by fastforce
qed auto

declare dump_expr.simps [simp del]

lemma dump_expr_leaf: "leftmost_child e = None \<Longrightarrow> dump_expr e = dump_node e"
  by (simp add: dump_expr.simps spine.simps [of e])

lemma dump_expr_chain:
  "leftmost_child e = Some child \<Longrightarrow> dump_expr e = head_of e @ dump_expr child @ tail_of e"
  by (simp add: dump_expr.simps [of e] dump_expr.simps [of child] spine.simps [of e] case_prod_beta Let_def)

text \<open>The loop prints what the recursion over the tree prints.\<close>

lemma dump_expr_nested:
  "dump_expr (ELiteral v l) = dump_literal v"
  "dump_expr (EVariable x b l) = use_name x b"
  "dump_expr (EAssign x e b l) = ''(set '' @ use_name x b @ '' '' @ dump_expr e @ '')''"
  "dump_expr (EUnary op e l) = ''('' @ (if op = UNot then ''!'' else ''-'') @ '' '' @ dump_expr e @ '')''"
  "dump_expr (EBinary bop e f l) = ''('' @ binary_name bop @ '' '' @ dump_expr e @ '' '' @ dump_expr f @ '')''"
  "dump_expr (ELogical lop e f l) =
     ''('' @ (if lop = LAnd then ''and'' else ''or'') @ '' '' @ dump_expr e @ '' '' @ dump_expr f @ '')''"
  "dump_expr (ECall e es l) = ''(call '' @ dump_expr e @ concat (map (\<lambda>a. '' '' @ dump_expr a) es) @ '')''"
  "dump_expr (EArrayLiteral es l) = ''(array'' @ concat (map (\<lambda>a. '' '' @ dump_expr a) es) @ '')''"
  "dump_expr (EIndex e f l) = ''(index '' @ dump_expr e @ '' '' @ dump_expr f @ '')''"
  "dump_expr (EIndexAssign e f g l) = ''(set-index '' @ dump_expr e @ '' '' @ dump_expr f @ '' '' @ dump_expr g @ '')''"
proof -
  have args: "dump_args es = concat (map (\<lambda>a. '' '' @ dump_expr a) es)" for es by (induction es) simp_all
  show "dump_expr (ECall e es l) = ''(call '' @ dump_expr e @ concat (map (\<lambda>a. '' '' @ dump_expr a) es) @ '')''"
    "dump_expr (EArrayLiteral es l) = ''(array'' @ concat (map (\<lambda>a. '' '' @ dump_expr a) es) @ '')''"
    by (simp_all add: dump_expr_chain dump_expr_leaf args)
qed (simp_all add: dump_expr_chain dump_expr_leaf)

subsection \<open>Statements\<close>

fun dump_params :: "sview list \<Rightarrow> string" where
  "dump_params [] = ''''"
| "dump_params [x] = sv_text x"
| "dump_params (x # y # xs) = sv_text x @ '' '' @ dump_params (y # xs)"

fun dump_stmt :: "stmt \<Rightarrow> string" and dump_block :: "stmt list \<Rightarrow> string" where
  "dump_stmt (SPrint e l) = ''(print '' @ dump_expr e @ '')''"
| "dump_stmt (SExpr e l) = ''(expr '' @ dump_expr e @ '')''"
| "dump_stmt (SLet x init l) =
     ''(let '' @ sv_text x @ (case init of None \<Rightarrow> '''' | Some e \<Rightarrow> '' '' @ dump_expr e) @ '')''"
| "dump_stmt (SBlock ss l) = ''(block'' @ dump_block ss @ '')''"
| "dump_stmt (SIf c t None l) = ''(if '' @ dump_expr c @ '' '' @ dump_stmt t @ '')''"
| "dump_stmt (SIf c t (Some e) l) = ''(if '' @ dump_expr c @ '' '' @ dump_stmt t @ '' '' @ dump_stmt e @ '')''"
| "dump_stmt (SWhile c body l) = ''(while '' @ dump_expr c @ '' '' @ dump_stmt body @ '')''"
| "dump_stmt (SFunction f params body bl l) =
     ''(fn '' @ sv_text f @ '' ('' @ dump_params params @ '') '' @
     ''(block'' @ dump_block body @ '')'' @ '')''"
| "dump_stmt (SReturn value l) =
     (case value of None \<Rightarrow> ''(return)'' | Some e \<Rightarrow> ''(return '' @ dump_expr e @ '')'')"
| "dump_block [] = ''''"
| "dump_block (s # ss) = '' '' @ dump_stmt s @ dump_block ss"

definition dump_ast :: "program \<Rightarrow> string" where
  "dump_ast p = concat (map (\<lambda>s. dump_stmt s @ [newline]) (pr_statements p))"

end
