(* ===== verification/Command_Line.thy ===== *)
theory Command_Line
  imports Parser Ast_Dump Fold Tree_Engine Stack_VM Reg_VM Disassembler
begin

text \<open>
  \<open>main.cpp\<close>, with \<open>engine.cpp\<close>, \<open>bench.cpp\<close> and \<open>output.cpp\<close>: the command line, the choice of the engine, and
  what \<open>rung\<close> does with a file, from the source text to the exit code. It is the program of a build without
  the JIT (\<open>jit_available()\<close> false) and without the optional instruction counters. What the process meets
  outside is in \<open>host\<close>: the files it can read and write, the clocks, the sizes of objects, and the fuel of the
  engines. The result is the exit code, what was written to the two streams, and the files written.
\<close>

subsection \<open>Options\<close>

record options =
  op_want_tokens :: bool
  op_want_ast :: bool
  op_want_bytecode :: bool
  op_gc_stress :: bool
  op_want_stats :: bool
  op_want_pairs :: bool
  op_fold :: bool
  op_inline_cache :: bool
  op_superinstructions :: bool
  op_bench_iterations :: "nat option"
  op_bench_out :: string
  op_jit_log :: bool
  op_jit_background :: bool
  op_jit_threshold :: "32 word option"
  op_engine :: string
  op_path :: "string option"

definition default_options :: options where
  "default_options =
     \<lparr>op_want_tokens = False, op_want_ast = False, op_want_bytecode = False, op_gc_stress = False,
      op_want_stats = False, op_want_pairs = False, op_fold = False, op_inline_cache = False,
      op_superinstructions = False, op_bench_iterations = None, op_bench_out = '''', op_jit_log = False,
      op_jit_background = False, op_jit_threshold = None, op_engine = ''tree'', op_path = None\<rparr>"

definition kExitOk :: nat where "kExitOk = 0"
definition kExitUsage :: nat where "kExitUsage = 64"
definition kExitCompileError :: nat where "kExitCompileError = 65"
definition kExitNoInput :: nat where "kExitNoInput = 66"
definition kExitRuntimeError :: nat where "kExitRuntimeError = 70"

text \<open>How the process ended.\<close>

record report =
  rp_exit :: nat
  rp_out :: string
  rp_err :: string
  rp_files :: "(string \<times> string) list"

definition finish :: "nat \<Rightarrow> string \<Rightarrow> string \<Rightarrow> report" where
  "finish code out err = \<lparr>rp_exit = code, rp_out = out, rp_err = err, rp_files = []\<rparr>"

definition line :: "string \<Rightarrow> string" where
  "line text = text @ [newline]"

text \<open>\<open>engine_names\<close> of this build, and \<open>print_usage\<close>.\<close>

definition engine_names :: "string list" where
  "engine_names = [''tree'', ''stack'', ''register'']"

fun separated :: "string \<Rightarrow> string list \<Rightarrow> string" where
  "separated by [] = ''''"
| "separated by [x] = x"
| "separated by (x # y # xs) = x @ by @ separated by (y # xs)"

definition usage :: string where
  "usage =
     ''usage: rung [--engine='' @ separated ''|'' engine_names @
     line ''] [--gc-stress] [--stats[=pairs]] [--fold] [--inline-cache]'' @
     line ''            [--superinstructions] [--jit-threshold=N] [--jit-log]'' @
     line ''            [--jit-background]'' @
     line ''            [--dump-tokens | --dump-ast | --dump-bytecode]'' @
     line ''            [--bench=N --bench-out=FILE] <file.rg>'' @
     line ''       --dump-bytecode also accepts --engine=stack|register|jit'' @
     line ''       --inline-cache and --superinstructions need --engine=register or jit'' @
     line ''       --jit-threshold (default 1000), --jit-log and --jit-background need'' @
     line ''       --engine=jit'' @
     line ''       rung --help | --version''"

definition help_text :: string where
  "help_text =
     line ''Rung: one language, multiple execution engines.'' @ [newline] @ usage @ [newline] @
     line ''Run a program:    rung examples/fib.rg'' @
     line ''Inspect bytecode: rung --engine=register --dump-bytecode examples/fib.rg'' @ [newline] @
     line ''The default engine is tree. Available engines are listed above.'' @
     line ''The JIT needs ARM64 and NaN-boxed values.''"

subsection \<open>Numbers on the command line\<close>

fun count_digits :: "nat \<Rightarrow> string \<Rightarrow> nat option" where
  "count_digits value [] = Some value"
| "count_digits value (c # text) =
     (if of_char c < (48 :: nat) \<or> (57 :: nat) < of_char c then None else count_digits (value * 10 + (of_char c - 48)) text)"

definition parse_count :: "string \<Rightarrow> nat option" where
  "parse_count text = (if text = [] \<or> 9 < length text then None else count_digits 0 text)"

definition parse_threshold :: "string \<Rightarrow> 32 word option" where
  "parse_threshold text =
     (if text = [] \<or> 10 < length text then None
      else
        (case count_digits 0 text of
           None \<Rightarrow> None
         | Some value \<Rightarrow> if value = 0 \<or> 4294967295 < value then None else Some (of_nat value)))"

subsection \<open>The command line\<close>

definition has_prefix :: "string \<Rightarrow> string \<Rightarrow> bool" where
  "has_prefix start arg \<longleftrightarrow> take (length start) arg = start"

definition usage_error :: "string \<Rightarrow> report" where
  "usage_error message = finish kExitUsage '''' message"

text \<open>The body of the loop over the arguments: the options so far, or the process ends.\<close>

definition parse_arg :: "string \<Rightarrow> string \<Rightarrow> options \<Rightarrow> report + options" where
  "parse_arg version arg opts =
     (if arg = ''--help'' \<or> arg = ''-h'' then Inl (finish kExitOk help_text '''')
      else if arg = ''--version''
      then Inl (finish kExitOk (line (''rung '' @ version) @ line (''engines: '' @ separated '' '' engine_names)) '''')
      else if arg = ''--dump-tokens'' then Inr (opts\<lparr>op_want_tokens := True\<rparr>)
      else if arg = ''--dump-ast'' then Inr (opts\<lparr>op_want_ast := True\<rparr>)
      else if arg = ''--dump-bytecode'' then Inr (opts\<lparr>op_want_bytecode := True\<rparr>)
      else if arg = ''--gc-stress'' then Inr (opts\<lparr>op_gc_stress := True\<rparr>)
      else if arg = ''--stats'' then Inr (opts\<lparr>op_want_stats := True\<rparr>)
      else if arg = ''--stats=pairs'' then Inr (opts\<lparr>op_want_stats := True, op_want_pairs := True\<rparr>)
      else if arg = ''--fold'' then Inr (opts\<lparr>op_fold := True\<rparr>)
      else if arg = ''--inline-cache'' then Inr (opts\<lparr>op_inline_cache := True\<rparr>)
      else if arg = ''--superinstructions'' then Inr (opts\<lparr>op_superinstructions := True\<rparr>)
      else if arg = ''--jit-log'' then Inr (opts\<lparr>op_jit_log := True\<rparr>)
      else if arg = ''--jit-background'' then Inr (opts\<lparr>op_jit_background := True\<rparr>)
      else if has_prefix ''--jit-threshold='' arg
      then
        (case parse_threshold (drop (length ''--jit-threshold='') arg) of
           None \<Rightarrow> Inl (usage_error (line ''rung: --jit-threshold needs a whole number from 1 to 4294967295''))
         | Some value \<Rightarrow> Inr (opts\<lparr>op_jit_threshold := Some value\<rparr>))
      else if has_prefix ''--engine='' arg then Inr (opts\<lparr>op_engine := drop (length ''--engine='') arg\<rparr>)
      else if has_prefix ''--bench='' arg
      then
        (case parse_count (drop (length ''--bench='') arg) of
           None \<Rightarrow> Inl (usage_error (line ''rung: --bench needs a positive number of iterations''))
         | Some count \<Rightarrow>
             if count = 0 then Inl (usage_error (line ''rung: --bench needs a positive number of iterations''))
             else Inr (opts\<lparr>op_bench_iterations := Some count\<rparr>))
      else if has_prefix ''--bench-out='' arg then Inr (opts\<lparr>op_bench_out := drop (length ''--bench-out='') arg\<rparr>)
      else if arg \<noteq> [] \<and> hd arg = CHR ''-''
      then Inl (usage_error (line (''rung: unknown option '' @ Lexer.quoted arg) @ usage))
      else if op_path opts = None then Inr (opts\<lparr>op_path := Some arg\<rparr>)
      else Inl (usage_error usage))"

fun parse_args :: "string \<Rightarrow> string list \<Rightarrow> options \<Rightarrow> report + options" where
  "parse_args version [] opts = Inr opts"
| "parse_args version (arg # args) opts = sbind (parse_arg version arg opts) (parse_args version args)"

text \<open>The checks after the loop, in their order.\<close>

definition check_options :: "options \<Rightarrow> report + options" where
  "check_options opts =
     (let engine = op_engine opts;
          runnable = engine \<in> set engine_names;
          has_compiler = engine = ''stack'' \<or> engine = ''register'' \<or> engine = ''jit'';
          register = engine = ''register'' \<or> engine = ''jit''
      in if op_path opts = None then Inl (usage_error usage)
         else if (op_bench_iterations opts \<noteq> None) \<noteq> (op_bench_out opts \<noteq> [])
         then Inl (usage_error (line ''rung: --bench=N and --bench-out=FILE go together''))
         else if \<not> runnable \<and> engine = ''jit'' \<and> \<not> op_want_bytecode opts
         then Inl (usage_error (line (''rung: engine '' @ Lexer.quoted ''jit'' @
           '' is not available in this build (it needs an arm64 CPU and NaN-boxed values: '' @
           ''the release-goto-nanbox or asan-goto-nanbox preset)'')))
         else if \<not> runnable \<and> \<not> (op_want_bytecode opts \<and> has_compiler)
         then Inl (usage_error (line (''rung: unknown engine '' @ Lexer.quoted engine) @ usage))
         else if op_inline_cache opts \<and> \<not> register
         then Inl (usage_error (line ''rung: --inline-cache needs --engine=register or --engine=jit'' @ usage))
         else if (op_jit_threshold opts \<noteq> None \<or> op_jit_log opts \<or> op_jit_background opts) \<and> engine \<noteq> ''jit''
         then Inl (usage_error (line ''rung: --jit-threshold, --jit-log and --jit-background need --engine=jit'' @ usage))
         else if op_superinstructions opts \<and> \<not> register
         then Inl (usage_error (line ''rung: --superinstructions needs --engine=register or --engine=jit'' @ usage))
         else Inr opts)"

subsection \<open>Engines\<close>

record host =
  ho_version :: string
  ho_read :: "string \<Rightarrow> string option"
  ho_write :: "string \<Rightarrow> bool"
  ho_size :: "obj \<Rightarrow> nat"
  ho_clock :: "nat \<Rightarrow> double"
  ho_time :: "nat \<Rightarrow> int"
  ho_fuel :: nat

text \<open>A run that would dereference a null or dangling pointer or leave an array.\<close>

datatype main_fault = MainFault

type_synonym 'a main_result = "(main_fault, 'a) outcome"

fun main_outcome :: "('e, 'a) outcome \<Rightarrow> 'a main_result" where
  "main_outcome (Ok x) = Ok x"
| "main_outcome (Error e) = Error MainFault"
| "main_outcome Timeout = Timeout"

datatype engine = TreeEngine tree_state | StackEngine stack_vm | RegisterEngine reg_vm

definition make_engine :: "(obj \<Rightarrow> nat) \<Rightarrow> options \<Rightarrow> heap \<Rightarrow> engine option" where
  "make_engine sz opts h =
     (let name = op_engine opts
      in if name = ''register''
         then Some (RegisterEngine (init_reg_vm sz (op_inline_cache opts) (op_superinstructions opts) h))
         else if op_inline_cache opts \<or> op_superinstructions opts then None
         else if name = ''tree'' then Some (TreeEngine (init_tree sz h))
         else if name = ''stack'' then Some (StackEngine (init_vm sz h))
         else None)"

fun engine_name :: "engine \<Rightarrow> string" where
  "engine_name (TreeEngine s) = ''tree''"
| "engine_name (StackEngine s) = ''stack''"
| "engine_name (RegisterEngine s) = ''register''"

fun engine_heap :: "engine \<Rightarrow> heap" where
  "engine_heap (TreeEngine s) = te_heap s"
| "engine_heap (StackEngine s) = vm_heap s"
| "engine_heap (RegisterEngine s) = rv_heap s"

text \<open>What \<open>Output\<close> has been given; it is all written by the time the process ends.\<close>

fun engine_out :: "engine \<Rightarrow> string" where
  "engine_out (TreeEngine s) = te_out s"
| "engine_out (StackEngine s) = vm_out s"
| "engine_out (RegisterEngine s) = rv_out s"

fun engine_run :: "host \<Rightarrow> program \<Rightarrow> engine \<Rightarrow> ((compile_error + runtime_error option) \<times> engine) main_result" where
  "engine_run ho p (TreeEngine s) =
     bindo (main_outcome (tree_run (ho_size ho) (ho_clock ho) (ho_fuel ho) (pr_statements p) s))
       (\<lambda>(e, s). Ok (Inr e, TreeEngine s))"
| "engine_run ho p (StackEngine s) =
     bindo (main_outcome (stack_run (ho_size ho) (ho_clock ho) (ho_fuel ho) p s)) (\<lambda>(r, s). Ok (r, StackEngine s))"
| "engine_run ho p (RegisterEngine s) =
     bindo (main_outcome (reg_run (ho_size ho) (ho_clock ho) (ho_fuel ho) p s)) (\<lambda>(r, s). Ok (r, RegisterEngine s))"

fun engine_call :: "host \<Rightarrow> string \<Rightarrow> engine \<Rightarrow> ((value \<times> runtime_error option) \<times> engine) main_result" where
  "engine_call ho name (TreeEngine s) =
     bindo (main_outcome (call_global (ho_size ho) (ho_clock ho) (ho_fuel ho) name s)) (\<lambda>(r, s). Ok (r, TreeEngine s))"
| "engine_call ho name (StackEngine s) =
     bindo (main_outcome (vm_call_global (ho_size ho) (ho_clock ho) (ho_fuel ho) name s)) (\<lambda>(r, s). Ok (r, StackEngine s))"
| "engine_call ho name (RegisterEngine s) =
     bindo (main_outcome (rv_call_global (ho_size ho) (ho_clock ho) (ho_fuel ho) name s)) (\<lambda>(r, s). Ok (r, RegisterEngine s))"

text \<open>\<open>stats_report\<close> and \<open>pair_report\<close> of the three engines, without the counters.\<close>

definition no_counters :: string where
  "no_counters = line ''vm: instruction counters are not compiled in (configure with -DRUNG_VM_COUNTERS=ON)''"

fun engine_stats :: "engine \<Rightarrow> string" where
  "engine_stats (TreeEngine s) = ''''"
| "engine_stats (StackEngine s) = no_counters"
| "engine_stats (RegisterEngine s) =
     (if rv_superinstructions s then line (''superinstructions: pairs fused: '' @ nat_digits (rv_fused s)) else '''') @
     no_counters"

fun engine_pairs :: "engine \<Rightarrow> string" where
  "engine_pairs (TreeEngine s) = ''''"
| "engine_pairs e =
     line ''pairs: instruction counters are not compiled in (configure with -DRUNG_VM_COUNTERS=ON)''"

subsection \<open>Bench mode\<close>

text \<open>\<open>run_bench\<close>: the loop, with the number of the iteration and how many are left. The result is the timings, the
  text of the last value, and the error that stopped it.\<close>

fun run_bench_from :: "host \<Rightarrow> nat \<Rightarrow> nat \<Rightarrow> int list \<Rightarrow> string \<Rightarrow> engine \<Rightarrow>
    ((int list \<times> string \<times> runtime_error option) \<times> engine) main_result" where
  "run_bench_from ho i 0 timings result e = Ok ((timings, result, None), e)"
| "run_bench_from ho i (Suc left) timings result e =
     bindo (engine_call ho ''run'' e) (\<lambda>((v, error), e).
       if error \<noteq> None then Ok ((timings, result, error), e)
       else run_bench_from ho (i + 1) left (timings @ [ho_time ho i])
         (if left = 0 then print_value (engine_heap e) v else result) e)"

definition run_bench :: "host \<Rightarrow> nat \<Rightarrow> engine \<Rightarrow> ((int list \<times> string \<times> runtime_error option) \<times> engine) main_result" where
  "run_bench ho iterations e = run_bench_from ho 0 iterations [] '''' e"

definition hex_digit :: "nat \<Rightarrow> char" where
  "hex_digit d = (if d < 10 then char_of (48 + d) else char_of (87 + d))"

definition json_quote :: "string \<Rightarrow> string" where
  "json_quote text =
     [CHR 0x22] @
     concat (map (\<lambda>c.
       if c = CHR 0x22 then [CHR 0x5C, CHR 0x22]
       else if c = CHR 0x5C then [CHR 0x5C, CHR 0x5C]
       else if c = newline then [CHR 0x5C, CHR ''n'']
       else if c = CHR 0x09 then [CHR 0x5C, CHR ''t'']
       else if of_char c < (32 :: nat)
       then [CHR 0x5C, CHR ''u'', CHR ''0'', CHR ''0'', hex_digit (of_char c div 16), hex_digit (of_char c mod 16)]
       else [c]) text) @ [CHR 0x22]"

definition quoted_key :: "string \<Rightarrow> string" where
  "quoted_key name = [CHR 0x22] @ name @ [CHR 0x22] @ '': ''"

definition bench_json :: "string \<Rightarrow> int list \<Rightarrow> string \<Rightarrow> heap_stats \<Rightarrow> string" where
  "bench_json name timings result stats =
     line (''{'' @ quoted_key ''engine'' @ json_quote name @ '', '' @ quoted_key ''iterations_ns'' @ ''['' @
       separated '', '' (map int_digits timings) @ ''], '' @ quoted_key ''result'' @ json_quote result @ '', '' @
       quoted_key ''heap'' @ ''{'' @ quoted_key ''objects_allocated'' @ nat_digits (hs_objects_allocated stats) @ '', '' @
       quoted_key ''bytes_allocated'' @ nat_digits (hs_bytes_allocated stats) @ '', '' @
       quoted_key ''collections'' @ nat_digits (hs_collections stats) @ '', '' @
       quoted_key ''peak_live_bytes'' @ nat_digits (hs_peak_live_bytes stats) @ ''}'' @ ''}'')"

text \<open>\<open>run_bench_mode\<close>: the exit code, what goes to the error stream, and the file.\<close>

definition run_bench_mode :: "host \<Rightarrow> options \<Rightarrow> nat \<Rightarrow> engine \<Rightarrow>
    ((nat \<times> string \<times> (string \<times> string) list) \<times> engine) main_result" where
  "run_bench_mode ho opts iterations e =
     bindo (run_bench ho iterations e) (\<lambda>((timings, result, error), e).
       case error of
         Some er \<Rightarrow> Ok ((kExitRuntimeError, line (format_runtime_error er), []), e)
       | None \<Rightarrow>
           if \<not> ho_write ho (op_bench_out opts)
           then Ok ((kExitNoInput, line (''rung: cannot write '' @ Lexer.quoted (op_bench_out opts)), []), e)
           else Ok ((kExitOk, '''',
             [(op_bench_out opts, bench_json (engine_name e) timings result (hp_stats (engine_heap e)))]), e))"

subsection \<open>Everything after the command line\<close>

text \<open>\<open>dump_tokens\<close>; \<open>%-13.*s\<close> and \<open>%.*s\<close> stop at a NUL.\<close>

definition pct_13s :: "string \<Rightarrow> string" where
  "pct_13s s = s @ replicate (13 - length s) (CHR '' '')"

definition dump_tokens :: "token list \<Rightarrow> string" where
  "dump_tokens tokens =
     concat (map (\<lambda>t. line (pct_4d (tk_line t) @ ''  '' @ pct_13s (token_kind_name (tk_kind t)) @ '' '' @
       c_string (sv_text (tk_lexeme t)))) tokens)"

definition print_stats :: "heap \<Rightarrow> string" where
  "print_stats h =
     (let stats = hp_stats h
      in line (''heap: '' @ nat_digits (hs_objects_allocated stats) @ '' objects allocated, '' @
        nat_digits (hs_bytes_allocated stats) @ '' bytes allocated, '' @ nat_digits (hs_collections stats) @
        '' collections, '' @ nat_digits (hs_peak_live_bytes stats) @ '' peak heap bytes''))"

definition size_line :: "bytecode_size \<Rightarrow> string" where
  "size_line bs =
     line (''bytecode: '' @ nat_digits (bs_functions bs) @ '' functions, '' @ nat_digits (bs_instructions bs) @
       '' instructions, '' @ nat_digits (bs_code_bytes bs) @ '' code bytes, '' @ nat_digits (bs_constants bs) @
       '' constants'')"

text \<open>Both bytecode compilers on a scratch heap; \<open>compiled\<close> is what \<open>show\<close> makes of the script function.\<close>

definition compile_scratch :: "host \<Rightarrow> bool \<Rightarrow> bool \<Rightarrow> program \<Rightarrow> (heap \<Rightarrow> function_object \<Rightarrow> (unit, 'a) outcome) \<Rightarrow>
    (compile_error + 'a) main_result" where
  "compile_scratch ho register fused p show =
     bindo (if register
            then bindo (main_outcome (compile_register fused (ho_size ho) [] p empty_heap))
              (\<lambda>(r, h). Ok (map_sum id fst r, h))
            else main_outcome (compile_stack (ho_size ho) [] p empty_heap))
       (\<lambda>(r, h).
          case r of
            Inl e \<Rightarrow> Ok (Inl e)
          | Inr a \<Rightarrow>
              (case function_at h (VObj a) of
                 None \<Rightarrow> Error MainFault
               | Some fo \<Rightarrow> bindo (main_outcome (show h fo)) (\<lambda>x. Ok (Inr x))))"

definition print_bytecode_size :: "host \<Rightarrow> options \<Rightarrow> program \<Rightarrow> string main_result" where
  "print_bytecode_size ho opts p =
     (let engine = op_engine opts;
          text = (\<lambda>r. case r of Inl e \<Rightarrow> '''' | Inr bs \<Rightarrow> size_line bs)
      in if engine = ''register'' \<or> engine = ''jit''
         then bindo (compile_scratch ho True (op_superinstructions opts) p (register_bytecode_size (ho_fuel ho))) (\<lambda>r. Ok (text r))
         else if engine = ''stack''
         then bindo (compile_scratch ho False False p (stack_bytecode_size (ho_fuel ho))) (\<lambda>r. Ok (text r))
         else Ok '''')"

definition dump_bytecode :: "host \<Rightarrow> options \<Rightarrow> program \<Rightarrow> (compile_error + string) main_result" where
  "dump_bytecode ho opts p =
     (if op_engine opts = ''register'' \<or> op_engine opts = ''jit''
      then compile_scratch ho True (op_superinstructions opts) p (disassemble_register (ho_fuel ho))
      else compile_scratch ho False False p (disassemble (ho_fuel ho)))"

text \<open>The second half of \<open>execute\<close>: the program runs, then bench mode and the statistics.\<close>

definition stats_lines :: "host \<Rightarrow> options \<Rightarrow> program \<Rightarrow> folder \<Rightarrow> engine \<Rightarrow> string main_result" where
  "stats_lines ho opts p folded e =
     bindo (print_bytecode_size ho opts p) (\<lambda>sizes.
       Ok ((if op_fold opts
            then line (''fold: '' @ nat_digits (fl_expressions_folded folded) @ '' expressions folded, '' @
              nat_digits (fl_statements_removed folded) @ '' statements removed'')
            else '''') @ sizes @ print_stats (engine_heap e) @ engine_stats e @
           (if op_want_pairs opts then engine_pairs e else '''')))"

fun run_outcome :: "compile_error + runtime_error option \<Rightarrow> nat \<times> string" where
  "run_outcome (Inl ce) = (kExitCompileError, line (format_error ce))"
| "run_outcome (Inr (Some re)) = (kExitRuntimeError, line (format_runtime_error re))"
| "run_outcome (Inr None) = (kExitOk, '''')"

definition run_measured :: "host \<Rightarrow> options \<Rightarrow> program \<Rightarrow> folder \<Rightarrow> string \<Rightarrow> nat \<times> string \<Rightarrow> engine \<Rightarrow>
    report main_result" where
  "run_measured ho opts p folded out ended e =
     bindo (case op_bench_iterations opts of
              Some iterations \<Rightarrow>
                if fst ended = kExitOk then run_bench_mode ho opts iterations e else Ok ((fst ended, '''', []), e)
            | None \<Rightarrow> Ok ((fst ended, '''', []), e)) (\<lambda>((code, bench_err, files), e).
     bindo (if op_want_stats opts then stats_lines ho opts p folded e else Ok '''') (\<lambda>stats.
       Ok \<lparr>rp_exit = code, rp_out = out @ engine_out e, rp_err = snd ended @ bench_err @ stats, rp_files = files\<rparr>))"

definition run_program :: "host \<Rightarrow> options \<Rightarrow> program \<Rightarrow> folder \<Rightarrow> string \<Rightarrow> report main_result" where
  "run_program ho opts p folded out =
     (case make_engine (ho_size ho) opts (empty_heap\<lparr>hp_stress := op_gc_stress opts\<rparr>) of
        None \<Rightarrow> Error MainFault
      | Some e \<Rightarrow>
          bindo (engine_run ho p e) (\<lambda>(r, e). run_measured ho opts p folded out (run_outcome r) e))"

text \<open>From the resolved program on: folding, the dumps, the run.\<close>

definition execute_program :: "host \<Rightarrow> options \<Rightarrow> string \<Rightarrow> program \<Rightarrow> report main_result" where
  "execute_program ho opts out q =
     (let (q, folded) = (if op_fold opts then fold_program (ho_size ho) q else (q, init_folder));
          out = out @ (if op_want_ast opts then dump_ast q else '''')
      in if op_want_bytecode opts
         then
           bindo (dump_bytecode ho opts q) (\<lambda>r.
             case r of
               Inl e \<Rightarrow> Ok (finish kExitCompileError out (line (format_error e)))
             | Inr text \<Rightarrow> Ok (finish kExitOk (out @ text) ''''))
         else if op_want_ast opts then Ok (finish kExitOk out '''')
         else run_program ho opts q folded out)"

definition execute_file :: "host \<Rightarrow> options \<Rightarrow> string \<Rightarrow> report main_result" where
  "execute_file ho opts source =
     (case (if op_want_tokens opts then lr_error (lex source) else None) of
        Some e \<Rightarrow> Ok (finish kExitCompileError '''' (line (format_error e)))
      | None \<Rightarrow>
          (let out = (if op_want_tokens opts then dump_tokens (lr_tokens (lex source)) else '''')
           in if op_want_tokens opts \<and> \<not> op_want_ast opts then Ok (finish kExitOk out '''')
              else
                (case parse source of
                   Timeout \<Rightarrow> Timeout
                 | Error e \<Rightarrow> Ok (finish kExitCompileError out (line (format_error e)))
                 | Ok p \<Rightarrow>
                     (case resolve p of
                        Inl e \<Rightarrow> Ok (finish kExitCompileError out (line (format_error e)))
                      | Inr q \<Rightarrow> execute_program ho opts out q))))"

definition execute_options :: "host \<Rightarrow> options \<Rightarrow> report main_result" where
  "execute_options ho opts =
     (case op_path opts of
        None \<Rightarrow> Error MainFault
      | Some path \<Rightarrow>
          (case ho_read ho path of
             None \<Rightarrow> Ok (finish kExitNoInput '''' (line (''rung: cannot read '' @ Lexer.quoted path)))
           | Some source \<Rightarrow> execute_file ho opts source))"

text \<open>\<open>main\<close>, without the name of the program. The thread with the big stack only runs \<open>execute\<close>.\<close>

definition rung_main :: "host \<Rightarrow> string list \<Rightarrow> report main_result" where
  "rung_main ho args =
     (case sbind (parse_args (ho_version ho) args default_options) check_options of
        Inl r \<Rightarrow> Ok r
      | Inr opts \<Rightarrow> execute_options ho opts)"

end
