(* ===== verification/Command_Line_Safe.thy ===== *)
theory Command_Line_Safe
  imports Command_Line Fold_Sound
begin

text \<open>
  The process ends in an orderly way: on the tree-walking engine no command line and no file makes \<open>rung\<close>
  follow a null or dangling pointer, and its exit code is one of the five that \<open>main.cpp\<close> names: 65 exactly
  for the programs the front end rejects.
\<close>

text \<open>\<open>bad\<close>: the front end finds fault with the program.\<close>

definition documented :: "bool \<Rightarrow> report \<Rightarrow> bool" where
  "documented bad r \<longleftrightarrow> rp_exit r \<in> {kExitOk, kExitUsage, kExitCompileError, kExitNoInput, kExitRuntimeError} \<and>
     (rp_exit r = kExitCompileError \<longleftrightarrow> bad) \<and> (rp_files r \<noteq> [] \<longrightarrow> rp_exit r = kExitOk)"

definition orderly :: "bool \<Rightarrow> report main_result \<Rightarrow> bool" where
  "orderly bad r = (case r of Ok r \<Rightarrow> documented bad r | Error _ \<Rightarrow> False | Timeout \<Rightarrow> True)"

lemma orderly_simps [simp]: "orderly bad (Ok r) = documented bad r" "\<not> orderly bad (Error e)" "orderly bad Timeout"
  by (simp_all add: orderly_def)

lemmas exit_codes = kExitOk_def kExitUsage_def kExitCompileError_def kExitNoInput_def kExitRuntimeError_def

lemma documented_finish [simp]:
  "documented False (finish kExitOk out err)" "documented False (finish kExitUsage out err)"
  "documented True (finish kExitCompileError out err)" "documented False (finish kExitNoInput out err)"
  by (simp_all add: documented_def finish_def exit_codes)

text \<open>What the front end has to say: the lexer alone when only tokens are wanted, else parser and resolver too.\<close>

definition rejected :: "options \<Rightarrow> string \<Rightarrow> bool" where
  "rejected opts source =
     (if op_want_tokens opts \<and> \<not> op_want_ast opts then lr_error (lex source) \<noteq> None
      else
        (case parse source of
           Error e \<Rightarrow> True
         | Timeout \<Rightarrow> False
         | Ok p \<Rightarrow> (case resolve p of Inl e \<Rightarrow> True | Inr q \<Rightarrow> False)))"

definition rejected_file :: "host \<Rightarrow> options \<Rightarrow> bool" where
  "rejected_file ho opts =
     (case op_path opts of
        None \<Rightarrow> False
      | Some path \<Rightarrow> (case ho_read ho path of None \<Rightarrow> False | Some source \<Rightarrow> rejected opts source))"

definition rejected_args :: "host \<Rightarrow> string list \<Rightarrow> bool" where
  "rejected_args ho args =
     (case sbind (parse_args (ho_version ho) args default_options) check_options of
        Inl r \<Rightarrow> False
      | Inr opts \<Rightarrow> rejected_file ho opts)"

subsection \<open>The options\<close>

definition tree_options :: "options \<Rightarrow> bool" where
  "tree_options opts \<longleftrightarrow> op_engine opts = ''tree'' \<and> \<not> op_want_bytecode opts"

definition tree_args :: "string list \<Rightarrow> bool" where
  "tree_args args \<longleftrightarrow> (\<forall>arg\<in>set args. \<not> has_prefix ''--engine='' arg \<and> arg \<noteq> ''--dump-bytecode'')"

lemma parse_arg_tree:
  assumes "tree_options opts" "\<not> has_prefix ''--engine='' arg" "arg \<noteq> ''--dump-bytecode''"
  shows "case parse_arg version arg opts of Inl r \<Rightarrow> documented False r | Inr opts \<Rightarrow> tree_options opts"
  using assms unfolding parse_arg_def tree_options_def
  by (simp add: usage_error_def split: option.split del: finish_def)

lemma parse_args_tree:
  "tree_options opts \<Longrightarrow> tree_args args \<Longrightarrow>
     case parse_args version args opts of Inl r \<Rightarrow> documented False r | Inr opts \<Rightarrow> tree_options opts"
proof (induction args arbitrary: opts)
  case (Cons arg args)
  have "case parse_arg version arg opts of Inl r \<Rightarrow> documented False r | Inr opts \<Rightarrow> tree_options opts"
    by (rule parse_arg_tree) (use Cons.prems in \<open>simp_all add: tree_args_def\<close>)
  then show ?case using Cons.IH Cons.prems(2)
    by (cases "parse_arg version arg opts") (simp_all add: tree_args_def)
qed simp

lemma check_options_tree:
  assumes "tree_options opts"
  shows "case check_options opts of
     Inl r \<Rightarrow> documented False r
   | Inr o' \<Rightarrow> o' = opts \<and> op_path opts \<noteq> None \<and> \<not> op_inline_cache opts \<and> \<not> op_superinstructions opts"
  using assms by (simp add: check_options_def tree_options_def usage_error_def Let_def engine_names_def)

subsection \<open>The run\<close>

definition rested :: "('a \<Rightarrow> bool) \<Rightarrow> ('a \<times> engine) main_result \<Rightarrow> bool" where
  "rested Q r = (case r of Ok (x, e) \<Rightarrow> Q x \<and> (\<exists>s. e = TreeEngine s \<and> resting s) | Error _ \<Rightarrow> False | Timeout \<Rightarrow> True)"

lemma rested_bind:
  "rested Q m \<Longrightarrow> (\<And>x s. Q x \<Longrightarrow> resting s \<Longrightarrow> P (k (x, TreeEngine s))) \<Longrightarrow> P Timeout \<Longrightarrow> P (bindo m k)"
  by (cases m) (auto simp: rested_def)

lemma rested_tok:
  "tok m s (\<lambda>_. resting) \<Longrightarrow> (\<And>x. Q (f x)) \<Longrightarrow> rested Q (bindo (main_outcome (m s)) (\<lambda>(r, s). Ok (f r, TreeEngine s)))"
  by (cases "m s") (auto simp: tok_def rested_def)

lemma rested_call: "resting s \<Longrightarrow> rested (\<lambda>_. True) (engine_call ho name (TreeEngine s))"
  using rested_tok [OF call_global_ok, of s "\<lambda>_. True" "\<lambda>r. r"] by simp

lemma rested_run_bench_from:
  "resting s \<Longrightarrow> rested (\<lambda>_. True) (run_bench_from ho i left ns result (TreeEngine s))"
proof (induction left arbitrary: i ns result s)
  case (Suc left)
  show ?case
    unfolding run_bench_from.simps
    by (rule rested_bind [OF rested_call [OF Suc.prems]])
      (auto simp: Suc.IH split: prod.split, simp_all add: rested_def)
qed (simp add: rested_def)

definition measured :: "((nat \<times> string \<times> (string \<times> string) list) \<times> engine) main_result \<Rightarrow> bool" where
  "measured m = (case m of
     Ok ((code, _, files), _) \<Rightarrow> code \<in> {kExitOk, kExitNoInput, kExitRuntimeError} \<and> (files \<noteq> [] \<longrightarrow> code = kExitOk)
   | Error _ \<Rightarrow> False
   | Timeout \<Rightarrow> True)"

lemma measured_simps [simp]:
  "measured (Ok ((code, err, files), e)) \<longleftrightarrow>
     code \<in> {kExitOk, kExitNoInput, kExitRuntimeError} \<and> (files \<noteq> [] \<longrightarrow> code = kExitOk)"
  "\<not> measured (Error f)" "measured Timeout"
  by (simp_all add: measured_def)

lemma measured_bench_mode: "resting s \<Longrightarrow> measured (run_bench_mode ho opts iterations (TreeEngine s))"
  unfolding run_bench_mode_def run_bench_def
  by (rule rested_bind [OF rested_run_bench_from]) (simp_all split: prod.split option.split)

lemma documented_run:
  "code \<in> {kExitOk, kExitNoInput, kExitRuntimeError} \<Longrightarrow> (files \<noteq> [] \<longrightarrow> code = kExitOk) \<Longrightarrow>
     documented False \<lparr>rp_exit = code, rp_out = out, rp_err = err, rp_files = files\<rparr>"
  by (auto simp: documented_def exit_codes)

lemma stats_lines_tree:
  "tree_options opts \<Longrightarrow> \<exists>out. stats_lines ho opts p folded e = Ok out"
  by (simp add: stats_lines_def print_bytecode_size_def tree_options_def Let_def)

lemma run_outcome_exit: "fst (run_outcome (Inr e)) \<in> {kExitOk, kExitRuntimeError}"
  by (cases e) simp_all

lemma run_measured_tree:
  assumes opts: "tree_options opts" and s: "resting s"
  shows "orderly False (run_measured ho opts p folded out (run_outcome (Inr e)) (TreeEngine s))"
proof -
  let ?code = "fst (run_outcome (Inr e))"
  let ?bench = "case op_bench_iterations opts of
      Some iterations \<Rightarrow>
        if ?code = kExitOk then run_bench_mode ho opts iterations (TreeEngine s) else Ok ((?code, '''', []), TreeEngine s)
    | None \<Rightarrow> Ok ((?code, '''', []), TreeEngine s)"
  have b: "measured ?bench"
    using run_outcome_exit [of e] measured_bench_mode [OF s] by (auto split: option.split)
  show ?thesis
  proof (cases ?bench)
    case (Ok x)
    obtain n err fs e where x: "x = ((n, err, fs), e)" by (cases x) auto
    obtain out where t: "stats_lines ho opts p folded e = Ok out" using stats_lines_tree [OF opts] by blast
    from b show ?thesis unfolding run_measured_def Ok x by (simp add: t documented_run)
  qed (use b in \<open>simp_all add: run_measured_def\<close>)
qed

lemma run_program_tree:
  assumes opts: "tree_options opts" "\<not> op_inline_cache opts" "\<not> op_superinstructions opts"
    and p: "scoped_ss 0 [] (pr_statements p)" "plain_ss (pr_statements p)"
  shows "orderly False (run_program ho opts p folded out)"
proof -
  let ?s = "init_tree (ho_size ho) (empty_heap\<lparr>hp_stress := op_gc_stress opts\<rparr>)"
  have e: "make_engine (ho_size ho) opts (empty_heap\<lparr>hp_stress := op_gc_stress opts\<rparr>) = Some (TreeEngine ?s)"
    using opts by (simp add: make_engine_def tree_options_def)
  have r: "rested (\<lambda>r. \<exists>e. r = Inr e) (engine_run ho p (TreeEngine ?s))"
    using rested_tok [OF tree_run_ok [OF init_tree_ok p], where f = Inr and Q = "\<lambda>r. \<exists>e. r = Inr e"] by simp
  show ?thesis
    unfolding run_program_def e option.case
    by (rule rested_bind [OF r]) (auto simp: run_measured_tree [OF opts(1)])
qed

subsection \<open>The front end\<close>

text \<open>What the rest of \<open>main\<close> is given: a program that the resolver accepted, folded or not.\<close>

lemma folded_ready:
  assumes "parse source = Ok p" "resolve p = Inr q"
  shows "scoped_ss 0 [] (pr_statements (fst (fold_program sz q)))" "plain_ss (pr_statements (fst (fold_program sz q)))"
  using scoped_folded_s(2) [OF front_end_ok [OF assms]]
  by (simp_all add: fold_program_def split_beta fold_folded_s Let_def)

lemma execute_program_tree:
  assumes opts: "tree_options opts" "\<not> op_inline_cache opts" "\<not> op_superinstructions opts"
    and q: "parse source = Ok p" "resolve p = Inr q"
  shows "orderly False (execute_program ho opts out q)"
  using run_program_tree [OF opts front_end_ok [OF q]] run_program_tree [OF opts folded_ready [OF q]] opts(1)
  by (simp add: execute_program_def tree_options_def Let_def split_beta)

lemma parse_lexes: "lr_error (lex source) = Some e \<Longrightarrow> parse source = Error e"
  by (simp add: parse_def Let_def)

lemma execute_file_tree:
  assumes opts: "tree_options opts" "\<not> op_inline_cache opts" "\<not> op_superinstructions opts"
  shows "orderly (rejected opts source) (execute_file ho opts source)"
proof (cases "parse source")
  case (Ok p)
  then have lexed: "lr_error (lex source) = None" by (cases "lr_error (lex source)") (simp_all add: parse_lexes)
  show ?thesis
  proof (cases "resolve p")
    case (Inr q)
    show ?thesis using execute_program_tree [OF opts Ok Inr]
      by (simp add: execute_file_def rejected_def Ok Inr lexed Let_def)
  qed (simp add: execute_file_def rejected_def Ok lexed Let_def)
next
  case (Error e)
  then show ?thesis by (simp add: execute_file_def rejected_def Let_def split: option.split)
next
  case Timeout
  then have "lr_error (lex source) = None" by (cases "lr_error (lex source)") (simp_all add: parse_lexes)
  with Timeout show ?thesis by (simp add: execute_file_def rejected_def Let_def)
qed

lemma execute_options_tree:
  assumes opts: "tree_options opts" "\<not> op_inline_cache opts" "\<not> op_superinstructions opts" "op_path opts \<noteq> None"
  shows "orderly (rejected_file ho opts) (execute_options ho opts)"
  using opts(4) by (auto simp: execute_options_def rejected_file_def execute_file_tree [OF opts(1-3)] split: option.split)


text \<open>A host with one file.\<close>

definition demo_host :: host where
  "demo_host =
     \<lparr>ho_version = ''0.1'', ho_read = (\<lambda>path. if path = ''p.rg'' then Some ''1'' else None), ho_write = (\<lambda>_. True),
      ho_size = (\<lambda>_. 40), ho_clock = (\<lambda>_. 0), ho_time = (\<lambda>_. 0), ho_fuel = 9\<rparr>"


end
