(* ===== verification/Spec2Isabelle.thy ===== *)
theory Spec2Isabelle
  imports Lexer_Spec Parser_Total Resolver_Spec Value Chunk Reg_Code Heap_Spec Ops_Spec Fold_Sound Stack_Session Reg_Session
    Arm64_Spec Arm64_Moves Arm64_Labels Disassembler Jit_Compiler Jit_Fused Jit_Total Jit_Live Command_Line_Safe
begin

text \<open>
  A model of Rung: one language, a front end, three engines that run it and a baseline JIT for the
  third. The model is translated from the C++ sources under \<open>src/src\<close>, part by part; this text says
  which theory models which files, how the parts fit together, what is proved of them, and what is not
  modelled.

  \<^bold>\<open>How the program is put together.\<close> A source text is lexed and parsed into a tree (\<open>lexer.cpp\<close>,
  \<open>parser.cpp\<close>), the resolver binds every name (\<open>resolver.cpp\<close>), and constant folding may rewrite the
  tree (\<open>fold.cpp\<close>). Then one engine runs it: the tree-walking engine (\<open>engine_tree.cpp\<close>) walks the
  tree; the stack engine compiles it to bytecode for a stack machine (\<open>compiler_stack.cpp\<close>,
  \<open>vm_stack.cpp\<close>); the register engine compiles it to bytecode for a register machine
  (\<open>compiler_reg.cpp\<close>, \<open>vm_reg.cpp\<close>), whose pairs of instructions may be fused
  (\<open>superinstructions.cpp\<close>) and whose hot functions the JIT turns into ARM64 code (\<open>jit/\<close>). All engines
  share the values (\<open>runtime/value.h\<close>), the heap with its mark and sweep collector
  (\<open>runtime/heap.cpp\<close>) and the operations (\<open>runtime/ops.cpp\<close>). Whatever allocates may start a collection, so
  every operation of the model that allocates takes the roots its C++ counterpart would mark.

  \<^bold>\<open>Theories and sources.\<close>
  \<^item> \<open>Prelude\<close>, \<open>Exec_Monad\<close>: results with errors and fuel (\<open>outcome\<close>), actions on a state that may stop
    (\<open>exec\<close>), their weakest preconditions, and the rules the proofs step through actions with.
  \<^item> \<open>Float64\<close>: the \<open>double\<close> of the program as 64-bit words with IEEE arithmetic over exact integers,
    and the decimal conversions of \<open>strtod\<close> and \<open>%g\<close>; \<open>Value\<close>: \<open>runtime/value.h\<close>, both representations.
  \<^item> \<open>Lexer\<close>: \<open>token.h\<close>, \<open>token.cpp\<close>, \<open>diagnostic.h\<close>, \<open>lexer.cpp\<close>; \<open>Ast\<close>: \<open>ast.h\<close>; \<open>Parser\<close>: \<open>parser.cpp\<close>;
    \<open>Resolver\<close>: \<open>resolver.cpp\<close>; \<open>Fold\<close>: \<open>fold.cpp\<close>.
  \<^item> \<open>Line_Table\<close>, \<open>Chunk\<close>: \<open>bytecode/chunk.h\<close> and \<open>chunk.cpp\<close>; \<open>Reg_Code\<close>: \<open>bytecode/register_code.h\<close>,
    \<open>register_code.cpp\<close> and \<open>superinstructions.cpp\<close>; \<open>Disassembler\<close>: \<open>disassembler.cpp\<close>.
  \<^item> \<open>Heap\<close>: \<open>runtime/object.h\<close>, \<open>function.h\<close>, \<open>heap.cpp\<close>; \<open>Ops\<close>: \<open>runtime/ops.cpp\<close> and \<open>natives.cpp\<close>.
  \<^item> \<open>Tree_Engine\<close>: \<open>engine_tree.cpp\<close>; \<open>Stack_Compiler\<close>: \<open>compiler_stack.cpp\<close>; \<open>Stack_VM\<close>: \<open>vm_stack.cpp\<close>;
    \<open>Reg_Compiler\<close>: \<open>compiler_reg.cpp\<close>; \<open>Reg_VM\<close>: \<open>vm_reg.cpp\<close>.
  \<^item> \<open>Arm64\<close>, \<open>Arm64_Emitter\<close>: \<open>jit/arm64_emitter.cpp\<close>; \<open>Jit_Compiler\<close>: \<open>jit/jit_compiler.cpp\<close>; \<open>Exec_Memory\<close>:
    \<open>jit/exec_memory.cpp\<close>; \<open>Jit_Runtime\<close>: \<open>jit/jit.cpp\<close> and the hooks of \<open>vm_reg.cpp\<close>, one definition per critical
    section; \<open>Jit_Threads\<close>: the interleaving of the engine's thread and the compiler thread as step relations.
  \<^item> \<open>Ast_Dump\<close>: \<open>ast_dump.cpp\<close>; \<open>Command_Line\<close>: \<open>main.cpp\<close>, \<open>engine.cpp\<close>, \<open>bench.cpp\<close>: \<open>rung_main\<close> takes the
    arguments to the exit code, the two streams and the benchmark file, through every part above but the JIT.

  A C++ struct is a record with the same fields, an enum a datatype with the enumerators in order, a
  member function a definition of the same name (with a prefix where two classes share it) from the
  state to the result and the new state. A pointer to a heap object is an address that is never reused;
  a null or dangling pointer, an index outside a vector and a failed assertion stop the model with an
  error of their own (\<open>Stuck\<close>, \<open>BadPointer\<close>, \<open>Undefined\<close>), which the safety theorems exclude. An
  exception of the C++ is an error value. Machine integers are words of their width.

  \<^bold>\<open>What is proved.\<close>
  \<^item> \<open>Lexer_Spec\<close>: a successful lex tiles the source. \<open>Parser_Spec\<close>, \<open>Parser_Expr\<close>, \<open>Parser_Total\<close>: parsing
    always returns, follows the grammar on exactly the tokens, keeps the nesting limits, and reports
    errors on lines of the source. \<open>Resolver_Spec\<close>: bindings are the lexical scopes.
  \<^item> \<open>Heap_Spec\<close>: a collection frees exactly what no root reaches and keeps the heap's invariant; interned
    strings are unique. \<open>Gc_Client\<close> states the contract of allocating code as a locale, which the
    engines and the compilers interpret. \<open>Ops_Spec\<close>: the laws of arithmetic, comparison, printing, arrays.
  \<^item> \<open>Tree_Safe\<close>, \<open>Tree_Sound\<close>, \<open>Tree_Fuel\<close>: resolved programs run safely on the tree engine under every
    collection schedule, and fuel does not change results. \<open>Fold_Spec\<close>, \<open>Fold_Sound\<close>: folding against that
    engine.
  \<^item> \<open>Compiler_Host\<close>, \<open>Upvalue_Host\<close> (shared contracts), \<open>Stack_Safe\<close> to \<open>Stack_Session\<close> and \<open>Reg_Safe\<close> to
    \<open>Reg_Session\<close>: the invariants of the two machines between any two instructions, for every bytecode,
    and that every entry point leaves the machine at rest.
  \<^item> \<open>Reg_Code\<close>, \<open>Chunk\<close>, \<open>Line_Table\<close>: encodings are read back; fusing is recoverable.
  \<^item> \<open>Arm64_Spec\<close>: what the encoder writes decodes to the same instruction; \<open>Arm64_Moves\<close>: constants are
    materialised exactly and in the fewest instructions; \<open>Arm64_Labels\<close>: branches reach their labels.
  \<^item> \<open>Jit_Total\<close>: a whitelisted function is compiled, and the generator meets no undefined step; \<open>Jit_Fused\<close>: fused
    and unfused code are compiled alike. \<open>Jit_Frozen\<close>: what the compiler thread reads does not change under it;
    \<open>Jit_Threads\<close> and \<open>Jit_Handoff\<close>: it reads live objects only, and an entry leads to the code of its function;
    \<open>Jit_Live\<close>: under fairness a queued function is compiled or rejected.
  \<^item> \<open>Command_Line_Safe\<close>: the exit codes of a run on the tree engine, and that it never faults, from the bytes of
    the file on. \<open>Ast_Dump\<close>: the loop over a chain of operations prints what the recursion over the tree prints.

  \<^bold>\<open>Fuel and bounds.\<close> The parser gets fuel from the number of tokens, and \<open>parse_total\<close> shows that it
  never runs out. The engines may run forever, so their fuel is an argument: \<open>Timeout\<close> stands for a run that
  was cut off, the safety theorems hold for every fuel, and for the tree engine more fuel never changes a result.
  The limits of the code (nesting, chains, call depth, registers, constants) are definitions with the code's values.

  \<^bold>\<open>Parameters.\<close> The clock of the natives (\<open>clk\<close>), the size of an object in bytes as the allocator
  reports it (\<open>sz\<close>), the layout of C++ containers that the JIT measures at run time (\<open>jit_env\<close>), the operating
  system's pages and permissions (\<open>os\<close>), the time a compilation takes, and the files, clocks and fuel of the
  process (\<open>host\<close>) are arguments of the definitions. Of the
  system it is assumed that a page has at least one byte; of the functions the VM counts for the JIT, that
  their opcodes exist and their constant operands are constants of theirs (\<open>jit_code_ok\<close>).

  \<^bold>\<open>Not modelled.\<close> \<open>Command_Line\<close> is the program of a build without the JIT; of \<open>output.cpp\<close> it has what is
  written, not the moments of writing, and the thread with the big stack, the scheduling hint of \<open>bench.cpp\<close> and
  the reading of a file in blocks are left out. The execution of the generated machine code lies outside the
  C++: the processor is not part of the program, so the index that machine code returns is an argument of the
  step that reads it. The threads of the JIT are interleaved step by step, which is what the release store and
  the acquire load of the C++ give; weaker memory orders are not modelled. The optional instruction counters
  of the machines (\<open>vm/counters.h\<close>) exist under a build option and are left out.
\<close>

end
